(* ===== verification/HSS_Prelude.thy ===== *)
theory HSS_Prelude
  imports Main "HOL-Library.Word" "HOL-Library.Monad_Syntax"
begin

unbundle bit_operations_syntax

text \<open>
  Shared vocabulary of the development: the machine integer types of the C
  sources, the halting convention for \<^verbatim>\<open>assert\<close>, byte lists, and the
  generic lemmas on lists, options and words that the component theories use.

  A failed \<^verbatim>\<open>assert\<close> ends in \<^verbatim>\<open>__assert_func\<close> (modules/misc/assert.c), which
  prints a message and spins for ever.  Operations that contain an assertion, or
  that index an array with a value the code does not check, therefore return an
  \<open>option\<close>: \<open>None\<close> stands for "this hart never returns from the call" (a failed
  assertion) or for an access outside the array, and is never produced silently.
\<close>

subsection \<open>Machine integers\<close>

type_synonym u8 = "8 word"
type_synonym u16 = "16 word"
type_synonym u32 = "32 word"
type_synonym u64 = "64 word"

text \<open>\<open>enum HSSHartId\<close>: 0 is the E51 monitor hart, 1 to 4 are the U54 application harts.\<close>

type_synonym hart = nat

abbreviation (input) HSS_HART_E51 :: hart where "HSS_HART_E51 \<equiv> 0"
abbreviation (input) HSS_HART_U54_1 :: hart where "HSS_HART_U54_1 \<equiv> 1"
abbreviation (input) HSS_HART_U54_2 :: hart where "HSS_HART_U54_2 \<equiv> 2"
abbreviation (input) HSS_HART_U54_3 :: hart where "HSS_HART_U54_3 \<equiv> 3"
abbreviation (input) HSS_HART_U54_4 :: hart where "HSS_HART_U54_4 \<equiv> 4"
abbreviation (input) HSS_HART_NUM_PEERS :: hart where "HSS_HART_NUM_PEERS \<equiv> 5"
abbreviation (input) HSS_HART_ALL :: hart where "HSS_HART_ALL \<equiv> 5"
abbreviation (input) MAX_NUM_HARTS :: nat where "MAX_NUM_HARTS \<equiv> 5"

text \<open>The bitmask of all U54 harts: bits 1 to 4.\<close>

abbreviation (input) mHSS_BITMASK_ALL_U54 :: u32 where "mHSS_BITMASK_ALL_U54 \<equiv> 0x1E"

subsection \<open>Collections of rules\<close>

named_theorems hss_defs \<open>definitions a component unfolds in its own proofs\<close>
named_theorems hss_frame \<open>what an operation leaves unchanged\<close>
named_theorems hss_len \<open>lengths of the arrays an operation returns\<close>

subsection \<open>Assertions and checked array access\<close>

definition assert_c :: "bool \<Rightarrow> unit option" where
  "assert_c b = (if b then Some () else None)"

lemma assert_c_simps [simp]:
  "assert_c True = Some ()"
  "assert_c False = None"
  by (simp_all add: assert_c_def)

lemma assert_c_bind_Some [simp]:
  "(Option.bind (assert_c b) f = Some r) \<longleftrightarrow> b \<and> f () = Some r"
  by (cases b) auto

lemma assert_c_bind_None [simp]:
  "(Option.bind (assert_c b) f = None) \<longleftrightarrow> (b \<longrightarrow> f () = None)"
  by (cases b) auto

definition nth_opt :: "'a list \<Rightarrow> nat \<Rightarrow> 'a option" where
  "nth_opt xs i = (if i < length xs then Some (xs ! i) else None)"

lemma nth_opt_simps [simp]:
  "i < length xs \<Longrightarrow> nth_opt xs i = Some (xs ! i)"
  "length xs \<le> i \<Longrightarrow> nth_opt xs i = None"
  by (simp_all add: nth_opt_def)

lemma nth_opt_eq_Some [simp]: "(nth_opt xs i = Some x) \<longleftrightarrow> i < length xs \<and> xs ! i = x"
  by (auto simp: nth_opt_def)

subsection \<open>First index of a list with a property: the scan loops of the code\<close>

text \<open>
  \<^verbatim>\<open>for (i = 0; i < n; i++) { if (p(xs[i])) { ...; break; } }\<close> acts on the first
  index at which \<open>p\<close> holds, if there is one.
\<close>

fun find_index :: "('a \<Rightarrow> bool) \<Rightarrow> 'a list \<Rightarrow> nat option" where
  "find_index p [] = None"
| "find_index p (x # xs) = (if p x then Some 0 else map_option Suc (find_index p xs))"

lemma find_index_None [simp]: "(find_index p xs = None) \<longleftrightarrow> (\<forall>x\<in>set xs. \<not> p x)"
  by (induction xs) auto

lemma find_index_SomeD:
  "find_index p xs = Some i \<Longrightarrow> i < length xs \<and> p (xs ! i) \<and> (\<forall>j<i. \<not> p (xs ! j))"
proof (induction xs arbitrary: i)
  case Nil
  then show ?case by simp
next
  case (Cons x xs)
  show ?case
  proof (cases "p x")
    case True
    with Cons.prems show ?thesis by simp
  next
    case False
    with Cons.prems obtain k where k: "find_index p xs = Some k" and i: "i = Suc k"
      by auto
    from Cons.IH [OF k] False i show ?thesis
      by (auto simp: less_Suc_eq_0_disj)
  qed
qed

lemma find_index_SomeI:
  "i < length xs \<Longrightarrow> p (xs ! i) \<Longrightarrow> (\<And>j. j < i \<Longrightarrow> \<not> p (xs ! j)) \<Longrightarrow> find_index p xs = Some i"
proof (induction xs arbitrary: i)
  case Nil
  then show ?case by simp
next
  case (Cons x xs)
  show ?case
  proof (cases i)
    case 0
    with Cons.prems show ?thesis by simp
  next
    case (Suc k)
    have "\<not> p x" using Cons.prems(3) [of 0] Suc by simp
    moreover have "find_index p xs = Some k"
    proof (rule Cons.IH)
      show "k < length xs" using Cons.prems(1) Suc by simp
      show "p (xs ! k)" using Cons.prems(2) Suc by simp
      show "\<not> p (xs ! j)" if "j < k" for j
        using Cons.prems(3) [of "Suc j"] that Suc by simp
    qed
    ultimately show ?thesis using Suc by simp
  qed
qed

lemma find_index_Some_iff:
  "find_index p xs = Some i \<longleftrightarrow> i < length xs \<and> p (xs ! i) \<and> (\<forall>j<i. \<not> p (xs ! j))"
proof
  show "i < length xs \<and> p (xs ! i) \<and> (\<forall>j<i. \<not> p (xs ! j))" if "find_index p xs = Some i"
    using that by (rule find_index_SomeD)
  show "find_index p xs = Some i" if "i < length xs \<and> p (xs ! i) \<and> (\<forall>j<i. \<not> p (xs ! j))"
    using that by (intro find_index_SomeI) auto
qed

lemma find_index_ex: "(\<exists>i. find_index p xs = Some i) \<longleftrightarrow> (\<exists>x\<in>set xs. p x)"
  using find_index_None [of p xs] by (cases "find_index p xs") auto

lemma find_index_length [dest]: "find_index p xs = Some i \<Longrightarrow> i < length xs"
  by (simp add: find_index_Some_iff)

subsection \<open>Words\<close>

lemma unat_lt_size [simp]: "unat (w :: 'a::len word) < 2 ^ LENGTH('a)"
  by (rule unsigned_less)

lemma word_xor_cancel [simp]:
  fixes x y :: "'a::len word"
  shows "x XOR (x XOR y) = y" and "(x XOR y) XOR y = x"
proof -
  show "x XOR (x XOR y) = y" by (simp flip: xor.assoc)
  show "(x XOR y) XOR y = x" by (simp add: xor.assoc)
qed

lemma word_xor_eq_iff [simp]:
  fixes x y z :: "'a::len word"
  shows "(x XOR y = x XOR z) \<longleftrightarrow> y = z" and "(y XOR x = z XOR x) \<longleftrightarrow> y = z"
proof -
  show l: "(x XOR y = x XOR z) \<longleftrightarrow> y = z" for y z
  proof
    assume "x XOR y = x XOR z"
    then have "x XOR (x XOR y) = x XOR (x XOR z)" by (rule arg_cong)
    then show "y = z" by (simp only: word_xor_cancel)
  qed simp
  show "(y XOR x = z XOR x) \<longleftrightarrow> y = z"
    using l [of y z] by (simp only: xor.commute [of y x] xor.commute [of z x])
qed

lemma word_xor_eq_0_iff [simp]:
  fixes x y :: "'a::len word"
  shows "(x XOR y = 0) \<longleftrightarrow> x = y"
proof
  assume "x XOR y = 0"
  then have "x XOR (x XOR y) = x" by simp
  then show "x = y" by (simp only: word_xor_cancel)
qed simp

lemma drop_bit_1_eq_0:
  fixes x :: "'a::len word"
  shows "even x \<Longrightarrow> drop_bit 1 x = 0 \<Longrightarrow> x = 0"
  by (metis One_nat_def bit_eq_rec div_0 drop_bit_0 drop_bit_Suc even_zero id_apply)

lemma drop_bit_word_less:
  fixes x :: "'a::len word"
  shows "unat x < 2 ^ n \<Longrightarrow> drop_bit n x = 0"
proof (rule unat_eq_zero [THEN iffD1])
  have "unat (drop_bit n x) = unat x div 2 ^ n"
    by (subst unat_drop_bit_eq) (rule drop_bit_eq_div)
  then show "unat x < 2 ^ n \<Longrightarrow> unat (drop_bit n x) = 0" by simp
qed

lemma unat_ucast_up:
  "LENGTH('a) \<le> LENGTH('b) \<Longrightarrow> unat (ucast (w :: 'a::len word) :: 'b::len word) = unat w"
proof -
  assume le: "LENGTH('a) \<le> LENGTH('b)"
  have "unat w < 2 ^ LENGTH('b)"
    by (rule less_le_trans [OF unsigned_less]) (simp add: le)
  then show ?thesis
    by (simp add: unsigned_ucast_eq take_bit_nat_eq_self)
qed

lemma ucast_up_inject:
  "LENGTH('a) \<le> LENGTH('b) \<Longrightarrow>
    (ucast (v :: 'a::len word) = (ucast (w :: 'a::len word) :: 'b::len word)) \<longleftrightarrow> v = w"
  by (metis unat_ucast_up word_unat_eq_iff)

lemma u32_and_ones [simp]: "(x :: u32) AND 0xFFFFFFFF = x"
proof -
  have "(0xFFFFFFFF :: u32) = -1" by simp
  then show ?thesis by (simp only: and_minus_numerals bit.conj_one_right)
qed

end
