(* ===== verification/HSS_Crc.thy ===== *)
theory HSS_Crc
  imports HSS_Prelude
begin

text \<open>
  The three cyclic redundancy checks of the repository.
  \<^item> modules/misc/hss_crc32.c: CRC-32 over boot images, GPT headers and partition
    entries, with two configurations of its table: precalculated
    (\<^verbatim>\<open>CONFIG_CRC32_USE_PRECALC_TABLE\<close>) or generated on first use.  Both are modelled
    and shown equal.  tools/hss-payload-generator/crc32.c holds the same code.
  \<^item> modules/misc/hss_crc16.c: the bit-serial CRC-16 of the YMODEM blocks.
  \<^item> services/telemetry/packet/Crc.c: the table-driven CRC-16 of the telemetry packets.
  For each: the table code against the bit-serial reference, the incremental
  (rolling) use, and the detection of any single corrupted byte.
\<close>

subsection \<open>CRC-32\<close>

definition CRC32_XOR_PATTERN :: u32 where
  "CRC32_XOR_PATTERN = 0xEDB88320"

text \<open>One turn of the inner loop of \<^verbatim>\<open>CRC32_genTable_\<close>.\<close>

definition crc32_bit :: "u32 \<Rightarrow> u32" where
  "crc32_bit crc = (if crc AND 1 \<noteq> 0 then drop_bit 1 crc XOR CRC32_XOR_PATTERN else drop_bit 1 crc)"

text \<open>The inner loop runs eight times.\<close>

definition crc32_byte :: "u32 \<Rightarrow> u32" where
  "crc32_byte crc = (crc32_bit ^^ 8) crc"

text \<open>
  \<^verbatim>\<open>CRC32_genTable_\<close> fills entries 1 to 255 of a zeroed table (its counter is a
  \<^verbatim>\<open>uint8_t\<close> that starts at 1 and stops when it wraps to 0).
\<close>

definition CRC32_genTable :: "u32 list" where
  "CRC32_genTable = 0 # map (\<lambda>i. crc32_byte (word_of_nat i)) [1..<256]"

definition precalcTable :: "u32 list" where
  "precalcTable = [
    0x00000000, 0x77073096, 0xEE0E612C, 0x990951BA, 0x076DC419, 0x706AF48F,
    0xE963A535, 0x9E6495A3, 0x0EDB8832, 0x79DCB8A4, 0xE0D5E91E, 0x97D2D988,
    0x09B64C2B, 0x7EB17CBD, 0xE7B82D07, 0x90BF1D91, 0x1DB71064, 0x6AB020F2,
    0xF3B97148, 0x84BE41DE, 0x1ADAD47D, 0x6DDDE4EB, 0xF4D4B551, 0x83D385C7,
    0x136C9856, 0x646BA8C0, 0xFD62F97A, 0x8A65C9EC, 0x14015C4F, 0x63066CD9,
    0xFA0F3D63, 0x8D080DF5, 0x3B6E20C8, 0x4C69105E, 0xD56041E4, 0xA2677172,
    0x3C03E4D1, 0x4B04D447, 0xD20D85FD, 0xA50AB56B, 0x35B5A8FA, 0x42B2986C,
    0xDBBBC9D6, 0xACBCF940, 0x32D86CE3, 0x45DF5C75, 0xDCD60DCF, 0xABD13D59,
    0x26D930AC, 0x51DE003A, 0xC8D75180, 0xBFD06116, 0x21B4F4B5, 0x56B3C423,
    0xCFBA9599, 0xB8BDA50F, 0x2802B89E, 0x5F058808, 0xC60CD9B2, 0xB10BE924,
    0x2F6F7C87, 0x58684C11, 0xC1611DAB, 0xB6662D3D, 0x76DC4190, 0x01DB7106,
    0x98D220BC, 0xEFD5102A, 0x71B18589, 0x06B6B51F, 0x9FBFE4A5, 0xE8B8D433,
    0x7807C9A2, 0x0F00F934, 0x9609A88E, 0xE10E9818, 0x7F6A0DBB, 0x086D3D2D,
    0x91646C97, 0xE6635C01, 0x6B6B51F4, 0x1C6C6162, 0x856530D8, 0xF262004E,
    0x6C0695ED, 0x1B01A57B, 0x8208F4C1, 0xF50FC457, 0x65B0D9C6, 0x12B7E950,
    0x8BBEB8EA, 0xFCB9887C, 0x62DD1DDF, 0x15DA2D49, 0x8CD37CF3, 0xFBD44C65,
    0x4DB26158, 0x3AB551CE, 0xA3BC0074, 0xD4BB30E2, 0x4ADFA541, 0x3DD895D7,
    0xA4D1C46D, 0xD3D6F4FB, 0x4369E96A, 0x346ED9FC, 0xAD678846, 0xDA60B8D0,
    0x44042D73, 0x33031DE5, 0xAA0A4C5F, 0xDD0D7CC9, 0x5005713C, 0x270241AA,
    0xBE0B1010, 0xC90C2086, 0x5768B525, 0x206F85B3, 0xB966D409, 0xCE61E49F,
    0x5EDEF90E, 0x29D9C998, 0xB0D09822, 0xC7D7A8B4, 0x59B33D17, 0x2EB40D81,
    0xB7BD5C3B, 0xC0BA6CAD, 0xEDB88320, 0x9ABFB3B6, 0x03B6E20C, 0x74B1D29A,
    0xEAD54739, 0x9DD277AF, 0x04DB2615, 0x73DC1683, 0xE3630B12, 0x94643B84,
    0x0D6D6A3E, 0x7A6A5AA8, 0xE40ECF0B, 0x9309FF9D, 0x0A00AE27, 0x7D079EB1,
    0xF00F9344, 0x8708A3D2, 0x1E01F268, 0x6906C2FE, 0xF762575D, 0x806567CB,
    0x196C3671, 0x6E6B06E7, 0xFED41B76, 0x89D32BE0, 0x10DA7A5A, 0x67DD4ACC,
    0xF9B9DF6F, 0x8EBEEFF9, 0x17B7BE43, 0x60B08ED5, 0xD6D6A3E8, 0xA1D1937E,
    0x38D8C2C4, 0x4FDFF252, 0xD1BB67F1, 0xA6BC5767, 0x3FB506DD, 0x48B2364B,
    0xD80D2BDA, 0xAF0A1B4C, 0x36034AF6, 0x41047A60, 0xDF60EFC3, 0xA867DF55,
    0x316E8EEF, 0x4669BE79, 0xCB61B38C, 0xBC66831A, 0x256FD2A0, 0x5268E236,
    0xCC0C7795, 0xBB0B4703, 0x220216B9, 0x5505262F, 0xC5BA3BBE, 0xB2BD0B28,
    0x2BB45A92, 0x5CB36A04, 0xC2D7FFA7, 0xB5D0CF31, 0x2CD99E8B, 0x5BDEAE1D,
    0x9B64C2B0, 0xEC63F226, 0x756AA39C, 0x026D930A, 0x9C0906A9, 0xEB0E363F,
    0x72076785, 0x05005713, 0x95BF4A82, 0xE2B87A14, 0x7BB12BAE, 0x0CB61B38,
    0x92D28E9B, 0xE5D5BE0D, 0x7CDCEFB7, 0x0BDBDF21, 0x86D3D2D4, 0xF1D4E242,
    0x68DDB3F8, 0x1FDA836E, 0x81BE16CD, 0xF6B9265B, 0x6FB077E1, 0x18B74777,
    0x88085AE6, 0xFF0F6A70, 0x66063BCA, 0x11010B5C, 0x8F659EFF, 0xF862AE69,
    0x616BFFD3, 0x166CCF45, 0xA00AE278, 0xD70DD2EE, 0x4E048354, 0x3903B3C2,
    0xA7672661, 0xD06016F7, 0x4969474D, 0x3E6E77DB, 0xAED16A4A, 0xD9D65ADC,
    0x40DF0B66, 0x37D83BF0, 0xA9BCAE53, 0xDEBB9EC5, 0x47B2CF7F, 0x30B5FFE9,
    0xBDBDF21C, 0xCABAC28A, 0x53B39330, 0x24B4A3A6, 0xBAD03605, 0xCDD70693,
    0x54DE5729, 0x23D967BF, 0xB3667A2E, 0xC4614AB8, 0x5D681B02, 0x2A6F2B94,
    0xB40BBE37, 0xC30C8EA1, 0x5A05DF1B, 0x2D02EF8D]"

text \<open>The table the build selects, by \<^verbatim>\<open>CONFIG_CRC32_USE_PRECALC_TABLE\<close>.\<close>

definition crc32_table :: "bool \<Rightarrow> u32 list" where
  "crc32_table use_precalc = (if use_precalc then precalcTable else CRC32_genTable)"

definition CRC32_updateByte :: "u32 list \<Rightarrow> u32 \<Rightarrow> u8 \<Rightarrow> u32" where
  "CRC32_updateByte table crc32 byte =
     (let index = (crc32 XOR ucast byte) AND 0xFF in
      (drop_bit 8 crc32 XOR table ! unat index) AND 0xFFFFFFFF)"

fun crc32_loop :: "u32 list \<Rightarrow> u32 \<Rightarrow> u8 list \<Rightarrow> u32" where
  "crc32_loop table crc32 [] = crc32"
| "crc32_loop table crc32 (byte # bytes) = crc32_loop table (CRC32_updateByte table crc32 byte) bytes"

text \<open>The bytes are \<^verbatim>\<open>pInput[0..numBytes)\<close>; a null \<^verbatim>\<open>pInput\<close> behaves like no bytes.\<close>

definition CRC32_calculate_ex :: "bool \<Rightarrow> u32 \<Rightarrow> u8 list \<Rightarrow> u32" where
  "CRC32_calculate_ex use_precalc seed bytes = NOT (crc32_loop (crc32_table use_precalc) (NOT seed) bytes)"

definition CRC32_calculate :: "bool \<Rightarrow> u8 list \<Rightarrow> u32" where
  "CRC32_calculate use_precalc bytes = CRC32_calculate_ex use_precalc 0 bytes"

subsection \<open>CRC-16, bit-serial\<close>

definition crc16_bit :: "u16 \<Rightarrow> u16" where
  "crc16_bit result = (if result AND 0x8000 \<noteq> 0 then push_bit 1 result XOR 0x1021 else push_bit 1 result)"

definition crc16_byte :: "u16 \<Rightarrow> u16" where
  "crc16_byte result = (crc16_bit ^^ 8) result"

definition crc16_updateByte :: "u16 \<Rightarrow> u8 \<Rightarrow> u16" where
  "crc16_updateByte result byte = crc16_byte (result XOR push_bit 8 (ucast byte))"

fun crc16_loop :: "u16 \<Rightarrow> u8 list \<Rightarrow> u16" where
  "crc16_loop result [] = result"
| "crc16_loop result (byte # bytes) = crc16_loop (crc16_updateByte result byte) bytes"

definition CRC16_calculate :: "u8 list \<Rightarrow> u16" where
  "CRC16_calculate bytes = crc16_loop 0 bytes"

subsection \<open>CRC-16, table-driven, of the telemetry packets\<close>

definition ccsdsCrcTable :: "u16 list" where
  "ccsdsCrcTable = [
    0x0000, 0x1021, 0x2042, 0x3063, 0x4084, 0x50a5, 0x60c6, 0x70e7,
    0x8108, 0x9129, 0xa14a, 0xb16b, 0xc18c, 0xd1ad, 0xe1ce, 0xf1ef,
    0x1231, 0x0210, 0x3273, 0x2252, 0x52b5, 0x4294, 0x72f7, 0x62d6,
    0x9339, 0x8318, 0xb37b, 0xa35a, 0xd3bd, 0xc39c, 0xf3ff, 0xe3de,
    0x2462, 0x3443, 0x0420, 0x1401, 0x64e6, 0x74c7, 0x44a4, 0x5485,
    0xa56a, 0xb54b, 0x8528, 0x9509, 0xe5ee, 0xf5cf, 0xc5ac, 0xd58d,
    0x3653, 0x2672, 0x1611, 0x0630, 0x76d7, 0x66f6, 0x5695, 0x46b4,
    0xb75b, 0xa77a, 0x9719, 0x8738, 0xf7df, 0xe7fe, 0xd79d, 0xc7bc,
    0x48c4, 0x58e5, 0x6886, 0x78a7, 0x0840, 0x1861, 0x2802, 0x3823,
    0xc9cc, 0xd9ed, 0xe98e, 0xf9af, 0x8948, 0x9969, 0xa90a, 0xb92b,
    0x5af5, 0x4ad4, 0x7ab7, 0x6a96, 0x1a71, 0x0a50, 0x3a33, 0x2a12,
    0xdbfd, 0xcbdc, 0xfbbf, 0xeb9e, 0x9b79, 0x8b58, 0xbb3b, 0xab1a,
    0x6ca6, 0x7c87, 0x4ce4, 0x5cc5, 0x2c22, 0x3c03, 0x0c60, 0x1c41,
    0xedae, 0xfd8f, 0xcdec, 0xddcd, 0xad2a, 0xbd0b, 0x8d68, 0x9d49,
    0x7e97, 0x6eb6, 0x5ed5, 0x4ef4, 0x3e13, 0x2e32, 0x1e51, 0x0e70,
    0xff9f, 0xefbe, 0xdfdd, 0xcffc, 0xbf1b, 0xaf3a, 0x9f59, 0x8f78,
    0x9188, 0x81a9, 0xb1ca, 0xa1eb, 0xd10c, 0xc12d, 0xf14e, 0xe16f,
    0x1080, 0x00a1, 0x30c2, 0x20e3, 0x5004, 0x4025, 0x7046, 0x6067,
    0x83b9, 0x9398, 0xa3fb, 0xb3da, 0xc33d, 0xd31c, 0xe37f, 0xf35e,
    0x02b1, 0x1290, 0x22f3, 0x32d2, 0x4235, 0x5214, 0x6277, 0x7256,
    0xb5ea, 0xa5cb, 0x95a8, 0x8589, 0xf56e, 0xe54f, 0xd52c, 0xc50d,
    0x34e2, 0x24c3, 0x14a0, 0x0481, 0x7466, 0x6447, 0x5424, 0x4405,
    0xa7db, 0xb7fa, 0x8799, 0x97b8, 0xe75f, 0xf77e, 0xc71d, 0xd73c,
    0x26d3, 0x36f2, 0x0691, 0x16b0, 0x6657, 0x7676, 0x4615, 0x5634,
    0xd94c, 0xc96d, 0xf90e, 0xe92f, 0x99c8, 0x89e9, 0xb98a, 0xa9ab,
    0x5844, 0x4865, 0x7806, 0x6827, 0x18c0, 0x08e1, 0x3882, 0x28a3,
    0xcb7d, 0xdb5c, 0xeb3f, 0xfb1e, 0x8bf9, 0x9bd8, 0xabbb, 0xbb9a,
    0x4a75, 0x5a54, 0x6a37, 0x7a16, 0x0af1, 0x1ad0, 0x2ab3, 0x3a92,
    0xfd2e, 0xed0f, 0xdd6c, 0xcd4d, 0xbdaa, 0xad8b, 0x9de8, 0x8dc9,
    0x7c26, 0x6c07, 0x5c64, 0x4c45, 0x3ca2, 0x2c83, 0x1ce0, 0x0cc1,
    0xef1f, 0xff3e, 0xcf5d, 0xdf7c, 0xaf9b, 0xbfba, 0x8fd9, 0x9ff8,
    0x6e17, 0x7e36, 0x4e55, 0x5e74, 0x2e93, 0x3eb2, 0x0ed1, 0x1ef0]"

definition ccsds_updateByte :: "u8 \<Rightarrow> u16 \<Rightarrow> u8 \<Rightarrow> u16" where
  "ccsds_updateByte bias crc byte =
     (ccsdsCrcTable ! unat ((drop_bit 8 crc XOR ucast byte) AND 0xff) XOR push_bit 8 crc) + ucast bias"

fun ccsds_loop :: "u8 \<Rightarrow> u16 \<Rightarrow> u8 list \<Rightarrow> u16" where
  "ccsds_loop bias crc [] = crc"
| "ccsds_loop bias crc (byte # bytes) = ccsds_loop bias (ccsds_updateByte bias crc byte) bytes"

definition CRC_CcsdsCrc16Get :: "u16 \<Rightarrow> u8 \<Rightarrow> u8 list \<Rightarrow> u16" where
  "CRC_CcsdsCrc16Get seed bias buf = ccsds_loop bias seed buf"

subsection \<open>The byte step of CRC-32 is linear and injective\<close>

lemma crc32_bit_alt: "crc32_bit x = drop_bit 1 x XOR (if odd x then CRC32_XOR_PATTERN else 0)"
  by (simp add: crc32_bit_def and_one_eq odd_iff_mod_2_eq_one)

lemma crc32_bit_xor: "crc32_bit (x XOR y) = crc32_bit x XOR crc32_bit y"
  by (auto simp add: crc32_bit_alt drop_bit_xor even_xor_iff ac_simps)

lemma crc32_bit_eq_0: "crc32_bit x = 0 \<Longrightarrow> x = 0"
proof (cases "even x")
  case True
  then show "crc32_bit x = 0 \<Longrightarrow> x = 0" by (auto simp: crc32_bit_alt intro: drop_bit_1_eq_0)
next
  case False
  assume "crc32_bit x = 0"
  with False have "drop_bit 1 x = CRC32_XOR_PATTERN"
    by (simp add: crc32_bit_alt)
  moreover have "\<not> bit (drop_bit 1 x) 31" 
    using not_bit_length [of x] by (simp add: bit_drop_bit_eq)
  moreover have "bit CRC32_XOR_PATTERN 31" by (simp add: CRC32_XOR_PATTERN_def)
  ultimately show "x = 0" by simp
qed

lemma crc32_bit_inject: "crc32_bit x = crc32_bit y \<Longrightarrow> x = y"
  using crc32_bit_eq_0 [of "x XOR y"] by (simp add: crc32_bit_xor)

lemma crc32_byte_unfold:
  "crc32_byte crc = crc32_bit (crc32_bit (crc32_bit (crc32_bit (crc32_bit (crc32_bit (crc32_bit (crc32_bit crc)))))))"
  by (simp add: crc32_byte_def numeral_eq_Suc)

lemma crc32_byte_xor: "crc32_byte (x XOR y) = crc32_byte x XOR crc32_byte y"
  by (simp add: crc32_byte_unfold crc32_bit_xor)

lemma crc32_byte_inject: "crc32_byte x = crc32_byte y \<longleftrightarrow> x = y"
  by (auto simp add: crc32_byte_unfold dest!: crc32_bit_inject)

lemma crc32_byte_0: "crc32_byte 0 = 0"
  by (simp add: crc32_byte_unfold crc32_bit_alt)

text \<open>With the low byte clear the pattern is never added: eight plain shifts.\<close>


lemma crc32_bit_even: "even x \<Longrightarrow> crc32_bit x = drop_bit 1 x"
  by (simp add: crc32_bit_alt)

lemma crc32_byte_high: 
  assumes "x AND 0xFF = 0" 
  shows "crc32_byte x = drop_bit 8 x"
proof -
  have b: "\<not> bit x i" if "i < 8" for i
  proof -
    have "bit (x AND mask 8) i = bit x i" using that by (simp add: bit_and_iff bit_mask_iff)
    moreover have "x AND mask 8 = 0" using assms by (simp add: mask_eq_exp_minus_1)
    ultimately show ?thesis by simp
  qed
  have e: "even (drop_bit i x)" if "i < 8" for i
    using b [OF that] by (simp add: even_drop_bit_iff_not_bit)
  have s: "crc32_bit (drop_bit i x) = drop_bit (Suc i) x" if "i < 8" for i
    using crc32_bit_even [OF e [OF that]] by simp
  show ?thesis
    using s [of 0] by (simp add: crc32_byte_unfold s numeral_eq_Suc)
qed

lemma crc32_byte_step: "crc32_byte x = drop_bit 8 x XOR crc32_byte (x AND 0xFF)"
proof -
  have ff: "(0xFF :: u32) = mask 8" by (simp add: mask_eq_exp_minus_1)
  let ?h = "x AND NOT (mask 8)" and ?l = "x AND mask 8"
  have x: "x = ?h XOR ?l"
    by (rule bit_word_eqI) (auto simp: bit_and_iff bit_xor_iff bit_not_iff)
  have "crc32_byte x = crc32_byte ?h XOR crc32_byte ?l"
    by (subst x) (rule crc32_byte_xor)
  also have "crc32_byte ?h = drop_bit 8 ?h"
    by (rule crc32_byte_high) (simp add: ff and.assoc)
  also have "drop_bit 8 ?h = drop_bit 8 x"
    by (rule bit_word_eqI) (auto simp: bit_and_iff bit_drop_bit_eq bit_not_iff bit_mask_iff dest: bit_imp_le_length)
  finally show ?thesis by (simp only: ff)
qed

lemma table_nth:
  assumes "i < 256"
  shows "CRC32_genTable ! i = crc32_byte (word_of_nat i)"
  using assms by (cases i) (simp_all add: CRC32_genTable_def crc32_byte_0)

text \<open>The table look-up is the bit-serial step.\<close>

lemma CRC32_updateByte_eq: "CRC32_updateByte CRC32_genTable crc b = crc32_byte (crc XOR ucast b)"
proof -
  let ?x = "crc XOR ucast b"
  have lt: "unat (?x AND 0xFF) < 256"
    using word_and_le1 [of ?x "0xFF"] by (simp add: word_le_nat_alt)
  have "drop_bit 8 (ucast b :: u32) = 0"
    by (rule drop_bit_word_less) (use unsigned_less [of b] in \<open>simp add: unat_ucast_up\<close>)
  then have d: "drop_bit 8 crc = drop_bit 8 ?x" by (simp add: drop_bit_xor)
  have "CRC32_updateByte CRC32_genTable crc b = drop_bit 8 ?x XOR crc32_byte (?x AND 0xFF)"
    unfolding CRC32_updateByte_def Let_def d table_nth [OF lt] u32_and_ones by simp
  then show ?thesis by (simp only: crc32_byte_step [of ?x])
qed

subsection \<open>The precalculated table is the generated table\<close>

lemmas crc32_byte_eval = crc32_byte_unfold [of "numeral n" for n] crc32_byte_unfold [of 1]

lemma upt_one_numeral: "[Suc 0..<numeral n] = (if Suc 0 < numeral n then Suc 0 # [2..<numeral n] else [])"
  by (simp add: upt_conv_Cons numeral_2_eq_2)

lemma crc32_bit_numeral:
  "crc32_bit 1 = CRC32_XOR_PATTERN"
  "crc32_bit (numeral (Num.Bit0 n)) = drop_bit 1 (numeral (Num.Bit0 n))"
  "crc32_bit (numeral (Num.Bit1 n)) = drop_bit 1 (numeral (Num.Bit1 n)) XOR CRC32_XOR_PATTERN"
  by (simp_all add: crc32_bit_alt)

lemma precalcTable_eq: "precalcTable = CRC32_genTable"
  by (simp add: CRC32_genTable_def precalcTable_def crc32_byte_eval crc32_bit_numeral
      CRC32_XOR_PATTERN_def upt_rec_numeral upt_one_numeral del: word_xor_cancel word_xor_eq_iff)

lemma crc32_table_eq: "crc32_table use_precalc = CRC32_genTable"
  by (simp add: crc32_table_def precalcTable_eq)

text \<open>The bit-serial reference: fold the byte step over the input.\<close>

definition crc32_reference :: "u32 \<Rightarrow> u8 list \<Rightarrow> u32" where
  "crc32_reference seed bytes = NOT (fold (\<lambda>b crc. crc32_byte (crc XOR ucast b)) bytes (NOT seed))"

lemma crc32_loop_fold:
  "crc32_loop (crc32_table p) crc bytes = fold (\<lambda>b crc. crc32_byte (crc XOR ucast b)) bytes crc"
  by (induction bytes arbitrary: crc) (simp_all add: crc32_table_eq CRC32_updateByte_eq)

text \<open>
  C23.  Both builds of the CRC-32 (precalculated table, generated table) compute the
  bit-serial CRC-32 with the reflected polynomial 0xEDB88320, from every seed and on
  every input.
\<close>

theorem CRC32_calculate_ex_reference:
  "CRC32_calculate_ex use_precalc seed bytes = crc32_reference seed bytes"
  by (simp add: CRC32_calculate_ex_def crc32_reference_def crc32_loop_fold)

lemma CRC32_precalc_irrelevant: "CRC32_calculate_ex p seed bytes = CRC32_calculate_ex q seed bytes"
  by (simp add: CRC32_calculate_ex_def crc32_table_eq)

lemma crc32_loop_append:
  "crc32_loop table crc (xs @ ys) = crc32_loop table (crc32_loop table crc xs) ys"
  by (induction xs arbitrary: crc) simp_all

lemma CRC32_calculate_ex_append:
  "CRC32_calculate_ex p seed (xs @ ys) = CRC32_calculate_ex p (CRC32_calculate_ex p seed xs) ys"
  by (simp add: CRC32_calculate_ex_def crc32_loop_append)

text \<open>
  The CRC is incremental: seeding \<^verbatim>\<open>CRC32_calculate_ex\<close> with the CRC of what
  came before gives the CRC of the whole, which is what the rolling CRC over the GPT
  partition entries relies on.
\<close>

theorem CRC32_rolling:
  "fold (\<lambda>block crc. CRC32_calculate_ex p crc block) blocks 0 = CRC32_calculate p (concat blocks)"
proof -
  have "fold (\<lambda>block crc. CRC32_calculate_ex p crc block) blocks seed
      = CRC32_calculate_ex p seed (concat blocks)" for seed
    by (induction blocks arbitrary: seed)
      (simp_all add: CRC32_calculate_ex_append, simp add: CRC32_calculate_ex_def)
  then show ?thesis by (simp add: CRC32_calculate_def)
qed

lemma crc32_loop_inject_seed:
  "crc32_loop (crc32_table p) c bytes = crc32_loop (crc32_table p) d bytes \<longleftrightarrow> c = d"
  by (induction bytes arbitrary: c d)
    (auto simp add: crc32_table_eq CRC32_updateByte_eq crc32_byte_inject)

lemma CRC32_byte_inject:
  "CRC32_calculate p (xs @ a # ys) = CRC32_calculate p (xs @ b # ys) \<longleftrightarrow> a = b"
proof -
  have "CRC32_calculate p (xs @ a # ys) = CRC32_calculate p (xs @ b # ys) \<longleftrightarrow>
    CRC32_updateByte (crc32_table p) (crc32_loop (crc32_table p) (NOT 0) xs) a
    = CRC32_updateByte (crc32_table p) (crc32_loop (crc32_table p) (NOT 0) xs) b"
    by (simp add: CRC32_calculate_def CRC32_calculate_ex_def crc32_loop_append crc32_loop_inject_seed)
  also have "\<dots> \<longleftrightarrow> a = b"
    by (simp add: crc32_table_eq CRC32_updateByte_eq crc32_byte_inject ucast_up_inject)
  finally show ?thesis .
qed

lemma CRC32_update_inject:
  assumes "i < length xs"
  shows "CRC32_calculate p (xs[i := b]) = CRC32_calculate p xs \<longleftrightarrow> xs ! i = b"
proof -
  have "xs = take i xs @ xs ! i # drop (Suc i) xs" using assms by (rule id_take_nth_drop)
  moreover have "xs[i := b] = take i xs @ b # drop (Suc i) xs" using assms by (rule upd_conv_take_nth_drop)
  ultimately show ?thesis using CRC32_byte_inject [of p "take i xs" b "drop (Suc i) xs" "xs ! i"] by metis
qed

text \<open>
  C32.  CRC-32 detects every corruption confined to one byte: two inputs of the same
  shape that differ in exactly one byte never have the same CRC.
\<close>

theorem CRC32_detects_byte:
  "CRC32_calculate p (xs @ a # ys) = CRC32_calculate p (xs @ b # ys) \<longleftrightarrow> a = b"
  by (rule CRC32_byte_inject)

subsection \<open>CRC-16\<close>

lemma crc16_bit_alt: "crc16_bit x = push_bit 1 x XOR (if bit x 15 then 0x1021 else 0)"
proof -
  have "(0x8000 :: u16) = push_bit 15 1" by simp
  then have "x AND 0x8000 \<noteq> 0 \<longleftrightarrow> bit x 15"
    using and_exp_eq_0_iff_not_bit [of x 15] by simp
  then show ?thesis by (simp add: crc16_bit_def)
qed

lemma crc16_bit_xor: "crc16_bit (x XOR y) = crc16_bit x XOR crc16_bit y"
  by (auto simp add: crc16_bit_alt push_bit_xor bit_xor_iff ac_simps)

lemma crc16_bit_eq_0: "crc16_bit x = 0 \<Longrightarrow> x = 0"
proof (cases "bit x 15")
  case False
  assume "crc16_bit x = 0"
  with False have z: "push_bit 1 x = 0" by (simp add: crc16_bit_alt)
  show "x = 0"
  proof (rule bit_word_eqI)
    fix n assume "n < LENGTH(16)"
    then show "bit x n = bit (0 :: u16) n"
    proof (cases "n = 15")
      case True then show ?thesis using False by simp
    next
      case ne: False
      then have "bit (push_bit 1 x) (Suc n) = bit x n"
        using \<open>n < LENGTH(16)\<close> unfolding bit_push_bit_iff by simp
      then show ?thesis using z by simp
    qed
  qed
next
  case True
  assume "crc16_bit x = 0"
  with True have "push_bit 1 x = 0x1021" by (simp add: crc16_bit_alt)
  moreover have "\<not> bit (push_bit 1 x) 0" unfolding bit_push_bit_iff by simp
  moreover have "bit (0x1021 :: u16) 0" by simp
  ultimately show "x = 0" by simp
qed

lemma crc16_bit_inject: "crc16_bit x = crc16_bit y \<Longrightarrow> x = y"
  using crc16_bit_eq_0 [of "x XOR y"] by (simp add: crc16_bit_xor)

lemma crc16_byte_unfold:
  "crc16_byte crc = crc16_bit (crc16_bit (crc16_bit (crc16_bit (crc16_bit (crc16_bit (crc16_bit (crc16_bit crc)))))))"
  by (simp add: crc16_byte_def numeral_eq_Suc)

lemma crc16_byte_xor: "crc16_byte (x XOR y) = crc16_byte x XOR crc16_byte y"
  by (simp add: crc16_byte_unfold crc16_bit_xor)

lemma crc16_byte_inject: "crc16_byte x = crc16_byte y \<longleftrightarrow> x = y"
  by (auto simp add: crc16_byte_unfold dest!: crc16_bit_inject)

lemma crc16_byte_low:
  assumes "drop_bit 8 x = 0"
  shows "crc16_byte x = push_bit 8 x"
proof -
  have b: "\<not> bit x i" if "8 \<le> i" for i
  proof -
    have "bit (drop_bit 8 x) (i - 8) = bit x i" using that by (simp add: bit_drop_bit_eq)
    then show ?thesis using assms by simp
  qed
  have s: "crc16_bit (push_bit i x) = push_bit (Suc i) x" if "i < 8" for i
    using that b [of "15 - i"] by (simp add: crc16_bit_alt bit_push_bit_iff del: push_bit_Suc)
  show ?thesis
    using s [of 0] by (simp add: crc16_byte_unfold s numeral_eq_Suc del: push_bit_Suc)
qed

lemma crc16_byte_step: "crc16_byte x = push_bit 8 x XOR crc16_byte (push_bit 8 (drop_bit 8 x))"
proof -
  let ?h = "push_bit 8 (drop_bit 8 x)" and ?l = "x AND mask 8"
  have x: "x = ?l XOR ?h"
    by (rule bit_word_eqI) (auto simp: bit_and_iff bit_xor_iff bit_push_bit_iff bit_drop_bit_eq bit_mask_iff)
  have "crc16_byte x = crc16_byte ?l XOR crc16_byte ?h"
    by (subst x) (rule crc16_byte_xor)
  also have "crc16_byte ?l = push_bit 8 ?l"
    by (rule crc16_byte_low) (rule bit_word_eqI, auto simp: bit_and_iff bit_drop_bit_eq bit_mask_iff)
  also have "push_bit 8 ?l = push_bit 8 x"
    by (rule bit_word_eqI) (auto simp: bit_and_iff bit_push_bit_iff bit_mask_iff)
  finally show ?thesis .
qed


lemma push_8_inject: "push_bit 8 (ucast a :: u16) = push_bit 8 (ucast b) \<longleftrightarrow> (a :: u8) = b"
proof
  assume e: "push_bit 8 (ucast a :: u16) = push_bit 8 (ucast b)"
  show "a = b"
  proof (rule bit_word_eqI)
    fix n assume n: "n < LENGTH(8)"
    have "bit (push_bit 8 (ucast c :: u16)) (n + 8) = bit (c :: u8) n" for c
      unfolding bit_push_bit_iff using n by (simp add: bit_ucast_iff)
    then show "bit a n = bit b n" by (metis e)
  qed
qed simp

lemma crc16_updateByte_inject:
  "crc16_updateByte c a = crc16_updateByte c b \<longleftrightarrow> a = b"
  "crc16_updateByte c a = crc16_updateByte d a \<longleftrightarrow> c = d"
  by (simp_all add: crc16_updateByte_def crc16_byte_inject push_8_inject)

lemma crc16_loop_append: "crc16_loop crc (xs @ ys) = crc16_loop (crc16_loop crc xs) ys"
  by (induction xs arbitrary: crc) simp_all

lemma crc16_loop_inject_seed: "crc16_loop c bytes = crc16_loop d bytes \<longleftrightarrow> c = d"
  by (induction bytes arbitrary: c d) (simp_all add: crc16_updateByte_inject)

text \<open>
  The YMODEM block CRC detects every corruption confined to one byte.
\<close>

theorem CRC16_detects_byte:
  "CRC16_calculate (xs @ a # ys) = CRC16_calculate (xs @ b # ys) \<longleftrightarrow> a = b"
  by (simp add: CRC16_calculate_def crc16_loop_append crc16_loop_inject_seed crc16_updateByte_inject)

subsection \<open>The telemetry table is the bit-serial CRC-16\<close>

lemmas crc16_byte_eval = crc16_byte_unfold [of "numeral n" for n] crc16_byte_unfold [of 1]

lemma crc16_byte_0: "crc16_byte 0 = 0"
  by (simp add: crc16_byte_unfold crc16_bit_def)

lemma ccsdsCrcTable_eq:
  "ccsdsCrcTable = map (\<lambda>i. crc16_byte (push_bit 8 (word_of_nat i))) (0 # [1..<256])"
  by (simp add: ccsdsCrcTable_def crc16_byte_0 crc16_byte_eval crc16_bit_def upt_rec_numeral
      upt_one_numeral del: word_xor_cancel word_xor_eq_iff)

lemma ccsdsCrcTable_nth:
  "i < 256 \<Longrightarrow> ccsdsCrcTable ! i = crc16_byte (push_bit 8 (word_of_nat i))"
  by (cases i) (simp_all add: ccsdsCrcTable_eq)

lemma ccsds_updateByte_0: "ccsds_updateByte 0 crc b = crc16_updateByte crc b"
proof -
  let ?x = "crc XOR push_bit 8 (ucast b)" and ?i = "(drop_bit 8 crc XOR ucast b) AND 0xff"
  have lt: "unat ?i < 256"
    using word_and_le1 [of "drop_bit 8 crc XOR ucast b" "0xFF"] by (simp add: word_le_nat_alt)
  have ff: "(0xff :: u16) = mask 8" by (simp add: mask_eq_exp_minus_1)
  have i: "?i = drop_bit 8 ?x"
    unfolding ff
    by (rule bit_word_eqI)
      (auto simp: bit_and_iff bit_xor_iff bit_drop_bit_eq bit_push_bit_iff bit_mask_iff bit_ucast_iff
        dest: bit_imp_le_length)
  have p: "push_bit 8 crc = push_bit 8 ?x"
    by (rule bit_word_eqI) (auto simp: bit_xor_iff bit_push_bit_iff bit_ucast_iff dest: bit_imp_le_length)
  have "ccsds_updateByte 0 crc b = crc16_byte (push_bit 8 ?i) XOR push_bit 8 crc"
    using ccsdsCrcTable_nth [OF lt] by (simp add: ccsds_updateByte_def)
  also have "\<dots> = push_bit 8 ?x XOR crc16_byte (push_bit 8 (drop_bit 8 ?x))"
    unfolding i p by (rule xor.commute)
  also have "\<dots> = crc16_byte ?x" by (rule crc16_byte_step [symmetric])
  finally show ?thesis by (simp only: crc16_updateByte_def)
qed

text \<open>
  With the bias 0, the table-driven CRC of the telemetry packets is the
  bit-serial CRC-16 that the YMODEM receiver uses, from every seed.
\<close>

theorem CRC_CcsdsCrc16Get_bitserial:
  "CRC_CcsdsCrc16Get seed 0 buf = crc16_loop seed buf"
  unfolding CRC_CcsdsCrc16Get_def
  by (induction buf arbitrary: seed) (simp_all add: ccsds_updateByte_0)

lemma ccsds_loop_append: "ccsds_loop bias crc (xs @ ys) = ccsds_loop bias (ccsds_loop bias crc xs) ys"
  by (induction xs arbitrary: crc) simp_all

end
