(* ===== verification/HSS_Trigger.thy ===== *)
theory HSS_Trigger
  imports HSS_Prelude
begin

text \<open>
  The event triggers of modules/misc/hss_trigger.c: one flag per event, set by
  \<^verbatim>\<open>HSS_Trigger_Notify\<close> and read by \<^verbatim>\<open>HSS_Trigger_IsNotified\<close>.  The flags are the
  first layer of the global state; the later components extend this record.  An
  \<^verbatim>\<open>atomic_t\<close> only ever holds 0 or 1 here and is a \<open>bool\<close>.
\<close>

datatype HSS_Event =
    EVENT_OPENSBI_INITIALIZED
  | EVENT_IPI_INITIALIZED
  | EVENT_DDR_TRAINED
  | EVENT_STARTUP_COMPLETE
  | EVENT_USBDMSC_REQUESTED
  | EVENT_POST_BOOT
  | EVENT_BOOT_STARTED
  | EVENT_BOOT_COMPLETE
  | EVENT_HART_STATE_CHANGED
  | EVENT_HEALTHMON

record triggers =
  opensbi_initialized :: bool
  ipi_initialized :: bool
  ddr_trained :: bool
  startup_complete :: bool
  usbdmsc_requested :: bool
  post_boot :: bool
  boot_complete :: bool
  hart_state_changed :: bool
  healthmon :: bool

definition triggerStatus_init :: triggers where
  "triggerStatus_init = \<lparr> opensbi_initialized = False, ipi_initialized = False,
     ddr_trained = False, startup_complete = False, usbdmsc_requested = False,
     post_boot = False, boot_complete = False, hart_state_changed = False, healthmon = False \<rparr>"

fun HSS_Trigger_Notify :: "HSS_Event \<Rightarrow> 'a triggers_scheme \<Rightarrow> 'a triggers_scheme" where
  "HSS_Trigger_Notify EVENT_OPENSBI_INITIALIZED s = s\<lparr>opensbi_initialized := True\<rparr>"
| "HSS_Trigger_Notify EVENT_IPI_INITIALIZED s = s\<lparr>ipi_initialized := True\<rparr>"
| "HSS_Trigger_Notify EVENT_DDR_TRAINED s = s\<lparr>ddr_trained := True\<rparr>"
| "HSS_Trigger_Notify EVENT_STARTUP_COMPLETE s = s\<lparr>startup_complete := True\<rparr>"
| "HSS_Trigger_Notify EVENT_USBDMSC_REQUESTED s = s\<lparr>usbdmsc_requested := True\<rparr>"
| "HSS_Trigger_Notify EVENT_POST_BOOT s = s\<lparr>post_boot := True\<rparr>"
| "HSS_Trigger_Notify EVENT_BOOT_STARTED s = s"
| "HSS_Trigger_Notify EVENT_BOOT_COMPLETE s = s\<lparr>boot_complete := True\<rparr>"
| "HSS_Trigger_Notify EVENT_HART_STATE_CHANGED s = s"
| "HSS_Trigger_Notify EVENT_HEALTHMON s = s"

text \<open>\<open>service_ddr\<close> is \<^verbatim>\<open>IS_ENABLED(CONFIG_SERVICE_DDR)\<close>: without the DDR service, DDR counts as trained.\<close>

fun HSS_Trigger_IsNotified :: "bool \<Rightarrow> HSS_Event \<Rightarrow> 'a triggers_scheme \<Rightarrow> bool" where
  "HSS_Trigger_IsNotified service_ddr EVENT_OPENSBI_INITIALIZED s = opensbi_initialized s"
| "HSS_Trigger_IsNotified service_ddr EVENT_IPI_INITIALIZED s = ipi_initialized s"
| "HSS_Trigger_IsNotified service_ddr EVENT_DDR_TRAINED s = (if ddr_trained s then True else \<not> service_ddr)"
| "HSS_Trigger_IsNotified service_ddr EVENT_STARTUP_COMPLETE s = startup_complete s"
| "HSS_Trigger_IsNotified service_ddr EVENT_USBDMSC_REQUESTED s = usbdmsc_requested s"
| "HSS_Trigger_IsNotified service_ddr EVENT_POST_BOOT s = post_boot s"
| "HSS_Trigger_IsNotified service_ddr EVENT_BOOT_STARTED s = False"
| "HSS_Trigger_IsNotified service_ddr EVENT_BOOT_COMPLETE s = boot_complete s"
| "HSS_Trigger_IsNotified service_ddr EVENT_HART_STATE_CHANGED s = False"
| "HSS_Trigger_IsNotified service_ddr EVENT_HEALTHMON s = False"

fun HSS_Trigger_Clear :: "HSS_Event \<Rightarrow> 'a triggers_scheme \<Rightarrow> 'a triggers_scheme" where
  "HSS_Trigger_Clear EVENT_OPENSBI_INITIALIZED s = s\<lparr>opensbi_initialized := False\<rparr>"
| "HSS_Trigger_Clear EVENT_IPI_INITIALIZED s = s\<lparr>ipi_initialized := False\<rparr>"
| "HSS_Trigger_Clear EVENT_DDR_TRAINED s = s\<lparr>ddr_trained := False\<rparr>"
| "HSS_Trigger_Clear EVENT_STARTUP_COMPLETE s = s\<lparr>startup_complete := False\<rparr>"
| "HSS_Trigger_Clear EVENT_USBDMSC_REQUESTED s = s\<lparr>usbdmsc_requested := False\<rparr>"
| "HSS_Trigger_Clear EVENT_POST_BOOT s = s\<lparr>post_boot := False\<rparr>"
| "HSS_Trigger_Clear EVENT_BOOT_STARTED s = s"
| "HSS_Trigger_Clear EVENT_BOOT_COMPLETE s = s\<lparr>boot_complete := False\<rparr>"
| "HSS_Trigger_Clear EVENT_HART_STATE_CHANGED s = s"
| "HSS_Trigger_Clear EVENT_HEALTHMON s = s"

text \<open>
  Three events have no case of their own (\<open>EVENT_BOOT_STARTED\<close>) or an empty one:
  notifying or clearing them changes nothing and they are never seen.
\<close>

definition latched_event :: "HSS_Event \<Rightarrow> bool" where
  "latched_event e \<longleftrightarrow> e \<notin> {EVENT_BOOT_STARTED, EVENT_HART_STATE_CHANGED, EVENT_HEALTHMON}"

lemma Trigger_IsNotified_Notify:
  "HSS_Trigger_IsNotified d e (HSS_Trigger_Notify e' s) \<longleftrightarrow>
     HSS_Trigger_IsNotified d e s \<or> (e = e' \<and> latched_event e)"
  by (cases e; cases e') (auto simp: latched_event_def)

lemma Trigger_IsNotified_Clear:
  "HSS_Trigger_IsNotified True e (HSS_Trigger_Clear e' s) \<longleftrightarrow>
     HSS_Trigger_IsNotified True e s \<and> e \<noteq> e'"
  by (cases e; cases e') auto

text \<open>A run of the interface: the operations other components issue, in order.\<close>

datatype trigger_op = Notify_op HSS_Event | Clear_op HSS_Event

fun trigger_step :: "trigger_op \<Rightarrow> 'a triggers_scheme \<Rightarrow> 'a triggers_scheme" where
  "trigger_step (Notify_op e) s = HSS_Trigger_Notify e s"
| "trigger_step (Clear_op e) s = HSS_Trigger_Clear e s"

fun op_event :: "trigger_op \<Rightarrow> HSS_Event" where
  "op_event (Notify_op e) = e"
| "op_event (Clear_op e) = e"

lemma trigger_step_other:
  "op_event c \<noteq> e \<Longrightarrow> HSS_Trigger_IsNotified True e (trigger_step c s) = HSS_Trigger_IsNotified True e s"
  by (cases c) (auto simp: Trigger_IsNotified_Notify Trigger_IsNotified_Clear)

lemma trigger_run_other:
  "\<forall>c\<in>set cs. op_event c \<noteq> e \<Longrightarrow>
     HSS_Trigger_IsNotified True e (fold trigger_step cs s) = HSS_Trigger_IsNotified True e s"
  by (induction cs arbitrary: s) (simp_all add: trigger_step_other)

text \<open>
  Triggers are independent latches: with the DDR service built in, after any
  sequence of notifications and clears, an event is seen exactly as the last operation
  that named it left it, whatever happened to the other events before and after, and a
  notification of an event without a flag is never seen.
\<close>

theorem Trigger_last_op_decides:
  assumes "\<forall>c\<in>set later. op_event c \<noteq> op_event c0"
  shows "HSS_Trigger_IsNotified True (op_event c0) (fold trigger_step (earlier @ c0 # later) s)
    \<longleftrightarrow> (c0 = Notify_op (op_event c0) \<and> latched_event (op_event c0))
        \<or> (c0 = Notify_op (op_event c0)
           \<and> HSS_Trigger_IsNotified True (op_event c0) (fold trigger_step earlier s))"
  using assms
  by (cases c0) (auto simp: trigger_run_other Trigger_IsNotified_Notify Trigger_IsNotified_Clear)

theorem Trigger_last_op_decides_witness:
  "HSS_Trigger_IsNotified True EVENT_POST_BOOT
     (fold trigger_step ([Clear_op EVENT_POST_BOOT] @ Notify_op EVENT_POST_BOOT # [Clear_op EVENT_DDR_TRAINED])
        triggerStatus_init)"
  using Trigger_last_op_decides
    [of "[Clear_op EVENT_DDR_TRAINED]" "Notify_op EVENT_POST_BOOT" "[Clear_op EVENT_POST_BOOT]" triggerStatus_init]
  by (simp add: latched_event_def)

end
