(* ===== verification/HSS_Ipi.thy ===== *)
theory HSS_Ipi
  imports HSS_Trigger "HOL-Library.Multiset"
begin

text \<open>
  The Secure Software Message Bus, modules/ssmb/ipi/ssmb_ipi.c: twenty one-way
  message queues between the five harts, and the table of outstanding requests
  ("completes") with which a requester waits for an acknowledgement.

  State: \<^verbatim>\<open>struct IPI_Data\<close> plus the five CLINT MSIP registers.  Every operation takes
  \<open>me\<close>, the value of \<^verbatim>\<open>current_hartid()\<close>.  The build modelled is the one without the
  inter-hart communication IP (\<^verbatim>\<open>CONFIG_HSS_USE_IHC\<close> unset, as in every board's
  def_config), where sending raises the target's MSIP bit.  A queue has
  \<^verbatim>\<open>CONFIG_IPI_MAX_NUM_QUEUE_MESSAGES\<close> slots; the number is the one of
  boards/scai-dpu250/def_config, and no lemma below depends on its value.
\<close>

subsection \<open>Data\<close>

datatype IPIMessagesEnum =
    IPI_MSG_NO_MESSAGE
  | IPI_MSG_BOOT_REQUEST
  | IPI_MSG_PMP_SETUP
  | IPI_MSG_SPI_XFER
  | IPI_MSG_NET_RXPOLL
  | IPI_MSG_NET_TX
  | IPI_MSG_SCATTERGATHER_DMA
  | IPI_MSG_WDOG_INIT
  | IPI_MSG_GPIO_SET
  | IPI_MSG_UART_TX
  | IPI_MSG_UART_POLL_RX
  | IPI_MSG_POWERMODE
  | IPI_MSG_ACK_PENDING
  | IPI_MSG_ACK_COMPLETE
  | IPI_MSG_HALT
  | IPI_MSG_CONTINUE
  | IPI_MSG_GOTO
  | IPI_MSG_OPENSBI_INIT
  | IPI_MSG_SCRUB
  | IPI_MSG_DDR_TRAIN

text \<open>The numeric value of each enumerator, used as the index into the registry.\<close>

fun ipi_msg_code :: "IPIMessagesEnum \<Rightarrow> nat" where
  "ipi_msg_code IPI_MSG_NO_MESSAGE = 0"
| "ipi_msg_code IPI_MSG_BOOT_REQUEST = 1"
| "ipi_msg_code IPI_MSG_PMP_SETUP = 2"
| "ipi_msg_code IPI_MSG_SPI_XFER = 3"
| "ipi_msg_code IPI_MSG_NET_RXPOLL = 4"
| "ipi_msg_code IPI_MSG_NET_TX = 5"
| "ipi_msg_code IPI_MSG_SCATTERGATHER_DMA = 6"
| "ipi_msg_code IPI_MSG_WDOG_INIT = 7"
| "ipi_msg_code IPI_MSG_GPIO_SET = 8"
| "ipi_msg_code IPI_MSG_UART_TX = 9"
| "ipi_msg_code IPI_MSG_UART_POLL_RX = 10"
| "ipi_msg_code IPI_MSG_POWERMODE = 11"
| "ipi_msg_code IPI_MSG_ACK_PENDING = 12"
| "ipi_msg_code IPI_MSG_ACK_COMPLETE = 13"
| "ipi_msg_code IPI_MSG_HALT = 14"
| "ipi_msg_code IPI_MSG_CONTINUE = 15"
| "ipi_msg_code IPI_MSG_GOTO = 16"
| "ipi_msg_code IPI_MSG_OPENSBI_INIT = 17"
| "ipi_msg_code IPI_MSG_SCRUB = 18"
| "ipi_msg_code IPI_MSG_DDR_TRAIN = 19"

datatype IPIStatusCode = IPI_FAIL | IPI_SUCCESS | IPI_PENDING | IPI_IDLE

text \<open>The numeric value of a status, as sent in the immediate argument of an ACK.\<close>

fun ipi_status_code :: "IPIStatusCode \<Rightarrow> u32" where
  "ipi_status_code IPI_FAIL = 0"
| "ipi_status_code IPI_SUCCESS = 1"
| "ipi_status_code IPI_PENDING = 2"
| "ipi_status_code IPI_IDLE = 3"

record IPI_Outbox_Msg =
  msg_type :: IPIMessagesEnum
  transaction_id :: u32
  immediate_arg :: u32
  p_extended_buffer_in_ddr :: u64
  p_ancilliary_buffer_in_ddr :: u64

record IPI_Outbox_Queue =
  msgQ :: "IPI_Outbox_Msg list"
  qcount :: u32

record IPI_Complete =
  used :: bool
  c_transaction_id :: u32
  c_status :: IPIStatusCode

record mpfs_ipi_private =
  message_allocs :: u64
  message_delivers :: u64
  message_frees :: u64
  consume_intents :: u64
  ipi_sends :: u64

record ipi_data = triggers +
  ipi_version :: u32
  ipi_queues :: "IPI_Outbox_Queue list"
  ipi_completes :: "IPI_Complete list"
  txId_last :: "u32 list"
  txId_shadow :: "u32 list"
  my_transaction_id :: "u32 list"
  mpfs_ipi_privateData :: "mpfs_ipi_private list"
  MSIP :: "u32 list"

definition IPI_MAX_NUM_QUEUE_MESSAGES :: nat where
  "IPI_MAX_NUM_QUEUE_MESSAGES = 8"

definition IPI_MAX_NUM_OUTSTANDING_COMPLETES :: nat where
  "IPI_MAX_NUM_OUTSTANDING_COMPLETES = IPI_MAX_NUM_QUEUE_MESSAGES * (HSS_HART_NUM_PEERS - 1)"

abbreviation (input) IPI_OUTBOX_NUM_QUEUES :: nat where "IPI_OUTBOX_NUM_QUEUES \<equiv> 20"

subsection \<open>Initialisation\<close>

text \<open>The zero-filled elements that \<^verbatim>\<open>memset\<close> leaves.\<close>

definition zero_msg :: IPI_Outbox_Msg where
  "zero_msg = \<lparr> msg_type = IPI_MSG_NO_MESSAGE, transaction_id = 0, immediate_arg = 0,
     p_extended_buffer_in_ddr = 0, p_ancilliary_buffer_in_ddr = 0 \<rparr>"

definition zero_queue :: IPI_Outbox_Queue where
  "zero_queue = \<lparr> msgQ = replicate IPI_MAX_NUM_QUEUE_MESSAGES zero_msg, qcount = 0 \<rparr>"

definition zero_complete :: IPI_Complete where
  "zero_complete = \<lparr> used = False, c_transaction_id = 0, c_status = IPI_FAIL \<rparr>"

definition zero_private :: mpfs_ipi_private where
  "zero_private = \<lparr> message_allocs = 0, message_delivers = 0, message_frees = 0,
     consume_intents = 0, ipi_sends = 0 \<rparr>"

definition IPI_QueuesInit :: "'a ipi_data_scheme \<Rightarrow> bool \<times> 'a ipi_data_scheme" where
  "IPI_QueuesInit s =
     (True, HSS_Trigger_Notify EVENT_IPI_INITIALIZED
       (s\<lparr> ipi_version := 0x0101,
          ipi_queues := replicate IPI_OUTBOX_NUM_QUEUES zero_queue,
          ipi_completes := replicate IPI_MAX_NUM_OUTSTANDING_COMPLETES zero_complete,
          txId_last := replicate IPI_OUTBOX_NUM_QUEUES 0,
          txId_shadow := replicate IPI_OUTBOX_NUM_QUEUES 0,
          my_transaction_id := replicate MAX_NUM_HARTS 1,
          mpfs_ipi_privateData := replicate MAX_NUM_HARTS zero_private \<rparr>))"

subsection \<open>Queues\<close>

definition IPI_CalculateQueueIndex :: "hart \<Rightarrow> hart \<Rightarrow> nat" where
  "IPI_CalculateQueueIndex source target =
     (let index = source * 4 + target in if target > source then index - 1 else index)"

definition IPI_GetQueuePendingCount :: "nat \<Rightarrow> 'a ipi_data_scheme \<Rightarrow> u32" where
  "IPI_GetQueuePendingCount queueIndex s = qcount (ipi_queues s ! queueIndex)"

text \<open>\<open>IPI_DirectionToFirstMsgInQueue\<close> yields the address of slot 0 of the queue: here its index.\<close>

definition IPI_DirectionToFirstMsgInQueue :: "hart \<Rightarrow> hart \<Rightarrow> nat option" where
  "IPI_DirectionToFirstMsgInQueue source target = do {
     assert_c (target < HSS_HART_NUM_PEERS);
     assert_c (target \<noteq> source);
     Some (IPI_CalculateQueueIndex source target)
   }"

text \<open>A target outside 0..4 fails the assertion in the \<^verbatim>\<open>default\<close> case.\<close>

definition clint_set_MSIP :: "hart \<Rightarrow> u32 \<Rightarrow> 'a ipi_data_scheme \<Rightarrow> (bool \<times> 'a ipi_data_scheme) option" where
  "clint_set_MSIP target val s =
     (if target \<le> HSS_HART_U54_4 then Some (True, s\<lparr>MSIP := (MSIP s)[target := val]\<rparr>) else None)"

definition private_update ::
    "hart \<Rightarrow> (mpfs_ipi_private \<Rightarrow> mpfs_ipi_private) \<Rightarrow> 'a ipi_data_scheme \<Rightarrow> 'a ipi_data_scheme" where
  "private_update h f s =
     s\<lparr>mpfs_ipi_privateData := (mpfs_ipi_privateData s)[h := f (mpfs_ipi_privateData s ! h)]\<rparr>"

definition CLINT_Raise_MSIP :: "hart \<Rightarrow> 'a ipi_data_scheme \<Rightarrow> (bool \<times> 'a ipi_data_scheme) option" where
  "CLINT_Raise_MSIP target s = do {
     (result, s1) \<leftarrow> clint_set_MSIP target 1 s;
     Some (result, if result then private_update target (\<lambda>p. p\<lparr>ipi_sends := ipi_sends p + 1\<rparr>) s1 else s1)
   }"

definition CLINT_Clear_MSIP :: "hart \<Rightarrow> 'a ipi_data_scheme \<Rightarrow> 'a ipi_data_scheme option" where
  "CLINT_Clear_MSIP target s = map_option snd (clint_set_MSIP target 0 s)"

definition find_available_slot :: "IPI_Outbox_Msg list \<Rightarrow> nat option" where
  "find_available_slot q = find_index (\<lambda>m. msg_type m = IPI_MSG_NO_MESSAGE) q"

text \<open>
  The message is written before the target is notified; a full queue changes nothing and
  returns \<open>False\<close> (the statistics dump of that branch only prints).
\<close>

definition queue_put :: "nat \<Rightarrow> nat \<Rightarrow> IPI_Outbox_Msg \<Rightarrow> 'a ipi_data_scheme \<Rightarrow> 'a ipi_data_scheme" where
  "queue_put index j m s =
     (let q = ipi_queues s ! index in
      s\<lparr>ipi_queues := (ipi_queues s)[index := q\<lparr>msgQ := (msgQ q)[j := m]\<rparr>]\<rparr>)"

definition IPI_Send ::
    "hart \<Rightarrow> hart \<Rightarrow> IPIMessagesEnum \<Rightarrow> u32 \<Rightarrow> u32 \<Rightarrow> u64 \<Rightarrow> u64 \<Rightarrow> 'a ipi_data_scheme
      \<Rightarrow> (bool \<times> 'a ipi_data_scheme) option" where
  "IPI_Send me target message txid imm ext anc s = do {
     let index = IPI_CalculateQueueIndex me target;
     q \<leftarrow> nth_opt (ipi_queues s) index;
     case find_available_slot (msgQ q) of
       Some j \<Rightarrow>
         CLINT_Raise_MSIP target
           ((queue_put index j \<lparr> msg_type = message, transaction_id = txid, immediate_arg = imm,
              p_extended_buffer_in_ddr = ext, p_ancilliary_buffer_in_ddr = anc \<rparr> s)
            \<lparr>txId_last := (txId_last s)[index := txid]\<rparr>)
     | None \<Rightarrow> Some (False, s)
   }"

subsection \<open>Polling\<close>

text \<open>
  \<^verbatim>\<open>IPI_PollReceive\<close>, one turn of its loop over the source harts: skip oneself and the
  harts outside the mask; nothing is new if the last transaction id sent equals the one
  seen at the previous poll; otherwise recount the occupied slots of the queue.
\<close>

definition count_messages :: "IPI_Outbox_Msg list \<Rightarrow> nat" where
  "count_messages q = length (filter (\<lambda>m. msg_type m \<noteq> IPI_MSG_NO_MESSAGE) q)"

definition poll_one :: "hart \<Rightarrow> u32 \<Rightarrow> hart \<Rightarrow> bool \<times> 'a ipi_data_scheme \<Rightarrow> bool \<times> 'a ipi_data_scheme" where
  "poll_one me hartMask i rs = (case rs of (result, s) \<Rightarrow>
     if i = me then (result, s)
     else if \<not> bit hartMask i then (result, s)
     else
       let index = IPI_CalculateQueueIndex i me in
       if txId_shadow s ! index = txId_last s ! index then (result, s)
       else
         let q = ipi_queues s ! index in
         (True, s\<lparr>txId_shadow := (txId_shadow s)[index := txId_last s ! index],
                  ipi_queues := (ipi_queues s)[index := q\<lparr>qcount := word_of_nat (count_messages (msgQ q))\<rparr>]\<rparr>))"

definition IPI_PollReceive :: "hart \<Rightarrow> u32 \<Rightarrow> 'a ipi_data_scheme \<Rightarrow> bool \<times> 'a ipi_data_scheme" where
  "IPI_PollReceive me hartMask s = fold (poll_one me hartMask) [0..<MAX_NUM_HARTS] (False, s)"

subsection \<open>Consuming a message\<close>

text \<open>A handler: transaction id, source, immediate argument, the two buffers, the state.\<close>

type_synonym 'w ipi_handler =
  "u32 \<Rightarrow> hart \<Rightarrow> u32 \<Rightarrow> u64 \<Rightarrow> u64 \<Rightarrow> 'w \<Rightarrow> (IPIStatusCode \<times> 'w) option"

text \<open>\<^verbatim>\<open>ipiRegistry\<close>: a table indexed by message code; an entry's handler may be null.\<close>

type_synonym 'w ipi_registry = "(IPIMessagesEnum \<times> 'w ipi_handler option) list"

definition registry_lookup :: "'w ipi_registry \<Rightarrow> IPIMessagesEnum \<Rightarrow> 'w ipi_handler option option" where
  "registry_lookup ipiRegistry m = do {
     e \<leftarrow> nth_opt ipiRegistry (ipi_msg_code m);
     assert_c (fst e = m);
     Some (snd e)
   }"

text \<open>
  The scan of the queue for a message of the wanted type: without a handler every such
  message is cleared and the scan goes on; with one it stops at the first.
\<close>

fun consume_scan :: "bool \<Rightarrow> IPIMessagesEnum \<Rightarrow> IPI_Outbox_Msg list \<Rightarrow> IPI_Outbox_Msg list \<times> nat option" where
  "consume_scan has_handler t [] = ([], None)"
| "consume_scan has_handler t (m # ms) =
     (if msg_type m = t then
        if \<not> has_handler then
          (case consume_scan has_handler t ms of (ms', r) \<Rightarrow>
             (m\<lparr>msg_type := IPI_MSG_NO_MESSAGE\<rparr> # ms', map_option Suc r))
        else (m # ms, Some 0)
      else (case consume_scan has_handler t ms of (ms', r) \<Rightarrow> (m # ms', map_option Suc r)))"

text \<open>The acknowledgement owed for a handled message, if any.\<close>

fun ack_for :: "IPIMessagesEnum \<Rightarrow> IPIStatusCode \<Rightarrow> (IPIMessagesEnum \<times> IPIStatusCode) option" where
  "ack_for IPI_MSG_ACK_COMPLETE r = None"
| "ack_for IPI_MSG_ACK_PENDING r = None"
| "ack_for IPI_MSG_BOOT_REQUEST r = None"
| "ack_for m IPI_SUCCESS = Some (IPI_MSG_ACK_COMPLETE, IPI_SUCCESS)"
| "ack_for m IPI_PENDING = Some (IPI_MSG_ACK_PENDING, IPI_PENDING)"
| "ack_for m IPI_FAIL = Some (IPI_MSG_ACK_COMPLETE, IPI_FAIL)"
| "ack_for m IPI_IDLE = None"

text \<open>The message slot \<open>pMsg\<close> points at, re-read from the current state.\<close>

definition slot_at :: "nat \<Rightarrow> nat \<Rightarrow> 'a ipi_data_scheme \<Rightarrow> IPI_Outbox_Msg option" where
  "slot_at index j s = do { q \<leftarrow> nth_opt (ipi_queues s) index; nth_opt (msgQ q) j }"

definition queue_dec :: "nat \<Rightarrow> 'a ipi_data_scheme \<Rightarrow> 'a ipi_data_scheme" where
  "queue_dec index s =
     (let q = ipi_queues s ! index in
      if qcount q \<noteq> 0 then s\<lparr>ipi_queues := (ipi_queues s)[index := q\<lparr>qcount := qcount q - 1\<rparr>]\<rparr> else s)"

text \<open>
  \<^verbatim>\<open>IPI_ConsumeIntent\<close>.  The slot is cleared only after the handler has run and the
  acknowledgement is queued, and the acknowledgement uses the slot's contents as they are
  then; the result of sending it is ignored, as in the code.
\<close>

definition IPI_ConsumeIntent ::
    "'a ipi_data_scheme ipi_registry \<Rightarrow> hart \<Rightarrow> hart \<Rightarrow> IPIMessagesEnum \<Rightarrow> 'a ipi_data_scheme
      \<Rightarrow> (bool \<times> 'a ipi_data_scheme) option" where
  "IPI_ConsumeIntent ipiRegistry me source t s = do {
     let index = IPI_CalculateQueueIndex source me;
     q \<leftarrow> nth_opt (ipi_queues s) index;
     pHandler \<leftarrow> registry_lookup ipiRegistry t;
     let (ms, found) = consume_scan (pHandler \<noteq> None) t (msgQ q);
     let s1 = s\<lparr>ipi_queues := (ipi_queues s)[index := q\<lparr>msgQ := ms\<rparr>]\<rparr>;
     case (pHandler, found) of
       (Some handler, Some j) \<Rightarrow> do {
         let s2 = queue_dec index (private_update me (\<lambda>p. p\<lparr>consume_intents := consume_intents p + 1\<rparr>) s1);
         m \<leftarrow> slot_at index j s2;
         (result, s3) \<leftarrow> handler (transaction_id m) source (immediate_arg m)
            (p_extended_buffer_in_ddr m) (p_ancilliary_buffer_in_ddr m) s2;
         m' \<leftarrow> slot_at index j s3;
         s4 \<leftarrow> (case ack_for (msg_type m') result of
                  None \<Rightarrow> Some s3
                | Some (ack, status) \<Rightarrow>
                    map_option snd (IPI_Send me source ack (transaction_id m') (ipi_status_code status) 0 0 s3));
         m'' \<leftarrow> slot_at index j s4;
         Some (True, queue_put index j (m''\<lparr>msg_type := IPI_MSG_NO_MESSAGE\<rparr>) s4)
       }
     | _ \<Rightarrow> Some (found \<noteq> None, s1)
   }"

subsection \<open>Outstanding requests\<close>

text \<open>\<^verbatim>\<open>IPI_MessageAlloc\<close>: \<open>Some index\<close> is the result \<^verbatim>\<open>true\<close> with \<^verbatim>\<open>*indexOut = index\<close>.\<close>

definition IPI_MessageAlloc :: "hart \<Rightarrow> 'a ipi_data_scheme \<Rightarrow> nat option \<times> 'a ipi_data_scheme" where
  "IPI_MessageAlloc me s =
     (case find_index (\<lambda>c. \<not> used c) (ipi_completes s) of
        Some index \<Rightarrow>
          (Some index, private_update me (\<lambda>p. p\<lparr>message_allocs := message_allocs p + 1\<rparr>)
             (s\<lparr>ipi_completes := (ipi_completes s)[index :=
                  \<lparr> used = True, c_transaction_id = my_transaction_id s ! me, c_status = IPI_PENDING \<rparr>],
               my_transaction_id := (my_transaction_id s)[me := my_transaction_id s ! me + 1]\<rparr>))
      | None \<Rightarrow> (None, s))"

definition IPI_MessageDeliver ::
    "hart \<Rightarrow> nat \<Rightarrow> hart \<Rightarrow> IPIMessagesEnum \<Rightarrow> u32 \<Rightarrow> u64 \<Rightarrow> u64 \<Rightarrow> 'a ipi_data_scheme
      \<Rightarrow> (bool \<times> 'a ipi_data_scheme) option" where
  "IPI_MessageDeliver me index target message imm ext anc s = do {
     assert_c (index < IPI_MAX_NUM_OUTSTANDING_COMPLETES);
     c \<leftarrow> nth_opt (ipi_completes s) index;
     (result, s1) \<leftarrow> (if used c then IPI_Send me target message (c_transaction_id c) imm ext anc s
                     else Some (False, s));
     Some (result, if result then private_update me (\<lambda>p. p\<lparr>message_delivers := message_delivers p + 1\<rparr>) s1
                   else s1)
   }"

definition IPI_MessageCheckIfComplete :: "nat \<Rightarrow> 'a ipi_data_scheme \<Rightarrow> bool option" where
  "IPI_MessageCheckIfComplete index s = do {
     assert_c (index \<le> IPI_MAX_NUM_OUTSTANDING_COMPLETES);
     if index = IPI_MAX_NUM_OUTSTANDING_COMPLETES then Some True
     else do {
       c \<leftarrow> nth_opt (ipi_completes s) index;
       Some (used c \<and> (case c_status c of IPI_PENDING \<Rightarrow> False | _ \<Rightarrow> True))
     }
   }"

definition IPI_MessageUpdateStatus :: "u32 \<Rightarrow> IPIStatusCode \<Rightarrow> 'a ipi_data_scheme \<Rightarrow> bool \<times> 'a ipi_data_scheme" where
  "IPI_MessageUpdateStatus txid status s =
     (case find_index (\<lambda>c. c_transaction_id c = txid) (ipi_completes s) of
        Some index \<Rightarrow>
          (True, s\<lparr>ipi_completes := (ipi_completes s)[index := (ipi_completes s ! index)\<lparr>c_status := status\<rparr>]\<rparr>)
      | None \<Rightarrow> (False, s))"

definition IPI_MessageFree :: "hart \<Rightarrow> nat \<Rightarrow> 'a ipi_data_scheme \<Rightarrow> 'a ipi_data_scheme option" where
  "IPI_MessageFree me index s = do {
     c \<leftarrow> nth_opt (ipi_completes s) index;
     assert_c (used c);
     Some (private_update me (\<lambda>p. p\<lparr>message_frees := message_frees p + 1\<rparr>)
       (s\<lparr>ipi_completes := (ipi_completes s)[index := c\<lparr>used := False\<rparr>]\<rparr>))
   }"

definition IPI_DebugGetTxId :: "hart \<Rightarrow> 'a ipi_data_scheme \<Rightarrow> u32" where
  "IPI_DebugGetTxId me s = my_transaction_id s ! me"

definition IPI_ACK_IPIHandler :: "'a ipi_data_scheme ipi_handler" where
  "IPI_ACK_IPIHandler txid source imm ext anc s =
     Some (IPI_SUCCESS, snd (IPI_MessageUpdateStatus txid IPI_IDLE s))"

subsection \<open>The queue index\<close>

lemma IPI_CalculateQueueIndex_less:
  "source < 5 \<Longrightarrow> target < 5 \<Longrightarrow> source \<noteq> target \<Longrightarrow> IPI_CalculateQueueIndex source target < 20"
  by (auto simp: IPI_CalculateQueueIndex_def Let_def)

lemma IPI_CalculateQueueIndex_inject:
  assumes "s < 5" "t < 5" "s \<noteq> t" "s' < 5" "t' < 5" "s' \<noteq> t'"
  shows "IPI_CalculateQueueIndex s t = IPI_CalculateQueueIndex s' t' \<longleftrightarrow> s = s' \<and> t = t'"
proof -
  define slot :: "nat \<Rightarrow> nat \<Rightarrow> nat" where "slot a b = (if b > a then b - 1 else b)" for a b
  have ix: "IPI_CalculateQueueIndex a b = 4 * a + slot a b" for a b
    by (auto simp: IPI_CalculateQueueIndex_def slot_def Let_def)
  have lt: "slot a b < 4" if "a < 5" "b < 5" "a \<noteq> b" for a b
    using that by (auto simp: slot_def)
  have "4 * s + slot s t = 4 * s' + slot s' t' \<longleftrightarrow> s = s' \<and> slot s t = slot s' t'"
    using lt [OF assms(1-3)] lt [OF assms(4-6)] by arith
  moreover have "slot s t = slot s t' \<longleftrightarrow> t = t'" if "s = s'"
    using that assms by (auto simp: slot_def)
  ultimately show ?thesis unfolding ix by auto
qed

text \<open>
  \<^verbatim>\<open>IPI_CalculateQueueIndex\<close> gives every ordered pair of distinct harts a queue of
  its own, and uses all twenty queues: no two directions of traffic share one.
\<close>

theorem IPI_queue_index_bij:
  "bij_betw (\<lambda>(s, t). IPI_CalculateQueueIndex s t) {(s, t). s < 5 \<and> t < 5 \<and> s \<noteq> t} {..<20}"
proof (rule bij_betw_imageI)
  show "inj_on (\<lambda>(s, t). IPI_CalculateQueueIndex s t) {(s, t). s < 5 \<and> t < 5 \<and> s \<noteq> t}"
    by (auto simp: inj_on_def IPI_CalculateQueueIndex_inject)
  show "(\<lambda>(s, t). IPI_CalculateQueueIndex s t) ` {(s, t). s < 5 \<and> t < 5 \<and> s \<noteq> t} = {..<20}"
    (is "?f ` ?D = _")
  proof
    show "?f ` ?D \<subseteq> {..<20}" by (auto simp: IPI_CalculateQueueIndex_less)
    show "{..<20} \<subseteq> ?f ` ?D"
    proof
      fix i :: nat assume "i \<in> {..<20}"
      then have i: "i < 20" by simp
      let ?s = "i div 4" and ?r = "i mod 4"
      let ?t = "if ?r < ?s then ?r else ?r + 1"
      have "i = ?f (?s, ?t)" "(?s, ?t) \<in> ?D"
        using i by (auto simp: IPI_CalculateQueueIndex_def Let_def)
      then show "i \<in> ?f ` ?D" by blast
    qed
  qed
qed

subsection \<open>Slot arrays as bounded mailboxes\<close>

definition is_message :: "IPI_Outbox_Msg \<Rightarrow> bool" where
  "is_message m \<longleftrightarrow> msg_type m \<noteq> IPI_MSG_NO_MESSAGE"

definition pending :: "IPI_Outbox_Msg list \<Rightarrow> IPI_Outbox_Msg multiset" where
  "pending q = filter_mset is_message (mset q)"

definition slots_put :: "IPI_Outbox_Msg \<Rightarrow> IPI_Outbox_Msg list \<Rightarrow> IPI_Outbox_Msg list option" where
  "slots_put m q = map_option (\<lambda>j. q[j := m]) (find_available_slot q)"

definition slots_take :: "IPIMessagesEnum \<Rightarrow> IPI_Outbox_Msg list \<Rightarrow> (IPI_Outbox_Msg \<times> IPI_Outbox_Msg list) option" where
  "slots_take t q = map_option (\<lambda>j. (q ! j, q[j := (q ! j)\<lparr>msg_type := IPI_MSG_NO_MESSAGE\<rparr>]))
     (find_index (\<lambda>m. msg_type m = t) q)"

lemma pending_update_free:
  assumes "j < length q" "\<not> is_message (q ! j)" "is_message m"
  shows "pending (q[j := m]) = add_mset m (pending q)"
proof -
  have "pending (q[j := m]) = filter_mset is_message (add_mset m (mset q - {#q ! j#}))"
    using assms(1) by (simp add: pending_def mset_update)
  also have "\<dots> = add_mset m (filter_mset is_message (mset q) - filter_mset is_message {#q ! j#})"
    using assms(3) by (simp add: filter_diff_mset)
  finally show ?thesis using assms(2) by (simp add: pending_def)
qed

lemma pending_clear:
  assumes "j < length q" "is_message (q ! j)"
  shows "pending q = add_mset (q ! j) (pending (q[j := (q ! j)\<lparr>msg_type := IPI_MSG_NO_MESSAGE\<rparr>]))"
proof -
  let ?z = "(q ! j)\<lparr>msg_type := IPI_MSG_NO_MESSAGE\<rparr>" 
  have "q = (q[j := ?z])[j := q ! j]" by simp
  then have "pending q = pending ((q[j := ?z])[j := q ! j])" by simp
  also have "\<dots> = add_mset (q ! j) (pending (q[j := ?z]))"
    by (rule pending_update_free) (use assms in \<open>simp_all add: is_message_def\<close>)
  finally show ?thesis .
qed

lemma pending_full: "size (pending q) = length q \<longleftrightarrow> (\<forall>m\<in>set q. is_message m)"
proof -
  have "size (pending q) = length (filter is_message q)"
    by (simp add: pending_def flip: mset_filter)
  then show ?thesis by (metis filter_True filter_id_conv length_filter_less nat_neq_iff)
qed

lemma size_pending: "size (pending q) \<le> length q"
  by (metis pending_def multiset_filter_subset size_mset size_mset_mono)


subsection \<open>The mailbox interface\<close>

text \<open>
  What the message bus needs of a queue: putting adds exactly the message, taking removes
  exactly one message with the key, a put is refused exactly when the queue is full, and
  a take exactly when no such message waits.
\<close>

locale mailbox =
  fixes put :: "'m \<Rightarrow> 'q \<Rightarrow> 'q option"
    and take :: "'k \<Rightarrow> 'q \<Rightarrow> ('m \<times> 'q) option"
    and key :: "'m \<Rightarrow> 'k"
    and real :: "'k \<Rightarrow> bool"
    and contents :: "'q \<Rightarrow> 'm multiset"
    and cap :: "'q \<Rightarrow> nat"
  assumes put_Some: "real (key m) \<Longrightarrow> put m q = Some q' \<Longrightarrow> contents q' = add_mset m (contents q)"
    and put_None: "put m q = None \<longleftrightarrow> size (contents q) = cap q"
    and put_cap: "put m q = Some q' \<Longrightarrow> cap q' = cap q"
    and take_Some: "real k \<Longrightarrow> take k q = Some (m, q') \<Longrightarrow> key m = k \<and> contents q = add_mset m (contents q')"
    and take_None: "real k \<Longrightarrow> take k q = None \<longleftrightarrow> (\<forall>m\<in>#contents q. key m \<noteq> k)"
    and take_cap: "take k q = Some (m, q') \<Longrightarrow> cap q' = cap q"
begin

lemma put_total: "real (key m) \<Longrightarrow> size (contents q) \<noteq> cap q \<Longrightarrow>
    \<exists>q'. put m q = Some q' \<and> contents q' = add_mset m (contents q) \<and> cap q' = cap q"
  using put_None [of m q] put_Some put_cap by (cases "put m q") auto

lemma take_after_put:
  assumes "real (key m)" "put m q = Some q'"
  obtains m' q'' where "take (key m) q' = Some (m', q'')" "key m' = key m"
    and "add_mset m' (contents q'') = add_mset m (contents q)"
proof -
  have c: "contents q' = add_mset m (contents q)" using assms by (rule put_Some)
  have "take (key m) q' \<noteq> None" using take_None [OF assms(1), of q'] by (auto simp: c)
  then obtain m' q'' where t: "take (key m) q' = Some (m', q'')" by auto
  with take_Some [OF assms(1) t] c show ?thesis by (intro that [OF t]) auto
qed

text \<open>A message put into a queue that holds no other with its key is the one taken next.\<close>

lemma take_the_put:
  assumes "real (key m)" "put m q = Some q'" "\<forall>m\<in>#contents q. key m \<noteq> key m0" "key m0 = key m"
  shows "\<exists>q''. take (key m) q' = Some (m, q'') \<and> contents q'' = contents q"
proof -
  obtain m' q'' where t: "take (key m) q' = Some (m', q'')" "key m' = key m"
    and e: "add_mset m' (contents q'') = add_mset m (contents q)"
    using assms(1,2) by (rule take_after_put)
  have "m' \<in># add_mset m (contents q)" by (simp flip: e)
  then have "m' = m" using assms(3,4) t(2) by auto
  with t e show ?thesis by simp
qed

text \<open>A whole run of puts and takes: nothing is lost, nothing is invented.\<close>

fun run :: "('m + 'k) list \<Rightarrow> 'q \<Rightarrow> 'm list \<times> 'm list \<times> 'q" where
  "run [] q = ([], [], q)"
| "run (Inl m # ops) q =
     (case put m q of None \<Rightarrow> run ops q
      | Some q' \<Rightarrow> (case run ops q' of (ins, outs, r) \<Rightarrow> (m # ins, outs, r)))"
| "run (Inr k # ops) q =
     (case take k q of None \<Rightarrow> run ops q
      | Some (m, q') \<Rightarrow> (case run ops q' of (ins, outs, r) \<Rightarrow> (ins, m # outs, r)))"

lemma run_conserves:
  "run ops q = (ins, outs, r) \<Longrightarrow> (\<And>m. Inl m \<in> set ops \<Longrightarrow> real (key m)) \<Longrightarrow>
    (\<And>k. Inr k \<in> set ops \<Longrightarrow> real k) \<Longrightarrow>
    mset ins + contents q = mset outs + contents r"
proof (induction ops q arbitrary: ins outs r rule: run.induct)
  case (1 q)
  then show ?case by simp
next
  case (2 m ops q)
  show ?case
  proof (cases "put m q")
    case None
    with 2 show ?thesis by auto
  next
    case (Some q')
    with 2(3) obtain ins' where i: "ins = m # ins'" "run ops q' = (ins', outs, r)"
      by (auto split: prod.splits)
    have "mset ins' + contents q' = mset outs + contents r"
      by (rule 2(2) [OF Some i(2)]) (use 2(4,5) in auto)
    moreover have "contents q' = add_mset m (contents q)"
      using put_Some [OF 2(4) Some] by simp
    ultimately show ?thesis using i(1) by simp
  qed
next
  case (3 k ops q)
  show ?case
  proof (cases "take k q")
    case None
    with 3 show ?thesis by auto
  next
    case (Some mq)
    then obtain m q' where mq: "take k q = Some (m, q')" by (cases mq) auto
    with 3(3) obtain outs' where i: "outs = m # outs'" "run ops q' = (ins, outs', r)"
      by (auto split: prod.splits)
    have "mset ins + contents q' = mset outs' + contents r"
      using mq Some by (intro 3(2) [OF _ _ i(2)]) (use 3(4,5) in auto)
    moreover have "contents q = add_mset m (contents q')"
      using take_Some [OF 3(5) mq] by simp
    ultimately show ?thesis using i(1) by simp
  qed
qed

end

interpretation slots: mailbox slots_put slots_take msg_type "\<lambda>t. t \<noteq> IPI_MSG_NO_MESSAGE" pending length
proof
  fix m :: IPI_Outbox_Msg and q q' and t
  show "slots_put m q = Some q' \<Longrightarrow> length q' = length q" by (auto simp: slots_put_def)
  show "slots_take t q = Some (m, q') \<Longrightarrow> length q' = length q" by (auto simp: slots_take_def)
  show "pending q' = add_mset m (pending q)"
    if "msg_type m \<noteq> IPI_MSG_NO_MESSAGE" "slots_put m q = Some q'"
    using that by (auto simp: slots_put_def find_available_slot_def find_index_Some_iff is_message_def
        intro!: pending_update_free)
  show "slots_put m q = None \<longleftrightarrow> size (pending q) = length q"
    by (simp add: slots_put_def find_available_slot_def pending_full is_message_def)
  show "msg_type m = t \<and> pending q = add_mset m (pending q')"
    if "t \<noteq> IPI_MSG_NO_MESSAGE" "slots_take t q = Some (m, q')"
    using that by (auto simp: slots_take_def find_index_Some_iff is_message_def intro!: pending_clear)
  show "slots_take t q = None \<longleftrightarrow> (\<forall>m\<in>#pending q. msg_type m \<noteq> t)"
    if "t \<noteq> IPI_MSG_NO_MESSAGE"
    using that by (auto simp: slots_take_def pending_def is_message_def)
qed


subsection \<open>Well-formed bus states and the abstract mailboxes\<close>

definition ipi_wf :: "'a ipi_data_scheme \<Rightarrow> bool" where
  "ipi_wf s \<longleftrightarrow>
     length (ipi_queues s) = 20 \<and> (\<forall>q\<in>set (ipi_queues s). length (msgQ q) = IPI_MAX_NUM_QUEUE_MESSAGES) \<and>
     length (ipi_completes s) = IPI_MAX_NUM_OUTSTANDING_COMPLETES \<and>
     length (txId_last s) = 20 \<and> length (txId_shadow s) = 20 \<and>
     length (my_transaction_id s) = 5 \<and> length (mpfs_ipi_privateData s) = 5 \<and> length (MSIP s) = 5"

text \<open>The messages on their way from one hart to another.\<close>

definition mailbox_of :: "hart \<Rightarrow> hart \<Rightarrow> 'a ipi_data_scheme \<Rightarrow> IPI_Outbox_Msg multiset" where
  "mailbox_of source target s = pending (msgQ (ipi_queues s ! IPI_CalculateQueueIndex source target))"

text \<open>Two distinct harts of the five.\<close>

definition peers :: "hart \<Rightarrow> hart \<Rightarrow> bool" where
  "peers a b \<longleftrightarrow> a < 5 \<and> b < 5 \<and> a \<noteq> b"

lemma peers_index: "peers a b \<Longrightarrow> IPI_CalculateQueueIndex a b < 20"
  by (simp add: peers_def IPI_CalculateQueueIndex_less)

lemma peers_sym: "peers a b \<Longrightarrow> peers b a"
  by (simp add: peers_def)

lemma peers_inject:
  "peers a b \<Longrightarrow> peers c d \<Longrightarrow>
     IPI_CalculateQueueIndex a b = IPI_CalculateQueueIndex c d \<longleftrightarrow> a = c \<and> b = d"
  unfolding peers_def by (rule IPI_CalculateQueueIndex_inject) auto

lemma ipi_wf_QueuesInit: "length (MSIP s) = 5 \<Longrightarrow> ipi_wf (snd (IPI_QueuesInit s))"
  by (simp add: ipi_wf_def IPI_QueuesInit_def zero_queue_def)

lemma mailbox_of_init: "peers a b \<Longrightarrow> mailbox_of a b (snd (IPI_QueuesInit s)) = {#}"
  by (simp add: mailbox_of_def IPI_QueuesInit_def zero_queue_def peers_index pending_def zero_msg_def
      is_message_def filter_mset_eq_mempty_iff)

lemma wf_queue_length:
  "ipi_wf s \<Longrightarrow> i < 20 \<Longrightarrow> length (msgQ (ipi_queues s ! i)) = IPI_MAX_NUM_QUEUE_MESSAGES"
  by (simp add: ipi_wf_def)

lemma wf_queue_update:
  "ipi_wf s \<Longrightarrow> length (msgQ q) = IPI_MAX_NUM_QUEUE_MESSAGES \<Longrightarrow>
     ipi_wf (s\<lparr>ipi_queues := (ipi_queues s)[i := q]\<rparr>)"
  unfolding ipi_wf_def by (auto dest!: set_update_subset_insert [THEN subsetD])

text \<open>What an operation on one queue leaves alone, field by field.\<close>

lemma queue_put_simps [simp]:
  "ipi_queues (queue_put i j m s) =
     (ipi_queues s)[i := (ipi_queues s ! i)\<lparr>msgQ := (msgQ (ipi_queues s ! i))[j := m]\<rparr>]"
  "ipi_completes (queue_put i j m s) = ipi_completes s"
  "txId_last (queue_put i j m s) = txId_last s"
  "txId_shadow (queue_put i j m s) = txId_shadow s"
  "my_transaction_id (queue_put i j m s) = my_transaction_id s"
  "mpfs_ipi_privateData (queue_put i j m s) = mpfs_ipi_privateData s"
  "MSIP (queue_put i j m s) = MSIP s"
  "triggers.truncate (queue_put i j m s) = triggers.truncate s"
  by (simp_all add: queue_put_def Let_def triggers.defs)

lemma private_update_simps [simp]:
  "ipi_queues (private_update h f s) = ipi_queues s"
  "ipi_completes (private_update h f s) = ipi_completes s"
  "txId_last (private_update h f s) = txId_last s"
  "txId_shadow (private_update h f s) = txId_shadow s"
  "my_transaction_id (private_update h f s) = my_transaction_id s"
  "mpfs_ipi_privateData (private_update h f s)
     = (mpfs_ipi_privateData s)[h := f (mpfs_ipi_privateData s ! h)]"
  "MSIP (private_update h f s) = MSIP s"
  "triggers.truncate (private_update h f s) = triggers.truncate s"
  by (simp_all add: private_update_def triggers.defs)

lemma ipi_wf_private_update [simp]: "ipi_wf (private_update h f s) = ipi_wf s"
  by (simp add: ipi_wf_def)

lemma ipi_wf_queue_put:
  "ipi_wf s \<Longrightarrow> i < 20 \<Longrightarrow> ipi_wf (queue_put i j m s)"
  unfolding queue_put_def Let_def
  by (rule wf_queue_update) (simp_all add: wf_queue_length)

lemma mailbox_of_private_update [simp]: "mailbox_of a b (private_update h f s) = mailbox_of a b s"
  by (simp add: mailbox_of_def)

subsection \<open>Sending\<close>

lemma slots_put_Some_iff:
  "slots_put m q = Some q' \<longleftrightarrow> (\<exists>j. find_available_slot q = Some j \<and> q' = q[j := m])"
  by (auto simp: slots_put_def)

lemma IPI_Send_unfold:
  assumes "ipi_wf s" "peers me target"
    and index: "index = IPI_CalculateQueueIndex me target"
    and m: "m = \<lparr> msg_type = message, transaction_id = txid, immediate_arg = imm,
              p_extended_buffer_in_ddr = ext, p_ancilliary_buffer_in_ddr = anc \<rparr>"
  shows "IPI_Send me target message txid imm ext anc s =
    (case find_available_slot (msgQ (ipi_queues s ! index)) of
       None \<Rightarrow> Some (False, s)
     | Some j \<Rightarrow> Some (True, private_update target (\<lambda>p. p\<lparr>ipi_sends := ipi_sends p + 1\<rparr>)
          ((queue_put index j m s)\<lparr>txId_last := (txId_last s)[index := txid], MSIP := (MSIP s)[target := 1]\<rparr>)))"
  using assms(1) peers_index [OF assms(2)] assms(2)
  by (simp add: IPI_Send_def index m ipi_wf_def Let_def CLINT_Raise_MSIP_def clint_set_MSIP_def peers_def
      split: option.split)

lemma IPI_Send_spec:
  assumes wf: "ipi_wf s" and p: "peers me target" and m: "message \<noteq> IPI_MSG_NO_MESSAGE"
  shows "if size (mailbox_of me target s) < IPI_MAX_NUM_QUEUE_MESSAGES
         then \<exists>s'. IPI_Send me target message txid imm ext anc s = Some (True, s') \<and> ipi_wf s'
            \<and> mailbox_of me target s' = add_mset \<lparr> msg_type = message, transaction_id = txid,
                 immediate_arg = imm, p_extended_buffer_in_ddr = ext, p_ancilliary_buffer_in_ddr = anc \<rparr>
                 (mailbox_of me target s)
            \<and> (\<forall>a b. peers a b \<longrightarrow> (a, b) \<noteq> (me, target) \<longrightarrow> mailbox_of a b s' = mailbox_of a b s)
            \<and> txId_last s' ! IPI_CalculateQueueIndex me target = txid
            \<and> MSIP s' ! target = 1 \<and> ipi_completes s' = ipi_completes s
         else IPI_Send me target message txid imm ext anc s = Some (False, s)"
proof -
  define index where "index = IPI_CalculateQueueIndex me target"
  define msg where "msg = \<lparr> msg_type = message, transaction_id = txid,
                 immediate_arg = imm, p_extended_buffer_in_ddr = ext, p_ancilliary_buffer_in_ddr = anc \<rparr>"
  let ?q = "msgQ (ipi_queues s ! index)"
  have i: "index < 20" using p by (simp add: index_def peers_index)
  have len: "length (ipi_queues s) = 20" "length (txId_last s) = 20" "length (MSIP s) = 5"
    and lq: "length ?q = IPI_MAX_NUM_QUEUE_MESSAGES"
    using wf i by (auto simp: ipi_wf_def)
  have real: "msg_type msg \<noteq> IPI_MSG_NO_MESSAGE" using m by (simp add: msg_def)
  have mb: "mailbox_of me target s = pending ?q" by (simp add: mailbox_of_def index_def)
  have unf: "IPI_Send me target message txid imm ext anc s = (case find_available_slot ?q of
       None \<Rightarrow> Some (False, s)
     | Some j \<Rightarrow> Some (True, private_update target (\<lambda>p. p\<lparr>ipi_sends := ipi_sends p + 1\<rparr>)
          ((queue_put index j msg s)\<lparr>txId_last := (txId_last s)[index := txid], MSIP := (MSIP s)[target := 1]\<rparr>)))"
    by (rule IPI_Send_unfold [OF wf p index_def msg_def])
  show ?thesis
  proof (cases "size (mailbox_of me target s) < IPI_MAX_NUM_QUEUE_MESSAGES")
    case True
    then obtain q' where q': "slots_put msg ?q = Some q'" and c: "pending q' = add_mset msg (pending ?q)"
      using slots.put_total [OF real, of ?q] by (auto simp: mb lq)
    then obtain j where j: "find_available_slot ?q = Some j" and q'j: "q' = ?q[j := msg]"
      by (auto simp: slots_put_Some_iff)
    let ?s' = "private_update target (\<lambda>p. p\<lparr>ipi_sends := ipi_sends p + 1\<rparr>)
          ((queue_put index j msg s)\<lparr>txId_last := (txId_last s)[index := txid], MSIP := (MSIP s)[target := 1]\<rparr>)"
    have "ipi_wf ?s'"
      using ipi_wf_queue_put [OF wf i] by (simp add: ipi_wf_def)
    moreover have "mailbox_of me target ?s' = add_mset msg (mailbox_of me target s)"
      using c i len by (simp add: mailbox_of_def q'j flip: index_def)
    moreover have "mailbox_of a b ?s' = mailbox_of a b s" if "peers a b" "(a, b) \<noteq> (me, target)" for a b
      using peers_inject [OF that(1) p] that(2) by (auto simp: mailbox_of_def index_def nth_list_update)
    moreover have "txId_last ?s' ! index = txid" "MSIP ?s' ! target = 1" "ipi_completes ?s' = ipi_completes s"
      using len i p by (simp_all add: peers_def)
    ultimately show ?thesis
      using True unf j by (simp flip: index_def msg_def)
  next
    case False
    then have "slots_put msg ?q = None"
      using slots.put_None [of msg ?q] size_pending [of ?q] by (simp add: mb lq)
    then show ?thesis using False unf by (simp add: slots_put_def)
  qed
qed

text \<open>
  C2.  \<^verbatim>\<open>IPI_Send\<close> implements a bounded mailbox: if the queue to the target has room the
  call succeeds, adds exactly this message to it, raises the target's software interrupt
  and leaves the other nineteen directions and the request table alone; if it is full the
  call returns false and changes nothing at all.
\<close>

theorem IPI_Send_mailbox:
  assumes wf: "ipi_wf s" and p: "peers me target" and m: "message \<noteq> IPI_MSG_NO_MESSAGE"
  shows "if size (mailbox_of me target s) < IPI_MAX_NUM_QUEUE_MESSAGES
         then \<exists>s'. IPI_Send me target message txid imm ext anc s = Some (True, s') \<and> ipi_wf s'
            \<and> mailbox_of me target s' = add_mset \<lparr> msg_type = message, transaction_id = txid,
                 immediate_arg = imm, p_extended_buffer_in_ddr = ext, p_ancilliary_buffer_in_ddr = anc \<rparr>
                 (mailbox_of me target s)
            \<and> (\<forall>a b. peers a b \<longrightarrow> (a, b) \<noteq> (me, target) \<longrightarrow> mailbox_of a b s' = mailbox_of a b s)
            \<and> txId_last s' ! IPI_CalculateQueueIndex me target = txid
            \<and> MSIP s' ! target = 1 \<and> ipi_completes s' = ipi_completes s
         else IPI_Send me target message txid imm ext anc s = Some (False, s)"
  by (rule IPI_Send_spec [OF assms])

subsection \<open>Consuming\<close>

lemma consume_scan_handler [simp]:
  "consume_scan True t q = (q, find_index (\<lambda>m. msg_type m = t) q)"
  by (induction q) (auto split: prod.splits)

lemma consume_scan_no_handler [simp]:
  "consume_scan False t q =
     (map (\<lambda>m. if msg_type m = t then m\<lparr>msg_type := IPI_MSG_NO_MESSAGE\<rparr> else m) q, None)"
  by (induction q) auto

lemma queue_same [simp]:
  "s\<lparr>ipi_queues := (ipi_queues s)[i := (ipi_queues s ! i)\<lparr>msgQ := msgQ (ipi_queues s ! i)\<rparr>]\<rparr> = s"
  by simp

lemma queue_dec_simps [simp]:
  "msgQ (ipi_queues (queue_dec i s) ! k) = msgQ (ipi_queues s ! k)"
  "length (ipi_queues (queue_dec i s)) = length (ipi_queues s)"
  "ipi_completes (queue_dec i s) = ipi_completes s"
  "txId_last (queue_dec i s) = txId_last s"
  "txId_shadow (queue_dec i s) = txId_shadow s"
  "my_transaction_id (queue_dec i s) = my_transaction_id s"
  "mpfs_ipi_privateData (queue_dec i s) = mpfs_ipi_privateData s"
  "MSIP (queue_dec i s) = MSIP s"
  by (cases "i < length (ipi_queues s)"; auto simp: queue_dec_def Let_def nth_list_update list_update_beyond)+

lemma ipi_wf_queue_dec: "ipi_wf s \<Longrightarrow> ipi_wf (queue_dec i s)"
  unfolding ipi_wf_def by (auto simp: all_set_conv_all_nth)

lemma mailbox_of_queue_dec [simp]: "mailbox_of a b (queue_dec i s) = mailbox_of a b s"
  by (simp add: mailbox_of_def)

lemma slot_at_eq:
  "i < length (ipi_queues s) \<Longrightarrow> j < length (msgQ (ipi_queues s ! i)) \<Longrightarrow>
     slot_at i j s = Some (msgQ (ipi_queues s ! i) ! j)"
  by (simp add: slot_at_def)

text \<open>A queue with no message of the type: nothing happens (and the answer is no).\<close>

lemma IPI_ConsumeIntent_none:
  assumes "ipi_wf s" "peers source me" "registry_lookup reg t = Some (Some h)" "t \<noteq> IPI_MSG_NO_MESSAGE"
    and "\<forall>m\<in>#mailbox_of source me s. msg_type m \<noteq> t"
  shows "IPI_ConsumeIntent reg me source t s = Some (False, s)"
proof -
  let ?q = "msgQ (ipi_queues s ! IPI_CalculateQueueIndex source me)"
  have "find_index (\<lambda>m. msg_type m = t) ?q = None"
    using assms(4,5) slots.take_None [of t ?q] by (simp add: mailbox_of_def slots_take_def)
  then show ?thesis
    using assms(1-3) peers_index [OF assms(2)]
    by (simp add: IPI_ConsumeIntent_def Let_def ipi_wf_def del: find_index_None)
qed

subsection \<open>What the bus operations leave to the other components\<close>

text \<open>
  The later layers of the state extend this one: \<open>ipi_data.more\<close> is all they add.  The
  bus operations do not touch it, and consuming does not if the handler does not.
\<close>

lemma queue_put_more [simp]: "ipi_data.more (queue_put i j m s) = ipi_data.more s"
  by (simp add: queue_put_def Let_def)

lemma private_update_more [simp]: "ipi_data.more (private_update h f s) = ipi_data.more s"
  by (simp add: private_update_def)

lemma queue_dec_more [simp]: "ipi_data.more (queue_dec i s) = ipi_data.more s"
  by (simp add: queue_dec_def Let_def)

lemma IPI_Send_more:
  "IPI_Send me target message txid imm ext anc s = Some (b, s') \<Longrightarrow> ipi_data.more s' = ipi_data.more s"
  by (auto simp: IPI_Send_def Option.bind_eq_Some_conv CLINT_Raise_MSIP_def clint_set_MSIP_def Let_def split: option.splits if_splits)

lemma IPI_MessageAlloc_more [simp]: "ipi_data.more (snd (IPI_MessageAlloc me s)) = ipi_data.more s"
  by (simp add: IPI_MessageAlloc_def split: option.split)

lemma IPI_MessageUpdateStatus_more [simp]:
  "ipi_data.more (snd (IPI_MessageUpdateStatus txid st s)) = ipi_data.more s"
  by (simp add: IPI_MessageUpdateStatus_def split: option.split)

lemma IPI_MessageDeliver_more:
  "IPI_MessageDeliver me i target message imm ext anc s = Some (b, s') \<Longrightarrow> ipi_data.more s' = ipi_data.more s"
  by (auto simp: IPI_MessageDeliver_def Option.bind_eq_Some_conv dest: IPI_Send_more split: if_splits)

lemma IPI_MessageFree_more: "IPI_MessageFree me i s = Some s' \<Longrightarrow> ipi_data.more s' = ipi_data.more s"
  by (auto simp: IPI_MessageFree_def Option.bind_eq_Some_conv)

subsection \<open>The contract of a message handler\<close>

text \<open>
  The contract of a message handler with the bus: under a condition on its own
  component's state that it keeps, it returns, and it neither touches the queues nor breaks
  the bus data.  Every handler that only works on its own component's state and on the
  request table meets it.
\<close>

locale bus_handler =
  fixes handler :: "'a ipi_data_scheme ipi_handler" and ok :: "'a ipi_data_scheme \<Rightarrow> bool"
  assumes ok_more: "ipi_data.more s' = ipi_data.more s \<Longrightarrow> ok s \<Longrightarrow> ok s'"
    and handler_returns: "ok s \<Longrightarrow> \<exists>r s'. handler txid src imm ext anc s = Some (r, s')"
    and handler_ok: "ok s \<Longrightarrow> handler txid src imm ext anc s = Some (r, s') \<Longrightarrow> ok s'"
    and handler_queues: "ok s \<Longrightarrow> handler txid src imm ext anc s = Some (r, s') \<Longrightarrow> ipi_queues s' = ipi_queues s"
    and handler_wf: "ipi_wf s \<Longrightarrow> ok s \<Longrightarrow> handler txid src imm ext anc s = Some (r, s') \<Longrightarrow> ipi_wf s'"
begin

lemma handler_mailbox:
  "ok s \<Longrightarrow> handler txid src imm ext anc s = Some (r, s') \<Longrightarrow> mailbox_of a b s' = mailbox_of a b s"
  by (simp add: mailbox_of_def handler_queues)

text \<open>One message of the type is handled, removed and answered; the others stay.\<close>

lemma consume_one:
  assumes wf: "ipi_wf s" and p: "peers source me" and reg: "registry_lookup reg t = Some (Some handler)"
    and t: "t \<noteq> IPI_MSG_NO_MESSAGE" and ex: "\<exists>m\<in>#mailbox_of source me s. msg_type m = t" and ok: "ok s"
  obtains m r s2 s3 s' where
    "IPI_ConsumeIntent reg me source t s = Some (True, s')" "ipi_wf s'" "ok s'" "msg_type m = t"
    "ipi_completes s2 = ipi_completes s"
    "handler (transaction_id m) source (immediate_arg m) (p_extended_buffer_in_ddr m)
       (p_ancilliary_buffer_in_ddr m) s2 = Some (r, s3)"
    "ipi_completes s' = ipi_completes s3"
    "mailbox_of source me s = add_mset m (mailbox_of source me s')"
    "mailbox_of me source s' = mailbox_of me source s +
       (case ack_for t r of None \<Rightarrow> {#}
        | Some (ack, status) \<Rightarrow>
            if size (mailbox_of me source s) < IPI_MAX_NUM_QUEUE_MESSAGES
            then {# \<lparr> msg_type = ack, transaction_id = transaction_id m,
                      immediate_arg = ipi_status_code status, p_extended_buffer_in_ddr = 0,
                      p_ancilliary_buffer_in_ddr = 0 \<rparr> #}
            else {#})"
    "\<forall>a b. peers a b \<longrightarrow> (a, b) \<noteq> (source, me) \<longrightarrow> (a, b) \<noteq> (me, source) \<longrightarrow>
       mailbox_of a b s' = mailbox_of a b s"
proof -
  define index where "index = IPI_CalculateQueueIndex source me"
  define f :: "mpfs_ipi_private \<Rightarrow> mpfs_ipi_private" where
    "f = (\<lambda>p. p\<lparr>consume_intents := consume_intents p + 1\<rparr>)"
  let ?q = "msgQ (ipi_queues s ! index)"
  have i: "index < 20" using p by (simp add: index_def peers_index)
  have lens: "length (ipi_queues s) = 20" and lq: "length ?q = IPI_MAX_NUM_QUEUE_MESSAGES"
    using wf i by (auto simp: ipi_wf_def)
  obtain j where j: "find_index (\<lambda>m. msg_type m = t) ?q = Some j"
    using ex t slots.take_None [of t ?q]
    by (auto simp: mailbox_of_def slots_take_def index_def [symmetric] simp del: find_index_None)
  then have jl: "j < length ?q" and mt: "msg_type (?q ! j) = t"
    by (auto simp: find_index_Some_iff)
  define m where "m = ?q ! j"
  define s2 where "s2 = queue_dec index (private_update me f s)"
  have ok2: "ok s2" using _ ok by (rule ok_more) (simp add: s2_def)
  obtain r s3 where h: "handler (transaction_id m) source (immediate_arg m) (p_extended_buffer_in_ddr m)
       (p_ancilliary_buffer_in_ddr m) s2 = Some (r, s3)"
    using handler_returns [OF ok2] by blast
  have ok3: "ok s3" using ok2 h by (rule handler_ok)
  have wf2: "ipi_wf s2" using wf by (simp add: s2_def ipi_wf_queue_dec)
  have wf3: "ipi_wf s3" using wf2 ok2 h by (rule handler_wf)
  have q3: "ipi_queues s3 = ipi_queues s2" using ok2 h by (rule handler_queues)
  have mb3: "mailbox_of a b s3 = mailbox_of a b s" for a b
    using handler_mailbox [OF ok2 h] by (simp add: s2_def)
  have msgQ3: "msgQ (ipi_queues s3 ! k) = msgQ (ipi_queues s ! k)" for k by (simp add: q3 s2_def)
  have len3: "length (ipi_queues s3) = 20" using wf3 by (simp add: ipi_wf_def)
  have sl2: "slot_at index j s2 = Some m"
    using i jl lens by (simp add: s2_def slot_at_eq m_def)
  have sl3: "slot_at index j s3 = Some m"
    using i jl len3 by (simp add: slot_at_eq msgQ3 m_def)
  have ack_real: "ack \<noteq> IPI_MSG_NO_MESSAGE" if "ack_for t r = Some (ack, status)" for ack status
    using that by (cases "(t, r)" rule: ack_for.cases) auto
  define answer where "answer = (case ack_for t r of None \<Rightarrow> {#}
        | Some (ack, status) \<Rightarrow>
            if size (mailbox_of me source s) < IPI_MAX_NUM_QUEUE_MESSAGES
            then {# \<lparr> msg_type = ack, transaction_id = transaction_id m,
                      immediate_arg = ipi_status_code status, p_extended_buffer_in_ddr = 0,
                      p_ancilliary_buffer_in_ddr = 0 \<rparr> #}
            else {#})"
  have "\<exists>s4. (case ack_for t r of
                  None \<Rightarrow> Some s3
                | Some (ack, status) \<Rightarrow>
                    map_option snd (IPI_Send me source ack (transaction_id m) (ipi_status_code status) 0 0 s3))
          = Some s4 \<and> ipi_wf s4 \<and> ok s4 \<and> ipi_completes s4 = ipi_completes s3
        \<and> mailbox_of me source s4 = mailbox_of me source s + answer
        \<and> (\<forall>a b. peers a b \<longrightarrow> (a, b) \<noteq> (me, source) \<longrightarrow> mailbox_of a b s4 = mailbox_of a b s)
        \<and> msgQ (ipi_queues s4 ! index) = ?q"
  proof (cases "ack_for t r")
    case None
    then show ?thesis using wf3 ok3 mb3 by (simp add: answer_def msgQ3)
  next
    case (Some as)
    obtain ack status where as: "as = (ack, status)" by (cases as)
    note real = ack_real [OF Some [unfolded as]]
    have ne: "IPI_CalculateQueueIndex me source \<noteq> index"
      using peers_inject [OF peers_sym [OF p] p] p by (simp add: index_def peers_def)
    show ?thesis
    proof (cases "size (mailbox_of me source s) < IPI_MAX_NUM_QUEUE_MESSAGES")
      case True
      with IPI_Send_spec [OF wf3 peers_sym [OF p] real, of "transaction_id m" "ipi_status_code status" 0 0]
      obtain s4 where s4: "IPI_Send me source ack (transaction_id m) (ipi_status_code status) 0 0 s3 = Some (True, s4)"
        "ipi_wf s4" "ipi_completes s4 = ipi_completes s3"
        "mailbox_of me source s4 = mailbox_of me source s + answer"
        "\<forall>a b. peers a b \<longrightarrow> (a, b) \<noteq> (me, source) \<longrightarrow> mailbox_of a b s4 = mailbox_of a b s"
        by (auto simp: mb3 answer_def Some as)
      moreover have "ok s4" using IPI_Send_more [OF s4(1)] ok3 by (rule ok_more)
      moreover have "msgQ (ipi_queues s4 ! index) = ?q"
        using s4(1) ne i len3 msgQ3
        by (auto simp: IPI_Send_unfold [OF wf3 peers_sym [OF p] refl refl] split: option.splits)
      ultimately show ?thesis by (simp add: Some as)
    next
      case False
      with IPI_Send_spec [OF wf3 peers_sym [OF p] real, of "transaction_id m" "ipi_status_code status" 0 0]
      show ?thesis using wf3 ok3 by (simp add: mb3 answer_def Some as msgQ3)
    qed
  qed
  then obtain s4 where s4: "(case ack_for t r of
                  None \<Rightarrow> Some s3
                | Some (ack, status) \<Rightarrow>
                    map_option snd (IPI_Send me source ack (transaction_id m) (ipi_status_code status) 0 0 s3))
          = Some s4" and wf4: "ipi_wf s4" and ok4: "ok s4" and c4: "ipi_completes s4 = ipi_completes s3"
        and mb4: "mailbox_of me source s4 = mailbox_of me source s + answer"
        and ot4: "\<forall>a b. peers a b \<longrightarrow> (a, b) \<noteq> (me, source) \<longrightarrow> mailbox_of a b s4 = mailbox_of a b s"
        and q4: "msgQ (ipi_queues s4 ! index) = ?q" by blast
  have len4: "length (ipi_queues s4) = 20" using wf4 by (simp add: ipi_wf_def)
  have sl4: "slot_at index j s4 = Some m" using i jl len4 by (simp add: slot_at_eq q4 m_def)
  let ?s' = "queue_put index j (m\<lparr>msg_type := IPI_MSG_NO_MESSAGE\<rparr>) s4"
  have "IPI_ConsumeIntent reg me source t s = Some (True, ?s')"
    using i lens j reg sl2 h sl3 s4 sl4 mt [folded m_def]
    by (simp add: IPI_ConsumeIntent_def Let_def s2_def f_def index_def [symmetric])
  moreover have "ipi_wf ?s'" using wf4 i by (rule ipi_wf_queue_put)
  moreover have "ok ?s'" using _ ok4 by (rule ok_more) simp
  moreover have "mailbox_of source me s = add_mset m (mailbox_of source me ?s')"
    using pending_clear [OF jl] mt t i len4
    by (simp add: mailbox_of_def index_def [symmetric] q4 m_def is_message_def)
  moreover have same: "mailbox_of a b ?s' = mailbox_of a b s4" if "peers a b" "(a, b) \<noteq> (source, me)" for a b
    using peers_inject [OF that(1) p] that(2) by (auto simp: mailbox_of_def index_def nth_list_update)
  moreover have "mailbox_of me source ?s' = mailbox_of me source s + answer"
    using same [OF peers_sym [OF p]] p by (simp add: peers_def mb4)
  moreover have "\<forall>a b. peers a b \<longrightarrow> (a, b) \<noteq> (source, me) \<longrightarrow> (a, b) \<noteq> (me, source) \<longrightarrow>
       mailbox_of a b ?s' = mailbox_of a b s"
    using same ot4 by auto
  ultimately show ?thesis
    using h c4 mt by (intro that [of ?s' m s2 r s3]) (simp_all add: s2_def answer_def m_def)
qed

end

subsection \<open>The request table\<close>

lemma alloc_spec:
  assumes "ipi_wf s" "me < 5" "IPI_MessageAlloc me s = (Some i, s')"
  shows "i < IPI_MAX_NUM_OUTSTANDING_COMPLETES" "\<not> used (ipi_completes s ! i)"
    "ipi_completes s' = (ipi_completes s)[i :=
        \<lparr> used = True, c_transaction_id = my_transaction_id s ! me, c_status = IPI_PENDING \<rparr>]"
    "ipi_queues s' = ipi_queues s" "ipi_wf s'"
    "my_transaction_id s' = (my_transaction_id s)[me := my_transaction_id s ! me + 1]"
  using assms
  by (auto simp: IPI_MessageAlloc_def ipi_wf_def find_index_Some_iff split: option.splits)

lemma alloc_None: "fst (IPI_MessageAlloc me s) = None \<longleftrightarrow> (\<forall>c\<in>set (ipi_completes s). used c)"
proof -
  have "fst (IPI_MessageAlloc me s) = find_index (\<lambda>c. \<not> used c) (ipi_completes s)"
    by (cases "find_index (\<lambda>c. \<not> used c) (ipi_completes s)")
      (simp_all add: IPI_MessageAlloc_def del: find_index_None)
  then have "fst (IPI_MessageAlloc me s) = None \<longleftrightarrow> find_index (\<lambda>c. \<not> used c) (ipi_completes s) = None"
    by (simp only:)
  then show ?thesis by simp
qed

lemma alloc_None_state: "fst (IPI_MessageAlloc me s) = None \<Longrightarrow> snd (IPI_MessageAlloc me s) = s"
  by (auto simp: IPI_MessageAlloc_def simp del: find_index_None split: option.splits)

lemma update_status_frame [simp]:
  "ipi_queues (snd (IPI_MessageUpdateStatus txid st s)) = ipi_queues s"
  "my_transaction_id (snd (IPI_MessageUpdateStatus txid st s)) = my_transaction_id s"
  "length (ipi_completes (snd (IPI_MessageUpdateStatus txid st s))) = length (ipi_completes s)"
  "ipi_wf (snd (IPI_MessageUpdateStatus txid st s)) = ipi_wf s"
  by (auto simp: IPI_MessageUpdateStatus_def ipi_wf_def split: option.splits)

lemma update_status_at:
  assumes "i < length (ipi_completes s)" "c_transaction_id (ipi_completes s ! i) = txid"
    "\<forall>j<i. c_transaction_id (ipi_completes s ! j) \<noteq> txid"
  shows "ipi_completes (snd (IPI_MessageUpdateStatus txid st s)) =
    (ipi_completes s)[i := (ipi_completes s ! i)\<lparr>c_status := st\<rparr>]"
proof -
  have "find_index (\<lambda>c. c_transaction_id c = txid) (ipi_completes s) = Some i"
    using assms by (simp add: find_index_Some_iff)
  then show ?thesis by (simp add: IPI_MessageUpdateStatus_def)
qed

lemma deliver_spec:
  assumes wf: "ipi_wf s" and p: "peers me target" and m: "message \<noteq> IPI_MSG_NO_MESSAGE"
    and i: "i < IPI_MAX_NUM_OUTSTANDING_COMPLETES" "used (ipi_completes s ! i)"
    and room: "size (mailbox_of me target s) < IPI_MAX_NUM_QUEUE_MESSAGES"
  shows "\<exists>s'. IPI_MessageDeliver me i target message imm ext anc s = Some (True, s') \<and> ipi_wf s'
    \<and> mailbox_of me target s' = add_mset \<lparr> msg_type = message,
         transaction_id = c_transaction_id (ipi_completes s ! i),
         immediate_arg = imm, p_extended_buffer_in_ddr = ext, p_ancilliary_buffer_in_ddr = anc \<rparr>
         (mailbox_of me target s)
    \<and> (\<forall>a b. peers a b \<longrightarrow> (a, b) \<noteq> (me, target) \<longrightarrow> mailbox_of a b s' = mailbox_of a b s)
    \<and> ipi_completes s' = ipi_completes s"
  using IPI_Send_spec [OF wf p m, of "c_transaction_id (ipi_completes s ! i)" imm ext anc] room i wf
  by (auto simp: IPI_MessageDeliver_def ipi_wf_def)

interpretation ack: bus_handler IPI_ACK_IPIHandler "\<lambda>_. True"
  by unfold_locales (auto simp: IPI_ACK_IPIHandler_def)

context bus_handler begin

text \<open>
  One complete exchange: the requester allocates and delivers, the target consumes, the
  requester consumes the acknowledgement.
\<close>

lemma request_roundtrip:
  assumes wf: "ipi_wf s" and p: "peers me target"
    and reg_t: "registry_lookup reg t = Some (Some handler)"
    and reg_a: "registry_lookup reg' IPI_MSG_ACK_COMPLETE = Some (Some IPI_ACK_IPIHandler)"
    and t: "t \<noteq> IPI_MSG_NO_MESSAGE" and ok: "ok s"
    and acked: "\<And>x a b c d e z z'. handler x a b c d z = Some (e, z') \<Longrightarrow>
         (\<exists>st. ack_for t e = Some (IPI_MSG_ACK_COMPLETE, st)) \<and> ipi_completes z' = ipi_completes z"
    and alloc: "IPI_MessageAlloc me s = (Some i, s1)"
    and fresh: "\<forall>c\<in>set (ipi_completes s). c_transaction_id c \<noteq> my_transaction_id s ! me"
    and room: "size (mailbox_of me target s) < IPI_MAX_NUM_QUEUE_MESSAGES"
      "\<forall>m\<in>#mailbox_of me target s. msg_type m \<noteq> t"
    and room_back: "size (mailbox_of target me s) < IPI_MAX_NUM_QUEUE_MESSAGES"
      "\<forall>m\<in>#mailbox_of target me s. msg_type m \<noteq> IPI_MSG_ACK_COMPLETE"
  obtains s2 s3 s4 where
    "IPI_MessageDeliver me i target t imm ext anc s1 = Some (True, s2)"
    "IPI_MessageCheckIfComplete i s2 = Some False"
    "IPI_ConsumeIntent reg target me t s2 = Some (True, s3)"
    "IPI_MessageCheckIfComplete i s3 = Some False"
    "IPI_ConsumeIntent reg' me target IPI_MSG_ACK_COMPLETE s3 = Some (True, s4)"
    "IPI_MessageCheckIfComplete i s4 = Some True"
    "ipi_wf s4" "ok s3" "\<And>a b. peers a b \<Longrightarrow> mailbox_of a b s4 = mailbox_of a b s"
proof -
  have me: "me < 5" using p by (simp add: peers_def)
  let ?tx = "my_transaction_id s ! me"
  note al = alloc_spec [OF wf me alloc]
  have mb1: "mailbox_of a b s1 = mailbox_of a b s" for a b by (simp add: mailbox_of_def al)
  have lc: "length (ipi_completes s) = IPI_MAX_NUM_OUTSTANDING_COMPLETES" using wf by (simp add: ipi_wf_def)
  have c1: "ipi_completes s1 ! i = \<lparr> used = True, c_transaction_id = ?tx, c_status = IPI_PENDING \<rparr>"
    using al(1,3) lc by simp
  have pend: "IPI_MessageCheckIfComplete i z = Some False" if "ipi_completes z = ipi_completes s1" for z
    using al(1,3) lc that by (simp add: IPI_MessageCheckIfComplete_def c1)
  obtain s2 where d: "IPI_MessageDeliver me i target t imm ext anc s1 = Some (True, s2)" "ipi_wf s2"
    and c2: "ipi_completes s2 = ipi_completes s1"
    and mb2: "mailbox_of me target s2 = add_mset \<lparr> msg_type = t, transaction_id = ?tx,
         immediate_arg = imm, p_extended_buffer_in_ddr = ext, p_ancilliary_buffer_in_ddr = anc \<rparr>
         (mailbox_of me target s)"
    and ot2: "\<And>a b. peers a b \<Longrightarrow> (a, b) \<noteq> (me, target) \<Longrightarrow> mailbox_of a b s2 = mailbox_of a b s"
    using deliver_spec [OF al(5) p t al(1), of imm ext anc] room(1) by (auto simp: c1 mb1)
  have ex2: "\<exists>m\<in>#mailbox_of me target s2. msg_type m = t" by (simp add: mb2)
  have "ok s1" using IPI_MessageAlloc_more [of me s] ok by (intro ok_more [of s1 s]) (simp_all add: alloc)
  with IPI_MessageDeliver_more [OF d(1)] have ok2: "ok s2" by (rule ok_more)
  obtain m r z2 z3 s3 where e: "IPI_ConsumeIntent reg target me t s2 = Some (True, s3)" "ipi_wf s3" "ok s3"
    "msg_type m = t" "ipi_completes z2 = ipi_completes s2"
    "handler (transaction_id m) me (immediate_arg m) (p_extended_buffer_in_ddr m)
       (p_ancilliary_buffer_in_ddr m) z2 = Some (r, z3)"
    "ipi_completes s3 = ipi_completes z3"
    "mailbox_of me target s2 = add_mset m (mailbox_of me target s3)"
    "mailbox_of target me s3 = mailbox_of target me s2 +
       (case ack_for t r of None \<Rightarrow> {#}
        | Some (ack, status) \<Rightarrow>
            if size (mailbox_of target me s2) < IPI_MAX_NUM_QUEUE_MESSAGES
            then {# \<lparr> msg_type = ack, transaction_id = transaction_id m,
                      immediate_arg = ipi_status_code status, p_extended_buffer_in_ddr = 0,
                      p_ancilliary_buffer_in_ddr = 0 \<rparr> #}
            else {#})"
    "\<forall>a b. peers a b \<longrightarrow> (a, b) \<noteq> (me, target) \<longrightarrow> (a, b) \<noteq> (target, me) \<longrightarrow>
       mailbox_of a b s3 = mailbox_of a b s2"
    by (rule consume_one [OF d(2) p reg_t t ex2 ok2])
  obtain st where st: "ack_for t r = Some (IPI_MSG_ACK_COMPLETE, st)" and cz: "ipi_completes z3 = ipi_completes z2"
    using acked [OF e(6)] by blast
  have c3: "ipi_completes s3 = ipi_completes s1" using e(5,7) cz c2 by simp
  have "m \<in># mailbox_of me target s2" by (simp add: e(8))
  then have "m = \<lparr> msg_type = t, transaction_id = ?tx, immediate_arg = imm,
      p_extended_buffer_in_ddr = ext, p_ancilliary_buffer_in_ddr = anc \<rparr>"
    using room(2) e(4) by (auto simp: mb2)
  then have m: "transaction_id m = ?tx" "mailbox_of me target s3 = mailbox_of me target s"
    using e(8) by (simp_all add: mb2)
  define ackm where "ackm = \<lparr> msg_type = IPI_MSG_ACK_COMPLETE, transaction_id = ?tx,
                      immediate_arg = ipi_status_code st, p_extended_buffer_in_ddr = 0,
                      p_ancilliary_buffer_in_ddr = 0 \<rparr>"
  have ne: "(target, me) \<noteq> (me, target)" using p by (auto simp: peers_def)
  have mb3: "mailbox_of target me s3 = add_mset ackm (mailbox_of target me s)"
    using e(9) room_back(1) ot2 [OF peers_sym [OF p] ne] by (simp add: st m ackm_def)
  have ex3: "\<exists>m\<in>#mailbox_of target me s3. msg_type m = IPI_MSG_ACK_COMPLETE"
    by (simp add: mb3 ackm_def)
  have real_ack: "IPI_MSG_ACK_COMPLETE \<noteq> IPI_MSG_NO_MESSAGE" by simp
  obtain m' r' and y2 y3 :: "'a ipi_data_scheme" and s4 where f: "IPI_ConsumeIntent reg' me target IPI_MSG_ACK_COMPLETE s3 = Some (True, s4)"
    "ipi_wf s4" "True" "msg_type m' = IPI_MSG_ACK_COMPLETE" "ipi_completes y2 = ipi_completes s3"
    "IPI_ACK_IPIHandler (transaction_id m') target (immediate_arg m') (p_extended_buffer_in_ddr m')
       (p_ancilliary_buffer_in_ddr m') y2 = Some (r', y3)"
    "ipi_completes s4 = ipi_completes y3"
    "mailbox_of target me s3 = add_mset m' (mailbox_of target me s4)"
    "mailbox_of me target s4 = mailbox_of me target s3 + (case ack_for IPI_MSG_ACK_COMPLETE r' of None \<Rightarrow> {#}
        | Some (ack, status) \<Rightarrow>
            if size (mailbox_of me target s3) < IPI_MAX_NUM_QUEUE_MESSAGES
            then {# \<lparr> msg_type = ack, transaction_id = transaction_id m',
                      immediate_arg = ipi_status_code status, p_extended_buffer_in_ddr = 0,
                      p_ancilliary_buffer_in_ddr = 0 \<rparr> #}
            else {#})"
    "\<forall>a b. peers a b \<longrightarrow> (a, b) \<noteq> (target, me) \<longrightarrow> (a, b) \<noteq> (me, target) \<longrightarrow>
       mailbox_of a b s4 = mailbox_of a b s3"
    by (rule ack.consume_one [OF e(2) peers_sym [OF p] reg_a real_ack ex3 TrueI])
  have "m' \<in># mailbox_of target me s3" by (simp add: f(8))
  then have m': "m' = ackm" "mailbox_of target me s4 = mailbox_of target me s"
    using room_back(2) f(4,8) by (auto simp: mb3)
  have "ipi_completes s4 = (ipi_completes s1)[i := (ipi_completes s1 ! i)\<lparr>c_status := IPI_IDLE\<rparr>]"
  proof -
    have "ipi_completes y2 = ipi_completes s1" using f(5) c3 by simp
    moreover have "y3 = snd (IPI_MessageUpdateStatus ?tx IPI_IDLE y2)"
      using f(6) by (simp add: IPI_ACK_IPIHandler_def m' ackm_def)
    moreover have "\<forall>j<i. c_transaction_id (ipi_completes s1 ! j) \<noteq> ?tx"
      using fresh al(1,3) lc by auto
    ultimately show ?thesis
      using update_status_at [of i y2 ?tx IPI_IDLE] al(1,3) lc c1 f(7) by simp
  qed
  then have "IPI_MessageCheckIfComplete i s4 = Some True"
    using al(1,3) lc by (simp add: IPI_MessageCheckIfComplete_def)
  moreover have "mailbox_of a b s4 = mailbox_of a b s" if "peers a b" for a b
  proof -
    consider "(a, b) = (me, target)" | "(a, b) = (target, me)"
      | "(a, b) \<noteq> (me, target)" "(a, b) \<noteq> (target, me)" by blast
    then show ?thesis
    proof cases
      case 1
      then show ?thesis using f(9) m(2) by simp
    next
      case 2
      then show ?thesis using m'(2) by simp
    next
      case 3
      with that show ?thesis using f(10) e(10) ot2 by simp
    qed
  qed
  ultimately show ?thesis
    using that [OF d(1) pend [OF c2] e(1) pend [OF c3] f(1)] f(2) e(3) by blast
qed

end

subsection \<open>Polling\<close>

text \<open>The harts a poll reports: in the mask, and with a transaction id not seen before.\<close>

definition poll_new :: "hart \<Rightarrow> u32 \<Rightarrow> 'a ipi_data_scheme \<Rightarrow> hart \<Rightarrow> bool" where
  "poll_new me hmask s i \<longleftrightarrow> i \<noteq> me \<and> bit hmask i \<and>
     txId_shadow s ! IPI_CalculateQueueIndex i me \<noteq> txId_last s ! IPI_CalculateQueueIndex i me"

definition poll_mark :: "hart \<Rightarrow> hart \<Rightarrow> 'a ipi_data_scheme \<Rightarrow> 'a ipi_data_scheme" where
  "poll_mark me i s = (let index = IPI_CalculateQueueIndex i me; q = ipi_queues s ! index in
     s\<lparr>txId_shadow := (txId_shadow s)[index := txId_last s ! index],
       ipi_queues := (ipi_queues s)[index := q\<lparr>qcount := word_of_nat (count_messages (msgQ q))\<rparr>]\<rparr>)"

lemma poll_one_eq: "poll_one me hmask i (b, s) =
    (if poll_new me hmask s i then (True, poll_mark me i s) else (b, s))"
  by (auto simp: poll_one_def poll_new_def poll_mark_def Let_def)

lemma poll_mark_wf [simp]: "ipi_wf s \<Longrightarrow> ipi_wf (poll_mark me i s)"
  by (cases "IPI_CalculateQueueIndex i me < length (ipi_queues s)")
    (auto simp: ipi_wf_def poll_mark_def Let_def list_update_beyond all_set_conv_all_nth nth_list_update)

lemma poll_mark_mailbox [simp]: "mailbox_of a b (poll_mark me i s) = mailbox_of a b s"
  by (cases "IPI_CalculateQueueIndex i me < length (ipi_queues s)")
    (auto simp: mailbox_of_def poll_mark_def Let_def nth_list_update not_less list_update_beyond)

lemma poll_mark_new:
  assumes "ipi_wf s" "me < 5" "i < 5" "j < 5" "i \<noteq> me"
  shows "poll_new me hmask (poll_mark me i s) j \<longleftrightarrow> poll_new me hmask s j \<and> j \<noteq> i"
proof (cases "j = me")
  case True
  then show ?thesis by (simp add: poll_new_def)
next
  case False
  then have p: "peers i me" "peers j me" using assms by (auto simp: peers_def)
  have "IPI_CalculateQueueIndex i me < length (txId_shadow s)"
    using assms(1) peers_index [OF p(1)] by (simp add: ipi_wf_def)
  then show ?thesis
    using peers_inject [OF p] by (auto simp: poll_new_def poll_mark_def Let_def nth_list_update)
qed

lemma poll_fold:
  assumes "ipi_wf s" "me < 5" "\<forall>i\<in>set is. i < 5" "distinct is"
  shows "\<exists>s'. fold (poll_one me hmask) is (b, s) = (b \<or> (\<exists>i\<in>set is. poll_new me hmask s i), s')
    \<and> ipi_wf s' \<and> (\<forall>a c. mailbox_of a c s' = mailbox_of a c s)
    \<and> (\<forall>j<5. poll_new me hmask s' j \<longleftrightarrow> poll_new me hmask s j \<and> j \<notin> set is)"
  using assms
proof (induction "is" arbitrary: b s)
  case Nil
  then show ?case by simp
next
  case (Cons i "is")
  show ?case
  proof (cases "poll_new me hmask s i")
    case True
    then have ne: "i \<noteq> me" by (simp add: poll_new_def)
    have new: "poll_new me hmask (poll_mark me i s) j \<longleftrightarrow> poll_new me hmask s j \<and> j \<noteq> i" if "j < 5" for j
      using Cons.prems ne that by (intro poll_mark_new) auto
    have c: "ipi_wf (poll_mark me i s)" "\<forall>i\<in>set is. i < 5" "distinct is" using Cons.prems by simp_all
    from Cons.IH [OF c(1) Cons.prems(2) c(2,3), of True] obtain s' where
      "fold (poll_one me hmask) is (True, poll_mark me i s) =
         (True \<or> (\<exists>i'\<in>set is. poll_new me hmask (poll_mark me i s) i'), s')"
      "ipi_wf s'" "\<forall>a c. mailbox_of a c s' = mailbox_of a c (poll_mark me i s)"
      "\<forall>j<5. poll_new me hmask s' j \<longleftrightarrow> poll_new me hmask (poll_mark me i s) j \<and> j \<notin> set is"
      by blast
    moreover have "poll_new me hmask (poll_mark me i s) i' \<longleftrightarrow> poll_new me hmask s i'"
      if "i' \<in> set is" for i' using new [of i'] that Cons.prems by auto
    ultimately show ?thesis using True by (intro exI [of _ s']) (auto simp: poll_one_eq new)
  next
    case False
    have c: "\<forall>i\<in>set is. i < 5" "distinct is" using Cons.prems by simp_all
    from Cons.IH [OF Cons.prems(1,2) c, of b] obtain s' where
      "fold (poll_one me hmask) is (b, s) = (b \<or> (\<exists>i'\<in>set is. poll_new me hmask s i'), s')"
      "ipi_wf s'" "\<forall>a c. mailbox_of a c s' = mailbox_of a c s"
      "\<forall>j<5. poll_new me hmask s' j \<longleftrightarrow> poll_new me hmask s j \<and> j \<notin> set is"
      by blast
    then show ?thesis using False by (intro exI [of _ s']) (auto simp: poll_one_eq)
  qed
qed

text \<open>
  \<^verbatim>\<open>IPI_PollReceive\<close> reports work exactly when some other hart of the mask has sent,
  since the previous poll, a message whose transaction id differs from the last one
  seen; it acknowledges all of them at once (polling again reports nothing) and removes
  no message from any mailbox.
\<close>

theorem IPI_PollReceive_reports:
  assumes "ipi_wf s" "me < 5"
  shows "(fst (IPI_PollReceive me hmask s) \<longleftrightarrow> (\<exists>i<5. poll_new me hmask s i))
    \<and> \<not> fst (IPI_PollReceive me hmask (snd (IPI_PollReceive me hmask s)))
    \<and> mailbox_of a b (snd (IPI_PollReceive me hmask s)) = mailbox_of a b s"
proof -
  have ex: "\<exists>s'. IPI_PollReceive me hmask z = (\<exists>i<5. poll_new me hmask z i, s') \<and> ipi_wf s'
      \<and> (\<forall>a c. mailbox_of a c s' = mailbox_of a c z) \<and> (\<forall>j<5. \<not> poll_new me hmask s' j)"
    if "ipi_wf z" for z :: "'a ipi_data_scheme"
    using poll_fold [OF that assms(2), of "[0..<5]" hmask False]
    by (auto simp: IPI_PollReceive_def Bex_def)
  from ex [OF assms(1)] obtain s' where s': "IPI_PollReceive me hmask s = (\<exists>i<5. poll_new me hmask s i, s')"
    "ipi_wf s'" "\<forall>a c. mailbox_of a c s' = mailbox_of a c s" "\<forall>j<5. \<not> poll_new me hmask s' j" by blast
  with ex [OF s'(2)] show ?thesis by auto
qed


subsection \<open>Transaction ids\<close>

lemma find_unused_replicate: "0 < n \<Longrightarrow> find_index (\<lambda>c. \<not> used c) (replicate n zero_complete) = Some 0"
  by (cases n) (simp_all add: zero_complete_def)

text \<open>
  Transaction ids are only unique per hart: the first requests of the E51 and of a
  U54 both carry id 1 in the shared table, so the acknowledgement of the U54's request
  completes the E51's, and leaves the U54's pending.
\<close>

theorem IPI_txid_crosstalk:
  "let s0 = snd (IPI_QueuesInit s);
       (i, s1) = IPI_MessageAlloc HSS_HART_E51 s0;
       (j, s2) = IPI_MessageAlloc HSS_HART_U54_1 s1;
       s3 = snd (IPI_MessageUpdateStatus (c_transaction_id (ipi_completes s2 ! the j)) IPI_IDLE s2)
   in i = Some 0 \<and> j = Some 1
      \<and> IPI_MessageCheckIfComplete 0 s2 = Some False \<and> IPI_MessageCheckIfComplete 1 s2 = Some False
      \<and> IPI_MessageCheckIfComplete 0 s3 = Some True \<and> IPI_MessageCheckIfComplete 1 s3 = Some False"
  by (simp add: IPI_QueuesInit_def IPI_MessageAlloc_def IPI_MessageUpdateStatus_def
      IPI_MessageCheckIfComplete_def Let_def IPI_MAX_NUM_OUTSTANDING_COMPLETES_def
      IPI_MAX_NUM_QUEUE_MESSAGES_def zero_complete_def numeral_eq_Suc)

text \<open>
  A poll compares transaction ids only: after the acknowledgement ACK_PENDING of a
  request has been seen, the ACK_COMPLETE that carries the same transaction id waits in
  the queue and the poll does not report it.
\<close>

theorem IPI_PollReceive_misses_repeat:
  "let s0 = snd (IPI_QueuesInit (s\<lparr>MSIP := replicate 5 0\<rparr>));
       s1 = snd (the (IPI_Send HSS_HART_U54_1 HSS_HART_E51 IPI_MSG_ACK_PENDING 1 2 0 0 s0));
       (seen1, s2) = IPI_PollReceive HSS_HART_E51 0x1E s1;
       s3 = snd (the (IPI_Send HSS_HART_U54_1 HSS_HART_E51 IPI_MSG_ACK_COMPLETE 1 1 0 0 s2));
       (seen2, s4) = IPI_PollReceive HSS_HART_E51 0x1E s3
   in seen1 \<and> \<not> seen2 \<and> size (mailbox_of HSS_HART_U54_1 HSS_HART_E51 s3) = 2"
  by (simp add: IPI_QueuesInit_def IPI_Send_def IPI_PollReceive_def poll_one_def IPI_CalculateQueueIndex_def
      CLINT_Raise_MSIP_def clint_set_MSIP_def queue_put_def private_update_def
      find_available_slot_def mailbox_of_def pending_def is_message_def zero_queue_def zero_msg_def
      IPI_MAX_NUM_QUEUE_MESSAGES_def Let_def numeral_eq_Suc upt_rec)

lemma poll_mark_more [simp]: "ipi_data.more (poll_mark me i s) = ipi_data.more s"
  by (simp add: poll_mark_def Let_def)

lemma IPI_PollReceive_more [simp]: "ipi_data.more (snd (IPI_PollReceive me hmask s)) = ipi_data.more s"
proof -
  have "ipi_data.more (snd (fold (poll_one me hmask) is rs)) = ipi_data.more (snd rs)"
    for "is" and rs :: "bool \<times> 'a ipi_data_scheme"
    by (induction "is" arbitrary: rs) (auto simp: poll_one_eq split_paired_all)
  then show ?thesis by (simp add: IPI_PollReceive_def)
qed

lemma IPI_PollReceive_wf:
  assumes "ipi_wf s" "me < 5"
  shows "ipi_wf (snd (IPI_PollReceive me hmask s))"
  using poll_fold [OF assms, of "[0..<5]" hmask False] by (auto simp: IPI_PollReceive_def)

lemma MessageFree_wf: "ipi_wf s \<Longrightarrow> IPI_MessageFree me i s = Some s' \<Longrightarrow> ipi_wf s'"
  by (auto simp: IPI_MessageFree_def ipi_wf_def Option.bind_eq_Some_conv)

context bus_handler begin

lemma consume_total:
  assumes "ipi_wf s" "peers source me" "registry_lookup reg t = Some (Some handler)" "t \<noteq> IPI_MSG_NO_MESSAGE"
    and "ok s"
  shows "\<exists>b s'. IPI_ConsumeIntent reg me source t s = Some (b, s') \<and> ipi_wf s' \<and> ok s'"
proof (cases "\<exists>m\<in>#mailbox_of source me s. msg_type m = t")
  case True
  show ?thesis by (rule consume_one [OF assms(1-4) True assms(5)]) blast
next
  case False
  with assms IPI_ConsumeIntent_none [OF assms(1-4)] show ?thesis by auto
qed

end

text \<open>A handler that works on bus data only, such as the one for acknowledgements.\<close>

locale bus_local_handler = bus_handler handler ok
  for handler :: "'a ipi_data_scheme ipi_handler" and ok :: "'a ipi_data_scheme \<Rightarrow> bool" +
  assumes handler_more: "handler txid src imm ext anc s = Some (r, s') \<Longrightarrow> ipi_data.more s' = ipi_data.more s"
begin

lemma consume_more:
  assumes "registry_lookup reg t = Some (Some handler)"
    and "IPI_ConsumeIntent reg me source t s = Some (b, s')"
  shows "ipi_data.more s' = ipi_data.more s"
  using assms
  by (auto simp: IPI_ConsumeIntent_def Let_def Option.bind_eq_Some_conv dest!: handler_more IPI_Send_more
      split: option.splits prod.splits simp del: find_index_None)

end

interpretation ack_local: bus_local_handler IPI_ACK_IPIHandler "\<lambda>_. True"
  by unfold_locales (auto simp: IPI_ACK_IPIHandler_def)

text \<open>The state right after initialisation, used by the witnesses.\<close>

definition init_bus :: ipi_data where
  "init_bus = snd (IPI_QueuesInit \<lparr> opensbi_initialized = False, ipi_initialized = False,
     ddr_trained = False, startup_complete = False, usbdmsc_requested = False,
     post_boot = False, boot_complete = False, hart_state_changed = False, healthmon = False,
     ipi_version = 0, ipi_queues = [], ipi_completes = [], txId_last = [], txId_shadow = [],
     my_transaction_id = [], mpfs_ipi_privateData = [], MSIP = [0, 0, 0, 0, 0] \<rparr>)"

lemma init_bus_wf: "ipi_wf init_bus"
  unfolding init_bus_def by (rule ipi_wf_QueuesInit) simp

lemma init_bus_mailbox: "peers a b \<Longrightarrow> mailbox_of a b init_bus = {#}"
  unfolding init_bus_def by (rule mailbox_of_init)

theorem IPI_Send_mailbox_witness:
  "\<exists>s'. IPI_Send HSS_HART_E51 HSS_HART_U54_2 IPI_MSG_GOTO 7 1 0x80000000 0 init_bus = Some (True, s')
     \<and> size (mailbox_of HSS_HART_E51 HSS_HART_U54_2 s') = 1"
proof -
  have p: "peers HSS_HART_E51 HSS_HART_U54_2" by (simp add: peers_def)
  have "IPI_MSG_GOTO \<noteq> IPI_MSG_NO_MESSAGE" by simp
  from IPI_Send_mailbox [OF init_bus_wf p this, of 7 1 "0x80000000" 0] init_bus_mailbox [OF p]
  show ?thesis by (auto simp: IPI_MAX_NUM_QUEUE_MESSAGES_def numeral_2_eq_2)
qed

theorem IPI_PollReceive_reports_witness:
  "\<not> fst (IPI_PollReceive HSS_HART_E51 0x1E (snd (IPI_PollReceive HSS_HART_E51 0x1E init_bus)))"
  using IPI_PollReceive_reports [OF init_bus_wf, of HSS_HART_E51 "0x1E"] by simp

text \<open>Everything but the bus is as the handler left it.\<close>

definition outside_bus :: "'a ipi_data_scheme \<Rightarrow> 'a ipi_data_scheme \<Rightarrow> bool" where
  "outside_bus s s' \<longleftrightarrow> ipi_data.more s' = ipi_data.more s \<and> triggers.truncate s' = triggers.truncate s"

lemma IPI_Send_outside:
  "IPI_Send me target message txid imm ext anc s = Some (b, s') \<Longrightarrow> outside_bus s s'"
  using IPI_Send_more [of me target message txid imm ext anc s b s']
  by (auto simp: outside_bus_def IPI_Send_def CLINT_Raise_MSIP_def clint_set_MSIP_def queue_put_def private_update_def
      Option.bind_eq_Some_conv Let_def triggers.defs split: option.splits if_splits)

lemma outside_bus_simps:
  "outside_bus s (queue_put i j m s)" "outside_bus s (queue_dec i (private_update h f s))"
  "outside_bus s (s\<lparr>ipi_queues := qs\<rparr>)"
  by (simp_all add: outside_bus_def queue_put_def queue_dec_def private_update_def Let_def triggers.defs)

lemma outside_bus_trans: "outside_bus s s1 \<Longrightarrow> outside_bus s1 s2 \<Longrightarrow> outside_bus s s2"
  by (simp add: outside_bus_def)

lemma consume_frame:
  assumes "registry_lookup reg t = Some (Some h)" "IPI_ConsumeIntent reg me source t s = Some (True, s')"
  obtains m :: IPI_Outbox_Msg and s2 r s3 where "h (transaction_id m) source (immediate_arg m) (p_extended_buffer_in_ddr m)
      (p_ancilliary_buffer_in_ddr m) s2 = Some (r, s3)" "outside_bus s s2" "outside_bus s3 s'"
proof -
  define index where "index = IPI_CalculateQueueIndex source me"
  obtain q where q: "nth_opt (ipi_queues s) index = Some q"
    using assms by (auto simp: IPI_ConsumeIntent_def Option.bind_eq_Some_conv Let_def index_def)
  define s2 where "s2 = queue_dec index (private_update me (\<lambda>p. p\<lparr>consume_intents := consume_intents p + 1\<rparr>) s)"
  note unf = assms(2) [unfolded IPI_ConsumeIntent_def assms(1) Let_def index_def [symmetric]]
  obtain j where j: "find_index (\<lambda>m. msg_type m = t) (msgQ q) = Some j"
    using unf q by (cases "find_index (\<lambda>m. msg_type m = t) (msgQ q)") auto
  obtain m m' :: IPI_Outbox_Msg and r s3 s4 m'' where c: "h (transaction_id m) source (immediate_arg m) (p_extended_buffer_in_ddr m)
      (p_ancilliary_buffer_in_ddr m) s2 = Some (r, s3)"
    "(case ack_for (msg_type m') r of None \<Rightarrow> Some s3
      | Some (ack, status) \<Rightarrow>
          map_option snd (IPI_Send me source ack (transaction_id m') (ipi_status_code status) 0 0 s3)) = Some s4"
    "s' = queue_put index j m'' s4"
    using unf q j by (clarsimp simp: Option.bind_eq_Some_conv s2_def [symmetric])
  have "outside_bus s s2" unfolding s2_def by (rule outside_bus_simps(2))
  moreover have "outside_bus s3 s4"
    using c(2) by (auto split: option.splits dest: IPI_Send_outside simp: outside_bus_def)
  then have "outside_bus s3 s'" unfolding c(3) using outside_bus_simps(1) by (rule outside_bus_trans)
  ultimately show ?thesis using that c(1) by blast
qed

end
