(* ===== verification/HSS_Clock.thy ===== *)
theory HSS_Clock
  imports HSS_Ipi
begin

text \<open>
  The clock, application/hart0/hss_clock.c over modules/misc/csr_helper.c, and the
  performance counters that read it, modules/debug/hss_perfctr.c.

  The two time sources are read-only inputs: the value a read returns depends on how many
  reads came before it (\<open>time_reads\<close>), through the oracles \<open>mtime\<close> and \<open>mcycle\<close>, about
  which nothing is assumed.  The tick rate is the one every board's MSS configuration sets
  (\<^verbatim>\<open>LIBERO_SETTING_MSS_RTC_TOGGLE_CLK\<close> = 1000000).
\<close>

subsection \<open>Reading the time and waiting\<close>

type_synonym HSSTicks_t = u64

record hss_clock = ipi_data +
  mtime :: "nat \<Rightarrow> u64"
  mcycle :: "nat \<Rightarrow> u64"
  time_reads :: nat

abbreviation (input) TICKS_PER_SEC :: u64 where "TICKS_PER_SEC \<equiv> 1000000"
abbreviation (input) ONE_SEC :: u64 where "ONE_SEC \<equiv> 1000000"
abbreviation (input) ONE_MILLISEC :: u64 where "ONE_MILLISEC \<equiv> 1000"

definition HSS_GetTime :: "'a hss_clock_scheme \<Rightarrow> HSSTicks_t \<times> 'a hss_clock_scheme" where
  "HSS_GetTime w = (mtime w (time_reads w), w\<lparr>time_reads := time_reads w + 1\<rparr>)"

definition HSS_GetTickCount :: "'a hss_clock_scheme \<Rightarrow> HSSTicks_t \<times> 'a hss_clock_scheme" where
  "HSS_GetTickCount w = (mcycle w (time_reads w), w\<lparr>time_reads := time_reads w + 1\<rparr>)"

definition HSS_Timer_IsElapsed :: "HSSTicks_t \<Rightarrow> HSSTicks_t \<Rightarrow> 'a hss_clock_scheme \<Rightarrow> bool \<times> 'a hss_clock_scheme" where
  "HSS_Timer_IsElapsed startTick durationInTicks w =
     (case HSS_GetTime w of (t, w') \<Rightarrow> (t > startTick + durationInTicks, w'))"

text \<open>\<^verbatim>\<open>while (!HSS_Timer_IsElapsed(...)) { ; }\<close>: \<open>None\<close> means that the loop never ends.\<close>

partial_function (option) spin_until_elapsed ::
    "HSSTicks_t \<Rightarrow> HSSTicks_t \<Rightarrow> 'a hss_clock_scheme \<Rightarrow> 'a hss_clock_scheme option" where
  "spin_until_elapsed startTick duration w =
     (case HSS_Timer_IsElapsed startTick duration w of (e, w') \<Rightarrow>
        if e then Some w' else spin_until_elapsed startTick duration w')"

definition HSS_SpinDelay_MilliSecs :: "u32 \<Rightarrow> 'a hss_clock_scheme \<Rightarrow> 'a hss_clock_scheme option" where
  "HSS_SpinDelay_MilliSecs milliseconds w =
     (case HSS_GetTime w of (delayTick, w') \<Rightarrow>
        spin_until_elapsed delayTick (ONE_MILLISEC * ucast milliseconds) w')"

definition HSS_SpinDelay_Secs :: "u32 \<Rightarrow> 'a hss_clock_scheme \<Rightarrow> 'a hss_clock_scheme option" where
  "HSS_SpinDelay_Secs seconds w =
     (case HSS_GetTime w of (delayTick, w') \<Rightarrow>
        spin_until_elapsed delayTick (ONE_SEC * ucast seconds) w')"


subsection \<open>Waiting\<close>

text \<open>The result of the \<open>k\<close>-th read from now.\<close>

definition read_at :: "'a hss_clock_scheme \<Rightarrow> nat \<Rightarrow> u64" where
  "read_at w k = mtime w (time_reads w + k)"

definition skip_reads :: "nat \<Rightarrow> 'a hss_clock_scheme \<Rightarrow> 'a hss_clock_scheme" where
  "skip_reads n w = w\<lparr>time_reads := time_reads w + n\<rparr>"

lemma read_at_skip [simp]: "read_at (skip_reads n w) k = read_at w (n + k)"
  by (simp add: read_at_def skip_reads_def add.assoc)

lemma skip_reads_add [simp]: "skip_reads n (skip_reads k w) = skip_reads (k + n) w"
  by (simp add: skip_reads_def add.assoc)

lemma GetTime_eq: "HSS_GetTime w = (read_at w 0, skip_reads 1 w)"
  by (simp add: HSS_GetTime_def read_at_def skip_reads_def)

lemma Timer_eq: "HSS_Timer_IsElapsed st dur w = (read_at w 0 > st + dur, skip_reads 1 w)"
  by (simp add: HSS_Timer_IsElapsed_def GetTime_eq)

lemma spin_step:
  "spin_until_elapsed st dur w =
     (if read_at w 0 > st + dur then Some (skip_reads 1 w) else spin_until_elapsed st dur (skip_reads 1 w))"
  by (subst spin_until_elapsed.simps) (simp add: Timer_eq)

lemma spin_returns:
  "read_at w n > st + dur \<Longrightarrow> (\<forall>k<n. \<not> read_at w k > st + dur) \<Longrightarrow>
     spin_until_elapsed st dur w = Some (skip_reads (Suc n) w)"
proof (induction n arbitrary: w)
  case 0
  then show ?case by (simp add: spin_step [of _ _ w])
next
  case (Suc n)
  have "\<not> read_at w 0 > st + dur" using Suc.prems(2) by auto
  then have "spin_until_elapsed st dur w = spin_until_elapsed st dur (skip_reads 1 w)"
    by (subst spin_step) simp
  also have "\<dots> = Some (skip_reads (Suc n) (skip_reads 1 w))"
    using Suc.prems by (intro Suc.IH) auto
  finally show ?case by simp
qed

lemma spin_only_if:
  "spin_until_elapsed st dur w = Some w' \<Longrightarrow>
     \<exists>n. w' = skip_reads (Suc n) w \<and> read_at w n > st + dur \<and> (\<forall>k<n. \<not> read_at w k > st + dur)"
proof (rule spin_until_elapsed.raw_induct [where P = "\<lambda>st dur w w'. \<exists>n. w' = skip_reads (Suc n) w
    \<and> read_at w n > st + dur \<and> (\<forall>k<n. \<not> read_at w k > st + dur)"])
  show "spin_until_elapsed st dur w = Some w' \<Longrightarrow> spin_until_elapsed st dur w = Some w'" .
next
  fix spin :: "u64 \<Rightarrow> u64 \<Rightarrow> 'a hss_clock_scheme \<Rightarrow> 'a hss_clock_scheme option" and st dur w w'
  assume IH: "\<And>st dur w w'. spin st dur w = Some w' \<Longrightarrow> \<exists>n. w' = skip_reads (Suc n) w
      \<and> read_at w n > st + dur \<and> (\<forall>k<n. \<not> read_at w k > st + dur)"
    and step: "(case HSS_Timer_IsElapsed st dur w of (e, w') \<Rightarrow> if e then Some w' else spin st dur w') = Some w'"
  show "\<exists>n. w' = skip_reads (Suc n) w \<and> read_at w n > st + dur \<and> (\<forall>k<n. \<not> read_at w k > st + dur)"
  proof (cases "read_at w 0 > st + dur")
    case True
    then show ?thesis using step by (intro exI [of _ 0]) (simp add: Timer_eq)
  next
    case False
    then have "spin st dur (skip_reads 1 w) = Some w'" using step by (simp add: Timer_eq)
    from IH [OF this] obtain n where
      "w' = skip_reads (Suc n) (skip_reads 1 w)" "read_at (skip_reads 1 w) n > st + dur"
      "\<forall>k<n. \<not> read_at (skip_reads 1 w) k > st + dur" by blast
    then show ?thesis using False
      by (intro exI [of _ "Suc n"]) (auto simp: less_Suc_eq_0_disj)
  qed
qed

lemma spin_iff:
  "spin_until_elapsed st dur w = Some w' \<longleftrightarrow>
     (\<exists>n. w' = skip_reads (Suc n) w \<and> read_at w n > st + dur \<and> (\<forall>k<n. read_at w k \<le> st + dur))"
  using spin_only_if [of st dur w w'] spin_returns [of st dur w] by (auto simp: not_less)

lemma spin_None_iff: "spin_until_elapsed st dur w = None \<longleftrightarrow> (\<forall>n. read_at w n \<le> st + dur)"
proof
  show "\<forall>n. read_at w n \<le> st + dur" if "spin_until_elapsed st dur w = None"
  proof (rule ccontr)
    assume "\<not> (\<forall>n. read_at w n \<le> st + dur)"
    then have ex: "\<exists>n. read_at w n > st + dur" by (simp add: not_le)
    then have "read_at w (LEAST n. read_at w n > st + dur) > st + dur" by (rule LeastI_ex)
    with spin_returns [OF this] that not_less_Least show False by fastforce
  qed
  show "spin_until_elapsed st dur w = None" if "\<forall>n. read_at w n \<le> st + dur"
  proof (cases "spin_until_elapsed st dur w")
    case (Some w')
    then obtain n where "read_at w n > st + dur" by (auto simp: spin_iff)
    with that show ?thesis by (simp add: leD)
  qed
qed

text \<open>
  A spin delay returns at the first read of the timer that is later than the start
  plus the delay, having done only reads; and it never returns exactly when no such read
  ever comes, which is what happens when the sum wraps past the largest tick the timer
  shows or the timer stands still.
\<close>

theorem HSS_SpinDelay_MilliSecs_exact:
  "(HSS_SpinDelay_MilliSecs ms w = Some w' \<longleftrightarrow>
      (\<exists>n\<ge>1. w' = skip_reads (Suc n) w \<and> read_at w n > read_at w 0 + 1000 * ucast ms
          \<and> (\<forall>k\<in>{1..<n}. read_at w k \<le> read_at w 0 + 1000 * ucast ms)))
   \<and> (HSS_SpinDelay_MilliSecs ms w = None \<longleftrightarrow> (\<forall>n\<ge>1. read_at w n \<le> read_at w 0 + 1000 * ucast ms))"
proof -
  let ?d = "read_at w 0 + 1000 * ucast ms"
  have eq: "HSS_SpinDelay_MilliSecs ms w = spin_until_elapsed (read_at w 0) (1000 * ucast ms) (skip_reads 1 w)"
    by (simp add: HSS_SpinDelay_MilliSecs_def GetTime_eq)
  have "(\<exists>n. w' = skip_reads (Suc (Suc n)) w \<and> read_at w (Suc n) > ?d \<and> (\<forall>k<n. read_at w (Suc k) \<le> ?d)) \<longleftrightarrow>
    (\<exists>n\<ge>1. w' = skip_reads (Suc n) w \<and> read_at w n > ?d \<and> (\<forall>k\<in>{1..<n}. read_at w k \<le> ?d))"
    (is "?l \<longleftrightarrow> ?r")
  proof
    show ?r if ?l
    proof -
      from that obtain n where n: "w' = skip_reads (Suc (Suc n)) w" "read_at w (Suc n) > ?d"
        "\<forall>k<n. read_at w (Suc k) \<le> ?d" by blast
      then have "read_at w k \<le> ?d" if "k \<in> {1..<Suc n}" for k using that by (cases k) auto
      with n show ?r by (intro exI [of _ "Suc n"]) auto
    qed
    show ?l if ?r
    proof -
      from that obtain n where n: "n \<ge> 1" "w' = skip_reads (Suc n) w" "read_at w n > ?d"
        "\<forall>k\<in>{1..<n}. read_at w k \<le> ?d" by blast
      then show ?l by (intro exI [of _ "n - 1"]) auto
    qed
  qed
  moreover have "(\<forall>n. read_at w (Suc n) \<le> ?d) \<longleftrightarrow> (\<forall>n\<ge>1. read_at w n \<le> ?d)"
    by (metis One_nat_def Suc_le_D le_add1 plus_1_eq_Suc)
  ultimately show ?thesis by (simp add: eq spin_iff spin_None_iff)
qed

theorem HSS_SpinDelay_MilliSecs_exact_witness:
  "\<forall>w :: hss_clock. HSS_SpinDelay_MilliSecs 1 (w\<lparr>mtime := \<lambda>k. 1000 * of_nat k, time_reads := 0\<rparr>)
    = Some (w\<lparr>mtime := \<lambda>k. 1000 * of_nat k, time_reads := 3\<rparr>)"
proof
  fix w :: hss_clock
  let ?w = "w\<lparr>mtime := \<lambda>k. 1000 * of_nat k, time_reads := 0\<rparr>"
  have "{1..<2} = {1 :: nat}" by auto
  then have "read_at ?w 2 > read_at ?w 0 + 1000 * ucast (1 :: u32)"
    "\<forall>k\<in>{1..<2}. read_at ?w k \<le> read_at ?w 0 + 1000 * ucast (1 :: u32)"
    by (simp_all add: read_at_def)
  moreover have "w\<lparr>mtime := \<lambda>k. 1000 * of_nat k, time_reads := 3\<rparr> = skip_reads (Suc 2) ?w"
    by (simp add: skip_reads_def)
  ultimately show "HSS_SpinDelay_MilliSecs 1 (w\<lparr>mtime := \<lambda>k. 1000 * of_nat k, time_reads := 0\<rparr>)
    = Some (w\<lparr>mtime := \<lambda>k. 1000 * of_nat k, time_reads := 3\<rparr>)"
    using HSS_SpinDelay_MilliSecs_exact [of 1 ?w "w\<lparr>mtime := \<lambda>k. 1000 * of_nat k, time_reads := 3\<rparr>"]
    by (metis one_le_numeral)
qed

subsection \<open>Performance counters\<close>

text \<open>
  A counter's name is compared as a pointer, so it is the pointer here (0 is \<open>NULL\<close>).  The
  number of counters is the length of the table; the assertions compare an index with it
  as an unsigned number, which a negative index fails.  \<open>-1\<close> is \<^verbatim>\<open>PERF_CTR_UNINITIALIZED\<close>.
\<close>

abbreviation (input) PERF_CTR_UNINITIALIZED :: int where "PERF_CTR_UNINITIALIZED \<equiv> -1"

record PerfCtr =
  pc_pName :: u64
  pc_isAllocated :: bool
  pc_startTime :: HSSTicks_t
  pc_lapTime :: HSSTicks_t

record perf_world = hss_clock +
  perfCtrs :: "PerfCtr list"

definition HSS_PerfCtr_Allocate :: "int \<Rightarrow> u64 \<Rightarrow> 'a perf_world_scheme \<Rightarrow> bool \<times> int \<times> 'a perf_world_scheme" where
  "HSS_PerfCtr_Allocate idx pName w =
     (if 0 \<le> idx \<and> idx < int (length (perfCtrs w)) then
        (pc_isAllocated (perfCtrs w ! nat idx) \<and> pc_pName (perfCtrs w ! nat idx) = pName, idx, w)
      else
        (case find_index (\<lambda>c. \<not> pc_isAllocated c) (perfCtrs w) of
           None \<Rightarrow> (False, PERF_CTR_UNINITIALIZED, w)
         | Some i \<Rightarrow>
             (case HSS_GetTime w of (t, w1) \<Rightarrow>
                (True, int i, w1\<lparr>perfCtrs := (perfCtrs w1)[i := (perfCtrs w1 ! i)
                   \<lparr>pc_isAllocated := True, pc_pName := pName, pc_startTime := t\<rparr>]\<rparr>))))"

definition HSS_PerfCtr_Deallocate :: "int \<Rightarrow> 'a perf_world_scheme \<Rightarrow> 'a perf_world_scheme option" where
  "HSS_PerfCtr_Deallocate index w =
     (if index \<noteq> PERF_CTR_UNINITIALIZED then do {
        assert_c (0 \<le> index \<and> index < int (length (perfCtrs w)));
        Some (if 0 \<le> index \<and> pc_isAllocated (perfCtrs w ! nat index)
              then w\<lparr>perfCtrs := (perfCtrs w)[nat index := (perfCtrs w ! nat index)
                     \<lparr>pc_isAllocated := False, pc_pName := 0\<rparr>]\<rparr>
              else w)
      } else Some w)"

definition HSS_PerfCtr_Start :: "int \<Rightarrow> 'a perf_world_scheme \<Rightarrow> 'a perf_world_scheme option" where
  "HSS_PerfCtr_Start index w =
     (if index \<noteq> PERF_CTR_UNINITIALIZED then do {
        assert_c (0 \<le> index \<and> index < int (length (perfCtrs w)));
        Some (if 0 \<le> index then
                (case HSS_GetTime w of (t, w1) \<Rightarrow>
                   w1\<lparr>perfCtrs := (perfCtrs w1)[nat index := (perfCtrs w1 ! nat index)\<lparr>pc_startTime := t\<rparr>]\<rparr>)
              else w)
      } else Some w)"

definition HSS_PerfCtr_Lap :: "int \<Rightarrow> 'a perf_world_scheme \<Rightarrow> 'a perf_world_scheme option" where
  "HSS_PerfCtr_Lap index w =
     (if index \<noteq> PERF_CTR_UNINITIALIZED then do {
        assert_c (0 \<le> index \<and> index < int (length (perfCtrs w)));
        Some (if 0 \<le> index then
                (case HSS_GetTime w of (t, w1) \<Rightarrow>
                   w1\<lparr>perfCtrs := (perfCtrs w1)[nat index := (perfCtrs w1 ! nat index)\<lparr>pc_lapTime := t\<rparr>]\<rparr>)
              else w)
      } else Some w)"

definition HSS_PerfCtr_GetTime :: "int \<Rightarrow> 'a perf_world_scheme \<Rightarrow> HSSTicks_t option" where
  "HSS_PerfCtr_GetTime index w =
     (if index \<noteq> PERF_CTR_UNINITIALIZED then do {
        assert_c (0 \<le> index \<and> index < int (length (perfCtrs w)));
        Some (if 0 \<le> index then pc_lapTime (perfCtrs w ! nat index) - pc_startTime (perfCtrs w ! nat index)
              else 0)
      } else Some 0)"

end
