(* ===== verification/HSS_U54.thy ===== *)
theory HSS_U54
  imports HSS_Clock
begin

text \<open>
  The state of each application hart as the monitor sees it,
  application/hart1-4/u54_state.c.  The functions that act on "this" hart take its id
  \<open>me\<close>; a hart id outside 1..4 fails the assertion in the \<^verbatim>\<open>default\<close> case.  The build is
  the one without \<^verbatim>\<open>CONFIG_ALLOW_COLDREBOOT_ON_OPENSBI_FAULT\<close> and without telemetry
  publishing, in which a state change has no other effect.
\<close>

subsection \<open>Hart states\<close>

abbreviation (input) HSS_State_Idle :: int where "HSS_State_Idle \<equiv> 0"
abbreviation (input) HSS_State_Booting :: int where "HSS_State_Booting \<equiv> 1"
abbreviation (input) HSS_State_SBIHartInit :: int where "HSS_State_SBIHartInit \<equiv> 2"
abbreviation (input) HSS_State_SBIWaitForColdboot :: int where "HSS_State_SBIWaitForColdboot \<equiv> 3"
abbreviation (input) HSS_State_Running :: int where "HSS_State_Running \<equiv> 4"
abbreviation (input) HSS_State_Trap :: int where "HSS_State_Trap \<equiv> 5"
abbreviation (input) HSS_State_Fatal :: int where "HSS_State_Fatal \<equiv> 6"

record u54_data = perf_world +
  hartStates :: "int list"
  reportingFlag :: bool

definition HSS_U54_SetState_Ex :: "hart \<Rightarrow> int \<Rightarrow> 'a u54_data_scheme \<Rightarrow> 'a u54_data_scheme option" where
  "HSS_U54_SetState_Ex hartId state w =
     (if HSS_HART_U54_1 \<le> hartId \<and> hartId \<le> HSS_HART_U54_4
      then Some (w\<lparr>hartStates := (hartStates w)[hartId := state], reportingFlag := True\<rparr>)
      else None)"

definition HSS_U54_GetState_Ex :: "hart \<Rightarrow> 'a u54_data_scheme \<Rightarrow> int option" where
  "HSS_U54_GetState_Ex hartId w = nth_opt (hartStates w) hartId"

definition HSS_U54_SetState :: "hart \<Rightarrow> int \<Rightarrow> 'a u54_data_scheme \<Rightarrow> 'a u54_data_scheme option" where
  "HSS_U54_SetState me state w =
     (if HSS_HART_U54_1 \<le> me \<and> me \<le> HSS_HART_U54_4 then HSS_U54_SetState_Ex me state w else None)"

definition HSS_U54_GetState :: "hart \<Rightarrow> 'a u54_data_scheme \<Rightarrow> int option" where
  "HSS_U54_GetState me w =
     (if HSS_HART_U54_1 \<le> me \<and> me \<le> HSS_HART_U54_4 then HSS_U54_GetState_Ex me w else None)"

definition hartStateNames :: "string list" where
  "hartStateNames = [''Idle'', ''Booting'', ''SBIHartInit'', ''SBIWaitForColdboot'', ''Running'', ''Trap'', ''Fatal'']"

text \<open>\<open>None\<close> is the null pointer.\<close>

definition HSS_U54_GetStateName :: "int \<Rightarrow> string option" where
  "HSS_U54_GetStateName state =
     (if HSS_State_Idle \<le> state \<and> state \<le> HSS_State_Fatal then nth_opt hartStateNames (nat state) else None)"

text \<open>Dumping prints the names of the four states and clears the flag; here, what it prints.\<close>

definition HSS_U54_DumpStatesIfChanged ::
    "'a u54_data_scheme \<Rightarrow> string option list option \<times> 'a u54_data_scheme" where
  "HSS_U54_DumpStatesIfChanged w =
     (if reportingFlag w
      then (Some (map (\<lambda>i. Option.bind (HSS_U54_GetState_Ex i w) HSS_U54_GetStateName)
              [HSS_HART_U54_1..<HSS_HART_NUM_PEERS]),
            w\<lparr>reportingFlag := False\<rparr>)
      else (None, w))"

definition HSS_U54_DumpStates :: "'a u54_data_scheme \<Rightarrow> string option list" where
  "HSS_U54_DumpStates w =
     map (\<lambda>i. Option.bind (HSS_U54_GetState_Ex i w) HSS_U54_GetStateName) [HSS_HART_U54_1..<HSS_HART_NUM_PEERS]"

definition HSS_U54_Banner :: "hart \<Rightarrow> 'a u54_data_scheme \<Rightarrow> 'a u54_data_scheme option" where
  "HSS_U54_Banner me w = HSS_U54_SetState me HSS_State_Idle w"

text \<open>
  A hart state reported by the monitor is the last one set for that hart: setting the
  state of one U54 is visible at once under that hart only, is announced exactly once by
  the next dump, and a hart id that is not a U54 stops at the assertion.
\<close>

theorem HSS_U54_SetState_dump:
  "(case HSS_U54_SetState_Ex h st w of
      None \<Rightarrow> h \<notin> {1..4}
    | Some w' \<Rightarrow> h \<in> {1..4}
        \<and> (length (hartStates w) = 5 \<longrightarrow> HSS_U54_GetState_Ex h w' = Some st)
        \<and> (\<forall>k. k \<noteq> h \<longrightarrow> HSS_U54_GetState_Ex k w' = HSS_U54_GetState_Ex k w)
        \<and> (case HSS_U54_DumpStatesIfChanged w' of (out, w'') \<Rightarrow>
             out = Some (HSS_U54_DumpStates w') \<and> fst (HSS_U54_DumpStatesIfChanged w'') = None))"
  by (auto simp: HSS_U54_SetState_Ex_def HSS_U54_GetState_Ex_def HSS_U54_DumpStatesIfChanged_def
      HSS_U54_DumpStates_def nth_opt_def)

theorem HSS_U54_SetState_dump_witness:
  "\<forall>w :: u54_data. HSS_U54_GetState_Ex 3 (the (HSS_U54_SetState_Ex 3 HSS_State_Running
     (w\<lparr>hartStates := [0, 0, 0, 0, 0]\<rparr>))) = Some HSS_State_Running"
proof
  fix w :: u54_data
  show "HSS_U54_GetState_Ex 3 (the (HSS_U54_SetState_Ex 3 HSS_State_Running
     (w\<lparr>hartStates := [0, 0, 0, 0, 0]\<rparr>))) = Some HSS_State_Running"
    using HSS_U54_SetState_dump [where h = 3 and st = HSS_State_Running and w = "w\<lparr>hartStates := [0, 0, 0, 0, 0]\<rparr>"]
    by (simp split: option.splits)
qed

end
