(* ===== verification/HSS_StateMachine.thy ===== *)
theory HSS_StateMachine
  imports HSS_U54
begin

text \<open>
  The super-loop scheduler (application/hart0/hss_state_machine.c) and its first client,
  the IPI polling service (services/ipi_poll/ipi_poll_service.c).  The machines live in the global state, in the order of
  \<^verbatim>\<open>pGlobalStateMachines\<close>, because handlers of one machine write the state of another;
  what the C code holds constant (number of states, descriptors) is in \<open>MachineDesc\<close>.
\<close>

subsection \<open>Data\<close>

type_synonym stateType_t = int

abbreviation (input) SM_INVALID_STATE :: stateType_t where "SM_INVALID_STATE \<equiv> -1"

record StateMachine =
  sm_state :: stateType_t
  sm_prevState :: stateType_t
  sm_startTime :: HSSTicks_t
  sm_lastExecutionTime :: HSSTicks_t
  sm_maxExecutionTime :: HSSTicks_t
  sm_maxState :: stateType_t
  sm_lastDeltaExecutionTime :: HSSTicks_t
  sm_executionCount :: u64

text \<open>A handler gets the index of its machine; \<open>None\<close> is a failed assertion.\<close>

type_synonym 'w sm_handler = "nat \<Rightarrow> 'w \<Rightarrow> 'w option"

record 'w StateDesc =
  sd_state :: stateType_t
  state_onEntry :: "'w sm_handler option"
  state_onExit :: "'w sm_handler option"
  state_handler :: "'w sm_handler option"

record 'w MachineDesc =
  numStates :: nat
  pStateDescs :: "'w StateDesc list"

record sm_world = u54_data +
  machines :: "StateMachine list"
  maxLoopTime :: HSSTicks_t
  loopCount :: u64
  poll_hartBitmask :: u32

definition initial_machine :: "stateType_t \<Rightarrow> StateMachine" where
  "initial_machine s = \<lparr> sm_state = s, sm_prevState = SM_INVALID_STATE, sm_startTime = 0,
     sm_lastExecutionTime = 0, sm_maxExecutionTime = 0, sm_maxState = 0,
     sm_lastDeltaExecutionTime = 0, sm_executionCount = 0 \<rparr>"

subsection \<open>Running one machine\<close>

definition sm_update :: "nat \<Rightarrow> (StateMachine \<Rightarrow> StateMachine) \<Rightarrow> 'a sm_world_scheme \<Rightarrow> 'a sm_world_scheme" where
  "sm_update m f w = w\<lparr>machines := (machines w)[m := f (machines w ! m)]\<rparr>"

definition set_state :: "nat \<Rightarrow> stateType_t \<Rightarrow> 'a sm_world_scheme \<Rightarrow> 'a sm_world_scheme" where
  "set_state m st w = sm_update m (\<lambda>sm. sm\<lparr>sm_state := st\<rparr>) w"

definition IsValidState :: "'w MachineDesc \<Rightarrow> stateType_t \<Rightarrow> bool" where
  "IsValidState d st \<longleftrightarrow> 0 \<le> st \<and> st < int (numStates d)"

text \<open>\<^verbatim>\<open>pStateDescs[st]\<close>: a negative or too large index is an access outside the table.\<close>

definition state_desc :: "'w MachineDesc \<Rightarrow> stateType_t \<Rightarrow> 'w StateDesc option" where
  "state_desc d st = (if 0 \<le> st then nth_opt (pStateDescs d) (nat st) else None)"

definition call_opt :: "'w sm_handler option \<Rightarrow> nat \<Rightarrow> 'w \<Rightarrow> 'w option" where
  "call_opt h m w = (case h of None \<Rightarrow> Some w | Some f \<Rightarrow> f m w)"

text \<open>The part of \<^verbatim>\<open>RunStateMachine\<close> under \<^verbatim>\<open>if (prevState != currentState)\<close>.\<close>

definition sm_transition ::
    "'a sm_world_scheme MachineDesc \<Rightarrow> nat \<Rightarrow> stateType_t \<Rightarrow> 'a sm_world_scheme StateDesc
      \<Rightarrow> 'a sm_world_scheme \<Rightarrow> 'a sm_world_scheme option" where
  "sm_transition d m prevState pCurrentStateDesc w = do {
     w1 \<leftarrow> (if IsValidState d prevState then do {
              pLast \<leftarrow> state_desc d prevState;
              assert_c (sd_state pLast = prevState);
              call_opt (state_onExit pLast) m w
            } else Some w);
     w2 \<leftarrow> call_opt (state_onEntry pCurrentStateDesc) m w1;
     Some (sm_update m (\<lambda>sm. sm\<lparr>sm_executionCount := 0, sm_prevState := sm_state sm\<rparr>) w2)
   }"

definition sm_begin :: "nat \<Rightarrow> HSSTicks_t \<Rightarrow> 'a sm_world_scheme \<Rightarrow> 'a sm_world_scheme" where
  "sm_begin m lastEntry w = sm_update m (\<lambda>sm.
     (if sm_startTime sm = 0 then sm\<lparr>sm_startTime := lastEntry\<rparr> else sm)
       \<lparr>sm_lastExecutionTime := lastEntry\<rparr>) w"

definition sm_finish :: "nat \<Rightarrow> HSSTicks_t \<Rightarrow> HSSTicks_t \<Rightarrow> 'a sm_world_scheme \<Rightarrow> 'a sm_world_scheme" where
  "sm_finish m lastEntry lastExit w = sm_update m (\<lambda>sm.
     let sm' = sm\<lparr>sm_lastDeltaExecutionTime := lastExit - lastEntry\<rparr> in
     if sm_lastDeltaExecutionTime sm' > sm_maxExecutionTime sm'
     then sm'\<lparr>sm_maxExecutionTime := sm_lastDeltaExecutionTime sm', sm_maxState := sm_prevState sm'\<rparr>
     else sm') w"

definition RunStateMachine ::
    "'a sm_world_scheme MachineDesc \<Rightarrow> nat \<Rightarrow> 'a sm_world_scheme \<Rightarrow> 'a sm_world_scheme option" where
  "RunStateMachine d m w = do {
     sm \<leftarrow> nth_opt (machines w) m;
     let prevState = sm_prevState sm;
     let currentState = sm_state sm;
     pCurrent \<leftarrow> state_desc d currentState;
     assert_c (sd_state pCurrent = currentState);
     let (lastEntry, w1) = HSS_GetTime w;
     let w2 = sm_begin m lastEntry w1;
     w3 \<leftarrow> (if prevState \<noteq> currentState then sm_transition d m prevState pCurrent w2 else Some w2);
     w4 \<leftarrow> call_opt (state_handler pCurrent) m w3;
     let w5 = sm_update m (\<lambda>sm. sm\<lparr>sm_executionCount := sm_executionCount sm + 1\<rparr>) w4;
     let (lastExit, w6) = HSS_GetTime w5;
     Some (sm_finish m lastEntry lastExit w6)
   }"

subsection \<open>The super loop\<close>

text \<open>
  \<^verbatim>\<open>gobble_acks\<close> is the loop that both \<^verbatim>\<open>RunStateMachines\<close> (without the polling service) and
  the polling service run after a poll that found something.
\<close>

definition gobble_one ::
    "'a sm_world_scheme ipi_registry \<Rightarrow> hart \<Rightarrow> hart \<Rightarrow> 'a sm_world_scheme \<Rightarrow> 'a sm_world_scheme option" where
  "gobble_one reg me i w =
     (if i = me then Some w
      else let index = IPI_CalculateQueueIndex i me in
        if IPI_GetQueuePendingCount index w \<noteq> 0 then do {
          (_, w1) \<leftarrow> IPI_ConsumeIntent reg me i IPI_MSG_ACK_COMPLETE w;
          (_, w2) \<leftarrow> IPI_ConsumeIntent reg me i IPI_MSG_ACK_PENDING w1;
          Some w2
        } else Some w)"

fun gobble_acks ::
    "'a sm_world_scheme ipi_registry \<Rightarrow> hart \<Rightarrow> hart list \<Rightarrow> 'a sm_world_scheme \<Rightarrow> 'a sm_world_scheme option" where
  "gobble_acks reg me [] w = Some w"
| "gobble_acks reg me (i # is) w = do { w1 \<leftarrow> gobble_one reg me i w; gobble_acks reg me is w1 }"

definition poll_and_gobble ::
    "'a sm_world_scheme ipi_registry \<Rightarrow> hart \<Rightarrow> u32 \<Rightarrow> 'a sm_world_scheme \<Rightarrow> 'a sm_world_scheme option" where
  "poll_and_gobble reg me hmask w =
     (case IPI_PollReceive me hmask w of (status, w1) \<Rightarrow>
        if status then gobble_acks reg me [0..<MAX_NUM_HARTS] w1 else Some w1)"

fun RunMachineList ::
    "(nat \<times> 'a sm_world_scheme MachineDesc) list \<Rightarrow> 'a sm_world_scheme \<Rightarrow> 'a sm_world_scheme option" where
  "RunMachineList [] w = Some w"
| "RunMachineList ((m, d) # ms) w = do { w1 \<leftarrow> RunStateMachine d m w; RunMachineList ms w1 }"

text \<open>
  \<open>ipi_poll\<close> is \<^verbatim>\<open>IS_ENABLED(CONFIG_SERVICE_IPI_POLL)\<close> and \<open>loop_times\<close> the debug option
  under which the longest loop is recorded; the dumps themselves only print.
\<close>

definition RunStateMachines ::
    "bool \<Rightarrow> bool \<Rightarrow> 'a sm_world_scheme ipi_registry \<Rightarrow> hart \<Rightarrow> (nat \<times> 'a sm_world_scheme MachineDesc) list
      \<Rightarrow> 'a sm_world_scheme \<Rightarrow> 'a sm_world_scheme option" where
  "RunStateMachines ipi_poll loop_times reg me pStateMachines w = do {
     let (startTicks, w1) = HSS_GetTickCount w;
     w2 \<leftarrow> (if \<not> ipi_poll then poll_and_gobble reg me mHSS_BITMASK_ALL_U54 w1 else Some w1);
     w3 \<leftarrow> RunMachineList pStateMachines w2;
     let w4 = w3\<lparr>loopCount := loopCount w3 + 1\<rparr>;
     let (endTicks, w5) = HSS_GetTickCount w4;
     Some (if loop_times then
             snd (HSS_U54_DumpStatesIfChanged
               (if endTicks - startTicks > maxLoopTime w5
                then w5\<lparr>maxLoopTime := endTicks - startTicks\<rparr> else w5))
           else w5)
   }"

definition GetStateMachinesExecutionCount :: "'a sm_world_scheme \<Rightarrow> u64" where
  "GetStateMachinesExecutionCount w = loopCount w"

text \<open>
  \<^verbatim>\<open>RunInitFunctions\<close>: an initialiser is a name, a handler (null fails the assertion) and
  what to do on failure.  \<open>Inr\<close> of the outcome is a normal return; \<open>Inl\<close> says which
  initialiser halted the hart or restarted it.  \<open>key\<close> is the answer of the prompt
  \<^verbatim>\<open>HSS_ShowTimeout\<close> for each initialiser, \<open>cli\<close> the command line that runs when a key is hit.
\<close>

datatype init_outcome = Halted nat | Restarted nat

record 'w InitFunction =
  if_handler :: "('w \<Rightarrow> (bool \<times> 'w) option) option"
  haltOnFailure :: bool
  restartOnFailure :: bool

fun RunInitFunctions_from ::
    "nat \<Rightarrow> bool \<Rightarrow> (nat \<Rightarrow> bool) \<Rightarrow> ('w \<Rightarrow> 'w) \<Rightarrow> 'w InitFunction list \<Rightarrow> 'w \<Rightarrow> (init_outcome \<times> 'w + 'w) option" where
  "RunInitFunctions_from i tinycli key cli [] w = Some (Inr w)"
| "RunInitFunctions_from i tinycli key cli (f # fs) w =
     (case if_handler f of
        None \<Rightarrow> None
      | Some h \<Rightarrow>
          (case h w of
             None \<Rightarrow> None
           | Some (result, w1) \<Rightarrow>
               if result then RunInitFunctions_from (Suc i) tinycli key cli fs w1
               else if haltOnFailure f then Some (Inl (Halted i, w1))
               else if restartOnFailure f then
                 if tinycli \<and> key i then RunInitFunctions_from (Suc i) tinycli key cli fs (cli w1)
                 else Some (Inl (Restarted i, w1))
               else RunInitFunctions_from (Suc i) tinycli key cli fs w1))"

definition RunInitFunctions ::
    "bool \<Rightarrow> (nat \<Rightarrow> bool) \<Rightarrow> ('w \<Rightarrow> 'w) \<Rightarrow> 'w InitFunction list \<Rightarrow> 'w \<Rightarrow> (init_outcome \<times> 'w + 'w) option" where
  "RunInitFunctions = RunInitFunctions_from 0"

subsection \<open>The scheduler's contract with a machine\<close>

text \<open>
  What a service owes the scheduler: its descriptor table lists its states in order, and an
  invariant of the global state, insensitive to the clock and to the scheduler's own
  bookkeeping, under which the machine's state is one of the table's and every handler
  returns and keeps the invariant; entering and leaving a state does not move the machine.  A table may list states beyond \<open>numStates\<close>, as that of
  the DDR service does; the scheduler then skips the exit handlers of those.
\<close>

locale state_machine =
  fixes d :: "'a sm_world_scheme MachineDesc" and m :: nat and inv :: "'a sm_world_scheme \<Rightarrow> bool"
  assumes table_length: "numStates d \<le> length (pStateDescs d)"
    and table_states: "i < length (pStateDescs d) \<Longrightarrow> sd_state (pStateDescs d ! i) = int i"
    and inv_machine: "inv w \<Longrightarrow> m < length (machines w) \<and> 0 \<le> sm_state (machines w ! m)
      \<and> sm_state (machines w ! m) < int (length (pStateDescs d))"
    and inv_clock: "inv w \<Longrightarrow> inv (w\<lparr>time_reads := n\<rparr>)"
    and inv_book: "inv w \<Longrightarrow> (\<And>sm. sm_state (f sm) = sm_state sm) \<Longrightarrow> inv (sm_update m f w)"
    and entry: "i < length (pStateDescs d) \<Longrightarrow> state_onEntry (pStateDescs d ! i) = Some h \<Longrightarrow> inv w \<Longrightarrow>
      \<exists>w'. h m w = Some w' \<and> inv w' \<and> sm_state (machines w' ! m) = sm_state (machines w ! m)"
    and exit: "i < length (pStateDescs d) \<Longrightarrow> state_onExit (pStateDescs d ! i) = Some h \<Longrightarrow> inv w \<Longrightarrow>
      \<exists>w'. h m w = Some w' \<and> inv w' \<and> sm_state (machines w' ! m) = sm_state (machines w ! m)"
    and handler: "i < length (pStateDescs d) \<Longrightarrow> state_handler (pStateDescs d ! i) = Some h \<Longrightarrow> inv w \<Longrightarrow>
      sm_state (machines w ! m) = int i \<Longrightarrow> \<exists>w'. h m w = Some w' \<and> inv w'"
begin

lemma desc_of: "0 \<le> st \<Longrightarrow> st < int (length (pStateDescs d)) \<Longrightarrow> \<exists>i<length (pStateDescs d). st = int i
    \<and> state_desc d st = Some (pStateDescs d ! i) \<and> sd_state (pStateDescs d ! i) = st"
  by (intro exI [of _ "nat st"]) (auto simp: state_desc_def table_states)

lemma valid_in_table: "IsValidState d st \<Longrightarrow> 0 \<le> st \<and> st < int (length (pStateDescs d))"
  using table_length by (simp add: IsValidState_def)

abbreviation (input) state_now :: "'a sm_world_scheme \<Rightarrow> stateType_t" where
  "state_now w \<equiv> sm_state (machines w ! m)"

lemma call_safe:
  "(\<And>h. ho = Some h \<Longrightarrow> \<exists>w'. h m w = Some w' \<and> inv w' \<and> state_now w' = state_now w) \<Longrightarrow> inv w \<Longrightarrow>
     \<exists>w'. call_opt ho m w = Some w' \<and> inv w' \<and> state_now w' = state_now w"
  by (auto simp: call_opt_def split: option.split)

lemma GetTime_safe: "inv w \<Longrightarrow> HSS_GetTime w = (t, w') \<Longrightarrow> inv w' \<and> state_now w' = state_now w"
  by (auto simp: HSS_GetTime_def inv_clock)

lemma book_safe:
  "inv w \<Longrightarrow> (\<And>sm. sm_state (f sm) = sm_state sm) \<Longrightarrow> inv (sm_update m f w) \<and> state_now (sm_update m f w) = state_now w"
  using inv_machine [of w] by (simp add: inv_book) (simp add: sm_update_def)

lemma exit_safe:
  assumes "inv w"
  shows "\<exists>w1. (if IsValidState d prev then do {
              pLast \<leftarrow> state_desc d prev;
              assert_c (sd_state pLast = prev);
              call_opt (state_onExit pLast) m w
            } else Some w) = Some w1 \<and> inv w1 \<and> state_now w1 = state_now w"
proof (cases "IsValidState d prev")
  case True
  with desc_of valid_in_table obtain k where k: "k < length (pStateDescs d)" "state_desc d prev = Some (pStateDescs d ! k)"
    "sd_state (pStateDescs d ! k) = prev" by blast
  with call_safe [of "state_onExit (pStateDescs d ! k)" w] exit assms True show ?thesis by auto
next
  case False
  with assms show ?thesis by simp
qed

lemma transition_safe:
  assumes "inv w" "i < length (pStateDescs d)"
  shows "\<exists>w'. sm_transition d m prev (pStateDescs d ! i) w = Some w' \<and> inv w' \<and> state_now w' = state_now w"
proof -
  obtain w1 where w1: "(if IsValidState d prev then do {
              pLast \<leftarrow> state_desc d prev;
              assert_c (sd_state pLast = prev);
              call_opt (state_onExit pLast) m w
            } else Some w) = Some w1" and i1: "inv w1" "state_now w1 = state_now w"
    using exit_safe [OF assms(1)] by blast
  obtain w2 where w2: "call_opt (state_onEntry (pStateDescs d ! i)) m w1 = Some w2" and i2: "inv w2" "state_now w2 = state_now w1"
    using call_safe [of "state_onEntry (pStateDescs d ! i)" w1] entry [OF assms(2)] i1 by blast
  show ?thesis
    unfolding sm_transition_def using i1 i2 book_safe [OF i2(1)] by (simp add: w1 w2)
qed

text \<open>The scheduler never fails an assertion on such a machine, and keeps its invariant.\<close>

lemma run_safe:
  assumes "inv w"
  shows "\<exists>w'. RunStateMachine d m w = Some w' \<and> inv w'"
proof -
  let ?sm = "machines w ! m"
  have m: "m < length (machines w)" and v: "0 \<le> sm_state ?sm" "sm_state ?sm < int (length (pStateDescs d))"
    using inv_machine [OF assms] by auto
  obtain i where i: "i < length (pStateDescs d)" "state_desc d (sm_state ?sm) = Some (pStateDescs d ! i)"
    "sd_state (pStateDescs d ! i) = sm_state ?sm" "sm_state ?sm = int i" using desc_of [OF v] by blast
  obtain t w1 where t: "HSS_GetTime w = (t, w1)" by (cases "HSS_GetTime w")
  let ?w2 = "sm_begin m t w1"
  have i2: "inv ?w2" "state_now ?w2 = state_now w"
    using GetTime_safe [OF assms t] book_safe [of w1] unfolding sm_begin_def by simp_all
  obtain w3 where w3: "(if sm_prevState ?sm \<noteq> sm_state ?sm
      then sm_transition d m (sm_prevState ?sm) (pStateDescs d ! i) ?w2 else Some ?w2) = Some w3"
    and i3: "inv w3" "state_now w3 = state_now ?w2"
    using transition_safe [OF i2(1) i(1)] i2 by (cases "sm_prevState ?sm \<noteq> sm_state ?sm") auto
  obtain w4 where w4: "call_opt (state_handler (pStateDescs d ! i)) m w3 = Some w4" and i4: "inv w4"
    using handler [OF i(1) _ i3(1)] i3 i2(2) i(4) by (cases "state_handler (pStateDescs d ! i)") (auto simp: call_opt_def)
  let ?w5 = "sm_update m (\<lambda>sm. sm\<lparr>sm_executionCount := sm_executionCount sm + 1\<rparr>) w4"
  have i5: "inv ?w5" using i4 by (rule inv_book) simp
  obtain t' w6 where t': "HSS_GetTime ?w5 = (t', w6)" by (cases "HSS_GetTime ?w5")
  have "inv (sm_finish m t t' w6)"
    using GetTime_safe [OF i5 t'] unfolding sm_finish_def by (auto intro!: inv_book simp: Let_def)
  then show ?thesis
    unfolding RunStateMachine_def Let_def using m i t w3 w4 t' by simp
qed

end

lemma run_list_safe:
  assumes "\<forall>(m, d) \<in> set ms. state_machine d m I" "I w"
  shows "\<exists>w'. RunMachineList ms w = Some w' \<and> I w'"
  using assms
proof (induction ms arbitrary: w)
  case Nil
  then show ?case by simp
next
  case (Cons md ms)
  obtain m d where md: "md = (m, d)" by (cases md)
  have "state_machine d m I" using Cons.prems md by simp
  from state_machine.run_safe [OF this Cons.prems(2)] obtain w1 where
    "RunStateMachine d m w = Some w1" "I w1" by blast
  with Cons.IH [of w1] Cons.prems md show ?case by simp
qed

subsection \<open>The IPI polling service\<close>

abbreviation (input) IPI_POLL_INITIALIZATION :: int where "IPI_POLL_INITIALIZATION \<equiv> 0"
abbreviation (input) IPI_POLL_MONITORING :: int where "IPI_POLL_MONITORING \<equiv> 1"

definition ipiPoll_init_handler :: "'a sm_world_scheme sm_handler" where
  "ipiPoll_init_handler m w = Some
     (if HSS_Trigger_IsNotified True EVENT_STARTUP_COMPLETE w
      then set_state m IPI_POLL_MONITORING (w\<lparr>poll_hartBitmask := mHSS_BITMASK_ALL_U54\<rparr>)
      else w)"

definition ipiPoll_monitoring_handler :: "'a sm_world_scheme ipi_registry \<Rightarrow> hart \<Rightarrow> 'a sm_world_scheme sm_handler" where
  "ipiPoll_monitoring_handler reg me m w = poll_and_gobble reg me (poll_hartBitmask w) w"

definition ipiPoll_state_descs :: "'a sm_world_scheme ipi_registry \<Rightarrow> hart \<Rightarrow> 'a sm_world_scheme StateDesc list" where
  "ipiPoll_state_descs reg me =
    [\<lparr> sd_state = IPI_POLL_INITIALIZATION, state_onEntry = None, state_onExit = None,
       state_handler = Some ipiPoll_init_handler \<rparr>,
     \<lparr> sd_state = IPI_POLL_MONITORING, state_onEntry = None, state_onExit = None,
       state_handler = Some (ipiPoll_monitoring_handler reg me) \<rparr>]"

definition ipi_poll_service :: "'a sm_world_scheme ipi_registry \<Rightarrow> hart \<Rightarrow> 'a sm_world_scheme MachineDesc" where
  "ipi_poll_service reg me = \<lparr> numStates = 2, pStateDescs = ipiPoll_state_descs reg me \<rparr>"

text \<open>\<open>m\<close> is the index of the polling service in the machine table.\<close>

definition HSS_IpiPoll_Enable :: "nat \<Rightarrow> hart \<Rightarrow> 'a sm_world_scheme \<Rightarrow> 'a sm_world_scheme option" where
  "HSS_IpiPoll_Enable m target w = do {
     w1 \<leftarrow> (if target \<in> {HSS_HART_U54_1..HSS_HART_U54_4}
            then Some (w\<lparr>poll_hartBitmask := set_bit target (poll_hartBitmask w)\<rparr>)
            else if target = HSS_HART_ALL
            then Some (w\<lparr>poll_hartBitmask := poll_hartBitmask w OR mHSS_BITMASK_ALL_U54\<rparr>)
            else None);
     Some (set_state m IPI_POLL_MONITORING w1)
   }"

text \<open>The two ACK entries of a registry lead to the acknowledgement handler.\<close>

definition acks_registered :: "'a ipi_data_scheme ipi_registry \<Rightarrow> bool" where
  "acks_registered reg \<longleftrightarrow>
     registry_lookup reg IPI_MSG_ACK_COMPLETE = Some (Some IPI_ACK_IPIHandler) \<and>
     registry_lookup reg IPI_MSG_ACK_PENDING = Some (Some IPI_ACK_IPIHandler)"

lemma gobble_one_safe:
  assumes "ipi_wf w" "me < 5" "i < 5" "acks_registered reg"
  shows "\<exists>w'. gobble_one reg me i w = Some w' \<and> ipi_wf w' \<and> ipi_data.more w' = ipi_data.more w"
proof (cases "i = me \<or> IPI_GetQueuePendingCount (IPI_CalculateQueueIndex i me) w = 0")
  case True
  then show ?thesis using assms by (auto simp: gobble_one_def Let_def)
next
  case False
  then have p: "peers i me" using assms by (simp add: peers_def)
  have r: "registry_lookup reg IPI_MSG_ACK_COMPLETE = Some (Some IPI_ACK_IPIHandler)"
    "registry_lookup reg IPI_MSG_ACK_PENDING = Some (Some IPI_ACK_IPIHandler)"
    using assms(4) by (auto simp: acks_registered_def)
  obtain b1 w1 where w1: "IPI_ConsumeIntent reg me i IPI_MSG_ACK_COMPLETE w = Some (b1, w1)" "ipi_wf w1"
    using ack.consume_total [OF assms(1) p r(1)] by auto
  obtain b2 w2 where w2: "IPI_ConsumeIntent reg me i IPI_MSG_ACK_PENDING w1 = Some (b2, w2)" "ipi_wf w2"
    using ack.consume_total [OF w1(2) p r(2)] by auto
  have "ipi_data.more w2 = ipi_data.more w"
    using ack_local.consume_more [OF r(1) w1(1)] ack_local.consume_more [OF r(2) w2(1)] by simp
  with False w1 w2 show ?thesis by (auto simp: gobble_one_def Let_def)
qed

lemma gobble_acks_safe:
  assumes "ipi_wf w" "me < 5" "\<forall>i\<in>set is. i < 5" "acks_registered reg"
  shows "\<exists>w'. gobble_acks reg me is w = Some w' \<and> ipi_wf w' \<and> ipi_data.more w' = ipi_data.more w"
  using assms
proof (induction "is" arbitrary: w)
  case Nil
  then show ?case by simp
next
  case (Cons i "is")
  obtain w1 where w1: "gobble_one reg me i w = Some w1" "ipi_wf w1" "ipi_data.more w1 = ipi_data.more w"
    using gobble_one_safe [of w me i reg] Cons.prems by auto
  with Cons.IH [of w1] Cons.prems show ?case by simp
qed

lemma poll_and_gobble_safe:
  assumes "ipi_wf w" "me < 5" "acks_registered reg"
  shows "\<exists>w'. poll_and_gobble reg me hmask w = Some w' \<and> ipi_wf w' \<and> ipi_data.more w' = ipi_data.more w"
proof (cases "IPI_PollReceive me hmask w")
  case (Pair status w1)
  have "ipi_wf w1" "ipi_data.more w1 = ipi_data.more w"
    using IPI_PollReceive_wf [OF assms(1,2), of hmask] IPI_PollReceive_more [of me hmask w] by (simp_all add: Pair)
  with gobble_acks_safe [of w1 me "[0..<5]" reg] assms Pair show ?thesis
    by (cases status) (simp_all add: poll_and_gobble_def)
qed

lemma machines_more: "ipi_data.more v = ipi_data.more w \<Longrightarrow> machines v = machines (w :: 'a sm_world_scheme)"
  by (cases v; cases w) simp

lemma sm_update_wf [simp]:
  "ipi_wf (sm_update m f w) = ipi_wf w"
  "ipi_wf (set_state m st w) = ipi_wf w"
  by (simp_all add: sm_update_def set_state_def ipi_wf_def)

text \<open>The polling service alone, as the scheduler sees it.\<close>

definition poll_inv :: "nat \<Rightarrow> 'a sm_world_scheme \<Rightarrow> bool" where
  "poll_inv m w \<longleftrightarrow> ipi_wf w \<and> m < length (machines w) \<and> sm_state (machines w ! m) \<in> {0, 1}"

lemma poll_state_machine:
  assumes "me < 5" "acks_registered reg"
  shows "state_machine (ipi_poll_service reg me) m (poll_inv m)"
proof
  fix w :: "'a sm_world_scheme" and f i h n
  show "numStates (ipi_poll_service reg me) \<le> length (pStateDescs (ipi_poll_service reg me))"
    by (simp add: ipi_poll_service_def ipiPoll_state_descs_def)
  show "sd_state (pStateDescs (ipi_poll_service reg me) ! i) = int i" if "i < length (pStateDescs (ipi_poll_service reg me))"
    using that by (auto simp: ipi_poll_service_def ipiPoll_state_descs_def less_Suc_eq)
  show "poll_inv m w \<Longrightarrow> m < length (machines w) \<and> 0 \<le> sm_state (machines w ! m)
      \<and> sm_state (machines w ! m) < int (length (pStateDescs (ipi_poll_service reg me)))"
    by (auto simp: poll_inv_def ipi_poll_service_def ipiPoll_state_descs_def)
  show "poll_inv m w \<Longrightarrow> poll_inv m (w\<lparr>time_reads := n\<rparr>)"
    by (simp add: poll_inv_def ipi_wf_def)
  show "poll_inv m w \<Longrightarrow> (\<And>sm. sm_state (f sm) = sm_state sm) \<Longrightarrow> poll_inv m (sm_update m f w)"
    by (auto simp: poll_inv_def sm_update_def ipi_wf_def)
  show "i < length (pStateDescs (ipi_poll_service reg me)) \<Longrightarrow> state_onEntry (pStateDescs (ipi_poll_service reg me) ! i) = Some h
     \<Longrightarrow> poll_inv m w \<Longrightarrow> \<exists>w'. h m w = Some w' \<and> poll_inv m w' \<and> sm_state (machines w' ! m) = sm_state (machines w ! m)"
    by (auto simp: ipi_poll_service_def ipiPoll_state_descs_def less_Suc_eq)
  show "i < length (pStateDescs (ipi_poll_service reg me)) \<Longrightarrow> state_onExit (pStateDescs (ipi_poll_service reg me) ! i) = Some h
     \<Longrightarrow> poll_inv m w \<Longrightarrow> \<exists>w'. h m w = Some w' \<and> poll_inv m w' \<and> sm_state (machines w' ! m) = sm_state (machines w ! m)"
    by (auto simp: ipi_poll_service_def ipiPoll_state_descs_def less_Suc_eq)
  show "\<exists>w'. h m w = Some w' \<and> poll_inv m w'"
    if "i < length (pStateDescs (ipi_poll_service reg me))" and h: "state_handler (pStateDescs (ipi_poll_service reg me) ! i) = Some h"
      and inv: "poll_inv m w"
  proof -
    have "h = ipiPoll_init_handler \<or> h = ipiPoll_monitoring_handler reg me"
      using that(1,2) by (auto simp: ipi_poll_service_def ipiPoll_state_descs_def less_Suc_eq)
    then show ?thesis
    proof
      assume "h = ipiPoll_init_handler"
      then show ?thesis using inv
        by (auto simp: ipiPoll_init_handler_def poll_inv_def set_state_def sm_update_def ipi_wf_def)
    next
      assume h: "h = ipiPoll_monitoring_handler reg me"
      obtain w' where "poll_and_gobble reg me (poll_hartBitmask w) w = Some w'" "ipi_wf w'"
        "ipi_data.more w' = ipi_data.more w"
        using poll_and_gobble_safe [OF _ assms] inv by (auto simp: poll_inv_def)
      then show ?thesis using inv machines_more [of w' w]
        by (simp add: h ipiPoll_monitoring_handler_def poll_inv_def)
    qed
  qed
qed

subsection \<open>What one run of the scheduler records\<close>

text \<open>Handlers leave the scheduler's own fields of their machine alone.\<close>

definition sm_book :: "StateMachine \<Rightarrow> stateType_t \<times> u64 \<times> HSSTicks_t" where
  "sm_book sm = (sm_prevState sm, sm_executionCount sm, sm_maxExecutionTime sm)"

definition keeps_book :: "nat \<Rightarrow> 'a sm_world_scheme sm_handler option \<Rightarrow> bool" where
  "keeps_book m ho \<longleftrightarrow> (\<forall>w w'. call_opt ho m w = Some w' \<longrightarrow>
     length (machines w') = length (machines w) \<and> sm_book (machines w' ! m) = sm_book (machines w ! m))"

definition desc_keeps_book :: "nat \<Rightarrow> 'a sm_world_scheme MachineDesc \<Rightarrow> bool" where
  "desc_keeps_book m d \<longleftrightarrow> (\<forall>sd\<in>set (pStateDescs d).
     keeps_book m (state_onEntry sd) \<and> keeps_book m (state_onExit sd) \<and> keeps_book m (state_handler sd))"

lemma state_desc_mem: "state_desc d st = Some sd \<Longrightarrow> sd \<in> set (pStateDescs d)"
  by (auto simp: state_desc_def split: if_splits)

lemma machines_sm_update [simp]:
  "machines (sm_update m f w) = (machines w)[m := f (machines w ! m)]"
  by (simp add: sm_update_def)

lemma sm_update_book:
  "(\<And>sm. sm_book (f sm) = sm_book sm) \<Longrightarrow> sm_book ((xs[m := f (xs ! m)]) ! m) = sm_book (xs ! m)"
  by (cases "m < length xs") (simp_all add: list_update_beyond not_less)

lemma machines_GetTime: "HSS_GetTime w = (t, w') \<Longrightarrow> machines w' = machines (w :: 'a sm_world_scheme)"
  by (auto simp: HSS_GetTime_def)

lemma transition_book:
  assumes "sm_transition d m prev sd w = Some w'" "desc_keeps_book m d" "sd \<in> set (pStateDescs d)"
    and "m < length (machines w)"
  shows "length (machines w') = length (machines w)" "sm_executionCount (machines w' ! m) = 0"
    "sm_maxExecutionTime (machines w' ! m) = sm_maxExecutionTime (machines w ! m)"
proof -
  from assms(1) obtain w1 w2 where w1: "(if IsValidState d prev then do {
              pLast \<leftarrow> state_desc d prev;
              assert_c (sd_state pLast = prev);
              call_opt (state_onExit pLast) m w
            } else Some w) = Some w1" and w2: "call_opt (state_onEntry sd) m w1 = Some w2"
    and w': "w' = sm_update m (\<lambda>sm. sm\<lparr>sm_executionCount := 0, sm_prevState := sm_state sm\<rparr>) w2"
    by (auto simp: sm_transition_def Option.bind_eq_Some_conv)
  have "length (machines w1) = length (machines w) \<and> sm_book (machines w1 ! m) = sm_book (machines w ! m)"
    using w1 assms(2)
    by (auto simp: Option.bind_eq_Some_conv desc_keeps_book_def keeps_book_def dest: state_desc_mem split: if_splits)
  moreover have "length (machines w2) = length (machines w1) \<and> sm_book (machines w2 ! m) = sm_book (machines w1 ! m)"
    using w2 assms(2,3) by (auto simp: desc_keeps_book_def keeps_book_def)
  ultimately show "length (machines w') = length (machines w)" "sm_executionCount (machines w' ! m) = 0"
    "sm_maxExecutionTime (machines w' ! m) = sm_maxExecutionTime (machines w ! m)"
    using assms(4) by (auto simp: w' sm_book_def)
qed

text \<open>
  One run of a machine by the scheduler counts it: the execution count is the number
  of consecutive runs in the current state (it restarts at one when the state changed since
  the last run and goes up by one otherwise), and the longest execution time on record
  never decreases and covers the run just made.
\<close>

theorem RunStateMachine_records:
  assumes book: "desc_keeps_book m d" and run: "RunStateMachine d m w = Some w'"
  shows "m < length (machines w) \<and> length (machines w') = length (machines w)
    \<and> (sm_executionCount (machines w' ! m) =
         (if sm_prevState (machines w ! m) \<noteq> sm_state (machines w ! m) then 1
          else sm_executionCount (machines w ! m) + 1))
    \<and> sm_lastDeltaExecutionTime (machines w' ! m) \<le> sm_maxExecutionTime (machines w' ! m)
    \<and> sm_maxExecutionTime (machines w ! m) \<le> sm_maxExecutionTime (machines w' ! m)"
proof -
  let ?sm = "machines w ! m"
  from run obtain sd t w1 w3 w4 t' w6 where m: "m < length (machines w)"
    and sd: "state_desc d (sm_state ?sm) = Some sd"
    and t: "HSS_GetTime w = (t, w1)"
    and w3: "(if sm_prevState ?sm \<noteq> sm_state ?sm then sm_transition d m (sm_prevState ?sm) sd (sm_begin m t w1)
       else Some (sm_begin m t w1)) = Some w3"
    and w4: "call_opt (state_handler sd) m w3 = Some w4"
    and t': "HSS_GetTime (sm_update m (\<lambda>sm. sm\<lparr>sm_executionCount := sm_executionCount sm + 1\<rparr>) w4) = (t', w6)"
    and w': "w' = sm_finish m t t' w6"
    by (auto simp: RunStateMachine_def Let_def Option.bind_eq_Some_conv HSS_GetTime_def)
  have mem: "sd \<in> set (pStateDescs d)" using sd by (rule state_desc_mem)
  have b: "machines (sm_begin m t w1) = (machines w)[m := (if sm_startTime ?sm = 0 then ?sm\<lparr>sm_startTime := t\<rparr> else ?sm)
       \<lparr>sm_lastExecutionTime := t\<rparr>]"
    by (simp add: sm_begin_def machines_GetTime [OF t])
  have l3: "length (machines w3) = length (machines w)"
    and c3: "sm_executionCount (machines w3 ! m) =
      (if sm_prevState ?sm \<noteq> sm_state ?sm then 0 else sm_executionCount ?sm)"
    and x3: "sm_maxExecutionTime (machines w3 ! m) = sm_maxExecutionTime ?sm"
    using w3 transition_book [OF _ book mem, of "sm_prevState ?sm" "sm_begin m t w1" w3] m
    by (auto simp: b split: if_splits)
  have "length (machines w4) = length (machines w3)" "sm_book (machines w4 ! m) = sm_book (machines w3 ! m)"
    using book mem w4 by (auto simp: desc_keeps_book_def keeps_book_def)
  then have l4: "length (machines w4) = length (machines w)"
    and c4: "sm_executionCount (machines w4 ! m) = sm_executionCount (machines w3 ! m)"
    and x4: "sm_maxExecutionTime (machines w4 ! m) = sm_maxExecutionTime ?sm"
    using l3 x3 by (auto simp: sm_book_def)
  show ?thesis
    using m l4 c4 c3 x4 by (auto simp: w' sm_finish_def machines_GetTime [OF t'] Let_def)
qed

lemma gobble_acks_no_registry: "gobble_acks [] me is w = Some w' \<Longrightarrow> w' = w"
proof (induction "is" arbitrary: w)
  case Nil
  then show ?case by simp
next
  case (Cons i "is")
  have "gobble_one [] me i w = Some w1 \<Longrightarrow> w1 = w" for w1
    by (auto simp: gobble_one_def IPI_ConsumeIntent_def registry_lookup_def Option.bind_eq_Some_conv Let_def
        split: if_splits)
  then show ?case using Cons by (auto simp: Option.bind_eq_Some_conv)
qed

lemma poll_no_registry_machines:
  assumes "poll_and_gobble [] me hm w = Some w'"
  shows "machines w' = machines w"
proof (cases "IPI_PollReceive me hm w")
  case (Pair st w1)
  then have "machines w1 = machines w"
    using machines_more [of w1 w] IPI_PollReceive_more [of me hm w] by simp
  then show ?thesis using assms Pair
    by (auto simp: poll_and_gobble_def dest: gobble_acks_no_registry split: if_splits)
qed

lemma poll_handlers_keep_book:
  "keeps_book m None"
  "keeps_book m (Some ipiPoll_init_handler)"
  "keeps_book m (Some (ipiPoll_monitoring_handler [] me))"
  by (auto simp: keeps_book_def call_opt_def ipiPoll_init_handler_def ipiPoll_monitoring_handler_def
      set_state_def dest!: poll_no_registry_machines
      intro!: sm_update_book [where f = "sm_state_update (\<lambda>_. 1)"])
    (simp_all add: sm_book_def)

lemma poll_service_keeps_book: "desc_keeps_book m (ipi_poll_service [] me)"
  by (simp add: desc_keeps_book_def ipi_poll_service_def ipiPoll_state_descs_def poll_handlers_keep_book)

theorem RunStateMachine_records_witness:
  "\<forall>w :: sm_world. \<exists>w'. RunStateMachine (ipi_poll_service [] 0) 0 (w\<lparr>machines := [initial_machine 0], startup_complete := False\<rparr>) = Some w'
     \<and> sm_executionCount (machines w' ! 0) = 1"
proof
  fix w :: sm_world
  let ?w = "w\<lparr>machines := [initial_machine 0], startup_complete := False\<rparr>"
  have "\<exists>w'. RunStateMachine (ipi_poll_service [] 0) 0 ?w = Some w'"
    by (simp add: RunStateMachine_def sm_transition_def ipi_poll_service_def ipiPoll_state_descs_def state_desc_def
        initial_machine_def IsValidState_def HSS_GetTime_def sm_begin_def sm_update_def call_opt_def
        ipiPoll_init_handler_def sm_finish_def Let_def)
  then obtain w' where w': "RunStateMachine (ipi_poll_service [] 0) 0 ?w = Some w'" by blast
  from RunStateMachine_records [OF poll_service_keeps_book w'] w' show "\<exists>w'. RunStateMachine (ipi_poll_service [] 0) 0 (w\<lparr>machines := [initial_machine 0], startup_complete := False\<rparr>) = Some w'
     \<and> sm_executionCount (machines w' ! 0) = 1"
    by (auto simp: initial_machine_def)
qed

subsection \<open>Machines without entry and exit handlers\<close>

text \<open>For those a run is the scheduler's bookkeeping around one call of the state's handler.\<close>

definition sm_prepare :: "nat \<Rightarrow> 'a sm_world_scheme \<Rightarrow> 'a sm_world_scheme" where
  "sm_prepare m w =
     (let w2 = sm_begin m (read_at w 0) (skip_reads 1 w) in
      if sm_prevState (machines w ! m) \<noteq> sm_state (machines w ! m)
      then sm_update m (\<lambda>sm. sm\<lparr>sm_executionCount := 0, sm_prevState := sm_state sm\<rparr>) w2 else w2)"

definition sm_conclude :: "nat \<Rightarrow> HSSTicks_t \<Rightarrow> 'a sm_world_scheme \<Rightarrow> 'a sm_world_scheme" where
  "sm_conclude m lastEntry w =
     (let w5 = sm_update m (\<lambda>sm. sm\<lparr>sm_executionCount := sm_executionCount sm + 1\<rparr>) w
      in sm_finish m lastEntry (read_at w5 0) (skip_reads 1 w5))"

definition plain_machine :: "'a sm_world_scheme MachineDesc \<Rightarrow> bool" where
  "plain_machine d \<longleftrightarrow> numStates d \<le> length (pStateDescs d) \<and>
     (\<forall>i<length (pStateDescs d). sd_state (pStateDescs d ! i) = int i
        \<and> state_onEntry (pStateDescs d ! i) = None \<and> state_onExit (pStateDescs d ! i) = None)"

lemma RunStateMachine_plain:
  assumes d: "plain_machine d" and m: "m < length (machines w)"
    and st: "sm_state (machines w ! m) = int i" "i < length (pStateDescs d)"
    and h: "state_handler (pStateDescs d ! i) = Some h"
  shows "RunStateMachine d m w = map_option (sm_conclude m (read_at w 0)) (h m (sm_prepare m w))"
proof -
  have cur: "state_desc d (int i) = Some (pStateDescs d ! i)" "sd_state (pStateDescs d ! i) = int i"
    "state_onEntry (pStateDescs d ! i) = None"
    using d st(2) by (auto simp: state_desc_def plain_machine_def)
  have last: "\<exists>j. prev = int j \<and> state_desc d prev = Some (pStateDescs d ! j) \<and> sd_state (pStateDescs d ! j) = prev
      \<and> state_onExit (pStateDescs d ! j) = None" if "IsValidState d prev" for prev
    using that d by (intro exI [of _ "nat prev"]) (auto simp: IsValidState_def state_desc_def plain_machine_def)
  have "sm_transition d m prev (pStateDescs d ! i) v =
      Some (sm_update m (\<lambda>sm. sm\<lparr>sm_executionCount := 0, sm_prevState := sm_state sm\<rparr>) v)" for prev v
  proof (cases "IsValidState d prev")
    case True
    with last [OF True] show ?thesis by (auto simp: sm_transition_def call_opt_def cur)
  qed (simp add: sm_transition_def call_opt_def cur)
  then show ?thesis
    using m st h cur by (cases "h m (sm_prepare m w)")
      (auto simp: RunStateMachine_def sm_prepare_def sm_conclude_def call_opt_def GetTime_eq Let_def split: if_splits)
qed

lemma plain_state_machine:
  fixes d :: "'a sm_world_scheme MachineDesc"
  assumes d: "plain_machine d"
    and range: "\<And>w. I w \<Longrightarrow> m < length (machines w) \<and> 0 \<le> sm_state (machines w ! m)
      \<and> sm_state (machines w ! m) < int (length (pStateDescs d))"
    and clock: "\<And>w n. I w \<Longrightarrow> I (w\<lparr>time_reads := n\<rparr>)"
    and book: "\<And>w f. I w \<Longrightarrow> (\<And>sm. sm_state (f sm) = sm_state sm) \<Longrightarrow> I (sm_update m f w)"
    and handler: "\<And>i h w. i < length (pStateDescs d) \<Longrightarrow> state_handler (pStateDescs d ! i) = Some h \<Longrightarrow> I w \<Longrightarrow>
      sm_state (machines w ! m) = int i \<Longrightarrow> \<exists>w'. h m w = Some w' \<and> I w'"
  shows "state_machine d m I"
  by unfold_locales (use assms in \<open>auto simp: plain_machine_def\<close>)

text \<open>The bookkeeping neither moves the machine nor touches anything else but the clock.\<close>

lemma sm_prepare_simps [simp]:
  "length (machines (sm_prepare m w)) = length (machines w)"
  "m < length (machines w) \<Longrightarrow> sm_state (machines (sm_prepare m w) ! m) = sm_state (machines w ! m)"
  "m < length (machines w) \<Longrightarrow> sm_startTime (machines (sm_prepare m w) ! m) =
     (if sm_startTime (machines w ! m) = 0 then read_at w 0 else sm_startTime (machines w ! m))"
  "k \<noteq> m \<Longrightarrow> machines (sm_prepare m w) ! k = machines w ! k"
  "read_at (sm_prepare m w) k = read_at w (Suc k)"
  "ipi_data.truncate (sm_prepare m w) = ipi_data.truncate w"
  by (auto simp: sm_prepare_def sm_begin_def sm_update_def skip_reads_def read_at_def ipi_data.defs Let_def)

lemma sm_conclude_simps [simp]:
  "length (machines (sm_conclude m t w)) = length (machines w)"
  "m < length (machines w) \<Longrightarrow> sm_state (machines (sm_conclude m t w) ! m) = sm_state (machines w ! m)"
  "m < length (machines w) \<Longrightarrow> sm_startTime (machines (sm_conclude m t w) ! m) = sm_startTime (machines w ! m)"
  "k \<noteq> m \<Longrightarrow> machines (sm_conclude m t w) ! k = machines w ! k"
  "ipi_data.truncate (sm_conclude m t w) = ipi_data.truncate w"
  by (auto simp: sm_conclude_def sm_finish_def sm_update_def skip_reads_def ipi_data.defs Let_def)

lemma set_state_simps [simp]:
  "length (machines (set_state m st w)) = length (machines w)"
  "m < length (machines w) \<Longrightarrow> sm_state (machines (set_state m st w) ! m) = st"
  "m < length (machines w) \<Longrightarrow> sm_startTime (machines (set_state m st w) ! m) = sm_startTime (machines w ! m)"
  "k \<noteq> m \<Longrightarrow> machines (set_state m st w) ! k = machines w ! k"
  "read_at (set_state m st w) n = read_at w n"
  "ipi_data.truncate (set_state m st w) = ipi_data.truncate w"
  by (auto simp: set_state_def sm_update_def read_at_def ipi_data.defs)

lemma truncate_bus:
  assumes "ipi_data.truncate w' = ipi_data.truncate w"
  shows "ipi_wf w' = ipi_wf w" "mailbox_of a b w' = mailbox_of a b w" "ipi_queues w' = ipi_queues w"
    "HSS_Trigger_IsNotified b' e w' = HSS_Trigger_IsNotified b' e w" 
  using assms by (cases e; simp add: ipi_data.defs ipi_wf_def mailbox_of_def)+

lemma IPI_Send_machines: "IPI_Send me t msg txid imm ext anc w = Some (b, w') \<Longrightarrow>
    machines w' = machines (w :: 'a sm_world_scheme) \<and> read_at w' k = read_at w k"
  using IPI_Send_more [of me t msg txid imm ext anc w b w'] by (cases w; cases w') (simp add: read_at_def)

lemma skip_reads_simps [simp]:
  "machines (skip_reads n w) = machines w"
  "ipi_data.truncate (skip_reads n w) = ipi_data.truncate w"
  by (simp_all add: skip_reads_def ipi_data.defs)

lemma sm_update_truncate [simp]: "ipi_data.truncate (sm_update m f w) = ipi_data.truncate w"
  by (simp add: sm_update_def ipi_data.defs)

end
