(* ===== verification/HSS_Pmp.thy ===== *)
theory HSS_Pmp
  imports HSS_StateMachine
begin

text \<open>
  The monitor's view of the physical memory protection of the application harts,
  services/boot/hss_boot_pmp.c: the permission checks the boot service makes before it
  writes to memory on behalf of a hart, and the decoder of the PMP registers.  Addresses
  are \<^verbatim>\<open>ptrdiff_t\<close> there: 64-bit words compared as signed numbers.
\<close>

subsection \<open>Data\<close>

datatype AddressMatchingMode =
    AddressMatchingMode_NULL_REGION
  | AddressMatchingMode_TOR
  | AddressMatchingMode_NA4
  | AddressMatchingMode_NAPOT

record PmpEntry =
  pe_baseAddr :: u64
  pe_size :: u64
  pe_A :: AddressMatchingMode
  pe_R :: bool
  pe_W :: bool
  pe_X :: bool
  pe_L :: bool

abbreviation (input) PMP_READ :: u8 where "PMP_READ \<equiv> 1"
abbreviation (input) PMP_WRITE :: u8 where "PMP_WRITE \<equiv> 2"
abbreviation (input) PMP_EXEC :: u8 where "PMP_EXEC \<equiv> 4"
abbreviation (input) PMP_LOCK :: u8 where "PMP_LOCK \<equiv> 0x80"
abbreviation (input) MAX_NUM_PMPS :: nat where "MAX_NUM_PMPS \<equiv> 16"
abbreviation (input) XLEN :: u64 where "XLEN \<equiv> 64"

text \<open>The static table: five harts, sixteen entries each, zero at reset.\<close>

record pmp_world = sm_world +
  pmpEntry :: "PmpEntry list list"

definition zero_PmpEntry :: PmpEntry where
  "zero_PmpEntry = \<lparr> pe_baseAddr = 0, pe_size = 0, pe_A = AddressMatchingMode_NULL_REGION,
     pe_R = False, pe_W = False, pe_X = False, pe_L = False \<rparr>"

definition pmpEntry_reset :: "PmpEntry list list" where
  "pmpEntry_reset = replicate HSS_HART_NUM_PEERS (replicate MAX_NUM_PMPS zero_PmpEntry)"

subsection \<open>Initialisation and checks\<close>

text \<open>The decoding inside the two loops of \<^verbatim>\<open>HSS_PMP_Init\<close> is compiled out (\<^verbatim>\<open>#if 0\<close>).\<close>

definition HSS_PMP_Init :: "'a pmp_world_scheme \<Rightarrow> bool \<times> 'a pmp_world_scheme" where
  "HSS_PMP_Init w = (True, w)"

definition region_in_entry :: "u64 \<Rightarrow> u64 \<Rightarrow> PmpEntry \<Rightarrow> bool" where
  "region_in_entry regionStartAddr regionEndAddr e =
     (let pmpStartAddr = pe_baseAddr e; pmpEndAddr = pmpStartAddr + pe_size e in
      word_sle pmpStartAddr regionStartAddr \<and> word_sless regionEndAddr pmpEndAddr)"

fun pmp_scan :: "(PmpEntry \<Rightarrow> bool) \<Rightarrow> u64 \<Rightarrow> u64 \<Rightarrow> bool \<Rightarrow> PmpEntry list \<Rightarrow> bool" where
  "pmp_scan perm st en result [] = result"
| "pmp_scan perm st en result (e # es) =
     (if pe_A e = AddressMatchingMode_NULL_REGION then pmp_scan perm st en result es
      else if region_in_entry st en e then perm e
      else pmp_scan perm st en result es)"

definition HSS_PMP_CheckWrite :: "hart \<Rightarrow> u64 \<Rightarrow> u64 \<Rightarrow> 'a pmp_world_scheme \<Rightarrow> bool option" where
  "HSS_PMP_CheckWrite target regionStartAddr len w = do {
     es \<leftarrow> nth_opt (pmpEntry w) target;
     Some (pmp_scan pe_W regionStartAddr (regionStartAddr + len) True es)
   }"

definition HSS_PMP_CheckRead :: "hart \<Rightarrow> u64 \<Rightarrow> u64 \<Rightarrow> 'a pmp_world_scheme \<Rightarrow> bool option" where
  "HSS_PMP_CheckRead target regionStartAddr len w = do {
     es \<leftarrow> nth_opt (pmpEntry w) target;
     Some (pmp_scan pe_R regionStartAddr (regionStartAddr + len) False es)
   }"

subsection \<open>The register decoder\<close>

lemma unat_drop_bit_1_less: "(x :: u64) \<noteq> 0 \<Longrightarrow> unat (drop_bit 1 x) < unat x"
proof -
  assume "x \<noteq> 0"
  then have "0 < unat x" by (simp add: unat_gt_0)
  moreover have "unat (drop_bit 1 x) = unat x div 2" by (subst unat_drop_bit_eq) (simp add: drop_bit_Suc)
  ultimately show ?thesis by simp
qed

text \<open>
  \<^verbatim>\<open>while (mask)\<close> of the NAPOT size decoder; the result is the range and the final value
  of \<^verbatim>\<open>*pMask\<close>, which is left alone when no mask matches.
\<close>

function napot_loop :: "u64 \<Rightarrow> u64 \<Rightarrow> u64 \<Rightarrow> u64 \<Rightarrow> u64 \<times> u64" where
  "napot_loop addrVal pMask msk result =
     (if msk = 0 then (result, pMask)
      else if addrVal AND msk = msk then (result, msk)
      else napot_loop addrVal pMask (drop_bit 1 msk) (result - 1))"
  by auto

termination
  by (relation "measure (\<lambda>(_, _, msk, _). unat msk)") (auto simp: unat_drop_bit_1_less simp del: One_nat_def)

declare napot_loop.simps [simp del]

definition pmp_decode_napot_size_encoding :: "u64 \<Rightarrow> u64 \<Rightarrow> u64 \<times> u64" where
  "pmp_decode_napot_size_encoding addrVal pMask = napot_loop addrVal pMask (drop_bit 1 (0 - 1)) (XLEN + 2)"

definition matching_mode :: "u8 \<Rightarrow> AddressMatchingMode" where
  "matching_mode configVal =
     (let a = drop_bit 3 (configVal AND 0x18) in
      if a = 0 then AddressMatchingMode_NULL_REGION
      else if a = 1 then AddressMatchingMode_TOR
      else if a = 2 then AddressMatchingMode_NA4
      else AddressMatchingMode_NAPOT)"

definition pmp_decode :: "PmpEntry \<Rightarrow> PmpEntry option \<Rightarrow> u8 \<Rightarrow> u64 \<Rightarrow> PmpEntry option" where
  "pmp_decode e0 prev configVal addrVal =
     (let a = matching_mode configVal;
          e1 = e0\<lparr>pe_A := a\<rparr>;
          e = (if a \<noteq> AddressMatchingMode_NULL_REGION
               then e1\<lparr>pe_R := configVal AND PMP_READ \<noteq> 0, pe_W := configVal AND PMP_WRITE \<noteq> 0,
                       pe_X := configVal AND PMP_EXEC \<noteq> 0, pe_L := configVal AND PMP_LOCK \<noteq> 0\<rparr>
               else e1)
      in case a of
           AddressMatchingMode_NULL_REGION \<Rightarrow> Some e
         | AddressMatchingMode_TOR \<Rightarrow>
             (case prev of
                None \<Rightarrow> None
              | Some p \<Rightarrow> let base = pe_baseAddr p + pe_size p in
                  Some (e\<lparr>pe_baseAddr := base, pe_size := push_bit 2 addrVal - base\<rparr>))
         | AddressMatchingMode_NA4 \<Rightarrow> Some (e\<lparr>pe_baseAddr := push_bit 2 addrVal, pe_size := 4\<rparr>)
         | AddressMatchingMode_NAPOT \<Rightarrow>
             (case pmp_decode_napot_size_encoding addrVal 0 of (rng, msk) \<Rightarrow>
                Some (e\<lparr>pe_baseAddr := push_bit 2 (addrVal AND NOT msk), pe_size := push_bit (unat rng) 1\<rparr>)))"

text \<open>The CSRs are read through oracles indexed by register number.\<close>

definition pmp_getConfigVal :: "(nat \<Rightarrow> u64) \<Rightarrow> nat \<Rightarrow> u8" where
  "pmp_getConfigVal pmpcfg index =
     (let result = (if index < 8 then pmpcfg 0 else if index < 16 then pmpcfg 1 else 0);
          result = (if index < 8 then drop_bit (index * 8) result
                    else if index < 15 then drop_bit ((index - 8) * 8) result
                    else result)
      in ucast (result AND 0xFF))"

definition pmp_getAddrVal :: "(nat \<Rightarrow> u64) \<Rightarrow> nat \<Rightarrow> u64" where
  "pmp_getAddrVal pmpaddr index = (if index < 16 then pmpaddr index else 0)"

subsection \<open>Lemmas\<close>

lemma pmp_scan_eq:
  "pmp_scan perm st en r es =
    (case find_index (\<lambda>e. pe_A e \<noteq> AddressMatchingMode_NULL_REGION \<and> region_in_entry st en e) es of
       None \<Rightarrow> r | Some i \<Rightarrow> perm (es ! i))"
  by (induction es) (auto split: option.splits simp del: find_index_None)

text \<open>
  The write check is first-match: it answers with the write bit of the first active
  entry of the hart whose region strictly contains the access, and allows the write when
  there is none (a read is refused then); a hart without a table entry is out of bounds.
\<close>

theorem HSS_PMP_Check_first_match:
  "(case HSS_PMP_CheckWrite h st len w of None \<Rightarrow> length (pmpEntry w) \<le> h
    | Some ok \<Rightarrow> h < length (pmpEntry w) \<and>
        ok = (case find_index (\<lambda>e. pe_A e \<noteq> AddressMatchingMode_NULL_REGION \<and> region_in_entry st (st + len) e)
                (pmpEntry w ! h) of None \<Rightarrow> True | Some i \<Rightarrow> pe_W (pmpEntry w ! h ! i)))
   \<and> (case HSS_PMP_CheckRead h st len w of None \<Rightarrow> length (pmpEntry w) \<le> h
    | Some ok \<Rightarrow> h < length (pmpEntry w) \<and>
        ok = (case find_index (\<lambda>e. pe_A e \<noteq> AddressMatchingMode_NULL_REGION \<and> region_in_entry st (st + len) e)
                (pmpEntry w ! h) of None \<Rightarrow> False | Some i \<Rightarrow> pe_R (pmpEntry w ! h ! i)))"
  by (auto simp: HSS_PMP_CheckWrite_def HSS_PMP_CheckRead_def pmp_scan_eq nth_opt_def)

lemma pmp_scan_inactive: "pmp_scan perm st en r (replicate n zero_PmpEntry) = r"
  by (induction n) (simp_all add: zero_PmpEntry_def)

text \<open>
  Initialisation decodes nothing, so after it every write to any address is allowed
  for every hart, and every read is refused.
\<close>

theorem HSS_PMP_Init_allows_all_writes:
  "\<forall>h<5. HSS_PMP_CheckWrite h st len (snd (HSS_PMP_Init (w\<lparr>pmpEntry := pmpEntry_reset\<rparr>))) = Some True
     \<and> HSS_PMP_CheckRead h st len (snd (HSS_PMP_Init (w\<lparr>pmpEntry := pmpEntry_reset\<rparr>))) = Some False"
  by (simp add: HSS_PMP_CheckWrite_def HSS_PMP_CheckRead_def HSS_PMP_Init_def pmpEntry_reset_def
      pmp_scan_inactive nth_opt_def)

theorem HSS_PMP_Init_allows_all_writes_witness:
  "\<forall>w :: pmp_world. HSS_PMP_CheckWrite 4 0x80000000 0x1000 (snd (HSS_PMP_Init (w\<lparr>pmpEntry := pmpEntry_reset\<rparr>))) = Some True"
proof
  fix w :: pmp_world
  show "HSS_PMP_CheckWrite 4 0x80000000 0x1000 (snd (HSS_PMP_Init (w\<lparr>pmpEntry := pmpEntry_reset\<rparr>))) = Some True"
    using HSS_PMP_Init_allows_all_writes [of "0x80000000" "0x1000" w] by simp
qed


lemma and_mask_eq_iff: "(a :: u64) AND mask j = mask j \<longleftrightarrow> (\<forall>i<j. i < 64 \<longrightarrow> bit a i)"
  by (auto simp: bit_eq_iff bit_simps)

lemma drop_mask: "drop_bit 1 (mask (Suc j) :: u64) = mask j" if "Suc j \<le> 64"
  using that by (intro bit_word_eqI) (auto simp: bit_simps)

lemma mask_nonzero: "(mask j :: u64) = 0 \<longleftrightarrow> j = 0"
proof
  assume "(mask j :: u64) = 0"
  then have "\<not> bit (mask j :: u64) 0" by simp
  then show "j = 0" unfolding bit_mask_iff by simp
qed simp

lemma napot_loop_at:
  assumes "\<forall>i<k. bit addr i" "\<not> bit addr k" "k \<le> j" "j \<le> 63"
  shows "napot_loop addr 0 (mask j) r = (r - of_nat (j - k), mask k)"
  using assms(3,4)
proof (induction j arbitrary: r)
  case 0
  then show ?case by (simp add: napot_loop.simps)
next
  case (Suc j)
  show ?case
  proof (cases "k = Suc j")
    case True
    then have "addr AND mask (Suc j) = mask (Suc j)" using assms(1) by (auto simp: and_mask_eq_iff)
    then show ?thesis using True by (subst napot_loop.simps) (simp add: mask_nonzero)
  next
    case False
    then have le: "k \<le> j" using Suc.prems by simp
    have "addr AND mask (Suc j) \<noteq> mask (Suc j)"
      using assms(2) le Suc.prems by (auto simp: and_mask_eq_iff intro!: exI [of _ k])
    then have "napot_loop addr 0 (mask (Suc j)) r = napot_loop addr 0 (mask j) (r - 1)"
      using Suc.prems by (subst napot_loop.simps) (simp add: mask_nonzero drop_mask del: One_nat_def)
    also have "\<dots> = (r - 1 - of_nat (j - k), mask k)"
      using le Suc.prems by (intro Suc.IH) auto
    also have "r - 1 - of_nat (j - k) = r - of_nat (Suc j - k)"
      using le by (simp add: Suc_diff_le)
    finally show ?thesis .
  qed
qed

text \<open>
  C29.  The NAPOT decoder implements the RISC-V encoding: an address register with exactly
  \<open>k\<close> trailing one bits denotes the naturally aligned region of \<open>2 ^ (k + 3)\<close> bytes whose
  base is the register with those bits cleared, shifted left by two.
\<close>

theorem pmp_decode_napot:
  assumes ones: "\<forall>i<k. bit addr i" and zero: "\<not> bit addr k" and k: "k \<le> 60"
    and cfg: "matching_mode cfg = AddressMatchingMode_NAPOT"
  shows "\<exists>e. pmp_decode e0 prev cfg addr = Some e \<and> pe_A e = AddressMatchingMode_NAPOT
    \<and> unat (pe_size e) = 2 ^ (k + 3) \<and> pe_baseAddr e = push_bit 2 (addr AND NOT (mask k))
    \<and> (pe_R e \<longleftrightarrow> bit cfg 0) \<and> (pe_W e \<longleftrightarrow> bit cfg 1) \<and> (pe_X e \<longleftrightarrow> bit cfg 2) \<and> (pe_L e \<longleftrightarrow> bit cfg 7)"
proof -
  have "drop_bit 1 (0 - 1) = (mask 63 :: u64)"
    by (intro bit_word_eqI) (auto simp: bit_simps)
  then have d: "pmp_decode_napot_size_encoding addr 0 = (66 - of_nat (63 - k), mask k)"
    unfolding pmp_decode_napot_size_encoding_def using napot_loop_at [OF ones zero, of 63 66] k by simp
  have "(66 :: u64) - of_nat (63 - k) = of_nat (k + 3)"
    using k by (simp add: of_nat_diff)
  moreover have "unat (of_nat (k + 3) :: u64) = k + 3"
    using k by (subst unsigned_of_nat) (simp add: take_bit_nat_eq_self)
  ultimately have r: "unat ((66 :: u64) - of_nat (63 - k)) = k + 3" by (simp only:)
  have s: "unat (push_bit (k + 3) 1 :: u64) = 2 ^ (k + 3)"
  proof -
    have "(2::nat) ^ (k + 3) < 2 ^ 64" using k by (intro power_strict_increasing) auto
    then show ?thesis using k
      by (subst unsigned_push_bit_eq) (simp_all add: take_bit_nat_eq_self push_bit_eq_mult)
  qed
  have bits: "(cfg AND 1 \<noteq> 0) = bit cfg 0" "(cfg AND 2 \<noteq> 0) = bit cfg 1" "(cfg AND 4 \<noteq> 0) = bit cfg 2"
    "(cfg AND 0x80 \<noteq> 0) = bit cfg 7"
    using and_exp_eq_0_iff_not_bit [of cfg 0] and_exp_eq_0_iff_not_bit [of cfg 1]
      and_exp_eq_0_iff_not_bit [of cfg 2] and_exp_eq_0_iff_not_bit [of cfg 7] by auto
  show ?thesis
    by (simp add: pmp_decode_def Let_def cfg d r s [unfolded push_bit_of_1] bits)
qed

theorem pmp_decode_napot_witness:
  "\<exists>e. pmp_decode zero_PmpEntry None 0x9F 0x200000FF = Some e \<and> unat (pe_size e) = 2 ^ 11"
proof -
  have "\<forall>i<8. bit (0x200000FF :: u64) i" by (auto simp: less_Suc_eq numeral_eq_Suc)
  moreover have "\<not> bit (0x200000FF :: u64) 8" by simp
  moreover have "matching_mode 0x9F = AddressMatchingMode_NAPOT" by (simp add: matching_mode_def Let_def)
  ultimately show ?thesis
    using pmp_decode_napot [of 8 "0x200000FF" "0x9F" zero_PmpEntry None] by auto
qed

text \<open>
  \<^verbatim>\<open>pmp_getConfigVal\<close> picks byte \<open>index mod 8\<close> of the register that holds it for the
  first fifteen entries, and for the last one byte 0 instead of byte 7, entry 8's
  configuration.
\<close>

theorem pmp_getConfigVal_bytes:
  "(\<forall>i<15. pmp_getConfigVal pmpcfg i = ucast (drop_bit (8 * (i mod 8)) (pmpcfg (i div 8)) AND 0xFF))
   \<and> pmp_getConfigVal pmpcfg 15 = pmp_getConfigVal pmpcfg 8"
proof -
  have "pmp_getConfigVal pmpcfg i = ucast (drop_bit (8 * (i mod 8)) (pmpcfg (i div 8)) AND 0xFF)" if "i < 15" for i
  proof (cases "i < 8")
    case True
    then show ?thesis by (simp add: pmp_getConfigVal_def mult.commute)
  next
    case False
    then have "i div 8 = 1" "i mod 8 = i - 8" using that by (auto simp: div_if mod_if)
    then show ?thesis using False that by (simp add: pmp_getConfigVal_def mult.commute)
  qed
  moreover have "pmp_getConfigVal pmpcfg 15 = pmp_getConfigVal pmpcfg 8"
    by (simp add: pmp_getConfigVal_def)
  ultimately show ?thesis by blast
qed

theorem pmp_getConfigVal_bytes_witness:
  "pmp_getConfigVal (\<lambda>r. if r = 0 then 0x1F9F else 0) 1 = 0x1F"
  using pmp_getConfigVal_bytes [of "\<lambda>r. if r = 0 then 0x1F9F else 0"] by simp

end
