(* ===== verification/HSS_Domains.thy ===== *)
theory HSS_Domains
  imports HSS_Pmp
begin

text \<open>
  The domain ledger of services/opensbi/platform.c: which hart owns which, whether it has
  still to boot, and what its domain is allowed to do.  The boot service writes it, the
  OpenSBI platform callbacks and the reboot and watchdog services read it.

  Hart numbers are \<^verbatim>\<open>int\<close> in the code and natural numbers here (no caller passes a
  negative one); a number outside the tables is a failed assertion or an access outside
  the array.  \<open>hart_index2id\<close> holds \<open>None\<close> for the value \<open>-1\<close>.
\<close>

subsection \<open>Data\<close>

record hart_ledger_entry =
  hl_name :: "u8 list"
  hl_next_addr :: u64
  hl_next_arg1 :: u64
  hl_hartMask :: u32
  hl_next_mode :: u32
  hl_owner_hartid :: hart
  hl_boot_pending :: nat
  hl_reset_type :: u32
  hl_reset_reason :: u32
  hl_allow_cold_reboot :: bool
  hl_allow_warm_reboot :: bool

record dom_world = pmp_world +
  hart_ledger :: "hart_ledger_entry list"
  mpfs_hart_index2id :: "hart option list"
  coldboot_lottery :: bool

definition zero_ledger_entry :: hart_ledger_entry where
  "zero_ledger_entry = \<lparr> hl_name = replicate 64 0, hl_next_addr = 0, hl_next_arg1 = 0, hl_hartMask = 0,
     hl_next_mode = 0, hl_owner_hartid = 0, hl_boot_pending = 0, hl_reset_type = 0, hl_reset_reason = 0,
     hl_allow_cold_reboot = False, hl_allow_warm_reboot = False \<rparr>"

definition hart_ledger_reset :: "hart_ledger_entry list" where
  "hart_ledger_reset = replicate MAX_NUM_HARTS zero_ledger_entry"

definition mpfs_hart_index2id_reset :: "hart option list" where
  "mpfs_hart_index2id_reset = [None, Some 1, Some 2, Some 3, Some 4]"

definition ledger_update ::
    "hart \<Rightarrow> (hart_ledger_entry \<Rightarrow> hart_ledger_entry) \<Rightarrow> 'a dom_world_scheme \<Rightarrow> 'a dom_world_scheme option" where
  "ledger_update h f w =
     (if h < length (hart_ledger w)
      then Some (w\<lparr>hart_ledger := (hart_ledger w)[h := f (hart_ledger w ! h)]\<rparr>) else None)"

subsection \<open>Operations\<close>

definition mpfs_domains_register_hart :: "hart \<Rightarrow> hart \<Rightarrow> 'a dom_world_scheme \<Rightarrow> 'a dom_world_scheme option" where
  "mpfs_domains_register_hart hartid boot_hartid w = ledger_update hartid
     (\<lambda>e. e\<lparr>hl_owner_hartid := boot_hartid, hl_boot_pending := 1, hl_reset_reason := 0, hl_reset_type := 0\<rparr>) w"

definition mpfs_domains_deregister_hart :: "hart \<Rightarrow> 'a dom_world_scheme \<Rightarrow> 'a dom_world_scheme option" where
  "mpfs_domains_deregister_hart hartid w = do {
     w1 \<leftarrow> ledger_update hartid (\<lambda>e. e\<lparr>hl_owner_hartid := 0, hl_boot_pending := 0\<rparr>) w;
     assert_c (hartid > 0 \<and> hartid < length (mpfs_hart_index2id w1));
     Some (w1\<lparr>mpfs_hart_index2id := (mpfs_hart_index2id w1)[hartid := None]\<rparr>)
   }"

definition mpfs_is_hart_using_opensbi :: "hart \<Rightarrow> 'a dom_world_scheme \<Rightarrow> bool option" where
  "mpfs_is_hart_using_opensbi hartid w = do {
     assert_c (hartid > 0 \<and> hartid < length (mpfs_hart_index2id w));
     Some (mpfs_hart_index2id w ! hartid \<noteq> None)
   }"

definition mpfs_mark_hart_as_booted :: "hart \<Rightarrow> 'a dom_world_scheme \<Rightarrow> 'a dom_world_scheme option" where
  "mpfs_mark_hart_as_booted hartid w = do {
     assert_c (hartid < length (hart_ledger w));
     ledger_update hartid (\<lambda>e. e\<lparr>hl_boot_pending := 0\<rparr>) w
   }"

definition mpfs_are_harts_in_same_domain :: "hart \<Rightarrow> hart \<Rightarrow> 'a dom_world_scheme \<Rightarrow> bool option" where
  "mpfs_are_harts_in_same_domain hartid1 hartid2 w = do {
     e1 \<leftarrow> nth_opt (hart_ledger w) hartid1;
     e2 \<leftarrow> nth_opt (hart_ledger w) hartid2;
     Some (hl_owner_hartid e1 = hl_owner_hartid e2)
   }"

definition mpfs_is_cold_reboot_allowed :: "hart \<Rightarrow> 'a dom_world_scheme \<Rightarrow> bool option" where
  "mpfs_is_cold_reboot_allowed hartid w = map_option hl_allow_cold_reboot (nth_opt (hart_ledger w) hartid)"

definition mpfs_is_warm_reboot_allowed :: "hart \<Rightarrow> 'a dom_world_scheme \<Rightarrow> bool option" where
  "mpfs_is_warm_reboot_allowed hartid w = map_option hl_allow_warm_reboot (nth_opt (hart_ledger w) hartid)"

definition mpfs_is_last_hart_ready :: "'a dom_world_scheme \<Rightarrow> bool" where
  "mpfs_is_last_hart_ready w = (sum_list (map hl_boot_pending (hart_ledger w)) = 0)"

text \<open>\<^verbatim>\<open>memcpy\<close> of 63 bytes into the 64-byte name: the last byte keeps what it was.\<close>

definition mpfs_domains_register_boot_hart ::
    "u8 list \<Rightarrow> u32 \<Rightarrow> hart \<Rightarrow> u32 \<Rightarrow> u64 \<Rightarrow> u64 \<Rightarrow> bool \<Rightarrow> bool \<Rightarrow> 'a dom_world_scheme \<Rightarrow> 'a dom_world_scheme option" where
  "mpfs_domains_register_boot_hart pName hartMask boot_hartid privMode entryPoint pArg1 allow_cold allow_warm w = do {
     e0 \<leftarrow> nth_opt (hart_ledger w) boot_hartid;
     assert_c (hl_owner_hartid e0 = boot_hartid);
     ledger_update boot_hartid (\<lambda>e. e\<lparr>hl_name := take 63 pName @ drop 63 (hl_name e),
       hl_next_addr := entryPoint, hl_next_arg1 := pArg1, hl_hartMask := hartMask, hl_next_mode := privMode,
       hl_allow_cold_reboot := allow_cold, hl_allow_warm_reboot := allow_warm\<rparr>) w
   }"

abbreviation (input) SBI_SRST_RESET_TYPE_SHUTDOWN :: u32 where "SBI_SRST_RESET_TYPE_SHUTDOWN \<equiv> 0"
abbreviation (input) SBI_SRST_RESET_TYPE_COLD_REBOOT :: u32 where "SBI_SRST_RESET_TYPE_COLD_REBOOT \<equiv> 1"
abbreviation (input) SBI_SRST_RESET_TYPE_WARM_REBOOT :: u32 where "SBI_SRST_RESET_TYPE_WARM_REBOOT \<equiv> 2"

definition mpfs_system_reset_check :: "u32 \<Rightarrow> u32 \<Rightarrow> int" where
  "mpfs_system_reset_check reset_type reset_reason =
     (if reset_type \<in> {SBI_SRST_RESET_TYPE_SHUTDOWN, SBI_SRST_RESET_TYPE_COLD_REBOOT, SBI_SRST_RESET_TYPE_WARM_REBOOT}
      then 1 else 0)"

text \<open>The state \<^verbatim>\<open>mpfs_system_reset\<close> leaves behind when it enters \<^verbatim>\<open>sbi_exit\<close>, from which it does not return.\<close>

definition mpfs_system_reset :: "hart \<Rightarrow> u32 \<Rightarrow> u32 \<Rightarrow> 'a dom_world_scheme \<Rightarrow> 'a dom_world_scheme option" where
  "mpfs_system_reset me reset_type reset_reason w = ledger_update me
     (\<lambda>e. e\<lparr>hl_boot_pending := 1, hl_reset_reason := reset_reason, hl_reset_type := reset_type\<rparr>) w"

text \<open>\<^verbatim>\<open>atomic_xchg(&coldboot_lottery, 1)\<close>: the first caller wins.\<close>

definition mpfs_is_first_boot :: "'a dom_world_scheme \<Rightarrow> bool \<times> 'a dom_world_scheme" where
  "mpfs_is_first_boot w = (\<not> coldboot_lottery w, w\<lparr>coldboot_lottery := True\<rparr>)"

text \<open>
  What \<^verbatim>\<open>mpfs_hart_stop\<close> does before it jumps to the reset vector, for the hart that owns
  its domain; \<open>cold\<close> says that cold reboots are compiled in, \<open>always\<close> and \<open>service\<close> are the
  other two options it tests.  A hart that owns nothing restarts directly.
\<close>

datatype stop_action = Stop_only | Cold_reboot_then_OpenSBI_reboot | OpenSBI_reboot

definition mpfs_hart_stop :: "bool \<Rightarrow> bool \<Rightarrow> bool \<Rightarrow> hart \<Rightarrow> 'a dom_world_scheme \<Rightarrow> stop_action option" where
  "mpfs_hart_stop cold always service me w = do {
     e \<leftarrow> nth_opt (hart_ledger w) me;
     Some (if hl_owner_hartid e \<noteq> me \<or> hl_reset_type e = SBI_SRST_RESET_TYPE_SHUTDOWN then Stop_only
           else if cold \<and> hl_reset_type e = SBI_SRST_RESET_TYPE_COLD_REBOOT
                \<and> (always \<or> hl_allow_cold_reboot e) \<and> service
           then Cold_reboot_then_OpenSBI_reboot
           else OpenSBI_reboot)
   }"

subsection \<open>Domain registration with OpenSBI\<close>

record sbi_domain =
  dom_index :: u32
  dom_boot_hartid :: hart
  dom_name :: "u8 list"
  dom_region_order :: u64
  dom_region_base :: u64
  dom_next_arg1 :: u64
  dom_next_addr :: u64
  dom_next_mode :: u32
  dom_system_reset_allowed :: bool
  dom_possible_harts :: u32

abbreviation (input) SBI_EINVAL :: int where "SBI_EINVAL \<equiv> -3"

text \<open>
  \<open>sbi_domain_register\<close> is OpenSBI's: given the domain and its hart mask it returns an error
  code and the domain with its index set; \<open>log2roundup\<close> is OpenSBI's too.  The domain's
  name array holds 64 bytes, of which 63 are copied.
\<close>

definition fill_domain ::
    "(u64 \<Rightarrow> nat) \<Rightarrow> u64 \<Rightarrow> u64 \<Rightarrow> hart_ledger_entry \<Rightarrow> hart \<Rightarrow> sbi_domain \<Rightarrow> sbi_domain" where
  "fill_domain log2roundup fw_start fw_size e boot_hartid d =
     (let order = log2roundup fw_size in
      d\<lparr>dom_boot_hartid := boot_hartid, dom_name := take 63 (hl_name e) @ drop 63 (dom_name d),
        dom_region_order := of_nat order, dom_region_base := fw_start AND NOT (push_bit order 1 - 1),
        dom_next_arg1 := hl_next_arg1 e, dom_next_addr := hl_next_addr e, dom_next_mode := hl_next_mode e,
        dom_system_reset_allowed := True, dom_possible_harts := hl_hartMask e\<rparr>)"

fun domains_init_from ::
    "(u64 \<Rightarrow> nat) \<Rightarrow> (sbi_domain \<Rightarrow> u32 \<Rightarrow> int \<times> sbi_domain) \<Rightarrow> u64 \<Rightarrow> u64 \<Rightarrow> hart_ledger_entry list
      \<Rightarrow> hart_ledger_entry list \<Rightarrow> int \<Rightarrow> sbi_domain list \<Rightarrow> (int \<times> sbi_domain list) option" where
  "domains_init_from l2 reg fw_start fw_size ledger [] result doms = Some (result, doms)"
| "domains_init_from l2 reg fw_start fw_size ledger (e # es) result doms =
     (let b = hl_owner_hartid e in
      if b = 0 then domains_init_from l2 reg fw_start fw_size ledger es result doms
      else do {
        d \<leftarrow> nth_opt doms b;
        if dom_index d = 0 then do {
          le \<leftarrow> nth_opt ledger b;
          let (rc, d') = reg (fill_domain l2 fw_start fw_size le b d) (hl_hartMask le);
          if rc \<noteq> 0 then Some (rc, doms[b := d'])
          else domains_init_from l2 reg fw_start fw_size ledger es rc (doms[b := d'])
        }
        else domains_init_from l2 reg fw_start fw_size ledger es result doms
      })"

definition mpfs_domains_init ::
    "(u64 \<Rightarrow> nat) \<Rightarrow> (sbi_domain \<Rightarrow> u32 \<Rightarrow> int \<times> sbi_domain) \<Rightarrow> u64 \<Rightarrow> u64 \<Rightarrow> sbi_domain list
      \<Rightarrow> 'a dom_world_scheme \<Rightarrow> (int \<times> sbi_domain list) option" where
  "mpfs_domains_init log2roundup sbi_domain_register fw_start fw_size dom_table w =
     domains_init_from log2roundup sbi_domain_register fw_start fw_size (hart_ledger w)
       (tl (hart_ledger w)) SBI_EINVAL dom_table"

subsection \<open>Lemmas\<close>

definition ledger_wf :: "'a dom_world_scheme \<Rightarrow> bool" where
  "ledger_wf w \<longleftrightarrow> length (hart_ledger w) = 5 \<and> length (mpfs_hart_index2id w) = 5"

lemma ledger_update_Some:
  "ledger_wf w \<Longrightarrow> h < 5 \<Longrightarrow>
     ledger_update h f w = Some (w\<lparr>hart_ledger := (hart_ledger w)[h := f (hart_ledger w ! h)]\<rparr>)"
  by (simp add: ledger_update_def ledger_wf_def)

text \<open>A run of ledger operations as the boot path issues them.\<close>

datatype ledger_op =
    Register hart hart
  | Deregister hart
  | Booted hart
  | Reset hart u32 u32

fun ledger_step :: "ledger_op \<Rightarrow> 'a dom_world_scheme \<Rightarrow> 'a dom_world_scheme option" where
  "ledger_step (Register h b) w = mpfs_domains_register_hart h b w"
| "ledger_step (Deregister h) w = mpfs_domains_deregister_hart h w"
| "ledger_step (Booted h) w = mpfs_mark_hart_as_booted h w"
| "ledger_step (Reset h t r) w = mpfs_system_reset h t r w"

fun ledger_run :: "ledger_op list \<Rightarrow> 'a dom_world_scheme \<Rightarrow> 'a dom_world_scheme option" where
  "ledger_run [] w = Some w"
| "ledger_run (x # xs) w = do { w1 \<leftarrow> ledger_step x w; ledger_run xs w1 }"

text \<open>Whether a hart still has to boot, after a run, by the last operation that named it.\<close>

fun pending_after :: "ledger_op list \<Rightarrow> hart \<Rightarrow> nat \<Rightarrow> nat" where
  "pending_after [] h p = p"
| "pending_after (Register k b # xs) h p = pending_after xs h (if k = h then 1 else p)"
| "pending_after (Deregister k # xs) h p = pending_after xs h (if k = h then 0 else p)"
| "pending_after (Booted k # xs) h p = pending_after xs h (if k = h then 0 else p)"
| "pending_after (Reset k t r # xs) h p = pending_after xs h (if k = h then 1 else p)"

lemma ledger_run_pending:
  "ledger_run xs w = Some w' \<Longrightarrow> h < length (hart_ledger w) \<Longrightarrow>
     length (hart_ledger w') = length (hart_ledger w) \<and>
     hl_boot_pending (hart_ledger w' ! h) = pending_after xs h (hl_boot_pending (hart_ledger w ! h))"
proof (induction xs arbitrary: w)
  case Nil
  then show ?case by simp
next
  case (Cons x xs)
  then obtain w1 where w1: "ledger_step x w = Some w1" "ledger_run xs w1 = Some w'"
    by (auto simp: Option.bind_eq_Some_conv)
  have "length (hart_ledger w1) = length (hart_ledger w) \<and>
     hl_boot_pending (hart_ledger w1 ! h) = pending_after [x] h (hl_boot_pending (hart_ledger w ! h))"
    using w1(1) Cons.prems(2)
    by (cases x) (auto simp: mpfs_domains_register_hart_def mpfs_domains_deregister_hart_def
        mpfs_mark_hart_as_booted_def mpfs_system_reset_def ledger_update_def nth_list_update
        Option.bind_eq_Some_conv split: if_splits)
  with Cons.IH [OF w1(2)] Cons.prems(2) show ?case by (cases x) auto
qed

text \<open>
  C28.  The "last hart" test is exact: after any sequence of registrations, deregistrations,
  completed boots and resets from the reset state, \<^verbatim>\<open>mpfs_is_last_hart_ready\<close> holds
  exactly if for every hart the last of these operations that named it was a
  deregistration or a completed boot (or none was).
\<close>

theorem mpfs_is_last_hart_ready_run:
  assumes "ledger_run xs (w\<lparr>hart_ledger := hart_ledger_reset\<rparr>) = Some w'"
  shows "mpfs_is_last_hart_ready w' \<longleftrightarrow> (\<forall>h<5. pending_after xs h 0 = 0)"
proof -
  let ?w = "w\<lparr>hart_ledger := hart_ledger_reset\<rparr>"
  have l: "length (hart_ledger ?w) = 5" by (simp add: hart_ledger_reset_def)
  have z: "hl_boot_pending (hart_ledger ?w ! h) = 0" if "h < 5" for h
    using that by (simp add: hart_ledger_reset_def zero_ledger_entry_def)
  have p: "length (hart_ledger w') = 5 \<and> hl_boot_pending (hart_ledger w' ! h) = pending_after xs h 0" if "h < 5" for h
    using ledger_run_pending [OF assms, of h] that l z by simp
  have "mpfs_is_last_hart_ready w' \<longleftrightarrow> (\<forall>h<length (hart_ledger w'). hl_boot_pending (hart_ledger w' ! h) = 0)"
    by (simp add: mpfs_is_last_hart_ready_def sum_list_eq_0_iff all_set_conv_all_nth)
  also have "\<dots> \<longleftrightarrow> (\<forall>h<5. pending_after xs h 0 = 0)" using p [of 0] p by simp
  finally show ?thesis .
qed

theorem mpfs_is_last_hart_ready_run_witness:
  "\<forall>w :: dom_world. \<exists>w'. ledger_run [Register 1 1, Register 2 1, Booted 2] (w\<lparr>hart_ledger := hart_ledger_reset\<rparr>) = Some w'
     \<and> \<not> mpfs_is_last_hart_ready w'"
proof
  fix w :: dom_world
  have "\<exists>w'. ledger_run [Register 1 1, Register 2 1, Booted 2] (w\<lparr>hart_ledger := hart_ledger_reset\<rparr>) = Some w'"
    by (simp add: mpfs_domains_register_hart_def mpfs_mark_hart_as_booted_def ledger_update_def hart_ledger_reset_def)
  then obtain w' where "ledger_run [Register 1 1, Register 2 1, Booted 2] (w\<lparr>hart_ledger := hart_ledger_reset\<rparr>) = Some w'"
    by blast
  with mpfs_is_last_hart_ready_run [OF this] show "\<exists>w'. ledger_run [Register 1 1, Register 2 1, Booted 2] (w\<lparr>hart_ledger := hart_ledger_reset\<rparr>) = Some w'
     \<and> \<not> mpfs_is_last_hart_ready w'" by (auto intro: exI [of _ 1])
qed

end
