(* ===== verification/HSS_Memory.thy ===== *)
theory HSS_Memory
  imports HSS_Domains
begin

text \<open>
  Physical memory as the boot service uses it: a map from 64-bit addresses to bytes, read
  little-endian at the layout that the C structures of include/hss_types.h have on RV64,
  and the two bulk operations, \<^verbatim>\<open>memset\<close> and \<^verbatim>\<open>memcpy_via_pdma\<close>
  (modules/misc/hss_memcpy_via_pdma.c), whose overlap assertions are part of the model.
  The DMA engine is compiled out in the build modelled (\<^verbatim>\<open>CONFIG_USE_PDMA\<close>), so a copy is
  \<^verbatim>\<open>memcpy\<close>.  The firmware's own variables are fields of the state, not bytes of this map.
\<close>

subsection \<open>Bytes and words\<close>

type_synonym memory = "u64 \<Rightarrow> u8"

fun le_word :: "u8 list \<Rightarrow> 'a::len word" where
  "le_word [] = 0"
| "le_word (b # bs) = ucast b OR push_bit 8 (le_word bs)"

definition rd_bytes :: "memory \<Rightarrow> u64 \<Rightarrow> nat \<Rightarrow> u8 list" where
  "rd_bytes m a n = map (\<lambda>i. m (a + of_nat i)) [0..<n]"

definition rd32 :: "memory \<Rightarrow> u64 \<Rightarrow> u32" where
  "rd32 m a = le_word (rd_bytes m a 4)"

definition rd64 :: "memory \<Rightarrow> u64 \<Rightarrow> u64" where
  "rd64 m a = le_word (rd_bytes m a 8)"

lemma rd_bytes_length [simp]: "length (rd_bytes m a n) = n"
  by (simp add: rd_bytes_def)

lemma rd_bytes_nth [simp]: "i < n \<Longrightarrow> rd_bytes m a n ! i = m (a + of_nat i)"
  by (simp add: rd_bytes_def)

lemma rd_bytes_cong:
  "(\<And>i. i < n \<Longrightarrow> m (a + of_nat i) = m' (a + of_nat i)) \<Longrightarrow> rd_bytes m a n = rd_bytes m' a n"
  by (simp add: rd_bytes_def)

lemma unat_of_nat_small: "j < 2 ^ 64 \<Longrightarrow> unat (of_nat j :: u64) = j"
  by (simp add: unat_of_nat take_bit_nat_eq_self)

lemma unat_lt64: "unat (a :: u64) < 2 ^ 64"
  using unsigned_less [of a] by simp

lemma unat_plus_nowrap: "unat (a :: u64) + j < 2 ^ 64 \<Longrightarrow> unat (a + of_nat j) = unat a + j"
  by (simp add: unat_of_nat_small unat_add_lem [THEN iffD1])

subsection \<open>Bulk operations\<close>

definition mem_set :: "u64 \<Rightarrow> u8 \<Rightarrow> u64 \<Rightarrow> memory \<Rightarrow> memory" where
  "mem_set dest c n m = (\<lambda>x. if x - dest < n then c else m x)"

definition mem_copy :: "u64 \<Rightarrow> u64 \<Rightarrow> u64 \<Rightarrow> memory \<Rightarrow> memory" where
  "mem_copy dest src n m = (\<lambda>x. if x - dest < n then m (src + (x - dest)) else m x)"

definition memcpy_via_pdma :: "u64 \<Rightarrow> u64 \<Rightarrow> u64 \<Rightarrow> memory \<Rightarrow> memory option" where
  "memcpy_via_pdma dest src num_bytes m = do {
     (if dest > src then assert_c (src + num_bytes - 1 < dest) else assert_c (dest + num_bytes - 1 < src));
     Some (mem_copy dest src num_bytes m)
   }"

text \<open>An address lies in the region of \<open>n\<close> bytes at \<open>a\<close> (addresses wrap as on the machine).\<close>

definition in_region :: "u64 \<Rightarrow> u64 \<Rightarrow> u64 \<Rightarrow> bool" where
  "in_region a n x \<longleftrightarrow> x - a < n"

lemma mem_set_apply: "mem_set dest c n m x = (if in_region dest n x then c else m x)"
  by (simp add: mem_set_def in_region_def)

lemma mem_copy_apply: "mem_copy dest src n m x = (if in_region dest n x then m (src + (x - dest)) else m x)"
  by (simp add: mem_copy_def in_region_def)

text \<open>
  \<^verbatim>\<open>memcpy_via_pdma\<close> copies: when its overlap assertion lets it return, the destination
  holds what the source held before, the source is still intact, and no byte outside the
  destination changed.
\<close>

theorem memcpy_via_pdma_copies:
  assumes ok: "memcpy_via_pdma dest src n m = Some m'"
    and n: "n \<noteq> 0" and nowrap: "unat dest + unat n \<le> 2 ^ 64" "unat src + unat n \<le> 2 ^ 64"
  shows "(\<forall>i < n. m' (dest + i) = m (src + i) \<and> m' (src + i) = m (src + i))
    \<and> (\<forall>x. \<not> in_region dest n x \<longrightarrow> m' x = m x)"
proof -
  from ok have m': "m' = mem_copy dest src n m"
    by (auto simp: memcpy_via_pdma_def split: if_splits)
  have apart: "\<not> in_region dest n (src + i)" if i: "i < n" for i
  proof -
    have ui: "unat i < unat n" using i by (simp add: word_less_nat_alt)
    have us: "unat (src + i) = unat src + unat i"
      using ui nowrap(2) by (subst unat_add_lem [THEN iffD1]) auto
    have last: "unat (z + n - 1) = unat z + unat n - 1" if "unat z + unat n \<le> 2 ^ 64" for z :: u64
    proof -
      have n1: "unat (n - 1) = unat n - 1"
        using n by (metis One_nat_def Suc_pred unat_minus_one)
      have "0 < unat n" using n by (simp add: unat_gt_0)
      then have "unat (z + (n - 1)) = unat z + unat (n - 1)"
        using that n1 by (subst unat_add_lem [THEN iffD1]) auto
      then show ?thesis using n1 \<open>0 < unat n\<close> by (simp add: algebra_simps)
    qed
    have ge: "unat n \<le> unat (src + i - dest)"
    proof (cases "dest > src")
      case True
      with ok have "src + n - 1 < dest" by (auto simp: memcpy_via_pdma_def)
      then have lt: "unat (src + i) < unat dest"
        using last [OF nowrap(2)] us ui by (simp add: word_less_nat_alt)
      then have "unat (src + i - dest) = unat (src + i) + 2 ^ 64 - unat dest"
        by (simp add: unat_sub_if_size word_size)
      then show ?thesis using nowrap(1) by linarith
    next
      case False
      with ok have "dest + n - 1 < src" by (auto simp: memcpy_via_pdma_def)
      then have "unat dest + unat n \<le> unat src"
        using last [OF nowrap(1)] by (simp add: word_less_nat_alt)
      moreover from this have "unat (src + i - dest) = unat (src + i) - unat dest"
        using us by (simp add: unat_sub_if_size)
      ultimately show ?thesis using us by linarith
    qed
    then show ?thesis by (simp add: in_region_def word_less_nat_alt)
  qed
  show ?thesis
    using apart by (auto simp: m' mem_copy_apply in_region_def)
qed

theorem memcpy_via_pdma_copies_witness:
  "\<exists>m'. memcpy_via_pdma 0x80000000 0x1000 4 (\<lambda>a. ucast a) = Some m' \<and> m' 0x80000002 = 2"
proof -
  obtain m' where m': "memcpy_via_pdma 0x80000000 0x1000 4 (\<lambda>a. ucast a) = Some m'"
    by (simp add: memcpy_via_pdma_def)
  have "(4 :: u64) \<noteq> 0" "unat (0x80000000 :: u64) + unat (4 :: u64) \<le> 2 ^ 64"
    "unat (0x1000 :: u64) + unat (4 :: u64) \<le> 2 ^ 64" by simp_all
  from memcpy_via_pdma_copies [OF m' this, THEN conjunct1, rule_format, of 2]
  have "m' 0x80000002 = 2" by simp
  then show ?thesis using m' by auto
qed

end
