(* ===== verification/HSS_Gpt.thy ===== *)
theory HSS_Gpt
  imports HSS_Crc HSS_Memory
begin

text \<open>
  The GUID partition table (services/boot/gpt.c): reading and checking the header at block
  1 and the entries from block 2 on, and the search for the boot partition, with the part of
  \<^verbatim>\<open>getBootImageFromMMC_\<close> (init/hss_boot_init.c) that puts them together.  The storage
  driver's read function is a value of the state, as in the code, where it is a function
  pointer: it yields whether it succeeded and the bytes it wrote to the destination.
\<close>

subsection \<open>State\<close>

abbreviation (input) GPT_MAX_LBA_SIZE :: nat where "GPT_MAX_LBA_SIZE \<equiv> 2048"
abbreviation (input) GPT_EXPECTED_REVISION :: u32 where "GPT_EXPECTED_REVISION \<equiv> 0x00010000"

type_synonym read_block = "u64 \<Rightarrow> u64 \<Rightarrow> bool \<times> u8 list"

text \<open>The module's own variables.\<close>

record gpt_statics =
  readBlockFnPtr :: "read_block option"
  bootPartitionIndexValid :: bool
  bootPartitionIndex :: u64

text \<open>The caller's structure; a pointer to an entry is its offset in \<open>lbaBuffer\<close>.\<close>

record HSS_GPT =
  gpt_buffer :: "u8 list"
  lbaBuffer :: "u8 list"
  lbaSize :: u64
  headerValid :: bool
  partitionEntriesValid :: bool

text \<open>Fields of the structures in the buffers, at their offsets.\<close>

definition field :: "u8 list \<Rightarrow> nat \<Rightarrow> nat \<Rightarrow> 'a::len word" where
  "field buf k n = le_word (take n (drop k buf))"

definition h_revision :: "HSS_GPT \<Rightarrow> u32" where "h_revision g = field (gpt_buffer g) 8 4"
definition h_headerSize :: "HSS_GPT \<Rightarrow> u32" where "h_headerSize g = field (gpt_buffer g) 12 4"
definition h_headerCrc32 :: "HSS_GPT \<Rightarrow> u32" where "h_headerCrc32 g = field (gpt_buffer g) 16 4"
definition h_currentLBA :: "HSS_GPT \<Rightarrow> u64" where "h_currentLBA g = field (gpt_buffer g) 24 8"
definition h_partitionEntriesStartingLBA :: "HSS_GPT \<Rightarrow> u64" where
  "h_partitionEntriesStartingLBA g = field (gpt_buffer g) 72 8"
definition h_numPartitions :: "HSS_GPT \<Rightarrow> u32" where "h_numPartitions g = field (gpt_buffer g) 80 4"
definition h_sizeOfPartitionEntry :: "HSS_GPT \<Rightarrow> u32" where "h_sizeOfPartitionEntry g = field (gpt_buffer g) 84 4"
definition h_partitionEntriesArrayCrc32 :: "HSS_GPT \<Rightarrow> u32" where
  "h_partitionEntriesArrayCrc32 g = field (gpt_buffer g) 88 4"

record GUID =
  data1 :: u32
  data2 :: u16
  data3 :: u16
  data4 :: u64

definition guid_at :: "u8 list \<Rightarrow> nat \<Rightarrow> GUID" where
  "guid_at buf k = \<lparr> data1 = field buf k 4, data2 = field buf (k + 4) 2, data3 = field buf (k + 6) 2, data4 = field buf (k + 8) 8 \<rparr>"

definition e_partitionTypeGUID :: "u8 list \<Rightarrow> nat \<Rightarrow> GUID" where "e_partitionTypeGUID buf p = guid_at buf p"
definition e_uniquePartitionGUID :: "u8 list \<Rightarrow> nat \<Rightarrow> GUID" where "e_uniquePartitionGUID buf p = guid_at buf (p + 16)"
definition e_firstLBA :: "u8 list \<Rightarrow> nat \<Rightarrow> u64" where "e_firstLBA buf p = field buf (p + 32) 8"

subsection \<open>Operations\<close>

definition GPT_Init :: "read_block option \<Rightarrow> gpt_statics \<Rightarrow> HSS_GPT \<Rightarrow> gpt_statics \<times> HSS_GPT" where
  "GPT_Init readBlock st g = (st\<lparr>readBlockFnPtr := readBlock\<rparr>, g\<lparr>headerValid := False, partitionEntriesValid := False\<rparr>)"

definition GPT_SetBootPartitionIndex :: "u64 \<Rightarrow> gpt_statics \<Rightarrow> gpt_statics" where
  "GPT_SetBootPartitionIndex index st = st\<lparr>bootPartitionIndexValid := True, bootPartitionIndex := index\<rparr>"

definition GPT_GetBootPartitionIndex :: "gpt_statics \<Rightarrow> u64 option" where
  "GPT_GetBootPartitionIndex st = (if bootPartitionIndexValid st then Some (bootPartitionIndex st) else None)"

text \<open>What a read leaves in a buffer; a write past its end is \<open>None\<close>.\<close>

definition write_at :: "nat \<Rightarrow> u8 list \<Rightarrow> u8 list \<Rightarrow> u8 list option" where
  "write_at d bs buf = (if d + length bs \<le> length buf then Some (take d buf @ bs @ drop (d + length bs) buf) else None)"

definition EFI_PART :: "u8 list" where "EFI_PART = [0x45, 0x46, 0x49, 0x20, 0x50, 0x41, 0x52, 0x54]"

text \<open>
  The checksum is taken over \<open>headerSize\<close> bytes with its own field zeroed; a size that
  exceeds the buffer is not checked for, and reads outside it: \<open>None\<close>.
\<close>

definition header_crc :: "HSS_GPT \<Rightarrow> u32 option" where
  "header_crc g = do {
     assert_c (unat (h_headerSize g) \<le> length (gpt_buffer g));
     b \<leftarrow> write_at 16 [0, 0, 0, 0] (gpt_buffer g);
     Some (CRC32_calculate True (take (unat (h_headerSize g)) b))
   }"

definition GPT_ValidateHeader :: "HSS_GPT \<Rightarrow> (bool \<times> HSS_GPT) option" where
  "GPT_ValidateHeader g =
     (if take 8 (gpt_buffer g) \<noteq> EFI_PART then Some (False, g)
      else if h_revision g \<noteq> GPT_EXPECTED_REVISION then Some (False, g)
      else do {
        checksum \<leftarrow> header_crc g;
        Some (if checksum \<noteq> h_headerCrc32 g then (False, g)
              else if h_currentLBA g \<noteq> 1 then (False, g)
              else if h_partitionEntriesStartingLBA g \<noteq> 2 then (False, g)
              else (True, g\<lparr>headerValid := True\<rparr>))
      })"

definition GPT_ReadHeader :: "gpt_statics \<Rightarrow> HSS_GPT \<Rightarrow> (bool \<times> HSS_GPT) option" where
  "GPT_ReadHeader st g = do {
     rd \<leftarrow> readBlockFnPtr st;
     let (result, bs) = rd (1 * lbaSize g) (lbaSize g);
     b \<leftarrow> write_at 0 bs (gpt_buffer g);
     if result then GPT_ValidateHeader (g\<lparr>gpt_buffer := b\<rparr>) else Some (False, g\<lparr>gpt_buffer := b\<rparr>)
   }"

definition ReadPartitionEntryIntoBuffer ::
    "gpt_statics \<Rightarrow> HSS_GPT \<Rightarrow> u64 \<Rightarrow> u64 \<Rightarrow> (nat option \<times> HSS_GPT) option" where
  "ReadPartitionEntryIntoBuffer st g lbaIndex partitionIndex = do {
     rd \<leftarrow> readBlockFnPtr st;
     let offset = ucast (h_sizeOfPartitionEntry g) * partitionIndex
           - (lbaIndex - h_partitionEntriesStartingLBA g) * lbaSize g;
     let (r1, bs) = rd (lbaIndex * lbaSize g) (lbaSize g);
     b1 \<leftarrow> write_at 0 bs (lbaBuffer g);
     (retVal, b2) \<leftarrow>
       (if r1 \<and> offset \<ge> lbaSize g then
          (case rd ((lbaIndex + 1) * lbaSize g) (lbaSize g) of (r2, bs2) \<Rightarrow>
             map_option (Pair r2) (write_at (unat (lbaSize g)) bs2 b1))
        else Some (r1, b1));
     Some (if retVal then Some (unat offset) else None, g\<lparr>lbaBuffer := b2\<rparr>)
   }"

text \<open>The block that holds an entry; a block size of zero is a division by zero.\<close>

definition entry_lba :: "HSS_GPT \<Rightarrow> u64 \<Rightarrow> u64 option" where
  "entry_lba g partitionIndex = do {
     assert_c (lbaSize g \<noteq> 0);
     Some (h_partitionEntriesStartingLBA g + (partitionIndex * ucast (h_sizeOfPartitionEntry g)) div lbaSize g)
   }"

definition GPT_ReadPartitionEntryByIndex ::
    "gpt_statics \<Rightarrow> HSS_GPT \<Rightarrow> u64 \<Rightarrow> (nat option \<times> HSS_GPT) option" where
  "GPT_ReadPartitionEntryByIndex st g partitionIndex = do {
     lbaIndex \<leftarrow> entry_lba g partitionIndex;
     ReadPartitionEntryIntoBuffer st g lbaIndex partitionIndex
   }"

text \<open>The entry is read before the index is checked, and the pointer is not checked at all.\<close>

definition GPT_PartitionIdToLBAOffset :: "gpt_statics \<Rightarrow> HSS_GPT \<Rightarrow> u64 \<Rightarrow> (u64 option \<times> HSS_GPT) option" where
  "GPT_PartitionIdToLBAOffset st g partitionIndex = do {
     lbaIndex \<leftarrow> entry_lba g partitionIndex;
     (entry, g1) \<leftarrow> ReadPartitionEntryIntoBuffer st g lbaIndex partitionIndex;
     if partitionIndex < ucast (h_numPartitions g1)
     then (case entry of None \<Rightarrow> None | Some p \<Rightarrow> Some (Some (e_firstLBA (lbaBuffer g1) p), g1))
     else Some (None, g1)
   }"

definition CheckIfGUIDMatch :: "GUID \<Rightarrow> GUID \<Rightarrow> bool" where
  "CheckIfGUIDMatch a b \<longleftrightarrow> data1 a = data1 b \<and> data2 a = data2 b \<and> data3 a = data3 b \<and> data4 a = data4 b"

definition CheckIfTypeIdMatch :: "u8 list \<Rightarrow> nat \<Rightarrow> GUID \<Rightarrow> bool" where
  "CheckIfTypeIdMatch buf p guid = CheckIfGUIDMatch (e_partitionTypeGUID buf p) guid"

definition CheckIfUniqueIdMatch :: "u8 list \<Rightarrow> nat \<Rightarrow> GUID \<Rightarrow> bool" where
  "CheckIfUniqueIdMatch buf p guid = CheckIfGUIDMatch (e_uniquePartitionGUID buf p) guid"

text \<open>
  The loop of the search from \<open>partitionIndex\<close> on with \<open>n\<close> entries to go: the index found,
  the entry, the buffer.  Entries before \<open>start\<close> are read and skipped; a read that fails
  fails the assertion around it.
\<close>

fun find_partition ::
    "nat \<Rightarrow> gpt_statics \<Rightarrow> (u8 list \<Rightarrow> nat \<Rightarrow> GUID \<Rightarrow> bool) \<Rightarrow> GUID \<Rightarrow> u64 \<Rightarrow> u64 \<Rightarrow> HSS_GPT
      \<Rightarrow> ((u64 \<times> nat) option \<times> HSS_GPT) option" where
  "find_partition 0 st match guid start partitionIndex g = Some (None, g)"
| "find_partition (Suc n) st match guid start partitionIndex g = do {
     (entry, g1) \<leftarrow> GPT_ReadPartitionEntryByIndex st g partitionIndex;
     p \<leftarrow> entry;
     if partitionIndex < start then find_partition n st match guid start (partitionIndex + 1) g1
     else if match (lbaBuffer g1) p guid then Some (Some (partitionIndex, p), g1)
     else find_partition n st match guid start (partitionIndex + 1) g1
   }"

definition FindPartitionById ::
    "gpt_statics \<Rightarrow> HSS_GPT \<Rightarrow> GUID \<Rightarrow> u64 \<Rightarrow> (u8 list \<Rightarrow> nat \<Rightarrow> GUID \<Rightarrow> bool) \<Rightarrow> ((u64 \<times> nat) option \<times> HSS_GPT) option" where
  "FindPartitionById st g guid start match = find_partition (unat (h_numPartitions g)) st match guid start 0 g"

definition GPT_FindPartitionByTypeId ::
    "gpt_statics \<Rightarrow> HSS_GPT \<Rightarrow> GUID \<Rightarrow> u64 \<Rightarrow> ((u64 \<times> nat) option \<times> HSS_GPT) option" where
  "GPT_FindPartitionByTypeId st g guid start = FindPartitionById st g guid start CheckIfTypeIdMatch"

definition GPT_FindPartitionByUniqueId ::
    "gpt_statics \<Rightarrow> HSS_GPT \<Rightarrow> GUID \<Rightarrow> u64 \<Rightarrow> ((u64 \<times> nat) option \<times> HSS_GPT) option" where
  "GPT_FindPartitionByUniqueId st g guid start = FindPartitionById st g guid start CheckIfUniqueIdMatch"

text \<open>The rolling checksum over the entries; \<open>None\<close> inside the result is a failed read.\<close>

fun entries_crc :: "nat \<Rightarrow> gpt_statics \<Rightarrow> u64 \<Rightarrow> u32 \<Rightarrow> HSS_GPT \<Rightarrow> (u32 option \<times> HSS_GPT) option" where
  "entries_crc 0 st partitionIndex rollingCrc g = Some (Some rollingCrc, g)"
| "entries_crc (Suc n) st partitionIndex rollingCrc g = do {
     lbaIndex \<leftarrow> entry_lba g partitionIndex;
     (entry, g1) \<leftarrow> ReadPartitionEntryIntoBuffer st g lbaIndex partitionIndex;
     case entry of
       None \<Rightarrow> Some (None, g1)
     | Some p \<Rightarrow> do {
         let size = unat (h_sizeOfPartitionEntry g1);
         assert_c (p + size \<le> length (lbaBuffer g1));
         entries_crc n st (partitionIndex + 1)
           (CRC32_calculate_ex True rollingCrc (take size (drop p (lbaBuffer g1)))) g1
       }
   }"

definition GPT_ValidatePartitionEntries :: "gpt_statics \<Rightarrow> HSS_GPT \<Rightarrow> (bool \<times> HSS_GPT) option" where
  "GPT_ValidatePartitionEntries st g = do {
     (crc, g1) \<leftarrow> entries_crc (unat (h_numPartitions g)) st 0 0 g;
     Some (if crc = Some (h_partitionEntriesArrayCrc32 g1) then (True, g1\<lparr>partitionEntriesValid := True\<rparr>) else (False, g1))
   }"

definition diskGUID :: GUID where
  "diskGUID = \<lparr> data1 = 0x21686148, data2 = 0x6449, data3 = 0x6E6F, data4 = 0x4946456465654e74 \<rparr>"

text \<open>The verdict on the header is overwritten by that on the entries.\<close>

definition GPT_FindBootSectorIndex :: "gpt_statics \<Rightarrow> HSS_GPT \<Rightarrow> u64 \<Rightarrow> ((u64 \<times> nat) option \<times> HSS_GPT) option" where
  "GPT_FindBootSectorIndex st g srcIndex = do {
     assert_c (readBlockFnPtr st \<noteq> None);
     (_, g1) \<leftarrow> (if headerValid g then Some (True, g) else GPT_ValidateHeader g);
     (result, g2) \<leftarrow> (if partitionEntriesValid g1 then Some (True, g1) else GPT_ValidatePartitionEntries st g1);
     if result then GPT_FindPartitionByTypeId st g2 diskGUID srcIndex else Some (None, g2)
   }"

text \<open>The part of \<^verbatim>\<open>getBootImageFromMMC_\<close> that finds the first block of the boot partition.\<close>

definition mmc_boot_lba :: "read_block option \<Rightarrow> gpt_statics \<Rightarrow> HSS_GPT \<Rightarrow> u64 option option" where
  "mmc_boot_lba readBlock st g = do {
     let (st1, g1) = GPT_Init readBlock st g;
     (result, g2) \<leftarrow> GPT_ReadHeader st1 g1;
     if \<not> result then Some None
     else (case GPT_GetBootPartitionIndex st1 of
         Some srcIndex \<Rightarrow> map_option fst (GPT_PartitionIdToLBAOffset st1 g2 srcIndex)
       | None \<Rightarrow> do {
           (found, g3) \<leftarrow> GPT_FindBootSectorIndex st1 g2 0;
           case found of
             None \<Rightarrow> Some None
           | Some (srcIndex, _) \<Rightarrow> map_option fst (GPT_PartitionIdToLBAOffset st1 g3 srcIndex)
         })
   }"

subsection \<open>The disk\<close>

text \<open>A disk is a function from byte positions to bytes; reads of it succeed.\<close>

definition bytes :: "(nat \<Rightarrow> u8) \<Rightarrow> nat \<Rightarrow> nat \<Rightarrow> u8 list" where
  "bytes disk a n = map disk [a..<a + n]"

definition disk_read :: "(nat \<Rightarrow> u8) \<Rightarrow> read_block" where
  "disk_read disk srcOffset byteCount = (True, bytes disk (unat srcOffset) (unat byteCount))"

definition disk_field :: "(nat \<Rightarrow> u8) \<Rightarrow> nat \<Rightarrow> nat \<Rightarrow> 'a::len word" where
  "disk_field disk a n = le_word (bytes disk a n)"

lemma bytes_length [simp]: "length (bytes disk a n) = n"
  by (simp add: bytes_def)

lemma bytes_append: "bytes disk a (m + n) = bytes disk a m @ bytes disk (a + m) n"
  using upt_add_eq_append [of a "a + m" n] by (simp add: bytes_def add.assoc)

lemma bytes_within: "k + n \<le> m \<Longrightarrow> take n (drop k (bytes disk a m)) = bytes disk (a + k) n"
  by (rule nth_equalityI) (auto simp: bytes_def add.assoc)

text \<open>What the header of a disk with blocks of \<open>lba\<close> bytes says.\<close>

definition disk_num :: "(nat \<Rightarrow> u8) \<Rightarrow> nat \<Rightarrow> nat" where "disk_num disk lba = unat (disk_field disk (lba + 80) 4 :: u32)"
definition disk_size :: "(nat \<Rightarrow> u8) \<Rightarrow> nat \<Rightarrow> nat" where "disk_size disk lba = unat (disk_field disk (lba + 84) 4 :: u32)"
definition disk_hdr_size :: "(nat \<Rightarrow> u8) \<Rightarrow> nat \<Rightarrow> nat" where "disk_hdr_size disk lba = unat (disk_field disk (lba + 12) 4 :: u32)"

definition disk_entry :: "(nat \<Rightarrow> u8) \<Rightarrow> nat \<Rightarrow> nat \<Rightarrow> nat" where
  "disk_entry disk lba i = 2 * lba + i * disk_size disk lba"

definition disk_header_ok :: "(nat \<Rightarrow> u8) \<Rightarrow> nat \<Rightarrow> bool" where
  "disk_header_ok disk lba \<longleftrightarrow> bytes disk lba 8 = EFI_PART \<and> disk_field disk (lba + 8) 4 = GPT_EXPECTED_REVISION
     \<and> CRC32_calculate True (take (disk_hdr_size disk lba) (bytes disk lba 16 @ [0, 0, 0, 0] @ bytes disk (lba + 20) (lba - 20)))
         = disk_field disk (lba + 16) 4
     \<and> disk_field disk (lba + 24) 8 = (1 :: u64) \<and> disk_field disk (lba + 72) 8 = (2 :: u64)"

definition disk_entries_ok :: "(nat \<Rightarrow> u8) \<Rightarrow> nat \<Rightarrow> bool" where
  "disk_entries_ok disk lba \<longleftrightarrow>
     CRC32_calculate True (bytes disk (2 * lba) (disk_num disk lba * disk_size disk lba)) = disk_field disk (lba + 88) 4"

definition disk_type :: "(nat \<Rightarrow> u8) \<Rightarrow> nat \<Rightarrow> nat \<Rightarrow> GUID" where
  "disk_type disk lba i = guid_at (bytes disk (disk_entry disk lba i) 16) 0"

text \<open>Sizes that the code relies on without checking them.\<close>

definition disk_geometry :: "(nat \<Rightarrow> u8) \<Rightarrow> nat \<Rightarrow> bool" where
  "disk_geometry disk lba \<longleftrightarrow> 92 \<le> lba \<and> lba \<le> GPT_MAX_LBA_SIZE \<and> disk_hdr_size disk lba \<le> lba
     \<and> 128 \<le> disk_size disk lba \<and> disk_size disk lba dvd lba"

subsection \<open>Reading\<close>

lemma field_within: "k + n \<le> length b \<Longrightarrow> field (b @ c) k n = field b k n"
  by (simp add: field_def)

lemma field_bytes: "k + n \<le> m \<Longrightarrow> field (bytes disk a m @ c) k n = disk_field disk (a + k) n"
  by (simp add: field_within) (simp add: field_def disk_field_def bytes_within)

definition loaded :: "(nat \<Rightarrow> u8) \<Rightarrow> nat \<Rightarrow> HSS_GPT \<Rightarrow> bool" where
  "loaded disk lba g \<longleftrightarrow> lbaSize g = of_nat lba \<and> length (lbaBuffer g) = 2 * GPT_MAX_LBA_SIZE
     \<and> take lba (gpt_buffer g) = bytes disk lba lba \<and> disk_field disk (lba + 72) 8 = (2 :: u64)"

lemma loaded_fields:
  assumes "loaded disk lba g" "92 \<le> lba"
  shows "h_sizeOfPartitionEntry g = disk_field disk (lba + 84) 4" "h_numPartitions g = disk_field disk (lba + 80) 4"
    "h_partitionEntriesArrayCrc32 g = disk_field disk (lba + 88) 4" "h_partitionEntriesStartingLBA g = 2"
proof -
  have "gpt_buffer g = bytes disk lba lba @ drop lba (gpt_buffer g)"
    using assms(1) append_take_drop_id [of lba "gpt_buffer g"] by (simp add: loaded_def)
  then have f: "field (gpt_buffer g) k n = disk_field disk (lba + k) n" if "k + n \<le> lba" for k n
    using that field_bytes [of k n lba disk lba "drop lba (gpt_buffer g)"] by metis
  show "h_sizeOfPartitionEntry g = disk_field disk (lba + 84) 4" "h_numPartitions g = disk_field disk (lba + 80) 4"
    "h_partitionEntriesArrayCrc32 g = disk_field disk (lba + 88) 4" "h_partitionEntriesStartingLBA g = 2"
    using assms by (simp_all add: h_sizeOfPartitionEntry_def h_numPartitions_def h_partitionEntriesArrayCrc32_def
        h_partitionEntriesStartingLBA_def f loaded_def)
qed

text \<open>The entry that the buffer holds after a read, and where.\<close>

definition holds_entry :: "(nat \<Rightarrow> u8) \<Rightarrow> nat \<Rightarrow> nat \<Rightarrow> nat \<Rightarrow> HSS_GPT \<Rightarrow> bool" where
  "holds_entry disk lba i p g \<longleftrightarrow> p + disk_size disk lba \<le> length (lbaBuffer g)
     \<and> take (disk_size disk lba) (drop p (lbaBuffer g)) = bytes disk (disk_entry disk lba i) (disk_size disk lba)"

lemma entry_products:
  assumes "i < 2 ^ 32" "lba \<le> 2048"
  shows "i * disk_size disk lba + 2 * lba < 2 ^ 64"
proof -
  have "disk_size disk lba < 2 ^ 32" unfolding disk_size_def by (rule order_less_le_trans [OF unsigned_less]) simp
  then have "i * disk_size disk lba \<le> (2 ^ 32 - 1) * (2 ^ 32 - 1)" using assms(1) by (intro mult_mono) auto
  then show ?thesis using assms(2) by simp
qed

lemma div_of_nat:
  assumes "unat (of_nat a :: u64) = a" "unat (of_nat b :: u64) = b"
  shows "(of_nat a :: u64) div of_nat b = of_nat (a div b)"
proof -
  have "a div b < 2 ^ 64" using assms(1) unat_lt64 [of "of_nat a"] by (simp add: le_less_trans [OF div_le_dividend])
  then have "unat (of_nat (a div b) :: u64) = a div b" by (rule unat_of_nat_small)
  then show ?thesis using assms by (simp add: word_unat_eq_iff unat_div)
qed

lemma mod_plus_size:
  fixes s lba :: nat
  assumes "s dvd lba" "0 < lba"
  shows "i * s mod lba + s \<le> lba"
proof -
  obtain c where c: "lba = s * c" using assms(1) by (elim dvdE)
  then have r: "i * s mod lba = s * (i mod c)" unfolding c mult_mod_right by (simp only: mult.commute [of i s])
  have "0 < c" using c assms(2) by (cases c) simp_all
  then have "i mod c + 1 \<le> c" using mod_less_divisor [of c i] by linarith
  then have "s * (i mod c + 1) \<le> s * c" by (rule mult_le_mono2)
  then show ?thesis unfolding r c by simp
qed

lemma read_entry:
  assumes ld: "loaded disk lba g" and geo: "disk_geometry disk lba" and i: "i < 2 ^ 32" and st: "readBlockFnPtr st = Some (disk_read disk)"
  shows "\<exists>L p b. entry_lba g (of_nat i) = Some L \<and> ReadPartitionEntryIntoBuffer st g L (of_nat i) = Some (Some p, g\<lparr>lbaBuffer := b\<rparr>)
    \<and> loaded disk lba (g\<lparr>lbaBuffer := b\<rparr>) \<and> holds_entry disk lba i p (g\<lparr>lbaBuffer := b\<rparr>)"
proof -
  let ?s = "disk_size disk lba" and ?q = "i * disk_size disk lba div lba" and ?r = "i * disk_size disk lba mod lba"
  have lba: "92 \<le> lba" "lba \<le> 2048" and s: "?s dvd lba" "128 \<le> ?s" using geo by (auto simp: disk_geometry_def)
  note f = loaded_fields [OF ld lba(1)]
  have lw: "lbaSize g = of_nat lba" "length (lbaBuffer g) = 4096" using ld by (auto simp: loaded_def)
  have ul: "unat (of_nat lba :: u64) = lba" using lba by (intro unat_of_nat_small) simp
  have sz: "ucast (h_sizeOfPartitionEntry g) = (of_nat ?s :: u64)"
    by (simp add: f disk_size_def)
  have prod: "i * ?s + 2 * lba < 2 ^ 64" using entry_products [OF i lba(2)] .
  have up: "unat (of_nat (i * ?s) :: u64) = i * ?s" using prod by (intro unat_of_nat_small) simp
  have qr: "i * ?s = ?q * lba + ?r" "?r < lba" using lba by simp_all
  have rs: "?r + ?s \<le> lba" using mod_plus_size [OF s(1)] lba by simp
  have L: "entry_lba g (of_nat i) = Some (2 + of_nat ?q)"
  proof -
    have nz: "lbaSize g \<noteq> 0" using ul lba lw(1) by (auto simp: word_unat_eq_iff)
    have "(of_nat (i * ?s) :: u64) div of_nat lba = of_nat ?q" by (rule div_of_nat [OF up ul])
    then show ?thesis using nz unfolding entry_lba_def sz f(4) lw(1) by simp
  qed
  have off: "of_nat ?s * of_nat i - (2 + of_nat ?q - 2) * of_nat lba = (of_nat ?r :: u64)"
  proof -
    have "(of_nat ?s * of_nat i :: u64) = of_nat (i * ?s)" by (simp only: of_nat_mult mult.commute)
    also have "\<dots> = of_nat ?q * of_nat lba + of_nat ?r" by (subst qr(1)) (simp only: of_nat_add of_nat_mult)
    finally show ?thesis by (simp only: add_diff_cancel_left' add_diff_cancel_right')
  qed
  have ur: "unat (of_nat ?r :: u64) = ?r" by (rule unat_of_nat_small, rule less_le_trans [OF qr(2)]) (use lba in simp)
  have first: "\<not> of_nat lba \<le> (of_nat ?r :: u64)" using ul ur qr(2) by (simp add: word_le_nat_alt)
  have src: "unat ((2 + of_nat ?q) * of_nat lba :: u64) = (2 + ?q) * lba"
  proof -
    have "(2 + of_nat ?q) * of_nat lba = (of_nat ((2 + ?q) * lba) :: u64)" by (simp only: of_nat_mult of_nat_add of_nat_numeral)
    moreover have "(2 + ?q) * lba < 2 ^ 64"
      using prod div_times_less_eq_dividend [of "i * ?s" lba] unfolding distrib_right by linarith
    ultimately show ?thesis by (simp only: unat_of_nat_small)
  qed
  let ?b = "bytes disk ((2 + ?q) * lba) lba @ drop lba (lbaBuffer g)"
  have "write_at 0 (bytes disk ((2 + ?q) * lba) lba) (lbaBuffer g) = Some ?b" using lba lw by (simp add: write_at_def)
  then have "ReadPartitionEntryIntoBuffer st g (2 + of_nat ?q) (of_nat i) = Some (Some ?r, g\<lparr>lbaBuffer := ?b\<rparr>)"
    using first unfolding ReadPartitionEntryIntoBuffer_def st sz f(4) lw(1) off Let_def by (simp add: disk_read_def src ul ur)
  moreover have "loaded disk lba (g\<lparr>lbaBuffer := ?b\<rparr>)" using ld lba by (simp add: loaded_def)
  moreover have "holds_entry disk lba i ?r (g\<lparr>lbaBuffer := ?b\<rparr>)"
  proof -
    have "(2 + ?q) * lba + ?r = disk_entry disk lba i" using qr(1) by (simp add: disk_entry_def algebra_simps)
    then have "take ?s (drop ?r ?b) = bytes disk (disk_entry disk lba i) ?s" using rs bytes_within [OF rs, of disk "(2 + ?q) * lba"] by simp
    then show ?thesis using rs lba lw by (simp add: holds_entry_def)
  qed
  ultimately show ?thesis using L by blast
qed

subsection \<open>Entries\<close>

lemma disk_num_bound: "disk_num disk lba < 2 ^ 32"
  unfolding disk_num_def by (rule order_less_le_trans [OF unsigned_less]) simp

text \<open>The rolling checksum is that of the whole array.\<close>

lemma entries_crc_loop:
  assumes geo: "disk_geometry disk lba" and st: "readBlockFnPtr st = Some (disk_read disk)"
  shows "loaded disk lba g \<Longrightarrow> i + n < 2 ^ 32 \<Longrightarrow>
    \<exists>b. entries_crc n st (of_nat i) crc g = Some (Some (CRC32_calculate_ex True crc
        (bytes disk (disk_entry disk lba i) (n * disk_size disk lba))), g\<lparr>lbaBuffer := b\<rparr>)
      \<and> loaded disk lba (g\<lparr>lbaBuffer := b\<rparr>)"
proof (induction n arbitrary: i crc g)
  case 0
  then show ?case by (intro exI [of _ "lbaBuffer g"]) (simp add: bytes_def CRC32_calculate_ex_def)
next
  case (Suc n)
  let ?s = "disk_size disk lba"
  have i: "i < 2 ^ 32" using Suc.prems(2) by simp
  obtain L p b where r: "entry_lba g (of_nat i) = Some L"
    "ReadPartitionEntryIntoBuffer st g L (of_nat i) = Some (Some p, g\<lparr>lbaBuffer := b\<rparr>)"
    "loaded disk lba (g\<lparr>lbaBuffer := b\<rparr>)" "holds_entry disk lba i p (g\<lparr>lbaBuffer := b\<rparr>)"
    using read_entry [OF Suc.prems(1) geo i st] by blast
  have lba: "92 \<le> lba" using geo by (simp add: disk_geometry_def)
  have size: "unat (h_sizeOfPartitionEntry (g\<lparr>lbaBuffer := b\<rparr>)) = ?s"
    using loaded_fields(1) [OF r(3) lba] by (simp add: disk_size_def)
  have next_i: "of_nat i + 1 = (of_nat (Suc i) :: u64)" by simp
  have "disk_entry disk lba (Suc i) = disk_entry disk lba i + ?s" by (simp add: disk_entry_def)
  then have whole: "bytes disk (disk_entry disk lba i) (Suc n * ?s)
      = bytes disk (disk_entry disk lba i) ?s @ bytes disk (disk_entry disk lba (Suc i)) (n * ?s)"
    using bytes_append [of disk "disk_entry disk lba i" ?s "n * ?s"] by simp
  obtain c where "entries_crc n st (of_nat (Suc i)) (CRC32_calculate_ex True crc (bytes disk (disk_entry disk lba i) ?s)) (g\<lparr>lbaBuffer := b\<rparr>)
      = Some (Some (CRC32_calculate_ex True (CRC32_calculate_ex True crc (bytes disk (disk_entry disk lba i) ?s))
          (bytes disk (disk_entry disk lba (Suc i)) (n * ?s))), g\<lparr>lbaBuffer := b, lbaBuffer := c\<rparr>)"
    "loaded disk lba (g\<lparr>lbaBuffer := b, lbaBuffer := c\<rparr>)"
    using Suc.IH [OF r(3), of "Suc i"] Suc.prems(2) by auto
  then show ?case
    using r(4) unfolding whole CRC32_calculate_ex_append
    by (intro exI [of _ c]) (simp add: r(1,2) size holds_entry_def next_i Let_def del: of_nat_Suc)
qed

text \<open>What is found: the first index from \<open>i\<close> on, among \<open>n\<close>, that is not before \<open>start\<close> and matches.\<close>

lemma holds_type:
  assumes "holds_entry disk lba i p g" "128 \<le> disk_size disk lba"
  shows "e_partitionTypeGUID (lbaBuffer g) p = disk_type disk lba i"
    and "e_firstLBA (lbaBuffer g) p = disk_field disk (disk_entry disk lba i + 32) 8"
proof -
  have f: "take n (drop (p + k) (lbaBuffer g)) = bytes disk (disk_entry disk lba i + k) n" if "k + n \<le> disk_size disk lba" for k n
  proof -
    have "take n (drop (p + k) (lbaBuffer g)) = take n (drop k (take (disk_size disk lba) (drop p (lbaBuffer g))))"
      using that by (simp add: drop_take min_def add.commute)
    then show ?thesis using assms(1) that by (simp add: holds_entry_def bytes_within)
  qed
  show "e_firstLBA (lbaBuffer g) p = disk_field disk (disk_entry disk lba i + 32) 8"
    using f [of 32 8] assms(2) by (simp add: e_firstLBA_def field_def disk_field_def)
  have "field (lbaBuffer g) (p + k) n = field (bytes disk (disk_entry disk lba i) 16) k n" if "k + n \<le> 16" for k n
    using f [of k n] that assms(2) by (simp add: field_def bytes_within)
  from this [of 0 4] this [of 4 2] this [of 6 2] this [of 8 8]
  show "e_partitionTypeGUID (lbaBuffer g) p = disk_type disk lba i"
    by (simp add: e_partitionTypeGUID_def disk_type_def guid_at_def)
qed

lemma guid_match [simp]: "CheckIfGUIDMatch a b \<longleftrightarrow> a = b"
  by (cases a; cases b) (simp add: CheckIfGUIDMatch_def)

lemma find_loop:
  assumes geo: "disk_geometry disk lba" and st: "readBlockFnPtr st = Some (disk_read disk)"
  shows "loaded disk lba g \<Longrightarrow> i + n < 2 ^ 32 \<Longrightarrow> start < 2 ^ 32 \<Longrightarrow>
    \<exists>r b. find_partition n st CheckIfTypeIdMatch guid (of_nat start) (of_nat i) g = Some (r, g\<lparr>lbaBuffer := b\<rparr>)
      \<and> loaded disk lba (g\<lparr>lbaBuffer := b\<rparr>)
      \<and> map_option fst r = map_option of_nat (find (\<lambda>k. start \<le> k \<and> disk_type disk lba k = guid) [i..<i + n])"
proof (induction n arbitrary: i g)
  case 0
  then show ?case by (intro exI [of _ None] exI [of _ "lbaBuffer g"]) simp
next
  case (Suc n)
  have i: "i < 2 ^ 32" using Suc.prems(2) by simp
  obtain L p b where r: "entry_lba g (of_nat i) = Some L"
    "ReadPartitionEntryIntoBuffer st g L (of_nat i) = Some (Some p, g\<lparr>lbaBuffer := b\<rparr>)"
    "loaded disk lba (g\<lparr>lbaBuffer := b\<rparr>)" "holds_entry disk lba i p (g\<lparr>lbaBuffer := b\<rparr>)"
    using read_entry [OF Suc.prems(1) geo i st] by blast
  have "128 \<le> disk_size disk lba" using geo by (simp add: disk_geometry_def)
  then have m: "CheckIfTypeIdMatch b p guid \<longleftrightarrow> disk_type disk lba i = guid"
    using holds_type(1) [OF r(4)] by (simp add: CheckIfTypeIdMatch_def)
  have u: "unat (of_nat i :: u64) = i" "unat (of_nat start :: u64) = start"
    using i Suc.prems(3) by (simp_all add: unat_of_nat_small)
  have next_i: "of_nat i + 1 = (of_nat (Suc i) :: u64)" by simp
  have upt: "[i..<i + Suc n] = i # [Suc i..<Suc i + n]" by (simp add: upt_conv_Cons)
  have lt: "(of_nat i :: u64) < of_nat start \<longleftrightarrow> i < start" using u by (simp add: word_less_nat_alt)
  obtain q c where "find_partition n st CheckIfTypeIdMatch guid (of_nat start) (of_nat (Suc i)) (g\<lparr>lbaBuffer := b\<rparr>)
      = Some (q, g\<lparr>lbaBuffer := b, lbaBuffer := c\<rparr>)" "loaded disk lba (g\<lparr>lbaBuffer := b, lbaBuffer := c\<rparr>)"
    "map_option fst q = map_option of_nat (find (\<lambda>k. start \<le> k \<and> disk_type disk lba k = guid) [Suc i..<Suc i + n])"
    using Suc.IH [OF r(3), of "Suc i"] Suc.prems(2,3) by auto
  note tail = this
  have unf: "find_partition (Suc n) st CheckIfTypeIdMatch guid (of_nat start) (of_nat i) g =
      (if start \<le> i \<and> disk_type disk lba i = guid then Some (Some (of_nat i, p), g\<lparr>lbaBuffer := b\<rparr>)
       else Some (q, g\<lparr>lbaBuffer := c\<rparr>))"
    using tail(1) by (simp add: GPT_ReadPartitionEntryByIndex_def r(1,2) m lt next_i del: of_nat_Suc)
  show ?case
  proof (cases "start \<le> i \<and> disk_type disk lba i = guid")
    case True
    then show ?thesis unfolding unf upt using r(3) by (intro exI [of _ "Some (of_nat i, p)"] exI [of _ b]) simp
  next
    case False
    then show ?thesis unfolding unf upt using tail(2,3) by (intro exI [of _ q] exI [of _ c]) auto
  qed
qed

subsection \<open>The boot partition\<close>

lemma unat_ucast_u32: "unat (ucast (x :: u32) :: u64) = unat x"
proof -
  have "unat x < 2 ^ 64" by (rule order_less_le_trans [OF unsigned_less]) simp
  then show ?thesis by (simp add: unsigned_ucast_eq take_bit_nat_eq_self)
qed

lemma ValidateHeader_loaded:
  assumes ld: "take lba (gpt_buffer g) = bytes disk lba lba" and geo: "disk_geometry disk lba" and len: "length (gpt_buffer g) = GPT_MAX_LBA_SIZE"
  shows "GPT_ValidateHeader g = Some (if disk_header_ok disk lba then (True, g\<lparr>headerValid := True\<rparr>) else (False, g))"
proof -
  have lba: "92 \<le> lba" "lba \<le> 2048" and hs: "disk_hdr_size disk lba \<le> lba" using geo by (auto simp: disk_geometry_def)
  have buf: "gpt_buffer g = bytes disk lba lba @ drop lba (gpt_buffer g)"
    using ld append_take_drop_id [of lba "gpt_buffer g"] by simp
  have f: "field (gpt_buffer g) k n = disk_field disk (lba + k) n" if "k + n \<le> lba" for k n
    using that field_bytes [of k n lba disk lba "drop lba (gpt_buffer g)"] buf by metis
  have sig: "take 8 (gpt_buffer g) = bytes disk lba 8" using lba bytes_within [of 0 8 lba disk lba] by (subst buf) simp
  have split: "bytes disk lba lba = bytes disk lba 16 @ bytes disk (lba + 16) 4 @ bytes disk (lba + 20) (lba - 20)"
    using bytes_append [of disk lba 16 "lba - 16"] bytes_append [of disk "lba + 16" 4 "lba - 20"] lba by (simp add: add.commute)
  have cut: "take (disk_hdr_size disk lba) (xs @ [0, 0, 0, 0] @ ys @ zs) = take (disk_hdr_size disk lba) (xs @ [0, 0, 0, 0] @ ys)"
    if "length xs + 4 + length ys = lba" for xs ys zs :: "u8 list" using hs that take_append [of "disk_hdr_size disk lba" "xs @ [0, 0, 0, 0] @ ys" zs] by simp
  have "write_at 16 [0, 0, 0, 0] (gpt_buffer g)
      = Some (bytes disk lba 16 @ [0, 0, 0, 0] @ bytes disk (lba + 20) (lba - 20) @ drop lba (gpt_buffer g))"
    using lba len by (simp add: write_at_def) (subst (1 2) buf, simp add: split)
  moreover have "unat (h_headerSize g) = disk_hdr_size disk lba" using lba by (simp add: h_headerSize_def f disk_hdr_size_def)
  ultimately have "header_crc g = Some (CRC32_calculate True (take (disk_hdr_size disk lba)
      (bytes disk lba 16 @ [0, 0, 0, 0] @ bytes disk (lba + 20) (lba - 20))))"
    using hs lba len cut [of "bytes disk lba 16" "bytes disk (lba + 20) (lba - 20)" "drop lba (gpt_buffer g)"]
    by (simp add: header_crc_def)
  then show ?thesis
    using lba by (auto simp: GPT_ValidateHeader_def disk_header_ok_def sig h_revision_def h_headerCrc32_def
        h_currentLBA_def h_partitionEntriesStartingLBA_def f)
qed

text \<open>
  C15.  The search for the boot partition is right: on a disk whose sizes the buffers can hold, it
  yields the first block of the first partition of the boot type, exactly if the header is a
  sound one (signature, revision, checksum, place) and the checksum over the whole array of
  entries agrees with it; and nothing otherwise.
\<close>

theorem mmc_boot_lba_correct:
  assumes geo: "disk_geometry disk (unat (lbaSize g))" and st: "\<not> bootPartitionIndexValid st"
    and len: "length (gpt_buffer g) = GPT_MAX_LBA_SIZE" "length (lbaBuffer g) = 2 * GPT_MAX_LBA_SIZE"
  shows "mmc_boot_lba (Some (disk_read disk)) st g = Some
    (let lba = unat (lbaSize g) in
     if disk_header_ok disk lba \<and> disk_entries_ok disk lba
     then map_option (\<lambda>i. disk_field disk (disk_entry disk lba i + 32) 8)
            (find (\<lambda>i. disk_type disk lba i = diskGUID) [0..<disk_num disk lba])
     else None)"
proof -
  define lba where "lba = unat (lbaSize g)"
  have geo: "disk_geometry disk lba" using geo by (simp add: lba_def)
  have lba: "92 \<le> lba" "lba \<le> 2048" and size: "128 \<le> disk_size disk lba" using geo by (auto simp: disk_geometry_def)
  have ls: "lbaSize g = of_nat lba" by (simp add: lba_def)
  define st1 where "st1 = st\<lparr>readBlockFnPtr := Some (disk_read disk)\<rparr>"
  have st1: "readBlockFnPtr st1 = Some (disk_read disk)" "\<not> bootPartitionIndexValid st1" using st by (simp_all add: st1_def)
  define g1 where "g1 = g\<lparr>headerValid := False, partitionEntriesValid := False,
    gpt_buffer := bytes disk lba lba @ drop lba (gpt_buffer g)\<rparr>"
  have "write_at 0 (bytes disk lba lba) (gpt_buffer g) = Some (bytes disk lba lba @ drop lba (gpt_buffer g))"
    using lba len by (simp add: write_at_def)
  then have read: "GPT_ReadHeader st1 (g\<lparr>headerValid := False, partitionEntriesValid := False\<rparr>) = GPT_ValidateHeader g1"
    by (simp add: GPT_ReadHeader_def st1 disk_read_def lba_def [symmetric] g1_def)
  also have "\<dots> = Some (if disk_header_ok disk lba then (True, g1\<lparr>headerValid := True\<rparr>) else (False, g1))"
    by (rule ValidateHeader_loaded [OF _ geo]) (use lba len in \<open>simp_all add: g1_def\<close>)
  finally have hdr: "GPT_ReadHeader st1 (g\<lparr>headerValid := False, partitionEntriesValid := False\<rparr>)
      = Some (if disk_header_ok disk lba then (True, g1\<lparr>headerValid := True\<rparr>) else (False, g1))" .
  show ?thesis
  proof (cases "disk_header_ok disk lba")
    case False
    then show ?thesis by (simp add: mmc_boot_lba_def GPT_Init_def hdr flip: st1_def lba_def)
  next
    case True
    define g2 where "g2 = g1\<lparr>headerValid := True\<rparr>"
    have ld: "loaded disk lba g2" using True lba len ls by (simp add: loaded_def g2_def g1_def disk_header_ok_def)
    have num: "unat (h_numPartitions g2) = disk_num disk lba" using loaded_fields(2) [OF ld lba(1)] by (simp add: disk_num_def)
    obtain b where crc: "entries_crc (disk_num disk lba) st1 0 0 g2 = Some (Some (CRC32_calculate_ex True 0
        (bytes disk (disk_entry disk lba 0) (disk_num disk lba * disk_size disk lba))), g2\<lparr>lbaBuffer := b\<rparr>)"
      "loaded disk lba (g2\<lparr>lbaBuffer := b\<rparr>)"
      using entries_crc_loop [OF geo st1(1) ld, of 0 "disk_num disk lba" 0] disk_num_bound [of disk lba] by auto
    have "GPT_ValidatePartitionEntries st1 g2 = Some (if disk_entries_ok disk lba
        then (True, g2\<lparr>lbaBuffer := b, partitionEntriesValid := True\<rparr>) else (False, g2\<lparr>lbaBuffer := b\<rparr>))"
      using loaded_fields(3) [OF crc(2) lba(1)]
      by (simp add: GPT_ValidatePartitionEntries_def num crc(1) disk_entries_ok_def CRC32_calculate_def disk_entry_def)
    moreover have "headerValid g2" "\<not> partitionEntriesValid g2" by (simp_all add: g2_def g1_def)
    ultimately have find: "GPT_FindBootSectorIndex st1 g2 0 = (if disk_entries_ok disk lba
        then GPT_FindPartitionByTypeId st1 (g2\<lparr>lbaBuffer := b, partitionEntriesValid := True\<rparr>) diskGUID 0
        else Some (None, g2\<lparr>lbaBuffer := b\<rparr>))"
      by (simp add: GPT_FindBootSectorIndex_def st1)
    show ?thesis
    proof (cases "disk_entries_ok disk lba")
      case False
      then show ?thesis using True st1(2)
        by (simp add: mmc_boot_lba_def GPT_Init_def hdr GPT_GetBootPartitionIndex_def find flip: st1_def lba_def g2_def)
    next
      case ok: True
      define g3 where "g3 = g2\<lparr>lbaBuffer := b, partitionEntriesValid := True\<rparr>"
      have ld3: "loaded disk lba g3" using crc(2) by (simp add: g3_def loaded_def)
      have num3: "unat (h_numPartitions g3) = disk_num disk lba" using loaded_fields(2) [OF ld3 lba(1)] by (simp add: disk_num_def)
      obtain r c where r: "GPT_FindPartitionByTypeId st1 g3 diskGUID 0 = Some (r, g3\<lparr>lbaBuffer := c\<rparr>)"
        "loaded disk lba (g3\<lparr>lbaBuffer := c\<rparr>)"
        "map_option fst r = map_option of_nat (find (\<lambda>k. disk_type disk lba k = diskGUID) [0..<disk_num disk lba])"
        using find_loop [OF geo st1(1) ld3, of 0 "disk_num disk lba" 0 diskGUID] disk_num_bound [of disk lba]
        by (auto simp: GPT_FindPartitionByTypeId_def FindPartitionById_def num3)
      have total: "mmc_boot_lba (Some (disk_read disk)) st g = (case r of None \<Rightarrow> Some None
          | Some (srcIndex, _) \<Rightarrow> map_option fst (GPT_PartitionIdToLBAOffset st1 (g3\<lparr>lbaBuffer := c\<rparr>) srcIndex))"
        using True ok st1(2) r(1)
        by (simp add: mmc_boot_lba_def GPT_Init_def hdr GPT_GetBootPartitionIndex_def find flip: st1_def lba_def g2_def g3_def)
      show ?thesis
      proof (cases "find (\<lambda>k. disk_type disk lba k = diskGUID) [0..<disk_num disk lba]")
        case None
        then show ?thesis using r(3) unfolding total lba_def [symmetric] Let_def by (auto simp: True ok)
      next
        case (Some i)
        then have i: "i < disk_num disk lba" by (auto simp: find_Some_iff)
        then have i32: "i < 2 ^ 32" using disk_num_bound [of disk lba] by simp
        obtain p where rp: "r = Some (of_nat i, p)" using r(3) Some by (cases r) auto
        obtain L q d where e: "entry_lba (g3\<lparr>lbaBuffer := c\<rparr>) (of_nat i) = Some L"
          "ReadPartitionEntryIntoBuffer st1 (g3\<lparr>lbaBuffer := c\<rparr>) L (of_nat i) = Some (Some q, g3\<lparr>lbaBuffer := c, lbaBuffer := d\<rparr>)"
          "loaded disk lba (g3\<lparr>lbaBuffer := c, lbaBuffer := d\<rparr>)" "holds_entry disk lba i q (g3\<lparr>lbaBuffer := c, lbaBuffer := d\<rparr>)"
          using read_entry [OF r(2) geo i32 st1(1)] by blast
        have "h_numPartitions (g3\<lparr>lbaBuffer := d\<rparr>) = disk_field disk (lba + 80) 4" using loaded_fields(2) [OF e(3) lba(1)] by simp
        then have "(of_nat i :: u64) < ucast (h_numPartitions (g3\<lparr>lbaBuffer := d\<rparr>))"
          using i i32 by (simp add: word_less_nat_alt unat_of_nat_small disk_num_def unat_ucast_u32)
        then have "GPT_PartitionIdToLBAOffset st1 (g3\<lparr>lbaBuffer := c\<rparr>) (of_nat i)
            = Some (Some (disk_field disk (disk_entry disk lba i + 32) 8), g3\<lparr>lbaBuffer := d\<rparr>)"
          using e(1,2) holds_type(2) [OF e(4) size] by (simp add: GPT_PartitionIdToLBAOffset_def)
        then show ?thesis using Some unfolding total rp lba_def [symmetric] Let_def by (simp add: True ok)
      qed
    qed
  qed
qed

text \<open>A disk with one partition, of the boot type, from block 34 on.\<close>

definition demo_entry :: "nat \<Rightarrow> u8" where
  "demo_entry a = (if a < 1040 then [0x48, 0x61, 0x68, 0x21, 0x49, 0x64, 0x6F, 0x6E, 0x74, 0x4e, 0x65, 0x65, 0x64, 0x45, 0x46, 0x49] ! (a - 1024)
     else if a = 1056 then 34 else 0)"

definition demo_crc :: u32 where "demo_crc = CRC32_calculate True (bytes demo_entry 1024 128)"

definition demo_disk :: "nat \<Rightarrow> u8" where
  "demo_disk a =
     (if 1024 \<le> a then demo_entry a
      else if 512 \<le> a \<and> a < 520 then EFI_PART ! (a - 512)
      else if a = 522 \<or> a = 536 \<or> a = 592 then 1
      else if a = 584 then 2
      else if a = 596 then 128
      else if 600 \<le> a \<and> a < 604 then ucast (drop_bit (8 * (a - 600)) demo_crc)
      else 0)"

lemma demo_fields:
  "bytes demo_disk 512 8 = EFI_PART" "disk_field demo_disk 520 4 = (0x00010000 :: u32)" "disk_field demo_disk 524 4 = (0 :: u32)"
  "disk_field demo_disk 528 4 = (0 :: u32)" "disk_field demo_disk 536 8 = (1 :: u64)" "disk_field demo_disk 584 8 = (2 :: u64)"
  "disk_field demo_disk 592 4 = (1 :: u32)" "disk_field demo_disk 596 4 = (128 :: u32)" "disk_field demo_disk 1056 8 = (34 :: u64)"
  by (simp_all add: disk_field_def bytes_def upt_conv_Cons demo_disk_def EFI_PART_def demo_entry_def)

lemma le_word_bytes32:
  "le_word [ucast (v :: u32), ucast (drop_bit 8 v), ucast (drop_bit 16 v), ucast (drop_bit 24 v)] = v"
proof (rule bit_word_eqI)
  fix n assume "n < LENGTH(32)"
  moreover have "24 + (n - 24) = n" if "24 \<le> n" using that by simp
  moreover have "16 + (n - 16) = n" if "16 \<le> n" using that by simp
  moreover have "8 + (n - 8) = n" if "8 \<le> n" using that by simp
  ultimately show "bit (le_word [ucast v, ucast (drop_bit 8 v), ucast (drop_bit 16 v), ucast (drop_bit 24 v)] :: u32) n = bit v n"
    by (cases "bit v n"; cases "8 \<le> n"; cases "16 \<le> n"; cases "24 \<le> n") (simp_all add: bit_simps, linarith+)
qed

lemma demo_crc_field: "disk_field demo_disk 600 4 = demo_crc"
  using le_word_bytes32 [of demo_crc] by (simp add: disk_field_def bytes_def upt_conv_Cons demo_disk_def)

definition demo_gpt :: HSS_GPT where
  "demo_gpt = \<lparr> gpt_buffer = replicate 2048 0, lbaBuffer = replicate 4096 0, lbaSize = 512,
     headerValid = False, partitionEntriesValid = False \<rparr>"

theorem mmc_boot_lba_correct_witness:
  "mmc_boot_lba (Some (disk_read demo_disk)) \<lparr> readBlockFnPtr = None, bootPartitionIndexValid = False, bootPartitionIndex = 0 \<rparr>
     demo_gpt = Some (Some 34)"
proof -
  have lba: "unat (lbaSize demo_gpt) = 512" by (simp add: demo_gpt_def)
  have n: "disk_num demo_disk 512 = 1" "disk_size demo_disk 512 = 128" "disk_hdr_size demo_disk 512 = 0"
    by (simp_all add: disk_num_def disk_size_def disk_hdr_size_def demo_fields)
  have geo: "disk_geometry demo_disk (unat (lbaSize demo_gpt))" unfolding lba disk_geometry_def n by simp
  have "disk_header_ok demo_disk 512"
    unfolding disk_header_ok_def by (simp add: demo_fields n CRC32_calculate_def CRC32_calculate_ex_def)
  moreover have "disk_entries_ok demo_disk 512"
  proof -
    have "bytes demo_disk 1024 128 = bytes demo_entry 1024 128" by (simp add: bytes_def demo_disk_def)
    then show ?thesis by (simp add: disk_entries_ok_def n demo_crc_field demo_crc_def)
  qed
  moreover have "disk_type demo_disk 512 0 = diskGUID"
    by (simp add: disk_type_def disk_entry_def guid_at_def field_def bytes_def upt_conv_Cons demo_disk_def demo_entry_def diskGUID_def)
  ultimately show ?thesis
    using mmc_boot_lba_correct [OF geo, of "\<lparr> readBlockFnPtr = None, bootPartitionIndexValid = False, bootPartitionIndex = 0 \<rparr>"]
    unfolding lba Let_def n by (simp add: demo_gpt_def disk_entry_def demo_fields)
qed

end
