(* ===== verification/HSS_Boot.thy ===== *)
theory HSS_Boot
  imports HSS_Memory HSS_Crc
begin

text \<open>
  The boot service, services/boot/hss_boot_service.c: four copies of one state machine, one
  per application hart, that set up the PMPs, zero and download the chunks of the boot
  image, start OpenSBI (or a bare goto) on the harts of the image and wait for their
  acknowledgements; and the restart interface.

  The boot image is what it is in the code: bytes in memory at \<^verbatim>\<open>pBootImage\<close> (0 is the null
  pointer), read at the offsets of \<^verbatim>\<open>struct HSS_BootImage\<close>, \<^verbatim>\<open>HSS_BootChunkDesc\<close> and
  \<^verbatim>\<open>HSS_BootZIChunkDesc\<close> (include/hss_types.h).  The machine of U54 \<open>h\<close> has index \<open>h\<close> in the
  machine table (application/hart0/hss_registry.c, after the polling service), and its
  instance data is \<^verbatim>\<open>localData[h-1]\<close>.  All boot machines run on the E51.

  Build options: \<^verbatim>\<open>CONFIG_PROVIDE_DTB\<close>, \<^verbatim>\<open>CRYPTO_SIGNING\<close>, \<^verbatim>\<open>SERVICE_GPIO_UI\<close>,
  \<^verbatim>\<open>SERVICE_OPENSBI_RPROC\<close> and \<^verbatim>\<open>SERVICE_BOOT_CUSTOM_FLOW\<close> off, \<^verbatim>\<open>BOOT_SUB_CHUNK_SIZE\<close>
  defined, as in boards/scai-dpu250/def_config.
\<close>

subsection \<open>Data\<close>

abbreviation (input) BOOT_INITIALIZATION :: int where "BOOT_INITIALIZATION \<equiv> 0"
abbreviation (input) BOOT_SETUP_PMP :: int where "BOOT_SETUP_PMP \<equiv> 1"
abbreviation (input) BOOT_SETUP_PMP_COMPLETE :: int where "BOOT_SETUP_PMP_COMPLETE \<equiv> 2"
abbreviation (input) BOOT_ZERO_INIT_CHUNKS :: int where "BOOT_ZERO_INIT_CHUNKS \<equiv> 3"
abbreviation (input) BOOT_DOWNLOAD_CHUNKS :: int where "BOOT_DOWNLOAD_CHUNKS \<equiv> 4"
abbreviation (input) BOOT_OPENSBI_INIT :: int where "BOOT_OPENSBI_INIT \<equiv> 5"
abbreviation (input) BOOT_WAIT :: int where "BOOT_WAIT \<equiv> 6"
abbreviation (input) BOOT_COMPLETE :: int where "BOOT_COMPLETE \<equiv> 7"
abbreviation (input) BOOT_IDLE :: int where "BOOT_IDLE \<equiv> 8"
abbreviation (input) BOOT_ERROR :: int where "BOOT_ERROR \<equiv> 9"
abbreviation (input) BOOT_NUM_STATES :: nat where "BOOT_NUM_STATES \<equiv> 10"

abbreviation (input) mHSS_BOOT_MAGIC :: u32 where "mHSS_BOOT_MAGIC \<equiv> 0xB007C0DE"
abbreviation (input) mHSS_COMPRESSED_MAGIC :: u32 where "mHSS_COMPRESSED_MAGIC \<equiv> 0xC08B8355"
abbreviation (input) BOOT_FLAG_ANCILLIARY_DATA :: u32 where "BOOT_FLAG_ANCILLIARY_DATA \<equiv> 0x80"
abbreviation (input) BOOT_FLAG_SKIP_OPENSBI :: u8 where "BOOT_FLAG_SKIP_OPENSBI \<equiv> 0x40"
abbreviation (input) BOOT_FLAG_ALLOW_COLD_REBOOT :: u8 where "BOOT_FLAG_ALLOW_COLD_REBOOT \<equiv> 0x20"
abbreviation (input) BOOT_FLAG_ALLOW_WARM_REBOOT :: u8 where "BOOT_FLAG_ALLOW_WARM_REBOOT \<equiv> 0x10"
abbreviation (input) BOOT_FLAG_SKIP_AUTOBOOT :: u8 where "BOOT_FLAG_SKIP_AUTOBOOT \<equiv> 0x08"
abbreviation (input) BOOT_SUB_CHUNK_SIZE :: u64 where "BOOT_SUB_CHUNK_SIZE \<equiv> 256"
abbreviation (input) BOOT_SETUP_PMP_COMPLETE_TIMEOUT :: u64 where "BOOT_SETUP_PMP_COMPLETE_TIMEOUT \<equiv> 1000000"
abbreviation (input) BOOT_WAIT_TIMEOUT :: u64 where "BOOT_WAIT_TIMEOUT \<equiv> 5000000"

text \<open>\<^verbatim>\<open>localData\<close>; the constant \<^verbatim>\<open>target\<close> of entry \<open>i\<close> is \<open>i + 1\<close>, its machine's index.\<close>

record HSS_Boot_LocalData =
  pChunk :: u64
  pZiChunk :: u64
  chunkCount :: u64
  ziChunkCount :: u64
  subChunkOffset :: u64
  msgIndex :: nat
  hartMask :: u32
  perfCtr :: int
  bl_iterator :: nat
  ancilliaryData :: u64
  msgIndexAux :: "nat list"

record boot_world = dom_world +
  mem :: memory
  ddr_start :: u64
  ddr_size :: u64
  ddrhi_start :: u64
  ddrhi_size :: u64
  pBootImage :: u64
  pmpSetupFlag :: "bool list"
  localData :: "HSS_Boot_LocalData list"
  bootComplete :: "bool list"
  BOOT_FAIL_CR :: u32
  MSS_STATUS :: u32
  pmp_configured :: "hart list"

text \<open>
  The pointer \<^verbatim>\<open>ancilliaryData\<close> of the first entry starts as the address of \<^verbatim>\<open>boot_info\<close>
  (init/hss_boot_init.c) in a build with a QSPI service, and as null otherwise.
\<close>

definition init_local :: "u64 \<Rightarrow> HSS_Boot_LocalData" where
  "init_local anc = \<lparr> pChunk = 0, pZiChunk = 0, chunkCount = 0, ziChunkCount = 0,
     subChunkOffset = 0, msgIndex = IPI_MAX_NUM_OUTSTANDING_COMPLETES, hartMask = 0,
     perfCtr = PERF_CTR_UNINITIALIZED, bl_iterator = 0, ancilliaryData = anc, msgIndexAux = [0, 0, 0, 0] \<rparr>"

definition localData_init :: "u64 \<Rightarrow> HSS_Boot_LocalData list" where
  "localData_init boot_info = [init_local boot_info, init_local 0, init_local 0, init_local 0]"

text \<open>\<^verbatim>\<open>bootMachine\<close>: machine index and hart.\<close>

definition bootMachine :: "(nat \<times> hart) list" where
  "bootMachine = [(1, HSS_HART_U54_1), (2, HSS_HART_U54_2), (3, HSS_HART_U54_3), (4, HSS_HART_U54_4)]"

definition local_of :: "nat \<Rightarrow> 'a boot_world_scheme \<Rightarrow> HSS_Boot_LocalData" where
  "local_of m w = localData w ! (m - 1)"

definition local_update ::
    "nat \<Rightarrow> (HSS_Boot_LocalData \<Rightarrow> HSS_Boot_LocalData) \<Rightarrow> 'a boot_world_scheme \<Rightarrow> 'a boot_world_scheme" where
  "local_update m f w = w\<lparr>localData := (localData w)[m - 1 := f (localData w ! (m - 1))]\<rparr>"

subsection \<open>The boot image in memory\<close>

abbreviation (input) IMG_SIZE :: nat where "IMG_SIZE \<equiv> 1632"
abbreviation (input) IMG_V0_SIZE :: nat where "IMG_V0_SIZE \<equiv> 1552"

definition img_magic :: "memory \<Rightarrow> u64 \<Rightarrow> u32" where "img_magic mm p = rd32 mm p"
definition img_version :: "memory \<Rightarrow> u64 \<Rightarrow> u32" where "img_version mm p = rd32 mm (p + 4)"
definition img_headerCrc :: "memory \<Rightarrow> u64 \<Rightarrow> u32" where "img_headerCrc mm p = rd32 mm (p + 16)"
definition img_chunkTableOffset :: "memory \<Rightarrow> u64 \<Rightarrow> u64" where "img_chunkTableOffset mm p = rd64 mm (p + 24)"
definition img_ziChunkTableOffset :: "memory \<Rightarrow> u64 \<Rightarrow> u64" where "img_ziChunkTableOffset mm p = rd64 mm (p + 32)"

text \<open>\<^verbatim>\<open>pBootImage->hart[h-1]\<close>: 296 bytes per hart from offset 40.\<close>

definition img_hart :: "u64 \<Rightarrow> hart \<Rightarrow> u64" where "img_hart p h = p + 40 + 296 * of_nat (h - 1)"
definition hart_entryPoint :: "hart \<Rightarrow> 'a boot_world_scheme \<Rightarrow> u64" where
  "hart_entryPoint h w = rd64 (mem w) (img_hart (pBootImage w) h)"
definition hart_privMode :: "hart \<Rightarrow> 'a boot_world_scheme \<Rightarrow> u8" where
  "hart_privMode h w = mem w (img_hart (pBootImage w) h + 8)"
definition hart_flags :: "hart \<Rightarrow> 'a boot_world_scheme \<Rightarrow> u8" where
  "hart_flags h w = mem w (img_hart (pBootImage w) h + 9)"
definition hart_numChunks :: "hart \<Rightarrow> 'a boot_world_scheme \<Rightarrow> u64" where
  "hart_numChunks h w = rd64 (mem w) (img_hart (pBootImage w) h + 16)"
definition hart_firstChunk :: "hart \<Rightarrow> 'a boot_world_scheme \<Rightarrow> u64" where
  "hart_firstChunk h w = rd64 (mem w) (img_hart (pBootImage w) h + 24)"
definition hart_lastChunk :: "hart \<Rightarrow> 'a boot_world_scheme \<Rightarrow> u64" where
  "hart_lastChunk h w = rd64 (mem w) (img_hart (pBootImage w) h + 32)"
definition hart_name :: "hart \<Rightarrow> 'a boot_world_scheme \<Rightarrow> u8 list" where
  "hart_name h w = rd_bytes (mem w) (img_hart (pBootImage w) h + 40) 256"

text \<open>\<^verbatim>\<open>struct HSS_BootChunkDesc\<close>, 40 bytes, and \<^verbatim>\<open>struct HSS_BootZIChunkDesc\<close>, 24 bytes.\<close>

abbreviation (input) CHUNK_DESC_SIZE :: u64 where "CHUNK_DESC_SIZE \<equiv> 40"
abbreviation (input) ZI_CHUNK_DESC_SIZE :: u64 where "ZI_CHUNK_DESC_SIZE \<equiv> 24"

definition chunk_owner :: "memory \<Rightarrow> u64 \<Rightarrow> u32" where "chunk_owner mm p = rd32 mm p"
definition chunk_loadAddr :: "memory \<Rightarrow> u64 \<Rightarrow> u64" where "chunk_loadAddr mm p = rd64 mm (p + 8)"
definition chunk_execAddr :: "memory \<Rightarrow> u64 \<Rightarrow> u64" where "chunk_execAddr mm p = rd64 mm (p + 16)"
definition chunk_size :: "memory \<Rightarrow> u64 \<Rightarrow> u64" where "chunk_size mm p = rd64 mm (p + 24)"

definition zi_owner :: "memory \<Rightarrow> u64 \<Rightarrow> u32" where "zi_owner mm p = rd32 mm p"
definition zi_execAddr :: "memory \<Rightarrow> u64 \<Rightarrow> u64" where "zi_execAddr mm p = rd64 mm (p + 8)"
definition zi_size :: "memory \<Rightarrow> u64 \<Rightarrow> u64" where "zi_size mm p = rd64 mm (p + 16)"

subsection \<open>Helpers\<close>

definition HSS_DDR_IsAddrInDDR :: "u64 \<Rightarrow> 'a boot_world_scheme \<Rightarrow> bool" where
  "HSS_DDR_IsAddrInDDR addr w \<longleftrightarrow>
     (addr \<ge> ddr_start w \<and> addr \<le> ddr_start w + ddr_size w) \<or>
     (addr \<ge> ddrhi_start w \<and> addr \<le> ddrhi_start w + ddrhi_size w)"

definition boot_do_download_chunk :: "u64 \<Rightarrow> u64 \<Rightarrow> u64 \<Rightarrow> 'a boot_world_scheme \<Rightarrow> 'a boot_world_scheme option" where
  "boot_do_download_chunk chunk offset subChunkSize w = do {
     assert_c (chunk \<noteq> 0);
     assert_c (chunk_size (mem w) chunk \<noteq> 0);
     let execAddr = chunk_execAddr (mem w) chunk + offset;
     let loadAddr = pBootImage w + chunk_loadAddr (mem w) chunk + offset;
     m' \<leftarrow> memcpy_via_pdma execAddr loadAddr subChunkSize (mem w);
     Some (w\<lparr>mem := m'\<rparr>)
   }"

definition boot_do_zero_init_chunk :: "u64 \<Rightarrow> 'a boot_world_scheme \<Rightarrow> 'a boot_world_scheme option" where
  "boot_do_zero_init_chunk chunk w = do {
     assert_c (chunk \<noteq> 0);
     Some (w\<lparr>mem := mem_set (zi_execAddr (mem w) chunk) 0 (zi_size (mem w) chunk) (mem w)\<rparr>)
   }"

definition free_msg_index :: "nat \<Rightarrow> 'a boot_world_scheme \<Rightarrow> 'a boot_world_scheme option" where
  "free_msg_index m w =
     (let i = msgIndex (local_of m w) in
      if i \<noteq> IPI_MAX_NUM_OUTSTANDING_COMPLETES then do {
        w1 \<leftarrow> IPI_MessageFree HSS_HART_E51 i w;
        Some (local_update m (\<lambda>l. l\<lparr>msgIndex := IPI_MAX_NUM_OUTSTANDING_COMPLETES\<rparr>) w1)
      } else Some w)"

definition free_msg_index_aux :: "nat \<Rightarrow> hart \<Rightarrow> 'a boot_world_scheme \<Rightarrow> 'a boot_world_scheme option" where
  "free_msg_index_aux m peer w =
     (let i = msgIndexAux (local_of m w) ! (peer - 1) in
      if i \<noteq> IPI_MAX_NUM_OUTSTANDING_COMPLETES then do {
        w1 \<leftarrow> IPI_MessageFree HSS_HART_E51 i w;
        Some (local_update m (\<lambda>l. l\<lparr>msgIndexAux :=
          (msgIndexAux l)[peer - 1 := IPI_MAX_NUM_OUTSTANDING_COMPLETES]\<rparr>) w1)
      } else Some w)"

fun free_all_aux :: "nat \<Rightarrow> (nat \<times> hart) list \<Rightarrow> 'a boot_world_scheme \<Rightarrow> 'a boot_world_scheme option" where
  "free_all_aux m [] w = Some w"
| "free_all_aux m ((_, peer) # ps) w = do { w1 \<leftarrow> free_msg_index_aux m peer w; free_all_aux m ps w1 }"

text \<open>The loop of \<^verbatim>\<open>check_for_ipi_acks\<close> over the peers: \<open>result\<close> is overwritten at each turn.\<close>

fun check_peers :: "nat \<Rightarrow> (nat \<times> hart) list \<Rightarrow> bool \<times> 'a boot_world_scheme \<Rightarrow> (bool \<times> 'a boot_world_scheme) option" where
  "check_peers m [] rw = Some rw"
| "check_peers m ((_, peer) # ps) (result, w) =
     (let i = msgIndexAux (local_of m w) ! (peer - 1) in
      if i \<noteq> IPI_MAX_NUM_OUTSTANDING_COMPLETES then do {
        r \<leftarrow> IPI_MessageCheckIfComplete i w;
        w1 \<leftarrow> (if r then free_msg_index_aux m peer w else Some w);
        check_peers m ps (r, w1)
      } else check_peers m ps (result, w))"

definition check_for_ipi_acks :: "nat \<Rightarrow> 'a boot_world_scheme \<Rightarrow> (bool \<times> 'a boot_world_scheme) option" where
  "check_for_ipi_acks m w = do {
     (result, w1) \<leftarrow> check_peers m bootMachine (True, w);
     let i = msgIndex (local_of m w1);
     if i \<noteq> IPI_MAX_NUM_OUTSTANDING_COMPLETES then do {
       c \<leftarrow> IPI_MessageCheckIfComplete i w1;
       let r = (result \<and> c);
       w2 \<leftarrow> (if r then free_msg_index m w1 else Some w1);
       Some (r, w2)
     } else Some (result, w1)
   }"

subsection \<open>Requests to the application harts\<close>

text \<open>
  \<^verbatim>\<open>HSS_Boot_PMPSetupRequest\<close> and \<^verbatim>\<open>HSS_Boot_SBISetupRequest\<close>: the result, the index
  written through \<^verbatim>\<open>indexOut\<close>, and the state.  On a failed delivery the index stays
  written although its slot has been freed.
\<close>

definition boot_setup_request ::
    "IPIMessagesEnum \<Rightarrow> hart \<Rightarrow> 'a boot_world_scheme \<Rightarrow> (bool \<times> nat \<times> 'a boot_world_scheme) option" where
  "boot_setup_request message target w = do {
     assert_c (target \<noteq> HSS_HART_ALL);
     let (result, w1) = IPI_MessageAlloc HSS_HART_E51 w;
     index \<leftarrow> result;
     (ok, w2) \<leftarrow> IPI_MessageDeliver HSS_HART_E51 index target message 0 0 0 w1;
     w3 \<leftarrow> (if \<not> ok then IPI_MessageFree HSS_HART_E51 index w2 else Some w2);
     Some (ok, index, w3)
   }"

definition HSS_Boot_PMPSetupRequest :: "hart \<Rightarrow> 'a boot_world_scheme \<Rightarrow> (bool \<times> nat \<times> 'a boot_world_scheme) option" where
  "HSS_Boot_PMPSetupRequest target w = boot_setup_request IPI_MSG_PMP_SETUP target w"

definition HSS_Boot_SBISetupRequest :: "hart \<Rightarrow> 'a boot_world_scheme \<Rightarrow> (bool \<times> nat \<times> 'a boot_world_scheme) option" where
  "HSS_Boot_SBISetupRequest target w = boot_setup_request IPI_MSG_OPENSBI_INIT target w"

text \<open>
  Runs on the application hart \<open>me\<close>; \<open>pmp_configured\<close> records the calls of
  \<^verbatim>\<open>init_pmp\<close> and \<^verbatim>\<open>mss_set_apb_bus_cr\<close>, which program the hart's own registers.
\<close>

definition HSS_Boot_PMPSetupHandler :: "hart \<Rightarrow> 'a boot_world_scheme ipi_handler" where
  "HSS_Boot_PMPSetupHandler me txid source imm ext anc w = do {
     w1 \<leftarrow> HSS_U54_SetState me HSS_State_Booting w;
     f \<leftarrow> nth_opt (pmpSetupFlag w1) me;
     Some (IPI_SUCCESS,
       if \<not> f then w1\<lparr>pmpSetupFlag := (pmpSetupFlag w1)[me := True], pmp_configured := me # pmp_configured w1\<rparr>
       else w1)
   }"

subsection \<open>The states\<close>

definition boot_init_handler :: "'a boot_world_scheme sm_handler" where
  "boot_init_handler m w = Some
     (if HSS_Trigger_IsNotified True EVENT_DDR_TRAINED w \<and> HSS_Trigger_IsNotified True EVENT_STARTUP_COMPLETE w then
        if pBootImage w \<noteq> 0 then
          let w1 = w\<lparr>BOOT_FAIL_CR := 0\<rparr>;
              (t, w2) = HSS_GetTime w1;
              w3 = sm_update m (\<lambda>sm. sm\<lparr>sm_startTime := t\<rparr>) w2;
              (_, idx, w4) = HSS_PerfCtr_Allocate (perfCtr (local_of m w3)) (of_nat m) w3;
              w5 = local_update m (\<lambda>l. l\<lparr>perfCtr := idx\<rparr>) w4
          in set_state m BOOT_SETUP_PMP w5
        else set_state m BOOT_ERROR w
      else w)"

text \<open>\<^verbatim>\<open>register_harts\<close>: the loop over the peers, then the registration of the domain.\<close>

definition primary_boot_hart :: "hart \<Rightarrow> 'a boot_world_scheme \<Rightarrow> bool" where
  "primary_boot_hart target w \<longleftrightarrow> hart_numChunks target w \<noteq> 0 \<and> hart_entryPoint target w \<noteq> 0"

definition skip_opensbi :: "hart \<Rightarrow> 'a boot_world_scheme \<Rightarrow> bool" where
  "skip_opensbi h w \<longleftrightarrow> hart_flags h w AND BOOT_FLAG_SKIP_OPENSBI \<noteq> 0"

definition register_peer :: "nat \<Rightarrow> hart \<Rightarrow> 'a boot_world_scheme \<Rightarrow> 'a boot_world_scheme option" where
  "register_peer m peer w =
     (let w1 = local_update m (\<lambda>l. l\<lparr>msgIndexAux :=
           (msgIndexAux l)[peer - 1 := IPI_MAX_NUM_OUTSTANDING_COMPLETES]\<rparr>) w in
      if primary_boot_hart m w1 then
        if skip_opensbi peer w1 then mpfs_domains_deregister_hart peer w1
        else if peer = m \<or> hart_entryPoint peer w1 = hart_entryPoint m w1 then
          mpfs_domains_register_hart peer m
            (local_update m (\<lambda>l. l\<lparr>hartMask := hartMask l OR push_bit peer 1\<rparr>) w1)
        else Some w1
      else Some w1)"

fun register_peers :: "nat \<Rightarrow> (nat \<times> hart) list \<Rightarrow> 'a boot_world_scheme \<Rightarrow> 'a boot_world_scheme option" where
  "register_peers m [] w = Some w"
| "register_peers m ((_, peer) # ps) w = do { w1 \<leftarrow> register_peer m peer w; register_peers m ps w1 }"

definition register_harts :: "nat \<Rightarrow> 'a boot_world_scheme \<Rightarrow> 'a boot_world_scheme option" where
  "register_harts m w = do {
     let w1 = local_update m (\<lambda>l. l\<lparr>msgIndex := IPI_MAX_NUM_OUTSTANDING_COMPLETES\<rparr>) w;
     w2 \<leftarrow> register_peers m bootMachine w1;
     if primary_boot_hart m w2 \<and> \<not> skip_opensbi m w2 then
       mpfs_domains_register_boot_hart (hart_name m w2) (hartMask (local_of m w2)) m
         (ucast (hart_privMode m w2)) (hart_entryPoint m w2) (ancilliaryData (local_of m w2))
         (hart_flags m w2 AND BOOT_FLAG_ALLOW_COLD_REBOOT \<noteq> 0)
         (hart_flags m w2 AND BOOT_FLAG_ALLOW_WARM_REBOOT \<noteq> 0) w2
     else Some w2
   }"

definition boot_setup_pmp_onEntry :: "'a boot_world_scheme sm_handler" where
  "boot_setup_pmp_onEntry m w = register_harts m w"

definition boot_setup_pmp_handler :: "'a boot_world_scheme sm_handler" where
  "boot_setup_pmp_handler m w =
     (if msgIndex (local_of m w) = IPI_MAX_NUM_OUTSTANDING_COMPLETES then do {
        (result, idx, w1) \<leftarrow> HSS_Boot_PMPSetupRequest m w;
        let w2 = local_update m (\<lambda>l. l\<lparr>msgIndex := idx\<rparr>) w1;
        Some (if result then set_state m BOOT_SETUP_PMP_COMPLETE w2 else w2)
      } else Some (set_state m BOOT_SETUP_PMP_COMPLETE w))"

definition boot_setup_pmp_complete_onEntry :: "'a boot_world_scheme sm_handler" where
  "boot_setup_pmp_complete_onEntry m w = Some w"

definition boot_setup_pmp_complete_handler :: "'a boot_world_scheme sm_handler" where
  "boot_setup_pmp_complete_handler m w = do {
     let (elapsed, w1) = HSS_Timer_IsElapsed (sm_startTime (machines w ! m)) BOOT_SETUP_PMP_COMPLETE_TIMEOUT w;
     if elapsed then do {
       w2 \<leftarrow> free_all_aux m bootMachine w1;
       w3 \<leftarrow> free_msg_index m w2;
       Some (set_state m BOOT_ERROR w3)
     } else do {
       (acked, w2) \<leftarrow> check_for_ipi_acks m w1;
       Some (if acked then
               if hart_flags m w2 AND BOOT_FLAG_SKIP_AUTOBOOT \<noteq> 0 then set_state m BOOT_COMPLETE w2
               else set_state m BOOT_ZERO_INIT_CHUNKS w2
             else w2)
     }
   }"

definition boot_zero_init_chunks_onEntry :: "'a boot_world_scheme sm_handler" where
  "boot_zero_init_chunks_onEntry m w = do {
     assert_c (pBootImage w \<noteq> 0);
     Some (local_update m (\<lambda>l. l\<lparr>pZiChunk := pBootImage w + img_ziChunkTableOffset (mem w) (pBootImage w)\<rparr>) w)
   }"

definition boot_zero_init_chunks_handler :: "'a boot_world_scheme sm_handler" where
  "boot_zero_init_chunks_handler m w = do {
     assert_c (pBootImage w \<noteq> 0);
     let zi = pZiChunk (local_of m w);
     let next = local_update m (\<lambda>l. l\<lparr>pZiChunk := pZiChunk l + ZI_CHUNK_DESC_SIZE\<rparr>);
     if zi_size (mem w) zi \<noteq> 0 then
       if of_nat m = zi_owner (mem w) zi then
         if HSS_DDR_IsAddrInDDR (zi_execAddr (mem w) zi) w \<and> \<not> HSS_Trigger_IsNotified True EVENT_DDR_TRAINED w
         then Some w
         else map_option next (boot_do_zero_init_chunk zi w)
       else Some (next w)
     else Some (set_state m BOOT_DOWNLOAD_CHUNKS w)
   }"

definition boot_download_chunks_onEntry :: "'a boot_world_scheme sm_handler" where
  "boot_download_chunks_onEntry m w = do {
     assert_c (pBootImage w \<noteq> 0);
     Some (if hart_numChunks m w \<noteq> 0 then
       local_update m (\<lambda>l. l\<lparr>chunkCount := 0, subChunkOffset := 0,
         pChunk := pBootImage w + img_chunkTableOffset (mem w) (pBootImage w)
                   + CHUNK_DESC_SIZE * hart_firstChunk m w\<rparr>) w
     else w)
   }"

text \<open>After a sub-chunk has been copied: the offset advances, and past the size comes the next chunk.\<close>

definition advance_sub_chunk :: "nat \<Rightarrow> u64 \<Rightarrow> 'a boot_world_scheme \<Rightarrow> 'a boot_world_scheme" where
  "advance_sub_chunk m chunk w =
     local_update m (\<lambda>l.
       let off = subChunkOffset l + BOOT_SUB_CHUNK_SIZE in
       if off > chunk_size (mem w) chunk
       then l\<lparr>subChunkOffset := 0, chunkCount := chunkCount l + 1, pChunk := pChunk l + CHUNK_DESC_SIZE\<rparr>
       else l\<lparr>subChunkOffset := off\<rparr>) w"

definition boot_download_chunks_handler :: "'a boot_world_scheme sm_handler" where
  "boot_download_chunks_handler m w = do {
     assert_c (pBootImage w \<noteq> 0);
     if hart_numChunks m w \<noteq> 0 then do {
       let l = local_of m w;
       let chunk = pChunk l;
       if chunkCount l \<le> hart_lastChunk m w \<and> chunk_size (mem w) chunk \<noteq> 0 then do {
         ok \<leftarrow> (if chunk_owner (mem w) chunk AND NOT BOOT_FLAG_ANCILLIARY_DATA = of_nat m
                then HSS_PMP_CheckWrite m (chunk_execAddr (mem w) chunk) (chunk_size (mem w) chunk) w
                else Some False);
         if ok then do {
           w1 \<leftarrow> boot_do_download_chunk chunk (subChunkOffset l) BOOT_SUB_CHUNK_SIZE w;
           let w2 = (if chunk_owner (mem w1) chunk AND BOOT_FLAG_ANCILLIARY_DATA \<noteq> 0
                        \<and> ancilliaryData (local_of m w1) = 0
                     then local_update m (\<lambda>l. l\<lparr>ancilliaryData := chunk_execAddr (mem w1) chunk\<rparr>) w1
                     else w1);
           Some (advance_sub_chunk m chunk w2)
         } else Some (local_update m (\<lambda>l. l\<lparr>pChunk := pChunk l + CHUNK_DESC_SIZE\<rparr>) w)
       } else Some (set_state m BOOT_OPENSBI_INIT w)
     } else Some (set_state m BOOT_COMPLETE w)
   }"

definition boot_download_chunks_onExit :: "'a boot_world_scheme sm_handler" where
  "boot_download_chunks_onExit m w = register_harts m w"

definition boot_opensbi_init_onEntry :: "'a boot_world_scheme sm_handler" where
  "boot_opensbi_init_onEntry m w = do {
     assert_c (pBootImage w \<noteq> 0);
     Some (if hart_entryPoint m w \<noteq> 0 then local_update m (\<lambda>l. l\<lparr>bl_iterator := 0\<rparr>) w else w)
   }"

definition common_boot_message_delivery :: "nat \<Rightarrow> hart \<Rightarrow> 'a boot_world_scheme \<Rightarrow> 'a boot_world_scheme option" where
  "common_boot_message_delivery m target w = do {
     let (result, w1) = IPI_MessageAlloc HSS_HART_E51 w;
     index \<leftarrow> result;
     let w2 = local_update m (\<lambda>l. l\<lparr>msgIndexAux := (msgIndexAux l)[target - 1 := index]\<rparr>) w1;
     (ok, w3) \<leftarrow> IPI_MessageDeliver HSS_HART_E51 index target
        (if skip_opensbi target w2 then IPI_MSG_GOTO else IPI_MSG_OPENSBI_INIT)
        (ucast (hart_privMode target w2)) (hart_entryPoint target w2) (ancilliaryData (local_of m w2)) w2;
     Some (if ok then w3 else set_state m BOOT_ERROR w3)
   }"

definition boot_opensbi_init_handler :: "'a boot_world_scheme sm_handler" where
  "boot_opensbi_init_handler m w = do {
     assert_c (pBootImage w \<noteq> 0);
     if primary_boot_hart m w then
       if bl_iterator (local_of m w) < length bootMachine then do {
         let peer = snd (bootMachine ! bl_iterator (local_of m w));
         w1 \<leftarrow> (if peer = m then Some w
                else if hart_entryPoint peer w = hart_entryPoint m w then common_boot_message_delivery m peer w
                else Some w);
         Some (local_update m (\<lambda>l. l\<lparr>bl_iterator := bl_iterator l + 1\<rparr>) w1)
       } else Some (set_state m BOOT_WAIT w)
     else Some w
   }"

definition boot_opensbi_init_onExit :: "'a boot_world_scheme sm_handler" where
  "boot_opensbi_init_onExit m w = do {
     assert_c (pBootImage w \<noteq> 0);
     if hart_entryPoint m w \<noteq> 0 then common_boot_message_delivery m m w else Some w
   }"

definition boot_wait_onEntry :: "'a boot_world_scheme sm_handler" where
  "boot_wait_onEntry m w = Some w"

text \<open>
  \<^verbatim>\<open>mHSS_ReadModWriteRegU32\<close> keeps the register bits inside the mask and sets those of the
  value (include/mpfs_reg_map.h).
\<close>

definition boot_wait_handler :: "'a boot_world_scheme sm_handler" where
  "boot_wait_handler m w = do {
     let (t, w1) = HSS_GetTime w;
     let w2 = sm_update m (\<lambda>sm. sm\<lparr>sm_startTime := t\<rparr>) w1;
     if hart_entryPoint m w2 = 0 then
       map_option (set_state m BOOT_COMPLETE) (HSS_U54_SetState_Ex m HSS_State_Idle w2)
     else do {
       let (elapsed, w3) = HSS_Timer_IsElapsed (sm_startTime (machines w2 ! m)) BOOT_WAIT_TIMEOUT w2;
       if elapsed then do {
         w4 \<leftarrow> free_all_aux m bootMachine w3;
         w5 \<leftarrow> free_msg_index m w4;
         Some (set_state m BOOT_ERROR w5)
       } else do {
         (acked, w4) \<leftarrow> check_for_ipi_acks m w3;
         Some (if acked then
                 set_state m BOOT_COMPLETE
                   (w4\<lparr>MSS_STATUS := (MSS_STATUS w4 AND 0xFFFF) OR (push_bit (m - 1) 1 AND 0xFFFF)\<rparr>)
               else w4)
       }
     }
   }"

definition boot_error_handler :: "'a boot_world_scheme sm_handler" where
  "boot_error_handler m w = Some (set_state m BOOT_COMPLETE (w\<lparr>BOOT_FAIL_CR := 1\<rparr>))"

definition boot_complete_onEntry :: "'a boot_world_scheme sm_handler" where
  "boot_complete_onEntry m w = Some (w\<lparr>bootComplete := (bootComplete w)[m := True]\<rparr>)"

definition boot_complete_handler :: "'a boot_world_scheme sm_handler" where
  "boot_complete_handler m w = Some
     (if bootComplete w ! 1 \<and> bootComplete w ! 2 \<and> bootComplete w ! 3 \<and> bootComplete w ! 4
      then set_state m BOOT_IDLE (HSS_Trigger_Notify EVENT_BOOT_COMPLETE w)
      else w)"

definition boot_idle_onEntry :: "'a boot_world_scheme sm_handler" where
  "boot_idle_onEntry m w = HSS_PerfCtr_Lap (perfCtr (local_of m w)) w"

definition boot_idle_handler :: "'a boot_world_scheme ipi_registry \<Rightarrow> 'a boot_world_scheme sm_handler" where
  "boot_idle_handler ipiRegistry m w =
     map_option snd (IPI_ConsumeIntent ipiRegistry HSS_HART_E51 m IPI_MSG_BOOT_REQUEST w)"

definition boot_desc ::
    "int \<Rightarrow> 'w sm_handler option \<Rightarrow> 'w sm_handler option \<Rightarrow> 'w sm_handler \<Rightarrow> 'w StateDesc" where
  "boot_desc st entry exit h = \<lparr> sd_state = st, state_onEntry = entry, state_onExit = exit, state_handler = Some h \<rparr>"

definition boot_state_descs :: "'a boot_world_scheme ipi_registry \<Rightarrow> 'a boot_world_scheme StateDesc list" where
  "boot_state_descs ipiRegistry =
    [boot_desc BOOT_INITIALIZATION None None boot_init_handler,
     boot_desc BOOT_SETUP_PMP (Some boot_setup_pmp_onEntry) None boot_setup_pmp_handler,
     boot_desc BOOT_SETUP_PMP_COMPLETE (Some boot_setup_pmp_complete_onEntry) None boot_setup_pmp_complete_handler,
     boot_desc BOOT_ZERO_INIT_CHUNKS (Some boot_zero_init_chunks_onEntry) None boot_zero_init_chunks_handler,
     boot_desc BOOT_DOWNLOAD_CHUNKS (Some boot_download_chunks_onEntry) (Some boot_download_chunks_onExit)
       boot_download_chunks_handler,
     boot_desc BOOT_OPENSBI_INIT (Some boot_opensbi_init_onEntry) (Some boot_opensbi_init_onExit)
       boot_opensbi_init_handler,
     boot_desc BOOT_WAIT (Some boot_wait_onEntry) None boot_wait_handler,
     boot_desc BOOT_COMPLETE (Some boot_complete_onEntry) None boot_complete_handler,
     boot_desc BOOT_IDLE (Some boot_idle_onEntry) None (boot_idle_handler ipiRegistry),
     boot_desc BOOT_ERROR None None boot_error_handler]"

text \<open>The four machines share the descriptors; each starts in \<^verbatim>\<open>BOOT_IDLE\<close>.\<close>

definition boot_service :: "'a boot_world_scheme ipi_registry \<Rightarrow> 'a boot_world_scheme MachineDesc" where
  "boot_service ipiRegistry = \<lparr> numStates = BOOT_NUM_STATES, pStateDescs = boot_state_descs ipiRegistry \<rparr>"

subsection \<open>Validation of a boot image\<close>

text \<open>The header with its checksum and signature fields zeroed, as many bytes as are checked.\<close>

definition shadow_byte :: "memory \<Rightarrow> u64 \<Rightarrow> nat \<Rightarrow> u8" where
  "shadow_byte mm p i = (if (16 \<le> i \<and> i < 20) \<or> (1488 \<le> i \<and> i < 1632) then 0 else mm (p + of_nat i))"

definition shadowHdr :: "memory \<Rightarrow> u64 \<Rightarrow> nat \<Rightarrow> u8 list" where
  "shadowHdr mm p n = map (shadow_byte mm p) [0..<n]"

definition crcLen :: "memory \<Rightarrow> u64 \<Rightarrow> nat" where
  "crcLen mm p = (if img_version mm p = 0 then IMG_V0_SIZE else IMG_SIZE)"

definition validateCrc :: "memory \<Rightarrow> u64 \<Rightarrow> bool" where
  "validateCrc mm p \<longleftrightarrow> CRC32_calculate True (shadowHdr mm p (crcLen mm p)) = img_headerCrc mm p"

definition HSS_Boot_ValidateImage :: "u64 \<Rightarrow> 'a boot_world_scheme \<Rightarrow> bool" where
  "HSS_Boot_ValidateImage pImage w =
     (if pImage = 0 then False
      else if img_magic (mem w) pImage \<noteq> mHSS_BOOT_MAGIC then False
      else validateCrc (mem w) pImage)"

definition HSS_Boot_VerifyMagic :: "u64 \<Rightarrow> 'a boot_world_scheme \<Rightarrow> bool" where
  "HSS_Boot_VerifyMagic pImage w \<longleftrightarrow>
     img_magic (mem w) pImage = mHSS_BOOT_MAGIC \<or> img_magic (mem w) pImage = mHSS_COMPRESSED_MAGIC"

definition HSS_Register_Boot_Image :: "u64 \<Rightarrow> 'a boot_world_scheme \<Rightarrow> 'a boot_world_scheme" where
  "HSS_Register_Boot_Image pImage w = w\<lparr>pBootImage := pImage\<rparr>"

definition HSS_SkipBoot_IsSet :: "hart \<Rightarrow> 'a boot_world_scheme \<Rightarrow> bool option" where
  "HSS_SkipBoot_IsSet target w = do {
     assert_c (pBootImage w \<noteq> 0);
     Some (hart_flags target w AND BOOT_FLAG_SKIP_AUTOBOOT \<noteq> 0)
   }"

subsection \<open>Restarting harts\<close>

text \<open>Every case of the switch leads to \<^verbatim>\<open>BOOT_INITIALIZATION\<close> but \<^verbatim>\<open>BOOT_OPENSBI_INIT\<close>, which stays.\<close>

definition restart_machine :: "nat \<Rightarrow> 'a boot_world_scheme \<Rightarrow> 'a boot_world_scheme" where
  "restart_machine m w =
     (if sm_state (machines w ! m) = BOOT_OPENSBI_INIT then set_state m BOOT_OPENSBI_INIT w
      else set_state m BOOT_INITIALIZATION w)"

definition boot_using_hart_bitmask :: "u32 \<Rightarrow> 'a boot_world_scheme \<Rightarrow> bool \<times> 'a boot_world_scheme" where
  "boot_using_hart_bitmask restartHartBitmask w =
     (case fold (\<lambda>(m, h) (r, w). if bit restartHartBitmask h then (True, restart_machine m w) else (r, w))
        bootMachine (False, w) of
        (result, w1) \<Rightarrow> (result, HSS_Trigger_Notify EVENT_POST_BOOT w1))"

text \<open>The harts that boot with \<open>source\<close>: those with its entry point, and itself.\<close>

definition boot_set_mask :: "hart \<Rightarrow> 'a boot_world_scheme \<Rightarrow> u32" where
  "boot_set_mask source w =
     fold (\<lambda>(_, peer) b. if peer \<noteq> source \<and> hart_entryPoint peer w = hart_entryPoint source w
            then b OR push_bit peer 1 else b) bootMachine 0 OR push_bit source 1"

fun restart_from :: "hart list \<Rightarrow> u32 \<times> IPIStatusCode \<times> 'a boot_world_scheme \<Rightarrow> u32 \<times> IPIStatusCode \<times> 'a boot_world_scheme" where
  "restart_from [] s = s"
| "restart_from (source # ss) (hmask, result, w) =
     (if \<not> bit hmask source then restart_from ss (hmask, result, w)
      else
        let localMask = boot_set_mask source w;
            (result', w') = (if hart_numChunks source w \<noteq> 0 then
                               (case boot_using_hart_bitmask localMask w of
                                  (r, w1) \<Rightarrow> (if r then IPI_SUCCESS else result, w1))
                             else (result, w))
        in restart_from ss (hmask AND NOT localMask, result', w'))"

definition HSS_Boot_RestartCores_Using_Bitmask :: "u32 \<Rightarrow> 'a boot_world_scheme \<Rightarrow> IPIStatusCode \<times> 'a boot_world_scheme" where
  "HSS_Boot_RestartCores_Using_Bitmask restartHartBitmask w =
     (if pBootImage w = 0 then (IPI_FAIL, w)
      else if \<not> HSS_Boot_ValidateImage (pBootImage w) w then (IPI_FAIL, w)
      else (case restart_from [HSS_HART_U54_1..<HSS_HART_NUM_PEERS] (restartHartBitmask, IPI_FAIL, w) of
              (_, result, w') \<Rightarrow> (result, w')))"

definition HSS_Boot_RestartCore :: "hart \<Rightarrow> 'a boot_world_scheme \<Rightarrow> (IPIStatusCode \<times> 'a boot_world_scheme) option" where
  "HSS_Boot_RestartCore source w = do {
     assert_c (pBootImage w \<noteq> 0);
     Some (if source \<noteq> HSS_HART_ALL then HSS_Boot_RestartCores_Using_Bitmask (push_bit source 1) w
           else if \<not> HSS_Boot_ValidateImage (pBootImage w) w then (IPI_FAIL, w)
           else (case boot_using_hart_bitmask mHSS_BITMASK_ALL_U54 w of
                   (r, w') \<Rightarrow> (if r then IPI_SUCCESS else IPI_FAIL, w')))
   }"

definition HSS_Boot_IPIHandler :: "'a boot_world_scheme ipi_handler" where
  "HSS_Boot_IPIHandler txid source imm ext anc w = HSS_Boot_RestartCore source w"

subsection \<open>The custom boot flow\<close>

text \<open>
  \<^verbatim>\<open>HSS_Boot_Custom\<close> without \<^verbatim>\<open>CONFIG_SERVICE_BOOT_CUSTOM_FLOW\<close>'s final jump: the last hart
  with chunks is the target; its zero-init chunks and its chunks are processed in two loops
  that end at a descriptor of size 0 (\<open>None\<close>: never, or a failed assertion).
\<close>

partial_function (option) custom_zi_loop :: "hart \<Rightarrow> u64 \<Rightarrow> 'a boot_world_scheme \<Rightarrow> 'a boot_world_scheme option" where
  "custom_zi_loop target zi w =
     (if zi_size (mem w) zi \<noteq> 0 then
        Option.bind (if of_nat target = zi_owner (mem w) zi then boot_do_zero_init_chunk zi w else Some w)
          (custom_zi_loop target (zi + ZI_CHUNK_DESC_SIZE))
      else Some w)"

partial_function (option) custom_chunk_loop :: "hart \<Rightarrow> u64 \<Rightarrow> u64 \<Rightarrow> 'a boot_world_scheme \<Rightarrow> 'a boot_world_scheme option" where
  "custom_chunk_loop target chunk off w =
     (if chunk_size (mem w) chunk \<noteq> 0 then
        Option.bind (if chunk_owner (mem w) chunk = of_nat target
                     then HSS_PMP_CheckWrite target (chunk_execAddr (mem w) chunk) (chunk_size (mem w) chunk) w
                     else Some False)
          (\<lambda>ok. if ok then
                  Option.bind (boot_do_download_chunk chunk off BOOT_SUB_CHUNK_SIZE w)
                    (\<lambda>w1. if off + BOOT_SUB_CHUNK_SIZE > chunk_size (mem w1) chunk
                          then custom_chunk_loop target (chunk + CHUNK_DESC_SIZE) 0 w1
                          else custom_chunk_loop target chunk (off + BOOT_SUB_CHUNK_SIZE) w1)
                else custom_chunk_loop target (chunk + CHUNK_DESC_SIZE) off w)
      else Some w)"

definition custom_target :: "'a boot_world_scheme \<Rightarrow> hart" where
  "custom_target w = fold (\<lambda>h t. if hart_numChunks h w \<noteq> 0 then h else t) [1..<5] 0"

definition HSS_Boot_Custom :: "'a boot_world_scheme \<Rightarrow> (bool \<times> 'a boot_world_scheme) option" where
  "HSS_Boot_Custom w =
     (if pBootImage w = 0 then Some (False, w)
      else if custom_target w = 0 then Some (False, w)
      else do {
        let target = custom_target w;
        let firstChunk = hart_firstChunk target w;
        w1 \<leftarrow> custom_zi_loop target (pBootImage w + img_ziChunkTableOffset (mem w) (pBootImage w)) w;
        w2 \<leftarrow> custom_chunk_loop target
               (pBootImage w1 + img_chunkTableOffset (mem w1) (pBootImage w1) + CHUNK_DESC_SIZE * firstChunk) 0 w1;
        Some (True, w2)
      })"

subsection \<open>Image validation\<close>

lemma word_of_nat_eq_iff_small:
  "i < 2 ^ 32 \<Longrightarrow> j < 2 ^ 32 \<Longrightarrow> (of_nat i :: u64) = of_nat j \<longleftrightarrow> i = j"
  by (simp add: word_of_nat_eq_iff take_bit_nat_eq_self)

text \<open>A word in memory determines its bytes.\<close>

lemma rd32_byte: "k < 4 \<Longrightarrow> ucast (drop_bit (8 * k) (rd32 m a)) = m (a + of_nat k)"
proof -
  assume k: "k < 4"
  have four: "[0..<4] = [0, 1, 2, 3 :: nat]" by (simp add: upt_rec)
  consider "k = 0" | "k = 1" | "k = 2" | "k = 3" using k by linarith
  then show ?thesis
    by cases (intro bit_word_eqI; auto simp: rd32_def rd_bytes_def four bit_simps dest: bit_imp_le_length)+
qed

lemma rd32_changed: "k < 4 \<Longrightarrow> b \<noteq> m (a + of_nat k) \<Longrightarrow> rd32 (m(a + of_nat k := b)) a \<noteq> rd32 m a"
  using rd32_byte [of k m a] rd32_byte [of k "m(a + of_nat k := b)" a] by auto

lemma header_byte_seen:
  assumes valid: "HSS_Boot_ValidateImage p w" and i: "i < 1488" "i \<notin> {4..<8} \<union> {16..<20}"
    and b: "b \<noteq> mem w (p + of_nat i)"
  shows "\<not> HSS_Boot_ValidateImage p (w\<lparr>mem := (mem w)(p + of_nat i := b)\<rparr>)"
proof -
  let ?m = "mem w" and ?m' = "(mem w)(p + of_nat i := b)"
  have i16: "\<not> (16 \<le> i \<and> i < 20)" using i(2) by auto
  have other: "?m' (p + of_nat j) = ?m (p + of_nat j)" if "j \<noteq> i" "j < 1632" for j
    using that i(1) by (simp add: word_of_nat_eq_iff_small)
  have other4: "?m' (p + 4 + of_nat j) = ?m (p + 4 + of_nat j)" if "j < 4" for j
  proof -
    have "4 + j \<noteq> i" using i(2) that by auto
    then show ?thesis using other [of "4 + j"] that by (simp add: add.assoc)
  qed
  have other16: "?m' (p + 16 + of_nat j) = ?m (p + 16 + of_nat j)" if "j < 4" for j
  proof -
    have "16 + j \<noteq> i" using i(2) that by auto
    then show ?thesis using other [of "16 + j"] that by (simp add: add.assoc)
  qed
  have v: "img_version ?m' p = img_version ?m p"
    unfolding img_version_def rd32_def using other4 by (intro arg_cong [where f = le_word] rd_bytes_cong) auto
  have h: "img_headerCrc ?m' p = img_headerCrc ?m p"
    unfolding img_headerCrc_def rd32_def using other16 by (intro arg_cong [where f = le_word] rd_bytes_cong) auto
  let ?n = "crcLen ?m p"
  have n: "crcLen ?m' p = ?n" by (simp add: crcLen_def v)
  have ilt: "i < ?n" using i(1) by (simp add: crcLen_def)
  have le: "?n \<le> 1632" by (simp add: crcLen_def)
  have "shadowHdr ?m' p ?n = (shadowHdr ?m p ?n)[i := b]"
  proof (rule nth_equalityI)
    fix j assume "j < length (shadowHdr ?m' p ?n)"
    then have j: "j < ?n" by (simp add: shadowHdr_def)
    show "shadowHdr ?m' p ?n ! j = (shadowHdr ?m p ?n)[i := b] ! j"
    proof (cases "j = i")
      case True
      then show ?thesis using j i(1) i16 by (auto simp: shadowHdr_def shadow_byte_def)
    next
      case False
      then show ?thesis using j le other [of j] by (simp add: shadowHdr_def shadow_byte_def)
    qed
  qed (simp add: shadowHdr_def)
  moreover have "shadowHdr ?m p ?n ! i = ?m (p + of_nat i)"
    using ilt i(1) i16 by (auto simp: shadowHdr_def shadow_byte_def)
  ultimately have "CRC32_calculate True (shadowHdr ?m' p ?n) \<noteq> CRC32_calculate True (shadowHdr ?m p ?n)"
    using b ilt CRC32_update_inject [of i "shadowHdr ?m p ?n" True b] by (simp add: shadowHdr_def)
  moreover have "CRC32_calculate True (shadowHdr ?m p ?n) = img_headerCrc ?m p"
    using valid by (simp add: HSS_Boot_ValidateImage_def validateCrc_def split: if_splits)
  ultimately show ?thesis
    by (simp add: HSS_Boot_ValidateImage_def validateCrc_def n h)
qed

text \<open>
  C13.  Exactly which corruptions of the header of a valid boot image go unnoticed: if one byte of its 1632 bytes
  changes, the version field apart (it selects the length of the check), \<^verbatim>\<open>HSS_Boot_ValidateImage\<close> still
  accepts the image if the byte is one of the signature, which is zeroed for the check, and
  refuses it if it is any other, the stored checksum included.
\<close>

theorem HSS_Boot_ValidateImage_detects:
  assumes valid: "HSS_Boot_ValidateImage p w" and i: "i < 1632" "i \<notin> {4..<8}"
    and b: "b \<noteq> mem w (p + of_nat i)"
  shows "HSS_Boot_ValidateImage p (w\<lparr>mem := (mem w)(p + of_nat i := b)\<rparr>) \<longleftrightarrow> 1488 \<le> i"
proof -
  let ?m = "mem w" and ?m' = "(mem w)(p + of_nat i := b)"
  have other: "?m' (p + of_nat j) = ?m (p + of_nat j)" if "j \<noteq> i" "j < 1632" for j
    using that i(1) by (simp add: word_of_nat_eq_iff_small)
  have same: "rd32 ?m' (p + of_nat k) = rd32 ?m (p + of_nat k)" if "i \<notin> {k..<k + 4}" "k < 1000" for k
    unfolding rd32_def
  proof (intro arg_cong [where f = le_word] rd_bytes_cong)
    fix j :: nat assume "j < 4"
    then show "?m' (p + of_nat k + of_nat j) = ?m (p + of_nat k + of_nat j)"
      using other [of "k + j"] that by (auto simp: add.assoc)
  qed
  have v: "img_version ?m' p = img_version ?m p" unfolding img_version_def using same [of 4] i(2) by simp
  have n: "crcLen ?m' p = crcLen ?m p" by (simp add: crcLen_def v)
  have le: "crcLen ?m p \<le> 1632" by (simp add: crcLen_def)
  have ok: "img_magic ?m p = mHSS_BOOT_MAGIC" "p \<noteq> 0" "CRC32_calculate True (shadowHdr ?m p (crcLen ?m p)) = img_headerCrc ?m p"
    using valid by (auto simp: HSS_Boot_ValidateImage_def validateCrc_def split: if_splits)
  have zeroed: "shadowHdr ?m' p (crcLen ?m p) = shadowHdr ?m p (crcLen ?m p)" if "i \<in> {16..<20} \<union> {1488..<1632}"
    unfolding shadowHdr_def
  proof (rule map_cong [OF refl])
    fix j assume "j \<in> set [0..<crcLen ?m p]"
    then have "j < 1632" using le by simp
    then show "shadow_byte ?m' p j = shadow_byte ?m p j" using other [of j] that by (cases "j = i") (auto simp: shadow_byte_def)
  qed
  consider "1488 \<le> i" | "i \<in> {16..<20}" | "i < 1488" "i \<notin> {4..<8} \<union> {16..<20}" using i(2) by fastforce
  then show ?thesis
  proof cases
    case 1
    have "img_magic ?m' p = img_magic ?m p" "img_headerCrc ?m' p = img_headerCrc ?m p"
      unfolding img_magic_def img_headerCrc_def using same [of 0] same [of 16] 1 by simp_all
    then show ?thesis using ok zeroed 1 i(1) by (simp add: HSS_Boot_ValidateImage_def validateCrc_def n)
  next
    case 2
    then have k: "i - 16 < 4" "p + 16 + of_nat (i - 16) = p + of_nat i" by (auto simp: of_nat_diff)
    have "img_headerCrc ?m' p \<noteq> img_headerCrc ?m p"
      unfolding img_headerCrc_def using rd32_changed [OF k(1), of b ?m "p + 16", unfolded k(2), OF b] .
    then show ?thesis using ok zeroed 2 by (simp add: HSS_Boot_ValidateImage_def validateCrc_def n)
  next
    case 3
    then show ?thesis using header_byte_seen [OF valid 3 b] by simp
  qed
qed

text \<open>Storing a 32-bit word, as the image generator does with the header checksum.\<close>

definition wr32 :: "memory \<Rightarrow> u64 \<Rightarrow> u32 \<Rightarrow> memory" where
  "wr32 mm p v = mm(p := ucast v, p + 1 := ucast (drop_bit 8 v), p + 2 := ucast (drop_bit 16 v),
     p + 3 := ucast (drop_bit 24 v))"

lemma bytes_of_u32:
  "(ucast (ucast (v :: u32) :: u8) :: u32) OR push_bit 8 (ucast (ucast (drop_bit 8 v) :: u8) OR
     push_bit 8 (ucast (ucast (drop_bit 16 v) :: u8) OR push_bit 8 (ucast (ucast (drop_bit 24 v) :: u8)))) = v"
proof (rule bit_word_eqI)
  fix n :: nat assume "n < LENGTH(32)"
  then consider "n < 8" | "8 \<le> n" "n < 16" | "16 \<le> n" "n < 24" | "24 \<le> n" "n < 32"
    by fastforce
  then show "bit ((ucast (ucast (v :: u32) :: u8) :: u32) OR push_bit 8 (ucast (ucast (drop_bit 8 v) :: u8) OR
     push_bit 8 (ucast (ucast (drop_bit 16 v) :: u8) OR push_bit 8 (ucast (ucast (drop_bit 24 v) :: u8))))) n
    \<longleftrightarrow> bit v n"
    by cases (auto simp: bit_simps not_less)
qed

lemma rd32_wr32: "rd32 (wr32 mm p v) p = v"
proof -
  have "[0..<4] = [0, 1, 2, 3 :: nat]" by (simp add: upt_rec)
  then have "rd_bytes (wr32 mm p v) p 4 =
      [ucast v, ucast (drop_bit 8 v), ucast (drop_bit 16 v), ucast (drop_bit 24 v)]"
    by (simp add: rd_bytes_def wr32_def)
  then show ?thesis using bytes_of_u32 [of v] by (simp add: rd32_def)
qed

lemma wr32_other: "\<not> in_region p 4 x \<Longrightarrow> wr32 mm p v x = mm x"
  by (auto simp: wr32_def in_region_def)

lemma header_field_apart:
  assumes "i < 1632" "\<not> (16 \<le> i \<and> i < 20)"
  shows "wr32 mm (p + 16) v (p + of_nat i) = mm (p + of_nat i)"
proof (rule wr32_other)
  show "\<not> in_region (p + 16) 4 (p + of_nat i)"
  proof
    assume "in_region (p + 16) 4 (p + of_nat i)"
    then have "(of_nat i :: u64) - 16 < 4" by (simp add: in_region_def algebra_simps)
    moreover define d where "d = unat ((of_nat i :: u64) - 16)"
    ultimately have d: "d < 4" "(of_nat i :: u64) - 16 = of_nat d"
      by (simp_all add: word_less_nat_alt)
    then have "(of_nat i :: u64) = of_nat (d + 16)" by (simp add: algebra_simps)
    then have "i = d + 16" using assms(1) d(1) by (subst (asm) word_of_nat_eq_iff_small) auto
    then show False using assms(2) d(1) by simp
  qed
qed

lemma shadowHdr_sealed: "n \<le> 1632 \<Longrightarrow> shadowHdr (wr32 mm (p + 16) v) p n = shadowHdr mm p n"
  unfolding shadowHdr_def
  by (rule map_cong [OF refl]) (auto simp: shadow_byte_def header_field_apart)

text \<open>
  Sealing a header works: writing into an image with the right magic number the CRC of
  its header (checksum and signature zeroed, version 0 or current), as the payload
  generator does, gives an image that the monitor accepts.
\<close>

theorem HSS_Boot_ValidateImage_seal:
  assumes p: "p \<noteq> 0" and magic: "img_magic (mem w) p = mHSS_BOOT_MAGIC"
  shows "HSS_Boot_ValidateImage p (w\<lparr>mem := wr32 (mem w) (p + 16)
    (CRC32_calculate True (shadowHdr (mem w) p (crcLen (mem w) p)))\<rparr>)"
proof -
  let ?m = "mem w" and ?n = "crcLen (mem w) p"
  let ?c = "CRC32_calculate True (shadowHdr ?m p ?n)"
  let ?m' = "wr32 ?m (p + 16) ?c"
  have ap: "?m' (p + of_nat i) = ?m (p + of_nat i)" if "i < 1632" "\<not> (16 \<le> i \<and> i < 20)" for i
    using that by (rule header_field_apart)
  have "img_magic ?m' p = img_magic ?m p"
    unfolding img_magic_def rd32_def by (intro arg_cong [where f = le_word] rd_bytes_cong ap) auto
  moreover have v: "img_version ?m' p = img_version ?m p"
    unfolding img_version_def rd32_def
  proof (intro arg_cong [where f = le_word] rd_bytes_cong)
    fix i :: nat assume "i < 4"
    then show "?m' (p + 4 + of_nat i) = ?m (p + 4 + of_nat i)" using ap [of "4 + i"] by (simp add: add.assoc)
  qed
  moreover have "shadowHdr ?m' p ?n = shadowHdr ?m p ?n"
    by (rule shadowHdr_sealed) (simp add: crcLen_def)
  moreover have "img_headerCrc ?m' p = ?c" by (simp add: img_headerCrc_def rd32_wr32)
  ultimately show ?thesis
    using p magic by (simp add: HSS_Boot_ValidateImage_def validateCrc_def crcLen_def)
qed

theorem HSS_Boot_ValidateImage_seal_witness:
  "\<forall>w :: boot_world. \<exists>c. HSS_Boot_ValidateImage 0x1000 (w\<lparr>mem := wr32 (wr32 (\<lambda>_. 0) 0x1000 mHSS_BOOT_MAGIC) (0x1000 + 16) c\<rparr>)"
proof
  fix w :: boot_world
  let ?m = "wr32 (\<lambda>_. 0) 0x1000 mHSS_BOOT_MAGIC"
  have "img_magic (mem (w\<lparr>mem := ?m\<rparr>)) 0x1000 = mHSS_BOOT_MAGIC" by (simp add: img_magic_def rd32_wr32)
  from HSS_Boot_ValidateImage_seal [OF _ this] show "\<exists>c. HSS_Boot_ValidateImage 0x1000 (w\<lparr>mem := wr32 (wr32 (\<lambda>_. 0) 0x1000 mHSS_BOOT_MAGIC) (0x1000 + 16) c\<rparr>)" by auto
qed

text \<open>A valid image for the witnesses: magic number, zeroes and the checksum that fits.\<close>

definition demo_crc :: u32 where
  "demo_crc = CRC32_calculate True (shadowHdr (wr32 (\<lambda>_. 0) 0x1000 mHSS_BOOT_MAGIC) 0x1000 1552)"

definition demo_image :: memory where
  "demo_image = wr32 (wr32 (\<lambda>_. 0) 0x1000 mHSS_BOOT_MAGIC) (0x1000 + 16) demo_crc"

lemma demo_valid: "HSS_Boot_ValidateImage 0x1000 (w\<lparr>mem := demo_image\<rparr>)"
proof -
  let ?m = "wr32 (\<lambda>_. 0) 0x1000 mHSS_BOOT_MAGIC"
  have bytes: "demo_image (0x1000 + of_nat i) = ?m (0x1000 + of_nat i)" if "i < 1632" "\<not> (16 \<le> i \<and> i < 20)" for i
    unfolding demo_image_def using that by (rule header_field_apart)
  have magic: "img_magic demo_image 0x1000 = mHSS_BOOT_MAGIC"
  proof -
    have "img_magic demo_image 0x1000 = img_magic ?m 0x1000"
      unfolding img_magic_def rd32_def by (intro arg_cong [where f = le_word] rd_bytes_cong bytes) auto
    then show ?thesis by (simp add: img_magic_def rd32_wr32)
  qed
  have version: "img_version demo_image 0x1000 = 0"
  proof -
    have "[0..<4] = [0, 1, 2, 3 :: nat]" by (simp add: upt_rec)
    then show ?thesis
      using bytes [of 4] bytes [of 5] bytes [of 6] bytes [of 7]
      by (simp add: img_version_def rd32_def rd_bytes_def wr32_def)
  qed
  have "shadowHdr demo_image 0x1000 1552 = shadowHdr ?m 0x1000 1552"
    unfolding demo_image_def by (rule shadowHdr_sealed) simp
  then have "validateCrc demo_image 0x1000"
    by (simp add: validateCrc_def crcLen_def version img_headerCrc_def)
      (simp add: demo_image_def demo_crc_def rd32_wr32 [of _ "0x1010", simplified])
  then show ?thesis by (simp add: HSS_Boot_ValidateImage_def magic)
qed

theorem HSS_Boot_ValidateImage_detects_witness:
  "\<forall>w :: boot_world. \<not> HSS_Boot_ValidateImage 0x1000 (w\<lparr>mem := demo_image(0x1000 + of_nat 40 := 0x55)\<rparr>)
    \<and> HSS_Boot_ValidateImage 0x1000 (w\<lparr>mem := demo_image(0x1000 + of_nat 1500 := 0x55)\<rparr>)"
proof
  fix w :: boot_world
  have b: "0x55 \<noteq> mem (w\<lparr>mem := demo_image\<rparr>) (0x1000 + of_nat 40)" "0x55 \<noteq> mem (w\<lparr>mem := demo_image\<rparr>) (0x1000 + of_nat 1500)"
    by (simp_all add: demo_image_def wr32_def)
  show "\<not> HSS_Boot_ValidateImage 0x1000 (w\<lparr>mem := demo_image(0x1000 + of_nat 40 := 0x55)\<rparr>)
    \<and> HSS_Boot_ValidateImage 0x1000 (w\<lparr>mem := demo_image(0x1000 + of_nat 1500 := 0x55)\<rparr>)"
    using HSS_Boot_ValidateImage_detects [OF demo_valid [of w] _ _ b(1)]
      HSS_Boot_ValidateImage_detects [OF demo_valid [of w] _ _ b(2)] by simp
qed

subsection \<open>Frames\<close>

lemma local_update_simps [simp]:
  "machines (local_update m f w) = machines w"
  "ipi_queues (local_update m f w) = ipi_queues w"
  "ipi_completes (local_update m f w) = ipi_completes w"
  "mem (local_update m f w) = mem w"
  "pBootImage (local_update m f w) = pBootImage w"
  "length (localData (local_update m f w)) = length (localData w)"
  "hart_ledger (local_update m f w) = hart_ledger w"
  "mpfs_hart_index2id (local_update m f w) = mpfs_hart_index2id w"
  "mtime (local_update m f w) = mtime w"
  "time_reads (local_update m f w) = time_reads w"
  "ipi_wf (local_update m f w) = ipi_wf w"
  "pmpEntry (local_update m f w) = pmpEntry w"
  by (simp_all add: local_update_def ipi_wf_def)

lemma local_of_cong: "localData v = localData w \<Longrightarrow> local_of m v = local_of m w"
  by (simp add: local_of_def)

lemma local_of_local_update [simp]:
  "m \<in> {1..4} \<Longrightarrow> length (localData w) = 4 \<Longrightarrow> local_of m (local_update m f w) = f (local_of m w)"
  by (auto simp: local_of_def local_update_def)

lemma more_boot:
  "ipi_data.more v = ipi_data.more w \<Longrightarrow>
     localData v = localData w \<and> machines v = machines w \<and> mem v = mem w \<and> pBootImage v = pBootImage w
     \<and> bootComplete v = bootComplete w \<and> hart_ledger v = hart_ledger (w :: 'a boot_world_scheme)
     \<and> mtime v = mtime w \<and> time_reads v = time_reads w"
  by (cases v; cases w) simp

lemma MessageFree_boot:
  assumes "IPI_MessageFree me i w = Some w'"
  shows "localData w' = localData w" "machines w' = machines w" "mem w' = mem w" "pBootImage w' = pBootImage w"
  using more_boot [OF IPI_MessageFree_more [OF assms]] by simp_all

lemma free_aux_machines:
  "free_msg_index_aux m peer w = Some w' \<Longrightarrow>
     machines w' = machines w \<and> mem w' = mem w \<and> pBootImage w' = pBootImage w"
  by (auto simp: free_msg_index_aux_def Let_def Option.bind_eq_Some_conv dest: MessageFree_boot split: if_splits)

lemma free_msg_machines:
  "free_msg_index m w = Some w' \<Longrightarrow> machines w' = machines w \<and> mem w' = mem w \<and> pBootImage w' = pBootImage w"
  by (auto simp: free_msg_index_def Let_def Option.bind_eq_Some_conv dest: MessageFree_boot split: if_splits)

lemma check_peers_machines:
  "check_peers m ps rw = Some (r, w') \<Longrightarrow>
     machines w' = machines (snd rw) \<and> mem w' = mem (snd rw) \<and> pBootImage w' = pBootImage (snd rw)"
proof (induction m ps rw arbitrary: r w' rule: check_peers.induct)
  case (1 m rw)
  then show ?case by simp
next
  case (2 m u peer ps result w)
  show ?case
  proof (cases "msgIndexAux (local_of m w) ! (peer - 1) = IPI_MAX_NUM_OUTSTANDING_COMPLETES")
    case True
    with 2 show ?thesis by simp
  next
    case False
    with 2(3) obtain c w1 where c: "IPI_MessageCheckIfComplete (msgIndexAux (local_of m w) ! (peer - 1)) w = Some c"
      "(if c then free_msg_index_aux m peer w else Some w) = Some w1" "check_peers m ps (c, w1) = Some (r, w')"
      by (auto simp: Let_def Option.bind_eq_Some_conv)
    have "machines w1 = machines w \<and> mem w1 = mem w \<and> pBootImage w1 = pBootImage w"
      using c(2) free_aux_machines by (auto split: if_splits)
    with 2(1) [OF refl False c(1) c(2,3)] show ?thesis by simp
  qed
qed

lemma check_acks_machines:
  "check_for_ipi_acks m w = Some (r, w') \<Longrightarrow>
     machines w' = machines w \<and> mem w' = mem w \<and> pBootImage w' = pBootImage w"
  by (auto simp: check_for_ipi_acks_def Let_def Option.bind_eq_Some_conv
      dest!: check_peers_machines free_msg_machines split: if_splits)

lemma set_state_machines [simp]:
  "m < length (machines w) \<Longrightarrow> sm_state (machines (set_state m st w) ! m) = st"
  by (simp add: set_state_def)

subsection \<open>The wait state\<close>

text \<open>
  The five second timeout of \<^verbatim>\<open>boot_wait_handler\<close> does not measure the wait: the
  handler takes the start time itself, at every call, just before it compares.  However
  long the machine has waited before, its error state is entered only if five seconds pass
  between two consecutive reads of the clock.
\<close>

theorem boot_wait_never_times_out:
  assumes w: "boot_wait_handler m w = Some w'"
    and m: "m < length (machines w)" "sm_state (machines w ! m) = BOOT_WAIT"
    and slow: "mtime w (time_reads w + 1) \<le> mtime w (time_reads w) + BOOT_WAIT_TIMEOUT"
  shows "sm_state (machines w' ! m) \<in> {BOOT_WAIT, BOOT_COMPLETE}"
proof -
  define w2 where "w2 = sm_update m (\<lambda>sm. sm\<lparr>sm_startTime := mtime w (time_reads w)\<rparr>)
     (w\<lparr>time_reads := time_reads w + 1\<rparr>)"
  have st: "sm_state (machines w2 ! m) = BOOT_WAIT" "m < length (machines w2)"
    "sm_startTime (machines w2 ! m) = mtime w (time_reads w)"
    using m by (simp_all add: w2_def)
  have t: "HSS_Timer_IsElapsed (sm_startTime (machines w2 ! m)) BOOT_WAIT_TIMEOUT w2
      = (False, w2\<lparr>time_reads := time_reads w + 2\<rparr>)"
    using slow by (simp add: HSS_Timer_IsElapsed_def HSS_GetTime_def st(3))
      (simp add: w2_def sm_update_def not_less)
  have unf: "boot_wait_handler m w = (if hart_entryPoint m w2 = 0
      then map_option (set_state m BOOT_COMPLETE) (HSS_U54_SetState_Ex m HSS_State_Idle w2)
      else do {
         (acked, w4) \<leftarrow> check_for_ipi_acks m (w2\<lparr>time_reads := time_reads w + 2\<rparr>);
         Some (if acked then
                 set_state m BOOT_COMPLETE
                   (w4\<lparr>MSS_STATUS := (MSS_STATUS w4 AND 0xFFFF) OR (push_bit (m - 1) 1 AND 0xFFFF)\<rparr>)
               else w4)
       })"
    using t by (simp add: boot_wait_handler_def HSS_GetTime_def w2_def)
  show ?thesis
  proof (cases "hart_entryPoint m w2 = 0")
    case True
    with w unf st show ?thesis by (auto simp: HSS_U54_SetState_Ex_def split: if_splits)
  next
    case False
    with w unf obtain r w4 where c: "check_for_ipi_acks m (w2\<lparr>time_reads := time_reads w + 2\<rparr>) = Some (r, w4)"
      "w' = (if r then set_state m BOOT_COMPLETE
                   (w4\<lparr>MSS_STATUS := (MSS_STATUS w4 AND 0xFFFF) OR (push_bit (m - 1) 1 AND 0xFFFF)\<rparr>)
               else w4)"
      by (auto simp: Option.bind_eq_Some_conv)
    then have "machines w4 = machines w2" using check_acks_machines [OF c(1)] by simp
    then show ?thesis using c(2) st by (auto split: if_splits)
  qed
qed

lemma rd_zero [simp]: "rd32 (\<lambda>_. 0) a = 0" "rd64 (\<lambda>_. 0) a = 0"
proof -
  have "(le_word (map (\<lambda>i :: nat. 0) xs) :: 'c::len word) = 0" for xs by (induction xs) auto
  then show "rd32 (\<lambda>_. 0) a = 0" "rd64 (\<lambda>_. 0) a = 0"
    by (simp_all add: rd32_def rd64_def rd_bytes_def)
qed

theorem boot_wait_never_times_out_witness:
  "\<forall>w :: boot_world. \<exists>w'. boot_wait_handler 1
     (w\<lparr>mem := \<lambda>_. 0, machines := replicate 5 (initial_machine BOOT_WAIT), mtime := \<lambda>_. 0\<rparr>) = Some w'
     \<and> sm_state (machines w' ! 1) \<in> {BOOT_WAIT, BOOT_COMPLETE}"
proof
  fix w :: boot_world
  let ?w = "w\<lparr>mem := \<lambda>_. 0, machines := replicate 5 (initial_machine BOOT_WAIT), mtime := \<lambda>_. 0\<rparr>"
  obtain w' where w': "boot_wait_handler 1 ?w = Some w'"
    by (simp add: boot_wait_handler_def HSS_GetTime_def hart_entryPoint_def sm_update_def HSS_U54_SetState_Ex_def)
  have "1 < length (machines ?w)" "sm_state (machines ?w ! 1) = BOOT_WAIT"
    "mtime ?w (time_reads ?w + 1) \<le> mtime ?w (time_reads ?w) + BOOT_WAIT_TIMEOUT"
    by (simp_all add: initial_machine_def)
  from boot_wait_never_times_out [OF w' this] w'
  show "\<exists>w'. boot_wait_handler 1 ?w = Some w' \<and> sm_state (machines w' ! 1) \<in> {BOOT_WAIT, BOOT_COMPLETE}" by blast
qed

subsection \<open>Acknowledgements\<close>

text \<open>
  \<^verbatim>\<open>check_for_ipi_acks\<close> can answer yes too early: the verdict on each peer overwrites
  the one before, so when the request to the last peer is complete the answer is yes
  although the request to an earlier peer is still pending, and its slot stays allocated.
\<close>

theorem check_for_ipi_acks_last_wins:
  assumes m: "m \<in> {1..4}" "length (localData w) = 4"
    and aux: "msgIndexAux (local_of m w) = [i, IPI_MAX_NUM_OUTSTANDING_COMPLETES, IPI_MAX_NUM_OUTSTANDING_COMPLETES, j]"
    and own: "msgIndex (local_of m w) = IPI_MAX_NUM_OUTSTANDING_COMPLETES"
    and wf: "ipi_wf w" and ij: "i < IPI_MAX_NUM_OUTSTANDING_COMPLETES" "j < IPI_MAX_NUM_OUTSTANDING_COMPLETES" "i \<noteq> j"
    and pending: "IPI_MessageCheckIfComplete i w = Some False"
    and fin: "IPI_MessageCheckIfComplete j w = Some True"
  shows "\<exists>w'. check_for_ipi_acks m w = Some (True, w') \<and> IPI_MessageCheckIfComplete i w' = Some False"
proof -
  let ?M = IPI_MAX_NUM_OUTSTANDING_COMPLETES
  have len: "length (ipi_completes w) = ?M" using wf by (simp add: ipi_wf_def)
  have used_j: "used (ipi_completes w ! j)"
    using fin ij by (auto simp: IPI_MessageCheckIfComplete_def len split: if_splits)
  obtain w1 where w1: "IPI_MessageFree HSS_HART_E51 j w = Some w1"
    "ipi_completes w1 = (ipi_completes w)[j := (ipi_completes w ! j)\<lparr>used := False\<rparr>]"
    using ij used_j len by (auto simp: IPI_MessageFree_def)
  have loc1: "local_of m w1 = local_of m w" "length (localData w1) = 4"
    using MessageFree_boot [OF w1(1)] m(2) by (simp_all add: local_of_def)
  let ?w2 = "local_update m (\<lambda>l. l\<lparr>msgIndexAux := (msgIndexAux l)[4 - 1 := ?M]\<rparr>) w1"
  have "free_msg_index_aux m 4 w = Some ?w2"
    using ij w1 by (simp add: free_msg_index_aux_def Let_def aux)
  then have "check_peers m bootMachine (True, w) = Some (True, ?w2)"
    using ij pending fin by (simp add: bootMachine_def Let_def aux)
  moreover have "msgIndex (local_of m ?w2) = ?M" using m(1) loc1 own by simp
  ultimately have "check_for_ipi_acks m w = Some (True, ?w2)"
    by (simp add: check_for_ipi_acks_def Let_def)
  moreover have "IPI_MessageCheckIfComplete i ?w2 = Some False"
    using pending ij w1(2) by (simp add: IPI_MessageCheckIfComplete_def len)
  ultimately show ?thesis by blast
qed

text \<open>A state in which one request is pending and another complete.\<close>

definition acks_demo :: "'a boot_world_scheme \<Rightarrow> 'a boot_world_scheme" where
  "acks_demo w = (snd (IPI_QueuesInit (w\<lparr>MSIP := replicate 5 0\<rparr>)))
     \<lparr>ipi_completes := \<lparr>used = True, c_transaction_id = 1, c_status = IPI_PENDING\<rparr> #
        \<lparr>used = True, c_transaction_id = 2, c_status = IPI_IDLE\<rparr> # replicate 30 zero_complete,
      localData := map (\<lambda>l. l\<lparr>msgIndexAux := [0, 32, 32, 1]\<rparr>) (localData_init 0)\<rparr>"

theorem check_for_ipi_acks_last_wins_witness:
  "\<forall>w :: boot_world. \<exists>w'. check_for_ipi_acks 1 (acks_demo w) = Some (True, w')
     \<and> IPI_MessageCheckIfComplete 0 w' = Some False"
proof
  fix w :: boot_world
  have M: "IPI_MAX_NUM_OUTSTANDING_COMPLETES = 32"
    by (simp add: IPI_MAX_NUM_OUTSTANDING_COMPLETES_def IPI_MAX_NUM_QUEUE_MESSAGES_def)
  have "ipi_wf (acks_demo w)"
    by (simp add: ipi_wf_def acks_demo_def IPI_QueuesInit_def M zero_queue_def)
  moreover have "length (localData (acks_demo w)) = 4"
    "msgIndexAux (local_of 1 (acks_demo w)) = [0, IPI_MAX_NUM_OUTSTANDING_COMPLETES, IPI_MAX_NUM_OUTSTANDING_COMPLETES, 1]"
    "msgIndex (local_of 1 (acks_demo w)) = IPI_MAX_NUM_OUTSTANDING_COMPLETES"
    by (simp_all add: acks_demo_def localData_init_def init_local_def local_of_def M)
  moreover have "IPI_MessageCheckIfComplete 0 (acks_demo w) = Some False"
    "IPI_MessageCheckIfComplete 1 (acks_demo w) = Some True"
    by (simp_all add: IPI_MessageCheckIfComplete_def acks_demo_def M)
  ultimately show "\<exists>w'. check_for_ipi_acks 1 (acks_demo w) = Some (True, w')
     \<and> IPI_MessageCheckIfComplete 0 w' = Some False"
    by (intro check_for_ipi_acks_last_wins [of 1 "acks_demo w" 0 1]) (simp_all add: M)
qed

subsection \<open>A PMP request that cannot be delivered\<close>

lemma MAX_completes: "IPI_MAX_NUM_OUTSTANDING_COMPLETES = 32"
  by (simp add: IPI_MAX_NUM_OUTSTANDING_COMPLETES_def IPI_MAX_NUM_QUEUE_MESSAGES_def)

lemma set_state_boot [simp]:
  "localData (set_state m st w) = localData w"
  "ipi_completes (set_state m st w) = ipi_completes w"
  "ipi_queues (set_state m st w) = ipi_queues w"
  "pBootImage (set_state m st w) = pBootImage w"
  "mem (set_state m st w) = mem w"
  "length (machines (set_state m st w)) = length (machines w)"
  "local_of k (set_state m st w) = local_of k w"
  by (simp_all add: set_state_def sm_update_def local_of_def)

lemma Timer_boot:
  "HSS_Timer_IsElapsed st d w = (e, w') \<Longrightarrow> localData w' = localData w \<and> machines w' = machines w
     \<and> ipi_completes w' = ipi_completes (w :: 'a boot_world_scheme)"
  by (auto simp: HSS_Timer_IsElapsed_def HSS_GetTime_def)

text \<open>
  If the queue to a hart is full when the boot service asks it to set up its PMPs, the
  request's slot is freed but stays recorded as the machine's outstanding message: the
  next run goes on to wait for it, and when the wait times out the clean-up frees the slot
  a second time and stops the monitor at the assertion in \<^verbatim>\<open>IPI_MessageFree\<close>.
\<close>

theorem boot_setup_pmp_lost_request_hangs:
  assumes m: "m \<in> {1..4}" "length (localData w) = 4" "m < length (machines w)"
    and wf: "ipi_wf w" and own: "msgIndex (local_of m w) = IPI_MAX_NUM_OUTSTANDING_COMPLETES"
    and aux: "msgIndexAux (local_of m w) = replicate 4 IPI_MAX_NUM_OUTSTANDING_COMPLETES"
    and full: "size (mailbox_of HSS_HART_E51 m w) = IPI_MAX_NUM_QUEUE_MESSAGES"
    and slot: "fst (IPI_MessageAlloc HSS_HART_E51 w) = Some i"
  shows "\<exists>w1 w2. boot_setup_pmp_handler m w = Some w1
    \<and> sm_state (machines w1 ! m) = sm_state (machines w ! m)
    \<and> boot_setup_pmp_handler m w1 = Some w2 \<and> sm_state (machines w2 ! m) = BOOT_SETUP_PMP_COMPLETE
    \<and> (fst (HSS_Timer_IsElapsed (sm_startTime (machines w2 ! m)) BOOT_SETUP_PMP_COMPLETE_TIMEOUT w2)
         \<longrightarrow> boot_setup_pmp_complete_handler m w2 = None)"
proof -
  let ?M = IPI_MAX_NUM_OUTSTANDING_COMPLETES
  have p: "peers HSS_HART_E51 m" using m(1) by (auto simp: peers_def)
  obtain wa where wa: "IPI_MessageAlloc HSS_HART_E51 w = (Some i, wa)"
    using slot by (cases "IPI_MessageAlloc HSS_HART_E51 w") auto
  note al = alloc_spec [OF wf _ wa]
  have ma: "localData wa = localData w" "machines wa = machines w"
    using more_boot [of wa w] IPI_MessageAlloc_more [of HSS_HART_E51 w] by (simp_all add: wa)
  have len: "length (ipi_completes w) = ?M" using wf by (simp add: ipi_wf_def)
  have i: "i < ?M" using al by simp
  have ca: "ipi_completes wa ! i =
      \<lparr>used = True, c_transaction_id = my_transaction_id w ! HSS_HART_E51, c_status = IPI_PENDING\<rparr>"
    using al len by simp
  have "size (mailbox_of HSS_HART_E51 m wa) = IPI_MAX_NUM_QUEUE_MESSAGES"
    using full al by (simp add: mailbox_of_def)
  then have d: "IPI_MessageDeliver HSS_HART_E51 i m IPI_MSG_PMP_SETUP 0 0 0 wa = Some (False, wa)"
    using IPI_Send_spec [OF _ p, of wa IPI_MSG_PMP_SETUP] al i len ca
    by (simp add: IPI_MessageDeliver_def)
  obtain wf' where fr: "IPI_MessageFree HSS_HART_E51 i wa = Some wf'"
    "ipi_completes wf' = (ipi_completes wa)[i := (ipi_completes wa ! i)\<lparr>used := False\<rparr>]"
    using ca i al len by (auto simp: IPI_MessageFree_def)
  have mf: "localData wf' = localData w" "machines wf' = machines w"
    using MessageFree_boot [OF fr(1)] ma by simp_all
  define w1 where "w1 = local_update m (\<lambda>l. l\<lparr>msgIndex := i\<rparr>) wf'"
  have h1: "boot_setup_pmp_handler m w = Some w1"
    using own m(1) by (simp add: boot_setup_pmp_handler_def HSS_Boot_PMPSetupRequest_def boot_setup_request_def
        Let_def wa d fr w1_def)
  have loc1: "local_of m w1 = (local_of m w)\<lparr>msgIndex := i\<rparr>" "length (localData w1) = 4"
    using m mf by (simp_all add: w1_def local_of_cong [of wf' w])
  define w2 where "w2 = set_state m BOOT_SETUP_PMP_COMPLETE w1"
  have h2: "boot_setup_pmp_handler m w1 = Some w2"
    using i by (simp add: boot_setup_pmp_handler_def loc1 w2_def)
  have stuck: "boot_setup_pmp_complete_handler m w2 = None"
    if el: "fst (HSS_Timer_IsElapsed (sm_startTime (machines w2 ! m)) BOOT_SETUP_PMP_COMPLETE_TIMEOUT w2)"
  proof -
    obtain w3 where w3: "HSS_Timer_IsElapsed (sm_startTime (machines w2 ! m)) BOOT_SETUP_PMP_COMPLETE_TIMEOUT w2 = (True, w3)"
      using el by (intro that [of "snd (HSS_Timer_IsElapsed (sm_startTime (machines w2 ! m))
        BOOT_SETUP_PMP_COMPLETE_TIMEOUT w2)"]) (simp add: prod_eq_iff)
    have loc3: "local_of m w3 = local_of m w1" "ipi_completes w3 = ipi_completes w1"
      using Timer_boot [OF w3] by (simp_all add: w2_def local_of_def)
    have "free_all_aux m bootMachine w3 = Some w3"
      by (simp add: bootMachine_def free_msg_index_aux_def Let_def loc3 loc1 aux numeral_eq_Suc)
    moreover have "ipi_completes w1 ! i = (ipi_completes wa ! i)\<lparr>used := False\<rparr>"
      using i al len by (simp add: w1_def fr)
    then have "free_msg_index m w3 = None"
      using i by (simp add: free_msg_index_def Let_def loc3 loc1 IPI_MessageFree_def nth_opt_def)
    ultimately show ?thesis
      by (simp add: boot_setup_pmp_complete_handler_def Let_def w3)
  qed
  have s1: "sm_state (machines w1 ! m) = sm_state (machines w ! m)" by (simp add: w1_def mf)
  have s2: "sm_state (machines w2 ! m) = BOOT_SETUP_PMP_COMPLETE"
    using m(3) by (simp add: w2_def w1_def mf)
  show ?thesis
    using h1 h2 stuck s1 s2 by blast
qed

text \<open>A state with a full queue from the monitor to the first hart.\<close>

definition full_demo :: "'a boot_world_scheme \<Rightarrow> 'a boot_world_scheme" where
  "full_demo w = (snd (IPI_QueuesInit (w\<lparr>MSIP := replicate 5 0\<rparr>)))
     \<lparr>ipi_queues := zero_queue\<lparr>msgQ := replicate 8 (zero_msg\<lparr>msg_type := IPI_MSG_GOTO\<rparr>)\<rparr> # replicate 19 zero_queue,
      machines := replicate 5 (initial_machine BOOT_SETUP_PMP),
      localData := map (\<lambda>l. l\<lparr>msgIndexAux := [32, 32, 32, 32]\<rparr>) (localData_init 0)\<rparr>"

theorem boot_setup_pmp_lost_request_hangs_witness:
  "\<forall>w :: boot_world. \<exists>w1. boot_setup_pmp_handler 1 (full_demo w) = Some w1
     \<and> sm_state (machines w1 ! 1) = BOOT_SETUP_PMP"
proof
  fix w :: boot_world
  let ?w = "full_demo w"
  have wf: "ipi_wf ?w"
    by (simp add: ipi_wf_def full_demo_def IPI_QueuesInit_def zero_queue_def IPI_MAX_NUM_QUEUE_MESSAGES_def)
  have mb: "size (mailbox_of HSS_HART_E51 1 ?w) = IPI_MAX_NUM_QUEUE_MESSAGES"
    by (simp add: mailbox_of_def IPI_CalculateQueueIndex_def full_demo_def pending_def is_message_def
        IPI_MAX_NUM_QUEUE_MESSAGES_def numeral_eq_Suc)
  have al: "fst (IPI_MessageAlloc HSS_HART_E51 ?w) = Some 0"
    by (simp add: IPI_MessageAlloc_def full_demo_def IPI_QueuesInit_def find_unused_replicate MAX_completes)
  have l: "length (localData ?w) = 4" "1 < length (machines ?w)" "sm_state (machines ?w ! 1) = BOOT_SETUP_PMP"
    "msgIndex (local_of 1 ?w) = IPI_MAX_NUM_OUTSTANDING_COMPLETES"
    "msgIndexAux (local_of 1 ?w) = replicate 4 IPI_MAX_NUM_OUTSTANDING_COMPLETES"
    by (simp_all add: full_demo_def localData_init_def init_local_def local_of_def MAX_completes initial_machine_def numeral_eq_Suc)
  from boot_setup_pmp_lost_request_hangs [OF _ l(1,2) wf l(4,5) mb al] l(3)
  show "\<exists>w1. boot_setup_pmp_handler 1 ?w = Some w1 \<and> sm_state (machines w1 ! 1) = BOOT_SETUP_PMP"
    by auto
qed

subsection \<open>An image without an entry point\<close>

lemma state_desc_boot:
  "state_desc (boot_service reg) BOOT_OPENSBI_INIT = Some (boot_desc BOOT_OPENSBI_INIT
     (Some boot_opensbi_init_onEntry) (Some boot_opensbi_init_onExit) boot_opensbi_init_handler)"
  by (simp add: state_desc_def boot_service_def boot_state_descs_def)

definition stuck_inv :: "nat \<Rightarrow> 'a boot_world_scheme \<Rightarrow> bool" where
  "stuck_inv m w \<longleftrightarrow> m < length (machines w) \<and> sm_state (machines w ! m) = BOOT_OPENSBI_INIT
     \<and> sm_prevState (machines w ! m) = BOOT_OPENSBI_INIT
     \<and> pBootImage w \<noteq> 0 \<and> hart_numChunks m w \<noteq> 0 \<and> hart_entryPoint m w = 0"

lemma stuck_step: "stuck_inv m w \<Longrightarrow> \<exists>w'. RunStateMachine (boot_service reg) m w = Some w' \<and> stuck_inv m w'"
  by (simp add: RunStateMachine_def state_desc_boot boot_desc_def call_opt_def boot_opensbi_init_handler_def
      primary_boot_hart_def stuck_inv_def HSS_GetTime_def sm_begin_def sm_finish_def sm_update_def Let_def
      hart_numChunks_def hart_entryPoint_def)

text \<open>
  A hart that has chunks to load but no entry point never finishes booting: once its
  machine is in the state that starts OpenSBI it stays there for every number of runs, so
  the monitor never reports the boot complete.
\<close>

theorem boot_opensbi_init_stuck:
  assumes "m < length (machines w)" "sm_state (machines w ! m) = BOOT_OPENSBI_INIT"
    and "sm_prevState (machines w ! m) = BOOT_OPENSBI_INIT"
    and "pBootImage w \<noteq> 0" "hart_numChunks m w \<noteq> 0" "hart_entryPoint m w = 0"
  shows "\<exists>w'. ((\<lambda>r. Option.bind r (RunStateMachine (boot_service reg) m)) ^^ n) (Some w) = Some w'
    \<and> sm_state (machines w' ! m) = BOOT_OPENSBI_INIT"
proof -
  have inv: "stuck_inv m w" using assms by (simp add: stuck_inv_def)
  have "\<exists>w'. ((\<lambda>r. Option.bind r (RunStateMachine (boot_service reg) m)) ^^ n) (Some w) = Some w' \<and> stuck_inv m w'"
  proof (induction n)
    case 0
    then show ?case using inv by simp
  next
    case (Suc n)
    then show ?case using stuck_step [of m _ reg] by auto
  qed
  then show ?thesis by (auto simp: stuck_inv_def)
qed

text \<open>An image whose first hart has one chunk and no entry point.\<close>

definition no_entry_image :: memory where
  "no_entry_image = (\<lambda>_. 0)(0x1038 := 1)"

lemma no_entry_image_fields:
  "pBootImage w = 0x1000 \<Longrightarrow> mem w = no_entry_image \<Longrightarrow> hart_numChunks 1 w \<noteq> 0 \<and> hart_entryPoint 1 w = 0"
  by (simp add: hart_numChunks_def hart_entryPoint_def img_hart_def rd64_def rd_bytes_def no_entry_image_def
      upt_rec)

theorem boot_opensbi_init_stuck_witness:
  "\<forall>w :: boot_world. \<exists>w'. ((\<lambda>r. Option.bind r (RunStateMachine (boot_service []) 1)) ^^ 1000)
       (Some (w\<lparr>machines := replicate 5 ((initial_machine BOOT_OPENSBI_INIT)\<lparr>sm_prevState := BOOT_OPENSBI_INIT\<rparr>),
          pBootImage := 0x1000, mem := no_entry_image\<rparr>)) = Some w'
     \<and> sm_state (machines w' ! 1) = BOOT_OPENSBI_INIT"
proof
  fix w :: boot_world
  let ?w = "w\<lparr>machines := replicate 5 ((initial_machine BOOT_OPENSBI_INIT)\<lparr>sm_prevState := BOOT_OPENSBI_INIT\<rparr>),
          pBootImage := 0x1000, mem := no_entry_image\<rparr>"
  have "1 < length (machines ?w)" "sm_state (machines ?w ! 1) = BOOT_OPENSBI_INIT"
    "sm_prevState (machines ?w ! 1) = BOOT_OPENSBI_INIT" "pBootImage ?w \<noteq> 0"
    by (simp_all add: initial_machine_def)
  moreover have "hart_numChunks 1 ?w \<noteq> 0" "hart_entryPoint 1 ?w = 0"
    using no_entry_image_fields [of ?w] by simp_all
  ultimately show "\<exists>w'. ((\<lambda>r. Option.bind r (RunStateMachine (boot_service []) 1)) ^^ 1000) (Some ?w) = Some w'
     \<and> sm_state (machines w' ! 1) = BOOT_OPENSBI_INIT"
    by (rule boot_opensbi_init_stuck)
qed

subsection \<open>PMP setup happens once\<close>

fun pmp_requests :: "hart list \<Rightarrow> 'a boot_world_scheme \<Rightarrow> 'a boot_world_scheme option" where
  "pmp_requests [] w = Some w"
| "pmp_requests (h # hs) w = do { (_, w1) \<leftarrow> HSS_Boot_PMPSetupHandler h 0 HSS_HART_E51 0 0 0 w; pmp_requests hs w1 }"

definition pmp_once :: "'a boot_world_scheme \<Rightarrow> bool" where
  "pmp_once w \<longleftrightarrow> length (pmpSetupFlag w) = 5 \<and> distinct (pmp_configured w) \<and>
     (\<forall>h<5. pmpSetupFlag w ! h \<longleftrightarrow> h \<in> set (pmp_configured w))"

lemma PMPSetupHandler_spec:
  assumes "pmp_once w" "h \<in> {1..4}"
  shows "\<exists>w'. HSS_Boot_PMPSetupHandler h t src i e a w = Some (IPI_SUCCESS, w') \<and> pmp_once w'
    \<and> set (pmp_configured w') = insert h (set (pmp_configured w)) \<and> hartStates w' = (hartStates w)[h := HSS_State_Booting]"
  using assms
  by (auto simp: HSS_Boot_PMPSetupHandler_def HSS_U54_SetState_def HSS_U54_SetState_Ex_def pmp_once_def
      nth_list_update Let_def)

lemma pmp_requests_once:
  "pmp_once w \<Longrightarrow> set hs \<subseteq> {1..4} \<Longrightarrow> \<exists>w'. pmp_requests hs w = Some w' \<and> pmp_once w'
     \<and> set (pmp_configured w') = set (pmp_configured w) \<union> set hs"
proof (induction hs arbitrary: w)
  case Nil
  then show ?case by simp
next
  case (Cons h hs)
  then obtain w1 where w1: "HSS_Boot_PMPSetupHandler h 0 HSS_HART_E51 0 0 0 w = Some (IPI_SUCCESS, w1)" "pmp_once w1"
    "set (pmp_configured w1) = insert h (set (pmp_configured w))"
    using PMPSetupHandler_spec [of w h 0 HSS_HART_E51 0 0 0] by auto
  with Cons.IH [of w1] Cons.prems show ?case by auto
qed

text \<open>
  However often the application harts are asked to set up their PMPs after reset, each
  hart that was asked programs its registers exactly once, and no other hart does.
\<close>

theorem HSS_Boot_PMPSetup_once:
  assumes "set hs \<subseteq> {1..4}" and "pmpSetupFlag w = replicate 5 False" "pmp_configured w = []"
  shows "\<exists>w'. pmp_requests hs w = Some w' \<and> distinct (pmp_configured w') \<and> set (pmp_configured w') = set hs"
proof -
  have "pmp_once w" using assms by (auto simp: pmp_once_def)
  from pmp_requests_once [OF this assms(1)] show ?thesis using assms(3) by (auto simp: pmp_once_def)
qed

theorem HSS_Boot_PMPSetup_once_witness:
  "\<forall>w :: boot_world. \<exists>w'. pmp_requests [1, 3, 1, 1] (w\<lparr>pmpSetupFlag := replicate 5 False, pmp_configured := []\<rparr>) = Some w'
     \<and> distinct (pmp_configured w') \<and> set (pmp_configured w') = {1, 3}"
proof
  fix w :: boot_world
  have "set [1, 3, 1, 1 :: nat] \<subseteq> {1..4}" by simp
  from HSS_Boot_PMPSetup_once [OF this, of "w\<lparr>pmpSetupFlag := replicate 5 False, pmp_configured := []\<rparr>"]
  obtain w' where "pmp_requests [1, 3, 1, 1] (w\<lparr>pmpSetupFlag := replicate 5 False, pmp_configured := []\<rparr>) = Some w'"
    "distinct (pmp_configured w')" "set (pmp_configured w') = set [1, 3, 1, 1]" by auto
  moreover have "set [1, 3, 1, 1 :: nat] = {1, 3}" by auto
  ultimately show "\<exists>w'. pmp_requests [1, 3, 1, 1] (w\<lparr>pmpSetupFlag := replicate 5 False, pmp_configured := []\<rparr>) = Some w'
     \<and> distinct (pmp_configured w') \<and> set (pmp_configured w') = {1, 3}" by blast
qed

subsection \<open>Domains\<close>

lemma hart_fields_cong:
  assumes "mem v = mem w" "pBootImage v = pBootImage w"
  shows "hart_entryPoint h v = hart_entryPoint h w" "hart_numChunks h v = hart_numChunks h w"
    "hart_flags h v = hart_flags h w" "hart_privMode h v = hart_privMode h w" "hart_name h v = hart_name h w"
    "hart_firstChunk h v = hart_firstChunk h w" "hart_lastChunk h v = hart_lastChunk h w"
    "skip_opensbi h v = skip_opensbi h w" "primary_boot_hart h v = primary_boot_hart h w"
  using assms
  by (simp_all add: hart_entryPoint_def hart_numChunks_def hart_flags_def hart_privMode_def hart_name_def
      hart_firstChunk_def hart_lastChunk_def skip_opensbi_def primary_boot_hart_def)

text \<open>The harts that a primary boot hart \<open>m\<close> takes into its domain.\<close>

definition domain_member :: "hart \<Rightarrow> hart \<Rightarrow> 'a boot_world_scheme \<Rightarrow> bool" where
  "domain_member m h w \<longleftrightarrow> \<not> skip_opensbi h w \<and> (h = m \<or> hart_entryPoint h w = hart_entryPoint m w)"

definition owner_after :: "hart \<Rightarrow> hart \<Rightarrow> 'a boot_world_scheme \<Rightarrow> hart" where
  "owner_after m h w = (if skip_opensbi h w then 0 else if domain_member m h w then m
     else hl_owner_hartid (hart_ledger w ! h))"

lemma ledger_local [simp]: "ledger_wf (local_update m f w) = ledger_wf w"
  by (simp add: ledger_wf_def)

lemma deregister_Some:
  "ledger_wf w \<Longrightarrow> 0 < h \<Longrightarrow> h < 5 \<Longrightarrow> mpfs_domains_deregister_hart h w =
     Some (w\<lparr>hart_ledger := (hart_ledger w)[h := (hart_ledger w ! h)\<lparr>hl_owner_hartid := 0, hl_boot_pending := 0\<rparr>],
       mpfs_hart_index2id := (mpfs_hart_index2id w)[h := None]\<rparr>)"
  by (simp add: mpfs_domains_deregister_hart_def ledger_update_Some) (simp add: ledger_wf_def)

lemma register_peer_spec:
  assumes "ledger_wf w" "length (localData w) = 4" "m \<in> {1..4}" "peer \<in> {1..4}" "primary_boot_hart m w"
  shows "\<exists>w'. register_peer m peer w = Some w' \<and> ledger_wf w' \<and> length (localData w') = 4
    \<and> mem w' = mem w \<and> pBootImage w' = pBootImage w
    \<and> (\<forall>h<5. hl_owner_hartid (hart_ledger w' ! h) =
         (if h = peer then owner_after m peer w else hl_owner_hartid (hart_ledger w ! h)))
    \<and> hartMask (local_of m w') = hartMask (local_of m w) OR (if domain_member m peer w then push_bit peer 1 else 0)"
proof -
  define w1 where "w1 = local_update m (\<lambda>l. l\<lparr>msgIndexAux :=
           (msgIndexAux l)[peer - 1 := IPI_MAX_NUM_OUTSTANDING_COMPLETES]\<rparr>) w"
  have w1: "ledger_wf w1" "length (localData w1) = 4" "mem w1 = mem w" "pBootImage w1 = pBootImage w"
    "hart_ledger w1 = hart_ledger w" "hartMask (local_of m w1) = hartMask (local_of m w)"
    using assms(1-3) by (simp_all add: w1_def)
  define w2 where "w2 = local_update m (\<lambda>l. l\<lparr>hartMask := hartMask l OR push_bit peer 1\<rparr>) w1"
  have w2: "ledger_wf w2" "length (localData w2) = 4" "mem w2 = mem w" "pBootImage w2 = pBootImage w"
    "hart_ledger w2 = hart_ledger w" "hartMask (local_of m w2) = hartMask (local_of m w) OR push_bit peer 1"
    using assms(3) w1 by (simp_all add: w2_def)
  have unf: "register_peer m peer w = (if primary_boot_hart m w then
        if skip_opensbi peer w then mpfs_domains_deregister_hart peer w1
        else if peer = m \<or> hart_entryPoint peer w = hart_entryPoint m w then mpfs_domains_register_hart peer m w2
        else Some w1
      else Some w1)"
    by (simp only: register_peer_def Let_def w1_def [symmetric] hart_fields_cong [OF w1(3,4)] w2_def)
  have lt: "peer < 5" "0 < peer" using assms(4) by auto
  consider (skip) "skip_opensbi peer w" | (mem) "domain_member m peer w"
    | (other) "\<not> skip_opensbi peer w" "\<not> domain_member m peer w" by blast
  then show ?thesis
  proof cases
    case skip
    then have nm: "\<not> domain_member m peer w" by (simp add: domain_member_def)
    have "register_peer m peer w = Some (w1\<lparr>hart_ledger := (hart_ledger w)[peer := (hart_ledger w ! peer)
        \<lparr>hl_owner_hartid := 0, hl_boot_pending := 0\<rparr>], mpfs_hart_index2id := (mpfs_hart_index2id w1)[peer := None]\<rparr>)"
      using skip assms(5) w1 lt by (simp add: unf deregister_Some)
    then show ?thesis
      using skip nm w1 lt assms(1) by (simp add: owner_after_def ledger_wf_def nth_list_update local_of_def)
  next
    case mem
    then have "register_peer m peer w = Some (w2\<lparr>hart_ledger := (hart_ledger w)[peer := (hart_ledger w ! peer)
        \<lparr>hl_owner_hartid := m, hl_boot_pending := 1, hl_reset_reason := 0, hl_reset_type := 0\<rparr>]\<rparr>)"
      using assms(5) w2 lt
      by (simp add: unf domain_member_def mpfs_domains_register_hart_def ledger_update_Some)
    moreover have "\<not> skip_opensbi peer w" using mem by (simp add: domain_member_def)
    ultimately show ?thesis
      using mem w2 lt assms(1) by (simp add: owner_after_def ledger_wf_def nth_list_update local_of_def)
  next
    case other
    then have "register_peer m peer w = Some w1"
      using assms(5) by (auto simp: unf domain_member_def)
    then show ?thesis using other w1 by (simp add: owner_after_def)
  qed
qed

lemma owner_after_cong:
  "mem v = mem w \<Longrightarrow> pBootImage v = pBootImage w \<Longrightarrow>
     hl_owner_hartid (hart_ledger v ! h) = hl_owner_hartid (hart_ledger w ! h) \<Longrightarrow>
     owner_after m h v = owner_after m h w \<and> domain_member m h v = domain_member m h w"
  by (simp add: owner_after_def domain_member_def hart_fields_cong [of v w])

lemma register_peers_spec:
  assumes "ledger_wf w" "length (localData w) = 4" "m \<in> {1..4}" "primary_boot_hart m w"
    and "snd ` set ps \<subseteq> {1..4}" "distinct (map snd ps)"
  shows "\<exists>w'. register_peers m ps w = Some w' \<and> ledger_wf w' \<and> length (localData w') = 4
    \<and> mem w' = mem w \<and> pBootImage w' = pBootImage w
    \<and> (\<forall>h<5. hl_owner_hartid (hart_ledger w' ! h) =
         (if h \<in> snd ` set ps then owner_after m h w else hl_owner_hartid (hart_ledger w ! h)))
    \<and> (\<forall>h<32. bit (hartMask (local_of m w')) h \<longleftrightarrow>
         bit (hartMask (local_of m w)) h \<or> (h \<in> snd ` set ps \<and> domain_member m h w))"
  using assms
proof (induction ps arbitrary: w)
  case Nil
  then show ?case by simp
next
  case (Cons p ps)
  obtain k peer where p: "p = (k, peer)" by (cases p)
  have pm: "peer \<in> {1..4}" using Cons.prems(5) p by auto
  from register_peer_spec [OF Cons.prems(1-3) pm Cons.prems(4)] obtain w1 where
    w1: "register_peer m peer w = Some w1" "ledger_wf w1" "length (localData w1) = 4"
      "mem w1 = mem w" "pBootImage w1 = pBootImage w"
    and ow: "\<forall>h<5. hl_owner_hartid (hart_ledger w1 ! h) =
         (if h = peer then owner_after m peer w else hl_owner_hartid (hart_ledger w ! h))"
    and mk: "hartMask (local_of m w1) = hartMask (local_of m w) OR (if domain_member m peer w then push_bit peer 1 else 0)"
    by blast
  note cong = hart_fields_cong [OF w1(4,5)]
  have pri: "primary_boot_hart m w1" using Cons.prems(4) by (simp add: cong)
  from Cons.IH [OF w1(2,3) Cons.prems(3) pri] Cons.prems(5,6) obtain w' where
    w': "register_peers m ps w1 = Some w'" "ledger_wf w'" "length (localData w') = 4"
      "mem w' = mem w1" "pBootImage w' = pBootImage w1"
    and ow': "\<forall>h<5. hl_owner_hartid (hart_ledger w' ! h) =
         (if h \<in> snd ` set ps then owner_after m h w1 else hl_owner_hartid (hart_ledger w1 ! h))"
    and mk': "\<forall>h<32. bit (hartMask (local_of m w')) h \<longleftrightarrow>
         bit (hartMask (local_of m w1)) h \<or> (h \<in> snd ` set ps \<and> domain_member m h w1)"
    by auto
  have np: "peer \<notin> snd ` set ps" using Cons.prems(6) p by auto
  have oa: "owner_after m h w1 = owner_after m h w" if "h < 5" "h \<noteq> peer" for h
    using owner_after_cong [OF w1(4,5)] ow that by simp
  have dm: "domain_member m h w1 = domain_member m h w" for h by (simp add: domain_member_def cong)
  have "hl_owner_hartid (hart_ledger w' ! h) =
         (if h \<in> snd ` set (p # ps) then owner_after m h w else hl_owner_hartid (hart_ledger w ! h))" if h: "h < 5" for h
    using ow' ow np oa [of h] h by (auto simp: p)
  moreover have "bit (hartMask (local_of m w')) h \<longleftrightarrow>
         bit (hartMask (local_of m w)) h \<or> (h \<in> snd ` set (p # ps) \<and> domain_member m h w)" if h: "h < 32" for h
    using mk' mk dm h by (auto simp: p bit_simps)
  ultimately show ?case using w' w1 by (simp add: p)
qed

text \<open>
  Registering the harts of a domain never fails an assertion, and does it right: for a
  primary boot hart that goes through OpenSBI, afterwards every application hart that
  skips OpenSBI has no owner, every other one with the same entry point (and the boot hart)
  is owned by it and in the domain's hart mask, the rest keep their owner, and the ledger
  entry of the domain has the image's entry point and privilege mode.
\<close>

theorem register_harts_domain:
  assumes wf: "ledger_wf w" "length (localData w) = 4" and m: "m \<in> {1..4}"
    and pri: "primary_boot_hart m w" and sbi: "\<not> skip_opensbi m w"
  shows "\<exists>w'. register_harts m w = Some w' \<and> ledger_wf w'
    \<and> (\<forall>h\<in>{1..4}. hl_owner_hartid (hart_ledger w' ! h) = owner_after m h w
         \<and> (domain_member m h w \<longrightarrow> bit (hl_hartMask (hart_ledger w' ! m)) h))
    \<and> hl_next_addr (hart_ledger w' ! m) = hart_entryPoint m w
    \<and> hl_next_mode (hart_ledger w' ! m) = ucast (hart_privMode m w)"
proof -
  define w1 where "w1 = local_update m (\<lambda>l. l\<lparr>msgIndex := IPI_MAX_NUM_OUTSTANDING_COMPLETES\<rparr>) w"
  have w1: "ledger_wf w1" "length (localData w1) = 4" "mem w1 = mem w" "pBootImage w1 = pBootImage w"
    "hart_ledger w1 = hart_ledger w"
    using wf by (simp_all add: w1_def)
  note c1 = hart_fields_cong [OF w1(3,4)]
  have pri1: "primary_boot_hart m w1" using pri by (simp add: c1)
  have peers: "snd ` set bootMachine = {1..4}" "distinct (map snd bootMachine)"
    by (auto simp: bootMachine_def)
  obtain w2 where w2: "register_peers m bootMachine w1 = Some w2" "ledger_wf w2" "length (localData w2) = 4"
      "mem w2 = mem w1" "pBootImage w2 = pBootImage w1"
    and ow: "\<forall>h<5. hl_owner_hartid (hart_ledger w2 ! h) =
         (if h \<in> {1..4} then owner_after m h w1 else hl_owner_hartid (hart_ledger w1 ! h))"
    and mk: "\<forall>h<32. bit (hartMask (local_of m w2)) h \<longleftrightarrow>
         bit (hartMask (local_of m w1)) h \<or> (h \<in> {1..4} \<and> domain_member m h w1)"
    using register_peers_spec [OF w1(1,2) m pri1, of bootMachine] peers by auto
  have c2: "hart_entryPoint h w2 = hart_entryPoint h w" "hart_privMode h w2 = hart_privMode h w"
    "skip_opensbi h w2 = skip_opensbi h w" "primary_boot_hart h w2 = primary_boot_hart h w"
    "hart_name h w2 = hart_name h w" "hart_flags h w2 = hart_flags h w" for h
    using hart_fields_cong [of w2 w h] w2(4,5) w1(3,4) by simp_all
  have oa: "owner_after m h w1 = owner_after m h w \<and> domain_member m h w1 = domain_member m h w" for h
    using owner_after_cong [OF w1(3,4)] w1(5) by simp
  have own_m: "hl_owner_hartid (hart_ledger w2 ! m) = m"
    using ow m sbi oa [of m] by (auto simp: owner_after_def domain_member_def)
  have len: "length (hart_ledger w2) = 5" using w2(2) by (simp add: ledger_wf_def)
  have "register_harts m w = mpfs_domains_register_boot_hart (hart_name m w) (hartMask (local_of m w2)) m
         (ucast (hart_privMode m w)) (hart_entryPoint m w) (ancilliaryData (local_of m w2))
         (hart_flags m w AND BOOT_FLAG_ALLOW_COLD_REBOOT \<noteq> 0)
         (hart_flags m w AND BOOT_FLAG_ALLOW_WARM_REBOOT \<noteq> 0) w2"
    using w2(1) pri sbi by (simp add: register_harts_def Let_def c2 flip: w1_def)
  then obtain w' where w': "register_harts m w = Some w'"
    and l': "hart_ledger w' = (hart_ledger w2)[m := (hart_ledger w2 ! m)
       \<lparr>hl_name := take 63 (hart_name m w) @ drop 63 (hl_name (hart_ledger w2 ! m)),
        hl_next_addr := hart_entryPoint m w, hl_next_arg1 := ancilliaryData (local_of m w2),
        hl_hartMask := hartMask (local_of m w2), hl_next_mode := ucast (hart_privMode m w),
        hl_allow_cold_reboot := (hart_flags m w AND BOOT_FLAG_ALLOW_COLD_REBOOT \<noteq> 0),
        hl_allow_warm_reboot := (hart_flags m w AND BOOT_FLAG_ALLOW_WARM_REBOOT \<noteq> 0)\<rparr>]"
    and i': "mpfs_hart_index2id w' = mpfs_hart_index2id w2"
    using own_m len m by (auto simp: mpfs_domains_register_boot_hart_def ledger_update_def nth_opt_def)
  have "ledger_wf w'" using w2(2) l' i' by (simp add: ledger_wf_def)
  moreover have "hl_owner_hartid (hart_ledger w' ! h) = owner_after m h w
       \<and> (domain_member m h w \<longrightarrow> bit (hl_hartMask (hart_ledger w' ! m)) h)" if h: "h \<in> {1..4}" for h
  proof
    show "hl_owner_hartid (hart_ledger w' ! h) = owner_after m h w"
      using ow oa h m len l' by (auto simp: nth_list_update)
    show "domain_member m h w \<longrightarrow> bit (hl_hartMask (hart_ledger w' ! m)) h"
      using mk oa h m len l' by auto
  qed
  moreover have "hl_next_addr (hart_ledger w' ! m) = hart_entryPoint m w
    \<and> hl_next_mode (hart_ledger w' ! m) = ucast (hart_privMode m w)"
    using m len l' by auto
  ultimately show ?thesis using w' by blast
qed

text \<open>An image whose first hart has one chunk and an entry point; the others have none.\<close>

definition one_hart_image :: memory where
  "one_hart_image = (\<lambda>_. 0)(0x1038 := 1, 0x102B := 0x80)"

lemma one_hart_image_fields:
  "pBootImage w = 0x1000 \<Longrightarrow> mem w = one_hart_image \<Longrightarrow>
     hart_numChunks 1 w \<noteq> 0 \<and> hart_entryPoint 1 w = 0x80000000 \<and> hart_flags 1 w = 0
     \<and> hart_entryPoint 2 w = 0 \<and> hart_flags 2 w = 0"
  by (simp add: hart_numChunks_def hart_entryPoint_def hart_flags_def img_hart_def rd64_def rd_bytes_def
      one_hart_image_def upt_rec)

theorem register_harts_domain_witness:
  "\<forall>w :: boot_world. \<exists>w'. register_harts 1 (w\<lparr>pBootImage := 0x1000, mem := one_hart_image,
       hart_ledger := hart_ledger_reset, mpfs_hart_index2id := mpfs_hart_index2id_reset, localData := localData_init 0\<rparr>)
     = Some w' \<and> hl_owner_hartid (hart_ledger w' ! 1) = 1 \<and> hl_owner_hartid (hart_ledger w' ! 2) = 0
     \<and> hl_next_addr (hart_ledger w' ! 1) = 0x80000000"
proof
  fix w :: boot_world
  let ?w = "w\<lparr>pBootImage := 0x1000, mem := one_hart_image, hart_ledger := hart_ledger_reset,
     mpfs_hart_index2id := mpfs_hart_index2id_reset, localData := localData_init 0\<rparr>"
  have f: "hart_numChunks 1 ?w \<noteq> 0" "hart_entryPoint 1 ?w = 0x80000000" "hart_flags 1 ?w = 0"
    "hart_entryPoint 2 ?w = 0" "hart_flags 2 ?w = 0"
    using one_hart_image_fields [of ?w] by simp_all
  have own: "owner_after 1 1 ?w = 1" "owner_after 1 2 ?w = 0"
    using f by (simp_all add: owner_after_def domain_member_def skip_opensbi_def hart_ledger_reset_def
        zero_ledger_entry_def nth_Cons')
  have "ledger_wf ?w" "length (localData ?w) = 4" "1 \<in> {1..4 :: nat}" "primary_boot_hart 1 ?w" "\<not> skip_opensbi 1 ?w"
    using f by (simp_all add: ledger_wf_def hart_ledger_reset_def mpfs_hart_index2id_reset_def localData_init_def init_local_def
        primary_boot_hart_def skip_opensbi_def)
  from register_harts_domain [OF this] obtain w' where w': "register_harts 1 ?w = Some w'"
    "\<forall>h\<in>{1..4}. hl_owner_hartid (hart_ledger w' ! h) = owner_after 1 h ?w"
    "hl_next_addr (hart_ledger w' ! 1) = hart_entryPoint 1 ?w" by blast
  have "hl_owner_hartid (hart_ledger w' ! 1) = 1" "hl_owner_hartid (hart_ledger w' ! 2) = 0"
    using w'(2) own by simp_all
  with w' f(2) show "\<exists>w'. register_harts 1 ?w = Some w' \<and> hl_owner_hartid (hart_ledger w' ! 1) = 1
     \<and> hl_owner_hartid (hart_ledger w' ! 2) = 0 \<and> hl_next_addr (hart_ledger w' ! 1) = 0x80000000" by auto
qed

subsection \<open>Restarting\<close>

lemma restart_machine_boot [simp]:
  "mem (restart_machine m w) = mem w" "pBootImage (restart_machine m w) = pBootImage w"
  "length (machines (restart_machine m w)) = length (machines w)"
  "localData (restart_machine m w) = localData w"
  by (simp_all add: restart_machine_def)

lemma Notify_boot [simp]:
  "mem (HSS_Trigger_Notify e w) = mem w" "pBootImage (HSS_Trigger_Notify e w) = pBootImage w"
  "machines (HSS_Trigger_Notify e w) = machines w"
  by (cases e; simp)+

definition restarted :: "stateType_t \<Rightarrow> stateType_t" where
  "restarted st = (if st = BOOT_OPENSBI_INIT then BOOT_OPENSBI_INIT else BOOT_INITIALIZATION)"

lemma restart_machine_state:
  "m < length (machines w) \<Longrightarrow> k < length (machines w) \<Longrightarrow>
     sm_state (machines (restart_machine m w) ! k) =
       (if k = m then restarted (sm_state (machines w ! k)) else sm_state (machines w ! k))"
  by (auto simp: restart_machine_def restarted_def set_state_def nth_list_update)

lemma restart_fold:
  assumes "\<forall>(m, h)\<in>set ps. m = h \<and> m < length (machines w)" "distinct (map fst ps)"
  shows "\<exists>w'. fold (\<lambda>(m, h) (r, w). if bit b h then (True, restart_machine m w) else (r, w)) ps (r, w)
      = (r \<or> (\<exists>h\<in>fst ` set ps. bit b h), w')
    \<and> mem w' = mem w \<and> pBootImage w' = pBootImage w \<and> length (machines w') = length (machines w)
    \<and> (\<forall>k < length (machines w). sm_state (machines w' ! k) =
        (if k \<in> fst ` set ps \<and> bit b k then restarted (sm_state (machines w ! k)) else sm_state (machines w ! k)))"
  using assms
proof (induction ps arbitrary: r w)
  case Nil
  then show ?case by simp
next
  case (Cons p ps)
  obtain m h where p: "p = (m, h)" by (cases p)
  have m: "h = m" "m < length (machines w)" "m \<notin> fst ` set ps" using Cons.prems by (auto simp: p)
  show ?case
  proof (cases "bit b m")
    case True
    have "\<forall>(m', h)\<in>set ps. m' = h \<and> m' < length (machines (restart_machine m w))" "distinct (map fst ps)"
      using Cons.prems by auto
    from Cons.IH [OF this, of True] True m show ?thesis
      by (fastforce simp: p restart_machine_state)
  next
    case False
    have "\<forall>(m', h)\<in>set ps. m' = h \<and> m' < length (machines w)" "distinct (map fst ps)"
      using Cons.prems by auto
    from Cons.IH [OF this, of r] False m show ?thesis by (fastforce simp: p)
  qed
qed

lemma bootMachine_range: "fst ` set bootMachine = {1..4}" "snd ` set bootMachine = {1..4}"
  "distinct (map fst bootMachine)" "\<forall>(m, h)\<in>set bootMachine. m = h \<and> m \<in> {1..4}"
  by (auto simp: bootMachine_def)

lemma boot_using_spec:
  assumes "length (machines w) > 4"
  shows "\<exists>w'. boot_using_hart_bitmask b w = (\<exists>h\<in>{1..4}. bit b h, w')
    \<and> mem w' = mem w \<and> pBootImage w' = pBootImage w \<and> length (machines w') = length (machines w)
    \<and> (\<forall>k < length (machines w). sm_state (machines w' ! k) =
        (if k \<in> {1..4} \<and> bit b k then restarted (sm_state (machines w ! k)) else sm_state (machines w ! k)))"
proof -
  have "\<forall>(m, h)\<in>set bootMachine. m = h \<and> m < length (machines w)"
    using bootMachine_range(4) assms by fastforce
  from restart_fold [OF this bootMachine_range(3), of b False] obtain w1 where
    "fold (\<lambda>(m, h) (r, w). if bit b h then (True, restart_machine m w) else (r, w)) bootMachine (False, w)
      = (\<exists>h\<in>{1..4}. bit b h, w1)"
    "mem w1 = mem w" "pBootImage w1 = pBootImage w" "length (machines w1) = length (machines w)"
    "\<forall>k < length (machines w). sm_state (machines w1 ! k) =
        (if k \<in> {1..4} \<and> bit b k then restarted (sm_state (machines w ! k)) else sm_state (machines w ! k))"
    unfolding bootMachine_range(1) by auto
  then show ?thesis by (intro exI [of _ "HSS_Trigger_Notify EVENT_POST_BOOT w1"]) (simp add: boot_using_hart_bitmask_def)
qed

lemma boot_set_fold:
  "h < 32 \<Longrightarrow> bit (fold (\<lambda>(_, peer) b. if P peer then b OR push_bit peer 1 else b) ps (b0 :: u32)) h \<longleftrightarrow>
     bit b0 h \<or> (h \<in> snd ` set ps \<and> P h)"
  by (induction ps arbitrary: b0) (auto simp: bit_simps split: if_splits)

lemma boot_set_mask_bit:
  "s \<in> {1..4} \<Longrightarrow> h \<in> {1..4} \<Longrightarrow>
     bit (boot_set_mask s w) h \<longleftrightarrow> hart_entryPoint h w = hart_entryPoint s w"
  unfolding boot_set_mask_def
  using boot_set_fold [of h "\<lambda>p. p \<noteq> s \<and> hart_entryPoint p w = hart_entryPoint s w" bootMachine 0] bootMachine_range(2)
  by (auto simp: bit_simps)

text \<open>The requested hart that decides about \<open>h\<close>: the first of the mask with its entry point.\<close>

definition restart_leader :: "hart list \<Rightarrow> u32 \<Rightarrow> 'a boot_world_scheme \<Rightarrow> hart \<Rightarrow> hart option" where
  "restart_leader ss hmask w h = List.find (\<lambda>s. bit hmask s \<and> hart_entryPoint s w = hart_entryPoint h w) ss"

lemma restart_from_spec:
  assumes "set ss \<subseteq> {1..4}" "distinct ss" "length (machines w) > 4"
  shows "\<exists>hm r' w'. restart_from ss (hmask, r, w) = (hm, r', w')
    \<and> mem w' = mem w \<and> pBootImage w' = pBootImage w \<and> length (machines w') = length (machines w)
    \<and> (\<forall>h\<in>{1..4}. sm_state (machines w' ! h) =
        (case restart_leader ss hmask w h of
           Some s \<Rightarrow> if hart_numChunks s w \<noteq> 0 then restarted (sm_state (machines w ! h)) else sm_state (machines w ! h)
         | None \<Rightarrow> sm_state (machines w ! h)))
    \<and> r' = (if \<exists>h\<in>{1..4}. \<exists>s. restart_leader ss hmask w h = Some s \<and> hart_numChunks s w \<noteq> 0 then IPI_SUCCESS else r)"
  using assms
proof (induction ss arbitrary: hmask r w)
  case Nil
  then show ?case by (simp add: restart_leader_def)
next
  case (Cons s ss)
  have s: "s \<in> {1..4}" "s \<notin> set ss" using Cons.prems by auto
  show ?case
  proof (cases "bit hmask s")
    case False
    then have "restart_leader (s # ss) hmask w h = restart_leader ss hmask w h" for h
      by (simp add: restart_leader_def)
    with Cons.IH [of w hmask r] Cons.prems False show ?thesis by simp
  next
    case True
    let ?b = "boot_set_mask s w" and ?hm = "hmask AND NOT (boot_set_mask s w)"
    define w1 where "w1 = (if hart_numChunks s w \<noteq> 0 then snd (boot_using_hart_bitmask ?b w) else w)"
    define r1 where "r1 = (if hart_numChunks s w \<noteq> 0 then IPI_SUCCESS else r)"
    have bs: "bit ?b h \<longleftrightarrow> hart_entryPoint h w = hart_entryPoint s w" if "h \<in> {1..4}" for h
      using boot_set_mask_bit [OF s(1) that] .
    obtain wb where wb: "boot_using_hart_bitmask ?b w = (True, wb)" "mem wb = mem w" "pBootImage wb = pBootImage w"
        "length (machines wb) = length (machines w)"
      and stb: "\<forall>k < length (machines w). sm_state (machines wb ! k) =
        (if k \<in> {1..4} \<and> bit ?b k then restarted (sm_state (machines w ! k)) else sm_state (machines w ! k))"
    proof -
      have ex: "(\<exists>h\<in>{1..4}. bit ?b h) = True" using bs [OF s(1)] s(1) by blast
      show thesis using boot_using_spec [OF Cons.prems(3), of ?b] unfolding ex using that by blast
    qed
    have w1: "mem w1 = mem w" "pBootImage w1 = pBootImage w" "length (machines w1) = length (machines w)"
      using wb by (simp_all add: w1_def)
    have st1: "sm_state (machines w1 ! h) =
        (if hart_numChunks s w \<noteq> 0 \<and> hart_entryPoint h w = hart_entryPoint s w
         then restarted (sm_state (machines w ! h)) else sm_state (machines w ! h))" if "h \<in> {1..4}" for h
      using stb bs [OF that] that Cons.prems(3) by (auto simp: w1_def wb)
    have unf: "restart_from (s # ss) (hmask, r, w) = restart_from ss (?hm, r1, w1)"
      using True wb by (simp add: r1_def w1_def Let_def)
    note cong = hart_fields_cong [OF w1(1,2)]
    have lead: "restart_leader (s # ss) hmask w h =
        (if hart_entryPoint h w = hart_entryPoint s w then Some s else restart_leader ss ?hm w1 h)" if h: "h \<in> {1..4}" for h
    proof (cases "hart_entryPoint h w = hart_entryPoint s w")
      case True
      then show ?thesis using \<open>bit hmask s\<close> by (simp add: restart_leader_def)
    next
      case False
      have "List.find (\<lambda>t. bit hmask t \<and> hart_entryPoint t w = hart_entryPoint h w) ss
          = List.find (\<lambda>t. bit ?hm t \<and> hart_entryPoint t w1 = hart_entryPoint h w1) ss"
      proof (rule find_cong [OF refl])
        fix t assume "t \<in> set ss"
        then have "t \<in> {1..4}" using Cons.prems(1) by auto
        then show "(bit hmask t \<and> hart_entryPoint t w = hart_entryPoint h w) \<longleftrightarrow>
            (bit ?hm t \<and> hart_entryPoint t w1 = hart_entryPoint h w1)"
          using bs [of t] False by (auto simp: cong bit_simps)
      qed
      then show ?thesis using False by (auto simp: restart_leader_def)
    qed
    have none: "restart_leader ss ?hm w1 h = None" if h: "h \<in> {1..4}" "hart_entryPoint h w = hart_entryPoint s w" for h
    proof -
      have "\<not> (bit ?hm t \<and> hart_entryPoint t w1 = hart_entryPoint h w1)" if "t \<in> set ss" for t
        using bs [of t] h that Cons.prems(1) by (auto simp: cong bit_simps)
      then show ?thesis by (auto simp: restart_leader_def find_None_iff)
    qed
    from Cons.IH [of w1 ?hm r1] Cons.prems w1(3) obtain hm r' w' where
      e: "restart_from ss (?hm, r1, w1) = (hm, r', w')" "mem w' = mem w1" "pBootImage w' = pBootImage w1"
        "length (machines w') = length (machines w1)"
      and st': "\<forall>h\<in>{1..4}. sm_state (machines w' ! h) =
        (case restart_leader ss ?hm w1 h of
           Some s \<Rightarrow> if hart_numChunks s w1 \<noteq> 0 then restarted (sm_state (machines w1 ! h)) else sm_state (machines w1 ! h)
         | None \<Rightarrow> sm_state (machines w1 ! h))"
      and r': "r' = (if \<exists>h\<in>{1..4}. \<exists>s. restart_leader ss ?hm w1 h = Some s \<and> hart_numChunks s w1 \<noteq> 0
         then IPI_SUCCESS else r1)"
      by auto
    have "sm_state (machines w' ! h) = (case restart_leader (s # ss) hmask w h of
           Some s \<Rightarrow> if hart_numChunks s w \<noteq> 0 then restarted (sm_state (machines w ! h)) else sm_state (machines w ! h)
         | None \<Rightarrow> sm_state (machines w ! h))" if h: "h \<in> {1..4}" for h
      using st' st1 [OF h] lead [OF h] none [OF h] h by (cases "hart_entryPoint h w = hart_entryPoint s w")
        (auto simp: cong split: option.splits)
    moreover have "r' = (if \<exists>h\<in>{1..4}. \<exists>t. restart_leader (s # ss) hmask w h = Some t \<and> hart_numChunks t w \<noteq> 0
        then IPI_SUCCESS else r)"
    proof (cases "hart_numChunks s w \<noteq> 0")
      case True
      then have "restart_leader (s # ss) hmask w s = Some s" using lead [OF s(1)] by simp
      then show ?thesis using True r' s(1) by (auto simp: r1_def)
    next
      case False
      have ex: "(\<exists>h\<in>{1..4}. \<exists>t. restart_leader ss ?hm w1 h = Some t \<and> hart_numChunks t w1 \<noteq> 0) \<longleftrightarrow>
          (\<exists>h\<in>{1..4}. \<exists>t. restart_leader (s # ss) hmask w h = Some t \<and> hart_numChunks t w \<noteq> 0)"
        using lead none False by (fastforce simp: cong split: if_splits)
      have "r1 = r" using False by (simp add: r1_def)
      then show ?thesis unfolding r' ex by (simp only:)
    qed
    ultimately show ?thesis using unf e w1 by auto
  qed
qed

text \<open>
  C24.  What a restart request does: with a valid image, the machine of hart \<open>h\<close> is sent back
  to its first state (unless it is starting OpenSBI, where it stays) exactly if the first
  requested hart with the entry point of \<open>h\<close> has chunks; every other machine keeps its
  state, and the request succeeds exactly if some machine was restarted.  In particular a
  requested hart with chunks is not restarted when a lower-numbered requested hart of
  its boot set has none.
\<close>

theorem HSS_Boot_Restart_exact:
  assumes "pBootImage w \<noteq> 0" "HSS_Boot_ValidateImage (pBootImage w) w" "length (machines w) > 4"
  shows "\<exists>r w'. HSS_Boot_RestartCores_Using_Bitmask hmask w = (r, w')
    \<and> (\<forall>h\<in>{1..4}. sm_state (machines w' ! h) =
        (case restart_leader [1, 2, 3, 4] hmask w h of
           Some s \<Rightarrow> if hart_numChunks s w \<noteq> 0 then restarted (sm_state (machines w ! h)) else sm_state (machines w ! h)
         | None \<Rightarrow> sm_state (machines w ! h)))
    \<and> r = (if \<exists>h\<in>{1..4}. \<exists>s. restart_leader [1, 2, 3, 4] hmask w h = Some s \<and> hart_numChunks s w \<noteq> 0
           then IPI_SUCCESS else IPI_FAIL)"
proof -
  have l: "[HSS_HART_U54_1..<HSS_HART_NUM_PEERS] = [1, 2, 3, 4]" by (simp add: upt_rec)
  have ss: "set [1, 2, 3, 4 :: nat] \<subseteq> {1..4}" "distinct [1, 2, 3, 4 :: nat]" by simp_all
  from restart_from_spec [OF ss assms(3), of hmask IPI_FAIL] obtain hm r' w' where
    e: "restart_from [1, 2, 3, 4] (hmask, IPI_FAIL, w) = (hm, r', w')"
    and st: "\<forall>h\<in>{1..4}. sm_state (machines w' ! h) =
        (case restart_leader [1, 2, 3, 4] hmask w h of
           Some s \<Rightarrow> if hart_numChunks s w \<noteq> 0 then restarted (sm_state (machines w ! h)) else sm_state (machines w ! h)
         | None \<Rightarrow> sm_state (machines w ! h))"
    and r: "r' = (if \<exists>h\<in>{1..4}. \<exists>s. restart_leader [1, 2, 3, 4] hmask w h = Some s \<and> hart_numChunks s w \<noteq> 0
           then IPI_SUCCESS else IPI_FAIL)" by blast
  have "HSS_Boot_RestartCores_Using_Bitmask hmask w = (r', w')"
    using assms(1,2) e unfolding HSS_Boot_RestartCores_Using_Bitmask_def l by (simp del: restart_from.simps)
  then show ?thesis using st r by blast
qed

text \<open>A valid image in which only hart 1 has a chunk and an entry point.\<close>

definition restart_base :: memory where
  "restart_base = (wr32 (\<lambda>_. 0) 0x1000 mHSS_BOOT_MAGIC)(0x1038 := 1, 0x102B := 0x80)"

definition restart_image :: memory where
  "restart_image = wr32 restart_base 0x1010 (CRC32_calculate True (shadowHdr restart_base 0x1000 (crcLen restart_base 0x1000)))"

theorem HSS_Boot_Restart_exact_witness:
  "\<forall>w :: boot_world. \<exists>w'. HSS_Boot_RestartCores_Using_Bitmask 0x6
     (w\<lparr>pBootImage := 0x1000, machines := replicate 5 (initial_machine BOOT_IDLE), mem := restart_image\<rparr>) = (IPI_SUCCESS, w')
     \<and> sm_state (machines w' ! 1) = BOOT_INITIALIZATION \<and> sm_state (machines w' ! 2) = BOOT_IDLE"
proof
  fix w :: boot_world
  let ?v = "w\<lparr>pBootImage := 0x1000, machines := replicate 5 (initial_machine BOOT_IDLE)\<rparr>"
  let ?w = "?v\<lparr>mem := restart_image\<rparr>"
  have four: "[0..<4] = [0, 1, 2, 3 :: nat]" "[0..<8] = [0, 1, 2, 3, 4, 5, 6, 7 :: nat]" by (simp_all add: upt_rec)
  have "img_magic (mem (?v\<lparr>mem := restart_base\<rparr>)) 0x1000 = mHSS_BOOT_MAGIC"
    by (simp add: img_magic_def restart_base_def rd32_def rd_bytes_def four wr32_def)
  from HSS_Boot_ValidateImage_seal [OF _ this] have valid: "HSS_Boot_ValidateImage (pBootImage ?w) ?w"
    by (simp add: restart_image_def)
  have f: "hart_numChunks 1 ?w = 1" "hart_numChunks 2 ?w = 0" "hart_entryPoint 1 ?w = 0x80000000" "hart_entryPoint 2 ?w = 0"
    by (simp_all add: hart_numChunks_def hart_entryPoint_def img_hart_def rd64_def rd_bytes_def four restart_image_def restart_base_def wr32_def)
  have "bit (6 :: u32) 1" "bit (6 :: u32) 2" by simp_all
  then have l: "restart_leader [1, 2, 3, 4] 6 ?w 1 = Some 1" "restart_leader [1, 2, 3, 4] 6 ?w 2 = Some 2"
    unfolding restart_leader_def using f(3,4) by (simp_all only: List.find.simps if_True if_False simp_thms) simp_all
  have "pBootImage ?w \<noteq> 0" "4 < length (machines ?w)" by simp_all
  from HSS_Boot_Restart_exact [OF this(1) valid this(2), of 6] obtain r w' where
    w': "HSS_Boot_RestartCores_Using_Bitmask 6 ?w = (r, w')"
    "\<forall>h\<in>{1..4}. sm_state (machines w' ! h) =
        (case restart_leader [1, 2, 3, 4] 6 ?w h of
           Some s \<Rightarrow> if hart_numChunks s ?w \<noteq> 0 then restarted (sm_state (machines ?w ! h)) else sm_state (machines ?w ! h)
         | None \<Rightarrow> sm_state (machines ?w ! h))"
    "r = (if \<exists>h\<in>{1..4}. \<exists>s. restart_leader [1, 2, 3, 4] 6 ?w h = Some s \<and> hart_numChunks s ?w \<noteq> 0 then IPI_SUCCESS else IPI_FAIL)"
    by blast
  have "\<exists>h\<in>{1..4}. \<exists>s. restart_leader [1, 2, 3, 4] 6 ?w h = Some s \<and> hart_numChunks s ?w \<noteq> 0"
    by (rule bexI [of _ 1], rule exI [of _ 1]) (use l(1) f(1) in simp_all)
  then have "r = IPI_SUCCESS" unfolding w'(3) by (simp only: if_True)
  moreover have "sm_state (machines w' ! 1) = BOOT_INITIALIZATION"
    using w'(2) [rule_format, of 1, unfolded l(1)] f(1) by (simp add: restarted_def initial_machine_def)
  moreover have "sm_state (machines w' ! 2) = BOOT_IDLE"
    using w'(2) [rule_format, of 2, unfolded l(2)] f(2) by (simp add: initial_machine_def)
  ultimately show "\<exists>w'. HSS_Boot_RestartCores_Using_Bitmask 0x6
     (w\<lparr>pBootImage := 0x1000, machines := replicate 5 (initial_machine BOOT_IDLE), mem := restart_image\<rparr>) = (IPI_SUCCESS, w')
     \<and> sm_state (machines w' ! 1) = BOOT_INITIALIZATION \<and> sm_state (machines w' ! 2) = BOOT_IDLE"
    using w'(1) by auto
qed

subsection \<open>Downloading a chunk\<close>

text \<open>Memory after the first \<open>j\<close> bytes at \<open>src\<close> have been copied to \<open>dest\<close>.\<close>

definition mem_copied :: "u64 \<Rightarrow> u64 \<Rightarrow> nat \<Rightarrow> memory \<Rightarrow> memory" where
  "mem_copied dest src j m = (\<lambda>x. if unat (x - dest) < j then m (src + (x - dest)) else m x)"

lemma mem_copied_0 [simp]: "mem_copied dest src 0 m = m"
  by (simp add: mem_copied_def)

text \<open>Two regions of \<open>n\<close> bytes, neither wrapping around, one after the other.\<close>

definition regions_apart :: "u64 \<Rightarrow> u64 \<Rightarrow> nat \<Rightarrow> bool" where
  "regions_apart dest src n \<longleftrightarrow> unat dest + n \<le> 2 ^ 64 \<and> unat src + n \<le> 2 ^ 64
     \<and> (unat src + n \<le> unat dest \<or> unat dest + n \<le> unat src)"

lemma mem_copied_step:
  assumes apart: "regions_apart dest src n" and j: "j + unat k \<le> n" "0 < k"
  shows "memcpy_via_pdma (dest + of_nat j) (src + of_nat j) k (mem_copied dest src j m)
     = Some (mem_copied dest src (j + unat k) m)"
proof -
  have k: "0 < unat k" using j(2) by (simp add: unat_gt_0)
  have ud: "unat (dest + of_nat j) = unat dest + j" and us: "unat (src + of_nat j) = unat src + j"
    using apart j(1) k by (auto simp: regions_apart_def intro!: unat_plus_nowrap)
  have lastd: "unat (dest + of_nat j + k - 1) = unat dest + j + unat k - 1"
    and lasts: "unat (src + of_nat j + k - 1) = unat src + j + unat k - 1"
  proof -
    have k1: "of_nat j + k - 1 = (of_nat (j + (unat k - 1)) :: u64)" using k by (simp add: of_nat_diff)
    have *: "unat (z + of_nat j + k - 1) = unat z + j + unat k - 1" if "unat z + n \<le> 2 ^ 64" for z :: u64
    proof -
      have "z + of_nat j + k - 1 = z + of_nat (j + (unat k - 1))" unfolding k1 [symmetric] by simp
      also have "unat \<dots> = unat z + (j + (unat k - 1))" using that j(1) k by (intro unat_plus_nowrap) simp
      finally show ?thesis using k by simp
    qed
    show "unat (dest + of_nat j + k - 1) = unat dest + j + unat k - 1"
      "unat (src + of_nat j + k - 1) = unat src + j + unat k - 1"
      using apart by (intro *; simp add: regions_apart_def)+
  qed
  have assertion: "(if dest + of_nat j > src + of_nat j then assert_c (src + of_nat j + k - 1 < dest + of_nat j)
      else assert_c (dest + of_nat j + k - 1 < src + of_nat j)) = Some ()"
    using apart j k by (auto simp: regions_apart_def word_less_nat_alt ud us lastd lasts assert_c_def)
  have "mem_copy (dest + of_nat j) (src + of_nat j) k (mem_copied dest src j m) x
      = mem_copied dest src (j + unat k) m x" for x
  proof -
    define d where "d = x - dest"
    have x: "x - (dest + of_nat j) = d - of_nat j" "x - dest = d" by (simp_all add: d_def)
    have uj: "unat (of_nat j :: u64) = j" using j(1) apart k by (simp add: regions_apart_def unat_of_nat_small)
    show ?thesis
    proof (cases "unat d < j")
      case True
      have "unat (d - of_nat j) = unat d + 2 ^ 64 - j"
        using True uj by (simp add: unat_sub_if_size word_size)
      moreover have "unat k \<le> 2 ^ 64 - j" using j(1) apart unfolding regions_apart_def by linarith
      ultimately have "\<not> d - of_nat j < k" by (simp add: word_less_nat_alt)
      then show ?thesis using True by (simp add: mem_copy_def mem_copied_def x)
    next
      case False
      then have ud': "unat (d - of_nat j) = unat d - j" using uj by (simp add: unat_sub_if_size)
      show ?thesis
      proof (cases "unat d < j + unat k")
        case True
        have "\<not> unat (src + d - dest) < j"
        proof -
          have dn: "unat d < n" using True j(1) by simp
          then have "unat (src + d) = unat src + unat d"
            using apart unat_plus_nowrap [of src "unat d"] by (simp add: regions_apart_def)
          then show ?thesis using apart dn j(1) k
            by (auto simp: regions_apart_def unat_sub_if_size word_size)
        qed
        then have "mem_copied dest src j m (src + d) = m (src + d)" by (simp add: mem_copied_def)
        moreover have "src + of_nat j + (d - of_nat j) = src + d" by simp
        moreover have "unat d - j < unat k" using True False by simp
        ultimately show ?thesis using True ud'
          by (simp add: mem_copy_def x word_less_nat_alt) (simp add: mem_copied_def x)
      next
        case out: False
        then have "\<not> unat d - j < unat k" using False by simp
        then show ?thesis using False out ud' by (simp add: mem_copy_def x word_less_nat_alt) (simp add: mem_copied_def x)
      qed
    qed
  qed
  then have "mem_copy (dest + of_nat j) (src + of_nat j) k (mem_copied dest src j m) = mem_copied dest src (j + unat k) m"
    by (rule ext)
  then show ?thesis unfolding memcpy_via_pdma_def using assertion by simp
qed

lemma rd_copied:
  assumes "\<forall>x. in_region a l x \<longrightarrow> n \<le> unat (x - dest)" "j \<le> n" "unat l < 2 ^ 64"
  shows "o' + 8 \<le> unat l \<Longrightarrow> rd64 (mem_copied dest src j m) (a + of_nat o') = rd64 m (a + of_nat o')"
    "o' + 4 \<le> unat l \<Longrightarrow> rd32 (mem_copied dest src j m) (a + of_nat o') = rd32 m (a + of_nat o')"
proof -
  have b: "mem_copied dest src j m (a + of_nat o' + of_nat i) = m (a + of_nat o' + of_nat i)"
    if "o' + i < unat l" for i
  proof -
    have "unat (of_nat (o' + i) :: u64) = o' + i" using that using assms(3) by (intro unat_of_nat_small) linarith
    then have "in_region a l (a + of_nat (o' + i))"
      using that by (simp add: in_region_def word_less_nat_alt)
    then have "n \<le> unat (a + of_nat (o' + i) - dest)" using assms(1) by blast
    then show ?thesis using assms(2) by (simp add: mem_copied_def algebra_simps)
  qed
  show "o' + 8 \<le> unat l \<Longrightarrow> rd64 (mem_copied dest src j m) (a + of_nat o') = rd64 m (a + of_nat o')"
    unfolding rd64_def by (rule arg_cong [where f = le_word], rule rd_bytes_cong, rule b) simp
  show "o' + 4 \<le> unat l \<Longrightarrow> rd32 (mem_copied dest src j m) (a + of_nat o') = rd32 m (a + of_nat o')"
    unfolding rd32_def by (rule arg_cong [where f = le_word], rule rd_bytes_cong, rule b) simp
qed


text \<open>\<open>n\<close> runs of a state's handler.\<close>

fun handle_times :: "nat \<Rightarrow> 'w sm_handler \<Rightarrow> nat \<Rightarrow> 'w \<Rightarrow> 'w option" where
  "handle_times 0 h m w = Some w"
| "handle_times (Suc n) h m w = Option.bind (handle_times n h m w) (h m)"

text \<open>
  A machine about to download the chunk whose descriptor is at \<open>c\<close>: the chunk is the
  hart's, its PMP table permits it, and the copy, rounded up to \<open>n\<close> bytes, reaches neither
  the descriptor nor the hart's entry in the image header.
\<close>

definition download_ready :: "nat \<Rightarrow> u64 \<Rightarrow> nat \<Rightarrow> 'a boot_world_scheme \<Rightarrow> bool" where
  "download_ready m c n w \<longleftrightarrow> m \<in> {1..4} \<and> length (localData w) = 4 \<and> pBootImage w \<noteq> 0
     \<and> hart_numChunks m w \<noteq> 0 \<and> chunkCount (local_of m w) \<le> hart_lastChunk m w
     \<and> pChunk (local_of m w) = c \<and> c \<noteq> 0 \<and> chunk_size (mem w) c \<noteq> 0 \<and> subChunkOffset (local_of m w) = 0
     \<and> chunk_owner (mem w) c AND NOT BOOT_FLAG_ANCILLIARY_DATA = of_nat m
     \<and> HSS_PMP_CheckWrite m (chunk_execAddr (mem w) c) (chunk_size (mem w) c) w = Some True
     \<and> regions_apart (chunk_execAddr (mem w) c) (pBootImage w + chunk_loadAddr (mem w) c) n
     \<and> (\<forall>x. in_region c 40 x \<or> in_region (img_hart (pBootImage w) m) 40 x
            \<longrightarrow> n \<le> unat (x - chunk_execAddr (mem w) c))"

definition download_local :: "nat \<Rightarrow> u64 \<Rightarrow> nat \<Rightarrow> 'a boot_world_scheme \<Rightarrow> HSS_Boot_LocalData" where
  "download_local m c k w = (local_of m w)\<lparr>subChunkOffset := of_nat (256 * k),
         ancilliaryData := (if 0 < k \<and> chunk_owner (mem w) c AND BOOT_FLAG_ANCILLIARY_DATA \<noteq> 0
             \<and> ancilliaryData (local_of m w) = 0 then chunk_execAddr (mem w) c else ancilliaryData (local_of m w))\<rparr>"

definition downloaded :: "nat \<Rightarrow> u64 \<Rightarrow> nat \<Rightarrow> 'a boot_world_scheme \<Rightarrow> 'a boot_world_scheme" where
  "downloaded m c k w =
     w\<lparr>mem := mem_copied (chunk_execAddr (mem w) c) (pBootImage w + chunk_loadAddr (mem w) c) (256 * k) (mem w),
       localData := (localData w)[m - 1 := download_local m c k w]\<rparr>"

definition next_chunk :: "nat \<Rightarrow> 'a boot_world_scheme \<Rightarrow> 'a boot_world_scheme" where
  "next_chunk m = local_update m (\<lambda>l. l\<lparr>subChunkOffset := 0, chunkCount := chunkCount l + 1,
     pChunk := pChunk l + CHUNK_DESC_SIZE\<rparr>)"

lemma downloaded_same:
  assumes r: "download_ready m c n w" and k: "256 * k \<le> n"
  shows "chunk_owner (mem (downloaded m c k w)) c = chunk_owner (mem w) c"
    "chunk_size (mem (downloaded m c k w)) c = chunk_size (mem w) c"
    "chunk_execAddr (mem (downloaded m c k w)) c = chunk_execAddr (mem w) c"
    "chunk_loadAddr (mem (downloaded m c k w)) c = chunk_loadAddr (mem w) c"
    "hart_numChunks m (downloaded m c k w) = hart_numChunks m w"
    "hart_lastChunk m (downloaded m c k w) = hart_lastChunk m w"
proof -
  let ?e = "chunk_execAddr (mem w) c"
  have c: "\<forall>x. in_region c 40 x \<longrightarrow> n \<le> unat (x - ?e)"
    and h: "\<forall>x. in_region (img_hart (pBootImage w) m) 40 x \<longrightarrow> n \<le> unat (x - ?e)"
    using r by (auto simp: download_ready_def)
  note rc = rd_copied [OF c k] and rh = rd_copied [OF h k]
  show "chunk_owner (mem (downloaded m c k w)) c = chunk_owner (mem w) c"
    using rc(2) [of 0] by (simp add: chunk_owner_def downloaded_def)
  show "chunk_size (mem (downloaded m c k w)) c = chunk_size (mem w) c"
    using rc(1) [of 24] by (simp add: chunk_size_def downloaded_def)
  show "chunk_execAddr (mem (downloaded m c k w)) c = ?e"
    using rc(1) [of 16] by (simp add: chunk_execAddr_def downloaded_def)
  show "chunk_loadAddr (mem (downloaded m c k w)) c = chunk_loadAddr (mem w) c"
    using rc(1) [of 8] by (simp add: chunk_loadAddr_def downloaded_def)
  show "hart_numChunks m (downloaded m c k w) = hart_numChunks m w"
    using rh(1) [of 16] by (simp add: hart_numChunks_def downloaded_def)
  show "hart_lastChunk m (downloaded m c k w) = hart_lastChunk m w"
    using rh(1) [of 32] by (simp add: hart_lastChunk_def downloaded_def)
qed

lemma downloaded_local [simp]:
  "pBootImage (downloaded m c k w) = pBootImage w" "pmpEntry (downloaded m c k w) = pmpEntry w"
  "length (localData (downloaded m c k w)) = length (localData w)"
  "download_ready m c n w \<Longrightarrow> local_of m (downloaded m c k w) = download_local m c k w"
  by (auto simp: downloaded_def local_of_def download_ready_def)

lemma download_local_simps [simp]:
  "pChunk (download_local m c k w) = pChunk (local_of m w)"
  "chunkCount (download_local m c k w) = chunkCount (local_of m w)"
  "subChunkOffset (download_local m c k w) = of_nat (256 * k)"
  by (simp_all add: download_local_def)

lemma download_local_step:
  "(if chunk_owner (mem w) c AND BOOT_FLAG_ANCILLIARY_DATA \<noteq> 0 \<and> ancilliaryData (download_local m c k w) = 0
    then (download_local m c k w)\<lparr>ancilliaryData := chunk_execAddr (mem w) c\<rparr> else download_local m c k w)
   = (download_local m c (k + 1) w)\<lparr>subChunkOffset := of_nat (256 * k)\<rparr>"
  by (auto simp: download_local_def)

lemma download_handler_copies:
  assumes "pBootImage v \<noteq> 0" "hart_numChunks m v \<noteq> 0" "pChunk (local_of m v) = c"
    "chunkCount (local_of m v) \<le> hart_lastChunk m v" "chunk_size (mem v) c \<noteq> 0"
    "chunk_owner (mem v) c AND NOT BOOT_FLAG_ANCILLIARY_DATA = of_nat m"
    "HSS_PMP_CheckWrite m (chunk_execAddr (mem v) c) (chunk_size (mem v) c) v = Some True"
    "boot_do_download_chunk c (subChunkOffset (local_of m v)) BOOT_SUB_CHUNK_SIZE v = Some (v\<lparr>mem := mm\<rparr>)"
  shows "boot_download_chunks_handler m v = Some (advance_sub_chunk m c
      (if chunk_owner mm c AND BOOT_FLAG_ANCILLIARY_DATA \<noteq> 0 \<and> ancilliaryData (local_of m v) = 0
       then local_update m (\<lambda>l. l\<lparr>ancilliaryData := chunk_execAddr mm c\<rparr>) (v\<lparr>mem := mm\<rparr>)
       else v\<lparr>mem := mm\<rparr>))"
proof -
  have "local_of m (v\<lparr>mem := mm\<rparr>) = local_of m v" by (rule local_of_cong) simp
  then show ?thesis using assms by (simp add: boot_download_chunks_handler_def Let_def)
qed

lemma advance_sub_chunk_last:
  assumes D: "localData D = ld[m - 1 := L]" "m - 1 < length ld" and sz: "chunk_size (mem D) c = sz"
    and off: "subChunkOffset L = off + BOOT_SUB_CHUNK_SIZE"
  shows "advance_sub_chunk m c (D\<lparr>localData := ld[m - 1 := L\<lparr>subChunkOffset := off\<rparr>]\<rparr>)
     = (if off + BOOT_SUB_CHUNK_SIZE > sz then next_chunk m D else D)"
proof -
  have "D\<lparr>localData := ld[m - 1 := L]\<rparr> = D" unfolding D(1) [symmetric] by simp
  moreover have "L\<lparr>subChunkOffset := off + BOOT_SUB_CHUNK_SIZE\<rparr> = L" unfolding off [symmetric] by simp
  ultimately show ?thesis using D sz
    by (simp add: advance_sub_chunk_def next_chunk_def local_update_def Let_def)
qed

lemma downloaded_step:
  assumes r: "download_ready m c n w" and k: "256 * k + 256 \<le> n"
  shows "boot_download_chunks_handler m (downloaded m c k w) = Some
    (if of_nat (256 * (k + 1)) > chunk_size (mem w) c then next_chunk m (downloaded m c (k + 1) w)
     else downloaded m c (k + 1) w)"
proof -
  let ?v = "downloaded m c k w" and ?e = "chunk_execAddr (mem w) c" and ?s = "pBootImage w + chunk_loadAddr (mem w) c"
  have k': "256 * k \<le> n" "256 * (k + 1) \<le> n" using k by simp_all
  note same = downloaded_same [OF r k'(1)] and same' = downloaded_same [OF r k'(2)]
  have rr: "m \<in> {1..4}" "length (localData w) = 4" "regions_apart ?e ?s n"
    using r by (auto simp: download_ready_def)
  have u256: "unat (256 :: u64) = 256" and p256: "(0 :: u64) < 256" by simp_all
  have "memcpy_via_pdma (?e + of_nat (256 * k)) (?s + of_nat (256 * k)) 256 (mem ?v)
      = Some (mem (downloaded m c (k + 1) w))"
    using mem_copied_step [OF rr(3), of "256 * k" 256 "mem w", unfolded u256, OF k p256]
    by (simp add: downloaded_def add.commute del: of_nat_mult)
  then have d: "boot_do_download_chunk c (of_nat (256 * k)) BOOT_SUB_CHUNK_SIZE ?v
      = Some (?v\<lparr>mem := mem (downloaded m c (k + 1) w)\<rparr>)"
    using r by (simp add: boot_do_download_chunk_def same download_ready_def assert_c_def del: of_nat_mult)
  have lo: "local_of m ?v = download_local m c k w" using r by simp
  have "HSS_PMP_CheckWrite m ?e (chunk_size (mem w) c) ?v = Some True"
    using r by (simp add: download_ready_def HSS_PMP_CheckWrite_def)
  then have pm: "HSS_PMP_CheckWrite m (chunk_execAddr (mem ?v) c) (chunk_size (mem ?v) c) ?v = Some True"
    by (simp only: same)
  let ?flag = "chunk_owner (mem w) c AND BOOT_FLAG_ANCILLIARY_DATA \<noteq> 0"
  have unf: "boot_download_chunks_handler m ?v = Some (advance_sub_chunk m c
      (if ?flag \<and> ancilliaryData (local_of m ?v) = 0
       then local_update m (\<lambda>l. l\<lparr>ancilliaryData := ?e\<rparr>) (?v\<lparr>mem := mem (downloaded m c (k + 1) w)\<rparr>)
       else ?v\<lparr>mem := mem (downloaded m c (k + 1) w)\<rparr>))"
    (is "_ = Some (advance_sub_chunk m c ?v1)")
    unfolding same'(1) [symmetric] same'(3) [symmetric]
  proof (rule download_handler_copies)
    show "boot_do_download_chunk c (subChunkOffset (local_of m ?v)) BOOT_SUB_CHUNK_SIZE ?v
      = Some (?v\<lparr>mem := mem (downloaded m c (k + 1) w)\<rparr>)" using d by (simp add: lo del: of_nat_mult)
  qed (use r pm in \<open>simp_all only: same lo download_local_simps downloaded_local download_ready_def simp_thms\<close>)
  have "?v1 = (?v\<lparr>mem := mem (downloaded m c (k + 1) w)\<rparr>)\<lparr>localData := (localData ?v)[m - 1 :=
      if ?flag \<and> ancilliaryData (local_of m ?v) = 0 then (local_of m ?v)\<lparr>ancilliaryData := ?e\<rparr> else local_of m ?v]\<rparr>"
    by (auto simp: local_update_def local_of_def list_update_id)
  then have v1: "?v1 = (downloaded m c (k + 1) w)\<lparr>localData := (localData w)[m - 1 :=
      (local_of m (downloaded m c (k + 1) w))\<lparr>subChunkOffset := of_nat (256 * k)\<rparr>]\<rparr>"
    unfolding lo download_local_step downloaded_local(4) [OF r] by (simp add: downloaded_def)
  let ?D = "downloaded m c (k + 1) w"
  have D: "localData ?D = (localData w)[m - 1 := local_of m ?D]" "m - 1 < length (localData w)"
    using rr(1,2) by (auto simp: downloaded_def local_of_def)
  have "subChunkOffset (local_of m ?D) = of_nat (256 * k) + 256"
    using r by simp
  from advance_sub_chunk_last [OF D same'(2) this] show ?thesis
    unfolding unf v1 by (simp add: algebra_simps)
qed

abbreviation (input) sub_chunks :: "u64 \<Rightarrow> nat" where
  "sub_chunks sz \<equiv> unat sz div 256 + 1"

lemma download_ready_small: "download_ready m c n w \<Longrightarrow> 0 < n \<Longrightarrow> n < 2 ^ 64"
  using unat_lt64 [of "chunk_execAddr (mem w) c"] unat_lt64 [of "pBootImage w + chunk_loadAddr (mem w) c"]
  by (auto simp: download_ready_def regions_apart_def)

lemma download_iterates:
  assumes r: "download_ready m c n w" and n: "n = 256 * sub_chunks (chunk_size (mem w) c)"
  shows "256 * k \<le> unat (chunk_size (mem w) c) \<Longrightarrow>
     handle_times k boot_download_chunks_handler m w = Some (downloaded m c k w)"
proof (induction k)
  case 0
  have "localData w = (localData w)[m - 1 := local_of m w]" by (simp add: local_of_def)
  moreover have "(local_of m w)\<lparr>subChunkOffset := 0, ancilliaryData := ancilliaryData (local_of m w)\<rparr> = local_of m w"
    using r by (simp add: download_ready_def)
  ultimately show ?case by (simp add: downloaded_def download_local_def)
next
  case (Suc k)
  have "n < 2 ^ 64" using download_ready_small [OF r] n by simp
  then have "unat (of_nat (256 * (k + 1)) :: u64) = 256 * (k + 1)"
    using Suc.prems n by (intro unat_of_nat_small) simp
  then have "\<not> of_nat (256 * (k + 1)) > chunk_size (mem w) c"
    using Suc.prems by (simp add: word_less_nat_alt del: of_nat_mult of_nat_add)
  moreover have "256 * k + 256 \<le> n" using Suc.prems n by simp
  ultimately show ?case using downloaded_step [OF r, of k] Suc by simp
qed

lemma download_chunk:
  assumes r: "download_ready m c n w" and n: "n = 256 * sub_chunks (chunk_size (mem w) c)"
  shows "handle_times (sub_chunks (chunk_size (mem w) c)) boot_download_chunks_handler m w
     = Some (next_chunk m (downloaded m c (sub_chunks (chunk_size (mem w) c)) w))"
proof -
  define k where "k = unat (chunk_size (mem w) c) div 256"
  have "n < 2 ^ 64" using download_ready_small [OF r] n by simp
  then have "unat (of_nat (256 * (k + 1)) :: u64) = 256 * (k + 1)"
    using n by (intro unat_of_nat_small) (simp add: k_def)
  moreover have "unat (chunk_size (mem w) c) < 256 * (k + 1)" by (simp add: k_def)
  ultimately have "of_nat (256 * (k + 1)) > chunk_size (mem w) c"
    by (simp add: word_less_nat_alt del: of_nat_mult of_nat_add)
  moreover have "256 * k + 256 \<le> n" by (simp add: n k_def)
  moreover have "handle_times k boot_download_chunks_handler m w = Some (downloaded m c k w)"
    by (rule download_iterates [OF r n]) (simp add: k_def)
  ultimately show ?thesis using downloaded_step [OF r, of k] by (simp add: k_def)
qed

text \<open>
  C12.  Downloading a chunk: after \<open>size div 256 + 1\<close> runs of the handler the machine stands
  on the next descriptor, still in its state, and memory holds at \<open>execAddr\<close> what the
  image holds at the chunk's load offset, and is unchanged elsewhere.  What is copied is
  the chunk rounded up to more than its size: between 1 and 256 bytes past the end of the
  region that the PMP check has approved are overwritten, 256 when the size is a multiple
  of the sub-chunk size.
\<close>

theorem boot_download_chunk_copies:
  assumes "download_ready m c (256 * sub_chunks (chunk_size (mem w) c)) w"
  shows "\<exists>w'. handle_times (sub_chunks (chunk_size (mem w) c)) boot_download_chunks_handler m w = Some w'
    \<and> (\<forall>x. mem w' x = (if unat (x - chunk_execAddr (mem w) c) < 256 * sub_chunks (chunk_size (mem w) c)
          then mem w (pBootImage w + chunk_loadAddr (mem w) c + (x - chunk_execAddr (mem w) c)) else mem w x))
    \<and> pChunk (local_of m w') = c + CHUNK_DESC_SIZE \<and> subChunkOffset (local_of m w') = 0
    \<and> chunkCount (local_of m w') = chunkCount (local_of m w) + 1 \<and> machines w' = machines w
    \<and> unat (chunk_size (mem w) c) < 256 * sub_chunks (chunk_size (mem w) c)
    \<and> 256 * sub_chunks (chunk_size (mem w) c) \<le> unat (chunk_size (mem w) c) + 256"
proof -
  let ?D = "downloaded m c (sub_chunks (chunk_size (mem w) c)) w"
  have m: "m \<in> {1..4}" "length (localData w) = 4" "pChunk (local_of m w) = c"
    using assms by (auto simp: download_ready_def)
  have lo: "local_of m (next_chunk m ?D) = (local_of m ?D)\<lparr>subChunkOffset := 0,
      chunkCount := chunkCount (local_of m ?D) + 1, pChunk := pChunk (local_of m ?D) + CHUNK_DESC_SIZE\<rparr>"
    unfolding next_chunk_def using m by (subst local_of_local_update) simp_all
  have "mem (next_chunk m ?D) = mem_copied (chunk_execAddr (mem w) c) (pBootImage w + chunk_loadAddr (mem w) c)
      (256 * sub_chunks (chunk_size (mem w) c)) (mem w)" "machines (next_chunk m ?D) = machines w"
    by (simp_all add: next_chunk_def downloaded_def)
  then show ?thesis
    by (intro exI [of _ "next_chunk m ?D"] conjI)
      (use download_chunk [OF assms refl] m in \<open>simp_all only: lo downloaded_local(4) [OF assms]\<close>, simp_all add: mem_copied_def)
qed

definition demo_chunk :: memory where
  "demo_chunk = (\<lambda>_. 0)(0x1038 := 1, 0x2000 := 1, 0x2009 := 0x20, 0x2013 := 0x80, 0x2018 := 4, 0x3000 := 0xAA)"

lemma in_region_before:
  assumes "in_region a l x" "unat a + unat l \<le> unat e" "unat e + n \<le> 2 ^ 64"
  shows "n \<le> unat (x - e)"
proof -
  have d: "unat (x - a) < unat l" using assms(1) by (simp add: in_region_def word_less_nat_alt)
  have "unat a + unat (x - a) < 2 ^ 64" using d assms(2) unat_lt64 [of e] by simp
  then have "unat (a + (x - a)) = unat a + unat (x - a)"
    using unat_plus_nowrap [of a "unat (x - a)"] by simp
  then have "unat x = unat a + unat (x - a)" by simp
  then have "unat (x - e) = unat x + 2 ^ 64 - unat e" "unat x < unat e"
    using d assms(2) by (auto simp: unat_sub_if_size word_size)
  then show ?thesis using assms(3) by linarith
qed

definition demo_download :: "boot_world \<Rightarrow> boot_world" where
  "demo_download w = w\<lparr>mem := demo_chunk, pBootImage := 0x1000, pmpEntry := pmpEntry_reset,
     localData := (localData_init 0)[0 := (hd (localData_init 0))\<lparr>pChunk := 0x2000\<rparr>]\<rparr>"

lemma demo_download_ready: "download_ready 1 0x2000 256 (demo_download w)"
proof -
  have rd: "chunk_execAddr demo_chunk 0x2000 = 0x80000000" "chunk_loadAddr demo_chunk 0x2000 = 0x2000"
    "chunk_size demo_chunk 0x2000 = 4" "chunk_owner demo_chunk 0x2000 = 1"
    "hart_numChunks 1 (demo_download w) = 1" "hart_lastChunk 1 (demo_download w) = 0"
    by (simp_all add: chunk_execAddr_def chunk_loadAddr_def chunk_size_def chunk_owner_def hart_numChunks_def
        hart_lastChunk_def img_hart_def demo_chunk_def demo_download_def rd64_def rd32_def rd_bytes_def upt_rec)
  have "\<forall>x. in_region 0x2000 40 x \<or> in_region (img_hart 0x1000 1) 40 x \<longrightarrow> 256 \<le> unat (x - 0x80000000)"
    by (auto simp: img_hart_def elim!: in_region_before)
  moreover have "HSS_PMP_CheckWrite 1 0x80000000 4 (demo_download w) = Some True"
    by (simp add: HSS_PMP_CheckWrite_def demo_download_def pmpEntry_reset_def nth_opt_def pmp_scan_inactive)
  moreover have "regions_apart 0x80000000 0x3000 256" by (simp add: regions_apart_def)
  ultimately show ?thesis using rd
    by (simp add: download_ready_def) (simp add: demo_download_def local_of_def localData_init_def init_local_def)
qed

theorem boot_download_chunk_copies_witness:
  "\<forall>w :: boot_world. \<exists>w'. handle_times 1 boot_download_chunks_handler 1 (demo_download w) = Some w'
     \<and> mem w' 0x80000000 = 0xAA \<and> pChunk (local_of 1 w') = 0x2028"
proof
  fix w :: boot_world
  have sz: "chunk_size (mem (demo_download w)) 0x2000 = 4" "chunk_execAddr (mem (demo_download w)) 0x2000 = 0x80000000"
    "chunk_loadAddr (mem (demo_download w)) 0x2000 = 0x2000"
    by (simp_all add: chunk_size_def chunk_execAddr_def chunk_loadAddr_def demo_chunk_def demo_download_def rd64_def rd_bytes_def upt_rec)
  have "download_ready 1 0x2000 (256 * sub_chunks (chunk_size (mem (demo_download w)) 0x2000)) (demo_download w)"
    using demo_download_ready by (simp add: sz)
  from boot_download_chunk_copies [OF this] obtain w' where
    "handle_times 1 boot_download_chunks_handler 1 (demo_download w) = Some w'"
    "mem w' 0x80000000 = mem (demo_download w) (pBootImage (demo_download w) + 0x2000)"
    "pChunk (local_of 1 w') = 0x2028"
    by (auto simp: sz)
  then show "\<exists>w'. handle_times 1 boot_download_chunks_handler 1 (demo_download w) = Some w'
     \<and> mem w' 0x80000000 = 0xAA \<and> pChunk (local_of 1 w') = 0x2028"
    by (intro exI [of _ w']) (simp add: demo_download_def demo_chunk_def)
qed

end
