(* ===== verification/HSS_Uart.thy ===== *)
theory HSS_Uart
  imports HSS_Boot
begin

text \<open>
  Input from the console UART (modules/misc/uart_helper.c): the character read with its
  timeout and the line editor.  What the UART's receiver holds is an input list of the
  state, one element per poll of \<^verbatim>\<open>MSS_UART_get_rx\<close>: nothing, a byte, or a byte with a line
  error; an exhausted list means that nothing ever arrives again.  What is echoed or
  printed is left out.
\<close>

subsection \<open>Receiving\<close>

datatype uart_event = No_rx | Rx u8 | Rx_error u8

record uart_world = boot_world +
  uart_rx :: "uart_event list"

definition uart_poll :: "'a uart_world_scheme \<Rightarrow> uart_event \<times> 'a uart_world_scheme" where
  "uart_poll w = (case uart_rx w of [] \<Rightarrow> (No_rx, w) | e # es \<Rightarrow> (e, w\<lparr>uart_rx := es\<rparr>))"

text \<open>
  The loop of \<^verbatim>\<open>uart_getchar\<close>; \<open>None\<close> means that it never ends.  A byte with a line error
  sets \<^verbatim>\<open>done\<close>, but with a positive timeout the flag is overwritten before it is looked at.
  \<^verbatim>\<open>HSS_Wdog_E51_Tickle\<close> is empty in the build modelled.
\<close>

partial_function (option) getchar_loop ::
    "int \<Rightarrow> bool \<Rightarrow> u64 \<Rightarrow> u64 \<Rightarrow> 'a uart_world_scheme \<Rightarrow> (u8 option \<times> 'a uart_world_scheme) option" where
  "getchar_loop timeout_sec do_sec_tick start_time last_sec_time w =
     (case uart_poll w of (e, w1) \<Rightarrow>
       (case e of Rx c \<Rightarrow> Some (Some c, w1)
        | _ \<Rightarrow>
          (case (if do_sec_tick then
                   (case HSS_Timer_IsElapsed last_sec_time TICKS_PER_SEC w1 of (el, w2) \<Rightarrow>
                      if el then HSS_GetTime w2 else (last_sec_time, w2))
                 else (last_sec_time, w1)) of (last', w3) \<Rightarrow>
             if timeout_sec < 0 then
               (if e = No_rx then getchar_loop timeout_sec do_sec_tick start_time last' w3 else Some (None, w3))
             else if timeout_sec > 0 then
               (case HSS_Timer_IsElapsed start_time (of_int timeout_sec * TICKS_PER_SEC) w3 of (el, w4) \<Rightarrow>
                  if el then Some (None, w4) else getchar_loop timeout_sec do_sec_tick start_time last' w4)
             else Some (None, w3))))"

definition uart_getchar ::
    "int \<Rightarrow> bool \<Rightarrow> 'a uart_world_scheme \<Rightarrow> (u8 option \<times> 'a uart_world_scheme) option" where
  "uart_getchar timeout_sec do_sec_tick w =
     (case HSS_GetTime w of (t, w1) \<Rightarrow> getchar_loop timeout_sec do_sec_tick t t w1)"

text \<open>
  \<^verbatim>\<open>HSS_ShowTimeout\<close>: was a key pressed, and which?  Escape counts as none (but is
  left in the caller's buffer).
\<close>

definition HSS_ShowTimeout :: "u32 \<Rightarrow> 'a uart_world_scheme \<Rightarrow> (bool \<times> u8 option \<times> 'a uart_world_scheme) option" where
  "HSS_ShowTimeout timeout_sec w =
     map_option (\<lambda>(c, w1). (c \<noteq> None \<and> c \<noteq> Some 27, c, w1)) (uart_getchar (sint timeout_sec) True w)"

text \<open>\<^verbatim>\<open>check_if_interrupted\<close> of the memory tester.\<close>

definition check_if_interrupted :: "'a uart_world_scheme \<Rightarrow> bool \<times> 'a uart_world_scheme" where
  "check_if_interrupted w =
     (case uart_getchar 0 False w of
        None \<Rightarrow> (False, w)
      | Some (c, w1) \<Rightarrow> (c = Some 0x03 \<or> c = Some 0x1B, w1))"

text \<open>A one-shot read always returns, after one read of the clock and one poll.\<close>

lemma getchar_once:
  "uart_getchar 0 False w = Some
     (case uart_poll (snd (HSS_GetTime w)) of (Rx c, w1) \<Rightarrow> (Some c, w1) | (_, w1) \<Rightarrow> (None, w1))"
  by (simp add: uart_getchar_def HSS_GetTime_def getchar_loop.simps split: prod.splits uart_event.splits)

subsection \<open>The line editor\<close>

abbreviation (input) GETLINE_MAX :: nat where "GETLINE_MAX \<equiv> 80"

text \<open>One character: finished, the new length (or \<open>-1\<close>), the buffer.\<close>

definition getline_char :: "u8 \<Rightarrow> int \<Rightarrow> u8 list \<Rightarrow> bool \<times> int \<times> u8 list" where
  "getline_char c result buf =
     (if c = 0x0D \<or> c = 0x0A then (True, result, buf)
      else if c = 0x7F \<or> c = 0x08 then
        (if result \<noteq> 0 then (False, result - 1, buf[nat (result - 1) := 0]) else (False, result, buf))
      else if c = 0x03 \<or> c = 0x1B then (True, -1, buf[0 := 0])
      else if c = 0x04 then (if result = 0 then (True, -1, buf[0 := 0]) else (False, result, buf))
      else if result < int (length buf) then (False, result + 1, buf[nat result := c])
      else (False, result, buf))"

fun getline_loop :: "uart_event list \<Rightarrow> int \<Rightarrow> u8 list \<Rightarrow> (int \<times> u8 list \<times> uart_event list) option" where
  "getline_loop [] result buf = None"
| "getline_loop (No_rx # es) result buf = getline_loop es result buf"
| "getline_loop (Rx c # es) result buf =
     (case getline_char c result buf of (fin, r, b) \<Rightarrow> if fin then Some (r, b, es) else getline_loop es r b)"
| "getline_loop (Rx_error c # es) result buf =
     (case getline_char c result buf of (fin, r, b) \<Rightarrow> if fin then Some (r, b, es) else getline_loop es r b)"

text \<open>The result, and the buffer and length handed out (\<open>None\<close>: a null pointer and 0).\<close>

definition uart_getline ::
    "'a uart_world_scheme \<Rightarrow> (int \<times> (u8 list \<times> nat) option \<times> 'a uart_world_scheme) option" where
  "uart_getline w = map_option (\<lambda>(r, b, es). (r, if r > 0 then Some (b, nat r) else None, w\<lparr>uart_rx := es\<rparr>))
     (getline_loop (uart_rx w) 0 (replicate GETLINE_MAX 0))"

text \<open>The line as the user sees it: rubout takes the last character away, a full line takes no more.\<close>

definition rubs_out :: "u8 \<Rightarrow> bool" where "rubs_out c \<longleftrightarrow> c = 0x7F \<or> c = 0x08"
definition ends_line :: "u8 \<Rightarrow> bool" where "ends_line c \<longleftrightarrow> c = 0x0D \<or> c = 0x0A"

fun edit_line :: "u8 list \<Rightarrow> u8 list \<Rightarrow> u8 list" where
  "edit_line l [] = l"
| "edit_line l (c # cs) =
     edit_line (if rubs_out c then butlast l else if c \<noteq> 0x04 \<and> length l < GETLINE_MAX then l @ [c] else l) cs"

definition buffer_of :: "u8 list \<Rightarrow> u8 list" where
  "buffer_of l = l @ replicate (GETLINE_MAX - length l) 0"

lemma buffer_append: "length l < GETLINE_MAX \<Longrightarrow> (buffer_of l)[length l := c] = buffer_of (l @ [c])"
  by (cases "80 - length l") (auto simp: buffer_of_def list_update_append)

lemma buffer_butlast: "l \<noteq> [] \<Longrightarrow> length l \<le> GETLINE_MAX \<Longrightarrow> (buffer_of l)[length l - 1 := 0] = buffer_of (butlast l)"
proof -
  assume l: "l \<noteq> []" "length l \<le> GETLINE_MAX"
  then obtain xs x where x: "l = xs @ [x]" by (metis append_butlast_last_id)
  have "80 - length xs = Suc (80 - length l)" using l by (simp add: x)
  then show ?thesis by (simp add: x buffer_of_def list_update_append)
qed

text \<open>The characters that neither end the line nor cancel it, from line \<open>l\<close> on.\<close>

fun plain_input :: "u8 list \<Rightarrow> u8 list \<Rightarrow> bool" where
  "plain_input l [] = True"
| "plain_input l (c # cs) \<longleftrightarrow> \<not> ends_line c \<and> c \<noteq> 0x03 \<and> c \<noteq> 0x1B \<and> (c = 0x04 \<longrightarrow> l \<noteq> [])
     \<and> plain_input (edit_line l [c]) cs"

lemma getline_edits:
  "length l \<le> GETLINE_MAX \<Longrightarrow> plain_input l cs \<Longrightarrow>
     getline_loop (map Rx cs @ es) (int (length l)) (buffer_of l)
       = getline_loop es (int (length (edit_line l cs))) (buffer_of (edit_line l cs))
     \<and> length (edit_line l cs) \<le> GETLINE_MAX"
proof (induction cs arbitrary: l)
  case Nil
  then show ?case by simp
next
  case (Cons c cs)
  let ?l = "edit_line l [c]"
  have len: "length ?l \<le> GETLINE_MAX" using Cons.prems(1) by auto
  have lb: "length (buffer_of l) = 80" using Cons.prems(1) by (simp add: buffer_of_def)
  have "getline_char c (int (length l)) (buffer_of l) = (False, int (length ?l), buffer_of ?l)"
  proof (cases "rubs_out c")
    case True
    then show ?thesis using Cons.prems buffer_butlast [of l]
      by (cases "l = []") (auto simp: getline_char_def rubs_out_def ends_line_def of_nat_diff nat_diff_distrib
          Suc_le_eq)
  next
    case False
    then show ?thesis using Cons.prems buffer_append [of l c] lb
      by (auto simp: getline_char_def rubs_out_def ends_line_def)
  qed
  then show ?case using Cons.IH [OF len] Cons.prems(2) by simp
qed

text \<open>
  C25.  The line editor hands out exactly the edited line: after any characters that
  neither end nor cancel the line, a carriage return or newline yields the line that the
  rubouts and the limit of eighty characters leave, and consumes nothing further.  The
  buffer holds no terminating zero when the line is full.
\<close>

theorem uart_getline_edits:
  assumes "plain_input [] cs" "ends_line c"
  shows "\<exists>w'. uart_getline (w\<lparr>uart_rx := map Rx cs @ Rx c # es\<rparr>) = Some
      (int (length (edit_line [] cs)),
       if edit_line [] cs = [] then None else Some (buffer_of (edit_line [] cs), length (edit_line [] cs)), w')
    \<and> uart_rx w' = es
    \<and> (0 \<notin> set cs \<longrightarrow> (0 \<in> set (buffer_of (edit_line [] cs)) \<longleftrightarrow> length (edit_line [] cs) < GETLINE_MAX))"
proof -
  have b: "replicate 80 0 = buffer_of []" by (simp add: buffer_of_def)
  note e = getline_edits [OF _ assms(1), of "Rx c # es", simplified]
  have "0 \<notin> set l \<Longrightarrow> 0 \<notin> set cs \<Longrightarrow> 0 \<notin> set (edit_line l cs)" for l
    by (induction cs arbitrary: l) (auto dest: in_set_butlastD)
  then have z: "0 \<notin> set cs \<Longrightarrow> 0 \<notin> set (edit_line [] cs)" by simp
  have "getline_loop (map Rx cs @ Rx c # es) 0 (buffer_of [])
      = Some (int (length (edit_line [] cs)), buffer_of (edit_line [] cs), es)"
    using e assms(2) by (simp add: getline_char_def ends_line_def)
  then show ?thesis using z e
    by (auto simp: uart_getline_def b) (auto simp: buffer_of_def)
qed

theorem uart_getline_edits_witness:
  "\<forall>w :: uart_world. \<exists>w'. uart_getline (w\<lparr>uart_rx := [Rx 0x61, Rx 0x62, Rx 0x7F, Rx 0x0D, Rx 0x63]\<rparr>)
     = Some (1, Some (0x61 # replicate 79 0, 1), w') \<and> uart_rx w' = [Rx 0x63]"
proof
  fix w :: uart_world
  have p: "plain_input [] [0x61, 0x62, 0x7F]" "ends_line 0x0D"
    by (simp_all add: ends_line_def rubs_out_def)
  have l: "edit_line [] [0x61, 0x62, 0x7F] = [0x61]" by (simp add: rubs_out_def)
  from uart_getline_edits [OF p, where w = w and es = "[Rx 0x63]"]
  show "\<exists>w'. uart_getline (w\<lparr>uart_rx := [Rx 0x61, Rx 0x62, Rx 0x7F, Rx 0x0D, Rx 0x63]\<rparr>)
     = Some (1, Some (0x61 # replicate 79 0, 1), w') \<and> uart_rx w' = [Rx 0x63]"
    unfolding l by (auto simp: buffer_of_def)
qed

end
