(* ===== verification/HSS_MemTest.thy ===== *)
theory HSS_MemTest
  imports HSS_Memory
begin

text \<open>
  The memory tester (modules/misc/hss_memtest.c): the walking-ones test of the data bus,
  the power-of-two test of the address bus and the increment test of a whole device.
  A tester reads and writes 64-bit words and, between steps, asks the UART whether the
  user wants to stop; so its model takes the three operations of the hardware as
  arguments: \<open>rd\<close> and \<open>wr\<close> for the memory and \<open>intr\<close> for \<^verbatim>\<open>check_if_interrupted\<close>.  A
  result is the address of a word that fails, and as in the code the null address means that
  there is none, so that a failing word at address 0 goes unnoticed; what is logged and the progress indicator are left out.

  The locale \<open>wired_memory\<close> is the interface to the memory under test, with its possible
  faults: data lines that change a word on its way (\<open>f\<close>) and address lines that select
  the wrong cell (\<open>g\<close>).  Against it each test is shown to find exactly the faults it is
  meant to find.  The byte memory of HSS_Memory is a fault-free instance.
\<close>

subsection \<open>The tests\<close>

text \<open>Every walk doubles its word until it leaves the mask.\<close>

definition shifts_left :: "u64 \<Rightarrow> nat" where
  "shifts_left p = (LEAST n. push_bit n p = 0)"

lemma shifts_left_double: "p \<noteq> 0 \<Longrightarrow> shifts_left (p * 2) < shifts_left p"
proof -
  assume p: "p \<noteq> 0"
  have z: "push_bit 64 p = 0" by (rule bit_word_eqI) (auto simp: bit_simps)
  then have N: "push_bit (shifts_left p) p = 0" unfolding shifts_left_def by (rule LeastI)
  then have "0 < shifts_left p" using p by (cases "shifts_left p") auto
  then have "push_bit (shifts_left p - 1) (push_bit 1 p) = 0"
    using N by (simp add: push_bit_push_bit del: push_bit_Suc push_bit_numeral push_bit_of_1 One_nat_def push_bit_eq_mult)
  then have "push_bit (shifts_left p - 1) (p * 2) = 0" by simp
  then have "shifts_left (p * 2) \<le> shifts_left p - 1" unfolding shifts_left_def by (rule Least_le)
  then show ?thesis using \<open>0 < shifts_left p\<close> by simp
qed

lemma shifts_left_mask: "p AND k \<noteq> 0 \<Longrightarrow> shifts_left (p * 2) < shifts_left p"
  by (rule shifts_left_double) auto

function data_bus_walk ::
    "(u64 \<Rightarrow> 'm \<Rightarrow> u64) \<Rightarrow> (u64 \<Rightarrow> u64 \<Rightarrow> 'm \<Rightarrow> 'm) \<Rightarrow> u64 \<Rightarrow> u64 \<Rightarrow> 'm \<Rightarrow> u64 \<times> 'm" where
  "data_bus_walk rd wr address pattern m =
     (if pattern = 0 then (0, m)
      else let m1 = wr address pattern m in
        if rd address m1 \<noteq> pattern then (pattern, m1)
        else data_bus_walk rd wr address (push_bit 1 pattern) m1)"
  by pat_completeness auto
termination
  by (relation "measure (\<lambda>(rd, wr, a, p, m). shifts_left p)") (auto intro: shifts_left_double)

declare data_bus_walk.simps [simp del]

definition HSS_MemTestDataBus ::
    "(u64 \<Rightarrow> 'm \<Rightarrow> u64) \<Rightarrow> (u64 \<Rightarrow> u64 \<Rightarrow> 'm \<Rightarrow> 'm) \<Rightarrow> u64 \<Rightarrow> 'm \<Rightarrow> u64 \<times> 'm" where
  "HSS_MemTestDataBus rd wr address m = data_bus_walk rd wr address 1 m"

definition word_addr :: "u64 \<Rightarrow> u64 \<Rightarrow> u64" where
  "word_addr baseAddr offset = baseAddr + 8 * offset"

abbreviation (input) NULL :: u64 where "NULL \<equiv> 0"
abbreviation (input) ab_pattern :: u64 where "ab_pattern \<equiv> 0xAAAAAAAAAAAAAAAA"
abbreviation (input) ab_antiPattern :: u64 where "ab_antiPattern \<equiv> 0x5555555555555555"

text \<open>The walks of \<^verbatim>\<open>HSS_MemTestAddressBus\<close>; a first component \<open>True\<close> is the jump to \<^verbatim>\<open>do_return\<close>.\<close>

function walk_set ::
    "(u64 \<Rightarrow> u64 \<Rightarrow> 'm \<Rightarrow> 'm) \<Rightarrow> ('m \<Rightarrow> bool \<times> 'm) \<Rightarrow> u64 \<Rightarrow> u64 \<Rightarrow> u64 \<Rightarrow> 'm \<Rightarrow> bool \<times> 'm" where
  "walk_set wr intr baseAddr addrMask offset m =
     (if offset AND addrMask = 0 then (False, m)
      else let m1 = wr (word_addr baseAddr offset) ab_pattern m; (i, m2) = intr m1 in
        if i then (True, m2) else walk_set wr intr baseAddr addrMask (push_bit 1 offset) m2)"
  by pat_completeness auto
termination
  by (relation "measure (\<lambda>(wr, intr, b, k, p, m). shifts_left p)") (auto intro: shifts_left_mask)

declare walk_set.simps [simp del]

function walk_verify ::
    "(u64 \<Rightarrow> 'm \<Rightarrow> u64) \<Rightarrow> ('m \<Rightarrow> bool \<times> 'm) \<Rightarrow> u64 \<Rightarrow> u64 \<Rightarrow> u64 \<Rightarrow> 'm \<Rightarrow> bool \<times> u64 \<times> 'm" where
  "walk_verify rd intr baseAddr addrMask offset m =
     (if offset AND addrMask = 0 then (False, NULL, m)
      else if rd (word_addr baseAddr offset) m \<noteq> ab_pattern
      then (False, word_addr baseAddr offset, m)
      else let (i, m1) = intr m in
        if i then (True, NULL, m1) else walk_verify rd intr baseAddr addrMask (push_bit 1 offset) m1)"
  by pat_completeness auto
termination
  by (relation "measure (\<lambda>(rd, intr, b, k, p, m). shifts_left p)") (auto intro: shifts_left_mask)

declare walk_verify.simps [simp del]

text \<open>Does any other offset of the walk no longer hold the pattern?\<close>

function walk_disturbed ::
    "(u64 \<Rightarrow> 'm \<Rightarrow> u64) \<Rightarrow> u64 \<Rightarrow> u64 \<Rightarrow> u64 \<Rightarrow> u64 \<Rightarrow> 'm \<Rightarrow> bool" where
  "walk_disturbed rd baseAddr addrMask testOffset offset m =
     (if offset AND addrMask = 0 then False
      else if rd (word_addr baseAddr offset) m \<noteq> ab_pattern \<and> offset \<noteq> testOffset then True
      else walk_disturbed rd baseAddr addrMask testOffset (push_bit 1 offset) m)"
  by pat_completeness auto
termination
  by (relation "measure (\<lambda>(rd, b, k, t, p, m). shifts_left p)") (auto intro: shifts_left_mask)

declare walk_disturbed.simps [simp del]

text \<open>
  After a disturbance has been found the code sets both offsets to zero, polls once more
  and leaves the loop either way; if the address it found is null it first restores the word
  at the base.
\<close>

function walk_anti ::
    "(u64 \<Rightarrow> 'm \<Rightarrow> u64) \<Rightarrow> (u64 \<Rightarrow> u64 \<Rightarrow> 'm \<Rightarrow> 'm) \<Rightarrow> ('m \<Rightarrow> bool \<times> 'm) \<Rightarrow> u64 \<Rightarrow> u64 \<Rightarrow> u64 \<Rightarrow> 'm
      \<Rightarrow> u64 \<times> 'm" where
  "walk_anti rd wr intr baseAddr addrMask testOffset m =
     (if testOffset AND addrMask = 0 then (NULL, m)
      else let m1 = wr (word_addr baseAddr testOffset) ab_antiPattern m in
        if rd (word_addr baseAddr 0) m1 \<noteq> ab_pattern then (word_addr baseAddr testOffset, m1)
        else if walk_disturbed rd baseAddr addrMask testOffset 1 m1
        then let result = word_addr baseAddr testOffset;
                 m2 = (if result = NULL then wr (word_addr baseAddr 0) ab_pattern m1 else m1)
             in (result, snd (intr m2))
        else let m2 = wr (word_addr baseAddr testOffset) ab_pattern m1; (i, m3) = intr m2 in
          if i then (NULL, m3)
          else walk_anti rd wr intr baseAddr addrMask (push_bit 1 testOffset) m3)"
  by pat_completeness auto
termination
  by (relation "measure (\<lambda>(rd, wr, intr, b, k, p, m). shifts_left p)") (auto intro: shifts_left_mask)

declare walk_anti.simps [simp del]

definition HSS_MemTestAddressBus ::
    "(u64 \<Rightarrow> 'm \<Rightarrow> u64) \<Rightarrow> (u64 \<Rightarrow> u64 \<Rightarrow> 'm \<Rightarrow> 'm) \<Rightarrow> ('m \<Rightarrow> bool \<times> 'm) \<Rightarrow> u64 \<Rightarrow> u64 \<Rightarrow> 'm
      \<Rightarrow> u64 \<times> 'm" where
  "HSS_MemTestAddressBus rd wr intr baseAddr numBytes m =
     (let addrMask = numBytes div 8 - 1;
          (i1, m1) = walk_set wr intr baseAddr addrMask 1 m
      in if i1 then (NULL, m1)
         else let m2 = wr (word_addr baseAddr 0) ab_antiPattern m1;
                  (i3, result, m3) = walk_verify rd intr baseAddr addrMask 1 m2
           in if i3 then (NULL, m3)
              else let m4 = wr (word_addr baseAddr 0) ab_pattern m3
                in if result \<noteq> NULL then (result, m4)
                   else walk_anti rd wr intr baseAddr addrMask 1 m4)"

text \<open>The three passes of \<^verbatim>\<open>HSS_MemTestDevice\<close>; word \<open>k\<close> gets \<open>k + 1\<close>, then its complement.\<close>

lemma unat_step: "(a :: u64) < n \<Longrightarrow> unat (n - (a + 1)) < unat (n - a)"
proof -
  assume "a < n"
  then have z: "n - a \<noteq> 0" by auto
  have e: "n - (a + 1) = (n - a) - 1" by simp
  show ?thesis unfolding e using unat_minus_one [OF z] z by (simp only:) (simp add: unat_gt_0)
qed

function fill_pass ::
    "(u64 \<Rightarrow> u64 \<Rightarrow> 'm \<Rightarrow> 'm) \<Rightarrow> ('m \<Rightarrow> bool \<times> 'm) \<Rightarrow> u64 \<Rightarrow> u64 \<Rightarrow> u64 \<Rightarrow> 'm \<Rightarrow> bool \<times> 'm" where
  "fill_pass wr intr baseAddr numWords offset m =
     (if \<not> offset < numWords then (False, m)
      else let m1 = wr (word_addr baseAddr offset) (offset + 1) m; (i, m2) = intr m1 in
        if i then (True, m2) else fill_pass wr intr baseAddr numWords (offset + 1) m2)"
  by pat_completeness auto
termination
  by (relation "measure (\<lambda>(wr, intr, b, n, p, m). unat (n - p))") (auto intro: unat_step)

declare fill_pass.simps [simp del]

function invert_pass ::
    "(u64 \<Rightarrow> 'm \<Rightarrow> u64) \<Rightarrow> (u64 \<Rightarrow> u64 \<Rightarrow> 'm \<Rightarrow> 'm) \<Rightarrow> ('m \<Rightarrow> bool \<times> 'm) \<Rightarrow> u64 \<Rightarrow> u64 \<Rightarrow> u64 \<Rightarrow> 'm
      \<Rightarrow> bool \<times> u64 \<times> 'm" where
  "invert_pass rd wr intr baseAddr numWords offset m =
     (if \<not> offset < numWords then (False, NULL, m)
      else if rd (word_addr baseAddr offset) m \<noteq> offset + 1
      then (False, word_addr baseAddr offset, m)
      else let m1 = wr (word_addr baseAddr offset) (NOT (offset + 1)) m; (i, m2) = intr m1 in
        if i then (True, NULL, m2) else invert_pass rd wr intr baseAddr numWords (offset + 1) m2)"
  by pat_completeness auto
termination
  by (relation "measure (\<lambda>(rd, wr, intr, b, n, p, m). unat (n - p))") (auto intro: unat_step)

declare invert_pass.simps [simp del]

function check_pass ::
    "(u64 \<Rightarrow> 'm \<Rightarrow> u64) \<Rightarrow> ('m \<Rightarrow> bool \<times> 'm) \<Rightarrow> u64 \<Rightarrow> u64 \<Rightarrow> u64 \<Rightarrow> 'm \<Rightarrow> u64 \<times> 'm" where
  "check_pass rd intr baseAddr numWords offset m =
     (if \<not> offset < numWords then (NULL, m)
      else if rd (word_addr baseAddr offset) m \<noteq> NOT (offset + 1)
      then (word_addr baseAddr offset, m)
      else let (i, m1) = intr m in
        if i then (NULL, m1) else check_pass rd intr baseAddr numWords (offset + 1) m1)"
  by pat_completeness auto
termination
  by (relation "measure (\<lambda>(rd, intr, b, n, p, m). unat (n - p))") (auto intro: unat_step)

declare check_pass.simps [simp del]

definition HSS_MemTestDevice ::
    "(u64 \<Rightarrow> 'm \<Rightarrow> u64) \<Rightarrow> (u64 \<Rightarrow> u64 \<Rightarrow> 'm \<Rightarrow> 'm) \<Rightarrow> ('m \<Rightarrow> bool \<times> 'm) \<Rightarrow> u64 \<Rightarrow> u64 \<Rightarrow> 'm
      \<Rightarrow> u64 \<times> 'm" where
  "HSS_MemTestDevice rd wr intr baseAddr numBytes m =
     (let numWords = numBytes div 8;
          (i1, m1) = fill_pass wr intr baseAddr numWords 0 m
      in if i1 then (NULL, m1)
         else let (i2, result, m2) = invert_pass rd wr intr baseAddr numWords 0 m1
           in if i2 then (NULL, m2)
              else if result \<noteq> NULL then (result, m2)
              else check_pass rd intr baseAddr numWords 0 m2)"

text \<open>
  \<^verbatim>\<open>HSS_MemTestDDR_Ex\<close>: the later tests run only if the earlier ones have passed.  Of
  \<^verbatim>\<open>clear_bootup_cache_ways\<close>, which is the platform library's, the memory sees nothing.
\<close>

definition HSS_MemTestDDR_Ex ::
    "(u64 \<Rightarrow> 'm \<Rightarrow> u64) \<Rightarrow> (u64 \<Rightarrow> u64 \<Rightarrow> 'm \<Rightarrow> 'm) \<Rightarrow> ('m \<Rightarrow> bool \<times> 'm) \<Rightarrow> u64 \<Rightarrow> u64 \<Rightarrow> 'm \<Rightarrow> bool \<times> 'm" where
  "HSS_MemTestDDR_Ex rd wr intr baseAddr numBytes m =
     (case HSS_MemTestDataBus rd wr baseAddr m of (e, m1) \<Rightarrow>
        if e \<noteq> 0 then (False, m1)
        else case HSS_MemTestAddressBus rd wr intr baseAddr numBytes m1 of (r2, m2) \<Rightarrow>
          if r2 \<noteq> NULL then (False, m2)
          else case HSS_MemTestDevice rd wr intr baseAddr numBytes m2 of (r3, m3) \<Rightarrow> (r3 = NULL, m3))"


subsection \<open>The address walks\<close>

definition walk_len :: "u64 \<Rightarrow> nat" where
  "walk_len addrMask = (LEAST k. \<not> bit addrMask k)"

lemma walk_len_le: "walk_len addrMask \<le> 64"
  unfolding walk_len_def by (rule Least_le) (auto dest: bit_imp_le_length)

lemma walk_end: "k \<le> walk_len addrMask \<Longrightarrow> 2 ^ k AND addrMask = 0 \<longleftrightarrow> k = walk_len addrMask"
proof -
  assume k: "k \<le> walk_len addrMask"
  have "\<not> bit addrMask (walk_len addrMask)" unfolding walk_len_def
    by (rule LeastI [of _ 64]) (auto dest: bit_imp_le_length)
  moreover have "bit addrMask k" if "k < walk_len addrMask" using not_less_Least [of k "\<lambda>k. \<not> bit addrMask k"] that
    by (simp add: walk_len_def)
  moreover have "2 ^ k AND addrMask = 0 \<longleftrightarrow> \<not> bit addrMask k"
    using and_exp_eq_0_iff_not_bit [of addrMask k] by (simp add: and.commute)
  ultimately show ?thesis using k by (auto simp: le_less)
qed

lemma power_inject_small: "i < 64 \<Longrightarrow> j < 64 \<Longrightarrow> (2 :: u64) ^ i = 2 ^ j \<longleftrightarrow> i = j"
proof -
  assume ij: "i < 64" "j < 64"
  have "bit ((2 :: u64) ^ i) i" using ij by (simp add: bit_exp_iff)
  moreover have "bit ((2 :: u64) ^ j) i \<longleftrightarrow> i = j" using ij by (simp add: bit_exp_iff)
  ultimately show ?thesis by auto
qed

lemma unat_index: "k < unat (n :: u64) \<Longrightarrow> unat (of_nat k :: u64) = k"
  using unat_lt64 [of n] by (intro unat_of_nat_small) simp

lemma of_nat_less_index: "k < unat (n :: u64) \<Longrightarrow> of_nat k < n"
  by (simp add: word_less_nat_alt unat_index)

lemma of_nat_inj_index: "i < unat (n :: u64) \<Longrightarrow> j < unat n \<Longrightarrow> (of_nat i :: u64) = of_nat j \<longleftrightarrow> i = j"
  using unat_index [of i n] unat_index [of j n] by metis

lemma walk_offsets_below: "i < walk_len (n - 1) \<Longrightarrow> 0 < n \<Longrightarrow> 2 ^ i < n"
proof -
  assume i: "i < walk_len (n - 1)" and n: "0 < n"
  have "bit (n - 1) i" using not_less_Least [of i "\<lambda>k. \<not> bit (n - 1) k"] i by (simp add: walk_len_def)
  then have "2 ^ i AND (n - 1) = 2 ^ i"
    by (intro bit_word_eqI) (auto simp: bit_simps)
  then have "2 ^ i \<le> n - 1" by (metis word_and_le1)
  moreover have "n - 1 < n" using n unat_minus_one [of n] by (simp add: word_less_nat_alt unat_gt_0)
  ultimately show ?thesis by (rule order.strict_trans1)
qed


lemma walk_offsets_sub:
  assumes "0 < n"
  shows "insert 0 ((\<lambda>j. 2 ^ j) ` {..<walk_len (n - 1)}) \<subseteq> (of_nat :: nat \<Rightarrow> u64) ` {..<unat n}"
proof -
  have "off \<in> of_nat ` {..<unat n}" if "off < n" for off :: u64
    using that by (intro image_eqI [of _ _ "unat off"]) (simp_all add: word_less_nat_alt)
  then show ?thesis using walk_offsets_below [OF _ assms] assms by auto
qed

subsection \<open>Memories with faulty wiring\<close>

text \<open>
  Writing \<open>v\<close> at an address puts \<open>f v\<close> in the cell that the address lines select; \<open>ok\<close> says
  which addresses are word addresses of the memory.
\<close>

locale wired_memory =
  fixes rd :: "u64 \<Rightarrow> 'm \<Rightarrow> u64" and wr :: "u64 \<Rightarrow> u64 \<Rightarrow> 'm \<Rightarrow> 'm" and intr :: "'m \<Rightarrow> bool \<times> 'm"
    and f :: "u64 \<Rightarrow> u64" and g :: "u64 \<Rightarrow> 'c" and ok :: "u64 \<Rightarrow> bool"
  assumes read_write: "ok a \<Longrightarrow> ok b \<Longrightarrow> rd a (wr b v m) = (if g a = g b then f v else rd a m)"
    and not_interrupted: "\<not> fst (intr m)"
    and intr_read: "rd a (snd (intr m)) = rd a m"
begin

lemma data_bus_walk_finds:
  assumes "ok a" "k \<le> 64"
  shows "fst (data_bus_walk rd wr a (2 ^ k) m) =
    (case List.find (\<lambda>j. f (2 ^ j) \<noteq> 2 ^ j) [k..<64] of None \<Rightarrow> 0 | Some j \<Rightarrow> 2 ^ j)"
  using assms(2)
proof (induction k arbitrary: m rule: inc_induct)
  case base
  show ?case by (simp add: data_bus_walk.simps)
next
  case (step k)
  have nz: "(2 :: u64) ^ k \<noteq> 0" using step.hyps by (simp add: exp_eq_zero_iff)
  have "push_bit 1 ((2 :: u64) ^ k) = 2 ^ Suc k" by simp
  moreover have "[k..<64] = k # [Suc k..<64]" using step.hyps by (simp add: upt_conv_Cons)
  ultimately show ?case
    using step.IH nz assms(1) by (subst data_bus_walk.simps) (simp add: read_write Let_def mult.commute)
qed

text \<open>Address walks: the offsets are the powers of two below the first gap of the mask.\<close>

lemma walk_set_spec:
  assumes K: "walk_len k0 = K" and A: "\<forall>j. ok (A j)" "\<forall>j. A j = word_addr base (2 ^ j)"
  shows "k \<le> K \<Longrightarrow> fst (walk_set wr intr base k0 (2 ^ k) m) = False
    \<and> (\<forall>a. ok a \<longrightarrow> rd a (snd (walk_set wr intr base k0 (2 ^ k) m)) =
        (if \<exists>j\<in>{k..<K}. g a = g (A j) then f ab_pattern else rd a m))"
proof (induction k arbitrary: m rule: inc_induct)
  case base
  show ?case using walk_end [of K k0] K by (simp add: walk_set.simps)
next
  case (step k)
  obtain m1 where m1: "intr (wr (A k) ab_pattern m) = (False, m1)"
    using not_interrupted [of "wr (A k) ab_pattern m"] by (cases "intr (wr (A k) ab_pattern m)") auto
  have r1: "rd a m1 = (if g a = g (A k) then f ab_pattern else rd a m)" if "ok a" for a
    using intr_read [of a "wr (A k) ab_pattern m"] m1 that A(1) by (simp add: read_write)
  have unf: "walk_set wr intr base k0 (2 ^ k) m = walk_set wr intr base k0 (2 ^ Suc k) m1"
    using walk_end [of k k0] K step.hyps m1 A(2) by (subst walk_set.simps) (simp add: Let_def mult.commute)
  have "{k..<K} = insert k {Suc k..<K}" using step.hyps by auto
  then show ?case unfolding unf using step.IH [of m1] r1 by auto
qed

lemma walk_verify_spec:
  assumes K: "walk_len k0 = K" and A: "\<forall>j. A j = word_addr base (2 ^ j)" and nn: "\<forall>j<K. A j \<noteq> NULL"
  shows "k \<le> K \<Longrightarrow> \<exists>r m'. walk_verify rd intr base k0 (2 ^ k) m = (False, r, m')
    \<and> (r = NULL \<longleftrightarrow> (\<forall>j\<in>{k..<K}. rd (A j) m = ab_pattern)) \<and> (\<forall>a. rd a m' = rd a m)"
proof (induction k arbitrary: m rule: inc_induct)
  case base
  show ?case using walk_end [of K k0] K by (simp add: walk_verify.simps)
next
  case (step k)
  have kk: "{k..<K} = insert k {Suc k..<K}" using step.hyps by auto
  show ?case
  proof (cases "rd (A k) m = ab_pattern")
    case True
    obtain m1 where m1: "intr m = (False, m1)" using not_interrupted [of m] by (cases "intr m") auto
    have "walk_verify rd intr base k0 (2 ^ k) m = walk_verify rd intr base k0 (2 ^ Suc k) m1"
      using walk_end [of k k0] K step.hyps m1 A True by (subst walk_verify.simps) (simp add: Let_def mult.commute)
    moreover have "\<forall>a. rd a m1 = rd a m" using intr_read [of _ m] m1 by simp
    ultimately show ?thesis using step.IH [of m1] True unfolding kk by auto
  next
    case False
    then show ?thesis using walk_end [of k k0] K step.hyps A nn unfolding kk
      by (subst walk_verify.simps) simp
  qed
qed

lemma walk_disturbed_spec:
  assumes K: "walk_len k0 = K" and A: "\<forall>j. A j = word_addr base (2 ^ j)" and t: "t < K"
  shows "k \<le> K \<Longrightarrow> walk_disturbed rd base k0 (2 ^ t) (2 ^ k) m \<longleftrightarrow>
    (\<exists>j\<in>{k..<K}. j \<noteq> t \<and> rd (A j) m \<noteq> ab_pattern)"
proof (induction k rule: inc_induct)
  case base
  show ?case using walk_end [of K k0] K by (simp add: walk_disturbed.simps)
next
  case (step k)
  have "{k..<K} = insert k {Suc k..<K}" using step.hyps by auto
  moreover have "(2 :: u64) ^ k = 2 ^ t \<longleftrightarrow> k = t"
    using step.hyps t walk_len_le [of k0] K by (intro power_inject_small) simp_all
  ultimately show ?case using walk_end [of k k0] K step A
    by (subst walk_disturbed.simps) (auto simp: mult.commute)
qed

lemma walk_anti_spec:
  assumes K: "walk_len k0 = K" and A: "\<forall>j. ok (A j)" "\<forall>j. A j = word_addr base (2 ^ j)"
    and A0: "ok A0" "A0 = word_addr base 0" and nn: "\<forall>j<K. A j \<noteq> NULL"
    and f: "f ab_pattern = ab_pattern" "f ab_antiPattern = ab_antiPattern"
  shows "k \<le> K \<Longrightarrow> rd A0 m = ab_pattern \<Longrightarrow> \<forall>j<K. rd (A j) m = ab_pattern \<Longrightarrow>
    fst (walk_anti rd wr intr base k0 (2 ^ k) m) = NULL \<longleftrightarrow>
      (\<forall>j\<in>{k..<K}. g A0 \<noteq> g (A j) \<and> (\<forall>i<K. i \<noteq> j \<longrightarrow> g (A i) \<noteq> g (A j)))"
proof (induction k arbitrary: m rule: inc_induct)
  case base
  show ?case using walk_end [of K k0] K by (simp add: walk_anti.simps)
next
  case (step k)
  have kk: "{k..<K} = insert k {Suc k..<K}" using step.hyps by auto
  define m1 where "m1 = wr (A k) ab_antiPattern m"
  define m2 where "m2 = wr (A k) ab_pattern m1"
  obtain m3 where m3: "intr m2 = (False, m3)" using not_interrupted [of m2] by (cases "intr m2") auto
  have r1: "rd a m1 = (if g a = g (A k) then ab_antiPattern else rd a m)" if "ok a" for a
    using that A(1) by (simp add: m1_def read_write f)
  have r3: "rd a m3 = (if g a = g (A k) then ab_pattern else rd a m)" if "ok a" for a
    using intr_read [of a m2] m3 that A(1) r1 by (simp add: m2_def read_write f)
  have e: "\<not> 2 ^ k AND k0 = 0" using walk_end [of k k0] K step.hyps by simp
  define D where "D \<longleftrightarrow> (\<exists>i<K. i \<noteq> k \<and> g (A i) = g (A k))"
  have d: "walk_disturbed rd base k0 (2 ^ k) 1 m1 \<longleftrightarrow> D"
    using walk_disturbed_spec [OF K A(2), of k 0 m1] step r1 A(1) by (auto simp: D_def)
  have unf: "fst (walk_anti rd wr intr base k0 (2 ^ k) m) =
      (if g A0 = g (A k) \<or> D then A k
       else fst (walk_anti rd wr intr base k0 (2 ^ Suc k) m3))"
    using e d r1 [OF A0(1)] step.prems(1) m3 A(2) A0(2)
    by (subst walk_anti.simps) (simp add: Let_def m1_def m2_def mult.commute)
  have "rd A0 m3 = ab_pattern" "\<forall>j<K. rd (A j) m3 = ab_pattern"
    using r3 A(1) A0(1) step.prems by auto
  from step.IH [OF this] nn step.hyps show ?case unfolding unf kk D_def by auto
qed

text \<open>The address test finds exactly two walked words, or a walked word and the first, in one cell.\<close>

lemma address_bus_finds:
  assumes ok: "ok (word_addr base 0)" "\<forall>j. ok (word_addr base (2 ^ j))"
    and nn: "\<forall>j<walk_len (n div 8 - 1). word_addr base (2 ^ j) \<noteq> NULL"
    and f: "f ab_pattern = ab_pattern" "f ab_antiPattern = ab_antiPattern"
  shows "fst (HSS_MemTestAddressBus rd wr intr base n m) = NULL \<longleftrightarrow>
    inj_on (\<lambda>off. g (word_addr base off)) (insert 0 ((\<lambda>j. 2 ^ j) ` {..<walk_len (n div 8 - 1)}))"
proof -
  define k0 where "k0 = n div 8 - 1"
  define K where "K = walk_len k0"
  define A where "A = (\<lambda>j :: nat. word_addr base (2 ^ j))"
  define A0 where "A0 = word_addr base 0"
  have K: "walk_len k0 = K" and A: "\<forall>j. ok (A j)" "\<forall>j. A j = word_addr base (2 ^ j)"
    using ok by (simp_all add: K_def A_def)
  have nn': "\<forall>j<K. A j \<noteq> NULL" using nn by (simp add: K_def A_def k0_def)
  have a0: "ok A0" "A0 = word_addr base 0" using ok by (simp_all add: A0_def)
  obtain m1 where m1: "walk_set wr intr base k0 1 m = (False, m1)"
    and r1: "\<forall>a. ok a \<longrightarrow> rd a m1 = (if \<exists>j\<in>{0..<K}. g a = g (A j) then ab_pattern else rd a m)"
    using walk_set_spec [OF K A, of 0 m] f by (cases "walk_set wr intr base k0 1 m") auto
  define m2 where "m2 = wr A0 ab_antiPattern m1"
  obtain r m3 where m3: "walk_verify rd intr base k0 1 m2 = (False, r, m3)"
    and r: "r = NULL \<longleftrightarrow> (\<forall>j\<in>{0..<K}. rd (A j) m2 = ab_pattern)" and r3: "\<forall>a. rd a m3 = rd a m2"
    using walk_verify_spec [OF K A(2) nn', of 0 m2] unfolding power_0 by blast
  define m4 where "m4 = wr A0 ab_pattern m3"
  have r2: "rd (A j) m2 = (if g (A j) = g A0 then ab_antiPattern else ab_pattern)" if "j < K" for j
    using that r1 A(1) a0(1) by (auto simp: m2_def read_write f)
  have r': "r = NULL \<longleftrightarrow> (\<forall>j<K. g (A j) \<noteq> g A0)" using r r2 by auto
  have r4: "rd A0 m4 = ab_pattern" "r = NULL \<Longrightarrow> \<forall>j<K. rd (A j) m4 = ab_pattern"
    using a0(1) A(1) r r3 by (auto simp: m4_def read_write f)
  have "fst (HSS_MemTestAddressBus rd wr intr base n m) =
      (if r \<noteq> NULL then r else fst (walk_anti rd wr intr base k0 1 m4))"
    using m1 m3 by (simp add: HSS_MemTestAddressBus_def k0_def A0_def m2_def m4_def Let_def)
  then have "fst (HSS_MemTestAddressBus rd wr intr base n m) = NULL \<longleftrightarrow>
      (\<forall>j<K. g A0 \<noteq> g (A j) \<and> (\<forall>i<K. i \<noteq> j \<longrightarrow> g (A i) \<noteq> g (A j)))"
    using walk_anti_spec [OF K A a0 nn' f, of 0 m4] r4 r' by auto
  also have "\<dots> \<longleftrightarrow> inj_on (\<lambda>off. g (word_addr base off)) (insert 0 ((\<lambda>j. 2 ^ j) ` {..<K}))"
  proof -
    have p: "(2 :: u64) ^ i = 2 ^ j \<longleftrightarrow> i = j" "(2 :: u64) ^ i \<noteq> 0" if "i < K" "j < K" for i j
      using that walk_len_le [of k0] K by (auto simp: power_inject_small exp_eq_zero_iff)
    show ?thesis unfolding inj_on_def using p by (auto simp: A_def A0_def)
  qed
  finally show ?thesis by (simp add: K_def k0_def)
qed

lemma fill_pass_spec:
  assumes n: "unat n = N" and B: "\<forall>i. ok (B i)" "\<forall>i. B i = word_addr base (of_nat i)"
  shows "k \<le> N \<Longrightarrow> \<exists>m'. fill_pass wr intr base n (of_nat k) m = (False, m')
    \<and> (\<forall>a j. ok a \<longrightarrow> k \<le> j \<longrightarrow> j < N \<longrightarrow> g a = g (B j) \<longrightarrow> (\<forall>i. j < i \<and> i < N \<longrightarrow> g (B i) \<noteq> g a)
           \<longrightarrow> rd a m' = f (of_nat j + 1))
    \<and> (\<forall>a. ok a \<longrightarrow> (\<forall>j\<in>{k..<N}. g (B j) \<noteq> g a) \<longrightarrow> rd a m' = rd a m)"
proof (induction k arbitrary: m rule: inc_induct)
  case base
  show ?case using n by (subst fill_pass.simps) auto
next
  case (step k)
  obtain m1 where m1: "intr (wr (B k) (of_nat k + 1) m) = (False, m1)"
    using not_interrupted [of "wr (B k) (of_nat k + 1) m"] by (cases "intr (wr (B k) (of_nat k + 1) m)") auto
  have r1: "rd a m1 = (if g a = g (B k) then f (of_nat k + 1) else rd a m)" if "ok a" for a
    using intr_read [of a "wr (B k) (of_nat k + 1) m"] m1 that B(1) by (simp add: read_write)
  have lt: "of_nat k < n" using of_nat_less_index [of k n] n step.hyps by simp
  have unf: "fill_pass wr intr base n (of_nat k) m = fill_pass wr intr base n (of_nat (Suc k)) m1"
    using lt m1 B(2) by (subst fill_pass.simps) (simp add: Let_def add.commute)
  from step.IH [of m1] obtain m' where m': "fill_pass wr intr base n (of_nat (Suc k)) m1 = (False, m')"
    and last: "\<And>a j. ok a \<Longrightarrow> Suc k \<le> j \<Longrightarrow> j < N \<Longrightarrow> g a = g (B j) \<Longrightarrow> (\<forall>i. j < i \<and> i < N \<longrightarrow> g (B i) \<noteq> g a)
           \<Longrightarrow> rd a m' = f (of_nat j + 1)"
    and other: "\<And>a. ok a \<Longrightarrow> \<forall>j\<in>{Suc k..<N}. g (B j) \<noteq> g a \<Longrightarrow> rd a m' = rd a m1" by blast
  have A: "rd a m' = f (of_nat j + 1)" if "ok a" "k \<le> j" "j < N" "g a = g (B j)"
    "\<forall>i. j < i \<and> i < N \<longrightarrow> g (B i) \<noteq> g a" for a j
  proof (cases "j = k")
    case True
    then show ?thesis using other [of a] r1 [of a] that by auto
  next
    case False
    then show ?thesis using last [of a j] that by simp
  qed
  have C: "rd a m' = rd a m" if "ok a" "\<forall>j\<in>{k..<N}. g (B j) \<noteq> g a" for a
    using other [of a] r1 [of a] that step.hyps by fastforce
  show ?case using m' unf by (intro exI [of _ m'] conjI allI impI) (simp_all add: A C)
qed

lemma check_pass_spec:
  assumes n: "unat n = N" and B: "\<forall>i. B i = word_addr base (of_nat i)"
  shows "k \<le> N \<Longrightarrow> \<forall>i\<in>{k..<N}. rd (B i) m = NOT (of_nat i + 1) \<Longrightarrow>
    fst (check_pass rd intr base n (of_nat k) m) = NULL"
proof (induction k arbitrary: m rule: inc_induct)
  case base
  show ?case using n by (subst check_pass.simps) auto
next
  case (step k)
  obtain m1 where m1: "intr m = (False, m1)" using not_interrupted [of m] by (cases "intr m") auto
  have "rd a m1 = rd a m" for a using intr_read [of a m] m1 by simp
  then have "fst (check_pass rd intr base n (of_nat (Suc k)) m1) = NULL"
    using step.IH [of m1] step.prems by simp
  then show ?case using step.hyps step.prems m1 B
    by (subst check_pass.simps) (simp add: Let_def add.commute)
qed

text \<open>
  The inverting pass goes through if every word still holds its number, and stops if,
  with no earlier word sharing a cell, some word was overwritten by a later one.
\<close>

lemma invert_pass_passes:
  assumes n: "unat n = N" and B: "\<forall>i. ok (B i)" "\<forall>i. B i = word_addr base (of_nat i)"
    and inj: "inj_on (\<lambda>i. g (B i)) {..<N}" and f: "\<forall>i<N. f (NOT (of_nat i + 1)) = NOT (of_nat i + 1)"
  shows "k \<le> N \<Longrightarrow> \<forall>i\<in>{k..<N}. rd (B i) m = of_nat i + 1 \<Longrightarrow> \<forall>i<k. rd (B i) m = NOT (of_nat i + 1) \<Longrightarrow>
    \<exists>m'. invert_pass rd wr intr base n (of_nat k) m = (False, NULL, m') \<and> (\<forall>i<N. rd (B i) m' = NOT (of_nat i + 1))"
proof (induction k arbitrary: m rule: inc_induct)
  case base
  then show ?case using n by (subst invert_pass.simps) auto
next
  case (step k)
  let ?v = "NOT (of_nat k + 1)"
  obtain m1 where m1: "intr (wr (B k) ?v m) = (False, m1)"
    using not_interrupted [of "wr (B k) ?v m"] by (cases "intr (wr (B k) ?v m)") auto
  have r1: "rd (B i) m1 = (if i = k then ?v else rd (B i) m)" if "i < N" for i
    using intr_read [of "B i" "wr (B k) ?v m"] m1 B(1) that step.hyps f inj
    by (auto simp: read_write inj_on_def)
  have lt: "of_nat k < n" using of_nat_less_index [of k n] n step.hyps by simp
  have "rd (B k) m = of_nat k + 1" using step.prems(1) step.hyps by simp
  then have unf: "invert_pass rd wr intr base n (of_nat k) m = invert_pass rd wr intr base n (of_nat (Suc k)) m1"
    using lt m1 B(2) by (subst invert_pass.simps) (simp add: Let_def add.commute)
  show ?case unfolding unf by (rule step.IH) (use step.prems step.hyps r1 in \<open>auto simp: less_Suc_eq\<close>)
qed

lemma invert_pass_stops:
  assumes n: "unat n = N" and B: "\<forall>i. ok (B i)" "\<forall>i. B i = word_addr base (of_nat i)"
    and i0: "i0 < N" and nn: "\<forall>i<N. B i \<noteq> NULL" and first: "\<forall>i<i0. \<forall>j<N. i \<noteq> j \<longrightarrow> g (B i) \<noteq> g (B j)"
  shows "k \<le> i0 \<Longrightarrow> rd (B i0) m \<noteq> of_nat i0 + 1 \<Longrightarrow>
    \<exists>m' a. invert_pass rd wr intr base n (of_nat k) m = (False, a, m') \<and> a \<noteq> NULL"
proof (induction k arbitrary: m rule: inc_induct)
  case base
  have "of_nat i0 < n" using of_nat_less_index [of i0 n] n i0 by simp
  then show ?case using base B(2) nn i0 by (subst invert_pass.simps) simp
next
  case (step k)
  have lt: "of_nat k < n" using of_nat_less_index [of k n] n step.hyps i0 by simp
  show ?case
  proof (cases "rd (B k) m = of_nat k + 1")
    case False
    moreover have "B k \<noteq> NULL" using nn step.hyps i0 by simp
    ultimately show ?thesis using lt B(2) by (subst invert_pass.simps) simp
  next
    case True
    let ?v = "NOT (of_nat k + 1)"
    obtain m1 where m1: "intr (wr (B k) ?v m) = (False, m1)"
      using not_interrupted [of "wr (B k) ?v m"] by (cases "intr (wr (B k) ?v m)") auto
    have "g (B k) \<noteq> g (B i0)" using first step.hyps i0 by auto
    then have "rd (B i0) m1 = rd (B i0) m"
      using intr_read [of "B i0" "wr (B k) ?v m"] m1 B(1) by (auto simp: read_write)
    moreover have "invert_pass rd wr intr base n (of_nat k) m = invert_pass rd wr intr base n (of_nat (Suc k)) m1"
      using lt m1 B(2) True by (subst invert_pass.simps) (simp add: Let_def add.commute)
    ultimately show ?thesis using step by simp
  qed
qed

text \<open>The device test finds exactly two words in one cell.\<close>

lemma device_finds:
  assumes n: "N = unat (n div 8)" and ok: "\<forall>i :: nat. ok (word_addr base (of_nat i))"
    and nn: "\<forall>i<N. word_addr base (of_nat i) \<noteq> NULL"
    and f: "\<forall>i<N. f (of_nat i + 1) = of_nat i + 1 \<and> f (NOT (of_nat i + 1)) = NOT (of_nat i + 1)"
  shows "fst (HSS_MemTestDevice rd wr intr base n m) = NULL \<longleftrightarrow>
    inj_on (\<lambda>i. g (word_addr base (of_nat i))) {..<N}"
proof -
  define B where "B = (\<lambda>i :: nat. word_addr base (of_nat i))"
  have B: "\<forall>i. ok (B i)" "\<forall>i. B i = word_addr base (of_nat i)" using ok by (simp_all add: B_def)
  have nn': "\<forall>i<N. B i \<noteq> NULL" using nn by (simp add: B_def)
  note n' = n [symmetric]
  obtain m1 where m1: "fill_pass wr intr base (n div 8) 0 m = (False, m1)"
    and last: "\<And>a j. ok a \<Longrightarrow> j < N \<Longrightarrow> g a = g (B j) \<Longrightarrow> (\<forall>i. j < i \<and> i < N \<longrightarrow> g (B i) \<noteq> g a)
           \<Longrightarrow> rd a m1 = f (of_nat j + 1)"
    using fill_pass_spec [OF n' B, of 0 m] by auto
  show ?thesis
  proof (cases "inj_on (\<lambda>i. g (B i)) {..<N}")
    case True
    have "rd (B i) m1 = of_nat i + 1" if "i < N" for i
      using last [of "B i" i] B(1) that True f by (auto simp: inj_on_def)
    then obtain m2 where "invert_pass rd wr intr base (n div 8) 0 m1 = (False, NULL, m2)"
      "\<forall>i<N. rd (B i) m2 = NOT (of_nat i + 1)"
      using invert_pass_passes [OF n' B True, of 0 m1] f by auto
    moreover from this have "fst (check_pass rd intr base (n div 8) 0 m2) = NULL"
      using check_pass_spec [OF n' B(2), of 0 m2] by simp
    ultimately show ?thesis using m1 True by (simp add: HSS_MemTestDevice_def B_def Let_def)
  next
    case False
    define P where "P = (\<lambda>i. i < N \<and> (\<exists>j<N. i \<noteq> j \<and> g (B i) = g (B j)))"
    obtain i where "P i" using False by (auto simp: inj_on_def P_def)
    then have P: "P (LEAST i. P i)" by (rule LeastI)
    define i0 where "i0 = (LEAST i. P i)"
    have first: "\<forall>i<i0. \<forall>j<N. i \<noteq> j \<longrightarrow> g (B i) \<noteq> g (B j)"
      using not_less_Least [of _ P] P by (fastforce simp: i0_def P_def)
    define Q where "Q = (\<lambda>j. j < N \<and> g (B j) = g (B i0))"
    define j0 where "j0 = (GREATEST j. Q j)"
    have bound: "\<forall>j. Q j \<longrightarrow> j \<le> N" and "Q i0" using P by (auto simp: Q_def P_def i0_def)
    have Q1: "Q j0" unfolding j0_def using GreatestI_nat [of Q i0 N] bound \<open>Q i0\<close> by blast
    have Q2: "j \<le> j0" if "Q j" for j unfolding j0_def using Greatest_le_nat [of Q j N] bound that by blast
    note Q = Q1 Q2
    have j0: "j0 < N" "i0 < N" "i0 \<noteq> j0" "g (B i0) = g (B j0)"
    proof -
      obtain j where j: "j < N" "i0 \<noteq> j" "g (B i0) = g (B j)" using P by (auto simp: P_def i0_def)
      have "i0 < j" using first j P by (metis P_def i0_def linorder_neqE_nat)
      then show "i0 \<noteq> j0" using Q(2) [of j] j by (simp add: Q_def)
    qed (use Q P in \<open>auto simp: Q_def P_def i0_def\<close>)
    have "rd (B i0) m1 = of_nat j0 + 1"
      using last [of "B i0" j0] B(1) j0 Q(2) f by (force simp: Q_def)
    moreover have "(of_nat j0 :: u64) \<noteq> of_nat i0"
      using of_nat_inj_index [of j0 "n div 8" i0] j0 n by simp
    ultimately have "rd (B i0) m1 \<noteq> of_nat i0 + 1" by simp
    then obtain m2 a where "invert_pass rd wr intr base (n div 8) 0 m1 = (False, a, m2)" "a \<noteq> NULL"
      using invert_pass_stops [OF n' B j0(2) nn' first, of 0 m1] by auto
    then show ?thesis using m1 False by (simp add: HSS_MemTestDevice_def B_def Let_def)
  qed
qed

text \<open>With good data lines, the tests together find exactly two words in one cell.\<close>

lemma ddr_ex_finds:
  assumes ok: "\<forall>off. ok (word_addr base off)" and f: "\<forall>v. f v = v" and n: "8 \<le> n"
    and nn: "\<forall>i<unat (n div 8). word_addr base (of_nat i) \<noteq> NULL"
  shows "fst (HSS_MemTestDDR_Ex rd wr intr base n m) \<longleftrightarrow>
    inj_on (\<lambda>i. g (word_addr base (of_nat i))) {..<unat (n div 8)}"
proof -
  have base: "ok base" using ok [rule_format, of 0] by (simp add: word_addr_def)
  have "List.find (\<lambda>j :: nat. False) [0..<64] = None" by (simp add: find_None_iff)
  then have d: "fst (HSS_MemTestDataBus rd wr base m) = 0"
    using data_bus_walk_finds [OF base, of 0 m] f by (simp add: HSS_MemTestDataBus_def)
  obtain m1 where m1: "HSS_MemTestDataBus rd wr base m = (0, m1)"
    using d by (cases "HSS_MemTestDataBus rd wr base m") auto
  obtain r2 m2 where m2: "HSS_MemTestAddressBus rd wr intr base n m1 = (r2, m2)" by (meson surj_pair)
  obtain r3 m3 where m3: "HSS_MemTestDevice rd wr intr base n m2 = (r3, m3)" by (meson surj_pair)
  have n0: "0 < n div 8" using n by (simp add: word_less_nat_alt word_le_nat_alt unat_div)
  have nn2: "\<forall>j<walk_len (n div 8 - 1). word_addr base (2 ^ j) \<noteq> NULL"
  proof (intro allI impI)
    fix j assume "j < walk_len (n div 8 - 1)"
    then obtain i where "i < unat (n div 8)" "(2 :: u64) ^ j = of_nat i"
      using subsetD [OF walk_offsets_sub [OF n0], of "2 ^ j"] by auto
    then show "word_addr base (2 ^ j) \<noteq> NULL" using nn by metis
  qed
  have r2: "r2 = NULL \<longleftrightarrow> inj_on (\<lambda>off. g (word_addr base off)) (insert 0 ((\<lambda>j. 2 ^ j) ` {..<walk_len (n div 8 - 1)}))"
    using address_bus_finds [of base n m1] m2 ok f nn2 by simp
  have r3: "r3 = NULL \<longleftrightarrow> inj_on (\<lambda>i. g (word_addr base (of_nat i))) {..<unat (n div 8)}"
    using device_finds [of "unat (n div 8)" n base m2] m3 ok f nn by simp
  have "r3 = NULL \<Longrightarrow> r2 = NULL"
  proof -
    assume "r3 = NULL"
    then have "inj_on (\<lambda>off. g (word_addr base off)) (of_nat ` {..<unat (n div 8)})"
      unfolding r3 inj_on_def by auto
    then show "r2 = NULL" unfolding r2 by (rule inj_on_subset [OF _ walk_offsets_sub [OF n0]])
  qed
  then show ?thesis using m1 m2 m3 r3 by (auto simp: HSS_MemTestDDR_Ex_def)
qed

end

subsection \<open>The memories\<close>

text \<open>A fault model: one cell per wiring of the address lines, data wired by \<open>f\<close>.\<close>

definition cells_rd :: "(u64 \<Rightarrow> u64) \<Rightarrow> u64 \<Rightarrow> (u64 \<Rightarrow> u64) \<Rightarrow> u64" where
  "cells_rd g a m = m (g a)"

definition cells_wr :: "(u64 \<Rightarrow> u64) \<Rightarrow> (u64 \<Rightarrow> u64) \<Rightarrow> u64 \<Rightarrow> u64 \<Rightarrow> (u64 \<Rightarrow> u64) \<Rightarrow> u64 \<Rightarrow> u64" where
  "cells_wr f g a v m = m(g a := f v)"

definition no_key :: "'m \<Rightarrow> bool \<times> 'm" where
  "no_key m = (False, m)"

interpretation cells: wired_memory "cells_rd g" "cells_wr f g" no_key f g "\<lambda>_. True"
  for f g :: "u64 \<Rightarrow> u64"
  by unfold_locales (simp_all add: cells_rd_def cells_wr_def no_key_def)

text \<open>The byte memory of the boot service, at aligned addresses, has no fault.\<close>

definition wr64 :: "u64 \<Rightarrow> u64 \<Rightarrow> memory \<Rightarrow> memory" where
  "wr64 a v m = (\<lambda>x. if x - a < 8 then ucast (drop_bit (8 * unat (x - a)) v) else m x)"

definition aligned8 :: "u64 \<Rightarrow> bool" where
  "aligned8 a \<longleftrightarrow> unat a mod 8 = 0"

lemma bit_le_word:
  "n < 64 \<Longrightarrow> bit (le_word (map (\<lambda>i. ucast (drop_bit (8 * i) (v :: u64))) [k..<k + j]) :: u64) n
     \<longleftrightarrow> n < 8 * j \<and> bit v (8 * k + n)"
proof (induction j arbitrary: k n)
  case 0
  then show ?case by simp
next
  case (Suc j)
  have "[k..<k + Suc j] = k # [Suc k..<Suc k + j]" by (simp add: upt_conv_Cons)
  then show ?case using Suc.prems Suc.IH [of "n - 8" "Suc k"]
    by (auto simp: bit_simps not_less algebra_simps simp del: upt_Suc)
qed

lemma rd64_wr64_same: "rd64 (wr64 a v m) a = v"
proof -
  have "wr64 a v m (a + of_nat i) = ucast (drop_bit (8 * i) v)" if "i < 8" for i
  proof -
    have "unat (of_nat i :: u64) = i" using that unat_index [of i 8] by simp
    then show ?thesis using that by (simp add: wr64_def word_less_nat_alt)
  qed
  then have "rd_bytes (wr64 a v m) a 8 = map (\<lambda>i. ucast (drop_bit (8 * i) v)) [0..<0 + 8]"
    by (simp add: rd_bytes_def)
  then show ?thesis using bit_le_word [of _ v 0 8] unfolding rd64_def
    by (intro bit_word_eqI) (simp only:, simp)
qed

lemma aligned_apart:
  assumes "aligned8 a" "aligned8 b" "a \<noteq> b" "i < 8"
  shows "\<not> b + of_nat i - a < 8"
proof -
  define d where "d = b - a"
  note lt = unat_lt64
  have "8 dvd unat d"
  proof -
    have "unat d = (if unat a \<le> unat b then unat b - unat a else unat b + 18446744073709551616 - unat a)"
      by (simp add: d_def unat_sub_if_size word_size)
    moreover obtain p q where "unat a = 8 * p" "unat b = 8 * q"
      using assms(1,2) by (auto simp: aligned8_def mod_eq_0_iff_dvd elim!: dvdE)
    ultimately have "unat d = 8 * (if p \<le> q then q - p else q + 2305843009213693952 - p)"
      by (simp add: diff_mult_distrib2)
    then show ?thesis by (metis dvd_triv_left)
  qed
  moreover have "d \<noteq> 0" using assms(3) by (auto simp: d_def)
  ultimately obtain q where q: "unat d = 8 * q" "0 < q" by (metis dvd_def mult_0_right neq0_conv unat_eq_zero)
  have ui: "unat (of_nat i :: u64) = i" using assms(4) unat_index [of i 8] by simp
  have "8 * q < 18446744073709551616" using q lt [of d] by simp
  then have "q < 2305843009213693952" by simp
  then have "unat d + unat (of_nat i :: u64) < 2 ^ 64" using q assms(4) ui by simp
  then have "unat (d + of_nat i) = 8 * q + i" using q ui by (subst unat_add_lem [THEN iffD1]) auto
  moreover have e: "b + of_nat i - a = d + of_nat i" by (simp add: d_def)
  ultimately show ?thesis using q unfolding e by (simp add: word_less_nat_alt)
qed

lemma rd64_wr64_other:
  assumes "aligned8 a" "aligned8 b" "a \<noteq> b"
  shows "rd64 (wr64 a v m) b = rd64 m b"
  unfolding rd64_def
  by (rule arg_cong [where f = le_word], rule rd_bytes_cong) (simp add: wr64_def aligned_apart [OF assms])

interpretation ram: wired_memory "\<lambda>a m. rd64 m a" wr64 no_key "\<lambda>v. v" "\<lambda>a. a" aligned8
  by unfold_locales (auto simp: rd64_wr64_same rd64_wr64_other no_key_def)

lemma aligned8_word_addr:
  assumes "aligned8 base"
  shows "aligned8 (word_addr base off)"
proof -
  have "unat (base + 8 * off) mod 8 = (unat base + 8 * unat off) mod 18446744073709551616 mod 8"
    by (simp add: unat_word_ariths mod_add_right_eq)
  also have "\<dots> = (unat base + 8 * unat off) mod 8" by (rule mod_mod_cancel) simp
  also have "\<dots> = 0" using assms by (simp add: aligned8_def)
  finally show ?thesis by (simp add: word_addr_def aligned8_def)
qed

subsection \<open>What the tests find\<close>

lemma word_addr_inject:
  assumes "i < unat ((n :: u64) div 8)" "j < unat (n div 8)"
  shows "word_addr base (of_nat i) = word_addr base (of_nat j) \<longleftrightarrow> i = j"
proof -
  note lt = unat_lt64 [of n]
  have "unat (n div 8) = unat n div 8" by (simp add: unat_div)
  then have "8 * i < 2 ^ 64" "8 * j < 2 ^ 64" using assms lt by auto
  then have "unat (of_nat (8 * i) :: u64) = 8 * i" "unat (of_nat (8 * j) :: u64) = 8 * j"
    by (intro unat_of_nat_small; simp)+
  then have "(of_nat (8 * i) :: u64) = of_nat (8 * j) \<longleftrightarrow> i = j" by (metis mult_cancel1 zero_neq_numeral)
  then show ?thesis by (simp add: word_addr_def)
qed

text \<open>
  The data bus test: with data lines that turn a written \<open>v\<close> into \<open>f v\<close>, the walking
  ones report the first power of two that does not come back, and zero exactly if every
  one of the sixty-four lines works on its own.
\<close>

theorem HSS_MemTestDataBus_finds:
  "fst (HSS_MemTestDataBus (cells_rd g) (cells_wr f g) a m) =
    (case List.find (\<lambda>j. f (2 ^ j) \<noteq> 2 ^ j) [0..<64] of None \<Rightarrow> 0 | Some j \<Rightarrow> 2 ^ j)"
  using cells.data_bus_walk_finds [where a = a and k = 0 and f = f and g = g and m = m] by (simp add: HSS_MemTestDataBus_def)

text \<open>
  The address bus test: with address lines that select cell \<open>g a\<close> for address \<open>a\<close>, the
  test passes exactly if the first word and the words at the walked powers of two all lie
  in different cells.  The walk ends at the first zero bit of \<open>numWords - 1\<close>, so when the
  size is not a power of two the address lines above that bit are not tested.  No walked word
  may lie at the null address.
\<close>

theorem HSS_MemTestAddressBus_finds:
  assumes "\<forall>j<walk_len (n div 8 - 1). word_addr base (2 ^ j) \<noteq> NULL"
  shows "fst (HSS_MemTestAddressBus (cells_rd g) (cells_wr (\<lambda>v. v) g) no_key base n m) = NULL \<longleftrightarrow>
    inj_on (\<lambda>off. g (word_addr base off)) (insert 0 ((\<lambda>j. 2 ^ j) ` {..<walk_len (n div 8 - 1)}))"
  by (rule cells.address_bus_finds) (use assms in simp_all)

text \<open>No word of a region that starts above address 0 and does not wrap lies at address 0.\<close>

lemma region_not_null:
  assumes "base \<noteq> 0" "unat base + unat n \<le> 2 ^ 64" "i < unat ((n :: u64) div 8)"
  shows "word_addr base (of_nat i) \<noteq> NULL"
proof -
  have "8 * i < unat n" using assms(3) by (simp add: unat_div)
  then have "unat base + 8 * i < 2 ^ 64" using assms(2) by simp
  then have "unat (base + of_nat (8 * i)) = unat base + 8 * i" by (rule unat_plus_nowrap)
  then have "unat (word_addr base (of_nat i)) \<noteq> 0" using assms(1) by (simp add: word_addr_def unat_eq_0)
  then show ?thesis by (metis unat_0)
qed

text \<open>
  C14.  The complete test is sound and complete for address faults: with good data lines and
  no interruption it passes, on a region that starts above address 0 and does not wrap,
  exactly if no two words of the region share a cell.
\<close>

theorem HSS_MemTestDDR_Ex_exact:
  assumes "8 \<le> n" "base \<noteq> 0" "unat base + unat n \<le> 2 ^ 64"
  shows "fst (HSS_MemTestDDR_Ex (cells_rd g) (cells_wr (\<lambda>v. v) g) no_key base n m) \<longleftrightarrow>
    inj_on (\<lambda>i. g (word_addr base (of_nat i))) {..<unat (n div 8)}"
  by (rule cells.ddr_ex_finds) (use assms region_not_null [OF assms(2,3)] in simp_all)

theorem HSS_MemTestDDR_Ex_exact_witness:
  "\<not> fst (HSS_MemTestDDR_Ex (cells_rd (\<lambda>a. a AND 0xF)) (cells_wr (\<lambda>v. v) (\<lambda>a. a AND 0xF)) no_key 0x80000000 64 (\<lambda>_. 0))"
proof -
  have "\<not> inj_on (\<lambda>i. word_addr 0x80000000 (of_nat i) AND 0xF) {..<unat ((64 :: u64) div 8)}"
    by (rule notI, drule inj_onD [of _ _ 0 2]) (simp_all add: word_addr_def)
  moreover have "(8 :: u64) \<le> 64" by simp
  ultimately show ?thesis using HSS_MemTestDDR_Ex_exact [where n = 64 and base = "0x80000000" and g = "\<lambda>a. a AND 0xF" and m = "\<lambda>_. 0"] by simp
qed

text \<open>
  A null result means that no word failed, so a region at address 0 can pass with a fault:
  the first and the fourth of its words are the same cell.
\<close>

lemma HSS_MemTestDevice_null_passes:
  "fst (HSS_MemTestDevice (cells_rd (\<lambda>a. a mod 24)) (cells_wr (\<lambda>v. v) (\<lambda>a. a mod 24)) no_key 0 32 m) = NULL"
  by (simp add: HSS_MemTestDevice_def fill_pass.simps invert_pass.simps check_pass.simps no_key_def cells_rd_def cells_wr_def
      word_addr_def Let_def)

text \<open>
  On working memory the complete test passes: no false alarm, whatever the memory
  held, for any aligned region of at least one word.
\<close>

theorem HSS_MemTestDDR_Ex_passes:
  assumes "aligned8 base" "8 \<le> n" "base \<noteq> 0" "unat base + unat n \<le> 2 ^ 64"
  shows "fst (HSS_MemTestDDR_Ex (\<lambda>a m. rd64 m a) wr64 no_key base n m)"
proof -
  have "inj_on (\<lambda>i. word_addr base (of_nat i)) {..<unat (n div 8)}"
    using word_addr_inject [of _ n _ base] by (auto simp: inj_on_def)
  then show ?thesis
    using ram.ddr_ex_finds [where base = base and n = n and m = m] aligned8_word_addr region_not_null [OF assms(3,4)] assms by simp
qed

theorem HSS_MemTestDDR_Ex_passes_witness:
  "fst (HSS_MemTestDDR_Ex (\<lambda>a m. rd64 m a) wr64 no_key 0x80000000 0x40000000 (\<lambda>_. 0xFF))"
  by (rule HSS_MemTestDDR_Ex_passes) (simp_all add: aligned8_def)

end
