(* ===== verification/HSS_Ddr.thy ===== *)
theory HSS_Ddr
  imports HSS_Uart HSS_MemTest
begin

text \<open>
  DDR training: the DDR service (services/ddr/ddr_service.c) asks hart 1 to train the
  memory, and the handler of that request (services/ddr/ddr_api.c) brings the controller
  up (\<^verbatim>\<open>HSS_DDRInit\<close>, init/hss_ddr_init.c), zeroes (\<^verbatim>\<open>HSS_ZeroDDR\<close>,
  application/hart0/hss_init.c), runs the quick memory test
  (\<^verbatim>\<open>HSS_MemTestDDRFast\<close>, modules/misc/hss_memtest.c) and announces the event.  The vendor's
  training routine \<^verbatim>\<open>mss_nwc_init_ddr\<close> is the argument \<open>nwc\<close>.
\<close>

subsection \<open>State\<close>

text \<open>
  The link-time addresses of the four DDR windows (two are part of the boot state), of the
  constant \<^verbatim>\<open>hss_init_ddrhi_start\<close> and of the string literals, and the four static counter
  indices of the memory test.
\<close>

record ddr_world = uart_world +
  ncddr_start :: u64
  ncddr_size :: u64
  ncddrhi_start :: u64
  ncddrhi_size :: u64
  ddrhi_bounds :: u64
  str_addr :: "string \<Rightarrow> u64"
  memtest_ctrs :: "int list"

definition HSS_DDR_GetSize :: "'a ddr_world_scheme \<Rightarrow> u64" where "HSS_DDR_GetSize w = ddr_size w"
definition HSS_DDRHi_GetSize :: "'a ddr_world_scheme \<Rightarrow> u64" where "HSS_DDRHi_GetSize w = ddrhi_size w"
definition HSS_ncDDR_GetSize :: "'a ddr_world_scheme \<Rightarrow> u64" where "HSS_ncDDR_GetSize w = ncddr_size w"
definition HSS_ncDDRHi_GetSize :: "'a ddr_world_scheme \<Rightarrow> u64" where "HSS_ncDDRHi_GetSize w = ncddrhi_size w"
definition HSS_DDR_GetStart :: "'a ddr_world_scheme \<Rightarrow> u64" where "HSS_DDR_GetStart w = ddr_start w"
definition HSS_DDRHi_GetStart :: "'a ddr_world_scheme \<Rightarrow> u64" where "HSS_DDRHi_GetStart w = ddrhi_start w"
definition HSS_ncDDR_GetStart :: "'a ddr_world_scheme \<Rightarrow> u64" where "HSS_ncDDR_GetStart w = ncddr_start w"
definition HSS_ncDDRHi_GetStart :: "'a ddr_world_scheme \<Rightarrow> u64" where "HSS_ncDDRHi_GetStart w = ncddrhi_start w"

subsection \<open>The quick memory test\<close>

definition world_rd64 :: "u64 \<Rightarrow> 'a ddr_world_scheme \<Rightarrow> u64" where
  "world_rd64 a w = rd64 (mem w) a"

definition world_wr64 :: "u64 \<Rightarrow> u64 \<Rightarrow> 'a ddr_world_scheme \<Rightarrow> 'a ddr_world_scheme" where
  "world_wr64 a v w = w\<lparr>mem := wr64 a v (mem w)\<rparr>"

text \<open>One of its four blocks: the counter, the data bus, then the address bus, the counter.\<close>

definition memtest_region ::
    "nat \<Rightarrow> string \<Rightarrow> u64 \<Rightarrow> u64 \<Rightarrow> bool \<times> 'a ddr_world_scheme \<Rightarrow> (bool \<times> 'a ddr_world_scheme) option" where
  "memtest_region i name base numBytes rw = (case rw of (result, w) \<Rightarrow> do {
     let (_, index, w1) = HSS_PerfCtr_Allocate (memtest_ctrs w ! i) (str_addr w name) w;
     let w2 = w1\<lparr>memtest_ctrs := (memtest_ctrs w1)[i := index]\<rparr>;
     let (bits, w3) = HSS_MemTestDataBus world_rd64 world_wr64 base w2;
     let (bad, w4) = (if bits \<noteq> 0 then (True, w3)
                      else case HSS_MemTestAddressBus world_rd64 world_wr64 check_if_interrupted base numBytes w3 of
                             (r, w4) \<Rightarrow> (r \<noteq> NULL, w4));
     w5 \<leftarrow> HSS_PerfCtr_Lap (memtest_ctrs w4 ! i) w4;
     Some (result \<and> \<not> bad, w5)
   })"

definition HSS_MemTestDDRFast :: "'a ddr_world_scheme \<Rightarrow> (bool \<times> 'a ddr_world_scheme) option" where
  "HSS_MemTestDDRFast w = do {
     rw1 \<leftarrow> memtest_region 0 ''MemTest(DDR32)'' (HSS_DDR_GetStart w) (HSS_DDR_GetSize w) (True, w);
     rw2 \<leftarrow> memtest_region 1 ''MemTest(DDR64)'' (HSS_DDRHi_GetStart w) (HSS_DDRHi_GetSize w) rw1;
     rw3 \<leftarrow> memtest_region 2 ''MemTest(Non-cached DDR32)'' (HSS_ncDDR_GetStart w) (HSS_ncDDR_GetSize w) rw2;
     memtest_region 3 ''MemTest(Non-cached DDR64)'' (HSS_ncDDRHi_GetStart w) (HSS_ncDDRHi_GetSize w) rw3
   }"

definition HSS_MemTestDDRFull :: "'a ddr_world_scheme \<Rightarrow> (bool \<times> 'a ddr_world_scheme) option" where
  "HSS_MemTestDDRFull w = do {
     (result, w1) \<leftarrow> HSS_MemTestDDRFast w;
     Some (if result
           then (case HSS_MemTestDevice world_rd64 world_wr64 check_if_interrupted
                        (HSS_DDR_GetStart w1) (HSS_DDR_GetSize w1) w1 of (r, w2) \<Rightarrow> (r = NULL, w2))
           else (False, w1))
   }"

subsection \<open>Bringing the memory up\<close>

definition HSS_DDRInit ::
    "('a ddr_world_scheme \<Rightarrow> u8 \<times> 'a ddr_world_scheme) \<Rightarrow> 'a ddr_world_scheme \<Rightarrow> (bool \<times> 'a ddr_world_scheme) option" where
  "HSS_DDRInit nwc w = do {
     let (_, perf_ctr_index, w1) = HSS_PerfCtr_Allocate PERF_CTR_UNINITIALIZED (str_addr w ''DDR Init'') w;
     let (retval, w2) = nwc w1;
     w3 \<leftarrow> (if retval \<noteq> 0 then Some w2
            else do { w3 \<leftarrow> HSS_PerfCtr_Lap perf_ctr_index w2; _ \<leftarrow> HSS_PerfCtr_GetTime perf_ctr_index w3; Some w3 });
     w4 \<leftarrow> HSS_PerfCtr_Lap perf_ctr_index w3;
     Some (retval = 0, w4)
   }"

text \<open>The loop of \<^verbatim>\<open>HSS_ZeroDDR\<close> from \<open>p\<close> up to \<open>e\<close>; with addresses that wrap it need not end.\<close>

partial_function (option) zero_dwords :: "u64 \<Rightarrow> u64 \<Rightarrow> memory \<Rightarrow> memory option" where
  "zero_dwords p e m = (if p < e then zero_dwords (p + 8) e (wr64 p 0 m) else Some m)"

text \<open>
  The bounds are the macros \<^verbatim>\<open>DDRHI_START\<close> and \<^verbatim>\<open>DDRHI_END\<close>: the addresses of two
  neighbouring eight-byte constants, not the addresses that these constants hold.
\<close>

definition HSS_ZeroDDR :: "'a ddr_world_scheme \<Rightarrow> (bool \<times> 'a ddr_world_scheme) option" where
  "HSS_ZeroDDR w = map_option (\<lambda>m. (True, w\<lparr>mem := m\<rparr>)) (zero_dwords (ddrhi_bounds w) (ddrhi_bounds w + 8) (mem w))"

definition HSS_DDR_Train :: "hart \<Rightarrow> 'a ddr_world_scheme \<Rightarrow> 'a ddr_world_scheme option" where
  "HSS_DDR_Train me w = map_option snd (IPI_Send me HSS_HART_U54_1 IPI_MSG_DDR_TRAIN 0 0 0 0 w)"

definition HSS_DDR_Train_IPIHandler ::
    "('a ddr_world_scheme \<Rightarrow> u8 \<times> 'a ddr_world_scheme) \<Rightarrow> 'a ddr_world_scheme ipi_handler" where
  "HSS_DDR_Train_IPIHandler nwc txid source imm ext anc w = do {
     (_, w1) \<leftarrow> HSS_DDRInit nwc w;
     (_, w2) \<leftarrow> HSS_ZeroDDR w1;
     (_, w3) \<leftarrow> HSS_MemTestDDRFast w2;
     Some (IPI_IDLE, HSS_Trigger_Notify EVENT_DDR_TRAINED w3)
   }"

subsection \<open>The service\<close>

abbreviation (input) DDR_INITIALIZATION :: stateType_t where "DDR_INITIALIZATION \<equiv> 0"
abbreviation (input) DDR_TRAIN :: stateType_t where "DDR_TRAIN \<equiv> 1"
abbreviation (input) DDR_IDLE :: stateType_t where "DDR_IDLE \<equiv> 2"
abbreviation (input) DDR_RETRAIN :: stateType_t where "DDR_RETRAIN \<equiv> 3"

abbreviation (input) DDR_IDLE_PERIODIC_TIMEOUT :: HSSTicks_t where
  "DDR_IDLE_PERIODIC_TIMEOUT \<equiv> ONE_SEC * 60 * 60 * 10"

definition ddr_init_handler :: "'a ddr_world_scheme sm_handler" where
  "ddr_init_handler m w =
     (if HSS_Trigger_IsNotified True EVENT_IPI_INITIALIZED w
      then map_option (set_state m DDR_TRAIN) (HSS_DDR_Train HSS_HART_E51 w)
      else Some w)"

definition ddr_train_handler :: "'a ddr_world_scheme sm_handler" where
  "ddr_train_handler m w =
     Some (if HSS_Trigger_IsNotified True EVENT_DDR_TRAINED w then set_state m DDR_IDLE w else w)"

definition ddr_idle_handler :: "'a ddr_world_scheme sm_handler" where
  "ddr_idle_handler m w = Some
     (case HSS_Timer_IsElapsed (sm_startTime (machines w ! m)) DDR_IDLE_PERIODIC_TIMEOUT w of (el, w1) \<Rightarrow>
        if el then set_state m DDR_RETRAIN w1 else w1)"

definition ddr_retrain_handler :: "'a ddr_world_scheme sm_handler" where
  "ddr_retrain_handler m w = Some (set_state m DDR_IDLE w)"

definition ddr_state_descs :: "'a ddr_world_scheme StateDesc list" where
  "ddr_state_descs = map2 (\<lambda>s h. \<lparr> sd_state = s, state_onEntry = None, state_onExit = None, state_handler = Some h \<rparr>)
     [DDR_INITIALIZATION, DDR_TRAIN, DDR_IDLE, DDR_RETRAIN]
     [ddr_init_handler, ddr_train_handler, ddr_idle_handler, ddr_retrain_handler]"

text \<open>\<^verbatim>\<open>DDR_NUM_STATES\<close> is one past \<^verbatim>\<open>DDR_IDLE\<close>, although the table goes on to \<^verbatim>\<open>DDR_RETRAIN\<close>.\<close>

definition ddr_service :: "'a ddr_world_scheme MachineDesc" where
  "ddr_service = \<lparr> numStates = 3, pStateDescs = ddr_state_descs \<rparr>"

subsection \<open>What zeroing reaches\<close>

lemma zero_dwords_one:
  assumes "unat p + 16 \<le> 2 ^ 64"
  shows "zero_dwords p (p + 8) m = Some (wr64 p 0 m)"
proof -
  have "p < p + 8" using unat_plus_nowrap [of p 8] assms by (simp add: word_less_nat_alt)
  then show ?thesis by (subst zero_dwords.simps) (simp add: zero_dwords.simps [of "p + 8"])
qed

text \<open>
  \<^verbatim>\<open>HSS_ZeroDDR\<close> zeroes eight bytes and no others: those of the constant that holds the
  start address of the DDR, not the DDR.
\<close>

theorem HSS_ZeroDDR_reach:
  assumes "unat (ddrhi_bounds w) + 16 \<le> 2 ^ 64"
  shows "\<exists>w'. HSS_ZeroDDR w = Some (True, w')
    \<and> (\<forall>x. mem w' x = (if in_region (ddrhi_bounds w) 8 x then 0 else mem w x))"
  using zero_dwords_one [OF assms, of "mem w"] by (auto simp: HSS_ZeroDDR_def wr64_def in_region_def)

theorem HSS_ZeroDDR_reach_witness:
  "\<forall>w :: ddr_world. \<exists>w'. HSS_ZeroDDR (w\<lparr>mem := \<lambda>_. 0xFF, ddrhi_bounds := 0x0A000100\<rparr>) = Some (True, w')
     \<and> mem w' 0x0A000104 = 0 \<and> mem w' 0x1000000000 = 0xFF"
proof
  fix w :: ddr_world
  let ?w = "w\<lparr>mem := \<lambda>_. 0xFF, ddrhi_bounds := 0x0A000100\<rparr>"
  have "unat (ddrhi_bounds ?w) + 16 \<le> 2 ^ 64" by simp
  from HSS_ZeroDDR_reach [OF this]
  show "\<exists>w'. HSS_ZeroDDR ?w = Some (True, w') \<and> mem w' 0x0A000104 = 0 \<and> mem w' 0x1000000000 = 0xFF"
    by (auto simp: in_region_def)
qed

subsection \<open>An interrupted test\<close>

text \<open>
  A memory test that is interrupted reports success: with a pending Control-C or escape
  the address and the device test find no fault, whatever the memory does.
\<close>

theorem HSS_MemTest_interrupted_passes:
  assumes "\<forall>m. fst (intr m)"
  shows "fst (HSS_MemTestAddressBus rd wr intr base n m) = NULL
    \<and> fst (HSS_MemTestDevice rd wr intr base n m) = NULL"
proof -
  have i: "fst (intr m)" for m using assms by blast
  have "fst (HSS_MemTestAddressBus rd wr intr base n m) = NULL"
    by (cases "1 AND (n div 8 - 1) = 0")
      (simp_all add: HSS_MemTestAddressBus_def walk_set.simps walk_verify.simps walk_anti.simps i Let_def split_beta)
  moreover have "fst (HSS_MemTestDevice rd wr intr base n m) = NULL"
    by (cases "0 < n div 8")
      (simp_all add: HSS_MemTestDevice_def fill_pass.simps invert_pass.simps check_pass.simps i Let_def split_beta)
  ultimately show ?thesis ..
qed

theorem HSS_MemTest_interrupted_passes_witness:
  "fst (HSS_MemTestDevice (cells_rd (\<lambda>_. 0)) (cells_wr (\<lambda>v. v) (\<lambda>_. 0)) (Pair True) 0 64 (\<lambda>_. 0)) = NULL"
  by (rule HSS_MemTest_interrupted_passes [THEN conjunct2]) simp

subsection \<open>The training handler\<close>

text \<open>What the tests, the clock and the console leave alone.\<close>

definition same_setup :: "'a ddr_world_scheme \<Rightarrow> 'a ddr_world_scheme \<Rightarrow> bool" where
  "same_setup w w' \<longleftrightarrow> ipi_data.truncate w' = ipi_data.truncate w \<and> machines w' = machines w
     \<and> length (perfCtrs w') = length (perfCtrs w) \<and> ddrhi_bounds w' = ddrhi_bounds w
     \<and> pmpSetupFlag w' = pmpSetupFlag w"

lemma same_setup_refl [simp]: "same_setup w w"
  by (simp add: same_setup_def)

lemma same_setup_trans [trans]: "same_setup w w1 \<Longrightarrow> same_setup w1 w2 \<Longrightarrow> same_setup w w2"
  by (simp add: same_setup_def)

lemma data_bus_keeps:
  "(\<And>a v m. P m \<Longrightarrow> P (wr a v m)) \<Longrightarrow> P m \<Longrightarrow> P (snd (data_bus_walk rd wr a p m))"
  by (induction rd wr a p m rule: data_bus_walk.induct) (subst data_bus_walk.simps, simp add: Let_def)

lemma walk_set_keeps:
  "(\<And>a v m. P m \<Longrightarrow> P (wr a v m)) \<Longrightarrow> (\<And>m. P m \<Longrightarrow> P (snd (intr m))) \<Longrightarrow> P m \<Longrightarrow> P (snd (walk_set wr intr b k p m))"
  by (induction wr intr b k p m rule: walk_set.induct)
    (subst walk_set.simps, auto simp: Let_def split: prod.split, (metis snd_conv)+)

lemma walk_verify_keeps:
  "(\<And>m. P m \<Longrightarrow> P (snd (intr m))) \<Longrightarrow> P m \<Longrightarrow> P (snd (snd (walk_verify rd intr b k p m)))"
  by (induction rd intr b k p m rule: walk_verify.induct)
    (subst walk_verify.simps, auto simp: Let_def split: prod.split, (metis snd_conv)+)

lemma walk_anti_keeps:
  "(\<And>a v m. P m \<Longrightarrow> P (wr a v m)) \<Longrightarrow> (\<And>m. P m \<Longrightarrow> P (snd (intr m))) \<Longrightarrow> P m \<Longrightarrow>
     P (snd (walk_anti rd wr intr b k p m))"
  by (induction rd wr intr b k p m rule: walk_anti.induct)
    (subst walk_anti.simps, auto simp: Let_def split: prod.split, (metis snd_conv)+)

lemma address_bus_keeps:
  assumes wr: "\<And>a v m. P m \<Longrightarrow> P (wr a v m)" and intr: "\<And>m. P m \<Longrightarrow> P (snd (intr m))" and "P m"
  shows "P (snd (HSS_MemTestAddressBus rd wr intr b n m))"
proof -
  let ?k = "n div 8 - 1"
  obtain i1 m1 where m1: "walk_set wr intr b ?k 1 m = (i1, m1)" by (meson surj_pair)
  have P1: "P m1" using walk_set_keeps [of P wr intr m b ?k 1] assms m1 by simp
  obtain i3 r m3 where m3: "walk_verify rd intr b ?k 1 (wr (word_addr b 0) ab_antiPattern m1) = (i3, r, m3)"
    by (metis prod_cases3)
  have P3: "P m3"
    using walk_verify_keeps [of P intr _ rd b ?k 1] intr wr [OF P1] m3 by (metis snd_conv)
  have "P (snd (walk_anti rd wr intr b ?k 1 (wr (word_addr b 0) ab_pattern m3)))"
    by (rule walk_anti_keeps [OF wr intr wr [OF P3]])
  then show ?thesis using P1 P3 wr by (simp add: HSS_MemTestAddressBus_def Let_def m1 m3)
qed

lemma check_if_interrupted_eq:
  "check_if_interrupted w = (case uart_poll (skip_reads 1 w) of
     (Rx c, w1) \<Rightarrow> (c = 0x03 \<or> c = 0x1B, w1) | (_, w1) \<Rightarrow> (False, w1))"
  by (simp add: check_if_interrupted_def getchar_once GetTime_eq split: prod.split uart_event.split)

lemma same_setup_interrupted: "same_setup v (snd (check_if_interrupted v))"
  by (cases "uart_rx v") (simp_all add: check_if_interrupted_eq uart_poll_def skip_reads_def same_setup_def
      ipi_data.defs split: uart_event.split)

lemma same_setup_intros:
  "same_setup w v \<Longrightarrow> same_setup w (world_wr64 a x v)"
  "same_setup w v \<Longrightarrow> same_setup w (v\<lparr>mem := m\<rparr>)"
  "same_setup w v \<Longrightarrow> same_setup w (v\<lparr>memtest_ctrs := cs\<rparr>)"
  "same_setup w v \<Longrightarrow> same_setup w (snd (check_if_interrupted v))"
  using same_setup_trans [OF _ same_setup_interrupted]
  by (simp_all add: same_setup_def world_wr64_def ipi_data.defs)

definition ctr_ok :: "'a ddr_world_scheme \<Rightarrow> int \<Rightarrow> bool" where
  "ctr_ok w i \<longleftrightarrow> i = PERF_CTR_UNINITIALIZED \<or> (0 \<le> i \<and> i < int (length (perfCtrs w)))"

lemma ctr_ok_same: "same_setup w v \<Longrightarrow> ctr_ok v i = ctr_ok w i"
  by (simp add: same_setup_def ctr_ok_def)

lemma PerfCtr_Allocate_ok:
  "HSS_PerfCtr_Allocate i p w = (b, j, w') \<Longrightarrow> ctr_ok w' j \<and> same_setup w w' \<and> memtest_ctrs w' = memtest_ctrs w"
  by (auto simp: HSS_PerfCtr_Allocate_def HSS_GetTime_def ctr_ok_def same_setup_def ipi_data.defs
      split: if_splits option.splits prod.splits)

lemma PerfCtr_Lap_ok:
  "ctr_ok w i \<Longrightarrow> \<exists>w'. HSS_PerfCtr_Lap i w = Some w' \<and> same_setup w w' \<and> memtest_ctrs w' = memtest_ctrs w"
  by (auto simp: HSS_PerfCtr_Lap_def HSS_GetTime_def ctr_ok_def same_setup_def ipi_data.defs)

lemma PerfCtr_GetTime_ok: "ctr_ok w i \<Longrightarrow> HSS_PerfCtr_GetTime i w \<noteq> None"
  by (auto simp: HSS_PerfCtr_GetTime_def ctr_ok_def)

lemma data_bus_keeps_ctrs:
  "memtest_ctrs (snd (HSS_MemTestDataBus world_rd64 world_wr64 b w)) = memtest_ctrs w"
  unfolding HSS_MemTestDataBus_def
  by (rule data_bus_keeps [where P = "\<lambda>v. memtest_ctrs v = memtest_ctrs w"]) (simp_all add: world_wr64_def)

lemma interrupted_keeps_ctrs: "memtest_ctrs (snd (check_if_interrupted v)) = memtest_ctrs v"
  by (cases "uart_rx v") (simp_all add: check_if_interrupted_eq uart_poll_def skip_reads_def split: uart_event.split)

lemma address_bus_keeps_ctrs:
  "memtest_ctrs (snd (HSS_MemTestAddressBus world_rd64 world_wr64 check_if_interrupted b n w)) = memtest_ctrs w"
  by (rule address_bus_keeps [where P = "\<lambda>v. memtest_ctrs v = memtest_ctrs w"])
    (simp_all add: world_wr64_def interrupted_keeps_ctrs)

lemma memtest_region_ok:
  assumes "i < length (memtest_ctrs w)"
  shows "\<exists>r' w'. memtest_region i name base n (r, w) = Some (r', w') \<and> same_setup w w'
    \<and> length (memtest_ctrs w') = length (memtest_ctrs w)"
proof -
  obtain b j w1 where w1: "HSS_PerfCtr_Allocate (memtest_ctrs w ! i) (str_addr w name) w = (b, j, w1)"
    by (metis prod_cases3)
  let ?w2 = "w1\<lparr>memtest_ctrs := (memtest_ctrs w1)[i := j]\<rparr>"
  have a: "ctr_ok w1 j" "same_setup w ?w2" "memtest_ctrs ?w2 ! i = j" "length (memtest_ctrs ?w2) = length (memtest_ctrs w)"
    using PerfCtr_Allocate_ok [OF w1] assms by (auto intro: same_setup_intros)
  obtain e w3 where w3: "HSS_MemTestDataBus world_rd64 world_wr64 base ?w2 = (e, w3)" by (meson surj_pair)
  have s3: "same_setup ?w2 w3" "memtest_ctrs w3 = memtest_ctrs ?w2"
    using data_bus_keeps [of "same_setup ?w2" world_wr64 ?w2 world_rd64 base 1] data_bus_keeps_ctrs [of base ?w2] w3
    by (auto simp: HSS_MemTestDataBus_def intro: same_setup_intros)
  obtain x w4 where w4: "HSS_MemTestAddressBus world_rd64 world_wr64 check_if_interrupted base n w3 = (x, w4)"
    by (meson surj_pair)
  have s4: "same_setup w3 w4" "memtest_ctrs w4 = memtest_ctrs w3"
    using address_bus_keeps [of "same_setup w3" world_wr64 check_if_interrupted w3 world_rd64 base n]
      address_bus_keeps_ctrs [of base n w3] w4 by (auto intro: same_setup_intros)
  have ok: "ctr_ok v j" if "same_setup ?w2 v" for v
    using that a(1) PerfCtr_Allocate_ok [OF w1] by (auto simp: same_setup_def ctr_ok_def)
  define w5 where "w5 = (if e \<noteq> 0 then w3 else w4)"
  have s5: "same_setup ?w2 w5" "memtest_ctrs w5 ! i = j" "length (memtest_ctrs w5) = length (memtest_ctrs w)"
    using s3 s4 same_setup_trans [OF s3(1) s4(1)] a(3,4) by (simp_all add: w5_def)
  obtain w6 where w6: "HSS_PerfCtr_Lap j w5 = Some w6" "same_setup w5 w6" "memtest_ctrs w6 = memtest_ctrs w5"
    using PerfCtr_Lap_ok [OF ok [OF s5(1)]] by blast
  have "same_setup w w6" using a(2) s5(1) w6(2) same_setup_trans by blast
  then show ?thesis using w6 s5 by (cases "e = 0") (auto simp: memtest_region_def w1 w3 w4 w5_def)
qed

text \<open>The training routine, whatever it does to the memory, does not touch the bus, the machines or the counters' table.\<close>

definition nwc_ok :: "('a ddr_world_scheme \<Rightarrow> u8 \<times> 'a ddr_world_scheme) \<Rightarrow> bool" where
  "nwc_ok nwc \<longleftrightarrow> (\<forall>w. same_setup w (snd (nwc w)) \<and> memtest_ctrs (snd (nwc w)) = memtest_ctrs w)"

lemma DDRInit_ok:
  assumes "nwc_ok nwc"
  shows "\<exists>w'. HSS_DDRInit nwc w = Some (fst (nwc (snd (snd (HSS_PerfCtr_Allocate PERF_CTR_UNINITIALIZED (str_addr w ''DDR Init'') w)))) = 0, w')
    \<and> same_setup w w' \<and> memtest_ctrs w' = memtest_ctrs w"
proof -
  obtain b j w1 where w1: "HSS_PerfCtr_Allocate PERF_CTR_UNINITIALIZED (str_addr w ''DDR Init'') w = (b, j, w1)"
    by (metis prod_cases3)
  note a = PerfCtr_Allocate_ok [OF w1]
  obtain r w2 where w2: "nwc w1 = (r, w2)" by (meson surj_pair)
  then have s2: "same_setup w1 w2" "memtest_ctrs w2 = memtest_ctrs w1" using assms by (auto simp: nwc_ok_def dest: spec [of _ w1])
  have ok: "ctr_ok v j" if "same_setup w1 v" for v using ctr_ok_same [OF that] a by simp
  obtain w3 where w3: "HSS_PerfCtr_Lap j w2 = Some w3" "same_setup w2 w3" "memtest_ctrs w3 = memtest_ctrs w2"
    using PerfCtr_Lap_ok [OF ok [OF s2(1)]] by blast
  have s3: "same_setup w1 w3" using s2(1) w3(2) by (rule same_setup_trans)
  obtain w4 where w4: "HSS_PerfCtr_Lap j w3 = Some w4" "same_setup w3 w4" "memtest_ctrs w4 = memtest_ctrs w3"
    using PerfCtr_Lap_ok [OF ok [OF s3]] by blast
  obtain x where x: "HSS_PerfCtr_GetTime j w3 = Some x" using PerfCtr_GetTime_ok [OF ok [OF s3]] by auto
  have "same_setup w w3" "same_setup w w4" using a s3 w4(2) same_setup_trans by blast+
  then show ?thesis using a s2 w3 w4 x by (cases "r = 0") (auto simp: HSS_DDRInit_def w1 w2)
qed

lemma MemTestDDRFast_ok:
  assumes "length (memtest_ctrs w) = 4"
  shows "\<exists>r w'. HSS_MemTestDDRFast w = Some (r, w') \<and> same_setup w w' \<and> length (memtest_ctrs w') = 4"
proof -
  note region = memtest_region_ok
  obtain r1 w1 where 1: "memtest_region 0 ''MemTest(DDR32)'' (HSS_DDR_GetStart w) (HSS_DDR_GetSize w) (True, w) = Some (r1, w1)"
    "same_setup w w1" "length (memtest_ctrs w1) = 4" using region [of 0 w] assms by fastforce
  obtain r2 w2 where 2: "memtest_region 1 ''MemTest(DDR64)'' (HSS_DDRHi_GetStart w) (HSS_DDRHi_GetSize w) (r1, w1) = Some (r2, w2)"
    "same_setup w1 w2" "length (memtest_ctrs w2) = 4" using region [of 1 w1] 1 by fastforce
  obtain r3 w3 where 3: "memtest_region 2 ''MemTest(Non-cached DDR32)'' (HSS_ncDDR_GetStart w) (HSS_ncDDR_GetSize w) (r2, w2) = Some (r3, w3)"
    "same_setup w2 w3" "length (memtest_ctrs w3) = 4" using region [of 2 w2] 2 by fastforce
  obtain r4 w4 where 4: "memtest_region 3 ''MemTest(Non-cached DDR64)'' (HSS_ncDDRHi_GetStart w) (HSS_ncDDRHi_GetSize w) (r3, w3) = Some (r4, w4)"
    "same_setup w3 w4" "length (memtest_ctrs w4) = 4" using region [of 3 w3] 3 by fastforce
  have "same_setup w w4" using 1(2) 2(2) 3(2) 4(2) same_setup_trans by blast
  then show ?thesis using 1 2 3 4 by (simp add: HSS_MemTestDDRFast_def)
qed

definition ddr_ok :: "'a ddr_world_scheme \<Rightarrow> bool" where
  "ddr_ok w \<longleftrightarrow> length (memtest_ctrs w) = 4 \<and> unat (ddrhi_bounds w) + 16 \<le> 2 ^ 64"

lemma Train_IPIHandler_spec:
  assumes "nwc_ok nwc" "ddr_ok w"
  shows "\<exists>w1. HSS_DDR_Train_IPIHandler nwc txid source imm ext anc w = Some (IPI_IDLE, w1\<lparr>ddr_trained := True\<rparr>)
    \<and> same_setup w w1 \<and> length (memtest_ctrs w1) = 4"
proof -
  obtain r1 w1 where w1: "HSS_DDRInit nwc w = Some (r1, w1)" "same_setup w w1" "memtest_ctrs w1 = memtest_ctrs w"
    using DDRInit_ok [OF assms(1)] by blast
  have b: "unat (ddrhi_bounds w1) + 16 \<le> 2 ^ 64" using w1(2) assms(2) by (simp add: same_setup_def ddr_ok_def)
  obtain m where w2: "HSS_ZeroDDR w1 = Some (True, w1\<lparr>mem := m\<rparr>)"
    using zero_dwords_one [OF b, of "mem w1"] by (auto simp: HSS_ZeroDDR_def)
  have s2: "same_setup w (w1\<lparr>mem := m\<rparr>)" "length (memtest_ctrs (w1\<lparr>mem := m\<rparr>)) = 4"
    using w1 assms(2) by (auto simp: ddr_ok_def intro: same_setup_intros)
  obtain r3 w3 where w3: "HSS_MemTestDDRFast (w1\<lparr>mem := m\<rparr>) = Some (r3, w3)" "same_setup (w1\<lparr>mem := m\<rparr>) w3"
    "length (memtest_ctrs w3) = 4" using MemTestDDRFast_ok [OF s2(2)] by blast
  have "same_setup w w3" using s2(1) w3(2) by (rule same_setup_trans)
  then show ?thesis using w1(1) w2 w3 by (auto simp: HSS_DDR_Train_IPIHandler_def)
qed

text \<open>So the handler meets the bus's contract.\<close>

lemma same_setup_bus:
  "same_setup w w' \<Longrightarrow> ipi_queues w' = ipi_queues w \<and> ipi_wf w' = ipi_wf w"
  by (simp add: same_setup_def ipi_data.defs ipi_wf_def)

lemma ddr_ok_more: "ipi_data.more w' = ipi_data.more w \<Longrightarrow> ddr_ok w' = ddr_ok w"
  by (cases w; cases w') (simp add: ddr_ok_def)

lemma ddr_bus_handler:
  assumes "nwc_ok (nwc :: 'a ddr_world_scheme \<Rightarrow> _)"
  shows "bus_handler (HSS_DDR_Train_IPIHandler nwc) ddr_ok"
proof
  fix s s' :: "'a ddr_world_scheme" and txid src imm ext anc r
  show "ddr_ok s'" if "ipi_data.more s' = ipi_data.more s" "ddr_ok s" using ddr_ok_more [OF that(1)] that(2) by simp
  assume ok: "ddr_ok s"
  obtain w1 where w1: "HSS_DDR_Train_IPIHandler nwc txid src imm ext anc s = Some (IPI_IDLE, w1\<lparr>ddr_trained := True\<rparr>)"
    "same_setup s w1" "length (memtest_ctrs w1) = 4"
    using Train_IPIHandler_spec [OF assms ok] by blast
  then show "\<exists>r s'. HSS_DDR_Train_IPIHandler nwc txid src imm ext anc s = Some (r, s')" by blast
  assume h: "HSS_DDR_Train_IPIHandler nwc txid src imm ext anc s = Some (r, s')"
  show "ddr_ok s'" using h w1 ok by (auto simp: ddr_ok_def same_setup_def)
  show "ipi_queues s' = ipi_queues s" using h w1 same_setup_bus [OF w1(2)] by auto
  show "ipi_wf s'" if "ipi_wf s" using that h w1 same_setup_bus [OF w1(2)] by (auto simp: ipi_wf_def)
qed

text \<open>
  C33.  A failed training is announced as a success: when the vendor's routine reports an
  error, \<^verbatim>\<open>HSS_DDRInit\<close> returns false, but the request handler ignores that, as it ignores
  the results of the memory test, and sets the event \<^verbatim>\<open>EVENT_DDR_TRAINED\<close> that the other
  services wait for.
\<close>

theorem HSS_DDR_Train_failure_announced:
  assumes nwc: "nwc_ok nwc" "\<forall>v. fst (nwc v) \<noteq> 0" and ok: "ddr_ok w"
  shows "(\<exists>w'. HSS_DDRInit nwc w = Some (False, w'))
    \<and> (\<exists>w'. HSS_DDR_Train_IPIHandler nwc txid source imm ext anc w = Some (IPI_IDLE, w')
          \<and> HSS_Trigger_IsNotified True EVENT_DDR_TRAINED w')"
  using DDRInit_ok [OF nwc(1), of w] Train_IPIHandler_spec [OF nwc(1) ok, of txid source imm ext anc] nwc(2) by auto

theorem HSS_DDR_Train_failure_announced_witness:
  "\<forall>w :: ddr_world. \<exists>w'. HSS_DDR_Train_IPIHandler (Pair 1) 0 0 0 0 0 (w\<lparr>memtest_ctrs := [-1, -1, -1, -1], ddrhi_bounds := 0\<rparr>)
     = Some (IPI_IDLE, w') \<and> ddr_trained w'"
proof
  fix w :: ddr_world
  have "nwc_ok (Pair 1 :: ddr_world \<Rightarrow> u8 \<times> ddr_world)" "\<forall>v :: ddr_world. fst (Pair (1 :: u8) v) \<noteq> 0"
    "ddr_ok (w\<lparr>memtest_ctrs := [-1, -1, -1, -1], ddrhi_bounds := 0\<rparr>)" by (simp_all add: nwc_ok_def ddr_ok_def)
  from HSS_DDR_Train_failure_announced [OF this, of 0 0 0 0 0]
  show "\<exists>w'. HSS_DDR_Train_IPIHandler (Pair 1) 0 0 0 0 0 (w\<lparr>memtest_ctrs := [-1, -1, -1, -1], ddrhi_bounds := 0\<rparr>)
     = Some (IPI_IDLE, w') \<and> ddr_trained w'" by (auto split: if_splits)
qed

subsection \<open>The service against its state machine\<close>

definition ddr_inv :: "nat \<Rightarrow> 'a ddr_world_scheme \<Rightarrow> bool" where
  "ddr_inv m w \<longleftrightarrow> ipi_wf w \<and> m < length (machines w) \<and> sm_state (machines w ! m) \<in> {0, 1, 2, 3}"

text \<open>The state after one run, from the triggers and the second clock read.\<close>

definition ddr_next :: "nat \<Rightarrow> 'a ddr_world_scheme \<Rightarrow> stateType_t" where
  "ddr_next m w =
     (let sm = machines w ! m; started = (if sm_startTime sm = 0 then read_at w 0 else sm_startTime sm) in
      if sm_state sm = DDR_INITIALIZATION then (if ipi_initialized w then DDR_TRAIN else DDR_INITIALIZATION)
      else if sm_state sm = DDR_TRAIN then (if ddr_trained w then DDR_IDLE else DDR_TRAIN)
      else if sm_state sm = DDR_IDLE
      then (if read_at w 1 > started + DDR_IDLE_PERIODIC_TIMEOUT then DDR_RETRAIN else DDR_IDLE)
      else DDR_IDLE)"

abbreviation (input) train_request :: IPI_Outbox_Msg where
  "train_request \<equiv> \<lparr> msg_type = IPI_MSG_DDR_TRAIN, transaction_id = 0, immediate_arg = 0,
     p_extended_buffer_in_ddr = 0, p_ancilliary_buffer_in_ddr = 0 \<rparr>"

lemma ddr_plain: "plain_machine ddr_service"
  by (auto simp: plain_machine_def ddr_service_def ddr_state_descs_def less_Suc_eq)

lemma ddr_descs:
  "length (pStateDescs ddr_service) = 4"
  "state_handler (pStateDescs ddr_service ! 0) = Some ddr_init_handler"
  "state_handler (pStateDescs ddr_service ! Suc 0) = Some ddr_train_handler"
  "state_handler (pStateDescs ddr_service ! 2) = Some ddr_idle_handler"
  "state_handler (pStateDescs ddr_service ! 3) = Some ddr_retrain_handler"
  by (simp_all add: ddr_service_def ddr_state_descs_def)

lemma ddr_init_sends:
  assumes wf: "ipi_wf w" and m: "m < length (machines w)"
  shows "\<exists>w'. ddr_init_handler m w = Some w' \<and> ipi_wf w' \<and> length (machines w') = length (machines w)
    \<and> sm_state (machines w' ! m) = (if ipi_initialized w then DDR_TRAIN else sm_state (machines w ! m))
    \<and> sm_startTime (machines w' ! m) = sm_startTime (machines w ! m)
    \<and> mailbox_of HSS_HART_E51 HSS_HART_U54_1 w' = mailbox_of HSS_HART_E51 HSS_HART_U54_1 w +
        (if ipi_initialized w \<and> size (mailbox_of HSS_HART_E51 HSS_HART_U54_1 w) < IPI_MAX_NUM_QUEUE_MESSAGES
         then {# train_request #} else {#})"
proof (cases "ipi_initialized w")
  case True
  have p: "peers 0 1" by (simp add: peers_def)
  have s: "IPI_MSG_DDR_TRAIN \<noteq> IPI_MSG_NO_MESSAGE" by simp
  obtain b w1 where w1: "IPI_Send 0 1 IPI_MSG_DDR_TRAIN 0 0 0 0 w = Some (b, w1)" "ipi_wf w1"
    "mailbox_of 0 1 w1 = mailbox_of 0 1 w +
       (if size (mailbox_of 0 1 w) < IPI_MAX_NUM_QUEUE_MESSAGES then {# train_request #} else {#})"
    using IPI_Send_spec [OF wf p s, of 0 0 0 0] wf by (auto split: if_splits)
  have t: "ipi_wf (set_state m 1 w1)" "mailbox_of 0 1 (set_state m 1 w1) = mailbox_of 0 1 w1"
    using w1(2) by (simp_all add: truncate_bus [of "set_state m 1 w1" w1])
  have "ddr_init_handler m w = Some (set_state m 1 w1)"
    using True w1(1) by (simp add: ddr_init_handler_def HSS_DDR_Train_def)
  then show ?thesis
    using True m IPI_Send_machines [OF w1(1)] w1(3) t by auto
next
  case False
  then show ?thesis using assms by (simp add: ddr_init_handler_def)
qed

text \<open>
  C26.  The DDR service implements its state machine: every run of it returns, asks hart 1
  for the training exactly when it leaves its first state, waits for the event, and from
  then on compares each second read of the clock with the start time of the machine, which
  nothing ever moves: once ten hours are over it retrains at every other run.
\<close>

theorem ddr_service_run:
  assumes "ddr_inv m w"
  shows "\<exists>w'. RunStateMachine ddr_service m w = Some w' \<and> ddr_inv m w'
    \<and> sm_state (machines w' ! m) = ddr_next m w
    \<and> sm_startTime (machines w' ! m) = (if sm_startTime (machines w ! m) = 0 then read_at w 0 else sm_startTime (machines w ! m))
    \<and> mailbox_of HSS_HART_E51 HSS_HART_U54_1 w' = mailbox_of HSS_HART_E51 HSS_HART_U54_1 w +
        (if sm_state (machines w ! m) = DDR_INITIALIZATION \<and> ipi_initialized w
            \<and> size (mailbox_of HSS_HART_E51 HSS_HART_U54_1 w) < IPI_MAX_NUM_QUEUE_MESSAGES
         then {# train_request #} else {#})"
proof -
  have m: "m < length (machines w)" and wf: "ipi_wf w" using assms by (simp_all add: ddr_inv_def)
  let ?w = "sm_prepare m w"
  note pre = truncate_bus [of ?w w, OF sm_prepare_simps(6)]
  have i: "ipi_initialized ?w = ipi_initialized w" "ddr_trained ?w = ddr_trained w"
    using pre(4) [of True EVENT_IPI_INITIALIZED] pre(4) [of True EVENT_DDR_TRAINED] by (auto split: if_splits)
  have concl: ?thesis
    if st: "sm_state (machines w ! m) = int i" "i < 4" and h: "state_handler (pStateDescs ddr_service ! i) = Some h"
      and v: "h m ?w = Some v" "ipi_wf v" "length (machines v) = length (machines w)" 
        "sm_state (machines v ! m) = ddr_next m w"
        "sm_startTime (machines v ! m) = sm_startTime (machines ?w ! m)"
        "mailbox_of 0 1 v = mailbox_of 0 1 w + (if sm_state (machines w ! m) = DDR_INITIALIZATION \<and> ipi_initialized w
            \<and> size (mailbox_of 0 1 w) < IPI_MAX_NUM_QUEUE_MESSAGES then {# train_request #} else {#})" for i h v
  proof -
    note post = truncate_bus [of "sm_conclude m t v" v for t, OF sm_conclude_simps(5)]
    have "ddr_next m w \<in> {0, 1, 2, 3}" by (simp add: ddr_next_def Let_def)
    then show ?thesis
      using RunStateMachine_plain [OF ddr_plain m st(1) _ h] st(2) v m
      by (auto simp: ddr_descs ddr_inv_def post)
  qed
  consider (init) "sm_state (machines w ! m) = 0" | (train) "sm_state (machines w ! m) = 1"
    | (idle) "sm_state (machines w ! m) = 2" | (retrain) "sm_state (machines w ! m) = 3"
    using assms by (auto simp: ddr_inv_def)
  then show ?thesis
  proof cases
    case init
    obtain v where "ddr_init_handler m ?w = Some v" "ipi_wf v" "length (machines v) = length (machines ?w)"
      "sm_state (machines v ! m) = (if ipi_initialized ?w then DDR_TRAIN else sm_state (machines ?w ! m))"
      "sm_startTime (machines v ! m) = sm_startTime (machines ?w ! m)"
      "mailbox_of 0 1 v = mailbox_of 0 1 ?w + (if ipi_initialized ?w \<and> size (mailbox_of 0 1 ?w) < IPI_MAX_NUM_QUEUE_MESSAGES
         then {# train_request #} else {#})"
      using ddr_init_sends [of ?w m] wf m pre by auto
    then show ?thesis using init m pre i by (intro concl [of 0 ddr_init_handler v]) (auto simp: ddr_descs ddr_next_def Let_def)
  next
    case train
    then show ?thesis using m wf pre i
      by (intro concl [of 1 ddr_train_handler "if ddr_trained w then set_state m DDR_IDLE ?w else ?w"])
        (auto simp: ddr_descs ddr_next_def Let_def ddr_train_handler_def truncate_bus [OF set_state_simps(6)])
  next
    case idle
    let ?e = "sm_startTime (machines ?w ! m) + DDR_IDLE_PERIODIC_TIMEOUT < read_at ?w 0"
    have "ddr_idle_handler m ?w = Some (if ?e then set_state m DDR_RETRAIN (skip_reads 1 ?w) else skip_reads 1 ?w)"
      by (simp add: ddr_idle_handler_def Timer_eq)
    then show ?thesis using idle m wf pre
      by (intro concl [of 2 ddr_idle_handler "if ?e then set_state m DDR_RETRAIN (skip_reads 1 ?w) else skip_reads 1 ?w"])
        (auto simp: ddr_descs ddr_next_def Let_def truncate_bus [OF set_state_simps(6)] truncate_bus [OF skip_reads_simps(2)])
  next
    case retrain
    then show ?thesis using m wf pre i
      by (intro concl [of 3 ddr_retrain_handler "set_state m DDR_IDLE ?w"])
        (auto simp: ddr_descs ddr_next_def Let_def ddr_retrain_handler_def truncate_bus [OF set_state_simps(6)])
  qed
qed

subsection \<open>The whole of a training\<close>

lemma outside_same_setup:
  "outside_bus w (w' :: 'a ddr_world_scheme) \<Longrightarrow> machines w' = machines w \<and> ddr_ok w' = ddr_ok w \<and> ddr_trained w' = ddr_trained w
     \<and> ipi_initialized w' = ipi_initialized w"
  using ddr_ok_more [of w' w] machines_more [of w' w] by (simp add: outside_bus_def triggers.defs)

lemma ddr_ok_simps [simp]:
  "ddr_ok (sm_prepare m w) = ddr_ok w" "ddr_ok (sm_conclude m t w) = ddr_ok w"
  "ddr_ok (set_state m st w) = ddr_ok w" "ddr_ok (skip_reads n w) = ddr_ok w"
  by (simp_all add: ddr_ok_def sm_prepare_def sm_conclude_def sm_begin_def sm_finish_def set_state_def sm_update_def
      skip_reads_def Let_def)

lemma ddr_handlers:
  "ddr_inv m (w :: 'a ddr_world_scheme) \<Longrightarrow> \<exists>i<4. \<exists>h :: 'a ddr_world_scheme sm_handler. h \<in> {ddr_init_handler, ddr_train_handler, ddr_idle_handler, ddr_retrain_handler} \<and>
     sm_state (machines w ! m) = int i \<and> state_handler (pStateDescs ddr_service ! i) = Some h"
  by (auto simp: ddr_inv_def ddr_descs intro: exI [of _ 0] exI [of _ 1] exI [of _ 2] exI [of _ 3])

lemma ddr_run_ok:
  assumes "ddr_inv m (w :: 'a ddr_world_scheme)" "RunStateMachine ddr_service m w = Some w'"
  shows "ddr_ok w' = ddr_ok w"
proof -
  obtain i and h :: "'a ddr_world_scheme sm_handler" where h: "h \<in> {ddr_init_handler, ddr_train_handler, ddr_idle_handler, ddr_retrain_handler}"
    "i < 4" "sm_state (machines w ! m) = int i" "state_handler (pStateDescs ddr_service ! i) = Some h"
    using ddr_handlers [OF assms(1)] by blast
  have "ddr_ok v' = ddr_ok v" if "h m v = Some v'" for v v'
    using h(1) that by (auto simp del: One_nat_def dest!: IPI_Send_outside outside_same_setup simp: ddr_init_handler_def ddr_train_handler_def ddr_idle_handler_def
        ddr_retrain_handler_def HSS_DDR_Train_def Timer_eq split: if_splits)
  then show ?thesis
    using assms RunStateMachine_plain [OF ddr_plain _ h(3) _ h(4)] h(2) by (auto simp: ddr_inv_def ddr_descs)
qed

text \<open>
  C11.  A training from start to end, across the service, the bus and hart 1: when the bus is
  up and no other training request is pending, the service's next run posts the request,
  hart 1 consumes it without owing an acknowledgement, both mailboxes are then as before,
  and the run after that finds the memory trained and settles in the idle state.
\<close>

theorem ddr_training_completes:
  assumes inv: "ddr_inv m w" "ddr_ok w" "nwc_ok nwc"
    and st: "sm_state (machines w ! m) = DDR_INITIALIZATION" "ipi_initialized w"
    and reg: "registry_lookup reg IPI_MSG_DDR_TRAIN = Some (Some (HSS_DDR_Train_IPIHandler nwc))"
    and room: "size (mailbox_of HSS_HART_E51 HSS_HART_U54_1 w) < IPI_MAX_NUM_QUEUE_MESSAGES"
    and fresh: "\<forall>msg\<in>#mailbox_of HSS_HART_E51 HSS_HART_U54_1 w. msg_type msg \<noteq> IPI_MSG_DDR_TRAIN"
  shows "\<exists>w1 w2 w3. RunStateMachine ddr_service m w = Some w1 \<and> sm_state (machines w1 ! m) = DDR_TRAIN
    \<and> IPI_ConsumeIntent reg HSS_HART_U54_1 HSS_HART_E51 IPI_MSG_DDR_TRAIN w1 = Some (True, w2)
    \<and> mailbox_of HSS_HART_E51 HSS_HART_U54_1 w2 = mailbox_of HSS_HART_E51 HSS_HART_U54_1 w
    \<and> mailbox_of HSS_HART_U54_1 HSS_HART_E51 w2 = mailbox_of HSS_HART_U54_1 HSS_HART_E51 w1
    \<and> RunStateMachine ddr_service m w2 = Some w3 \<and> sm_state (machines w3 ! m) = DDR_IDLE"
proof -
  have p: "peers 0 1" "IPI_MSG_DDR_TRAIN \<noteq> IPI_MSG_NO_MESSAGE" by (simp_all add: peers_def)
  obtain w1 where w1: "RunStateMachine ddr_service m w = Some w1" "ddr_inv m w1"
    "sm_state (machines w1 ! m) = DDR_TRAIN" "mailbox_of 0 1 w1 = add_mset train_request (mailbox_of 0 1 w)"
    using ddr_service_run [OF inv(1)] st room by (auto simp: ddr_next_def Let_def)
  have ok1: "ddr_ok w1" "ipi_wf w1" using ddr_run_ok [OF inv(1) w1(1)] inv(2) w1(2) by (simp_all add: ddr_inv_def)
  have ex: "\<exists>msg\<in>#mailbox_of 0 1 w1. msg_type msg = IPI_MSG_DDR_TRAIN" by (simp only: w1(4)) simp
  obtain m' r s2 s3 w2 where c: "IPI_ConsumeIntent reg 1 0 IPI_MSG_DDR_TRAIN w1 = Some (True, w2)" "ipi_wf w2" "ddr_ok w2"
    "msg_type m' = IPI_MSG_DDR_TRAIN" "ipi_completes s2 = ipi_completes w1"
    "HSS_DDR_Train_IPIHandler nwc (transaction_id m') 0 (immediate_arg m') (p_extended_buffer_in_ddr m')
       (p_ancilliary_buffer_in_ddr m') s2 = Some (r, s3)"
    "ipi_completes w2 = ipi_completes s3"
    "mailbox_of 0 1 w1 = add_mset m' (mailbox_of 0 1 w2)"
    "mailbox_of 1 0 w2 = mailbox_of 1 0 w1 + (case ack_for IPI_MSG_DDR_TRAIN r of None \<Rightarrow> {#}
        | Some (ack, status) \<Rightarrow>
            if size (mailbox_of 1 0 w1) < IPI_MAX_NUM_QUEUE_MESSAGES
            then {# \<lparr> msg_type = ack, transaction_id = transaction_id m',
                      immediate_arg = ipi_status_code status, p_extended_buffer_in_ddr = 0,
                      p_ancilliary_buffer_in_ddr = 0 \<rparr> #}
            else {#})"
    "\<forall>a b. peers a b \<longrightarrow> (a, b) \<noteq> (0, 1) \<longrightarrow> (a, b) \<noteq> (1, 0) \<longrightarrow> mailbox_of a b w2 = mailbox_of a b w1"
    by (rule bus_handler.consume_one [OF ddr_bus_handler [OF inv(3)] ok1(2) p(1) reg p(2) ex ok1(1)])
  have "m' \<in># mailbox_of 0 1 w1" by (simp only: c(8)) simp
  then have m': "m' = train_request" using c(4) fresh by (auto simp only: w1(4) set_mset_add_mset_insert)
  obtain msg :: IPI_Outbox_Msg and t2 r' t3 where f: "HSS_DDR_Train_IPIHandler nwc (transaction_id msg) 0 (immediate_arg msg)
      (p_extended_buffer_in_ddr msg) (p_ancilliary_buffer_in_ddr msg) t2 = Some (r', t3)"
    "outside_bus w1 t2" "outside_bus t3 w2"
    by (rule consume_frame [OF reg c(1)])
  have "r = IPI_IDLE" using c(6) by (auto simp: HSS_DDR_Train_IPIHandler_def Option.bind_eq_Some_conv)
  then have mb: "mailbox_of 0 1 w2 = mailbox_of 0 1 w" "mailbox_of 1 0 w2 = mailbox_of 1 0 w1"
    using c(8,9) m' w1(4) by simp_all
  have ok2: "ddr_ok t2" using outside_same_setup [OF f(2)] ok1(1) by simp
  obtain w1' where h: "HSS_DDR_Train_IPIHandler nwc (transaction_id msg) 0 (immediate_arg msg)
      (p_extended_buffer_in_ddr msg) (p_ancilliary_buffer_in_ddr msg) t2 = Some (IPI_IDLE, w1'\<lparr>ddr_trained := True\<rparr>)"
    "same_setup t2 w1'" using Train_IPIHandler_spec [OF inv(3) ok2] by blast
  then have t3: "t3 = w1'\<lparr>ddr_trained := True\<rparr>" "same_setup t2 w1'" using f(1) by simp_all
  have tr: "ddr_trained w2" "machines w2 = machines w1"
    using outside_same_setup [OF f(2)] outside_same_setup [OF f(3)] t3 by (simp_all add: same_setup_def)
  have "ddr_inv m w2" using w1(2) tr(2) c(2) by (simp add: ddr_inv_def)
  then obtain w3 where "RunStateMachine ddr_service m w2 = Some w3" "sm_state (machines w3 ! m) = DDR_IDLE"
    using ddr_service_run [of m w2] tr w1(3) by (auto simp: ddr_next_def Let_def)
  then show ?thesis using w1(1,3) c(1) mb by blast
qed

text \<open>The scheduler's contract holds for the service.\<close>

lemma ddr_inv_same:
  "ddr_inv m w \<Longrightarrow> ipi_data.truncate w' = ipi_data.truncate w \<Longrightarrow> length (machines w') = length (machines w) \<Longrightarrow>
     sm_state (machines w' ! m) \<in> {0, 1, 2, 3} \<Longrightarrow> ddr_inv m w'"
  using truncate_bus(1) [of w' w] by (simp add: ddr_inv_def)

lemma ddr_handler_safe:
  assumes inv: "ddr_inv m (w :: 'a ddr_world_scheme)" and h: "i < 4" "state_handler (pStateDescs ddr_service ! i) = Some h"
  shows "\<exists>w'. h m w = Some w' \<and> ddr_inv m w'"
proof -
  have m: "m < length (machines w)" "ipi_wf w" "sm_state (machines w ! m) \<in> {0, 1, 2, 3}"
    using inv by (simp_all add: ddr_inv_def)
  have moved: "ddr_inv m v'"
    if "ddr_inv m v" "ipi_data.truncate v' = ipi_data.truncate v" "length (machines v') = length (machines v)"
      "sm_state (machines v' ! m) = sm_state (machines v ! m) \<or> sm_state (machines v' ! m) \<in> {2, 3}"
    for v v' :: "'a ddr_world_scheme"
    using that by (intro ddr_inv_same [of m v v']) (auto simp only: ddr_inv_def insert_iff)
  have skip: "ddr_inv m (skip_reads n w)" for n by (rule moved [OF inv]) simp_all
  have set: "ddr_inv m (set_state m 2 v)" "ddr_inv m (set_state m 3 v)" if v: "ddr_inv m v" for v :: "'a ddr_world_scheme"
    using v by (auto intro!: moved [OF v] simp: ddr_inv_def)
  obtain v where v: "ddr_init_handler m w = Some v" "ddr_inv m v"
    using ddr_init_sends [OF m(2,1)] m(1,3) by (auto simp: ddr_inv_def)
  consider "i = 0" | "i = Suc 0" | "i = 2" | "i = 3" using h(1) by linarith
  then consider "h = ddr_init_handler" | "h = ddr_train_handler" | "h = ddr_idle_handler" | "h = ddr_retrain_handler"
    using h(2) by cases (simp_all add: ddr_descs)
  then show ?thesis
    using v inv skip [of 1] set [OF inv] set [OF skip [of 1]]
    by cases (simp_all add: ddr_train_handler_def ddr_idle_handler_def ddr_retrain_handler_def Timer_eq)
qed

interpretation ddr_machine: state_machine ddr_service m "ddr_inv m" for m
proof (rule plain_state_machine [OF ddr_plain])
  fix w :: "'a ddr_world_scheme" and f i h n
  show "ddr_inv m w \<Longrightarrow> m < length (machines w) \<and> 0 \<le> sm_state (machines w ! m)
      \<and> sm_state (machines w ! m) < int (length (pStateDescs (ddr_service :: 'a ddr_world_scheme MachineDesc)))"
    by (auto simp: ddr_inv_def ddr_descs)
  show "ddr_inv m w \<Longrightarrow> ddr_inv m (w\<lparr>time_reads := n\<rparr>)"
    by (rule ddr_inv_same [of m w]) (auto simp: ddr_inv_def ipi_data.defs)
  show "ddr_inv m w \<Longrightarrow> (\<And>sm. sm_state (f sm) = sm_state sm) \<Longrightarrow> ddr_inv m (sm_update m f w)"
    by (rule ddr_inv_same [of m w]) (auto simp: ddr_inv_def sm_update_def ipi_data.defs)
  show "\<exists>w'. h m w = Some w' \<and> ddr_inv m w'"
    if "i < length (pStateDescs (ddr_service :: 'a ddr_world_scheme MachineDesc))"
      "state_handler (pStateDescs ddr_service ! i) = Some h" "ddr_inv m w"
    using that by (intro ddr_handler_safe) (simp_all add: ddr_descs)
qed

definition ddr_demo :: "'a ddr_world_scheme \<Rightarrow> 'a ddr_world_scheme" where
  "ddr_demo w = (snd (IPI_QueuesInit (w\<lparr>MSIP := replicate 5 0\<rparr>)))\<lparr>ipi_initialized := True,
     machines := [initial_machine DDR_INITIALIZATION], memtest_ctrs := [-1, -1, -1, -1], ddrhi_bounds := 0\<rparr>"

lemma ddr_demo:
  "ddr_inv 0 (ddr_demo w)" "ddr_ok (ddr_demo w)" "sm_state (machines (ddr_demo w) ! 0) = DDR_INITIALIZATION"
  "ipi_initialized (ddr_demo w)" "mailbox_of HSS_HART_E51 HSS_HART_U54_1 (ddr_demo w) = {#}"
  using ipi_wf_QueuesInit [of "w\<lparr>MSIP := replicate 5 0\<rparr>"] mailbox_of_init [of 0 1 "w\<lparr>MSIP := replicate 5 0\<rparr>"]
  by (simp_all add: ddr_inv_def ddr_demo_def ddr_ok_def initial_machine_def ipi_wf_def mailbox_of_def peers_def)

theorem ddr_service_run_witness:
  "\<forall>w :: ddr_world. \<exists>w'. RunStateMachine ddr_service 0 (ddr_demo w) = Some w' \<and> sm_state (machines w' ! 0) = DDR_TRAIN
     \<and> mailbox_of HSS_HART_E51 HSS_HART_U54_1 w' = {# train_request #}"
proof
  fix w :: ddr_world
  show "\<exists>w'. RunStateMachine ddr_service 0 (ddr_demo w) = Some w' \<and> sm_state (machines w' ! 0) = DDR_TRAIN
     \<and> mailbox_of HSS_HART_E51 HSS_HART_U54_1 w' = {# train_request #}"
    using ddr_service_run [OF ddr_demo(1), of w] ddr_demo(3,4,5) [of w]
    by (auto simp: ddr_next_def Let_def IPI_MAX_NUM_QUEUE_MESSAGES_def)
qed

theorem ddr_training_completes_witness:
  "\<forall>w :: ddr_world. \<exists>w1 w2. RunStateMachine ddr_service 0 (ddr_demo w) = Some w1
     \<and> IPI_ConsumeIntent (replicate 20 (IPI_MSG_DDR_TRAIN, Some (HSS_DDR_Train_IPIHandler (Pair 0))))
         HSS_HART_U54_1 HSS_HART_E51 IPI_MSG_DDR_TRAIN w1 = Some (True, w2)"
proof
  fix w :: ddr_world
  let ?reg = "replicate 20 (IPI_MSG_DDR_TRAIN, Some (HSS_DDR_Train_IPIHandler (Pair 0 :: ddr_world \<Rightarrow> u8 \<times> ddr_world)))"
  have nwc: "nwc_ok (Pair 0 :: ddr_world \<Rightarrow> u8 \<times> ddr_world)" by (simp add: nwc_ok_def)
  have reg: "registry_lookup ?reg IPI_MSG_DDR_TRAIN = Some (Some (HSS_DDR_Train_IPIHandler (Pair 0)))"
    by (simp add: registry_lookup_def nth_opt_def)
  show "\<exists>w1 w2. RunStateMachine ddr_service 0 (ddr_demo w) = Some w1
     \<and> IPI_ConsumeIntent ?reg HSS_HART_U54_1 HSS_HART_E51 IPI_MSG_DDR_TRAIN w1 = Some (True, w2)"
    using ddr_training_completes [OF ddr_demo(1,2) nwc ddr_demo(3,4) reg, of w] ddr_demo(5) [of w]
    by (simp add: IPI_MAX_NUM_QUEUE_MESSAGES_def) blast
qed

end
