(* ===== verification/HSS_Ymodem.thy ===== *)
theory HSS_Ymodem
  imports HSS_Ddr HSS_Crc
begin

text \<open>
  The YMODEM receiver (services/ymodem/ymodem_protocol.c), by which a payload is loaded over
  the console.  Characters come from \<^verbatim>\<open>uart_getchar\<close>, so the input list and the timer decide
  what arrives and when a read times out; what the receiver answers goes to the end of
  \<open>uart_tx\<close>.  The received data is written to memory.
\<close>

subsection \<open>State\<close>

record loader_world = ddr_world +
  uart_tx :: "u8 list"

abbreviation (input) XYMODEM_SOH :: u8 where "XYMODEM_SOH \<equiv> 0x01"
abbreviation (input) XYMODEM_STX :: u8 where "XYMODEM_STX \<equiv> 0x02"
abbreviation (input) XYMODEM_ETX :: u8 where "XYMODEM_ETX \<equiv> 0x03"
abbreviation (input) XYMODEM_EOT :: u8 where "XYMODEM_EOT \<equiv> 0x04"
abbreviation (input) XYMODEM_ACK :: u8 where "XYMODEM_ACK \<equiv> 0x06"
abbreviation (input) XYMODEM_NAK :: u8 where "XYMODEM_NAK \<equiv> 0x15"
abbreviation (input) XYMODEM_CAN :: u8 where "XYMODEM_CAN \<equiv> 0x18"
abbreviation (input) XYMODEM_C :: u8 where "XYMODEM_C \<equiv> 0x43"

abbreviation (input) MAX_FILENAME_LENGTH :: nat where "MAX_FILENAME_LENGTH \<equiv> 64"
abbreviation (input) MAX_SYNC_ATTEMPTS :: nat where "MAX_SYNC_ATTEMPTS \<equiv> 20"
abbreviation (input) CAN_COUNT_REQUIRED :: nat where "CAN_COUNT_REQUIRED \<equiv> 2"
abbreviation (input) PRE_SYNC_TIMEOUT_SEC :: int where "PRE_SYNC_TIMEOUT_SEC \<equiv> 10"
abbreviation (input) POST_SYNC_TIMEOUT_SEC :: int where "POST_SYNC_TIMEOUT_SEC \<equiv> 1"
abbreviation (input) BAD_PACKET_RETRIES :: nat where "BAD_PACKET_RETRIES \<equiv> 10"

datatype xy_protocol = XMODEM | YMODEM

record XYModem_Packet =
  startByte :: u8
  blkNum :: u8
  blkNumOnesComplement :: u8
  pkt_buffer :: "u8 list"
  pkt_length :: nat

record XYModem_State =
  protocol :: xy_protocol
  syncFail :: bool
  endOfSession :: bool
  xy_abort :: bool
  eotReceived :: bool
  lastReceivedBlkNum :: u8
  expectedBlkNum :: u8
  totalReceivedSize :: u64
  numReceivedPackets :: u64
  numNAKs :: u64
  filename :: "u8 list"
  expectedSize :: u64
  maxSize :: u64

text \<open>\<^verbatim>\<open>status.done\<close> overlays the three status bits.\<close>

definition xy_done :: "XYModem_State \<Rightarrow> bool" where
  "xy_done s \<longleftrightarrow> syncFail s \<or> endOfSession s \<or> xy_abort s"

subsection \<open>Characters\<close>

text \<open>\<open>None\<close> inside the result is the timeout, -1 in the code.\<close>

definition getchar_with_timeout :: "int \<Rightarrow> 'a loader_world_scheme \<Rightarrow> (u8 option \<times> 'a loader_world_scheme) option" where
  "getchar_with_timeout timeout_sec w = uart_getchar timeout_sec False w"

definition putchar :: "u8 \<Rightarrow> 'a loader_world_scheme \<Rightarrow> 'a loader_world_scheme" where
  "putchar c w = w\<lparr>uart_tx := uart_tx w @ [c]\<rparr>"

definition XYMODEM_SendReadyChar ::
    "XYModem_State \<Rightarrow> 'a loader_world_scheme \<Rightarrow> XYModem_State \<times> 'a loader_world_scheme" where
  "XYMODEM_SendReadyChar s w =
     (if protocol s = YMODEM then (s, putchar XYMODEM_C w)
      else (s\<lparr>numNAKs := numNAKs s + 1\<rparr>, putchar XYMODEM_NAK w))"

definition XYMODEM_SendCAN :: "'a loader_world_scheme \<Rightarrow> 'a loader_world_scheme" where
  "XYMODEM_SendCAN w = (putchar XYMODEM_CAN ^^ 8) w"

fun purge_loop :: "nat \<Rightarrow> int \<Rightarrow> 'a loader_world_scheme \<Rightarrow> 'a loader_world_scheme option" where
  "purge_loop 0 timeout_sec w = Some w"
| "purge_loop (Suc n) timeout_sec w = do {
     (c, w1) \<leftarrow> getchar_with_timeout timeout_sec w;
     if c = None then Some w1 else purge_loop n timeout_sec w1
   }"

definition XYMODEM_Purge :: "int \<Rightarrow> 'a loader_world_scheme \<Rightarrow> 'a loader_world_scheme option" where
  "XYMODEM_Purge = purge_loop 10"

subsection \<open>Packets\<close>

definition XYMODEM_ValidatePacket :: "XYModem_Packet \<Rightarrow> XYModem_State \<Rightarrow> bool" where
  "XYMODEM_ValidatePacket p s =
     (if CRC16_calculate (take (pkt_length p + 2) (pkt_buffer p)) \<noteq> 0 then False
      else if blkNum p \<noteq> blkNumOnesComplement p XOR 0xFF then False
      else if blkNum p \<noteq> expectedBlkNum s then False
      else True)"

text \<open>The synchronisation, with \<open>n\<close> attempts to go: a start byte of a packet, or why not.\<close>

fun sync_loop ::
    "nat \<Rightarrow> nat \<Rightarrow> XYModem_Packet \<Rightarrow> XYModem_State \<Rightarrow> 'a loader_world_scheme
      \<Rightarrow> (bool \<times> XYModem_Packet \<times> XYModem_State \<times> 'a loader_world_scheme) option" where
  "sync_loop 0 can_rx_count p s w = Some (False, p, s, w)"
| "sync_loop (Suc n) can_rx_count p s w = do {
     (c, w1) \<leftarrow> getchar_with_timeout PRE_SYNC_TIMEOUT_SEC w;
     let p1 = p\<lparr>startByte := (case c of Some b \<Rightarrow> b | None \<Rightarrow> 0)\<rparr>;
     if c = Some XYMODEM_SOH then Some (True, p1\<lparr>pkt_length := 128\<rparr>, s, w1)
     else if c = Some XYMODEM_STX then Some (True, p1\<lparr>pkt_length := 1024\<rparr>, s, w1)
     else if c = Some XYMODEM_EOT then Some (True, p1\<lparr>pkt_length := 0\<rparr>, s\<lparr>eotReceived := True\<rparr>, w1)
     else if c = Some XYMODEM_ETX then Some (False, p1\<lparr>pkt_length := 0\<rparr>, s\<lparr>xy_abort := True\<rparr>, w1)
     else if c = Some XYMODEM_CAN then
       (if can_rx_count + 1 = CAN_COUNT_REQUIRED
        then Some (False, p1\<lparr>pkt_length := 0\<rparr>, s\<lparr>xy_abort := True\<rparr>, w1)
        else sync_loop n (can_rx_count + 1) p1 s w1)
     else (case XYMODEM_SendReadyChar s w1 of (s1, w2) \<Rightarrow> sync_loop n 0 p1 s1 w2)
   }"

text \<open>A timeout is stored as 0xFF.\<close>

definition byte_of :: "u8 option \<Rightarrow> u8" where
  "byte_of c = (case c of Some b \<Rightarrow> b | None \<Rightarrow> 0xFF)"

fun get_bytes :: "nat \<Rightarrow> 'a loader_world_scheme \<Rightarrow> (u8 list \<times> 'a loader_world_scheme) option" where
  "get_bytes 0 w = Some ([], w)"
| "get_bytes (Suc n) w = do {
     (c, w1) \<leftarrow> getchar_with_timeout POST_SYNC_TIMEOUT_SEC w;
     (bs, w2) \<leftarrow> get_bytes n w1;
     Some (byte_of c # bs, w2)
   }"

definition XYMODEM_ReadPacket ::
    "XYModem_Packet \<Rightarrow> XYModem_State \<Rightarrow> 'a loader_world_scheme
      \<Rightarrow> (bool \<times> XYModem_Packet \<times> XYModem_State \<times> 'a loader_world_scheme) option" where
  "XYMODEM_ReadPacket p s w =
     (if xy_done s then Some (False, p, s, w)
      else do {
        (synced, p1, s1, w1) \<leftarrow> sync_loop MAX_SYNC_ATTEMPTS 0 p s w;
        if endOfSession s1 then Some (True, p1, s1, w1)
        else if synced then do {
          (hd, w2) \<leftarrow> get_bytes 2 w1;
          (bs, w3) \<leftarrow> get_bytes (pkt_length p1 + 2) w2;
          let p2 = p1\<lparr>blkNum := hd ! 0, blkNumOnesComplement := hd ! 1, pkt_buffer := bs @ drop (length bs) (pkt_buffer p1)\<rparr>;
          let s2 = s1\<lparr>numReceivedPackets := numReceivedPackets s1 + 1\<rparr>;
          Some (if xy_done s2 then (True, p2, s2, w3)
                else if eotReceived s2 then (True, p2, s2, w3)
                else if XYMODEM_ValidatePacket p2 s2
                then (True, p2, s2\<lparr>lastReceivedBlkNum := blkNum p2, expectedBlkNum := expectedBlkNum s2 + 1\<rparr>, w3)
                else (False, p2, s2, w3))
        }
        else Some (if xy_abort s1 then True else synced, p1\<lparr>pkt_length := 0\<rparr>, s1\<lparr>syncFail := True\<rparr>, w1)
      })"

text \<open>The decimal number after the first NUL.\<close>

fun file_size :: "bool \<Rightarrow> u64 \<Rightarrow> u8 list \<Rightarrow> u64" where
  "file_size hunting fileSize [] = fileSize"
| "file_size hunting fileSize (c # cs) =
     (if c = 0 then (if hunting then file_size False fileSize cs else fileSize)
      else if 48 \<le> c \<and> c \<le> 57 then
        file_size hunting (if hunting then fileSize else fileSize * 10 + ucast (c - 48)) cs
      else if hunting then file_size hunting fileSize cs else fileSize)"

definition XYMODEM_GetFileSize :: "u8 list \<Rightarrow> u64" where
  "XYMODEM_GetFileSize = file_size True 0"

subsection \<open>The receiver\<close>

definition put_bytes :: "u64 \<Rightarrow> u8 list \<Rightarrow> memory \<Rightarrow> memory" where
  "put_bytes a bs m = (\<lambda>x. if unat (x - a) < length bs then bs ! unat (x - a) else m x)"

text \<open>
  One round of the main loop: whether the loop goes on (\<^verbatim>\<open>break\<close> ends it), the number of bad
  packets, the packet buffer, the state and the world.
\<close>

definition is_header :: "XYModem_State \<Rightarrow> bool" where
  "is_header s \<longleftrightarrow> protocol s = YMODEM \<and> lastReceivedBlkNum s = 0 \<and> numReceivedPackets s = 1"

definition receive_packet ::
    "u64 \<Rightarrow> nat \<Rightarrow> XYModem_Packet \<Rightarrow> XYModem_State \<Rightarrow> 'a loader_world_scheme
      \<Rightarrow> bool \<times> nat \<times> XYModem_Packet \<times> XYModem_State \<times> 'a loader_world_scheme" where
  "receive_packet dest retries p s w =
     (if is_header s then
        let s1 = s\<lparr>filename := take (MAX_FILENAME_LENGTH - 1) (pkt_buffer p) @ drop (MAX_FILENAME_LENGTH - 1) (filename s),
                   expectedSize := XYMODEM_GetFileSize (pkt_buffer p)\<rparr> in
        if expectedSize s1 > maxSize s1
        then (False, retries, p, s1\<lparr>xy_abort := True, totalReceivedSize := 0\<rparr>, XYMODEM_SendCAN w)
        else (True, retries, p, s1, w)
      else if eotReceived s then (True, retries, p, s\<lparr>endOfSession := True\<rparr>, putchar XYMODEM_ACK w)
      else if totalReceivedSize s + of_nat (pkt_length p) < maxSize s then
        (True, retries, p, s\<lparr>totalReceivedSize := totalReceivedSize s + of_nat (pkt_length p)\<rparr>,
         w\<lparr>mem := put_bytes (dest + totalReceivedSize s) (take (pkt_length p) (pkt_buffer p)) (mem w)\<rparr>)
      else (False, retries, p, s\<lparr>xy_abort := True, totalReceivedSize := 0\<rparr>, XYMODEM_SendCAN w))"

definition receive_round ::
    "u64 \<Rightarrow> nat \<Rightarrow> XYModem_Packet \<Rightarrow> XYModem_State \<Rightarrow> 'a loader_world_scheme
      \<Rightarrow> (bool \<times> nat \<times> XYModem_Packet \<times> XYModem_State \<times> 'a loader_world_scheme) option" where
  "receive_round dest retries p s w = do {
     (ok, p1, s1, w1) \<leftarrow> XYMODEM_ReadPacket p s w;
     let w2 = putchar XYMODEM_ACK w1;
     if ok then
       if \<not> xy_done s1 then Some (receive_packet dest retries p1 s1 w2)
       else if xy_abort s1 then Some (False, retries, p1, s1\<lparr>totalReceivedSize := 0\<rparr>, XYMODEM_SendCAN w2)
       else if endOfSession s1 then do {
         w3 \<leftarrow> XYMODEM_Purge POST_SYNC_TIMEOUT_SEC (putchar XYMODEM_ACK w2);
         Some (True, retries, p1, s1, w3)
       }
       else Some (True, retries, p1, s1, w2)
     else if numReceivedPackets s1 \<noteq> 0 then do {
       w3 \<leftarrow> XYMODEM_Purge POST_SYNC_TIMEOUT_SEC w1;
       Some (True, retries + 1, p1, s1\<lparr>numNAKs := numNAKs s1 + 1\<rparr>, putchar XYMODEM_NAK w3)
     }
     else Some (True, retries + 1, p1, s1, w1)
   }"

partial_function (option) receive_loop ::
    "u64 \<Rightarrow> nat \<Rightarrow> XYModem_Packet \<Rightarrow> XYModem_State \<Rightarrow> 'a loader_world_scheme \<Rightarrow> (XYModem_State \<times> 'a loader_world_scheme) option" where
  "receive_loop dest retries p s w =
     (if xy_done s \<or> retries \<ge> BAD_PACKET_RETRIES then Some (s, w)
      else Option.bind (receive_round dest retries p s w) (\<lambda>(go_on, retries1, p1, s1, w1).
        if go_on then receive_loop dest retries1 p1 s1 w1 else Some (s1, w1)))"

definition zero_packet :: XYModem_Packet where
  "zero_packet = \<lparr> startByte = 0, blkNum = 0, blkNumOnesComplement = 0, pkt_buffer = replicate 1026 0, pkt_length = 0 \<rparr>"

definition XYMODEM_Receive ::
    "xy_protocol \<Rightarrow> XYModem_State \<Rightarrow> u64 \<Rightarrow> u64 \<Rightarrow> 'a loader_world_scheme \<Rightarrow> (u64 \<times> XYModem_State \<times> 'a loader_world_scheme) option" where
  "XYMODEM_Receive proto s0 dest bufferSize w = do {
     let s1 = s0\<lparr>syncFail := False, endOfSession := False, xy_abort := False, lastReceivedBlkNum := 0, expectedBlkNum := 0,
       totalReceivedSize := 0, numReceivedPackets := 0, expectedSize := 0, maxSize := bufferSize, protocol := proto\<rparr>;
     let (s2, w2) = XYMODEM_SendReadyChar s1 w;
     let s3 = (if protocol s2 \<noteq> YMODEM then s2\<lparr>expectedBlkNum := 1\<rparr> else s2);
     (s4, w4) \<leftarrow> receive_loop dest 0 zero_packet s3 w2;
     let result = (if expectedSize s4 \<noteq> 0 then min (expectedSize s4) (totalReceivedSize s4) else totalReceivedSize s4);
     w5 \<leftarrow> XYMODEM_Purge POST_SYNC_TIMEOUT_SEC w4;
     Some (result, s4, w5)
   }"

definition zero_state :: XYModem_State where
  "zero_state = \<lparr> protocol = YMODEM, syncFail = False, endOfSession = False, xy_abort = False, eotReceived = False,
     lastReceivedBlkNum = 0, expectedBlkNum = 0, totalReceivedSize = 0, numReceivedPackets = 0, numNAKs = 0,
     filename = replicate MAX_FILENAME_LENGTH 0, expectedSize = 0, maxSize = 0 \<rparr>"

text \<open>Switching the UART between its two modes of use and the report at the end are left out.\<close>

definition ymodem_receive :: "u64 \<Rightarrow> u64 \<Rightarrow> 'a loader_world_scheme \<Rightarrow> (u64 \<times> 'a loader_world_scheme) option" where
  "ymodem_receive buffer bufferSize w = map_option (\<lambda>(r, _, w1). (r, w1)) (XYMODEM_Receive YMODEM zero_state buffer bufferSize w)"

definition flush_ymodem_footer :: "'a loader_world_scheme \<Rightarrow> 'a loader_world_scheme option" where
  "flush_ymodem_footer w = map_option (\<lambda>(_, _, w1). w1) (uart_getline w)"

subsection \<open>Reads of a character return\<close>

text \<open>
  What a read of the console leaves unchanged, and the assumption on the clock: it always
  gets past any moment by the two waiting times in use.
\<close>

definition rx_only :: "'a uart_world_scheme \<Rightarrow> 'a uart_world_scheme \<Rightarrow> bool" where
  "rx_only w w' \<longleftrightarrow> (\<exists>n es. w' = w\<lparr>time_reads := n, uart_rx := es\<rparr>)"

definition clock_runs :: "'a hss_clock_scheme \<Rightarrow> bool" where
  "clock_runs w \<longleftrightarrow> (\<forall>k. \<forall>d \<in> {1000000, 10000000}. \<exists>n > k. mtime w n > mtime w k + d)"

lemma rx_only_refl [simp]: "rx_only w w"
  unfolding rx_only_def by (rule exI [of _ "time_reads w"], rule exI [of _ "uart_rx w"]) simp

lemma rx_onlyI: "w' = w\<lparr>time_reads := n, uart_rx := es\<rparr> \<Longrightarrow> rx_only w w'"
  unfolding rx_only_def by blast

lemma rx_only_trans: "rx_only w1 w2 \<Longrightarrow> rx_only w2 w3 \<Longrightarrow> rx_only w1 w3"
  by (elim rx_only_def [THEN iffD1, THEN exE] exE) (rule rx_onlyI, simp)

lemma rx_only_skip [simp]: "rx_only w (skip_reads n w)"
  unfolding rx_only_def by (rule exI [of _ "time_reads w + n"], rule exI [of _ "uart_rx w"]) (simp add: skip_reads_def)

lemma rx_only_poll: "uart_poll w = (e, w') \<Longrightarrow> rx_only w w' \<and> time_reads w' = time_reads w"
  by (cases "uart_rx w") (auto simp: uart_poll_def intro: rx_onlyI [where n = "time_reads w" and es = "tl (uart_rx w)"])

lemma rx_only_mtime: "rx_only w w' \<Longrightarrow> mtime w' = mtime w"
  by (auto simp: rx_only_def)

lemma getchar_loop_returns:
  assumes "t > 0" and "read_at w n > st + of_int t * TICKS_PER_SEC"
  shows "\<exists>c w'. getchar_loop t False st l w = Some (c, w') \<and> rx_only w w'"
  using assms(2)
proof (induction n arbitrary: w)
  case (0 w)
  obtain e w1 where p: "uart_poll w = (e, w1)" by force
  have q: "rx_only w w1" "read_at w1 = read_at w"
    using rx_only_poll [OF p] by (auto simp: read_at_def fun_eq_iff rx_only_mtime)
  show ?case
    using 0 assms(1) q rx_only_trans [OF q(1) rx_only_skip]
    by (subst getchar_loop.simps) (auto simp: p Timer_eq split: uart_event.split)
next
  case (Suc n w)
  obtain e w1 where p: "uart_poll w = (e, w1)" by force
  have q: "rx_only w w1" "read_at w1 = read_at w"
    using rx_only_poll [OF p] by (auto simp: read_at_def fun_eq_iff rx_only_mtime)
  have s: "rx_only w (skip_reads 1 w1)" by (rule rx_only_trans [OF q(1) rx_only_skip])
  have "read_at (skip_reads 1 w1) n > st + of_int t * TICKS_PER_SEC" using Suc.prems q(2) by simp
  from Suc.IH [OF this] obtain c w' where r: "getchar_loop t False st l (skip_reads 1 w1) = Some (c, w')"
    and f: "rx_only (skip_reads 1 w1) w'" by blast
  have g: "rx_only w w'" by (rule rx_only_trans [OF s f])
  show ?case
    using assms(1) q s r g
    by (subst getchar_loop.simps) (auto simp: p Timer_eq split: uart_event.split)
qed

lemma clock_runs_next:
  assumes "clock_runs w" and "t = 1 \<or> t = 10"
  shows "\<exists>k. mtime w (Suc (time_reads w + k)) > mtime w (time_reads w) + of_int t * TICKS_PER_SEC"
proof -
  have "\<exists>n > time_reads w. mtime w n > mtime w (time_reads w) + of_int t * TICKS_PER_SEC"
    using assms by (auto simp: clock_runs_def)
  then show ?thesis using less_imp_Suc_add by blast
qed

lemma getchar_returns:
  fixes w :: "'a loader_world_scheme"
  assumes "clock_runs w" and "t = 1 \<or> t = 10"
  obtains c w' where "getchar_with_timeout t w = Some (c, w')" "rx_only w w'"
proof -
  obtain k where "mtime w (Suc (time_reads w + k)) > mtime w (time_reads w) + of_int t * TICKS_PER_SEC"
    using clock_runs_next [OF assms] by blast
  then have "read_at (skip_reads 1 w) k > read_at w 0 + of_int t * TICKS_PER_SEC"
    by (simp add: read_at_def skip_reads_def)
  from getchar_loop_returns [OF _ this, of "read_at w 0"] assms(2)
  obtain c w' where "getchar_loop t False (read_at w 0) (read_at w 0) (skip_reads 1 w) = Some (c, w')"
    "rx_only (skip_reads 1 w) w'" by auto
  then have "getchar_with_timeout t w = Some (c, w')" "rx_only w w'"
    by (auto simp: getchar_with_timeout_def uart_getchar_def GetTime_eq intro: rx_only_trans [OF rx_only_skip])
  then show thesis by (rule that)
qed

lemma clock_runs_rx: "rx_only w w' \<Longrightarrow> clock_runs w' \<longleftrightarrow> clock_runs w"
  by (simp add: clock_runs_def rx_only_mtime)

subsection \<open>The receiver returns and stays in its buffer\<close>

text \<open>What the receiver may change while it does not store data.\<close>

definition talks :: "'a loader_world_scheme \<Rightarrow> 'a loader_world_scheme \<Rightarrow> bool" where
  "talks w w' \<longleftrightarrow> (\<exists>n es os. w' = w\<lparr>time_reads := n, uart_rx := es, uart_tx := os\<rparr>)"

lemma talksI: "w' = w\<lparr>time_reads := n, uart_rx := es, uart_tx := os\<rparr> \<Longrightarrow> talks w w'"
  unfolding talks_def by blast

lemma talks_rx: "rx_only w w' \<Longrightarrow> talks w w'"
  by (elim rx_only_def [THEN iffD1, THEN exE] exE) (rule talksI [where os = "uart_tx w"], simp)

lemma talks_refl [simp]: "talks w w" by (rule talks_rx) simp

lemma talks_trans: "talks w1 w2 \<Longrightarrow> talks w2 w3 \<Longrightarrow> talks w1 w3"
  by (elim talks_def [THEN iffD1, THEN exE] exE) (rule talksI, simp)

lemma talks_putchar [simp]: "talks w (putchar c w)"
  unfolding talks_def putchar_def
  by (rule exI [of _ "time_reads w"], rule exI [of _ "uart_rx w"], rule exI [of _ "uart_tx w @ [c]"]) simp

lemma talks_SendCAN [simp]: "talks w (XYMODEM_SendCAN w)"
proof -
  have "talks w ((putchar c ^^ n) w)" for c n
    by (induction n) (auto intro: talks_trans)
  then show ?thesis by (simp add: XYMODEM_SendCAN_def)
qed

lemma talks_same: "talks w w' \<Longrightarrow> mem w' = mem w \<and> (clock_runs w' \<longleftrightarrow> clock_runs w)"
  by (auto simp: talks_def clock_runs_def)

lemma purge_returns:
  fixes w :: "'a loader_world_scheme"
  shows "clock_runs w \<Longrightarrow> \<exists>w'. purge_loop n 1 w = Some w' \<and> talks w w'"
proof (induction n arbitrary: w)
  case (Suc n w)
  obtain c w1 where "getchar_with_timeout 1 w = Some (c, w1)" "rx_only w w1"
    using getchar_returns [OF Suc.prems, of 1] by blast
  moreover have "clock_runs w1" using Suc.prems calculation(2) by (simp add: clock_runs_rx)
  ultimately show ?case
    using Suc.IH [of w1] by (auto intro: talks_trans talks_rx)
qed simp

lemma get_bytes_returns:
  fixes w :: "'a loader_world_scheme"
  shows "clock_runs w \<Longrightarrow> \<exists>bs w'. get_bytes n w = Some (bs, w') \<and> length bs = n \<and> talks w w'"
proof (induction n arbitrary: w)
  case (Suc n w)
  obtain c w1 where g: "getchar_with_timeout 1 w = Some (c, w1)" "rx_only w w1"
    using getchar_returns [OF Suc.prems, of 1] by blast
  have "clock_runs w1" using Suc.prems g(2) by (simp add: clock_runs_rx)
  then obtain bs w' where "get_bytes n w1 = Some (bs, w')" "length bs = n" "talks w1 w'" using Suc.IH by blast
  then show ?case using g by (auto intro: talks_trans talks_rx)
qed simp

text \<open>What the synchronisation and the read of a packet may change in the receiver's state.\<close>

definition same_progress :: "XYModem_State \<Rightarrow> XYModem_State \<Rightarrow> bool" where
  "same_progress s s' \<longleftrightarrow> totalReceivedSize s' = totalReceivedSize s \<and> maxSize s' = maxSize s
     \<and> expectedSize s' = expectedSize s \<and> protocol s' = protocol s \<and> endOfSession s' = endOfSession s"

definition same_session :: "XYModem_State \<Rightarrow> XYModem_State \<Rightarrow> bool" where
  "same_session s s' \<longleftrightarrow> same_progress s s' \<and> numReceivedPackets s' = numReceivedPackets s
     \<and> syncFail s' = syncFail s"

definition sync_post :: "XYModem_State \<Rightarrow> 'a loader_world_scheme
    \<Rightarrow> (bool \<times> XYModem_Packet \<times> XYModem_State \<times> 'a loader_world_scheme) option \<Rightarrow> bool" where
  "sync_post s w r \<longleftrightarrow> (\<exists>ok p' s' w'. r = Some (ok, p', s', w') \<and> talks w w' \<and> same_session s s'
    \<and> (ok \<longrightarrow> xy_abort s' = xy_abort s \<and> (eotReceived s' \<or> pkt_length p' = 128 \<or> pkt_length p' = 1024)))"

lemma sync_post_Some:
  "talks w w' \<Longrightarrow> same_session s s'
    \<Longrightarrow> (ok \<Longrightarrow> xy_abort s' = xy_abort s \<and> (eotReceived s' \<or> pkt_length p' = 128 \<or> pkt_length p' = 1024))
    \<Longrightarrow> sync_post s w (Some (ok, p', s', w'))"
  by (simp add: sync_post_def)

lemma sync_post_trans:
  "sync_post s1 w1 r \<Longrightarrow> talks w w1 \<Longrightarrow> same_session s s1 \<Longrightarrow> xy_abort s1 = xy_abort s \<Longrightarrow> sync_post s w r"
proof -
  assume "sync_post s1 w1 r" and a: "talks w w1" "same_session s s1" "xy_abort s1 = xy_abort s"
  then obtain ok p' s' w' where r: "r = Some (ok, p', s', w')" "talks w1 w'" "same_session s1 s'"
    "ok \<longrightarrow> xy_abort s' = xy_abort s1 \<and> (eotReceived s' \<or> pkt_length p' = 128 \<or> pkt_length p' = 1024)"
    unfolding sync_post_def by blast
  have "talks w w'" using a(1) r(2) by (rule talks_trans)
  moreover have "same_session s s'" using a(2) r(3) by (simp add: same_session_def same_progress_def)
  ultimately show ?thesis unfolding r(1) using a(3) r(4) by (intro sync_post_Some) simp_all
qed

lemma sync_loop_returns:
  fixes w :: "'a loader_world_scheme"
  shows "clock_runs w \<Longrightarrow> sync_post s w (sync_loop n k p s w)"
proof (induction n arbitrary: k p s w)
  case 0
  show ?case by (simp add: sync_post_Some same_session_def same_progress_def)
next
  case (Suc n k p s w)
  obtain c w1 where g: "getchar_with_timeout 10 w = Some (c, w1)" "rx_only w w1"
    using getchar_returns [OF Suc.prems, of 10] by blast
  have c: "clock_runs w1" using Suc.prems g(2) by (simp add: clock_runs_rx)
  have t: "talks w w1" using g(2) by (rule talks_rx)
  obtain s1 w2 where r: "XYMODEM_SendReadyChar s w1 = (s1, w2)" by force
  have s1: "talks w1 w2" "same_session s s1" "xy_abort s1 = xy_abort s"
    using r by (auto simp: XYMODEM_SendReadyChar_def same_session_def same_progress_def split: if_splits)
  have c2: "clock_runs w2" using talks_same [OF s1(1)] c by simp
  have again: "sync_post s w (sync_loop n j q s w1)" for j q
    by (rule sync_post_trans [OF Suc.IH [OF c] t]) (simp_all add: same_session_def same_progress_def)
  have ready: "sync_post s w (sync_loop n j q s1 w2)" for j q
    by (rule sync_post_trans [OF Suc.IH [OF c2] talks_trans [OF t s1(1)] s1(2,3)])
  show ?case
    by (simp add: g(1) r again ready sync_post_Some t same_session_def same_progress_def Let_def)
qed

definition read_post :: "XYModem_State \<Rightarrow> 'a loader_world_scheme
    \<Rightarrow> (bool \<times> XYModem_Packet \<times> XYModem_State \<times> 'a loader_world_scheme) option \<Rightarrow> bool" where
  "read_post s w r \<longleftrightarrow> (\<exists>ok p' s' w'. r = Some (ok, p', s', w') \<and> talks w w' \<and> same_progress s s'
    \<and> (ok \<and> \<not> xy_done s' \<longrightarrow> numReceivedPackets s' = numReceivedPackets s + 1
         \<and> (eotReceived s' \<or> pkt_length p' = 128 \<or> pkt_length p' = 1024)))"

lemma read_post_Some:
  "talks w w' \<Longrightarrow> same_progress s s'
    \<Longrightarrow> (ok \<Longrightarrow> \<not> xy_done s' \<Longrightarrow> numReceivedPackets s' = numReceivedPackets s + 1
         \<and> (eotReceived s' \<or> pkt_length p' = 128 \<or> pkt_length p' = 1024))
    \<Longrightarrow> read_post s w (Some (ok, p', s', w'))"
  by (simp add: read_post_def)

lemma ReadPacket_returns:
  fixes w :: "'a loader_world_scheme"
  assumes "clock_runs w" and "\<not> xy_done s"
  shows "read_post s w (XYMODEM_ReadPacket p s w)"
proof -
  obtain ok p1 s1 w1 where y: "sync_loop MAX_SYNC_ATTEMPTS 0 p s w = Some (ok, p1, s1, w1)" "talks w w1"
      "same_session s s1"
      "ok \<longrightarrow> xy_abort s1 = xy_abort s \<and> (eotReceived s1 \<or> pkt_length p1 = 128 \<or> pkt_length p1 = 1024)"
    using sync_loop_returns [OF assms(1), of s MAX_SYNC_ATTEMPTS 0 p] unfolding sync_post_def by blast
  have e: "\<not> endOfSession s1" "same_progress s s1"
    using y(3) assms(2) by (simp_all add: same_session_def same_progress_def xy_done_def)
  have c1: "clock_runs w1" using talks_same [OF y(2)] assms(1) by simp
  obtain hd w2 where h: "get_bytes 2 w1 = Some (hd, w2)" "talks w1 w2"
    using get_bytes_returns [OF c1] by blast
  have c2: "clock_runs w2" using talks_same [OF h(2)] c1 by simp
  obtain bs w3 where b: "get_bytes (pkt_length p1 + 2) w2 = Some (bs, w3)" "talks w2 w3"
    using get_bytes_returns [OF c2] by blast
  have t: "talks w w3" using y(2) h(2) b(2) by (auto intro: talks_trans)
  let ?p = "p1\<lparr>blkNum := hd ! 0, blkNumOnesComplement := hd ! 1, pkt_buffer := bs @ drop (length bs) (pkt_buffer p1)\<rparr>"
  let ?s = "s1\<lparr>numReceivedPackets := numReceivedPackets s1 + 1\<rparr>"
  let ?t = "?s\<lparr>lastReceivedBlkNum := blkNum ?p, expectedBlkNum := expectedBlkNum ?s + 1\<rparr>"
  have p: "same_progress s ?s" "same_progress s ?t" using e(2) by (simp_all add: same_progress_def)
  have n: "numReceivedPackets ?s = numReceivedPackets s + 1" "numReceivedPackets ?t = numReceivedPackets s + 1"
    using y(3) by (simp_all add: same_session_def)
  consider (synced) "ok" | (failed) "\<not> ok" by blast
  then show ?thesis
  proof cases
    case synced
    have "XYMODEM_ReadPacket p s w = Some (if xy_done ?s then (True, ?p, ?s, w3)
        else if eotReceived ?s then (True, ?p, ?s, w3)
        else if XYMODEM_ValidatePacket ?p ?s then (True, ?p, ?t, w3) else (False, ?p, ?s, w3))"
      using synced assms(2) e(1) by (simp add: XYMODEM_ReadPacket_def y(1) h(1) b(1) Let_def del: get_bytes.simps add_2_eq_Suc')
    moreover have "eotReceived ?s \<or> pkt_length ?p = 128 \<or> pkt_length ?p = 1024"
      "eotReceived ?t \<or> pkt_length ?p = 128 \<or> pkt_length ?p = 1024" using synced y(4) by simp_all
    ultimately show ?thesis using p n t by (auto intro!: read_post_Some)
  next
    case failed
    have "same_progress s (s1\<lparr>syncFail := True\<rparr>)" "xy_done (s1\<lparr>syncFail := True\<rparr>)"
      using e(2) by (simp_all add: same_progress_def xy_done_def)
    then show ?thesis
      using failed assms(2) e(1) y(2) by (auto simp: XYMODEM_ReadPacket_def y(1) intro!: read_post_Some)
  qed
qed

definition loads :: "u64 \<Rightarrow> u64 \<Rightarrow> 'a loader_world_scheme \<Rightarrow> 'a loader_world_scheme \<Rightarrow> bool" where
  "loads dest sz w w' \<longleftrightarrow> (\<exists>n es os m. w' = w\<lparr>time_reads := n, uart_rx := es, uart_tx := os, mem := m\<rparr>)
     \<and> (\<forall>x. unat sz \<le> unat (x - dest) \<longrightarrow> mem w' x = mem w x)"

lemma loads_trans: "loads d n w1 w2 \<Longrightarrow> loads d n w2 w3 \<Longrightarrow> loads d n w1 w3"
proof -
  assume a: "loads d n w1 w2" and b: "loads d n w2 w3"
  have "\<exists>n es os m. w3 = w1\<lparr>time_reads := n, uart_rx := es, uart_tx := os, mem := m\<rparr>"
    using a b unfolding loads_def by (elim conjE exE) (intro exI, simp)
  then show ?thesis using a b by (simp add: loads_def)
qed

lemma loads_talks: "talks w w' \<Longrightarrow> loads d n w w'"
proof -
  assume "talks w w'"
  then obtain k es os where "w' = w\<lparr>time_reads := k, uart_rx := es, uart_tx := os\<rparr>" by (auto simp: talks_def)
  then show "loads d n w w'"
    unfolding loads_def by (intro conjI exI [of _ k] exI [of _ es] exI [of _ os] exI [of _ "mem w"]) simp_all
qed

lemma put_bytes_within:
  assumes "unat t + length bs \<le> unat n" and "unat n \<le> unat (x - d)"
  shows "put_bytes (d + t) bs m x = m x"
proof -
  have "t \<le> x - d" using assms by (simp add: word_le_nat_alt)
  then have "unat (x - (d + t)) = unat (x - d) - unat t"
    by (simp add: unat_sub diff_diff_eq [symmetric])
  then have "\<not> unat (x - (d + t)) < length bs" using assms by simp
  then show ?thesis by (simp add: put_bytes_def)
qed

subsection \<open>The loop\<close>

definition left :: "nat \<Rightarrow> XYModem_State \<Rightarrow> nat" where
  "left retries s = (if xy_done s then 0
     else Suc (2 * (10 - retries) + (unat (maxSize s) - unat (totalReceivedSize s)) + of_bool (numReceivedPackets s = 0)))"

definition loop_post :: "u64 \<Rightarrow> u64 \<Rightarrow> 'a loader_world_scheme \<Rightarrow> (XYModem_State \<times> 'a loader_world_scheme) option \<Rightarrow> bool" where
  "loop_post dest sz w r \<longleftrightarrow>
     (\<exists>s' w'. r = Some (s', w') \<and> loads dest sz w w' \<and> totalReceivedSize s' \<le> sz)"

lemma loop_post_Some: "loads dest sz w w' \<Longrightarrow> totalReceivedSize s' \<le> sz \<Longrightarrow> loop_post dest sz w (Some (s', w'))"
  by (simp add: loop_post_def)

lemma loop_post_trans: "loads dest sz w w1 \<Longrightarrow> loop_post dest sz w1 r \<Longrightarrow> loop_post dest sz w r"
  by (auto simp: loop_post_def intro: loads_trans)

lemma loads_clock: "loads d n w w' \<Longrightarrow> clock_runs w' \<longleftrightarrow> clock_runs w"
  by (auto simp: loads_def clock_runs_def)

lemma receive_loop_done:
  "xy_done s \<or> retries \<ge> 10 \<Longrightarrow> receive_loop dest retries p s w = Some (s, w)"
  by (subst receive_loop.simps) simp

definition round_post :: "u64 \<Rightarrow> u64 \<Rightarrow> nat \<Rightarrow> 'a loader_world_scheme
    \<Rightarrow> (bool \<times> nat \<times> XYModem_Packet \<times> XYModem_State \<times> 'a loader_world_scheme) option \<Rightarrow> bool" where
  "round_post dest sz n w r \<longleftrightarrow> (\<exists>go_on retries p s' w'. r = Some (go_on, retries, p, s', w') \<and> loads dest sz w w'
     \<and> maxSize s' = sz \<and> totalReceivedSize s' \<le> sz \<and> (go_on \<longrightarrow> left retries s' < n))"

lemma round_post_Some:
  "loads dest sz w w' \<Longrightarrow> maxSize s' = sz \<Longrightarrow> totalReceivedSize s' \<le> sz \<Longrightarrow> (go_on \<Longrightarrow> left retries s' < n)
    \<Longrightarrow> round_post dest sz n w (Some (go_on, retries, p, s', w'))"
  by (simp add: round_post_def)

lemma receive_data_fits:
  assumes "t + of_nat len < (sz :: u64)" and "t \<le> sz" and "unat sz + 1024 < 2 ^ 64" and "len \<le> 1024"
  shows "unat (t + of_nat len) = unat t + len"
proof -
  have "unat t + len < 2 ^ 64" using assms(2,3,4) by (simp add: word_le_nat_alt)
  then show ?thesis using assms(4) by (subst unat_plus_if') (simp add: unat_of_nat)
qed

lemma loads_put:
  assumes "loads dest sz w w1" and "unat t + length bs \<le> unat sz"
  shows "loads dest sz w (w1\<lparr>mem := put_bytes (dest + t) bs (mem w1)\<rparr>)"
proof -
  obtain n es os m where "w1 = w\<lparr>time_reads := n, uart_rx := es, uart_tx := os, mem := m\<rparr>"
    using assms(1) by (auto simp: loads_def)
  then have "w1\<lparr>mem := m'\<rparr> = w\<lparr>time_reads := n, uart_rx := es, uart_tx := os, mem := m'\<rparr>" for m' by simp
  then show ?thesis
    using assms put_bytes_within [OF assms(2)] unfolding loads_def
    by (intro conjI exI) (assumption | simp)+
qed

lemma receive_round_ok:
  fixes w :: "'a loader_world_scheme"
  assumes "clock_runs w" and "maxSize s = sz" and "totalReceivedSize s \<le> sz" and "unat sz + 1024 < 2 ^ 64"
    and "\<not> xy_done s" and "retries < 10"
  shows "round_post dest sz (left retries s) w (receive_round dest retries p s w)"
proof -
  obtain ok p1 s1 w1 where rd: "XYMODEM_ReadPacket p s w = Some (ok, p1, s1, w1)" and t1: "talks w w1"
    and pr: "same_progress s s1" and okp: "ok \<and> \<not> xy_done s1 \<longrightarrow> numReceivedPackets s1 = numReceivedPackets s + 1
       \<and> (eotReceived s1 \<or> pkt_length p1 = 128 \<or> pkt_length p1 = 1024)"
    using ReadPacket_returns [OF assms(1,5), of p] unfolding read_post_def by blast
  have s1: "maxSize s1 = sz" "totalReceivedSize s1 = totalReceivedSize s" "endOfSession s1 = endOfSession s"
    using pr assms(2) by (simp_all add: same_progress_def)
  have l1: "loads dest sz w w1" using t1 by (rule loads_talks)
  have put: "loads dest sz w (putchar x w2)" "loads dest sz w (XYMODEM_SendCAN w2)" if "loads dest sz w w2" for x w2
    using that by (meson loads_talks loads_trans talks_putchar talks_SendCAN)+
  have pos: "left retries s > 0" using assms(5) by (simp add: left_def)
  have over: "left r s' < left retries s" if "xy_done s'" for r s' using pos that by (simp add: left_def)
  have purge: "\<exists>w'. XYMODEM_Purge POST_SYNC_TIMEOUT_SEC w2 = Some w' \<and> loads dest sz w w'" if "loads dest sz w w2" for w2
  proof -
    have "clock_runs w2" using assms(1) loads_clock [OF that] by simp
    then show ?thesis
      using purge_returns [of w2 10] that loads_trans [OF that loads_talks] unfolding XYMODEM_Purge_def by blast
  qed
  have retry: "left (retries + 1) s' < left retries s"
    if "maxSize s' = sz" "totalReceivedSize s' = totalReceivedSize s" for s'
    using assms(2,5,6) that by (auto simp: left_def)
  obtain w3 where w3: "XYMODEM_Purge POST_SYNC_TIMEOUT_SEC w1 = Some w3" "loads dest sz w w3" using purge [OF l1] by blast
  consider (bad) "\<not> ok" | (over) "ok" "xy_done s1" | (header) "ok" "\<not> xy_done s1" "is_header s1"
    | (eot) "ok" "\<not> xy_done s1" "\<not> is_header s1" "eotReceived s1"
    | (data) "ok" "\<not> xy_done s1" "\<not> is_header s1" "\<not> eotReceived s1" by blast
  then show ?thesis
  proof cases
    case bad
    then show ?thesis
      using assms(3) retry l1
      by (simp add: receive_round_def rd w3(1) s1 put [OF w3(2)] round_post_Some Let_def)
  next
    case over
    have "\<not> endOfSession s1" using s1(3) assms(5) by (simp add: xy_done_def)
    then show ?thesis
      using over assms(3) \<open>\<And>r s'. xy_done s' \<Longrightarrow> left r s' < left retries s\<close> put l1
      by (simp add: receive_round_def rd s1 round_post_Some Let_def)
  next
    case header
    have "numReceivedPackets s = 0" "numReceivedPackets s1 = 1" using header okp by (auto simp: is_header_def)
    then have "left retries (s1\<lparr>filename := n, expectedSize := e\<rparr>) < left retries s" for n e
      using header(2) assms(2,5) by (simp add: left_def s1 xy_done_def)
    then show ?thesis
      using header assms(3) put l1
      by (simp add: receive_round_def receive_packet_def rd s1 Let_def round_post_Some)
  next
    case eot
    then show ?thesis
      using assms(3) put l1 \<open>\<And>r s'. xy_done s' \<Longrightarrow> left r s' < left retries s\<close>
      by (simp add: receive_round_def receive_packet_def rd s1 xy_done_def round_post_Some Let_def)
  next
    case data
    show ?thesis
    proof (cases "totalReceivedSize s + of_nat (pkt_length p1) < sz")
      case fits: True
      have len: "pkt_length p1 = 128 \<or> pkt_length p1 = 1024" using data okp by blast
      have u: "unat (totalReceivedSize s + of_nat (pkt_length p1)) = unat (totalReceivedSize s) + pkt_length p1"
        using receive_data_fits [OF fits assms(3,4)] len by auto
      have lt: "unat (totalReceivedSize s) + pkt_length p1 < unat sz" using fits unfolding word_less_nat_alt u .
      let ?s = "s1\<lparr>totalReceivedSize := totalReceivedSize s + of_nat (pkt_length p1)\<rparr>"
      let ?w = "(putchar XYMODEM_ACK w1)\<lparr>mem := put_bytes (dest + totalReceivedSize s) (take (pkt_length p1) (pkt_buffer p1)) (mem (putchar XYMODEM_ACK w1))\<rparr>"
      have "left retries ?s < left retries s"
        using data(2) assms(2,5) lt len by (auto simp: left_def s1 xy_done_def u)
      moreover have "loads dest sz w ?w"
        using loads_put [OF put(1) [OF l1]] lt by simp
      moreover have "totalReceivedSize s + of_nat (pkt_length p1) \<le> sz" using fits by simp
      ultimately show ?thesis
        using data fits by (simp add: receive_round_def receive_packet_def rd s1 round_post_Some Let_def)
    next
      case False
      then show ?thesis
        using data put l1 by (simp add: receive_round_def receive_packet_def rd s1 round_post_Some Let_def)
    qed
  qed
qed

lemma receive_loop_safe:
  fixes w :: "'a loader_world_scheme"
  assumes "clock_runs w" and "maxSize s = sz" and "totalReceivedSize s \<le> sz" and "unat sz + 1024 < 2 ^ 64"
  shows "loop_post dest sz w (receive_loop dest retries p s w)"
  using assms(1,2,3)
proof (induction "left retries s" arbitrary: retries p s w rule: less_induct)
  case (less retries s p w)
  show ?case
  proof (cases "xy_done s \<or> retries \<ge> 10")
    case True
    then show ?thesis using less.prems by (simp add: receive_loop_done loop_post_Some loads_talks)
  next
    case False
    have nd: "\<not> xy_done s" "retries < 10" using False by auto
    from receive_round_ok [OF less.prems assms(4) nd, of dest p]
    obtain go :: bool and r p1 s1 and w1 :: "'a loader_world_scheme" where rd: "receive_round dest retries p s w = Some (go, r, p1, s1, w1)"
      and l: "loads dest sz w w1" and s1: "maxSize s1 = sz" "totalReceivedSize s1 \<le> sz" "go \<longrightarrow> left r s1 < left retries s"
      unfolding round_post_def by (elim exE conjE)
    have eq: "receive_loop dest retries p s w = (if go then receive_loop dest r p1 s1 w1 else Some (s1, w1))"
      using False by (subst receive_loop.simps) (simp add: rd)
    have "clock_runs w1" using less.prems(1) loads_clock [OF l] by simp
    then have "loop_post dest sz w (receive_loop dest r p1 s1 w1)" if go
      using s1 that by (intro loop_post_trans [OF l] less.hyps \<open>clock_runs w1\<close>) simp_all
    then show ?thesis using l s1(2) by (simp add: eq loop_post_Some)
  qed
qed

text \<open>C8. For a buffer of any size up to the end of the address space less one packet, and whatever arrives on the
  console, \<^verbatim>\<open>ymodem_receive\<close> returns as long as the clock runs; it reports no more bytes than the
  buffer holds, and it writes no byte outside the buffer and changes nothing else than the
  console.\<close>

theorem ymodem_receive_safe:
  fixes w :: "'a loader_world_scheme"
  assumes "clock_runs w" and "unat bufferSize + 1024 < 2 ^ 64"
  shows "\<exists>r w'. ymodem_receive buffer bufferSize w = Some (r, w') \<and> r \<le> bufferSize
    \<and> (\<exists>n es os m. w' = w\<lparr>time_reads := n, uart_rx := es, uart_tx := os, mem := m\<rparr>)
    \<and> (\<forall>x. unat bufferSize \<le> unat (x - buffer) \<longrightarrow> mem w' x = mem w x)"
proof -
  let ?s = "zero_state\<lparr>maxSize := bufferSize\<rparr>"
  have s: "zero_state\<lparr>syncFail := False, endOfSession := False, xy_abort := False, lastReceivedBlkNum := 0, expectedBlkNum := 0,
       totalReceivedSize := 0, numReceivedPackets := 0, expectedSize := 0, maxSize := bufferSize, protocol := YMODEM\<rparr> = ?s"
    by (simp add: zero_state_def)
  have l: "loads buffer bufferSize w (putchar XYMODEM_C w)" by (simp add: loads_talks)
  have "clock_runs (putchar XYMODEM_C w)" using assms(1) loads_clock [OF l] by simp
  then have "loop_post buffer bufferSize w (receive_loop buffer 0 zero_packet ?s (putchar XYMODEM_C w))"
    by (intro loop_post_trans [OF l] receive_loop_safe assms(2)) (simp_all add: zero_state_def)
  then obtain s' w1 where r: "receive_loop buffer 0 zero_packet ?s (putchar XYMODEM_C w) = Some (s', w1)"
    and l1: "loads buffer bufferSize w w1" and t: "totalReceivedSize s' \<le> bufferSize" unfolding loop_post_def by blast
  have "clock_runs w1" using assms(1) loads_clock [OF l1] by simp
  then obtain w2 where p: "XYMODEM_Purge POST_SYNC_TIMEOUT_SEC w1 = Some w2" "talks w1 w2"
    using purge_returns [of w1 10] unfolding XYMODEM_Purge_def by blast
  have "loads buffer bufferSize w w2" using l1 loads_talks [OF p(2)] by (rule loads_trans)
  moreover have "ymodem_receive buffer bufferSize w = Some (if expectedSize s' \<noteq> 0 then min (expectedSize s') (totalReceivedSize s')
      else totalReceivedSize s', w2)"
    unfolding ymodem_receive_def XYMODEM_Receive_def s
    by (simp add: XYMODEM_SendReadyChar_def zero_state_def [THEN arg_cong [of _ _ protocol]] r p(1))
  ultimately show ?thesis using t by (simp add: loads_def min.coboundedI2)
qed

text \<open>A clock that runs.\<close>

lemma clock_runs_alternating:
  assumes "mtime w = (\<lambda>k. if even k then 0 else - 1)"
  shows "clock_runs w"
  unfolding clock_runs_def
proof (intro allI ballI)
  fix k :: nat and d :: u64 assume "d \<in> {1000000, 10000000}"
  then have "mtime w k + d < mtime w (2 * k + 1)" by (auto simp: assms)
  then show "\<exists>n>k. mtime w n > mtime w k + d" by (intro exI [of _ "2 * k + 1"]) simp
qed

theorem ymodem_receive_safe_witness:
  "\<forall>w :: loader_world. \<exists>r w'. ymodem_receive 0x80000000 0x1000 (w\<lparr>mtime := \<lambda>k. if even k then 0 else - 1\<rparr>) = Some (r, w')
     \<and> r \<le> 0x1000"
proof
  fix w :: loader_world
  let ?w = "w\<lparr>mtime := \<lambda>k. if even k then 0 else - 1\<rparr>"
  have "clock_runs ?w" by (rule clock_runs_alternating) simp
  from ymodem_receive_safe [where buffer = "0x80000000" and bufferSize = "0x1000", OF this]
  show "\<exists>r w'. ymodem_receive 0x80000000 0x1000 ?w = Some (r, w') \<and> r \<le> 0x1000" by auto
qed

subsection \<open>The sender\<close>

text \<open>
  The stream of a YMODEM sender: a packet with a block of 128 or 1024 bytes, the header block
  with the name and the length of the file, the data blocks and the end mark.
\<close>

definition crc_bytes :: "u8 list \<Rightarrow> u8 list" where
  "crc_bytes bs = [ucast (drop_bit 8 (CRC16_calculate bs)), ucast (CRC16_calculate bs)]"

definition ymodem_packet :: "nat \<Rightarrow> u8 list \<Rightarrow> u8 list" where
  "ymodem_packet i bs = (if length bs = 128 then XYMODEM_SOH else XYMODEM_STX) # of_nat i # (of_nat i XOR 0xFF) # bs @ crc_bytes bs"

fun decimal :: "nat \<Rightarrow> u8 list" where
  "decimal n = (if n < 10 then [48 + of_nat n] else decimal (n div 10) @ [48 + of_nat (n mod 10)])"

declare decimal.simps [simp del]

definition header_block :: "u8 list \<Rightarrow> nat \<Rightarrow> u8 list" where
  "header_block name n = (let h = name @ 0 # decimal n in h @ replicate (128 - length h) 0)"

fun data_packets :: "nat \<Rightarrow> u8 list list \<Rightarrow> u8 list" where
  "data_packets i [] = []"
| "data_packets i (b # bs) = ymodem_packet i b @ data_packets (i + 1) bs"

definition ymodem_stream :: "u8 list \<Rightarrow> nat \<Rightarrow> u8 list list \<Rightarrow> u8 list" where
  "ymodem_stream name n bs = ymodem_packet 0 (header_block name n) @ data_packets 1 bs @ [XYMODEM_EOT]"

text \<open>The checksum of a block followed by its checksum is zero.\<close>

lemma CRC16_residue: "CRC16_calculate (bs @ crc_bytes bs) = 0"
proof -
  let ?c = "crc16_loop 0 bs"
  have l: "?c XOR push_bit 8 (ucast (ucast (drop_bit 8 ?c) :: u8)) = ?c AND mask 8" (is "?x = ?y")
    by (rule bit_word_eqI)
      (auto simp: bit_xor_iff bit_push_bit_iff bit_ucast_iff bit_drop_bit_eq bit_and_iff bit_mask_iff)
  have b: "crc16_byte (?c AND mask 8) = push_bit 8 (?c AND mask 8)"
    by (rule crc16_byte_low) (rule bit_word_eqI, auto simp: bit_and_iff bit_drop_bit_eq bit_mask_iff)
  have z: "push_bit 8 (?c AND mask 8) XOR push_bit 8 (ucast (ucast ?c :: u8)) = 0"
    by (rule bit_word_eqI) (auto simp: bit_xor_iff bit_push_bit_iff bit_ucast_iff bit_and_iff bit_mask_iff)
  show ?thesis
    by (simp add: CRC16_calculate_def crc16_loop_append crc_bytes_def crc16_updateByte_def l b z crc16_byte_0 del: push_bit_and)
qed

text \<open>The number in the header.\<close>

lemma file_size_name: "0 \<notin> set name \<Longrightarrow> file_size True n (name @ 0 # r) = file_size False n r"
  by (induction name arbitrary: n) auto

lemma file_size_digits:
  "\<forall>d \<in> set ds. 48 \<le> d \<and> d \<le> 57 \<Longrightarrow>
     file_size False n (ds @ r) = file_size False (foldl (\<lambda>a d. a * 10 + ucast (d - 48)) n ds) r"
  by (induction ds arbitrary: n) auto

lemma digit:
  assumes "k < 10"
  shows "48 \<le> (48 + of_nat k :: u8) \<and> (48 + of_nat k :: u8) \<le> 57" and "ucast (of_nat k :: u8) = (of_nat k :: u64)"
proof -
  from assms have "k \<in> {0, 1, 2, 3, 4, 5, 6, 7, 8, 9}" by auto
  then show "48 \<le> (48 + of_nat k :: u8) \<and> (48 + of_nat k :: u8) \<le> 57" and "ucast (of_nat k :: u8) = (of_nat k :: u64)"
    by (elim insertE; simp)+
qed

lemma decimal_digits: "\<forall>d \<in> set (decimal n). 48 \<le> d \<and> d \<le> 57"
proof (induction n rule: decimal.induct)
  case (1 n)
  then show ?case using digit(1) [of n] digit(1) [of "n mod 10"] by (subst decimal.simps) simp
qed

lemma decimal_value: "foldl (\<lambda>a d. a * 10 + ucast (d - 48)) 0 (decimal n) = (of_nat n :: u64)"
proof (induction n rule: decimal.induct)
  case (1 n)
  have e: "of_nat (n div 10) * 10 + of_nat (n mod 10) = (of_nat n :: u64)"
    by (metis div_mult_mod_eq of_nat_add of_nat_mult of_nat_numeral)
  have s: "(48 + x :: u8) - 48 = x" for x by simp
  show ?case
  proof (cases "n < 10")
    case True
    then show ?thesis by (subst decimal.simps) (simp add: s digit(2))
  next
    case False
    then show ?thesis using 1 [OF False] e digit(2) [of "n mod 10"] by (subst decimal.simps) (simp add: s del: decimal.simps)
  qed
qed

lemma GetFileSize_header:
  assumes "0 \<notin> set name" and "length name + 1 + length (decimal n) < 128"
  shows "XYMODEM_GetFileSize (header_block name n @ r) = of_nat n"
proof -
  have "file_size False x (replicate (Suc k) 0 @ r) = x" for x k by simp
  moreover obtain k where "128 - (length name + 1 + length (decimal n)) = Suc k"
    using assms(2) by (metis Suc_diff_Suc)
  ultimately show ?thesis
    using assms(1) decimal_digits [of n]
    by (simp add: XYMODEM_GetFileSize_def header_block_def Let_def file_size_name file_size_digits decimal_value
        del: decimal.simps replicate.simps)
qed

lemma header_block_length: "length name + 1 + length (decimal n) < 128 \<Longrightarrow> length (header_block name n) = 128"
  by (simp add: header_block_def Let_def del: decimal.simps)

subsection \<open>A run over a good stream\<close>

text \<open>Reading the next characters, and reading when nothing comes any more.\<close>

definition adv :: "nat \<Rightarrow> uart_event list \<Rightarrow> 'a loader_world_scheme \<Rightarrow> 'a loader_world_scheme" where
  "adv n es w = w\<lparr>time_reads := time_reads w + n, uart_rx := es\<rparr>"

lemma adv_adv [simp]: "adv n es (adv k es' w) = adv (k + n) es w"
  by (simp add: adv_def add.assoc)

lemma adv_rx [simp]: "uart_rx (adv n es w) = es"
  by (simp add: adv_def)

lemma getchar_next:
  "uart_rx w = Rx c # es \<Longrightarrow> getchar_with_timeout t w = Some (Some c, adv 1 es w)"
  by (simp add: getchar_with_timeout_def uart_getchar_def HSS_GetTime_def uart_poll_def adv_def
      getchar_loop.simps [of t False])

lemma get_bytes_next:
  "uart_rx w = map Rx bs @ es \<Longrightarrow> get_bytes (length bs) w = Some (bs, adv (length bs) es w)"
proof (induction bs arbitrary: w)
  case Nil
  then show ?case by (simp add: adv_def)
next
  case (Cons b bs)
  then show ?case using Cons.IH [of "adv 1 (map Rx bs @ es) w"]
    by (simp add: getchar_next [of w b] byte_of_def)
qed

lemma getchar_loop_silent:
  assumes "t > 0" and "read_at w n > st + of_int t * TICKS_PER_SEC" and "uart_rx w = []"
  shows "\<exists>k. getchar_loop t False st l w = Some (None, skip_reads k w)"
  using assms(2,3)
proof (induction n arbitrary: w)
  case (0 w)
  then have "getchar_loop t False st l w = Some (None, skip_reads 1 w)"
    using assms(1) by (subst getchar_loop.simps) (simp add: uart_poll_def Timer_eq)
  then show ?case by blast
next
  case (Suc n w)
  have "read_at (skip_reads 1 w) n > st + of_int t * TICKS_PER_SEC" using Suc.prems(1) by simp
  moreover have "uart_rx (skip_reads 1 w) = []" using Suc.prems(2) by (simp add: skip_reads_def)
  ultimately obtain k where "getchar_loop t False st l (skip_reads 1 w) = Some (None, skip_reads k (skip_reads 1 w))"
    using Suc.IH by blast
  then have "getchar_loop t False st l w = Some (None, skip_reads (if read_at w 0 > st + of_int t * TICKS_PER_SEC then 1 else 1 + k) w)"
    using assms(1) Suc.prems(2) by (subst getchar_loop.simps) (simp add: uart_poll_def Timer_eq)
  then show ?case by blast
qed

lemma getchar_silent:
  assumes "clock_runs w" and "t = 1 \<or> t = 10" and "uart_rx w = []"
  obtains k where "getchar_with_timeout t w = Some (None, skip_reads k w)"
proof -
  obtain k where "mtime w (Suc (time_reads w + k)) > mtime w (time_reads w) + of_int t * TICKS_PER_SEC"
    using clock_runs_next [OF assms(1,2)] by blast
  then have "read_at (skip_reads 1 w) k > read_at w 0 + of_int t * TICKS_PER_SEC"
    by (simp add: read_at_def skip_reads_def)
  moreover have "uart_rx (skip_reads 1 w) = []" using assms(3) by (simp add: skip_reads_def)
  ultimately obtain j where "getchar_loop t False (read_at w 0) (read_at w 0) (skip_reads 1 w) = Some (None, skip_reads j (skip_reads 1 w))"
    using getchar_loop_silent [where t = t and w = "skip_reads 1 w" and st = "read_at w 0" and n = k and l = "read_at w 0"] assms(2)
    by auto
  then show thesis by (intro that [of "1 + j"]) (simp add: getchar_with_timeout_def uart_getchar_def GetTime_eq)
qed

lemma skip_reads_rx [simp]: "uart_rx (skip_reads n w) = uart_rx w" "clock_runs (skip_reads n w) = clock_runs w"
  by (simp_all add: skip_reads_def clock_runs_def)

lemma get_bytes_silent:
  "clock_runs w \<Longrightarrow> uart_rx w = [] \<Longrightarrow> \<exists>k. get_bytes n w = Some (replicate n 0xFF, skip_reads k w)"
proof (induction n arbitrary: w)
  case 0
  show ?case by (rule exI [of _ 0]) (simp add: skip_reads_def)
next
  case (Suc n w)
  obtain k where "getchar_with_timeout 1 w = Some (None, skip_reads k w)"
    using getchar_silent [OF Suc.prems(1) _ Suc.prems(2), of 1] by blast
  moreover obtain j where "get_bytes n (skip_reads k w) = Some (replicate n 0xFF, skip_reads j (skip_reads k w))"
    using Suc.IH [of "skip_reads k w"] Suc.prems by auto
  ultimately show ?case by (intro exI [of _ "k + j"]) (simp add: byte_of_def)
qed

lemma purge_silent:
  assumes "clock_runs w" and "uart_rx w = []"
  shows "\<exists>k. XYMODEM_Purge POST_SYNC_TIMEOUT_SEC w = Some (skip_reads k w)"
proof -
  obtain k where "getchar_with_timeout 1 w = Some (None, skip_reads k w)"
    using getchar_silent [OF assms(1) _ assms(2), of 1] by blast
  then show ?thesis by (intro exI [of _ k]) (simp add: XYMODEM_Purge_def numeral_eq_Suc)
qed

text \<open>A good packet is taken in, whatever its place in the sequence.\<close>

definition taken :: "nat \<Rightarrow> XYModem_State \<Rightarrow> XYModem_State" where
  "taken i s = s\<lparr>numReceivedPackets := numReceivedPackets s + 1, lastReceivedBlkNum := of_nat i,
     expectedBlkNum := expectedBlkNum s + 1\<rparr>"

lemma sync_next:
  assumes "uart_rx w = Rx (if length b = 128 then XYMODEM_SOH else XYMODEM_STX) # es" and "length b = 128 \<or> length b = 1024"
  shows "\<exists>p1. sync_loop (Suc n) 0 p s w = Some (True, p1, s, adv 1 es w)
    \<and> pkt_length p1 = length b \<and> pkt_buffer p1 = pkt_buffer p"
  using assms(2) by (auto simp: getchar_next [OF assms(1)])

lemma ReadPacket_good:
  assumes "\<not> xy_done s" and "\<not> eotReceived s" and "length b = 128 \<or> length b = 1024" and "expectedBlkNum s = of_nat i"
    and "uart_rx w = map Rx (ymodem_packet i b) @ es"
  shows "\<exists>p1 r. XYMODEM_ReadPacket p s w = Some (True, p1, taken i s, adv (length b + 5) es w)
    \<and> pkt_length p1 = length b \<and> pkt_buffer p1 = b @ r"
proof -
  let ?e2 = "map Rx (b @ crc_bytes b) @ es" and ?h = "[of_nat i, of_nat i XOR 0xFF]"
  obtain w1 w2 where w1: "w1 = adv 1 (map Rx ?h @ ?e2) w" and w2: "w2 = adv 3 ?e2 w" by blast
  have "uart_rx w = Rx (if length b = 128 then XYMODEM_SOH else XYMODEM_STX) # map Rx ?h @ ?e2"
    using assms(5) by (simp add: ymodem_packet_def)
  from sync_next [OF this assms(3), of 19 p s] obtain p1
    where y: "sync_loop MAX_SYNC_ATTEMPTS 0 p s w = Some (True, p1, s, w1)" "pkt_length p1 = length b"
    unfolding w1 by auto
  have h: "get_bytes 2 w1 = Some (?h, w2)"
    using get_bytes_next [of w1 ?h ?e2] unfolding w1 w2 by (simp del: get_bytes.simps add: numeral_eq_Suc)
  obtain c where c: "c = b @ crc_bytes b" by blast
  have l: "length c = pkt_length p1 + 2" "CRC16_calculate (take (length c) (c @ r)) = 0" for r
    using CRC16_residue [of b] by (simp_all add: c crc_bytes_def y(2))
  have g: "get_bytes (pkt_length p1 + 2) w2 = Some (c, adv (length b + 5) es w)"
    using get_bytes_next [of w2 c es] c unfolding l(1) w2
    by (simp add: y(2) add.commute [of 5] del: get_bytes.simps add_2_eq_Suc')
  let ?p = "p1\<lparr>blkNum := of_nat i, blkNumOnesComplement := of_nat i XOR 0xFF, pkt_buffer := c @ drop (length c) (pkt_buffer p1)\<rparr>"
  have "CRC16_calculate (take (pkt_length p1 + 2) (pkt_buffer ?p)) = 0" using l(2) unfolding l(1) [symmetric] by simp
  then have v: "XYMODEM_ValidatePacket ?p (s\<lparr>numReceivedPackets := numReceivedPackets s + 1\<rparr>)"
    using assms(4) by (simp add: XYMODEM_ValidatePacket_def xor.assoc)
  have "XYMODEM_ReadPacket p s w = Some (True, ?p, taken i s, adv (length b + 5) es w)"
    using assms(1,2) v
    by (simp add: XYMODEM_ReadPacket_def y(1) h g Let_def taken_def xy_done_def del: get_bytes.simps add_2_eq_Suc')
  moreover have "pkt_buffer ?p = b @ (crc_bytes b @ drop (length c) (pkt_buffer p1))" by (simp add: c)
  ultimately show ?thesis using y(2) by (intro exI conjI) (assumption | simp)+
qed

definition ready :: "nat \<Rightarrow> nat \<Rightarrow> nat \<Rightarrow> u64 \<Rightarrow> XYModem_State \<Rightarrow> bool" where
  "ready i t n sz s \<longleftrightarrow> \<not> xy_done s \<and> \<not> eotReceived s \<and> protocol s = YMODEM \<and> expectedBlkNum s = of_nat i
     \<and> numReceivedPackets s = of_nat i \<and> totalReceivedSize s = of_nat t \<and> expectedSize s = of_nat n \<and> maxSize s = sz"

text \<open>The world after some rounds: the console has moved on and some data was stored.\<close>

definition moved :: "nat \<Rightarrow> uart_event list \<Rightarrow> u8 list \<Rightarrow> memory \<Rightarrow> 'a loader_world_scheme \<Rightarrow> 'a loader_world_scheme" where
  "moved k es os m w = w\<lparr>time_reads := k, uart_rx := es, uart_tx := uart_tx w @ os, mem := m\<rparr>"

lemma moved_moved [simp]: "moved k es os m (moved k' es' os' m' w) = moved k es (os' @ os) m w"
  by (simp add: moved_def)

lemma moved_sel [simp]:
  "uart_rx (moved k es os m w) = es" "mem (moved k es os m w) = m" "clock_runs (moved k es os m w) = clock_runs w"
  by (simp_all add: moved_def clock_runs_def)

lemma moved_intros:
  "putchar c w = moved (time_reads w) (uart_rx w) [c] (mem w) w"
  "adv n es w = moved (time_reads w + n) es [] (mem w) w"
  "skip_reads n w = moved (time_reads w + n) (uart_rx w) [] (mem w) w"
  "w\<lparr>mem := m\<rparr> = moved (time_reads w) (uart_rx w) [] m w"
  by (simp_all add: moved_def putchar_def adv_def skip_reads_def)

lemma unat_of_nat_le: "n \<le> unat (sz :: u64) \<Longrightarrow> unat (of_nat n :: u64) = n"
  using unat_lt64 [of sz] by (intro unat_of_nat_small) linarith

lemma put_bytes_append:
  assumes "length x + length y < 2 ^ 64"
  shows "put_bytes (a + of_nat (length x)) y (put_bytes a x m) = put_bytes a (x @ y) m"
proof
  fix z
  let ?d = "unat (z - a)"
  have l: "unat (of_nat (length x) :: u64) = length x" using assms by (simp add: unat_of_nat)
  have e: "z - (a + of_nat (length x)) = (z - a) - of_nat (length x)" by simp
  show "put_bytes (a + of_nat (length x)) y (put_bytes a x m) z = put_bytes a (x @ y) m z"
  proof (cases "length x \<le> ?d")
    case True
    then have "unat ((z - a) - of_nat (length x)) = ?d - length x" by (simp add: unat_sub word_le_nat_alt l)
    then show ?thesis using True by (auto simp: put_bytes_def e nth_append simp del: diff_diff_add)
  next
    case False
    have "unat ((z - a) - of_nat (length x)) = ?d + 2 ^ 64 - length x"
      using False by (subst unat_sub_if') (simp add: l)
    then have "\<not> unat ((z - a) - of_nat (length x)) < length y" using assms False by linarith
    then show ?thesis using False by (simp add: put_bytes_def e nth_append del: diff_diff_add)
  qed
qed

lemma header_round:
  assumes "0 \<notin> set name" and "length name + 1 + length (decimal n) < 128" and "n \<le> unat sz"
    and "uart_rx w = map Rx (ymodem_packet 0 (header_block name n)) @ es"
  shows "\<exists>p1 s1 k. receive_round dest 0 zero_packet (zero_state\<lparr>maxSize := sz\<rparr>) w
      = Some (True, 0, p1, s1, moved k es [XYMODEM_ACK] (mem w) w) \<and> ready 1 0 n sz s1"
proof -
  let ?s = "zero_state\<lparr>maxSize := sz\<rparr>" and ?b = "header_block name n"
  have b: "length ?b = 128" by (rule header_block_length) fact
  have "\<not> xy_done ?s" "\<not> eotReceived ?s" "expectedBlkNum ?s = of_nat 0" by (simp_all add: zero_state_def xy_done_def)
  from ReadPacket_good [OF this(1,2) _ this(3) assms(4), of zero_packet] b
  obtain p1 r where rd: "XYMODEM_ReadPacket zero_packet ?s w = Some (True, p1, taken 0 ?s, adv (length ?b + 5) es w)"
    and p1: "pkt_buffer p1 = ?b @ r" by auto
  have "unat (of_nat n :: u64) = n" using assms(3) by (rule unat_of_nat_le)
  then have sz: "\<not> sz < of_nat n" using assms(3) by (simp add: not_less word_le_nat_alt)
  obtain s where s: "s = taken 0 ?s" by blast
  have h: "is_header s" "\<not> xy_done s" "maxSize s = sz"
    by (simp_all add: s is_header_def taken_def zero_state_def xy_done_def)
  let ?f = "s\<lparr>filename := take (MAX_FILENAME_LENGTH - 1) (?b @ r) @ drop (MAX_FILENAME_LENGTH - 1) (filename s), expectedSize := of_nat n\<rparr>"
  have "receive_round dest 0 zero_packet ?s w
      = Some (True, 0, p1, ?f, putchar XYMODEM_ACK (adv (length ?b + 5) es w))"
    using sz h by (simp add: receive_round_def rd s [symmetric] receive_packet_def p1 GetFileSize_header [OF assms(1,2)] Let_def)
  moreover have "ready 1 0 n sz ?f" by (simp add: s ready_def taken_def zero_state_def xy_done_def)
  ultimately show ?thesis by (auto simp: moved_intros)
qed

lemma data_round:
  assumes "ready i t n sz s" and "0 < i" and "i < 2 ^ 63" and "length b = 128 \<or> length b = 1024" and "t + length b < unat sz"
    and "uart_rx w = map Rx (ymodem_packet i b) @ es"
  shows "\<exists>p1 s1 k. receive_round dest r p s w
      = Some (True, r, p1, s1, moved k es [XYMODEM_ACK] (put_bytes (dest + of_nat t) b (mem w)) w)
      \<and> ready (i + 1) (t + length b) n sz s1"
proof -
  have s: "\<not> xy_done s" "\<not> eotReceived s" "expectedBlkNum s = of_nat i" using assms(1) by (simp_all add: ready_def)
  obtain p1 q where rd: "XYMODEM_ReadPacket p s w = Some (True, p1, taken i s, adv (length b + 5) es w)"
    and p1: "pkt_length p1 = length b" "pkt_buffer p1 = b @ q"
    using ReadPacket_good [OF s(1,2) assms(4) s(3) assms(6), of p] by blast
  have "unat (of_nat (t + length b) :: u64) = t + length b"
    using assms(5) by (intro unat_of_nat_le [of _ sz]) simp
  then have sz: "of_nat t + of_nat (length b) < sz" using assms(5) by (simp add: word_less_nat_alt)
  have "(of_nat i :: u64) \<noteq> 0" using assms(2,3) by (simp add: word_of_nat_eq_0_iff dvd_eq_mod_eq_0)
  then have h: "\<not> is_header (taken i s)" using assms(1) by (simp add: is_header_def taken_def ready_def)
  have d: "\<not> xy_done (taken i s)" "\<not> eotReceived (taken i s)" "totalReceivedSize (taken i s) = of_nat t" "maxSize (taken i s) = sz"
    using assms(1) by (simp_all add: taken_def ready_def xy_done_def)
  have "ready (i + 1) (t + length b) n sz ((taken i s)\<lparr>totalReceivedSize := of_nat t + of_nat (length b)\<rparr>)"
    using assms(1) by (simp add: ready_def taken_def xy_done_def)
  then show ?thesis
    using sz by (auto simp: receive_round_def rd receive_packet_def h d p1 Let_def moved_intros)
qed

lemma eot_round:
  assumes "ready i t n sz s" and "0 < i" and "i < 2 ^ 63" and "clock_runs w" and "uart_rx w = [Rx XYMODEM_EOT]"
  shows "\<exists>p1 s1 k. receive_round dest r p s w = Some (True, r, p1, s1, moved k [] [XYMODEM_ACK, XYMODEM_ACK] (mem w) w)
      \<and> xy_done s1 \<and> totalReceivedSize s1 = of_nat t \<and> expectedSize s1 = of_nat n"
proof -
  have s: "\<not> xy_done s" "\<not> endOfSession s" using assms(1) by (simp_all add: ready_def xy_done_def)
  have "\<exists>p1. sync_loop (Suc j) 0 p s w = Some (True, p1, s\<lparr>eotReceived := True\<rparr>, adv 1 [] w) \<and> pkt_length p1 = 0" for j
    by (simp add: getchar_next [OF assms(5)])
  from this [of 19] obtain p1
    where y: "sync_loop MAX_SYNC_ATTEMPTS 0 p s w = Some (True, p1, s\<lparr>eotReceived := True\<rparr>, adv 1 [] w)" "pkt_length p1 = 0" by auto
  obtain w1 where w1: "w1 = adv 1 [] w" by blast
  have c1: "clock_runs w1" "uart_rx w1 = []" using assms(4) by (simp_all add: w1 adv_def clock_runs_def)
  obtain k2 where g2: "get_bytes 2 w1 = Some (replicate 2 0xFF, skip_reads k2 w1)" using get_bytes_silent [OF c1] by blast
  have "clock_runs (skip_reads k2 w1)" "uart_rx (skip_reads k2 w1) = []" using c1 by simp_all
  from get_bytes_silent [OF this, of "0 + 2"]
  obtain k3 where g3: "get_bytes (0 + 2) (skip_reads k2 w1) = Some (replicate (0 + 2) 0xFF, skip_reads k3 (skip_reads k2 w1))"
    by blast
  obtain w2 where w2: "w2 = skip_reads k2 w1" by blast
  have "(of_nat i :: u64) \<noteq> 0" using assms(2,3) by (simp add: word_of_nat_eq_0_iff dvd_eq_mod_eq_0)
  then have h: "\<not> is_header (s\<lparr>eotReceived := True, numReceivedPackets := numReceivedPackets s + 1\<rparr>)"
    using assms(1) by (simp add: is_header_def ready_def)
  obtain p2 where rd: "XYMODEM_ReadPacket p s w
      = Some (True, p2, s\<lparr>eotReceived := True, numReceivedPackets := numReceivedPackets s + 1\<rparr>, skip_reads k3 (skip_reads k2 w1))"
    using s y g2 g3 unfolding w1 [symmetric] w2 [symmetric]
    by (simp add: XYMODEM_ReadPacket_def xy_done_def Let_def del: get_bytes.simps add_2_eq_Suc' sync_loop.simps)
  show ?thesis
    using assms(1) h s by (auto simp: receive_round_def rd receive_packet_def Let_def moved_intros w1 xy_done_def ready_def)
qed

lemma put_bytes_Nil [simp]: "put_bytes a [] m = m"
  by (simp add: put_bytes_def fun_eq_iff)

lemma moved_none [simp]: "moved (time_reads w) (uart_rx w) [] (mem w) w = w"
  by (simp add: moved_def)

lemma receive_loop_round:
  assumes "receive_round dest r p s w = Some (True, r1, p1, s1, w1)" and "\<not> xy_done s" and "r < 10"
  shows "receive_loop dest r p s w = receive_loop dest r1 p1 s1 w1"
  using assms by (subst receive_loop.simps) simp

lemma data_loop:
  assumes "r < 10"
  shows "ready i t n sz s \<Longrightarrow> 0 < i \<Longrightarrow> i + length bs < 2 ^ 63 \<Longrightarrow> \<forall>b \<in> set bs. length b = 128 \<or> length b = 1024
    \<Longrightarrow> t + length (concat bs) < unat sz \<Longrightarrow> uart_rx w = map Rx (data_packets i bs) @ es
    \<Longrightarrow> \<exists>p1 s1 k. receive_loop dest r p s w = receive_loop dest r p1 s1
          (moved k es (replicate (length bs) XYMODEM_ACK) (put_bytes (dest + of_nat t) (concat bs) (mem w)) w)
        \<and> ready (i + length bs) (t + length (concat bs)) n sz s1"
proof (induction bs arbitrary: i t s p w)
  case Nil
  have "moved (time_reads w) es [] (mem w) w = w" using Nil.prems(6) moved_none [of w] by simp
  then show ?case using Nil.prems(1) by (intro exI [of _ p] exI [of _ s] exI [of _ "time_reads w"]) simp
next
  case (Cons b bs)
  let ?es = "map Rx (data_packets (i + 1) bs) @ es"
  have pre: "i < 2 ^ 63" "length b = 128 \<or> length b = 1024" "t + length b < unat sz" "uart_rx w = map Rx (ymodem_packet i b) @ ?es"
    using Cons.prems(3-6) by auto
  from data_round [OF Cons.prems(1,2) pre, of dest r p]
  obtain p1 s1 k where rr: "receive_round dest r p s w
      = Some (True, r, p1, s1, moved k ?es [XYMODEM_ACK] (put_bytes (dest + of_nat t) b (mem w)) w)"
    and s1: "ready (i + 1) (t + length b) n sz s1" by blast
  have nd: "\<not> xy_done s" using Cons.prems(1) by (simp add: ready_def)
  let ?w1 = "moved k ?es [XYMODEM_ACK] (put_bytes (dest + of_nat t) b (mem w)) w"
  have pre2: "0 < i + 1" "i + 1 + length bs < 2 ^ 63" "\<forall>b \<in> set bs. length b = 128 \<or> length b = 1024"
    "t + length b + length (concat bs) < unat sz" "uart_rx ?w1 = map Rx (data_packets (i + 1) bs) @ es"
    using Cons.prems(3-6) by simp_all
  from Cons.IH [OF s1 pre2, of p1]
  obtain p2 s2 k2 where l: "receive_loop dest r p1 s1 ?w1 = receive_loop dest r p2 s2
       (moved k2 es (replicate (length bs) XYMODEM_ACK) (put_bytes (dest + of_nat (t + length b)) (concat bs) (mem ?w1)) ?w1)"
    and s2: "ready (i + 1 + length bs) (t + length b + length (concat bs)) n sz s2" by blast
  have "length b + length (concat bs) < 2 ^ 64" using pre2(4) unat_lt64 [of sz] by linarith
  from put_bytes_append [OF this, of "dest + of_nat t" "mem w"]
  have m: "put_bytes (dest + of_nat (t + length b)) (concat bs) (mem ?w1) = put_bytes (dest + of_nat t) (concat (b # bs)) (mem w)"
    by (simp add: add.assoc)
  show ?case
    using receive_loop_round [OF rr nd assms] l s2 unfolding m
    by (intro exI [of _ p2] exI [of _ s2] exI [of _ k2]) (simp add: add.assoc)
qed

lemma blocks_length: "\<forall>b \<in> set bs. length b = 128 \<or> length b = 1024 \<Longrightarrow> 128 * length bs \<le> length (concat bs)"
  by (induction bs) auto

lemma put_bytes_get:
  assumes "j < length bs" and "length bs < 2 ^ 64"
  shows "put_bytes a bs m (a + of_nat j) = bs ! j"
  using assms by (simp add: put_bytes_def unat_of_nat_small)

text \<open>C5. A file sent by YMODEM, under a name that fits the header block and in any mix of short and long
  blocks, arrives: if it is not empty and the padded file is shorter than the buffer, then
  \<^verbatim>\<open>ymodem_receive\<close> returns the length of the file, the file is at the start of the buffer,
  every packet was acknowledged once and the end mark twice, and nothing else has changed but
  the padding behind the file and the clock.\<close>

theorem ymodem_roundtrip:
  fixes w :: "'a loader_world_scheme"
  assumes "clock_runs w" and "uart_rx w = map Rx (ymodem_stream name (length file) bs)"
    and "0 \<notin> set name" and "length name + 1 + length (decimal (length file)) < 128"
    and "\<forall>b \<in> set bs. length b = 128 \<or> length b = 1024" and "take (length file) (concat bs) = file" and "file \<noteq> []"
    and "length (concat bs) < unat bufferSize"
  shows "\<exists>k w'. ymodem_receive buffer bufferSize w = Some (of_nat (length file), w')
    \<and> (\<forall>j < length file. mem w' (buffer + of_nat j) = file ! j)
    \<and> w' = w\<lparr>time_reads := k, uart_rx := [], uart_tx := uart_tx w @ XYMODEM_C # replicate (length bs + 3) XYMODEM_ACK,
             mem := put_bytes buffer (concat bs) (mem w)\<rparr>"
proof -
  let ?n = "length file" and ?sz = "bufferSize" and ?b = "header_block name (length file)"
  let ?es1 = "map Rx (data_packets 1 bs) @ [Rx XYMODEM_EOT]"
  let ?w0 = "moved (time_reads w) (uart_rx w) [XYMODEM_C] (mem w) w"
  let ?s = "zero_state\<lparr>maxSize := bufferSize\<rparr>"
  have n: "?n \<le> length (concat bs)" using assms(6) by (metis length_take min.cobounded1)
  have bf: "length (concat bs) < 2 ^ 64" using assms(8) unat_lt64 [of bufferSize] by linarith
  have "?n \<le> unat ?sz" and u0: "uart_rx ?w0 = map Rx (ymodem_packet 0 ?b) @ ?es1"
    using n assms(2,8) by (simp_all add: ymodem_stream_def)
  from header_round [OF assms(3,4) this, of buffer]
  obtain p1 s1 k1 where r1: "receive_round buffer 0 zero_packet ?s ?w0 = Some (True, 0, p1, s1, moved k1 ?es1 [XYMODEM_ACK] (mem w) ?w0)"
    and s1: "ready 1 0 ?n ?sz s1" by auto
  let ?w1 = "moved k1 ?es1 [XYMODEM_ACK] (mem w) ?w0"
  have bl: "1 + length bs < 2 ^ 63" using blocks_length [OF assms(5)] bf by simp
  have "0 + length (concat bs) < unat ?sz" "uart_rx ?w1 = map Rx (data_packets 1 bs) @ [Rx XYMODEM_EOT]" using assms(8) by simp_all
  from data_loop [OF _ s1 _ bl assms(5) this, of 0 buffer p1]
  obtain p2 s2 k2 where l2: "receive_loop buffer 0 p1 s1 ?w1 = receive_loop buffer 0 p2 s2
       (moved k2 [Rx XYMODEM_EOT] (replicate (length bs) XYMODEM_ACK) (put_bytes buffer (concat bs) (mem w)) ?w1)"
    and s2: "ready (1 + length bs) (length (concat bs)) ?n ?sz s2" by auto
  let ?w2 = "moved k2 [Rx XYMODEM_EOT] (replicate (length bs) XYMODEM_ACK) (put_bytes buffer (concat bs) (mem w)) ?w1"
  have "clock_runs ?w2" "uart_rx ?w2 = [Rx XYMODEM_EOT]" using assms(1) by simp_all
  from eot_round [OF s2 _ bl this, of buffer 0 p2]
  obtain p3 s3 k3 where r3: "receive_round buffer 0 p2 s2 ?w2 = Some (True, 0, p3, s3, moved k3 [] [XYMODEM_ACK, XYMODEM_ACK] (mem ?w2) ?w2)"
    and s3: "xy_done s3" "totalReceivedSize s3 = of_nat (length (concat bs))" "expectedSize s3 = of_nat ?n" by auto
  let ?w3 = "moved k3 [] [XYMODEM_ACK, XYMODEM_ACK] (mem ?w2) ?w2"
  obtain w3 where w3: "w3 = ?w3" by blast
  have "\<not> xy_done ?s" "\<not> xy_done s2" using s2 by (simp_all add: zero_state_def xy_done_def ready_def)
  then have loop: "receive_loop buffer 0 zero_packet ?s ?w0 = Some (s3, w3)"
    unfolding w3 using receive_loop_round [OF r1] receive_loop_round [OF r3] l2 by (simp add: receive_loop_done s3(1))
  obtain k4 where pg: "XYMODEM_Purge POST_SYNC_TIMEOUT_SEC w3 = Some (skip_reads k4 w3)"
    using purge_silent [of w3] assms(1) by (auto simp: w3)
  have un: "unat (of_nat ?n :: u64) = ?n" "unat (of_nat (length (concat bs)) :: u64) = length (concat bs)"
    using n bf by (simp_all add: unat_of_nat_small)
  have nz: "(of_nat ?n :: u64) \<noteq> 0" using un(1) assms(7) by (metis length_0_conv unat_0)
  have "(of_nat ?n :: u64) \<le> of_nat (length (concat bs))" unfolding word_le_nat_alt un by (rule n)
  then have res: "min (of_nat ?n) (of_nat (length (concat bs))) = (of_nat ?n :: u64)" by simp
  have s: "zero_state\<lparr>syncFail := False, endOfSession := False, xy_abort := False, lastReceivedBlkNum := 0, expectedBlkNum := 0,
       totalReceivedSize := 0, numReceivedPackets := 0, expectedSize := 0, maxSize := bufferSize, protocol := YMODEM\<rparr> = ?s"
    by (simp add: zero_state_def)
  have p: "protocol ?s = YMODEM" by (simp add: zero_state_def)
  have "ymodem_receive buffer bufferSize w = Some (of_nat ?n, skip_reads k4 w3)"
    unfolding ymodem_receive_def XYMODEM_Receive_def s
    by (simp add: XYMODEM_SendReadyChar_def p moved_intros(1) loop pg s3 nz res)
  moreover have acks: "replicate n x @ [x, x] = x # x # replicate n x" for n and x :: u8 by (induction n) simp_all
  moreover have "skip_reads k4 w3 = w\<lparr>time_reads := k3 + k4, uart_rx := [],
      uart_tx := uart_tx w @ XYMODEM_C # replicate (length bs + 3) XYMODEM_ACK, mem := put_bytes buffer (concat bs) (mem w)\<rparr>"
    by (rule loader_world.equality) (simp_all add: w3 moved_def skip_reads_def acks numeral_3_eq_3)
  moreover have "put_bytes buffer (concat bs) (mem w) (buffer + of_nat j) = file ! j" if "j < ?n" for j
    using that n bf assms(6) nth_take [of j ?n "concat bs"] by (simp add: put_bytes_get)
  ultimately show ?thesis by (intro exI [of _ "k3 + k4"] exI [of _ "skip_reads k4 w3"]) simp
qed

definition demo_blocks :: "u8 list list" where
  "demo_blocks = [[0x48, 0x53, 0x53] @ replicate 125 0x1A]"

theorem ymodem_roundtrip_witness:
  "\<forall>w :: loader_world. \<exists>k w'. ymodem_receive 0x80000000 0x1000
       (w\<lparr>mtime := \<lambda>k. if even k then 0 else - 1, uart_rx := map Rx (ymodem_stream [0x41] 3 demo_blocks)\<rparr>) = Some (3, w')
     \<and> (\<forall>j < 3. mem w' (0x80000000 + of_nat j) = [0x48, 0x53, 0x53] ! j)
     \<and> w' = w\<lparr>mtime := \<lambda>k. if even k then 0 else - 1, time_reads := k, uart_rx := [],
                uart_tx := uart_tx w @ [0x43, 6, 6, 6, 6], mem := put_bytes 0x80000000 (concat demo_blocks) (mem w)\<rparr>"
proof
  fix w :: loader_world
  let ?w = "w\<lparr>mtime := \<lambda>k. if even k then 0 else - 1, uart_rx := map Rx (ymodem_stream [0x41] 3 demo_blocks)\<rparr>"
  have c: "clock_runs ?w" by (rule clock_runs_alternating) simp
  have "\<exists>k w'. ymodem_receive 0x80000000 0x1000 ?w = Some (of_nat (length [0x48 :: u8, 0x53, 0x53]), w')
     \<and> (\<forall>j < length [0x48 :: u8, 0x53, 0x53]. mem w' (0x80000000 + of_nat j) = [0x48, 0x53, 0x53] ! j)
     \<and> w' = ?w\<lparr>time_reads := k, uart_rx := [], uart_tx := uart_tx ?w @ XYMODEM_C # replicate (length demo_blocks + 3) XYMODEM_ACK,
             mem := put_bytes 0x80000000 (concat demo_blocks) (mem ?w)\<rparr>"
    by (rule ymodem_roundtrip [OF c, of "[0x41]"]) (simp_all add: demo_blocks_def numeral_3_eq_3 decimal.simps [of "Suc (Suc (Suc 0))"])
  then obtain k w' where r: "ymodem_receive 0x80000000 0x1000 ?w = Some (3, w')"
      "\<forall>j < 3. mem w' (0x80000000 + of_nat j) = [0x48, 0x53, 0x53] ! j"
      "w' = ?w\<lparr>time_reads := k, uart_rx := [], uart_tx := uart_tx ?w @ XYMODEM_C # replicate (length demo_blocks + 3) XYMODEM_ACK,
             mem := put_bytes 0x80000000 (concat demo_blocks) (mem ?w)\<rparr>"
    by auto
  have "w' = w\<lparr>mtime := \<lambda>k. if even k then 0 else - 1, time_reads := k, uart_rx := [],
                uart_tx := uart_tx w @ [0x43, 6, 6, 6, 6], mem := put_bytes 0x80000000 (concat demo_blocks) (mem w)\<rparr>"
    unfolding r(3) by (rule loader_world.equality) (simp_all add: demo_blocks_def numeral_eq_Suc)
  with r(1,2) show "\<exists>k w'. ymodem_receive 0x80000000 0x1000 ?w = Some (3, w')
     \<and> (\<forall>j < 3. mem w' (0x80000000 + of_nat j) = [0x48, 0x53, 0x53] ! j)
     \<and> w' = w\<lparr>mtime := \<lambda>k. if even k then 0 else - 1, time_reads := k, uart_rx := [],
                uart_tx := uart_tx w @ [0x43, 6, 6, 6, 6], mem := put_bytes 0x80000000 (concat demo_blocks) (mem w)\<rparr>"
    by blast
qed

end
