(* ===== verification/HSS_Qspi.thy ===== *)
theory HSS_Qspi
  imports HSS_Memory
begin

text \<open>
  The QSPI flash: the page and block operations of the NAND driver
  (baremetal/drivers/winbond_w25n01gv/winbond_w25n01gv.c) and, above them, the storage
  provider services/qspi/qspi_api.c with its table of bad blocks and its write-back cache,
  in the build for the Winbond W25N01GV.

  The chip itself is the parameter \<open>nand\<close>: a state of type \<open>'d\<close> and what the commands of the
  data sheet do to it.  The buffers that the provider lays out at the start of the DDR are
  fields of its state; what is printed, the mode of the QSPI controller and the watchdog are left
  out.
\<close>

subsection \<open>The chip and its driver\<close>

abbreviation (input) PAGE_LENGTH :: nat where "PAGE_LENGTH \<equiv> 2048"
abbreviation (input) NUM_PAGES_PER_BLOCK :: nat where "NUM_PAGES_PER_BLOCK \<equiv> 64"
abbreviation (input) NUM_BLOCKS_PER_DIE :: nat where "NUM_BLOCKS_PER_DIE \<equiv> 1024"
abbreviation (input) STATUS_REG_3_ECC1 :: u8 where "STATUS_REG_3_ECC1 \<equiv> 0x20"
abbreviation (input) STATUS_REG_3_ECC0 :: u8 where "STATUS_REG_3_ECC0 \<equiv> 0x10"
abbreviation (input) STATUS_REG_3_EFAIL :: u8 where "STATUS_REG_3_EFAIL \<equiv> 4"
abbreviation (input) STATUS_REG_3_ECC1_PFAIL :: u8 where "STATUS_REG_3_ECC1_PFAIL \<equiv> 0x28"

text \<open>
  Commands of the chip: the status register 3 after the read of a page and the byte at a column of it (data
  and spare area), the status after programming a page and after erasing a block.
\<close>

record 'd nand =
  nand_id :: "'d \<Rightarrow> u32"
  nand_status :: "'d \<Rightarrow> nat \<Rightarrow> u8"
  nand_byte :: "'d \<Rightarrow> nat \<Rightarrow> nat \<Rightarrow> u8"
  nand_program :: "nat \<Rightarrow> u8 list \<Rightarrow> 'd \<Rightarrow> u8 \<times> 'd"
  nand_erase :: "nat \<Rightarrow> 'd \<Rightarrow> u8 \<times> 'd"

definition read_page :: "'d nand \<Rightarrow> 'd \<Rightarrow> nat \<Rightarrow> nat \<Rightarrow> nat \<Rightarrow> u8 \<times> u8 list" where
  "read_page c d page column n = (nand_status c d page AND (STATUS_REG_3_ECC1 AND STATUS_REG_3_ECC0), map (\<lambda>i. nand_byte c d page (column + i)) [0..<n])"

text \<open>The mask is empty, so an uncorrectable read is never reported.\<close>

lemma read_page_never_fails [simp]: "fst (read_page c d page column n) = 0"
  by (simp add: read_page_def)

function read_pages :: "'d nand \<Rightarrow> 'd \<Rightarrow> nat \<Rightarrow> nat \<Rightarrow> u8 \<times> u8 list" where
  "read_pages c d page remaining =
     (if remaining = 0 then (0, [])
      else case read_page c d page 0 (min remaining PAGE_LENGTH) of (result, bs) \<Rightarrow>
        if result \<noteq> 0 then (result, bs)
        else case read_pages c d (page + 1) (remaining - min remaining PAGE_LENGTH) of (result1, bs1) \<Rightarrow> (result1, bs @ bs1))"
  by pat_completeness auto
termination by (relation "measure (\<lambda>(c, d, page, remaining). remaining)") auto

text \<open>
  The result and the bytes that reach the buffer; only whole pages can be addressed.  The
  length is turned into a signed number.
\<close>

definition Flash_read :: "'d nand \<Rightarrow> 'd \<Rightarrow> u32 \<Rightarrow> u32 \<Rightarrow> (u8 \<times> u8 list) option" where
  "Flash_read c d srcAddr n = do {
     assert_c (unat srcAddr mod PAGE_LENGTH = 0);
     Some (read_pages c d (unat srcAddr div PAGE_LENGTH) (nat (sint n)))
   }"

function program_pages :: "'d nand \<Rightarrow> nat \<Rightarrow> u8 list \<Rightarrow> u8 \<Rightarrow> 'd \<Rightarrow> u8 \<times> 'd" where
  "program_pages c page bs status d =
     (if bs = [] then (status, d)
      else case nand_program c page (take PAGE_LENGTH bs) d of (st, d1) \<Rightarrow>
        program_pages c (page + 1) (drop PAGE_LENGTH bs) (STATUS_REG_3_ECC1_PFAIL AND st) d1)"
  by pat_completeness auto
termination by (relation "measure (\<lambda>(c, page, bs, status, d). length bs)") auto

declare read_pages.simps [simp del] program_pages.simps [simp del]

definition Flash_program :: "'d nand \<Rightarrow> u8 list \<Rightarrow> u32 \<Rightarrow> 'd \<Rightarrow> u8 \<times> 'd" where
  "Flash_program c bs addr d = program_pages c (unat addr div PAGE_LENGTH) bs 0xFF d"

definition is_bad_block :: "'d nand \<Rightarrow> 'd \<Rightarrow> nat \<Rightarrow> bool" where
  "is_bad_block c d b =
     (case read_page c d (b * NUM_PAGES_PER_BLOCK) PAGE_LENGTH 2 of (_, bs) \<Rightarrow> bs ! 0 \<noteq> 0xFF \<or> bs ! 1 \<noteq> 0xFF)"

definition erase_block :: "'d nand \<Rightarrow> nat \<Rightarrow> 'd \<Rightarrow> u8 \<times> 'd" where
  "erase_block c b d =
     (if is_bad_block c d b then (STATUS_REG_3_EFAIL, d)
      else case nand_erase c b d of (st, d1) \<Rightarrow> (STATUS_REG_3_EFAIL AND st, d1))"

definition Flash_erase_block :: "'d nand \<Rightarrow> u16 \<Rightarrow> 'd \<Rightarrow> u8 \<times> 'd" where
  "Flash_erase_block c b d = erase_block c (unat b) d"

text \<open>The bad blocks, in the order in which they are put in the caller's array.\<close>

definition Flash_scan_for_bad_blocks :: "'d nand \<Rightarrow> 'd \<Rightarrow> u16 list" where
  "Flash_scan_for_bad_blocks c d = map of_nat (filter (is_bad_block c d) [0..<NUM_BLOCKS_PER_DIE])"

subsection \<open>The storage provider\<close>

record FlashDescriptor =
  jedecId :: u32
  fd_pageSize :: u32
  fd_pagesPerBlock :: u32
  fd_blocksPerDie :: u32
  fd_is_nand :: bool

definition qspiFlashes :: "FlashDescriptor list" where
  "qspiFlashes =
     [\<lparr> jedecId = 0xEFAA21, fd_pageSize = 2048, fd_pagesPerBlock = 64, fd_blocksPerDie = 1024, fd_is_nand = True \<rparr>,
      \<lparr> jedecId = 0x20BA19, fd_pageSize = 256, fd_pagesPerBlock = 256, fd_blocksPerDie = 512, fd_is_nand = False \<rparr>]"

record cache_descriptor =
  dirtyCache :: bool
  inCache :: bool

record 'd qspi =
  q_pageSize :: u32
  blockSize :: u32
  dieSize :: u32
  eraseSize :: u32
  pageCount :: u32
  blockCount :: u32
  spi_nand :: bool
  numBadBlocks :: u32
  logicalToPhysicalMap :: "u16 list"
  badBlocksMap :: "u16 list"
  logicalBlockDesc :: "cache_descriptor list"
  cacheData :: "nat \<Rightarrow> u8"
  qspiInitialized :: bool
  qspiIndex :: nat
  cacheDirtyFlag :: bool
  chip :: 'd

definition flash_id_to_descriptor :: "u32 \<Rightarrow> nat option" where
  "flash_id_to_descriptor jedec_id = find_index (\<lambda>f. jedecId f = jedec_id) qspiFlashes"

text \<open>The loop over the physical blocks: \<open>n\<close> to go, the place in the list of bad blocks, how many of them are left.\<close>

fun map_blocks :: "nat \<Rightarrow> nat \<Rightarrow> nat \<Rightarrow> nat \<Rightarrow> nat \<Rightarrow> u16 list \<Rightarrow> u16 list \<Rightarrow> u16 list option" where
  "map_blocks 0 phys badIndex remaining logical bads l2p = Some l2p"
| "map_blocks (Suc n) phys badIndex remaining logical bads l2p = do {
     bad \<leftarrow> (if remaining \<noteq> 0 then map_option (\<lambda>b. unat b = phys) (nth_opt bads badIndex) else Some False);
     if bad then map_blocks n (phys + 1) (badIndex + 1) (remaining - 1) logical bads l2p
     else do {
       assert_c (logical < length l2p);
       map_blocks n (phys + 1) badIndex remaining (logical + 1) bads (l2p[logical := of_nat phys])
     }
   }"

definition build_bad_block_map :: "'d nand \<Rightarrow> 'd qspi \<Rightarrow> 'd qspi option" where
  "build_bad_block_map c q = do {
     let bads = Flash_scan_for_bad_blocks c (chip q);
     assert_c (length bads \<le> length (badBlocksMap q));
     let badMap = bads @ drop (length bads) (badBlocksMap q);
     l2p \<leftarrow> map_blocks (unat (blockCount q)) 0 0 (length bads) 0 badMap (logicalToPhysicalMap q);
     Some (q\<lparr>numBadBlocks := of_nat (length bads), badBlocksMap := badMap, logicalToPhysicalMap := l2p\<rparr>)
   }"

definition column_to_block :: "'d qspi \<Rightarrow> u32 \<Rightarrow> u32 option" where
  "column_to_block q column_addr = do {
     assert_c (blockSize q \<noteq> 0);
     Some (column_addr div blockSize q)
   }"

text \<open>A number past the last block has the table built again.\<close>

definition physical_block :: "'d nand \<Rightarrow> nat \<Rightarrow> 'd qspi \<Rightarrow> (u16 \<times> 'd qspi) option" where
  "physical_block c logical q = do {
     p \<leftarrow> nth_opt (logicalToPhysicalMap q) logical;
     if (ucast p :: u32) > blockCount q then do {
       q1 \<leftarrow> build_bad_block_map c q;
       p1 \<leftarrow> nth_opt (logicalToPhysicalMap q1) logical;
       Some (p1, q1)
     } else Some (p, q)
   }"

definition logical_to_physical_address :: "'d nand \<Rightarrow> u32 \<Rightarrow> 'd qspi \<Rightarrow> (u32 \<times> 'd qspi) option" where
  "logical_to_physical_address c logical_addr q = do {
     assert_c (blockSize q \<noteq> 0);
     let logical_block_num = (ucast (logical_addr div blockSize q) :: u16);
     let remainder = logical_addr mod blockSize q;
     (p, q1) \<leftarrow> physical_block c (unat logical_block_num) q;
     Some (ucast p * blockSize q1 + remainder, q1)
   }"

definition logical_to_physical_block :: "'d nand \<Rightarrow> u32 \<Rightarrow> 'd qspi \<Rightarrow> (u32 \<times> 'd qspi) option" where
  "logical_to_physical_block c logical_block q =
     map_option (\<lambda>(p, q1). (ucast p, q1)) (physical_block c (unat logical_block) q)"

definition put_at :: "nat \<Rightarrow> u8 list \<Rightarrow> (nat \<Rightarrow> u8) \<Rightarrow> nat \<Rightarrow> u8" where
  "put_at a bs m = (\<lambda>x. if a \<le> x \<and> x < a + length bs then bs ! (x - a) else m x)"

definition demand_block :: "'d nand \<Rightarrow> u64 \<Rightarrow> bool \<Rightarrow> 'd qspi \<Rightarrow> 'd qspi option" where
  "demand_block c offset markDirty q = do {
     logical \<leftarrow> column_to_block q (ucast offset);
     (physicalBlockOffset, q1) \<leftarrow> logical_to_physical_block c logical q;
     let i = unat physicalBlockOffset;
     desc \<leftarrow> nth_opt (logicalBlockDesc q1) i;
     q2 \<leftarrow> (if inCache desc then Some q1
           else do {
             let a = (ucast physicalBlockOffset * ucast (blockSize q1) :: u64);
             (_, bs) \<leftarrow> Flash_read c (chip q1) (ucast a) (blockSize q1);
             Some (q1\<lparr>cacheData := put_at (unat a) bs (cacheData q1),
                     logicalBlockDesc := (logicalBlockDesc q1)[i := desc\<lparr>inCache := True\<rparr>]\<rparr>)
           });
     Some (if markDirty then q2\<lparr>logicalBlockDesc := (logicalBlockDesc q2)[i := (logicalBlockDesc q2 ! i)\<lparr>dirtyCache := True\<rparr>]\<rparr> else q2)
   }"

partial_function (option) demandCopyFlashBlocksToCache ::
    "'d nand \<Rightarrow> u64 \<Rightarrow> u64 \<Rightarrow> bool \<Rightarrow> 'd qspi \<Rightarrow> 'd qspi option" where
  "demandCopyFlashBlocksToCache c offset endOffset markDirty q =
     (if offset < endOffset then
        Option.bind (demand_block c offset markDirty q) (\<lambda>q1.
          demandCopyFlashBlocksToCache c (offset + ucast (blockSize q1)) endOffset markDirty q1)
      else Some q)"

text \<open>One block of the write-back; the flag says whether the loop goes on.\<close>

definition flush_block :: "'d nand \<Rightarrow> u64 \<Rightarrow> nat \<Rightarrow> 'd qspi \<Rightarrow> (bool \<times> nat \<times> 'd qspi) option" where
  "flush_block c offset dirty q = do {
     logical \<leftarrow> column_to_block q (ucast offset);
     (physicalBlockOffset, q1) \<leftarrow> logical_to_physical_block c logical q;
     let i = unat physicalBlockOffset;
     desc \<leftarrow> nth_opt (logicalBlockDesc q1) i;
     if inCache desc \<and> dirtyCache desc then
       (case Flash_erase_block c (ucast physicalBlockOffset) (chip q1) of (status, d1) \<Rightarrow>
          if status \<noteq> 0 then Some (False, dirty, q1\<lparr>chip := d1\<rparr>)
          else do {
            let a = (ucast physicalBlockOffset * ucast (blockSize q1) :: u64);
            let bs = map (cacheData q1) [unat a..<unat a + unat (blockSize q1)];
            let (_, d2) = Flash_program c bs (ucast a) d1;
            Some (True, dirty - 1, q1\<lparr>chip := d2, logicalBlockDesc := (logicalBlockDesc q1)[i := desc\<lparr>dirtyCache := False\<rparr>]\<rparr>)
          })
     else Some (True, dirty, q1)
   }"

partial_function (option) flush_blocks :: "'d nand \<Rightarrow> u64 \<Rightarrow> u64 \<Rightarrow> nat \<Rightarrow> 'd qspi \<Rightarrow> 'd qspi option" where
  "flush_blocks c offset endOffset dirty q =
     (if dirty \<noteq> 0 \<and> offset < endOffset then
        Option.bind (flush_block c offset dirty q) (\<lambda>(go_on, dirty1, q1).
          if go_on then flush_blocks c (offset + ucast (blockSize q1)) endOffset dirty1 q1 else Some q1)
      else Some q)"

text \<open>Only the first \<open>blockCount\<close> descriptors are counted.\<close>

definition copyCacheToFlashBlocks :: "'d nand \<Rightarrow> u64 \<Rightarrow> u64 \<Rightarrow> 'd qspi \<Rightarrow> 'd qspi option" where
  "copyCacheToFlashBlocks c byteOffset byteCount q = do {
     assert_c (unat (blockCount q) \<le> length (logicalBlockDesc q));
     flush_blocks c byteOffset (byteOffset + byteCount)
       (length (filter dirtyCache (take (unat (blockCount q)) (logicalBlockDesc q)))) q
   }"

subsection \<open>Uncached operations\<close>

definition HSS_QSPIInit :: "'d nand \<Rightarrow> 'd qspi \<Rightarrow> (bool \<times> 'd qspi) option" where
  "HSS_QSPIInit c q =
     (if qspiInitialized q then Some (True, q)
      else (case flash_id_to_descriptor (nand_id c (chip q)) of
        None \<Rightarrow> Some (False, q)
      | Some i \<Rightarrow> do {
          let f = qspiFlashes ! i;
          let page = (if fd_pageSize f \<ge> 512 then fd_pageSize f else 512);
          let bsize = page * fd_pagesPerBlock f;
          let count = fd_blocksPerDie f;
          let q1 = q\<lparr>q_pageSize := page, blockSize := bsize, eraseSize := bsize, blockCount := count, spi_nand := fd_is_nand f,
            logicalToPhysicalMap := replicate (unat count) 0, badBlocksMap := replicate (unat count) 0,
            logicalBlockDesc := replicate (unat count) \<lparr> dirtyCache = False, inCache = False \<rparr>, qspiIndex := i\<rparr>;
          q2 \<leftarrow> build_bad_block_map c q1;
          let count2 = count - numBadBlocks q2;
          Some (True, q2\<lparr>blockCount := count2, pageCount := fd_pagesPerBlock f * count2, dieSize := bsize * count2,
            qspiInitialized := True\<rparr>)
        }))"

text \<open>The bytes that reach the destination.\<close>

definition HSS_QSPI_ReadBlock :: "'d nand \<Rightarrow> u64 \<Rightarrow> u64 \<Rightarrow> 'd qspi \<Rightarrow> (bool \<times> u8 list \<times> 'd qspi) option" where
  "HSS_QSPI_ReadBlock c srcOffset byteCount q = do {
     (read_addr, q1) \<leftarrow> logical_to_physical_address c (ucast srcOffset) q;
     (_, bs) \<leftarrow> Flash_read c (chip q1) read_addr (ucast byteCount);
     Some (True, bs, q1)
   }"

definition HSS_QSPI_WriteBlock :: "'d nand \<Rightarrow> u64 \<Rightarrow> u8 list \<Rightarrow> 'd qspi \<Rightarrow> (bool \<times> 'd qspi) option" where
  "HSS_QSPI_WriteBlock c dstOffset bs q = do {
     (write_addr, q1) \<leftarrow> logical_to_physical_address c (ucast dstOffset) q;
     let (_, d1) = Flash_program c (take (length bs mod 2 ^ 32) bs) write_addr (chip q1);
     Some (True, q1\<lparr>chip := d1\<rparr>)
   }"

definition HSS_QSPI_GetInfo :: "'d qspi \<Rightarrow> u32 \<times> u32 \<times> u32" where
  "HSS_QSPI_GetInfo q = (q_pageSize q, eraseSize q, pageCount q)"

definition HSS_QSPI_FlushWriteBuffer :: "'d qspi \<Rightarrow> 'd qspi" where
  "HSS_QSPI_FlushWriteBuffer q = q"

fun erase_blocks :: "'d nand \<Rightarrow> nat \<Rightarrow> u16 \<Rightarrow> 'd \<Rightarrow> 'd" where
  "erase_blocks c 0 b d = d"
| "erase_blocks c (Suc n) b d = erase_blocks c n (b + 1) (snd (Flash_erase_block c b d))"

definition HSS_QSPI_FlashChipErase :: "'d nand \<Rightarrow> 'd qspi \<Rightarrow> 'd qspi" where
  "HSS_QSPI_FlashChipErase c q = q\<lparr>chip := erase_blocks c (unat (blockCount q)) 0 (chip q)\<rparr>"

definition HSS_QSPI_BadBlocksInfo :: "'d nand \<Rightarrow> 'd qspi \<Rightarrow> 'd qspi option" where
  "HSS_QSPI_BadBlocksInfo c q =
     (if qspiInitialized q \<and> spi_nand q then do {
        let f = qspiFlashes ! qspiIndex q;
        let count = fd_blocksPerDie f;
        q1 \<leftarrow> build_bad_block_map c (q\<lparr>blockCount := count, pageCount := fd_pagesPerBlock f * count, dieSize := blockSize q * count\<rparr>);
        let count1 = count - numBadBlocks q1;
        Some (if numBadBlocks q1 \<noteq> 0
              then q1\<lparr>blockCount := count1, pageCount := fd_pagesPerBlock f * count1, dieSize := blockSize q1 * count1\<rparr>
              else q1)
      } else Some q)"

subsection \<open>Cached operations\<close>

definition HSS_CachedQSPIInit :: "'d nand \<Rightarrow> 'd qspi \<Rightarrow> (bool \<times> 'd qspi) option" where
  "HSS_CachedQSPIInit = HSS_QSPIInit"

definition HSS_CachedQSPI_ReadBlock :: "'d nand \<Rightarrow> u64 \<Rightarrow> u64 \<Rightarrow> 'd qspi \<Rightarrow> (bool \<times> u8 list \<times> 'd qspi) option" where
  "HSS_CachedQSPI_ReadBlock c srcOffset byteCount q = do {
     assert_c (srcOffset + byteCount \<le> ucast (dieSize q));
     q1 \<leftarrow> demandCopyFlashBlocksToCache c srcOffset (srcOffset + byteCount) False q;
     Some (True, map (cacheData q1) [unat srcOffset..<unat srcOffset + unat byteCount], q1)
   }"

definition HSS_CachedQSPI_WriteBlock :: "'d nand \<Rightarrow> u64 \<Rightarrow> u8 list \<Rightarrow> 'd qspi \<Rightarrow> (bool \<times> 'd qspi) option" where
  "HSS_CachedQSPI_WriteBlock c dstOffset bs q = do {
     let byteCount = of_nat (length bs);
     assert_c (dstOffset + byteCount \<le> ucast (dieSize q));
     q1 \<leftarrow> demandCopyFlashBlocksToCache c dstOffset (dstOffset + byteCount) True (q\<lparr>cacheDirtyFlag := True\<rparr>);
     Some (True, q1\<lparr>cacheData := put_at (unat dstOffset) bs (cacheData q1)\<rparr>)
   }"

definition HSS_CachedQSPI_GetInfo :: "'d qspi \<Rightarrow> u32 \<times> u32 \<times> u32" where
  "HSS_CachedQSPI_GetInfo = HSS_QSPI_GetInfo"

definition HSS_CachedQSPI_FlushWriteBuffer :: "'d nand \<Rightarrow> 'd qspi \<Rightarrow> 'd qspi option" where
  "HSS_CachedQSPI_FlushWriteBuffer c q =
     (if cacheDirtyFlag q
      then map_option (\<lambda>q1. q1\<lparr>cacheDirtyFlag := False\<rparr>) (copyCacheToFlashBlocks c 0 (ucast (dieSize q)) q)
      else Some q)"

subsection \<open>The chip as an array of bytes\<close>

text \<open>The byte at an address of the data area, and the data sheet's promises for a chip that does not wear out.\<close>

definition chip_byte :: "'d nand \<Rightarrow> 'd \<Rightarrow> nat \<Rightarrow> u8" where
  "chip_byte c d x = nand_byte c d (x div PAGE_LENGTH) (x mod PAGE_LENGTH)"

definition nand_ok :: "'d nand \<Rightarrow> bool" where
  "nand_ok c \<longleftrightarrow> (\<forall>b d. \<not> is_bad_block c d b \<longrightarrow> (case nand_erase c b d of (st, d') \<Rightarrow> STATUS_REG_3_EFAIL AND st = 0
          \<and> (\<forall>p i. nand_byte c d' p i = (if p div NUM_PAGES_PER_BLOCK = b then 0xFF else nand_byte c d p i))))
     \<and> (\<forall>p bs d. length bs \<le> PAGE_LENGTH \<and> (\<forall>i < PAGE_LENGTH. nand_byte c d p i = 0xFF) \<longrightarrow>
          (case nand_program c p bs d of (st, d') \<Rightarrow>
            \<forall>p' i. nand_byte c d' p' i = (if p' = p \<and> i < length bs then bs ! i else nand_byte c d p' i)))"

definition bad_marker :: "'d nand \<Rightarrow> 'd \<Rightarrow> nat \<Rightarrow> bool" where
  "bad_marker c d b \<longleftrightarrow> nand_byte c d (b * 64) 2048 \<noteq> 0xFF \<or> nand_byte c d (b * 64) 2049 \<noteq> 0xFF"

lemma is_bad_block_iff: "is_bad_block c d b \<longleftrightarrow> bad_marker c d b"
  by (simp add: is_bad_block_def read_page_def bad_marker_def)

lemma nand_eraseE:
  assumes "nand_ok c" and "\<not> bad_marker c d b"
  obtains st d' where "nand_erase c b d = (st, d')" "STATUS_REG_3_EFAIL AND st = 0"
    "\<And>p i. nand_byte c d' p i = (if p div 64 = b then 0xFF else nand_byte c d p i)"
proof -
  have "\<not> is_bad_block c d b" using assms(2) by (simp add: is_bad_block_iff)
  then have "case nand_erase c b d of (st, d') \<Rightarrow> STATUS_REG_3_EFAIL AND st = 0
          \<and> (\<forall>p i. nand_byte c d' p i = (if p div 64 = b then 0xFF else nand_byte c d p i))"
    by (rule assms(1) [unfolded nand_ok_def, THEN conjunct1, rule_format])
  then show thesis by (cases "nand_erase c b d") (auto intro: that)
qed

lemma nand_programE:
  assumes "nand_ok c" and "length bs \<le> 2048" and "\<And>i. i < 2048 \<Longrightarrow> nand_byte c d p i = 0xFF"
  obtains st d' where "nand_program c p bs d = (st, d')"
    "\<And>p' i. nand_byte c d' p' i = (if p' = p \<and> i < length bs then bs ! i else nand_byte c d p' i)"
proof -
  have "case nand_program c p bs d of (st, d') \<Rightarrow>
      \<forall>p' i. nand_byte c d' p' i = (if p' = p \<and> i < length bs then bs ! i else nand_byte c d p' i)"
    using assms(2,3) by (intro assms(1) [unfolded nand_ok_def, THEN conjunct2, THEN spec, THEN spec, THEN spec, THEN mp]) simp
  then show thesis by (cases "nand_program c p bs d") (auto intro: that)
qed

lemma map_upt_shift: "map f [a..<a + n] = map (\<lambda>i. f (a + i)) [0..<n]"
  by (rule nth_equalityI) simp_all

lemma read_pages_ok:
  "read_pages c d page n = (0, map (chip_byte c d) [page * 2048..<page * 2048 + n])"
proof (induction c d page n rule: read_pages.induct)
  case (1 c d page n)
  show ?case
  proof (cases "n = 0")
    case True
    then show ?thesis by (simp add: read_pages.simps)
  next
    case False
    let ?k = "min n 2048"
    have p: "read_page c d page 0 ?k = (0, map (chip_byte c d) [page * 2048..<page * 2048 + ?k])"
      by (auto simp: read_page_def map_upt_shift chip_byte_def)
    have "read_pages c d (page + 1) (n - ?k) = (0, map (chip_byte c d) [(page + 1) * 2048..<(page + 1) * 2048 + (n - ?k)])"
      by (rule 1(1) [OF False p [symmetric]]) simp
    moreover have "map f [page * 2048..<page * 2048 + n] = map f [page * 2048..<page * 2048 + ?k]
        @ map f [(page + 1) * 2048..<(page + 1) * 2048 + (n - ?k)]" for f :: "nat \<Rightarrow> u8"
    proof (cases "n \<le> 2048")
      case False
      then have "[page * 2048..<page * 2048 + n] = [page * 2048..<page * 2048 + 2048] @ [page * 2048 + 2048..<page * 2048 + n]"
        using upt_add_eq_append [of "page * 2048" "page * 2048 + 2048" "n - 2048"] by simp
      then show ?thesis using False by (simp add: algebra_simps)
    qed simp
    ultimately show ?thesis using False p by (subst read_pages.simps) simp
  qed
qed

lemma program_pages_ok:
  "nand_ok c \<Longrightarrow> (\<And>p i. page \<le> p \<Longrightarrow> (p - page) * 2048 < length bs \<Longrightarrow> i < 2048 \<Longrightarrow> nand_byte c d p i = 0xFF)
    \<Longrightarrow> \<exists>st d'. program_pages c page bs st0 d = (st, d')
      \<and> (\<forall>p i. nand_byte c d' p i = (if i < 2048 \<and> page \<le> p \<and> (p - page) * 2048 + i < length bs
            then bs ! ((p - page) * 2048 + i) else nand_byte c d p i))"
proof (induction c page bs st0 d rule: program_pages.induct)
  case (1 c page bs st0 d)
  show ?case
  proof (cases "bs = []")
    case True
    then show ?thesis by (simp add: program_pages.simps)
  next
    case False
    have "length (take 2048 bs) \<le> 2048" by simp
    moreover have "nand_byte c d page i = 0xFF" if "i < 2048" for i using 1(3) [of page i] False that by simp
    ultimately obtain st d1 where pr: "nand_program c page (take 2048 bs) d = (st, d1)"
      and d1: "\<And>p' i. nand_byte c d1 p' i = (if p' = page \<and> i < length (take 2048 bs) then take 2048 bs ! i else nand_byte c d p' i)"
      using nand_programE [OF 1(2)] by blast
    have er: "nand_byte c d1 p i = 0xFF" if "page + 1 \<le> p" "(p - (page + 1)) * 2048 < length (drop 2048 bs)" "i < 2048" for p i
      using that 1(3) [of p i] by (auto simp: d1)
    obtain st2 d2 where r: "program_pages c (page + 1) (drop 2048 bs) (STATUS_REG_3_ECC1_PFAIL AND st) d1 = (st2, d2)"
      and d2: "\<And>p i. nand_byte c d2 p i = (if i < 2048 \<and> page + 1 \<le> p \<and> (p - (page + 1)) * 2048 + i < length (drop 2048 bs)
            then drop 2048 bs ! ((p - (page + 1)) * 2048 + i) else nand_byte c d1 p i)"
      using 1(1) [OF False pr [symmetric] 1(2) er] by blast
    have "nand_byte c d2 p i = (if i < 2048 \<and> page \<le> p \<and> (p - page) * 2048 + i < length bs
            then bs ! ((p - page) * 2048 + i) else nand_byte c d p i)" for p i
    proof (cases "page + 1 \<le> p")
      case True
      then obtain k where "p = page + 1 + k" using le_Suc_ex by blast
      then show ?thesis by (auto simp: d1 d2 algebra_simps)
    next
      case False
      then show ?thesis by (cases "p = page") (auto simp: d1 d2)
    qed
    then show ?thesis using False pr r by (subst program_pages.simps) simp
  qed
qed

subsection \<open>The table of blocks\<close>

definition good_blocks :: "'d nand \<Rightarrow> 'd \<Rightarrow> nat \<Rightarrow> nat list" where
  "good_blocks c d n = filter (\<lambda>b. \<not> bad_marker c d b) [0..<n]"

lemma filter_split_at:
  assumes "phys < N"
  shows "filter B [0..<N] = filter B [0..<phys] @ (if B phys then [phys] else []) @ filter B [Suc phys..<N]"
proof -
  have "[0..<N] = [0..<phys] @ phys # [Suc phys..<N]"
    using assms upt_add_eq_append [of 0 phys "N - phys"] by (simp add: upt_conv_Cons)
  then show ?thesis by simp
qed

text \<open>The next entry of the list of bad blocks tells whether a block is bad.\<close>

lemma next_bad:
  assumes "phys < N" and "N \<le> 1024" and "k = length (filter B [0..<phys])" and "bads = (map of_nat (filter B [0..<N]) :: u16 list) @ r"
    and "remaining = length (filter B [0..<N]) - k"
  shows "(if remaining \<noteq> 0 then map_option (\<lambda>b. unat b = phys) (nth_opt bads k) else Some False) = Some (B phys)"
    (is "?l = _")
proof -
  note split = filter_split_at [OF assms(1), of B]
  have u: "unat (of_nat x :: u16) = x" if "x < N" for x
    using that assms(2) by (simp add: unat_of_nat take_bit_nat_eq_self)
  show ?thesis
  proof (cases "B phys")
    case True
    then have s: "filter B [0..<N] = filter B [0..<phys] @ phys # filter B [Suc phys..<N]" using split by simp
    have "bads ! k = of_nat phys" "k < length bads" "remaining \<noteq> 0"
      unfolding assms(4,5) s by (simp_all add: assms(3) nth_append)
    then show ?thesis using True u [OF assms(1)] by simp
  next
    case False
    then have s: "filter B [0..<N] = filter B [0..<phys] @ filter B [Suc phys..<N]" using split by simp
    show ?thesis
    proof (cases "filter B [Suc phys..<N]")
      case Nil
      then have "remaining = 0" unfolding assms(5) s by (simp add: assms(3))
      then show ?thesis using False by simp
    next
      case (Cons x xs)
      then have x: "x \<in> set (filter B [Suc phys..<N])" by simp
      have "bads ! k = of_nat x" "k < length bads" "remaining \<noteq> 0"
        unfolding assms(4,5) s Cons by (simp_all add: assms(3) nth_append)
      moreover have "x < N" "x \<noteq> phys" using x by auto
      ultimately show ?thesis using False u [of x] by simp
    qed
  qed
qed

lemma map_blocks_ok:
  "phys + n \<le> N \<Longrightarrow> N \<le> 1024 \<Longrightarrow> bads = map of_nat (filter B [0..<N]) @ r \<Longrightarrow> n \<le> length rest \<Longrightarrow>
    map_blocks n phys (length (filter B [0..<phys])) (length (filter B [0..<N]) - length (filter B [0..<phys]))
      (length (filter (\<lambda>b. \<not> B b) [0..<phys])) bads (map of_nat (filter (\<lambda>b. \<not> B b) [0..<phys]) @ rest)
    = Some (map of_nat (filter (\<lambda>b. \<not> B b) [0..<phys + n])
        @ drop (length (filter (\<lambda>b. \<not> B b) [phys..<phys + n])) rest)"
proof (induction n arbitrary: phys rest)
  case 0
  then show ?case by simp
next
  case (Suc n)
  let ?G = "\<lambda>b. \<not> B b"
  have p: "phys < N" "Suc phys + n \<le> N" using Suc.prems(1) by auto
  note test = next_bad [OF p(1) Suc.prems(2) refl Suc.prems(3) refl]
  have up: "[phys..<phys + Suc n] = phys # [Suc phys..<Suc phys + n]" by (simp add: upt_conv_Cons)
  show ?case
  proof (cases "B phys")
    case True
    have "length (filter B [0..<N]) - length (filter B [0..<phys]) - 1
        = length (filter B [0..<N]) - length (filter B [0..<Suc phys])" using True by simp
    then show ?thesis
      using True test Suc.IH [OF p(2) Suc.prems(2,3), of rest] Suc.prems(4) up by simp
  next
    case False
    obtain x xs where rest: "rest = x # xs" using Suc.prems(4) by (cases rest) auto
    have "(map of_nat (filter ?G [0..<phys]) @ rest)[length (filter ?G [0..<phys]) := of_nat phys]
        = map of_nat (filter ?G [0..<Suc phys]) @ xs" for xs2
      using False by (simp add: rest list_update_append)
    then show ?thesis
      using False test Suc.IH [OF p(2) Suc.prems(2,3), of xs] Suc.prems(4) up by (simp add: rest)
  qed
qed

lemma build_bad_block_map_ok:
  assumes "unat (blockCount q) = 1024" and "length (badBlocksMap q) = 1024" and "length (logicalToPhysicalMap q) = 1024"
  shows "\<exists>bm. build_bad_block_map c q = Some (q\<lparr>numBadBlocks := of_nat (1024 - length (good_blocks c (chip q) 1024)),
      badBlocksMap := bm, logicalToPhysicalMap := map of_nat (good_blocks c (chip q) 1024)
        @ drop (length (good_blocks c (chip q) 1024)) (logicalToPhysicalMap q)\<rparr>) \<and> length bm = 1024"
proof -
  let ?B = "is_bad_block c (chip q)"
  let ?bads = "map of_nat (filter ?B [0..<1024]) :: u16 list"
  have g: "filter (\<lambda>b. \<not> ?B b) [0..<1024] = good_blocks c (chip q) 1024"
    by (simp add: good_blocks_def is_bad_block_iff)
  have n: "length (filter ?B [0..<1024]) + length (good_blocks c (chip q) 1024) = 1024"
    using sum_length_filter_compl [of ?B "[0..<1024]"] g by simp
  have "map_blocks 1024 0 0 (length ?bads) 0 (?bads @ drop (length ?bads) (badBlocksMap q)) (logicalToPhysicalMap q)
      = Some (map of_nat (good_blocks c (chip q) 1024) @ drop (length (good_blocks c (chip q) 1024)) (logicalToPhysicalMap q))"
    using map_blocks_ok [of 0 1024 1024 "?bads @ drop (length ?bads) (badBlocksMap q)" ?B "drop (length ?bads) (badBlocksMap q)" "logicalToPhysicalMap q"]
      assms(3) g by simp
  moreover have "length ?bads \<le> 1024" "length ?bads = 1024 - length (good_blocks c (chip q) 1024)" using n by auto
  moreover have "length (?bads @ drop (length ?bads) (badBlocksMap q)) = 1024" using assms(2) n by simp
  ultimately show ?thesis
    using assms by (intro exI [of _ "?bads @ drop (length ?bads) (badBlocksMap q)"])
      (simp add: build_bad_block_map_def Flash_scan_for_bad_blocks_def)
qed

text \<open>The state that initialisation leaves, up to the contents of the list of bad blocks.\<close>

lemma QSPIInit_state:
  assumes "\<not> qspiInitialized q" and "nand_id c (chip q) = 0xEFAA21" and "g = length (good_blocks c (chip q) 1024)"
  shows "\<exists>bm. HSS_QSPIInit c q = Some (True, q\<lparr>q_pageSize := 2048, blockSize := 0x20000, eraseSize := 0x20000,
      blockCount := of_nat g, pageCount := 64 * of_nat g, dieSize := 0x20000 * of_nat g, spi_nand := True,
      numBadBlocks := of_nat (1024 - g), badBlocksMap := bm,
      logicalToPhysicalMap := map of_nat (good_blocks c (chip q) 1024) @ replicate (1024 - g) 0,
      logicalBlockDesc := replicate 1024 \<lparr> dirtyCache = False, inCache = False \<rparr>, qspiIndex := 0, qspiInitialized := True\<rparr>)"
proof -
  have f: "flash_id_to_descriptor 0xEFAA21 = Some 0" by (simp add: flash_id_to_descriptor_def qspiFlashes_def)
  let ?q1 = "q\<lparr>q_pageSize := 2048, blockSize := 0x20000, eraseSize := 0x20000, blockCount := 1024, spi_nand := True,
      logicalToPhysicalMap := replicate 1024 0, badBlocksMap := replicate 1024 0,
      logicalBlockDesc := replicate 1024 \<lparr> dirtyCache = False, inCache = False \<rparr>, qspiIndex := 0\<rparr>"
  obtain bm where b: "build_bad_block_map c ?q1 = Some (?q1\<lparr>numBadBlocks := of_nat (1024 - g), badBlocksMap := bm,
      logicalToPhysicalMap := map of_nat (good_blocks c (chip q) 1024) @ drop g (replicate 1024 0)\<rparr>)"
    using build_bad_block_map_ok [of ?q1 c] assms(3) by auto
  have le: "g \<le> 1024" unfolding assms(3) good_blocks_def by (rule order_trans [OF length_filter_le]) simp
  have e: "1024 - of_nat (1024 - g) = (of_nat g :: u32)" "134217728 - 131072 * of_nat (1024 - g) = 131072 * (of_nat g :: u32)"
    "65536 - 64 * of_nat (1024 - g) = 64 * (of_nat g :: u32)"
    using le by (simp_all add: of_nat_diff algebra_simps)
  show ?thesis
    by (rule exI [of _ bm], rule trans [of _ "Some (True, (?q1\<lparr>numBadBlocks := of_nat (1024 - g), badBlocksMap := bm,
      logicalToPhysicalMap := map of_nat (good_blocks c (chip q) 1024) @ drop g (replicate 1024 0)\<rparr>)
        \<lparr>blockCount := of_nat g, pageCount := 64 * of_nat g, dieSize := 0x20000 * of_nat g, qspiInitialized := True\<rparr>)"])
      (use assms(1) b in \<open>simp_all add: HSS_QSPIInit_def assms(2) f qspiFlashes_def e\<close>)
qed

text \<open>C16. Initialisation on a Winbond chip always succeeds, whatever blocks of it are bad: the table of blocks then lists
  the good physical blocks in ascending order, one for each logical block, the size of the device is the
  number of good blocks times the size of a block, and the cache is empty.\<close>

theorem HSS_QSPIInit_map:
  assumes "\<not> qspiInitialized q" and "nand_id c (chip q) = 0xEFAA21"
  shows "\<exists>q'. HSS_QSPIInit c q = Some (True, q') \<and> qspiInitialized q' \<and> blockSize q' = 0x20000 \<and> chip q' = chip q
    \<and> logicalToPhysicalMap q' = map of_nat (good_blocks c (chip q) 1024) @ replicate (1024 - length (good_blocks c (chip q) 1024)) 0
    \<and> blockCount q' = of_nat (length (good_blocks c (chip q) 1024))
    \<and> dieSize q' = 0x20000 * of_nat (length (good_blocks c (chip q) 1024))
    \<and> logicalBlockDesc q' = replicate 1024 \<lparr> dirtyCache = False, inCache = False \<rparr>
    \<and> cacheData q' = cacheData q \<and> cacheDirtyFlag q' = cacheDirtyFlag q"
  using QSPIInit_state [OF assms refl] by auto

subsection \<open>The cache as a view of the disk\<close>

text \<open>The state after initialisation of a chip without bad blocks, and what the disk holds.\<close>

definition disk_inv :: "'d nand \<Rightarrow> 'd qspi \<Rightarrow> bool" where
  "disk_inv c q \<longleftrightarrow> nand_ok c \<and> blockSize q = 0x20000 \<and> blockCount q = 1024 \<and> dieSize q = 0x8000000
     \<and> logicalToPhysicalMap q = map of_nat [0..<1024] \<and> length (logicalBlockDesc q) = 1024
     \<and> (\<forall>b < 1024. \<not> bad_marker c (chip q) b)
     \<and> (\<forall>b < 1024. dirtyCache (logicalBlockDesc q ! b) \<longrightarrow> inCache (logicalBlockDesc q ! b) \<and> cacheDirtyFlag q)
     \<and> (\<forall>x < 0x8000000. inCache (logicalBlockDesc q ! (x div 0x20000)) \<and> \<not> dirtyCache (logicalBlockDesc q ! (x div 0x20000))
          \<longrightarrow> cacheData q x = chip_byte c (chip q) x)"

definition disk_view :: "'d nand \<Rightarrow> 'd qspi \<Rightarrow> nat \<Rightarrow> u8" where
  "disk_view c q x = (if inCache (logicalBlockDesc q ! (x div 0x20000)) then cacheData q x else chip_byte c (chip q) x)"

lemma disk_block:
  assumes "disk_inv c q" and "unat off < 0x8000000"
  shows "column_to_block q (ucast (off :: u64)) = Some (of_nat (unat off div 0x20000))"
proof -
  have u: "unat (ucast off :: u32) = unat off" using assms(2) by (simp add: unsigned_ucast_eq take_bit_nat_eq_self)
  have "ucast off div (0x20000 :: u32) = of_nat (unat off div 0x20000)"
    by (rule word_unat_eq_iff [THEN iffD2]) (use assms(2) in \<open>simp add: unat_div_distrib u unat_of_nat take_bit_nat_eq_self\<close>)
  then show ?thesis using assms(1) by (simp add: column_to_block_def disk_inv_def)
qed

lemma small_words:
  assumes "b < (1024 :: nat)"
  shows "unat (of_nat b :: u32) = b" "unat (of_nat b :: u16) = b" "unat (of_nat b :: u64) = b"
    "ucast (of_nat b :: u16) = (of_nat b :: u32)"
  using assms by (simp_all add: unat_of_nat take_bit_nat_eq_self word_unat_eq_iff unsigned_ucast_eq)

lemma identity_block:
  assumes "disk_inv c q" and "b < 1024"
  shows "logical_to_physical_block c (of_nat b) q = Some (of_nat b, q)"
proof -
  have "\<not> (of_nat b :: u32) > 1024" using assms(2) by (simp add: word_less_nat_alt small_words(1))
  then show ?thesis
    using assms by (simp add: logical_to_physical_block_def physical_block_def disk_inv_def small_words)
qed

lemma block_address:
  assumes "b < (1024 :: nat)"
  shows "unat (ucast (of_nat b :: u32) * 0x20000 :: u64) = b * 0x20000"
    and "unat (ucast (ucast (of_nat b :: u32) * 0x20000 :: u64) :: u32) = b * 0x20000"
proof -
  have e: "(ucast (of_nat b :: u32) :: u64) = of_nat b"
    using assms by (simp add: word_unat_eq_iff unsigned_ucast_eq small_words take_bit_nat_eq_self)
  have "(ucast (of_nat b :: u32) * 0x20000 :: u64) = of_nat (b * 0x20000)" unfolding e by simp
  then show u: "unat (ucast (of_nat b :: u32) * 0x20000 :: u64) = b * 0x20000"
    using assms by (simp add: unat_of_nat_small del: of_nat_mult)
  show "unat (ucast (ucast (of_nat b :: u32) * 0x20000 :: u64) :: u32) = b * 0x20000"
    using assms by (simp add: unsigned_ucast_eq u take_bit_nat_eq_self)
qed

lemma Flash_read_block:
  assumes "b < (1024 :: nat)"
  shows "Flash_read c d (ucast (ucast (of_nat b :: u32) * 0x20000 :: u64)) 0x20000
    = Some (0, map (chip_byte c d) [b * 0x20000..<b * 0x20000 + 0x20000])"
proof -
  have e: "b * 0x20000 mod 2048 = 0" "b * 0x20000 div 2048 = b * 64" "b * 64 * 2048 = b * 0x20000" by simp_all
  have r: "read_pages c d (b * 64) 0x20000 = (0, map (chip_byte c d) [b * 0x20000..<b * 0x20000 + 0x20000])"
    using read_pages_ok [of c d "b * 64" "0x20000"] unfolding e(3) .
  have n: "nat (sint (0x20000 :: u32)) = 0x20000" by simp
  show ?thesis unfolding Flash_read_def block_address(2) [OF assms] e n r by simp
qed

lemma put_at_get: "put_at a bs m x = (if a \<le> x \<and> x < a + length bs then bs ! (x - a) else m x)"
  by (simp add: put_at_def)

text \<open>The block of an offset is loaded, and nothing that can be seen changes.\<close>

lemma demand_block_ok:
  assumes inv: "disk_inv c q" and off: "unat off < 0x8000000" and flag: "m \<longrightarrow> cacheDirtyFlag q"
  shows "\<exists>q'. demand_block c off m q = Some q' \<and> disk_inv c q' \<and> (\<forall>x < 0x8000000. disk_view c q' x = disk_view c q x)
    \<and> chip q' = chip q \<and> cacheDirtyFlag q' = cacheDirtyFlag q
    \<and> logicalBlockDesc q' = (logicalBlockDesc q)[unat off div 0x20000 :=
        \<lparr> dirtyCache = m \<or> dirtyCache (logicalBlockDesc q ! (unat off div 0x20000)), inCache = True \<rparr>]"
proof -
  let ?b = "unat off div 0x20000"
  let ?d = "logicalBlockDesc q ! ?b"
  have b: "?b < 1024" using off by simp
  have len: "length (logicalBlockDesc q) = 1024" and ok: "nand_ok c" and bs: "blockSize q = 0x20000" using inv by (simp_all add: disk_inv_def)
  define q1 where "q1 = (if inCache ?d then q else q\<lparr>cacheData := put_at (?b * 0x20000)
      (map (chip_byte c (chip q)) [?b * 0x20000..<?b * 0x20000 + 0x20000]) (cacheData q), logicalBlockDesc := (logicalBlockDesc q)[?b := ?d\<lparr>inCache := True\<rparr>]\<rparr>)"
  define q2 where "q2 = (if m then q1\<lparr>logicalBlockDesc := (logicalBlockDesc q1)[?b := (logicalBlockDesc q1 ! ?b)\<lparr>dirtyCache := True\<rparr>]\<rparr> else q1)"
  have run: "demand_block c off m q = Some q2"
    using disk_block [OF inv off] identity_block [OF inv b] b
    by (simp add: demand_block_def small_words(1) len bs Flash_read_block [OF b] block_address(1) [OF b] Let_def q1_def q2_def)
  have data: "cacheData q2 x = (if \<not> inCache ?d \<and> x div 0x20000 = ?b then chip_byte c (chip q) x else cacheData q x)" for x
  proof -
    have "x div 0x20000 = ?b \<longleftrightarrow> ?b * 0x20000 \<le> x \<and> x < ?b * 0x20000 + 0x20000" by (auto simp: div_nat_eqI)
    then show ?thesis by (auto simp: q1_def q2_def put_at_get)
  qed
  have desc: "logicalBlockDesc q2 = (logicalBlockDesc q)[?b := \<lparr> dirtyCache = m \<or> dirtyCache ?d, inCache = True \<rparr>]"
  proof -
    obtain dd ic where d: "?d = \<lparr> dirtyCache = dd, inCache = ic \<rparr>" by (cases ?d)
    have "(logicalBlockDesc q)[?b := \<lparr> dirtyCache = dd, inCache = ic \<rparr>] = logicalBlockDesc q"
      unfolding d [symmetric] by simp
    then show ?thesis using b len by (auto simp: q1_def q2_def d)
  qed
  have same: "chip q2 = chip q" "cacheDirtyFlag q2 = cacheDirtyFlag q" "blockSize q2 = blockSize q" "blockCount q2 = blockCount q"
    "dieSize q2 = dieSize q" "logicalToPhysicalMap q2 = logicalToPhysicalMap q"
    by (simp_all add: q1_def q2_def)
  have "disk_inv c q2"
    using inv flag b len by (auto simp: disk_inv_def same desc data nth_list_update)
  moreover have "disk_view c q2 x = disk_view c q x" if "x < 0x8000000" for x
    using b len by (auto simp: disk_view_def same desc data nth_list_update)
  ultimately show ?thesis using run same(1,2) desc by blast
qed

definition keeps :: "'d nand \<Rightarrow> bool \<Rightarrow> 'd qspi \<Rightarrow> 'd qspi \<Rightarrow> bool" where
  "keeps c m q q' \<longleftrightarrow> disk_inv c q' \<and> (\<forall>x < 0x8000000. disk_view c q' x = disk_view c q x)
    \<and> chip q' = chip q \<and> cacheDirtyFlag q' = cacheDirtyFlag q
    \<and> (\<forall>b < 1024. (inCache (logicalBlockDesc q ! b) \<longrightarrow> inCache (logicalBlockDesc q' ! b))
         \<and> (dirtyCache (logicalBlockDesc q ! b) \<longrightarrow> dirtyCache (logicalBlockDesc q' ! b)))"

lemma keeps_trans: "keeps c m q1 q2 \<Longrightarrow> keeps c m q2 q3 \<Longrightarrow> keeps c m q1 q3"
  by (simp add: keeps_def)

definition has_block :: "bool \<Rightarrow> nat \<Rightarrow> 'd qspi \<Rightarrow> bool" where
  "has_block m x q \<longleftrightarrow> inCache (logicalBlockDesc q ! (x div 0x20000)) \<and> (m \<longrightarrow> dirtyCache (logicalBlockDesc q ! (x div 0x20000)))"

lemma demand_block_keeps:
  assumes "disk_inv c q" and "unat off < 0x8000000" and "m \<longrightarrow> cacheDirtyFlag q"
  shows "\<exists>q'. demand_block c off m q = Some q' \<and> keeps c m q q' \<and> has_block m (unat off) q'"
proof -
  have "unat off div 0x20000 < 1024" "length (logicalBlockDesc q) = 1024" using assms(1,2) by (simp_all add: disk_inv_def)
  then show ?thesis
    using demand_block_ok [OF assms] by (auto simp: keeps_def has_block_def nth_list_update)
qed

lemma demand_loop_ok:
  "disk_inv c q \<Longrightarrow> m \<longrightarrow> cacheDirtyFlag q \<Longrightarrow> unat endO \<le> 0x8000000 \<Longrightarrow>
    \<exists>q'. demandCopyFlashBlocksToCache c off endO m q = Some q' \<and> keeps c m q q'
      \<and> (\<forall>k. unat off + k * 0x20000 < unat endO \<longrightarrow> has_block m (unat off + k * 0x20000) q')"
proof (induction "unat endO - unat off" arbitrary: off q rule: less_induct)
  case less
  show ?case
  proof (cases "off < endO")
    case False
    then have "\<not> unat off < unat endO" by (simp add: word_less_nat_alt)
    then show ?thesis
      using False less.prems(1) by (subst demandCopyFlashBlocksToCache.simps) (simp add: keeps_def)
  next
    case True
    then have lt: "unat off < unat endO" by (simp add: word_less_nat_alt)
    then have o: "unat off < 0x8000000" using less.prems(3) by simp
    obtain q1 where d: "demand_block c off m q = Some q1" and k: "keeps c m q q1" and h: "has_block m (unat off) q1"
      using demand_block_keeps [OF less.prems(1) o less.prems(2)] by blast
    have q1: "disk_inv c q1" "m \<longrightarrow> cacheDirtyFlag q1" using k less.prems(2) by (simp_all add: keeps_def)
    have bs: "blockSize q1 = 0x20000" using q1(1) by (simp add: disk_inv_def)
    have off': "unat (off + 0x20000) = unat off + 0x20000" using unat_plus_nowrap [of off "0x20000"] o by simp
    have "unat endO - unat (off + 0x20000) < unat endO - unat off" using lt off' by simp
    from less.hyps [OF this q1(1,2) less.prems(3)]
    obtain q2 where r: "demandCopyFlashBlocksToCache c (off + 0x20000) endO m q1 = Some q2" and k2: "keeps c m q1 q2"
      and h2: "\<And>k. unat (off + 0x20000) + k * 0x20000 < unat endO \<Longrightarrow> has_block m (unat (off + 0x20000) + k * 0x20000) q2" by blast
    have "has_block m (unat off) q2" using h k2 o by (simp add: has_block_def keeps_def)
    then have "has_block m (unat off + k * 0x20000) q2" if "unat off + k * 0x20000 < unat endO" for k
      using that h2 [of "k - 1"] by (cases k) (simp_all add: off' add.assoc)
    moreover have "demandCopyFlashBlocksToCache c off endO m q = Some q2"
      using True by (subst demandCopyFlashBlocksToCache.simps) (simp add: d bs r)
    ultimately show ?thesis using keeps_trans [OF k k2] by blast
  qed
qed

text \<open>A request that starts at a block or stays in one reaches every block it touches.\<close>

definition request_ok :: "nat \<Rightarrow> nat \<Rightarrow> bool" where
  "request_ok off n \<longleftrightarrow> off + n \<le> 0x8000000 \<and> (off mod 0x20000 = 0 \<or> off mod 0x20000 + n \<le> 0x20000)"

lemma request_blocks:
  assumes "request_ok off n" and "off \<le> x" and "x < off + n"
  obtains k where "off + k * 0x20000 < off + n" "(off + k * 0x20000) div 0x20000 = x div 0x20000"
proof -
  let ?k = "x div 0x20000 - off div 0x20000"
  have le: "off div 0x20000 \<le> x div 0x20000" using assms(2) by (rule div_le_mono)
  have d: "(off + ?k * 0x20000) div 0x20000 = x div 0x20000" using le by simp
  have x: "x = x div 0x20000 * 0x20000 + x mod 0x20000" and off: "off = off div 0x20000 * 0x20000 + off mod 0x20000" by simp_all
  have "off + ?k * 0x20000 \<le> x"
  proof (cases "off mod 0x20000 = 0")
    case True
    then have "off + ?k * 0x20000 = x div 0x20000 * 0x20000" using le off by (simp add: diff_mult_distrib)
    then show ?thesis by (metis div_times_less_eq_dividend)
  next
    case False
    then have "off mod 0x20000 + n \<le> 0x20000" using assms(1) by (simp add: request_ok_def)
    moreover obtain d r where "off div 0x20000 = d" "off mod 0x20000 = r" "off = d * 0x20000 + r" using off by blast
    ultimately have "x < (off div 0x20000 + 1) * 0x20000" using assms(3) by simp
    then have "?k = 0" using less_mult_imp_div_less by fastforce
    then show ?thesis using assms(2) by simp
  qed
  then show thesis using that [of ?k] assms(3) d by simp
qed

lemma demand_request:
  assumes "disk_inv c q" and "m \<longrightarrow> cacheDirtyFlag q" and "request_ok off n"
  shows "\<exists>q'. demandCopyFlashBlocksToCache c (of_nat off) (of_nat off + of_nat n) m q = Some q' \<and> keeps c m q q'
      \<and> (\<forall>x. off \<le> x \<and> x < off + n \<longrightarrow> has_block m x q')"
proof -
  have u: "unat (of_nat off :: u64) = off" "unat (of_nat off + of_nat n :: u64) = off + n"
    using assms(3) unat_of_nat_small [of off] unat_of_nat_small [of "off + n"] by (simp_all add: request_ok_def)
  have e: "unat (of_nat off + of_nat n :: u64) \<le> 0x8000000" using assms(3) u by (simp add: request_ok_def)
  obtain q' where q': "demandCopyFlashBlocksToCache c (of_nat off) (of_nat off + of_nat n) m q = Some q'" "keeps c m q q'"
    and h: "\<And>k. off + k * 0x20000 < off + n \<Longrightarrow> has_block m (off + k * 0x20000) q'"
    using demand_loop_ok [OF assms(1,2) e, of "of_nat off"] unfolding u by blast
  have "has_block m x q'" if x: "off \<le> x" "x < off + n" for x
  proof -
    obtain k where k: "off + k * 0x20000 < off + n" "(off + k * 0x20000) div 0x20000 = x div 0x20000"
      by (rule request_blocks [OF assms(3) x])
    show ?thesis using h [OF k(1)] unfolding has_block_def k(2) .
  qed
  then show ?thesis using q' by blast
qed

lemma cached_read_ok:
  assumes "disk_inv c q" and "request_ok off n"
  shows "\<exists>q'. HSS_CachedQSPI_ReadBlock c (of_nat off) (of_nat n) q = Some (True, map (disk_view c q) [off..<off + n], q')
    \<and> disk_inv c q' \<and> (\<forall>x < 0x8000000. disk_view c q' x = disk_view c q x)"
proof -
  obtain q' where q': "demandCopyFlashBlocksToCache c (of_nat off) (of_nat off + of_nat n) False q = Some q'" "keeps c False q q'"
    and h: "\<And>x. off \<le> x \<Longrightarrow> x < off + n \<Longrightarrow> has_block False x q'"
    using demand_request [OF assms(1) _ assms(2), of False] by auto
  have u: "unat (of_nat off :: u64) = off" "unat (of_nat n :: u64) = n" "unat (of_nat off + of_nat n :: u64) = off + n"
    using assms(2) unat_of_nat_small [of off] unat_of_nat_small [of n] unat_of_nat_small [of "off + n"] by (simp_all add: request_ok_def)
  have d: "unat (ucast (dieSize q) :: u64) = 0x8000000" using assms(1) by (simp add: disk_inv_def)
  have le: "(of_nat off + of_nat n :: u64) \<le> ucast (dieSize q)"
    unfolding word_le_nat_alt u d using assms(2) by (simp add: request_ok_def)
  have "cacheData q' x = disk_view c q x" if "off \<le> x" "x < off + n" for x
  proof -
    have "disk_view c q' x = disk_view c q x" using q'(2) that assms(2) by (simp add: keeps_def request_ok_def)
    then show ?thesis using h [OF that] by (simp add: disk_view_def has_block_def)
  qed
  then have "map (cacheData q') [off..<off + n] = map (disk_view c q) [off..<off + n]" by simp
  then show ?thesis
    using q' le by (simp add: HSS_CachedQSPI_ReadBlock_def u keeps_def)
qed

lemma cached_write_ok:
  assumes "disk_inv c q" and "request_ok off (length bs)"
  shows "\<exists>q'. HSS_CachedQSPI_WriteBlock c (of_nat off) bs q = Some (True, q')
    \<and> disk_inv c q' \<and> (\<forall>x < 0x8000000. disk_view c q' x = put_at off bs (disk_view c q) x)"
proof -
  let ?q = "q\<lparr>cacheDirtyFlag := True\<rparr>"
  have "disk_inv c ?q" using assms(1) by (simp add: disk_inv_def)
  then obtain q' where q': "demandCopyFlashBlocksToCache c (of_nat off) (of_nat off + of_nat (length bs)) True ?q = Some q'" "keeps c True ?q q'"
    and h: "\<And>x. off \<le> x \<Longrightarrow> x < off + length bs \<Longrightarrow> has_block True x q'"
    using demand_request [OF _ _ assms(2), of c ?q True] by auto
  have u: "unat (of_nat off :: u64) = off" "unat (of_nat off + of_nat (length bs) :: u64) = off + length bs"
    using assms(2) unat_of_nat_small [of off] unat_of_nat_small [of "off + length bs"] by (simp_all add: request_ok_def)
  have d: "unat (ucast (dieSize q) :: u64) = 0x8000000" using assms(1) by (simp add: disk_inv_def)
  have le: "(of_nat off + of_nat (length bs) :: u64) \<le> ucast (dieSize q)"
    unfolding word_le_nat_alt u d using assms(2) by (simp add: request_ok_def)
  let ?q2 = "q'\<lparr>cacheData := put_at off bs (cacheData q')\<rparr>"
  have "disk_inv c ?q2"
    using q'(2) h by (auto simp: keeps_def disk_inv_def put_at_get has_block_def)
  moreover have "disk_view c ?q2 x = put_at off bs (disk_view c q) x" if "x < 0x8000000" for x
  proof -
    have "disk_view c q' x = disk_view c ?q x" using q'(2) that by (simp add: keeps_def)
    then have "disk_view c q' x = disk_view c q x" by (simp add: disk_view_def)
    then show ?thesis using h [of x] by (auto simp: disk_view_def put_at_get has_block_def)
  qed
  ultimately show ?thesis
    using q'(1) le by (simp add: HSS_CachedQSPI_WriteBlock_def u)
qed

text \<open>Erasing a good block and writing it anew.\<close>

lemma rewrite_block:
  assumes "nand_ok c" and "\<not> bad_marker c d i" and "length bs = 0x20000" and "i < 1024"
  shows "\<exists>d1 st d2. Flash_erase_block c (ucast (of_nat i :: u32)) d = (0, d1)
    \<and> Flash_program c bs (ucast (ucast (of_nat i :: u32) * 0x20000 :: u64)) d1 = (st, d2)
    \<and> (\<forall>x. chip_byte c d2 x = (if x div 0x20000 = i then bs ! (x mod 0x20000) else chip_byte c d x))
    \<and> (\<forall>b. bad_marker c d2 b \<longrightarrow> bad_marker c d b)"
proof -
  have u: "unat (ucast (of_nat i :: u32) :: u16) = i" using assms(4) by (simp add: unsigned_ucast_eq small_words take_bit_nat_eq_self)
  obtain st d1 where e: "nand_erase c i d = (st, d1)" "STATUS_REG_3_EFAIL AND st = 0"
    and d1: "\<And>p j. nand_byte c d1 p j = (if p div 64 = i then 0xFF else nand_byte c d p j)"
    using nand_eraseE [OF assms(1,2)] by blast
  have er: "Flash_erase_block c (ucast (of_nat i :: u32)) d = (0, d1)"
    using assms(2) e by (simp add: Flash_erase_block_def erase_block_def u is_bad_block_iff)
  have "nand_byte c d1 p j = 0xFF" if "i * 64 \<le> p" "(p - i * 64) * 2048 < length bs" for p j
  proof -
    have "p div 64 = i" using that assms(3) by (intro div_nat_eqI) simp_all
    then show ?thesis by (simp add: d1)
  qed
  then obtain st2 d2 where p: "program_pages c (i * 64) bs 0xFF d1 = (st2, d2)"
    and d2: "\<And>p j. nand_byte c d2 p j = (if j < 2048 \<and> i * 64 \<le> p \<and> (p - i * 64) * 2048 + j < length bs
            then bs ! ((p - i * 64) * 2048 + j) else nand_byte c d1 p j)"
    using program_pages_ok [OF assms(1), of "i * 64" bs d1 "0xFF"] by blast
  have dv: "i * 0x20000 div 2048 = i * 64" by simp
  have pr: "Flash_program c bs (ucast (ucast (of_nat i :: u32) * 0x20000 :: u64)) d1 = (st2, d2)"
    unfolding Flash_program_def block_address(2) [OF assms(4)] dv by (rule p)
  have "chip_byte c d2 x = (if x div 0x20000 = i then bs ! (x mod 0x20000) else chip_byte c d x)" for x
  proof -
    have q: "x div 2048 div 64 = x div 0x20000" "x div 2048 * 2048 + x mod 2048 = x" by (simp_all add: div_mult2_eq [symmetric])
    show ?thesis
    proof (cases "x div 0x20000 = i")
      case True
      have "i * 0x20000 + x mod 0x20000 = x" using True div_mult_mod_eq [of x "0x20000"] by simp
      moreover have "i * 64 \<le> x div 2048" using q(1) True by (metis div_times_less_eq_dividend)
      then have "(x div 2048 - i * 64) * 2048 + x mod 2048 = x - i * 0x20000" using q(2) by (simp add: diff_mult_distrib)
      ultimately have "(x div 2048 - i * 64) * 2048 + x mod 2048 = x mod 0x20000" "x mod 0x20000 < 0x20000" by simp_all
      then show ?thesis
        using True \<open>i * 64 \<le> x div 2048\<close> assms(3) by (simp add: chip_byte_def d2)
    next
      case False
      have "\<not> (i * 64 \<le> x div 2048 \<and> (x div 2048 - i * 64) * 2048 + x mod 2048 < length bs)"
      proof
        assume a: "i * 64 \<le> x div 2048 \<and> (x div 2048 - i * 64) * 2048 + x mod 2048 < length bs"
        then obtain k where k: "x div 2048 = i * 64 + k" using le_Suc_ex by blast
        have "k * 2048 + x mod 2048 < 0x20000" using a assms(3) unfolding k by simp
        then have "x div 2048 < i * 64 + 64" unfolding k by linarith
        then have "x div 2048 div 64 = i" using a by (intro div_nat_eqI) simp_all
        then show False using q(1) False by simp
      qed
      then show ?thesis using False q(1) by (auto simp: chip_byte_def d2 d1)
    qed
  qed
  moreover have "bad_marker c d b" if "bad_marker c d2 b" for b
    using that by (auto simp: bad_marker_def d2 d1 split: if_splits)
  ultimately show ?thesis using er pr by blast
qed

definition dirty_from :: "nat \<Rightarrow> 'd qspi \<Rightarrow> nat" where
  "dirty_from i q = length (filter dirtyCache (drop i (logicalBlockDesc q)))"

lemma flush_block_ok:
  assumes inv: "disk_inv c q" and i: "i < 1024"
  shows "\<exists>q'. flush_block c (of_nat (i * 0x20000)) (dirty_from i q) q = Some (True, dirty_from (Suc i) q', q')
    \<and> disk_inv c q' \<and> (\<forall>x < 0x8000000. disk_view c q' x = disk_view c q x) \<and> cacheDirtyFlag q' = cacheDirtyFlag q
    \<and> \<not> dirtyCache (logicalBlockDesc q' ! i) \<and> (\<forall>b < i. logicalBlockDesc q' ! b = logicalBlockDesc q ! b)"
proof -
  let ?d = "logicalBlockDesc q ! i"
  have len: "length (logicalBlockDesc q) = 1024" and ok: "nand_ok c" and bs: "blockSize q = 0x20000"
    and good: "\<not> bad_marker c (chip q) i" using inv i by (simp_all add: disk_inv_def)
  have dr: "drop i (logicalBlockDesc q) = ?d # drop (Suc i) (logicalBlockDesc q)" using i len by (simp add: Cons_nth_drop_Suc)
  have u: "unat (of_nat (i * 0x20000) :: u64) = i * 0x20000" using i by (intro unat_of_nat_small) simp
  have blk: "column_to_block q (ucast (of_nat (i * 0x20000) :: u64)) = Some (of_nat i)"
    using disk_block [OF inv, of "of_nat (i * 0x20000)"] i unfolding u by simp
  show ?thesis
  proof (cases "dirtyCache ?d")
    case False
    have "flush_block c (of_nat (i * 0x20000)) (dirty_from i q) q = Some (True, dirty_from (Suc i) q, q)"
      using False i unfolding flush_block_def blk
      by (simp add: identity_block [OF inv i] small_words(1) [OF i] len dirty_from_def dr)
    then show ?thesis using inv False by blast
  next
    case True
    then have ic: "inCache ?d" and fl: "cacheDirtyFlag q" using inv i by (auto simp: disk_inv_def)
    let ?bs = "map (cacheData q) [i * 0x20000..<i * 0x20000 + 0x20000]"
    obtain d1 st d2 where er: "Flash_erase_block c (ucast (of_nat i :: u32)) (chip q) = (0, d1)"
      and pr: "Flash_program c ?bs (ucast (ucast (of_nat i :: u32) * 0x20000 :: u64)) d1 = (st, d2)"
      and d2: "\<And>x. chip_byte c d2 x = (if x div 0x20000 = i then ?bs ! (x mod 0x20000) else chip_byte c (chip q) x)"
      and bm: "\<And>b. bad_marker c d2 b \<Longrightarrow> bad_marker c (chip q) b"
      using rewrite_block [OF ok good _ i, of ?bs] by auto
    have d2': "chip_byte c d2 x = (if x div 0x20000 = i then cacheData q x else chip_byte c (chip q) x)" for x
    proof -
      have "x div 0x20000 * 0x20000 + x mod 0x20000 = x" "x mod 0x20000 < 0x20000" by simp_all
      then have "?bs ! (x mod 0x20000) = cacheData q x" if "x div 0x20000 = i" using that by simp
      then show ?thesis using d2 [of x] by auto
    qed
    let ?q = "q\<lparr>chip := d2, logicalBlockDesc := (logicalBlockDesc q)[i := ?d\<lparr>dirtyCache := False\<rparr>]\<rparr>"
    have "flush_block c (of_nat (i * 0x20000)) (dirty_from i q) q = Some (True, dirty_from i q - 1, ?q)"
      using True ic i unfolding flush_block_def blk
      by (simp add: identity_block [OF inv i] small_words(1) [OF i] len er bs block_address(1) [OF i] pr)
    moreover have "dirty_from i q - 1 = dirty_from (Suc i) ?q" using True by (simp add: dirty_from_def dr)
    moreover have "disk_inv c ?q"
      using inv i len bm ic by (auto simp: disk_inv_def nth_list_update d2')
    moreover have "disk_view c ?q x = disk_view c q x" if "x < 0x8000000" for x
      using i len ic by (auto simp: disk_view_def nth_list_update d2')
    ultimately show ?thesis using i len by (intro exI [of _ ?q]) (simp add: nth_list_update)
  qed
qed

lemma flush_blocks_ok:
  "disk_inv c q \<Longrightarrow> i \<le> 1024 \<Longrightarrow> \<forall>b < i. \<not> dirtyCache (logicalBlockDesc q ! b) \<Longrightarrow>
    \<exists>q'. flush_blocks c (of_nat (i * 0x20000)) 0x8000000 (dirty_from i q) q = Some q' \<and> disk_inv c q'
      \<and> (\<forall>x < 0x8000000. disk_view c q' x = disk_view c q x) \<and> (\<forall>b < 1024. \<not> dirtyCache (logicalBlockDesc q' ! b))"
proof (induction "1024 - i" arbitrary: i q)
  case 0
  then have "i = 1024" by simp
  then show ?case using 0 by (subst flush_blocks.simps) simp
next
  case (Suc n)
  then have i: "i < 1024" and n: "n = 1024 - Suc i" by auto
  have len: "length (logicalBlockDesc q) = 1024" using Suc.prems(1) by (simp add: disk_inv_def)
  show ?case
  proof (cases "dirty_from i q = 0")
    case True
    then have "\<forall>e \<in> set (drop i (logicalBlockDesc q)). \<not> dirtyCache e" by (simp add: dirty_from_def filter_empty_conv)
    then have "\<not> dirtyCache (logicalBlockDesc q ! b)" if "i \<le> b" "b < 1024" for b
    proof -
      have "logicalBlockDesc q ! b = drop i (logicalBlockDesc q) ! (b - i)" "b - i < length (drop i (logicalBlockDesc q))"
        using that len by simp_all
      then show ?thesis using \<open>\<forall>e \<in> set _. _\<close> nth_mem by metis
    qed
    then have "\<forall>b < 1024. \<not> dirtyCache (logicalBlockDesc q ! b)" using Suc.prems(3) by (metis not_le)
    then show ?thesis using True Suc.prems(1) by (subst flush_blocks.simps) simp
  next
    case False
    obtain q1 where f: "flush_block c (of_nat (i * 0x20000)) (dirty_from i q) q = Some (True, dirty_from (Suc i) q1, q1)"
      and q1: "disk_inv c q1" "\<forall>x < 0x8000000. disk_view c q1 x = disk_view c q x" "\<not> dirtyCache (logicalBlockDesc q1 ! i)"
        "\<forall>b < i. logicalBlockDesc q1 ! b = logicalBlockDesc q ! b"
      using flush_block_ok [OF Suc.prems(1) i] by blast
    have "\<forall>b < Suc i. \<not> dirtyCache (logicalBlockDesc q1 ! b)" using q1(3,4) Suc.prems(3) by (simp add: less_Suc_eq)
    from Suc.hyps(1) [OF n q1(1) _ this] i
    obtain q' where r: "flush_blocks c (of_nat (Suc i * 0x20000)) 0x8000000 (dirty_from (Suc i) q1) q1 = Some q'"
      and q': "disk_inv c q'" "\<forall>x < 0x8000000. disk_view c q' x = disk_view c q1 x" "\<forall>b < 1024. \<not> dirtyCache (logicalBlockDesc q' ! b)"
      by auto
    have b: "blockSize q1 = 0x20000" using q1(1) by (simp add: disk_inv_def)
    have off: "(of_nat (i * 0x20000) + ucast (0x20000 :: u32) :: u64) = of_nat (Suc i * 0x20000)" by simp
    have "unat (of_nat (i * 0x20000) :: u64) = i * 0x20000" using i by (intro unat_of_nat_small) simp
    then have lt: "(of_nat (i * 0x20000) :: u64) < 0x8000000" using i by (simp add: word_less_nat_alt)
    have "flush_blocks c (of_nat (i * 0x20000)) 0x8000000 (dirty_from i q) q = Some q'"
      using False lt r by (subst flush_blocks.simps) (simp only: f b off bind.bind_lunit prod.case if_True refl not_False_eq_True simp_thms) 
    then show ?thesis using q' q1(2) by auto
  qed
qed

lemma cached_flush_ok:
  assumes "disk_inv c q"
  shows "\<exists>q'. HSS_CachedQSPI_FlushWriteBuffer c q = Some q' \<and> disk_inv c q'
    \<and> (\<forall>x < 0x8000000. disk_view c q' x = disk_view c q x \<and> chip_byte c (chip q') x = disk_view c q x)"
proof (cases "cacheDirtyFlag q")
  case False
  then have "\<forall>b < 1024. \<not> dirtyCache (logicalBlockDesc q ! b)" using assms by (auto simp: disk_inv_def)
  then have "chip_byte c (chip q) x = disk_view c q x" if "x < 0x8000000" for x
    using assms that by (auto simp: disk_inv_def disk_view_def)
  then show ?thesis using False assms by (simp add: HSS_CachedQSPI_FlushWriteBuffer_def)
next
  case True
  obtain q1 where r: "flush_blocks c 0 0x8000000 (dirty_from 0 q) q = Some q1"
    and q1: "disk_inv c q1" "\<forall>x < 0x8000000. disk_view c q1 x = disk_view c q x" "\<forall>b < 1024. \<not> dirtyCache (logicalBlockDesc q1 ! b)"
    using flush_blocks_ok [OF assms, of 0] by auto
  have g: "blockCount q = 1024" "length (logicalBlockDesc q) = 1024" "dieSize q = 0x8000000" using assms by (simp_all add: disk_inv_def)
  have f: "HSS_CachedQSPI_FlushWriteBuffer c q = Some (q1\<lparr>cacheDirtyFlag := False\<rparr>)"
    using True r by (simp add: HSS_CachedQSPI_FlushWriteBuffer_def copyCacheToFlashBlocks_def g dirty_from_def)
  have i: "disk_inv c (q1\<lparr>cacheDirtyFlag := False\<rparr>)" using q1(1,3) by (simp add: disk_inv_def)
  have v: "disk_view c (q1\<lparr>cacheDirtyFlag := False\<rparr>) x = disk_view c q1 x" for x by (simp add: disk_view_def)
  have "chip_byte c (chip q1) x = disk_view c q1 x" if "x < 0x8000000" for x
    using q1(1,3) that by (auto simp: disk_inv_def disk_view_def)
  then show ?thesis using f i v q1(2) by auto
qed

subsection \<open>A storage provider as an array of bytes\<close>

datatype disk_op = Disk_read nat nat | Disk_write nat "u8 list" | Disk_flush

text \<open>What a disk answers to a sequence of operations, and what it holds at the end.\<close>

fun disk_spec :: "disk_op list \<Rightarrow> (nat \<Rightarrow> u8) \<Rightarrow> u8 list list \<times> (nat \<Rightarrow> u8)" where
  "disk_spec [] m = ([], m)"
| "disk_spec (Disk_read off n # ops) m = (case disk_spec ops m of (outs, m') \<Rightarrow> (map m [off..<off + n] # outs, m'))"
| "disk_spec (Disk_write off bs # ops) m = disk_spec ops (put_at off bs m)"
| "disk_spec (Disk_flush # ops) m = disk_spec ops m"

fun disk_run :: "(nat \<Rightarrow> nat \<Rightarrow> 'q \<Rightarrow> (u8 list \<times> 'q) option) \<Rightarrow> (nat \<Rightarrow> u8 list \<Rightarrow> 'q \<Rightarrow> 'q option) \<Rightarrow> ('q \<Rightarrow> 'q option)
    \<Rightarrow> disk_op list \<Rightarrow> 'q \<Rightarrow> (u8 list list \<times> 'q) option" where
  "disk_run rd wr fl [] q = Some ([], q)"
| "disk_run rd wr fl (Disk_read off n # ops) q = do {
     (bs, q1) \<leftarrow> rd off n q;
     (outs, q2) \<leftarrow> disk_run rd wr fl ops q1;
     Some (bs # outs, q2)
   }"
| "disk_run rd wr fl (Disk_write off bs # ops) q = do { q1 \<leftarrow> wr off bs q; disk_run rd wr fl ops q1 }"
| "disk_run rd wr fl (Disk_flush # ops) q = do { q1 \<leftarrow> fl q; disk_run rd wr fl ops q1 }"

fun disk_op_ok :: "(nat \<Rightarrow> nat \<Rightarrow> bool) \<Rightarrow> disk_op \<Rightarrow> bool" where
  "disk_op_ok request (Disk_read off n) = request off n"
| "disk_op_ok request (Disk_write off bs) = request off (length bs)"
| "disk_op_ok request Disk_flush = True"

text \<open>The contract of a storage provider with its clients: it looks like an array of bytes.\<close>

locale block_device =
  fixes inv :: "'q \<Rightarrow> bool" and view :: "'q \<Rightarrow> nat \<Rightarrow> u8" and request :: "nat \<Rightarrow> nat \<Rightarrow> bool" and sz :: nat
    and rd :: "nat \<Rightarrow> nat \<Rightarrow> 'q \<Rightarrow> (u8 list \<times> 'q) option" and wr :: "nat \<Rightarrow> u8 list \<Rightarrow> 'q \<Rightarrow> 'q option" and fl :: "'q \<Rightarrow> 'q option"
  assumes within: "request off n \<Longrightarrow> off + n \<le> sz"
    and rd_ok: "inv q \<Longrightarrow> request off n \<Longrightarrow>
      \<exists>q'. rd off n q = Some (map (view q) [off..<off + n], q') \<and> inv q' \<and> (\<forall>x < sz. view q' x = view q x)"
    and wr_ok: "inv q \<Longrightarrow> request off (length bs) \<Longrightarrow>
      \<exists>q'. wr off bs q = Some q' \<and> inv q' \<and> (\<forall>x < sz. view q' x = put_at off bs (view q) x)"
    and fl_ok: "inv q \<Longrightarrow> \<exists>q'. fl q = Some q' \<and> inv q' \<and> (\<forall>x < sz. view q' x = view q x)"
begin

lemma run_ok:
  "inv q \<Longrightarrow> \<forall>x < sz. view q x = m x \<Longrightarrow> \<forall>op \<in> set ops. disk_op_ok request op \<Longrightarrow>
    \<exists>q'. disk_run rd wr fl ops q = Some (fst (disk_spec ops m), q') \<and> inv q' \<and> (\<forall>x < sz. view q' x = snd (disk_spec ops m) x)"
proof (induction ops arbitrary: q m)
  case Nil
  then show ?case by simp
next
  case (Cons op ops)
  show ?case
  proof (cases op)
    case (Disk_read off n)
    then have r: "request off n" using Cons.prems(3) by simp
    obtain q1 where q1: "rd off n q = Some (map (view q) [off..<off + n], q1)" "inv q1" "\<forall>x < sz. view q1 x = view q x"
      using rd_ok [OF Cons.prems(1) r] by blast
    have "map (view q) [off..<off + n] = map m [off..<off + n]" using within [OF r] Cons.prems(2) by simp
    then show ?thesis
      using Disk_read q1 Cons.IH [OF q1(2), of m] Cons.prems(2,3) by (auto split: prod.split)
  next
    case (Disk_write off bs)
    then obtain q1 where q1: "wr off bs q = Some q1" "inv q1" "\<forall>x < sz. view q1 x = put_at off bs (view q) x"
      using wr_ok [OF Cons.prems(1)] Cons.prems(3) by force
    have "\<forall>x < sz. view q1 x = put_at off bs m x" using q1(3) Cons.prems(2) by (simp add: put_at_get)
    then show ?thesis
      using Disk_write q1 Cons.IH [OF q1(2), of "put_at off bs m"] Cons.prems(3) by auto
  next
    case Disk_flush
    obtain q1 where q1: "fl q = Some q1" "inv q1" "\<forall>x < sz. view q1 x = view q x"
      using fl_ok [OF Cons.prems(1)] by blast
    then show ?thesis
      using Disk_flush Cons.IH [OF q1(2), of m] Cons.prems(2,3) by auto
  qed
qed

end

text \<open>The operations of the cached provider with natural numbers for offsets; a result \<^verbatim>\<open>false\<close> counts as a failure.\<close>

definition cached_read :: "'d nand \<Rightarrow> nat \<Rightarrow> nat \<Rightarrow> 'd qspi \<Rightarrow> (u8 list \<times> 'd qspi) option" where
  "cached_read c off n q = do {
     (ok, bs, q1) \<leftarrow> HSS_CachedQSPI_ReadBlock c (of_nat off) (of_nat n) q;
     if ok then Some (bs, q1) else None
   }"

definition cached_write :: "'d nand \<Rightarrow> nat \<Rightarrow> u8 list \<Rightarrow> 'd qspi \<Rightarrow> 'd qspi option" where
  "cached_write c off bs q = do {
     (ok, q1) \<leftarrow> HSS_CachedQSPI_WriteBlock c (of_nat off) bs q;
     if ok then Some q1 else None
   }"

interpretation qspi_disk: block_device "disk_inv c" "disk_view c" request_ok "0x8000000"
    "cached_read c" "cached_write c" "HSS_CachedQSPI_FlushWriteBuffer c" for c :: "'d nand"
proof unfold_locales
  show "off + n \<le> 0x8000000" if "request_ok off n" for off n using that by (simp add: request_ok_def)
  show "\<exists>q'. cached_read c off n q = Some (map (disk_view c q) [off..<off + n], q') \<and> disk_inv c q'
      \<and> (\<forall>x < 0x8000000. disk_view c q' x = disk_view c q x)" if "disk_inv c q" "request_ok off n" for q off n
    using cached_read_ok [OF that] by (auto simp: cached_read_def)
  show "\<exists>q'. cached_write c off bs q = Some q' \<and> disk_inv c q'
      \<and> (\<forall>x < 0x8000000. disk_view c q' x = put_at off bs (disk_view c q) x)"
    if "disk_inv c q" "request_ok off (length bs)" for q off bs
    using cached_write_ok [OF that] by (auto simp: cached_write_def)
  show "\<exists>q'. HSS_CachedQSPI_FlushWriteBuffer c q = Some q' \<and> disk_inv c q'
      \<and> (\<forall>x < 0x8000000. disk_view c q' x = disk_view c q x)" if "disk_inv c q" for q
    using cached_flush_ok [OF that] by blast
qed

text \<open>After initialisation on a chip without bad blocks.\<close>

lemma no_bad_blocks: "\<forall>b < n. \<not> bad_marker c d b \<Longrightarrow> good_blocks c d n = [0..<n]"
  by (simp add: good_blocks_def filter_id_conv)

lemma init_good_chip:
  assumes "nand_ok c" and "nand_id c (chip q) = 0xEFAA21" and "\<forall>b < 1024. \<not> bad_marker c (chip q) b"
    and "\<not> qspiInitialized q" and "\<not> cacheDirtyFlag q"
  shows "\<exists>q0. HSS_CachedQSPIInit c q = Some (True, q0) \<and> disk_inv c q0 \<and> chip q0 = chip q
    \<and> (\<forall>x < 0x8000000. disk_view c q0 x = chip_byte c (chip q) x)"
proof -
  have "length (good_blocks c (chip q) 1024) = 1024" "good_blocks c (chip q) 1024 = [0..<1024]"
    using no_bad_blocks [OF assms(3)] by simp_all
  then obtain bm where i: "HSS_CachedQSPIInit c q = Some (True, q\<lparr>q_pageSize := 2048, blockSize := 0x20000, eraseSize := 0x20000,
      blockCount := 1024, pageCount := 0x10000, dieSize := 0x8000000, spi_nand := True,
      numBadBlocks := 0, badBlocksMap := bm, logicalToPhysicalMap := map of_nat [0..<1024],
      logicalBlockDesc := replicate 1024 \<lparr> dirtyCache = False, inCache = False \<rparr>, qspiIndex := 0, qspiInitialized := True\<rparr>)"
      (is "_ = Some (True, ?q0)")
    using QSPIInit_state [OF assms(4,2) refl] by (auto simp: HSS_CachedQSPIInit_def)
  have "logicalBlockDesc ?q0 ! b = \<lparr> dirtyCache = False, inCache = False \<rparr>" if "b < 1024" for b using that by simp
  then have "disk_inv c ?q0" "\<forall>x < 0x8000000. disk_view c ?q0 x = chip_byte c (chip q) x"
    using assms(1,3) by (simp_all add: disk_inv_def disk_view_def)
  then show ?thesis using i by (intro exI [of _ ?q0]) simp
qed

text \<open>C9. On a chip without bad blocks that keeps the promises of its data sheet, the cached provider is a disk: after its initialisation, any
  sequence of reads, writes and flushes (each request within one block or starting at one) runs without an error, every read returns
  what an array of bytes with the chip's contents would hold at that moment, and once the write buffer is flushed the chip itself
  holds exactly those contents.\<close>

theorem cached_qspi_refines_disk:
  assumes "nand_ok c" and "nand_id c (chip q) = 0xEFAA21" and "\<forall>b < 1024. \<not> bad_marker c (chip q) b"
    and "\<not> qspiInitialized q" and "\<not> cacheDirtyFlag q" and "\<forall>op \<in> set ops. disk_op_ok request_ok op"
  shows "\<exists>q0 q1 q2. HSS_CachedQSPIInit c q = Some (True, q0)
    \<and> disk_run (cached_read c) (cached_write c) (HSS_CachedQSPI_FlushWriteBuffer c) ops q0
        = Some (fst (disk_spec ops (chip_byte c (chip q))), q1)
    \<and> HSS_CachedQSPI_FlushWriteBuffer c q1 = Some q2
    \<and> (\<forall>x < 0x8000000. chip_byte c (chip q2) x = snd (disk_spec ops (chip_byte c (chip q))) x)"
proof -
  obtain q0 where q0: "HSS_CachedQSPIInit c q = Some (True, q0)" "disk_inv c q0"
    "\<forall>x < 0x8000000. disk_view c q0 x = chip_byte c (chip q) x"
    using init_good_chip [OF assms(1-5)] by blast
  from qspi_disk.run_ok [OF q0(2,3) assms(6)]
  obtain q1 where q1: "disk_run (cached_read c) (cached_write c) (HSS_CachedQSPI_FlushWriteBuffer c) ops q0
        = Some (fst (disk_spec ops (chip_byte c (chip q))), q1)" "disk_inv c q1"
      "\<forall>x < 0x8000000. disk_view c q1 x = snd (disk_spec ops (chip_byte c (chip q))) x" by blast
  from cached_flush_ok [OF q1(2)] obtain q2 where "HSS_CachedQSPI_FlushWriteBuffer c q1 = Some q2"
    "\<forall>x < 0x8000000. chip_byte c (chip q2) x = disk_view c q1 x" by blast
  then show ?thesis using q0(1) q1(1,3) by (intro exI [of _ q0] exI [of _ q1] exI [of _ q2]) simp
qed

text \<open>A chip to try things on: an array of pages.\<close>

definition array_nand :: "(nat \<Rightarrow> nat \<Rightarrow> u8) nand" where
  "array_nand = \<lparr> nand_id = \<lambda>d. 0xEFAA21, nand_status = \<lambda>d p. 0, nand_byte = \<lambda>d p i. d p i,
     nand_program = \<lambda>p bs d. (0, d(p := \<lambda>i. if i < length bs then bs ! i else d p i)),
     nand_erase = \<lambda>b d. (0, \<lambda>p i. if p div NUM_PAGES_PER_BLOCK = b then 0xFF else d p i) \<rparr>"

lemma array_nand_ok: "nand_ok array_nand"
  by (simp add: nand_ok_def array_nand_def)

definition fresh_qspi :: "'d \<Rightarrow> 'd qspi" where
  "fresh_qspi d = \<lparr> q_pageSize = 0, blockSize = 0, dieSize = 0, eraseSize = 0, pageCount = 0, blockCount = 0, spi_nand = True,
     numBadBlocks = 0, logicalToPhysicalMap = [], badBlocksMap = [], logicalBlockDesc = [], cacheData = \<lambda>x. 0xAA,
     qspiInitialized = False, qspiIndex = 0, cacheDirtyFlag = False, chip = d \<rparr>"

theorem cached_qspi_refines_disk_witness:
  "\<exists>q0 q1 q2. HSS_CachedQSPIInit array_nand (fresh_qspi (\<lambda>p i. 0xFF)) = Some (True, q0)
    \<and> disk_run (cached_read array_nand) (cached_write array_nand) (HSS_CachedQSPI_FlushWriteBuffer array_nand)
        [Disk_write 0x20000 [1, 2, 3], Disk_read 0x20001 3] q0 = Some ([[2, 3, 0xFF]], q1)
    \<and> HSS_CachedQSPI_FlushWriteBuffer array_nand q1 = Some q2
    \<and> (\<forall>x < 0x8000000. chip_byte array_nand (chip q2) x = put_at 0x20000 [1, 2, 3] (\<lambda>x. 0xFF) x)"
proof -
  let ?ops = "[Disk_write 0x20000 [1, 2, 3], Disk_read 0x20001 3]" and ?q = "fresh_qspi (\<lambda>p i. 0xFF) :: (nat \<Rightarrow> nat \<Rightarrow> u8) qspi"
  have "nand_id array_nand (chip ?q) = 0xEFAA21" "\<forall>b < 1024. \<not> bad_marker array_nand (chip ?q) b"
    "\<not> qspiInitialized ?q" "\<not> cacheDirtyFlag ?q" "\<forall>op \<in> set ?ops. disk_op_ok request_ok op"
    by (simp_all add: array_nand_def bad_marker_def fresh_qspi_def request_ok_def)
  note run = cached_qspi_refines_disk [OF array_nand_ok this]
  have b: "chip_byte array_nand (chip ?q) = (\<lambda>x. 0xFF)" by (simp add: chip_byte_def array_nand_def fresh_qspi_def fun_eq_iff)
  have "disk_spec ?ops (\<lambda>x. 0xFF) = ([[2, 3, 0xFF]], put_at 0x20000 [1, 2, 3] (\<lambda>x. 0xFF))"
    by (simp add: put_at_get upt_conv_Cons)
  then show ?thesis using run unfolding b by simp
qed

theorem HSS_QSPIInit_map_witness:
  "\<exists>q'. HSS_QSPIInit array_nand (fresh_qspi (\<lambda>p i. if p = 0 then 0 else 0xFF)) = Some (True, q')
    \<and> length (good_blocks array_nand (\<lambda>p i. if p = 0 then 0 else 0xFF) 1024) < 1024
    \<and> blockCount q' = of_nat (length (good_blocks array_nand (\<lambda>p i. if p = 0 then 0 else 0xFF) 1024))"
proof -
  let ?d = "\<lambda>p i. if p = 0 then 0 else 0xFF :: u8"
  have "\<not> qspiInitialized (fresh_qspi ?d)" "nand_id array_nand (chip (fresh_qspi ?d)) = 0xEFAA21"
    by (simp_all add: fresh_qspi_def array_nand_def)
  from HSS_QSPIInit_map [OF this] obtain q' where "HSS_QSPIInit array_nand (fresh_qspi ?d) = Some (True, q')"
    "blockCount q' = of_nat (length (good_blocks array_nand (chip (fresh_qspi ?d)) 1024))" by blast
  moreover have "length (good_blocks array_nand ?d 1024) < 1024"
    using length_filter_less [of 0 "[0..<1024]" "\<lambda>b. \<not> bad_marker array_nand ?d b"]
    by (simp add: good_blocks_def bad_marker_def array_nand_def)
  ultimately show ?thesis by (intro exI [of _ q']) (simp add: fresh_qspi_def)
qed

subsection \<open>Bad blocks\<close>

text \<open>The blocks before the first bad one stand for themselves.\<close>

lemma good_prefix:
  assumes "\<forall>b < F. \<not> bad_marker c d b" and "F \<le> n" and "b < F"
  shows "good_blocks c d n ! b = b" and "b < length (good_blocks c d n)"
proof -
  have "[0..<n] = [0..<F] @ [F..<n]" using assms(2) upt_add_eq_append [of 0 F "n - F"] by simp
  then have "good_blocks c d n = [0..<F] @ filter (\<lambda>b. \<not> bad_marker c d b) [F..<n]"
    using assms(1) by (simp add: good_blocks_def filter_id_conv)
  then show "good_blocks c d n ! b = b" and "b < length (good_blocks c d n)"
    using assms(3) by (simp_all add: nth_append)
qed

lemma length_good_blocks: "length (good_blocks c d n) \<le> n"
  unfolding good_blocks_def by (rule order_trans [OF length_filter_le]) simp

lemma init_table:
  assumes "logicalToPhysicalMap q = map of_nat (good_blocks c d 1024) @ r" and "blockCount q = of_nat (length (good_blocks c d 1024))"
    and "b < length (good_blocks c d 1024)" and "good_blocks c d 1024 ! b = p" and "p \<le> length (good_blocks c d 1024)"
  shows "physical_block k b q = Some (of_nat p, q)"
proof -
  have g: "length (good_blocks c d 1024) \<le> 1024" by (rule length_good_blocks)
  have u: "unat (of_nat p :: u16) = p" "unat (of_nat (length (good_blocks c d 1024)) :: u32) = length (good_blocks c d 1024)"
    using assms(5) g by (simp_all add: unat_of_nat take_bit_nat_eq_self)
  have "logicalToPhysicalMap q ! b = of_nat p" "b < length (logicalToPhysicalMap q)"
    using assms(1,3,4) by (simp_all add: nth_append)
  moreover have "\<not> (ucast (of_nat p :: u16) :: u32) > blockCount q"
    using assms(5) by (simp add: word_less_nat_alt assms(2) u unat_ucast_up)
  ultimately show ?thesis by (simp add: physical_block_def)
qed

text \<open>With the table of the initialisation, and no bad block before \<open>F\<close>, a read that starts below \<open>F\<close>.\<close>

lemma read_with_table:
  assumes q: "blockSize q0 = 0x20000" "logicalToPhysicalMap q0 = map of_nat (good_blocks c d 1024) @ replicate (1024 - length (good_blocks c d 1024)) 0"
      "blockCount q0 = of_nat (length (good_blocks c d 1024))"
    and good: "\<forall>b < F. \<not> bad_marker c d b" "F \<le> 1024"
    and off: "off < F * 0x20000" "off mod 2048 = 0" "off + n \<le> 0x8000000"
  shows "HSS_QSPI_ReadBlock c (of_nat off) (of_nat n) q0 = Some (True, map (chip_byte c (chip q0)) [off..<off + n], q0)"
proof -
  let ?b = "off div 0x20000"
  have b: "?b < F" using off(1) by (rule less_mult_imp_div_less)
  note gp = good_prefix [OF good b]
  have b1024: "?b < 1024" using b good(2) by simp
  have uo: "unat (ucast (of_nat off :: u64) :: u32) = off" and un: "unat (ucast (of_nat n :: u64) :: u32) = n"
    using off(3) by (simp_all add: unsigned_ucast_eq unat_of_nat take_bit_nat_eq_self)
  have ub: "unat (ucast (ucast (of_nat off :: u64) div (0x20000 :: u32)) :: u16) = ?b"
  proof -
    have "unat (ucast (of_nat off :: u64) div (0x20000 :: u32)) = ?b" unfolding unat_div_distrib uo by simp
    then show ?thesis using b1024 by (simp add: unsigned_ucast_eq take_bit_nat_eq_self)
  qed
  have um: "unat (ucast (of_nat off :: u64) mod (0x20000 :: u32)) = off mod 0x20000"
    unfolding unat_mod_distrib uo by simp
  have pb: "physical_block c ?b q0 = Some (of_nat ?b, q0)"
    by (rule init_table [OF q(2,3) gp(2,1)]) (use gp(2) in simp)
  have addr: "unat (ucast (of_nat ?b :: u16) * 0x20000 + ucast (of_nat off :: u64) mod 0x20000 :: u32) = off"
  proof -
    have e: "ucast (of_nat ?b :: u16) * 0x20000 + ucast (of_nat off :: u64) mod (0x20000 :: u32) = of_nat off"
    proof -
      have "ucast (of_nat off :: u64) mod (0x20000 :: u32) = of_nat (off mod 0x20000)"
        by (rule word_unat_eq_iff [THEN iffD2]) (simp add: um unat_of_nat take_bit_nat_eq_self)
      moreover have "of_nat ?b * 0x20000 + of_nat (off mod 0x20000) = (of_nat off :: u32)"
        by (metis div_mult_mod_eq of_nat_add of_nat_mult of_nat_numeral)
      ultimately show ?thesis by (simp add: small_words(4) [OF b1024])
    qed
    show ?thesis unfolding e using off(3) by (simp add: unat_of_nat take_bit_nat_eq_self)
  qed
  have sn: "nat (sint (ucast (of_nat n :: u64) :: u32)) = n"
  proof -
    have "uint (ucast (of_nat n :: u64) :: u32) = int n" using un by (metis uint_nat)
    then have "sint (ucast (of_nat n :: u64) :: u32) = signed_take_bit 31 (int n)" by (simp add: sint_uint)
    also have "\<dots> = int n" using off(3) by (intro signed_take_bit_int_eq_self) simp_all
    finally show ?thesis by simp
  qed
  have "Flash_read c (chip q0) (ucast (of_nat ?b :: u16) * 0x20000 + ucast (of_nat off :: u64) mod 0x20000) (ucast (of_nat n :: u64))
      = Some (0, map (chip_byte c (chip q0)) [off..<off + n])"
    using read_pages_ok [of c "chip q0" "off div 2048" n] off(2) mod_0_imp_dvd [OF off(2)]
    unfolding Flash_read_def addr sn by simp
  then show ?thesis by (simp add: HSS_QSPI_ReadBlock_def logical_to_physical_address_def q(1) ub pb)
qed

text \<open>A read that goes around the cache translates only the address of its first byte: started below the first bad block \<open>F\<close>,
  it returns physically consecutive bytes, so what lies below \<open>F\<close> is right, and what goes beyond comes out of the bad block itself, not out of
  the block that the table of blocks puts in its place.\<close>

theorem HSS_QSPI_ReadBlock_consecutive:
  assumes "\<not> qspiInitialized q" and "nand_id c (chip q) = 0xEFAA21"
    and "\<forall>b < F. \<not> bad_marker c (chip q) b" and "F \<le> 1024"
    and "off < F * 0x20000" and "off mod 2048 = 0" and "off + n \<le> 0x8000000"
  shows "\<exists>q0. HSS_QSPIInit c q = Some (True, q0)
    \<and> HSS_QSPI_ReadBlock c (of_nat off) (of_nat n) q0 = Some (True, map (chip_byte c (chip q)) [off..<off + n], q0)
    \<and> (F < length (good_blocks c (chip q) 1024) \<and> bad_marker c (chip q) F \<longrightarrow> unat (logicalToPhysicalMap q0 ! F) > F)"
proof -
  let ?G = "good_blocks c (chip q) 1024"
  obtain q0 where i: "HSS_QSPIInit c q = Some (True, q0)" and bs: "blockSize q0 = 0x20000" and ch: "chip q0 = chip q"
    and map: "logicalToPhysicalMap q0 = map of_nat ?G @ replicate (1024 - length ?G) 0"
    and bc: "blockCount q0 = of_nat (length ?G)"
    using QSPIInit_state [OF assms(1,2) refl] by auto
  have rd: "HSS_QSPI_ReadBlock c (of_nat off) (of_nat n) q0 = Some (True, map (chip_byte c (chip q)) [off..<off + n], q0)"
    using read_with_table [OF bs map bc assms(3-7)] by (simp add: ch)
  have "unat (logicalToPhysicalMap q0 ! F) > F" if "F < length ?G" "bad_marker c (chip q) F"
  proof -
    let ?p = "?G ! F"
    have mem: "?p \<in> set ?G" using that(1) by simp
    then have p: "?p < 1024" "?p \<noteq> F" using that(2) by (auto simp: good_blocks_def)
    have "\<not> ?p < F"
    proof
      assume l: "?p < F"
      have "?G ! ?p = ?p" "?p < length ?G" using good_prefix [OF assms(3,4) l] by auto
      then have "?p = F" using nth_eq_iff_index_eq [of ?G ?p F] that(1) by (simp add: good_blocks_def)
      then show False using l by simp
    qed
    then have "F < ?p" using p(2) by simp
    then show ?thesis using that(1) p(1) by (simp add: map nth_append unat_of_nat take_bit_nat_eq_self)
  qed
  then show ?thesis using i rd by (intro exI [of _ q0]) simp
qed

theorem HSS_QSPI_ReadBlock_consecutive_witness:
  "\<exists>q0. HSS_QSPIInit array_nand (fresh_qspi (\<lambda>p i. if p div 64 = 1 then 0 else 0xFF)) = Some (True, q0)
    \<and> HSS_QSPI_ReadBlock array_nand 0x1F800 0x1000 q0
        = Some (True, map (\<lambda>x. if x div 0x20000 = 1 then 0 else 0xFF) [0x1F800..<0x20800], q0)"
proof -
  let ?d = "\<lambda>p i. if p div 64 = 1 then 0 else 0xFF :: u8"
  have pre: "\<not> qspiInitialized (fresh_qspi ?d)" "nand_id array_nand (chip (fresh_qspi ?d)) = 0xEFAA21"
    "\<forall>b < 1. \<not> bad_marker array_nand (chip (fresh_qspi ?d)) b" "(1 :: nat) \<le> 1024"
    "0x1F800 < 1 * (0x20000 :: nat)" "0x1F800 mod 2048 = (0 :: nat)" "0x1F800 + 0x1000 \<le> (0x8000000 :: nat)"
    by (simp_all add: fresh_qspi_def array_nand_def bad_marker_def)
  have b: "chip_byte array_nand (chip (fresh_qspi ?d)) = (\<lambda>x. if x div 0x20000 = 1 then 0 else 0xFF)"
  proof
    fix x :: nat
    have "x div 2048 div 64 = x div 0x20000" by (simp add: div_mult2_eq [symmetric])
    then show "chip_byte array_nand (chip (fresh_qspi ?d)) x = (if x div 0x20000 = 1 then 0 else 0xFF)"
      by (simp add: chip_byte_def array_nand_def fresh_qspi_def)
  qed
  have e: "(0x1F800 + 0x1000 :: nat) = 0x20800" by simp
  obtain q0 where "HSS_QSPIInit array_nand (fresh_qspi ?d) = Some (True, q0)"
    "HSS_QSPI_ReadBlock array_nand 0x1F800 0x1000 q0
        = Some (True, map (chip_byte array_nand (chip (fresh_qspi ?d))) [0x1F800..<0x20800], q0)"
    using HSS_QSPI_ReadBlock_consecutive [OF pre] unfolding e of_nat_numeral by blast
  then show ?thesis unfolding b by blast
qed

text \<open>The cache is filled at the place of the physical block but read at the place of the logical one: if the first block of the chip
  is bad, then a read of the first logical block returns the bytes that the memory of the cache happened to hold, whatever is on the chip.\<close>

theorem cached_read_bad_block:
  assumes "\<not> qspiInitialized q" and "nand_id c (chip q) = 0xEFAA21"
    and "bad_marker c (chip q) 0" and "\<forall>b. 0 < b \<and> b < 1024 \<longrightarrow> \<not> bad_marker c (chip q) b" and "off + n \<le> 0x20000"
  shows "\<exists>q0 q1. HSS_CachedQSPIInit c q = Some (True, q0) \<and> logicalToPhysicalMap q0 ! 0 = 1
    \<and> HSS_CachedQSPI_ReadBlock c (of_nat off) (of_nat n) q0 = Some (True, map (cacheData q) [off..<off + n], q1)"
proof -
  obtain L :: "nat list" where L: "L = [1..<1024]" by blast
  have L0: "L ! 0 = 1" "length L = 1023" unfolding L by (rule nth_upt [THEN trans], simp, simp) (rule length_upt [THEN trans], simp)
  have "[0..<1024] = 0 # L" unfolding L by (rule upt_conv_Cons [THEN trans]) simp_all
  moreover have "filter (\<lambda>b. \<not> bad_marker c (chip q) b) L = L" unfolding filter_id_conv L using assms(4) by auto
  ultimately have G: "good_blocks c (chip q) 1024 = L" using assms(3) by (simp add: good_blocks_def)
  obtain q0 where i: "HSS_CachedQSPIInit c q = Some (True, q0)" and bs: "blockSize q0 = 0x20000" and ch: "chip q0 = chip q"
    and map: "logicalToPhysicalMap q0 = map of_nat L @ replicate 1 0"
    and bc: "blockCount q0 = 1023" and ds: "dieSize q0 = 0x7FE0000" and cd: "cacheData q0 = cacheData q"
    and ld: "logicalBlockDesc q0 = replicate 1024 \<lparr> dirtyCache = False, inCache = False \<rparr>"
    using QSPIInit_state [OF assms(1,2) refl] unfolding G HSS_CachedQSPIInit_def by (auto simp: L0)
  have m0: "logicalToPhysicalMap q0 ! 0 = 1" using L0 by (simp add: map nth_append)
  have u: "unat (of_nat off :: u64) = off" "unat (of_nat n :: u64) = n" "unat (of_nat off + of_nat n :: u64) = off + n"
    using assms(5) unat_of_nat_small [of off] unat_of_nat_small [of n] unat_of_nat_small [of "off + n"] by simp_all
  have le: "(of_nat off + of_nat n :: u64) \<le> ucast (dieSize q0)"
    using assms(5) unfolding word_le_nat_alt u by (simp add: ds)
  have "\<exists>q1. demandCopyFlashBlocksToCache c (of_nat off) (of_nat off + of_nat n) False q0 = Some q1
      \<and> (\<forall>x < 0x20000. cacheData q1 x = cacheData q x)"
  proof (cases "n = 0")
    case True
    then show ?thesis by (subst demandCopyFlashBlocksToCache.simps) (simp add: cd)
  next
    case False
    have lt: "(of_nat off :: u64) < of_nat off + of_nat n" unfolding word_less_nat_alt u using False by simp
    have un: "unat ((of_nat off :: u64) + 0x20000) = off + 0x20000"
      using assms(5) False unat_plus_nowrap [of "of_nat off" "0x20000"] by (simp add: u)
    have over: "\<not> (of_nat off + 0x20000 :: u64) < of_nat off + of_nat n" unfolding word_less_nat_alt u un using assms(5) by simp
    have "unat (ucast (of_nat off :: u64) :: u32) = off" using assms(5) False by (simp add: unsigned_ucast_eq u take_bit_nat_eq_self)
    then have "unat (ucast (of_nat off :: u64) div (0x20000 :: u32)) = 0" unfolding unat_div_distrib using assms(5) False by simp
    then have col: "column_to_block q0 (ucast (of_nat off :: u64)) = Some 0"
      by (simp add: column_to_block_def bs unat_eq_0)
    have pb: "logical_to_physical_block c 0 q0 = Some (1, q0)"
      using m0 by (simp add: logical_to_physical_block_def physical_block_def map bc L0)
    obtain bl where "read_pages c (chip q) 64 0x20000 = (0, bl)"
      using read_pages_ok [of c "chip q" 64 "0x20000"] by blast
    then have fr: "Flash_read c (chip q) 0x20000 0x20000 = Some (0, bl)" by (simp add: Flash_read_def)
    define q1 where "q1 = q0\<lparr>cacheData := put_at 0x20000 bl (cacheData q),
      logicalBlockDesc := (replicate 1024 \<lparr> dirtyCache = False, inCache = False \<rparr>)[1 := \<lparr> dirtyCache = False, inCache = True \<rparr>]\<rparr>"
    have "demand_block c (of_nat off) False q0 = Some q1"
      using fr by (simp add: demand_block_def col pb ld bs ch cd q1_def)
    then have "demandCopyFlashBlocksToCache c (of_nat off) (of_nat off + of_nat n) False q0 = Some q1"
      using lt over by (subst demandCopyFlashBlocksToCache.simps, subst demandCopyFlashBlocksToCache.simps) (simp add: q1_def bs)
    moreover have "\<forall>x < 0x20000. cacheData q1 x = cacheData q x" by (simp add: q1_def put_at_get)
    ultimately show ?thesis by blast
  qed
  then obtain q1 where "demandCopyFlashBlocksToCache c (of_nat off) (of_nat off + of_nat n) False q0 = Some q1"
    and "\<forall>x < 0x20000. cacheData q1 x = cacheData q x" by blast
  moreover from this(2) have "map (cacheData q1) [off..<off + n] = map (cacheData q) [off..<off + n]" using assms(5) by simp
  ultimately have "HSS_CachedQSPI_ReadBlock c (of_nat off) (of_nat n) q0 = Some (True, map (cacheData q) [off..<off + n], q1)"
    using le by (simp add: HSS_CachedQSPI_ReadBlock_def u)
  then show ?thesis using i m0 by blast
qed

theorem cached_read_bad_block_witness:
  "\<exists>q0 q1. HSS_CachedQSPIInit array_nand (fresh_qspi (\<lambda>p i. if p = 0 then 0 else 0xFF)) = Some (True, q0) \<and> logicalToPhysicalMap q0 ! 0 = 1
    \<and> HSS_CachedQSPI_ReadBlock array_nand 0 2 q0 = Some (True, [0xAA, 0xAA], q1)"
proof -
  let ?d = "\<lambda>p i. if p = 0 then 0 else 0xFF :: u8"
  have pre: "\<not> qspiInitialized (fresh_qspi ?d)" "nand_id array_nand (chip (fresh_qspi ?d)) = 0xEFAA21"
    "bad_marker array_nand (chip (fresh_qspi ?d)) 0" "\<forall>b. 0 < b \<and> b < 1024 \<longrightarrow> \<not> bad_marker array_nand (chip (fresh_qspi ?d)) b"
    "0 + 2 \<le> (0x20000 :: nat)"
    by (simp_all add: fresh_qspi_def array_nand_def bad_marker_def)
  have m: "map (cacheData (fresh_qspi ?d)) [0..<0 + 2] = [0xAA, 0xAA]" by (simp add: fresh_qspi_def upt_conv_Cons)
  from cached_read_bad_block [OF pre] show ?thesis unfolding m by simp
qed

end
