(* ===== verification/HSS_FpgaNand.thy ===== *)
theory HSS_FpgaNand
  imports HSS_Prelude
begin

text \<open>
  The NAND flash behind the FPGA: the driver baremetal/drivers/scai_fpgaqspi from the service
  functions (scai_fpgaqspi_service.c) through the MTD layer (mtdcore.c), the generic NAND layer
  with its table of bad blocks (nandcore.c, bbt.c, nand.h) down to the SPI NAND commands
  (spicore.c, winbond.c).

  Below that is the parameter of type \<open>spi_controller\<close>: the transfer of one SPI command
  (\<^verbatim>\<open>scai_fpgaqspi_exec_op\<close>) on a controller and a chip whose state has the type \<open>'d\<close>.  The
  transfer yields its result code and the stream of the bytes that come in.

  A result is an \<^verbatim>\<open>int\<close> as in the code: 0 or a positive number, or a negative error code.
  \<open>None\<close> is a loop that does not end.  The unsigned numbers of the geometry, lengths and
  positions are natural numbers: they are made from the constants of the one chip in the table
  and stay below 2^27.  Offsets and lengths of a caller have their width.  The page buffer
  \<^verbatim>\<open>databuf\<close> and the scratch buffer are filled before they are read in every command, so they
  are local here.
\<close>

subsection \<open>Helpers of scai_fpgaqspi.h\<close>

abbreviation (input) EIO :: int where "EIO \<equiv> 5"
abbreviation (input) EINVAL :: int where "EINVAL \<equiv> 22"
abbreviation (input) EROFS :: int where "EROFS \<equiv> 30"
abbreviation (input) ERANGE :: int where "ERANGE \<equiv> 34"
abbreviation (input) EBADMSG :: int where "EBADMSG \<equiv> 77"
abbreviation (input) EOPNOTSUPP :: int where "EOPNOTSUPP \<equiv> 95"
abbreviation (input) ETIMEDOUT :: int where "ETIMEDOUT \<equiv> 116"

text \<open>The position of the highest bit set, counted from one.\<close>

definition fls :: "u32 \<Rightarrow> nat" where
  "fls x =
     (if x = 0 then 0
      else
        let s16 = (\<lambda>(x :: u32, r :: nat). if x AND 0xFFFF0000 = 0 then (push_bit 16 x, r - 16) else (x, r));
            s8 = (\<lambda>(x :: u32, r :: nat). if x AND 0xFF000000 = 0 then (push_bit 8 x, r - 8) else (x, r));
            s4 = (\<lambda>(x :: u32, r :: nat). if x AND 0xF0000000 = 0 then (push_bit 4 x, r - 4) else (x, r));
            s2 = (\<lambda>(x :: u32, r :: nat). if x AND 0xC0000000 = 0 then (push_bit 2 x, r - 2) else (x, r));
            s1 = (\<lambda>(x :: u32, r :: nat). if x AND 0x80000000 = 0 then (push_bit 1 x, r - 1) else (x, r))
        in snd (s1 (s2 (s4 (s8 (s16 (x, 32)))))))"

text \<open>
  For \<^verbatim>\<open>h\<close> above 63 the count of the right shift is negative, which C leaves undefined; the shift
  of the target takes the count modulo 64, and that is what is written here.
\<close>

definition GENMASK :: "nat \<Rightarrow> nat \<Rightarrow> u64" where
  "GENMASK h l = push_bit (l mod 64) (- 1) AND drop_bit (nat ((63 - int h) mod 64)) (- 1)"

definition round_up :: "u64 \<Rightarrow> u32 \<Rightarrow> u64" where
  "round_up x y = ((x - 1) OR ucast (y - 1)) + 1"

subsection \<open>SPI commands (spi-mem.h, spinand.h)\<close>

datatype spi_mem_data_dir = SPI_MEM_NO_DATA | SPI_MEM_DATA_IN | SPI_MEM_DATA_OUT

record spi_mem_op =
  op_opcode :: u16
  op_cmd_buswidth :: nat
  op_addr_nbytes :: nat
  op_addr_buswidth :: nat
  op_addr_val :: nat
  op_dummy_nbytes :: nat
  op_data_buswidth :: nat
  op_data_dir :: spi_mem_data_dir
  op_data_nbytes :: nat
  op_data_out :: "u8 list"

record 'd spi_controller =
  spi_exec :: "spi_mem_op \<Rightarrow> 'd \<Rightarrow> int \<times> (nat \<Rightarrow> u8) \<times> 'd"
  spi_probe :: "'d \<Rightarrow> 'd"

definition SPI_CMD :: "u16 \<Rightarrow> spi_mem_op" where
  "SPI_CMD opc = \<lparr> op_opcode = opc, op_cmd_buswidth = 1, op_addr_nbytes = 0, op_addr_buswidth = 0, op_addr_val = 0,
     op_dummy_nbytes = 0, op_data_buswidth = 0, op_data_dir = SPI_MEM_NO_DATA, op_data_nbytes = 0, op_data_out = [] \<rparr>"

definition SPI_ADDR :: "nat \<Rightarrow> nat \<Rightarrow> nat \<Rightarrow> spi_mem_op \<Rightarrow> spi_mem_op" where
  "SPI_ADDR nbytes val buswidth p = p\<lparr>op_addr_nbytes := nbytes, op_addr_val := val, op_addr_buswidth := buswidth\<rparr>"

definition SPI_DATA_IN :: "nat \<Rightarrow> nat \<Rightarrow> spi_mem_op \<Rightarrow> spi_mem_op" where
  "SPI_DATA_IN nbytes buswidth p = p\<lparr>op_data_dir := SPI_MEM_DATA_IN, op_data_nbytes := nbytes, op_data_buswidth := buswidth\<rparr>"

definition SPI_DATA_OUT :: "u8 list \<Rightarrow> nat \<Rightarrow> spi_mem_op \<Rightarrow> spi_mem_op" where
  "SPI_DATA_OUT bs buswidth p =
     p\<lparr>op_data_dir := SPI_MEM_DATA_OUT, op_data_nbytes := length bs, op_data_buswidth := buswidth, op_data_out := bs\<rparr>"

definition SPINAND_RESET_OP :: spi_mem_op where "SPINAND_RESET_OP = SPI_CMD 0xFF"
definition SPINAND_WR_EN_DIS_OP :: "bool \<Rightarrow> spi_mem_op" where
  "SPINAND_WR_EN_DIS_OP enable = SPI_CMD (if enable then 0x06 else 0x04)"
definition SPINAND_READID_OP :: "nat \<Rightarrow> nat \<Rightarrow> spi_mem_op" where
  "SPINAND_READID_OP ndummy n = SPI_DATA_IN n 1 ((SPI_CMD 0x9F)\<lparr>op_dummy_nbytes := ndummy\<rparr>)"
definition SPINAND_SET_FEATURE_OP :: "nat \<Rightarrow> u8 \<Rightarrow> spi_mem_op" where
  "SPINAND_SET_FEATURE_OP reg val = SPI_DATA_OUT [val] 1 (SPI_ADDR 1 reg 1 (SPI_CMD 0x1F))"
definition SPINAND_GET_FEATURE_OP :: "nat \<Rightarrow> spi_mem_op" where
  "SPINAND_GET_FEATURE_OP reg = SPI_DATA_IN 1 1 (SPI_ADDR 1 reg 1 (SPI_CMD 0x0F))"
definition SPINAND_BLK_ERASE_OP :: "nat \<Rightarrow> spi_mem_op" where
  "SPINAND_BLK_ERASE_OP addr = SPI_ADDR 3 addr 1 (SPI_CMD 0xD8)"
definition SPINAND_PAGE_READ_OP :: "nat \<Rightarrow> spi_mem_op" where
  "SPINAND_PAGE_READ_OP addr = SPI_ADDR 3 addr 1 (SPI_CMD 0x13)"
definition SPINAND_PROG_EXEC_OP :: "nat \<Rightarrow> spi_mem_op" where
  "SPINAND_PROG_EXEC_OP addr = SPI_ADDR 3 addr 1 (SPI_CMD 0x10)"
definition SPINAND_PAGE_READ_FROM_CACHE_OP :: "bool \<Rightarrow> nat \<Rightarrow> nat \<Rightarrow> nat \<Rightarrow> spi_mem_op" where
  "SPINAND_PAGE_READ_FROM_CACHE_OP fast addr ndummy n =
     SPI_DATA_IN n 1 ((SPI_ADDR 2 addr 1 (SPI_CMD (if fast then 0x0B else 0x03)))\<lparr>op_dummy_nbytes := ndummy\<rparr>)"
definition SPINAND_PAGE_READ_FROM_CACHE_X4_OP :: "nat \<Rightarrow> nat \<Rightarrow> nat \<Rightarrow> spi_mem_op" where
  "SPINAND_PAGE_READ_FROM_CACHE_X4_OP addr ndummy n =
     SPI_DATA_IN n 4 ((SPI_ADDR 2 addr 1 (SPI_CMD 0x6B))\<lparr>op_dummy_nbytes := ndummy\<rparr>)"
definition SPINAND_PROG_LOAD :: "bool \<Rightarrow> nat \<Rightarrow> u8 list \<Rightarrow> spi_mem_op" where
  "SPINAND_PROG_LOAD reset addr bs = SPI_DATA_OUT bs 1 (SPI_ADDR 2 addr 1 (SPI_CMD (if reset then 0x02 else 0x84)))"
definition SPINAND_PROG_LOAD_X4 :: "bool \<Rightarrow> nat \<Rightarrow> u8 list \<Rightarrow> spi_mem_op" where
  "SPINAND_PROG_LOAD_X4 reset addr bs = SPI_DATA_OUT bs 4 (SPI_ADDR 2 addr 1 (SPI_CMD (if reset then 0x32 else 0x34)))"

abbreviation (input) REG_BLOCK_LOCK :: nat where "REG_BLOCK_LOCK \<equiv> 0xA0"
abbreviation (input) BL_ALL_UNLOCKED :: u8 where "BL_ALL_UNLOCKED \<equiv> 0"
abbreviation (input) REG_CFG :: nat where "REG_CFG \<equiv> 0xB0"
abbreviation (input) CFG_OTP_ENABLE :: u8 where "CFG_OTP_ENABLE \<equiv> 0x40"
abbreviation (input) CFG_ECC_ENABLE :: u8 where "CFG_ECC_ENABLE \<equiv> 0x10"
abbreviation (input) WINBOND_CFG_BUF_READ :: u8 where "WINBOND_CFG_BUF_READ \<equiv> 0x08"
abbreviation (input) CFG_QUAD_ENABLE :: u8 where "CFG_QUAD_ENABLE \<equiv> 0x01"
abbreviation (input) REG_STATUS :: nat where "REG_STATUS \<equiv> 0xC0"
abbreviation (input) STATUS_BUSY :: u8 where "STATUS_BUSY \<equiv> 0x01"
abbreviation (input) STATUS_ERASE_FAILED :: u8 where "STATUS_ERASE_FAILED \<equiv> 0x04"
abbreviation (input) STATUS_PROG_FAILED :: u8 where "STATUS_PROG_FAILED \<equiv> 0x08"
abbreviation (input) STATUS_ECC_MASK :: u8 where "STATUS_ECC_MASK \<equiv> 0x30"

definition scai_fpgaqspi_adjust_op_size :: "spi_mem_op \<Rightarrow> spi_mem_op" where
  "scai_fpgaqspi_adjust_op_size p =
     (if op_data_dir p = SPI_MEM_DATA_OUT \<and> op_data_nbytes p > 0x440 then p\<lparr>op_data_nbytes := 0x440\<rparr> else p)"

definition scai_fpgaqspi_supports_op :: "spi_mem_op \<Rightarrow> bool" where
  "scai_fpgaqspi_supports_op p \<longleftrightarrow>
     \<not> ((op_data_buswidth p = 2 \<or> op_data_buswidth p = 4) \<and> op_cmd_buswidth p = 1 \<and> op_addr_buswidth p \<le> 1
        \<and> op_data_dir p = SPI_MEM_DATA_OUT)"

subsection \<open>The state of the driver\<close>

record nand_memory_organization =
  bits_per_cell :: nat
  pagesize :: nat
  memorg_oobsize :: nat
  pages_per_eraseblock :: nat
  eraseblocks_per_lun :: nat
  planes_per_lun :: nat
  luns_per_target :: nat
  ntargets :: nat

record nand_pos =
  target :: nat
  lun :: nat
  plane :: nat
  eraseblock :: nat
  page :: nat

datatype mtd_mode = MTD_OPS_PLACE_OOB | MTD_OPS_AUTO_OOB | MTD_OPS_RAW

text \<open>A buffer that a request writes from is a list; what a request reads is part of its result.\<close>

record nand_page_io_req =
  req_pos :: nand_pos
  dataoffs :: nat
  datalen :: nat
  databuf_out :: "u8 list"
  ooboffs :: nat
  ooblen :: nat
  oobbuf_out :: "u8 list"
  req_mode :: mtd_mode

record mtd_oob_ops =
  ops_mode :: mtd_mode
  ops_len :: nat
  ops_ooblen :: nat
  ops_ooboffs :: nat
  ops_datbuf :: "u8 list option"
  ops_oobbuf :: "u8 list option"

record nand_io_iter =
  iter_req :: nand_page_io_req
  oobbytes_per_page :: nat
  dataleft :: nat
  oobleft :: nat

text \<open>
  The statics \<^verbatim>\<open>spinand_device\<close>, \<^verbatim>\<open>mtd_info\<close>, \<^verbatim>\<open>g_cache\<close> and \<^verbatim>\<open>is_initialized\<close>.  \<open>bbt_cache\<close>
  says that \<^verbatim>\<open>nand->bbt.cache\<close> has been set, to \<^verbatim>\<open>g_cache\<close>.
\<close>

record 'd fnand =
  memorg :: nand_memory_organization
  eccreq_strength :: nat
  has_ooblayout :: bool
  read_cache :: spi_mem_op
  write_cache :: spi_mem_op
  update_cache :: spi_mem_op
  cur_target :: nat
  cfg_cache :: "u8 list"
  lun_addr_shift :: nat
  eraseblock_addr_shift :: nat
  g_cache :: "u64 list"
  bbt_cache :: bool
  mtd_type :: nat
  mtd_flags :: u32
  mtd_size :: nat
  mtd_erasesize :: nat
  mtd_writesize :: nat
  mtd_oobsize :: nat
  mtd_oobavail_field :: nat
  ecc_failed :: nat
  ecc_corrected :: nat
  badblocks :: nat
  is_initialized :: bool
  spi_chip :: 'd

definition exec_op :: "'d spi_controller \<Rightarrow> spi_mem_op \<Rightarrow> 'd fnand \<Rightarrow> int \<times> (nat \<Rightarrow> u8) \<times> 'd fnand" where
  "exec_op c p s = (case spi_exec c p (spi_chip s) of (ret, f, d) \<Rightarrow> (ret, f, s\<lparr>spi_chip := d\<rparr>))"

text \<open>A call whose result other than 0 is handed on.\<close>

definition on_ok :: "int \<times> 's \<Rightarrow> ('s \<Rightarrow> int \<times> 's) \<Rightarrow> int \<times> 's" where
  "on_ok r f = (case r of (ret, s) \<Rightarrow> if ret \<noteq> 0 then (ret, s) else f s)"

subsection \<open>Positions (nand.h)\<close>

definition nanddev_neraseblocks :: "nand_memory_organization \<Rightarrow> nat" where
  "nanddev_neraseblocks m = luns_per_target m * eraseblocks_per_lun m * pages_per_eraseblock m"

definition nanddev_size :: "nand_memory_organization \<Rightarrow> nat" where
  "nanddev_size m = luns_per_target m * eraseblocks_per_lun m * pages_per_eraseblock m * pagesize m * ntargets m"

definition nanddev_offs_to_pos :: "nand_memory_organization \<Rightarrow> nat \<Rightarrow> nat \<times> nand_pos" where
  "nanddev_offs_to_pos m offs =
     (let t1 = offs div pagesize m;
          t2 = t1 div pages_per_eraseblock m;
          t3 = t2 div eraseblocks_per_lun m;
          eb = t2 mod eraseblocks_per_lun m
      in (offs mod pagesize m,
          \<lparr> target = t3 div luns_per_target m, lun = t3 mod luns_per_target m, plane = eb mod planes_per_lun m,
            eraseblock = eb, page = t1 mod pages_per_eraseblock m \<rparr>))"

definition nanddev_pos_cmp :: "nand_pos \<Rightarrow> nand_pos \<Rightarrow> int" where
  "nanddev_pos_cmp a b =
     (if target a \<noteq> target b then (if target a < target b then - 1 else 1)
      else if lun a \<noteq> lun b then (if lun a < lun b then - 1 else 1)
      else if eraseblock a \<noteq> eraseblock b then (if eraseblock a < eraseblock b then - 1 else 1)
      else if page a \<noteq> page b then (if page a < page b then - 1 else 1)
      else 0)"

definition nanddev_pos_to_offs :: "nand_memory_organization \<Rightarrow> nand_pos \<Rightarrow> nat" where
  "nanddev_pos_to_offs m pos =
     (page pos + (eraseblock pos + (lun pos + target pos * luns_per_target m) * eraseblocks_per_lun m) * pages_per_eraseblock m)
       * pagesize m"

definition nanddev_pos_to_row :: "'d fnand \<Rightarrow> nand_pos \<Rightarrow> nat" where
  "nanddev_pos_to_row s pos = push_bit (lun_addr_shift s) (lun pos) OR push_bit (eraseblock_addr_shift s) (eraseblock pos) OR page pos"

definition nanddev_pos_next_target :: "nand_pos \<Rightarrow> nand_pos" where
  "nanddev_pos_next_target pos = pos\<lparr>page := 0, plane := 0, eraseblock := 0, lun := 0, target := target pos + 1\<rparr>"

definition nanddev_pos_next_lun :: "nand_memory_organization \<Rightarrow> nand_pos \<Rightarrow> nand_pos" where
  "nanddev_pos_next_lun m pos =
     (if lun pos \<ge> luns_per_target m - 1 then nanddev_pos_next_target pos
      else pos\<lparr>lun := lun pos + 1, page := 0, plane := 0, eraseblock := 0\<rparr>)"

definition nanddev_pos_next_eraseblock :: "nand_memory_organization \<Rightarrow> nand_pos \<Rightarrow> nand_pos" where
  "nanddev_pos_next_eraseblock m pos =
     (if eraseblock pos \<ge> eraseblocks_per_lun m - 1 then nanddev_pos_next_lun m pos
      else pos\<lparr>eraseblock := eraseblock pos + 1, page := 0, plane := (eraseblock pos + 1) mod planes_per_lun m\<rparr>)"

definition nanddev_pos_next_page :: "nand_memory_organization \<Rightarrow> nand_pos \<Rightarrow> nand_pos" where
  "nanddev_pos_next_page m pos =
     (if page pos \<ge> pages_per_eraseblock m - 1 then nanddev_pos_next_eraseblock m pos else pos\<lparr>page := page pos + 1\<rparr>)"

definition nanddev_io_iter_init :: "'d fnand \<Rightarrow> nat \<Rightarrow> mtd_oob_ops \<Rightarrow> nand_io_iter" where
  "nanddev_io_iter_init s offs req =
     (case nanddev_offs_to_pos (memorg s) offs of (doffs, pos) \<Rightarrow>
       \<lparr> iter_req = \<lparr> req_pos = pos, dataoffs = doffs, datalen = min (pagesize (memorg s) - doffs) (ops_len req),
           databuf_out = (case ops_datbuf req of Some bs \<Rightarrow> bs | None \<Rightarrow> []),
           ooboffs = ops_ooboffs req, ooblen = min (mtd_oobsize s - ops_ooboffs req) (ops_ooblen req),
           oobbuf_out = (case ops_oobbuf req of Some bs \<Rightarrow> bs | None \<Rightarrow> []), req_mode = ops_mode req \<rparr>,
         oobbytes_per_page = mtd_oobsize s, dataleft = ops_len req, oobleft = ops_ooblen req \<rparr>)"

definition nanddev_io_iter_next_page :: "nand_memory_organization \<Rightarrow> nand_io_iter \<Rightarrow> nand_io_iter" where
  "nanddev_io_iter_next_page m it =
     (let r = iter_req it; dl = dataleft it - datalen r; ol = oobleft it - ooblen r
      in it\<lparr>iter_req := r\<lparr>req_pos := nanddev_pos_next_page m (req_pos r), dataoffs := 0, ooboffs := 0,
             datalen := min (pagesize m) dl, databuf_out := drop (datalen r) (databuf_out r),
             ooblen := min (oobbytes_per_page it) ol, oobbuf_out := drop (ooblen r) (oobbuf_out r)\<rparr>,
           dataleft := dl, oobleft := ol\<rparr>)"

definition nanddev_io_iter_end :: "nand_io_iter \<Rightarrow> bool" where
  "nanddev_io_iter_end it \<longleftrightarrow> dataleft it = 0 \<and> oobleft it = 0"

subsection \<open>The table of bad blocks (bbt.c)\<close>

abbreviation (input) NAND_BBT_BLOCK_STATUS_UNKNOWN :: int where "NAND_BBT_BLOCK_STATUS_UNKNOWN \<equiv> 0"
abbreviation (input) NAND_BBT_BLOCK_GOOD :: int where "NAND_BBT_BLOCK_GOOD \<equiv> 1"
abbreviation (input) NAND_BBT_BLOCK_WORN :: int where "NAND_BBT_BLOCK_WORN \<equiv> 2"
abbreviation (input) NAND_BBT_BLOCK_RESERVED :: int where "NAND_BBT_BLOCK_RESERVED \<equiv> 3"
abbreviation (input) NAND_BBT_BLOCK_FACTORY_BAD :: int where "NAND_BBT_BLOCK_FACTORY_BAD \<equiv> 4"
abbreviation (input) NAND_BBT_BLOCK_NUM_STATUS :: u32 where "NAND_BBT_BLOCK_NUM_STATUS \<equiv> 5"
abbreviation (input) BITS_PER_LONG :: nat where "BITS_PER_LONG \<equiv> 64"

definition nanddev_bbt_pos_to_entry :: "nand_memory_organization \<Rightarrow> nand_pos \<Rightarrow> nat" where
  "nanddev_bbt_pos_to_entry m pos =
     eraseblock pos + (lun pos + target pos * luns_per_target m) * eraseblocks_per_lun m"

definition nanddev_bbt_init :: "'d fnand \<Rightarrow> int \<times> 'd fnand" where
  "nanddev_bbt_init s = (0, s\<lparr>bbt_cache := True\<rparr>)"

definition nanddev_bbt_update :: "'d fnand \<Rightarrow> int" where
  "nanddev_bbt_update s = 0"

definition nanddev_bbt_get_block_status :: "nand_memory_organization \<Rightarrow> u64 list \<Rightarrow> nat \<Rightarrow> int" where
  "nanddev_bbt_get_block_status m cache entry =
     (let bits_per_block = fls NAND_BBT_BLOCK_NUM_STATUS;
          pos = entry * bits_per_block div BITS_PER_LONG;
          offs = entry * bits_per_block mod BITS_PER_LONG
      in if entry \<ge> nanddev_neraseblocks m then - ERANGE
         else
           let status = drop_bit offs (cache ! pos);
               status1 = (if bits_per_block + offs > BITS_PER_LONG
                          then status OR push_bit (BITS_PER_LONG - offs) (cache ! (pos + 1)) else status)
           in uint (status1 AND GENMASK (bits_per_block - 1) 0))"

definition nanddev_bbt_set_block_status :: "nand_memory_organization \<Rightarrow> u64 list \<Rightarrow> nat \<Rightarrow> int \<Rightarrow> int \<times> u64 list" where
  "nanddev_bbt_set_block_status m cache entry status =
     (let bits_per_block = fls NAND_BBT_BLOCK_NUM_STATUS;
          pos = entry * bits_per_block div BITS_PER_LONG;
          offs = entry * bits_per_block mod BITS_PER_LONG;
          val = word_of_int status AND GENMASK (bits_per_block - 1) 0
      in if entry \<ge> nanddev_neraseblocks m then (- ERANGE, cache)
         else
           let cache1 = cache[pos := cache ! pos AND NOT (GENMASK (offs + bits_per_block - 1) offs) OR push_bit offs val]
           in if bits_per_block + offs > BITS_PER_LONG then
                let rbits = bits_per_block + offs - BITS_PER_LONG
                in (0, cache1[pos + 1 := cache1 ! (pos + 1) AND NOT (GENMASK (rbits - 1) 0) OR drop_bit (bits_per_block - rbits) val])
              else (0, cache1))"

subsection \<open>Free bytes of the spare area (winbond.c, mtdcore.c)\<close>

text \<open>Offset and length of a section; \<open>None\<close> is \<^verbatim>\<open>-ERANGE\<close>.\<close>

definition w25m02gv_ooblayout_free :: "nat \<Rightarrow> (nat \<times> nat) option" where
  "w25m02gv_ooblayout_free section = (if section > 3 then None else Some (16 * section + 2, 6))"

function mtd_ooblayout_count_bytes :: "nat \<Rightarrow> nat \<Rightarrow> nat" where
  "mtd_ooblayout_count_bytes sect nbytes =
     (case w25m02gv_ooblayout_free sect of
        None \<Rightarrow> nbytes
      | Some (off, n) \<Rightarrow> mtd_ooblayout_count_bytes (sect + 1) (nbytes + n))"
  by pat_completeness auto
termination by (relation "measure (\<lambda>(sect, nbytes). 4 - sect)") (auto simp: w25m02gv_ooblayout_free_def split: if_splits)

definition mtd_ooblayout_count_freebytes :: nat where
  "mtd_ooblayout_count_freebytes = mtd_ooblayout_count_bytes 0 0"

function mtd_ooblayout_find_region :: "nat \<Rightarrow> nat \<Rightarrow> nat \<Rightarrow> (nat \<times> nat \<times> nat) option" where
  "mtd_ooblayout_find_region b pos sect =
     (case w25m02gv_ooblayout_free sect of
        None \<Rightarrow> None
      | Some (off, n) \<Rightarrow> if pos + n > b then Some (sect, off + (b - pos), n - (b - pos))
                        else mtd_ooblayout_find_region b (pos + n) (sect + 1))"
  by pat_completeness auto
termination by (relation "measure (\<lambda>(b, pos, sect). 4 - sect)") (auto simp: w25m02gv_ooblayout_free_def split: if_splits)

declare mtd_ooblayout_count_bytes.simps [simp del] mtd_ooblayout_find_region.simps [simp del]

text \<open>The regions that hold \<open>nbytes\<close> bytes, from the region found on.\<close>

function ooblayout_regions :: "nat \<Rightarrow> nat \<times> nat \<Rightarrow> nat \<Rightarrow> (nat \<times> nat) list" where
  "ooblayout_regions sect region nbytes =
     (case region of (off, n) \<Rightarrow>
       (off, min nbytes n) #
       (if nbytes - min nbytes n = 0 then []
        else case w25m02gv_ooblayout_free (sect + 1) of
          None \<Rightarrow> []
        | Some region' \<Rightarrow> ooblayout_regions (sect + 1) region' (nbytes - min nbytes n)))"
  by pat_completeness auto
termination by (relation "measure (\<lambda>(sect, region, nbytes). 4 - sect)") (auto simp: w25m02gv_ooblayout_free_def split: if_splits)

declare ooblayout_regions.simps [simp del]

definition overwrite :: "'a list \<Rightarrow> nat \<Rightarrow> 'a list \<Rightarrow> 'a list" where
  "overwrite xs a bs = take a xs @ bs @ drop (a + length bs) xs"

definition mtd_ooblayout_get_databytes :: "u8 list \<Rightarrow> nat \<Rightarrow> nat \<Rightarrow> u8 list" where
  "mtd_ooblayout_get_databytes oobbuf start nbytes =
     (case mtd_ooblayout_find_region start 0 0 of
        None \<Rightarrow> []
      | Some (sect, region) \<Rightarrow> concat (map (\<lambda>(off, n). take n (drop off oobbuf)) (ooblayout_regions sect region nbytes)))"

fun put_regions :: "(nat \<times> nat) list \<Rightarrow> u8 list \<Rightarrow> u8 list \<Rightarrow> u8 list" where
  "put_regions [] bs oobbuf = oobbuf"
| "put_regions ((off, n) # rs) bs oobbuf = put_regions rs (drop n bs) (overwrite oobbuf off (take n bs))"

definition mtd_ooblayout_set_databytes :: "u8 list \<Rightarrow> u8 list \<Rightarrow> nat \<Rightarrow> nat \<Rightarrow> u8 list" where
  "mtd_ooblayout_set_databytes databuf oobbuf start nbytes =
     (case mtd_ooblayout_find_region start 0 0 of
        None \<Rightarrow> oobbuf
      | Some (sect, region) \<Rightarrow> put_regions (ooblayout_regions sect region nbytes) databuf oobbuf)"

subsection \<open>Registers and commands of the chip (spicore.c)\<close>

definition spinand_cache_op_adjust_colum :: "nand_memory_organization \<Rightarrow> nand_pos \<Rightarrow> nat \<Rightarrow> nat" where
  "spinand_cache_op_adjust_colum m pos column =
     (if planes_per_lun m < 2 then column
      else (column OR push_bit (fls (of_nat (pagesize m))) (plane pos)) mod 2 ^ 16)"

definition spinand_read_reg_op :: "'d spi_controller \<Rightarrow> nat \<Rightarrow> 'd fnand \<Rightarrow> int \<times> u8 \<times> 'd fnand" where
  "spinand_read_reg_op c reg s = (case exec_op c (SPINAND_GET_FEATURE_OP reg) s of (ret, f, s1) \<Rightarrow> (ret, f 0, s1))"

definition spinand_write_reg_op :: "'d spi_controller \<Rightarrow> nat \<Rightarrow> u8 \<Rightarrow> 'd fnand \<Rightarrow> int \<times> 'd fnand" where
  "spinand_write_reg_op c reg val s = (case exec_op c (SPINAND_SET_FEATURE_OP reg val) s of (ret, f, s1) \<Rightarrow> (ret, s1))"

definition spinand_read_status :: "'d spi_controller \<Rightarrow> 'd fnand \<Rightarrow> int \<times> u8 \<times> 'd fnand" where
  "spinand_read_status c = spinand_read_reg_op c REG_STATUS"

definition spinand_get_cfg :: "'d fnand \<Rightarrow> u8" where
  "spinand_get_cfg s = cfg_cache s ! cur_target s"

definition spinand_set_cfg :: "'d spi_controller \<Rightarrow> u8 \<Rightarrow> 'd fnand \<Rightarrow> int \<times> 'd fnand" where
  "spinand_set_cfg c cfg s =
     (if cfg_cache s ! cur_target s = cfg then (0, s)
      else on_ok (spinand_write_reg_op c REG_CFG cfg s) (\<lambda>s1. (0, s1\<lparr>cfg_cache := (cfg_cache s1)[cur_target s1 := cfg]\<rparr>)))"

definition spinand_upd_cfg :: "'d spi_controller \<Rightarrow> u8 \<Rightarrow> u8 \<Rightarrow> 'd fnand \<Rightarrow> int \<times> 'd fnand" where
  "spinand_upd_cfg c msk val s = spinand_set_cfg c (spinand_get_cfg s AND NOT msk OR val) s"

text \<open>With one target, as the only chip in the table has, no command is sent.\<close>

definition spinand_select_target :: "nat \<Rightarrow> 'd fnand \<Rightarrow> int \<times> 'd fnand" where
  "spinand_select_target tgt s =
     (if tgt \<ge> ntargets (memorg s) then (- EINVAL, s)
      else if cur_target s = tgt then (0, s)
      else (0, s\<lparr>cur_target := tgt\<rparr>))"

fun init_cfg_targets :: "'d spi_controller \<Rightarrow> nat list \<Rightarrow> 'd fnand \<Rightarrow> int \<times> 'd fnand" where
  "init_cfg_targets c [] s = (0, s)"
| "init_cfg_targets c (tgt # tgts) s =
     on_ok (spinand_select_target tgt s) (\<lambda>s1.
       case spinand_read_reg_op c REG_CFG s1 of (ret, v, s2) \<Rightarrow>
         if ret \<noteq> 0 then (ret, s2) else init_cfg_targets c tgts (s2\<lparr>cfg_cache := (cfg_cache s2)[tgt := v]\<rparr>))"

definition spinand_init_cfg_cache :: "'d spi_controller \<Rightarrow> 'd fnand \<Rightarrow> int \<times> 'd fnand" where
  "spinand_init_cfg_cache c s = init_cfg_targets c [0..<ntargets (memorg s)] s"

definition spinand_ecc_enable :: "'d spi_controller \<Rightarrow> bool \<Rightarrow> 'd fnand \<Rightarrow> int \<times> 'd fnand" where
  "spinand_ecc_enable c enable = spinand_upd_cfg c CFG_ECC_ENABLE (if enable then CFG_ECC_ENABLE else 0)"

definition spinand_write_enable_op :: "'d spi_controller \<Rightarrow> 'd fnand \<Rightarrow> int \<times> 'd fnand" where
  "spinand_write_enable_op c s = (case exec_op c (SPINAND_WR_EN_DIS_OP True) s of (ret, f, s1) \<Rightarrow> (ret, s1))"

definition spinand_load_page_op :: "'d spi_controller \<Rightarrow> nand_pos \<Rightarrow> 'd fnand \<Rightarrow> int \<times> 'd fnand" where
  "spinand_load_page_op c pos s =
     (case exec_op c (SPINAND_PAGE_READ_OP (nanddev_pos_to_row s pos)) s of (ret, f, s1) \<Rightarrow> (ret, s1))"

text \<open>The bytes read so far are \<open>acc\<close>.\<close>

function read_cache_loop :: "'d spi_controller \<Rightarrow> nat \<Rightarrow> nat \<Rightarrow> u8 list \<Rightarrow> 'd fnand \<Rightarrow> int \<times> u8 list \<times> 'd fnand" where
  "read_cache_loop c nbytes column acc s =
     (if nbytes = 0 then (0, acc, s)
      else
        let p = scai_fpgaqspi_adjust_op_size ((read_cache s)\<lparr>op_addr_val := column, op_data_nbytes := nbytes\<rparr>);
            n = op_data_nbytes p
        in case exec_op c p s of (ret, f, s1) \<Rightarrow>
          if ret \<noteq> 0 then (ret, acc, s1)
          else read_cache_loop c (nbytes - n) (column + n) (acc @ map f [0..<n]) s1)"
  by pat_completeness auto
termination
  by (relation "measure (\<lambda>(c, nbytes, column, acc, s). nbytes)") (auto simp: scai_fpgaqspi_adjust_op_size_def Let_def)

declare read_cache_loop.simps [simp del]

text \<open>The data and the spare bytes that the request asks for.\<close>

definition spinand_read_from_cache_op ::
    "'d spi_controller \<Rightarrow> nand_page_io_req \<Rightarrow> 'd fnand \<Rightarrow> int \<times> u8 list \<times> u8 list \<times> 'd fnand" where
  "spinand_read_from_cache_op c req s =
     (let m = memorg s;
          nbytes = (if datalen req \<noteq> 0 then pagesize m else 0) + (if ooblen req \<noteq> 0 then memorg_oobsize m else 0);
          column = (if datalen req = 0 \<and> ooblen req \<noteq> 0 then pagesize m else 0)
      in case read_cache_loop c nbytes (spinand_cache_op_adjust_colum m (req_pos req) column) [] s of (ret, buf, s1) \<Rightarrow>
        if ret \<noteq> 0 then (ret, [], [], s1)
        else
          let oobbuf = (if datalen req \<noteq> 0 then drop (pagesize m) buf else buf)
          in (0, take (datalen req) (drop (dataoffs req) (if datalen req \<noteq> 0 then buf else [])),
              (if ooblen req = 0 then []
               else if req_mode req = MTD_OPS_AUTO_OOB then mtd_ooblayout_get_databytes oobbuf (ooboffs req) (ooblen req)
               else take (ooblen req) (drop (ooboffs req) oobbuf)), s1))"

text \<open>The first command of a program sets the rest of the chip's buffer to \<^verbatim>\<open>0xFF\<close>; the later ones keep it.\<close>

function write_cache_loop :: "'d spi_controller \<Rightarrow> spi_mem_op \<Rightarrow> nat \<Rightarrow> u8 list \<Rightarrow> 'd fnand \<Rightarrow> int \<times> 'd fnand" where
  "write_cache_loop c op0 column buf s =
     (if buf = [] then (0, s)
      else
        let p = scai_fpgaqspi_adjust_op_size (op0\<lparr>op_addr_val := column, op_data_nbytes := length buf\<rparr>);
            n = op_data_nbytes p
        in case exec_op c (p\<lparr>op_data_out := take n buf\<rparr>) s of (ret, f, s1) \<Rightarrow>
          if ret \<noteq> 0 then (ret, s1)
          else write_cache_loop c (update_cache s1) (column + n) (drop n buf) s1)"
  by pat_completeness auto
termination
  by (relation "measure (\<lambda>(c, op0, column, buf, s). length buf)") (auto simp: scai_fpgaqspi_adjust_op_size_def Let_def)

declare write_cache_loop.simps [simp del]

definition spinand_write_to_cache_op :: "'d spi_controller \<Rightarrow> nand_page_io_req \<Rightarrow> 'd fnand \<Rightarrow> int \<times> 'd fnand" where
  "spinand_write_to_cache_op c req s =
     (let m = memorg s;
          databuf = replicate (pagesize m) 0xFF;
          databuf1 = (if datalen req \<noteq> 0 then overwrite databuf (dataoffs req) (take (datalen req) (databuf_out req)) else databuf);
          oobbuf = replicate (memorg_oobsize m) 0xFF;
          oobbuf1 = (if ooblen req = 0 then oobbuf
            else if req_mode req = MTD_OPS_AUTO_OOB then mtd_ooblayout_set_databytes (oobbuf_out req) oobbuf (ooboffs req) (ooblen req)
            else overwrite oobbuf (ooboffs req) (take (ooblen req) (oobbuf_out req)));
          buf = (if datalen req \<noteq> 0 then databuf1 else []) @ (if ooblen req \<noteq> 0 then oobbuf1 else []);
          column = (if datalen req = 0 \<and> ooblen req \<noteq> 0 then pagesize m else 0)
      in write_cache_loop c (write_cache s) (spinand_cache_op_adjust_colum m (req_pos req) column) buf s)"

definition spinand_program_op :: "'d spi_controller \<Rightarrow> nand_pos \<Rightarrow> 'd fnand \<Rightarrow> int \<times> 'd fnand" where
  "spinand_program_op c pos s =
     (case exec_op c (SPINAND_PROG_EXEC_OP (nanddev_pos_to_row s pos)) s of (ret, f, s1) \<Rightarrow> (ret, s1))"

definition spinand_erase_op :: "'d spi_controller \<Rightarrow> nand_pos \<Rightarrow> 'd fnand \<Rightarrow> int \<times> 'd fnand" where
  "spinand_erase_op c pos s =
     (case exec_op c (SPINAND_BLK_ERASE_OP (nanddev_pos_to_row s pos)) s of (ret, f, s1) \<Rightarrow> (ret, s1))"

text \<open>The polls that are left, then the extra read of the status.\<close>

fun wait_polls :: "'d spi_controller \<Rightarrow> nat \<Rightarrow> 'd fnand \<Rightarrow> int \<times> u8 \<times> 'd fnand" where
  "wait_polls c 0 s =
     (case spinand_read_status c s of (ret, status, s1) \<Rightarrow>
        if ret \<noteq> 0 then (ret, 0, s1)
        else (if status AND STATUS_BUSY \<noteq> 0 then - ETIMEDOUT else 0, status, s1))"
| "wait_polls c (Suc n) s =
     (case spinand_read_status c s of (ret, status, s1) \<Rightarrow>
        if ret \<noteq> 0 then (ret, 0, s1)
        else if status AND STATUS_BUSY = 0 then (0, status, s1)
        else wait_polls c n s1)"

definition spinand_wait :: "'d spi_controller \<Rightarrow> 'd fnand \<Rightarrow> int \<times> u8 \<times> 'd fnand" where
  "spinand_wait c s = wait_polls c (40000 + 1) s"

definition spinand_read_id_op :: "'d spi_controller \<Rightarrow> 'd fnand \<Rightarrow> int \<times> u8 list \<times> 'd fnand" where
  "spinand_read_id_op c s = (case exec_op c (SPINAND_READID_OP 0 4) s of (ret, f, s1) \<Rightarrow> (ret, map f [0..<4], s1))"

definition spinand_reset_op :: "'d spi_controller \<Rightarrow> 'd fnand \<Rightarrow> int \<times> 'd fnand" where
  "spinand_reset_op c s =
     (case exec_op c SPINAND_RESET_OP s of (ret, f, s1) \<Rightarrow>
        if ret \<noteq> 0 then (ret, s1) else (case spinand_wait c s1 of (ret2, status, s2) \<Rightarrow> (ret2, s2)))"

definition spinand_lock_block :: "'d spi_controller \<Rightarrow> u8 \<Rightarrow> 'd fnand \<Rightarrow> int \<times> 'd fnand" where
  "spinand_lock_block c lock = spinand_write_reg_op c REG_BLOCK_LOCK lock"

definition spinand_check_ecc_status :: "'d fnand \<Rightarrow> u8 \<Rightarrow> int" where
  "spinand_check_ecc_status s status =
     (if status AND STATUS_ECC_MASK = 0 then 0
      else if status AND STATUS_ECC_MASK = 0x10 then int (eccreq_strength s)
      else if status AND STATUS_ECC_MASK = 0x20 then - EBADMSG
      else - EINVAL)"

definition spinand_read_page ::
    "'d spi_controller \<Rightarrow> nand_page_io_req \<Rightarrow> bool \<Rightarrow> 'd fnand \<Rightarrow> int \<times> u8 list \<times> u8 list \<times> 'd fnand" where
  "spinand_read_page c req ecc_enabled s =
     (case spinand_load_page_op c (req_pos req) s of (ret, s1) \<Rightarrow>
        if ret \<noteq> 0 then (ret, [], [], s1)
        else case spinand_wait c s1 of (ret2, status, s2) \<Rightarrow>
          if ret2 < 0 then (ret2, [], [], s2)
          else case spinand_read_from_cache_op c req s2 of (ret3, bs, oob, s3) \<Rightarrow>
            if ret3 \<noteq> 0 then (ret3, bs, oob, s3)
            else (if ecc_enabled then spinand_check_ecc_status s3 status else 0, bs, oob, s3))"

definition spinand_write_page :: "'d spi_controller \<Rightarrow> nand_page_io_req \<Rightarrow> 'd fnand \<Rightarrow> int \<times> 'd fnand" where
  "spinand_write_page c req s =
     on_ok (spinand_write_enable_op c s) (\<lambda>s1.
     on_ok (spinand_write_to_cache_op c req s1) (\<lambda>s2.
     on_ok (spinand_program_op c (req_pos req) s2) (\<lambda>s3.
       case spinand_wait c s3 of (ret, status, s4) \<Rightarrow>
         (if ret = 0 \<and> status AND STATUS_PROG_FAILED \<noteq> 0 then - EIO else ret, s4))))"

subsection \<open>Operations of the NAND layer on a block (spicore.c)\<close>

definition marker_req :: "nand_pos \<Rightarrow> nand_page_io_req" where
  "marker_req pos = \<lparr> req_pos = pos, dataoffs = 0, datalen = 0, databuf_out = [], ooboffs = 0, ooblen = 2,
     oobbuf_out = [0, 0], req_mode = MTD_OPS_RAW \<rparr>"

text \<open>An error code is converted to \<^verbatim>\<open>true\<close>.\<close>

definition spinand_isbad :: "'d spi_controller \<Rightarrow> nand_pos \<Rightarrow> 'd fnand \<Rightarrow> bool \<times> 'd fnand" where
  "spinand_isbad c pos s =
     (case spinand_select_target (target pos) s of (ret, s1) \<Rightarrow>
        if ret \<noteq> 0 then (True, s1)
        else case spinand_read_page c (marker_req pos) False s1 of (ret2, bs, marker, s2) \<Rightarrow>
          if ret2 \<noteq> 0 then (True, s2) else (marker ! 0 \<noteq> 0xFF \<or> marker ! 1 \<noteq> 0xFF, s2))"

definition spinand_markbad :: "'d spi_controller \<Rightarrow> nand_pos \<Rightarrow> 'd fnand \<Rightarrow> int \<times> 'd fnand" where
  "spinand_markbad c pos s = on_ok (spinand_select_target (target pos) s) (spinand_write_page c (marker_req pos))"

definition spinand_erase :: "'d spi_controller \<Rightarrow> nand_pos \<Rightarrow> 'd fnand \<Rightarrow> int \<times> 'd fnand" where
  "spinand_erase c pos s =
     on_ok (spinand_select_target (target pos) s) (\<lambda>s1.
     on_ok (spinand_write_enable_op c s1) (\<lambda>s2.
     on_ok (spinand_erase_op c pos s2) (\<lambda>s3.
       case spinand_wait c s3 of (ret, status, s4) \<Rightarrow>
         (if ret = 0 \<and> status AND STATUS_ERASE_FAILED \<noteq> 0 then - EIO else ret, s4))))"

subsection \<open>The generic NAND layer (nandcore.c)\<close>

definition bbt_status :: "nand_pos \<Rightarrow> 'd fnand \<Rightarrow> int" where
  "bbt_status pos s = nanddev_bbt_get_block_status (memorg s) (g_cache s) (nanddev_bbt_pos_to_entry (memorg s) pos)"

definition set_bbt_status :: "nand_pos \<Rightarrow> int \<Rightarrow> 'd fnand \<Rightarrow> int \<times> 'd fnand" where
  "set_bbt_status pos status s =
     (case nanddev_bbt_set_block_status (memorg s) (g_cache s) (nanddev_bbt_pos_to_entry (memorg s) pos) status of
        (ret, cache) \<Rightarrow> (ret, s\<lparr>g_cache := cache\<rparr>))"

definition nanddev_isbad :: "'d spi_controller \<Rightarrow> nand_pos \<Rightarrow> 'd fnand \<Rightarrow> bool \<times> 'd fnand" where
  "nanddev_isbad c pos s =
     (if bbt_cache s then
        case (if bbt_status pos s = NAND_BBT_BLOCK_STATUS_UNKNOWN then
                case spinand_isbad c pos s of (bad, s1) \<Rightarrow>
                  let status = (if bad then NAND_BBT_BLOCK_FACTORY_BAD else NAND_BBT_BLOCK_GOOD)
                  in (status, snd (set_bbt_status pos status s1))
              else (bbt_status pos s, s)) of
          (status, s2) \<Rightarrow> (status = NAND_BBT_BLOCK_WORN \<or> status = NAND_BBT_BLOCK_FACTORY_BAD, s2)
      else spinand_isbad c pos s)"

definition nanddev_markbad :: "'d spi_controller \<Rightarrow> nand_pos \<Rightarrow> 'd fnand \<Rightarrow> int \<times> 'd fnand" where
  "nanddev_markbad c pos s =
     (case nanddev_isbad c pos s of (bad, s1) \<Rightarrow>
        if bad then (0, s1)
        else
          case spinand_markbad c pos s1 of (ret, s2) \<Rightarrow>
          case (if \<not> bbt_cache s2 then (ret, s2)
                else case set_bbt_status pos NAND_BBT_BLOCK_WORN s2 of (ret2, s3) \<Rightarrow>
                  if ret2 \<noteq> 0 then (ret2, s3) else (nanddev_bbt_update s3, s3)) of
            (ret3, s4) \<Rightarrow> (ret3, if ret3 = 0 then s4\<lparr>badblocks := badblocks s4 + 1\<rparr> else s4))"

definition nanddev_isreserved :: "nand_pos \<Rightarrow> 'd fnand \<Rightarrow> bool" where
  "nanddev_isreserved pos s \<longleftrightarrow> bbt_cache s \<and> bbt_status pos s = NAND_BBT_BLOCK_RESERVED"

definition nanddev_erase :: "'d spi_controller \<Rightarrow> nand_pos \<Rightarrow> 'd fnand \<Rightarrow> int \<times> 'd fnand" where
  "nanddev_erase c pos s =
     (case nanddev_isbad c pos s of (bad, s1) \<Rightarrow>
        if bad \<or> nanddev_isreserved pos s1 then
          if nanddev_isreserved pos s1 then (- EIO, s1)
          else spinand_erase c pos (snd (set_bbt_status pos NAND_BBT_BLOCK_STATUS_UNKNOWN s1))
        else spinand_erase c pos s1)"

partial_function (option) erase_blocks_to ::
    "'d spi_controller \<Rightarrow> nand_pos \<Rightarrow> nand_pos \<Rightarrow> 'd fnand \<Rightarrow> (int \<times> 'd fnand) option" where
  "erase_blocks_to c pos lastpos s =
     (if nanddev_pos_cmp pos lastpos \<le> 0 then
        (case nanddev_erase c pos s of (ret, s1) \<Rightarrow>
           if ret \<noteq> 0 then Some (ret, s1)
           else erase_blocks_to c (nanddev_pos_next_eraseblock (memorg s1) pos) lastpos s1)
      else Some (0, s))"

definition nanddev_mtd_erase :: "'d spi_controller \<Rightarrow> nat \<Rightarrow> nat \<Rightarrow> 'd fnand \<Rightarrow> (int \<times> 'd fnand) option" where
  "nanddev_mtd_erase c addr n s =
     erase_blocks_to c (snd (nanddev_offs_to_pos (memorg s) addr)) (snd (nanddev_offs_to_pos (memorg s) (addr + n - 1))) s"

definition nanddev_init :: "'d fnand \<Rightarrow> int \<times> 'd fnand" where
  "nanddev_init s =
     (let m = memorg s
      in if bits_per_cell m = 0 \<or> pagesize m = 0 \<or> pages_per_eraseblock m = 0 \<or> eraseblocks_per_lun m = 0
           \<or> planes_per_lun m = 0 \<or> luns_per_target m = 0 \<or> ntargets m = 0 then (- EINVAL, s)
         else
           let eshift = fls (of_nat (pages_per_eraseblock m) - 1)
           in nanddev_bbt_init (s\<lparr>eraseblock_addr_shift := eshift,
                lun_addr_shift := fls (of_nat (eraseblocks_per_lun m) - 1) + eshift,
                mtd_type := (if bits_per_cell m = 1 then 4 else 8), mtd_flags := 0x400,
                mtd_erasesize := pagesize m * pages_per_eraseblock m, mtd_writesize := pagesize m,
                mtd_oobsize := memorg_oobsize m, mtd_size := nanddev_size m\<rparr>))"

subsection \<open>Reads and writes page by page (spicore.c)\<close>

partial_function (option) read_io_loop ::
    "'d spi_controller \<Rightarrow> bool \<Rightarrow> nand_io_iter \<Rightarrow> nat \<Rightarrow> bool \<Rightarrow> u8 list \<Rightarrow> u8 list \<Rightarrow> 'd fnand
      \<Rightarrow> (int \<times> nat \<times> bool \<times> u8 list \<times> u8 list \<times> 'd fnand) option" where
  "read_io_loop c enable_ecc it max_bitflips failed bs oob s =
     (if nanddev_io_iter_end it then Some (0, max_bitflips, failed, bs, oob, s)
      else case spinand_select_target (target (req_pos (iter_req it))) s of (ret, s1) \<Rightarrow>
        if ret \<noteq> 0 then Some (ret, max_bitflips, failed, bs, oob, s1)
        else case spinand_ecc_enable c enable_ecc s1 of (ret, s2) \<Rightarrow>
          if ret \<noteq> 0 then Some (ret, max_bitflips, failed, bs, oob, s2)
          else case spinand_read_page c (iter_req it) enable_ecc s2 of (ret, bs1, oob1, s3) \<Rightarrow>
            if ret < 0 \<and> ret \<noteq> - EBADMSG then Some (ret, max_bitflips, failed, bs, oob, s3)
            else if ret = - EBADMSG then
              read_io_loop c enable_ecc (nanddev_io_iter_next_page (memorg s3) it) max_bitflips True (bs @ bs1) (oob @ oob1)
                (s3\<lparr>ecc_failed := ecc_failed s3 + 1\<rparr>)
            else
              read_io_loop c enable_ecc (nanddev_io_iter_next_page (memorg s3) it) (max max_bitflips (nat ret)) failed
                (bs @ bs1) (oob @ oob1) (s3\<lparr>ecc_corrected := ecc_corrected s3 + nat ret\<rparr>))"

text \<open>The data and spare bytes read; the code's \<^verbatim>\<open>retlen\<close> and \<^verbatim>\<open>oobretlen\<close> are their lengths.\<close>

definition spinand_mtd_read ::
    "'d spi_controller \<Rightarrow> nat \<Rightarrow> mtd_oob_ops \<Rightarrow> 'd fnand \<Rightarrow> (int \<times> u8 list \<times> u8 list \<times> 'd fnand) option" where
  "spinand_mtd_read c offs ops s =
     map_option (\<lambda>(ret, max_bitflips, failed, bs, oob, s1).
         let ret1 = (if failed \<and> ret = 0 then - EBADMSG else ret)
         in (if ret1 \<noteq> 0 then ret1 else int max_bitflips, bs, oob, s1))
       (read_io_loop c (ops_mode ops \<noteq> MTD_OPS_RAW \<and> has_ooblayout s) (nanddev_io_iter_init s offs ops) 0 False [] [] s)"

text \<open>With the number of data bytes written so far.\<close>

partial_function (option) write_io_loop ::
    "'d spi_controller \<Rightarrow> bool \<Rightarrow> nand_io_iter \<Rightarrow> nat \<Rightarrow> 'd fnand \<Rightarrow> (int \<times> nat \<times> 'd fnand) option" where
  "write_io_loop c enable_ecc it retlen s =
     (if nanddev_io_iter_end it then Some (0, retlen, s)
      else case spinand_select_target (target (req_pos (iter_req it))) s of (ret, s1) \<Rightarrow>
        if ret \<noteq> 0 then Some (ret, retlen, s1)
        else case spinand_ecc_enable c enable_ecc s1 of (ret, s2) \<Rightarrow>
          if ret \<noteq> 0 then Some (ret, retlen, s2)
          else case spinand_write_page c (iter_req it) s2 of (ret, s3) \<Rightarrow>
            if ret \<noteq> 0 then Some (ret, retlen, s3)
            else write_io_loop c enable_ecc (nanddev_io_iter_next_page (memorg s3) it) (retlen + datalen (iter_req it)) s3)"

definition spinand_mtd_write ::
    "'d spi_controller \<Rightarrow> nat \<Rightarrow> mtd_oob_ops \<Rightarrow> 'd fnand \<Rightarrow> (int \<times> nat \<times> 'd fnand) option" where
  "spinand_mtd_write c offs ops s =
     write_io_loop c (ops_mode ops \<noteq> MTD_OPS_RAW \<and> has_ooblayout s) (nanddev_io_iter_init s offs ops) 0 s"

definition spinand_mtd_block_isbad :: "'d spi_controller \<Rightarrow> nat \<Rightarrow> 'd fnand \<Rightarrow> bool \<times> 'd fnand" where
  "spinand_mtd_block_isbad c offs s = nanddev_isbad c (snd (nanddev_offs_to_pos (memorg s) offs)) s"

definition spinand_mtd_block_markbad :: "'d spi_controller \<Rightarrow> nat \<Rightarrow> 'd fnand \<Rightarrow> int \<times> 'd fnand" where
  "spinand_mtd_block_markbad c offs s = nanddev_markbad c (snd (nanddev_offs_to_pos (memorg s) offs)) s"

definition spinand_mtd_block_isreserved :: "nat \<Rightarrow> 'd fnand \<Rightarrow> bool" where
  "spinand_mtd_block_isreserved offs s = nanddev_isreserved (snd (nanddev_offs_to_pos (memorg s) offs)) s"

subsection \<open>The MTD layer (mtdcore.c)\<close>

text \<open>The error code, and the request with its lengths adjusted.  \<^verbatim>\<open>maxooblen\<close> is an unsigned number of 64 bits.\<close>

definition mtd_check_oob_ops :: "nat \<Rightarrow> mtd_oob_ops \<Rightarrow> 'd fnand \<Rightarrow> int \<times> mtd_oob_ops" where
  "mtd_check_oob_ops offs ops0 s =
     (let ops1 = (if ops_datbuf ops0 = None then ops0\<lparr>ops_len := 0\<rparr> else ops0);
          ops = (if ops_oobbuf ops1 = None then ops1\<lparr>ops_ooblen := 0\<rparr> else ops1)
      in if offs + ops_len ops > mtd_size s then (- EINVAL, ops)
         else if ops_ooblen ops \<noteq> 0 then
           let maxooblen = (int ((mtd_size s div mtd_writesize s - offs div mtd_writesize s) * mtd_oobsize s)
                             - int (ops_ooboffs ops)) mod 2 ^ 64
           in if ops_ooboffs ops \<ge> mtd_oobsize s \<or> int (ops_ooblen ops) > maxooblen then (- EINVAL, ops) else (0, ops)
         else (0, ops))"

text \<open>\<^verbatim>\<open>mtd->ecc_strength\<close> is never set and stays 0, so a result that is not negative becomes 0.\<close>

definition mtd_read_oob ::
    "'d spi_controller \<Rightarrow> nat \<Rightarrow> mtd_oob_ops \<Rightarrow> 'd fnand \<Rightarrow> (int \<times> u8 list \<times> u8 list \<times> 'd fnand) option" where
  "mtd_read_oob c offs ops s =
     (case mtd_check_oob_ops offs ops s of (ret, ops1) \<Rightarrow>
        if ret \<noteq> 0 then Some (ret, [], [], s)
        else map_option (\<lambda>(ret2, bs, oob, s1). (if ret2 < 0 then ret2 else 0, bs, oob, s1)) (spinand_mtd_read c offs ops1 s))"

definition mtd_write_oob :: "'d spi_controller \<Rightarrow> nat \<Rightarrow> mtd_oob_ops \<Rightarrow> 'd fnand \<Rightarrow> (int \<times> nat \<times> 'd fnand) option" where
  "mtd_write_oob c offs ops s =
     (if mtd_flags s AND 0x400 = 0 then Some (- EROFS, 0, s)
      else case mtd_check_oob_ops offs ops s of (ret, ops1) \<Rightarrow>
        if ret \<noteq> 0 then Some (ret, 0, s) else spinand_mtd_write c offs ops1 s)"

definition mtd_erase :: "'d spi_controller \<Rightarrow> nat \<Rightarrow> nat \<Rightarrow> 'd fnand \<Rightarrow> (int \<times> 'd fnand) option" where
  "mtd_erase c addr n s =
     (if addr > mtd_size s \<or> n > mtd_size s - addr then Some (- EINVAL, s)
      else if mtd_flags s AND 0x400 = 0 then Some (- EROFS, s)
      else if n = 0 then Some (0, s)
      else nanddev_mtd_erase c addr n s)"

definition mtd_block_isbad :: "'d spi_controller \<Rightarrow> nat \<Rightarrow> 'd fnand \<Rightarrow> int \<times> 'd fnand" where
  "mtd_block_isbad c offs s =
     (if offs > mtd_size s then (- EINVAL, s)
      else case spinand_mtd_block_isbad c offs s of (bad, s1) \<Rightarrow> (of_bool bad, s1))"

subsection \<open>Detection and initialisation (winbond.c, spicore.c)\<close>

record spinand_info =
  info_devid :: u8
  info_memorg :: nand_memory_organization
  info_strength :: nat
  info_read_cache :: "spi_mem_op list"
  info_write_cache :: "spi_mem_op list"
  info_update_cache :: "spi_mem_op list"

definition read_cache_variants :: "spi_mem_op list" where
  "read_cache_variants = [SPINAND_PAGE_READ_FROM_CACHE_X4_OP 0 1 0, SPINAND_PAGE_READ_FROM_CACHE_OP True 0 1 0,
     SPINAND_PAGE_READ_FROM_CACHE_OP False 0 1 0]"

definition write_cache_variants :: "spi_mem_op list" where
  "write_cache_variants = [SPINAND_PROG_LOAD_X4 True 0 [], SPINAND_PROG_LOAD True 0 []]"

definition update_cache_variants :: "spi_mem_op list" where
  "update_cache_variants = [SPINAND_PROG_LOAD_X4 False 0 [], SPINAND_PROG_LOAD False 0 []]"

definition w25n01gv_memorg :: nand_memory_organization where
  "w25n01gv_memorg = \<lparr> bits_per_cell = 1, pagesize = 2048, memorg_oobsize = 64, pages_per_eraseblock = 64,
     eraseblocks_per_lun = 1024, planes_per_lun = 1, luns_per_target = 1, ntargets = 1 \<rparr>"

definition winbond_spinand_table :: "spinand_info list" where
  "winbond_spinand_table = [\<lparr> info_devid = 0xAA, info_memorg = w25n01gv_memorg, info_strength = 1,
     info_read_cache = read_cache_variants, info_write_cache = write_cache_variants, info_update_cache = update_cache_variants \<rparr>]"

function variant_fits :: "spi_mem_op \<Rightarrow> nat \<Rightarrow> bool" where
  "variant_fits p nbytes =
     (if nbytes = 0 then True
      else let p1 = scai_fpgaqspi_adjust_op_size (p\<lparr>op_data_nbytes := nbytes\<rparr>)
           in scai_fpgaqspi_supports_op p1 \<and> variant_fits p1 (nbytes - op_data_nbytes p1))"
  by pat_completeness auto
termination
  by (relation "measure (\<lambda>(p, nbytes). nbytes)") (auto simp: scai_fpgaqspi_adjust_op_size_def Let_def)

declare variant_fits.simps [simp del]

definition spinand_select_op_variant :: "nand_memory_organization \<Rightarrow> spi_mem_op list \<Rightarrow> spi_mem_op option" where
  "spinand_select_op_variant m variants = find (\<lambda>p. variant_fits p (memorg_oobsize m + pagesize m)) variants"

text \<open>The update command is not checked; a missing one is left at what it was.\<close>

definition spinand_match_and_init :: "spinand_info list \<Rightarrow> u8 \<Rightarrow> 'd fnand \<Rightarrow> int \<times> 'd fnand" where
  "spinand_match_and_init table devid s =
     (case find (\<lambda>info. info_devid info = devid) table of
        None \<Rightarrow> (- EOPNOTSUPP, s)
      | Some info \<Rightarrow>
          let m = info_memorg info;
              s1 = s\<lparr>memorg := m, eccreq_strength := info_strength info, has_ooblayout := True\<rparr>
          in case spinand_select_op_variant m (info_read_cache info) of
               None \<Rightarrow> (- EOPNOTSUPP, s1)
             | Some r \<Rightarrow> (case spinand_select_op_variant m (info_write_cache info) of
                 None \<Rightarrow> (- EOPNOTSUPP, s1\<lparr>read_cache := r\<rparr>)
               | Some w \<Rightarrow> (0, s1\<lparr>read_cache := r, write_cache := w,
                   update_cache := (case spinand_select_op_variant m (info_update_cache info) of Some u \<Rightarrow> u
                                    | None \<Rightarrow> update_cache s)\<rparr>)))"

text \<open>1 for a chip that is known, 0 for another manufacturer.\<close>

definition winbond_spinand_detect :: "u8 list \<Rightarrow> 'd fnand \<Rightarrow> int \<times> 'd fnand" where
  "winbond_spinand_detect ident s =
     (if ident ! 1 \<noteq> 0xEF then (0, s)
      else case spinand_match_and_init winbond_spinand_table (ident ! 2) s of (ret, s1) \<Rightarrow> (if ret \<noteq> 0 then ret else 1, s1))"

definition spinand_manufacturer_detect :: "u8 list \<Rightarrow> 'd fnand \<Rightarrow> int \<times> 'd fnand" where
  "spinand_manufacturer_detect ident s =
     (case winbond_spinand_detect ident s of (ret, s1) \<Rightarrow>
        if ret > 0 then (0, s1) else if ret < 0 then (ret, s1) else (- EOPNOTSUPP, s1))"

text \<open>No entry of the table can select a target.\<close>

definition spinand_detect :: "'d spi_controller \<Rightarrow> 'd fnand \<Rightarrow> int \<times> 'd fnand" where
  "spinand_detect c s =
     on_ok (spinand_reset_op c s) (\<lambda>s1.
       case spinand_read_id_op c s1 of (ret, ident, s2) \<Rightarrow>
         if ret \<noteq> 0 then (ret, s2)
         else on_ok (spinand_manufacturer_detect ident s2) (\<lambda>s3.
           if ntargets (memorg s3) > 1 then (- EINVAL, s3) else (0, s3)))"

fun winbond_init_targets :: "'d spi_controller \<Rightarrow> nat list \<Rightarrow> 'd fnand \<Rightarrow> 'd fnand" where
  "winbond_init_targets c [] s = s"
| "winbond_init_targets c (tgt # tgts) s =
     winbond_init_targets c tgts
       (snd (spinand_upd_cfg c WINBOND_CFG_BUF_READ WINBOND_CFG_BUF_READ (snd (spinand_select_target tgt s))))"

definition winbond_spinand_init :: "'d spi_controller \<Rightarrow> 'd fnand \<Rightarrow> int \<times> 'd fnand" where
  "winbond_spinand_init c s = (0, winbond_init_targets c [0..<ntargets (memorg s)] s)"

fun unlock_targets :: "'d spi_controller \<Rightarrow> nat list \<Rightarrow> 'd fnand \<Rightarrow> int \<times> 'd fnand" where
  "unlock_targets c [] s = (0, s)"
| "unlock_targets c (tgt # tgts) s =
     on_ok (spinand_select_target tgt s) (\<lambda>s1.
     on_ok (spinand_lock_block c BL_ALL_UNLOCKED s1) (unlock_targets c tgts))"

text \<open>The chip of the table has no quad enable bit (its \<^verbatim>\<open>flags\<close> are 0), so that step sends nothing.\<close>

definition spinand_init :: "'d spi_controller \<Rightarrow> 'd fnand \<Rightarrow> int \<times> 'd fnand" where
  "spinand_init c s =
     on_ok (spinand_detect c s) (\<lambda>s1.
     on_ok (spinand_init_cfg_cache c s1) (\<lambda>s2.
     on_ok (spinand_upd_cfg c CFG_OTP_ENABLE 0 s2) (\<lambda>s3.
     on_ok (winbond_spinand_init c s3) (\<lambda>s4.
     on_ok (unlock_targets c [0..<ntargets (memorg s4)] s4) (\<lambda>s5.
     on_ok (nanddev_init s5) (\<lambda>s6.
       (0, s6\<lparr>mtd_oobavail_field := mtd_ooblayout_count_freebytes\<rparr>)))))))"

subsection \<open>The service functions (scai_fpgaqspi_service.c)\<close>

definition FPGA_Flash_init :: "'d spi_controller \<Rightarrow> 'd fnand \<Rightarrow> bool \<times> 'd fnand" where
  "FPGA_Flash_init c s =
     (if is_initialized s then (True, s)
      else case spinand_init c (s\<lparr>spi_chip := spi_probe c (spi_chip s)\<rparr>) of (err, s1) \<Rightarrow>
        if err = 0 then (True, s1\<lparr>is_initialized := True\<rparr>) else (False, s1))"

text \<open>Write size, erase size and size, when there is a chip.\<close>

definition FPGA_Flash_getinfo :: "'d fnand \<Rightarrow> (nat \<times> nat \<times> nat) option" where
  "FPGA_Flash_getinfo s = (if is_initialized s then Some (mtd_writesize s, mtd_erasesize s, mtd_size s) else None)"

text \<open>The offsets that are printed as bad.\<close>

partial_function (option) isbad_scan :: "'d spi_controller \<Rightarrow> u32 \<Rightarrow> u32 list \<Rightarrow> 'd fnand \<Rightarrow> (u32 list \<times> 'd fnand) option" where
  "isbad_scan c off bads s =
     (if unat off < mtd_size s then
        (case mtd_block_isbad c (unat off) s of (ret, s1) \<Rightarrow>
           isbad_scan c (off + of_nat (mtd_erasesize s1)) (if ret \<noteq> 0 then bads @ [off] else bads) s1)
      else Some (bads, s))"

definition FPGA_Flash_isbad :: "'d spi_controller \<Rightarrow> 'd fnand \<Rightarrow> (bool \<times> u32 list \<times> 'd fnand) option" where
  "FPGA_Flash_isbad c s =
     (if \<not> is_initialized s then Some (False, [], s) else map_option (\<lambda>(bads, s1). (True, bads, s1)) (isbad_scan c 0 [] s))"

definition mtd_is_aligned_with_min_io_size :: "'d fnand \<Rightarrow> u64 \<Rightarrow> bool" where
  "mtd_is_aligned_with_min_io_size s n \<longleftrightarrow> unat n mod mtd_writesize s = 0"

definition mtd_is_aligned_with_block_size :: "'d fnand \<Rightarrow> u64 \<Rightarrow> bool" where
  "mtd_is_aligned_with_block_size s n \<longleftrightarrow> unat n mod mtd_erasesize s = 0"

text \<open>
  The bytes that reach the destination; with a null destination they are printed.  A page that
  cannot be read leaves \<^verbatim>\<open>retlen\<close> at 0, and the loop asks for it again.
\<close>

partial_function (option) flash_read_loop ::
    "'d spi_controller \<Rightarrow> u64 \<Rightarrow> u32 \<Rightarrow> u64 \<Rightarrow> u64 \<Rightarrow> u8 list \<Rightarrow> 'd fnand \<Rightarrow> (u8 list \<times> 'd fnand) option" where
  "flash_read_loop c cur off n remaining acc s =
     (if n = 0 then Some (acc, s)
      else Option.bind (mtd_read_oob c (unat off) \<lparr> ops_mode = MTD_OPS_RAW, ops_len = mtd_writesize s, ops_ooblen = mtd_oobsize s,
               ops_ooboffs = 0, ops_datbuf = Some [], ops_oobbuf = Some [] \<rparr> s)
        (\<lambda>(ret, bs, oob, s1).
          let retlen = of_nat (length bs) :: u64;
              copy_len = (if remaining < retlen then remaining else retlen)
          in flash_read_loop c (if cur \<noteq> 0 then cur + copy_len else cur) (off + ucast retlen) (n - retlen)
               (if cur \<noteq> 0 then remaining - copy_len else remaining)
               (if cur \<noteq> 0 then acc @ take (unat copy_len) bs else acc) s1))"

definition FPGA_Flash_read :: "'d spi_controller \<Rightarrow> u64 \<Rightarrow> u32 \<Rightarrow> u64 \<Rightarrow> 'd fnand \<Rightarrow> (bool \<times> u8 list \<times> 'd fnand) option" where
  "FPGA_Flash_read c dest off n s =
     (if \<not> is_initialized s \<or> \<not> mtd_is_aligned_with_min_io_size s (ucast off) then Some (False, [], s)
      else map_option (\<lambda>(bs, s1). (True, bs, s1))
        (flash_read_loop c dest off (if mtd_is_aligned_with_min_io_size s n then n else round_up n (of_nat (mtd_writesize s)))
          n [] s))"

text \<open>An offset that is not aligned is reported, and the write goes on.\<close>

function flash_write_loop :: "'d spi_controller \<Rightarrow> u32 \<Rightarrow> u8 list \<Rightarrow> 'd fnand \<Rightarrow> 'd fnand option" where
  "flash_write_loop c off bs s =
     (if bs = [] then Some s
      else if mtd_writesize s = 0 then None
      else Option.bind (mtd_write_oob c (unat off) \<lparr> ops_mode = MTD_OPS_RAW, ops_len = mtd_writesize s, ops_ooblen = 0, ops_ooboffs = 0,
               ops_datbuf = Some (take (mtd_writesize s) bs @ replicate (mtd_writesize s - length bs) 0xFF), ops_oobbuf = None \<rparr> s)
        (\<lambda>(ret, retlen, s1). flash_write_loop c (off + of_nat retlen) (drop (mtd_writesize s) bs) s1))"
  by pat_completeness auto
termination by (relation "measure (\<lambda>(c, off, bs, s). length bs)") auto

declare flash_write_loop.simps [simp del]

definition FPGA_Flash_write :: "'d spi_controller \<Rightarrow> u32 \<Rightarrow> u8 list \<Rightarrow> 'd fnand \<Rightarrow> (bool \<times> 'd fnand) option" where
  "FPGA_Flash_write c off bs s =
     (if \<not> is_initialized s then Some (False, s) else map_option (\<lambda>s1. (True, s1)) (flash_write_loop c off bs s))"

text \<open>The result of an erase is not looked at; the number of blocks that are left.\<close>

fun flash_erase_loop :: "'d spi_controller \<Rightarrow> nat \<Rightarrow> nat \<Rightarrow> 'd fnand \<Rightarrow> 'd fnand option" where
  "flash_erase_loop c addr 0 s = Some s"
| "flash_erase_loop c addr (Suc k) s =
     Option.bind (mtd_erase c addr (mtd_erasesize s) s) (\<lambda>(ret, s1). flash_erase_loop c (addr + mtd_erasesize s1) k s1)"

definition FPGA_Flash_erase :: "'d spi_controller \<Rightarrow> u32 \<Rightarrow> u64 \<Rightarrow> 'd fnand \<Rightarrow> (bool \<times> 'd fnand) option" where
  "FPGA_Flash_erase c off n s =
     (if \<not> is_initialized s \<or> \<not> mtd_is_aligned_with_block_size s (ucast off) \<or> \<not> mtd_is_aligned_with_block_size s n
      then Some (False, s)
      else map_option (\<lambda>s1. (True, s1)) (flash_erase_loop c (unat off) (unat n div mtd_erasesize s) s))"

subsection \<open>What the data sheet promises\<close>

text \<open>
  A view of the state of the chip: the cells of a page (data, then spare area), the buffer of
  the chip, how many more reads of the status find it busy, the write enable latch and whether
  the blocks are unlocked.
\<close>

record 'd chip_view =
  cell :: "'d \<Rightarrow> nat \<Rightarrow> nat \<Rightarrow> u8"
  cbuf :: "'d \<Rightarrow> nat \<Rightarrow> u8"
  busy :: "'d \<Rightarrow> nat"
  wel :: "'d \<Rightarrow> bool"
  unlocked :: "'d \<Rightarrow> bool"

definition same_cells :: "'d chip_view \<Rightarrow> 'd \<Rightarrow> 'd \<Rightarrow> bool" where
  "same_cells V d d' \<longleftrightarrow> cell V d' = cell V d \<and> unlocked V d' = unlocked V d"

text \<open>
  Read the status; enable writing; set a register (not into the one-time area); transfers
  between the host and the buffer.  A read on four lanes moves whole words: the loop of
  \<^verbatim>\<open>scai_fpgaqspi_read_op\<close> ends only for multiples of four bytes, and nothing is promised for others.
\<close>

definition transfers_ok :: "'d spi_controller \<Rightarrow> 'd chip_view \<Rightarrow> bool" where
  "transfers_ok c V \<longleftrightarrow>
     (\<forall>d. case spi_exec c (SPINAND_GET_FEATURE_OP REG_STATUS) d of (ret, f, d') \<Rightarrow>
        ret = 0 \<and> same_cells V d d' \<and> cbuf V d' = cbuf V d \<and> wel V d' = wel V d \<and> busy V d' = busy V d - 1
        \<and> (f 0 AND STATUS_BUSY \<noteq> 0 \<longleftrightarrow> 0 < busy V d) \<and> f 0 AND STATUS_PROG_FAILED = 0 \<and> f 0 AND STATUS_ERASE_FAILED = 0)
   \<and> (\<forall>d. busy V d = 0 \<longrightarrow> (case spi_exec c (SPINAND_WR_EN_DIS_OP True) d of (ret, f, d') \<Rightarrow>
        ret = 0 \<and> same_cells V d d' \<and> busy V d' = 0 \<and> wel V d'))
   \<and> (\<forall>d reg val. busy V d = 0 \<and> (reg = REG_CFG \<longrightarrow> val AND CFG_OTP_ENABLE = 0) \<longrightarrow>
        (case spi_exec c (SPINAND_SET_FEATURE_OP reg val) d of (ret, f, d') \<Rightarrow>
        ret = 0 \<and> cell V d' = cell V d \<and> busy V d' = 0
        \<and> unlocked V d' = (if reg = REG_BLOCK_LOCK then val = BL_ALL_UNLOCKED else unlocked V d)))
   \<and> (\<forall>d a n. busy V d = 0 \<and> a + n \<le> 2112 \<and> n mod 4 = 0 \<longrightarrow> (case spi_exec c (SPINAND_PAGE_READ_FROM_CACHE_X4_OP a 1 n) d of (ret, f, d') \<Rightarrow>
        ret = 0 \<and> same_cells V d d' \<and> busy V d' = 0 \<and> (\<forall>i < n. f i = cbuf V d (a + i))))
   \<and> (\<forall>d r a bs. busy V d = 0 \<and> a + length bs \<le> 2112 \<longrightarrow> (case spi_exec c (SPINAND_PROG_LOAD r a bs) d of (ret, f, d') \<Rightarrow>
        ret = 0 \<and> same_cells V d d' \<and> busy V d' = 0 \<and> wel V d' = wel V d
        \<and> (\<forall>i < 2112. cbuf V d' i = (if a \<le> i \<and> i < a + length bs then bs ! (i - a) else if r then 0xFF else cbuf V d i))))"

text \<open>Read a page into the buffer, program a page (bits can only be cleared), erase a block of 64 pages.\<close>

definition array_ok :: "'d spi_controller \<Rightarrow> 'd chip_view \<Rightarrow> bool" where
  "array_ok c V \<longleftrightarrow>
     (\<forall>d row. busy V d = 0 \<and> row < 65536 \<longrightarrow> (case spi_exec c (SPINAND_PAGE_READ_OP row) d of (ret, f, d') \<Rightarrow>
        ret = 0 \<and> same_cells V d d' \<and> busy V d' \<le> 40000 \<and> (\<forall>i < 2112. cbuf V d' i = cell V d row i)))
   \<and> (\<forall>d row. busy V d = 0 \<and> row < 65536 \<and> wel V d \<and> unlocked V d \<longrightarrow> (case spi_exec c (SPINAND_PROG_EXEC_OP row) d of (ret, f, d') \<Rightarrow>
        ret = 0 \<and> busy V d' \<le> 40000 \<and> unlocked V d'
        \<and> (\<forall>r. \<forall>i < 2112. cell V d' r i = (if r = row then cell V d r i AND cbuf V d i else cell V d r i))))
   \<and> (\<forall>d row. busy V d = 0 \<and> row < 65536 \<and> wel V d \<and> unlocked V d \<longrightarrow> (case spi_exec c (SPINAND_BLK_ERASE_OP row) d of (ret, f, d') \<Rightarrow>
        ret = 0 \<and> busy V d' \<le> 40000 \<and> unlocked V d'
        \<and> (\<forall>r. \<forall>i < 2112. cell V d' r i = (if r div 64 = row div 64 then 0xFF else cell V d r i))))"

lemma get_status:
  assumes "transfers_ok c V"
  obtains f d' where "spi_exec c (SPINAND_GET_FEATURE_OP REG_STATUS) d = (0, f, d')" "same_cells V d d'" "cbuf V d' = cbuf V d"
    "wel V d' = wel V d" "busy V d' = busy V d - 1" "f 0 AND STATUS_BUSY \<noteq> 0 \<longleftrightarrow> 0 < busy V d"
    "f 0 AND STATUS_PROG_FAILED = 0" "f 0 AND STATUS_ERASE_FAILED = 0"
  using assms[unfolded transfers_ok_def, THEN conjunct1, THEN spec, of d]
  by (cases "spi_exec c (SPINAND_GET_FEATURE_OP REG_STATUS) d") auto

lemma write_enable:
  assumes "transfers_ok c V" and "busy V d = 0"
  obtains f d' where "spi_exec c (SPINAND_WR_EN_DIS_OP True) d = (0, f, d')" "same_cells V d d'" "busy V d' = 0" "wel V d'"
  using assms(1)[unfolded transfers_ok_def, THEN conjunct2, THEN conjunct1, rule_format, OF assms(2)]
  by (cases "spi_exec c (SPINAND_WR_EN_DIS_OP True) d") auto

lemma set_feature:
  assumes "transfers_ok c V" and "busy V d = 0" and "reg = REG_CFG \<longrightarrow> val AND CFG_OTP_ENABLE = 0"
  obtains f d' where "spi_exec c (SPINAND_SET_FEATURE_OP reg val) d = (0, f, d')" "cell V d' = cell V d" "busy V d' = 0"
    "unlocked V d' = (if reg = REG_BLOCK_LOCK then val = BL_ALL_UNLOCKED else unlocked V d)"
  using assms(1)[unfolded transfers_ok_def, THEN conjunct2, THEN conjunct2, THEN conjunct1, THEN spec, THEN spec, THEN spec, THEN mp, OF conjI [OF assms(2,3)]]
  by (cases "spi_exec c (SPINAND_SET_FEATURE_OP reg val) d") auto

lemma read_buffer:
  assumes "transfers_ok c V" and "busy V d = 0" and "a + n \<le> 2112" and "n mod 4 = 0"
  obtains f d' where "spi_exec c (SPINAND_PAGE_READ_FROM_CACHE_X4_OP a 1 n) d = (0, f, d')" "same_cells V d d'" "busy V d' = 0"
    "\<And>i. i < n \<Longrightarrow> f i = cbuf V d (a + i)"
  using assms(1)[unfolded transfers_ok_def, THEN conjunct2, THEN conjunct2, THEN conjunct2, THEN conjunct1, rule_format, OF conjI [OF assms(2) conjI [OF assms(3,4)]]]
  by (cases "spi_exec c (SPINAND_PAGE_READ_FROM_CACHE_X4_OP a 1 n) d") auto

lemma load_buffer:
  assumes "transfers_ok c V" and "busy V d = 0" and "a + length bs \<le> 2112"
  obtains f d' where "spi_exec c (SPINAND_PROG_LOAD r a bs) d = (0, f, d')" "same_cells V d d'" "busy V d' = 0" "wel V d' = wel V d"
    "\<And>i. i < 2112 \<Longrightarrow> cbuf V d' i = (if a \<le> i \<and> i < a + length bs then bs ! (i - a) else if r then 0xFF else cbuf V d i)"
  using assms(1)[unfolded transfers_ok_def, THEN conjunct2, THEN conjunct2, THEN conjunct2, THEN conjunct2, rule_format, OF conjI [OF assms(2,3)], of r]
  by (cases "spi_exec c (SPINAND_PROG_LOAD r a bs) d") auto

lemma array_read:
  assumes "array_ok c V" and "busy V d = 0" and "row < 65536"
  obtains f d' where "spi_exec c (SPINAND_PAGE_READ_OP row) d = (0, f, d')" "same_cells V d d'" "busy V d' \<le> 40000"
    "\<And>i. i < 2112 \<Longrightarrow> cbuf V d' i = cell V d row i"
  using assms(1)[unfolded array_ok_def, THEN conjunct1, rule_format, OF conjI [OF assms(2,3)]]
  by (cases "spi_exec c (SPINAND_PAGE_READ_OP row) d") auto

lemma array_program:
  assumes "array_ok c V" and "busy V d = 0" "row < 65536" "wel V d" "unlocked V d"
  obtains f d' where "spi_exec c (SPINAND_PROG_EXEC_OP row) d = (0, f, d')" "busy V d' \<le> 40000" "unlocked V d'"
    "\<And>r i. i < 2112 \<Longrightarrow> cell V d' r i = (if r = row then cell V d r i AND cbuf V d i else cell V d r i)"
  using assms(1)[unfolded array_ok_def, THEN conjunct2, THEN conjunct1, rule_format, of d row] assms(2-5)
  by (cases "spi_exec c (SPINAND_PROG_EXEC_OP row) d") auto

lemma array_erase:
  assumes "array_ok c V" and "busy V d = 0" "row < 65536" "wel V d" "unlocked V d"
  obtains f d' where "spi_exec c (SPINAND_BLK_ERASE_OP row) d = (0, f, d')" "busy V d' \<le> 40000" "unlocked V d'"
    "\<And>r i. i < 2112 \<Longrightarrow> cell V d' r i = (if r div 64 = row div 64 then 0xFF else cell V d r i)"
  using assms(1)[unfolded array_ok_def, THEN conjunct2, THEN conjunct2, rule_format, of d row] assms(2-5)
  by (cases "spi_exec c (SPINAND_BLK_ERASE_OP row) d") auto

subsection \<open>The driver after its initialisation\<close>

definition driver_ok :: "'d chip_view \<Rightarrow> 'd fnand \<Rightarrow> bool" where
  "driver_ok V s \<longleftrightarrow> is_initialized s \<and> memorg s = w25n01gv_memorg \<and> cur_target s = 0 \<and> length (cfg_cache s) = 2
     \<and> cfg_cache s ! 0 AND CFG_OTP_ENABLE = 0
     \<and> read_cache s = SPINAND_PAGE_READ_FROM_CACHE_X4_OP 0 1 0 \<and> write_cache s = SPINAND_PROG_LOAD True 0 []
     \<and> update_cache s = SPINAND_PROG_LOAD False 0 [] \<and> eraseblock_addr_shift s = 6 \<and> lun_addr_shift s = 16
     \<and> bbt_cache s \<and> length (g_cache s) = 4096 \<and> mtd_flags s = 0x400 \<and> mtd_size s = 0x8000000 \<and> mtd_erasesize s = 0x20000
     \<and> mtd_writesize s = 2048 \<and> mtd_oobsize s = 64 \<and> busy V (spi_chip s) = 0 \<and> unlocked V (spi_chip s)"

lemma driver_ok_chip:
  "driver_ok V s \<Longrightarrow> busy V d = 0 \<Longrightarrow> unlocked V d \<Longrightarrow> driver_ok V (s\<lparr>spi_chip := d\<rparr>)"
  by (simp add: driver_ok_def)

lemma wait_polls_ok:
  assumes "transfers_ok c V"
  shows "busy V (spi_chip s) \<le> n \<Longrightarrow> \<exists>st d. wait_polls c n s = (0, st, s\<lparr>spi_chip := d\<rparr>) \<and> same_cells V (spi_chip s) d
    \<and> cbuf V d = cbuf V (spi_chip s) \<and> busy V d = 0 \<and> st AND STATUS_PROG_FAILED = 0 \<and> st AND STATUS_ERASE_FAILED = 0"
proof (induction n arbitrary: s)
  case 0
  obtain f d where "spi_exec c (SPINAND_GET_FEATURE_OP REG_STATUS) (spi_chip s) = (0, f, d)" "same_cells V (spi_chip s) d"
    "cbuf V d = cbuf V (spi_chip s)" "busy V d = busy V (spi_chip s) - 1"
    "f 0 AND STATUS_BUSY \<noteq> 0 \<longleftrightarrow> 0 < busy V (spi_chip s)" "f 0 AND STATUS_PROG_FAILED = 0" "f 0 AND STATUS_ERASE_FAILED = 0"
    using get_status [OF assms] by metis
  then show ?case using 0 by (intro exI [of _ "f 0"] exI [of _ d]) (simp add: spinand_read_status_def spinand_read_reg_op_def exec_op_def)
next
  case (Suc n)
  obtain f d where d: "spi_exec c (SPINAND_GET_FEATURE_OP REG_STATUS) (spi_chip s) = (0, f, d)" "same_cells V (spi_chip s) d"
    "cbuf V d = cbuf V (spi_chip s)" "busy V d = busy V (spi_chip s) - 1"
    "f 0 AND STATUS_BUSY \<noteq> 0 \<longleftrightarrow> 0 < busy V (spi_chip s)" "f 0 AND STATUS_PROG_FAILED = 0" "f 0 AND STATUS_ERASE_FAILED = 0"
    using get_status [OF assms] by metis
  show ?case
  proof (cases "busy V (spi_chip s) = 0")
    case True
    then show ?thesis using d by (intro exI [of _ "f 0"] exI [of _ d]) (simp add: spinand_read_status_def spinand_read_reg_op_def exec_op_def)
  next
    case False
    have "busy V (spi_chip (s\<lparr>spi_chip := d\<rparr>)) \<le> n" using Suc.prems d(4) by simp
    from Suc.IH [OF this] obtain st d1 where "wait_polls c n (s\<lparr>spi_chip := d\<rparr>) = (0, st, s\<lparr>spi_chip := d1\<rparr>)" "same_cells V d d1"
      "cbuf V d1 = cbuf V d" "busy V d1 = 0" "st AND STATUS_PROG_FAILED = 0" "st AND STATUS_ERASE_FAILED = 0" by auto
    then show ?thesis using d False
      by (intro exI [of _ st] exI [of _ d1]) (simp add: spinand_read_status_def spinand_read_reg_op_def exec_op_def same_cells_def)
  qed
qed

lemma spinand_wait_ok:
  assumes "transfers_ok c V" and "busy V (spi_chip s) \<le> 40000"
  shows "\<exists>st d. spinand_wait c s = (0, st, s\<lparr>spi_chip := d\<rparr>) \<and> same_cells V (spi_chip s) d
    \<and> cbuf V d = cbuf V (spi_chip s) \<and> busy V d = 0 \<and> st AND STATUS_PROG_FAILED = 0 \<and> st AND STATUS_ERASE_FAILED = 0"
  using wait_polls_ok [OF assms(1), of s "40000 + 1"] assms(2) by (simp add: spinand_wait_def)

subsection \<open>Positions of the one chip\<close>

definition pos_of_row :: "nat \<Rightarrow> nand_pos" where
  "pos_of_row r = \<lparr> target = 0, lun = 0, plane = 0, eraseblock = r div 64, page = r mod 64 \<rparr>"

lemma pos_of_row_simps [simp]:
  "target (pos_of_row r) = 0" "lun (pos_of_row r) = 0" "plane (pos_of_row r) = 0"
  "eraseblock (pos_of_row r) = r div 64" "page (pos_of_row r) = r mod 64"
  by (simp_all add: pos_of_row_def)

lemma memorg_simps [simp]:
  "bits_per_cell w25n01gv_memorg = 1" "pagesize w25n01gv_memorg = 2048" "memorg_oobsize w25n01gv_memorg = 64"
  "pages_per_eraseblock w25n01gv_memorg = 64" "eraseblocks_per_lun w25n01gv_memorg = 1024"
  "planes_per_lun w25n01gv_memorg = 1" "luns_per_target w25n01gv_memorg = 1" "ntargets w25n01gv_memorg = 1"
  by (simp_all add: w25n01gv_memorg_def)

lemma offs_to_pos: "offs < 0x8000000 \<Longrightarrow> nanddev_offs_to_pos w25n01gv_memorg offs = (offs mod 2048, pos_of_row (offs div 2048))"
  by (simp add: nanddev_offs_to_pos_def Let_def pos_of_row_def div_mult2_eq [symmetric])

lemma adjust_read_op [simp]:
  "scai_fpgaqspi_adjust_op_size (SPINAND_PAGE_READ_FROM_CACHE_X4_OP a k n) = SPINAND_PAGE_READ_FROM_CACHE_X4_OP a k n"
  "op_data_nbytes (SPINAND_PAGE_READ_FROM_CACHE_X4_OP a k n) = n"
  "(SPINAND_PAGE_READ_FROM_CACHE_X4_OP a k n)\<lparr>op_addr_val := a', op_data_nbytes := n'\<rparr> = SPINAND_PAGE_READ_FROM_CACHE_X4_OP a' k n'"
  by (simp_all add: scai_fpgaqspi_adjust_op_size_def SPINAND_PAGE_READ_FROM_CACHE_X4_OP_def SPI_DATA_IN_def SPI_ADDR_def SPI_CMD_def)

lemma next_page: "r + 1 < 65536 \<Longrightarrow> nanddev_pos_next_page w25n01gv_memorg (pos_of_row r) = pos_of_row (r + 1)"
proof (cases "r mod 64 \<ge> 63")
  case True
  assume r: "r + 1 < 65536"
  have m: "r mod 64 = 63" using True mod_less_divisor [of 64 r] by linarith
  then have "r div 64 < 1023" using r div_mult_mod_eq [of r 64] by linarith
  then show ?thesis
    using m by (simp add: nanddev_pos_next_page_def nanddev_pos_next_eraseblock_def pos_of_row_def div_Suc mod_Suc)
next
  case False
  then show ?thesis by (simp add: nanddev_pos_next_page_def pos_of_row_def div_Suc mod_Suc)
qed

lemma next_eraseblock: "b + 1 < 1024 \<Longrightarrow> nanddev_pos_next_eraseblock w25n01gv_memorg (pos_of_row (b * 64)) = pos_of_row ((b + 1) * 64)"
  by (simp add: nanddev_pos_next_eraseblock_def pos_of_row_def)

lemma push_or: "y < 2 ^ k \<Longrightarrow> push_bit k x OR y = x * 2 ^ k + (y :: nat)"
proof -
  assume y: "y < 2 ^ k"
  have "\<not> bit (push_bit k x) i \<or> \<not> bit y i" for i
  proof (cases "i < k")
    case False
    then have "y < 2 ^ i" using y by (meson leI less_le_trans one_le_numeral power_increasing)
    then have "\<not> bit y i" by (simp add: bit_iff_odd)
    then show ?thesis by simp
  qed (simp add: bit_push_bit_iff)
  then have "push_bit k x + y = push_bit k x OR y" by (intro disjunctive_add) simp
  then show ?thesis by (simp add: push_bit_eq_mult)
qed

lemma pos_to_row: "driver_ok V s \<Longrightarrow> nanddev_pos_to_row s (pos_of_row r) = r"
proof -
  assume "driver_ok V s"
  moreover have "push_bit 6 (r div 64) OR r mod 64 = r" using push_or [of "r mod 64" 6 "r div 64"] by simp
  ultimately show ?thesis by (simp add: nanddev_pos_to_row_def driver_ok_def)
qed

lemma fls_values: "fls 5 = 3" "fls 63 = 6" "fls 1023 = 10"
  by (simp_all add: fls_def)

subsection \<open>Pages\<close>

lemma read_cache_loop_ok:
  assumes "transfers_ok c V" and "busy V (spi_chip s) = 0" and "read_cache s = SPINAND_PAGE_READ_FROM_CACHE_X4_OP 0 1 0"
    and "column + n \<le> 2112" and "n mod 4 = 0"
  shows "\<exists>d. read_cache_loop c n column [] s = (0, map (cbuf V (spi_chip s)) [column..<column + n], s\<lparr>spi_chip := d\<rparr>)
    \<and> same_cells V (spi_chip s) d \<and> busy V d = 0"
proof (cases "n = 0")
  case True
  then show ?thesis using assms(2) by (intro exI [of _ "spi_chip s"]) (simp add: read_cache_loop.simps same_cells_def)
next
  case False
  obtain f d where d: "spi_exec c (SPINAND_PAGE_READ_FROM_CACHE_X4_OP column 1 n) (spi_chip s) = (0, f, d)"
    "same_cells V (spi_chip s) d" "busy V d = 0" "\<And>i. i < n \<Longrightarrow> f i = cbuf V (spi_chip s) (column + i)"
    using read_buffer [OF assms(1,2,4,5)] by metis
  have "map f [0..<n] = map (cbuf V (spi_chip s)) [column..<column + n]"
    using d(4) by (intro nth_equalityI) simp_all
  then show ?thesis
    using False d by (intro exI [of _ d], subst read_cache_loop.simps)
      (simp add: assms(3) Let_def exec_op_def read_cache_loop.simps)
qed

lemma map_upt_part: "a + n \<le> m \<Longrightarrow> take n (drop a (map f [k..<k + m])) = map f [k + a..<k + a + n]"
  by (rule nth_equalityI) (auto simp: add.assoc)

lemma spinand_read_page_ok:
  assumes c: "transfers_ok c V" "array_ok c V" and s: "driver_ok V s" and r: "r < 65536" "req_pos req = pos_of_row r"
    and req: "req_mode req = MTD_OPS_RAW" "dataoffs req + datalen req \<le> 2048" "ooboffs req + ooblen req \<le> 64"
  shows "\<exists>d. spinand_read_page c req False s =
      (0, map (cell V (spi_chip s) r) [dataoffs req..<dataoffs req + datalen req],
       map (cell V (spi_chip s) r) [2048 + ooboffs req..<2048 + ooboffs req + ooblen req], s\<lparr>spi_chip := d\<rparr>)
    \<and> same_cells V (spi_chip s) d \<and> busy V d = 0"
proof -
  let ?d0 = "spi_chip s"
  have b: "busy V ?d0 = 0" and m: "memorg s = w25n01gv_memorg" and rc: "read_cache s = SPINAND_PAGE_READ_FROM_CACHE_X4_OP 0 1 0"
    using s by (simp_all add: driver_ok_def)
  obtain f1 d1 where d1: "spi_exec c (SPINAND_PAGE_READ_OP r) ?d0 = (0, f1, d1)" "same_cells V ?d0 d1" "busy V d1 \<le> 40000"
    "\<And>i. i < 2112 \<Longrightarrow> cbuf V d1 i = cell V ?d0 r i"
    using array_read [OF c(2) b r(1)] by metis
  have b1: "busy V (spi_chip (s\<lparr>spi_chip := d1\<rparr>)) \<le> 40000" using d1(3) by simp
  obtain st d2 where d2: "spinand_wait c (s\<lparr>spi_chip := d1\<rparr>) = (0, st, s\<lparr>spi_chip := d2\<rparr>)" "same_cells V d1 d2"
    "cbuf V d2 = cbuf V d1" "busy V d2 = 0"
    using spinand_wait_ok [OF c(1) b1] by auto
  let ?n = "(if datalen req \<noteq> 0 then 2048 else 0) + (if ooblen req \<noteq> 0 then 64 else 0) :: nat"
  let ?col = "if datalen req = 0 \<and> ooblen req \<noteq> 0 then 2048 else 0 :: nat"
  have "busy V (spi_chip (s\<lparr>spi_chip := d2\<rparr>)) = 0" "read_cache (s\<lparr>spi_chip := d2\<rparr>) = SPINAND_PAGE_READ_FROM_CACHE_X4_OP 0 1 0"
    "?col + ?n \<le> 2112" "?n mod 4 = 0" using d2(4) rc by simp_all
  from read_cache_loop_ok [OF c(1) this] obtain d3 where
    d3: "read_cache_loop c ?n ?col [] (s\<lparr>spi_chip := d2\<rparr>) = (0, map (cbuf V d2) [?col..<?col + ?n], s\<lparr>spi_chip := d3\<rparr>)"
      "same_cells V d2 d3" "busy V d3 = 0"
    by auto
  have cells: "map (cbuf V d2) [?col..<?col + ?n] = map (cell V ?d0 r) [?col..<?col + ?n]"
    using d1(4) d2(3) by (intro map_cong refl) (auto split: if_splits)
  have bs: "take (datalen req) (drop (dataoffs req) (if datalen req \<noteq> 0 then map (cell V ?d0 r) [?col..<?col + ?n] else []))
      = map (cell V ?d0 r) [dataoffs req..<dataoffs req + datalen req]"
    using map_upt_part [of "dataoffs req" "datalen req" 2048 "cell V ?d0 r" 0]
      map_upt_part [of "dataoffs req" "datalen req" 2112 "cell V ?d0 r" 0] req(2) by (cases "ooblen req = 0") simp_all
  have oob: "take (ooblen req) (drop (ooboffs req) (if datalen req \<noteq> 0 then drop 2048 (map (cell V ?d0 r) [?col..<?col + ?n])
        else map (cell V ?d0 r) [?col..<?col + ?n])) = map (cell V ?d0 r) [2048 + ooboffs req..<2048 + ooboffs req + ooblen req]"
    if "ooblen req \<noteq> 0"
  proof (cases "datalen req = 0")
    case True
    then show ?thesis using that req(3) map_upt_part [of "ooboffs req" "ooblen req" 64 "cell V ?d0 r" 2048] by simp
  next
    case False
    have "drop 2048 (map (cell V ?d0 r) [0..<2112]) = map (cell V ?d0 r) [2048..<2048 + 64]"
      by (simp add: drop_map)
    then show ?thesis using False that req(3) map_upt_part [of "ooboffs req" "ooblen req" 64 "cell V ?d0 r" 2048] by simp
  qed
  have "spinand_read_from_cache_op c req (s\<lparr>spi_chip := d2\<rparr>) =
      (0, map (cell V ?d0 r) [dataoffs req..<dataoffs req + datalen req],
       map (cell V ?d0 r) [2048 + ooboffs req..<2048 + ooboffs req + ooblen req], s\<lparr>spi_chip := d3\<rparr>)"
    using d3(1) bs oob unfolding cells
    by (cases "ooblen req = 0"; cases "datalen req = 0") (simp_all add: spinand_read_from_cache_op_def spinand_cache_op_adjust_colum_def m req(1) Let_def)
  then show ?thesis
    using d1(1,2) d2(1,2) d3(2,3) pos_to_row [OF s, of r]
    by (intro exI [of _ d3]) (simp add: spinand_read_page_def spinand_load_page_op_def exec_op_def r(2) same_cells_def)
qed

lemma prog_chunk:
  defines "p \<equiv> \<lambda>r a buf. scai_fpgaqspi_adjust_op_size ((SPINAND_PROG_LOAD r 0 [])\<lparr>op_addr_val := a, op_data_nbytes := length buf\<rparr>)"
  shows "op_data_nbytes (p r a buf) = min (length buf) 0x440"
    and "(p r a buf)\<lparr>op_data_out := take (min (length buf) 0x440) buf\<rparr> = SPINAND_PROG_LOAD r a (take 0x440 buf)"
  by (auto simp: p_def scai_fpgaqspi_adjust_op_size_def SPINAND_PROG_LOAD_def SPI_DATA_OUT_def SPI_ADDR_def SPI_CMD_def min_def)

lemma write_cache_step:
  assumes "transfers_ok c V" and "busy V (spi_chip s) = 0" and "buf \<noteq> []" and "column + length buf \<le> 2112"
  shows "\<exists>d. write_cache_loop c (SPINAND_PROG_LOAD r 0 []) column buf s
        = write_cache_loop c (update_cache s) (column + min (length buf) 0x440) (drop 0x440 buf) (s\<lparr>spi_chip := d\<rparr>)
    \<and> same_cells V (spi_chip s) d \<and> busy V d = 0 \<and> wel V d = wel V (spi_chip s)
    \<and> (\<forall>i < 2112. cbuf V d i = (if column \<le> i \<and> i < column + min (length buf) 0x440 then buf ! (i - column)
          else if r then 0xFF else cbuf V (spi_chip s) i))"
proof -
  have "column + length (take 0x440 buf) \<le> 2112" using assms(4) by simp
  from load_buffer [OF assms(1,2) this, of r] obtain f d where
    d: "spi_exec c (SPINAND_PROG_LOAD r column (take 0x440 buf)) (spi_chip s) = (0, f, d)" "same_cells V (spi_chip s) d" "busy V d = 0"
      "wel V d = wel V (spi_chip s)"
      "\<And>i. i < 2112 \<Longrightarrow> cbuf V d i = (if column \<le> i \<and> i < column + length (take 0x440 buf) then take 0x440 buf ! (i - column)
          else if r then 0xFF else cbuf V (spi_chip s) i)" by metis
  have "drop (min (length buf) 0x440) buf = drop 0x440 buf" by (simp add: min_def)
  then have "write_cache_loop c (SPINAND_PROG_LOAD r 0 []) column buf s
      = write_cache_loop c (update_cache s) (column + min (length buf) 0x440) (drop 0x440 buf) (s\<lparr>spi_chip := d\<rparr>)"
    using d(1) assms(3) by (subst write_cache_loop.simps) (simp add: prog_chunk Let_def exec_op_def)
  moreover have "cbuf V d i = (if column \<le> i \<and> i < column + min (length buf) 0x440 then buf ! (i - column)
          else if r then 0xFF else cbuf V (spi_chip s) i)" if "i < 2112" for i
    using d(5) [OF that] by auto
  ultimately show ?thesis using d(2-4) by blast
qed

lemma write_cache_more:
  assumes "transfers_ok c V"
  shows "busy V (spi_chip s) = 0 \<Longrightarrow> update_cache s = SPINAND_PROG_LOAD False 0 [] \<Longrightarrow> column + length buf \<le> 2112
    \<Longrightarrow> \<exists>d. write_cache_loop c (SPINAND_PROG_LOAD False 0 []) column buf s = (0, s\<lparr>spi_chip := d\<rparr>)
      \<and> same_cells V (spi_chip s) d \<and> busy V d = 0 \<and> wel V d = wel V (spi_chip s)
      \<and> (\<forall>i < 2112. cbuf V d i = (if column \<le> i \<and> i < column + length buf then buf ! (i - column) else cbuf V (spi_chip s) i))"
proof (induction "length buf" arbitrary: buf column s rule: less_induct)
  case less
  show ?case
  proof (cases "buf = []")
    case True
    then show ?thesis using less.prems by (intro exI [of _ "spi_chip s"]) (auto simp: write_cache_loop.simps same_cells_def)
  next
    case False
    obtain d where d: "write_cache_loop c (SPINAND_PROG_LOAD False 0 []) column buf s
        = write_cache_loop c (update_cache s) (column + min (length buf) 0x440) (drop 0x440 buf) (s\<lparr>spi_chip := d\<rparr>)"
      "same_cells V (spi_chip s) d" "busy V d = 0" "wel V d = wel V (spi_chip s)"
      "\<forall>i < 2112. cbuf V d i = (if column \<le> i \<and> i < column + min (length buf) 0x440 then buf ! (i - column) else cbuf V (spi_chip s) i)"
      using write_cache_step [OF assms less.prems(1) False less.prems(3), of False] by auto
    have "length (drop 0x440 buf) < length buf" "busy V (spi_chip (s\<lparr>spi_chip := d\<rparr>)) = 0"
      "update_cache (s\<lparr>spi_chip := d\<rparr>) = SPINAND_PROG_LOAD False 0 []"
      "column + min (length buf) 0x440 + length (drop 0x440 buf) \<le> 2112"
      using False d(3) less.prems by auto
    from less.hyps [OF this] obtain d1 where
      d1: "write_cache_loop c (SPINAND_PROG_LOAD False 0 []) (column + min (length buf) 0x440) (drop 0x440 buf) (s\<lparr>spi_chip := d\<rparr>)
          = (0, s\<lparr>spi_chip := d1\<rparr>)" "same_cells V d d1" "busy V d1 = 0" "wel V d1 = wel V d"
        "\<forall>i < 2112. cbuf V d1 i = (if column + min (length buf) 0x440 \<le> i \<and> i < column + min (length buf) 0x440 + length (drop 0x440 buf)
            then drop 0x440 buf ! (i - (column + min (length buf) 0x440)) else cbuf V d i)"
      by auto
    have "cbuf V d1 i = (if column \<le> i \<and> i < column + length buf then buf ! (i - column) else cbuf V (spi_chip s) i)" if "i < 2112" for i
    proof (cases "column + 0x440 \<le> i \<and> i < column + length buf")
      case True
      then have "0x440 + (i - (column + 0x440)) = i - column" by simp
      then show ?thesis using True d1(5) that by (simp add: min_def)
    next
      case False
      then show ?thesis using d1(5) d(5) that by (auto simp: min_def)
    qed
    then show ?thesis using d d1 less.prems(2) by (intro exI [of _ d1]) (simp add: same_cells_def)
  qed
qed

lemma write_cache_ok:
  assumes "transfers_ok c V" and "busy V (spi_chip s) = 0" and "update_cache s = SPINAND_PROG_LOAD False 0 []"
    and "column + length buf \<le> 2112" and "buf \<noteq> []"
  shows "\<exists>d. write_cache_loop c (SPINAND_PROG_LOAD True 0 []) column buf s = (0, s\<lparr>spi_chip := d\<rparr>)
      \<and> same_cells V (spi_chip s) d \<and> busy V d = 0 \<and> wel V d = wel V (spi_chip s)
      \<and> (\<forall>i < 2112. cbuf V d i = (if column \<le> i \<and> i < column + length buf then buf ! (i - column) else 0xFF))"
proof -
  obtain d where d: "write_cache_loop c (SPINAND_PROG_LOAD True 0 []) column buf s
      = write_cache_loop c (update_cache s) (column + min (length buf) 0x440) (drop 0x440 buf) (s\<lparr>spi_chip := d\<rparr>)"
    "same_cells V (spi_chip s) d" "busy V d = 0" "wel V d = wel V (spi_chip s)"
    "\<forall>i < 2112. cbuf V d i = (if column \<le> i \<and> i < column + min (length buf) 0x440 then buf ! (i - column) else 0xFF)"
    using write_cache_step [OF assms(1,2,5,4), of True] by auto
  have "busy V (spi_chip (s\<lparr>spi_chip := d\<rparr>)) = 0" "update_cache (s\<lparr>spi_chip := d\<rparr>) = SPINAND_PROG_LOAD False 0 []"
    "column + min (length buf) 0x440 + length (drop 0x440 buf) \<le> 2112" using d(3) assms(3,4) by auto
  from write_cache_more [OF assms(1) this] obtain d1 where
    d1: "write_cache_loop c (SPINAND_PROG_LOAD False 0 []) (column + min (length buf) 0x440) (drop 0x440 buf) (s\<lparr>spi_chip := d\<rparr>)
        = (0, s\<lparr>spi_chip := d1\<rparr>)" "same_cells V d d1" "busy V d1 = 0" "wel V d1 = wel V d"
      "\<forall>i < 2112. cbuf V d1 i = (if column + min (length buf) 0x440 \<le> i \<and> i < column + min (length buf) 0x440 + length (drop 0x440 buf)
          then drop 0x440 buf ! (i - (column + min (length buf) 0x440)) else cbuf V d i)"
    by auto
  have "cbuf V d1 i = (if column \<le> i \<and> i < column + length buf then buf ! (i - column) else 0xFF)" if "i < 2112" for i
  proof (cases "column + 0x440 \<le> i \<and> i < column + length buf")
    case True
    then have "0x440 + (i - (column + 0x440)) = i - column" by simp
    then show ?thesis using True d1(5) that by (simp add: min_def)
  next
    case False
    then show ?thesis using d1(5) d(5) that by (auto simp: min_def)
  qed
  then show ?thesis using d d1 assms(3) by (intro exI [of _ d1]) (simp add: same_cells_def)
qed

text \<open>The bytes that a request writes over a page, \<^verbatim>\<open>0xFF\<close> where it writes nothing.\<close>

definition req_pattern :: "nand_page_io_req \<Rightarrow> nat \<Rightarrow> u8" where
  "req_pattern req i =
     (if dataoffs req \<le> i \<and> i < dataoffs req + datalen req then databuf_out req ! (i - dataoffs req)
      else if 2048 + ooboffs req \<le> i \<and> i < 2048 + ooboffs req + ooblen req then oobbuf_out req ! (i - (2048 + ooboffs req))
      else 0xFF)"

lemma length_overwrite: "a + length bs \<le> length xs \<Longrightarrow> length (overwrite xs a bs) = length xs"
  by (simp add: overwrite_def)

lemma overwrite_nth:
  "a + length bs \<le> length xs \<Longrightarrow> i < length xs
    \<Longrightarrow> overwrite xs a bs ! i = (if a \<le> i \<and> i < a + length bs then bs ! (i - a) else xs ! i)"
  by (auto simp: overwrite_def nth_append)

lemma write_to_cache_ok:
  assumes c: "transfers_ok c V" and s: "driver_ok V s"
    and req: "req_mode req = MTD_OPS_RAW" "dataoffs req + datalen req \<le> 2048" "ooboffs req + ooblen req \<le> 64"
      "datalen req \<le> length (databuf_out req)" "ooblen req \<le> length (oobbuf_out req)" "datalen req \<noteq> 0 \<or> ooblen req \<noteq> 0"
  shows "\<exists>d. spinand_write_to_cache_op c req s = (0, s\<lparr>spi_chip := d\<rparr>) \<and> same_cells V (spi_chip s) d \<and> busy V d = 0
    \<and> wel V d = wel V (spi_chip s) \<and> (\<forall>i < 2112. cbuf V d i = req_pattern req i)"
proof -
  define D where "D = overwrite (replicate 2048 (0xFF :: u8)) (dataoffs req) (take (datalen req) (databuf_out req))"
  define R where "R = overwrite (replicate 64 (0xFF :: u8)) (ooboffs req) (take (ooblen req) (oobbuf_out req))"
  define buf where "buf = (if datalen req \<noteq> 0 then D else []) @ (if ooblen req \<noteq> 0 then R else [])"
  define col where "col = (if datalen req = 0 \<and> ooblen req \<noteq> 0 then 2048 else 0 :: nat)"
  have lD: "length D = 2048" and lR: "length R = 64"
    using req(2-5) by (simp_all add: D_def R_def length_overwrite)
  have D: "D ! i = (if dataoffs req \<le> i \<and> i < dataoffs req + datalen req then databuf_out req ! (i - dataoffs req) else 0xFF)"
    if "i < 2048" for i using that req(2,4) by (auto simp: D_def overwrite_nth)
  have R: "R ! i = (if ooboffs req \<le> i \<and> i < ooboffs req + ooblen req then oobbuf_out req ! (i - ooboffs req) else 0xFF)"
    if "i < 64" for i using that req(3,5) by (auto simp: R_def overwrite_nth)
  have m: "memorg s = w25n01gv_memorg" and b: "busy V (spi_chip s) = 0"
    and wc: "write_cache s = SPINAND_PROG_LOAD True 0 []" and uc: "update_cache s = SPINAND_PROG_LOAD False 0 []"
    using s by (simp_all add: driver_ok_def)
  have "buf \<noteq> []" "col + length buf \<le> 2112" using lD lR req(6) by (auto simp: buf_def col_def)
  from write_cache_ok [OF c b uc this(2,1)] obtain d where
    d: "write_cache_loop c (SPINAND_PROG_LOAD True 0 []) col buf s = (0, s\<lparr>spi_chip := d\<rparr>)" "same_cells V (spi_chip s) d" "busy V d = 0"
      "wel V d = wel V (spi_chip s)"
      "\<forall>i < 2112. cbuf V d i = (if col \<le> i \<and> i < col + length buf then buf ! (i - col) else 0xFF)" by blast
  have "spinand_write_to_cache_op c req s = write_cache_loop c (SPINAND_PROG_LOAD True 0 []) col buf s"
    by (simp add: spinand_write_to_cache_op_def m wc req(1) Let_def spinand_cache_op_adjust_colum_def buf_def col_def D_def R_def)
  moreover have "cbuf V d i = req_pattern req i" if i: "i < 2112" for i
  proof (cases "i < 2048")
    case True
    then show ?thesis using d(5) i D [OF True] lD
      by (cases "datalen req = 0") (auto simp: req_pattern_def buf_def col_def nth_append)
  next
    case False
    then have "i - 2048 < 64" using i by simp
    then show ?thesis using d(5) i R [of "i - 2048"] lD lR False req(2)
      by (cases "datalen req = 0"; cases "ooblen req = 0") (auto simp: req_pattern_def buf_def col_def nth_append)
  qed
  ultimately show ?thesis using d by (intro exI [of _ d]) simp
qed

lemma spinand_write_page_ok:
  assumes c: "transfers_ok c V" "array_ok c V" and s: "driver_ok V s" and r: "r < 65536" "req_pos req = pos_of_row r"
    and req: "req_mode req = MTD_OPS_RAW" "dataoffs req + datalen req \<le> 2048" "ooboffs req + ooblen req \<le> 64"
      "datalen req \<le> length (databuf_out req)" "ooblen req \<le> length (oobbuf_out req)" "datalen req \<noteq> 0 \<or> ooblen req \<noteq> 0"
  shows "\<exists>d. spinand_write_page c req s = (0, s\<lparr>spi_chip := d\<rparr>) \<and> busy V d = 0 \<and> unlocked V d
    \<and> (\<forall>r'. \<forall>i < 2112. cell V d r' i = (if r' = r then cell V (spi_chip s) r' i AND req_pattern req i else cell V (spi_chip s) r' i))"
proof -
  let ?d0 = "spi_chip s"
  have b: "busy V ?d0 = 0" and u: "unlocked V ?d0" using s by (simp_all add: driver_ok_def)
  obtain f1 d1 where d1: "spi_exec c (SPINAND_WR_EN_DIS_OP True) ?d0 = (0, f1, d1)" "same_cells V ?d0 d1" "busy V d1 = 0" "wel V d1"
    using write_enable [OF c(1) b] by metis
  have s1: "driver_ok V (s\<lparr>spi_chip := d1\<rparr>)" using driver_ok_chip [OF s d1(3)] d1(2) u by (simp add: same_cells_def)
  from write_to_cache_ok [OF c(1) s1 req] obtain d2 where
    d2: "spinand_write_to_cache_op c req (s\<lparr>spi_chip := d1\<rparr>) = (0, s\<lparr>spi_chip := d2\<rparr>)" "same_cells V d1 d2" "busy V d2 = 0" "wel V d2"
      "\<forall>i < 2112. cbuf V d2 i = req_pattern req i" using d1(4) by auto
  have "unlocked V d2" using u d1(2) d2(2) by (simp add: same_cells_def)
  from array_program [OF c(2) d2(3) r(1) d2(4) this] obtain f3 d3 where
    d3: "spi_exec c (SPINAND_PROG_EXEC_OP r) d2 = (0, f3, d3)" "busy V d3 \<le> 40000" "unlocked V d3"
      "\<And>r' i. i < 2112 \<Longrightarrow> cell V d3 r' i = (if r' = r then cell V d2 r' i AND cbuf V d2 i else cell V d2 r' i)" by metis
  have "busy V (spi_chip (s\<lparr>spi_chip := d3\<rparr>)) \<le> 40000" using d3(2) by simp
  from spinand_wait_ok [OF c(1) this] obtain st d4 where
    d4: "spinand_wait c (s\<lparr>spi_chip := d3\<rparr>) = (0, st, s\<lparr>spi_chip := d4\<rparr>)" "same_cells V d3 d4" "busy V d4 = 0"
      "st AND STATUS_PROG_FAILED = 0" by auto
  have row: "nanddev_pos_to_row (s\<lparr>spi_chip := d2\<rparr>) (pos_of_row r) = r"
    using pos_to_row [OF s, of r] by (simp add: nanddev_pos_to_row_def)
  have "spinand_write_page c req s = (0, s\<lparr>spi_chip := d4\<rparr>)"
    using d1(1) d2(1) d3(1) d4(1,4)
    by (simp add: spinand_write_page_def spinand_write_enable_op_def spinand_program_op_def exec_op_def on_ok_def r(2) row)
  moreover have "cell V d4 r' i = (if r' = r then cell V ?d0 r' i AND req_pattern req i else cell V ?d0 r' i)" if "i < 2112" for r' i
    using that d3(4) [OF that] d4(2) d2(2,5) d1(2) by (simp add: same_cells_def)
  ultimately show ?thesis using d3(3) d4(2,3) by (intro exI [of _ d4]) (simp add: same_cells_def)
qed

lemma spinand_erase_ok:
  assumes c: "transfers_ok c V" "array_ok c V" and s: "driver_ok V s" and r: "r < 65536"
  shows "\<exists>d. spinand_erase c (pos_of_row r) s = (0, s\<lparr>spi_chip := d\<rparr>) \<and> busy V d = 0 \<and> unlocked V d
    \<and> (\<forall>r'. \<forall>i < 2112. cell V d r' i = (if r' div 64 = r div 64 then 0xFF else cell V (spi_chip s) r' i))"
proof -
  let ?d0 = "spi_chip s"
  have b: "busy V ?d0 = 0" and u: "unlocked V ?d0" and t: "cur_target s = 0" "memorg s = w25n01gv_memorg"
    using s by (simp_all add: driver_ok_def)
  obtain f1 d1 where d1: "spi_exec c (SPINAND_WR_EN_DIS_OP True) ?d0 = (0, f1, d1)" "same_cells V ?d0 d1" "busy V d1 = 0" "wel V d1"
    using write_enable [OF c(1) b] by metis
  have "unlocked V d1" using u d1(2) by (simp add: same_cells_def)
  from array_erase [OF c(2) d1(3) r d1(4) this] obtain f2 d2 where
    d2: "spi_exec c (SPINAND_BLK_ERASE_OP r) d1 = (0, f2, d2)" "busy V d2 \<le> 40000" "unlocked V d2"
      "\<And>r' i. i < 2112 \<Longrightarrow> cell V d2 r' i = (if r' div 64 = r div 64 then 0xFF else cell V d1 r' i)" by metis
  have "busy V (spi_chip (s\<lparr>spi_chip := d2\<rparr>)) \<le> 40000" using d2(2) by simp
  from spinand_wait_ok [OF c(1) this] obtain st d3 where
    d3: "spinand_wait c (s\<lparr>spi_chip := d2\<rparr>) = (0, st, s\<lparr>spi_chip := d3\<rparr>)" "same_cells V d2 d3" "busy V d3 = 0"
      "st AND STATUS_ERASE_FAILED = 0" by auto
  have row: "nanddev_pos_to_row (s\<lparr>spi_chip := d1\<rparr>) (pos_of_row r) = r"
    using pos_to_row [OF s, of r] by (simp add: nanddev_pos_to_row_def)
  have "spinand_erase c (pos_of_row r) s = (0, s\<lparr>spi_chip := d3\<rparr>)"
    using d1(1) d2(1) d3(1,4)
    by (simp add: spinand_erase_def spinand_select_target_def spinand_write_enable_op_def spinand_erase_op_def exec_op_def on_ok_def
        row t)
  moreover have "cell V d3 r' i = (if r' div 64 = r div 64 then 0xFF else cell V ?d0 r' i)" if "i < 2112" for r' i
    using that d2(4) [OF that] d3(2) d1(2) by (simp add: same_cells_def)
  ultimately show ?thesis using d2(3) d3(2,3) by (intro exI [of _ d3]) (simp add: same_cells_def)
qed

subsection \<open>Requests of one page\<close>

text \<open>The driver is in order, and neither the cells nor the table of bad blocks have changed.\<close>

definition quiet :: "'d chip_view \<Rightarrow> 'd fnand \<Rightarrow> 'd fnand \<Rightarrow> bool" where
  "quiet V s s' \<longleftrightarrow> driver_ok V s' \<and> g_cache s' = g_cache s \<and> cell V (spi_chip s') = cell V (spi_chip s)"

lemma quiet_refl: "driver_ok V s \<Longrightarrow> quiet V s s"
  by (simp add: quiet_def)

lemma quiet_trans: "quiet V s s1 \<Longrightarrow> quiet V s1 s2 \<Longrightarrow> quiet V s s2"
  by (simp add: quiet_def)

lemma ecc_off:
  assumes "transfers_ok c V" and s: "driver_ok V s"
  shows "\<exists>s'. spinand_ecc_enable c False s = (0, s') \<and> quiet V s s'"
proof -
  define cfg where "cfg = cfg_cache s ! 0 AND NOT CFG_ECC_ENABLE"
  have b: "busy V (spi_chip s) = 0" and t: "cur_target s = 0" and otp: "cfg_cache s ! 0 AND CFG_OTP_ENABLE = 0"
    and l: "length (cfg_cache s) = 2" and u: "unlocked V (spi_chip s)"
    using s by (simp_all add: driver_ok_def)
  have "cfg AND CFG_OTP_ENABLE = (cfg_cache s ! 0 AND CFG_OTP_ENABLE) AND NOT CFG_ECC_ENABLE"
    unfolding cfg_def by (simp only: and.assoc and.commute and.left_commute)
  then have c0: "cfg AND CFG_OTP_ENABLE = 0" by (simp add: otp)
  then have "REG_CFG = REG_CFG \<longrightarrow> cfg AND CFG_OTP_ENABLE = 0" by simp
  from set_feature [OF assms(1) b this] obtain f d where
    d: "spi_exec c (SPINAND_SET_FEATURE_OP REG_CFG cfg) (spi_chip s) = (0, f, d)" "cell V d = cell V (spi_chip s)" "busy V d = 0"
      "unlocked V d = unlocked V (spi_chip s)" by (auto simp: numeral_eq_iff)
  have e: "spinand_ecc_enable c False s = spinand_set_cfg c cfg s"
    by (simp add: spinand_ecc_enable_def spinand_upd_cfg_def spinand_get_cfg_def cfg_def t)
  show ?thesis
  proof (cases "cfg_cache s ! 0 = cfg")
    case True
    then show ?thesis using s by (intro exI [of _ s]) (simp add: e spinand_set_cfg_def t quiet_refl)
  next
    case False
    let ?s = "s\<lparr>spi_chip := d, cfg_cache := (cfg_cache s)[0 := cfg]\<rparr>"
    have "spinand_set_cfg c cfg s = (0, ?s)"
      using False d(1) by (simp add: spinand_set_cfg_def t spinand_write_reg_op_def exec_op_def on_ok_def)
    moreover have "quiet V s ?s" using s d(2-4) c0 l u by (simp add: quiet_def driver_ok_def)
    ultimately show ?thesis using e by metis
  qed
qed

lemma io_iter_page:
  assumes "driver_ok V s" and "off mod 2048 = 0" and "off < 0x8000000"
  shows "nanddev_io_iter_init s off \<lparr> ops_mode = MTD_OPS_RAW, ops_len = 2048, ops_ooblen = ob, ops_ooboffs = 0, ops_datbuf = Some db, ops_oobbuf = o1 \<rparr>
    = \<lparr> iter_req = \<lparr> req_pos = pos_of_row (off div 2048), dataoffs = 0, datalen = 2048, databuf_out = db, ooboffs = 0, ooblen = min 64 ob,
          oobbuf_out = (case o1 of Some bs \<Rightarrow> bs | None \<Rightarrow> []), req_mode = MTD_OPS_RAW \<rparr>,
        oobbytes_per_page = 64, dataleft = 2048, oobleft = ob \<rparr>"
  using assms(1,2) offs_to_pos [OF assms(3)] by (simp add: nanddev_io_iter_init_def driver_ok_def)

lemma check_ops_page:
  assumes "driver_ok V s" and "off mod 2048 = 0" and "off < 0x8000000" and "ob = 0 \<and> o1 = None \<or> ob = 64 \<and> o1 = Some []"
  shows "mtd_check_oob_ops off \<lparr> ops_mode = MTD_OPS_RAW, ops_len = 2048, ops_ooblen = ob, ops_ooboffs = 0, ops_datbuf = Some db, ops_oobbuf = o1 \<rparr> s
    = (0, \<lparr> ops_mode = MTD_OPS_RAW, ops_len = 2048, ops_ooblen = ob, ops_ooboffs = 0, ops_datbuf = Some db, ops_oobbuf = o1 \<rparr>)"
proof -
  have m: "mtd_size s = 0x8000000" "mtd_writesize s = 2048" "mtd_oobsize s = 64" using assms(1) by (simp_all add: driver_ok_def)
  have q: "off div 2048 < 65536" using assms(3) by (intro less_mult_imp_div_less) simp
  have "off = off div 2048 * 2048" using assms(2) div_mult_mod_eq [of off 2048] by linarith
  then have o: "off + 2048 \<le> 0x8000000" using q by linarith
  define k where "k = (65536 - off div 2048) * 64"
  have k: "64 \<le> k" "k \<le> 65536 * 64" using q by (simp_all add: k_def)
  have "int k mod 2 ^ 64 = int k" using k by (intro mod_pos_pos_trivial) simp_all
  then have "\<not> 64 > int k mod 2 ^ 64" using k by simp
  then show ?thesis using assms(4) o by (auto simp: mtd_check_oob_ops_def Let_def m k_def)
qed

lemma next_page_end:
  "nanddev_io_iter_end (nanddev_io_iter_next_page m \<lparr> iter_req = r, oobbytes_per_page = k, dataleft = datalen r, oobleft = ooblen r \<rparr>)"
  by (simp add: nanddev_io_iter_end_def nanddev_io_iter_next_page_def Let_def)

lemma mtd_read_oob_page:
  assumes c: "transfers_ok c V" "array_ok c V" and s: "driver_ok V s" and off: "off mod 2048 = 0" "off < 0x8000000"
  shows "\<exists>s'. mtd_read_oob c off \<lparr> ops_mode = MTD_OPS_RAW, ops_len = 2048, ops_ooblen = 64, ops_ooboffs = 0, ops_datbuf = Some [],
        ops_oobbuf = Some [] \<rparr> s
      = Some (0, map (cell V (spi_chip s) (off div 2048)) [0..<2048], map (cell V (spi_chip s) (off div 2048)) [2048..<2112], s')
    \<and> quiet V s s'"
proof -
  let ?r = "\<lparr> req_pos = pos_of_row (off div 2048), dataoffs = 0, datalen = 2048, databuf_out = [], ooboffs = 0, ooblen = 64,
      oobbuf_out = [], req_mode = MTD_OPS_RAW \<rparr>"
  let ?it = "\<lparr> iter_req = ?r, oobbytes_per_page = 64, dataleft = 2048, oobleft = 64 \<rparr>"
  have t: "cur_target s = 0" "memorg s = w25n01gv_memorg" using s by (simp_all add: driver_ok_def)
  have sel: "spinand_select_target (target (req_pos (iter_req ?it))) s = (0, s)" by (simp add: spinand_select_target_def t)
  obtain s1 where s1: "spinand_ecc_enable c False s = (0, s1)" "quiet V s s1" using ecc_off [OF c(1) s] by blast
  have ok1: "driver_ok V s1" "cell V (spi_chip s1) = cell V (spi_chip s)" using s1(2) by (simp_all add: quiet_def)
  have "off div 2048 < 65536" using off(2) by simp
  from spinand_read_page_ok [OF c ok1(1) this, of ?r] obtain d where
    d: "spinand_read_page c ?r False s1 = (0, map (cell V (spi_chip s) (off div 2048)) [0..<2048],
        map (cell V (spi_chip s) (off div 2048)) [2048..<2112], s1\<lparr>spi_chip := d\<rparr>)" "same_cells V (spi_chip s1) d" "busy V d = 0"
    by (auto simp: ok1(2))
  have e: "nanddev_io_iter_end (nanddev_io_iter_next_page m ?it)" for m using next_page_end [of m ?r 64] by simp
  have "read_io_loop c False ?it 0 False [] [] s = Some (0, 0, False, map (cell V (spi_chip s) (off div 2048)) [0..<2048],
      map (cell V (spi_chip s) (off div 2048)) [2048..<2112], s1\<lparr>spi_chip := d\<rparr>)"
    using sel s1(1) d(1) by (subst read_io_loop.simps) (simp add: nanddev_io_iter_end_def, subst read_io_loop.simps, simp add: e)
  then have "mtd_read_oob c off \<lparr> ops_mode = MTD_OPS_RAW, ops_len = 2048, ops_ooblen = 64, ops_ooboffs = 0, ops_datbuf = Some [],
        ops_oobbuf = Some [] \<rparr> s
      = Some (0, map (cell V (spi_chip s) (off div 2048)) [0..<2048], map (cell V (spi_chip s) (off div 2048)) [2048..<2112],
          s1\<lparr>spi_chip := d\<rparr>)"
    by (simp add: mtd_read_oob_def check_ops_page [OF s off] spinand_mtd_read_def io_iter_page [OF s off] Let_def)
  moreover have "quiet V s (s1\<lparr>spi_chip := d\<rparr>)"
    using s1(2) d(2,3) driver_ok_chip [OF ok1(1) d(3)] ok1(1) by (simp add: quiet_def same_cells_def driver_ok_def)
  ultimately show ?thesis by blast
qed

text \<open>A page beyond the end is refused, and nothing changes.\<close>

lemma mtd_read_oob_beyond:
  assumes "driver_ok V s" and "off \<ge> 0x8000000"
  shows "mtd_read_oob c off \<lparr> ops_mode = MTD_OPS_RAW, ops_len = 2048, ops_ooblen = 64, ops_ooboffs = 0, ops_datbuf = Some [],
      ops_oobbuf = Some [] \<rparr> s = Some (- EINVAL, [], [], s)"
  using assms by (simp add: mtd_read_oob_def mtd_check_oob_ops_def driver_ok_def)

lemma mtd_write_oob_page:
  assumes c: "transfers_ok c V" "array_ok c V" and s: "driver_ok V s" and off: "off mod 2048 = 0" "off < 0x8000000" and bs: "length bs = 2048"
  shows "\<exists>s'. mtd_write_oob c off \<lparr> ops_mode = MTD_OPS_RAW, ops_len = 2048, ops_ooblen = 0, ops_ooboffs = 0, ops_datbuf = Some bs,
        ops_oobbuf = None \<rparr> s = Some (0, 2048, s') \<and> driver_ok V s' \<and> g_cache s' = g_cache s
    \<and> (\<forall>r. \<forall>i < 2048. cell V (spi_chip s') r i = (if r = off div 2048 then cell V (spi_chip s) r i AND bs ! i else cell V (spi_chip s) r i))"
proof -
  let ?r = "\<lparr> req_pos = pos_of_row (off div 2048), dataoffs = 0, datalen = 2048, databuf_out = bs, ooboffs = 0, ooblen = 0,
      oobbuf_out = [], req_mode = MTD_OPS_RAW \<rparr>"
  let ?it = "\<lparr> iter_req = ?r, oobbytes_per_page = 64, dataleft = 2048, oobleft = 0 \<rparr>"
  have t: "cur_target s = 0" "memorg s = w25n01gv_memorg" "mtd_flags s = 0x400" using s by (simp_all add: driver_ok_def)
  have sel: "spinand_select_target (target (req_pos (iter_req ?it))) s = (0, s)" by (simp add: spinand_select_target_def t)
  obtain s1 where s1: "spinand_ecc_enable c False s = (0, s1)" "quiet V s s1" using ecc_off [OF c(1) s] by blast
  have ok1: "driver_ok V s1" "cell V (spi_chip s1) = cell V (spi_chip s)" using s1(2) by (simp_all add: quiet_def)
  have r: "off div 2048 < 65536" using off(2) by simp
  from spinand_write_page_ok [OF c ok1(1) r, of ?r] bs obtain d where
    d: "spinand_write_page c ?r s1 = (0, s1\<lparr>spi_chip := d\<rparr>)" "busy V d = 0" "unlocked V d"
      "\<forall>r'. \<forall>i < 2112. cell V d r' i = (if r' = off div 2048 then cell V (spi_chip s) r' i AND req_pattern ?r i else cell V (spi_chip s) r' i)"
    by (auto simp: ok1(2))
  have p: "req_pattern ?r i = bs ! i" if "i < 2048" for i using that by (simp add: req_pattern_def)
  have e: "nanddev_io_iter_end (nanddev_io_iter_next_page m ?it)" for m using next_page_end [of m ?r 64] by simp
  have "write_io_loop c False ?it 0 s = Some (0, 2048, s1\<lparr>spi_chip := d\<rparr>)"
    using sel s1(1) d(1) by (subst write_io_loop.simps) (simp add: nanddev_io_iter_end_def, subst write_io_loop.simps, simp add: e)
  then have "mtd_write_oob c off \<lparr> ops_mode = MTD_OPS_RAW, ops_len = 2048, ops_ooblen = 0, ops_ooboffs = 0, ops_datbuf = Some bs,
        ops_oobbuf = None \<rparr> s = Some (0, 2048, s1\<lparr>spi_chip := d\<rparr>)"
    by (simp add: mtd_write_oob_def check_ops_page [OF s off] spinand_mtd_write_def io_iter_page [OF s off] t(3))
  moreover have "driver_ok V (s1\<lparr>spi_chip := d\<rparr>)" using driver_ok_chip [OF ok1(1) d(2,3)] .
  ultimately show ?thesis using d(4) p s1(2) by (intro exI [of _ "s1\<lparr>spi_chip := d\<rparr>"]) (simp add: quiet_def)
qed

subsection \<open>Reading\<close>

text \<open>The byte at an address of the data areas.\<close>

definition flash_byte :: "'d chip_view \<Rightarrow> 'd \<Rightarrow> nat \<Rightarrow> u8" where
  "flash_byte V d x = cell V d (x div 2048) (x mod 2048)"

lemma flash_byte_page:
  "off mod 2048 = 0 \<Longrightarrow> n \<le> 2048 \<Longrightarrow> map (cell V d (off div 2048)) [0..<n] = map (flash_byte V d) [off..<off + n]"
proof (rule nth_equalityI)
  fix i assume a: "off mod 2048 = 0" "n \<le> 2048" and "i < length (map (cell V d (off div 2048)) [0..<n])"
  then have i: "i < n" by simp
  obtain k where k: "off = 2048 * k" using a(1) by (metis mod_0_imp_dvd dvdE)
  have "(off + i) div 2048 = off div 2048" "(off + i) mod 2048 = i" using i a(2) by (simp_all add: k)
  then show "map (cell V d (off div 2048)) [0..<n] ! i = map (flash_byte V d) [off..<off + n] ! i"
    using i by (simp add: flash_byte_def)
qed simp

lemma small_unat64: "k < 2 ^ 64 \<Longrightarrow> unat (of_nat k :: u64) = k"
  by (simp add: unat_of_nat take_bit_nat_eq_self)

lemma small_unat32: "k < 2 ^ 32 \<Longrightarrow> unat (of_nat k :: u32) = k"
  by (simp add: unat_of_nat take_bit_nat_eq_self)

lemma flash_read_step:
  assumes c: "transfers_ok c V" "array_ok c V" and s: "driver_ok V s" and off: "off mod 2048 = 0" "off < 0x8000000"
    and n: "2048 \<le> n" "n < 2 ^ 64" and cur: "0 < cur" "cur + rem < 2 ^ 64"
  shows "\<exists>s'. quiet V s s' \<and> flash_read_loop c (of_nat cur) (of_nat off) (of_nat n) (of_nat rem) acc s
    = flash_read_loop c (of_nat (cur + min rem 2048)) (of_nat (off + 2048)) (of_nat (n - 2048)) (of_nat (rem - min rem 2048))
        (acc @ map (flash_byte V (spi_chip s)) [off..<off + min rem 2048]) s'"
proof -
  have m: "mtd_writesize s = 2048" "mtd_oobsize s = 64" using s by (simp_all add: driver_ok_def)
  obtain oob s' where s': "mtd_read_oob c off \<lparr> ops_mode = MTD_OPS_RAW, ops_len = 2048, ops_ooblen = 64, ops_ooboffs = 0, ops_datbuf = Some [],
        ops_oobbuf = Some [] \<rparr> s = Some (0, map (cell V (spi_chip s) (off div 2048)) [0..<2048], oob, s')"
    "quiet V s s'" using mtd_read_oob_page [OF c s off] by blast
  have u: "unat (of_nat off :: u32) = off" "unat (of_nat rem :: u64) = rem" "unat (of_nat n :: u64) = n" "unat (of_nat cur :: u64) = cur"
    using off n cur by (simp_all add: small_unat64 small_unat32)
  have nz: "(of_nat n :: u64) \<noteq> 0" "(of_nat cur :: u64) \<noteq> 0" using u n(1) cur(1) by (metis not_numeral_le_zero unat_0, metis less_irrefl unat_0)
  have cp: "(if (of_nat rem :: u64) < 2048 then of_nat rem else 2048) = (of_nat (min rem 2048) :: u64)"
    using u(2) by (auto simp: word_less_nat_alt min_def)
  have um: "unat (of_nat (min rem 2048) :: u64) = min rem 2048" by (simp add: small_unat64)
  have sub: "(of_nat n - 2048 :: u64) = of_nat (n - 2048)" "(of_nat rem - of_nat (min rem 2048) :: u64) = of_nat (rem - min rem 2048)"
    using n(1) by (simp_all add: of_nat_diff)
  let ?next = "\<lambda>k :: u64. flash_read_loop c (of_nat cur + k) (of_nat off + 2048) (of_nat n - 2048) (of_nat rem - k)
      (acc @ take (unat k) (map (cell V (spi_chip s) (off div 2048)) [0..<2048])) s'"
  have "flash_read_loop c (of_nat cur) (of_nat off) (of_nat n) (of_nat rem) acc s
      = ?next (if (of_nat rem :: u64) < 2048 then of_nat rem else 2048)"
    using nz s'(1) by (subst flash_read_loop.simps) (simp add: u(1) m Let_def)
  also have "\<dots> = flash_read_loop c (of_nat (cur + min rem 2048)) (of_nat (off + 2048)) (of_nat (n - 2048)) (of_nat (rem - min rem 2048))
        (acc @ map (flash_byte V (spi_chip s)) [off..<off + min rem 2048]) s'"
  proof -
    have "take (min rem 2048) (map (cell V (spi_chip s) (off div 2048)) [0..<2048]) = map (flash_byte V (spi_chip s)) [off..<off + min rem 2048]"
      using flash_byte_page [OF off(1), of "min rem 2048" V "spi_chip s"] by (simp add: take_map)
    then show ?thesis unfolding cp um sub by simp
  qed
  finally show ?thesis using s'(2) by blast
qed

lemma flash_read_steps:
  assumes c: "transfers_ok c V" "array_ok c V"
  shows "driver_ok V s \<Longrightarrow> off mod 2048 = 0 \<Longrightarrow> off + 2048 * k \<le> 0x8000000 \<Longrightarrow> 2048 * k \<le> n \<Longrightarrow> n < 2 ^ 64
    \<Longrightarrow> 0 < cur \<Longrightarrow> cur + rem < 2 ^ 64 \<Longrightarrow>
    \<exists>s'. quiet V s s' \<and> flash_read_loop c (of_nat cur) (of_nat off) (of_nat n) (of_nat rem) acc s
      = flash_read_loop c (of_nat (cur + min rem (2048 * k))) (of_nat (off + 2048 * k)) (of_nat (n - 2048 * k))
          (of_nat (rem - min rem (2048 * k))) (acc @ map (flash_byte V (spi_chip s)) [off..<off + min rem (2048 * k)]) s'"
proof (induction k arbitrary: s off n cur rem acc)
  case 0
  then show ?case using quiet_refl by (intro exI [of _ s]) simp
next
  case (Suc k)
  have pre: "off < 0x8000000" "2048 \<le> n" using Suc.prems(3,4) by simp_all
  from flash_read_step [OF c Suc.prems(1,2) pre Suc.prems(5-7)] obtain s1 where
    s1: "quiet V s s1" "flash_read_loop c (of_nat cur) (of_nat off) (of_nat n) (of_nat rem) acc s
      = flash_read_loop c (of_nat (cur + min rem 2048)) (of_nat (off + 2048)) (of_nat (n - 2048)) (of_nat (rem - min rem 2048))
          (acc @ map (flash_byte V (spi_chip s)) [off..<off + min rem 2048]) s1" by blast
  have pre1: "driver_ok V s1" "(off + 2048) mod 2048 = 0" "off + 2048 + 2048 * k \<le> 0x8000000" "2048 * k \<le> n - 2048" "n - 2048 < 2 ^ 64"
    "0 < cur + min rem 2048" "cur + min rem 2048 + (rem - min rem 2048) < 2 ^ 64"
    using s1(1) Suc.prems by (simp_all add: quiet_def)
  from Suc.IH [OF pre1, of "acc @ map (flash_byte V (spi_chip s)) [off..<off + min rem 2048]"] obtain s2 where
    s2: "quiet V s1 s2" "flash_read_loop c (of_nat (cur + min rem 2048)) (of_nat (off + 2048)) (of_nat (n - 2048)) (of_nat (rem - min rem 2048))
          (acc @ map (flash_byte V (spi_chip s)) [off..<off + min rem 2048]) s1
      = flash_read_loop c (of_nat (cur + min rem 2048 + min (rem - min rem 2048) (2048 * k))) (of_nat (off + 2048 + 2048 * k))
          (of_nat (n - 2048 - 2048 * k)) (of_nat (rem - min rem 2048 - min (rem - min rem 2048) (2048 * k)))
          ((acc @ map (flash_byte V (spi_chip s)) [off..<off + min rem 2048])
             @ map (flash_byte V (spi_chip s1)) [off + 2048..<off + 2048 + min (rem - min rem 2048) (2048 * k)]) s2" by blast
  have fb: "flash_byte V (spi_chip s1) = flash_byte V (spi_chip s)" using s1(1) by (simp add: quiet_def flash_byte_def fun_eq_iff)
  have e: "cur + min rem 2048 + min (rem - min rem 2048) (2048 * k) = cur + min rem (2048 * Suc k)"
    "off + 2048 + 2048 * k = off + 2048 * Suc k" "n - 2048 - 2048 * k = n - 2048 * Suc k"
    "rem - min rem 2048 - min (rem - min rem 2048) (2048 * k) = rem - min rem (2048 * Suc k)"
    by (auto simp: min_def)
  have "[off..<off + min rem 2048] @ [off + 2048..<off + 2048 + min (rem - min rem 2048) (2048 * k)] = [off..<off + min rem (2048 * Suc k)]"
  proof (cases "rem \<le> 2048")
    case False
    have 1: "[off..<off + 2048] @ [off + 2048..<off + 2048 + min (rem - 2048) (2048 * k)] = [off..<off + 2048 + min (rem - 2048) (2048 * k)]"
      by (metis le_add1 upt_add_eq_append add.assoc)
    have 2: "off + 2048 + min (rem - 2048) (2048 * k) = off + min rem (2048 * Suc k)" using False by (auto simp: min_def)
    have 3: "min rem 2048 = 2048" using False by simp
    show ?thesis unfolding 3 using 1 unfolding 2 .
  qed (simp add: min_def)
  then have a: "(acc @ map (flash_byte V (spi_chip s)) [off..<off + min rem 2048])
       @ map (flash_byte V (spi_chip s1)) [off + 2048..<off + 2048 + min (rem - min rem 2048) (2048 * k)]
     = acc @ map (flash_byte V (spi_chip s)) [off..<off + min rem (2048 * Suc k)]"
    unfolding fb append_assoc map_append [symmetric] by simp
  show ?case
    by (intro exI conjI, rule quiet_trans [OF s1(1) s2(1)], rule trans [OF s1(2) s2(2) [unfolded e a]])
qed

lemma or_2047: "(a :: nat) OR 2047 = a div 2048 * 2048 + 2047"
proof -
  have m: "bit (2047 :: nat) i \<longleftrightarrow> i < 11" for i
    using bit_mask_iff [of "11" i, where 'a = nat] by (simp add: mask_eq_exp_minus_1)
  have "a OR 2047 = push_bit 11 (a div 2048) OR 2047"
  proof (rule bit_eqI)
    fix i
    have "bit (push_bit 11 (a div 2048)) i \<longleftrightarrow> 11 \<le> i \<and> bit a i"
      using bit_push_bit_iff [of 11 "a div 2048" i] bit_drop_bit_eq [of 11 a] by (auto simp: drop_bit_eq_div)
    then show "bit (a OR 2047) i \<longleftrightarrow> bit (push_bit 11 (a div 2048) OR 2047) i" by (auto simp: bit_or_iff m)
  qed
  then show ?thesis using push_or [of 2047 11 "a div 2048"] by simp
qed

lemma round_up_page:
  assumes "n mod 2048 \<noteq> 0" and "n < 2 ^ 63"
  shows "round_up (of_nat n) 2048 = of_nat (n div 2048 * 2048 + 2048)"
proof -
  have pos: "1 \<le> n" using assms(1) by (cases n) auto
  have "(of_nat n - 1 :: u64) = of_nat (n - 1)" using pos by (simp add: of_nat_diff)
  moreover have "(of_nat (n - 1) OR 2047 :: u64) = of_nat ((n - 1) OR 2047)" by (simp only: of_nat_or_eq of_nat_numeral)
  moreover have "(n - 1) div 2048 = n div 2048"
  proof -
    obtain m where m: "n = Suc m" using pos by (cases n) auto
    then show ?thesis using assms(1) by (simp add: div_Suc)
  qed
  ultimately show ?thesis by (simp add: round_up_def or_2047)
qed

subsection \<open>Whole reads\<close>

lemma aligned_up:
  assumes "off mod 2048 = 0" and "off + n \<le> (0x8000000 :: nat)" and "n mod 2048 \<noteq> 0"
  shows "off + 2048 * (n div 2048 + 1) \<le> 0x8000000"
proof -
  obtain k where k: "off = 2048 * k" using assms(1) by (metis mod_0_imp_dvd dvdE)
  have "2048 * (n div 2048) < n" using assms(3) mult_div_mod_eq [of 2048 n] by linarith
  moreover have "2048 * (k + n div 2048) = off + 2048 * (n div 2048)" by (simp add: k)
  ultimately have "2048 * (k + n div 2048) < 2048 * 65536" using assms(2) by linarith
  then have "k + n div 2048 < 65536" by simp
  then show ?thesis by (simp add: k)
qed

lemma read_pages_of:
  assumes "driver_ok V s" and "is_initialized s"
  shows "(if mtd_is_aligned_with_min_io_size s n then n else round_up n (of_nat (mtd_writesize s)))
    = (if unat n mod 2048 = 0 then n else round_up n 2048)"
  using assms by (simp add: mtd_is_aligned_with_min_io_size_def driver_ok_def)

text \<open>A read of the FPGA flash that stays within the chip returns: the destination receives exactly the bytes of the data areas that
  were asked for, and neither the chip's cells nor the table of bad blocks change.  (The read is raw: no error correction, and no block
  is skipped.)\<close>

lemma FPGA_Flash_read_ok:
  assumes c: "transfers_ok c V" "array_ok c V" and s: "driver_ok V s"
    and dest: "dest \<noteq> 0" "unat dest + unat n < 2 ^ 64" and off: "unat off mod 2048 = 0" "unat off + unat n \<le> 0x8000000"
  shows "\<exists>s'. FPGA_Flash_read c dest off n s
      = Some (True, map (flash_byte V (spi_chip s)) [unat off..<unat off + unat n], s') \<and> quiet V s s'"
proof -
  let ?o = "unat off" and ?n = "unat n" and ?c = "unat dest"
  have i: "is_initialized s" "mtd_writesize s = 2048" using s by (simp_all add: driver_ok_def)
  have al: "mtd_is_aligned_with_min_io_size s (ucast off)"
    using off(1) by (simp add: mtd_is_aligned_with_min_io_size_def i(2) unat_ucast_up)
  have cpos: "0 < ?c" using dest(1) by (simp add: unat_gt_0)
  define k where "k = (if ?n mod 2048 = 0 then ?n div 2048 else ?n div 2048 + 1)"
  have nk: "?n \<le> 2048 * k" and ok: "?o + 2048 * k \<le> 0x8000000"
    using aligned_up [OF off] off(2) mult_div_mod_eq [of 2048 ?n] mod_less_divisor [of 2048 ?n] by (auto simp: k_def)
  have n63: "?n < 2 ^ 63" using off(2) by simp
  have up: "(if ?n mod 2048 = 0 then n else round_up n 2048) = of_nat (2048 * k)"
  proof (cases "?n mod 2048 = 0")
    case True
    then have "2048 * k = ?n" using mult_div_mod_eq [of 2048 ?n] by (simp add: k_def)
    then show ?thesis using True by (simp del: of_nat_mult)
  next
    case False
    then show ?thesis using round_up_page [OF False n63] by (simp add: k_def algebra_simps)
  qed
  have k64: "2048 * k < 2 ^ 64" using ok by simp
  obtain s' where s': "quiet V s s'" "flash_read_loop c (of_nat ?c) (of_nat ?o) (of_nat (2048 * k)) (of_nat ?n) [] s
      = flash_read_loop c (of_nat (?c + min ?n (2048 * k))) (of_nat (?o + 2048 * k)) (of_nat (2048 * k - 2048 * k))
          (of_nat (?n - min ?n (2048 * k))) ([] @ map (flash_byte V (spi_chip s)) [?o..<?o + min ?n (2048 * k)]) s'"
    using flash_read_steps [OF c s off(1) ok order_refl k64 cpos dest(2)] by blast
  have "flash_read_loop c dest off (of_nat (2048 * k)) n [] s = Some (map (flash_byte V (spi_chip s)) [?o..<?o + ?n], s')"
    using s'(2) nk by (simp add: flash_read_loop.simps min_absorb1)
  then have "FPGA_Flash_read c dest off n s = Some (True, map (flash_byte V (spi_chip s)) [?o..<?o + ?n], s')"
    unfolding FPGA_Flash_read_def read_pages_of [OF s i(1)] up using i(1) al by simp
  then show ?thesis using s'(1) by blast
qed

lemma flash_read_stuck:
  assumes "driver_ok V s" and "n \<noteq> 0" and "unat off \<ge> 0x8000000"
  shows "flash_read_loop c cur off n rem acc s = None"
proof -
  have "\<not> (driver_ok V s \<and> n \<noteq> 0 \<and> unat off \<ge> 0x8000000)" if "flash_read_loop c cur off n rem acc s = Some y" for y
  proof (rule flash_read_loop.raw_induct [OF _ that, where P = "\<lambda>c cur off n rem acc s y. \<not> (driver_ok V s \<and> n \<noteq> 0 \<and> unat off \<ge> 0x8000000)"])
    fix f :: "'a spi_controller \<Rightarrow> u64 \<Rightarrow> u32 \<Rightarrow> u64 \<Rightarrow> u64 \<Rightarrow> u8 list \<Rightarrow> 'a fnand \<Rightarrow> (u8 list \<times> 'a fnand) option"
    fix c cur off n rem acc s y
    assume ih: "\<And>c cur off n rem acc s y. f c cur off n rem acc s = Some y \<Longrightarrow> \<not> (driver_ok V s \<and> n \<noteq> 0 \<and> unat off \<ge> 0x8000000)"
      and st: "(if n = 0 then Some (acc, s)
      else Option.bind (mtd_read_oob c (unat off) \<lparr> ops_mode = MTD_OPS_RAW, ops_len = mtd_writesize s, ops_ooblen = mtd_oobsize s,
               ops_ooboffs = 0, ops_datbuf = Some [], ops_oobbuf = Some [] \<rparr> s)
        (\<lambda>(ret, bs, oob, s1).
          let retlen = of_nat (length bs) :: u64;
              copy_len = (if rem < retlen then rem else retlen)
          in f c (if cur \<noteq> 0 then cur + copy_len else cur) (off + ucast retlen) (n - retlen)
               (if cur \<noteq> 0 then rem - copy_len else rem)
               (if cur \<noteq> 0 then acc @ take (unat copy_len) bs else acc) s1)) = Some y"
    show "\<not> (driver_ok V s \<and> n \<noteq> 0 \<and> unat off \<ge> 0x8000000)"
    proof
      assume a: "driver_ok V s \<and> n \<noteq> 0 \<and> 0x8000000 \<le> unat off"
      then have m: "mtd_writesize s = 2048" "mtd_oobsize s = 64" by (simp_all add: driver_ok_def)
      have "f c cur off n rem acc s = Some y"
        using st a mtd_read_oob_beyond [of V s "unat off" c] by (simp add: m Let_def split: if_splits)
      then show False using ih a by blast
    qed
  qed
  then show ?thesis using assms by (cases "flash_read_loop c cur off n rem acc s") auto
qed

text \<open>A read of the FPGA flash that goes past the end of the chip never returns: the page that is refused is asked for again
  without end.  A boot image header with a valid magic number and a length that is too large therefore stops the
  start for ever, where the next boot medium should be tried.\<close>

theorem FPGA_Flash_read_hangs:
  assumes c: "transfers_ok c V" "array_ok c V" and s: "driver_ok V s"
    and dest: "dest \<noteq> 0" "unat dest + unat n < 2 ^ 64" and off: "unat off mod 2048 = 0" "unat off \<le> 0x8000000"
    and beyond: "unat off + unat n > 0x8000000" "unat n < 2 ^ 63"
  shows "FPGA_Flash_read c dest off n s = None"
proof -
  let ?o = "unat off" and ?n = "unat n" and ?c = "unat dest"
  have i: "is_initialized s" "mtd_writesize s = 2048" using s by (simp_all add: driver_ok_def)
  have al: "mtd_is_aligned_with_min_io_size s (ucast off)"
    using off(1) by (simp add: mtd_is_aligned_with_min_io_size_def i(2) unat_ucast_up)
  have cpos: "0 < ?c" using dest(1) by (simp add: unat_gt_0)
  define N where "N = (if ?n mod 2048 = 0 then ?n else ?n div 2048 * 2048 + 2048)"
  have up: "(if ?n mod 2048 = 0 then n else round_up n 2048) = of_nat N"
    using round_up_page [of ?n] beyond(2) by (simp add: N_def)
  have N: "?n \<le> N" "N < 2 ^ 64"
  proof -
    obtain q where q: "q = ?n div 2048 * 2048" by blast
    have "?n = q + ?n mod 2048" "?n mod 2048 < 2048" by (simp_all add: q)
    then show "?n \<le> N" "N < 2 ^ 64" using beyond(2) unfolding N_def q [symmetric] by auto
  qed
  define k where "k = (0x8000000 - ?o) div 2048"
  obtain j where j: "?o = 2048 * j" using off(1) by (metis mod_0_imp_dvd dvdE)
  have k: "?o + 2048 * k = 0x8000000"
  proof -
    have "0x8000000 - ?o = 2048 * (65536 - j)" using j by (simp add: algebra_simps)
    then show ?thesis using off(2) by (simp add: k_def)
  qed
  have kN: "2048 * k \<le> N" "N - 2048 * k \<noteq> 0" using k beyond(1) N(1) by linarith+
  obtain s' where s': "quiet V s s'" "flash_read_loop c (of_nat ?c) (of_nat ?o) (of_nat N) (of_nat ?n) [] s
      = flash_read_loop c (of_nat (?c + min ?n (2048 * k))) (of_nat (?o + 2048 * k)) (of_nat (N - 2048 * k))
          (of_nat (?n - min ?n (2048 * k))) ([] @ map (flash_byte V (spi_chip s)) [?o..<?o + min ?n (2048 * k)]) s'"
    using flash_read_steps [OF c s off(1) eq_refl [OF k] kN(1) N(2) cpos dest(2)] by blast
  have "(of_nat (N - 2048 * k) :: u64) \<noteq> 0"
    using kN N(2) small_unat64 [of "N - 2048 * k"] by (metis diff_less_Suc less_imp_diff_less unat_0)
  moreover have "unat (of_nat (?o + 2048 * k) :: u32) \<ge> 0x8000000" unfolding k by simp
  moreover have "driver_ok V s'" using s'(1) by (simp add: quiet_def)
  ultimately have "flash_read_loop c dest off (of_nat N) n [] s = None"
    using s'(2) flash_read_stuck by simp
  then show ?thesis
    unfolding FPGA_Flash_read_def read_pages_of [OF s i(1)] up using i(1) al by simp
qed

subsection \<open>The table of bad blocks, bit by bit\<close>

text \<open>Bit \<open>k\<close> of the table; a block has three of them.\<close>

definition tbit :: "u64 list \<Rightarrow> nat \<Rightarrow> bool" where
  "tbit cache k = bit (cache ! (k div 64)) (k mod 64)"

lemma bit_GENMASK: "h < 64 \<Longrightarrow> l < 64 \<Longrightarrow> bit (GENMASK h l) i \<longleftrightarrow> l \<le> i \<and> i \<le> h"
proof -
  assume h: "h < 64" "l < 64"
  have "nat ((63 - int h) mod 64) = 63 - h" using h by (simp add: nat_mod_distrib nat_diff_distrib)
  then show ?thesis using h by (auto simp: GENMASK_def bit_simps)
qed

lemma GENMASK_crossing: "GENMASK 64 62 = 0" "GENMASK 65 63 = 0"
  by (simp_all add: GENMASK_def mask_eq_exp_minus_1)

lemma uint_low_mask: "uint ((w :: u64) AND GENMASK 2 0) = of_bool (bit w 0) + 2 * of_bool (bit w 1) + 4 * of_bool (bit w 2)"
proof -
  have "w AND GENMASK 2 0 = take_bit 3 w" by (rule bit_word_eqI) (auto simp: bit_GENMASK bit_simps)
  then have "uint (w AND GENMASK 2 0) = take_bit 3 (uint w)" by (simp add: unsigned_take_bit_eq)
  also have "\<dots> = horner_sum of_bool 2 (map (bit (uint w)) [0..<3])" by (simp add: horner_sum_bit_eq_take_bit)
  also have "\<dots> = of_bool (bit w 0) + 2 * of_bool (bit w 1) + 4 * of_bool (bit w 2)"
    by (simp add: upt_conv_Cons eval_nat_numeral bit_uint_iff)
  finally show ?thesis .
qed

lemma bit_status_word: "bit (word_of_int st AND GENMASK 2 0 :: u64) i \<longleftrightarrow> i \<le> 2 \<and> bit st i"
  by (auto simp: bit_and_iff bit_GENMASK bit_word_of_int_iff)

text \<open>Where the bits of an entry lie.\<close>

lemma entry_bits:
  fixes e :: nat
  defines "p \<equiv> e * 3 div 64" and "f \<equiv> e * 3 mod 64"
  shows "j < 3 \<Longrightarrow> f + j < 64 \<Longrightarrow> (e * 3 + j) div 64 = p \<and> (e * 3 + j) mod 64 = f + j"
    and "j < 3 \<Longrightarrow> 64 \<le> f + j \<Longrightarrow> (e * 3 + j) div 64 = p + 1 \<and> (e * 3 + j) mod 64 = f + j - 64"
proof -
  have e: "e * 3 = 64 * p + f" by (simp add: p_def f_def)
  show "j < 3 \<Longrightarrow> f + j < 64 \<Longrightarrow> (e * 3 + j) div 64 = p \<and> (e * 3 + j) mod 64 = f + j"
    unfolding e by (simp add: add.assoc)
  assume a: "j < 3" "64 \<le> f + j"
  moreover have "f < 64" by (simp add: f_def)
  ultimately have x: "f + j - 64 < 64" by simp
  obtain q where q: "q = p + 1" by blast
  have "e * 3 + j = 64 * q + (f + j - 64)" using a e by (simp add: q)
  then show "(e * 3 + j) div 64 = p + 1 \<and> (e * 3 + j) mod 64 = f + j - 64" using x unfolding q [symmetric] by (simp only:) simp
qed

lemma neraseblocks: "nanddev_neraseblocks w25n01gv_memorg = 65536"
  by (simp add: nanddev_neraseblocks_def)

definition table_status :: "u64 list \<Rightarrow> nat \<Rightarrow> int" where
  "table_status cache e = of_bool (tbit cache (e * 3)) + 2 * of_bool (tbit cache (e * 3 + 1)) + 4 * of_bool (tbit cache (e * 3 + 2))"

lemma get_block_status_eq:
  assumes "e < 65536"
  shows "nanddev_bbt_get_block_status w25n01gv_memorg cache e = table_status cache e"
proof -
  define p where "p = e * 3 div 64"
  define f where "f = e * 3 mod 64"
  have f: "f < 64" by (simp add: f_def)
  define w where "w = (if 3 + f > 64 then drop_bit f (cache ! p) OR push_bit (64 - f) (cache ! (p + 1)) else drop_bit f (cache ! p))"
  have "nanddev_bbt_get_block_status w25n01gv_memorg cache e = uint (w AND GENMASK 2 0)"
    using assms by (simp add: nanddev_bbt_get_block_status_def neraseblocks fls_values Let_def p_def f_def w_def numeral_2_eq_2)
  moreover have "bit w j = tbit cache (e * 3 + j)" if "j < 3" for j
  proof (cases "f + j < 64")
    case True
    then have "tbit cache (e * 3 + j) = bit (cache ! p) (f + j)" using entry_bits(1) [OF that] by (simp add: tbit_def p_def f_def)
    then show ?thesis using True that f by (auto simp: w_def bit_simps)
  next
    case False
    then have "tbit cache (e * 3 + j) = bit (cache ! (p + 1)) (f + j - 64)" using entry_bits(2) [OF that] by (simp add: tbit_def p_def f_def)
    then show ?thesis using False that f by (auto simp: w_def bit_simps add.commute dest: bit_imp_le_length)
  qed
  from this [of 0] this [of 1] this [of 2] have "bit w 0 = tbit cache (e * 3)" "bit w 1 = tbit cache (e * 3 + 1)" "bit w 2 = tbit cache (e * 3 + 2)"
    by simp_all
  ultimately show ?thesis by (simp add: table_status_def uint_low_mask)
qed

text \<open>
  Setting a status writes the bits of the entry, but an entry that begins in the last two bits of a
  word keeps what is set there: the mask for the first word comes out as 0.
\<close>

lemma set_block_status_bits:
  fixes e :: nat and st :: int
  defines "f \<equiv> e * 3 mod 64" and "val \<equiv> word_of_int st AND GENMASK 2 0 :: u64"
  assumes e: "e < 65536" and l: "length cache = 4096"
  shows "\<exists>cache'. nanddev_bbt_set_block_status w25n01gv_memorg cache e st = (0, cache') \<and> length cache' = 4096
    \<and> (\<forall>k < 64 * 4096. tbit cache' k = (if e * 3 \<le> k \<and> k < e * 3 + 3
          then bit val (k - e * 3) \<or> 62 \<le> f \<and> k div 64 = e * 3 div 64 \<and> tbit cache k else tbit cache k))"
proof -
  define p where "p = e * 3 div 64"
  have f: "f < 64" by (simp add: f_def)
  have pl: "p + 1 < 4096" using e by (simp add: p_def)
  have e3: "e * 3 = 64 * p + f" by (simp add: p_def f_def)
  have v: "\<not> bit val i" if "3 \<le> i" for i using that by (simp add: val_def bit_and_iff bit_GENMASK)
  define w0 where "w0 = cache ! p AND NOT (GENMASK (f + 2) f) OR push_bit f val"
  define w1 where "w1 = cache ! (p + 1) AND NOT (GENMASK (f - 62) 0) OR drop_bit (64 - f) val"
  define cache' where "cache' = (if 62 \<le> f then cache[p := w0, p + 1 := w1] else cache[p := w0])"
  have set: "nanddev_bbt_set_block_status w25n01gv_memorg cache e st = (0, cache')"
  proof (cases "62 \<le> f")
    case True
    then have "3 + f - 64 - 1 = f - 62" "3 - (3 + f - 64) = 64 - f" "3 + f > 64 \<or> f = 61" using f by simp_all
    then show ?thesis using True e pl l f
      by (simp add: nanddev_bbt_set_block_status_def neraseblocks fls_values Let_def cache'_def w0_def w1_def
          p_def [symmetric] f_def [symmetric] val_def numeral_2_eq_2)
  next
    case False
    then show ?thesis using e
      by (simp add: nanddev_bbt_set_block_status_def neraseblocks fls_values Let_def cache'_def w0_def
          p_def [symmetric] f_def [symmetric] val_def numeral_2_eq_2)
  qed
  have mask: "bit (GENMASK (f + 2) f) i \<longleftrightarrow> f < 62 \<and> f \<le> i \<and> i \<le> f + 2" for i
  proof (cases "f < 62")
    case True
    then show ?thesis by (simp add: bit_GENMASK)
  next
    case False
    then have "f = 62 \<or> f = 63" using f by auto
    then show ?thesis using GENMASK_crossing False by auto
  qed
  have "tbit cache' k = (if e * 3 \<le> k \<and> k < e * 3 + 3
      then bit val (k - e * 3) \<or> 62 \<le> f \<and> k div 64 = p \<and> tbit cache k else tbit cache k)" if k: "k < 64 * 4096" for k
  proof -
    define q where "q = k div 64"
    define i where "i = k mod 64"
    have ki: "k = 64 * q + i" "i < 64" by (simp_all add: q_def i_def)
    have q: "q < 4096" using k ki by simp
    consider "q = p" | "q = p + 1" "62 \<le> f" | "q \<noteq> p" "\<not> (q = p + 1 \<and> 62 \<le> f)" by blast
    then show ?thesis
    proof cases
      case 1
      have c: "tbit cache' k = bit w0 i" "tbit cache k = bit (cache ! p) i"
        using 1 pl l by (simp_all add: tbit_def cache'_def q_def [symmetric] i_def [symmetric])
      have rng: "e * 3 \<le> k \<and> k < e * 3 + 3 \<longleftrightarrow> f \<le> i \<and> i < f + 3" "f \<le> i \<Longrightarrow> k - e * 3 = i - f" using 1 ki e3 by auto
      have "k div 64 = p" using 1 by (simp add: q_def)
      then show ?thesis using ki(2) rng v unfolding c w0_def
        by (auto simp: bit_or_iff bit_and_iff bit_not_iff bit_push_bit_iff mask [simplified])
    next
      case 2
      have c: "tbit cache' k = bit w1 i" "tbit cache k = bit (cache ! (p + 1)) i"
        using 2 pl l by (simp_all add: tbit_def cache'_def q_def [symmetric] i_def [symmetric])
      have rng: "e * 3 \<le> k \<and> k < e * 3 + 3 \<longleftrightarrow> i \<le> f - 62" "k - e * 3 = 64 - f + i" using 2 ki e3 f by auto
      have "k div 64 \<noteq> p" using 2 by (simp add: q_def)
      then show ?thesis using ki(2) rng v [of "64 - f + i"] f unfolding c w1_def
        by (auto simp: bit_or_iff bit_and_iff bit_not_iff bit_drop_bit_eq bit_GENMASK)
    next
      case 3
      have c: "tbit cache' k = tbit cache k"
        using 3 by (auto simp: tbit_def cache'_def q_def [symmetric] i_def [symmetric] nth_list_update)
      have "\<not> (e * 3 \<le> k \<and> k < e * 3 + 3)" using 3 ki e3 f by auto
      then show ?thesis by (simp only: c if_False)
    qed
  qed
  then show ?thesis using set l by (intro exI [of _ cache']) (simp add: p_def cache'_def)
qed

lemma status_bits: "0 \<le> st \<Longrightarrow> st < 8 \<Longrightarrow> of_bool (bit st 0) + 2 * of_bool (bit st 1) + 4 * of_bool (bit st 2) = (st :: int)"
proof -
  assume "0 \<le> st" "st < 8"
  then have "st \<in> {0, 1, 2, 3, 4, 5, 6, 7}" by auto
  then show ?thesis by (auto simp: bit_iff_odd)
qed

lemma table_status_cases:
  "table_status cache e = 0 \<longleftrightarrow> \<not> tbit cache (e * 3) \<and> \<not> tbit cache (e * 3 + 1) \<and> \<not> tbit cache (e * 3 + 2)"
  "table_status cache e = 1 \<longleftrightarrow> tbit cache (e * 3) \<and> \<not> tbit cache (e * 3 + 1) \<and> \<not> tbit cache (e * 3 + 2)"
  "table_status cache e = 4 \<longleftrightarrow> \<not> tbit cache (e * 3) \<and> \<not> tbit cache (e * 3 + 1) \<and> tbit cache (e * 3 + 2)"
  unfolding table_status_def
  by (cases "tbit cache (e * 3)"; cases "tbit cache (e * 3 + 1)"; cases "tbit cache (e * 3 + 2)"; simp)+

lemma set_status:
  fixes e :: nat and st :: int
  assumes e: "e < 65536" and l: "length cache = 4096" and st: "0 \<le> st" "st < 8"
  obtains cache' where "nanddev_bbt_set_block_status w25n01gv_memorg cache e st = (0, cache')" "length cache' = 4096"
    "\<And>e'. e' < 65536 \<Longrightarrow> e' \<noteq> e \<Longrightarrow> table_status cache' e' = table_status cache e'"
    "e * 3 mod 64 < 62 \<or> table_status cache e = 0 \<Longrightarrow> table_status cache' e = st"
    "62 \<le> e * 3 mod 64 \<Longrightarrow> table_status cache e = 1 \<Longrightarrow> st = 2 \<Longrightarrow> table_status cache' e = 3"
    "62 \<le> e * 3 mod 64 \<Longrightarrow> table_status cache e = 4 \<Longrightarrow> st = 0 \<Longrightarrow> table_status cache' e = 0"
proof -
  let ?f = "e * 3 mod 64" and ?v = "word_of_int st AND GENMASK 2 0 :: u64"
  obtain cache' where set: "nanddev_bbt_set_block_status w25n01gv_memorg cache e st = (0, cache')" "length cache' = 4096"
    and t: "\<And>k. k < 64 * 4096 \<Longrightarrow> tbit cache' k = (if e * 3 \<le> k \<and> k < e * 3 + 3
          then bit ?v (k - e * 3) \<or> 62 \<le> ?f \<and> k div 64 = e * 3 div 64 \<and> tbit cache k else tbit cache k)"
    using set_block_status_bits [OF e l, of st] by blast
  have own: "tbit cache' (e * 3 + j) = (bit st j \<or> 62 \<le> ?f \<and> ?f + j < 64 \<and> tbit cache (e * 3 + j))" if "j < 3" for j
  proof -
    have "(e * 3 + j) div 64 = e * 3 div 64 \<longleftrightarrow> ?f + j < 64" using entry_bits [OF that, of e] by (cases "?f + j < 64") auto
    moreover have "e * 3 + j < 64 * 4096" using e that by simp
    ultimately show ?thesis using t [of "e * 3 + j"] that by (auto simp: bit_status_word)
  qed
  have b: "tbit cache' (e * 3) = (bit st 0 \<or> 62 \<le> ?f \<and> tbit cache (e * 3))"
    "tbit cache' (e * 3 + 1) = (bit st 1 \<or> ?f = 62 \<and> tbit cache (e * 3 + 1))"
    "tbit cache' (e * 3 + 2) = bit st 2"
    using own [of 0] own [of 1] own [of 2] by auto
  have other: "table_status cache' e' = table_status cache e'" if "e' < 65536" "e' \<noteq> e" for e'
  proof -
    have "tbit cache' (e' * 3 + j) = tbit cache (e' * 3 + j)" if "j < 3" for j
      using t [of "e' * 3 + j"] that \<open>e' < 65536\<close> \<open>e' \<noteq> e\<close> by auto
    from this [of 0] this [of 1] this [of 2] show ?thesis by (simp add: table_status_def)
  qed
  show thesis
  proof (rule that [OF set other])
    show "table_status cache' e = st" if "?f < 62 \<or> table_status cache e = 0"
    proof -
      have "62 \<le> ?f \<Longrightarrow> \<not> tbit cache (e * 3) \<and> \<not> tbit cache (e * 3 + 1)"
        using that unfolding table_status_cases by auto
      then show ?thesis using status_bits [OF st] b unfolding table_status_def by auto
    qed
    show "table_status cache' e = 3" if "62 \<le> ?f" "table_status cache e = 1" "st = 2"
    proof -
      have "tbit cache (e * 3)" "\<not> tbit cache (e * 3 + 1)"
        using that(2) unfolding table_status_cases by auto
      then show ?thesis using b that by (simp add: table_status_def bit_iff_odd)
    qed
    show "table_status cache' e = 0" if "62 \<le> ?f" "table_status cache e = 4" "st = 0"
    proof -
      have "\<not> tbit cache (e * 3)" "\<not> tbit cache (e * 3 + 1)"
        using that(2) unfolding table_status_cases by auto
      then show ?thesis using b that by (simp add: table_status_def)
    qed
  qed
qed

text \<open>The table of bad blocks is a table: for a block whose three bits do not begin in the last two bits of a word, the status that is
  set is the status that is read, and no other block's status changes.\<close>

lemma bbt_set_get:
  assumes "e < 65536" and "e' < 65536" and "length cache = 4096" and "0 \<le> st" "st < 8" and "e * 3 mod 64 < 62"
  shows "\<exists>cache'. nanddev_bbt_set_block_status w25n01gv_memorg cache e st = (0, cache')
    \<and> nanddev_bbt_get_block_status w25n01gv_memorg cache' e = st
    \<and> (e' \<noteq> e \<longrightarrow> nanddev_bbt_get_block_status w25n01gv_memorg cache' e' = nanddev_bbt_get_block_status w25n01gv_memorg cache e')"
proof -
  obtain cache' where "nanddev_bbt_set_block_status w25n01gv_memorg cache e st = (0, cache')"
    "table_status cache' e = st" "e' \<noteq> e \<Longrightarrow> table_status cache' e' = table_status cache e'"
    using set_status [OF assms(1,3-5)] assms(2,6) by metis
  then show ?thesis using assms(1,2) by (intro exI [of _ cache']) (simp add: get_block_status_eq)
qed

subsection \<open>Blocks\<close>

definition block_status :: "nat \<Rightarrow> 'd fnand \<Rightarrow> int" where
  "block_status b s = table_status (g_cache s) b"

definition has_marker :: "'d chip_view \<Rightarrow> nat \<Rightarrow> 'd \<Rightarrow> bool" where
  "has_marker V b d \<longleftrightarrow> cell V d (b * 64) 2048 \<noteq> 0xFF \<or> cell V d (b * 64) 2049 \<noteq> 0xFF"

lemma bbt_status_row: "driver_ok V s \<Longrightarrow> b < 1024 \<Longrightarrow> bbt_status (pos_of_row (b * 64)) s = block_status b s"
  by (simp add: bbt_status_def driver_ok_def nanddev_bbt_pos_to_entry_def block_status_def get_block_status_eq)

lemma set_bbt_status_row:
  assumes s: "driver_ok V s" and b: "b < 1024" and st: "0 \<le> st" "st < 8"
  obtains s' where "set_bbt_status (pos_of_row (b * 64)) st s = (0, s')" "driver_ok V s'" "spi_chip s' = spi_chip s"
    "\<And>b'. b' < 1024 \<Longrightarrow> b' \<noteq> b \<Longrightarrow> block_status b' s' = block_status b' s"
    "b * 3 mod 64 < 62 \<or> block_status b s = 0 \<Longrightarrow> block_status b s' = st"
    "62 \<le> b * 3 mod 64 \<Longrightarrow> block_status b s = 1 \<Longrightarrow> st = 2 \<Longrightarrow> block_status b s' = 3"
    "62 \<le> b * 3 mod 64 \<Longrightarrow> block_status b s = 4 \<Longrightarrow> st = 0 \<Longrightarrow> block_status b s' = 0"
proof -
  have e: "b < 65536" and l: "length (g_cache s) = 4096" and m: "memorg s = w25n01gv_memorg" using s b by (simp_all add: driver_ok_def)
  show thesis
  proof (rule set_status [OF e l st])
    fix cache'
    assume c: "nanddev_bbt_set_block_status w25n01gv_memorg (g_cache s) b st = (0, cache')" "length cache' = 4096"
      "\<And>e'. e' < 65536 \<Longrightarrow> e' \<noteq> b \<Longrightarrow> table_status cache' e' = table_status (g_cache s) e'"
      "b * 3 mod 64 < 62 \<or> table_status (g_cache s) b = 0 \<Longrightarrow> table_status cache' b = st"
      "62 \<le> b * 3 mod 64 \<Longrightarrow> table_status (g_cache s) b = 1 \<Longrightarrow> st = 2 \<Longrightarrow> table_status cache' b = 3"
      "62 \<le> b * 3 mod 64 \<Longrightarrow> table_status (g_cache s) b = 4 \<Longrightarrow> st = 0 \<Longrightarrow> table_status cache' b = 0"
    have "set_bbt_status (pos_of_row (b * 64)) st s = (0, s\<lparr>g_cache := cache'\<rparr>)"
      using c(1) by (simp add: set_bbt_status_def nanddev_bbt_pos_to_entry_def m)
    moreover have "driver_ok V (s\<lparr>g_cache := cache'\<rparr>)" using s c(2) by (simp add: driver_ok_def)
    ultimately show thesis by (rule that) (use c(3-6) in \<open>auto simp: block_status_def\<close>)
  qed
qed

lemma spinand_isbad_row:
  assumes c: "transfers_ok c V" "array_ok c V" and s: "driver_ok V s" and b: "b < 1024"
  shows "\<exists>s'. spinand_isbad c (pos_of_row (b * 64)) s = (has_marker V b (spi_chip s), s') \<and> quiet V s s'"
proof -
  have t: "cur_target s = 0" "memorg s = w25n01gv_memorg" using s by (simp_all add: driver_ok_def)
  have "b * 64 < 65536" using b by simp
  from spinand_read_page_ok [OF c s this, of "marker_req (pos_of_row (b * 64))"] obtain d where
    d: "spinand_read_page c (marker_req (pos_of_row (b * 64))) False s
        = (0, [], map (cell V (spi_chip s) (b * 64)) [2048..<2050], s\<lparr>spi_chip := d\<rparr>)" "same_cells V (spi_chip s) d" "busy V d = 0"
    by (auto simp: marker_req_def)
  have m: "map (cell V (spi_chip s) (b * 64)) [2048..<2050] = [cell V (spi_chip s) (b * 64) 2048, cell V (spi_chip s) (b * 64) 2049]"
    by (simp add: upt_conv_Cons)
  have "quiet V s (s\<lparr>spi_chip := d\<rparr>)" using s d(2,3) by (simp add: quiet_def driver_ok_def same_cells_def)
  then show ?thesis
    using d(1) unfolding m by (intro exI [of _ "s\<lparr>spi_chip := d\<rparr>"]) (simp add: spinand_isbad_def spinand_select_target_def t has_marker_def)
qed

lemma nanddev_isbad_row:
  assumes c: "transfers_ok c V" "array_ok c V" and s: "driver_ok V s" and b: "b < 1024"
  obtains bad s' where "nanddev_isbad c (pos_of_row (b * 64)) s = (bad, s')" "driver_ok V s'" "cell V (spi_chip s') = cell V (spi_chip s)"
    "\<And>b'. b' < 1024 \<Longrightarrow> b' \<noteq> b \<Longrightarrow> block_status b' s' = block_status b' s"
    "block_status b s' = (if block_status b s \<noteq> 0 then block_status b s else if has_marker V b (spi_chip s) then 4 else 1)"
    "bad \<longleftrightarrow> block_status b s' = 2 \<or> block_status b s' = 4"
proof (cases "block_status b s = 0")
  case False
  then show thesis using bbt_status_row [OF s b] s
    by (intro that [of "block_status b s = 2 \<or> block_status b s = 4" s]) (simp_all add: nanddev_isbad_def driver_ok_def)
next
  case True
  obtain s1 where s1: "spinand_isbad c (pos_of_row (b * 64)) s = (has_marker V b (spi_chip s), s1)" "quiet V s s1"
    using spinand_isbad_row [OF c s b] by blast
  have k1: "driver_ok V s1" "g_cache s1 = g_cache s" "cell V (spi_chip s1) = cell V (spi_chip s)" using s1(2) by (simp_all add: quiet_def)
  let ?st = "if has_marker V b (spi_chip s) then 4 else 1 :: int"
  have st: "0 \<le> ?st" "?st < 8" by simp_all
  obtain s2 where s2: "set_bbt_status (pos_of_row (b * 64)) ?st s1 = (0, s2)" "driver_ok V s2" "spi_chip s2 = spi_chip s1"
    "\<And>b'. b' < 1024 \<Longrightarrow> b' \<noteq> b \<Longrightarrow> block_status b' s2 = block_status b' s1"
    "b * 3 mod 64 < 62 \<or> block_status b s1 = 0 \<Longrightarrow> block_status b s2 = ?st"
    by (rule set_bbt_status_row [OF k1(1) b st]) (rule that)
  have b1: "block_status b' s1 = block_status b' s" for b' by (simp add: block_status_def k1(2))
  have "nanddev_isbad c (pos_of_row (b * 64)) s = (has_marker V b (spi_chip s), s2)"
    using True s1(1) s2(1) bbt_status_row [OF s b] s by (simp add: nanddev_isbad_def driver_ok_def Let_def)
  then show thesis using s2 k1(3) True b1 by (intro that) simp_all
qed

subsection \<open>Erasing\<close>

lemma nanddev_erase_row:
  assumes c: "transfers_ok c V" "array_ok c V" and s: "driver_ok V s" and b: "b < 1024" and nr: "block_status b s \<noteq> 3"
  obtains s' where "nanddev_erase c (pos_of_row (b * 64)) s = (0, s')" "driver_ok V s'"
    "\<And>b'. b' < 1024 \<Longrightarrow> b' \<noteq> b \<Longrightarrow> block_status b' s' = block_status b' s"
    "block_status b s = 4 \<or> block_status b s = 0 \<and> has_marker V b (spi_chip s) \<Longrightarrow> block_status b s' = 0"
    "\<And>r i. i < 2112 \<Longrightarrow> cell V (spi_chip s') r i = (if r div 64 = b then 0xFF else cell V (spi_chip s) r i)"
proof (rule nanddev_isbad_row [OF c s b])
  fix bad s1
  assume s1: "nanddev_isbad c (pos_of_row (b * 64)) s = (bad, s1)" "driver_ok V s1" "cell V (spi_chip s1) = cell V (spi_chip s)"
    "\<And>b'. b' < 1024 \<Longrightarrow> b' \<noteq> b \<Longrightarrow> block_status b' s1 = block_status b' s"
    and st: "block_status b s1 = (if block_status b s \<noteq> 0 then block_status b s else if has_marker V b (spi_chip s) then 4 else 1)"
    and bad: "bad \<longleftrightarrow> block_status b s1 = 2 \<or> block_status b s1 = 4"
  have res: "\<not> nanddev_isreserved (pos_of_row (b * 64)) s1"
    using bbt_status_row [OF s1(2) b] st nr by (simp add: nanddev_isreserved_def)
  have r: "b * 64 < 65536" using b by simp
  show thesis
  proof (cases bad)
    case True
    show thesis
    proof (rule set_bbt_status_row [OF s1(2) b, of 0])
      show "(0 :: int) \<le> 0" "(0 :: int) < 8" by simp_all
      fix s2
      assume s2: "set_bbt_status (pos_of_row (b * 64)) 0 s1 = (0, s2)" "driver_ok V s2" "spi_chip s2 = spi_chip s1"
        "\<And>b'. b' < 1024 \<Longrightarrow> b' \<noteq> b \<Longrightarrow> block_status b' s2 = block_status b' s1"
        "b * 3 mod 64 < 62 \<or> block_status b s1 = 0 \<Longrightarrow> block_status b s2 = 0"
        "62 \<le> b * 3 mod 64 \<Longrightarrow> block_status b s1 = 4 \<Longrightarrow> (0 :: int) = 0 \<Longrightarrow> block_status b s2 = 0"
      from spinand_erase_ok [OF c s2(2) r] obtain d where
        d: "spinand_erase c (pos_of_row (b * 64)) s2 = (0, s2\<lparr>spi_chip := d\<rparr>)" "busy V d = 0" "unlocked V d"
          "\<forall>r'. \<forall>i < 2112. cell V d r' i = (if r' div 64 = b then 0xFF else cell V (spi_chip s2) r' i)" by auto
      have e: "nanddev_erase c (pos_of_row (b * 64)) s = (0, s2\<lparr>spi_chip := d\<rparr>)"
        using s1(1) True res s2(1) d(1) by (simp add: nanddev_erase_def)
      have k: "block_status b' (s2\<lparr>spi_chip := d\<rparr>) = block_status b' s2" for b' by (simp add: block_status_def)
      have z: "block_status b s2 = 0" if "block_status b s = 4 \<or> block_status b s = 0 \<and> has_marker V b (spi_chip s)"
        using that st s2(5,6) by (cases "b * 3 mod 64 < 62") auto
      show thesis by (rule that [OF e driver_ok_chip [OF s2(2) d(2,3)]]) (use k z s1(3,4) s2(3,4) d(4) in auto)
    qed
  next
    case False
    from spinand_erase_ok [OF c s1(2) r] obtain d where
      d: "spinand_erase c (pos_of_row (b * 64)) s1 = (0, s1\<lparr>spi_chip := d\<rparr>)" "busy V d = 0" "unlocked V d"
        "\<forall>r'. \<forall>i < 2112. cell V d r' i = (if r' div 64 = b then 0xFF else cell V (spi_chip s1) r' i)" by auto
    have e: "nanddev_erase c (pos_of_row (b * 64)) s = (0, s1\<lparr>spi_chip := d\<rparr>)"
      using s1(1) False res d(1) by (simp add: nanddev_erase_def)
    have k: "block_status b' (s1\<lparr>spi_chip := d\<rparr>) = block_status b' s1" for b' by (simp add: block_status_def)
    have z: "\<not> (block_status b s = 4 \<or> block_status b s = 0 \<and> has_marker V b (spi_chip s))" using False bad st by auto
    show thesis by (rule that [OF e driver_ok_chip [OF s1(2) d(2,3)]]) (use k z s1(3,4) d(4) in auto)
  qed
qed

lemma mtd_erase_block:
  assumes s: "driver_ok V s" and b: "b < 1024" and e: "nanddev_erase c (pos_of_row (b * 64)) s = (0, s')" and s': "driver_ok V s'"
  shows "mtd_erase c (b * 0x20000) 0x20000 s = Some (0, s')"
proof -
  have m: "mtd_size s = 0x8000000" "mtd_flags s = 0x400" "memorg s = w25n01gv_memorg" "memorg s' = w25n01gv_memorg"
    using s s' by (simp_all add: driver_ok_def)
  have le: "b * 0x20000 + 0x20000 \<le> 0x8000000" using b by simp
  have p1: "snd (nanddev_offs_to_pos w25n01gv_memorg (b * 0x20000)) = pos_of_row (b * 64)"
    using offs_to_pos [of "b * 0x20000"] le by simp
  have "(b * 0x20000 + 0x1FFFF) div 2048 = b * 64 + 63"
  proof -
    have "b * 0x20000 + 0x1FFFF = 2048 * (b * 64 + 63) + 2047" by simp
    then show ?thesis by (simp only:)
  qed
  then have p2: "snd (nanddev_offs_to_pos w25n01gv_memorg (b * 0x20000 + 0x1FFFF)) = pos_of_row (b * 64 + 63)"
    using offs_to_pos [of "b * 0x20000 + 0x1FFFF"] le by simp
  have q: "(b * 64 + 63) div 64 = b" "(b * 64 + 63) mod 64 = 63" by simp_all
  have c1: "nanddev_pos_cmp (pos_of_row (b * 64)) (pos_of_row (b * 64 + 63)) \<le> 0" by (simp add: nanddev_pos_cmp_def q)
  have c2: "\<not> nanddev_pos_cmp (nanddev_pos_next_eraseblock w25n01gv_memorg (pos_of_row (b * 64))) (pos_of_row (b * 64 + 63)) \<le> 0"
  proof (cases "b + 1 < 1024")
    case True
    then show ?thesis by (simp add: next_eraseblock nanddev_pos_cmp_def q)
  next
    case False
    then show ?thesis using b
      by (simp add: nanddev_pos_next_eraseblock_def nanddev_pos_next_lun_def nanddev_pos_next_target_def nanddev_pos_cmp_def q)
  qed
  have "erase_blocks_to c (pos_of_row (b * 64)) (pos_of_row (b * 64 + 63)) s = Some (0, s')"
    by (subst erase_blocks_to.simps) (simp add: c1 e m, subst erase_blocks_to.simps, simp add: c2)
  moreover have "b * 0x20000 + 0x20000 - 1 = b * 0x20000 + 0x1FFFF" by simp
  ultimately have "nanddev_mtd_erase c (b * 0x20000) 0x20000 s = Some (0, s')" by (simp only: nanddev_mtd_erase_def m p1 p2)
  moreover have "\<not> b * 0x20000 > 0x8000000" "\<not> 0x20000 > 0x8000000 - b * 0x20000" using le by linarith+
  ultimately show ?thesis by (simp add: mtd_erase_def m)
qed

lemma flash_erase_blocks:
  assumes c: "transfers_ok c V" "array_ok c V"
  shows "driver_ok V s \<Longrightarrow> b + k \<le> 1024 \<Longrightarrow> (\<And>b'. b \<le> b' \<Longrightarrow> b' < b + k \<Longrightarrow> block_status b' s \<noteq> 3)
    \<Longrightarrow> \<exists>s'. flash_erase_loop c (b * 0x20000) k s = Some s' \<and> driver_ok V s'
      \<and> (\<forall>r. \<forall>i < 2112. cell V (spi_chip s') r i = (if b \<le> r div 64 \<and> r div 64 < b + k then 0xFF else cell V (spi_chip s) r i))"
proof (induction k arbitrary: b s)
  case 0
  then show ?case by auto
next
  case (Suc k)
  have b: "b < 1024" and nr: "block_status b s \<noteq> 3" using Suc.prems(2) Suc.prems(3) [of b] by auto
  show ?case
  proof (rule nanddev_erase_row [OF c Suc.prems(1) b nr])
    fix s1
    assume s1: "nanddev_erase c (pos_of_row (b * 64)) s = (0, s1)" "driver_ok V s1"
      "\<And>b'. b' < 1024 \<Longrightarrow> b' \<noteq> b \<Longrightarrow> block_status b' s1 = block_status b' s"
      "\<And>r i. i < 2112 \<Longrightarrow> cell V (spi_chip s1) r i = (if r div 64 = b then 0xFF else cell V (spi_chip s) r i)"
    have "b + 1 + k \<le> 1024" using Suc.prems(2) by simp
    moreover have "block_status b' s1 \<noteq> 3" if "b + 1 \<le> b'" "b' < b + 1 + k" for b'
      using Suc.prems(2) Suc.prems(3) [of b'] s1(3) [of b'] that by auto
    ultimately obtain s2 where s2: "flash_erase_loop c ((b + 1) * 0x20000) k s1 = Some s2" "driver_ok V s2"
      "\<forall>r. \<forall>i < 2112. cell V (spi_chip s2) r i = (if b + 1 \<le> r div 64 \<and> r div 64 < b + 1 + k then 0xFF else cell V (spi_chip s1) r i)"
      using Suc.IH [OF s1(2), of "b + 1"] by blast
    have "mtd_erasesize s = 0x20000" "mtd_erasesize s1 = 0x20000" using Suc.prems(1) s1(2) by (simp_all add: driver_ok_def)
    then have "flash_erase_loop c (b * 0x20000) (Suc k) s = Some s2"
      using mtd_erase_block [OF Suc.prems(1) b s1(1,2)] s2(1) by (simp add: algebra_simps)
    then show ?case using s2(2,3) s1(4) by (intro exI [of _ s2]) auto
  qed
qed

lemma erase_arguments:
  assumes s: "driver_ok V s" and "unat off = b * 0x20000" and "unat n = k * 0x20000"
  shows "FPGA_Flash_erase c off n s = map_option (\<lambda>s1. (True, s1)) (flash_erase_loop c (b * 0x20000) k s)"
  using assms by (simp add: FPGA_Flash_erase_def driver_ok_def mtd_is_aligned_with_block_size_def unat_ucast_up)

lemma block_pos: "b < 1024 \<Longrightarrow> snd (nanddev_offs_to_pos w25n01gv_memorg (b * 0x20000)) = pos_of_row (b * 64)"
  using offs_to_pos [of "b * 0x20000"] by simp

text \<open>A block that the factory has marked as bad is erased like any other, although the comment on \<^verbatim>\<open>nanddev_erase\<close> says it is not: the
  request is reported as done, the marker is gone, and the block, which was bad before, is not bad any more.\<close>

theorem FPGA_Flash_erase_forgets_bad:
  assumes c: "transfers_ok c V" "array_ok c V" and s: "driver_ok V s" and off: "unat off = b * 0x20000" "b < 1024"
    and bad: "has_marker V b (spi_chip s)" "block_status b s = 0"
  shows "\<exists>s' s2 s3. FPGA_Flash_erase c off 0x20000 s = Some (True, s') \<and> \<not> has_marker V b (spi_chip s')
    \<and> mtd_block_isbad c (unat off) s = (1, s2) \<and> mtd_block_isbad c (unat off) s' = (0, s3)"
proof -
  have m: "memorg s = w25n01gv_memorg" "mtd_size s = 0x8000000" using s by (simp_all add: driver_ok_def)
  have sz: "\<not> b * 0x20000 > 0x8000000" using off(2) by simp
  obtain s2 where s2: "nanddev_isbad c (pos_of_row (b * 64)) s = (True, s2)"
    by (rule nanddev_isbad_row [OF c s off(2)]) (use bad in auto)
  have nr: "block_status b s \<noteq> 3" using bad by simp
  show ?thesis
  proof (rule nanddev_erase_row [OF c s off(2) nr])
    fix s1
    assume s1: "nanddev_erase c (pos_of_row (b * 64)) s = (0, s1)" "driver_ok V s1"
      "block_status b s = 4 \<or> block_status b s = 0 \<and> has_marker V b (spi_chip s) \<Longrightarrow> block_status b s1 = 0"
      "\<And>r i. i < 2112 \<Longrightarrow> cell V (spi_chip s1) r i = (if r div 64 = b then 0xFF else cell V (spi_chip s) r i)"
    have nm: "\<not> has_marker V b (spi_chip s1)" using s1(4) by (simp add: has_marker_def)
    have z: "block_status b s1 = 0" using s1(3) bad by simp
    obtain s3 where s3: "nanddev_isbad c (pos_of_row (b * 64)) s1 = (False, s3)"
      by (rule nanddev_isbad_row [OF c s1(2) off(2)]) (use nm z in auto)
    have es: "mtd_erasesize s = 0x20000" using s by (simp add: driver_ok_def)
    have "unat (0x20000 :: u64) = Suc 0 * 0x20000" by simp
    then have "FPGA_Flash_erase c off 0x20000 s = Some (True, s1)"
      by (simp add: erase_arguments [OF s off(1)] es mtd_erase_block [OF s off(2) s1(1,2)])
    moreover have "mtd_block_isbad c (unat off) s = (1, s2)"
      using s2 sz by (simp add: mtd_block_isbad_def spinand_mtd_block_isbad_def m off(1) block_pos [OF off(2)])
    moreover have "mtd_block_isbad c (unat off) s1 = (0, s3)"
      using s3 sz s1(2) by (simp add: mtd_block_isbad_def spinand_mtd_block_isbad_def driver_ok_def off(1) block_pos [OF off(2)])
    ultimately show ?thesis using nm by blast
  qed
qed

text \<open>C40. Marking a block bad fails for the blocks whose three bits cross a word of the table (21 and 42 in every 64): a block known to be good
  that is marked is recorded as reserved, so that it does not count as bad, although its marker is on the chip.\<close>

theorem markbad_recorded_as_reserved:
  assumes c: "transfers_ok c V" "array_ok c V" and s: "driver_ok V s" and b: "b < 1024" "b mod 64 = 21 \<or> b mod 64 = 42"
    and good: "block_status b s = NAND_BBT_BLOCK_GOOD"
  shows "\<exists>s'. spinand_mtd_block_markbad c (b * 0x20000) s = (0, s') \<and> has_marker V b (spi_chip s')
    \<and> spinand_mtd_block_isreserved (b * 0x20000) s' \<and> mtd_block_isbad c (b * 0x20000) s' = (0, s')"
proof -
  have m: "memorg s = w25n01gv_memorg" "cur_target s = 0" "bbt_cache s" using s by (simp_all add: driver_ok_def)
  have sz: "\<not> b * 0x20000 > 0x8000000" using b(1) by simp
  have r: "b * 64 < 65536" using b(1) by simp
  have isb: "nanddev_isbad c (pos_of_row (b * 64)) s = (False, s)"
    using bbt_status_row [OF s b(1)] good m(3) by (simp add: nanddev_isbad_def)
  from spinand_write_page_ok [OF c s r, of "marker_req (pos_of_row (b * 64))"] obtain d where
    d: "spinand_write_page c (marker_req (pos_of_row (b * 64))) s = (0, s\<lparr>spi_chip := d\<rparr>)" "busy V d = 0" "unlocked V d"
      "\<forall>r'. \<forall>i < 2112. cell V d r' i = (if r' = b * 64 then cell V (spi_chip s) r' i AND req_pattern (marker_req (pos_of_row (b * 64))) i
          else cell V (spi_chip s) r' i)"
    by (auto simp: marker_req_def)
  have mk: "cell V d (b * 64) 2048 = 0" using d(4) by (simp add: req_pattern_def marker_req_def)
  have s1: "driver_ok V (s\<lparr>spi_chip := d\<rparr>)" using driver_ok_chip [OF s d(2,3)] .
  have g1: "block_status b (s\<lparr>spi_chip := d\<rparr>) = 1" using good by (simp add: block_status_def)
  have f: "62 \<le> b * 3 mod 64"
  proof -
    have "b * 3 mod 64 = (b mod 64) * 3 mod 64" by (simp add: mod_mult_left_eq)
    then show ?thesis using b(2) by auto
  qed
  show ?thesis
  proof (rule set_bbt_status_row [OF s1 b(1), of 2])
    show "(0 :: int) \<le> 2" "(2 :: int) < 8" by simp_all
    fix s2
    assume s2: "set_bbt_status (pos_of_row (b * 64)) 2 (s\<lparr>spi_chip := d\<rparr>) = (0, s2)" "driver_ok V s2" "spi_chip s2 = spi_chip (s\<lparr>spi_chip := d\<rparr>)"
      "62 \<le> b * 3 mod 64 \<Longrightarrow> block_status b (s\<lparr>spi_chip := d\<rparr>) = 1 \<Longrightarrow> (2 :: int) = 2 \<Longrightarrow> block_status b s2 = 3"
    let ?s = "s2\<lparr>badblocks := badblocks s2 + 1\<rparr>"
    have st: "block_status b s2 = 3" using s2(4) f g1 by simp
    have ok: "driver_ok V ?s" using s2(2) by (simp add: driver_ok_def)
    have st': "bbt_status (pos_of_row (b * 64)) ?s = 3" using bbt_status_row [OF ok b(1)] st by (simp add: block_status_def)
    have m2: "memorg ?s = w25n01gv_memorg" "mtd_size ?s = 0x8000000" "bbt_cache ?s" using ok by (simp_all add: driver_ok_def)
    have "spinand_mtd_block_markbad c (b * 0x20000) s = (0, ?s)"
      using isb d(1) s2(1) m
      by (simp add: spinand_mtd_block_markbad_def block_pos [OF b(1)] nanddev_markbad_def spinand_markbad_def on_ok_def
          spinand_select_target_def nanddev_bbt_update_def)
    moreover have "mtd_block_isbad c (b * 0x20000) ?s = (0, ?s)"
      using sz m2 st' by (simp add: mtd_block_isbad_def spinand_mtd_block_isbad_def block_pos [OF b(1)] nanddev_isbad_def)
    moreover have "spinand_mtd_block_isreserved (b * 0x20000) ?s"
      using m2 st' by (simp add: spinand_mtd_block_isreserved_def block_pos [OF b(1)] nanddev_isreserved_def)
    moreover have "has_marker V b (spi_chip ?s)" using s2(3) mk by (simp add: has_marker_def)
    ultimately show ?thesis by blast
  qed
qed

subsection \<open>Writing\<close>

lemma ff_and: "(0xFF :: u8) AND x = x"
proof -
  have "(0xFF :: u8) = - 1" by simp
  then show ?thesis by (simp only: and.left_neutral)
qed

lemma flash_writes:
  assumes c: "transfers_ok c V" "array_ok c V"
  shows "driver_ok V s \<Longrightarrow> off mod 2048 = 0 \<Longrightarrow> off + length bs \<le> 0x8000000
    \<Longrightarrow> (\<And>r i. off div 2048 \<le> r \<Longrightarrow> r * 2048 < off + length bs \<Longrightarrow> i < 2048 \<Longrightarrow> cell V (spi_chip s) r i = 0xFF)
    \<Longrightarrow> \<exists>s'. flash_write_loop c (of_nat off) bs s = Some s' \<and> driver_ok V s' \<and> g_cache s' = g_cache s
      \<and> (\<forall>r. \<forall>i < 2048. cell V (spi_chip s') r i = (if off \<le> r * 2048 + i \<and> r * 2048 + i < off + length bs
            then bs ! (r * 2048 + i - off) else cell V (spi_chip s) r i))"
proof (induction "length bs" arbitrary: bs off s rule: less_induct)
  case less
  show ?case
  proof (cases "bs = []")
    case True
    then show ?thesis using less.prems(1) by (intro exI [of _ s]) (auto simp: flash_write_loop.simps)
  next
    case False
    define q where "q = off div 2048"
    define p where "p = take 2048 bs @ replicate (2048 - length bs) (0xFF :: u8)"
    have oq: "off = q * 2048" using less.prems(2) div_mult_mod_eq [of off 2048] by (simp add: q_def)
    have lo: "off < 0x8000000" using less.prems(3) False by (cases bs) simp_all
    have lp: "length p = 2048" by (simp add: p_def)
    have ws: "mtd_writesize s = 2048" using less.prems(1) by (simp add: driver_ok_def)
    obtain s1 where s1: "mtd_write_oob c off \<lparr> ops_mode = MTD_OPS_RAW, ops_len = 2048, ops_ooblen = 0, ops_ooboffs = 0, ops_datbuf = Some p,
          ops_oobbuf = None \<rparr> s = Some (0, 2048, s1)" "driver_ok V s1" "g_cache s1 = g_cache s"
      "\<And>r i. i < 2048 \<Longrightarrow> cell V (spi_chip s1) r i = (if r = q then cell V (spi_chip s) r i AND p ! i else cell V (spi_chip s) r i)"
      using mtd_write_oob_page [OF c less.prems(1,2) lo lp] by (auto simp: q_def)
    have q1: "off div 2048 \<le> q" "q * 2048 < off + length bs" using False by (simp_all add: q_def) (simp add: oq [symmetric, unfolded q_def])
    have er: "cell V (spi_chip s) q i = 0xFF" if "i < 2048" for i using less.prems(4) [OF q1 that] .
    have c1: "cell V (spi_chip s1) r i = (if r = q then p ! i else cell V (spi_chip s) r i)" if "i < 2048" for r i
      using s1(4) [OF that] er [OF that] by (simp add: ff_and)
    have pre: "length (drop 2048 bs) < length bs" "(off + 2048) mod 2048 = 0" using False less.prems(2) by simp_all
    show ?thesis
    proof (cases "length bs \<le> 2048")
      case True
      have "flash_write_loop c (of_nat off) bs s = Some s1"
        using False True s1(1) [unfolded p_def] lo
        by (subst flash_write_loop.simps) (simp add: ws small_unat32 flash_write_loop.simps)
      moreover have "cell V (spi_chip s1) r i = (if off \<le> r * 2048 + i \<and> r * 2048 + i < off + length bs
            then bs ! (r * 2048 + i - off) else cell V (spi_chip s) r i)" if i: "i < 2048" for r i
      proof -
        have "off \<le> r * 2048 + i \<and> r * 2048 + i < off + length bs \<longleftrightarrow> r = q \<and> i < length bs"
        proof
          assume a: "off \<le> r * 2048 + i \<and> r * 2048 + i < off + length bs"
          then have "q * 2048 < (r + 1) * 2048" "r * 2048 < (q + 1) * 2048" using True i by (auto simp: oq)
          then have "r = q" by simp
          then show "r = q \<and> i < length bs" using a by (simp add: oq)
        qed (simp add: oq)
        then show ?thesis using c1 [OF i] er [OF i] True i by (auto simp: oq p_def nth_append)
      qed
      ultimately show ?thesis using s1(2,3) by blast
    next
      case False2: False
      have "(off + 2048) + length (drop 2048 bs) \<le> 0x8000000" using less.prems(3) False2 by simp
      moreover have "cell V (spi_chip s1) r i = 0xFF"
        if "(off + 2048) div 2048 \<le> r" "r * 2048 < off + 2048 + length (drop 2048 bs)" "i < 2048" for r i
      proof -
        have "q < r" using that(1) by (simp add: oq)
        moreover have "off div 2048 \<le> r" using \<open>q < r\<close> by (simp add: q_def [symmetric])
        moreover have "r * 2048 < off + length bs" using that(2) False2 by simp
        ultimately show ?thesis using c1 [OF that(3)] less.prems(4) [OF _ _ that(3)] by simp
      qed
      ultimately obtain s2 where s2: "flash_write_loop c (of_nat (off + 2048)) (drop 2048 bs) s1 = Some s2" "driver_ok V s2" "g_cache s2 = g_cache s1"
        "\<forall>r. \<forall>i < 2048. cell V (spi_chip s2) r i = (if off + 2048 \<le> r * 2048 + i \<and> r * 2048 + i < off + 2048 + length (drop 2048 bs)
            then drop 2048 bs ! (r * 2048 + i - (off + 2048)) else cell V (spi_chip s1) r i)"
        using less.hyps [OF pre(1) s1(2) pre(2)] by blast
      have "flash_write_loop c (of_nat off) bs s = Some s2"
        using False False2 s1(1) [unfolded p_def] lo s2(1)
        by (subst flash_write_loop.simps) (simp add: ws small_unat32)
      moreover have "cell V (spi_chip s2) r i = (if off \<le> r * 2048 + i \<and> r * 2048 + i < off + length bs
            then bs ! (r * 2048 + i - off) else cell V (spi_chip s) r i)" if i: "i < 2048" for r i
      proof (cases "r = q")
        case True
        then show ?thesis using s2(4) i c1 [OF i] False2 by (simp add: oq p_def nth_append)
      next
        case rq: False
        have "off + 2048 \<le> r * 2048 + i \<longleftrightarrow> off \<le> r * 2048 + i"
        proof
          assume "off \<le> r * 2048 + i"
          then have "q * 2048 < (r + 1) * 2048" using i by (simp add: oq)
          then have "q + 1 \<le> r" using rq by simp
          then have "(q + 1) * 2048 \<le> r * 2048" by (rule mult_le_mono1)
          then show "off + 2048 \<le> r * 2048 + i" by (simp add: oq)
        qed simp
        moreover have "off + 2048 + length (drop 2048 bs) = off + length bs" using False2 by simp
        moreover have "drop 2048 bs ! (r * 2048 + i - (off + 2048)) = bs ! (r * 2048 + i - off)" if "off + 2048 \<le> r * 2048 + i"
          using that False2 by (simp add: add.commute)
        ultimately show ?thesis using s2(4) i c1 [OF i] rq by auto
      qed
      ultimately show ?thesis using s2(2,3) s1(3) by auto
    qed
  qed
qed

text \<open>C10. What is written to the FPGA flash is what is read: after an erase of whole blocks, a write into them and a read of the same length
  return the bytes written, for any length and any blocks of the chip that are not marked as reserved, blocks with a bad marker included.\<close>

theorem FPGA_Flash_roundtrip:
  assumes c: "transfers_ok c V" "array_ok c V" and s: "driver_ok V s"
    and off: "unat off = b * 0x20000" "unat n = k * 0x20000" "b + k \<le> 1024"
    and usable: "\<And>b'. b \<le> b' \<Longrightarrow> b' < b + k \<Longrightarrow> block_status b' s \<noteq> NAND_BBT_BLOCK_RESERVED"
    and bs: "length bs \<le> k * 0x20000" and dest: "dest \<noteq> 0" "unat dest + length bs < 2 ^ 64"
  shows "\<exists>s1 s2 s3. FPGA_Flash_erase c off n s = Some (True, s1) \<and> FPGA_Flash_write c off bs s1 = Some (True, s2)
    \<and> FPGA_Flash_read c dest off (of_nat (length bs)) s2 = Some (True, bs, s3)"
proof -
  obtain s1 where s1: "flash_erase_loop c (b * 0x20000) k s = Some s1" "driver_ok V s1"
    "\<And>r i. i < 2112 \<Longrightarrow> cell V (spi_chip s1) r i = (if b \<le> r div 64 \<and> r div 64 < b + k then 0xFF else cell V (spi_chip s) r i)"
    using flash_erase_blocks [OF c s off(3) usable] by blast
  have er: "FPGA_Flash_erase c off n s = Some (True, s1)" using erase_arguments [OF s off(1,2), of c] s1(1) by simp
  have lim: "b * 0x20000 + length bs \<le> 0x8000000"
  proof -
    have "b * 0x20000 + length bs \<le> (b + k) * 0x20000" using bs by (simp add: algebra_simps)
    also have "\<dots> \<le> 1024 * 0x20000" using off(3) by (intro mult_le_mono1)
    finally show ?thesis by simp
  qed
  have al: "b * 0x20000 mod 2048 = 0" by simp
  have ff: "cell V (spi_chip s1) r i = 0xFF" if "b * 0x20000 div 2048 \<le> r" "r * 2048 < b * 0x20000 + length bs" "i < 2048" for r i
  proof -
    have "b * 64 \<le> r" using that(1) by simp
    then have 1: "b \<le> r div 64" by (simp add: less_eq_div_iff_mult_less_eq)
    have "r * 2048 < (b + k) * 64 * 2048" using that(2) bs by (simp add: algebra_simps)
    then have "r < (b + k) * 64" by simp
    then have "r div 64 < b + k" by (rule less_mult_imp_div_less)
    then show ?thesis using s1(3) [of i r] 1 that(3) by simp
  qed
  obtain s2 where s2: "flash_write_loop c (of_nat (b * 0x20000)) bs s1 = Some s2" "driver_ok V s2"
    "\<forall>r. \<forall>i < 2048. cell V (spi_chip s2) r i = (if b * 0x20000 \<le> r * 2048 + i \<and> r * 2048 + i < b * 0x20000 + length bs
            then bs ! (r * 2048 + i - b * 0x20000) else cell V (spi_chip s1) r i)"
    using flash_writes [OF c s1(2) al lim ff] by blast
  have ow: "off = of_nat (b * 0x20000)" unfolding off(1) [symmetric] by simp
  have wr: "FPGA_Flash_write c off bs s1 = Some (True, s2)"
    using s2(1) s1(2) unfolding ow by (simp add: FPGA_Flash_write_def driver_ok_def)
  have ln: "unat (of_nat (length bs) :: u64) = length bs" using dest(2) by (intro small_unat64) simp
  have d2: "unat dest + unat (of_nat (length bs) :: u64) < 2 ^ 64" and al2: "unat off mod 2048 = 0"
    and lim2: "unat off + unat (of_nat (length bs) :: u64) \<le> 0x8000000"
    using dest(2) lim unfolding ln off(1) by simp_all
  obtain s3 where "FPGA_Flash_read c dest off (of_nat (length bs)) s2
      = Some (True, map (flash_byte V (spi_chip s2)) [unat off..<unat off + length bs], s3)"
    using FPGA_Flash_read_ok [OF c s2(2) dest(1) d2 al2 lim2] unfolding ln by blast
  moreover have "map (flash_byte V (spi_chip s2)) [unat off..<unat off + length bs] = bs"
  proof (rule nth_equalityI)
    fix i assume "i < length (map (flash_byte V (spi_chip s2)) [unat off..<unat off + length bs])"
    then have i: "i < length bs" by simp
    let ?x = "b * 0x20000 + i"
    have "?x div 2048 * 2048 + ?x mod 2048 = ?x" "?x mod 2048 < 2048" by simp_all
    then have "flash_byte V (spi_chip s2) ?x = bs ! i" using s2(3) i unfolding flash_byte_def by simp
    then show "map (flash_byte V (spi_chip s2)) [unat off..<unat off + length bs] ! i = bs ! i" using i by (simp add: off(1))
  qed simp
  ultimately show ?thesis using er wr by auto
qed

subsection \<open>From the reset state to a driver in order\<close>

text \<open>Reset, identification and the configuration register: the chip is a W25N01GV.\<close>

definition ident_ok :: "'d spi_controller \<Rightarrow> 'd chip_view \<Rightarrow> bool" where
  "ident_ok c V \<longleftrightarrow>
     (\<forall>d. cell V (spi_probe c d) = cell V d)
   \<and> (\<forall>d. case spi_exec c SPINAND_RESET_OP d of (ret, f, d') \<Rightarrow> ret = 0 \<and> cell V d' = cell V d \<and> busy V d' \<le> 40000)
   \<and> (\<forall>d. busy V d = 0 \<longrightarrow> (case spi_exec c (SPINAND_READID_OP 0 4) d of (ret, f, d') \<Rightarrow>
        ret = 0 \<and> cell V d' = cell V d \<and> busy V d' = 0 \<and> f 1 = 0xEF \<and> f 2 = 0xAA))
   \<and> (\<forall>d. busy V d = 0 \<longrightarrow> (case spi_exec c (SPINAND_GET_FEATURE_OP REG_CFG) d of (ret, f, d') \<Rightarrow>
        ret = 0 \<and> cell V d' = cell V d \<and> busy V d' = 0))"

definition fnand_reset :: "'d \<Rightarrow> 'd fnand" where
  "fnand_reset d = \<lparr> memorg = \<lparr> bits_per_cell = 0, pagesize = 0, memorg_oobsize = 0, pages_per_eraseblock = 0, eraseblocks_per_lun = 0,
       planes_per_lun = 0, luns_per_target = 0, ntargets = 0 \<rparr>, eccreq_strength = 0, has_ooblayout = False,
     read_cache = SPI_CMD 0, write_cache = SPI_CMD 0, update_cache = SPI_CMD 0, cur_target = 0, cfg_cache = [0, 0],
     lun_addr_shift = 0, eraseblock_addr_shift = 0, g_cache = replicate 4096 0, bbt_cache = False, mtd_type = 0, mtd_flags = 0,
     mtd_size = 0, mtd_erasesize = 0, mtd_writesize = 0, mtd_oobsize = 0, mtd_oobavail_field = 0, ecc_failed = 0, ecc_corrected = 0,
     badblocks = 0, is_initialized = False, spi_chip = d \<rparr>"

lemma variants:
  "spinand_select_op_variant w25n01gv_memorg read_cache_variants = Some (SPINAND_PAGE_READ_FROM_CACHE_X4_OP 0 1 0)"
  "spinand_select_op_variant w25n01gv_memorg write_cache_variants = Some (SPINAND_PROG_LOAD True 0 [])"
  "spinand_select_op_variant w25n01gv_memorg update_cache_variants = Some (SPINAND_PROG_LOAD False 0 [])"
proof -
  note d = scai_fpgaqspi_adjust_op_size_def scai_fpgaqspi_supports_op_def SPINAND_PAGE_READ_FROM_CACHE_X4_OP_def SPINAND_PROG_LOAD_def
    SPINAND_PROG_LOAD_X4_def SPI_DATA_IN_def SPI_DATA_OUT_def SPI_ADDR_def SPI_CMD_def Let_def
  have r: "variant_fits (SPINAND_PAGE_READ_FROM_CACHE_X4_OP 0 1 0) 2112"
    by (subst variant_fits.simps) (simp add: d variant_fits.simps)
  have w: "\<not> variant_fits (SPINAND_PROG_LOAD_X4 b 0 []) 2112" "variant_fits (SPINAND_PROG_LOAD b 0 []) 2112" for b
    by (subst variant_fits.simps, simp add: d) (subst variant_fits.simps, simp add: d, subst variant_fits.simps, simp add: d variant_fits.simps)
  show "spinand_select_op_variant w25n01gv_memorg read_cache_variants = Some (SPINAND_PAGE_READ_FROM_CACHE_X4_OP 0 1 0)"
    "spinand_select_op_variant w25n01gv_memorg write_cache_variants = Some (SPINAND_PROG_LOAD True 0 [])"
    "spinand_select_op_variant w25n01gv_memorg update_cache_variants = Some (SPINAND_PROG_LOAD False 0 [])"
    using r w by (simp_all add: spinand_select_op_variant_def read_cache_variants_def write_cache_variants_def update_cache_variants_def)
qed

lemma detect_w25n01gv:
  assumes "ident ! 1 = 0xEF" and "ident ! 2 = 0xAA"
  shows "spinand_manufacturer_detect ident s = (0, s\<lparr>memorg := w25n01gv_memorg, eccreq_strength := 1, has_ooblayout := True,
      read_cache := SPINAND_PAGE_READ_FROM_CACHE_X4_OP 0 1 0, write_cache := SPINAND_PROG_LOAD True 0 [],
      update_cache := SPINAND_PROG_LOAD False 0 []\<rparr>)"
  using assms variants by (simp add: spinand_manufacturer_detect_def winbond_spinand_detect_def spinand_match_and_init_def
      winbond_spinand_table_def Let_def)

text \<open>An update of the configuration register that leaves the one-time area shut.\<close>

lemma upd_cfg_ok:
  assumes t: "transfers_ok c V" and b: "busy V (spi_chip s) = 0" and s: "cur_target s = 0" "length (cfg_cache s) = 2"
    and otp: "(cfg_cache s ! 0 AND NOT msk OR val) AND CFG_OTP_ENABLE = 0"
  obtains d cfgs where "spinand_upd_cfg c msk val s = (0, s\<lparr>spi_chip := d, cfg_cache := cfgs\<rparr>)" "cell V d = cell V (spi_chip s)"
    "busy V d = 0" "length cfgs = 2" "cfgs ! 0 AND CFG_OTP_ENABLE = 0"
proof -
  let ?cfg = "cfg_cache s ! 0 AND NOT msk OR val"
  have o: "REG_CFG = REG_CFG \<longrightarrow> ?cfg AND CFG_OTP_ENABLE = 0" using otp by simp
  show thesis
  proof (rule set_feature [OF t b o])
    fix f d
    assume d: "spi_exec c (SPINAND_SET_FEATURE_OP REG_CFG ?cfg) (spi_chip s) = (0, f, d)" "cell V d = cell V (spi_chip s)" "busy V d = 0"
    show thesis
    proof (cases "cfg_cache s ! 0 = ?cfg")
      case True
      then have "spinand_upd_cfg c msk val s = (0, s\<lparr>spi_chip := spi_chip s, cfg_cache := cfg_cache s\<rparr>)"
        by (simp add: spinand_upd_cfg_def spinand_set_cfg_def spinand_get_cfg_def s)
      then show thesis using otp True b s(2) by (intro that [where d = "spi_chip s" and cfgs = "cfg_cache s"]) simp_all
    next
      case False
      then have "spinand_upd_cfg c msk val s = (0, s\<lparr>spi_chip := d, cfg_cache := (cfg_cache s)[0 := ?cfg]\<rparr>)"
        using d(1) by (simp add: spinand_upd_cfg_def spinand_set_cfg_def spinand_get_cfg_def s spinand_write_reg_op_def exec_op_def on_ok_def)
      then show thesis using otp d(2,3) s(2) by (intro that [where d = d and cfgs = "(cfg_cache s)[0 := ?cfg]"]) simp_all
    qed
  qed
qed

lemma otp_bit: "(x AND NOT 0x40 OR 0) AND 0x40 = (0 :: u8)" "y AND 0x40 = 0 \<Longrightarrow> (y AND NOT 8 OR 8) AND 0x40 = (0 :: u8)"
proof -
  show "(x AND NOT 0x40 OR 0) AND 0x40 = (0 :: u8)" by (rule bit_word_eqI) (auto simp: bit_simps)
  have "(y AND k OR m) AND n = (y AND n) AND k OR (m AND n)" for k m n :: u8
    by (rule bit_word_eqI) (auto simp: bit_simps)
  from this [of "NOT 8" 8 "0x40"] show "y AND 0x40 = 0 \<Longrightarrow> (y AND NOT 8 OR 8) AND 0x40 = (0 :: u8)" by simp
qed

lemma spinand_init_ok:
  assumes t: "transfers_ok c V" and id: "ident_ok c V" and s: "cur_target s = 0" "length (cfg_cache s) = 2"
  shows "\<exists>d cfgs. spinand_init c s = (0, s\<lparr>memorg := w25n01gv_memorg, eccreq_strength := 1, has_ooblayout := True,
      read_cache := SPINAND_PAGE_READ_FROM_CACHE_X4_OP 0 1 0, write_cache := SPINAND_PROG_LOAD True 0 [],
      update_cache := SPINAND_PROG_LOAD False 0 [], cfg_cache := cfgs, eraseblock_addr_shift := 6, lun_addr_shift := 16, mtd_type := 4,
      mtd_flags := 0x400, mtd_erasesize := 0x20000, mtd_writesize := 2048, mtd_oobsize := 64, mtd_size := 0x8000000, bbt_cache := True,
      mtd_oobavail_field := mtd_ooblayout_count_freebytes, spi_chip := d\<rparr>)
    \<and> cell V d = cell V (spi_chip s) \<and> busy V d = 0 \<and> unlocked V d \<and> length cfgs = 2 \<and> cfgs ! 0 AND CFG_OTP_ENABLE = 0"
proof -
  obtain f1 d1 where d1: "spi_exec c SPINAND_RESET_OP (spi_chip s) = (0, f1, d1)" "cell V d1 = cell V (spi_chip s)" "busy V d1 \<le> 40000"
    using id[unfolded ident_ok_def, THEN conjunct2, THEN conjunct1, THEN spec, of "spi_chip s"]
    by (cases "spi_exec c SPINAND_RESET_OP (spi_chip s)") auto
  have "busy V (spi_chip (s\<lparr>spi_chip := d1\<rparr>)) \<le> 40000" using d1(3) by simp
  from spinand_wait_ok [OF t this] obtain st d2 where
    d2: "spinand_wait c (s\<lparr>spi_chip := d1\<rparr>) = (0, st, s\<lparr>spi_chip := d2\<rparr>)" "same_cells V d1 d2" "busy V d2 = 0" by auto
  obtain f3 d3 where d3: "spi_exec c (SPINAND_READID_OP 0 4) d2 = (0, f3, d3)" "cell V d3 = cell V d2" "busy V d3 = 0" "f3 1 = 0xEF" "f3 2 = 0xAA"
    using id[unfolded ident_ok_def, THEN conjunct2, THEN conjunct2, THEN conjunct1, THEN spec, THEN mp, OF d2(3)]
    by (cases "spi_exec c (SPINAND_READID_OP 0 4) d2") auto
  have m: "map f3 [0..<4] ! 1 = 0xEF" "map f3 [0..<4] ! 2 = 0xAA" using d3(4,5) by (simp_all add: numeral_2_eq_2)
  define s3 where "s3 = s\<lparr>spi_chip := d3, memorg := w25n01gv_memorg, eccreq_strength := 1, has_ooblayout := True,
      read_cache := SPINAND_PAGE_READ_FROM_CACHE_X4_OP 0 1 0, write_cache := SPINAND_PROG_LOAD True 0 [],
      update_cache := SPINAND_PROG_LOAD False 0 []\<rparr>"
  have det: "spinand_detect c s = (0, s3)"
    using d1(1) d2(1) d3(1) detect_w25n01gv [OF m, of "s\<lparr>spi_chip := d3\<rparr>"]
    by (simp add: spinand_detect_def spinand_reset_op_def spinand_read_id_op_def exec_op_def on_ok_def s3_def)
  obtain f4 d4 where d4: "spi_exec c (SPINAND_GET_FEATURE_OP REG_CFG) d3 = (0, f4, d4)" "cell V d4 = cell V d3" "busy V d4 = 0"
    using id[unfolded ident_ok_def, THEN conjunct2, THEN conjunct2, THEN conjunct2, THEN spec, THEN mp, OF d3(3)]
    by (cases "spi_exec c (SPINAND_GET_FEATURE_OP REG_CFG) d3") auto
  define s4 where "s4 = s3\<lparr>spi_chip := d4, cfg_cache := (cfg_cache s)[0 := f4 0]\<rparr>"
  have cfg: "spinand_init_cfg_cache c s3 = (0, s4)"
    using d4(1) s by (simp add: spinand_init_cfg_cache_def spinand_select_target_def s3_def s4_def spinand_read_reg_op_def exec_op_def on_ok_def)
  have s4: "busy V (spi_chip s4) = 0" "cur_target s4 = 0" "length (cfg_cache s4) = 2" using d4(3) s by (simp_all add: s4_def s3_def)
  show ?thesis
  proof (rule upd_cfg_ok [OF t s4 otp_bit(1) [of "cfg_cache s4 ! 0"]])
    fix d5 cfgs5
    assume u5: "spinand_upd_cfg c CFG_OTP_ENABLE 0 s4 = (0, s4\<lparr>spi_chip := d5, cfg_cache := cfgs5\<rparr>)" "cell V d5 = cell V (spi_chip s4)"
      "busy V d5 = 0" "length cfgs5 = 2" "cfgs5 ! 0 AND CFG_OTP_ENABLE = 0"
    define s5 where "s5 = s4\<lparr>spi_chip := d5, cfg_cache := cfgs5\<rparr>"
    have s5: "busy V (spi_chip s5) = 0" "cur_target s5 = 0" "length (cfg_cache s5) = 2"
      "(cfg_cache s5 ! 0 AND NOT WINBOND_CFG_BUF_READ OR WINBOND_CFG_BUF_READ) AND CFG_OTP_ENABLE = 0"
      using u5(3,4) s4(2) otp_bit(2) [OF u5(5)] by (simp_all add: s5_def)
    show ?thesis
    proof (rule upd_cfg_ok [OF t s5])
      fix d6 cfgs6
      assume u6: "spinand_upd_cfg c WINBOND_CFG_BUF_READ WINBOND_CFG_BUF_READ s5 = (0, s5\<lparr>spi_chip := d6, cfg_cache := cfgs6\<rparr>)"
        "cell V d6 = cell V (spi_chip s5)" "busy V d6 = 0" "length cfgs6 = 2" "cfgs6 ! 0 AND CFG_OTP_ENABLE = 0"
      define s6 where "s6 = s5\<lparr>spi_chip := d6, cfg_cache := cfgs6\<rparr>"
      have ms: "memorg s5 = w25n01gv_memorg" "cur_target s5 = 0" "memorg s6 = w25n01gv_memorg" "cur_target s6 = 0"
        using s by (simp_all add: s6_def s5_def s4_def s3_def)
      have wb: "winbond_spinand_init c s5 = (0, s6)"
        using u6(1) ms by (simp add: winbond_spinand_init_def spinand_select_target_def s6_def)
      have lk: "REG_BLOCK_LOCK = REG_CFG \<longrightarrow> BL_ALL_UNLOCKED AND CFG_OTP_ENABLE = 0" by simp
      show ?thesis
      proof (rule set_feature [OF t u6(3) lk])
        fix f7 d7
        assume d7: "spi_exec c (SPINAND_SET_FEATURE_OP REG_BLOCK_LOCK BL_ALL_UNLOCKED) d6 = (0, f7, d7)" "cell V d7 = cell V d6" "busy V d7 = 0"
          "unlocked V d7 = (if REG_BLOCK_LOCK = REG_BLOCK_LOCK then BL_ALL_UNLOCKED = BL_ALL_UNLOCKED else unlocked V d6)"
        define s7 where "s7 = s6\<lparr>spi_chip := d7\<rparr>"
        have ul: "unlock_targets c [0..<ntargets (memorg s6)] s6 = (0, s7)"
          using d7(1) ms by (simp add: spinand_select_target_def spinand_lock_block_def spinand_write_reg_op_def exec_op_def on_ok_def
              s7_def s6_def)
        have "nanddev_init s7 = (0, s7\<lparr>eraseblock_addr_shift := 6, lun_addr_shift := 16, mtd_type := 4, mtd_flags := 0x400,
            mtd_erasesize := 0x20000, mtd_writesize := 2048, mtd_oobsize := 64, mtd_size := 0x8000000, bbt_cache := True\<rparr>)"
          using ms by (simp add: nanddev_init_def s7_def nanddev_bbt_init_def Let_def fls_values nanddev_size_def)
        then have "spinand_init c s = (0, s7\<lparr>eraseblock_addr_shift := 6, lun_addr_shift := 16, mtd_type := 4, mtd_flags := 0x400,
            mtd_erasesize := 0x20000, mtd_writesize := 2048, mtd_oobsize := 64, mtd_size := 0x8000000, bbt_cache := True,
            mtd_oobavail_field := mtd_ooblayout_count_freebytes\<rparr>)"
          using det cfg u5(1) [folded s5_def] wb ul by (simp add: spinand_init_def on_ok_def)
        then show ?thesis
          using d7 u6 u5 d4(2) d3(2) d2(2) d1(2)
          by (intro exI [of _ d7] exI [of _ cfgs6]) (simp add: s7_def s6_def s5_def s4_def s3_def same_cells_def)
      qed
    qed
  qed
qed

lemma FPGA_Flash_init_ok:
  assumes t: "transfers_ok c V" and id: "ident_ok c V"
  shows "\<exists>s. FPGA_Flash_init c (fnand_reset d) = (True, s) \<and> driver_ok V s \<and> cell V (spi_chip s) = cell V d
    \<and> (\<forall>b < 1024. block_status b s = 0)"
proof -
  have p: "cell V (spi_probe c d) = cell V d" using id by (simp add: ident_ok_def)
  let ?s = "(fnand_reset d)\<lparr>spi_chip := spi_probe c d\<rparr>"
  have "cur_target ?s = 0" "length (cfg_cache ?s) = 2" by (simp_all add: fnand_reset_def)
  from spinand_init_ok [OF t id this] obtain d' cfgs where i: "spinand_init c ?s = (0, ?s\<lparr>memorg := w25n01gv_memorg, eccreq_strength := 1, has_ooblayout := True,
      read_cache := SPINAND_PAGE_READ_FROM_CACHE_X4_OP 0 1 0, write_cache := SPINAND_PROG_LOAD True 0 [],
      update_cache := SPINAND_PROG_LOAD False 0 [], cfg_cache := cfgs, eraseblock_addr_shift := 6, lun_addr_shift := 16, mtd_type := 4,
      mtd_flags := 0x400, mtd_erasesize := 0x20000, mtd_writesize := 2048, mtd_oobsize := 64, mtd_size := 0x8000000, bbt_cache := True,
      mtd_oobavail_field := mtd_ooblayout_count_freebytes, spi_chip := d'\<rparr>)" (is "_ = (0, ?s1)")
    and d': "cell V d' = cell V (spi_chip ?s)" "busy V d' = 0" "unlocked V d'" "length cfgs = 2" "cfgs ! 0 AND CFG_OTP_ENABLE = 0" by blast
  have "FPGA_Flash_init c (fnand_reset d) = (True, ?s1\<lparr>is_initialized := True\<rparr>)"
    using i by (simp add: FPGA_Flash_init_def fnand_reset_def)
  moreover have "driver_ok V (?s1\<lparr>is_initialized := True\<rparr>)" using d' by (simp add: driver_ok_def fnand_reset_def)
  moreover have "block_status b (?s1\<lparr>is_initialized := True\<rparr>) = 0" if "b < 1024" for b
    using that by (simp add: block_status_def table_status_def tbit_def fnand_reset_def)
  ultimately show ?thesis using d'(1) p
    by (intro exI [of _ "?s1\<lparr>is_initialized := True\<rparr>"]) simp
qed

subsection \<open>A chip to try things on\<close>

record w25n =
  w_cells :: "nat \<Rightarrow> nat \<Rightarrow> u8"
  w_buf :: "nat \<Rightarrow> u8"
  w_busy :: nat
  w_wel :: bool
  w_unlocked :: bool

definition w25n_exec :: "spi_mem_op \<Rightarrow> w25n \<Rightarrow> int \<times> (nat \<Rightarrow> u8) \<times> w25n" where
  "w25n_exec p d =
     (let a = op_addr_val p; bs = op_data_out p; zero = (\<lambda>i :: nat. 0 :: u8)
      in if op_opcode p = 0x0F \<and> a = REG_STATUS then (0, \<lambda>i. of_bool (0 < w_busy d), d\<lparr>w_busy := w_busy d - 1\<rparr>)
         else if op_opcode p = 0x06 then (0, zero, d\<lparr>w_wel := True\<rparr>)
         else if op_opcode p = 0x1F \<and> a = REG_BLOCK_LOCK then (0, zero, d\<lparr>w_unlocked := (bs ! 0 = 0)\<rparr>)
         else if op_opcode p = 0x9F then (0, \<lambda>i. [0, 0xEF, 0xAA, 0x21] ! i, d)
         else if op_opcode p = 0x13 then (0, zero, d\<lparr>w_buf := w_cells d a, w_busy := 3\<rparr>)
         else if op_opcode p = 0x6B then (0, \<lambda>i. w_buf d (a + i), d)
         else if op_opcode p = 0x02 then (0, zero, d\<lparr>w_buf := (\<lambda>i. if a \<le> i \<and> i < a + length bs then bs ! (i - a) else 0xFF)\<rparr>)
         else if op_opcode p = 0x84 then (0, zero, d\<lparr>w_buf := (\<lambda>i. if a \<le> i \<and> i < a + length bs then bs ! (i - a) else w_buf d i)\<rparr>)
         else if op_opcode p = 0x10 then (0, zero, d\<lparr>w_cells := (\<lambda>r i. if r = a then w_cells d r i AND w_buf d i else w_cells d r i), w_busy := 3\<rparr>)
         else if op_opcode p = 0xD8 then (0, zero, d\<lparr>w_cells := (\<lambda>r i. if r div 64 = a div 64 then 0xFF else w_cells d r i), w_busy := 3\<rparr>)
         else if op_opcode p = 0xFF then (0, zero, d\<lparr>w_busy := 3\<rparr>)
         else (0, zero, d))"

definition w25n_controller :: "w25n spi_controller" where
  "w25n_controller = \<lparr> spi_exec = w25n_exec, spi_probe = \<lambda>d. d\<lparr>w_busy := 0\<rparr> \<rparr>"

definition w25n_view :: "w25n chip_view" where
  "w25n_view = \<lparr> cell = w_cells, cbuf = w_buf, busy = w_busy, wel = w_wel, unlocked = w_unlocked \<rparr>"

definition w25n_with :: "(nat \<Rightarrow> nat \<Rightarrow> u8) \<Rightarrow> w25n" where
  "w25n_with cells = \<lparr> w_cells = cells, w_buf = \<lambda>i. 0, w_busy = 0, w_wel = False, w_unlocked = False \<rparr>"

lemmas op_defs = SPINAND_RESET_OP_def SPINAND_WR_EN_DIS_OP_def SPINAND_READID_OP_def SPINAND_SET_FEATURE_OP_def SPINAND_GET_FEATURE_OP_def
  SPINAND_BLK_ERASE_OP_def SPINAND_PAGE_READ_OP_def SPINAND_PROG_EXEC_OP_def SPINAND_PAGE_READ_FROM_CACHE_X4_OP_def
  SPINAND_PROG_LOAD_def SPI_DATA_IN_def SPI_DATA_OUT_def SPI_ADDR_def SPI_CMD_def

lemma w25n_transfers: "transfers_ok w25n_controller w25n_view"
  unfolding transfers_ok_def
  by (auto simp: w25n_controller_def w25n_view_def w25n_exec_def op_defs same_cells_def Let_def)

lemma w25n_array: "array_ok w25n_controller w25n_view"
  unfolding array_ok_def
  by (auto simp: w25n_controller_def w25n_view_def w25n_exec_def op_defs same_cells_def Let_def)

lemma w25n_ident: "ident_ok w25n_controller w25n_view"
  unfolding ident_ok_def
  by (auto simp: w25n_controller_def w25n_view_def w25n_exec_def op_defs same_cells_def Let_def nth_Cons_numeral)

lemma w25n_init:
  obtains s where "FPGA_Flash_init w25n_controller (fnand_reset (w25n_with cells)) = (True, s)" "driver_ok w25n_view s"
    "cell w25n_view (spi_chip s) = cells" "\<And>b. b < 1024 \<Longrightarrow> block_status b s = 0"
  using FPGA_Flash_init_ok [OF w25n_transfers w25n_ident, of "w25n_with cells"]
  by (auto simp: w25n_with_def w25n_view_def)

theorem FPGA_Flash_roundtrip_witness:
  "\<exists>s0 s1 s2 s3. FPGA_Flash_init w25n_controller (fnand_reset (w25n_with (\<lambda>r i. 0))) = (True, s0)
    \<and> FPGA_Flash_erase w25n_controller 0x20000 0x40000 s0 = Some (True, s1)
    \<and> FPGA_Flash_write w25n_controller 0x20000 [1, 2, 3] s1 = Some (True, s2)
    \<and> FPGA_Flash_read w25n_controller 0x80000000 0x20000 3 s2 = Some (True, [1, 2, 3], s3)"
proof -
  obtain s0 where s0: "FPGA_Flash_init w25n_controller (fnand_reset (w25n_with (\<lambda>r i. 0))) = (True, s0)" "driver_ok w25n_view s0"
    "\<And>b. b < 1024 \<Longrightarrow> block_status b s0 = 0" by (rule w25n_init) blast
  have u: "unat (0x20000 :: u32) = 1 * 0x20000" "unat (0x40000 :: u64) = 2 * 0x20000" "(1 :: nat) + 2 \<le> 1024"
    "length [1, 2, 3 :: u8] \<le> 2 * 0x20000" "(0x80000000 :: u64) \<noteq> 0" "unat (0x80000000 :: u64) + length [1, 2, 3 :: u8] < 2 ^ 64"
    by simp_all
  have "block_status b' s0 \<noteq> 3" if "1 \<le> b'" "b' < 1 + 2" for b' using s0(3) [of b'] that by simp
  from FPGA_Flash_roundtrip [OF w25n_transfers w25n_array s0(2) u(1-3) this u(4-6)] show ?thesis using s0(1) by auto
qed

theorem FPGA_Flash_read_hangs_witness:
  "\<exists>s0. FPGA_Flash_init w25n_controller (fnand_reset (w25n_with (\<lambda>r i. 0))) = (True, s0)
    \<and> FPGA_Flash_read w25n_controller 0x80000000 0 0x9000000 s0 = None"
proof -
  obtain s0 where s0: "FPGA_Flash_init w25n_controller (fnand_reset (w25n_with (\<lambda>r i. 0))) = (True, s0)" "driver_ok w25n_view s0"
    by (rule w25n_init) blast
  have "(0x80000000 :: u64) \<noteq> 0" "unat (0x80000000 :: u64) + unat (0x9000000 :: u64) < 2 ^ 64" "unat (0 :: u32) mod 2048 = 0"
    "unat (0 :: u32) \<le> 0x8000000" "unat (0 :: u32) + unat (0x9000000 :: u64) > 0x8000000" "unat (0x9000000 :: u64) < 2 ^ 63"
    by simp_all
  from FPGA_Flash_read_hangs [OF w25n_transfers w25n_array s0(2) this] show ?thesis using s0(1) by blast
qed

theorem FPGA_Flash_erase_forgets_bad_witness:
  "\<exists>s0 s1 s2 s3. FPGA_Flash_init w25n_controller (fnand_reset (w25n_with (\<lambda>r i. 0))) = (True, s0)
    \<and> FPGA_Flash_erase w25n_controller 0x20000 0x20000 s0 = Some (True, s1)
    \<and> mtd_block_isbad w25n_controller 0x20000 s0 = (1, s2) \<and> mtd_block_isbad w25n_controller 0x20000 s1 = (0, s3)"
proof -
  obtain s0 where s0: "FPGA_Flash_init w25n_controller (fnand_reset (w25n_with (\<lambda>r i. 0))) = (True, s0)" "driver_ok w25n_view s0"
    "cell w25n_view (spi_chip s0) = (\<lambda>r i. 0)" "\<And>b. b < 1024 \<Longrightarrow> block_status b s0 = 0" by (rule w25n_init) blast
  have u: "unat (0x20000 :: u32) = 1 * 0x20000" "(1 :: nat) < 1024" by simp_all
  have "has_marker w25n_view 1 (spi_chip s0)" "block_status 1 s0 = 0" using s0(3,4) by (simp_all add: has_marker_def)
  from FPGA_Flash_erase_forgets_bad [OF w25n_transfers w25n_array s0(2) u this] show ?thesis using s0(1) by auto
qed

theorem markbad_recorded_as_reserved_witness:
  "\<exists>s0 s1 s2. FPGA_Flash_init w25n_controller (fnand_reset (w25n_with (\<lambda>r i. 0xFF))) = (True, s0)
    \<and> mtd_block_isbad w25n_controller 0x2A0000 s0 = (0, s1) \<and> spinand_mtd_block_markbad w25n_controller 0x2A0000 s1 = (0, s2)
    \<and> spinand_mtd_block_isreserved 0x2A0000 s2 \<and> mtd_block_isbad w25n_controller 0x2A0000 s2 = (0, s2)"
proof -
  obtain s0 where s0: "FPGA_Flash_init w25n_controller (fnand_reset (w25n_with (\<lambda>r i. 0xFF))) = (True, s0)" "driver_ok w25n_view s0"
    "cell w25n_view (spi_chip s0) = (\<lambda>r i. 0xFF)" "\<And>b. b < 1024 \<Longrightarrow> block_status b s0 = 0" by (rule w25n_init) blast
  have b: "(21 :: nat) < 1024" "(21 :: nat) mod 64 = 21 \<or> (21 :: nat) mod 64 = 42" by simp_all
  have nm: "\<not> has_marker w25n_view 21 (spi_chip s0)" "block_status 21 s0 = 0" using s0(3,4) by (simp_all add: has_marker_def)
  obtain s1 where s1: "nanddev_isbad w25n_controller (pos_of_row (21 * 64)) s0 = (False, s1)" "driver_ok w25n_view s1" "block_status 21 s1 = 1"
    by (rule nanddev_isbad_row [OF w25n_transfers w25n_array s0(2) b(1)]) (use nm in auto)
  have "memorg s0 = w25n01gv_memorg" "mtd_size s0 = 0x8000000" using s0(2) by (simp_all add: driver_ok_def)
  then have "mtd_block_isbad w25n_controller 0x2A0000 s0 = (0, s1)"
    using s1(1) block_pos [OF b(1)] by (simp add: mtd_block_isbad_def spinand_mtd_block_isbad_def)
  then show ?thesis
    using markbad_recorded_as_reserved [OF w25n_transfers w25n_array s1(2) b s1(3)] s0(1) by auto
qed

end
