(* ===== verification/HSS_BootInit.thy ===== *)
theory HSS_BootInit
  imports HSS_Ymodem HSS_Qspi HSS_FpgaNand
begin

text \<open>
  Loading a boot image: init/hss_boot_init.c with the wrapper modules/compression/hss_decompress.c
  and services/fpga_qspi/fpga_qspi_api.c.  The three media of the reference configuration are
  tried in the order of the table: the flash behind the FPGA, the QSPI flash, a transfer over
  the console.  Messages to the console are left out.

  The parameters \<open>media\<close> are the QSPI chip, the controller with the flash behind the FPGA,
  and the decompressor of the library miniz.
\<close>

subsection \<open>State and parameters\<close>

datatype storage = FPGA_QSPI | QSPI | YMODEM_PAYLOAD

text \<open>
  \<open>bootImage\<close> is the address of the static of that name.  \<open>active_slot\<close> is
  \<^verbatim>\<open>boot_info.__active_slot\<close>.
\<close>

record ('d, 'f) load_world = loader_world +
  bootImage :: u64
  qspi_state :: "'d qspi"
  fpga_state :: "'f fnand"
  pDefaultStorage :: "storage option"
  active_slot :: u32

text \<open>
  \<open>mz_uncompress\<close> gets destination, capacity, source and length; it yields the result code, the
  number of bytes made, and the memory after.
\<close>

record ('d, 'f) media =
  qspi_chip :: "'d nand"
  fpga_controller :: "'f spi_controller"
  mz_uncompress :: "u64 \<Rightarrow> u64 \<Rightarrow> u64 \<Rightarrow> u64 \<Rightarrow> memory \<Rightarrow> u32 \<times> u64 \<times> memory"

definition pStorages :: "storage list" where
  "pStorages = [FPGA_QSPI, QSPI, YMODEM_PAYLOAD]"

abbreviation (input) CONFIG_SERVICE_BOOT_DDR_TARGET_ADDR :: u64 where "CONFIG_SERVICE_BOOT_DDR_TARGET_ADDR \<equiv> 0x103FC00000"

definition img_bootImageLength :: "memory \<Rightarrow> u64 \<Rightarrow> u64" where "img_bootImageLength mm p = rd64 mm (p + 1480)"

definition HSS_BootGetActiveStorage :: "('d, 'f, 'a) load_world_scheme \<Rightarrow> storage" where
  "HSS_BootGetActiveStorage w = (case pDefaultStorage w of None \<Rightarrow> pStorages ! 0 | Some s \<Rightarrow> s)"

subsection \<open>Reads of the two flashes into memory\<close>

definition HSS_FPGA_QSPIInit :: "('d, 'f) media \<Rightarrow> ('d, 'f, 'a) load_world_scheme \<Rightarrow> bool \<times> ('d, 'f, 'a) load_world_scheme" where
  "HSS_FPGA_QSPIInit M w = (case FPGA_Flash_init (fpga_controller M) (fpga_state w) of (r, s) \<Rightarrow> (r, w\<lparr>fpga_state := s\<rparr>))"

definition HSS_FPGA_GetInfo :: "('d, 'f, 'a) load_world_scheme \<Rightarrow> (u32 \<times> u32 \<times> u32) option" where
  "HSS_FPGA_GetInfo w = map_option (\<lambda>(a, b, c). (of_nat a, of_nat b, of_nat c)) (FPGA_Flash_getinfo (fpga_state w))"

definition HSS_FPGA_QSPIIsbad ::
    "('d, 'f) media \<Rightarrow> ('d, 'f, 'a) load_world_scheme \<Rightarrow> (bool \<times> ('d, 'f, 'a) load_world_scheme) option" where
  "HSS_FPGA_QSPIIsbad M w =
     map_option (\<lambda>(r, bads, s). (r, w\<lparr>fpga_state := s\<rparr>)) (FPGA_Flash_isbad (fpga_controller M) (fpga_state w))"

definition HSS_FPGA_QSPIRead ::
    "('d, 'f) media \<Rightarrow> u64 \<Rightarrow> u32 \<Rightarrow> u64 \<Rightarrow> ('d, 'f, 'a) load_world_scheme \<Rightarrow> (bool \<times> ('d, 'f, 'a) load_world_scheme) option" where
  "HSS_FPGA_QSPIRead M dest off n w =
     map_option (\<lambda>(r, bs, s). (r, w\<lparr>fpga_state := s, mem := put_bytes dest bs (mem w)\<rparr>))
       (FPGA_Flash_read (fpga_controller M) dest off n (fpga_state w))"

definition HSS_FPGA_QSPIWrite ::
    "('d, 'f) media \<Rightarrow> u64 \<Rightarrow> u32 \<Rightarrow> u64 \<Rightarrow> ('d, 'f, 'a) load_world_scheme \<Rightarrow> (bool \<times> ('d, 'f, 'a) load_world_scheme) option" where
  "HSS_FPGA_QSPIWrite M src off n w =
     map_option (\<lambda>(r, s). (r, w\<lparr>fpga_state := s\<rparr>))
       (FPGA_Flash_write (fpga_controller M) off (rd_bytes (mem w) src (unat n)) (fpga_state w))"

definition HSS_FPGA_QSPIErase ::
    "('d, 'f) media \<Rightarrow> u32 \<Rightarrow> u64 \<Rightarrow> ('d, 'f, 'a) load_world_scheme \<Rightarrow> (bool \<times> ('d, 'f, 'a) load_world_scheme) option" where
  "HSS_FPGA_QSPIErase M off n w =
     map_option (\<lambda>(r, s). (r, w\<lparr>fpga_state := s\<rparr>)) (FPGA_Flash_erase (fpga_controller M) off n (fpga_state w))"

text \<open>\<^verbatim>\<open>HSS_QSPI_ReadBlock\<close> with its destination in memory.\<close>

definition qspi_read_to ::
    "('d, 'f) media \<Rightarrow> u64 \<Rightarrow> u64 \<Rightarrow> u64 \<Rightarrow> ('d, 'f, 'a) load_world_scheme \<Rightarrow> (bool \<times> ('d, 'f, 'a) load_world_scheme) option" where
  "qspi_read_to M pDest srcOffset byteCount w =
     map_option (\<lambda>(r, bs, q). (r, w\<lparr>qspi_state := q, mem := put_bytes pDest bs (mem w)\<rparr>))
       (HSS_QSPI_ReadBlock (qspi_chip M) srcOffset byteCount (qspi_state w))"

definition copyBootImageToDDR ::
    "u64 \<Rightarrow> u64 \<Rightarrow> u64 \<Rightarrow> (u64 \<Rightarrow> u64 \<Rightarrow> u64 \<Rightarrow> ('d, 'f, 'a) load_world_scheme \<Rightarrow> (bool \<times> ('d, 'f, 'a) load_world_scheme) option)
       \<Rightarrow> ('d, 'f, 'a) load_world_scheme \<Rightarrow> (bool \<times> ('d, 'f, 'a) load_world_scheme) option" where
  "copyBootImageToDDR pImage pDest srcOffset pCopyFunction w =
     pCopyFunction pDest srcOffset (img_bootImageLength (mem w) pImage) w"

subsection \<open>Getting the image from a medium\<close>

text \<open>Each yields its result, \<^verbatim>\<open>*ppBootImage\<close> (0 if it was not set) and the state.\<close>

definition getBootImageFromQSPI ::
    "('d, 'f) media \<Rightarrow> ('d, 'f, 'a) load_world_scheme \<Rightarrow> (bool \<times> u64 \<times> ('d, 'f, 'a) load_world_scheme) option" where
  "getBootImageFromQSPI M w = do {
     let srcLBAOffset = (0 :: u64);
     let (blockSize, eraseSize, blockCount) = HSS_CachedQSPI_GetInfo (qspi_state w);
     (result, w1) \<leftarrow> qspi_read_to M (bootImage w) (srcLBAOffset * ucast blockSize) (of_nat IMG_SIZE) w;
     if \<not> result then Some (False, 0, w1)
     else if \<not> HSS_Boot_VerifyMagic (bootImage w1) w1 then Some (False, 0, w1)
     else do {
       let (_, perf_ctr_index, w2) = HSS_PerfCtr_Allocate PERF_CTR_UNINITIALIZED (str_addr w1 ''Boot Image QSPI Copy'') w1;
       (result1, w3) \<leftarrow> copyBootImageToDDR (bootImage w2) CONFIG_SERVICE_BOOT_DDR_TARGET_ADDR (srcLBAOffset * ucast blockSize)
         (qspi_read_to M) w2;
       w4 \<leftarrow> HSS_PerfCtr_Lap perf_ctr_index w3;
       Some (result1, CONFIG_SERVICE_BOOT_DDR_TARGET_ADDR, w4)
     }
   }"

definition getBootImageFromFPGAQSPI ::
    "('d, 'f) media \<Rightarrow> ('d, 'f, 'a) load_world_scheme \<Rightarrow> (bool \<times> u64 \<times> ('d, 'f, 'a) load_world_scheme) option" where
  "getBootImageFromFPGAQSPI M w = do {
     let dest = CONFIG_SERVICE_BOOT_DDR_TARGET_ADDR;
     (result, w1) \<leftarrow> HSS_FPGA_QSPIRead M (bootImage w) 0 (of_nat IMG_SIZE) w;
     if \<not> result then Some (False, 0, w1)
     else if \<not> HSS_Boot_VerifyMagic (bootImage w1) w1 then Some (False, 0, w1)
     else do {
       let (_, perf_ctr_index, w2) = HSS_PerfCtr_Allocate PERF_CTR_UNINITIALIZED (str_addr w1 ''Boot Image QSPI Copy'') w1;
       (result1, w3) \<leftarrow> HSS_FPGA_QSPIRead M dest 0 (img_bootImageLength (mem w2) (bootImage w2)) w2;
       if \<not> result1 then Some (False, 0, w3)
       else do { w4 \<leftarrow> HSS_PerfCtr_Lap perf_ctr_index w3; Some (True, dest, w4) }
     }
   }"

text \<open>The size of the buffer and the number of bytes received are cut to 32 bits.\<close>

definition getBootImageFromYModemPayload ::
    "('d, 'f, 'a) load_world_scheme \<Rightarrow> (bool \<times> u64 \<times> ('d, 'f, 'a) load_world_scheme) option" where
  "getBootImageFromYModemPayload w = do {
     let pDest = CONFIG_SERVICE_BOOT_DDR_TARGET_ADDR;
     let g_rx_size = (ucast (HSS_DDRHi_GetSize w) :: u32);
     (n, w1) \<leftarrow> ymodem_receive pDest (ucast g_rx_size) w;
     let receivedCount = (ucast n :: u32);
     w2 \<leftarrow> flush_ymodem_footer w1;
     if receivedCount = 0 then Some (False, 0, w2)
     else do {
       let w3 = w2\<lparr>mem := put_bytes (bootImage w2) (rd_bytes (mem w2) pDest IMG_SIZE) (mem w2)\<rparr>;
       Some (if HSS_Boot_VerifyMagic (bootImage w3) w3 then (True, pDest, w3) else (False, 0, w3))
     }
   }"

definition getBootImage ::
    "('d, 'f) media \<Rightarrow> storage \<Rightarrow> ('d, 'f, 'a) load_world_scheme \<Rightarrow> (bool \<times> u64 \<times> ('d, 'f, 'a) load_world_scheme) option" where
  "getBootImage M s w =
     (case s of FPGA_QSPI \<Rightarrow> getBootImageFromFPGAQSPI M w | QSPI \<Rightarrow> getBootImageFromQSPI M w
      | YMODEM_PAYLOAD \<Rightarrow> getBootImageFromYModemPayload w)"

subsection \<open>Decompression (hss_decompress.c)\<close>

abbreviation (input) COMPRESSED_SIZE :: nat where "COMPRESSED_SIZE \<equiv> 112"

definition cimg_headerCrc :: "memory \<Rightarrow> u64 \<Rightarrow> u32" where "cimg_headerCrc mm p = rd32 mm (p + 16)"
definition cimg_compressedImageLen :: "memory \<Rightarrow> u64 \<Rightarrow> u64" where "cimg_compressedImageLen mm p = rd64 mm (p + 32)"
definition cimg_originalImageLen :: "memory \<Rightarrow> u64 \<Rightarrow> u64" where "cimg_originalImageLen mm p = rd64 mm (p + 40)"

text \<open>The copy of the header with its checksum field cleared.\<close>

definition compressedImageHdr :: "memory \<Rightarrow> u64 \<Rightarrow> u8 list" where
  "compressedImageHdr mm p = map (\<lambda>i. if 16 \<le> i \<and> i < 20 then 0 else mm (p + of_nat i)) [0..<COMPRESSED_SIZE]"

text \<open>The result is an \<^verbatim>\<open>int\<close>, a size or the code of an error of the library.\<close>

definition HSS_Decompress :: "('d, 'f) media \<Rightarrow> u64 \<Rightarrow> u64 \<Rightarrow> ('d, 'f, 'a) load_world_scheme \<Rightarrow> u32 \<times> ('d, 'f, 'a) load_world_scheme" where
  "HSS_Decompress M pInput pOutput w =
     (if img_magic (mem w) pInput \<noteq> mHSS_COMPRESSED_MAGIC then (0, w)
      else if cimg_headerCrc (mem w) pInput \<noteq> CRC32_calculate True (compressedImageHdr (mem w) pInput) then (0, w)
      else case mz_uncompress M pOutput (cimg_originalImageLen (mem w) pInput) (pInput + of_nat COMPRESSED_SIZE)
             (scast (ucast (cimg_compressedImageLen (mem w) pInput) :: u32)) (mem w) of
        (result, decompressedOutputSize, m) \<Rightarrow> (if result = 0 then ucast decompressedOutputSize else result, w\<lparr>mem := m\<rparr>))"

subsection \<open>Trying the media\<close>

definition active_slot_of :: "storage \<Rightarrow> u32" where
  "active_slot_of s = (case s of FPGA_QSPI \<Rightarrow> 0x62 | QSPI \<Rightarrow> 0x61 | YMODEM_PAYLOAD \<Rightarrow> 0)"

definition tryBootFunction ::
    "('d, 'f) media \<Rightarrow> storage \<Rightarrow> ('d, 'f, 'a) load_world_scheme \<Rightarrow> (bool \<times> ('d, 'f, 'a) load_world_scheme) option" where
  "tryBootFunction M s w = do {
     (result, p, w1) \<leftarrow> getBootImage M s w;
     let (result1, p1, w2) =
       (if result \<and> p \<noteq> 0 \<and> img_magic (mem w1) p = mHSS_COMPRESSED_MAGIC then
          (case HSS_Decompress M p CONFIG_SERVICE_BOOT_DDR_TARGET_ADDR w1 of (outputSize, w2) \<Rightarrow>
             (True, if outputSize \<noteq> 0 then CONFIG_SERVICE_BOOT_DDR_TARGET_ADDR else 0, w2))
        else (result \<and> p \<noteq> 0, p, w1));
     Some (result1,
       if result1 then (HSS_Register_Boot_Image p1 w2)\<lparr>active_slot := active_slot_of s\<rparr>
       else HSS_Register_Boot_Image 0 w2)
   }"

text \<open>\<^verbatim>\<open>pStorage->init\<close>; the console has none.\<close>

definition storage_init ::
    "('d, 'f) media \<Rightarrow> storage \<Rightarrow> ('d, 'f, 'a) load_world_scheme \<Rightarrow> (bool \<times> ('d, 'f, 'a) load_world_scheme) option" where
  "storage_init M s w =
     (case s of
        FPGA_QSPI \<Rightarrow> Some (HSS_FPGA_QSPIInit M w)
      | QSPI \<Rightarrow> map_option (\<lambda>(r, q). (r, w\<lparr>qspi_state := q\<rparr>)) (HSS_CachedQSPIInit (qspi_chip M) (qspi_state w))
      | YMODEM_PAYLOAD \<Rightarrow> Some (True, w))"

fun try_storages ::
    "('d, 'f) media \<Rightarrow> storage list \<Rightarrow> bool \<Rightarrow> ('d, 'f, 'a) load_world_scheme \<Rightarrow> (bool \<times> ('d, 'f, 'a) load_world_scheme) option" where
  "try_storages M [] result w = Some (result, w)"
| "try_storages M (s # ss) result w = do {
     (result1, w1) \<leftarrow> storage_init M s w;
     if result1 then do {
       (result2, w2) \<leftarrow> tryBootFunction M s w1;
       if result2 then Some (True, w2) else try_storages M ss False w2
     } else try_storages M ss False w1
   }"

definition HSS_BootInit :: "('d, 'f) media \<Rightarrow> ('d, 'f, 'a) load_world_scheme \<Rightarrow> (bool \<times> ('d, 'f, 'a) load_world_scheme) option" where
  "HSS_BootInit M w = do {
     let (_, perf_ctr_index, w1) = HSS_PerfCtr_Allocate PERF_CTR_UNINITIALIZED (str_addr w ''Boot Image Init'') w;
     (result, w2) \<leftarrow>
       (case pDefaultStorage w1 of
          Some s \<Rightarrow> do {
            (result, w2) \<leftarrow> storage_init M s w1;
            if result then tryBootFunction M s w2 else Some (False, w2)
          }
        | None \<Rightarrow> try_storages M pStorages True w1);
     w3 \<leftarrow> HSS_PerfCtr_Lap perf_ctr_index w2;
     Some (result, w3)
   }"

subsection \<open>Starting the harts\<close>

fun idle_harts :: "hart list \<Rightarrow> u32 \<Rightarrow> ('d, 'f, 'a) load_world_scheme \<Rightarrow> u32 option" where
  "idle_harts [] m w = Some m"
| "idle_harts (i # is) m w = do {
     st \<leftarrow> HSS_U54_GetState_Ex i w;
     idle_harts is (if st = HSS_State_Idle then m OR push_bit i 1 else m) w
   }"

definition HSS_BootHarts :: "('d, 'f, 'a) load_world_scheme \<Rightarrow> ('d, 'f, 'a) load_world_scheme option" where
  "HSS_BootHarts w = do {
     restartHartBitmask \<leftarrow> idle_harts [HSS_HART_U54_1..<HSS_HART_NUM_PEERS] 0 w;
     Some (if restartHartBitmask \<noteq> 0 then snd (HSS_Boot_RestartCores_Using_Bitmask restartHartBitmask w) else w)
   }"

subsection \<open>Selecting a medium, and its operations\<close>

definition HSS_BootSelectQSPI :: "('d, 'f, 'a) load_world_scheme \<Rightarrow> ('d, 'f, 'a) load_world_scheme" where
  "HSS_BootSelectQSPI w = HSS_Register_Boot_Image 0 (w\<lparr>pDefaultStorage := Some QSPI\<rparr>)"

definition HSS_BootSelectFPGAQSPI :: "('d, 'f, 'a) load_world_scheme \<Rightarrow> ('d, 'f, 'a) load_world_scheme" where
  "HSS_BootSelectFPGAQSPI w = HSS_Register_Boot_Image 0 (w\<lparr>pDefaultStorage := Some FPGA_QSPI\<rparr>)"

definition HSS_BootSelectYModemPayload :: "('d, 'f, 'a) load_world_scheme \<Rightarrow> ('d, 'f, 'a) load_world_scheme" where
  "HSS_BootSelectYModemPayload w = HSS_Register_Boot_Image 0 (w\<lparr>pDefaultStorage := Some YMODEM_PAYLOAD\<rparr>)"

definition HSS_Storage_Init ::
    "('d, 'f) media \<Rightarrow> ('d, 'f, 'a) load_world_scheme \<Rightarrow> (bool \<times> ('d, 'f, 'a) load_world_scheme) option" where
  "HSS_Storage_Init M w = storage_init M (HSS_BootGetActiveStorage w) w"

text \<open>Only the QSPI flash has block operations: a read of another medium succeeds and reads nothing.\<close>

definition HSS_Storage_ReadBlock ::
    "('d, 'f) media \<Rightarrow> u64 \<Rightarrow> u64 \<Rightarrow> u64 \<Rightarrow> ('d, 'f, 'a) load_world_scheme \<Rightarrow> (bool \<times> ('d, 'f, 'a) load_world_scheme) option" where
  "HSS_Storage_ReadBlock M pDest srcOffset byteCount w =
     (if HSS_BootGetActiveStorage w = QSPI then
        map_option (\<lambda>(r, bs, q). (r, w\<lparr>qspi_state := q, mem := put_bytes pDest bs (mem w)\<rparr>))
          (HSS_CachedQSPI_ReadBlock (qspi_chip M) srcOffset byteCount (qspi_state w))
      else Some (True, w))"

text \<open>A write calls the null pointer of the others.\<close>

definition HSS_Storage_WriteBlock ::
    "('d, 'f) media \<Rightarrow> u64 \<Rightarrow> u64 \<Rightarrow> u64 \<Rightarrow> ('d, 'f, 'a) load_world_scheme \<Rightarrow> (bool \<times> ('d, 'f, 'a) load_world_scheme) option" where
  "HSS_Storage_WriteBlock M dstOffset pSrc byteCount w =
     (if HSS_BootGetActiveStorage w = QSPI then
        map_option (\<lambda>(r, q). (r, w\<lparr>qspi_state := q\<rparr>))
          (HSS_CachedQSPI_WriteBlock (qspi_chip M) dstOffset (rd_bytes (mem w) pSrc (unat byteCount)) (qspi_state w))
      else None)"

text \<open>\<open>None\<close>: the caller's variables keep what they held.\<close>

definition HSS_Storage_GetInfo :: "('d, 'f, 'a) load_world_scheme \<Rightarrow> (u32 \<times> u32 \<times> u32) option" where
  "HSS_Storage_GetInfo w =
     (case HSS_BootGetActiveStorage w of
        FPGA_QSPI \<Rightarrow> HSS_FPGA_GetInfo w
      | QSPI \<Rightarrow> Some (HSS_CachedQSPI_GetInfo (qspi_state w))
      | YMODEM_PAYLOAD \<Rightarrow> None)"

definition HSS_Storage_FlushWriteBuffer ::
    "('d, 'f) media \<Rightarrow> ('d, 'f, 'a) load_world_scheme \<Rightarrow> ('d, 'f, 'a) load_world_scheme option" where
  "HSS_Storage_FlushWriteBuffer M w =
     (if HSS_BootGetActiveStorage w = QSPI
      then map_option (\<lambda>q. w\<lparr>qspi_state := q\<rparr>) (HSS_CachedQSPI_FlushWriteBuffer (qspi_chip M) (qspi_state w))
      else Some w)"

subsection \<open>Reading what was written, and the performance counters\<close>

lemma rd_put_bytes:
  assumes "k + n \<le> length bs" and "length bs < 2 ^ 64"
  shows "rd_bytes (put_bytes a bs m) (a + of_nat k) n = take n (drop k bs)"
proof (rule nth_equalityI)
  fix i assume "i < length (rd_bytes (put_bytes a bs m) (a + of_nat k) n)"
  then have i: "i < n" by simp
  have "a + of_nat k + of_nat i = a + of_nat (k + i)" by simp
  then show "rd_bytes (put_bytes a bs m) (a + of_nat k) n ! i = take n (drop k bs) ! i"
    using i assms put_bytes_get [of "k + i" bs a m] by (simp add: add.assoc)
qed (use assms in simp)

lemma rd_put_map:
  assumes "k + n \<le> l" and "l < 2 ^ 64"
  shows "rd_bytes (put_bytes a (map B [0..<l]) m) (a + of_nat k) n = map B [k..<k + n]"
proof -
  have "take n (drop k (map B [0..<l])) = map B [k..<k + n]"
    using assms(1) by (simp add: drop_map take_map)
  then show ?thesis using rd_put_bytes [of k n "map B [0..<l]" a m] assms by simp
qed

lemmas rd_put_map_0 = rd_put_map [where k = 0, simplified]

text \<open>A step that only uses a performance counter.\<close>

definition perf_only :: "('d, 'f, 'a) load_world_scheme \<Rightarrow> ('d, 'f, 'a) load_world_scheme \<Rightarrow> bool" where
  "perf_only w w' \<longleftrightarrow> (\<exists>n ps. w' = w\<lparr>time_reads := n, perfCtrs := ps\<rparr> \<and> length ps = length (perfCtrs w))"

definition ctr_index :: "nat \<Rightarrow> int \<Rightarrow> bool" where
  "ctr_index n i \<longleftrightarrow> i = PERF_CTR_UNINITIALIZED \<or> (0 \<le> i \<and> i < int n)"

lemma perf_only_fields:
  assumes "perf_only w w'"
  shows "mem w' = mem w" "bootImage w' = bootImage w" "qspi_state w' = qspi_state w" "fpga_state w' = fpga_state w"
    "pDefaultStorage w' = pDefaultStorage w" "active_slot w' = active_slot w" "pBootImage w' = pBootImage w"
    "length (perfCtrs w') = length (perfCtrs w)"
  using assms by (auto simp: perf_only_def)

lemma perf_allocate:
  obtains b j w' where "HSS_PerfCtr_Allocate PERF_CTR_UNINITIALIZED p w = (b, j, w')" "perf_only w w'" "ctr_index (length (perfCtrs w)) j"
proof -
  obtain b j w' where w': "HSS_PerfCtr_Allocate PERF_CTR_UNINITIALIZED p w = (b, j, w')" by (metis prod_cases3)
  then have "perf_only w w' \<and> ctr_index (length (perfCtrs w)) j"
  proof (cases "find_index (\<lambda>c. \<not> pc_isAllocated c) (perfCtrs w)")
    case None
    then have e: "w' = w" "j = PERF_CTR_UNINITIALIZED"
      using w' unfolding HSS_PerfCtr_Allocate_def None by simp_all
    have "perf_only w w"
      unfolding perf_only_def by (rule exI [of _ "time_reads w"], rule exI [of _ "perfCtrs w"]) simp
    then show ?thesis by (simp add: e ctr_index_def)
  next
    case (Some i)
    then have e: "w' = w\<lparr>time_reads := time_reads w + 1, perfCtrs := (perfCtrs w)[i := (perfCtrs w ! i)
        \<lparr>pc_isAllocated := True, pc_pName := p, pc_startTime := mtime w (time_reads w)\<rparr>]\<rparr>" "j = int i"
      using w' unfolding HSS_PerfCtr_Allocate_def Some by (auto simp: HSS_GetTime_def)
    have "i < length (perfCtrs w)" using Some by (rule find_index_length)
    then have "ctr_index (length (perfCtrs w)) j" by (simp add: e ctr_index_def)
    moreover have "perf_only w w'" unfolding perf_only_def
      by (rule exI [of _ "time_reads w + 1"], rule exI, rule conjI [OF e(1)]) simp
    ultimately show ?thesis by simp
  qed
  then show thesis using that w' by blast
qed

lemma perf_lap:
  assumes "ctr_index (length (perfCtrs w)) j"
  obtains w' where "HSS_PerfCtr_Lap j w = Some w'" "perf_only w w'"
proof (cases "j = PERF_CTR_UNINITIALIZED")
  case True
  have "perf_only w w"
    unfolding perf_only_def by (rule exI [of _ "time_reads w"], rule exI [of _ "perfCtrs w"]) simp
  then show thesis using that True by (simp add: HSS_PerfCtr_Lap_def)
next
  case False
  let ?w = "w\<lparr>time_reads := time_reads w + 1, perfCtrs := (perfCtrs w)[nat j := (perfCtrs w ! nat j)\<lparr>pc_lapTime := mtime w (time_reads w)\<rparr>]\<rparr>"
  have "HSS_PerfCtr_Lap j w = Some ?w"
    using assms False by (simp add: HSS_PerfCtr_Lap_def HSS_GetTime_def ctr_index_def)
  moreover have "perf_only w ?w" unfolding perf_only_def by (rule exI, rule exI, rule conjI [OF refl]) simp
  ultimately show thesis by (rule that)
qed

subsection \<open>What a medium holds\<close>

text \<open>Fields of the header in the contents \<open>B\<close> of a medium.\<close>

definition hdr_magic :: "(nat \<Rightarrow> u8) \<Rightarrow> u32" where
  "hdr_magic B = le_word (map B [0..<4])"

definition hdr_length :: "(nat \<Rightarrow> u8) \<Rightarrow> u64" where
  "hdr_length B = le_word (map B [1480..<1488])"

definition known_magic :: "(nat \<Rightarrow> u8) \<Rightarrow> bool" where
  "known_magic B \<longleftrightarrow> hdr_magic B = mHSS_BOOT_MAGIC \<or> hdr_magic B = mHSS_COMPRESSED_MAGIC"

lemma img_magic_put:
  assumes "4 \<le> l" and "l < 2 ^ 64"
  shows "img_magic (put_bytes a (map B [0..<l]) m) a = hdr_magic B"
  using rd_put_map_0 [of 4 l a B m] assms by (simp add: img_magic_def hdr_magic_def rd32_def)

lemma img_length_put: "img_bootImageLength (put_bytes a (map B [0..<1632]) m) a = hdr_length B"
  using rd_put_map [of 1480 8 1632 a B m] by (simp add: img_bootImageLength_def hdr_length_def rd64_def)

lemma verify_magic_put: "HSS_Boot_VerifyMagic (bootImage w) (w\<lparr>fpga_state := s, mem := put_bytes (bootImage w) (map B [0..<1632]) m\<rparr>) = known_magic B"
  by (simp add: HSS_Boot_VerifyMagic_def known_magic_def img_magic_put)

subsection \<open>The flash behind the FPGA as a medium\<close>

text \<open>The controller with its chip in order, and the driver initialised over contents \<open>B\<close>.\<close>

definition fpga_holds :: "('d, 'f) media \<Rightarrow> 'f chip_view \<Rightarrow> (nat \<Rightarrow> u8) \<Rightarrow> 'f fnand \<Rightarrow> bool" where
  "fpga_holds M V B s \<longleftrightarrow> transfers_ok (fpga_controller M) V \<and> array_ok (fpga_controller M) V
     \<and> driver_ok V s \<and> flash_byte V (spi_chip s) = B"

lemma fpga_init_holds:
  assumes "transfers_ok (fpga_controller M) V" "array_ok (fpga_controller M) V" "ident_ok (fpga_controller M) V"
    and "fpga_state w = fnand_reset d"
  obtains s where "HSS_FPGA_QSPIInit M w = (True, w\<lparr>fpga_state := s\<rparr>)" "fpga_holds M V (flash_byte V d) s"
proof -
  obtain s where s: "FPGA_Flash_init (fpga_controller M) (fnand_reset d) = (True, s)" "driver_ok V s" "cell V (spi_chip s) = cell V d"
    using FPGA_Flash_init_ok [OF assms(1,3)] by blast
  have "flash_byte V (spi_chip s) = flash_byte V d" using s(3) by (simp add: flash_byte_def fun_eq_iff)
  then have "fpga_holds M V (flash_byte V d) s" using assms(1,2) s(2) by (simp add: fpga_holds_def)
  then show thesis using s(1) assms(4) by (intro that) (simp_all add: HSS_FPGA_QSPIInit_def)
qed

lemma fpga_read_holds:
  assumes "fpga_holds M V B (fpga_state w)" and "dest \<noteq> 0" "unat dest + unat n < 2 ^ 64" "unat n \<le> 0x8000000"
  obtains s where "HSS_FPGA_QSPIRead M dest 0 n w = Some (True, w\<lparr>fpga_state := s, mem := put_bytes dest (map B [0..<unat n]) (mem w)\<rparr>)"
    "fpga_holds M V B s"
proof -
  let ?s = "fpga_state w"
  have m: "transfers_ok (fpga_controller M) V" "array_ok (fpga_controller M) V" "driver_ok V ?s" "flash_byte V (spi_chip ?s) = B"
    using assms(1) by (simp_all add: fpga_holds_def)
  obtain s where s: "FPGA_Flash_read (fpga_controller M) dest 0 n ?s = Some (True, map B [0..<unat n], s)" "quiet V ?s s"
    using FPGA_Flash_read_ok [OF m(1-3) assms(2,3), of 0] assms(4) m(4) by auto
  have "flash_byte V (spi_chip s) = flash_byte V (spi_chip ?s)" using s(2) by (simp add: quiet_def flash_byte_def fun_eq_iff)
  then have "fpga_holds M V B s" using m s(2) by (simp add: fpga_holds_def quiet_def)
  then show thesis using s(1) by (intro that) (simp_all add: HSS_FPGA_QSPIRead_def)
qed

lemma fpga_read_endless:
  assumes "fpga_holds M V B (fpga_state w)" and "dest \<noteq> 0" "unat dest + unat n < 2 ^ 64" "0x8000000 < unat n" "unat n < 2 ^ 63"
  shows "HSS_FPGA_QSPIRead M dest 0 n w = None"
  using assms FPGA_Flash_read_hangs [of "fpga_controller M" V "fpga_state w" dest n 0]
  by (simp add: HSS_FPGA_QSPIRead_def fpga_holds_def)

text \<open>Reading the header.\<close>

lemma fpga_header:
  assumes "fpga_holds M V B (fpga_state w)" and "bootImage w \<noteq> 0" "unat (bootImage w) + 1632 < 2 ^ 64"
  obtains w1 where "HSS_FPGA_QSPIRead M (bootImage w) 0 (of_nat IMG_SIZE) w = Some (True, w1)"
    "HSS_Boot_VerifyMagic (bootImage w1) w1 = known_magic B" "img_bootImageLength (mem w1) (bootImage w1) = hdr_length B"
    "fpga_holds M V B (fpga_state w1)" "bootImage w1 = bootImage w" "qspi_state w1 = qspi_state w"
    "length (perfCtrs w1) = length (perfCtrs w)"
proof -
  have n: "unat (of_nat IMG_SIZE :: u64) = 1632" by simp
  obtain s where s: "HSS_FPGA_QSPIRead M (bootImage w) 0 (of_nat IMG_SIZE) w
      = Some (True, w\<lparr>fpga_state := s, mem := put_bytes (bootImage w) (map B [0..<1632]) (mem w)\<rparr>)" "fpga_holds M V B s"
    by (rule fpga_read_holds [OF assms(1,2), where n = "of_nat IMG_SIZE", unfolded n]) (use assms(3) in simp_all)
  show thesis
    by (rule that [OF s(1)]) (use s(2) in \<open>simp_all add: img_length_put HSS_Boot_VerifyMagic_def known_magic_def img_magic_put\<close>)
qed

lemma fpga_refused:
  assumes "fpga_holds M V B (fpga_state w)" and "bootImage w \<noteq> 0" "unat (bootImage w) + 1632 < 2 ^ 64" and "\<not> known_magic B"
  obtains w1 where "getBootImageFromFPGAQSPI M w = Some (False, 0, w1)" "bootImage w1 = bootImage w" "qspi_state w1 = qspi_state w"
    "length (perfCtrs w1) = length (perfCtrs w)"
proof -
  obtain w1 where w1: "HSS_FPGA_QSPIRead M (bootImage w) 0 (of_nat IMG_SIZE) w = Some (True, w1)"
    "\<not> HSS_Boot_VerifyMagic (bootImage w1) w1" "bootImage w1 = bootImage w" "qspi_state w1 = qspi_state w"
    "length (perfCtrs w1) = length (perfCtrs w)"
    by (rule fpga_header [OF assms(1-3)]) (use assms(4) in blast)
  show thesis by (rule that [OF _ w1(3-5)]) (use w1(1,2) in \<open>simp add: getBootImageFromFPGAQSPI_def\<close>)
qed

lemma target_room:
  assumes "unat n \<le> 0x8000000"
  shows "CONFIG_SERVICE_BOOT_DDR_TARGET_ADDR \<noteq> 0" "unat CONFIG_SERVICE_BOOT_DDR_TARGET_ADDR + unat (n :: u64) < 2 ^ 64"
  using assms by simp_all

lemma fpga_loads:
  assumes "fpga_holds M V B (fpga_state w)" and "bootImage w \<noteq> 0" "unat (bootImage w) + 1632 < 2 ^ 64" and "known_magic B"
    and n: "unat (hdr_length B) \<le> 0x8000000"
  obtains w1 m where "getBootImageFromFPGAQSPI M w = Some (True, CONFIG_SERVICE_BOOT_DDR_TARGET_ADDR, w1)"
    "mem w1 = put_bytes CONFIG_SERVICE_BOOT_DDR_TARGET_ADDR (map B [0..<unat (hdr_length B)]) m"
    "length (perfCtrs w1) = length (perfCtrs w)" "qspi_state w1 = qspi_state w"
proof -
  obtain w1 where w1: "HSS_FPGA_QSPIRead M (bootImage w) 0 (of_nat IMG_SIZE) w = Some (True, w1)"
    "HSS_Boot_VerifyMagic (bootImage w1) w1" "img_bootImageLength (mem w1) (bootImage w1) = hdr_length B"
    "fpga_holds M V B (fpga_state w1)" "length (perfCtrs w1) = length (perfCtrs w)" "qspi_state w1 = qspi_state w"
    by (rule fpga_header [OF assms(1-3)]) (use assms(4) in blast)
  obtain b j w2 where w2: "HSS_PerfCtr_Allocate PERF_CTR_UNINITIALIZED (str_addr w1 ''Boot Image QSPI Copy'') w1 = (b, j, w2)"
    "perf_only w1 w2" "ctr_index (length (perfCtrs w1)) j" by (rule perf_allocate)
  note p2 = perf_only_fields [OF w2(2)]
  have h2: "fpga_holds M V B (fpga_state w2)" by (simp add: p2 w1(4))
  obtain s where s: "HSS_FPGA_QSPIRead M CONFIG_SERVICE_BOOT_DDR_TARGET_ADDR 0 (hdr_length B) w2
      = Some (True, w2\<lparr>fpga_state := s, mem := put_bytes CONFIG_SERVICE_BOOT_DDR_TARGET_ADDR (map B [0..<unat (hdr_length B)]) (mem w2)\<rparr>)"
    by (rule fpga_read_holds [OF h2 target_room [OF n] n])
  let ?w3 = "w2\<lparr>fpga_state := s, mem := put_bytes CONFIG_SERVICE_BOOT_DDR_TARGET_ADDR (map B [0..<unat (hdr_length B)]) (mem w2)\<rparr>"
  have "ctr_index (length (perfCtrs ?w3)) j" using w2(3) p2(8) by simp
  then obtain w4 where w4: "HSS_PerfCtr_Lap j ?w3 = Some w4" "perf_only ?w3 w4" by (rule perf_lap)
  have "getBootImageFromFPGAQSPI M w = Some (True, CONFIG_SERVICE_BOOT_DDR_TARGET_ADDR, w4)"
    using w1(1,2,3) w2(1) s w4(1) by (simp add: getBootImageFromFPGAQSPI_def p2)
  then show thesis
    by (rule that [where m = "mem w2"]) (use perf_only_fields [OF w4(2)] p2(3,8) w1(5,6) in simp_all)
qed

lemma fpga_endless:
  assumes "fpga_holds M V B (fpga_state w)" and "bootImage w \<noteq> 0" "unat (bootImage w) + 1632 < 2 ^ 64" and "known_magic B"
    and n: "0x8000000 < unat (hdr_length B)" "unat (hdr_length B) < 2 ^ 63"
  shows "getBootImageFromFPGAQSPI M w = None"
proof -
  obtain w1 where w1: "HSS_FPGA_QSPIRead M (bootImage w) 0 (of_nat IMG_SIZE) w = Some (True, w1)"
    "HSS_Boot_VerifyMagic (bootImage w1) w1" "img_bootImageLength (mem w1) (bootImage w1) = hdr_length B"
    "fpga_holds M V B (fpga_state w1)"
    by (rule fpga_header [OF assms(1-3)]) (use assms(4) in blast)
  obtain b j w2 where w2: "HSS_PerfCtr_Allocate PERF_CTR_UNINITIALIZED (str_addr w1 ''Boot Image QSPI Copy'') w1 = (b, j, w2)"
    "perf_only w1 w2" by (rule perf_allocate)
  note p2 = perf_only_fields [OF w2(2)]
  have h2: "fpga_holds M V B (fpga_state w2)" by (simp add: p2 w1(4))
  have "HSS_FPGA_QSPIRead M CONFIG_SERVICE_BOOT_DDR_TARGET_ADDR 0 (hdr_length B) w2 = None"
    by (rule fpga_read_endless [OF h2 _ _ n]) (use n(2) in simp_all)
  then show ?thesis using w1(1,2,3) w2(1) by (simp add: getBootImageFromFPGAQSPI_def p2)
qed

subsection \<open>The QSPI flash as a medium\<close>

text \<open>The provider initialised over a chip \<open>d\<close>.\<close>

definition qspi_holds :: "('d, 'f) media \<Rightarrow> 'd \<Rightarrow> 'd qspi \<Rightarrow> bool" where
  "qspi_holds M d q \<longleftrightarrow> chip q = d \<and> blockSize q = 0x20000
     \<and> logicalToPhysicalMap q = map of_nat (good_blocks (qspi_chip M) d 1024) @ replicate (1024 - length (good_blocks (qspi_chip M) d 1024)) 0
     \<and> blockCount q = of_nat (length (good_blocks (qspi_chip M) d 1024))"

lemma qspi_init_holds:
  assumes "\<not> qspiInitialized (qspi_state w)" and "nand_id (qspi_chip M) (chip (qspi_state w)) = 0xEFAA21"
  obtains q where "storage_init M QSPI w = Some (True, w\<lparr>qspi_state := q\<rparr>)" "qspi_holds M (chip (qspi_state w)) q"
proof -
  obtain q where q: "HSS_QSPIInit (qspi_chip M) (qspi_state w) = Some (True, q)" "qspi_holds M (chip (qspi_state w)) q"
    using QSPIInit_state [OF assms refl] by (elim exE) (simp add: qspi_holds_def)
  show thesis by (rule that [OF _ q(2)]) (simp add: storage_init_def HSS_CachedQSPIInit_def q(1))
qed

lemma qspi_read_holds:
  assumes q: "qspi_holds M d (qspi_state w)" and good: "\<not> bad_marker (qspi_chip M) d 0" and n: "unat n \<le> 0x8000000"
  shows "qspi_read_to M dest 0 n w = Some (True, w\<lparr>mem := put_bytes dest (map (chip_byte (qspi_chip M) d) [0..<unat n]) (mem w)\<rparr>)"
proof -
  have "HSS_QSPI_ReadBlock (qspi_chip M) (of_nat 0) (of_nat (unat n)) (qspi_state w)
      = Some (True, map (chip_byte (qspi_chip M) (chip (qspi_state w))) [0..<0 + unat n], qspi_state w)"
    using q good n by (intro read_with_table [where d = d and F = 1]) (simp_all add: qspi_holds_def)
  then show ?thesis using q by (simp add: qspi_read_to_def qspi_holds_def)
qed

lemma qspi_loads:
  assumes q: "qspi_holds M d (qspi_state w)" and good: "\<not> bad_marker (qspi_chip M) d 0" and B: "B = chip_byte (qspi_chip M) d"
    and img: "known_magic B" "unat (hdr_length B) \<le> 0x8000000"
  obtains w1 m where "getBootImageFromQSPI M w = Some (True, CONFIG_SERVICE_BOOT_DDR_TARGET_ADDR, w1)"
    "mem w1 = put_bytes CONFIG_SERVICE_BOOT_DDR_TARGET_ADDR (map B [0..<unat (hdr_length B)]) m"
    "length (perfCtrs w1) = length (perfCtrs w)"
proof -
  let ?w1 = "w\<lparr>mem := put_bytes (bootImage w) (map B [0..<1632]) (mem w)\<rparr>"
  have r1: "qspi_read_to M (bootImage w) 0 (of_nat IMG_SIZE) w = Some (True, ?w1)"
    using qspi_read_holds [OF q good, of "of_nat IMG_SIZE"] by (simp add: B)
  obtain b j w2 where w2: "HSS_PerfCtr_Allocate PERF_CTR_UNINITIALIZED (str_addr ?w1 ''Boot Image QSPI Copy'') ?w1 = (b, j, w2)"
    "perf_only ?w1 w2" "ctr_index (length (perfCtrs ?w1)) j" by (rule perf_allocate)
  note p2 = perf_only_fields [OF w2(2)]
  let ?w3 = "w2\<lparr>mem := put_bytes CONFIG_SERVICE_BOOT_DDR_TARGET_ADDR (map B [0..<unat (hdr_length B)]) (mem w2)\<rparr>"
  have q2: "qspi_holds M d (qspi_state w2)" using q by (simp add: p2)
  have r2: "qspi_read_to M CONFIG_SERVICE_BOOT_DDR_TARGET_ADDR 0 (hdr_length B) w2 = Some (True, ?w3)"
    using qspi_read_holds [OF q2 good img(2)] by (simp add: B)
  have "ctr_index (length (perfCtrs ?w3)) j" using w2(3) p2(8) by simp
  then obtain w4 where w4: "HSS_PerfCtr_Lap j ?w3 = Some w4" "perf_only ?w3 w4" by (rule perf_lap)
  have l: "img_bootImageLength (mem w2) (bootImage w2) = hdr_length B" by (simp add: p2 img_length_put)
  have v: "HSS_Boot_VerifyMagic (bootImage ?w1) ?w1"
    using img(1) by (simp add: HSS_Boot_VerifyMagic_def known_magic_def img_magic_put)
  have "getBootImageFromQSPI M w = Some (True, CONFIG_SERVICE_BOOT_DDR_TARGET_ADDR, w4)"
    unfolding getBootImageFromQSPI_def Let_def
    using r1 v w2(1) l r2 w4(1) by (simp add: copyBootImageToDDR_def split: prod.split)
  then show thesis
    by (rule that [where m = "mem w2"]) (use perf_only_fields [OF w4(2)] p2(8) in simp_all)
qed

subsection \<open>One medium, and the loop\<close>

lemma try_accepts:
  assumes "getBootImage M s w = Some (True, p, w1)" "p \<noteq> 0" "img_magic (mem w1) p \<noteq> mHSS_COMPRESSED_MAGIC"
  shows "tryBootFunction M s w = Some (True, (HSS_Register_Boot_Image p w1)\<lparr>active_slot := active_slot_of s\<rparr>)"
  using assms by (simp add: tryBootFunction_def)

lemma try_refuses:
  assumes "getBootImage M s w = Some (False, p, w1)"
  shows "tryBootFunction M s w = Some (False, HSS_Register_Boot_Image 0 w1)"
  using assms by (simp add: tryBootFunction_def)

lemma boot_start:
  assumes c: "transfers_ok (fpga_controller M) V" "array_ok (fpga_controller M) V" "ident_ok (fpga_controller M) V"
    and s: "fpga_state w = fnand_reset d" and w: "pDefaultStorage w = None"
  obtains j v where "fpga_holds M V (flash_byte V d) (fpga_state v)" "bootImage v = bootImage w" "qspi_state v = qspi_state w"
    "ctr_index (length (perfCtrs v)) j"
    "HSS_BootInit M w = Option.bind
       (Option.bind (tryBootFunction M FPGA_QSPI v) (\<lambda>(r, w2). if r then Some (True, w2) else try_storages M [QSPI, YMODEM_PAYLOAD] False w2))
       (\<lambda>(result, w2). map_option (Pair result) (HSS_PerfCtr_Lap j w2))"
proof -
  obtain b j w1 where w1: "HSS_PerfCtr_Allocate PERF_CTR_UNINITIALIZED (str_addr w ''Boot Image Init'') w = (b, j, w1)"
    "perf_only w w1" "ctr_index (length (perfCtrs w)) j" by (rule perf_allocate)
  note p1 = perf_only_fields [OF w1(2)]
  have "fpga_state w1 = fnand_reset d" using s p1(4) by simp
  then obtain s1 where s1: "storage_init M FPGA_QSPI w1 = Some (True, w1\<lparr>fpga_state := s1\<rparr>)" "fpga_holds M V (flash_byte V d) s1"
    by (rule fpga_init_holds [OF c]) (simp add: storage_init_def)
  have "HSS_BootInit M w = Option.bind (try_storages M pStorages True w1) (\<lambda>(result, w2). map_option (Pair result) (HSS_PerfCtr_Lap j w2))"
    using w1(1) p1(5) w by (auto simp: HSS_BootInit_def map_conv_bind_option intro!: bind_option_cong split: prod.splits)
  then show thesis
    by (intro that [of "w1\<lparr>fpga_state := s1\<rparr>" j]) (use s1 w1(3) p1 in \<open>simp_all add: pStorages_def cong: if_cong\<close>)
qed

text \<open>The end of a run whose medium was accepted.\<close>

lemma boot_end:
  assumes "ctr_index (length (perfCtrs w2)) j"
  obtains w3 where "Option.bind (Some (r, w2)) (\<lambda>(result, w2). map_option (Pair result) (HSS_PerfCtr_Lap j w2)) = Some (r, w3)"
    "perf_only w2 w3"
proof -
  obtain w3 where "HSS_PerfCtr_Lap j w2 = Some w3" "perf_only w2 w3" using assms by (rule perf_lap)
  then show thesis using that by simp
qed

text \<open>An image of the boot magic that was loaded.\<close>

definition booted :: "(nat \<Rightarrow> u8) \<Rightarrow> ('d, 'f, 'a) load_world_scheme \<Rightarrow> bool" where
  "booted B w \<longleftrightarrow> pBootImage w = CONFIG_SERVICE_BOOT_DDR_TARGET_ADDR
     \<and> (\<forall>i < unat (hdr_length B). mem w (CONFIG_SERVICE_BOOT_DDR_TARGET_ADDR + of_nat i) = B i)"

lemma try_boots:
  assumes g: "getBootImage M s w = Some (True, CONFIG_SERVICE_BOOT_DDR_TARGET_ADDR, w1)"
    and m: "mem w1 = put_bytes CONFIG_SERVICE_BOOT_DDR_TARGET_ADDR (map B [0..<unat (hdr_length B)]) m"
    and img: "hdr_magic B = mHSS_BOOT_MAGIC" "1632 \<le> unat (hdr_length B)" "unat (hdr_length B) \<le> 0x8000000"
  obtains w2 where "tryBootFunction M s w = Some (True, w2)" "booted B w2" "active_slot w2 = active_slot_of s"
    "length (perfCtrs w2) = length (perfCtrs w1)"
proof -
  let ?n = "unat (hdr_length B)" let ?t = "CONFIG_SERVICE_BOOT_DDR_TARGET_ADDR"
  have mg: "img_magic (mem w1) ?t = mHSS_BOOT_MAGIC" unfolding m using img by (simp add: img_magic_put)
  have t: "tryBootFunction M s w = Some (True, (HSS_Register_Boot_Image ?t w1)\<lparr>active_slot := active_slot_of s\<rparr>)"
    by (rule try_accepts [OF g]) (use mg in simp_all)
  have "mem w1 (?t + of_nat i) = B i" if "i < ?n" for i
    using that put_bytes_get [of i "map B [0..<?n]" ?t m] img(3) by (simp add: m)
  then show thesis by (intro that [OF t]) (simp_all add: HSS_Register_Boot_Image_def booted_def)
qed

lemma booted_perf: "perf_only w w' \<Longrightarrow> booted B w' = booted B w"
  by (auto simp: booted_def perf_only_def)

subsection \<open>What a start does\<close>

text \<open>
  Boot from the first medium.  The flash behind the FPGA is at its reset state, no medium
  was selected, and the flash starts with a header of the boot magic whose length is that of a
  header at least and that of the chip at most.  Then \<^verbatim>\<open>HSS_BootInit\<close> reports success, the
  registered image is the target address in DDR, the memory there holds the image byte for
  byte, and the active slot is b.
\<close>

theorem boot_from_fpga_flash:
  assumes c: "transfers_ok (fpga_controller M) V" "array_ok (fpga_controller M) V" "ident_ok (fpga_controller M) V"
    and s: "fpga_state w = fnand_reset d" and w: "pDefaultStorage w = None" "bootImage w \<noteq> 0" "unat (bootImage w) + 1632 < 2 ^ 64"
    and img: "hdr_magic (flash_byte V d) = mHSS_BOOT_MAGIC" "1632 \<le> unat (hdr_length (flash_byte V d))"
      "unat (hdr_length (flash_byte V d)) \<le> 0x8000000"
  shows "\<exists>w'. HSS_BootInit M w = Some (True, w') \<and> pBootImage w' = CONFIG_SERVICE_BOOT_DDR_TARGET_ADDR
    \<and> (\<forall>i < unat (hdr_length (flash_byte V d)). mem w' (CONFIG_SERVICE_BOOT_DDR_TARGET_ADDR + of_nat i) = flash_byte V d i)
    \<and> active_slot w' = 0x62"
proof -
  obtain j v where v: "fpga_holds M V (flash_byte V d) (fpga_state v)" "bootImage v = bootImage w" "ctr_index (length (perfCtrs v)) j"
    "HSS_BootInit M w = Option.bind
       (Option.bind (tryBootFunction M FPGA_QSPI v) (\<lambda>(r, w2). if r then Some (True, w2) else try_storages M [QSPI, YMODEM_PAYLOAD] False w2))
       (\<lambda>(result, w2). map_option (Pair result) (HSS_PerfCtr_Lap j w2))"
    by (rule boot_start [OF c s w(1)])
  have k: "known_magic (flash_byte V d)" using img(1) by (simp add: known_magic_def)
  obtain w1 m where w1: "getBootImage M FPGA_QSPI v = Some (True, CONFIG_SERVICE_BOOT_DDR_TARGET_ADDR, w1)"
    "mem w1 = put_bytes CONFIG_SERVICE_BOOT_DDR_TARGET_ADDR (map (flash_byte V d) [0..<unat (hdr_length (flash_byte V d))]) m"
    "length (perfCtrs w1) = length (perfCtrs v)"
    by (rule fpga_loads [OF v(1) _ _ k img(3)]) (use w(2,3) v(2) in \<open>simp_all add: getBootImage_def\<close>)
  obtain w2 where w2: "tryBootFunction M FPGA_QSPI v = Some (True, w2)" "booted (flash_byte V d) w2" "active_slot w2 = active_slot_of FPGA_QSPI"
    "length (perfCtrs w2) = length (perfCtrs w1)"
    by (rule try_boots [OF w1(1,2) img])
  have "ctr_index (length (perfCtrs w2)) j" using v(3) w1(3) w2(4) by simp
  then obtain w3 where w3: "Option.bind (Some (True, w2)) (\<lambda>(result, w2). map_option (Pair result) (HSS_PerfCtr_Lap j w2)) = Some (True, w3)"
    "perf_only w2 w3" by (rule boot_end)
  have "HSS_BootInit M w = Some (True, w3)" using v(4) w2(1) w3(1) by simp
  moreover have "booted (flash_byte V d) w3" using w2(2) booted_perf [OF w3(2)] by simp
  moreover have "active_slot w3 = 0x62" using w2(3) perf_only_fields [OF w3(2)] by (simp add: active_slot_of_def)
  ultimately show ?thesis by (auto simp: booted_def)
qed

text \<open>
  C36. The length of the header is trusted.  If the flash behind the FPGA starts with a header of
  known magic whose length field is larger than the chip, \<^verbatim>\<open>HSS_BootInit\<close> never returns: the second
  medium, whatever it holds, is not tried.
\<close>

theorem boot_hangs_on_length:
  assumes c: "transfers_ok (fpga_controller M) V" "array_ok (fpga_controller M) V" "ident_ok (fpga_controller M) V"
    and s: "fpga_state w = fnand_reset d" and w: "pDefaultStorage w = None" "bootImage w \<noteq> 0" "unat (bootImage w) + 1632 < 2 ^ 64"
    and img: "known_magic (flash_byte V d)" "0x8000000 < unat (hdr_length (flash_byte V d))" "unat (hdr_length (flash_byte V d)) < 2 ^ 63"
  shows "HSS_BootInit M w = None"
proof -
  obtain j v where v: "fpga_holds M V (flash_byte V d) (fpga_state v)" "bootImage v = bootImage w"
    "HSS_BootInit M w = Option.bind
       (Option.bind (tryBootFunction M FPGA_QSPI v) (\<lambda>(r, w2). if r then Some (True, w2) else try_storages M [QSPI, YMODEM_PAYLOAD] False w2))
       (\<lambda>(result, w2). map_option (Pair result) (HSS_PerfCtr_Lap j w2))"
    by (rule boot_start [OF c s w(1)])
  have "getBootImage M FPGA_QSPI v = None"
    using fpga_endless [OF v(1) _ _ img] w(2,3) v(2) by (simp add: getBootImage_def)
  then show ?thesis using v(3) by (simp add: tryBootFunction_def)
qed

text \<open>
  C7. Fallback.  If the flash behind the FPGA does not start with a known magic, and the QSPI
  flash (identified, first block good) starts with a boot header of sound length, then
  \<^verbatim>\<open>HSS_BootInit\<close> loads the image from the QSPI flash and the active slot is a.
\<close>

theorem boot_falls_back_to_qspi:
  assumes c: "transfers_ok (fpga_controller M) V" "array_ok (fpga_controller M) V" "ident_ok (fpga_controller M) V"
    and s: "fpga_state w = fnand_reset d" and w: "pDefaultStorage w = None" "bootImage w \<noteq> 0" "unat (bootImage w) + 1632 < 2 ^ 64"
    and first: "\<not> known_magic (flash_byte V d)"
    and q: "\<not> qspiInitialized (qspi_state w)" "nand_id (qspi_chip M) (chip (qspi_state w)) = 0xEFAA21"
      "\<not> bad_marker (qspi_chip M) (chip (qspi_state w)) 0" and B: "B = chip_byte (qspi_chip M) (chip (qspi_state w))"
    and img: "hdr_magic B = mHSS_BOOT_MAGIC" "1632 \<le> unat (hdr_length B)" "unat (hdr_length B) \<le> 0x8000000"
  shows "\<exists>w'. HSS_BootInit M w = Some (True, w') \<and> pBootImage w' = CONFIG_SERVICE_BOOT_DDR_TARGET_ADDR
    \<and> (\<forall>i < unat (hdr_length B). mem w' (CONFIG_SERVICE_BOOT_DDR_TARGET_ADDR + of_nat i) = B i) \<and> active_slot w' = 0x61"
proof -
  obtain j v where v: "fpga_holds M V (flash_byte V d) (fpga_state v)" "bootImage v = bootImage w" "qspi_state v = qspi_state w"
    "ctr_index (length (perfCtrs v)) j"
    "HSS_BootInit M w = Option.bind
       (Option.bind (tryBootFunction M FPGA_QSPI v) (\<lambda>(r, w2). if r then Some (True, w2) else try_storages M [QSPI, YMODEM_PAYLOAD] False w2))
       (\<lambda>(result, w2). map_option (Pair result) (HSS_PerfCtr_Lap j w2))"
    by (rule boot_start [OF c s w(1)])
  obtain w1 where w1: "getBootImage M FPGA_QSPI v = Some (False, 0, w1)" "qspi_state w1 = qspi_state w" "length (perfCtrs w1) = length (perfCtrs v)"
    by (rule fpga_refused [OF v(1) _ _ first]) (use w(2,3) v(2,3) in \<open>simp_all add: getBootImage_def\<close>)
  let ?w2 = "HSS_Register_Boot_Image 0 w1"
  have q2: "qspi_state ?w2 = qspi_state w" using w1(2) by (simp add: HSS_Register_Boot_Image_def)
  obtain q1 where q1: "storage_init M QSPI ?w2 = Some (True, ?w2\<lparr>qspi_state := q1\<rparr>)" "qspi_holds M (chip (qspi_state w)) q1"
    by (rule qspi_init_holds [of ?w2 M]) (use q(1,2) q2 in simp_all)
  have h: "qspi_holds M (chip (qspi_state w)) (qspi_state (?w2\<lparr>qspi_state := q1\<rparr>))" using q1(2) by simp
  have k: "known_magic B" using img(1) by (simp add: known_magic_def)
  obtain w3 m where w3: "getBootImage M QSPI (?w2\<lparr>qspi_state := q1\<rparr>) = Some (True, CONFIG_SERVICE_BOOT_DDR_TARGET_ADDR, w3)"
    "mem w3 = put_bytes CONFIG_SERVICE_BOOT_DDR_TARGET_ADDR (map B [0..<unat (hdr_length B)]) m" "length (perfCtrs w3) = length (perfCtrs ?w2)"
    by (rule qspi_loads [OF h q(3) B k img(3)]) (simp_all add: getBootImage_def)
  obtain w4 where w4: "tryBootFunction M QSPI (?w2\<lparr>qspi_state := q1\<rparr>) = Some (True, w4)" "booted B w4" "active_slot w4 = active_slot_of QSPI"
    "length (perfCtrs w4) = length (perfCtrs w3)"
    by (rule try_boots [OF w3(1,2) img])
  have "ctr_index (length (perfCtrs w4)) j" using v(4) w1(3) w3(3) w4(4) by (simp add: HSS_Register_Boot_Image_def)
  then obtain w5 where w5: "Option.bind (Some (True, w4)) (\<lambda>(result, w2). map_option (Pair result) (HSS_PerfCtr_Lap j w2)) = Some (True, w5)"
    "perf_only w4 w5" by (rule boot_end)
  have "HSS_BootInit M w = Some (True, w5)"
    using v(5) try_refuses [OF w1(1)] q1(1) w4(1) w5(1) by simp
  moreover have "booted B w5" using w4(2) booted_perf [OF w5(2)] by simp
  moreover have "active_slot w5 = 0x61" using w4(3) perf_only_fields [OF w5(2)] by (simp add: active_slot_of_def)
  ultimately show ?thesis by (auto simp: booted_def)
qed

text \<open>
  C37. A compressed image with a damaged header is a success without an image.  If the flash behind
  the FPGA starts with the magic of a compressed image whose header does not match its
  checksum, \<^verbatim>\<open>HSS_BootInit\<close> reports success, registers the null pointer as the image, and tries
  no other medium.
\<close>

theorem boot_accepts_damaged_compressed:
  assumes c: "transfers_ok (fpga_controller M) V" "array_ok (fpga_controller M) V" "ident_ok (fpga_controller M) V"
    and s: "fpga_state w = fnand_reset d" and w: "pDefaultStorage w = None" "bootImage w \<noteq> 0" "unat (bootImage w) + 1632 < 2 ^ 64"
    and img: "hdr_magic (flash_byte V d) = mHSS_COMPRESSED_MAGIC" "112 \<le> unat (hdr_length (flash_byte V d))"
      "unat (hdr_length (flash_byte V d)) \<le> 0x8000000"
    and crc: "le_word (map (flash_byte V d) [16..<20])
      \<noteq> CRC32_calculate True (map (\<lambda>i. if 16 \<le> i \<and> i < 20 then 0 else flash_byte V d i) [0..<112])"
  shows "\<exists>w'. HSS_BootInit M w = Some (True, w') \<and> pBootImage w' = 0 \<and> qspi_state w' = qspi_state w"
proof -
  let ?B = "flash_byte V d" let ?t = "CONFIG_SERVICE_BOOT_DDR_TARGET_ADDR" let ?n = "unat (hdr_length (flash_byte V d))"
  obtain j v where v: "fpga_holds M V ?B (fpga_state v)" "bootImage v = bootImage w" "qspi_state v = qspi_state w" "ctr_index (length (perfCtrs v)) j"
    "HSS_BootInit M w = Option.bind
       (Option.bind (tryBootFunction M FPGA_QSPI v) (\<lambda>(r, w2). if r then Some (True, w2) else try_storages M [QSPI, YMODEM_PAYLOAD] False w2))
       (\<lambda>(result, w2). map_option (Pair result) (HSS_PerfCtr_Lap j w2))"
    by (rule boot_start [OF c s w(1)])
  have k: "known_magic ?B" using img(1) by (simp add: known_magic_def)
  obtain w1 m where w1: "getBootImage M FPGA_QSPI v = Some (True, ?t, w1)" "mem w1 = put_bytes ?t (map ?B [0..<?n]) m"
    "length (perfCtrs w1) = length (perfCtrs v)" "qspi_state w1 = qspi_state v"
    by (rule fpga_loads [OF v(1) _ _ k img(3)]) (use w(2,3) v(2) in \<open>simp_all add: getBootImage_def\<close>)
  have mg: "img_magic (mem w1) ?t = mHSS_COMPRESSED_MAGIC" unfolding w1(2) using img by (simp add: img_magic_put)
  have cr: "cimg_headerCrc (mem w1) ?t = le_word (map ?B [16..<20])"
    unfolding w1(2) cimg_headerCrc_def rd32_def using rd_put_map [of 16 4 ?n ?t ?B m] img(2,3) by simp
  have hd: "compressedImageHdr (mem w1) ?t = map (\<lambda>i. if 16 \<le> i \<and> i < 20 then 0 else ?B i) [0..<112]"
    unfolding compressedImageHdr_def w1(2)
    by (rule map_cong [OF refl]) (use put_bytes_get [of _ "map ?B [0..<?n]" ?t m] img(2,3) in auto)
  let ?w2 = "(HSS_Register_Boot_Image 0 w1)\<lparr>active_slot := active_slot_of FPGA_QSPI\<rparr>"
  have t: "tryBootFunction M FPGA_QSPI v = Some (True, ?w2)"
    using w1(1) mg crc by (simp add: tryBootFunction_def HSS_Decompress_def cr hd)
  have "ctr_index (length (perfCtrs ?w2)) j" using v(4) w1(3) by (simp add: HSS_Register_Boot_Image_def)
  then obtain w3 where w3: "Option.bind (Some (True, ?w2)) (\<lambda>(result, w2). map_option (Pair result) (HSS_PerfCtr_Lap j w2)) = Some (True, w3)"
    "perf_only ?w2 w3" by (rule boot_end)
  have "HSS_BootInit M w = Some (True, w3)" using v(5) t w3(1) by simp
  then show ?thesis using perf_only_fields [OF w3(2)] w1(4) v(3) by (simp add: HSS_Register_Boot_Image_def)
qed

subsection \<open>Media to try things on\<close>

text \<open>A medium that starts with a given magic, byte 16 and length, and is zero elsewhere.\<close>

definition demo_medium :: "u8 list \<Rightarrow> u8 \<Rightarrow> u8 list \<Rightarrow> nat \<Rightarrow> u8" where
  "demo_medium magic k len x =
     (if x < 4 then magic ! x else if x = 16 then k else if 1480 \<le> x \<and> x < 1488 then len ! (x - 1480) else 0)"

definition demo_media :: "((nat \<Rightarrow> nat \<Rightarrow> u8), w25n) media" where
  "demo_media = \<lparr> qspi_chip = array_nand, fpga_controller = w25n_controller, mz_uncompress = \<lambda>dst cap src n m. (0, 0, m) \<rparr>"

definition demo_start ::
    "(nat \<Rightarrow> u8) \<Rightarrow> (nat \<Rightarrow> u8) \<Rightarrow> ((nat \<Rightarrow> nat \<Rightarrow> u8), w25n) load_world \<Rightarrow> ((nat \<Rightarrow> nat \<Rightarrow> u8), w25n) load_world" where
  "demo_start A B w = w\<lparr>pDefaultStorage := None, bootImage := 0x80000000,
     fpga_state := fnand_reset (w25n_with (\<lambda>r i. A (r * 2048 + i))), qspi_state := fresh_qspi (\<lambda>p i. if i < 2048 then B (p * 2048 + i) else 0xFF)\<rparr>"

abbreviation (input) boot_magic_bytes :: "u8 list" where "boot_magic_bytes \<equiv> [0xDE, 0xC0, 0x07, 0xB0]"
abbreviation (input) compressed_magic_bytes :: "u8 list" where "compressed_magic_bytes \<equiv> [0x55, 0x83, 0x8B, 0xC0]"

lemma demo_fpga_byte: "flash_byte w25n_view (w25n_with (\<lambda>r i. A (r * 2048 + i))) = A"
  by (simp add: flash_byte_def w25n_view_def w25n_with_def fun_eq_iff)

lemma demo_qspi_byte: "chip_byte array_nand (\<lambda>p i. if i < 2048 then B (p * 2048 + i) else 0xFF) = B"
  by (simp add: chip_byte_def array_nand_def fun_eq_iff)

lemma demo_ok:
  "transfers_ok (fpga_controller demo_media) w25n_view" "array_ok (fpga_controller demo_media) w25n_view"
  "ident_ok (fpga_controller demo_media) w25n_view" "fpga_state (demo_start A B w) = fnand_reset (w25n_with (\<lambda>r i. A (r * 2048 + i)))"
  "pDefaultStorage (demo_start A B w) = None" "bootImage (demo_start A B w) \<noteq> 0" "unat (bootImage (demo_start A B w)) + 1632 < 2 ^ 64"
  "\<not> qspiInitialized (qspi_state (demo_start A B w))" "nand_id (qspi_chip demo_media) (chip (qspi_state (demo_start A B w))) = 0xEFAA21"
  "\<not> bad_marker (qspi_chip demo_media) (chip (qspi_state (demo_start A B w))) 0"
  "chip_byte (qspi_chip demo_media) (chip (qspi_state (demo_start A B w))) = B"
  by (simp_all add: demo_media_def demo_start_def w25n_transfers w25n_array w25n_ident fresh_qspi_def array_nand_def bad_marker_def
    demo_qspi_byte [unfolded array_nand_def])

lemma upt_parts: "[0..<4] = [0, 1, 2, 3 :: nat]" "[1480..<1488] = [1480, 1481, 1482, 1483, 1484, 1485, 1486, 1487 :: nat]"
  "[16..<20] = [16, 17, 18, 19 :: nat]"
  by (simp_all add: upt_rec)

lemma magic_words: "le_word boot_magic_bytes = (mHSS_BOOT_MAGIC :: u32)" "le_word compressed_magic_bytes = (mHSS_COMPRESSED_MAGIC :: u32)"
  "le_word [0, 0, 0, 0] = (0 :: u32)" "le_word [0x60, 6, 0, 0, 0, 0, 0, 0] = (1632 :: u64)"
  "le_word [0, 0, 0, 9, 0, 0, 0, 0] = (0x9000000 :: u64)" "le_word [k, 0, 0, 0] = (ucast (k :: u8) :: u32)"
  by simp_all

lemma demo_medium_header:
  "hdr_magic (demo_medium boot_magic_bytes k l) = mHSS_BOOT_MAGIC"
  "hdr_magic (demo_medium compressed_magic_bytes k l) = mHSS_COMPRESSED_MAGIC"
  "hdr_magic (demo_medium [0, 0, 0, 0] k l) = 0"
  "hdr_length (demo_medium m k [0x60, 6, 0, 0, 0, 0, 0, 0]) = 1632"
  "hdr_length (demo_medium m k [0, 0, 0, 9, 0, 0, 0, 0]) = 0x9000000"
  "le_word (map (demo_medium m k l) [16..<20]) = (ucast k :: u32)"
  by (simp_all add: hdr_magic_def hdr_length_def upt_parts demo_medium_def magic_words del: le_word.simps)

abbreviation (input) demo_image_medium :: "nat \<Rightarrow> u8" where
  "demo_image_medium \<equiv> demo_medium boot_magic_bytes 0 [0x60, 6, 0, 0, 0, 0, 0, 0]"

theorem boot_from_fpga_flash_witness:
  "\<forall>w. \<exists>w'. HSS_BootInit demo_media (demo_start demo_image_medium (\<lambda>x. 0) w) = Some (True, w')
    \<and> pBootImage w' = 0x103FC00000 \<and> mem w' (0x103FC00000 + of_nat 3) = 0xB0 \<and> active_slot w' = 0x62"
proof
  fix w
  have h: "hdr_magic demo_image_medium = mHSS_BOOT_MAGIC" "1632 \<le> unat (hdr_length demo_image_medium)"
    "unat (hdr_length demo_image_medium) \<le> 0x8000000" "3 < unat (hdr_length demo_image_medium)"
    by (simp_all add: demo_medium_header)
  have b: "demo_image_medium 3 = 0xB0" by (simp add: demo_medium_def)
  show "\<exists>w'. HSS_BootInit demo_media (demo_start demo_image_medium (\<lambda>x. 0) w) = Some (True, w')
      \<and> pBootImage w' = 0x103FC00000 \<and> mem w' (0x103FC00000 + of_nat 3) = 0xB0 \<and> active_slot w' = 0x62"
    using boot_from_fpga_flash [OF demo_ok(1-7), unfolded demo_fpga_byte, OF h(1-3), of "\<lambda>x. 0" w] h(4) b by metis
qed

theorem boot_hangs_on_length_witness:
  "\<forall>w. HSS_BootInit demo_media (demo_start (demo_medium boot_magic_bytes 0 [0, 0, 0, 9, 0, 0, 0, 0]) demo_image_medium w) = None"
proof
  fix w
  let ?A = "demo_medium boot_magic_bytes 0 [0, 0, 0, 9, 0, 0, 0, 0]"
  have h: "known_magic ?A" "0x8000000 < unat (hdr_length ?A)" "unat (hdr_length ?A) < 2 ^ 63"
    by (simp_all add: known_magic_def demo_medium_header)
  show "HSS_BootInit demo_media (demo_start ?A demo_image_medium w) = None"
    by (rule boot_hangs_on_length [OF demo_ok(1-7), unfolded demo_fpga_byte, OF h])
qed

theorem boot_falls_back_to_qspi_witness:
  "\<forall>w. \<exists>w'. HSS_BootInit demo_media (demo_start (\<lambda>x. 0) demo_image_medium w) = Some (True, w')
    \<and> pBootImage w' = 0x103FC00000 \<and> mem w' (0x103FC00000 + of_nat 3) = 0xB0 \<and> active_slot w' = 0x61"
proof
  fix w
  have h: "hdr_magic demo_image_medium = mHSS_BOOT_MAGIC" "1632 \<le> unat (hdr_length demo_image_medium)"
    "unat (hdr_length demo_image_medium) \<le> 0x8000000" "3 < unat (hdr_length demo_image_medium)"
    by (simp_all add: demo_medium_header)
  have b: "demo_image_medium 3 = 0xB0" by (simp add: demo_medium_def)
  have n: "\<not> known_magic (\<lambda>x. 0)" by (simp add: known_magic_def hdr_magic_def upt_parts magic_words(3))
  show "\<exists>w'. HSS_BootInit demo_media (demo_start (\<lambda>x. 0) demo_image_medium w) = Some (True, w')
      \<and> pBootImage w' = 0x103FC00000 \<and> mem w' (0x103FC00000 + of_nat 3) = 0xB0 \<and> active_slot w' = 0x61"
    using boot_falls_back_to_qspi [OF demo_ok(1-7), unfolded demo_fpga_byte, OF n demo_ok(8-10), OF demo_ok(11) [symmetric] h(1-3), of w] h(4) b
    by metis
qed

theorem boot_accepts_damaged_compressed_witness:
  "\<exists>k. \<forall>w. \<exists>w'. HSS_BootInit demo_media
      (demo_start (demo_medium compressed_magic_bytes k [0x60, 6, 0, 0, 0, 0, 0, 0]) demo_image_medium w) = Some (True, w') \<and> pBootImage w' = 0"
proof -
  let ?A = "\<lambda>k. demo_medium compressed_magic_bytes k [0x60, 6, 0, 0, 0, 0, 0, 0]"
  let ?h = "\<lambda>k. map (\<lambda>i. if 16 \<le> i \<and> i < 20 then 0 else ?A k i) [0..<112]"
  have same: "?h 1 = ?h 0" by (rule map_cong [OF refl]) (simp add: demo_medium_def)
  obtain k :: u8 where k: "le_word (map (?A k) [16..<20]) \<noteq> CRC32_calculate True (?h k)"
  proof (cases "CRC32_calculate True (?h 0) = 0")
    case True
    then show thesis using that [of 1] unfolding same demo_medium_header by simp
  next
    case False
    then show thesis using that [of 0] unfolding demo_medium_header by simp
  qed
  have h: "hdr_magic (?A k) = mHSS_COMPRESSED_MAGIC" "112 \<le> unat (hdr_length (?A k))" "unat (hdr_length (?A k)) \<le> 0x8000000"
    by (simp_all add: demo_medium_header)
  have "\<exists>w'. HSS_BootInit demo_media (demo_start (?A k) demo_image_medium w) = Some (True, w') \<and> pBootImage w' = 0" for w
    using boot_accepts_damaged_compressed [OF demo_ok(1-7), unfolded demo_fpga_byte, OF h k] by blast
  then show ?thesis by blast
qed

end
