(* ===== verification/HSS_Payload.thy ===== *)
theory HSS_Payload
  imports HSS_BootInit
begin

text \<open>
  The payload generator, the host tool that makes the boot image which the monitor loads:
  tools/hss-payload-generator/generate_payload.c, blob_handler.c and elf_parser.c.  Sizes and
  positions of a file are natural numbers (a file does not reach 2^63 bytes); fields of the
  image have their width.  Padding inside a structure is zero.  What the library libelf finds in
  an ELF file (program headers, sections and their contents), and what OpenSSL returns for a
  digest and a signature, are arguments.  The program ends on errors of the file system, which
  are left out.  \<open>None\<close> is a failed assertion or an access through a null pointer.
\<close>

subsection \<open>The image as structures and as bytes (include/hss_types.h)\<close>

record boot_hart =
  bh_entryPoint :: u64
  bh_privMode :: u8
  bh_flags :: u8
  bh_numChunks :: u64
  bh_firstChunk :: u64
  bh_lastChunk :: u64
  bh_name :: "u8 list"

record boot_image =
  bi_magic :: u32
  bi_version :: u32
  bi_headerLength :: u64
  bi_headerCrc :: u32
  bi_chunkTableOffset :: u64
  bi_ziChunkTableOffset :: u64
  bi_hart :: "boot_hart list"
  bi_set_name :: "u8 list"
  bi_bootImageLength :: u64
  bi_digest :: "u8 list"
  bi_ecdsaSig :: "u8 list"

record chunk_desc =
  cd_owner :: u32
  cd_loadAddr :: u64
  cd_execAddr :: u64
  cd_size :: u64
  cd_crc32 :: u32

record zi_desc =
  zd_owner :: u32
  zd_execAddr :: u64
  zd_size :: u64

definition le_bytes :: "nat \<Rightarrow> 'a::len word \<Rightarrow> u8 list" where
  "le_bytes n x = map (\<lambda>i. ucast (drop_bit (8 * i) x)) [0..<n]"

definition hart_bytes :: "boot_hart \<Rightarrow> u8 list" where
  "hart_bytes h = le_bytes 8 (bh_entryPoint h) @ [bh_privMode h, bh_flags h] @ replicate 6 0
     @ le_bytes 8 (bh_numChunks h) @ le_bytes 8 (bh_firstChunk h) @ le_bytes 8 (bh_lastChunk h) @ bh_name h"

definition header_bytes :: "boot_image \<Rightarrow> u8 list" where
  "header_bytes b = le_bytes 4 (bi_magic b) @ le_bytes 4 (bi_version b) @ le_bytes 8 (bi_headerLength b)
     @ le_bytes 4 (bi_headerCrc b) @ replicate 4 0 @ le_bytes 8 (bi_chunkTableOffset b) @ le_bytes 8 (bi_ziChunkTableOffset b)
     @ concat (map hart_bytes (bi_hart b)) @ bi_set_name b @ le_bytes 8 (bi_bootImageLength b) @ bi_digest b @ bi_ecdsaSig b"

definition chunk_bytes :: "chunk_desc \<Rightarrow> u8 list" where
  "chunk_bytes c = le_bytes 4 (cd_owner c) @ replicate 4 0 @ le_bytes 8 (cd_loadAddr c) @ le_bytes 8 (cd_execAddr c)
     @ le_bytes 8 (cd_size c) @ le_bytes 4 (cd_crc32 c) @ replicate 4 0"

definition zi_bytes :: "zi_desc \<Rightarrow> u8 list" where
  "zi_bytes z = le_bytes 4 (zd_owner z) @ replicate 4 0 @ le_bytes 8 (zd_execAddr z) @ le_bytes 8 (zd_size z)"

abbreviation (input) SIZEOF_CHUNK :: nat where "SIZEOF_CHUNK \<equiv> 40"
abbreviation (input) SIZEOF_ZI :: nat where "SIZEOF_ZI \<equiv> 24"
abbreviation (input) PAD_SIZE :: nat where "PAD_SIZE \<equiv> 8"

subsection \<open>State of the generator\<close>

text \<open>
  The tables grow by \<^verbatim>\<open>realloc\<close>; the counters of generate_payload.c are their lengths.
  blob_handler.c and elf_parser.c each keep a counter of their own, set from the result of
  their last call.  The output file has contents and a position.
\<close>

record payload_gen =
  boot_img :: boot_image
  chunkTable :: "(chunk_desc \<times> u8 list) list"
  ziChunkTable :: "zi_desc list"
  blob_numChunks :: u64
  elf_numChunks :: u64
  elf_numZIChunks :: u64
  out_file :: "u8 list"
  out_pos :: nat
  bootImagePaddedSize :: nat
  chunkTablePaddedSize :: nat
  ziChunkTablePaddedSize :: nat

definition mHSS_BOOT_VERSION :: u32 where "mHSS_BOOT_VERSION = 1"

definition generate_init :: "payload_gen \<Rightarrow> payload_gen" where
  "generate_init g = g\<lparr>boot_img := (boot_img g)\<lparr>bi_magic := mHSS_BOOT_MAGIC, bi_version := mHSS_BOOT_VERSION\<rparr>\<rparr>"

definition generate_add_chunk :: "chunk_desc \<Rightarrow> u8 list \<Rightarrow> payload_gen \<Rightarrow> u64 \<times> payload_gen" where
  "generate_add_chunk chunk pBuffer g =
     (let g1 = (if cd_size chunk \<noteq> 0 then g\<lparr>chunkTable := chunkTable g @ [(chunk, pBuffer)]\<rparr> else g)
      in (of_nat (length (chunkTable g1)), g1))"

definition generate_add_ziChunk :: "zi_desc \<Rightarrow> payload_gen \<Rightarrow> u64 \<times> payload_gen" where
  "generate_add_ziChunk ziChunk g =
     (let g1 = g\<lparr>ziChunkTable := ziChunkTable g @ [ziChunk]\<rparr> in (of_nat (length (ziChunkTable g1)), g1))"

subsection \<open>Writing the file (generate_payload.c)\<close>

definition fwrite :: "u8 list \<Rightarrow> payload_gen \<Rightarrow> payload_gen" where
  "fwrite bs g = g\<lparr>out_file := take (out_pos g) (out_file g) @ bs @ drop (out_pos g + length bs) (out_file g),
     out_pos := out_pos g + length bs\<rparr>"

definition calculate_padding :: "nat \<Rightarrow> nat \<Rightarrow> nat" where
  "calculate_padding n pad = (n + (pad - 1)) div pad * pad - n"

definition write_pad :: "nat \<Rightarrow> payload_gen \<Rightarrow> payload_gen" where
  "write_pad pad g = fwrite (replicate pad 0) g"

definition generate_header :: "boot_image \<Rightarrow> payload_gen \<Rightarrow> payload_gen" where
  "generate_header b g =
     (let g1 = fwrite (header_bytes b) (g\<lparr>out_pos := 0\<rparr>);
          g2 = write_pad (calculate_padding IMG_SIZE PAD_SIZE) g1
      in g2\<lparr>bootImagePaddedSize := out_pos g2\<rparr>)"

text \<open>
  The offset of a blob: what lies before all blobs is \<open>base\<close>, and the blobs so far take
  \<open>cumulativeBlobSize\<close>.  The table keeps the offsets.
\<close>

fun write_chunks :: "nat \<Rightarrow> nat \<Rightarrow> (chunk_desc \<times> u8 list) list \<Rightarrow> payload_gen \<Rightarrow> (chunk_desc \<times> u8 list) list \<times> payload_gen" where
  "write_chunks base cumulativeBlobSize [] g = ([], g)"
| "write_chunks base cumulativeBlobSize ((c, b) # cs) g =
     (let c1 = c\<lparr>cd_loadAddr := of_nat (base + cumulativeBlobSize + calculate_padding cumulativeBlobSize PAD_SIZE)\<rparr>;
          n = unat (cd_size c1);
          r = write_chunks base (cumulativeBlobSize + n + calculate_padding n PAD_SIZE) cs (fwrite (chunk_bytes c1) g)
      in ((c1, b) # fst r, snd r))"

abbreviation (input) no_chunk :: chunk_desc where
  "no_chunk \<equiv> \<lparr> cd_owner = 0, cd_loadAddr = 0, cd_execAddr = 0, cd_size = 0, cd_crc32 = 0 \<rparr>"

abbreviation (input) no_zi :: zi_desc where
  "no_zi \<equiv> \<lparr> zd_owner = 0, zd_execAddr = 0, zd_size = 0 \<rparr>"

definition generate_chunks :: "payload_gen \<Rightarrow> payload_gen option" where
  "generate_chunks g = do {
     let offset = out_pos g;
     let numChunks = length (chunkTable g);
     let numZIChunks = length (ziChunkTable g);
     assert_c (offset = IMG_SIZE + calculate_padding IMG_SIZE PAD_SIZE);
     let g1 = g\<lparr>boot_img := (boot_img g)\<lparr>bi_chunkTableOffset := of_nat offset\<rparr>\<rparr>;
     let base = offset + numChunks * SIZEOF_CHUNK + SIZEOF_CHUNK + calculate_padding (SIZEOF_CHUNK * (numChunks + 1)) PAD_SIZE
       + numZIChunks * SIZEOF_ZI + SIZEOF_ZI + calculate_padding (SIZEOF_ZI * (numZIChunks + 1)) PAD_SIZE;
     let (table, g2) = write_chunks base 0 (chunkTable g1) g1;
     let g3 = write_pad (calculate_padding (SIZEOF_CHUNK * (numChunks + 1)) PAD_SIZE) (fwrite (chunk_bytes no_chunk) (g2\<lparr>chunkTable := table\<rparr>));
     Some (g3\<lparr>chunkTablePaddedSize := out_pos g3 - offset\<rparr>)
   }"

definition generate_ziChunks :: "payload_gen \<Rightarrow> payload_gen option" where
  "generate_ziChunks g = do {
     let offset = out_pos g;
     let numChunks = length (chunkTable g);
     let numZIChunks = length (ziChunkTable g);
     assert_c (offset = unat (bi_chunkTableOffset (boot_img g)) + numChunks * SIZEOF_CHUNK + SIZEOF_CHUNK
       + calculate_padding (SIZEOF_CHUNK * (numChunks + 1)) PAD_SIZE);
     let g1 = g\<lparr>boot_img := (boot_img g)\<lparr>bi_ziChunkTableOffset := of_nat offset\<rparr>\<rparr>;
     let g2 = foldl (\<lambda>g z. fwrite (zi_bytes z) g) g1 (ziChunkTable g1);
     let g3 = write_pad (calculate_padding (SIZEOF_ZI * (numZIChunks + 1)) PAD_SIZE) (fwrite (zi_bytes no_zi) g2);
     Some (g3\<lparr>ziChunkTablePaddedSize := out_pos g3 - offset\<rparr>)
   }"

text \<open>\<^verbatim>\<open>chunkTable[0]\<close> is read without a look at the number of chunks.\<close>

definition write_blob :: "payload_gen \<Rightarrow> chunk_desc \<times> u8 list \<Rightarrow> payload_gen" where
  "write_blob g = (\<lambda>(c, b). write_pad (calculate_padding (unat (cd_size c)) PAD_SIZE) (fwrite (take (unat (cd_size c)) b) g))"

definition generate_blobs :: "payload_gen \<Rightarrow> payload_gen option" where
  "generate_blobs g = do {
     let numZIChunks = length (ziChunkTable g);
     assert_c (chunkTable g \<noteq> []);
     assert_c (unat (cd_loadAddr (fst (chunkTable g ! 0))) = unat (bi_ziChunkTableOffset (boot_img g)) + numZIChunks * SIZEOF_ZI
       + SIZEOF_ZI + calculate_padding (SIZEOF_ZI * (numZIChunks + 1)) PAD_SIZE);
     Some (foldl write_blob g (chunkTable g))
   }"

text \<open>The signature of the whole file, if there is a private key; the header is written once more.\<close>

definition sign_payload :: "(u8 list \<Rightarrow> u8 list \<times> u8 list) option \<Rightarrow> payload_gen \<Rightarrow> payload_gen option" where
  "sign_payload key g =
     (case key of
        None \<Rightarrow> Some g
      | Some sign \<Rightarrow> do {
          assert_c (unat (bi_bootImageLength (boot_img g)) \<le> length (out_file g));
          let (digest, rs) = sign (take (unat (bi_bootImageLength (boot_img g))) (out_file g));
          assert_c (length digest = 48 \<and> length rs = 96);
          let g1 = g\<lparr>boot_img := (boot_img g)\<lparr>bi_digest := digest, bi_ecdsaSig := rs\<rparr>\<rparr>;
          Some (generate_header (boot_img g1) g1)
        })"

definition generate_payload :: "(u8 list \<Rightarrow> u8 list \<times> u8 list) option \<Rightarrow> payload_gen \<Rightarrow> payload_gen option" where
  "generate_payload key g = do {
     let g0 = g\<lparr>out_file := [], out_pos := 0\<rparr>;
     g1 \<leftarrow> generate_chunks (generate_header (boot_img g0) g0);
     g2 \<leftarrow> generate_ziChunks g1;
     let g3 = g2\<lparr>boot_img := (boot_img g2)\<lparr>bi_headerLength := of_nat (out_pos g2)\<rparr>\<rparr>;
     assert_c (out_pos g2 = bootImagePaddedSize g2 + chunkTablePaddedSize g2 + ziChunkTablePaddedSize g2);
     g4 \<leftarrow> generate_blobs g3;
     let g5 = g4\<lparr>boot_img := (boot_img g4)\<lparr>bi_bootImageLength := of_nat (out_pos g4)\<rparr>\<rparr>;
     let g6 = g5\<lparr>boot_img := (boot_img g5)\<lparr>bi_headerCrc := CRC32_calculate True (header_bytes (boot_img g5))\<rparr>\<rparr>;
     sign_payload key (generate_header (boot_img g6) g6)
   }"

subsection \<open>Adding a binary (blob_handler.c)\<close>

definition hart_update :: "nat \<Rightarrow> (boot_hart \<Rightarrow> boot_hart) \<Rightarrow> payload_gen \<Rightarrow> payload_gen" where
  "hart_update owner f g =
     g\<lparr>boot_img := (boot_img g)\<lparr>bi_hart := (bi_hart (boot_img g))[owner - 1 := f (bi_hart (boot_img g) ! (owner - 1))]\<rparr>\<rparr>"

definition process_blob :: "u8 list \<Rightarrow> u64 \<Rightarrow> nat \<Rightarrow> bool \<Rightarrow> payload_gen \<Rightarrow> payload_gen" where
  "process_blob pBuffer exec_addr owner is_ancilliary_data g =
     (let chunk = \<lparr> cd_owner = of_nat owner OR (if is_ancilliary_data then 0x80 else 0), cd_loadAddr = 0, cd_execAddr = exec_addr,
                    cd_size = of_nat (length pBuffer), cd_crc32 = CRC32_calculate True pBuffer \<rparr>
      in case generate_add_chunk chunk pBuffer g of (n, g1) \<Rightarrow> g1\<lparr>blob_numChunks := n\<rparr>)"

definition count_blob :: "nat \<Rightarrow> payload_gen \<Rightarrow> payload_gen" where
  "count_blob owner g = hart_update owner (\<lambda>h. h\<lparr>bh_lastChunk := blob_numChunks g - 1, bh_numChunks := bh_numChunks h + 1\<rparr>) g"

text \<open>The contents of the file, and those of the second one if there is ancillary data.\<close>

definition blob_handler :: "u8 list \<Rightarrow> u64 \<Rightarrow> nat \<Rightarrow> u8 list option \<Rightarrow> payload_gen \<Rightarrow> payload_gen" where
  "blob_handler contents exec_addr owner ancilliary g =
     (let g1 = (if bh_firstChunk (bi_hart (boot_img g) ! (owner - 1)) = 0
                then hart_update owner (\<lambda>h. h\<lparr>bh_firstChunk := blob_numChunks g\<rparr>) g else g);
          g2 = count_blob owner (process_blob contents exec_addr owner False g1)
      in case ancilliary of
           None \<Rightarrow> g2
         | Some contents2 \<Rightarrow> count_blob owner (process_blob contents2 (exec_addr + of_nat (length contents)) owner True g2))"

subsection \<open>Adding an ELF file (elf_parser.c)\<close>

record elf_ehdr =
  e_machine :: u16
  e_type :: u16

record elf_phdr =
  p_type :: u32
  p_vaddr :: u64
  p_memsz :: u64

text \<open>\<open>sh_data\<close> is what \<^verbatim>\<open>elf_getdata\<close> finds.\<close>

record elf_shdr =
  sh_type :: u32
  sh_addr :: u64
  sh_size :: u64
  sh_data :: "u8 list option"

abbreviation (input) EM_RISCV :: u16 where "EM_RISCV \<equiv> 243"
abbreviation (input) ET_EXEC :: u16 where "ET_EXEC \<equiv> 2"
abbreviation (input) PT_LOAD :: u32 where "PT_LOAD \<equiv> 1"
abbreviation (input) SHT_NOBITS :: u32 where "SHT_NOBITS \<equiv> 8"

definition is_section_in_segment :: "elf_shdr \<Rightarrow> elf_phdr \<Rightarrow> bool" where
  "is_section_in_segment pShdr pPhdr \<longleftrightarrow>
     sh_addr pShdr \<ge> p_vaddr pPhdr \<and> sh_addr pShdr + sh_size pShdr \<le> p_vaddr pPhdr + p_memsz pPhdr"

definition process_section :: "elf_phdr \<Rightarrow> nat \<Rightarrow> elf_shdr \<Rightarrow> payload_gen \<Rightarrow> payload_gen option" where
  "process_section pPhdr owner shdr g =
     (if \<not> is_section_in_segment shdr pPhdr \<or> p_type pPhdr \<noteq> PT_LOAD then Some g
      else if sh_type shdr \<noteq> SHT_NOBITS then
        (case sh_data shdr of
           None \<Rightarrow> Some g
         | Some pBuffer \<Rightarrow> do {
             assert_c (unat (sh_size shdr) = length pBuffer);
             let chunk = \<lparr> cd_owner = of_nat owner, cd_loadAddr = 0, cd_execAddr = sh_addr shdr, cd_size = of_nat (length pBuffer),
                           cd_crc32 = CRC32_calculate True pBuffer \<rparr>;
             Some (case generate_add_chunk chunk pBuffer g of (n, g1) \<Rightarrow> g1\<lparr>elf_numChunks := n\<rparr>)
           })
      else Some (case generate_add_ziChunk \<lparr> zd_owner = of_nat owner, zd_execAddr = sh_addr shdr, zd_size = sh_size shdr \<rparr> g of
             (n, g1) \<Rightarrow> g1\<lparr>elf_numZIChunks := n\<rparr>))"

fun process_sections_in_segment :: "elf_phdr \<Rightarrow> nat \<Rightarrow> elf_shdr list \<Rightarrow> payload_gen \<Rightarrow> payload_gen option" where
  "process_sections_in_segment pPhdr owner [] g = Some g"
| "process_sections_in_segment pPhdr owner (s # ss) g =
     Option.bind (process_section pPhdr owner s g) (process_sections_in_segment pPhdr owner ss)"

fun process_program_headers :: "elf_phdr list \<Rightarrow> elf_shdr list \<Rightarrow> nat \<Rightarrow> payload_gen \<Rightarrow> payload_gen option" where
  "process_program_headers [] shdrs owner g = Some g"
| "process_program_headers (p # ps) shdrs owner g =
     Option.bind (process_sections_in_segment p owner shdrs g) (process_program_headers ps shdrs owner)"

text \<open>A file for another machine, or one that is not an executable, ends the program.\<close>

definition parse_elf_program_headers ::
    "elf_ehdr \<Rightarrow> elf_phdr list \<Rightarrow> elf_shdr list \<Rightarrow> nat \<Rightarrow> payload_gen \<Rightarrow> payload_gen option" where
  "parse_elf_program_headers ehdr phdrs shdrs owner g = do {
     assert_c (e_machine ehdr = EM_RISCV);
     assert_c (e_type ehdr = ET_EXEC);
     process_program_headers phdrs shdrs owner g
   }"

text \<open>\<open>None\<close> for the file means that it is not an ELF object.\<close>

definition elf_parser :: "(elf_ehdr \<times> elf_phdr list \<times> elf_shdr list) option \<Rightarrow> nat \<Rightarrow> payload_gen \<Rightarrow> (bool \<times> payload_gen) option" where
  "elf_parser file owner g =
     (let g1 = (if bh_firstChunk (bi_hart (boot_img g) ! (owner - 1)) = 0
                then hart_update owner (\<lambda>h. h\<lparr>bh_firstChunk := elf_numChunks g\<rparr>) g else g)
      in case file of
           None \<Rightarrow> Some (False, g1)
         | Some (ehdr, phdrs, shdrs) \<Rightarrow> do {
             g2 \<leftarrow> parse_elf_program_headers ehdr phdrs shdrs owner g1;
             Some (True, hart_update owner (\<lambda>h. h\<lparr>bh_lastChunk := elf_numChunks g2 - 1,
                bh_numChunks := (elf_numChunks g2 - 1) - bh_firstChunk h + 1\<rparr>) g2)
           })"

subsection \<open>Structures as bytes\<close>

lemma length_le_bytes [simp]: "length (le_bytes n x) = n"
  by (simp add: le_bytes_def)

lemma le_word_le_bytes: "le_word (le_bytes n x) = take_bit (8 * n) (x :: 'a::len word)"
proof (induction n arbitrary: x)
  case 0
  show ?case by (simp add: le_bytes_def)
next
  case (Suc n)
  have "[0..<Suc n] = 0 # map Suc [0..<n]" by (simp add: upt_conv_Cons map_Suc_upt)
  then have "le_bytes (Suc n) x = ucast x # le_bytes n (drop_bit 8 x)"
    by (simp add: le_bytes_def o_def add.commute)
  then have "le_word (le_bytes (Suc n) x) = ucast (ucast x :: u8) OR push_bit 8 (take_bit (8 * n) (drop_bit 8 x))"
    by (simp add: Suc.IH)
  also have "\<dots> = take_bit (8 * Suc n) x"
    by (rule bit_word_eqI) (auto simp: bit_simps)
  finally show ?case .
qed

lemma le_word_4 [simp]: "le_word (le_bytes 4 x) = (x :: u32)" and le_word_8 [simp]: "le_word (le_bytes 8 y) = (y :: u64)"
  using le_word_le_bytes [of 4 x] le_word_le_bytes [of 8 y] by (simp_all add: take_bit_word_eq_self)

definition hart_ok :: "boot_hart \<Rightarrow> bool" where
  "hart_ok h \<longleftrightarrow> length (bh_name h) = 256"

definition image_ok :: "boot_image \<Rightarrow> bool" where
  "image_ok b \<longleftrightarrow> length (bi_hart b) = 4 \<and> list_all hart_ok (bi_hart b) \<and> length (bi_set_name b) = 256
     \<and> length (bi_digest b) = 48 \<and> length (bi_ecdsaSig b) = 96"

lemma length_hart_bytes: "hart_ok h \<Longrightarrow> length (hart_bytes h) = 296"
  by (simp add: hart_bytes_def hart_ok_def)

lemma length_concat_harts: "list_all hart_ok hs \<Longrightarrow> length (concat (map hart_bytes hs)) = 296 * length hs"
  by (induction hs) (auto simp: length_hart_bytes)

lemma length_header_bytes: "image_ok b \<Longrightarrow> length (header_bytes b) = 1632"
  by (simp add: header_bytes_def image_ok_def length_concat_harts)

lemma length_chunk_bytes [simp]: "length (chunk_bytes c) = 40"
  by (simp add: chunk_bytes_def)

lemma length_zi_bytes [simp]: "length (zi_bytes z) = 24"
  by (simp add: zi_bytes_def)

text \<open>A field in the middle of a structure.\<close>

lemma field_at: "length a = k \<Longrightarrow> length f = n \<Longrightarrow> take n (drop k (a @ f @ b)) = f"
  by simp

text \<open>The parts of the header around the checksum and the signature.\<close>

definition header_front :: "boot_image \<Rightarrow> u8 list" where
  "header_front b = le_bytes 4 (bi_magic b) @ le_bytes 4 (bi_version b) @ le_bytes 8 (bi_headerLength b)"

definition header_rest :: "boot_image \<Rightarrow> u8 list" where
  "header_rest b = replicate 4 0 @ le_bytes 8 (bi_chunkTableOffset b) @ le_bytes 8 (bi_ziChunkTableOffset b)
     @ concat (map hart_bytes (bi_hart b)) @ bi_set_name b @ le_bytes 8 (bi_bootImageLength b)"

lemma header_split: "header_bytes b = header_front b @ le_bytes 4 (bi_headerCrc b) @ header_rest b @ bi_digest b @ bi_ecdsaSig b"
  by (simp add: header_bytes_def header_front_def header_rest_def)

lemma header_parts_length: "length (header_front b) = 16" "image_ok b \<Longrightarrow> length (header_rest b) = 1468"
  by (simp_all add: header_front_def header_rest_def image_ok_def length_concat_harts)

lemma header_parts_update:
  "header_front (b\<lparr>bi_headerCrc := x\<rparr>) = header_front b" "header_rest (b\<lparr>bi_headerCrc := x\<rparr>) = header_rest b"
  "header_front (b\<lparr>bi_digest := d, bi_ecdsaSig := s\<rparr>) = header_front b" "header_rest (b\<lparr>bi_digest := d, bi_ecdsaSig := s\<rparr>) = header_rest b"
  by (simp_all add: header_front_def header_rest_def)

text \<open>The fields of a header that are read back.\<close>

lemma hart_offset:
  assumes "image_ok b" "k < 4"
  shows "take 296 (drop (40 + 296 * k) (header_bytes b)) = hart_bytes (bi_hart b ! k)"
proof -
  have c: "concat (map hart_bytes (bi_hart b)) = concat (map hart_bytes (take k (bi_hart b))) @ hart_bytes (bi_hart b ! k)
      @ concat (map hart_bytes (drop (Suc k) (bi_hart b)))"
    using assms by (subst id_take_nth_drop [of k "bi_hart b"]) (simp_all add: image_ok_def)
  have l: "length (concat (map hart_bytes (take k (bi_hart b)))) = 296 * k"
    using assms by (subst length_concat_harts) (auto simp: image_ok_def list_all_iff dest: in_set_takeD)
  have h: "length (hart_bytes (bi_hart b ! k)) = 296"
    using assms by (intro length_hart_bytes) (simp add: image_ok_def list_all_length)
  show ?thesis by (simp add: header_bytes_def c l h)
qed

subsection \<open>The file that is written\<close>

text \<open>A file that is only appended to.\<close>

definition put_end :: "u8 list \<Rightarrow> payload_gen \<Rightarrow> payload_gen" where
  "put_end bs g = g\<lparr>out_file := out_file g @ bs, out_pos := length (out_file g @ bs)\<rparr>"

definition at_end :: "payload_gen \<Rightarrow> bool" where
  "at_end g \<longleftrightarrow> out_pos g = length (out_file g)"

lemma fwrite_end: "at_end g \<Longrightarrow> fwrite bs g = put_end bs g"
  by (simp add: at_end_def fwrite_def put_end_def)

lemma at_end_put [simp]: "at_end (put_end bs g)"
  by (simp add: at_end_def put_end_def)

lemma put_end_twice: "put_end ys (put_end xs g) = put_end (xs @ ys) g"
  by (simp add: put_end_def)

lemma put_end_Nil: "at_end g \<Longrightarrow> put_end [] g = g"
  by (simp add: put_end_def at_end_def)

lemma padding_multiple [simp]: "calculate_padding (40 * n) 8 = 0" "calculate_padding (24 * n) 8 = 0"
  "calculate_padding 1632 8 = 0" "calculate_padding 0 8 = 0"
proof -
  have "(8 * k + 7) div 8 * 8 = 8 * (k :: nat)" for k
  proof -
    have "(8 * k + 7) div 8 = k" by presburger
    then show ?thesis by simp
  qed
  from this [of "5 * n"] this [of "3 * n"] show "calculate_padding (40 * n) 8 = 0" "calculate_padding (24 * n) 8 = 0"
    by (simp_all add: calculate_padding_def)
qed (simp_all add: calculate_padding_def)

lemma padding_dvd: "8 dvd n + calculate_padding n 8" and padding_of_dvd: "8 dvd n \<Longrightarrow> calculate_padding n 8 = 0"
proof -
  have "n \<le> (n + 7) div 8 * 8" by presburger
  then have "n + calculate_padding n 8 = (n + 7) div 8 * 8" by (simp add: calculate_padding_def)
  then show "8 dvd n + calculate_padding n 8" by simp
  show "calculate_padding n 8 = 0" if d: "8 dvd n"
  proof -
    obtain k where n: "n = 8 * k" using d by blast
    have "(8 * k + 7) div 8 = k" by presburger
    then show ?thesis by (simp add: calculate_padding_def n)
  qed
qed

text \<open>A blob with its padding, and the table with the offsets of the blobs from \<open>a\<close> on.\<close>

definition padded :: "u8 list \<Rightarrow> u8 list" where
  "padded b = b @ replicate (calculate_padding (length b) 8) 0"

fun place :: "nat \<Rightarrow> (chunk_desc \<times> u8 list) list \<Rightarrow> (chunk_desc \<times> u8 list) list" where
  "place a [] = []"
| "place a ((c, b) # cs) = (c\<lparr>cd_loadAddr := of_nat a\<rparr>, b) # place (a + length (padded b)) cs"

definition chunk_ok :: "chunk_desc \<times> u8 list \<Rightarrow> bool" where
  "chunk_ok cb \<longleftrightarrow> snd cb \<noteq> [] \<and> unat (cd_size (fst cb)) = length (snd cb)"

lemma place_simps [simp]: "length (place a cs) = length cs" "map snd (place a cs) = map snd cs" "place a cs = [] \<longleftrightarrow> cs = []"
  by (induction a cs rule: place.induct) auto

lemma place_ok: "list_all chunk_ok cs \<Longrightarrow> list_all chunk_ok (place a cs)"
  by (induction a cs rule: place.induct) (auto simp: chunk_ok_def)

definition table_bytes :: "(chunk_desc \<times> u8 list) list \<Rightarrow> u8 list" where
  "table_bytes cs = concat (map (chunk_bytes \<circ> fst) cs)"

definition zi_table_bytes :: "zi_desc list \<Rightarrow> u8 list" where
  "zi_table_bytes zs = concat (map zi_bytes zs)"

definition blob_bytes :: "(chunk_desc \<times> u8 list) list \<Rightarrow> u8 list" where
  "blob_bytes cs = concat (map (padded \<circ> snd) cs)"

lemma length_tables [simp]: "length (table_bytes cs) = 40 * length cs" "length (zi_table_bytes zs) = 24 * length zs"
proof -
  show "length (table_bytes cs) = 40 * length cs" by (induction cs) (simp_all add: table_bytes_def)
  show "length (zi_table_bytes zs) = 24 * length zs" by (induction zs) (simp_all add: zi_table_bytes_def)
qed

lemma blob_bytes_place [simp]: "blob_bytes (place a cs) = blob_bytes cs"
  by (induction a cs rule: place.induct) (simp_all add: blob_bytes_def)

lemma length_padded: "length (padded b) = length b + calculate_padding (length b) 8"
  by (simp add: padded_def)

lemma write_chunks_file:
  assumes "list_all chunk_ok cs" "at_end g" "8 dvd cum"
  shows "write_chunks base cum cs g = (place (base + cum) cs, put_end (table_bytes (place (base + cum) cs)) g)"
  using assms
proof (induction base cum cs g rule: write_chunks.induct)
  case (1 base cum g)
  then show ?case by (simp add: table_bytes_def put_end_Nil)
next
  case (2 base cum c b cs g)
  let ?c = "c\<lparr>cd_loadAddr := of_nat (base + cum)\<rparr>"
  have n: "unat (cd_size c) = length b" using 2(2) by (simp add: chunk_ok_def)
  have p: "calculate_padding cum 8 = 0" using 2(4) by (rule padding_of_dvd)
  have "8 dvd cum + (length b + calculate_padding (length b) 8)" using 2(4) padding_dvd by (rule dvd_add)
  then have IH: "write_chunks base (cum + length b + calculate_padding (length b) 8) cs (put_end (chunk_bytes ?c) g)
      = (place (base + (cum + length b + calculate_padding (length b) 8)) cs,
         put_end (table_bytes (place (base + (cum + length b + calculate_padding (length b) 8)) cs)) (put_end (chunk_bytes ?c) g))"
    using 2(1) [of ?c "length b"] 2(2,3) n p by (simp add: fwrite_end add.assoc)
  have "write_chunks base cum ((c, b) # cs) g
      = (let r = write_chunks base (cum + length b + calculate_padding (length b) 8) cs (put_end (chunk_bytes ?c) g) in ((?c, b) # fst r, snd r))"
    using 2(3) by (simp add: Let_def n p fwrite_end)
  then show ?case unfolding IH by (simp add: length_padded put_end_twice table_bytes_def add.assoc)
qed

lemma write_zi_file: "at_end g \<Longrightarrow> foldl (\<lambda>g z. fwrite (zi_bytes z) g) g zs = put_end (zi_table_bytes zs) g"
  by (induction zs arbitrary: g) (simp_all add: zi_table_bytes_def put_end_Nil fwrite_end put_end_twice)

lemma write_blob_file: "list_all chunk_ok cs \<Longrightarrow> at_end g \<Longrightarrow> foldl write_blob g cs = put_end (blob_bytes cs) g"
  by (induction cs arbitrary: g)
    (auto simp: blob_bytes_def put_end_Nil write_blob_def write_pad_def fwrite_end put_end_twice padded_def chunk_ok_def)

lemma put_end_fields [simp]:
  "out_file (put_end bs g) = out_file g @ bs" "out_pos (put_end bs g) = length (out_file g) + length bs"
  "boot_img (put_end bs g) = boot_img g" "chunkTable (put_end bs g) = chunkTable g" "ziChunkTable (put_end bs g) = ziChunkTable g"
  "bootImagePaddedSize (put_end bs g) = bootImagePaddedSize g" "chunkTablePaddedSize (put_end bs g) = chunkTablePaddedSize g"
  "ziChunkTablePaddedSize (put_end bs g) = ziChunkTablePaddedSize g"
  by (simp_all add: put_end_def)

lemma at_end_updates [simp]:
  "at_end (g\<lparr>boot_img := b\<rparr>) = at_end g" "at_end (g\<lparr>chunkTable := t\<rparr>) = at_end g" "at_end (g\<lparr>chunkTablePaddedSize := x\<rparr>) = at_end g"
  "at_end (g\<lparr>ziChunkTablePaddedSize := x\<rparr>) = at_end g" "at_end (g\<lparr>bootImagePaddedSize := x\<rparr>) = at_end g"
  by (simp_all add: at_end_def)

lemma write_pad_0 [simp]: "write_pad 0 g = g"
  by (simp add: write_pad_def fwrite_def)

lemma generate_header_start:
  assumes "image_ok b" "out_file g = []"
  shows "generate_header b g = (put_end (header_bytes b) g)\<lparr>bootImagePaddedSize := 1632\<rparr>"
  using assms by (simp add: generate_header_def fwrite_def put_end_def length_header_bytes Let_def)

lemma generate_header_again:
  assumes "image_ok b" "1632 \<le> length (out_file g)"
  shows "out_file (generate_header b g) = header_bytes b @ drop 1632 (out_file g)" "boot_img (generate_header b g) = boot_img g"
  using assms by (simp_all add: generate_header_def fwrite_def length_header_bytes Let_def)

lemma generate_chunks_file:
  assumes "at_end g" "out_pos g = 1632" "list_all chunk_ok (chunkTable g)"
    and H: "H = 1632 + 40 * (length (chunkTable g) + 1) + 24 * (length (ziChunkTable g) + 1)"
  obtains g' where "generate_chunks g = Some g'" "at_end g'"
    "out_file g' = out_file g @ table_bytes (place H (chunkTable g)) @ chunk_bytes no_chunk"
    "chunkTable g' = place H (chunkTable g)" "ziChunkTable g' = ziChunkTable g" "boot_img g' = (boot_img g)\<lparr>bi_chunkTableOffset := 1632\<rparr>"
    "bootImagePaddedSize g' = bootImagePaddedSize g" "chunkTablePaddedSize g' = 40 * (length (chunkTable g) + 1)"
proof -
  let ?n = "length (chunkTable g)" let ?m = "length (ziChunkTable g)"
  have base: "1632 + ?n * 40 + 40 + calculate_padding (40 * (?n + 1)) 8 + ?m * 24 + 24 + calculate_padding (24 * (?m + 1)) 8 = H"
    unfolding padding_multiple by (simp add: H)
  let ?g1 = "g\<lparr>boot_img := (boot_img g)\<lparr>bi_chunkTableOffset := 1632\<rparr>\<rparr>"
  have w: "write_chunks H 0 (chunkTable ?g1) ?g1 = (place H (chunkTable g), put_end (table_bytes (place H (chunkTable g))) ?g1)"
    using write_chunks_file [of "chunkTable g" ?g1 0 H] assms(1,3) by simp
  have l: "length (out_file g) = 1632" using assms(1,2) by (simp add: at_end_def)
  show thesis
    by (rule that [of "(put_end (chunk_bytes no_chunk) ((put_end (table_bytes (place H (chunkTable g))) ?g1)\<lparr>chunkTable := place H (chunkTable g)\<rparr>))
        \<lparr>chunkTablePaddedSize := 40 * (?n + 1)\<rparr>"])
      (use base w l assms(2) in \<open>simp_all add: generate_chunks_def Let_def fwrite_end padding_multiple(1) [of "Suc ?n", simplified]\<close>)
qed

lemma generate_ziChunks_file:
  assumes "at_end g" "out_pos g = 1632 + 40 * (length (chunkTable g) + 1)" "bi_chunkTableOffset (boot_img g) = 1632"
  obtains g' where "generate_ziChunks g = Some g'" "at_end g'"
    "out_file g' = out_file g @ zi_table_bytes (ziChunkTable g) @ zi_bytes no_zi"
    "chunkTable g' = chunkTable g" "ziChunkTable g' = ziChunkTable g"
    "boot_img g' = (boot_img g)\<lparr>bi_ziChunkTableOffset := of_nat (1632 + 40 * (length (chunkTable g) + 1))\<rparr>"
    "bootImagePaddedSize g' = bootImagePaddedSize g" "chunkTablePaddedSize g' = chunkTablePaddedSize g"
    "ziChunkTablePaddedSize g' = 24 * (length (ziChunkTable g) + 1)"
proof -
  let ?n = "length (chunkTable g)" let ?m = "length (ziChunkTable g)"
  let ?g1 = "g\<lparr>boot_img := (boot_img g)\<lparr>bi_ziChunkTableOffset := of_nat (1632 + 40 * (?n + 1))\<rparr>\<rparr>"
  have w: "foldl (\<lambda>g z. fwrite (zi_bytes z) g) ?g1 (ziChunkTable g) = put_end (zi_table_bytes (ziChunkTable g)) ?g1"
    using assms(1) by (intro write_zi_file) simp
  have l: "length (out_file g) = 1632 + 40 * (?n + 1)" using assms(1,2) by (simp add: at_end_def)
  have a: "out_pos g = unat (bi_chunkTableOffset (boot_img g)) + ?n * 40 + 40 + calculate_padding (40 * (?n + 1)) 8"
    unfolding padding_multiple by (simp add: assms(2,3))
  show thesis
    by (rule that [of "(put_end (zi_bytes no_zi) (put_end (zi_table_bytes (ziChunkTable g)) ?g1))\<lparr>ziChunkTablePaddedSize := 24 * (?m + 1)\<rparr>"])
      (use a w l assms(2) in \<open>simp_all add: generate_ziChunks_def Let_def fwrite_end padding_multiple(2) [of "Suc ?m", simplified]\<close>)
qed

lemma generate_blobs_file:
  assumes "at_end g" "chunkTable g = place H cs" "cs \<noteq> []" "list_all chunk_ok cs" "H < 2 ^ 64"
    and "unat (bi_ziChunkTableOffset (boot_img g)) + 24 * (length (ziChunkTable g) + 1) = H"
  shows "generate_blobs g = Some (put_end (blob_bytes cs) g)"
proof -
  obtain c b cs' where cs: "cs = (c, b) # cs'" using assms(3) by (cases cs) auto
  have h: "unat (cd_loadAddr (fst (place H cs ! 0))) = H" using assms(5) by (simp add: cs unat_of_nat_small)
  have w: "foldl write_blob g (place H cs) = put_end (blob_bytes cs) g"
    using write_blob_file [OF place_ok [OF assms(4)] assms(1), of H] by simp
  have p: "calculate_padding (24 * (length (ziChunkTable g) + 1)) 8 = 0" by (rule padding_multiple)
  show ?thesis
    using assms(3,6) h w p unfolding generate_blobs_def Let_def assms(2) by (simp add: mult.commute add.assoc)
qed

text \<open>Where the second table and the blobs start, and how long the file is.\<close>

definition zi_offset :: "payload_gen \<Rightarrow> nat" where
  "zi_offset g = 1632 + 40 * (length (chunkTable g) + 1)"

definition blob_offset :: "payload_gen \<Rightarrow> nat" where
  "blob_offset g = zi_offset g + 24 * (length (ziChunkTable g) + 1)"

definition payload_length :: "payload_gen \<Rightarrow> nat" where
  "payload_length g = blob_offset g + length (blob_bytes (chunkTable g))"

definition payload_tail :: "payload_gen \<Rightarrow> u8 list" where
  "payload_tail g = table_bytes (place (blob_offset g) (chunkTable g)) @ chunk_bytes no_chunk
     @ zi_table_bytes (ziChunkTable g) @ zi_bytes no_zi @ blob_bytes (chunkTable g)"

definition sized_image :: "payload_gen \<Rightarrow> boot_image" where
  "sized_image g = (boot_img g)\<lparr>bi_chunkTableOffset := 1632, bi_ziChunkTableOffset := of_nat (zi_offset g),
     bi_headerLength := of_nat (blob_offset g), bi_bootImageLength := of_nat (payload_length g)\<rparr>"

definition sealed_image :: "payload_gen \<Rightarrow> boot_image" where
  "sealed_image g = (sized_image g)\<lparr>bi_headerCrc := CRC32_calculate True (header_bytes (sized_image g))\<rparr>"

definition signed_image :: "(u8 list \<Rightarrow> u8 list \<times> u8 list) option \<Rightarrow> payload_gen \<Rightarrow> boot_image" where
  "signed_image key g =
     (case key of
        None \<Rightarrow> sealed_image g
      | Some sign \<Rightarrow> (case sign (header_bytes (sealed_image g) @ payload_tail g) of
          (d, s) \<Rightarrow> (sealed_image g)\<lparr>bi_digest := d, bi_ecdsaSig := s\<rparr>))"

definition gen_ok :: "payload_gen \<Rightarrow> bool" where
  "gen_ok g \<longleftrightarrow> image_ok (boot_img g) \<and> list_all chunk_ok (chunkTable g) \<and> chunkTable g \<noteq> [] \<and> payload_length g < 2 ^ 64"

definition key_ok :: "(u8 list \<Rightarrow> u8 list \<times> u8 list) option \<Rightarrow> bool" where
  "key_ok key \<longleftrightarrow> (\<forall>sign. key = Some sign \<longrightarrow> (\<forall>bs. length (fst (sign bs)) = 48 \<and> length (snd (sign bs)) = 96))"

lemma image_ok_updates:
  "image_ok (b\<lparr>bi_chunkTableOffset := x\<rparr>) = image_ok b" "image_ok (b\<lparr>bi_ziChunkTableOffset := x\<rparr>) = image_ok b"
  "image_ok (b\<lparr>bi_headerLength := x\<rparr>) = image_ok b" "image_ok (b\<lparr>bi_bootImageLength := x\<rparr>) = image_ok b"
  "image_ok (b\<lparr>bi_headerCrc := y\<rparr>) = image_ok b"
  by (simp_all add: image_ok_def)

lemma image_ok_sealed: "image_ok (boot_img g) \<Longrightarrow> image_ok (sized_image g) \<and> image_ok (sealed_image g)"
  by (simp add: sized_image_def sealed_image_def image_ok_updates)

lemma image_ok_signed: "image_ok (boot_img g) \<Longrightarrow> key_ok key \<Longrightarrow> image_ok (signed_image key g)"
  using image_ok_sealed [of g]
  by (auto simp: signed_image_def key_ok_def image_ok_def split: option.split prod.split) (metis fst_conv snd_conv)+

lemma payload_tail_length: "1632 + length (payload_tail g) = payload_length g"
  by (simp add: payload_tail_def payload_length_def blob_offset_def zi_offset_def)

lemma sign_payload_file:
  assumes "image_ok (sealed_image g)" "key_ok key" "payload_length g < 2 ^ 64"
    and "out_file h = header_bytes (sealed_image g) @ payload_tail g" "boot_img h = sealed_image g"
  obtains h' where "sign_payload key h = Some h'" "out_file h' = header_bytes (signed_image key g) @ payload_tail g"
proof (cases key)
  case None
  then show thesis using assms(4) that by (simp add: sign_payload_def signed_image_def)
next
  case (Some sign)
  have l: "length (header_bytes (sealed_image g)) = 1632" by (rule length_header_bytes [OF assms(1)])
  have n: "unat (bi_bootImageLength (sealed_image g)) = payload_length g"
    using assms(3) by (simp add: sealed_image_def sized_image_def unat_of_nat_small)
  let ?file = "header_bytes (sealed_image g) @ payload_tail g"
  have whole: "take (payload_length g) ?file = ?file" "payload_length g \<le> length ?file"
    using l payload_tail_length [of g] by simp_all
  obtain d s where ds: "sign ?file = (d, s)" by (cases "sign ?file")
  have lds: "length d = 48" "length s = 96" using assms(2) Some ds by (metis key_ok_def fst_conv snd_conv)+
  let ?b = "(sealed_image g)\<lparr>bi_digest := d, bi_ecdsaSig := s\<rparr>"
  have ok: "image_ok ?b" using assms(1) lds by (simp add: image_ok_def)
  have len: "1632 \<le> length (out_file (h\<lparr>boot_img := ?b\<rparr>))" using l by (simp add: assms(4))
  have "sign_payload key h = Some (generate_header ?b (h\<lparr>boot_img := ?b\<rparr>))"
    using whole ds lds by (simp add: sign_payload_def Some assms(4,5) n)
  moreover have "out_file (generate_header ?b (h\<lparr>boot_img := ?b\<rparr>)) = header_bytes ?b @ payload_tail g"
    using generate_header_again(1) [OF ok len] l by (simp add: assms(4))
  ultimately show thesis by (intro that) (simp_all add: signed_image_def Some ds)
qed

lemma generate_payload_file:
  assumes ok: "gen_ok g" and key: "key_ok key"
  obtains g' where "generate_payload key g = Some g'" "out_file g' = header_bytes (signed_image key g) @ payload_tail g"
proof -
  let ?cs = "chunkTable g" let ?zs = "ziChunkTable g"
  have g: "image_ok (boot_img g)" "list_all chunk_ok ?cs" "?cs \<noteq> []" "payload_length g < 2 ^ 64" using ok by (simp_all add: gen_ok_def)
  let ?g0 = "g\<lparr>out_file := [], out_pos := 0\<rparr>"
  let ?g1 = "generate_header (boot_img g) ?g0"
  have g1: "?g1 = (put_end (header_bytes (boot_img g)) ?g0)\<lparr>bootImagePaddedSize := 1632\<rparr>"
    using g(1) by (intro generate_header_start) simp_all
  have lh: "length (header_bytes (boot_img g)) = 1632" by (rule length_header_bytes [OF g(1)])
  obtain g2 where g2: "generate_chunks ?g1 = Some g2" "at_end g2"
    "out_file g2 = header_bytes (boot_img g) @ table_bytes (place (blob_offset g) ?cs) @ chunk_bytes no_chunk"
    "chunkTable g2 = place (blob_offset g) ?cs" "ziChunkTable g2 = ?zs" "boot_img g2 = (boot_img g)\<lparr>bi_chunkTableOffset := 1632\<rparr>"
    "bootImagePaddedSize g2 = 1632" "chunkTablePaddedSize g2 = 40 * (length ?cs + 1)"
    by (rule generate_chunks_file [of ?g1 "blob_offset g"])
      (use g(2) lh in \<open>simp_all add: g1 blob_offset_def zi_offset_def\<close>)
  have pos2: "out_pos g2 = zi_offset g" using g2(2) lh by (simp add: at_end_def g2(3) zi_offset_def)
  obtain g3 where g3: "generate_ziChunks g2 = Some g3" "at_end g3" "out_file g3 = out_file g2 @ zi_table_bytes ?zs @ zi_bytes no_zi"
    "chunkTable g3 = place (blob_offset g) ?cs" "ziChunkTable g3 = ?zs"
    "boot_img g3 = (boot_img g)\<lparr>bi_chunkTableOffset := 1632, bi_ziChunkTableOffset := of_nat (zi_offset g)\<rparr>"
    "bootImagePaddedSize g3 = 1632" "chunkTablePaddedSize g3 = 40 * (length ?cs + 1)" "ziChunkTablePaddedSize g3 = 24 * (length ?zs + 1)"
    by (rule generate_ziChunks_file [OF g2(2)]) (use pos2 g2(4-8) in \<open>simp_all add: zi_offset_def\<close>)
  have pos3: "out_pos g3 = blob_offset g"
    using g3(2) lh by (simp add: at_end_def g3(3) g2(3) blob_offset_def zi_offset_def)
  let ?g4 = "g3\<lparr>boot_img := (boot_img g3)\<lparr>bi_headerLength := of_nat (blob_offset g)\<rparr>\<rparr>"
  have small: "blob_offset g < 2 ^ 64" using g(4) by (simp add: payload_length_def)
  then have z: "unat (of_nat (zi_offset g) :: u64) = zi_offset g" by (intro unat_of_nat_small) (simp add: blob_offset_def)
  have b: "generate_blobs ?g4 = Some (put_end (blob_bytes ?cs) ?g4)"
    by (rule generate_blobs_file [of ?g4 "blob_offset g"]) (use g(2,3) small g3(2,4,5,6) z in \<open>simp_all add: blob_offset_def\<close>)
  have pos5: "length (out_file g3) + length (blob_bytes ?cs) = payload_length g"
    using g3(2) pos3 by (simp add: at_end_def payload_length_def)
  let ?g6 = "(put_end (blob_bytes ?cs) ?g4)\<lparr>boot_img := sealed_image g\<rparr>"
  have oki: "image_ok (sealed_image g)" using image_ok_sealed [OF g(1)] by simp
  have f6: "out_file ?g6 = header_bytes (boot_img g) @ payload_tail g" by (simp add: g3(3) g2(3) payload_tail_def)
  have "1632 \<le> length (out_file ?g6)" unfolding f6 using lh by simp
  note fin = generate_header_again [OF oki this]
  obtain g' where g': "sign_payload key (generate_header (sealed_image g) ?g6) = Some g'"
    "out_file g' = header_bytes (signed_image key g) @ payload_tail g"
    by (rule sign_payload_file [OF oki key g(4)]) (use fin lh in \<open>simp_all add: f6\<close>)
  have st: "bootImagePaddedSize g3 + chunkTablePaddedSize g3 + ziChunkTablePaddedSize g3 = blob_offset g"
    by (simp add: g3(7-9) blob_offset_def zi_offset_def)
  have "generate_payload key g = Some g'"
    using g2(1) g3(1) b g'(1)
    by (simp add: generate_payload_def Let_def pos3 pos5 st sized_image_def sealed_image_def g3(6) del: of_nat_add)
  then show thesis using g'(2) by (rule that)
qed

subsection \<open>Reading the file back\<close>

definition holds :: "memory \<Rightarrow> u64 \<Rightarrow> u8 list \<Rightarrow> bool" where
  "holds m p bs \<longleftrightarrow> (\<forall>i < length bs. m (p + of_nat i) = bs ! i)"

lemma holds_rd:
  assumes "holds m p bs" "a + n \<le> length bs"
  shows "rd_bytes m (p + of_nat a) n = take n (drop a bs)"
proof (rule nth_equalityI)
  fix i assume "i < length (rd_bytes m (p + of_nat a) n)"
  then have i: "i < n" by simp
  have "m (p + of_nat (a + i)) = bs ! (a + i)" using assms i unfolding holds_def by (meson add_less_cancel_left order.strict_trans2)
  then show "rd_bytes m (p + of_nat a) n ! i = take n (drop a bs) ! i"
    using assms i by (simp add: add.assoc)
qed (use assms(2) in simp)

lemma holds_sub:
  assumes "holds m p bs" "a + n \<le> length bs"
  shows "holds m (p + of_nat a) (take n (drop a bs))"
  using assms by (auto simp: holds_def add.assoc simp flip: of_nat_add)

lemma holds_prefix: "holds m p (xs @ ys) \<Longrightarrow> holds m p xs"
  by (auto simp: holds_def nth_append)

lemma holds_suffix: "holds m p (xs @ ys) \<Longrightarrow> holds m (p + of_nat (length xs)) ys"
  using holds_sub [of m p "xs @ ys" "length xs" "length ys"] by simp

text \<open>One of several pieces of the same length.\<close>

lemma holds_piece:
  assumes "holds m p (concat (map f xs))" "\<forall>x \<in> set xs. length (f x) = l" "k < length xs"
  shows "holds m (p + of_nat (l * k)) (f (xs ! k))"
proof -
  have c: "concat (map f xs) = concat (map f (take k xs)) @ f (xs ! k) @ concat (map f (drop (Suc k) xs))"
    using assms(3) by (subst id_take_nth_drop [of k xs]) simp_all
  have "length (concat (map f ys)) = l * length ys" if "set ys \<subseteq> set xs" for ys
    using that assms(2) by (induction ys) auto
  from this [OF set_take_subset] have "length (concat (map f (take k xs))) = l * k" using assms(3) by simp
  then show ?thesis using holds_prefix [OF holds_suffix [OF assms(1) [unfolded c]]] by simp
qed

lemma holds_chunk:
  assumes "holds m d (chunk_bytes c)"
  shows "chunk_owner m d = cd_owner c" "chunk_loadAddr m d = cd_loadAddr c" "chunk_execAddr m d = cd_execAddr c" "chunk_size m d = cd_size c"
  using holds_rd [OF assms, of 0 4] holds_rd [OF assms, of 8 8] holds_rd [OF assms, of 16 8] holds_rd [OF assms, of 24 8]
  by (simp_all add: chunk_owner_def chunk_loadAddr_def chunk_execAddr_def chunk_size_def rd32_def rd64_def chunk_bytes_def)

lemma holds_zi:
  assumes "holds m d (zi_bytes z)"
  shows "zi_owner m d = zd_owner z" "zi_execAddr m d = zd_execAddr z" "zi_size m d = zd_size z"
  using holds_rd [OF assms, of 0 4] holds_rd [OF assms, of 8 8] holds_rd [OF assms, of 16 8]
  by (simp_all add: zi_owner_def zi_execAddr_def zi_size_def rd32_def rd64_def zi_bytes_def)

lemma holds_header:
  assumes h: "holds m p (header_bytes b)" and ok: "image_ok b"
  shows "img_magic m p = bi_magic b" "img_version m p = bi_version b" "img_headerCrc m p = bi_headerCrc b"
    "img_chunkTableOffset m p = bi_chunkTableOffset b" "img_ziChunkTableOffset m p = bi_ziChunkTableOffset b"
    "img_bootImageLength m p = bi_bootImageLength b"
proof -
  note l = length_header_bytes [OF ok]
  show "img_magic m p = bi_magic b" "img_version m p = bi_version b" "img_headerCrc m p = bi_headerCrc b"
    "img_chunkTableOffset m p = bi_chunkTableOffset b" "img_ziChunkTableOffset m p = bi_ziChunkTableOffset b"
    using holds_rd [OF h, of 0 4] holds_rd [OF h, of 4 4] holds_rd [OF h, of 16 4] holds_rd [OF h, of 24 8] holds_rd [OF h, of 32 8]
    unfolding l
    by (simp_all add: img_magic_def img_version_def img_headerCrc_def img_chunkTableOffset_def img_ziChunkTableOffset_def
        rd32_def rd64_def header_bytes_def)
  have "length (concat (map hart_bytes (bi_hart b))) = 1184" "length (bi_set_name b) = 256"
    using ok by (simp_all add: image_ok_def length_concat_harts)
  then show "img_bootImageLength m p = bi_bootImageLength b"
    using holds_rd [OF h, of 1480 8] unfolding l by (simp add: img_bootImageLength_def rd64_def header_bytes_def)
qed

text \<open>The bytes of a hart.\<close>

lemma holds_hart:
  assumes h: "holds m p (header_bytes b)" and ok: "image_ok b" and k: "1 \<le> k" "k \<le> 4"
  shows "rd64 m (img_hart p k) = bh_entryPoint (bi_hart b ! (k - 1))" "m (img_hart p k + 9) = bh_flags (bi_hart b ! (k - 1))"
    "rd64 m (img_hart p k + 24) = bh_firstChunk (bi_hart b ! (k - 1))" "rd64 m (img_hart p k + 32) = bh_lastChunk (bi_hart b ! (k - 1))"
proof -
  have "k - 1 < 4" using k by simp
  have "holds m (p + of_nat (40 + 296 * (k - 1))) (hart_bytes (bi_hart b ! (k - 1)))"
    using holds_sub [OF h, of "40 + 296 * (k - 1)" 296] hart_offset [OF ok \<open>k - 1 < 4\<close>] length_header_bytes [OF ok] k by simp
  moreover have "p + of_nat (40 + 296 * (k - 1)) = img_hart p k" by (simp add: img_hart_def add.assoc)
  ultimately have q: "holds m (img_hart p k) (hart_bytes (bi_hart b ! (k - 1)))" by simp
  have "hart_ok (bi_hart b ! (k - 1))" using ok \<open>k - 1 < 4\<close> by (simp add: image_ok_def list_all_length)
  note l = length_hart_bytes [OF this]
  show "rd64 m (img_hart p k) = bh_entryPoint (bi_hart b ! (k - 1))" "rd64 m (img_hart p k + 24) = bh_firstChunk (bi_hart b ! (k - 1))"
    "rd64 m (img_hart p k + 32) = bh_lastChunk (bi_hart b ! (k - 1))"
    using holds_rd [OF q, of 0 8] holds_rd [OF q, of 24 8] holds_rd [OF q, of 32 8] unfolding l
    by (simp_all add: rd64_def hart_bytes_def)
  show "m (img_hart p k + 9) = bh_flags (bi_hart b ! (k - 1))"
    using q l by (auto simp: holds_def hart_bytes_def nth_append dest!: spec [where x = 9])
qed

subsection \<open>The checksum fits\<close>

lemma shadow_of_header:
  assumes h: "holds m p (header_bytes b)" and ok: "image_ok b"
  shows "shadowHdr m p 1632 = header_front b @ replicate 4 0 @ header_rest b @ replicate 144 0"
proof (rule nth_equalityI)
  note l = header_parts_length(1) [of b] header_parts_length(2) [OF ok]
  have lsig: "length (bi_digest b @ bi_ecdsaSig b) = 144" using ok by (simp add: image_ok_def)
  show "length (shadowHdr m p 1632) = length (header_front b @ replicate 4 0 @ header_rest b @ replicate 144 0)"
    by (simp add: shadowHdr_def l)
  fix i assume "i < length (shadowHdr m p 1632)"
  then have i: "i < 1632" by (simp add: shadowHdr_def)
  have b: "m (p + of_nat i) = header_bytes b ! i" using h i length_header_bytes [OF ok] by (simp add: holds_def)
  have "shadowHdr m p 1632 ! i = (if (16 \<le> i \<and> i < 20) \<or> 1488 \<le> i then 0 else header_bytes b ! i)"
    using i b by (simp add: shadowHdr_def shadow_byte_def)
  also have "\<dots> = (header_front b @ replicate 4 0 @ header_rest b @ replicate 144 0) ! i"
    unfolding header_split using i by (auto simp: nth_append l)
  finally show "shadowHdr m p 1632 ! i = (header_front b @ replicate 4 0 @ header_rest b @ replicate 144 0) ! i" .
qed

lemma le_bytes_0 [simp]: "le_bytes n 0 = replicate n 0"
  by (simp add: le_bytes_def map_replicate_const)

lemma signed_fields:
  "header_front (signed_image key g) = header_front (sized_image g)" "header_rest (signed_image key g) = header_rest (sized_image g)"
  "bi_headerCrc (signed_image key g) = CRC32_calculate True (header_bytes (sized_image g))"
  "bi_magic (signed_image key g) = bi_magic (boot_img g)" "bi_version (signed_image key g) = bi_version (boot_img g)"
  "bi_chunkTableOffset (signed_image key g) = 1632" "bi_ziChunkTableOffset (signed_image key g) = of_nat (zi_offset g)"
  "bi_bootImageLength (signed_image key g) = of_nat (payload_length g)" "bi_hart (signed_image key g) = bi_hart (boot_img g)"
  by (simp_all add: signed_image_def sealed_image_def sized_image_def header_parts_update split: option.split prod.split)

text \<open>A fresh header: the magic and version of the tool, no checksum and no signature yet.\<close>

definition fresh_header :: "boot_image \<Rightarrow> bool" where
  "fresh_header b \<longleftrightarrow> bi_magic b = mHSS_BOOT_MAGIC \<and> bi_version b = mHSS_BOOT_VERSION \<and> bi_headerCrc b = 0
     \<and> bi_digest b = replicate 48 0 \<and> bi_ecdsaSig b = replicate 96 0"

lemma payload_validates:
  assumes h: "holds m p (header_bytes (signed_image key g))" and ok: "image_ok (boot_img g)" "key_ok key"
    and fresh: "fresh_header (boot_img g)" and p: "p \<noteq> 0" and w: "mem w = m"
  shows "HSS_Boot_ValidateImage p w"
proof -
  note okS = image_ok_signed [OF ok]
  note f = holds_header [OF h okS]
  have "header_bytes (sized_image g) = header_front (sized_image g) @ replicate 4 0 @ header_rest (sized_image g) @ replicate 48 0 @ replicate 96 0"
    using fresh unfolding header_split by (simp add: sized_image_def fresh_header_def)
  also have "\<dots> = shadowHdr m p 1632"
    unfolding shadow_of_header [OF h okS] signed_fields by (simp flip: replicate_add)
  finally have "validateCrc m p"
    using f(2,3) fresh by (simp add: validateCrc_def crcLen_def signed_fields fresh_header_def mHSS_BOOT_VERSION_def)
  then show ?thesis using p f(1) fresh w by (simp add: HSS_Boot_ValidateImage_def signed_fields fresh_header_def)
qed

subsection \<open>The tables and the blobs\<close>

lemma place_nth:
  assumes "k < length cs"
  shows "fst (place a cs ! k) = (fst (cs ! k))\<lparr>cd_loadAddr := of_nat (a + length (blob_bytes (take k cs)))\<rparr>"
  using assms
proof (induction a cs arbitrary: k rule: place.induct)
  case (2 a c b cs)
  show ?case
  proof (cases k)
    case 0
    then show ?thesis by (simp add: blob_bytes_def)
  next
    case (Suc j)
    then show ?thesis using 2 by (simp add: blob_bytes_def add.assoc)
  qed
qed simp

lemma holds_blob:
  assumes "holds m d (blob_bytes cs)" "k < length cs"
  shows "rd_bytes m (d + of_nat (length (blob_bytes (take k cs)))) (length (snd (cs ! k))) = snd (cs ! k)"
proof -
  have c: "blob_bytes cs = blob_bytes (take k cs) @ padded (snd (cs ! k)) @ blob_bytes (drop (Suc k) cs)"
    using assms(2) by (subst id_take_nth_drop [of k cs]) (simp_all add: blob_bytes_def)
  have "holds m (d + of_nat (length (blob_bytes (take k cs)))) (padded (snd (cs ! k)))"
    using holds_prefix [OF holds_suffix [OF assms(1) [unfolded c]]] .
  then show ?thesis using holds_rd [of m _ "padded (snd (cs ! k))" 0 "length (snd (cs ! k))"] by (simp add: padded_def)
qed

text \<open>The parts of the file in memory.\<close>

lemma holds_parts:
  assumes "holds m p (header_bytes (signed_image key g) @ payload_tail g)" and "image_ok (boot_img g)" "key_ok key"
  shows "holds m p (header_bytes (signed_image key g))" "holds m (p + 1632) (table_bytes (place (blob_offset g) (chunkTable g)))"
    "holds m (p + 1632 + of_nat (40 * length (chunkTable g))) (chunk_bytes no_chunk)"
    "holds m (p + of_nat (zi_offset g)) (zi_table_bytes (ziChunkTable g))"
    "holds m (p + of_nat (zi_offset g) + of_nat (24 * length (ziChunkTable g))) (zi_bytes no_zi)"
    "holds m (p + of_nat (blob_offset g)) (blob_bytes (chunkTable g))"
proof -
  note l = length_header_bytes [OF image_ok_signed [OF assms(2,3)]]
  show "holds m p (header_bytes (signed_image key g))" using assms(1) by (rule holds_prefix)
  have t: "holds m (p + 1632) (payload_tail g)" using holds_suffix [OF assms(1)] l by simp
  note t = t [unfolded payload_tail_def]
  show "holds m (p + 1632) (table_bytes (place (blob_offset g) (chunkTable g)))" using t by (rule holds_prefix)
  note t1 = holds_suffix [OF t]
  show "holds m (p + 1632 + of_nat (40 * length (chunkTable g))) (chunk_bytes no_chunk)" using holds_prefix [OF t1] by simp
  note t2 = holds_suffix [OF t1]
  have e2: "p + 1632 + of_nat (length (table_bytes (place (blob_offset g) (chunkTable g)))) + of_nat (length (chunk_bytes no_chunk))
      = p + of_nat (zi_offset g)" by (simp add: zi_offset_def algebra_simps)
  note t2 = t2 [unfolded e2]
  show "holds m (p + of_nat (zi_offset g)) (zi_table_bytes (ziChunkTable g))" using t2 by (rule holds_prefix)
  note t3 = holds_suffix [OF t2]
  show "holds m (p + of_nat (zi_offset g) + of_nat (24 * length (ziChunkTable g))) (zi_bytes no_zi)" using holds_prefix [OF t3] by simp
  have e3: "p + of_nat (zi_offset g) + of_nat (length (zi_table_bytes (ziChunkTable g))) + of_nat (length (zi_bytes no_zi))
      = p + of_nat (blob_offset g)" by (simp add: blob_offset_def algebra_simps)
  show "holds m (p + of_nat (blob_offset g)) (blob_bytes (chunkTable g))" using holds_suffix [OF t3, unfolded e3] .
qed

definition chunk_readable :: "memory \<Rightarrow> u64 \<Rightarrow> nat \<Rightarrow> chunk_desc \<times> u8 list \<Rightarrow> bool" where
  "chunk_readable m p k cb \<longleftrightarrow>
     (let d = p + img_chunkTableOffset m p + 40 * of_nat k in
      chunk_owner m d = cd_owner (fst cb) \<and> chunk_execAddr m d = cd_execAddr (fst cb) \<and> chunk_size m d = of_nat (length (snd cb))
      \<and> rd_bytes m (p + chunk_loadAddr m d) (length (snd cb)) = snd cb)"

definition zi_readable :: "memory \<Rightarrow> u64 \<Rightarrow> nat \<Rightarrow> zi_desc \<Rightarrow> bool" where
  "zi_readable m p k z \<longleftrightarrow>
     (let d = p + img_ziChunkTableOffset m p + 24 * of_nat k in
      zi_owner m d = zd_owner z \<and> zi_execAddr m d = zd_execAddr z \<and> zi_size m d = zd_size z)"

text \<open>What the monitor finds at \<open>p\<close>: a valid image with these chunks, each table with its end mark.\<close>

definition payload_at :: "memory \<Rightarrow> u64 \<Rightarrow> payload_gen \<Rightarrow> bool" where
  "payload_at m p g \<longleftrightarrow>
     img_bootImageLength m p = of_nat (payload_length g)
   \<and> (\<forall>k < length (chunkTable g). chunk_readable m p k (chunkTable g ! k))
   \<and> chunk_size m (p + img_chunkTableOffset m p + 40 * of_nat (length (chunkTable g))) = 0
   \<and> (\<forall>k < length (ziChunkTable g). zi_readable m p k (ziChunkTable g ! k))
   \<and> zi_size m (p + img_ziChunkTableOffset m p + 24 * of_nat (length (ziChunkTable g))) = 0"

lemma payload_found:
  assumes h: "holds m p (header_bytes (signed_image key g) @ payload_tail g)" and ok: "gen_ok g" and key: "key_ok key"
  shows "payload_at m p g"
proof -
  have g: "image_ok (boot_img g)" "list_all chunk_ok (chunkTable g)" using ok by (simp_all add: gen_ok_def)
  note parts = holds_parts [OF h g(1) key]
  note f = holds_header [OF parts(1) image_ok_signed [OF g(1) key], unfolded signed_fields]
  have "chunk_readable m p k (chunkTable g ! k)" if k: "k < length (chunkTable g)" for k
  proof -
    have "holds m (p + 1632 + of_nat (40 * k)) ((chunk_bytes \<circ> fst) (place (blob_offset g) (chunkTable g) ! k))"
      by (rule holds_piece [OF parts(2) [unfolded table_bytes_def]]) (use k in simp_all)
    note c = holds_chunk [OF this [unfolded o_apply place_nth [OF k]]]
    have "chunk_ok (chunkTable g ! k)" using g(2) k by (simp add: list_all_length)
    then have "length (snd (chunkTable g ! k)) = unat (cd_size (fst (chunkTable g ! k)))" by (simp add: chunk_ok_def)
    then have s: "cd_size (fst (chunkTable g ! k)) = of_nat (length (snd (chunkTable g ! k)))" by simp
    have "rd_bytes m (p + of_nat (blob_offset g) + of_nat (length (blob_bytes (take k (chunkTable g))))) (length (snd (chunkTable g ! k)))
        = snd (chunkTable g ! k)" by (rule holds_blob [OF parts(6) k])
    then show ?thesis using c by (simp add: chunk_readable_def Let_def f(4) s add.assoc)
  qed
  moreover have "zi_readable m p k (ziChunkTable g ! k)" if k: "k < length (ziChunkTable g)" for k
  proof -
    have "holds m (p + of_nat (zi_offset g) + of_nat (24 * k)) (zi_bytes (ziChunkTable g ! k))"
      by (rule holds_piece [OF parts(4) [unfolded zi_table_bytes_def]]) (use k in simp_all)
    from holds_zi [OF this] show ?thesis by (simp add: zi_readable_def Let_def f(5))
  qed
  ultimately show ?thesis
    using holds_chunk(4) [OF parts(3)] holds_zi(3) [OF parts(5)] f(4-6) by (simp add: payload_at_def)
qed

text \<open>
  C6. What the generator writes the monitor accepts.  For any header in its initial state, any
  non-empty table of chunks and any table of zero-initialised chunks, with or without a key,
  the generator ends, and wherever its file lies in memory \<^verbatim>\<open>HSS_Boot_ValidateImage\<close> accepts it,
  the tables hold the descriptors in order with their end marks, and the load address of every
  chunk leads to its data.
\<close>

theorem generated_payload_roundtrip:
  assumes "gen_ok g" "key_ok key" "fresh_header (boot_img g)"
  shows "\<exists>g'. generate_payload key g = Some g' \<and> (\<forall>m p w. p \<noteq> 0 \<and> mem w = m \<and> holds m p (out_file g') \<longrightarrow>
    HSS_Boot_ValidateImage p w \<and> payload_at m p g)"
proof -
  have ok: "image_ok (boot_img g)" using assms(1) by (simp add: gen_ok_def)
  obtain g' where g': "generate_payload key g = Some g'" "out_file g' = header_bytes (signed_image key g) @ payload_tail g"
    by (rule generate_payload_file [OF assms(1,2)])
  have "HSS_Boot_ValidateImage p w \<and> payload_at m p g" if "p \<noteq> 0" "mem w = m" "holds m p (out_file g')" for m p and w :: "'a boot_world_scheme"
    using payload_validates [OF holds_prefix [OF that(3) [unfolded g'(2)]] ok assms(2,3) that(1,2)]
      payload_found [OF that(3) [unfolded g'(2)] assms(1,2)] by simp
  then show ?thesis using g'(1) by blast
qed

lemma unat_entry_index: "i < 0x8000000 \<Longrightarrow> unat (0 + of_nat i :: u64) = i"
  by (simp add: unat_of_nat_small)

text \<open>
  C1. From the generator to the monitor.  If the flash behind the FPGA starts with a file of the
  generator that fits the chip, \<^verbatim>\<open>HSS_BootInit\<close> succeeds with a registered image that
  \<^verbatim>\<open>HSS_Boot_ValidateImage\<close> accepts and whose tables and data are those given to the generator.
\<close>

theorem generated_payload_boots:
  assumes gen: "gen_ok g" "key_ok key" "fresh_header (boot_img g)" "generate_payload key g = Some g'" "payload_length g \<le> 0x8000000"
    and flash: "\<forall>i < length (out_file g'). flash_byte V d i = out_file g' ! i"
    and c: "transfers_ok (fpga_controller M) V" "array_ok (fpga_controller M) V" "ident_ok (fpga_controller M) V"
    and s: "fpga_state w = fnand_reset d" and w: "pDefaultStorage w = None" "bootImage w \<noteq> 0" "unat (bootImage w) + 1632 < 2 ^ 64"
  shows "\<exists>w'. HSS_BootInit M w = Some (True, w') \<and> HSS_Boot_ValidateImage (pBootImage w') w' \<and> payload_at (mem w') (pBootImage w') g
    \<and> active_slot w' = 0x62"
proof -
  let ?B = "flash_byte V d" let ?t = "CONFIG_SERVICE_BOOT_DDR_TARGET_ADDR"
  have ok: "image_ok (boot_img g)" using gen(1) by (simp add: gen_ok_def)
  note okS = image_ok_signed [OF ok gen(2)]
  obtain h where "generate_payload key g = Some h" "out_file h = header_bytes (signed_image key g) @ payload_tail g"
    by (rule generate_payload_file [OF gen(1,2)])
  then have f: "out_file g' = header_bytes (signed_image key g) @ payload_tail g" using gen(4) by simp
  have len: "length (out_file g') = payload_length g"
    unfolding f using length_header_bytes [OF okS] payload_tail_length [of g] by simp
  have "holds (\<lambda>a. ?B (unat a)) 0 (out_file g')"
    unfolding holds_def
  proof (intro allI impI)
    fix i assume i: "i < length (out_file g')"
    then have "unat (0 + of_nat i :: u64) = i" using gen(5) len by (intro unat_entry_index) simp
    then show "?B (unat (0 + of_nat i :: u64)) = out_file g' ! i" using flash i by simp
  qed
  note hd = holds_header [OF holds_prefix [OF this [unfolded f]] okS, unfolded signed_fields]
  have idx: "map (\<lambda>i. ?B (unat (0 + of_nat i :: u64))) [0..<4] = map ?B [0..<4]"
    by (rule map_cong [OF refl]) (simp add: unat_of_nat_small)
  have idx2: "map (\<lambda>i. ?B (unat (0 + 1480 + of_nat i :: u64))) [0..<8] = map ?B [1480..<1488]"
    by (simp add: upt_rec)
  have mg: "hdr_magic ?B = mHSS_BOOT_MAGIC"
    using hd(1) gen(3) unfolding img_magic_def rd32_def rd_bytes_def idx hdr_magic_def by (simp add: fresh_header_def)
  have hl: "hdr_length ?B = of_nat (payload_length g)"
    using hd(6) unfolding img_bootImageLength_def rd64_def rd_bytes_def hdr_length_def idx2 .
  have n: "unat (hdr_length ?B) = payload_length g" unfolding hl using gen(5) by (intro unat_of_nat_small) simp
  have ge: "1632 \<le> payload_length g" using payload_tail_length [of g] by simp
  obtain w' where w': "HSS_BootInit M w = Some (True, w')" "pBootImage w' = ?t"
    "\<forall>i < payload_length g. mem w' (?t + of_nat i) = ?B i" "active_slot w' = 0x62"
    using boot_from_fpga_flash [OF c s w mg, unfolded n, OF ge gen(5)] by auto
  have held: "holds (mem w') ?t (header_bytes (signed_image key g) @ payload_tail g)"
    using w'(3) flash len unfolding holds_def f [symmetric] by simp
  have "HSS_Boot_ValidateImage ?t w'"
    by (rule payload_validates [OF holds_prefix [OF held] ok gen(2,3)]) simp_all
  moreover have "payload_at (mem w') ?t g" by (rule payload_found [OF held gen(1,2)])
  ultimately show ?thesis using w' by auto
qed

text \<open>
  C38. A second binary hides the first.  Two binaries for one hart, the first of which is chunk 0 of
  the image: \<^verbatim>\<open>blob_handler\<close> takes a first chunk of 0 for one that was not set and overwrites it,
  so the range of the hart starts at chunk 1 although chunk 0 is the hart's and both are counted.
\<close>

theorem second_blob_hides_first:
  assumes "chunkTable g = []" "blob_numChunks g = 0" "1 \<le> owner" "owner \<le> length (bi_hart (boot_img g))"
    and "bh_firstChunk (bi_hart (boot_img g) ! (owner - 1)) = 0" "bh_numChunks (bi_hart (boot_img g) ! (owner - 1)) = 0"
    and "b1 \<noteq> []" "length b1 < 2 ^ 64" "b2 \<noteq> []" "length b2 < 2 ^ 64"
  shows "let g2 = blob_handler b2 a2 owner None (blob_handler b1 a1 owner None g) in
    bh_firstChunk (bi_hart (boot_img g2) ! (owner - 1)) = 1 \<and> bh_lastChunk (bi_hart (boot_img g2) ! (owner - 1)) = 1
    \<and> bh_numChunks (bi_hart (boot_img g2) ! (owner - 1)) = 2
    \<and> length (chunkTable g2) = 2 \<and> cd_owner (fst (chunkTable g2 ! 0)) = of_nat owner"
proof -
  have nz: "(of_nat (length b) :: u64) \<noteq> 0" if "b \<noteq> []" "length b < 2 ^ 64" for b :: "u8 list"
    using that unat_of_nat_small [of "length b"] by (metis length_0_conv unat_0)
  show ?thesis
    using assms(1-6) nz [OF assms(7,8)] nz [OF assms(9,10)]
    by (simp add: blob_handler_def count_blob_def process_blob_def generate_add_chunk_def hart_update_def Let_def)
qed

subsection \<open>What the handlers keep\<close>

text \<open>The tables and the header as \<^verbatim>\<open>generate_payload\<close> needs them.\<close>

definition gen_inv :: "payload_gen \<Rightarrow> bool" where
  "gen_inv g \<longleftrightarrow> image_ok (boot_img g) \<and> fresh_header (boot_img g) \<and> list_all chunk_ok (chunkTable g)"

lemma hart_update_inv:
  assumes "gen_inv g" "1 \<le> owner" "owner \<le> 4" "\<And>h. bh_name (f h) = bh_name h"
  shows "gen_inv (hart_update owner f g)"
proof -
  have "list_all hart_ok ((bi_hart (boot_img g))[owner - 1 := f (bi_hart (boot_img g) ! (owner - 1))])"
    using assms by (auto simp: gen_inv_def image_ok_def hart_ok_def list_all_length nth_list_update)
  then show ?thesis using assms(1) by (simp add: gen_inv_def image_ok_def fresh_header_def hart_update_def)
qed

lemma add_chunk_inv:
  assumes "gen_inv g" "unat (cd_size c) = length b"
  shows "gen_inv (snd (generate_add_chunk c b g))"
proof -
  have "b \<noteq> []" if "cd_size c \<noteq> 0" using assms(2) that by (metis length_0_conv unat_eq_zero)
  then show ?thesis using assms by (simp add: gen_inv_def generate_add_chunk_def Let_def chunk_ok_def)
qed

lemma gen_inv_counters [simp]:
  "gen_inv (g\<lparr>blob_numChunks := n\<rparr>) = gen_inv g" "gen_inv (g\<lparr>elf_numChunks := n\<rparr>) = gen_inv g" "gen_inv (g\<lparr>elf_numZIChunks := n\<rparr>) = gen_inv g"
  by (simp_all add: gen_inv_def)

lemma process_blob_inv:
  assumes "gen_inv g" "length b < 2 ^ 64"
  shows "gen_inv (process_blob b a owner anc g)"
proof -
  let ?c = "\<lparr> cd_owner = of_nat owner OR (if anc then 0x80 else 0), cd_loadAddr = 0, cd_execAddr = a,
      cd_size = of_nat (length b), cd_crc32 = CRC32_calculate True b \<rparr>"
  have "gen_inv (snd (generate_add_chunk ?c b g))"
    by (rule add_chunk_inv [OF assms(1)]) (use unat_of_nat_small [OF assms(2)] in simp)
  then show ?thesis by (simp add: process_blob_def Let_def case_prod_unfold)
qed

lemma count_blob_inv: "gen_inv g \<Longrightarrow> 1 \<le> owner \<Longrightarrow> owner \<le> 4 \<Longrightarrow> gen_inv (count_blob owner g)"
  by (simp add: count_blob_def hart_update_inv)

lemma process_section_inv:
  assumes "gen_inv g" "process_section p owner s g = Some g'"
  shows "gen_inv g'"
proof -
  have "gen_inv (g1\<lparr>elf_numChunks := n\<rparr>)"
    if "unat (sh_size s) = length b" "generate_add_chunk \<lparr> cd_owner = of_nat owner, cd_loadAddr = 0, cd_execAddr = sh_addr s,
        cd_size = of_nat (length b), cd_crc32 = CRC32_calculate True b \<rparr> b g = (n, g1)" for b n g1
  proof -
    have "length b < 2 ^ 64" using that(1) unat_lt64 [of "sh_size s"] by simp
    then have "unat (of_nat (length b) :: u64) = length b" by (rule unat_of_nat_small)
    then show ?thesis using add_chunk_inv [OF assms(1)] that(2) by (metis chunk_desc.select_convs(4) gen_inv_counters(2) snd_conv)
  qed
  then show ?thesis
    using assms unfolding process_section_def Let_def
    by (auto simp: generate_add_ziChunk_def Let_def gen_inv_def split: if_splits option.splits prod.splits)
qed

lemma process_sections_inv: "gen_inv g \<Longrightarrow> process_sections_in_segment p owner ss g = Some g' \<Longrightarrow> gen_inv g'"
  by (induction p owner ss g rule: process_sections_in_segment.induct) (auto split: bind_splits dest: process_section_inv)

lemma process_headers_inv: "gen_inv g \<Longrightarrow> process_program_headers ps ss owner g = Some g' \<Longrightarrow> gen_inv g'"
  by (induction ps ss owner g rule: process_program_headers.induct) (auto split: bind_splits dest: process_sections_inv)

lemma parse_headers_inv: "gen_inv g \<Longrightarrow> parse_elf_program_headers e ps ss owner g = Some g' \<Longrightarrow> gen_inv g'"
  by (auto simp: parse_elf_program_headers_def split: if_splits dest: process_headers_inv)

text \<open>
  C39. The handlers of binaries and of ELF files keep what \<^verbatim>\<open>generate_payload\<close> relies on: the
  header has its shape and is not sealed yet, and no entry of the chunk table is empty or
  differs in size from its data.
\<close>

theorem handlers_keep_tables:
  assumes "gen_inv g" "1 \<le> owner" "owner \<le> 4"
  shows "(length b < 2 ^ 64 \<and> (\<forall>b'. anc = Some b' \<longrightarrow> length b' < 2 ^ 64) \<longrightarrow> gen_inv (blob_handler b a owner anc g))
    \<and> (\<forall>r g'. elf_parser f owner g = Some (r, g') \<longrightarrow> gen_inv g')"
proof (intro conjI impI allI)
  show "gen_inv (blob_handler b a owner anc g)" if "length b < 2 ^ 64 \<and> (\<forall>b'. anc = Some b' \<longrightarrow> length b' < 2 ^ 64)"
    using assms that by (auto simp: blob_handler_def Let_def hart_update_inv process_blob_inv count_blob_inv split: option.split)
  fix r g' assume e: "elf_parser f owner g = Some (r, g')"
  let ?g1 = "if bh_firstChunk (bi_hart (boot_img g) ! (owner - 1)) = 0
             then hart_update owner (\<lambda>h. h\<lparr>bh_firstChunk := elf_numChunks g\<rparr>) g else g"
  have g1: "gen_inv ?g1" using assms by (simp add: hart_update_inv)
  show "gen_inv g'"
  proof (cases f)
    case None
    then show ?thesis using e g1 by (auto simp: elf_parser_def Let_def)
  next
    case (Some x)
    obtain ehdr phdrs shdrs where x: "x = (ehdr, phdrs, shdrs)" by (cases x)
    obtain g2 where g2: "parse_elf_program_headers ehdr phdrs shdrs owner ?g1 = Some g2"
      "g' = hart_update owner (\<lambda>h. h\<lparr>bh_lastChunk := elf_numChunks g2 - 1, bh_numChunks := (elf_numChunks g2 - 1) - bh_firstChunk h + 1\<rparr>) g2"
      using e unfolding elf_parser_def Let_def Some x by (auto split: bind_splits)
    show ?thesis unfolding g2(2) by (rule hart_update_inv) (use parse_headers_inv [OF g1 g2(1)] assms in simp_all)
  qed
qed

subsection \<open>A payload to try things on\<close>

definition demo_hart :: boot_hart where
  "demo_hart = \<lparr> bh_entryPoint = 0x80000000, bh_privMode = 1, bh_flags = 0, bh_numChunks = 0, bh_firstChunk = 0, bh_lastChunk = 0,
     bh_name = replicate 256 0 \<rparr>"

definition demo_gen :: payload_gen where
  "demo_gen = \<lparr> boot_img = \<lparr> bi_magic = mHSS_BOOT_MAGIC, bi_version = mHSS_BOOT_VERSION, bi_headerLength = 0, bi_headerCrc = 0,
       bi_chunkTableOffset = 0, bi_ziChunkTableOffset = 0, bi_hart = replicate 4 demo_hart, bi_set_name = replicate 256 0,
       bi_bootImageLength = 0, bi_digest = replicate 48 0, bi_ecdsaSig = replicate 96 0 \<rparr>,
     chunkTable = [], ziChunkTable = [], blob_numChunks = 0, elf_numChunks = 0, elf_numZIChunks = 0, out_file = [], out_pos = 0,
     bootImagePaddedSize = 0, chunkTablePaddedSize = 0, ziChunkTablePaddedSize = 0 \<rparr>"

definition demo_payload :: payload_gen where
  "demo_payload = blob_handler [1, 2, 3] 0x80000000 1 None demo_gen"

lemma demo_gen_inv: "gen_inv demo_gen"
  by (simp add: gen_inv_def demo_gen_def image_ok_def hart_ok_def demo_hart_def fresh_header_def list_all_iff)

lemma demo_chunks: "chunkTable demo_payload = [(\<lparr> cd_owner = 1, cd_loadAddr = 0, cd_execAddr = 0x80000000, cd_size = 3, cd_crc32 = CRC32_calculate True [1, 2, 3] \<rparr>, [1, 2, 3])]"
  "ziChunkTable demo_payload = []"
  by (simp_all add: demo_payload_def demo_gen_def blob_handler_def hart_update_def count_blob_def process_blob_def generate_add_chunk_def Let_def)

theorem handlers_keep_tables_witness: "gen_inv demo_payload"
  unfolding demo_payload_def using handlers_keep_tables [OF demo_gen_inv, of 1 "[1, 2, 3]" None "0x80000000"] by simp

lemma demo_payload_ok: "gen_ok demo_payload" "fresh_header (boot_img demo_payload)" "payload_length demo_payload \<le> 0x8000000"
proof -
  have "gen_inv demo_payload"
    unfolding demo_payload_def blob_handler_def Let_def
    by (auto intro!: count_blob_inv process_blob_inv hart_update_inv demo_gen_inv)
  moreover have "payload_length demo_payload = 1744"
    by (simp add: payload_length_def blob_offset_def zi_offset_def demo_chunks blob_bytes_def length_padded calculate_padding_def)
  ultimately show "gen_ok demo_payload" "fresh_header (boot_img demo_payload)" "payload_length demo_payload \<le> 0x8000000"
    by (simp_all add: gen_ok_def gen_inv_def demo_chunks)
qed

lemma no_key_ok: "key_ok None"
  by (simp add: key_ok_def)

theorem generated_payload_roundtrip_witness:
  "\<exists>g'. generate_payload None demo_payload = Some g'
    \<and> (\<forall>w :: boot_world. HSS_Boot_ValidateImage 0x80000000 (w\<lparr>mem := \<lambda>a. out_file g' ! unat (a - 0x80000000)\<rparr>))
    \<and> chunk_readable (\<lambda>a. out_file g' ! unat (a - 0x80000000)) 0x80000000 0 (chunkTable demo_payload ! 0)"
proof -
  obtain g' where g': "generate_payload None demo_payload = Some g'"
    "\<forall>m p (w :: boot_world). p \<noteq> 0 \<and> mem w = m \<and> holds m p (out_file g') \<longrightarrow> HSS_Boot_ValidateImage p w \<and> payload_at m p demo_payload"
    using generated_payload_roundtrip [OF demo_payload_ok(1) no_key_ok demo_payload_ok(2)] by blast
  obtain h where "generate_payload None demo_payload = Some h" "out_file h = header_bytes (signed_image None demo_payload) @ payload_tail demo_payload"
    by (rule generate_payload_file [OF demo_payload_ok(1) no_key_ok])
  then have "length (out_file g') \<le> 0x8000000"
    using g'(1) length_header_bytes [OF image_ok_signed [of demo_payload None]] demo_payload_ok payload_tail_length [of demo_payload] no_key_ok
    by (simp add: gen_ok_def)
  then have h: "holds (\<lambda>a. out_file g' ! unat (a - 0x80000000)) 0x80000000 (out_file g')"
    by (simp add: holds_def unat_of_nat_small)
  have v: "HSS_Boot_ValidateImage 0x80000000 (w\<lparr>mem := \<lambda>a. out_file g' ! unat (a - 0x80000000)\<rparr>)"
    "payload_at (\<lambda>a. out_file g' ! unat (a - 0x80000000)) 0x80000000 demo_payload" for w :: boot_world
  proof -
    let ?m = "\<lambda>a. out_file g' ! unat (a - 0x80000000)" and ?w = "w\<lparr>mem := \<lambda>a. out_file g' ! unat (a - 0x80000000)\<rparr>"
    have pre: "(0x80000000 :: u64) \<noteq> 0 \<and> mem ?w = ?m \<and> holds ?m 0x80000000 (out_file g')" using h by simp
    from g'(2) pre have "HSS_Boot_ValidateImage 0x80000000 ?w \<and> payload_at ?m 0x80000000 demo_payload" by blast
    then show "HSS_Boot_ValidateImage 0x80000000 ?w" "payload_at ?m 0x80000000 demo_payload" by simp_all
  qed
  then show ?thesis using g'(1) by (auto simp: payload_at_def demo_chunks)
qed

theorem generated_payload_boots_witness:
  "\<forall>w. \<exists>g' w'. generate_payload None demo_payload = Some g'
    \<and> HSS_BootInit demo_media (demo_start (\<lambda>x. if x < length (out_file g') then out_file g' ! x else 0) (\<lambda>x. 0) w) = Some (True, w')
    \<and> HSS_Boot_ValidateImage (pBootImage w') w'"
proof
  fix w
  obtain g' where g': "generate_payload None demo_payload = Some g'"
    by (rule generate_payload_file [OF demo_payload_ok(1) no_key_ok])
  let ?A = "\<lambda>x. if x < length (out_file g') then out_file g' ! x else 0"
  have "\<forall>i < length (out_file g'). flash_byte w25n_view (w25n_with (\<lambda>r i. ?A (r * 2048 + i))) i = out_file g' ! i"
    using demo_fpga_byte [of ?A] by simp
  from generated_payload_boots [OF demo_payload_ok(1) no_key_ok demo_payload_ok(2) g' demo_payload_ok(3) this demo_ok(1-7), of "\<lambda>x. 0" w]
  show "\<exists>g' w'. generate_payload None demo_payload = Some g'
    \<and> HSS_BootInit demo_media (demo_start (\<lambda>x. if x < length (out_file g') then out_file g' ! x else 0) (\<lambda>x. 0) w) = Some (True, w')
    \<and> HSS_Boot_ValidateImage (pBootImage w') w'" using g' by blast
qed

theorem second_blob_hides_first_witness:
  "bh_firstChunk (bi_hart (boot_img (blob_handler [4, 5] 0x80001000 1 None (blob_handler [1, 2, 3] 0x80000000 1 None demo_gen))) ! 0) = 1"
  using second_blob_hides_first [of demo_gen 1 "[1, 2, 3]" "[4, 5]" "0x80001000" "0x80000000"]
  by (simp add: demo_gen_def demo_hart_def Let_def)

end
