(* ===== verification/HSS_OpenSbi.thy ===== *)
theory HSS_OpenSbi
  imports HSS_Ddr
begin

text \<open>
  What an application hart does with the requests that take it out of the monitor: the GOTO
  handler (services/goto/goto_service.c) and the OpenSBI handler with its set-up
  (services/opensbi/opensbi_service.c, init/hss_opensbi_init.c).  A handler that succeeds
  does not return: it ends in OpenSBI's \<^verbatim>\<open>sbi_hart_switch_mode\<close> or \<^verbatim>\<open>sbi_init\<close>, which are
  not modelled.  The definitions below therefore yield how the call ended together with the
  state at that moment; seen from the message bus (\<open>as_ipi_handler\<close>) a hart that has left is
  a call that never returns.
\<close>

subsection \<open>State\<close>

text \<open>The scratch area of a hart, as far as the code writes it.\<close>

record sbi_scratch =
  fw_start :: u64
  fw_size :: u64
  next_arg1 :: u64
  next_addr :: u64
  next_mode :: u64
  scratch_platform_addr :: u64
  scratch_hartid_to_scratch :: u64
  scratch_options :: u64

text \<open>
  \<open>pScratches\<close> says whether the pointer is set (null before the first set-up); the control
  registers are per hart, and \<open>csr_mscratch\<close> holds the hart whose scratch area it points to.
\<close>

record sbi_world = ddr_world +
  pScratches :: bool
  scratches :: "sbi_scratch list"
  csr_mstatus :: "u64 list"
  csr_mie :: "u64 list"
  csr_mscratch :: "hart option list"
  hss_start :: u64
  hss_end :: u64
  platform_address :: u64
  hartid_to_scratch_address :: u64
  sbi_impid :: nat

abbreviation (input) MSTATUS_MPIE :: u32 where "MSTATUS_MPIE \<equiv> 0x80"
abbreviation (input) SBI_SCRATCH_DEBUG_PRINTS :: u64 where "SBI_SCRATCH_DEBUG_PRINTS \<equiv> 2"
abbreviation (input) MPFS_HSS_SBI_IMPID :: nat where "MPFS_HSS_SBI_IMPID \<equiv> 8"

definition EXTRACT_FIELD :: "u32 \<Rightarrow> u32 \<Rightarrow> u32" where
  "EXTRACT_FIELD val which = (val AND which) div (which AND NOT (which - 1))"

text \<open>The four lines on the control registers that three functions share.\<close>

definition quiesce_csrs :: "hart \<Rightarrow> 'a sbi_world_scheme \<Rightarrow> 'a sbi_world_scheme" where
  "quiesce_csrs me w =
     (let mstatus_val = EXTRACT_FIELD (ucast (csr_mstatus w ! me)) MSTATUS_MPIE in
      w\<lparr>csr_mstatus := (csr_mstatus w)[me := ucast mstatus_val], csr_mie := (csr_mie w)[me := 0]\<rparr>)"

definition scratch_update :: "hart \<Rightarrow> (sbi_scratch \<Rightarrow> sbi_scratch) \<Rightarrow> 'a sbi_world_scheme \<Rightarrow> 'a sbi_world_scheme" where
  "scratch_update h f w = w\<lparr>scratches := (scratches w)[h := f (scratches w ! h)]\<rparr>"

definition opensbi_scratch_setup :: "hart \<Rightarrow> 'a sbi_world_scheme \<Rightarrow> 'a sbi_world_scheme option" where
  "opensbi_scratch_setup hartid w = do {
     assert_c (hartid < MAX_NUM_HARTS);
     Some (scratch_update hartid (\<lambda>s. s\<lparr>scratch_options := SBI_SCRATCH_DEBUG_PRINTS,
         scratch_hartid_to_scratch := hartid_to_scratch_address w, scratch_platform_addr := platform_address w,
         fw_start := hss_start w, fw_size := hss_end w - hss_start w\<rparr>) (w\<lparr>pScratches := True\<rparr>))
   }"

text \<open>The result is the hart whose area is meant, or a null pointer for hart 0.\<close>

definition l_hartid_to_scratch :: "hart \<Rightarrow> hart option option" where
  "l_hartid_to_scratch hartid = do {
     assert_c (hartid < MAX_NUM_HARTS);
     Some (if hartid \<noteq> 0 then Some hartid else None)
   }"

text \<open>
  On the monitor hart; \<open>console_init\<close> is OpenSBI's \<^verbatim>\<open>sbi_console_init\<close>, whose failure hangs
  the hart.  Elsewhere nothing happens.
\<close>

definition HSS_OpenSBI_Setup ::
    "(hart \<Rightarrow> 'a sbi_world_scheme \<Rightarrow> int) \<Rightarrow> hart \<Rightarrow> 'a sbi_world_scheme \<Rightarrow> 'a sbi_world_scheme option" where
  "HSS_OpenSBI_Setup console_init hartid w =
     (if hartid = HSS_HART_E51 then do {
        w1 \<leftarrow> opensbi_scratch_setup hartid (quiesce_csrs hartid w);
        assert_c (console_init hartid w1 = 0);
        Some w1
      } else Some w)"

definition HSS_OpenSBIInit ::
    "(hart \<Rightarrow> 'a sbi_world_scheme \<Rightarrow> int) \<Rightarrow> hart \<Rightarrow> 'a sbi_world_scheme \<Rightarrow> (bool \<times> 'a sbi_world_scheme) option" where
  "HSS_OpenSBIInit console_init me w =
     map_option (\<lambda>w1. (True, HSS_Trigger_Notify EVENT_OPENSBI_INITIALIZED w1)) (HSS_OpenSBI_Setup console_init me w)"

subsection \<open>Leaving the monitor\<close>

datatype u54_exit =
    Returned IPIStatusCode
  | Entered_sbi
  | Switched_mode u64 u32

text \<open>Acknowledge, release the request, find the message by its transaction id and clear it.\<close>

definition ack_and_take :: "hart \<Rightarrow> hart \<Rightarrow> u32 \<Rightarrow> 'a sbi_world_scheme \<Rightarrow> 'a sbi_world_scheme option" where
  "ack_and_take me source txid w = do {
     (_, w1) \<leftarrow> IPI_Send me source IPI_MSG_ACK_COMPLETE txid (ipi_status_code IPI_SUCCESS) 0 0 w;
     let (_, w2) = IPI_MessageUpdateStatus txid IPI_IDLE w1;
     index \<leftarrow> IPI_DirectionToFirstMsgInQueue source me;
     q \<leftarrow> nth_opt (ipi_queues w2) index;
     i \<leftarrow> find_index (\<lambda>m. transaction_id m = txid) (msgQ q);
     Some (queue_put index i ((msgQ q ! i)\<lparr>msg_type := IPI_MSG_NO_MESSAGE\<rparr>) w2)
   }"

definition CSR_ClearMSIP :: "hart \<Rightarrow> 'a ipi_data_scheme \<Rightarrow> 'a ipi_data_scheme option" where
  "CSR_ClearMSIP me w = do {
     assert_c (HSS_HART_U54_1 \<le> me \<and> me \<le> HSS_HART_U54_4);
     Some (w\<lparr>MSIP := (MSIP w)[me := 0]\<rparr>)
   }"

text \<open>
  If no slot carries the transaction id, the search runs off the end of the queue: \<open>None\<close>.
\<close>

definition GOTO_exit ::
    "hart \<Rightarrow> u32 \<Rightarrow> hart \<Rightarrow> u32 \<Rightarrow> u64 \<Rightarrow> u64 \<Rightarrow> 'a sbi_world_scheme \<Rightarrow> (u54_exit \<times> 'a sbi_world_scheme) option" where
  "GOTO_exit me txid source imm ext anc w =
     (if source \<noteq> HSS_HART_E51 then Some (Returned IPI_FAIL, w)
      else if me = HSS_HART_E51 then Some (Returned IPI_FAIL, w)
      else do {
        assert_c (ext \<noteq> 0);
        w1 \<leftarrow> ack_and_take me source txid w;
        w2 \<leftarrow> CSR_ClearMSIP me w1;
        w3 \<leftarrow> HSS_U54_SetState me HSS_State_Running (quiesce_csrs me w2);
        Some (Switched_mode ext imm, w3)
      })"

definition HSS_OpenSBI_DoBoot :: "hart \<Rightarrow> 'a sbi_world_scheme \<Rightarrow> (u54_exit \<times> 'a sbi_world_scheme) option" where
  "HSS_OpenSBI_DoBoot hartid w = do {
     w1 \<leftarrow> opensbi_scratch_setup hartid (quiesce_csrs hartid w);
     w2 \<leftarrow> mpfs_mark_hart_as_booted hartid w1;
     Some (Entered_sbi, w2)
   }"

text \<open>The scratch area is written through \<^verbatim>\<open>pScratches\<close> before \<^verbatim>\<open>HSS_OpenSBI_DoBoot\<close> sets that pointer again.\<close>

definition OpenSBI_exit ::
    "hart \<Rightarrow> u32 \<Rightarrow> hart \<Rightarrow> u32 \<Rightarrow> u64 \<Rightarrow> u64 \<Rightarrow> 'a sbi_world_scheme \<Rightarrow> (u54_exit \<times> 'a sbi_world_scheme) option" where
  "OpenSBI_exit me txid source imm ext anc w =
     (if source \<noteq> HSS_HART_E51 then Some (Returned IPI_FAIL, w)
      else if me = HSS_HART_E51 then Some (Returned IPI_FAIL, w)
      else do {
        w1 \<leftarrow> ack_and_take me source txid w;
        assert_c (pScratches w1 \<and> me < length (scratches w1));
        HSS_OpenSBI_DoBoot me
          (scratch_update me (\<lambda>s. s\<lparr>next_addr := ext, next_mode := ucast imm, next_arg1 := anc\<rparr>)
             (w1\<lparr>csr_mscratch := (csr_mscratch w1)[me := Some me]\<rparr>))
      })"

text \<open>As a handler of the bus: only a return is one.\<close>

definition as_ipi_handler ::
    "(u32 \<Rightarrow> hart \<Rightarrow> u32 \<Rightarrow> u64 \<Rightarrow> u64 \<Rightarrow> 'w \<Rightarrow> (u54_exit \<times> 'w) option) \<Rightarrow> 'w ipi_handler" where
  "as_ipi_handler h txid source imm ext anc w =
     (case h txid source imm ext anc w of Some (Returned st, w') \<Rightarrow> Some (st, w') | _ \<Rightarrow> None)"

definition HSS_GOTO_IPIHandler :: "hart \<Rightarrow> 'a sbi_world_scheme ipi_handler" where
  "HSS_GOTO_IPIHandler me = as_ipi_handler (GOTO_exit me)"

definition HSS_OpenSBI_IPIHandler :: "hart \<Rightarrow> 'a sbi_world_scheme ipi_handler" where
  "HSS_OpenSBI_IPIHandler me = as_ipi_handler (OpenSBI_exit me)"

text \<open>\<^verbatim>\<open>Scrub_IPIHandler\<close> only executes fences.\<close>

definition Scrub_IPIHandler :: "'a ipi_data_scheme ipi_handler" where
  "Scrub_IPIHandler txid source imm ext anc w = Some (IPI_IDLE, w)"

text \<open>The message index is used even when the allocation has failed, and then is not initialised: \<open>None\<close>.\<close>

definition HSS_OpenSBI_Reboot :: "hart \<Rightarrow> 'a sbi_world_scheme \<Rightarrow> 'a sbi_world_scheme option" where
  "HSS_OpenSBI_Reboot me w =
     (case IPI_MessageAlloc me w of
        (None, _) \<Rightarrow> None
      | (Some index, w1) \<Rightarrow> map_option snd (IPI_MessageDeliver me index HSS_HART_E51 IPI_MSG_BOOT_REQUEST 0 0 0 w1))"

subsection \<open>Their machines\<close>

definition two_state_machine :: "'w sm_handler \<Rightarrow> 'w sm_handler \<Rightarrow> 'w MachineDesc" where
  "two_state_machine h0 h1 = \<lparr> numStates = 2, pStateDescs =
     [\<lparr> sd_state = 0, state_onEntry = None, state_onExit = None, state_handler = Some h0 \<rparr>,
      \<lparr> sd_state = 1, state_onEntry = None, state_onExit = None, state_handler = Some h1 \<rparr>] \<rparr>"

definition goto_init_handler :: "'a sbi_world_scheme sm_handler" where
  "goto_init_handler m w = Some (set_state m (sm_state (machines w ! m) + 1) w)"

definition goto_idle_handler :: "'a sbi_world_scheme sm_handler" where
  "goto_idle_handler m w = Some w"

definition goto_service :: "'a sbi_world_scheme MachineDesc" where
  "goto_service = two_state_machine goto_init_handler goto_idle_handler"

definition opensbi_init_handler :: "'a sbi_world_scheme sm_handler" where
  "opensbi_init_handler m w = Some (set_state m (sm_state (machines w ! m) + 1) (w\<lparr>sbi_impid := MPFS_HSS_SBI_IMPID\<rparr>))"

definition opensbi_idle_handler :: "'a sbi_world_scheme sm_handler" where
  "opensbi_idle_handler m w = Some w"

definition opensbi_service :: "'a sbi_world_scheme MachineDesc" where
  "opensbi_service = two_state_machine opensbi_init_handler opensbi_idle_handler"

subsection \<open>What leaving does\<close>

lemma IPI_Send_other_queue:
  assumes "ipi_wf s" "peers me target" "IPI_Send me target message txid imm ext anc s = Some (b, s')"
    "k \<noteq> IPI_CalculateQueueIndex me target"
  shows "ipi_queues s' ! k = ipi_queues s ! k"
  using assms(3,4) by (auto simp: IPI_Send_unfold [OF assms(1,2) refl refl] split: option.splits)

abbreviation (input) ack_message :: "u32 \<Rightarrow> IPI_Outbox_Msg" where
  "ack_message txid \<equiv> \<lparr> msg_type = IPI_MSG_ACK_COMPLETE, transaction_id = txid,
     immediate_arg = ipi_status_code IPI_SUCCESS, p_extended_buffer_in_ddr = 0, p_ancilliary_buffer_in_ddr = 0 \<rparr>"

lemma update_status_outside: "outside_bus s (snd (IPI_MessageUpdateStatus txid st s))"
  by (simp add: IPI_MessageUpdateStatus_def outside_bus_def triggers.defs split: option.split)

lemma ack_and_take_spec:
  assumes wf: "ipi_wf w" and me: "me \<in> {1..4}"
    and i: "find_index (\<lambda>m. transaction_id m = txid) (msgQ (ipi_queues w ! IPI_CalculateQueueIndex 0 me)) = Some i"
    and m: "m = msgQ (ipi_queues w ! IPI_CalculateQueueIndex 0 me) ! i" "msg_type m \<noteq> IPI_MSG_NO_MESSAGE"
  shows "\<exists>w'. ack_and_take me 0 txid w = Some w' \<and> ipi_wf w' \<and> outside_bus w w'
    \<and> mailbox_of 0 me w = add_mset m (mailbox_of 0 me w')
    \<and> mailbox_of me 0 w' = mailbox_of me 0 w +
        (if size (mailbox_of me 0 w) < IPI_MAX_NUM_QUEUE_MESSAGES then {# ack_message txid #} else {#})"
proof -
  have p: "peers me 0" "peers 0 me" using me by (auto simp: peers_def)
  let ?k = "IPI_CalculateQueueIndex 0 me"
  have k: "?k < 20" "?k \<noteq> IPI_CalculateQueueIndex me 0" using peers_index [OF p(2)] peers_inject [OF p] p by (auto simp: peers_def)
  have ack: "IPI_MSG_ACK_COMPLETE \<noteq> IPI_MSG_NO_MESSAGE" by simp
  obtain b w1 where w1: "IPI_Send me 0 IPI_MSG_ACK_COMPLETE txid (ipi_status_code IPI_SUCCESS) 0 0 w = Some (b, w1)"
    "ipi_wf w1" "mailbox_of 0 me w1 = mailbox_of 0 me w"
    "mailbox_of me 0 w1 = mailbox_of me 0 w +
       (if size (mailbox_of me 0 w) < IPI_MAX_NUM_QUEUE_MESSAGES then {# ack_message txid #} else {#})"
    using IPI_Send_spec [OF wf p(1) ack, of txid "ipi_status_code IPI_SUCCESS" 0 0] p wf by (auto simp: peers_def split: if_splits)
  obtain b' w2 where w2: "IPI_MessageUpdateStatus txid IPI_IDLE w1 = (b', w2)" by (meson surj_pair)
  have q2: "ipi_queues w2 = ipi_queues w1" "ipi_wf w2" "mailbox_of a b w2 = mailbox_of a b w1" for a b
    using w1(2) update_status_frame [of txid IPI_IDLE w1] by (simp_all add: w2 mailbox_of_def)
  have qk: "ipi_queues w2 ! ?k = ipi_queues w ! ?k" using IPI_Send_other_queue [OF wf p(1) w1(1) k(2)] q2(1) by simp
  have len: "length (ipi_queues w2) = 20" "length (msgQ (ipi_queues w2 ! ?k)) = IPI_MAX_NUM_QUEUE_MESSAGES"
    using q2(2) k(1) by (auto simp: ipi_wf_def)
  have il: "i < IPI_MAX_NUM_QUEUE_MESSAGES" using i len(2) by (auto simp: qk)
  let ?w' = "queue_put ?k i (m\<lparr>msg_type := IPI_MSG_NO_MESSAGE\<rparr>) w2"
  have "ack_and_take me 0 txid w = Some ?w'"
    using w1(1) me k(1) len i m(1) qk by (auto simp: ack_and_take_def w2 IPI_DirectionToFirstMsgInQueue_def)
  moreover have "ipi_wf ?w'" using q2(2) k(1) by (rule ipi_wf_queue_put)
  moreover have "outside_bus w ?w'"
    using IPI_Send_outside [OF w1(1)] update_status_outside [of w1 txid IPI_IDLE] outside_bus_simps(1) [of w2]
    by (simp only: w2 snd_conv) (blast intro: outside_bus_trans)
  moreover have "mailbox_of 0 me w = add_mset m (mailbox_of 0 me ?w')"
    using pending_clear [of i "msgQ (ipi_queues w ! ?k)"] il k(1) len m qk
    by (simp add: mailbox_of_def is_message_def)
  moreover have "mailbox_of me 0 ?w' = mailbox_of me 0 w2"
    using k(2) by (simp add: mailbox_of_def nth_list_update)
  ultimately show ?thesis using w1(4) q2(3) by auto
qed


definition sbi_ready :: "'a sbi_world_scheme \<Rightarrow> bool" where
  "sbi_ready w \<longleftrightarrow> pScratches w \<and> length (scratches w) = 5 \<and> length (csr_mstatus w) = 5 \<and> length (csr_mie w) = 5
     \<and> length (csr_mscratch w) = 5 \<and> length (hart_ledger w) = 5"

lemma sbi_more: "ipi_data.more w' = ipi_data.more w \<Longrightarrow> scratches w' = scratches w \<and> sbi_ready w' = sbi_ready w
    \<and> hart_ledger w' = hart_ledger w \<and> csr_mstatus w' = csr_mstatus w \<and> hss_start w' = hss_start w \<and> hss_end w' = hss_end w"
  by (cases w; cases w') (simp add: sbi_ready_def)

lemma and_power: "(v :: 'a::len word) AND 2 ^ k = (if bit v k then 2 ^ k else 0)"
  by (rule bit_word_eqI) (auto simp: bit_and_iff bit_exp_iff)

lemma EXTRACT_MPIE: "EXTRACT_FIELD v MSTATUS_MPIE = (if bit v 7 then 1 else 0)"
proof -
  have "(0x80 :: u32) AND NOT (0x80 - 1) = 0x80" by simp
  moreover have "v AND 0x80 = (if bit v 7 then 0x80 else 0)" using and_power [of v 7] by simp
  ultimately show ?thesis by (simp add: EXTRACT_FIELD_def)
qed

text \<open>
  C17.  The hand-over to OpenSBI: when the monitor's request is taken from the queue, the hart
  acknowledges it, clears it, and enters OpenSBI with exactly the entry point, privilege
  mode and argument of the request in its own scratch area and in no other, marked as
  booted in the domain ledger, with interrupts masked.  Of the machine status register only
  the previous interrupt enable survives, moved to bit 0.
\<close>

theorem OpenSBI_exit_boots:
  assumes wf: "ipi_wf w" "sbi_ready w" and me: "me \<in> {1..4}"
    and i: "find_index (\<lambda>m. transaction_id m = txid) (msgQ (ipi_queues w ! IPI_CalculateQueueIndex 0 me)) = Some i"
    and m: "m = msgQ (ipi_queues w ! IPI_CalculateQueueIndex 0 me) ! i" "msg_type m \<noteq> IPI_MSG_NO_MESSAGE"
  shows "\<exists>w'. OpenSBI_exit me txid HSS_HART_E51 imm ext anc w = Some (Entered_sbi, w')
    \<and> next_addr (scratches w' ! me) = ext \<and> next_mode (scratches w' ! me) = ucast imm \<and> next_arg1 (scratches w' ! me) = anc
    \<and> fw_start (scratches w' ! me) = hss_start w \<and> fw_size (scratches w' ! me) = hss_end w - hss_start w
    \<and> (\<forall>h. h \<noteq> me \<longrightarrow> scratches w' ! h = scratches w ! h \<and> hart_ledger w' ! h = hart_ledger w ! h)
    \<and> csr_mscratch w' ! me = Some me \<and> hl_boot_pending (hart_ledger w' ! me) = 0
    \<and> csr_mie w' ! me = 0 \<and> csr_mstatus w' ! me = (if bit (csr_mstatus w ! me) 7 then 1 else 0)
    \<and> mailbox_of HSS_HART_E51 me w = add_mset m (mailbox_of HSS_HART_E51 me w')
    \<and> mailbox_of me HSS_HART_E51 w' = mailbox_of me HSS_HART_E51 w +
        (if size (mailbox_of me HSS_HART_E51 w) < IPI_MAX_NUM_QUEUE_MESSAGES then {# ack_message txid #} else {#})"
proof -
  obtain w1 where w1: "ack_and_take me 0 txid w = Some w1" "ipi_wf w1" "outside_bus w w1"
    "mailbox_of 0 me w = add_mset m (mailbox_of 0 me w1)"
    "mailbox_of me 0 w1 = mailbox_of me 0 w +
        (if size (mailbox_of me 0 w) < IPI_MAX_NUM_QUEUE_MESSAGES then {# ack_message txid #} else {#})"
    using ack_and_take_spec [OF wf(1) me i m] by blast
  have s: "scratches w1 = scratches w" "sbi_ready w1" "hart_ledger w1 = hart_ledger w" "csr_mstatus w1 = csr_mstatus w"
    "hss_start w1 = hss_start w" "hss_end w1 = hss_end w"
    using sbi_more [of w1 w] w1(3) wf(2) by (auto simp: outside_bus_def)
  let ?w2 = "scratch_update me (\<lambda>s. s\<lparr>next_addr := ext, next_mode := ucast imm, next_arg1 := anc\<rparr>)
             (w1\<lparr>csr_mscratch := (csr_mscratch w1)[me := Some me]\<rparr>)"
  have b: "bit (ucast (csr_mstatus w ! me) :: u32) 7 = bit (csr_mstatus w ! me) 7" by (simp add: bit_simps)
  obtain w3 where w3: "HSS_OpenSBI_DoBoot me ?w2 = Some (Entered_sbi, w3)"
    "mailbox_of a b w3 = mailbox_of a b w1" for a b
    using me s(2) by (auto simp: HSS_OpenSBI_DoBoot_def opensbi_scratch_setup_def quiesce_csrs_def scratch_update_def
        mpfs_mark_hart_as_booted_def ledger_update_def sbi_ready_def mailbox_of_def)
  have e: "OpenSBI_exit me txid 0 imm ext anc w = Some (Entered_sbi, w3)"
    using me w1(1) s(1,2) w3(1) by (simp add: OpenSBI_exit_def sbi_ready_def)
  show ?thesis
    using w3 e me s b w1(4,5)
    by (auto simp: HSS_OpenSBI_DoBoot_def opensbi_scratch_setup_def quiesce_csrs_def scratch_update_def
        mpfs_mark_hart_as_booted_def ledger_update_def sbi_ready_def EXTRACT_MPIE)
qed


definition opensbi_request :: IPI_Outbox_Msg where
  "opensbi_request = \<lparr> msg_type = IPI_MSG_OPENSBI_INIT, transaction_id = 7, immediate_arg = 1,
     p_extended_buffer_in_ddr = 0x80000000, p_ancilliary_buffer_in_ddr = 0 \<rparr>"

definition sbi_demo :: "'a sbi_world_scheme \<Rightarrow> 'a sbi_world_scheme" where
  "sbi_demo w = (queue_put (IPI_CalculateQueueIndex 0 1) 0 opensbi_request (snd (IPI_QueuesInit (w\<lparr>MSIP := replicate 5 0\<rparr>))))
     \<lparr>hartStates := replicate 5 0, hart_ledger := hart_ledger_reset, pScratches := True,
      scratches := replicate 5 \<lparr> fw_start = 0, fw_size = 0, next_arg1 = 0, next_addr = 0,
        next_mode = 0, scratch_platform_addr = 0, scratch_hartid_to_scratch = 0, scratch_options = 0 \<rparr>,
      csr_mstatus := replicate 5 0x80, csr_mie := replicate 5 0x888, csr_mscratch := replicate 5 None\<rparr>"

lemma sbi_demo:
  "ipi_wf (sbi_demo w)" "sbi_ready (sbi_demo w)"
  "find_index (\<lambda>m. transaction_id m = 7) (msgQ (ipi_queues (sbi_demo w) ! IPI_CalculateQueueIndex 0 1)) = Some 0"
  "opensbi_request = msgQ (ipi_queues (sbi_demo w) ! IPI_CalculateQueueIndex 0 1) ! 0"
  "csr_mstatus (sbi_demo w) ! 1 = 0x80"
proof -
  have k: "IPI_CalculateQueueIndex 0 1 < 20" by (rule peers_index) (simp add: peers_def)
  have "ipi_wf (snd (IPI_QueuesInit (w\<lparr>MSIP := replicate 5 0\<rparr>)))" by (rule ipi_wf_QueuesInit) simp
  then have wf: "ipi_wf (queue_put (IPI_CalculateQueueIndex 0 1) 0 opensbi_request (snd (IPI_QueuesInit (w\<lparr>MSIP := replicate 5 0\<rparr>))))"
    using k by (rule ipi_wf_queue_put)
  then show "ipi_wf (sbi_demo w)" by (simp add: sbi_demo_def ipi_wf_def)
  show "sbi_ready (sbi_demo w)" by (simp add: sbi_demo_def sbi_ready_def hart_ledger_reset_def)
  have q: "msgQ (ipi_queues (sbi_demo w) ! IPI_CalculateQueueIndex 0 1) = opensbi_request # replicate 7 zero_msg"
  proof -
    have "replicate 8 zero_msg = zero_msg # replicate 7 zero_msg" by (simp add: numeral_eq_Suc)
    then show ?thesis using k
      by (simp add: sbi_demo_def queue_put_def IPI_QueuesInit_def zero_queue_def IPI_MAX_NUM_QUEUE_MESSAGES_def Let_def)
  qed
  show "find_index (\<lambda>m. transaction_id m = 7) (msgQ (ipi_queues (sbi_demo w) ! IPI_CalculateQueueIndex 0 1)) = Some 0"
    "opensbi_request = msgQ (ipi_queues (sbi_demo w) ! IPI_CalculateQueueIndex 0 1) ! 0"
    by (simp_all only: q) (simp_all add: opensbi_request_def)
  show "csr_mstatus (sbi_demo w) ! 1 = 0x80" by (simp add: sbi_demo_def)
qed

theorem OpenSBI_exit_boots_witness:
  "\<forall>w :: sbi_world. \<exists>w'. OpenSBI_exit 1 7 HSS_HART_E51 1 0x80000000 0 (sbi_demo w) = Some (Entered_sbi, w')
     \<and> next_addr (scratches w' ! 1) = 0x80000000 \<and> csr_mstatus w' ! 1 = 1"
proof
  fix w :: sbi_world
  have m: "(1 :: hart) \<in> {1..4}" "msg_type opensbi_request \<noteq> IPI_MSG_NO_MESSAGE" by (simp_all add: opensbi_request_def)
  obtain w' where w': "OpenSBI_exit 1 7 HSS_HART_E51 1 0x80000000 0 (sbi_demo w) = Some (Entered_sbi, w')"
    "next_addr (scratches w' ! 1) = 0x80000000" "csr_mstatus w' ! 1 = (if bit (csr_mstatus (sbi_demo w) ! 1) 7 then 1 else 0)"
    using OpenSBI_exit_boots [OF sbi_demo(1,2) m(1) sbi_demo(3,4) m(2), where imm = 1 and ext = "0x80000000" and anc = 0]
    by blast
  have "csr_mstatus w' ! 1 = 1" unfolding w'(3) sbi_demo(5) by simp
  then show "\<exists>w'. OpenSBI_exit 1 7 HSS_HART_E51 1 0x80000000 0 (sbi_demo w) = Some (Entered_sbi, w')
     \<and> next_addr (scratches w' ! 1) = 0x80000000 \<and> csr_mstatus w' ! 1 = 1" using w'(1,2) by blast
qed

text \<open>
  No hart leaves the monitor on its own or on another application hart's word: both
  handlers either refuse and change nothing, or run on an application hart, for a request
  of the monitor hart whose transaction id is in its queue.
\<close>

theorem u54_exit_policy:
  assumes "OpenSBI_exit me txid source imm ext anc w = Some (e, w') \<or> GOTO_exit me txid source imm ext anc w = Some (e, w')"
  shows "if source \<noteq> HSS_HART_E51 \<or> me = HSS_HART_E51 then e = Returned IPI_FAIL \<and> w' = w
    else e \<in> {Entered_sbi, Switched_mode ext imm} \<and> (e = Switched_mode ext imm \<longrightarrow> ext \<noteq> 0)
      \<and> (\<exists>w1. ack_and_take me source txid w = Some w1)"
  using assms by (auto simp: OpenSBI_exit_def GOTO_exit_def HSS_OpenSBI_DoBoot_def Option.bind_eq_Some_conv split: if_splits)

theorem u54_exit_policy_witness:
  "\<forall>w :: sbi_world. OpenSBI_exit 1 7 2 1 0x80000000 0 w = Some (Returned IPI_FAIL, w)"
proof
  fix w :: sbi_world
  obtain e w' where "OpenSBI_exit 1 7 2 1 0x80000000 0 w = Some (e, w')" by (simp add: OpenSBI_exit_def)
  with u54_exit_policy [where me = 1 and txid = 7 and source = 2 and imm = 1 and ext = "0x80000000" and anc = 0 and w = w and e = e and w' = w']
  show "OpenSBI_exit 1 7 2 1 0x80000000 0 w = Some (Returned IPI_FAIL, w)" by simp
qed

end
