(* ===== verification/HSS_Scrub.thy ===== *)
theory HSS_Scrub
  imports HSS_OpenSbi
begin

text \<open>
  The RAM scrubber (services/scrub/scrub_service.c), in the reference configuration: every
  256th run of its handler reads the next chunk of at most 4096 bytes of the regions in
  turn, and every now and then one cache is flushed.  What is read is an observable of the
  state: the addresses go to the end of \<open>scrub_reads\<close>, the way masks set while the second
  level cache is flushed to the end of \<open>way_writes\<close>.  Writing the atomic \<^verbatim>\<open>OR\<close> with zero to
  the one region that wants it leaves its memory as it is and counts as a read.
\<close>

subsection \<open>State and operations\<close>

record scrub_world = sbi_world +
  rams :: "(u64 \<times> u64 \<times> bool) list"
  scrub_offset :: u64
  scrub_idx :: nat
  entryCount :: u64
  scrub_reads :: "u64 list"
  trigger_cache_flush :: u64
  last_peer :: hart
  l2_cache_ways :: nat
  way_mask_E51_DCACHE :: u64
  way_writes :: "u64 list"

abbreviation (input) SCRUB_MAX_SIZE_PER_LOOP_ITER :: u64 where "SCRUB_MAX_SIZE_PER_LOOP_ITER \<equiv> 4096"
abbreviation (input) SCRUB_RUN_EVERY_X_SUPERLOOPS :: u64 where "SCRUB_RUN_EVERY_X_SUPERLOOPS \<equiv> 256"
abbreviation (input) SCRUB_CACHES_TRIGGER_SETPOINT :: u64 where "SCRUB_CACHES_TRIGGER_SETPOINT \<equiv> 1000000"

definition ram_base :: "nat \<Rightarrow> 'a scrub_world_scheme \<Rightarrow> u64" where "ram_base i w = fst (rams w ! i)"
definition ram_end :: "nat \<Rightarrow> 'a scrub_world_scheme \<Rightarrow> u64" where "ram_end i w = fst (snd (rams w ! i))"

text \<open>The loop over the chunk; with addresses that wrap it need not end.\<close>

partial_function (option) read_dwords :: "u64 \<Rightarrow> u64 \<Rightarrow> u64 list \<Rightarrow> u64 list option" where
  "read_dwords p e acc = (if p < e then read_dwords (p + 8) e (acc @ [p]) else Some acc)"

text \<open>The part of the handler under \<^verbatim>\<open>if (!entryCount)\<close>.\<close>

definition scrub_chunk :: "'a scrub_world_scheme \<Rightarrow> 'a scrub_world_scheme option" where
  "scrub_chunk w =
     (let w1 = (if ram_base (scrub_idx w) w + scrub_offset w \<ge> ram_end (scrub_idx w) w
                then w\<lparr>scrub_idx := (scrub_idx w + 1) mod length (rams w), scrub_offset := 0\<rparr> else w);
          len = ram_end (scrub_idx w1) w1 - ram_base (scrub_idx w1) w1
      in if len \<noteq> 0 then do {
           let chunkSize = min SCRUB_MAX_SIZE_PER_LOOP_ITER (len - scrub_offset w1);
           let chunkStartAddr = ram_base (scrub_idx w1) w1 + scrub_offset w1;
           reads \<leftarrow> read_dwords chunkStartAddr (chunkStartAddr + chunkSize) (scrub_reads w1);
           Some (w1\<lparr>scrub_reads := reads, scrub_offset := scrub_offset w1 + chunkSize\<rparr>)
         } else Some w1)"

text \<open>
  Flushing the second level cache: the mask of the ways is set to one way at a time, and
  restored from a variable of type \<^verbatim>\<open>unsigned char\<close>.  In between the zero device is read, a
  sixteenth of the cache at a time; the values are dropped, so that these reads have no effect
  on the state here.
\<close>

definition flush_l2 :: "'a scrub_world_scheme \<Rightarrow> 'a scrub_world_scheme" where
  "flush_l2 w =
     (let e51_dcache_config = (ucast (way_mask_E51_DCACHE w) :: u8) in
      w\<lparr>way_writes := way_writes w @ map (\<lambda>n. push_bit n 1) [0..<l2_cache_ways w],
        way_mask_E51_DCACHE := ucast e51_dcache_config\<rparr>)"

definition scrub_caches :: "'a scrub_world_scheme \<Rightarrow> 'a scrub_world_scheme option" where
  "scrub_caches w =
     (if trigger_cache_flush w > SCRUB_CACHES_TRIGGER_SETPOINT then do {
        (_, w1) \<leftarrow> IPI_Send HSS_HART_E51 (last_peer w) IPI_MSG_SCRUB 0 0 0 0 w;
        let w2 = w1\<lparr>trigger_cache_flush := 0, last_peer := last_peer w1 + 1\<rparr>;
        Some (if last_peer w2 \<ge> HSS_HART_NUM_PEERS then (flush_l2 w2)\<lparr>last_peer := HSS_HART_U54_1\<rparr> else w2)
      } else Some (w\<lparr>trigger_cache_flush := trigger_cache_flush w + 1\<rparr>))"

definition scrub_init_handler :: "'a scrub_world_scheme sm_handler" where
  "scrub_init_handler m w = Some
     (if HSS_Trigger_IsNotified True EVENT_DDR_TRAINED w then set_state m (sm_state (machines w ! m) + 1) w else w)"

definition scrub_scrubbing_handler :: "'a scrub_world_scheme sm_handler" where
  "scrub_scrubbing_handler m w = do {
     w1 \<leftarrow> (if length (rams w) \<noteq> 0 \<and> entryCount w = 0 then scrub_chunk w else Some w);
     w2 \<leftarrow> scrub_caches w1;
     Some (w2\<lparr>entryCount := (entryCount w2 + 1) mod SCRUB_RUN_EVERY_X_SUPERLOOPS\<rparr>)
   }"

definition scrub_service :: "'a scrub_world_scheme MachineDesc" where
  "scrub_service = two_state_machine scrub_init_handler scrub_scrubbing_handler"

subsection \<open>One region\<close>

text \<open>The double words from \<open>p\<close> on.\<close>

definition dwords :: "u64 \<Rightarrow> nat \<Rightarrow> u64 list" where
  "dwords p n = map (\<lambda>i. p + 8 * of_nat i) [0..<n]"

lemma dwords_append: "dwords p n @ dwords (p + 8 * of_nat n) k = dwords p (n + k)"
proof -
  have "[0..<n + k] = [0..<n] @ map (\<lambda>i. i + n) [0..<k]"
    using upt_add_eq_append [of 0 n k] by (simp add: map_add_upt add.commute [of k n])
  then show ?thesis by (simp add: dwords_def comp_def algebra_simps)
qed

lemma dwords_Suc: "dwords p (Suc n) = p # dwords (p + 8) n"
  by (simp add: dwords_def upt_conv_Cons map_Suc_upt [symmetric] algebra_simps del: upt_Suc)

lemma read_dwords_all:
  "unat p + 8 * n < 2 ^ 64 \<Longrightarrow> read_dwords p (p + of_nat (8 * n)) acc = Some (acc @ dwords p n)"
proof (induction n arbitrary: p acc)
  case 0
  then show ?case by (simp add: read_dwords.simps dwords_def)
next
  case (Suc n)
  have u: "unat (p + of_nat (8 * Suc n)) = unat p + 8 * Suc n" using Suc.prems by (intro unat_plus_nowrap) simp
  have "p < p + of_nat (8 * Suc n)" using u by (simp add: word_less_nat_alt)
  then have "read_dwords p (p + of_nat (8 * Suc n)) acc = read_dwords (p + 8) (p + of_nat (8 * Suc n)) (acc @ [p])"
    by (subst read_dwords.simps) simp
  moreover have "p + of_nat (8 * Suc n) = p + 8 + of_nat (8 * n)" by simp
  moreover have "unat (p + 8) = unat p + 8" using unat_plus_nowrap [of p 8] Suc.prems by simp
  ultimately show ?case using Suc.IH [of "p + 8" "acc @ [p]"] Suc.prems by (simp add: dwords_Suc add.assoc)
qed

text \<open>A region of \<open>n\<close> double words that the map does not wrap around.\<close>

definition region :: "nat \<Rightarrow> nat \<Rightarrow> 'a scrub_world_scheme \<Rightarrow> bool" where
  "region i n w \<longleftrightarrow> i < length (rams w) \<and> ram_end i w = ram_base i w + of_nat (8 * n) \<and> unat (ram_base i w) + 8 * n < 2 ^ 64"


definition scrub_pos :: "'a scrub_world_scheme \<Rightarrow> (u64 \<times> u64 \<times> bool) list \<times> nat \<times> u64 \<times> u64 list" where
  "scrub_pos w = (rams w, scrub_idx w, scrub_offset w, scrub_reads w)"

lemma min_dwords:
  assumes "unat (of_nat (8 * d) :: u64) = 8 * d"
  shows "min 4096 (of_nat (8 * d)) = (of_nat (8 * min d 512) :: u64)"
proof (cases "512 \<le> d")
  case True
  then have "(4096 :: u64) \<le> of_nat (8 * d)" using assms by (simp add: word_le_nat_alt)
  then show ?thesis using True by (simp add: min_def)
next
  case False
  then have "(of_nat (8 * d) :: u64) \<le> 4096" using assms by (simp add: word_le_nat_alt)
  then show ?thesis using False by (simp add: min_absorb2)
qed

lemma scrub_chunk_within:
  assumes r: "region i n w" "scrub_idx w = i" and j: "scrub_offset w = of_nat (8 * j)" "j < n"
  shows "\<exists>w1. scrub_chunk w = Some w1 \<and> ipi_wf w1 = ipi_wf w \<and> last_peer w1 = last_peer w \<and> entryCount w1 = entryCount w
    \<and> scrub_pos w1 = (rams w, i, of_nat (8 * min n (j + 512)),
        scrub_reads w @ dwords (ram_base i w + of_nat (8 * j)) (min n (j + 512) - j))"
proof -
  let ?b = "ram_base i w" and ?k = "min n (j + 512) - j"
  have e: "ram_end i w = ?b + of_nat (8 * n)" and nw: "unat ?b + 8 * n < 2 ^ 64" using r(1) by (auto simp: region_def)
  have n: "8 * n < 2 ^ 64" "n < 2 ^ 61" using nw by simp_all
  have u: "unat (of_nat (8 * x) :: u64) = 8 * x" if "x \<le> n" for x using that n(1) by (intro unat_of_nat_small) simp
  have ub: "unat (?b + of_nat (8 * x)) = unat ?b + 8 * x" if "x \<le> n" for x
    using that nw by (intro unat_plus_nowrap) simp
  have c: "\<not> ram_end i w \<le> ?b + of_nat (8 * j)" using ub [of j] ub [of n] j(2) e by (simp add: word_le_nat_alt)
  have len: "ram_end i w - ?b = of_nat (8 * n)" using e by simp
  have "of_nat (8 * n) - of_nat (8 * j) = (of_nat (8 * (n - j)) :: u64)" using j(2) by (simp add: of_nat_diff algebra_simps)
  moreover have "unat (of_nat (8 * (n - j)) :: u64) = 8 * (n - j)" by (rule u) simp
  moreover have "?k = min (n - j) 512" using j(2) by simp
  ultimately have chunk: "min 4096 (of_nat (8 * n) - of_nat (8 * j)) = (of_nat (8 * ?k) :: u64)"
    by (simp only: min_dwords)
  have "read_dwords (?b + of_nat (8 * j)) (?b + of_nat (8 * j) + of_nat (8 * ?k)) acc
      = Some (acc @ dwords (?b + of_nat (8 * j)) ?k)" for acc
    using ub [of j] j(2) nw by (intro read_dwords_all) simp
  moreover have "of_nat (8 * j) + of_nat (8 * ?k) = (of_nat (8 * min n (j + 512)) :: u64)" using j(2) by (simp flip: of_nat_add)
  moreover have "(of_nat (8 * n) :: u64) \<noteq> 0" using u [of n] j(2) by (auto simp: unat_eq_0 [symmetric] simp del: unat_eq_0)
  then have "ram_end i w \<noteq> ram_base i w" using len by auto
  ultimately show ?thesis
    using r c len chunk j unfolding scrub_chunk_def by (simp add: scrub_pos_def ipi_wf_def Let_def)
qed


subsection \<open>The handler\<close>

definition scrub_ready :: "'a scrub_world_scheme \<Rightarrow> bool" where
  "scrub_ready w \<longleftrightarrow> ipi_wf w \<and> last_peer w \<in> {1..4} \<and> rams w \<noteq> []"

lemma scrub_more: "ipi_data.more w' = ipi_data.more w \<Longrightarrow> scrub_pos w' = scrub_pos w \<and> last_peer w' = last_peer w
    \<and> entryCount w' = entryCount w \<and> way_mask_E51_DCACHE w' = way_mask_E51_DCACHE w"
  by (cases w; cases w') (simp add: scrub_pos_def)

lemma scrub_caches_safe:
  assumes "scrub_ready w"
  shows "\<exists>w'. scrub_caches w = Some w' \<and> scrub_ready w' \<and> scrub_pos w' = scrub_pos w \<and> entryCount w' = entryCount w"
proof (cases "trigger_cache_flush w > SCRUB_CACHES_TRIGGER_SETPOINT")
  case True
  have p: "peers 0 (last_peer w)" "IPI_MSG_SCRUB \<noteq> IPI_MSG_NO_MESSAGE" and wf: "ipi_wf w"
    using assms by (auto simp: scrub_ready_def peers_def)
  obtain b w1 where w1: "IPI_Send 0 (last_peer w) IPI_MSG_SCRUB 0 0 0 0 w = Some (b, w1)" "ipi_wf w1"
    using IPI_Send_spec [OF wf p, of 0 0 0 0] wf by (auto split: if_splits)
  note m = scrub_more [OF IPI_Send_more [OF w1(1)]]
  then show ?thesis
    using True w1 assms by (auto simp: scrub_caches_def scrub_ready_def scrub_pos_def flush_l2_def ipi_wf_def Let_def)
next
  case False
  then show ?thesis using assms by (auto simp: scrub_caches_def scrub_ready_def scrub_pos_def ipi_wf_def)
qed

lemma entryCount_step: "e < 256 \<Longrightarrow> ((of_nat e :: u64) + 1) mod 256 = of_nat (Suc e mod 256)"
proof -
  assume e: "e < 256"
  have "unat ((of_nat e :: u64) + 1) = Suc e" using unat_of_nat_small [of "Suc e"] e by (simp add: add.commute)
  then have "unat (((of_nat e :: u64) + 1) mod 256) = Suc e mod 256" by (simp add: unat_mod)
  moreover have "unat (of_nat (Suc e mod 256) :: u64) = Suc e mod 256" by (rule unat_of_nat_small) simp
  ultimately show ?thesis by (simp add: word_unat_eq_iff)
qed

lemma scrub_handler_waits:
  assumes "scrub_ready w" "entryCount w = of_nat e" "0 < e" "e < 256"
  shows "\<exists>w'. scrub_scrubbing_handler m w = Some w' \<and> scrub_ready w' \<and> scrub_pos w' = scrub_pos w
    \<and> entryCount w' = of_nat (Suc e mod 256)"
proof -
  have "entryCount w \<noteq> 0" using assms(2-4) unat_of_nat_small [of e] by (auto simp: unat_eq_0 [symmetric] simp del: unat_eq_0)
  moreover obtain w' where "scrub_caches w = Some w'" "scrub_ready w'" "scrub_pos w' = scrub_pos w" "entryCount w' = entryCount w"
    using scrub_caches_safe [OF assms(1)] by blast
  ultimately show ?thesis using entryCount_step [OF assms(4)] assms(2)
    by (simp add: scrub_scrubbing_handler_def scrub_ready_def scrub_pos_def ipi_wf_def)
qed

lemma scrub_handler_works:
  assumes "scrub_ready w" "entryCount w = 0" "scrub_chunk w = Some w1" "ipi_wf w1" "last_peer w1 = last_peer w"
    "rams w1 = rams w" "entryCount w1 = entryCount w"
  shows "\<exists>w'. scrub_scrubbing_handler m w = Some w' \<and> scrub_ready w' \<and> scrub_pos w' = scrub_pos w1
    \<and> entryCount w' = 1"
proof -
  have "scrub_ready w1" using assms by (simp add: scrub_ready_def)
  then obtain w' where "scrub_caches w1 = Some w'" "scrub_ready w'" "scrub_pos w' = scrub_pos w1" "entryCount w' = entryCount w1"
    using scrub_caches_safe by blast
  then show ?thesis using assms by (simp add: scrub_scrubbing_handler_def scrub_ready_def scrub_pos_def ipi_wf_def)
qed

lemma handle_times_add: "handle_times (n + k) h m w = Option.bind (handle_times n h m w) (handle_times k h m)"
  by (induction k) (simp_all split: bind_splits)

lemma scrub_waits:
  "scrub_ready w \<Longrightarrow> entryCount w = of_nat e \<Longrightarrow> 0 < e \<Longrightarrow> e < 256 \<Longrightarrow> e + k \<le> 256 \<Longrightarrow>
     \<exists>w'. handle_times k scrub_scrubbing_handler m w = Some w' \<and> scrub_ready w' \<and> scrub_pos w' = scrub_pos w
       \<and> entryCount w' = of_nat ((e + k) mod 256)"
proof (induction k)
  case 0
  then show ?case by simp
next
  case (Suc k)
  then obtain v where v: "handle_times k scrub_scrubbing_handler m w = Some v" "scrub_ready v" "scrub_pos v = scrub_pos w"
    "entryCount v = of_nat (e + k)" by auto
  from scrub_handler_waits [OF v(2,4)] Suc.prems obtain w' where
    "scrub_scrubbing_handler m v = Some w'" "scrub_ready w'" "scrub_pos w' = scrub_pos v" "entryCount w' = of_nat (Suc (e + k) mod 256)"
    by auto
  then show ?case using v by simp
qed


text \<open>256 runs read one chunk.\<close>

lemma scrub_round:
  assumes w: "scrub_ready w" "entryCount w = 0" and r: "region i n w" "scrub_idx w = i"
    and j: "scrub_offset w = of_nat (8 * j)" "j < n"
  shows "\<exists>w'. handle_times 256 scrub_scrubbing_handler m w = Some w' \<and> scrub_ready w' \<and> entryCount w' = 0
    \<and> scrub_pos w' = (rams w, i, of_nat (8 * min n (j + 512)),
        scrub_reads w @ dwords (ram_base i w + of_nat (8 * j)) (min n (j + 512) - j))"
proof -
  obtain w1 where w1: "scrub_chunk w = Some w1" "ipi_wf w1 = ipi_wf w" "last_peer w1 = last_peer w" "entryCount w1 = entryCount w"
    "scrub_pos w1 = (rams w, i, of_nat (8 * min n (j + 512)),
        scrub_reads w @ dwords (ram_base i w + of_nat (8 * j)) (min n (j + 512) - j))"
    using scrub_chunk_within [OF r j] by blast
  then have "ipi_wf w1" "rams w1 = rams w" using w(1) by (simp_all add: scrub_ready_def scrub_pos_def)
  then obtain w2 where w2: "scrub_scrubbing_handler m w = Some w2" "scrub_ready w2" "scrub_pos w2 = scrub_pos w1" "entryCount w2 = 1"
    using scrub_handler_works [OF w w1(1)] w1(3,4) by blast
  then obtain w' where "handle_times 255 scrub_scrubbing_handler m w2 = Some w'" "scrub_ready w'" "scrub_pos w' = scrub_pos w2"
    "entryCount w' = 0" using scrub_waits [of w2 1 255 m] by auto
  moreover have "handle_times (1 + 255) scrub_scrubbing_handler m w = handle_times 255 scrub_scrubbing_handler m w2"
    unfolding handle_times_add by (simp add: w2(1))
  ultimately show ?thesis using w2 w1(5) by simp
qed

lemma scrub_rounds:
  assumes w: "scrub_ready w" "entryCount w = 0" and r: "region i n w" "scrub_idx w = i" and o: "scrub_offset w = 0"
  shows "512 * c < n + 512 \<Longrightarrow> \<exists>w'. handle_times (256 * c) scrub_scrubbing_handler m w = Some w' \<and> scrub_ready w' \<and> entryCount w' = 0
    \<and> scrub_pos w' = (rams w, i, of_nat (8 * min n (512 * c)), scrub_reads w @ dwords (ram_base i w) (min n (512 * c)))"
proof (induction c)
  case 0
  then show ?case using assms by (simp add: scrub_pos_def dwords_def)
next
  case (Suc c)
  let ?j = "512 * c"
  have j: "?j < n" "min n ?j = ?j" using Suc.prems by simp_all
  obtain v where v: "handle_times (256 * c) scrub_scrubbing_handler m w = Some v" "scrub_ready v" "entryCount v = 0"
    "scrub_pos v = (rams w, i, of_nat (8 * ?j), scrub_reads w @ dwords (ram_base i w) ?j)"
    using Suc.IH j(1) unfolding j(2) by auto
  then have p: "rams v = rams w" "scrub_idx v = i" "scrub_offset v = of_nat (8 * ?j)"
    "scrub_reads v = scrub_reads w @ dwords (ram_base i w) ?j" by (simp_all add: scrub_pos_def)
  have rv: "region i n v" "ram_base i v = ram_base i w" using r(1) p(1) by (simp_all add: region_def ram_base_def ram_end_def)
  obtain w' where w': "handle_times 256 scrub_scrubbing_handler m v = Some w'" "scrub_ready w'" "entryCount w' = 0"
    "scrub_pos w' = (rams v, i, of_nat (8 * min n (?j + 512)),
        scrub_reads v @ dwords (ram_base i v + of_nat (8 * ?j)) (min n (?j + 512) - ?j))"
    using scrub_round [OF v(2,3) rv(1) p(2,3) j(1), of m] by blast
  have "dwords (ram_base i w) ?j @ dwords (ram_base i w + of_nat (8 * ?j)) (min n (?j + 512) - ?j) = dwords (ram_base i w) (min n (?j + 512))"
    using dwords_append [of "ram_base i w" ?j "min n (?j + 512) - ?j"] j(1) by simp
  moreover have "handle_times (256 * Suc c) scrub_scrubbing_handler m w = Some w'"
    using handle_times_add [of "256 * c" 256 scrub_scrubbing_handler m w] v(1) w'(1) by (simp add: add.commute)
  moreover have e: "512 * Suc c = ?j + 512" by simp
  ultimately show ?case unfolding e using w'(2-4) p(1,4) rv(2) by simp
qed

text \<open>
  C18.  The scrubber misses nothing: a region of \<open>n\<close> double words is read completely, each
  double word once and in order, in 256 runs of the handler per 4096 bytes or part of them,
  whatever the cache flushes in between do, and nothing else is read.
\<close>

theorem scrub_region_complete:
  assumes "scrub_ready w" "entryCount w = 0" "region (scrub_idx w) n w" "scrub_offset w = 0"
  shows "\<exists>w'. handle_times (256 * ((n + 511) div 512)) scrub_scrubbing_handler m w = Some w'
    \<and> scrub_reads w' = scrub_reads w @ dwords (ram_base (scrub_idx w) w) n
    \<and> scrub_idx w' = scrub_idx w \<and> scrub_offset w' = of_nat (8 * n) \<and> entryCount w' = 0"
proof -
  let ?c = "(n + 511) div 512"
  have c: "512 * ?c < n + 512" "min n (512 * ?c) = n" by simp_all
  obtain w' where w': "handle_times (256 * ?c) scrub_scrubbing_handler m w = Some w'" "entryCount w' = 0"
    "scrub_pos w' = (rams w, scrub_idx w, of_nat (8 * n), scrub_reads w @ dwords (ram_base (scrub_idx w) w) n)"
    using scrub_rounds [OF assms(1-3) refl assms(4) c(1), of m] unfolding c(2) by blast
  then show ?thesis by (simp add: scrub_pos_def)
qed

definition scrub_demo :: "'a scrub_world_scheme \<Rightarrow> 'a scrub_world_scheme" where
  "scrub_demo w = (snd (IPI_QueuesInit (w\<lparr>MSIP := replicate 5 0\<rparr>)))\<lparr>rams := [(0x0A000000, 0x0A001008, False)],
     scrub_idx := 0, scrub_offset := 0, entryCount := 0, scrub_reads := [], trigger_cache_flush := 0, last_peer := 1\<rparr>"

theorem scrub_region_complete_witness:
  "\<forall>w :: scrub_world. \<exists>w'. handle_times 512 scrub_scrubbing_handler 0 (scrub_demo w) = Some w'
     \<and> scrub_reads w' = dwords 0x0A000000 513"
proof
  fix w :: scrub_world
  have "scrub_ready (scrub_demo w)" "entryCount (scrub_demo w) = 0" "region (scrub_idx (scrub_demo w)) 513 (scrub_demo w)"
    "scrub_offset (scrub_demo w) = 0"
    using ipi_wf_QueuesInit [of "w\<lparr>MSIP := replicate 5 0\<rparr>"]
    by (simp_all add: scrub_ready_def scrub_demo_def region_def ram_base_def ram_end_def ipi_wf_def)
  from scrub_region_complete [OF this, of 0]
  show "\<exists>w'. handle_times 512 scrub_scrubbing_handler 0 (scrub_demo w) = Some w' \<and> scrub_reads w' = dwords 0x0A000000 513"
    by (auto simp: scrub_demo_def ram_base_def)
qed

text \<open>
  Flushing the second level cache loses ways: the monitor's way mask is saved in eight
  bits, so of a mask that enables all sixteen ways only eight are restored.
\<close>

theorem flush_l2_loses_ways:
  "way_mask_E51_DCACHE (flush_l2 w) = way_mask_E51_DCACHE w AND 0xFF"
proof -
  have "(ucast (ucast x :: u8) :: u64) = take_bit 8 x" for x :: u64 by (rule bit_word_eqI) (auto simp: bit_simps)
  then show ?thesis by (simp add: flush_l2_def take_bit_eq_mask mask_eq_exp_minus_1)
qed

end
