(* ===== verification/HSS_Health.thy ===== *)
theory HSS_Health
  imports HSS_Scrub
begin

text \<open>
  The health monitor (services/healthmon/healthmon_service.c) with the monitors of the
  reference board (boards/scai-dpu250/healthmon_monitors.c): every pass of the super loop
  reads the registers whose throttle has run out, compares each with its limits and reports
  what it finds.  A device register is an input, like the clock: what the \<open>n\<close>-th access of
  the bus returns is given by the oracles \<open>reg32\<close> and \<open>reg64\<close>, about which nothing is
  assumed.  The lines on the console are collected, as their arguments, in
  \<open>health_reports\<close>.
\<close>

subsection \<open>Data\<close>

datatype HealthMon_CheckType = ABOVE_THRESHOLD | BELOW_THRESHOLD | ABOVE_OR_BELOW_THRESHOLD
  | EQUAL_TO_VALUE | NOT_EQUAL_TO_VALUE | CHANGED_SINCE_LAST

record 'w HealthMonitor =
  hm_pName :: string
  hm_pAddr :: u64
  hm_checkType :: HealthMon_CheckType
  hm_maxValue :: u64
  hm_minValue :: u64
  hm_shift :: u8
  hm_mask :: u64
  hm_triggerCallback :: "(u64 \<Rightarrow> 'w \<Rightarrow> 'w) option"
  hm_throttleScale :: u32

record HealthMonitor_Status =
  throttle_startTime :: HSSTicks_t
  hm_lastValue :: u32
  hm_count :: u64
  hm_initialized :: bool

text \<open>A report: the name, the kind of check printed, the threshold printed if any, the value.\<close>

type_synonym health_report = "string \<times> string \<times> u64 option \<times> u64"

record health_world = scrub_world +
  monitor_status :: "HealthMonitor_Status list"
  reg32 :: "nat \<Rightarrow> u64 \<Rightarrow> u32"
  reg64 :: "nat \<Rightarrow> u64 \<Rightarrow> u64"
  reg_reads :: nat
  health_reports :: "health_report list"

fun checkName :: "HealthMon_CheckType \<Rightarrow> string" where
  "checkName ABOVE_THRESHOLD = ''above threshold''"
| "checkName BELOW_THRESHOLD = ''below threshold''"
| "checkName ABOVE_OR_BELOW_THRESHOLD = ''n/a''"
| "checkName EQUAL_TO_VALUE = ''equal to''"
| "checkName NOT_EQUAL_TO_VALUE = ''not equal to''"
| "checkName CHANGED_SINCE_LAST = ''changed since last read''"

definition healthmon_nop_trigger :: "u64 \<Rightarrow> 'w \<Rightarrow> 'w" where
  "healthmon_nop_trigger pAddr w = w"

definition monitor ::
    "string \<Rightarrow> u64 \<Rightarrow> HealthMon_CheckType \<Rightarrow> u64 \<Rightarrow> u64 \<Rightarrow> u8 \<Rightarrow> u64 \<Rightarrow> u32 \<Rightarrow> 'w HealthMonitor" where
  "monitor name addr check vmax vmin shift msk scale =
     \<lparr> hm_pName = name, hm_pAddr = addr, hm_checkType = check, hm_maxValue = vmax, hm_minValue = vmin, hm_shift = shift,
       hm_mask = msk, hm_triggerCallback = Some healthmon_nop_trigger, hm_throttleScale = scale \<rparr>"

definition monitors :: "'w HealthMonitor list" where
  "monitors =
    [monitor ''SYSREG:FABRIC_RESET_CR'' 0x20002010 CHANGED_SINCE_LAST 0 0 0 0x1 5,
     monitor ''SYSREG:BOOT_FAIL_CR'' 0x20002014 NOT_EQUAL_TO_VALUE 0 0 0 1 5,
     monitor ''SYSREG:MSS_RESET_CR'' 0x20002018 CHANGED_SINCE_LAST 0 0 0 0xFFFF 5,
     monitor ''SYSREG:CONFIG_LOCK_CR'' 0x2000201c CHANGED_SINCE_LAST 0 0 0 0x1 5,
     monitor ''SYSREG:RESET_SR'' 0x20002020 CHANGED_SINCE_LAST 0 0 0 0x1FF 5,
     monitor ''SYSREG:DEVICE_STATUS'' 0x20002024 NOT_EQUAL_TO_VALUE 0x1F09 0 0 0x1FFF 5,
     monitor ''SYSREG:APBBUS_CR'' 0x20002080 CHANGED_SINCE_LAST 0 0 0 0xFFFFFF 5,
     monitor ''SYSREG:SUBBLK_CLOCK_CR'' 0x20002084 CHANGED_SINCE_LAST 0 0 0 0x3FFFFFFF 5,
     monitor ''SYSREG:SOFT_RESET_CR'' 0x20002088 CHANGED_SINCE_LAST 0 0 0 0x3FFFFFFF 5,
     monitor ''SYSREG:AHBAXI_CR'' 0x2000208c CHANGED_SINCE_LAST 0 0 0 0xFFFF 5,
     monitor ''SYSREG:AHBAPB_CR'' 0x20002090 CHANGED_SINCE_LAST 0 0 0 0x3 5,
     monitor ''SYSREG:DFIAPB_CR'' 0x20002098 CHANGED_SINCE_LAST 0 0 0 0x3 5,
     monitor ''SYSREG:GPIO_CR'' 0x2000209c CHANGED_SINCE_LAST 0 0 0 0xFF7733 5,
     monitor ''SYSREG:MESH_CR'' 0x200020b0 CHANGED_SINCE_LAST 0 0 0 0x3011FFF 5,
     monitor ''SYSREG:MESH_SEED_CR'' 0x200020b4 CHANGED_SINCE_LAST 0 0 0 0xFF7FFFFF 5,
     monitor ''SYSREG:ENVM_CR'' 0x200020b8 CHANGED_SINCE_LAST 0 0 0 0xFF07037F 5,
     monitor ''SYSREG:MPU_VIOLATION_SR'' 0x200020F0 NOT_EQUAL_TO_VALUE 0 0 0 1 5,
     monitor ''SYSREG:SW_FAIL_ADDR0_CR'' 0x200020F8 CHANGED_SINCE_LAST 0 0 0 0xFFFFFFFF 5,
     monitor ''SYSREG:SW_FAIL_ADDR1_CR'' 0x200020Fc CHANGED_SINCE_LAST 0 0 0 0x3FF3F 5,
     monitor ''SYSREG:EDAC_SR'' 0x20002100 NOT_EQUAL_TO_VALUE 0 0 0 0x3FFF 5,
     monitor ''SYSREG:EDAC_INTEN_CR'' 0x20002100 CHANGED_SINCE_LAST 0 0 0 0x3FFF 5,
     monitor ''SYSREG:EDAC_CNT_MMC'' 0x20002108 CHANGED_SINCE_LAST 0 0 0 0x1F 5,
     monitor ''SYSREG:EDAC_CNT_DDRC'' 0x2000210C CHANGED_SINCE_LAST 0 0 0 0x1F 5,
     monitor ''SYSREG:EDAC_CNT_MAC0'' 0x20002110 CHANGED_SINCE_LAST 0 0 0 0x1F 5,
     monitor ''SYSREG:EDAC_CNT_MAC1'' 0x20002114 CHANGED_SINCE_LAST 0 0 0 0x1F 5,
     monitor ''SYSREG:EDAC_CNT_USB'' 0x20002118 CHANGED_SINCE_LAST 0 0 0 0x1F 5,
     monitor ''SYSREG:EDAC_CNT_CAN0'' 0x2000211c CHANGED_SINCE_LAST 0 0 0 0x1F 5,
     monitor ''SYSREG:EDAC_CNT_CAN1'' 0x20002120 CHANGED_SINCE_LAST 0 0 0 0x1F 5,
     monitor ''SYSREG:EDAC_INJECT_CR'' 0x20002124 CHANGED_SINCE_LAST 0 0 0 0x3FFF 5,
     monitor ''SYSREG:MAINTENANCE_INTEN_CR'' 0x20002140 CHANGED_SINCE_LAST 0 0 0 0x1FFFFF 5,
     monitor ''SYSREG:PLL_STATUS_INTEN_CR'' 0x20002144 CHANGED_SINCE_LAST 0 0 0 0x77 5,
     monitor ''SYSREG:MAINTENANCE_INT_SR'' 0x20002148 CHANGED_SINCE_LAST 0 0 0 0x1FFFFF 5,
     monitor ''SYSREG:PLL_STATUS_SR'' 0x2000214c NOT_EQUAL_TO_VALUE 0x707 0 0 0x7FF 5,
     monitor ''SYSREG:MISC_SR'' 0x20002154 NOT_EQUAL_TO_VALUE 0 0 0 2 5,
     monitor ''SYSREG:DLL_STATUS_SR'' 0x2000215c CHANGED_SINCE_LAST 0 0 0 0x1FFFFF 5,
     monitor ''IOSCBCFG:STATUS'' 0x37080004 NOT_EQUAL_TO_VALUE 0 0 0 0xE 5,
     monitor ''IOSCB_PLL:pll_se_0:PLL_CTRL'' 0x38010004 CHANGED_SINCE_LAST 0 0 25 1 5,
     monitor ''IOSCB_PLL:pll_se_1:PLL_CTRL'' 0x38020004 CHANGED_SINCE_LAST 0 0 25 1 5,
     monitor ''IOSCB_PLL:pll_ne_0:PLL_CTRL'' 0x38040004 CHANGED_SINCE_LAST 0 0 25 1 5,
     monitor ''IOSCB_PLL:pll_ne_1:PLL_CTRL'' 0x38080004 CHANGED_SINCE_LAST 0 0 25 1 5,
     monitor ''IOSCB_PLL:pll_nw_0:PLL_CTRL'' 0x38100004 NOT_EQUAL_TO_VALUE 1 0 25 1 1,
     monitor ''IOSCB_PLL:pll_nw_1:PLL_CTRL'' 0x38200004 CHANGED_SINCE_LAST 0 0 25 1 5,
     monitor ''IOSCB_PLL:pll_sw_0:PLL_CTRL'' 0x38400004 CHANGED_SINCE_LAST 0 0 25 1 5,
     monitor ''IOSCB_PLL:pll_sw_1:PLL_CTRL'' 0x38800004 CHANGED_SINCE_LAST 0 0 25 1 5,
     monitor ''IOSCB_PLL_MSS:PLL_CTRL'' 0x3E001004 NOT_EQUAL_TO_VALUE 1 0 25 1 1,
     monitor ''IOSCB_PLL_DDR:PLL_CTRL'' 0x3E010004 NOT_EQUAL_TO_VALUE 1 0 25 1 1,
     monitor ''IOSCB_PLL_SGMII:PLL_CTRL'' 0x3E001004 NOT_EQUAL_TO_VALUE 1 0 25 1 1,
     monitor ''L2:Config:ECCInjectError'' 0x02010040 CHANGED_SINCE_LAST 0 0 0 0x100FF 1,
     monitor ''L2:Config:ECCDirFixAddr'' 0x02010100 CHANGED_SINCE_LAST 0 0 0 0xFFFFFFFFFFFFFFFF 1,
     monitor ''L2:Config:ECCDirFixCount'' 0x02010108 CHANGED_SINCE_LAST 0 0 0 0xFFFFFFFF 1,
     monitor ''L2:Config:ECCDirFailAddr'' 0x02010120 CHANGED_SINCE_LAST 0 0 0 0xFFFFFFFFFFFFFFFF 1,
     monitor ''L2:Config:ECCDirFailCount'' 0x02010128 CHANGED_SINCE_LAST 0 0 0 0xFFFFFFFF 1,
     monitor ''L2:Config:ECCDataFixAddr'' 0x02010140 CHANGED_SINCE_LAST 0 0 0 0xFFFFFFFFFFFFFFFF 1,
     monitor ''L2:Config:ECCDataFixCount'' 0x02010148 CHANGED_SINCE_LAST 0 0 0 0xFFFFFFFF 1,
     monitor ''L2:Config:ECCDataFailAddr'' 0x02010160 CHANGED_SINCE_LAST 0 0 0 0xFFFFFFFFFFFFFFFF 1,
     monitor ''L2:Config:ECCDataFailCount'' 0x02010168 CHANGED_SINCE_LAST 0 0 0 0xFFFFFFFF 1]"

definition zero_status :: HealthMonitor_Status where
  "zero_status = \<lparr> throttle_startTime = 0, hm_lastValue = 0, hm_count = 0, hm_initialized = False \<rparr>"

definition monitor_status_reset :: "HealthMonitor_Status list" where
  "monitor_status_reset = replicate (length (monitors :: unit HealthMonitor list)) zero_status"

subsection \<open>Operations\<close>

text \<open>
  Reading a register: 64 bits wide if the mask reaches beyond 32 bits, then shifted, then
  masked.  A shift by 64 or more has no defined value.
\<close>

definition read_register :: "'w HealthMonitor \<Rightarrow> 'a health_world_scheme \<Rightarrow> u64 \<times> 'a health_world_scheme" where
  "read_register m w =
     (if hm_mask m > 0xFFFFFFFF then reg64 w (reg_reads w) (hm_pAddr m) else ucast (reg32 w (reg_reads w) (hm_pAddr m)),
      w\<lparr>reg_reads := reg_reads w + 1\<rparr>)"

definition field_value :: "'w HealthMonitor \<Rightarrow> u64 \<Rightarrow> u64 option" where
  "field_value m value = do {
     assert_c (unat (hm_shift m) < 64);
     let value = (if hm_shift m \<noteq> 0 then drop_bit (unat (hm_shift m)) value else value);
     Some (if hm_mask m \<noteq> 0 then value AND hm_mask m else value)
   }"

text \<open>The \<^verbatim>\<open>switch\<close>: was the check violated, under which name, and the status after it.\<close>

fun check_value ::
    "HealthMon_CheckType \<Rightarrow> 'w HealthMonitor \<Rightarrow> u64 \<Rightarrow> HealthMonitor_Status \<Rightarrow> bool \<times> HealthMon_CheckType \<times> HealthMonitor_Status" where
  "check_value ABOVE_THRESHOLD m value st = (value > hm_maxValue m, ABOVE_THRESHOLD, st)"
| "check_value BELOW_THRESHOLD m value st = (value < hm_minValue m, BELOW_THRESHOLD, st)"
| "check_value ABOVE_OR_BELOW_THRESHOLD m value st =
     (if value > hm_maxValue m then (True, ABOVE_THRESHOLD, st)
      else if value < hm_minValue m then (True, BELOW_THRESHOLD, st)
      else (False, ABOVE_OR_BELOW_THRESHOLD, st))"
| "check_value EQUAL_TO_VALUE m value st = (value = hm_maxValue m, EQUAL_TO_VALUE, st)"
| "check_value NOT_EQUAL_TO_VALUE m value st = (value \<noteq> hm_maxValue m, NOT_EQUAL_TO_VALUE, st)"
| "check_value CHANGED_SINCE_LAST m value st =
     (if hm_initialized st then (value \<noteq> ucast (hm_lastValue st), CHANGED_SINCE_LAST, st)
      else (False, CHANGED_SINCE_LAST, st\<lparr>hm_initialized := True\<rparr>))"

definition status_update ::
    "nat \<Rightarrow> (HealthMonitor_Status \<Rightarrow> HealthMonitor_Status) \<Rightarrow> 'a health_world_scheme \<Rightarrow> 'a health_world_scheme" where
  "status_update i f w = w\<lparr>monitor_status := (monitor_status w)[i := f (monitor_status w ! i)]\<rparr>"

text \<open>The report: count, console, callback, then the restart of the throttle and the new last value.\<close>

definition report_value ::
    "nat \<Rightarrow> 'a health_world_scheme HealthMonitor \<Rightarrow> HealthMon_CheckType \<Rightarrow> u64
      \<Rightarrow> 'a health_world_scheme \<Rightarrow> 'a health_world_scheme" where
  "report_value i m checkType value w =
     (let threshold = (if checkType \<noteq> CHANGED_SINCE_LAST then Some (hm_maxValue m) else None);
          w1 = status_update i (\<lambda>st. st\<lparr>hm_count := hm_count st + 1\<rparr>) w;
          w2 = w1\<lparr>health_reports := health_reports w1 @ [(hm_pName m, checkName (hm_checkType m), threshold, value)]\<rparr>;
          w3 = (case hm_triggerCallback m of Some f \<Rightarrow> f (hm_pAddr m) w2 | None \<Rightarrow> w2);
          (t, w4) = HSS_GetTime w3
      in status_update i (\<lambda>st. st\<lparr>throttle_startTime := t, hm_lastValue := ucast value\<rparr>) w4)"

text \<open>The body of the loop for one monitor.\<close>

definition check_monitor ::
    "'a health_world_scheme HealthMonitor list \<Rightarrow> nat \<Rightarrow> 'a health_world_scheme \<Rightarrow> 'a health_world_scheme option" where
  "check_monitor mons i w = do {
     m \<leftarrow> nth_opt mons i;
     st \<leftarrow> nth_opt (monitor_status w) i;
     let (elapsed, w1) = HSS_Timer_IsElapsed (throttle_startTime st) (ucast (hm_throttleScale m) * ONE_SEC) w;
     if \<not> elapsed then Some w1 else do {
       let (raw, w2) = read_register m w1;
       value \<leftarrow> field_value m raw;
       let (triggered, checkType, st1) = check_value (hm_checkType m) m value st;
       let w3 = status_update i (\<lambda>_. st1) w2;
       Some (if triggered \<and> value \<noteq> ucast (hm_lastValue st1) then report_value i m checkType value w3 else w3)
     }
   }"

fun check_monitors ::
    "'a health_world_scheme HealthMonitor list \<Rightarrow> nat list \<Rightarrow> 'a health_world_scheme \<Rightarrow> 'a health_world_scheme option" where
  "check_monitors mons [] w = Some w"
| "check_monitors mons (i # is) w = do { w1 \<leftarrow> check_monitor mons i w; check_monitors mons is w1 }"

definition healthmon_init_handler :: "'a health_world_scheme sm_handler" where
  "healthmon_init_handler m w = Some (
     if HSS_Trigger_IsNotified True EVENT_DDR_TRAINED w \<and> HSS_Trigger_IsNotified True EVENT_STARTUP_COMPLETE w
        \<and> HSS_Trigger_IsNotified True EVENT_POST_BOOT w
     then set_state m 1 w else w)"

definition healthmon_monitoring_handler :: "'a health_world_scheme HealthMonitor list \<Rightarrow> 'a health_world_scheme sm_handler" where
  "healthmon_monitoring_handler mons m w = check_monitors mons [0..<length mons] w"

definition healthmon_service :: "'a health_world_scheme HealthMonitor list \<Rightarrow> 'a health_world_scheme MachineDesc" where
  "healthmon_service mons = two_state_machine healthmon_init_handler (healthmon_monitoring_handler mons)"

subsection \<open>One pass\<close>

text \<open>What every monitor of a table needs to be checked at all, and what the board's monitors have.\<close>

definition plain_monitors :: "'w HealthMonitor list \<Rightarrow> bool" where
  "plain_monitors mons \<longleftrightarrow> (\<forall>m\<in>set mons. hm_triggerCallback m = Some healthmon_nop_trigger \<and> unat (hm_shift m) < 64)"

definition register_of :: "'w HealthMonitor \<Rightarrow> 'a health_world_scheme \<Rightarrow> nat \<Rightarrow> u64" where
  "register_of m w j = (if hm_mask m > 0xFFFFFFFF then reg64 w j (hm_pAddr m) else ucast (reg32 w j (hm_pAddr m)))"

definition due_at :: "'w HealthMonitor \<Rightarrow> HealthMonitor_Status \<Rightarrow> u64 \<Rightarrow> bool" where
  "due_at m st now \<longleftrightarrow> now > throttle_startTime st + ucast (hm_throttleScale m) * ONE_SEC"

text \<open>The new status of a monitor: \<open>now\<close> is the first reading of the clock, \<open>stamp\<close> the one after it.\<close>

definition fires :: "'w HealthMonitor \<Rightarrow> u64 \<Rightarrow> HealthMonitor_Status \<Rightarrow> bool" where
  "fires m value st \<longleftrightarrow> fst (check_value (hm_checkType m) m value st) \<and> value \<noteq> ucast (hm_lastValue st)"

definition visit :: "'w HealthMonitor \<Rightarrow> u64 \<Rightarrow> u64 \<Rightarrow> u64 \<Rightarrow> HealthMonitor_Status \<Rightarrow> HealthMonitor_Status" where
  "visit m now value stamp st =
     (let st1 = snd (snd (check_value (hm_checkType m) m value st)) in
      if \<not> due_at m st now then st
      else if fires m value st then st1\<lparr>hm_count := hm_count st1 + 1, throttle_startTime := stamp, hm_lastValue := ucast value\<rparr>
      else st1)"

definition field_of :: "'w HealthMonitor \<Rightarrow> u64 \<Rightarrow> u64" where
  "field_of m raw = the (field_value m raw)"

lemma checked_last [simp]: "hm_lastValue (snd (snd (check_value c m v st))) = hm_lastValue st"
  and checked_count [simp]: "hm_count (snd (snd (check_value c m v st))) = hm_count st"
  and checked_start [simp]: "throttle_startTime (snd (snd (check_value c m v st))) = throttle_startTime st"
  by (cases c; simp)+

text \<open>The fields that a pass may move, and the relation of the worlds around it.\<close>

definition health_moved ::
    "nat \<Rightarrow> HealthMonitor_Status list \<Rightarrow> nat \<Rightarrow> health_report list \<Rightarrow> 'a health_world_scheme \<Rightarrow> 'a health_world_scheme" where
  "health_moved t sts r rs w = w\<lparr>time_reads := t, monitor_status := sts, reg_reads := r, health_reports := rs\<rparr>"

lemma health_moved_simps [simp]:
  "time_reads (health_moved t sts r rs w) = t" "monitor_status (health_moved t sts r rs w) = sts"
  "reg_reads (health_moved t sts r rs w) = r" "health_reports (health_moved t sts r rs w) = rs"
  "mtime (health_moved t sts r rs w) = mtime w" "reg32 (health_moved t sts r rs w) = reg32 w" "reg64 (health_moved t sts r rs w) = reg64 w"
  "health_moved t' sts' r' rs' (health_moved t sts r rs w) = health_moved t' sts' r' rs' w"
  "register_of m (health_moved t sts r rs w) = register_of m w"
  by (simp_all add: health_moved_def register_of_def fun_eq_iff)

lemma health_moved_same [simp]: "health_moved (time_reads w) (monitor_status w) (reg_reads w) (health_reports w) w = w"
  by (simp add: health_moved_def)

lemma check_monitor_visit:
  assumes p: "plain_monitors mons" and i: "i < length mons" "length (monitor_status w) = length mons"
  defines "m \<equiv> mons ! i" and "st \<equiv> monitor_status w ! i"
  defines "v \<equiv> field_of m (register_of m w (reg_reads w))" and "now \<equiv> mtime w (time_reads w)"
  shows "\<exists>t r rs. check_monitor mons i w = Some (health_moved t ((monitor_status w)[i := visit m now v (mtime w (Suc (time_reads w))) st]) r
        (health_reports w @ rs) w) \<and> time_reads w < t \<and> reg_reads w \<le> r
      \<and> (rs = [] \<or> (\<exists>x. rs = [(hm_pName m, x)] \<and> due_at m st now \<and> fires m v st))"
proof -
  have s: "unat (hm_shift m) < 64" and cb: "hm_triggerCallback m = Some healthmon_nop_trigger"
    using p i by (auto simp: plain_monitors_def m_def)
  obtain v' where v': "field_value m (register_of m w (reg_reads w)) = Some v'" using s by (auto simp: field_value_def Let_def)
  then have v: "v' = v" by (simp add: v_def field_of_def)
  obtain trig ct st1 where c: "check_value (hm_checkType m) m v st = (trig, ct, st1)" by (metis prod_cases3)
  have st1: "hm_lastValue st1 = hm_lastValue st" "throttle_startTime st1 = throttle_startTime st" "hm_count st1 = hm_count st"
    using checked_last [of "hm_checkType m" m v st] checked_start [of "hm_checkType m" m v st]
      checked_count [of "hm_checkType m" m v st] by (simp_all add: c)
  have il: "i < length (monitor_status w)" using i by simp
  have same: "(monitor_status w)[i := st] = monitor_status w" by (simp add: st_def)
  let ?w1 = "w\<lparr>time_reads := Suc (time_reads w)\<rparr>"
  have timer: "HSS_Timer_IsElapsed (throttle_startTime st) (ucast (hm_throttleScale m) * ONE_SEC) w = (due_at m st now, ?w1)"
    by (simp add: HSS_Timer_IsElapsed_def HSS_GetTime_def due_at_def now_def)
  have rd: "read_register m ?w1 = (register_of m w (reg_reads w), ?w1\<lparr>reg_reads := Suc (reg_reads w)\<rparr>)"
    by (simp add: read_register_def register_of_def)
  consider "\<not> due_at m st now" | "due_at m st now" "\<not> fires m v st" | "due_at m st now" "fires m v st" by blast
  then show ?thesis
  proof cases
    case 1
    then have "check_monitor mons i w = Some (health_moved (Suc (time_reads w)) ((monitor_status w)[i := st]) (reg_reads w) (health_reports w @ []) w)"
      using i timer same by (simp add: check_monitor_def m_def [symmetric] st_def [symmetric] health_moved_def)
    then show ?thesis using 1 by (intro exI [of _ "Suc (time_reads w)"] exI [of _ "reg_reads w"] exI [of _ "[]"]) (simp add: visit_def)
  next
    case 2
    then have "check_monitor mons i w = Some (health_moved (Suc (time_reads w)) ((monitor_status w)[i := st1]) (Suc (reg_reads w)) (health_reports w @ []) w)"
      using i timer rd st1 v' by (auto simp: check_monitor_def m_def [symmetric] st_def [symmetric] health_moved_def v c fires_def status_update_def)
    then show ?thesis using 2
      by (intro exI [of _ "Suc (time_reads w)"] exI [of _ "Suc (reg_reads w)"] exI [of _ "[]"]) (simp add: visit_def c)
  next
    case 3
    let ?st' = "st1\<lparr>hm_count := hm_count st1 + 1, throttle_startTime := mtime w (Suc (time_reads w)), hm_lastValue := ucast v\<rparr>"
    let ?x = "(checkName (hm_checkType m), if ct \<noteq> CHANGED_SINCE_LAST then Some (hm_maxValue m) else None, v)"
    have "check_monitor mons i w = Some (health_moved (Suc (Suc (time_reads w))) ((monitor_status w)[i := ?st']) (Suc (reg_reads w))
        (health_reports w @ [(hm_pName m, ?x)]) w)"
      using 3 i il timer rd st1 v' cb
      by (simp add: check_monitor_def m_def [symmetric] st_def [symmetric] health_moved_def v c fires_def status_update_def
          report_value_def HSS_GetTime_def healthmon_nop_trigger_def Let_def)
    then show ?thesis using 3
      by (intro exI [of _ "Suc (Suc (time_reads w))"] exI [of _ "Suc (reg_reads w)"] exI [of _ "[(hm_pName m, ?x)]"]) (simp add: visit_def c)
  qed
qed

text \<open>A pass visits every monitor once, in its own window of the inputs.\<close>

definition visited :: "'a health_world_scheme HealthMonitor list \<Rightarrow> nat \<Rightarrow> nat \<Rightarrow> 'a health_world_scheme \<Rightarrow> HealthMonitor_Status \<Rightarrow> HealthMonitor_Status \<Rightarrow> bool" where
  "visited mons t i w st st' \<longleftrightarrow> (\<exists>k j. time_reads w \<le> k \<and> k < t \<and> reg_reads w \<le> j
     \<and> st' = visit (mons ! i) (mtime w k) (field_of (mons ! i) (register_of (mons ! i) w j)) (mtime w (Suc k)) st)"

definition told_of :: "'w HealthMonitor list \<Rightarrow> nat \<Rightarrow> HealthMonitor_Status list \<Rightarrow> HealthMonitor_Status list \<Rightarrow> health_report \<Rightarrow> bool" where
  "told_of mons i sts sts' x \<longleftrightarrow> fst x = hm_pName (mons ! i) \<and> hm_count (sts' ! i) = hm_count (sts ! i) + 1"

lemma check_monitors_visit:
  assumes p: "plain_monitors mons" and l: "length (monitor_status w) = length mons"
    and d: "distinct is" "\<forall>i\<in>set is. i < length mons"
  shows "\<exists>t sts r rs. check_monitors mons is w = Some (health_moved t sts r (health_reports w @ rs) w) \<and> length sts = length mons
      \<and> time_reads w \<le> t \<and> reg_reads w \<le> r
      \<and> (\<forall>i<length mons. if i \<in> set is then visited mons t i w (monitor_status w ! i) (sts ! i) else sts ! i = monitor_status w ! i)
      \<and> (\<forall>x\<in>set rs. \<exists>i\<in>set is. told_of mons i (monitor_status w) sts x)"
  using l d
proof (induction "is" arbitrary: w)
  case Nil
  then show ?case
    by (intro exI [of _ "time_reads w"] exI [of _ "monitor_status w"] exI [of _ "reg_reads w"] exI [of _ "[]"]) simp
next
  case (Cons i "is")
  let ?st = "monitor_status w ! i" and ?m = "mons ! i"
  let ?v = "field_of ?m (register_of ?m w (reg_reads w))"
  let ?st' = "visit ?m (mtime w (time_reads w)) ?v (mtime w (Suc (time_reads w))) ?st"
  have i: "i < length mons" using Cons.prems by simp
  obtain t r rs where c: "check_monitor mons i w = Some (health_moved t ((monitor_status w)[i := ?st']) r (health_reports w @ rs) w)"
    and tr: "time_reads w < t" "reg_reads w \<le> r"
    and rs: "rs = [] \<or> (\<exists>x. rs = [(hm_pName ?m, x)] \<and> due_at ?m ?st (mtime w (time_reads w)) \<and> fires ?m ?v ?st)"
    using check_monitor_visit [OF p i Cons.prems(1)] by blast
  let ?w1 = "health_moved t ((monitor_status w)[i := ?st']) r (health_reports w @ rs) w"
  obtain t2 sts r2 rs2 where ih: "check_monitors mons is ?w1 = Some (health_moved t2 sts r2 (health_reports ?w1 @ rs2) ?w1)"
    "length sts = length mons" "t \<le> t2" "r \<le> r2"
    and vis: "\<And>j. j < length mons \<Longrightarrow>
      if j \<in> set is then visited mons t2 j ?w1 (monitor_status ?w1 ! j) (sts ! j) else sts ! j = monitor_status ?w1 ! j"
    and told: "\<forall>x\<in>set rs2. \<exists>j\<in>set is. told_of mons j (monitor_status ?w1) sts x"
    using Cons.IH [of ?w1] Cons.prems by auto
  have il: "i < length (monitor_status w)" using i Cons.prems(1) by simp
  have sti: "sts ! i = ?st'" using vis [OF i] Cons.prems(2) il by simp
  have "if j \<in> set (i # is) then visited mons t2 j w (monitor_status w ! j) (sts ! j) else sts ! j = monitor_status w ! j"
    if j: "j < length mons" for j
  proof (cases "j = i")
    case True
    have "visited mons t2 i w ?st ?st'" unfolding visited_def using tr(1) ih(3)
      by (intro exI [of _ "time_reads w"] exI [of _ "reg_reads w"]) simp
    then show ?thesis using True sti by simp
  next
    case False
    have "visited mons t2 j ?w1 a b \<Longrightarrow> visited mons t2 j w a b" for a b
    proof -
      assume "visited mons t2 j ?w1 a b"
      then obtain k l where "t \<le> k" "k < t2" "r \<le> l"
        "b = visit (mons ! j) (mtime w k) (field_of (mons ! j) (register_of (mons ! j) w l)) (mtime w (Suc k)) a"
        by (auto simp: visited_def)
      then show ?thesis unfolding visited_def using tr by (intro exI [of _ k] exI [of _ l]) simp
    qed
    then show ?thesis using vis [OF j] False by (auto split: if_splits)
  qed
  moreover have "\<exists>j\<in>set (i # is). told_of mons j (monitor_status w) sts x" if x: "x \<in> set (rs @ rs2)" for x
  proof (cases "x \<in> set rs")
    case True
    then have "told_of mons i (monitor_status w) sts x" using rs sti by (auto simp: told_of_def visit_def Let_def)
    then show ?thesis by simp
  next
    case False
    then obtain j where j: "j \<in> set is" "told_of mons j (monitor_status ?w1) sts x" using x told by auto
    then have "i \<noteq> j" using Cons.prems(2) by auto
    then show ?thesis using j by (intro bexI [of _ j]) (simp_all add: told_of_def)
  qed
  ultimately show ?case
    using c ih tr by (intro exI [of _ t2] exI [of _ sts] exI [of _ r2] exI [of _ "rs @ rs2"]) simp
qed

lemma health_pass:
  assumes "plain_monitors mons" "length (monitor_status w) = length mons"
  obtains t sts r rs where "healthmon_monitoring_handler mons m w = Some (health_moved t sts r (health_reports w @ rs) w)"
    "length sts = length mons" "time_reads w \<le> t" "reg_reads w \<le> r"
    "\<And>i. i < length mons \<Longrightarrow> visited mons t i w (monitor_status w ! i) (sts ! i)"
    "\<And>x. x \<in> set rs \<Longrightarrow> \<exists>i<length mons. told_of mons i (monitor_status w) sts x"
proof -
  have "distinct [0..<length mons]" "\<forall>i\<in>set [0..<length mons]. i < length mons" by auto
  from check_monitors_visit [OF assms this] obtain t sts r rs where
    c: "check_monitors mons [0..<length mons] w = Some (health_moved t sts r (health_reports w @ rs) w)"
      "length sts = length mons" "time_reads w \<le> t" "reg_reads w \<le> r"
      "\<forall>i<length mons. if i \<in> set [0..<length mons] then visited mons t i w (monitor_status w ! i) (sts ! i) else sts ! i = monitor_status w ! i"
    and x: "\<forall>x\<in>set rs. \<exists>i\<in>set [0..<length mons]. told_of mons i (monitor_status w) sts x" by blast
  have "\<exists>i<length mons. told_of mons i (monitor_status w) sts y" if "y \<in> set rs" for y using x that by fastforce
  then show ?thesis using c by (intro that [of t sts r rs]) (simp_all add: healthmon_monitoring_handler_def)
qed

text \<open>
  Runs: passes of the monitor with anything in between that keeps its data and the inputs;
  \<open>when\<close> restricts the moments of the passes.
\<close>

definition elsewhere :: "'a health_world_scheme \<Rightarrow> 'a health_world_scheme \<Rightarrow> bool" where
  "elsewhere w w' \<longleftrightarrow> monitor_status w' = monitor_status w \<and> health_reports w' = health_reports w
     \<and> mtime w' = mtime w \<and> reg32 w' = reg32 w \<and> reg64 w' = reg64 w \<and> time_reads w \<le> time_reads w'"

inductive health_run ::
    "'a health_world_scheme HealthMonitor list \<Rightarrow> ('a health_world_scheme \<Rightarrow> bool) \<Rightarrow> 'a health_world_scheme \<Rightarrow> nat \<Rightarrow> 'a health_world_scheme \<Rightarrow> bool"
  for mons "when" w where
  start: "health_run mons when w 0 w"
| pass: "health_run mons when w n w1 \<Longrightarrow> elsewhere w1 w2 \<Longrightarrow> when w2 \<Longrightarrow>
    healthmon_monitoring_handler mons m w2 = Some w3 \<Longrightarrow> health_run mons when w (Suc n) w3"

text \<open>
  The rule by which facts on the status of one monitor are proved: the invariant holds at
  the start and every visit keeps it.
\<close>

lemma health_run_status:
  assumes run: "health_run mons when w n w'" and p: "plain_monitors mons" and l: "length (monitor_status w) = length mons"
    and i: "i < length mons" and init: "P 0 (time_reads w) (monitor_status w ! i)"
    and later: "\<And>n t t' st. P n t st \<Longrightarrow> t \<le> t' \<Longrightarrow> P n t' st"
    and visit: "\<And>n t st k j w2. P n t st \<Longrightarrow> t \<le> k \<Longrightarrow> when w2 \<Longrightarrow> monitor_status w2 ! i = st \<Longrightarrow> time_reads w2 \<le> k \<Longrightarrow> mtime w2 = mtime w \<Longrightarrow>
      P (Suc n) (Suc k) (visit (mons ! i) (mtime w k) (field_of (mons ! i) (register_of (mons ! i) w j)) (mtime w (Suc k)) st)"
  shows "P n (time_reads w') (monitor_status w' ! i) \<and> length (monitor_status w') = length mons
    \<and> mtime w' = mtime w \<and> reg32 w' = reg32 w \<and> reg64 w' = reg64 w"
  using run
proof induction
  case start
  then show ?case using l init by simp
next
  case (pass n w1 w2 m w3)
  have l2: "length (monitor_status w2) = length mons" and e: "elsewhere w1 w2" using pass by (auto simp: elsewhere_def)
  obtain t sts r rs where h: "healthmon_monitoring_handler mons m w2 = Some (health_moved t sts r (health_reports w2 @ rs) w2)"
    "length sts = length mons" "time_reads w2 \<le> t" "visited mons t i w2 (monitor_status w2 ! i) (sts ! i)"
    using health_pass [OF p l2, of m] i by metis
  have w3: "w3 = health_moved t sts r (health_reports w2 @ rs) w2" using h(1) pass by simp
  have same: "mtime w2 = mtime w" "reg32 w2 = reg32 w" "reg64 w2 = reg64 w" "monitor_status w2 = monitor_status w1" "time_reads w1 \<le> time_reads w2"
    using pass e by (auto simp: elsewhere_def)
  obtain k j where k: "time_reads w2 \<le> k" "k < t" and st: "sts ! i = visit (mons ! i) (mtime w2 k)
      (field_of (mons ! i) (register_of (mons ! i) w2 j)) (mtime w2 (Suc k)) (monitor_status w2 ! i)"
    using h(4) by (auto simp: visited_def)
  have reg: "register_of (mons ! i) w2 j = register_of (mons ! i) w j" using same by (simp add: register_of_def)
  have "P (Suc n) (Suc k) (sts ! i)" unfolding st reg same(1)
    by (rule visit [of n "time_reads w1" _ k w2]) (use pass same k in auto)
  then have "P (Suc n) t (sts ! i)" by (rule later) (use k(2) in simp)
  then show ?case using w3 h(2) same by simp
qed

subsection \<open>How often a monitor reports\<close>

text \<open>The clock never goes back and stays below the sign bit of its counter.\<close>

definition steady_clock :: "(nat \<Rightarrow> u64) \<Rightarrow> bool" where
  "steady_clock c \<longleftrightarrow> (\<forall>k. c k \<le> c (Suc k) \<and> c k < 2 ^ 63)"

lemma steady_mono: "steady_clock c \<Longrightarrow> j \<le> k \<Longrightarrow> unat (c j) \<le> unat (c k)"
  by (rule lift_Suc_mono_le [of "\<lambda>k. unat (c k)"]) (auto simp: steady_clock_def word_le_nat_alt)

lemma steady_bound: "steady_clock c \<Longrightarrow> unat (c k) < 2 ^ 63"
  by (simp add: steady_clock_def word_less_nat_alt)

abbreviation (input) throttle :: "'w HealthMonitor \<Rightarrow> nat" where
  "throttle m \<equiv> unat (hm_throttleScale m) * 1000000"

lemma due_unat:
  assumes "unat (throttle_startTime st) < 2 ^ 63"
  shows "due_at m st now \<longleftrightarrow> unat (throttle_startTime st) + throttle m < unat now"
proof -
  have s: "unat (hm_throttleScale m) < 2 ^ 32" using unsigned_less [of "hm_throttleScale m"] by simp
  then have "throttle m < 2 ^ 52" by simp
  moreover have u: "unat (ucast (hm_throttleScale m) :: u64) = unat (hm_throttleScale m)" by (simp add: unat_ucast_up)
  ultimately have t: "unat (ucast (hm_throttleScale m) * 1000000 :: u64) = throttle m"
    by (subst unat_mult_lem [THEN iffD1]) simp_all
  have "unat (throttle_startTime st + ucast (hm_throttleScale m) * 1000000) = unat (throttle_startTime st) + throttle m"
    using assms \<open>throttle m < 2 ^ 52\<close> by (subst unat_plus_simple [THEN iffD1]) (simp_all add: t no_olen_add_nat)
  then show ?thesis by (simp add: due_at_def word_less_nat_alt)
qed

text \<open>
  C30.  The console is never flooded: whatever the registers read, and whatever runs between
  the passes, the number of reports of a monitor times its throttle is at most the time
  that has gone by since the clock started.
\<close>

theorem health_report_rate:
  assumes run: "health_run mons (\<lambda>_. True) w n w'" and p: "plain_monitors mons"
    and st: "monitor_status w = replicate (length mons) zero_status" and clock: "steady_clock (mtime w)"
    and i: "i < length mons"
  shows "unat (hm_count (monitor_status w' ! i)) * (throttle (mons ! i) + 1) \<le> unat (mtime w' (time_reads w'))"
proof -
  let ?m = "mons ! i"
  let ?d = "throttle ?m + 1"
  let ?P = "\<lambda>t st. unat (hm_count st) * ?d \<le> unat (throttle_startTime st)
    \<and> (throttle_startTime st = 0 \<or> (\<exists>j\<le>t. throttle_startTime st = mtime w j))"
  have "?P (time_reads w') (monitor_status w' ! i) \<and> length (monitor_status w') = length mons
    \<and> mtime w' = mtime w \<and> reg32 w' = reg32 w \<and> reg64 w' = reg64 w"
  proof (rule health_run_status [OF run p _ i, where P = "\<lambda>n t st. ?P t st"])
    fix t t' :: nat and st :: HealthMonitor_Status
    show "?P t st \<Longrightarrow> t \<le> t' \<Longrightarrow> ?P t' st" by (auto intro: order_trans)
  next
    fix t k j :: nat and st :: HealthMonitor_Status and w2 :: "'a health_world_scheme"
    assume P: "?P t st" and t: "t \<le> k"
    let ?v = "field_of ?m (register_of ?m w j)"
    have b: "unat (throttle_startTime st) < 2 ^ 63" using P steady_bound [OF clock] by auto
    have keep: "?P (Suc k) st" using P t by (auto intro: le_SucI order_trans)
    show "?P (Suc k) (visit ?m (mtime w k) ?v (mtime w (Suc k)) st)"
    proof (cases "due_at ?m st (mtime w k) \<and> fires ?m ?v st")
      case False
      then show ?thesis using keep by (auto simp: visit_def Let_def)
    next
      case True
      then have "unat (throttle_startTime st) + ?d \<le> unat (mtime w k)" using due_unat [OF b, of ?m "mtime w k"] by simp
      then have c: "(unat (hm_count st) + 1) * ?d \<le> unat (mtime w k)" using P by simp
      have "unat (hm_count st) + 1 \<le> unat (mtime w k)" by (rule order_trans [OF _ c]) simp
      then have "unat (hm_count st) + 1 < 2 ^ 64" using steady_bound [OF clock, of k] by simp
      then have "unat (hm_count st + 1) = unat (hm_count st) + 1" by (simp add: unat_word_ariths)
      moreover have "unat (mtime w k) \<le> unat (mtime w (Suc k))" by (rule steady_mono [OF clock]) simp
      ultimately show ?thesis using True order_trans [OF c] by (auto simp: visit_def Let_def)
    qed
  qed (use st i in \<open>simp_all add: zero_status_def\<close>)
  then have r: "?P (time_reads w') (monitor_status w' ! i)" "mtime w' = mtime w" by blast+
  then have "unat (throttle_startTime (monitor_status w' ! i)) \<le> unat (mtime w (time_reads w'))"
    using steady_mono [OF clock] by auto
  with r show ?thesis by (metis (no_types, lifting) order_trans)
qed

subsection \<open>What is missed and what is invented\<close>

lemma field_of_value:
  "plain_monitors mons \<Longrightarrow> m \<in> set mons \<Longrightarrow> field_of m raw =
     (let v = (if hm_shift m \<noteq> 0 then drop_bit (unat (hm_shift m)) raw else raw) in if hm_mask m \<noteq> 0 then v AND hm_mask m else v)"
  by (auto simp: plain_monitors_def field_of_def field_value_def Let_def)

lemma and_one_bit: "(x :: u64) AND 2 ^ k = 0 \<or> x AND 2 ^ k = 2 ^ k"
  by (cases "bit x k") (auto simp: and_exp_eq_0_iff_not_bit intro!: bit_word_eqI simp: bit_simps)

lemma ucast_u32_back: "(x :: u64) < 2 ^ 32 \<Longrightarrow> ucast (ucast x :: u32) = x"
proof -
  assume "x < 2 ^ 32"
  then have "unat (ucast x :: u32) = unat x" by (simp add: word_less_nat_alt unsigned_ucast_eq take_bit_nat_eq_self)
  then have "unat (ucast (ucast x :: u32) :: u64) = unat x" by (simp add: unat_ucast_up)
  then show ?thesis by (simp add: word_unat_eq_iff)
qed

text \<open>A check against a single value of a field that can take only one other value.\<close>

lemma two_valued_check:
  assumes run: "health_run mons (\<lambda>_. True) w n w'" and p: "plain_monitors mons"
    and st: "monitor_status w = replicate (length mons) zero_status" and i: "i < length mons"
    and check: "hm_checkType (mons ! i) = NOT_EQUAL_TO_VALUE"
    and two: "\<And>raw. field_of (mons ! i) raw = hm_maxValue (mons ! i) \<or> field_of (mons ! i) raw = bad" and b: "bad < 2 ^ 32"
  shows "hm_count (monitor_status w' ! i) = 0 \<or> (bad \<noteq> 0 \<and> hm_count (monitor_status w' ! i) = 1)"
proof -
  let ?P = "\<lambda>st. hm_count st = 0 \<and> hm_lastValue st = 0 \<or> bad \<noteq> 0 \<and> hm_count st = 1 \<and> hm_lastValue st = ucast bad"
  have "ucast (ucast bad :: u32) = bad" by (rule ucast_u32_back [OF b])
  have "?P (monitor_status w' ! i) \<and> length (monitor_status w') = length mons
    \<and> mtime w' = mtime w \<and> reg32 w' = reg32 w \<and> reg64 w' = reg64 w"
  proof (rule health_run_status [OF run p _ i, where P = "\<lambda>n t st. ?P st"])
    fix t k j :: nat and st :: HealthMonitor_Status and w2 :: "'a health_world_scheme"
    assume "?P st"
    then show "?P (visit (mons ! i) (mtime w k) (field_of (mons ! i) (register_of (mons ! i) w j)) (mtime w (Suc k)) st)"
      using two [of "register_of (mons ! i) w j"] \<open>ucast (ucast bad) = bad\<close> by (auto simp: visit_def Let_def fires_def check)
  qed (use st i in \<open>simp_all add: zero_status_def\<close>)
  then show ?thesis by blast
qed

text \<open>The four checks of a lock bit, and three checks of a single error bit.\<close>

definition pll_monitors :: "nat set" where "pll_monitors = {40, 44, 45, 46}"

definition error_bit_monitors :: "nat set" where "error_bit_monitors = {1, 16, 33}"

lemma monitors_plain: "plain_monitors monitors"
  by (simp add: plain_monitors_def monitors_def monitor_def)

lemma length_monitors: "length monitors = 56"
  by (simp add: monitors_def)

lemma pll_names:
  "i < 56 \<Longrightarrow> hm_pName (monitors ! i :: 'w HealthMonitor) \<in> (\<lambda>i. hm_pName (monitors ! i :: 'w HealthMonitor)) ` pll_monitors \<longleftrightarrow> i \<in> pll_monitors"
proof -
  have "list_all (\<lambda>(i, m :: 'w HealthMonitor). hm_pName m \<in> set (map (\<lambda>i. hm_pName (monitors ! i :: 'w HealthMonitor)) [40, 44, 45, 46])
      \<longleftrightarrow> i \<in> {40, 44, 45, 46}) (zip [0..<56] monitors)"
    by code_simp
  then show "i < 56 \<Longrightarrow> ?thesis" by (auto simp: list_all_length length_monitors pll_monitors_def)
qed

lemma one_bit_field:
  assumes "plain_monitors mons" "m \<in> set mons" "hm_mask m = 2 ^ k" "hm_mask m \<noteq> 0"
  shows "field_of m raw = 0 \<or> field_of m raw = hm_mask m"
  using and_one_bit [of _ k] assms(3,4) by (simp add: field_of_value [OF assms(1,2)] Let_def)

lemma pll_checks:
  "i \<in> pll_monitors \<Longrightarrow> hm_checkType (monitors ! i) = NOT_EQUAL_TO_VALUE \<and> hm_maxValue (monitors ! i) = 1 \<and> hm_mask (monitors ! i) = 1"
  by (auto simp: pll_monitors_def monitors_def monitor_def)

lemma error_bit_checks:
  "i \<in> error_bit_monitors \<Longrightarrow> hm_checkType (monitors ! i) = NOT_EQUAL_TO_VALUE \<and> hm_maxValue (monitors ! i) = 0
    \<and> (hm_mask (monitors ! i) = 1 \<or> hm_mask (monitors ! i) = 2)"
  by (auto simp: error_bit_monitors_def monitors_def monitor_def)

text \<open>A name is on the console only if the count of one of its monitors went up.\<close>

lemma reports_counted:
  assumes run: "health_run mons when w n w'" and p: "plain_monitors mons" and l: "length (monitor_status w) = length mons"
    and still: "\<And>n w1 i. health_run mons when w n w1 \<Longrightarrow> i < length mons \<Longrightarrow> hm_pName (mons ! i) \<in> S \<Longrightarrow> hm_count (monitor_status w1 ! i) = 0"
    and init: "\<forall>x\<in>set (health_reports w). fst x \<notin> S"
  shows "length (monitor_status w') = length mons \<and> (\<forall>x\<in>set (health_reports w'). fst x \<notin> S)"
  using run
proof induction
  case start
  then show ?case using l init by simp
next
  case (pass n w1 w2 m w3)
  have e: "elsewhere w1 w2" and l2: "length (monitor_status w2) = length mons" using pass by (auto simp: elsewhere_def)
  obtain t sts r rs where h: "healthmon_monitoring_handler mons m w2 = Some (health_moved t sts r (health_reports w2 @ rs) w2)"
    "length sts = length mons" "\<And>x. x \<in> set rs \<Longrightarrow> \<exists>i<length mons. told_of mons i (monitor_status w2) sts x"
    using health_pass [OF p l2, of m] by metis
  have w3: "w3 = health_moved t sts r (health_reports w2 @ rs) w2" using h(1) pass by simp
  have "fst x \<notin> S" if x: "x \<in> set rs" for x
  proof
    assume "fst x \<in> S"
    then obtain i where i: "i < length mons" "hm_pName (mons ! i) \<in> S" "hm_count (sts ! i) = hm_count (monitor_status w1 ! i) + 1"
      using h(3) [OF x] e by (auto simp: told_of_def elsewhere_def)
    then show False using still [OF pass.hyps(1) i(1,2)] still [OF health_run.pass [OF pass.hyps] i(1,2)] w3 by simp
  qed
  then show ?case using w3 h(2) pass e by (auto simp: elsewhere_def)
qed

text \<open>
  C34.  What the check of a single bit can say.  Whatever the registers read, for as long as
  the system runs: the four monitors of the lock bits of the PLL control registers never count anything and
  never write a line, because the value zero of the lost lock is also the "last value
  reported" they start with (the lock bits of the PLL status register have a monitor of their own,
  with another mask, of which nothing is said here); and the three monitors of one bit of BOOT_FAIL_CR, MPU_VIOLATION_SR
  and MISC_SR count at most one event each, because the last value is not forgotten
  when the bit goes back to normal.
\<close>

theorem pll_ctrl_monitors_silent:
  fixes w :: "'a health_world_scheme"
  assumes run: "health_run monitors (\<lambda>_. True) w n w'" and st: "monitor_status w = monitor_status_reset" "health_reports w = []"
  shows "(\<forall>i\<in>pll_monitors. hm_count (monitor_status w' ! i) = 0
      \<and> (\<forall>x\<in>set (health_reports w'). fst x \<noteq> hm_pName (monitors ! i :: 'a health_world_scheme HealthMonitor)))
    \<and> (\<forall>i\<in>error_bit_monitors. hm_count (monitor_status w' ! i) \<le> 1)"
proof -
  let ?ms = "monitors :: 'a health_world_scheme HealthMonitor list"
  let ?S = "(\<lambda>i. hm_pName (?ms ! i)) ` pll_monitors"
  have z: "monitor_status w = replicate (length ?ms) zero_status"
    by (simp add: st monitor_status_reset_def length_monitors)
  have pll: "hm_count (monitor_status w1 ! i) = 0" if "i \<in> pll_monitors" "health_run ?ms (\<lambda>_. True) w k w1" for i k w1
  proof -
    have i: "i < length ?ms" using that(1) by (auto simp: pll_monitors_def length_monitors)
    then have mem: "?ms ! i \<in> set ?ms" by simp
    have c: "hm_checkType (?ms ! i) = NOT_EQUAL_TO_VALUE" "hm_maxValue (?ms ! i) = 1" "hm_mask (?ms ! i) = 1"
      using pll_checks [OF that(1)] by blast+
    have "field_of (?ms ! i) raw = hm_maxValue (?ms ! i) \<or> field_of (?ms ! i) raw = 0" for raw
      using one_bit_field [OF monitors_plain mem, of 0 raw] c by auto
    from two_valued_check [OF that(2) monitors_plain z i c(1) this] show ?thesis by simp
  qed
  have err: "hm_count (monitor_status w' ! i) \<le> 1" if "i \<in> error_bit_monitors" for i
  proof -
    have i: "i < length ?ms" using that by (auto simp: error_bit_monitors_def length_monitors)
    then have mem: "?ms ! i \<in> set ?ms" by simp
    have c: "hm_checkType (?ms ! i) = NOT_EQUAL_TO_VALUE" "hm_maxValue (?ms ! i) = 0" "hm_mask (?ms ! i) = 1 \<or> hm_mask (?ms ! i) = 2"
      using error_bit_checks [OF that] by blast+
    have "field_of (?ms ! i) raw = hm_maxValue (?ms ! i) \<or> field_of (?ms ! i) raw = hm_mask (?ms ! i)" for raw
      using one_bit_field [OF monitors_plain mem, of 0 raw] one_bit_field [OF monitors_plain mem, of 1 raw] c by auto
    moreover have "hm_mask (?ms ! i) < 2 ^ 32" using c(3) by auto
    ultimately show ?thesis using two_valued_check [OF run monitors_plain z i c(1)] by fastforce
  qed
  have names: "\<forall>x\<in>set (health_reports w'). fst x \<notin> ?S"
  proof -
    have "hm_count (monitor_status w1 ! i) = 0" if "health_run ?ms (\<lambda>_. True) w k w1" "i < length ?ms" "hm_pName (?ms ! i) \<in> ?S" for k w1 i
    proof -
      have "i \<in> pll_monitors"
        using that(2,3) pll_names [where 'w = "'a health_world_scheme", of i] by (simp only: length_monitors)
      then show ?thesis using that(1) by (rule pll)
    qed
    then show ?thesis using reports_counted [OF run monitors_plain, of ?S] z st(2) by simp
  qed
  then show ?thesis using pll [OF _ run] err by blast
qed

definition due_now :: "'a health_world_scheme HealthMonitor list \<Rightarrow> nat \<Rightarrow> 'a health_world_scheme \<Rightarrow> bool" where
  "due_now mons i w \<longleftrightarrow> due_at (mons ! i) (monitor_status w ! i) (mtime w (time_reads w))"

text \<open>
  C35.  "Changed since last read" of a register that does not change, exactly: nothing is
  reported at the first reading; if the value is zero, nothing ever; if it is another value
  of 32 bits, one change at the second reading, since the first reading is not kept; and if
  it needs more than 32 bits, a change at every reading but the first, since only 32 bits of
  it are.
\<close>

theorem constant_register_changes:
  assumes run: "health_run mons (due_now mons i) w n w'" and p: "plain_monitors mons"
    and st: "monitor_status w = replicate (length mons) zero_status" and clock: "steady_clock (mtime w)"
    and i: "i < length mons" "hm_checkType (mons ! i) = CHANGED_SINCE_LAST"
    and same: "\<forall>j. field_value (mons ! i) (register_of (mons ! i) w j) = Some v"
  shows "hm_count (monitor_status w' ! i) = (if v = 0 then 0 else if v < 2 ^ 32 then of_nat (min 1 (n - 1)) else of_nat (n - 1))"
proof -
  let ?m = "mons ! i"
  let ?P = "\<lambda>n st. hm_initialized st = (n \<noteq> 0) \<and>
    hm_count st = (if v = 0 then 0 else if v < 2 ^ 32 then of_nat (min 1 (n - 1)) else of_nat (n - 1))
    \<and> hm_lastValue st = (if n \<le> 1 then 0 else ucast v)"
  have v: "field_of ?m (register_of ?m w j) = v" for j using same by (simp add: field_of_def)
  have narrow: "v = ucast (ucast v :: u32) \<longleftrightarrow> v < 2 ^ 32"
  proof
    assume "v = ucast (ucast v :: u32)"
    then have "unat v = unat (ucast v :: u32)" using unat_ucast_up [of "ucast v :: u32", where 'b = 64] by simp
    then show "v < 2 ^ 32" using unsigned_less [of "ucast v :: u32"] by (simp add: word_less_nat_alt)
  qed (simp add: ucast_u32_back)
  have "?P n (monitor_status w' ! i) \<and> length (monitor_status w') = length mons
    \<and> mtime w' = mtime w \<and> reg32 w' = reg32 w \<and> reg64 w' = reg64 w"
  proof (rule health_run_status [OF run p _ i(1), where P = "\<lambda>n t st. ?P n st"])
    fix n t k j :: nat and st :: HealthMonitor_Status and w2 :: "'a health_world_scheme"
    assume P: "?P n st" and d: "due_now mons i w2" and w2: "monitor_status w2 ! i = st" "time_reads w2 \<le> k" "mtime w2 = mtime w"
    have "mtime w (time_reads w2) \<le> mtime w k" using steady_mono [OF clock w2(2)] by (simp add: word_le_nat_alt)
    then have due: "due_at ?m st (mtime w k)" using d w2 by (auto simp: due_now_def due_at_def intro: less_le_trans)
    show "?P (Suc n) (visit ?m (mtime w k) (field_of ?m (register_of ?m w j)) (mtime w (Suc k)) st)"
    proof (cases n)
      case 0
      then show ?thesis using P due by (simp add: visit_def Let_def fires_def i(2) v)
    next
      case (Suc q)
      then show ?thesis using P due narrow by (cases q) (auto simp: visit_def Let_def fires_def i(2) v)
    qed
  qed (use st i in \<open>simp_all add: zero_status_def\<close>)
  then show ?thesis by blast
qed

subsection \<open>Runs of the board's table\<close>

definition health_demo :: "u32 \<Rightarrow> 'a health_world_scheme \<Rightarrow> 'a health_world_scheme" where
  "health_demo r w = w\<lparr>monitor_status := monitor_status_reset, health_reports := [], mtime := \<lambda>_. 6000001,
     reg32 := \<lambda>_ _. r, reg64 := \<lambda>_ _. ucast r\<rparr>"

lemma health_demo:
  fixes w :: "'a health_world_scheme"
  shows "monitor_status (health_demo r w) = replicate (length (monitors :: 'a health_world_scheme HealthMonitor list)) zero_status"
  "monitor_status (health_demo r w) = monitor_status_reset" "health_reports (health_demo r w) = []"
  "mtime (health_demo r w) = (\<lambda>_. 6000001)" "steady_clock (\<lambda>_. 6000001)"
  by (simp_all add: health_demo_def monitor_status_reset_def length_monitors steady_clock_def)

lemma health_run_exists:
  assumes "plain_monitors mons" "length (monitor_status w) = length mons"
  shows "\<exists>w'. health_run mons (\<lambda>_. True) w n w' \<and> length (monitor_status w') = length mons"
proof (induction n)
  case 0
  then show ?case using assms(2) by (blast intro: health_run.start)
next
  case (Suc n)
  then obtain w1 where w1: "health_run mons (\<lambda>_. True) w n w1" "length (monitor_status w1) = length mons" by blast
  obtain t sts r rs where "healthmon_monitoring_handler mons 0 w1 = Some (health_moved t sts r (health_reports w1 @ rs) w1)"
    "length sts = length mons" by (rule health_pass [OF assms(1) w1(2), of 0]) blast
  then show ?case using health_run.pass [OF w1(1), of w1] by (fastforce simp: elsewhere_def)
qed

theorem health_report_rate_witness:
  "\<forall>w :: health_world. \<exists>w'. health_run monitors (\<lambda>_. True) (health_demo 3 w) 10 w'
     \<and> unat (hm_count (monitor_status w' ! 5)) * 5000001 \<le> 6000001"
proof
  fix w :: health_world
  let ?w = "health_demo 3 w"
  obtain w' where r: "health_run monitors (\<lambda>_. True) ?w 10 w'"
    using health_run_exists [OF monitors_plain, of ?w 10] by (auto simp: health_demo(1))
  have c: "steady_clock (mtime ?w)" by (simp add: health_demo(4,5))
  have "5 < length (monitors :: health_world HealthMonitor list)" by (simp add: length_monitors)
  from health_report_rate [OF r monitors_plain health_demo(1) c this]
  have "unat (hm_count (monitor_status w' ! 5)) * 5000001 \<le> unat (mtime w' (time_reads w'))"
    by (simp add: monitors_def monitor_def)
  moreover have "mtime w' = mtime ?w"
    using health_run_status [OF r monitors_plain _ \<open>5 < _\<close>, of "\<lambda>_ _ _. True"] by (simp add: health_demo(1))
  ultimately have "unat (hm_count (monitor_status w' ! 5)) * 5000001 \<le> 6000001" by (simp add: health_demo(4))
  then show "\<exists>w'. health_run monitors (\<lambda>_. True) ?w 10 w' \<and> unat (hm_count (monitor_status w' ! 5)) * 5000001 \<le> 6000001"
    using r by blast
qed

theorem pll_ctrl_monitors_silent_witness:
  "\<forall>w :: health_world. \<exists>w'. health_run monitors (\<lambda>_. True) (health_demo 0 w) 1000 w'
     \<and> reg32 w' = (\<lambda>_ _. 0) \<and> hm_count (monitor_status w' ! 44) = 0"
proof
  fix w :: health_world
  let ?w = "health_demo 0 w"
  obtain w' where r: "health_run monitors (\<lambda>_. True) ?w 1000 w'"
    using health_run_exists [OF monitors_plain, of ?w 1000] by (auto simp: health_demo(1))
  have "44 < length (monitors :: health_world HealthMonitor list)" by (simp add: length_monitors)
  then have "reg32 w' = reg32 ?w"
    using health_run_status [OF r monitors_plain, of 44 "\<lambda>_ _ _. True"] by (simp add: health_demo(1))
  moreover have "hm_count (monitor_status w' ! 44) = 0"
    using pll_ctrl_monitors_silent [OF r health_demo(2,3)] by (simp add: pll_monitors_def)
  ultimately show "\<exists>w'. health_run monitors (\<lambda>_. True) ?w 1000 w' \<and> reg32 w' = (\<lambda>_ _. 0) \<and> hm_count (monitor_status w' ! 44) = 0"
    using r by (auto simp: health_demo_def)
qed

theorem constant_register_changes_witness:
  "\<forall>w :: health_world. \<exists>w'. health_run monitors (due_now monitors 0) (health_demo 1 w) 2 w' \<and> hm_count (monitor_status w' ! 0) = 1"
proof
  fix w :: health_world
  let ?w = "health_demo 1 w" and ?ms = "monitors :: health_world HealthMonitor list"
  have l: "0 < length ?ms" "length (monitor_status ?w) = length ?ms" by (simp_all add: length_monitors health_demo(1))
  have m: "?ms ! 0 = monitor ''SYSREG:FABRIC_RESET_CR'' 0x20002010 CHANGED_SINCE_LAST 0 0 0 0x1 5" by (simp add: monitors_def)
  have due: "due_now ?ms 0 u" if "throttle_startTime (monitor_status u ! 0) = 0" "mtime u = (\<lambda>_. 6000001)" for u
    using that by (simp add: due_now_def due_at_def m monitor_def)
  obtain t sts r rs where h: "healthmon_monitoring_handler ?ms 0 ?w = Some (health_moved t sts r (health_reports ?w @ rs) ?w)"
    "length sts = length ?ms" and v: "visited ?ms t 0 ?w (monitor_status ?w ! 0) (sts ! 0)"
    using health_pass [OF monitors_plain l(2), of 0] l(1) by metis
  let ?w1 = "health_moved t sts r (health_reports ?w @ rs) ?w"
  have st0: "monitor_status ?w ! 0 = zero_status" by (simp add: health_demo(1) length_monitors)
  have "throttle_startTime (monitor_status ?w1 ! 0) = 0"
    using v unfolding visited_def st0 by (auto simp: visit_def Let_def fires_def m monitor_def zero_status_def)
  then have d1: "due_now ?ms 0 ?w1" by (rule due) (simp add: health_demo(4))
  have d0: "due_now ?ms 0 ?w" by (rule due) (simp_all add: st0 zero_status_def health_demo(4))
  have r1: "health_run ?ms (due_now ?ms 0) ?w (Suc 0) ?w1"
    using health_run.pass [OF health_run.start [of ?ms "due_now ?ms 0" ?w] _ d0 h(1)] by (simp add: elsewhere_def)
  have l1: "length (monitor_status ?w1) = length ?ms" using h(2) by simp
  obtain w2 where h2: "healthmon_monitoring_handler ?ms 0 ?w1 = Some w2"
    by (rule health_pass [OF monitors_plain l1, of 0])
  have r2: "health_run ?ms (due_now ?ms 0) ?w 2 w2"
    using health_run.pass [OF r1 _ d1 h2] by (simp add: elsewhere_def numeral_2_eq_2)
  have c: "steady_clock (mtime ?w)" by (simp add: health_demo(4,5))
  have "\<forall>j. field_value (?ms ! 0) (register_of (?ms ! 0) ?w j) = Some 1"
    by (simp add: m monitor_def register_of_def field_value_def health_demo_def)
  from constant_register_changes [OF r2 monitors_plain health_demo(1) c l(1) _ this]
  have "hm_count (monitor_status w2 ! 0) = 1" by (simp add: m monitor_def)
  then show "\<exists>w'. health_run monitors (due_now monitors 0) ?w 2 w' \<and> hm_count (monitor_status w' ! 0) = 1"
    using r2 by blast
qed

end
