(* ===== verification/HSS_Beu.thy ===== *)
theory HSS_Beu
  imports HSS_Health
begin

text \<open>
  The bus error monitor (services/beu/beu_service.c).  The registers of the bus error units
  are cells of the state that the hardware writes between the passes of the super loop;
  the lines on the console are collected in \<open>beu_log\<close>.
\<close>

subsection \<open>State and operations\<close>

record BEU_regs =
  beu_ENABLE :: u64
  beu_ACCRUED :: u64
  beu_VALUE :: u64

datatype beu_line = Uncorrectable hart u64 u64 | Bus_event hart nat

record beu_world = health_world +
  beu_regs :: "BEU_regs list"
  beu_counters :: "u64 list"
  shadow_accrued :: "u64 list"
  shadow_value :: "u64 list"
  beu_log :: "beu_line list"

text \<open>The events counted, by their place in the register (\<^verbatim>\<open>beu_stats_\<close>), and the two masks.\<close>

definition beu_events :: "nat list" where "beu_events = [2, 3, 5, 6, 7]"

definition BEU_ENABLE_MASK :: u64 where "BEU_ENABLE_MASK = 0xEC"
definition BEU_ENABLE_UNCORRECTABLE_MASK :: u64 where "BEU_ENABLE_UNCORRECTABLE_MASK = 0x88"

definition BIT :: "nat \<Rightarrow> u64" where "BIT n = push_bit n 1"

definition beu_update :: "hart \<Rightarrow> (BEU_regs \<Rightarrow> BEU_regs) \<Rightarrow> 'a beu_world_scheme \<Rightarrow> 'a beu_world_scheme" where
  "beu_update h f w = w\<lparr>beu_regs := (beu_regs w)[h := f (beu_regs w ! h)]\<rparr>"

definition beu_init_handler :: "'a beu_world_scheme sm_handler" where
  "beu_init_handler m w = Some (set_state m (sm_state (machines w ! m) + 1)
     (fold (\<lambda>h. beu_update h (\<lambda>r. r\<lparr>beu_ACCRUED := 0, beu_VALUE := 0, beu_ENABLE := BEU_ENABLE_MASK\<rparr>)) [0..<5] w))"

text \<open>Counting one event: the counter, the bit in the register, the line.\<close>

definition beu_count :: "hart \<Rightarrow> u64 \<Rightarrow> nat \<Rightarrow> 'a beu_world_scheme \<Rightarrow> 'a beu_world_scheme" where
  "beu_count h accrued i w =
     (if accrued AND BIT (beu_events ! i) \<noteq> 0 then
        let w1 = w\<lparr>beu_counters := (beu_counters w)[i := beu_counters w ! i + 1]\<rparr>;
            w2 = beu_update h (\<lambda>r. r\<lparr>beu_ACCRUED := beu_ACCRUED r AND NOT (BIT (beu_events ! i))\<rparr>) w1
        in w2\<lparr>beu_log := beu_log w2 @ [Bus_event h (beu_events ! i)]\<rparr>
      else w)"

definition beu_fatal :: "hart \<Rightarrow> u64 \<Rightarrow> u64 \<Rightarrow> 'a beu_world_scheme \<Rightarrow> 'a beu_world_scheme" where
  "beu_fatal h accrued value w =
     beu_update h (\<lambda>r. r\<lparr>beu_ENABLE := 0\<rparr>)
       (if beu_ENABLE (beu_regs w ! h) \<noteq> 0 \<and> value = shadow_value w ! h
        then w\<lparr>beu_log := beu_log w @ [Uncorrectable h accrued value]\<rparr> else w)"

definition beu_check_hart :: "hart \<Rightarrow> 'a beu_world_scheme \<Rightarrow> 'a beu_world_scheme" where
  "beu_check_hart h w =
     (let accrued = beu_ACCRUED (beu_regs w ! h); value = beu_VALUE (beu_regs w ! h) in
      if accrued AND BEU_ENABLE_MASK \<noteq> 0 then
        let w1 = (if accrued AND BEU_ENABLE_UNCORRECTABLE_MASK \<noteq> 0 then beu_fatal h accrued value w else w);
            w2 = fold (beu_count h accrued) [0..<length beu_events] w1
        in w2\<lparr>shadow_accrued := (shadow_accrued w2)[h := accrued], shadow_value := (shadow_value w2)[h := value]\<rparr>
      else w)"

definition beu_monitoring_handler :: "'a beu_world_scheme sm_handler" where
  "beu_monitoring_handler m w = Some (fold beu_check_hart [0..<5] w)"

definition beu_service :: "'a beu_world_scheme MachineDesc" where
  "beu_service = two_state_machine beu_init_handler beu_monitoring_handler"

subsection \<open>One hart\<close>

lemma bit_BIT: "x AND BIT n \<noteq> 0 \<longleftrightarrow> bit x n"
  by (metis BIT_def and_exp_eq_0_iff_not_bit push_bit_of_1)

lemma BIT_bit: "bit (BIT k) n \<longleftrightarrow> n = k \<and> n < 64"
  by (auto simp: BIT_def bit_exp_iff)

lemma length_beu_events: "length beu_events = 5"
  by (simp add: beu_events_def)

lemma beu_masks:
  "bit BEU_ENABLE_MASK n \<longleftrightarrow> (\<exists>i<5. n = beu_events ! i)"
  "bit BEU_ENABLE_UNCORRECTABLE_MASK n \<longleftrightarrow> n = 3 \<or> n = 7"
proof -
  have m: "BEU_ENABLE_MASK = BIT 2 OR BIT 3 OR BIT 5 OR BIT 6 OR BIT 7"
    by (simp add: BEU_ENABLE_MASK_def BIT_def)
  have e: "(\<exists>i<5. n = beu_events ! i) \<longleftrightarrow> n \<in> set beu_events" by (auto simp: in_set_conv_nth length_beu_events)
  show "bit BEU_ENABLE_MASK n \<longleftrightarrow> (\<exists>i<5. n = beu_events ! i)"
    unfolding e m by (auto simp: bit_or_iff BIT_bit beu_events_def)
  have u: "BEU_ENABLE_UNCORRECTABLE_MASK = BIT 3 OR BIT 7" by (simp add: BEU_ENABLE_UNCORRECTABLE_MASK_def BIT_def)
  show "bit BEU_ENABLE_UNCORRECTABLE_MASK n \<longleftrightarrow> n = 3 \<or> n = 7" unfolding u by (auto simp: bit_or_iff BIT_bit)
qed

text \<open>What is left of the register after the first \<open>k\<close> events have been looked at.\<close>

definition uncounted :: "nat \<Rightarrow> u64 \<Rightarrow> u64 \<Rightarrow> u64" where
  "uncounted k a x = x AND NOT (fold (\<lambda>i y. if bit a (beu_events ! i) then y OR BIT (beu_events ! i) else y) [0..<k] 0)"

definition counted :: "nat \<Rightarrow> u64 \<Rightarrow> u64 list \<Rightarrow> u64 list" where
  "counted k a c = map (\<lambda>i. c ! i + of_bool (i < k \<and> bit a (beu_events ! i))) [0..<length c]"

definition event_lines :: "hart \<Rightarrow> nat \<Rightarrow> u64 \<Rightarrow> beu_line list" where
  "event_lines h k a = map (\<lambda>i. Bus_event h (beu_events ! i)) (filter (\<lambda>i. bit a (beu_events ! i)) [0..<k])"

lemma uncounted_Suc:
  "uncounted (Suc k) a x = (if bit a (beu_events ! k) then uncounted k a x AND NOT (BIT (beu_events ! k)) else uncounted k a x)"
  by (simp add: uncounted_def ac_simps bit.de_Morgan_disj)

lemma counted_Suc:
  "k < length c \<Longrightarrow> counted (Suc k) a c =
     (if bit a (beu_events ! k) then (counted k a c)[k := counted k a c ! k + 1] else counted k a c)"
proof (rule nth_equalityI)
  show "counted (Suc k) a c ! i = (if bit a (beu_events ! k) then (counted k a c)[k := counted k a c ! k + 1] else counted k a c) ! i"
    if "k < length c" "i < length (counted (Suc k) a c)" for i
    using that by (cases "i = k"; cases "bit a (beu_events ! i)") (simp_all add: counted_def less_Suc_eq)
qed (simp add: counted_def)

lemma counted_length [simp]: "length (counted k a c) = length c"
  by (simp add: counted_def)

lemma count_events:
  assumes "h < length (beu_regs w)" "k \<le> length (beu_counters w)"
  shows "fold (beu_count h a) [0..<k] w = w\<lparr>beu_regs := (beu_regs w)[h := (beu_regs w ! h)\<lparr>beu_ACCRUED := uncounted k a (beu_ACCRUED (beu_regs w ! h))\<rparr>],
     beu_counters := counted k a (beu_counters w), beu_log := beu_log w @ event_lines h k a\<rparr>"
  using assms(2)
proof (induction k)
  case 0
  have "counted 0 a c = c" for c by (simp add: counted_def map_nth)
  then show ?case by (simp add: uncounted_def event_lines_def)
next
  case (Suc k)
  then show ?case using assms(1)
    by (simp add: beu_count_def bit_BIT uncounted_Suc counted_Suc event_lines_def beu_update_def Let_def)
qed

lemma uncounted_all: "uncounted 5 a a = a AND NOT BEU_ENABLE_MASK"
proof (rule bit_word_eqI)
  fix n :: nat
  assume n: "n < LENGTH(64)"
  have "bit (uncounted k a x) n \<longleftrightarrow> bit x n \<and> \<not> (\<exists>i<k. n = beu_events ! i \<and> bit a n)" for k x
  proof (induction k)
    case 0
    show ?case using n by (simp add: uncounted_def bit_simps)
  next
    case (Suc k)
    then show ?case using n by (cases "bit a (beu_events ! k)") (auto simp: uncounted_Suc bit_and_iff bit_not_iff BIT_bit less_Suc_eq)
  qed
  then show "bit (uncounted 5 a a) n = bit (a AND NOT BEU_ENABLE_MASK) n"
    using n by (auto simp: bit_and_iff bit_not_iff beu_masks(1))
qed

text \<open>The pass over one hart, as one update of the state.\<close>

definition fatal_line :: "hart \<Rightarrow> BEU_regs \<Rightarrow> u64 \<Rightarrow> beu_line list" where
  "fatal_line h r shadow =
     (if beu_ACCRUED r AND BEU_ENABLE_UNCORRECTABLE_MASK \<noteq> 0 \<and> beu_ENABLE r \<noteq> 0 \<and> beu_VALUE r = shadow
      then [Uncorrectable h (beu_ACCRUED r) (beu_VALUE r)] else [])"

definition served :: "BEU_regs \<Rightarrow> BEU_regs" where
  "served r = r\<lparr>beu_ENABLE := (if beu_ACCRUED r AND BEU_ENABLE_UNCORRECTABLE_MASK \<noteq> 0 then 0 else beu_ENABLE r),
     beu_ACCRUED := beu_ACCRUED r AND NOT BEU_ENABLE_MASK\<rparr>"

abbreviation (input) pending_events :: "BEU_regs \<Rightarrow> bool" where
  "pending_events r \<equiv> beu_ACCRUED r AND BEU_ENABLE_MASK \<noteq> 0"

definition beu_ok :: "'a beu_world_scheme \<Rightarrow> bool" where
  "beu_ok w \<longleftrightarrow> length (beu_regs w) = 5 \<and> length (beu_counters w) = 5 \<and> length (shadow_value w) = 5 \<and> length (shadow_accrued w) = 5"

lemma check_hart:
  assumes "beu_ok w" "h < 5"
  defines "r \<equiv> beu_regs w ! h"
  shows "beu_check_hart h w = (if pending_events r then
     w\<lparr>beu_regs := (beu_regs w)[h := served r], beu_counters := counted 5 (beu_ACCRUED r) (beu_counters w),
       shadow_accrued := (shadow_accrued w)[h := beu_ACCRUED r], shadow_value := (shadow_value w)[h := beu_VALUE r],
       beu_log := beu_log w @ fatal_line h r (shadow_value w ! h) @ event_lines h 5 (beu_ACCRUED r)\<rparr> else w)"
proof (cases "pending_events r")
  case True
  have l: "h < length (beu_regs w)" "length beu_events = 5" "length (beu_counters w) = 5"
    using assms(1,2) by (simp_all add: beu_ok_def beu_events_def)
  let ?w1 = "if beu_ACCRUED r AND BEU_ENABLE_UNCORRECTABLE_MASK \<noteq> 0 then beu_fatal h (beu_ACCRUED r) (beu_VALUE r) w else w"
  have f: "fold (beu_count h (beu_ACCRUED r)) [0..<5] ?w1 = ?w1\<lparr>beu_regs := (beu_regs ?w1)[h := (beu_regs ?w1 ! h)
       \<lparr>beu_ACCRUED := uncounted 5 (beu_ACCRUED r) (beu_ACCRUED (beu_regs ?w1 ! h))\<rparr>],
     beu_counters := counted 5 (beu_ACCRUED r) (beu_counters ?w1), beu_log := beu_log ?w1 @ event_lines h 5 (beu_ACCRUED r)\<rparr>"
    by (rule count_events) (use l in \<open>simp_all add: beu_fatal_def beu_update_def\<close>)
  show ?thesis
    unfolding beu_check_hart_def r_def [symmetric] Let_def l(2) f using True l
    by (simp add: beu_fatal_def beu_update_def r_def [symmetric] uncounted_all served_def fatal_line_def)
next
  case False
  then show ?thesis by (simp add: beu_check_hart_def r_def Let_def)
qed

subsection \<open>A pass and a history\<close>

definition settled :: "BEU_regs \<Rightarrow> BEU_regs" where
  "settled r = (if pending_events r then served r else r)"

definition hart_lines :: "hart \<Rightarrow> BEU_regs \<Rightarrow> u64 \<Rightarrow> beu_line list" where
  "hart_lines h r shadow = (if pending_events r then fatal_line h r shadow @ event_lines h 5 (beu_ACCRUED r) else [])"

definition next_shadow :: "BEU_regs \<Rightarrow> u64 \<Rightarrow> u64" where
  "next_shadow r shadow = (if pending_events r then beu_VALUE r else shadow)"

lemma no_events: "x AND BEU_ENABLE_MASK = 0 \<Longrightarrow> i < 5 \<Longrightarrow> \<not> bit x (beu_events ! i)"
  using beu_masks(1) [of "beu_events ! i"] by (metis bit_0_eq bit_and_iff bot_apply bot_bool_def)

lemma pass_prefix:
  assumes "beu_ok w" "k \<le> 5"
  shows "\<exists>w'. fold beu_check_hart [0..<k] w = w' \<and> beu_ok w'
    \<and> (\<forall>h<5. beu_regs w' ! h = (if h < k then settled (beu_regs w ! h) else beu_regs w ! h)
        \<and> shadow_value w' ! h = (if h < k then next_shadow (beu_regs w ! h) (shadow_value w ! h) else shadow_value w ! h))
    \<and> (\<forall>i<5. beu_counters w' ! i = beu_counters w ! i + (\<Sum>h<k. of_bool (bit (beu_ACCRUED (beu_regs w ! h)) (beu_events ! i))))
    \<and> beu_log w' = beu_log w @ concat (map (\<lambda>h. hart_lines h (beu_regs w ! h) (shadow_value w ! h)) [0..<k])"
  using assms(2)
proof (induction k)
  case 0
  then show ?case using assms(1) by simp
next
  case (Suc k)
  then obtain w1 where w1: "fold beu_check_hart [0..<k] w = w1" and ok: "beu_ok w1"
    and regs: "\<forall>h<5. beu_regs w1 ! h = (if h < k then settled (beu_regs w ! h) else beu_regs w ! h)
        \<and> shadow_value w1 ! h = (if h < k then next_shadow (beu_regs w ! h) (shadow_value w ! h) else shadow_value w ! h)"
    and cnt: "\<forall>i<5. beu_counters w1 ! i = beu_counters w ! i + (\<Sum>h<k. of_bool (bit (beu_ACCRUED (beu_regs w ! h)) (beu_events ! i)))"
    and lg: "beu_log w1 = beu_log w @ concat (map (\<lambda>h. hart_lines h (beu_regs w ! h) (shadow_value w ! h)) [0..<k])" by auto
  have k: "k < 5" using Suc.prems by simp
  have r: "beu_regs w1 ! k = beu_regs w ! k" "shadow_value w1 ! k = shadow_value w ! k" using regs k by auto
  let ?r = "beu_regs w ! k"
  have l: "length (beu_regs w1) = 5" "length (beu_counters w1) = 5" "length (shadow_value w1) = 5" "length (shadow_accrued w1) = 5"
    using ok by (simp_all add: beu_ok_def)
  show ?case
  proof (cases "pending_events ?r")
    case True
    then show ?thesis
      using check_hart [OF ok k] w1 regs cnt lg r l k
      by (auto simp: beu_ok_def nth_list_update less_Suc_eq settled_def next_shadow_def hart_lines_def counted_def)
  next
    case False
    then have "\<not> bit (beu_ACCRUED ?r) (beu_events ! i)" if "i < 5" for i using no_events that by blast
    then show ?thesis
      using False check_hart [OF ok k] w1 regs cnt lg r ok k
      by (auto simp: less_Suc_eq settled_def next_shadow_def hart_lines_def)
  qed
qed

text \<open>
  What the hardware does between two passes: new bits in the register of accrued events and
  a new value, for each hart.
\<close>

type_synonym beu_raise = "hart \<Rightarrow> u64 \<times> u64"

definition hw_raise :: "beu_raise \<Rightarrow> 'a beu_world_scheme \<Rightarrow> 'a beu_world_scheme" where
  "hw_raise e w = w\<lparr>beu_regs := map (\<lambda>h. (beu_regs w ! h)\<lparr>beu_ACCRUED := beu_ACCRUED (beu_regs w ! h) OR fst (e h), beu_VALUE := snd (e h)\<rparr>) [0..<5]\<rparr>"

fun beu_history :: "nat \<Rightarrow> beu_raise list \<Rightarrow> 'a beu_world_scheme \<Rightarrow> 'a beu_world_scheme option" where
  "beu_history m [] w = Some w"
| "beu_history m (e # es) w = do { w1 \<leftarrow> beu_monitoring_handler m (hw_raise e w); beu_history m es w1 }"

text \<open>
  Whether the value of the first uncorrectable error is the one of the event before it;
  \<open>s\<close> is the value last seen.
\<close>

fun repeats_value :: "u64 \<Rightarrow> (u64 \<times> u64) list \<Rightarrow> bool" where
  "repeats_value s [] \<longleftrightarrow> False"
| "repeats_value s ((a, v) # es) \<longleftrightarrow>
     (if a AND BEU_ENABLE_UNCORRECTABLE_MASK \<noteq> 0 then v = s
      else repeats_value (if a AND BEU_ENABLE_MASK \<noteq> 0 then v else s) es)"

fun is_fatal :: "hart \<Rightarrow> beu_line \<Rightarrow> bool" where
  "is_fatal h (Uncorrectable g a v) \<longleftrightarrow> g = h"
| "is_fatal h (Bus_event g n) \<longleftrightarrow> False"

lemma masked_or:
  assumes "x AND BEU_ENABLE_MASK = 0"
  shows "(x OR y) AND BEU_ENABLE_MASK = y AND BEU_ENABLE_MASK"
    and "(x OR y) AND BEU_ENABLE_UNCORRECTABLE_MASK = y AND BEU_ENABLE_UNCORRECTABLE_MASK"
    and "i < 5 \<Longrightarrow> bit (x OR y) (beu_events ! i) = bit y (beu_events ! i)"
proof -
  have u: "BEU_ENABLE_UNCORRECTABLE_MASK = BEU_ENABLE_MASK AND BEU_ENABLE_UNCORRECTABLE_MASK"
    by (simp add: BEU_ENABLE_MASK_def BEU_ENABLE_UNCORRECTABLE_MASK_def)
  have "x AND BEU_ENABLE_UNCORRECTABLE_MASK = (x AND BEU_ENABLE_MASK) AND BEU_ENABLE_UNCORRECTABLE_MASK"
    using arg_cong [OF u, of "\<lambda>m. x AND m"] by (simp only: and.assoc)
  then have "x AND BEU_ENABLE_UNCORRECTABLE_MASK = 0" using assms by simp
  then show "(x OR y) AND BEU_ENABLE_UNCORRECTABLE_MASK = y AND BEU_ENABLE_UNCORRECTABLE_MASK"
    by (simp add: bit.conj_disj_distrib2)
  show "(x OR y) AND BEU_ENABLE_MASK = y AND BEU_ENABLE_MASK" using assms by (simp add: bit.conj_disj_distrib2)
  show "i < 5 \<Longrightarrow> bit (x OR y) (beu_events ! i) = bit y (beu_events ! i)" using no_events [OF assms] by (simp add: bit_or_iff)
qed

lemma event_lines_not_fatal: "filter (is_fatal h) (event_lines g k a) = []"
  by (auto simp: event_lines_def filter_empty_conv)

lemma fatal_lines:
  "length (filter (is_fatal h) (hart_lines g r s)) =
     of_bool (g = h \<and> beu_ACCRUED r AND BEU_ENABLE_UNCORRECTABLE_MASK \<noteq> 0 \<and> pending_events r \<and> beu_ENABLE r \<noteq> 0 \<and> beu_VALUE r = s)"
  by (simp add: hart_lines_def fatal_line_def event_lines_not_fatal)

lemma fatal_all:
  "h < 5 \<Longrightarrow> length (filter (is_fatal h) (concat (map (\<lambda>g. hart_lines g (r g) (s g)) [0..<5]))) = length (filter (is_fatal h) (hart_lines h (r h) (s h)))"
proof -
  let ?n = "\<lambda>g. length (filter (is_fatal h) (hart_lines g (r g) (s g)))"
  assume "h < 5"
  have "(\<Sum>g\<in>{0..<5}. ?n g) = (\<Sum>g\<in>{0..<5}. if g = h then ?n h else 0)"
    by (rule sum.cong) (auto simp: fatal_lines)
  also have "\<dots> = ?n h" using \<open>h < 5\<close> by simp
  finally have "(\<Sum>g\<leftarrow>[0..<5]. ?n g) = ?n h" by (simp add: interv_sum_list_conv_sum_set_nat)
  then show ?thesis by (simp add: filter_concat length_concat comp_def)
qed

lemma uncorrectable_pending: "x AND BEU_ENABLE_UNCORRECTABLE_MASK \<noteq> 0 \<Longrightarrow> x AND BEU_ENABLE_MASK \<noteq> 0"
proof
  assume "x AND BEU_ENABLE_UNCORRECTABLE_MASK \<noteq> 0" "x AND BEU_ENABLE_MASK = 0"
  then show False using masked_or(2) [of x 0] by simp
qed

lemma settled_clear: "beu_ACCRUED (settled r) AND BEU_ENABLE_MASK = 0"
  by (simp add: settled_def served_def and.assoc)

lemma settled_enable:
  "beu_ENABLE (settled r) = (if beu_ACCRUED r AND BEU_ENABLE_UNCORRECTABLE_MASK \<noteq> 0 then 0 else beu_ENABLE r)"
  using uncorrectable_pending [of "beu_ACCRUED r"] by (auto simp: settled_def served_def)

definition raised :: "beu_raise \<Rightarrow> 'a beu_world_scheme \<Rightarrow> hart \<Rightarrow> BEU_regs" where
  "raised e w h = (beu_regs w ! h)\<lparr>beu_ACCRUED := beu_ACCRUED (beu_regs w ! h) OR fst (e h), beu_VALUE := snd (e h)\<rparr>"

definition beu_quiet :: "'a beu_world_scheme \<Rightarrow> bool" where
  "beu_quiet w \<longleftrightarrow> beu_ok w \<and> (\<forall>h<5. beu_ACCRUED (beu_regs w ! h) AND BEU_ENABLE_MASK = 0)"

definition event_count :: "nat \<Rightarrow> beu_raise \<Rightarrow> nat" where
  "event_count i e = card {h. h < 5 \<and> bit (fst (e h)) (beu_events ! i)}"

definition fatal_count :: "hart \<Rightarrow> 'a beu_world_scheme \<Rightarrow> nat" where
  "fatal_count h w = length (filter (is_fatal h) (beu_log w))"

lemma beu_round:
  assumes q: "beu_quiet w"
  obtains w1 where "beu_monitoring_handler m (hw_raise e w) = Some w1" "beu_quiet w1"
    "\<And>i. i < 5 \<Longrightarrow> beu_counters w1 ! i = beu_counters w ! i + of_nat (event_count i e)"
    "\<And>h. h < 5 \<Longrightarrow> beu_ENABLE (beu_regs w1 ! h) = (if fst (e h) AND BEU_ENABLE_UNCORRECTABLE_MASK \<noteq> 0 then 0 else beu_ENABLE (beu_regs w ! h))"
    "\<And>h. h < 5 \<Longrightarrow> shadow_value w1 ! h = (if fst (e h) AND BEU_ENABLE_MASK \<noteq> 0 then snd (e h) else shadow_value w ! h)"
    "\<And>h. h < 5 \<Longrightarrow> fatal_count h w1 = fatal_count h w
       + of_bool (fst (e h) AND BEU_ENABLE_UNCORRECTABLE_MASK \<noteq> 0 \<and> beu_ENABLE (beu_regs w ! h) \<noteq> 0 \<and> snd (e h) = shadow_value w ! h)"
proof -
  let ?w = "hw_raise e w"
  have ok: "beu_ok ?w" and clear: "\<And>h. h < 5 \<Longrightarrow> beu_ACCRUED (beu_regs w ! h) AND BEU_ENABLE_MASK = 0"
    using q by (auto simp: beu_quiet_def beu_ok_def hw_raise_def)
  have r: "beu_regs ?w ! h = raised e w h" if "h < 5" for h using that by (simp add: hw_raise_def raised_def)
  have same: "beu_counters ?w = beu_counters w" "shadow_value ?w = shadow_value w" "beu_log ?w = beu_log w"
    by (simp_all add: hw_raise_def)
  have masked: "beu_ACCRUED (raised e w h) AND BEU_ENABLE_MASK = fst (e h) AND BEU_ENABLE_MASK"
    "beu_ACCRUED (raised e w h) AND BEU_ENABLE_UNCORRECTABLE_MASK = fst (e h) AND BEU_ENABLE_UNCORRECTABLE_MASK"
    "i < 5 \<Longrightarrow> bit (beu_ACCRUED (raised e w h)) (beu_events ! i) = bit (fst (e h)) (beu_events ! i)" if "h < 5" for h i
    using masked_or [OF clear [OF that]] by (simp_all add: raised_def)
  obtain w1 where w1: "fold beu_check_hart [0..<5] ?w = w1" "beu_ok w1"
    and regs: "\<And>h. h < 5 \<Longrightarrow> beu_regs w1 ! h = settled (beu_regs ?w ! h) \<and> shadow_value w1 ! h = next_shadow (beu_regs ?w ! h) (shadow_value ?w ! h)"
    and cnt: "\<And>i. i < 5 \<Longrightarrow> beu_counters w1 ! i = beu_counters ?w ! i + (\<Sum>h<5. of_bool (bit (beu_ACCRUED (beu_regs ?w ! h)) (beu_events ! i)))"
    and lg: "beu_log w1 = beu_log ?w @ concat (map (\<lambda>h. hart_lines h (beu_regs ?w ! h) (shadow_value ?w ! h)) [0..<5])"
    using pass_prefix [OF ok, of 5] by auto
  show ?thesis
  proof (rule that [of w1])
    show "beu_monitoring_handler m ?w = Some w1" by (simp only: beu_monitoring_handler_def w1(1))
    show "beu_quiet w1" using w1(2) regs settled_clear by (simp add: beu_quiet_def)
    show "beu_counters w1 ! i = beu_counters w ! i + of_nat (event_count i e)" if "i < 5" for i
    proof -
      have "(\<Sum>h<5. of_bool (bit (beu_ACCRUED (beu_regs ?w ! h)) (beu_events ! i)) :: u64) = (\<Sum>h<5. of_bool (bit (fst (e h)) (beu_events ! i)))"
        by (rule sum.cong) (use that in \<open>simp_all add: r masked\<close>)
      also have "\<dots> = of_nat (card {h \<in> {..<5}. bit (fst (e h)) (beu_events ! i)})"
        by (simp add: of_bool_def sum.If_cases Int_def)
      finally show ?thesis using cnt [OF that] by (simp add: same event_count_def)
    qed
  next
    fix h :: nat
    assume h: "h < 5"
    show "beu_ENABLE (beu_regs w1 ! h) = (if fst (e h) AND BEU_ENABLE_UNCORRECTABLE_MASK \<noteq> 0 then 0 else beu_ENABLE (beu_regs w ! h))"
      using regs [OF h] masked(2) [OF h] by (simp add: r [OF h] settled_enable) (simp add: raised_def)
    show "shadow_value w1 ! h = (if fst (e h) AND BEU_ENABLE_MASK \<noteq> 0 then snd (e h) else shadow_value w ! h)"
      using regs [OF h] masked(1) [OF h] by (simp add: r [OF h] next_shadow_def same) (simp add: raised_def)
    have "fatal_count h w1 = fatal_count h w + length (filter (is_fatal h) (hart_lines h (raised e w h) (shadow_value w ! h)))"
      by (simp add: fatal_count_def lg fatal_all [OF h] same r [OF h])
    moreover have "beu_ENABLE (raised e w h) = beu_ENABLE (beu_regs w ! h)" "beu_VALUE (raised e w h) = snd (e h)"
      by (simp_all add: raised_def)
    ultimately show "fatal_count h w1 = fatal_count h w
       + of_bool (fst (e h) AND BEU_ENABLE_UNCORRECTABLE_MASK \<noteq> 0 \<and> beu_ENABLE (beu_regs w ! h) \<noteq> 0 \<and> snd (e h) = shadow_value w ! h)"
      using masked(1,2) [OF h] uncorrectable_pending [of "fst (e h)"] by (simp add: fatal_lines)
  qed
qed

lemma beu_history_quiet:
  assumes "beu_quiet w"
  shows "\<exists>w'. beu_history m es w = Some w'
    \<and> (\<forall>i<5. beu_counters w' ! i = beu_counters w ! i + of_nat (\<Sum>e\<leftarrow>es. event_count i e))
    \<and> (\<forall>h<5. fatal_count h w' = fatal_count h w
        + of_bool (beu_ENABLE (beu_regs w ! h) \<noteq> 0 \<and> repeats_value (shadow_value w ! h) (map (\<lambda>e. e h) es)))"
  using assms
proof (induction es arbitrary: w)
  case Nil
  then show ?case by simp
next
  case (Cons e es)
  obtain w1 where w1: "beu_monitoring_handler m (hw_raise e w) = Some w1" "beu_quiet w1"
    and c: "\<And>i. i < 5 \<Longrightarrow> beu_counters w1 ! i = beu_counters w ! i + of_nat (event_count i e)"
    and en: "\<And>h. h < 5 \<Longrightarrow> beu_ENABLE (beu_regs w1 ! h) = (if fst (e h) AND BEU_ENABLE_UNCORRECTABLE_MASK \<noteq> 0 then 0 else beu_ENABLE (beu_regs w ! h))"
    and sh: "\<And>h. h < 5 \<Longrightarrow> shadow_value w1 ! h = (if fst (e h) AND BEU_ENABLE_MASK \<noteq> 0 then snd (e h) else shadow_value w ! h)"
    and f: "\<And>h. h < 5 \<Longrightarrow> fatal_count h w1 = fatal_count h w
       + of_bool (fst (e h) AND BEU_ENABLE_UNCORRECTABLE_MASK \<noteq> 0 \<and> beu_ENABLE (beu_regs w ! h) \<noteq> 0 \<and> snd (e h) = shadow_value w ! h)"
    by (rule beu_round [OF Cons.prems, of m e]) (rule that; assumption)
  obtain w' where w': "beu_history m es w1 = Some w'"
    "\<forall>i<5. beu_counters w' ! i = beu_counters w1 ! i + of_nat (\<Sum>e\<leftarrow>es. event_count i e)"
    "\<forall>h<5. fatal_count h w' = fatal_count h w1
        + of_bool (beu_ENABLE (beu_regs w1 ! h) \<noteq> 0 \<and> repeats_value (shadow_value w1 ! h) (map (\<lambda>e. e h) es))"
    using Cons.IH [OF w1(2)] by blast
  have "fatal_count h w' = fatal_count h w
      + of_bool (beu_ENABLE (beu_regs w ! h) \<noteq> 0 \<and> repeats_value (shadow_value w ! h) (map (\<lambda>e. e h) (e # es)))" if h: "h < 5" for h
    using w'(3) h en [OF h] sh [OF h] f [OF h] by (cases "e h") auto
  then show ?case using w'(1,2) w1(1) c by (intro exI [of _ w']) (simp add: add.assoc)
qed

text \<open>
  C19.  The bus error monitor, from its start, over any history of errors between the passes
  of the super loop: no event of the five kinds is lost or counted twice, on whatever hart;
  but the line that gives the address of an uncorrectable error is written for a hart only
  if the value read with its first uncorrectable error repeats the value of the event
  before it (zero if there was none), and at most once: an uncorrectable error at a new
  address is never reported with that address.
\<close>

theorem beu_history_exact:
  assumes "beu_ok w" "beu_counters w = replicate 5 0" "shadow_value w = replicate 5 0" "beu_log w = []"
    and "beu_init_handler m w = Some w0"
  shows "\<exists>w'. beu_history m es w0 = Some w'
    \<and> (\<forall>i<5. beu_counters w' ! i = of_nat (\<Sum>e\<leftarrow>es. card {h. h < 5 \<and> bit (fst (e h)) (beu_events ! i)}))
    \<and> (\<forall>h<5. length (filter (is_fatal h) (beu_log w')) = of_bool (repeats_value 0 (map (\<lambda>e. e h) es)))"
proof -
  have five: "[0..<5] = [0, 1, 2, 3, 4]" by (simp add: upt_conv_Cons)
  have w0: "w0 = set_state m (sm_state (machines w ! m) + 1)
     (fold (\<lambda>h. beu_update h (\<lambda>r. r\<lparr>beu_ACCRUED := 0, beu_VALUE := 0, beu_ENABLE := BEU_ENABLE_MASK\<rparr>)) [0..<5] w)"
    using assms(5) by (simp add: beu_init_handler_def five set_state_def sm_update_def beu_update_def)
  have l: "length (beu_regs w) = 5" "length (shadow_accrued w) = 5" using assms(1) by (simp_all add: beu_ok_def)
  have r: "beu_regs w0 ! h = (beu_regs w ! h)\<lparr>beu_ACCRUED := 0, beu_VALUE := 0, beu_ENABLE := BEU_ENABLE_MASK\<rparr>" if "h < 5" for h
  proof -
    have "h = 0 \<or> h = 1 \<or> h = 2 \<or> h = 3 \<or> h = 4" using that by linarith
    then show ?thesis by (auto simp: w0 five beu_update_def set_state_def sm_update_def nth_list_update l)
  qed
  have f: "beu_counters w0 = replicate 5 0" "shadow_value w0 = replicate 5 0" "beu_log w0 = []" "length (beu_regs w0) = 5"
    "length (shadow_accrued w0) = 5"
    by (simp_all add: w0 five beu_update_def set_state_def sm_update_def assms l)
  have "beu_quiet w0" using f by (simp add: beu_quiet_def beu_ok_def r)
  from beu_history_quiet [OF this, of m es] show ?thesis
    by (auto simp: f r fatal_count_def event_count_def BEU_ENABLE_MASK_def)
qed

theorem beu_history_exact_witness:
  "\<forall>w :: beu_world. \<exists>w0 w'.
     beu_init_handler 10 (w\<lparr>beu_regs := replicate 5 (undefined :: BEU_regs), beu_counters := replicate 5 0, shadow_accrued := replicate 5 0,
       shadow_value := replicate 5 0, beu_log := []\<rparr>) = Some w0
     \<and> beu_history 10 [\<lambda>h. if h = 2 then (0x80, 0x1000) else (0, 0)] w0 = Some w'
     \<and> beu_counters w' ! 4 = 1 \<and> filter (is_fatal 2) (beu_log w') = []"
proof
  fix w :: beu_world
  let ?w = "w\<lparr>beu_regs := replicate 5 (undefined :: BEU_regs), beu_counters := replicate 5 0, shadow_accrued := replicate 5 0,
       shadow_value := replicate 5 0, beu_log := []\<rparr>"
  let ?e = "\<lambda>h :: hart. if h = 2 then (0x80, 0x1000) else (0, 0) :: u64 \<times> u64"
  obtain w0 where w0: "beu_init_handler 10 ?w = Some w0" by (simp add: beu_init_handler_def)
  obtain w' where w': "beu_history 10 [?e] w0 = Some w'"
    "\<forall>i<5. beu_counters w' ! i = of_nat (\<Sum>e\<leftarrow>[?e]. card {h. h < 5 \<and> bit (fst (e h)) (beu_events ! i)})"
    "\<forall>h<5. length (filter (is_fatal h) (beu_log w')) = of_bool (repeats_value 0 (map (\<lambda>e. e h) [?e]))"
    using beu_history_exact [OF _ _ _ _ w0, of "[?e]"] by (auto simp: beu_ok_def)
  have "{h. h < 5 \<and> bit (fst (?e h)) (beu_events ! 4)} = {2}" by (auto simp: beu_events_def split: if_splits)
  then have "beu_counters w' ! 4 = 1" using w'(2) by simp
  moreover have "filter (is_fatal 2) (beu_log w') = []" using w'(3) [THEN spec, of 2] by (simp add: BEU_ENABLE_UNCORRECTABLE_MASK_def)
  ultimately show "\<exists>w0 w'. beu_init_handler 10 ?w = Some w0 \<and> beu_history 10 [?e] w0 = Some w'
     \<and> beu_counters w' ! 4 = 1 \<and> filter (is_fatal 2) (beu_log w') = []" using w0 w'(1) by blast
qed

end
