(* ===== verification/HSS_Wdog.thy ===== *)
theory HSS_Wdog
  imports HSS_Beu
begin

text \<open>
  The watchdogs (services/wdog/wdog_service.c, without the options for the watchdog of the
  E51 and for an external one, with the debug messages, as in the reference configuration)
  and the reboot of harts whose watchdog has fired (services/reboot/reboot_service.c).  The
  watchdog service only asks for a reboot on the console: its call of \<open>HSS_reboot\<close> is
  commented out.  A cold reset does not return and is an outcome of its own.
\<close>

subsection \<open>State and operations\<close>

datatype wdog_line = Reboot_required u32 | Uptime hart u64 | Rebooting hart

record wdog_world = beu_world +
  wdog_hartBitmask :: u32
  wdogInitTime :: "HSSTicks_t list"
  wdog_lastEntryTime :: HSSTicks_t
  wdog_log :: "wdog_line list"

abbreviation (input) MSS_STATUS :: u64 where "MSS_STATUS \<equiv> 0x20003104"
abbreviation (input) WDOG_DEBUG_TIMEOUT_SEC :: u64 where "WDOG_DEBUG_TIMEOUT_SEC \<equiv> 10"

definition HSS_Wdog_E51_Tickle :: "'a wdog_world_scheme \<Rightarrow> 'a wdog_world_scheme" where
  "HSS_Wdog_E51_Tickle w = w"

definition wdog_init_handler :: "'a wdog_world_scheme sm_handler" where
  "wdog_init_handler m w = Some (set_state m 1 (HSS_Wdog_E51_Tickle w))"

definition HSS_Wdog_Init_Time :: "hart \<Rightarrow> 'a wdog_world_scheme \<Rightarrow> 'a wdog_world_scheme option" where
  "HSS_Wdog_Init_Time h w = do {
     let (t, w1) = HSS_GetTime w;
     assert_c (h < length (wdogInitTime w1));
     Some (w1\<lparr>wdogInitTime := (wdogInitTime w1)[h := t]\<rparr>)
   }"

fun wdog_init_times :: "hart list \<Rightarrow> 'a wdog_world_scheme \<Rightarrow> 'a wdog_world_scheme option" where
  "wdog_init_times [] w = Some w"
| "wdog_init_times (h # hs) w = do {
     w1 \<leftarrow> (if bit (wdog_hartBitmask w) h then HSS_Wdog_Init_Time h w else Some w);
     wdog_init_times hs w1
   }"

definition wdog_idle_handler :: "'a wdog_world_scheme sm_handler" where
  "wdog_idle_handler m w =
     (if wdog_hartBitmask w \<noteq> 0 then do {
        w1 \<leftarrow> wdog_init_times [1, 2, 3, 4] w;
        Some (set_state m 2 w1)
      } else Some w)"

definition HSS_Wdog_DumpStats :: "'a wdog_world_scheme \<Rightarrow> 'a wdog_world_scheme option" where
  "HSS_Wdog_DumpStats w = do {
     let (t, w1) = HSS_GetTime w;
     assert_c (4 < length (wdogInitTime w1));
     Some (w1\<lparr>wdog_lastEntryTime := t, wdog_log := wdog_log w1 @ map (\<lambda>h. Uptime h ((t - wdogInitTime w1 ! h) div TICKS_PER_SEC))
       (filter (\<lambda>h. bit (wdog_hartBitmask w1) h) [1, 2, 3, 4])\<rparr>)
   }"

definition wdog_monitoring_handler :: "'a wdog_world_scheme sm_handler" where
  "wdog_monitoring_handler m w = do {
     w1 \<leftarrow> (if wdog_hartBitmask w \<noteq> 0 then
             case HSS_Timer_IsElapsed (wdog_lastEntryTime w) (WDOG_DEBUG_TIMEOUT_SEC * TICKS_PER_SEC) w of
               (elapsed, w0) \<Rightarrow> if elapsed then HSS_Wdog_DumpStats w0 else Some w0
           else Some w);
     let status = reg32 w1 (reg_reads w1) MSS_STATUS;
     let w2 = w1\<lparr>reg_reads := reg_reads w1 + 1\<rparr>;
     let wdog_status = drop_bit 4 status AND mHSS_BITMASK_ALL_U54 AND wdog_hartBitmask w2;
     Some (if wdog_status \<noteq> 0 then w2\<lparr>wdog_log := wdog_log w2 @ [Reboot_required wdog_status]\<rparr> else w2)
   }"

definition wdog_service :: "'a wdog_world_scheme MachineDesc" where
  "wdog_service = \<lparr> numStates = 3, pStateDescs =
     map2 (\<lambda>s h. \<lparr> sd_state = s, state_onEntry = None, state_onExit = None, state_handler = Some h \<rparr>)
       [0, 1, 2] [wdog_init_handler, wdog_idle_handler, wdog_monitoring_handler] \<rparr>"

definition HSS_Wdog_MonitorHart :: "hart \<Rightarrow> 'a wdog_world_scheme \<Rightarrow> 'a wdog_world_scheme option" where
  "HSS_Wdog_MonitorHart target w =
     (if target \<in> {1, 2, 3, 4} then Some (w\<lparr>wdog_hartBitmask := set_bit target (wdog_hartBitmask w)\<rparr>)
      else if target = HSS_HART_ALL then Some (w\<lparr>wdog_hartBitmask := fold set_bit [1, 2, 3, 4] (wdog_hartBitmask w)\<rparr>)
      else None)"

subsection \<open>Reboot\<close>

text \<open>
  A reset of a hart by its watchdog, a reset of everything, or a normal end.  \<open>do_srst_ecall\<close>
  is the address of the code that the harts are sent to.
\<close>

datatype 'w reboot_outcome = Hart_reset hart 'w | Full_reset 'w | Returned 'w

definition HSS_reboot_cold :: "hart \<Rightarrow> 'w \<Rightarrow> 'w reboot_outcome option" where
  "HSS_reboot_cold target w =
     (if target \<in> {0, 1, 2, 3, 4} then Some (Hart_reset target w)
      else if target = HSS_HART_ALL then Some (Full_reset w)
      else None)"

text \<open>The harts to restart: \<open>None\<close> inside if a cold reset was made instead.\<close>

fun restart_peers :: "hart \<Rightarrow> hart list \<Rightarrow> u32 \<Rightarrow> 'a wdog_world_scheme \<Rightarrow> u32 option" where
  "restart_peers source [] msk w = Some msk"
| "restart_peers source (peer # ps) msk w =
     (if peer = source then restart_peers source ps msk w else do {
        together \<leftarrow> mpfs_are_harts_in_same_domain peer source w;
        restart_peers source ps (if together then msk OR push_bit peer 1 else msk) w
      })"

fun restart_scan :: "bool \<Rightarrow> u32 \<Rightarrow> hart list \<Rightarrow> u32 \<Rightarrow> 'a wdog_world_scheme \<Rightarrow> u32 option option" where
  "restart_scan allow_cold wdog_status [] msk w = Some (Some msk)"
| "restart_scan allow_cold wdog_status (source # ss) msk w =
     (if \<not> bit wdog_status source then restart_scan allow_cold wdog_status ss msk w else do {
        cold \<leftarrow> (if allow_cold then mpfs_is_cold_reboot_allowed source w else Some False);
        if cold then Some None else do {
          msk1 \<leftarrow> restart_peers source [1, 2, 3, 4] (msk OR push_bit source 1) w;
          restart_scan allow_cold wdog_status ss msk1 w
        }
      })"

fun restart_harts :: "u64 \<Rightarrow> u32 \<Rightarrow> hart list \<Rightarrow> 'a wdog_world_scheme \<Rightarrow> 'a wdog_world_scheme option" where
  "restart_harts do_srst_ecall msk [] w = Some w"
| "restart_harts do_srst_ecall msk (peer # ps) w =
     (if \<not> bit msk peer then restart_harts do_srst_ecall msk ps w else do {
        (_, w1) \<leftarrow> IPI_Send HSS_HART_E51 peer IPI_MSG_GOTO 0 3 do_srst_ecall 0 (w\<lparr>wdog_log := wdog_log w @ [Rebooting peer]\<rparr>);
        w2 \<leftarrow> HSS_Wdog_Init_Time peer w1;
        w3 \<leftarrow> HSS_SpinDelay_MilliSecs 50 w2;
        restart_harts do_srst_ecall msk ps w3
      })"

definition HSS_reboot ::
    "bool \<Rightarrow> bool \<Rightarrow> u64 \<Rightarrow> u32 \<Rightarrow> 'a wdog_world_scheme \<Rightarrow> 'a wdog_world_scheme reboot_outcome option" where
  "HSS_reboot cold_always allow_cold do_srst_ecall wdog_status w =
     (if cold_always then HSS_reboot_cold HSS_HART_ALL w else do {
        restart_mask \<leftarrow> restart_scan allow_cold wdog_status [1, 2, 3, 4] 0 w;
        case restart_mask of
          None \<Rightarrow> HSS_reboot_cold HSS_HART_ALL w
        | Some msk \<Rightarrow> map_option Returned (if msk \<noteq> 0 then restart_harts do_srst_ecall msk [1, 2, 3, 4] w else Some w)
      })"

subsection \<open>Which harts are restarted\<close>

lemma push_bit_set: "msk OR push_bit h 1 = set_bit h (msk :: u32)" "msk OR 2 ^ h = set_bit h (msk :: u32)"
  by (simp_all add: set_bit_eq_or)

lemma bit_set_u32: "bit (set_bit h (msk :: u32)) k \<longleftrightarrow> bit msk k \<or> (k = h \<and> h < 32)"
  by (auto simp: bit_set_bit_iff)

definition owner_of :: "'a wdog_world_scheme \<Rightarrow> hart \<Rightarrow> hart" where
  "owner_of w h = hl_owner_hartid (hart_ledger w ! h)"

lemma restart_peers_mask:
  assumes "ledger_wf w" "source < 5" "\<forall>p\<in>set ps. p < 5"
  shows "\<exists>msk'. restart_peers source ps msk w = Some msk'
    \<and> (\<forall>h. bit msk' h \<longleftrightarrow> bit msk h \<or> h \<in> set ps \<and> h \<noteq> source \<and> owner_of w h = owner_of w source)"
  using assms(3)
proof (induction ps arbitrary: msk)
  case Nil
  then show ?case by simp
next
  case (Cons p ps)
  let ?msk = "if p \<noteq> source \<and> owner_of w p = owner_of w source then set_bit p msk else msk"
  have s: "mpfs_are_harts_in_same_domain p source w = Some (owner_of w p = owner_of w source)"
    using assms(1,2) Cons.prems by (simp add: mpfs_are_harts_in_same_domain_def ledger_wf_def owner_of_def)
  have "restart_peers source (p # ps) msk w = restart_peers source ps ?msk w"
    by (simp add: s push_bit_set)
  moreover have "bit ?msk h \<longleftrightarrow> bit msk h \<or> h = p \<and> p \<noteq> source \<and> owner_of w p = owner_of w source" for h
    using Cons.prems by (auto simp: bit_set_u32)
  ultimately show ?case using Cons.IH [of ?msk] Cons.prems by auto
qed

definition fired :: "u32 \<Rightarrow> hart set" where
  "fired wdog_status = {s. s \<in> {1..4} \<and> bit wdog_status s}"

lemma restart_scan_mask:
  assumes l: "ledger_wf w" "\<forall>p\<in>set ss. p \<in> {1..4}"
  shows "if allow_cold \<and> (\<exists>s\<in>set ss. bit wdog_status s \<and> hl_allow_cold_reboot (hart_ledger w ! s))
    then restart_scan allow_cold wdog_status ss msk w = Some None
    else \<exists>msk'. restart_scan allow_cold wdog_status ss msk w = Some (Some msk')
      \<and> (\<forall>h. bit msk' h \<longleftrightarrow> bit msk h \<or> h \<in> {1..4} \<and> (\<exists>s\<in>set ss. bit wdog_status s \<and> owner_of w h = owner_of w s))"
  using assms(2)
proof (induction ss arbitrary: msk)
  case Nil
  then show ?case by simp
next
  case (Cons s ss)
  have s: "s \<in> {1..4}" "s < 5" and IH: "\<forall>p\<in>set ss. p \<in> {1..4}" using Cons.prems by auto
  have cold: "mpfs_is_cold_reboot_allowed s w = Some (hl_allow_cold_reboot (hart_ledger w ! s))"
    using l(1) s by (simp add: mpfs_is_cold_reboot_allowed_def ledger_wf_def)
  have four: "h \<in> set [1, 2, 3, 4] \<longleftrightarrow> h \<in> {1..4}" for h :: nat by auto
  consider "\<not> bit wdog_status s" | "bit wdog_status s" "allow_cold" "hl_allow_cold_reboot (hart_ledger w ! s)"
    | "bit wdog_status s" "\<not> (allow_cold \<and> hl_allow_cold_reboot (hart_ledger w ! s))" by blast
  then show ?case
  proof cases
    case 1
    then have "restart_scan allow_cold wdog_status (s # ss) msk w = restart_scan allow_cold wdog_status ss msk w"
      "\<And>P. (\<exists>t\<in>set (s # ss). bit wdog_status t \<and> P t) \<longleftrightarrow> (\<exists>t\<in>set ss. bit wdog_status t \<and> P t)" by auto
    then show ?thesis using Cons.IH [OF IH, of msk] by (simp only:)
  next
    case 2
    then show ?thesis by (simp add: cold)
  next
    case 3
    obtain msk1 where m1: "restart_peers s [1, 2, 3, 4] (msk OR push_bit s 1) w = Some msk1"
      "\<forall>h. bit msk1 h \<longleftrightarrow> bit (set_bit s msk) h \<or> h \<in> set [1, 2, 3, 4] \<and> h \<noteq> s \<and> owner_of w h = owner_of w s"
      using restart_peers_mask [OF l(1) s(2), of "[1, 2, 3, 4]" "msk OR push_bit s 1"] by (auto simp: push_bit_set)
    have step: "restart_scan allow_cold wdog_status (s # ss) msk w = restart_scan allow_cold wdog_status ss msk1 w"
      using 3 m1(1) by (auto simp: cold)
    have b: "bit msk1 h \<longleftrightarrow> bit msk h \<or> h \<in> {1..4} \<and> owner_of w h = owner_of w s" for h
    proof (cases "h = s")
      case True
      then show ?thesis using m1(2) s by (simp add: bit_set_u32)
    next
      case False
      then show ?thesis using m1(2) [unfolded four] by (simp add: bit_set_u32)
    qed
    show ?thesis
    proof (cases "allow_cold \<and> (\<exists>s\<in>set ss. bit wdog_status s \<and> hl_allow_cold_reboot (hart_ledger w ! s))")
      case True
      then show ?thesis using Cons.IH [OF IH, of msk1] step by auto
    next
      case False
      then obtain msk' where "restart_scan allow_cold wdog_status ss msk1 w = Some (Some msk')"
        "\<forall>h. bit msk' h \<longleftrightarrow> bit msk1 h \<or> h \<in> {1..4} \<and> (\<exists>s\<in>set ss. bit wdog_status s \<and> owner_of w h = owner_of w s)"
        using Cons.IH [OF IH, of msk1] by (auto split: if_splits)
      then show ?thesis using False 3 step b by auto
    qed
  qed
qed

text \<open>Every wait ends: after any reading of the clock comes one that is more than 50 ms later.\<close>

definition delays_end :: "(nat \<Rightarrow> u64) \<Rightarrow> bool" where
  "delays_end c \<longleftrightarrow> (\<forall>k. \<exists>n>k. c n > c k + 50000)"

lemma delay_returns:
  assumes "delays_end (mtime w)"
  shows "\<exists>n. HSS_SpinDelay_MilliSecs 50 w = Some (skip_reads n w)"
proof -
  obtain n where n: "n > time_reads w" "mtime w n > mtime w (time_reads w) + 50000"
    using assms by (auto simp: delays_end_def)
  have "HSS_SpinDelay_MilliSecs 50 w = spin_until_elapsed (read_at w 0) 50000 (skip_reads 1 w)"
    by (simp add: HSS_SpinDelay_MilliSecs_def GetTime_eq)
  moreover have "read_at (skip_reads 1 w) (n - time_reads w - 1) > read_at w 0 + 50000"
    using n by (simp add: read_at_def skip_reads_def)
  then have "spin_until_elapsed (read_at w 0) 50000 (skip_reads 1 w) \<noteq> None"
    by (metis not_le spin_None_iff)
  ultimately show ?thesis by (auto simp: spin_iff)
qed

definition goto_srst :: "u64 \<Rightarrow> IPI_Outbox_Msg" where
  "goto_srst do_srst_ecall = \<lparr> msg_type = IPI_MSG_GOTO, transaction_id = 0, immediate_arg = 3,
     p_extended_buffer_in_ddr = do_srst_ecall, p_ancilliary_buffer_in_ddr = 0 \<rparr>"

lemma wdog_more: "ipi_data.more w' = ipi_data.more w \<Longrightarrow>
    mtime w' = mtime w \<and> wdogInitTime w' = wdogInitTime (w :: 'a wdog_world_scheme)"
  by (cases w; cases w') simp

lemma mailbox_frame [simp]:
  "mailbox_of a b (w\<lparr>wdogInitTime := x\<rparr>) = mailbox_of a b w" "mailbox_of a b (w\<lparr>wdog_log := y\<rparr>) = mailbox_of a b w"
  "mailbox_of a b (w\<lparr>time_reads := n\<rparr>) = mailbox_of a b (w :: 'a wdog_world_scheme)"
  "ipi_wf (w\<lparr>wdogInitTime := x\<rparr>) = ipi_wf w" "ipi_wf (w\<lparr>wdog_log := y\<rparr>) = ipi_wf w" "ipi_wf (w\<lparr>time_reads := n\<rparr>) = ipi_wf w"
  by (simp_all add: mailbox_of_def ipi_wf_def)

lemma restart_harts_sends:
  assumes "distinct ps" "\<forall>p\<in>set ps. p \<in> {1..4}" "ipi_wf w" "length (wdogInitTime w) = 5" "delays_end (mtime w)"
    and "\<forall>p\<in>set ps. size (mailbox_of 0 p w) < IPI_MAX_NUM_QUEUE_MESSAGES"
  shows "\<exists>w'. restart_harts srst msk ps w = Some w' \<and> (\<forall>p\<in>{1..4}. mailbox_of 0 p w' =
     (if p \<in> set ps \<and> bit msk p then add_mset (goto_srst srst) (mailbox_of 0 p w) else mailbox_of 0 p w))"
  using assms
proof (induction ps arbitrary: w)
  case Nil
  then show ?case by simp
next
  case (Cons p ps)
  show ?case
  proof (cases "bit msk p")
    case False
    then show ?thesis using Cons.IH [of w] Cons.prems by auto
  next
    case True
    let ?w = "w\<lparr>wdog_log := wdog_log w @ [Rebooting p]\<rparr>"
    have p: "peers 0 p" "IPI_MSG_GOTO \<noteq> IPI_MSG_NO_MESSAGE" using Cons.prems(2) by (auto simp: peers_def)
    have "size (mailbox_of 0 p ?w) < IPI_MAX_NUM_QUEUE_MESSAGES" "ipi_wf ?w" using Cons.prems by simp_all
    then obtain w1 where w1: "IPI_Send 0 p IPI_MSG_GOTO 0 3 srst 0 ?w = Some (True, w1)" "ipi_wf w1"
      "mailbox_of 0 p w1 = add_mset (goto_srst srst) (mailbox_of 0 p ?w)"
      "\<forall>a b. peers a b \<longrightarrow> (a, b) \<noteq> (0, p) \<longrightarrow> mailbox_of a b w1 = mailbox_of a b ?w"
      using IPI_Send_spec [OF _ p, of ?w 0 3 srst 0] by (auto simp: goto_srst_def)
    have more: "mtime w1 = mtime w" "wdogInitTime w1 = wdogInitTime w"
      using wdog_more [OF IPI_Send_more [OF w1(1)]] by simp_all
    let ?w2 = "w1\<lparr>time_reads := time_reads w1 + 1, wdogInitTime := (wdogInitTime w1)[p := mtime w1 (time_reads w1)]\<rparr>"
    have w2: "HSS_Wdog_Init_Time p w1 = Some ?w2"
      using Cons.prems(2,4) more by (simp add: HSS_Wdog_Init_Time_def HSS_GetTime_def)
    obtain n where w3: "HSS_SpinDelay_MilliSecs 50 ?w2 = Some (skip_reads n ?w2)"
      using delay_returns [of ?w2] Cons.prems(5) more by auto
    let ?w3 = "skip_reads n ?w2"
    have other: "mailbox_of 0 q ?w3 = (if q = p then add_mset (goto_srst srst) (mailbox_of 0 p w) else mailbox_of 0 q w)"
      if "q \<in> {1..4}" for q
    proof -
      have "peers 0 q" using that by (auto simp: peers_def)
      then show ?thesis using w1(3,4) by (auto simp: skip_reads_def)
    qed
    have "\<exists>w'. restart_harts srst msk ps ?w3 = Some w' \<and> (\<forall>q\<in>{1..4}. mailbox_of 0 q w' =
       (if q \<in> set ps \<and> bit msk q then add_mset (goto_srst srst) (mailbox_of 0 q ?w3) else mailbox_of 0 q ?w3))"
      using Cons.prems w1(2) more other by (intro Cons.IH) (auto simp: skip_reads_def)
    then obtain w' where w': "restart_harts srst msk ps ?w3 = Some w'" "\<forall>q\<in>{1..4}. mailbox_of 0 q w' =
       (if q \<in> set ps \<and> bit msk q then add_mset (goto_srst srst) (mailbox_of 0 q ?w3) else mailbox_of 0 q ?w3)" by blast
    have "restart_harts srst msk (p # ps) w = Some w'" using True w1(1) w2 w3 w'(1) by simp
    then show ?thesis using w'(2) other True Cons.prems(1) by auto
  qed
qed

text \<open>The decision in a build that does not always reset cold.\<close>

lemma reboot_sometimes_cold:
  assumes "ledger_wf w" "length (wdogInitTime w) = 5" "ipi_wf w" "delays_end (mtime w)"
    and room: "\<forall>p\<in>{1..4}. size (mailbox_of HSS_HART_E51 p w) < IPI_MAX_NUM_QUEUE_MESSAGES"
  shows "if allow_cold \<and> (\<exists>s\<in>fired wdog_status. hl_allow_cold_reboot (hart_ledger w ! s))
    then HSS_reboot False allow_cold srst wdog_status w = Some (Full_reset w)
    else \<exists>w'. HSS_reboot False allow_cold srst wdog_status w = Some (Returned w')
      \<and> (\<forall>p\<in>{1..4}. mailbox_of HSS_HART_E51 p w' =
          (if \<exists>s\<in>fired wdog_status. owner_of w p = owner_of w s
           then add_mset (goto_srst srst) (mailbox_of HSS_HART_E51 p w) else mailbox_of HSS_HART_E51 p w))"
proof -
  have four: "\<forall>p\<in>set [1, 2, 3, 4]. p \<in> {1..4 :: nat}" and mem: "p \<in> set [1, 2, 3, 4] \<longleftrightarrow> p \<in> {1..4}" for p :: nat by auto
  have f: "(\<exists>s\<in>set [1, 2, 3, 4]. bit wdog_status s \<and> P s) \<longleftrightarrow> (\<exists>s\<in>fired wdog_status. P s)" for P
    unfolding fired_def using mem by (auto simp del: set_simps)
  note scan = restart_scan_mask [OF assms(1) four, of allow_cold wdog_status 0, unfolded f]
  show ?thesis
  proof (cases "allow_cold \<and> (\<exists>s\<in>fired wdog_status. hl_allow_cold_reboot (hart_ledger w ! s))")
    case True
    then have "restart_scan allow_cold wdog_status [1, 2, 3, 4] 0 w = Some None" using scan by (simp only: if_True)
    then show ?thesis using True by (simp add: HSS_reboot_def HSS_reboot_cold_def)
  next
    case False
    then obtain msk where m: "restart_scan allow_cold wdog_status [1, 2, 3, 4] 0 w = Some (Some msk)"
      "\<And>h. bit msk h \<longleftrightarrow> h \<in> {1..4} \<and> (\<exists>s\<in>fired wdog_status. owner_of w h = owner_of w s)"
      using scan by (auto simp only: if_False bit_0_eq bot_apply bot_bool_def simp_thms)
    have "distinct [1, 2, 3, 4 :: nat]" by simp
    from restart_harts_sends [OF this four assms(3,2,4), of srst msk] room obtain w' where
      w': "restart_harts srst msk [1, 2, 3, 4] w = Some w'" "\<forall>p\<in>{1..4}. mailbox_of 0 p w' =
        (if p \<in> set [1, 2, 3, 4] \<and> bit msk p then add_mset (goto_srst srst) (mailbox_of 0 p w) else mailbox_of 0 p w)"
      unfolding Ball_def mem by blast
    have sent: "\<forall>p\<in>{1..4}. mailbox_of 0 p w' = (if \<exists>s\<in>fired wdog_status. owner_of w p = owner_of w s
        then add_mset (goto_srst srst) (mailbox_of 0 p w) else mailbox_of 0 p w)"
      using w'(2) unfolding mem m(2) by simp
    show ?thesis
    proof (cases "msk = 0")
      case True
      then have "\<not> (\<exists>s\<in>fired wdog_status. owner_of w p = owner_of w s)" if "p \<in> {1..4}" for p using m(2) [of p] that by simp
      then have "\<forall>p\<in>{1..4}. mailbox_of 0 p w = (if \<exists>s\<in>fired wdog_status. owner_of w p = owner_of w s
        then add_mset (goto_srst srst) (mailbox_of 0 p w) else mailbox_of 0 p w)" by simp
      moreover have "HSS_reboot False allow_cold srst wdog_status w = Some (Returned w)" using True m(1) by (simp add: HSS_reboot_def)
      ultimately show ?thesis unfolding if_not_P [OF False] by blast
    next
      case nz: False
      then have "HSS_reboot False allow_cold srst wdog_status w = Some (Returned w')" using m(1) w'(1) by (simp add: HSS_reboot_def)
      then show ?thesis unfolding if_not_P [OF False] using sent by blast
    qed
  qed
qed

text \<open>
  C20.  What a call of \<^verbatim>\<open>HSS_reboot\<close> for a set of fired watchdogs does: if the build always resets
  cold, as the reference configuration does, or cold resets are compiled in and a hart whose watchdog has
  fired may ask for one, everything is reset.  Otherwise, if the queues to the application harts have room, the harts
  that share their owner with one of those harts are sent to the code that reboots them,
  one message each, and no other hart is sent anything.  (The watchdog service itself only
  reports that a reboot is required; its call is compiled out.)
\<close>

theorem HSS_reboot_restarts_domains:
  assumes "ledger_wf w" "length (wdogInitTime w) = 5" "ipi_wf w" "delays_end (mtime w)"
    and room: "\<forall>p\<in>{1..4}. size (mailbox_of HSS_HART_E51 p w) < IPI_MAX_NUM_QUEUE_MESSAGES"
  shows "if cold_always \<or> allow_cold \<and> (\<exists>s\<in>fired wdog_status. hl_allow_cold_reboot (hart_ledger w ! s))
    then HSS_reboot cold_always allow_cold srst wdog_status w = Some (Full_reset w)
    else \<exists>w'. HSS_reboot cold_always allow_cold srst wdog_status w = Some (Returned w')
      \<and> (\<forall>p\<in>{1..4}. mailbox_of HSS_HART_E51 p w' =
          (if \<exists>s\<in>fired wdog_status. owner_of w p = owner_of w s
           then add_mset (goto_srst srst) (mailbox_of HSS_HART_E51 p w) else mailbox_of HSS_HART_E51 p w))"
proof (cases cold_always)
  case True
  then show ?thesis by (simp add: HSS_reboot_def HSS_reboot_cold_def)
next
  case False
  then show ?thesis using reboot_sometimes_cold [OF assms, of allow_cold wdog_status srst] by (simp only: simp_thms)
qed

definition reboot_demo :: "'a wdog_world_scheme \<Rightarrow> 'a wdog_world_scheme" where
  "reboot_demo w = (snd (IPI_QueuesInit (w\<lparr>MSIP := replicate 5 0\<rparr>)))\<lparr>wdogInitTime := replicate 5 0,
     mtime := (\<lambda>k. if even k then 0 else - 1),
     mpfs_hart_index2id := mpfs_hart_index2id_reset, hart_ledger := map (\<lambda>h. zero_ledger_entry\<lparr>hl_owner_hartid := (if h = 4 then 4 else 1)\<rparr>) [0..<5]\<rparr>"

theorem HSS_reboot_restarts_domains_witness:
  "\<forall>w :: wdog_world. \<exists>w'. HSS_reboot False True 0x8000000 (push_bit 2 1) (reboot_demo w) = Some (Returned w')
     \<and> mailbox_of 0 3 w' = {#goto_srst 0x8000000#} \<and> mailbox_of 0 4 w' = {#}
     \<and> HSS_reboot True True 0x8000000 (push_bit 2 1) (reboot_demo w) = Some (Full_reset (reboot_demo w))"
proof
  fix w :: wdog_world
  let ?w = "reboot_demo w"
  let ?v = "w\<lparr>MSIP := replicate 5 0\<rparr>"
  have wf: "ipi_wf ?w" using ipi_wf_QueuesInit [of ?v] by (simp add: reboot_demo_def ipi_wf_def)
  have mb: "mailbox_of 0 p ?w = {#}" if "p \<in> {1..4}" for p
    using that mailbox_of_init [of 0 p ?v] by (auto simp: reboot_demo_def mailbox_of_def peers_def)
  have d: "delays_end (mtime ?w)" unfolding delays_end_def
  proof
    fix k :: nat
    have "mtime ?w k + 50000 < mtime ?w (2 * k + 1)" by (simp add: reboot_demo_def)
    then show "\<exists>n>k. mtime ?w n > mtime ?w k + 50000" by (intro exI [of _ "2 * k + 1"]) simp
  qed
  have l: "ledger_wf ?w" "length (wdogInitTime ?w) = 5"
    by (simp_all add: ledger_wf_def reboot_demo_def mpfs_hart_index2id_reset_def)
  have room: "\<forall>p\<in>{1..4}. size (mailbox_of 0 p ?w) < IPI_MAX_NUM_QUEUE_MESSAGES"
    by (simp add: mb IPI_MAX_NUM_QUEUE_MESSAGES_def)
  have b: "bit (push_bit 2 1 :: u32) s \<longleftrightarrow> s = 2" for s
    by (simp only: bit_push_bit_iff bit_1_iff) auto
  have f: "fired (push_bit 2 1) = {2}" by (simp only: fired_def b) auto
  have o: "owner_of ?w 2 = 1" "owner_of ?w 3 = 1" "owner_of ?w 4 = 4" "\<not> hl_allow_cold_reboot (hart_ledger ?w ! 2)"
    by (simp_all add: owner_of_def reboot_demo_def zero_ledger_entry_def)
  have nc: "\<not> (False \<or> True \<and> (\<exists>s\<in>{2}. hl_allow_cold_reboot (hart_ledger ?w ! s)))" using o(4) by simp
  from HSS_reboot_restarts_domains [OF l wf d room, of False True "push_bit 2 1" "0x8000000", unfolded f if_not_P [OF nc]]
  obtain w' where w': "HSS_reboot False True 0x8000000 (push_bit 2 1) ?w = Some (Returned w')"
    "\<forall>p\<in>{1..4}. mailbox_of 0 p w' = (if \<exists>s\<in>{2}. owner_of ?w p = owner_of ?w s
       then add_mset (goto_srst 0x8000000) (mailbox_of 0 p ?w) else mailbox_of 0 p ?w)" by blast
  have "mailbox_of 0 3 w' = {#goto_srst 0x8000000#}" "mailbox_of 0 4 w' = {#}"
    using w'(2) [rule_format, of 3] w'(2) [rule_format, of 4] o mb [of 3] mb [of 4] by simp_all
  moreover have "HSS_reboot True True 0x8000000 (push_bit 2 1) ?w = Some (Full_reset ?w)"
    using HSS_reboot_restarts_domains [OF l wf d room, of True True "push_bit 2 1" "0x8000000"] by (simp only: simp_thms if_True)
  ultimately show "\<exists>w'. HSS_reboot False True 0x8000000 (push_bit 2 1) ?w = Some (Returned w')
     \<and> mailbox_of 0 3 w' = {#goto_srst 0x8000000#} \<and> mailbox_of 0 4 w' = {#}
     \<and> HSS_reboot True True 0x8000000 (push_bit 2 1) ?w = Some (Full_reset ?w)" using w'(1) by blast
qed

end
