(* ===== verification/HSS_Sgdma.thy ===== *)
theory HSS_Sgdma
  imports HSS_Wdog
begin

text \<open>
  The scatter-gather copies that the monitor makes for the application harts,
  services/sgdma/sgdma_service.c: a hart sends a chain of block descriptors in memory, the
  message handler takes it over and acknowledges it, and the state machine copies the
  blocks, a page per pass.  The static variables of the file are the fields of
  \<open>sgdma_world\<close>; \<open>sgdma_i\<close> is its variable \<^verbatim>\<open>i\<close>.
\<close>

subsection \<open>Data\<close>

record sgdma_world = wdog_world +
  pBlockDesc :: u64
  activeHart :: hart
  sgdma_i :: nat
  remaining_in_current_block :: u64

text \<open>\<^verbatim>\<open>struct HSS_SGDMA_BlockDesc\<close>: 32 bytes, the flag \<^verbatim>\<open>ext\<close> is the last bit of its last word.\<close>

definition desc_src :: "memory \<Rightarrow> u64 \<Rightarrow> u64" where "desc_src m p = rd64 m p"
definition desc_dest :: "memory \<Rightarrow> u64 \<Rightarrow> u64" where "desc_dest m p = rd64 m (p + 8)"
definition desc_size :: "memory \<Rightarrow> u64 \<Rightarrow> u64" where "desc_size m p = rd64 m (p + 16)"
definition desc_ext :: "memory \<Rightarrow> u64 \<Rightarrow> bool" where "desc_ext m p = bit (rd32 m (p + 24)) 31"

abbreviation (input) SIZEOF_BLOCK_DESC :: u64 where "SIZEOF_BLOCK_DESC \<equiv> 32"
abbreviation (input) MAX_SGDMA_SIZE_PER_LOOP_ITER :: u64 where "MAX_SGDMA_SIZE_PER_LOOP_ITER \<equiv> 4096"

abbreviation (input) SGDMA_INITIALIZATION :: stateType_t where "SGDMA_INITIALIZATION \<equiv> 0"
abbreviation (input) SGDMA_IDLE :: stateType_t where "SGDMA_IDLE \<equiv> 1"
abbreviation (input) SGDMA_TRANSFERRING :: stateType_t where "SGDMA_TRANSFERRING \<equiv> 2"

subsection \<open>The state machine\<close>

definition sgdma_init_handler :: "'a sgdma_world_scheme sm_handler" where
  "sgdma_init_handler m w = Some (set_state m (sm_state (machines w ! m) + 1) w)"

text \<open>
  The number of a hart is used as the number of a queue for the count of the messages, and as
  the source of the message to be taken.
\<close>

definition sgdma_idle_handler :: "'a sgdma_world_scheme ipi_registry \<Rightarrow> hart \<Rightarrow> 'a sgdma_world_scheme sm_handler" where
  "sgdma_idle_handler reg me m w = do {
     w1 \<leftarrow> (if IPI_GetQueuePendingCount (sgdma_i w) w \<noteq> 0
            then map_option snd (IPI_ConsumeIntent reg me (sgdma_i w) IPI_MSG_SCATTERGATHER_DMA w) else Some w);
     Some (w1\<lparr>sgdma_i := (sgdma_i w1 + 1) mod HSS_HART_NUM_PEERS\<rparr>)
   }"

text \<open>The check of the second permission is made only if the first holds.\<close>

definition sgdma_allowed :: "u64 \<Rightarrow> 'a sgdma_world_scheme \<Rightarrow> bool option" where
  "sgdma_allowed chunkSize w = do {
     wr \<leftarrow> HSS_PMP_CheckWrite (activeHart w) (desc_dest (mem w) (pBlockDesc w)) chunkSize w;
     if wr then HSS_PMP_CheckRead (activeHart w) (desc_src (mem w) (pBlockDesc w)) chunkSize w else Some False
   }"

definition sgdma_transferring_handler :: "'a sgdma_world_scheme sm_handler" where
  "sgdma_transferring_handler m w = do {
     assert_c (pBlockDesc w \<noteq> NULL);
     if desc_ext (mem w) (pBlockDesc w) then do {
       let blockSize = desc_size (mem w) (pBlockDesc w);
       let remaining = (if remaining_in_current_block w = 0 then blockSize else remaining_in_current_block w);
       let chunkSize = min remaining MAX_SGDMA_SIZE_PER_LOOP_ITER;
       allowed \<leftarrow> sgdma_allowed chunkSize w;
       mem' \<leftarrow> (if allowed
         then memcpy_via_pdma (desc_dest (mem w) (pBlockDesc w)) (desc_src (mem w) (pBlockDesc w)) chunkSize (mem w)
         else Some (mem w));
       assert_c (chunkSize \<le> remaining);
       let w1 = w\<lparr>mem := mem', remaining_in_current_block := remaining - chunkSize\<rparr>;
       Some (if remaining - chunkSize = 0 then w1\<lparr>pBlockDesc := pBlockDesc w1 + SIZEOF_BLOCK_DESC\<rparr> else w1)
     } else Some ((set_state m SGDMA_IDLE w)\<lparr>pBlockDesc := NULL, activeHart := HSS_HART_E51\<rparr>)
   }"

text \<open>\<open>sgdma\<close> is the index of the service in the table of machines, for the variable \<^verbatim>\<open>sgdma_service\<close>.\<close>

definition sgdma_service :: "'a sgdma_world_scheme ipi_registry \<Rightarrow> hart \<Rightarrow> 'a sgdma_world_scheme MachineDesc" where
  "sgdma_service reg me = \<lparr> numStates = 3, pStateDescs =
     map2 (\<lambda>s h. \<lparr> sd_state = s, state_onEntry = None, state_onExit = None, state_handler = Some h \<rparr>)
       [SGDMA_INITIALIZATION, SGDMA_IDLE, SGDMA_TRANSFERRING]
       [sgdma_init_handler, sgdma_idle_handler reg me, sgdma_transferring_handler] \<rparr>"

definition HSS_SGDMA_IPIHandler :: "nat \<Rightarrow> 'a sgdma_world_scheme ipi_handler" where
  "HSS_SGDMA_IPIHandler sgdma txid source imm ext anc w = do {
     assert_c (ext \<noteq> NULL);
     assert_c (sm_state (machines w ! sgdma) = SGDMA_IDLE);
     Some (IPI_SUCCESS, set_state sgdma SGDMA_TRANSFERRING (w\<lparr>pBlockDesc := ext, activeHart := source\<rparr>))
   }"

subsection \<open>The transfer of one block\<close>

text \<open>The passes that a block takes; an empty one takes a pass too.\<close>

definition block_passes :: "u64 \<Rightarrow> nat" where
  "block_passes n = max 1 ((unat n + 4095) div 4096)"

lemma passes_step:
  "(r :: u64) > 4096 \<Longrightarrow> block_passes r = Suc (block_passes (r - 4096))"
  "(r :: u64) \<le> 4096 \<Longrightarrow> block_passes r = 1"
proof -
  assume "r > 4096"
  then have "unat r > 4096" by (simp add: word_less_nat_alt)
  then obtain b where b: "unat r = b + 4096" "0 < b" using that [of "unat r - 4096"] by simp
  then have "unat (r - 4096) = b" using unat_sub [of "4096" r] by (simp add: word_le_nat_alt)
  moreover have "(b + 4096 + 4095) div 4096 = Suc ((b + 4095) div 4096)" using div_add_self2 [of 4096 "b + 4095"] by (simp add: ac_simps)
  moreover have "1 \<le> (b + 4095) div 4096" using b(2) div_le_mono [of 4096 "b + 4095" 4096] by simp
  ultimately show "block_passes r = Suc (block_passes (r - 4096))" unfolding block_passes_def b(1) by simp
next
  assume "r \<le> 4096"
  then have "(unat r + 4095) div 4096 \<le> 8191 div 4096" by (intro div_le_mono) (simp add: word_le_nat_alt)
  then show "block_passes r = 1" unfolding block_passes_def by simp
qed

lemma sgdma_allowed_rest [simp]: "sgdma_allowed n (w\<lparr>remaining_in_current_block := r\<rparr>) = sgdma_allowed n w"
  by (simp add: sgdma_allowed_def HSS_PMP_CheckWrite_def HSS_PMP_CheckRead_def cong: if_cong)

text \<open>Without a permission the pass only counts down.\<close>

lemma refused_block:
  assumes "pBlockDesc w \<noteq> NULL" "desc_ext (mem w) (pBlockDesc w)"
    and r: "remaining_in_current_block w = 0 \<and> r = desc_size (mem w) (pBlockDesc w) \<or> r \<noteq> 0 \<and> remaining_in_current_block w = r"
    and refused: "\<And>n. sgdma_allowed n w = Some False"
  shows "handle_times (block_passes r) sgdma_transferring_handler m w
    = Some (w\<lparr>remaining_in_current_block := 0, pBlockDesc := pBlockDesc w + 32\<rparr>)"
  using assms
proof (induction "unat r" arbitrary: r w rule: less_induct)
  case less
  have rem: "(if remaining_in_current_block w = 0 then desc_size (mem w) (pBlockDesc w) else remaining_in_current_block w) = r"
    using less.prems(3) by auto
  show ?case
  proof (cases "r \<le> 4096")
    case True
    then have "min r 4096 = r" by (simp add: min_def)
    then show ?thesis using True less.prems(1,2,4) rem
      by (simp add: passes_step(2) sgdma_transferring_handler_def Let_def)
  next
    case False
    then have r: "r > 4096" by simp
    then have m4: "min r 4096 = 4096" "4096 \<le> r" "r - 4096 \<noteq> 0" by (simp_all add: min_absorb2 less_imp_le)
    let ?w = "w\<lparr>remaining_in_current_block := r - 4096\<rparr>"
    have step: "sgdma_transferring_handler m w = Some ?w"
      using r less.prems(1,2,4) rem m4 by (simp add: sgdma_transferring_handler_def Let_def)
    have "r - 4096 \<noteq> 0" "unat (r - 4096) < unat r"
      using r unat_sub [of "4096" r] by (auto simp: word_less_nat_alt word_le_nat_alt)
    moreover have "sgdma_allowed n ?w = Some False" for n
      using less.prems(4) [of n] by simp
    ultimately have "handle_times (block_passes (r - 4096)) sgdma_transferring_handler m ?w
      = Some (?w\<lparr>remaining_in_current_block := 0, pBlockDesc := pBlockDesc ?w + 32\<rparr>)"
      using less.prems(1,2) by (intro less.hyps) auto
    then show ?thesis
      using r step handle_times_add [of 1 "block_passes (r - 4096)" sgdma_transferring_handler m w] by (simp add: passes_step(1))
  qed
qed

subsection \<open>A whole request\<close>

text \<open>A chain of \<open>n\<close> descriptors and its end mark, which does not run through the address zero.\<close>

definition chain_at :: "memory \<Rightarrow> u64 \<Rightarrow> nat \<Rightarrow> bool" where
  "chain_at m p n \<longleftrightarrow> (\<forall>i\<le>n. p + 32 * of_nat i \<noteq> NULL \<and> (desc_ext m (p + 32 * of_nat i) \<longleftrightarrow> i < n))"

definition chain_passes :: "memory \<Rightarrow> u64 \<Rightarrow> nat \<Rightarrow> nat" where
  "chain_passes m p n = (\<Sum>i<n. block_passes (desc_size m (p + 32 * of_nat i)))"

text \<open>
  With the table of permissions as the firmware leaves it, no read is permitted.
\<close>

lemma reset_table_refuses:
  assumes "pmpEntry w = pmpEntry_reset" "activeHart w < 5"
  shows "sgdma_allowed n w = Some False"
proof -
  have r: "w\<lparr>pmpEntry := pmpEntry_reset\<rparr> = w" using assms(1) by simp
  show ?thesis
    using HSS_PMP_Init_allows_all_writes [where w = w, unfolded r] assms(2)
    by (simp add: sgdma_allowed_def HSS_PMP_Init_def)
qed

lemma refused_chain:
  assumes "chain_at (mem w) (pBlockDesc w) n" "remaining_in_current_block w = 0"
    and "pmpEntry w = pmpEntry_reset" "activeHart w < 5"
  shows "handle_times (chain_passes (mem w) (pBlockDesc w) n) sgdma_transferring_handler m w
    = Some (w\<lparr>pBlockDesc := pBlockDesc w + 32 * of_nat n\<rparr>)"
  using assms
proof (induction n arbitrary: w)
  case 0
  then show ?case by (simp add: chain_passes_def)
next
  case (Suc n)
  let ?p = "pBlockDesc w" let ?w = "w\<lparr>pBlockDesc := ?p + 32\<rparr>"
  have first: "?p \<noteq> NULL" "desc_ext (mem w) ?p"
    using Suc.prems(1) by (auto simp: chain_at_def dest: spec [of _ 0])
  have next_at: "?p + 32 + 32 * of_nat i = ?p + 32 * of_nat (Suc i)" for i by (simp add: algebra_simps)
  have "chain_at (mem w) (?p + 32) n"
    unfolding chain_at_def next_at using Suc.prems(1) by (simp add: chain_at_def del: of_nat_Suc)
  then have rest: "handle_times (chain_passes (mem w) (?p + 32) n) sgdma_transferring_handler m ?w
      = Some (w\<lparr>pBlockDesc := ?p + 32 + 32 * of_nat n\<rparr>)"
    using Suc.IH [of ?w] Suc.prems(2-4) by simp
  have block: "handle_times (block_passes (desc_size (mem w) ?p)) sgdma_transferring_handler m w
      = Some (w\<lparr>remaining_in_current_block := 0, pBlockDesc := ?p + 32\<rparr>)"
    using refused_block [OF first, of "desc_size (mem w) ?p" m] reset_table_refuses [OF Suc.prems(3,4)] Suc.prems(2) by simp
  have same: "w\<lparr>remaining_in_current_block := 0, pBlockDesc := ?p + 32\<rparr> = ?w" using Suc.prems(2) by simp
  have "chain_passes (mem w) ?p (Suc n) = block_passes (desc_size (mem w) ?p) + chain_passes (mem w) (?p + 32) n"
    by (simp add: chain_passes_def sum.lessThan_Suc_shift next_at del: sum.lessThan_Suc of_nat_Suc)
  then show ?case using block rest unfolding same by (simp add: handle_times_add algebra_simps)
qed

subsection \<open>Taking a request over\<close>

text \<open>
  The only message of its type is taken, the handler's answer goes back if there is room,
  and what the handler did to its own component stays.
\<close>

lemma consume_answered:
  assumes wf: "ipi_wf s" and p: "peers source me" and reg: "registry_lookup reg t = Some (Some handler)"
    and t: "t \<noteq> IPI_MSG_NO_MESSAGE" and m: "filter_mset (\<lambda>m. msg_type m = t) (mailbox_of source me s) = {#m#}"
    and room: "size (mailbox_of me source s) < IPI_MAX_NUM_QUEUE_MESSAGES"
    and answer: "ack_for t r = Some (ack, st)" "ack \<noteq> IPI_MSG_NO_MESSAGE"
    and handler: "\<And>s2. ipi_data.more s2 = ipi_data.more s \<Longrightarrow> \<exists>s3. handler (transaction_id m) source (immediate_arg m)
         (p_extended_buffer_in_ddr m) (p_ancilliary_buffer_in_ddr m) s2 = Some (r, s3)
         \<and> ipi_data.truncate s3 = ipi_data.truncate s2 \<and> ipi_data.more s3 = X"
  obtains s' where "IPI_ConsumeIntent reg me source t s = Some (True, s')" "ipi_wf s'" "ipi_data.more s' = X"
    "mailbox_of source me s = add_mset m (mailbox_of source me s')"
    "mailbox_of me source s' = add_mset \<lparr> msg_type = ack, transaction_id = transaction_id m,
       immediate_arg = ipi_status_code st, p_extended_buffer_in_ddr = 0, p_ancilliary_buffer_in_ddr = 0 \<rparr> (mailbox_of me source s)"
proof -
  define index where "index = IPI_CalculateQueueIndex source me"
  let ?q = "msgQ (ipi_queues s ! index)"
  have i: "index < 20" using p by (simp add: index_def peers_index)
  have lens: "length (ipi_queues s) = 20" using wf by (simp add: ipi_wf_def)
  have "m \<in># filter_mset (\<lambda>m. msg_type m = t) (mailbox_of source me s)" unfolding m by simp
  then have "\<exists>m'\<in>#mailbox_of source me s. msg_type m' = t" by auto
  then obtain j where j: "find_index (\<lambda>m. msg_type m = t) ?q = Some j"
    using t slots.take_None [of t ?q]
    by (auto simp: mailbox_of_def slots_take_def index_def [symmetric] simp del: find_index_None)
  then have jl: "j < length ?q" and jt: "msg_type (?q ! j) = t" by (auto simp: find_index_Some_iff)
  have "?q ! j \<in># mailbox_of source me s"
    using jl jt t by (auto simp: mailbox_of_def index_def [symmetric] pending_def is_message_def)
  then have "?q ! j \<in># filter_mset (\<lambda>m. msg_type m = t) (mailbox_of source me s)" using jt by simp
  then have mj: "?q ! j = m" unfolding m by simp
  define f :: "mpfs_ipi_private \<Rightarrow> mpfs_ipi_private" where "f = (\<lambda>p. p\<lparr>consume_intents := consume_intents p + 1\<rparr>)"
  define s2 where "s2 = queue_dec index (private_update me f s)"
  have wf2: "ipi_wf s2" using wf by (simp add: s2_def ipi_wf_queue_dec)
  obtain s3 where h: "handler (transaction_id m) source (immediate_arg m) (p_extended_buffer_in_ddr m)
       (p_ancilliary_buffer_in_ddr m) s2 = Some (r, s3)" and s3: "ipi_data.truncate s3 = ipi_data.truncate s2" "ipi_data.more s3 = X"
    using handler [of s2] by (auto simp: s2_def)
  have q3: "ipi_queues s3 = ipi_queues s2" and wf3: "ipi_wf s3"
    using s3(1) wf2 by (simp_all add: ipi_data.defs ipi_wf_def)
  have mb3: "mailbox_of a b s3 = mailbox_of a b s" for a b by (simp add: mailbox_of_def q3 s2_def)
  have msgQ3: "msgQ (ipi_queues s3 ! k) = msgQ (ipi_queues s ! k)" for k by (simp add: q3 s2_def)
  have len: "length (ipi_queues s3) = 20" using wf3 by (simp add: ipi_wf_def)
  have sl2: "slot_at index j s2 = Some m" using i jl lens by (simp add: s2_def slot_at_eq mj)
  have sl3: "slot_at index j s3 = Some m" using i jl len by (simp add: slot_at_eq msgQ3 mj)
  have ne: "IPI_CalculateQueueIndex me source \<noteq> index"
    using peers_inject [OF peers_sym [OF p] p] p by (simp add: index_def peers_def)
  from IPI_Send_spec [OF wf3 peers_sym [OF p] answer(2), of "transaction_id m" "ipi_status_code st" 0 0] room
  obtain s4 where s4: "IPI_Send me source ack (transaction_id m) (ipi_status_code st) 0 0 s3 = Some (True, s4)" "ipi_wf s4"
    "mailbox_of me source s4 = add_mset \<lparr> msg_type = ack, transaction_id = transaction_id m,
       immediate_arg = ipi_status_code st, p_extended_buffer_in_ddr = 0, p_ancilliary_buffer_in_ddr = 0 \<rparr> (mailbox_of me source s)"
    by (auto simp: mb3)
  have q4: "msgQ (ipi_queues s4 ! index) = ?q"
    using s4(1) ne i len msgQ3
    by (auto simp: IPI_Send_unfold [OF wf3 peers_sym [OF p] refl refl] split: option.splits)
  have len4: "length (ipi_queues s4) = 20" using s4(2) by (simp add: ipi_wf_def)
  have sl4: "slot_at index j s4 = Some m" using i jl len4 by (simp add: slot_at_eq q4 mj)
  let ?s' = "queue_put index j (m\<lparr>msg_type := IPI_MSG_NO_MESSAGE\<rparr>) s4"
  have "IPI_ConsumeIntent reg me source t s = Some (True, ?s')"
    using i lens j reg sl2 h sl3 s4(1) sl4 jt mj answer(1)
    by (simp add: IPI_ConsumeIntent_def Let_def s2_def f_def index_def [symmetric])
  moreover have "ipi_wf ?s'" using s4(2) i by (rule ipi_wf_queue_put)
  moreover have "ipi_data.more ?s' = X" using IPI_Send_more [OF s4(1)] s3(2) by simp
  moreover have "mailbox_of source me s = add_mset m (mailbox_of source me ?s')"
    using pending_clear [OF jl] jt t i len4 by (simp add: mailbox_of_def index_def [symmetric] q4 mj is_message_def)
  moreover have "mailbox_of me source ?s' = mailbox_of me source s4" using ne by (simp add: mailbox_of_def nth_list_update)
  ultimately show ?thesis using s4(3) by (intro that [of ?s']) simp_all
qed

lemma sgdma_more: "ipi_data.more w' = ipi_data.more w \<Longrightarrow> machines w' = machines w \<and> pmpEntry w' = pmpEntry w \<and> mem w' = mem w
    \<and> pBlockDesc w' = pBlockDesc w \<and> activeHart w' = activeHart w
    \<and> remaining_in_current_block w' = remaining_in_current_block (w :: 'a sgdma_world_scheme)"
  by (cases w; cases w') simp

text \<open>The idle service takes a request over and answers that it has succeeded.\<close>

lemma sgdma_takes_request:
  fixes w :: "'a sgdma_world_scheme"
  assumes wf: "ipi_wf w" and source: "source \<in> {1..4}" "sgdma_i w = source" "IPI_GetQueuePendingCount source w \<noteq> 0"
    and reg: "registry_lookup reg IPI_MSG_SCATTERGATHER_DMA = Some (Some (HSS_SGDMA_IPIHandler k))"
    and m: "filter_mset (\<lambda>m. msg_type m = IPI_MSG_SCATTERGATHER_DMA) (mailbox_of source HSS_HART_E51 w) = {#m#}"
    and room: "size (mailbox_of HSS_HART_E51 source w) < IPI_MAX_NUM_QUEUE_MESSAGES"
    and idle: "sm_state (machines w ! k) = SGDMA_IDLE" and ext: "p_extended_buffer_in_ddr m \<noteq> NULL"
  obtains w1 where "sgdma_idle_handler reg HSS_HART_E51 k w = Some w1" "mem w1 = mem w" "pmpEntry w1 = pmpEntry w"
    "machines w1 = (machines w)[k := (machines w ! k)\<lparr>sm_state := SGDMA_TRANSFERRING\<rparr>]"
    "pBlockDesc w1 = p_extended_buffer_in_ddr m" "activeHart w1 = source" "remaining_in_current_block w1 = remaining_in_current_block w"
    "mailbox_of source HSS_HART_E51 w = add_mset m (mailbox_of source HSS_HART_E51 w1)"
    "mailbox_of HSS_HART_E51 source w1 = add_mset \<lparr> msg_type = IPI_MSG_ACK_COMPLETE, transaction_id = transaction_id m,
       immediate_arg = ipi_status_code IPI_SUCCESS, p_extended_buffer_in_ddr = 0, p_ancilliary_buffer_in_ddr = 0 \<rparr> (mailbox_of HSS_HART_E51 source w)"
proof -
  have p: "peers source HSS_HART_E51" "IPI_MSG_SCATTERGATHER_DMA \<noteq> IPI_MSG_NO_MESSAGE" using source by (auto simp: peers_def)
  let ?X = "\<lambda>v :: 'a sgdma_world_scheme. set_state k SGDMA_TRANSFERRING (v\<lparr>pBlockDesc := p_extended_buffer_in_ddr m, activeHart := source\<rparr>)"
  have h: "\<exists>s3. HSS_SGDMA_IPIHandler k (transaction_id m) source (immediate_arg m) (p_extended_buffer_in_ddr m)
         (p_ancilliary_buffer_in_ddr m) s2 = Some (IPI_SUCCESS, s3)
         \<and> ipi_data.truncate s3 = ipi_data.truncate s2 \<and> ipi_data.more s3 = ipi_data.more (?X w)"
    if "ipi_data.more s2 = ipi_data.more w" for s2 :: "'a sgdma_world_scheme"
    using that sgdma_more [OF that] idle ext
    by (cases s2; cases w) (simp add: HSS_SGDMA_IPIHandler_def set_state_def sm_update_def ipi_data.defs)
  obtain v where v: "IPI_ConsumeIntent reg HSS_HART_E51 source IPI_MSG_SCATTERGATHER_DMA w = Some (True, v)"
    "ipi_data.more v = ipi_data.more (?X w)" "mailbox_of source 0 w = add_mset m (mailbox_of source 0 v)"
    "mailbox_of HSS_HART_E51 source v = add_mset \<lparr> msg_type = IPI_MSG_ACK_COMPLETE, transaction_id = transaction_id m,
       immediate_arg = ipi_status_code IPI_SUCCESS, p_extended_buffer_in_ddr = 0, p_ancilliary_buffer_in_ddr = 0 \<rparr> (mailbox_of HSS_HART_E51 source w)"
    by (rule consume_answered [OF wf p(1) reg p(2) m room _ _ h, where ack = IPI_MSG_ACK_COMPLETE and st = IPI_SUCCESS]) simp_all
  have "sgdma_idle_handler reg HSS_HART_E51 k w = Some (v\<lparr>sgdma_i := (sgdma_i v + 1) mod 5\<rparr>)"
    using source v(1) by (simp add: sgdma_idle_handler_def)
  then show ?thesis
    using v sgdma_more [OF v(2)] by (intro that [of "v\<lparr>sgdma_i := (sgdma_i v + 1) mod 5\<rparr>"]) (simp_all add: mailbox_of_def set_state_def sm_update_def)
qed

end
