(* ===== verification/HSS_Tm.thy ===== *)
theory HSS_Tm
  imports HSS_Sgdma
begin

text \<open>
  The telemetry service (services/telemetry/telemetry_service.c) with the converters of the
  reference board (boards/scai-dpu250/adcs.c), and the call by which a supervisor asks for
  the measurements (services/opensbi/opensbi_telemetry_ecall.c).  Publishing and the options of the
  other boards are off, as in the reference configuration.  Device registers are the oracles of
  the health monitor; stores to them are collected in \<open>reg_writes\<close>, the reports on the console
  in \<open>tm_log\<close>.  The text that \<^verbatim>\<open>sbi_sprintf\<close> makes of a report is the parameter \<open>tm_text\<close>.
\<close>

subsection \<open>Data\<close>

record ADCs_type =
  adc_address :: u32
  adc_ctrl :: u32
  adc_old_ctrl :: u32
  adc_tel :: "u16 list"

text \<open>All fields of \<^verbatim>\<open>struct telemetry_data\<close> are 32 bits wide.\<close>

record telemetry_data =
  temp_K :: u32
  temp_C :: u32
  input_mV :: u32
  input_mA :: u32
  rail_1_0_mV :: u32
  rail_1_0_mA :: u32
  rail_1_0_from_pf_mV :: u32
  rail_1_2_mV :: u32
  rail_1_2_mA :: u32
  rail_1_8_mV :: u32
  rail_1_8_mA :: u32
  rail_1_8_from_pf_mV :: u32
  rail_2_5_mV :: u32
  rail_2_5_mA :: u32
  rail_2_5_from_pf_mV :: u32
  rail_3_3_mV :: u32
  rail_3_3_mA :: u32
  sddr_mV :: u32
  fddr_mV :: u32
  adc1_mV :: u32
  adc2_mV :: u32
  camera1_thermistor_mOhm_plus :: u32
  camera1_thermistor_mOhm_minus :: u32
  camera2_thermistor_mOhm_plus :: u32
  camera2_thermistor_mOhm_minus :: u32
  camera1_mV :: u32
  camera2_mV :: u32
  cams_telem_mV :: u32
  adc_tel_mV :: u32
  sanity_check_1_0_mV :: u32
  sanity_check_1_0_mA :: u32
  sanity_check_1_2_mV :: u32
  sanity_check_1_2_mA :: u32
  sanity_check_1_8_mV :: u32
  sanity_check_1_8_mA :: u32
  sanity_check_2_5_mV :: u32
  sanity_check_2_5_mA :: u32
  sanity_check_3_3_mV :: u32
  sanity_check_3_3_mA :: u32
  sanity_check_sddr_vtt :: u32
  sanity_check_fddr_vtt :: u32
  edac_cnt_ddrc :: u32

definition zero_tm_data :: telemetry_data where
  "zero_tm_data =
     \<lparr> temp_K = 0, temp_C = 0, input_mV = 0, input_mA = 0, rail_1_0_mV = 0, rail_1_0_mA = 0, rail_1_0_from_pf_mV = 0,
       rail_1_2_mV = 0, rail_1_2_mA = 0, rail_1_8_mV = 0, rail_1_8_mA = 0, rail_1_8_from_pf_mV = 0, rail_2_5_mV = 0,
       rail_2_5_mA = 0, rail_2_5_from_pf_mV = 0, rail_3_3_mV = 0, rail_3_3_mA = 0, sddr_mV = 0, fddr_mV = 0, adc1_mV = 0,
       adc2_mV = 0, camera1_thermistor_mOhm_plus = 0, camera1_thermistor_mOhm_minus = 0, camera2_thermistor_mOhm_plus = 0,
       camera2_thermistor_mOhm_minus = 0, camera1_mV = 0, camera2_mV = 0, cams_telem_mV = 0, adc_tel_mV = 0,
       sanity_check_1_0_mV = 0, sanity_check_1_0_mA = 0, sanity_check_1_2_mV = 0, sanity_check_1_2_mA = 0,
       sanity_check_1_8_mV = 0, sanity_check_1_8_mA = 0, sanity_check_2_5_mV = 0, sanity_check_2_5_mA = 0,
       sanity_check_3_3_mV = 0, sanity_check_3_3_mA = 0, sanity_check_sddr_vtt = 0, sanity_check_fddr_vtt = 0,
       edac_cnt_ddrc = 0 \<rparr>"

text \<open>The structure in memory.\<close>

definition le32 :: "u32 \<Rightarrow> u8 list" where
  "le32 x = [ucast x, ucast (drop_bit 8 x), ucast (drop_bit 16 x), ucast (drop_bit 24 x)]"

definition telemetry_words :: "telemetry_data \<Rightarrow> u32 list" where
  "telemetry_words d =
     [temp_K d, temp_C d, input_mV d, input_mA d, rail_1_0_mV d, rail_1_0_mA d, rail_1_0_from_pf_mV d,
      rail_1_2_mV d, rail_1_2_mA d, rail_1_8_mV d, rail_1_8_mA d, rail_1_8_from_pf_mV d, rail_2_5_mV d,
      rail_2_5_mA d, rail_2_5_from_pf_mV d, rail_3_3_mV d, rail_3_3_mA d, sddr_mV d, fddr_mV d, adc1_mV d,
      adc2_mV d, camera1_thermistor_mOhm_plus d, camera1_thermistor_mOhm_minus d, camera2_thermistor_mOhm_plus d,
      camera2_thermistor_mOhm_minus d, camera1_mV d, camera2_mV d, cams_telem_mV d, adc_tel_mV d,
      sanity_check_1_0_mV d, sanity_check_1_0_mA d, sanity_check_1_2_mV d, sanity_check_1_2_mA d,
      sanity_check_1_8_mV d, sanity_check_1_8_mA d, sanity_check_2_5_mV d, sanity_check_2_5_mA d,
      sanity_check_3_3_mV d, sanity_check_3_3_mA d, sanity_check_sddr_vtt d, sanity_check_fddr_vtt d,
      edac_cnt_ddrc d]"

definition telemetry_bytes :: "telemetry_data \<Rightarrow> u8 list" where
  "telemetry_bytes d = concat (map le32 (telemetry_words d))"

text \<open>A report on the console: the measurements in millionths, the register of the memory controller.\<close>

datatype tm_line = Tm_report "u32 list" u64 | Tm_data telemetry_data

record tm_world = sgdma_world +
  tm_ticks :: HSSTicks_t
  request_from_cli :: bool
  request_from_sbi_ecall :: bool
  sbi_ecall_reserved_ddr_buf :: u64
  sbi_ecall_verbose :: u32
  ADCs :: "ADCs_type list"
  reg_writes :: "(u64 \<times> u32) list"
  tm_log :: "tm_line list"

subsection \<open>Registers\<close>

definition HW_set_32bit_reg :: "u64 \<Rightarrow> u32 \<Rightarrow> 'a tm_world_scheme \<Rightarrow> 'a tm_world_scheme" where
  "HW_set_32bit_reg reg value w = w\<lparr>reg_writes := reg_writes w @ [(reg, value)]\<rparr>"

definition HW_get_32bit_reg :: "u64 \<Rightarrow> 'a tm_world_scheme \<Rightarrow> u32 \<times> 'a tm_world_scheme" where
  "HW_get_32bit_reg reg w = (reg32 w (reg_reads w) reg, w\<lparr>reg_reads := reg_reads w + 1\<rparr>)"

definition gpio_addr :: "u64 list" where
  "gpio_addr = [0x40000100, 0x40000110, 0x40000120, 0x40000130]"

definition gpio_config :: "nat \<Rightarrow> u32 \<Rightarrow> u32 \<Rightarrow> 'a tm_world_scheme \<Rightarrow> (u32 \<times> 'a tm_world_scheme) option" where
  "gpio_config gpio_num msk mode w = do {
     a \<leftarrow> nth_opt gpio_addr gpio_num;
     let (x, w1) = HW_get_32bit_reg a w;
     if mode = 2 then Some (x AND msk, w1)
     else
       let y = (if mode = 0 then x AND NOT msk else if mode = 1 then x OR msk else x);
           (_, w2) = HW_get_32bit_reg a (HW_set_32bit_reg a y w1)
       in Some (0, w2)
   }"

subsection \<open>The converters\<close>

definition start_converter :: "nat \<Rightarrow> u32 \<Rightarrow> u32 \<Rightarrow> 'a tm_world_scheme \<Rightarrow> 'a tm_world_scheme option" where
  "start_converter i address divisor w = do {
     atr \<leftarrow> nth_opt (ADCs w) i;
     let ctrl = 1 OR 2 OR push_bit 2 divisor;
     Some (HW_set_32bit_reg (ucast address) ctrl
       (w\<lparr>ADCs := (ADCs w)[i := atr\<lparr>adc_address := address, adc_ctrl := ctrl, adc_old_ctrl := ctrl\<rparr>]\<rparr>))
   }"

definition init_adcs :: "'a tm_world_scheme \<Rightarrow> 'a tm_world_scheme option" where
  "init_adcs w = do {
     w1 \<leftarrow> start_converter 0 0x40000600 20 w;
     (_, w2) \<leftarrow> gpio_config 1 1 1 w1;
     start_converter 1 0x40000300 100 w2
   }"

definition ADC_GET_TEL :: "u32 list" where
  "ADC_GET_TEL = [0, 4, 8, 12, 16, 20, 24, 28, 64, 68, 72, 76, 80, 84, 88, 92]"

fun read_tel :: "u32 \<Rightarrow> u32 list \<Rightarrow> 'a tm_world_scheme \<Rightarrow> u16 list \<times> 'a tm_world_scheme" where
  "read_tel address [] w = ([], w)"
| "read_tel address (off # offs) w =
     (let (x, w1) = HW_get_32bit_reg (ucast (address + off)) w; (xs, w2) = read_tel address offs w1
      in (ucast (0xFFF AND x) # xs, w2))"

definition get_hData :: "nat \<Rightarrow> 'a tm_world_scheme \<Rightarrow> (u32 \<times> 'a tm_world_scheme) option" where
  "get_hData i w = do {
     atr \<leftarrow> nth_opt (ADCs w) i;
     let (tel, w1) = read_tel (adc_address atr) ADC_GET_TEL w;
     Some (1, w1\<lparr>ADCs := (ADCs w1)[i := atr\<lparr>adc_tel := tel\<rparr>]\<rparr>)
   }"

definition get_all_adc_data :: "nat \<Rightarrow> 'a tm_world_scheme \<Rightarrow> (u16 list \<times> 'a tm_world_scheme) option" where
  "get_all_adc_data i w = do {
     (_, w1) \<leftarrow> get_hData i w;
     Some (take (if i \<noteq> 0 then 8 else 16) (adc_tel (ADCs w1 ! i)), w1)
   }"

text \<open>
  Division of 64-bit numbers.  A zero divisor has no meaning in C; the instruction that the
  compiler emits yields all ones.
\<close>

definition divu :: "u64 \<Rightarrow> u64 \<Rightarrow> u64" where
  "divu x y = (if y = 0 then NOT 0 else x div y)"

definition get_adc0_telemetry :: "u16 list \<Rightarrow> u32 list" where
  "get_adc0_telemetry adc =
     map (\<lambda>i. ucast (divu ((if i = 6 then 5000000 else 2500000) * ucast (adc ! i)) (ucast (adc ! 7)))) [0..<7] @ [2500000]"

definition get_adc1_telemetry :: "u16 list \<Rightarrow> u32 list" where
  "get_adc1_telemetry adc =
     map (\<lambda>i. ucast (divu ((if i = 3 then 5000000 else if i = 6 then 2401620 else 2500000) * ucast (adc ! i)) (ucast (adc ! 7)))) [0..<7]
     @ [2500000]"

definition R2T :: "u64 \<Rightarrow> u32" where
  "R2T R = ucast ((1000 * R - 1000000) div 385)"

definition get_adc2_telemetry :: "u16 list \<Rightarrow> u32 list" where
  "get_adc2_telemetry adc =
     (let n = (\<lambda>i. ucast (adc ! i) :: u64); aux2 = divu 2500000 (n 4) in
      [R2T (divu (10 * n 0) (4095 - n 0) - 10), R2T (divu 40950 (n 1) - 20),
       R2T (divu (10 * n 2) (4095 - n 2) - 10), R2T (divu 40950 (n 3) - 20),
       2500000, ucast (2 * n 5 * aux2), ucast (2 * n 6 * aux2), ucast (2 * n 7 * aux2)])"

definition get_adc_telemetry :: "'a tm_world_scheme \<Rightarrow> (u32 list \<times> 'a tm_world_scheme) option" where
  "get_adc_telemetry w = do {
     (a, w1) \<leftarrow> get_all_adc_data 0 w;
     (b, w2) \<leftarrow> get_all_adc_data 1 w1;
     Some (get_adc0_telemetry (take 8 a) @ get_adc1_telemetry (drop 8 a) @ get_adc2_telemetry b, w2)
   }"

subsection \<open>The report\<close>

abbreviation (input) EDAC_CNT_DDRC :: u64 where "EDAC_CNT_DDRC \<equiv> 0x2000210C"

definition read_edac :: "'a tm_world_scheme \<Rightarrow> u64 \<times> 'a tm_world_scheme" where
  "read_edac w = (reg64 w (reg_reads w) EDAC_CNT_DDRC, w\<lparr>reg_reads := reg_reads w + 1\<rparr>)"

definition tm_fill :: "u32 list \<Rightarrow> u64 \<Rightarrow> telemetry_data \<Rightarrow> telemetry_data" where
  "tm_fill adc edac d = d\<lparr>
     input_mV := adc ! 6 div 1000, input_mA := adc ! 14 div 1000,
     rail_1_0_mV := adc ! 1 div 1000, rail_1_0_mA := adc ! 0 div 1000,
     rail_1_2_mV := adc ! 3 div 1000, rail_1_2_mA := adc ! 2 div 1000,
     rail_1_8_mV := adc ! 5 div 1000, rail_1_8_mA := adc ! 4 div 1000,
     rail_2_5_mV := adc ! 9 div 1000, rail_2_5_mA := adc ! 8 div 1000,
     rail_3_3_mV := adc ! 11 div 1000, rail_3_3_mA := adc ! 10 div 1000,
     sddr_mV := adc ! 13 div 1000, fddr_mV := adc ! 12 div 1000,
     adc1_mV := adc ! 7 div 1000, adc2_mV := adc ! 15 div 1000,
     edac_cnt_ddrc := ucast edac \<rparr>"

text \<open>The power that is printed beside a voltage and a current.\<close>

definition tel_power :: "u32 \<Rightarrow> u32 \<Rightarrow> u32" where
  "tel_power d1 d2 = (d1 div 100) * (d2 div 100) div 100"

text \<open>
  Only output to the monitor's own console is shown; a number beyond the harts formats into
  the buffer.  The register is read once for the text and once for the structure.
\<close>

definition tm_monitoring_print ::
    "hart \<Rightarrow> telemetry_data option \<Rightarrow> 'a tm_world_scheme \<Rightarrow> ((u32 list \<times> u64 \<times> telemetry_data option) \<times> 'a tm_world_scheme) option" where
  "tm_monitoring_print hartid tm_data w = do {
     (adc, w1) \<leftarrow> get_adc_telemetry w;
     let (shown, w2) = read_edac w1;
     let w3 = (if hartid < HSS_HART_ALL then w2\<lparr>tm_log := tm_log w2 @ [Tm_report adc shown]\<rparr> else w2);
     (case tm_data of
        None \<Rightarrow> Some ((adc, shown, None), w3)
      | Some d \<Rightarrow> (case read_edac w3 of (edac, w4) \<Rightarrow> Some ((adc, shown, Some (tm_fill adc edac d)), w4)))
   }"

definition print_tm_data :: "telemetry_data \<Rightarrow> 'a tm_world_scheme \<Rightarrow> 'a tm_world_scheme" where
  "print_tm_data d w = w\<lparr>tm_log := tm_log w @ [Tm_data d]\<rparr>"

subsection \<open>Requests\<close>

definition clear_request_from_cli :: "'a tm_world_scheme \<Rightarrow> 'a tm_world_scheme" where
  "clear_request_from_cli w = w\<lparr>request_from_cli := False\<rparr>"

definition set_request_from_cli :: "'a tm_world_scheme \<Rightarrow> 'a tm_world_scheme" where
  "set_request_from_cli w = w\<lparr>request_from_cli := True\<rparr>"

text \<open>The command of the command line (\<^verbatim>\<open>tinyCLI_TM_\<close>) asks once.\<close>

definition tinyCLI_TM :: "'a tm_world_scheme \<Rightarrow> 'a tm_world_scheme" where
  "tinyCLI_TM w = (if request_from_cli w then w else set_request_from_cli w)"

text \<open>The three stores of a request of the supervisor, by the hart that asks; then the same in one.\<close>

definition store_request :: "'a tm_world_scheme \<Rightarrow> 'a tm_world_scheme" where
  "store_request w = w\<lparr>request_from_sbi_ecall := True\<rparr>"
definition store_buf :: "u64 \<Rightarrow> 'a tm_world_scheme \<Rightarrow> 'a tm_world_scheme" where
  "store_buf p w = w\<lparr>sbi_ecall_reserved_ddr_buf := p\<rparr>"
definition store_verbose :: "u32 \<Rightarrow> 'a tm_world_scheme \<Rightarrow> 'a tm_world_scheme" where
  "store_verbose v w = w\<lparr>sbi_ecall_verbose := v\<rparr>"

definition set_request_from_sbi_ecall :: "u64 \<Rightarrow> u32 \<Rightarrow> 'a tm_world_scheme \<Rightarrow> 'a tm_world_scheme" where
  "set_request_from_sbi_ecall p v w = store_verbose v (store_buf p (store_request w))"

definition clear_request_from_sbi_ecall :: "'a tm_world_scheme \<Rightarrow> 'a tm_world_scheme" where
  "clear_request_from_sbi_ecall w =
     w\<lparr>request_from_sbi_ecall := False, sbi_ecall_reserved_ddr_buf := 0, sbi_ecall_verbose := 0\<rparr>"

subsection \<open>The service\<close>

definition tm_init_handler :: "'a tm_world_scheme sm_handler" where
  "tm_init_handler m w = do {
     w1 \<leftarrow> init_adcs w;
     let (t, w2) = HSS_GetTime w1;
     Some (set_state m (sm_state (machines w2 ! m) + 1) (w2\<lparr>tm_ticks := t\<rparr>))
   }"

definition mem_put :: "u64 \<Rightarrow> u8 list \<Rightarrow> memory \<Rightarrow> memory" where
  "mem_put p bs m = (\<lambda>x. if unat (x - p) < length bs then bs ! unat (x - p) else m x)"

definition tm_periodic :: "HSSTicks_t \<Rightarrow> 'a tm_world_scheme \<Rightarrow> 'a tm_world_scheme option" where
  "tm_periodic ticks w =
     (if ((ticks - tm_ticks w) + 500) div 1000 > 5 * 1000 then do {
        (_, w1) \<leftarrow> tm_monitoring_print HSS_HART_E51 None w;
        let (t, w2) = HSS_GetTime w1;
        Some (w2\<lparr>tm_ticks := t\<rparr>)
      } else Some w)"

definition tm_serve_cli :: "'a tm_world_scheme \<Rightarrow> 'a tm_world_scheme option" where
  "tm_serve_cli w =
     (if request_from_cli w then do {
        ((_, _, d), w1) \<leftarrow> tm_monitoring_print HSS_HART_E51 (Some zero_tm_data) w;
        Some (clear_request_from_cli (print_tm_data (the d) w1))
      } else Some w)"

text \<open>
  A verbose request gets the text and its final zero, a concise one the structure.  The text
  is built in an array of 4096 bytes.
\<close>

definition tm_serve_ecall :: "(u32 list \<Rightarrow> u64 \<Rightarrow> u8 list) \<Rightarrow> 'a tm_world_scheme \<Rightarrow> 'a tm_world_scheme option" where
  "tm_serve_ecall tm_text w =
     (if request_from_sbi_ecall w then do {
        w2 \<leftarrow> (if sbi_ecall_verbose w \<noteq> 0 then do {
                 ((adc, edac, _), w1) \<leftarrow> tm_monitoring_print (HSS_HART_ALL + 1) None w;
                 let text = takeWhile (\<lambda>c. c \<noteq> 0) (tm_text adc edac);
                 assert_c (length text < 4096);
                 Some (w1\<lparr>mem := mem_put (sbi_ecall_reserved_ddr_buf w1) (text @ [0]) (mem w1)\<rparr>)
               } else do {
                 ((_, _, d), w1) \<leftarrow> tm_monitoring_print HSS_HART_E51 (Some zero_tm_data) w;
                 let w1' = print_tm_data (the d) w1;
                 Some (w1'\<lparr>mem := mem_put (sbi_ecall_reserved_ddr_buf w1') (telemetry_bytes (the d)) (mem w1')\<rparr>)
               });
        Some (clear_request_from_sbi_ecall w2)
      } else Some w)"

definition tm_monitoring_handler :: "(u32 list \<Rightarrow> u64 \<Rightarrow> u8 list) \<Rightarrow> 'a tm_world_scheme sm_handler" where
  "tm_monitoring_handler tm_text m w = do {
     let (ticks, w1) = HSS_GetTime w;
     w2 \<leftarrow> tm_periodic ticks w1;
     w3 \<leftarrow> tm_serve_cli w2;
     tm_serve_ecall tm_text w3
   }"

definition tm_service :: "(u32 list \<Rightarrow> u64 \<Rightarrow> u8 list) \<Rightarrow> 'a tm_world_scheme MachineDesc" where
  "tm_service tm_text = two_state_machine tm_init_handler (tm_monitoring_handler tm_text)"

subsection \<open>The call of the supervisor\<close>

text \<open>
  The hart that asks waits for the request to be cleared, for a second at most.  Each poll is
  the flag and the time it reads; \<open>None\<close>: it still waits after the polls given.
\<close>

fun tm_wait :: "HSSTicks_t \<Rightarrow> (bool \<times> HSSTicks_t) list \<Rightarrow> bool option" where
  "tm_wait start [] = None"
| "tm_wait start ((status, now) # polls) =
     (if now - start > TICKS_PER_SEC then Some status else if status then tm_wait start polls else Some False)"

partial_function (option) mem_strlen :: "memory \<Rightarrow> u64 \<Rightarrow> nat option" where
  "mem_strlen m a = (if m a = 0 then Some 0 else do { n \<leftarrow> mem_strlen m (a + 1); Some (Suc n) })"



datatype sbi_result = SBI_OK | SBI_EFAIL

text \<open>The answer after the wait: result and value returned; the memory is the one after the wait.\<close>

definition get_tm_data :: "u32 \<Rightarrow> u64 \<Rightarrow> bool \<Rightarrow> memory \<Rightarrow> u64 \<Rightarrow> (sbi_result \<times> u64) option" where
  "get_tm_data ext_args p status m out =
     (if status then Some (SBI_EFAIL, 0)
      else if ext_args = 1 then do { n \<leftarrow> mem_strlen m p; Some (SBI_OK, word_of_nat n + 1) }
      else if ext_args = 0 then Some (SBI_OK, 168)
      else Some (SBI_OK, out))"

text \<open>
  What happens meanwhile: the stores of the asking hart, one by one, between the passes of the
  service in the super loop.
\<close>

datatype tm_step = Store_request | Store_buf u64 | Store_verbose u32 | Monitor_pass nat

fun tm_do :: "(u32 list \<Rightarrow> u64 \<Rightarrow> u8 list) \<Rightarrow> tm_step \<Rightarrow> 'a tm_world_scheme \<Rightarrow> 'a tm_world_scheme option" where
  "tm_do txt Store_request w = Some (store_request w)"
| "tm_do txt (Store_buf p) w = Some (store_buf p w)"
| "tm_do txt (Store_verbose v) w = Some (store_verbose v w)"
| "tm_do txt (Monitor_pass m) w = tm_monitoring_handler txt m w"

fun tm_steps :: "(u32 list \<Rightarrow> u64 \<Rightarrow> u8 list) \<Rightarrow> tm_step list \<Rightarrow> 'a tm_world_scheme \<Rightarrow> 'a tm_world_scheme option" where
  "tm_steps txt [] w = Some w"
| "tm_steps txt (s # ss) w = Option.bind (tm_do txt s w) (tm_steps txt ss)"

subsection \<open>One measurement\<close>

text \<open>The sixteen channels of a converter, from the \<open>n\<close>-th access of the bus on.\<close>

definition tel_at :: "u32 \<Rightarrow> nat \<Rightarrow> 'a tm_world_scheme \<Rightarrow> u16 list" where
  "tel_at address n w = map (\<lambda>k. ucast (0xFFF AND reg32 w (n + k) (ucast (address + ADC_GET_TEL ! k)))) [0..<16]"

definition adcs_ready :: "'a tm_world_scheme \<Rightarrow> bool" where
  "adcs_ready w \<longleftrightarrow> length (ADCs w) = 2"

definition measured :: "nat \<Rightarrow> 'a tm_world_scheme \<Rightarrow> u32 list" where
  "measured n w =
     (let a = tel_at (adc_address (ADCs w ! 0)) n w; b = tel_at (adc_address (ADCs w ! 1)) (n + 16) w
      in get_adc0_telemetry (take 8 a) @ get_adc1_telemetry (drop 8 a) @ get_adc2_telemetry (take 8 b))"

lemma read_tel_eq:
  "read_tel address offs w = (map (\<lambda>k. ucast (0xFFF AND reg32 w (reg_reads w + k) (ucast (address + offs ! k)))) [0..<length offs],
     w\<lparr>reg_reads := reg_reads w + length offs\<rparr>)"
proof (induction offs arbitrary: w)
  case (Cons off offs)
  show ?case
    by (simp add: HW_get_32bit_reg_def Cons.IH upt_conv_Cons map_Suc_upt [symmetric] del: upt_Suc)
qed simp

lemma get_adc_telemetry_eq:
  assumes "adcs_ready w"
  obtains s where "get_adc_telemetry w = Some (measured (reg_reads w) w, w\<lparr>reg_reads := reg_reads w + 32, ADCs := s\<rparr>)"
    "length s = 2" "\<And>i. adc_address (s ! i) = adc_address (ADCs w ! i)"
proof -
  obtain a b where ab: "ADCs w = [a, b]"
    using assms by (auto simp: adcs_ready_def length_Suc_conv numeral_2_eq_2)
  let ?s = "[a\<lparr>adc_tel := tel_at (adc_address a) (reg_reads w) w\<rparr>, b\<lparr>adc_tel := tel_at (adc_address b) (reg_reads w + 16) w\<rparr>]"
  have l: "length ADC_GET_TEL = 16" by (simp add: ADC_GET_TEL_def)
  have "get_adc_telemetry w = Some (measured (reg_reads w) w, w\<lparr>reg_reads := reg_reads w + 32, ADCs := ?s\<rparr>)"
    by (simp add: get_adc_telemetry_def get_all_adc_data_def get_hData_def read_tel_eq ab nth_opt_def measured_def tel_at_def l Let_def)
  moreover have "adc_address (?s ! i) = adc_address (ADCs w ! i)" for i
    by (cases i) (auto simp: ab nth_Cons split: nat.splits)
  ultimately show ?thesis by (intro that [of ?s]) simp_all
qed

subsection \<open>What the service leaves to the others\<close>

text \<open>All that the service does not own.\<close>

definition tm_rest :: "'a tm_world_scheme \<Rightarrow> 'a tm_world_scheme" where
  "tm_rest w = w\<lparr>time_reads := 0, reg_reads := 0, mem := (\<lambda>_. 0), tm_ticks := 0, request_from_cli := False,
     request_from_sbi_ecall := False, sbi_ecall_reserved_ddr_buf := 0, sbi_ecall_verbose := 0, ADCs := [], reg_writes := [], tm_log := []\<rparr>"

lemma tm_rest_simps [simp]:
  "tm_rest (w\<lparr>time_reads := a\<rparr>) = tm_rest w" "tm_rest (w\<lparr>reg_reads := b\<rparr>) = tm_rest w" "tm_rest (w\<lparr>mem := c\<rparr>) = tm_rest w"
  "tm_rest (w\<lparr>tm_ticks := d\<rparr>) = tm_rest w" "tm_rest (w\<lparr>request_from_cli := e\<rparr>) = tm_rest w"
  "tm_rest (w\<lparr>request_from_sbi_ecall := f\<rparr>) = tm_rest w" "tm_rest (w\<lparr>sbi_ecall_reserved_ddr_buf := g\<rparr>) = tm_rest w"
  "tm_rest (w\<lparr>sbi_ecall_verbose := h\<rparr>) = tm_rest w" "tm_rest (w\<lparr>ADCs := i\<rparr>) = tm_rest w"
  "tm_rest (w\<lparr>reg_writes := j\<rparr>) = tm_rest w" "tm_rest (w\<lparr>tm_log := k\<rparr>) = tm_rest w"
  by (simp_all add: tm_rest_def)

lemma tm_rest_machines:
  assumes "tm_rest w' = tm_rest w"
  shows "machines w' = machines w"
proof -
  have "machines (tm_rest w') = machines (tm_rest w)" by (simp only: assms)
  then show ?thesis by (simp add: tm_rest_def)
qed

lemma tm_print_total:
  assumes "adcs_ready w"
  shows "\<exists>adc edac d w'. tm_monitoring_print h td w = Some ((adc, edac, d), w') \<and> (d = None \<longleftrightarrow> td = None)
    \<and> tm_rest w' = tm_rest w \<and> adcs_ready w'"
proof -
  obtain s where s: "get_adc_telemetry w = Some (measured (reg_reads w) w, w\<lparr>reg_reads := reg_reads w + 32, ADCs := s\<rparr>)"
    "length s = 2" by (rule get_adc_telemetry_eq [OF assms]) blast
  show ?thesis
    using s by (cases td) (simp_all add: tm_monitoring_print_def read_edac_def Let_def adcs_ready_def)
qed

lemma tm_periodic_total:
  assumes "adcs_ready w"
  shows "\<exists>w'. tm_periodic ticks w = Some w' \<and> tm_rest w' = tm_rest w \<and> adcs_ready w'"
proof -
  obtain adc edac d v where v: "tm_monitoring_print 0 None w = Some ((adc, edac, d), v)" "tm_rest v = tm_rest w" "adcs_ready v"
    using tm_print_total [OF assms, of 0 None] by blast
  then show ?thesis using assms by (simp add: tm_periodic_def HSS_GetTime_def adcs_ready_def)
qed

lemma tm_serve_cli_total:
  assumes "adcs_ready w"
  shows "\<exists>w'. tm_serve_cli w = Some w' \<and> tm_rest w' = tm_rest w \<and> adcs_ready w'"
proof -
  obtain adc edac d v where v: "tm_monitoring_print 0 (Some zero_tm_data) w = Some ((adc, edac, d), v)" "tm_rest v = tm_rest w" "adcs_ready v"
    using tm_print_total [OF assms, of 0 "Some zero_tm_data"] by blast
  then show ?thesis using assms by (simp add: tm_serve_cli_def clear_request_from_cli_def print_tm_data_def adcs_ready_def)
qed

text \<open>The text of a report fits the array it is built in.\<close>

definition text_fits :: "(u32 list \<Rightarrow> u64 \<Rightarrow> u8 list) \<Rightarrow> bool" where
  "text_fits tm_text \<longleftrightarrow> (\<forall>adc edac. length (tm_text adc edac) < 4096)"

lemma tm_serve_ecall_total:
  assumes "adcs_ready w" "text_fits txt"
  shows "\<exists>w'. tm_serve_ecall txt w = Some w' \<and> tm_rest w' = tm_rest w \<and> adcs_ready w'"
proof -
  obtain adc edac d v where v: "tm_monitoring_print 0 (Some zero_tm_data) w = Some ((adc, edac, d), v)" "tm_rest v = tm_rest w" "adcs_ready v"
    using tm_print_total [OF assms(1), of 0 "Some zero_tm_data"] by blast
  obtain adc' edac' d' v' where v': "tm_monitoring_print 6 None w = Some ((adc', edac', d'), v')" "tm_rest v' = tm_rest w" "adcs_ready v'"
    using tm_print_total [OF assms(1), of 6 None] by blast
  have "length (takeWhile (\<lambda>c. c \<noteq> 0) (txt adc' edac')) < 4096"
    using assms(2) length_takeWhile_le [of "\<lambda>c. c \<noteq> 0" "txt adc' edac'"] by (auto simp: text_fits_def intro: le_less_trans)
  then show ?thesis using v v' assms(1)
    by (simp add: tm_serve_ecall_def clear_request_from_sbi_ecall_def print_tm_data_def adcs_ready_def Let_def)
qed

lemma tm_monitoring_total:
  assumes "adcs_ready w" "text_fits txt"
  shows "\<exists>w'. tm_monitoring_handler txt m w = Some w' \<and> tm_rest w' = tm_rest w \<and> adcs_ready w'"
proof -
  let ?w = "w\<lparr>time_reads := time_reads w + 1\<rparr>"
  have w: "adcs_ready ?w" using assms(1) by (simp add: adcs_ready_def)
  obtain w2 where w2: "tm_periodic (mtime w (time_reads w)) ?w = Some w2" "tm_rest w2 = tm_rest ?w" "adcs_ready w2"
    using tm_periodic_total [OF w] by blast
  obtain w3 where w3: "tm_serve_cli w2 = Some w3" "tm_rest w3 = tm_rest w2" "adcs_ready w3" using tm_serve_cli_total [OF w2(3)] by blast
  obtain w4 where w4: "tm_serve_ecall txt w3 = Some w4" "tm_rest w4 = tm_rest w3" "adcs_ready w4"
    using tm_serve_ecall_total [OF w3(3) assms(2)] by blast
  show ?thesis using w2 w3 w4 by (simp add: tm_monitoring_handler_def HSS_GetTime_def Let_def)
qed

lemma start_converter_total:
  "adcs_ready w \<Longrightarrow> i < 2 \<Longrightarrow> \<exists>w'. start_converter i a d w = Some w' \<and> tm_rest w' = tm_rest w \<and> adcs_ready w'"
  by (simp add: start_converter_def nth_opt_def adcs_ready_def HW_set_32bit_reg_def Let_def)

lemma tm_init_total:
  assumes "adcs_ready w"
  shows "\<exists>w'. tm_init_handler m w = Some (set_state m (sm_state (machines w ! m) + 1) w') \<and> tm_rest w' = tm_rest w \<and> adcs_ready w'"
proof -
  obtain w1 where w1: "start_converter 0 0x40000600 20 w = Some w1" "tm_rest w1 = tm_rest w" "adcs_ready w1"
    using start_converter_total [OF assms, of 0] by auto
  obtain x w2 where w2: "gpio_config 1 1 1 w1 = Some (x, w2)" "tm_rest w2 = tm_rest w1" "adcs_ready w2"
    using w1(3) by (simp add: gpio_config_def gpio_addr_def nth_opt_def HW_get_32bit_reg_def HW_set_32bit_reg_def Let_def adcs_ready_def)
  obtain w3 where w3: "start_converter 1 0x40000300 100 w2 = Some w3" "tm_rest w3 = tm_rest w2" "adcs_ready w3"
    using start_converter_total [OF w2(3), of 1] by auto
  let ?w = "w3\<lparr>time_reads := time_reads w3 + 1, tm_ticks := mtime w3 (time_reads w3)\<rparr>"
  have "machines w3 = machines w" using w1(2) w2(2) w3(2) by (intro tm_rest_machines) simp
  then have "tm_init_handler m w = Some (set_state m (sm_state (machines w ! m) + 1) ?w)"
    using w1(1) w2(1) w3(1) by (simp add: tm_init_handler_def init_adcs_def HSS_GetTime_def Let_def)
  moreover have "tm_rest ?w = tm_rest w" using w1(2) w2(2) w3(2) by simp
  moreover have "adcs_ready ?w" using w3(3) by (simp add: adcs_ready_def)
  ultimately show ?thesis by blast
qed

end
