(* ===== verification/HSS_Registry.thy ===== *)
theory HSS_Registry
  imports HSS_Tm
begin

text \<open>
  Where the components are put together (application/hart0/hss_registry.c): the table of
  message handlers, the table of state machines and the table of initialisers, with the
  startup service that runs the latter (services/startup/startup_service.c) and the IPI
  dispatch of the application harts (application/hart1-4/u54_handle_ipi.c).  The tables are
  those of the reference configuration; the command line and the initialisers that only
  drive devices are arguments.
\<close>

subsection \<open>Message handlers\<close>

definition HSS_Null_IPIHandler :: "'a ipi_data_scheme ipi_handler" where
  "HSS_Null_IPIHandler txid source imm ext anc w = Some (IPI_SUCCESS, w)"

text \<open>\<^verbatim>\<open>sgdma_service\<close> by its place in the table of machines.\<close>

abbreviation (input) SGDMA_SERVICE :: nat where "SGDMA_SERVICE \<equiv> 6"

definition ipiRegistry ::
    "('a sgdma_world_scheme \<Rightarrow> u8 \<times> 'a sgdma_world_scheme) \<Rightarrow> hart \<Rightarrow> 'a sgdma_world_scheme ipi_registry" where
  "ipiRegistry nwc me =
    [(IPI_MSG_NO_MESSAGE, Some HSS_Null_IPIHandler),
     (IPI_MSG_BOOT_REQUEST, Some HSS_Boot_IPIHandler),
     (IPI_MSG_PMP_SETUP, Some (HSS_Boot_PMPSetupHandler me)),
     (IPI_MSG_SPI_XFER, Some HSS_Null_IPIHandler),
     (IPI_MSG_NET_RXPOLL, Some HSS_Null_IPIHandler),
     (IPI_MSG_NET_TX, Some HSS_Null_IPIHandler),
     (IPI_MSG_SCATTERGATHER_DMA, Some (HSS_SGDMA_IPIHandler SGDMA_SERVICE)),
     (IPI_MSG_WDOG_INIT, Some HSS_Null_IPIHandler),
     (IPI_MSG_GPIO_SET, Some HSS_Null_IPIHandler),
     (IPI_MSG_UART_TX, Some HSS_Null_IPIHandler),
     (IPI_MSG_UART_POLL_RX, Some HSS_Null_IPIHandler),
     (IPI_MSG_POWERMODE, Some HSS_Null_IPIHandler),
     (IPI_MSG_ACK_PENDING, Some IPI_ACK_IPIHandler),
     (IPI_MSG_ACK_COMPLETE, Some IPI_ACK_IPIHandler),
     (IPI_MSG_HALT, Some HSS_Null_IPIHandler),
     (IPI_MSG_CONTINUE, Some HSS_Null_IPIHandler),
     (IPI_MSG_GOTO, Some (HSS_GOTO_IPIHandler me)),
     (IPI_MSG_OPENSBI_INIT, Some (HSS_OpenSBI_IPIHandler me)),
     (IPI_MSG_SCRUB, Some Scrub_IPIHandler),
     (IPI_MSG_DDR_TRAIN, Some (HSS_DDR_Train_IPIHandler nwc))]"

text \<open>\<^verbatim>\<open>HSS_U54_HandleIPI\<close>: one intent of each kind, in this order; was there any?\<close>

definition intentsArray :: "IPIMessagesEnum list" where
  "intentsArray = [IPI_MSG_PMP_SETUP, IPI_MSG_GOTO, IPI_MSG_OPENSBI_INIT, IPI_MSG_SCRUB, IPI_MSG_DDR_TRAIN]"

fun handle_intents ::
    "'a ipi_data_scheme ipi_registry \<Rightarrow> hart \<Rightarrow> IPIMessagesEnum list \<Rightarrow> bool \<Rightarrow> 'a ipi_data_scheme \<Rightarrow> (bool \<times> 'a ipi_data_scheme) option" where
  "handle_intents reg me [] intentFound w = Some (intentFound, w)"
| "handle_intents reg me (t # ts) intentFound w = do {
     (b, w1) \<leftarrow> IPI_ConsumeIntent reg me HSS_HART_E51 t w;
     handle_intents reg me ts (b \<or> intentFound) w1
   }"

definition HSS_U54_HandleIPI ::
    "'a ipi_data_scheme ipi_registry \<Rightarrow> hart \<Rightarrow> 'a ipi_data_scheme \<Rightarrow> (bool \<times> 'a ipi_data_scheme) option" where
  "HSS_U54_HandleIPI reg me w = handle_intents reg me intentsArray False w"

subsection \<open>The startup service\<close>

record top_world = tm_world +
  init_index :: nat

definition startup_init_handler ::
    "('a top_world_scheme \<Rightarrow> 'a top_world_scheme) \<Rightarrow> 'a top_world_scheme InitFunction list \<Rightarrow> 'a top_world_scheme sm_handler" where
  "startup_init_handler cli globalInitFunctions m w = do {
     f \<leftarrow> nth_opt globalInitFunctions (init_index w);
     h \<leftarrow> if_handler f;
     (result, w1) \<leftarrow> h w;
     w2 \<leftarrow> (if result then Some w1
            else if haltOnFailure f then None
            else if restartOnFailure f then do {
              (keyPressedFlag, _, w2) \<leftarrow> HSS_ShowTimeout 5 w1;
              if keyPressedFlag then Some (cli w2) else None
            } else Some w1);
     Some (if init_index w2 < length globalInitFunctions - 1 then w2\<lparr>init_index := init_index w2 + 1\<rparr>
           else HSS_Trigger_Notify EVENT_STARTUP_COMPLETE (set_state m (sm_state (machines w2 ! m) + 1) w2))
   }"

definition startup_boot_handler :: "'a top_world_scheme sm_handler" where
  "startup_boot_handler m w = Some w"

definition startup_idle_handler :: "'a top_world_scheme sm_handler" where
  "startup_idle_handler m w = Some w"

definition startup_service ::
    "('a top_world_scheme \<Rightarrow> 'a top_world_scheme) \<Rightarrow> 'a top_world_scheme InitFunction list \<Rightarrow> 'a top_world_scheme MachineDesc" where
  "startup_service cli fs = \<lparr> numStates = 3, pStateDescs =
     map2 (\<lambda>s h. \<lparr> sd_state = s, state_onEntry = None, state_onExit = None, state_handler = Some h \<rparr>)
       [0, 1, 2] [startup_init_handler cli fs, startup_boot_handler, startup_idle_handler] \<rparr>"

text \<open>
  The initialisers of the reference configuration.  \<open>board\<close> stands for those that only talk
  to devices or print, by name.
\<close>

definition globalInitFunctions ::
    "(string \<Rightarrow> 'a top_world_scheme \<Rightarrow> bool \<times> 'a top_world_scheme) \<Rightarrow> 'a top_world_scheme InitFunction list" where
  "globalInitFunctions board = map (\<lambda>h. \<lparr> if_handler = Some h, haltOnFailure = False, restartOnFailure = False \<rparr>)
    [\<lambda>w. Some (IPI_QueuesInit w),
     \<lambda>w. Some (HSS_PMP_Init w),
     \<lambda>w. Some (board ''HSS_BoardInit'' w),
     \<lambda>w. Some (board ''HSS_E51_Banner'' w),
     \<lambda>w. Some (board ''Device_Serial_Number_Init'' w),
     \<lambda>w. Some (board ''HSS_DDRPrintSegConfig'' w),
     \<lambda>w. Some (board ''HSS_DDRPrintL2CacheWaysConfig'' w),
     \<lambda>w. Some (board ''HSS_ResetReasonInit'' w),
     \<lambda>w. Some (board ''Design_Version_Info_Init'' w),
     \<lambda>w. Some (board ''HSS_BoardLateInit'' w)]"

subsection \<open>State machines\<close>

text \<open>
  The table of machines in the reference configuration.  The index of a machine is its
  place in the table; \<open>tinycli\<close> stands for the machine of the command line and \<open>tm_text\<close> for
  the text of a telemetry report.
\<close>

definition pGlobalStateMachines ::
    "'a top_world_scheme MachineDesc \<Rightarrow> (u32 list \<Rightarrow> u64 \<Rightarrow> u8 list) \<Rightarrow> 'a top_world_scheme MachineDesc
      \<Rightarrow> 'a top_world_scheme ipi_registry \<Rightarrow> (nat \<times> 'a top_world_scheme MachineDesc) list" where
  "pGlobalStateMachines tinycli tm_text startup reg = zip [0..<15]
    [ipi_poll_service reg HSS_HART_E51,
     boot_service reg, boot_service reg, boot_service reg, boot_service reg,
     wdog_service,
     sgdma_service reg HSS_HART_E51,
     ddr_service,
     opensbi_service,
     tinycli,
     scrub_service,
     beu_service,
     healthmon_service monitors,
     tm_service tm_text,
     startup]"

text \<open>\<open>n\<close> rounds of the endless loop of \<^verbatim>\<open>hss_main\<close>.\<close>

fun hss_main_loop ::
    "nat \<Rightarrow> 'a top_world_scheme ipi_registry \<Rightarrow> (nat \<times> 'a top_world_scheme MachineDesc) list \<Rightarrow> 'a top_world_scheme
      \<Rightarrow> 'a top_world_scheme option" where
  "hss_main_loop 0 reg ms w = Some w"
| "hss_main_loop (Suc n) reg ms w = Option.bind (RunStateMachines True True reg HSS_HART_E51 ms w) (hss_main_loop n reg ms)"

subsection \<open>The registry\<close>

lemma registry_entries:
  "registry_lookup (ipiRegistry nwc me) IPI_MSG_PMP_SETUP = Some (Some (HSS_Boot_PMPSetupHandler me))"
  "registry_lookup (ipiRegistry nwc me) IPI_MSG_ACK_COMPLETE = Some (Some IPI_ACK_IPIHandler)"
  "registry_lookup (ipiRegistry nwc me) IPI_MSG_ACK_PENDING = Some (Some IPI_ACK_IPIHandler)"
  "registry_lookup (ipiRegistry nwc me) IPI_MSG_SCRUB = Some (Some Scrub_IPIHandler)"
  "registry_lookup (ipiRegistry nwc me) IPI_MSG_DDR_TRAIN = Some (Some (HSS_DDR_Train_IPIHandler nwc))"
  "registry_lookup (ipiRegistry nwc me) IPI_MSG_GOTO = Some (Some (HSS_GOTO_IPIHandler me))"
  "registry_lookup (ipiRegistry nwc me) IPI_MSG_OPENSBI_INIT = Some (Some (HSS_OpenSBI_IPIHandler me))"
  "registry_lookup (ipiRegistry nwc me) IPI_MSG_BOOT_REQUEST = Some (Some HSS_Boot_IPIHandler)"
  "registry_lookup (ipiRegistry nwc me) IPI_MSG_SCATTERGATHER_DMA = Some (Some (HSS_SGDMA_IPIHandler SGDMA_SERVICE))"
  by (simp_all add: registry_lookup_def ipiRegistry_def nth_opt_def)

lemma registry_acks: "acks_registered (ipiRegistry nwc me)"
  by (simp add: acks_registered_def registry_entries)

subsection \<open>The handlers and the machines meet their contracts\<close>

interpretation null: bus_handler HSS_Null_IPIHandler "\<lambda>_. True"
  by unfold_locales (auto simp: HSS_Null_IPIHandler_def)

interpretation scrub: bus_local_handler Scrub_IPIHandler "\<lambda>_. True"
  by unfold_locales (auto simp: Scrub_IPIHandler_def)

definition pmp_ok :: "hart \<Rightarrow> 'a boot_world_scheme \<Rightarrow> bool" where
  "pmp_ok me w \<longleftrightarrow> me \<in> {1..4} \<and> length (pmpSetupFlag w) = 5"

lemma pmp_ok_more: "ipi_data.more w' = ipi_data.more w \<Longrightarrow> pmp_ok me w' = pmp_ok me w"
  by (cases w; cases w') (simp add: pmp_ok_def)

interpretation pmp: bus_handler "HSS_Boot_PMPSetupHandler me" "pmp_ok me" for me
proof
  fix s s' :: "'a boot_world_scheme" and txid src imm ext anc r
  show "pmp_ok me s'" if "ipi_data.more s' = ipi_data.more s" "pmp_ok me s" using pmp_ok_more [OF that(1)] that(2) by simp
  show "\<exists>r s'. HSS_Boot_PMPSetupHandler me txid src imm ext anc s = Some (r, s')" if "pmp_ok me s"
    using that by (auto simp: pmp_ok_def HSS_Boot_PMPSetupHandler_def HSS_U54_SetState_def HSS_U54_SetState_Ex_def)
  assume h: "HSS_Boot_PMPSetupHandler me txid src imm ext anc s = Some (r, s')"
  then show "pmp_ok me s \<Longrightarrow> pmp_ok me s'" "ipi_queues s' = ipi_queues s" "ipi_wf s \<Longrightarrow> ipi_wf s'"
    by (auto simp: pmp_ok_def HSS_Boot_PMPSetupHandler_def HSS_U54_SetState_def HSS_U54_SetState_Ex_def ipi_wf_def
        Option.bind_eq_Some_conv split: if_splits)
qed

interpretation ipi_poll_machine: state_machine "ipi_poll_service (ipiRegistry nwc HSS_HART_E51) HSS_HART_E51" m "poll_inv m" for nwc m
  by (rule poll_state_machine) (simp_all add: registry_acks)

lemma pmp_flag_more: "ipi_data.more w' = ipi_data.more w \<Longrightarrow> pmpSetupFlag w' = pmpSetupFlag (w :: 'a boot_world_scheme)"
  by (cases w; cases w') simp

text \<open>
  C3.  A request for the set-up of the physical memory protection completes, from the
  request table of the monitor through the queue, the registry and the handler of the
  application hart and back: the request is pending until the acknowledgement has been
  consumed, then it is complete, the hart has configured its registers, and both
  mailboxes and all others are as before.
\<close>

theorem pmp_setup_completes:
  assumes wf: "ipi_wf w" and ok: "pmp_ok target w"
    and alloc: "IPI_MessageAlloc HSS_HART_E51 w = (Some i, w1)"
    and fresh: "\<forall>c\<in>set (ipi_completes w). c_transaction_id c \<noteq> my_transaction_id w ! HSS_HART_E51"
    and room: "size (mailbox_of HSS_HART_E51 target w) < IPI_MAX_NUM_QUEUE_MESSAGES"
      "\<forall>m\<in>#mailbox_of HSS_HART_E51 target w. msg_type m \<noteq> IPI_MSG_PMP_SETUP"
    and room_back: "size (mailbox_of target HSS_HART_E51 w) < IPI_MAX_NUM_QUEUE_MESSAGES"
      "\<forall>m\<in>#mailbox_of target HSS_HART_E51 w. msg_type m \<noteq> IPI_MSG_ACK_COMPLETE"
  shows "\<exists>w2 w3 w4. IPI_MessageDeliver HSS_HART_E51 i target IPI_MSG_PMP_SETUP 0 0 0 w1 = Some (True, w2)
    \<and> IPI_MessageCheckIfComplete i w2 = Some False
    \<and> IPI_ConsumeIntent (ipiRegistry nwc target) target HSS_HART_E51 IPI_MSG_PMP_SETUP w2 = Some (True, w3)
    \<and> IPI_MessageCheckIfComplete i w3 = Some False
    \<and> IPI_ConsumeIntent (ipiRegistry nwc HSS_HART_E51) HSS_HART_E51 target IPI_MSG_ACK_COMPLETE w3 = Some (True, w4)
    \<and> IPI_MessageCheckIfComplete i w4 = Some True \<and> pmpSetupFlag w4 ! target
    \<and> ipi_wf w4 \<and> (\<forall>a b. peers a b \<longrightarrow> mailbox_of a b w4 = mailbox_of a b w)"
proof -
  have p: "peers HSS_HART_E51 target" and t: "IPI_MSG_PMP_SETUP \<noteq> IPI_MSG_NO_MESSAGE"
    using ok by (auto simp: peers_def pmp_ok_def)
  have acked: "(\<exists>st. ack_for IPI_MSG_PMP_SETUP e = Some (IPI_MSG_ACK_COMPLETE, st)) \<and> ipi_completes z' = ipi_completes z"
    if "HSS_Boot_PMPSetupHandler target x a b c d z = Some (e, z')" for x a b c d e and z z' :: "'a sgdma_world_scheme"
    using that by (auto simp: HSS_Boot_PMPSetupHandler_def HSS_U54_SetState_def HSS_U54_SetState_Ex_def
        Option.bind_eq_Some_conv split: if_splits)
  obtain w2 w3 w4 where rt: "IPI_MessageDeliver HSS_HART_E51 i target IPI_MSG_PMP_SETUP 0 0 0 w1 = Some (True, w2)"
    "IPI_MessageCheckIfComplete i w2 = Some False"
    "IPI_ConsumeIntent (ipiRegistry nwc target) target HSS_HART_E51 IPI_MSG_PMP_SETUP w2 = Some (True, w3)"
    "IPI_MessageCheckIfComplete i w3 = Some False"
    "IPI_ConsumeIntent (ipiRegistry nwc HSS_HART_E51) HSS_HART_E51 target IPI_MSG_ACK_COMPLETE w3 = Some (True, w4)"
    "IPI_MessageCheckIfComplete i w4 = Some True" "ipi_wf w4" "pmp_ok target w3"
    "\<And>a b. peers a b \<Longrightarrow> mailbox_of a b w4 = mailbox_of a b w"
    by (rule pmp.request_roundtrip [where imm = 0 and ext = 0 and anc = 0, OF wf p
          registry_entries(1) [where nwc = nwc and me = target] registry_entries(2) [where nwc = nwc and me = HSS_HART_E51]
          t ok _ alloc fresh room room_back]) (erule acked, (rule that; assumption))
  obtain m :: IPI_Outbox_Msg and s2 r s3 where f: "HSS_Boot_PMPSetupHandler target (transaction_id m) HSS_HART_E51 (immediate_arg m)
      (p_extended_buffer_in_ddr m) (p_ancilliary_buffer_in_ddr m) s2 = Some (r, s3)" "outside_bus s3 w3"
    by (rule consume_frame [OF registry_entries(1) rt(3)])
  have "pmpSetupFlag s3 ! target"
    using f(1) by (auto simp: HSS_Boot_PMPSetupHandler_def Option.bind_eq_Some_conv)
  moreover have "ipi_data.more w4 = ipi_data.more w3"
    by (rule ack_local.consume_more [OF registry_entries(2) rt(5)])
  ultimately have "pmpSetupFlag w4 ! target"
    using pmp_flag_more [of w3 s3] pmp_flag_more [of w4 w3] f(2) by (simp add: outside_bus_def)
  then show ?thesis using rt by blast
qed

definition bus_demo :: "'a scrub_world_scheme \<Rightarrow> 'a scrub_world_scheme" where
  "bus_demo w = (snd (IPI_QueuesInit (w\<lparr>MSIP := replicate 5 0\<rparr>)))\<lparr>pmpSetupFlag := replicate 5 False\<rparr>"

lemma bus_demo:
  "ipi_wf (bus_demo w)" "peers a b \<Longrightarrow> mailbox_of a b (bus_demo w) = {#}" "me \<in> {1..4} \<Longrightarrow> pmp_ok me (bus_demo w)"
  using ipi_wf_QueuesInit [of "w\<lparr>MSIP := replicate 5 0\<rparr>"] mailbox_of_init [of a b "w\<lparr>MSIP := replicate 5 0\<rparr>"]
  by (simp_all add: bus_demo_def ipi_wf_def mailbox_of_def pmp_ok_def)

theorem pmp_setup_completes_witness:
  "\<forall>w :: sgdma_world. \<exists>i w1 w2 w3 w4. IPI_MessageAlloc HSS_HART_E51 (bus_demo w) = (Some i, w1)
    \<and> IPI_MessageDeliver HSS_HART_E51 i 3 IPI_MSG_PMP_SETUP 0 0 0 w1 = Some (True, w2)
    \<and> IPI_ConsumeIntent (ipiRegistry (Pair 0) 3) 3 HSS_HART_E51 IPI_MSG_PMP_SETUP w2 = Some (True, w3)
    \<and> IPI_ConsumeIntent (ipiRegistry (Pair 0) HSS_HART_E51) HSS_HART_E51 3 IPI_MSG_ACK_COMPLETE w3 = Some (True, w4)
    \<and> IPI_MessageCheckIfComplete i w4 = Some True \<and> pmpSetupFlag w4 ! 3"
proof
  fix w :: sgdma_world
  let ?d = "bus_demo w"
  have p: "peers 0 3" "peers 3 0" by (simp_all add: peers_def)
  have c: "ipi_completes ?d = replicate IPI_MAX_NUM_OUTSTANDING_COMPLETES zero_complete" "my_transaction_id ?d ! 0 = 1"
    by (simp_all add: bus_demo_def IPI_QueuesInit_def)
  obtain i w1 where a: "IPI_MessageAlloc HSS_HART_E51 ?d = (Some i, w1)"
    using alloc_None [of 0 ?d] by (cases "IPI_MessageAlloc 0 ?d"; cases "fst (IPI_MessageAlloc 0 ?d)")
      (auto simp: c(1) zero_complete_def IPI_MAX_NUM_OUTSTANDING_COMPLETES_def IPI_MAX_NUM_QUEUE_MESSAGES_def)
  have f: "\<forall>c\<in>set (ipi_completes ?d). c_transaction_id c \<noteq> my_transaction_id ?d ! HSS_HART_E51"
    by (simp add: c zero_complete_def)
  have "pmp_ok 3 ?d" by (rule bus_demo(3)) simp
  from pmp_setup_completes [OF bus_demo(1) this a f, of "Pair 0"]
  show "\<exists>i w1 w2 w3 w4. IPI_MessageAlloc HSS_HART_E51 ?d = (Some i, w1)
    \<and> IPI_MessageDeliver HSS_HART_E51 i 3 IPI_MSG_PMP_SETUP 0 0 0 w1 = Some (True, w2)
    \<and> IPI_ConsumeIntent (ipiRegistry (Pair 0) 3) 3 HSS_HART_E51 IPI_MSG_PMP_SETUP w2 = Some (True, w3)
    \<and> IPI_ConsumeIntent (ipiRegistry (Pair 0) HSS_HART_E51) HSS_HART_E51 3 IPI_MSG_ACK_COMPLETE w3 = Some (True, w4)
    \<and> IPI_MessageCheckIfComplete i w4 = Some True \<and> pmpSetupFlag w4 ! 3"
    using a bus_demo(2) [OF p(1), of w] bus_demo(2) [OF p(2), of w] by (simp add: IPI_MAX_NUM_QUEUE_MESSAGES_def) blast
qed

subsection \<open>A scatter-gather request\<close>

text \<open>
  C31.  With the table of permissions as the firmware leaves it, the one pending request of an application
  hart for a scatter-gather copy is answered with success and copies nothing: when the idle service comes to the
  turn of that hart (and the queue that the code counts, the one with the hart's number, is not empty, the
  answer has room, and the chain has an end mark), it
  takes the message over and queues the acknowledgement at once, runs through the whole
  chain, a pass for every page of every block and one for the end mark, and is idle again
  with the memory as it was.
\<close>

theorem sgdma_request_copies_nothing:
  fixes w :: "'a sgdma_world_scheme"
  assumes wf: "ipi_wf w" and source: "source \<in> {1..4}" "sgdma_i w = source" "IPI_GetQueuePendingCount source w \<noteq> 0"
    and m: "filter_mset (\<lambda>m. msg_type m = IPI_MSG_SCATTERGATHER_DMA) (mailbox_of source HSS_HART_E51 w) = {#m#}"
    and room: "size (mailbox_of HSS_HART_E51 source w) < IPI_MAX_NUM_QUEUE_MESSAGES"
    and idle: "SGDMA_SERVICE < length (machines w)" "sm_state (machines w ! SGDMA_SERVICE) = SGDMA_IDLE" "remaining_in_current_block w = 0"
    and reset: "pmpEntry w = pmpEntry_reset" and chain: "chain_at (mem w) (p_extended_buffer_in_ddr m) n"
  shows "\<exists>w1 w2. sgdma_idle_handler (ipiRegistry nwc HSS_HART_E51) HSS_HART_E51 SGDMA_SERVICE w = Some w1
    \<and> mailbox_of source HSS_HART_E51 w = add_mset m (mailbox_of source HSS_HART_E51 w1)
    \<and> mailbox_of HSS_HART_E51 source w1 = add_mset \<lparr> msg_type = IPI_MSG_ACK_COMPLETE, transaction_id = transaction_id m,
         immediate_arg = ipi_status_code IPI_SUCCESS, p_extended_buffer_in_ddr = 0, p_ancilliary_buffer_in_ddr = 0 \<rparr> (mailbox_of HSS_HART_E51 source w)
    \<and> sm_state (machines w1 ! SGDMA_SERVICE) = SGDMA_TRANSFERRING
    \<and> handle_times (chain_passes (mem w) (p_extended_buffer_in_ddr m) n + 1) sgdma_transferring_handler SGDMA_SERVICE w1 = Some w2
    \<and> sm_state (machines w2 ! SGDMA_SERVICE) = SGDMA_IDLE \<and> pBlockDesc w2 = NULL \<and> mem w2 = mem w"
proof -
  let ?p = "p_extended_buffer_in_ddr m"
  have p: "?p \<noteq> NULL" using chain by (auto simp: chain_at_def dest: spec [of _ 0])
  obtain w1 where w1: "sgdma_idle_handler (ipiRegistry nwc HSS_HART_E51) HSS_HART_E51 SGDMA_SERVICE w = Some w1"
    "mem w1 = mem w" "pmpEntry w1 = pmpEntry w"
    "machines w1 = (machines w)[SGDMA_SERVICE := (machines w ! SGDMA_SERVICE)\<lparr>sm_state := SGDMA_TRANSFERRING\<rparr>]"
    "pBlockDesc w1 = ?p" "activeHart w1 = source" "remaining_in_current_block w1 = remaining_in_current_block w"
    "mailbox_of source HSS_HART_E51 w = add_mset m (mailbox_of source HSS_HART_E51 w1)"
    "mailbox_of HSS_HART_E51 source w1 = add_mset \<lparr> msg_type = IPI_MSG_ACK_COMPLETE, transaction_id = transaction_id m,
       immediate_arg = ipi_status_code IPI_SUCCESS, p_extended_buffer_in_ddr = 0, p_ancilliary_buffer_in_ddr = 0 \<rparr> (mailbox_of HSS_HART_E51 source w)"
    by (rule sgdma_takes_request [OF wf source registry_entries(9) m room idle(2) p]) blast
  let ?w = "w1\<lparr>pBlockDesc := ?p + 32 * of_nat n\<rparr>"
  have run: "handle_times (chain_passes (mem w) ?p n) sgdma_transferring_handler SGDMA_SERVICE w1 = Some ?w"
    using refused_chain [of w1 n SGDMA_SERVICE] w1 chain reset idle(3) source(1) by simp
  have "?p + 32 * of_nat n \<noteq> NULL" "\<not> desc_ext (mem w) (?p + 32 * of_nat n)" using chain by (auto simp: chain_at_def)
  then have "sgdma_transferring_handler SGDMA_SERVICE ?w
      = Some ((set_state SGDMA_SERVICE SGDMA_IDLE ?w)\<lparr>pBlockDesc := NULL, activeHart := HSS_HART_E51\<rparr>)"
    using w1(2) by (simp add: sgdma_transferring_handler_def)
  then have "handle_times (chain_passes (mem w) ?p n + 1) sgdma_transferring_handler SGDMA_SERVICE w1
      = Some ((set_state SGDMA_SERVICE SGDMA_IDLE ?w)\<lparr>pBlockDesc := NULL, activeHart := HSS_HART_E51\<rparr>)"
    using run by simp
  then show ?thesis
    using w1 idle(1) by (intro exI conjI) (assumption | simp add: set_state_def sm_update_def)+
qed

text \<open>Hart 1 asks for a block of two pages; another queue, that of hart 2, is the one that is counted.\<close>

definition sgdma_demo :: "'a sgdma_world_scheme \<Rightarrow> 'a sgdma_world_scheme" where
  "sgdma_demo w = (let v = bus_demo w in v\<lparr>ipi_queues := (ipi_queues v)[1 := zero_queue\<lparr>qcount := 1\<rparr>,
       4 := zero_queue\<lparr>msgQ := \<lparr> msg_type = IPI_MSG_SCATTERGATHER_DMA, transaction_id = 7, immediate_arg = 0,
         p_extended_buffer_in_ddr = 0x1000, p_ancilliary_buffer_in_ddr = 0 \<rparr> # replicate 7 zero_msg\<rparr>],
     sgdma_i := 1, remaining_in_current_block := 0, pmpEntry := pmpEntry_reset,
     machines := replicate 15 ((initial_machine 0)\<lparr>sm_state := 1\<rparr>),
     mem := (\<lambda>a. if a = 0x1003 then 0x80 else if a = 0x100B then 0x90 else if a = 0x1011 then 0x20 else if a = 0x101B then 0x80 else 0)\<rparr>)"

theorem sgdma_request_copies_nothing_witness:
  "\<forall>w :: sgdma_world. \<exists>w1 w2. sgdma_idle_handler (ipiRegistry (Pair 0) HSS_HART_E51) HSS_HART_E51 SGDMA_SERVICE (sgdma_demo w) = Some w1
    \<and> mailbox_of HSS_HART_E51 1 w1 = {# \<lparr> msg_type = IPI_MSG_ACK_COMPLETE, transaction_id = 7,
         immediate_arg = 1, p_extended_buffer_in_ddr = 0, p_ancilliary_buffer_in_ddr = 0 \<rparr> #}
    \<and> handle_times 3 sgdma_transferring_handler SGDMA_SERVICE w1 = Some w2
    \<and> sm_state (machines w2 ! SGDMA_SERVICE) = SGDMA_IDLE \<and> mem w2 = mem (sgdma_demo w)"
proof
  fix w :: sgdma_world
  let ?w = "sgdma_demo w" let ?m = "\<lparr> msg_type = IPI_MSG_SCATTERGATHER_DMA, transaction_id = 7, immediate_arg = 0,
         p_extended_buffer_in_ddr = 0x1000, p_ancilliary_buffer_in_ddr = 0 \<rparr>"
  have q: "ipi_queues (bus_demo w) = replicate 20 zero_queue" by (simp add: bus_demo_def IPI_QueuesInit_def)
  have wf: "ipi_wf ?w"
    using bus_demo(1) [of w] by (auto simp: sgdma_demo_def ipi_wf_def Let_def q zero_queue_def IPI_MAX_NUM_QUEUE_MESSAGES_def
        dest!: set_update_subset_insert [THEN subsetD])
  have mb: "mailbox_of 1 0 ?w = {#?m#}" "mailbox_of 0 1 ?w = {#}"
    by (simp_all add: mailbox_of_def sgdma_demo_def IPI_CalculateQueueIndex_def Let_def q pending_def zero_msg_def is_message_def
        zero_queue_def IPI_MAX_NUM_QUEUE_MESSAGES_def filter_mset_eq_mempty_iff)
  have src: "(1::nat) \<in> {1..4}" "sgdma_i ?w = 1" "IPI_GetQueuePendingCount 1 ?w \<noteq> 0"
    by (simp_all add: sgdma_demo_def Let_def IPI_GetQueuePendingCount_def q)
  have only: "filter_mset (\<lambda>m. msg_type m = IPI_MSG_SCATTERGATHER_DMA) (mailbox_of 1 0 ?w) = {#?m#}" unfolding mb(1) by simp
  have room: "size (mailbox_of 0 1 ?w) < IPI_MAX_NUM_QUEUE_MESSAGES" unfolding mb(2) by (simp add: IPI_MAX_NUM_QUEUE_MESSAGES_def)
  have idle: "SGDMA_SERVICE < length (machines ?w)" "sm_state (machines ?w ! SGDMA_SERVICE) = 1" "remaining_in_current_block ?w = 0"
    "pmpEntry ?w = pmpEntry_reset" by (simp_all add: sgdma_demo_def Let_def)
  have four: "[0..<4] = [0, 1, 2, 3 :: nat]" "[0..<8] = [0, 1, 2, 3, 4, 5, 6, 7 :: nat]" by (simp_all add: upt_conv_Cons)
  have e: "desc_ext (mem ?w) 0x1000" "\<not> desc_ext (mem ?w) 0x1020" "desc_size (mem ?w) 0x1000 = 8192"
    by (simp_all add: desc_ext_def desc_size_def rd32_def rd64_def rd_bytes_def sgdma_demo_def Let_def four)
  have chain: "chain_at (mem ?w) (p_extended_buffer_in_ddr ?m) 1"
    using e by (auto simp: chain_at_def le_Suc_eq)
  have passes: "chain_passes (mem ?w) (p_extended_buffer_in_ddr ?m) 1 = 2"
    using e(3) by (simp add: chain_passes_def block_passes_def)
  from sgdma_request_copies_nothing [OF wf src only room idle chain, of "Pair 0", unfolded passes mb]
  show "\<exists>w1 w2. sgdma_idle_handler (ipiRegistry (Pair 0) HSS_HART_E51) HSS_HART_E51 SGDMA_SERVICE ?w = Some w1
    \<and> mailbox_of HSS_HART_E51 1 w1 = {# \<lparr> msg_type = IPI_MSG_ACK_COMPLETE, transaction_id = 7,
         immediate_arg = 1, p_extended_buffer_in_ddr = 0, p_ancilliary_buffer_in_ddr = 0 \<rparr> #}
    \<and> handle_times 3 sgdma_transferring_handler SGDMA_SERVICE w1 = Some w2
    \<and> sm_state (machines w2 ! SGDMA_SERVICE) = SGDMA_IDLE \<and> mem w2 = mem ?w"
    by (elim exE conjE) (intro exI conjI; (assumption | simp))
qed

subsection \<open>The super loop over the services that do not boot\<close>

definition scrub_inv :: "'a scrub_world_scheme \<Rightarrow> bool" where
  "scrub_inv w \<longleftrightarrow> last_peer w \<in> {1..4} \<and> scrub_idx w < length (rams w) \<and> (\<forall>i<length (rams w). \<exists>n. region i n w)
     \<and> (\<exists>n j. region (scrub_idx w) n w \<and> scrub_offset w = of_nat (8 * j) \<and> j \<le> n)"

text \<open>
  The indices of the ten services in the table: all but the four boot machines and the command
  line.  The number of states that each may be in; the scatter-gather service, which is
  looked at as long as nobody asks for a copy, does not reach its third.
\<close>

definition services :: "nat set" where "services = {0, 5, 6, 7, 8, 10, 11, 12, 13, 14}"

definition service_states :: "nat \<Rightarrow> int" where
  "service_states k = (if k = 7 then 4 else if k = 5 \<or> k = 14 then 3 else 2)"

text \<open>No queue holds a request for a scatter-gather copy.\<close>

definition no_sgdma :: "IPI_Outbox_Queue list \<Rightarrow> bool" where
  "no_sgdma qs \<longleftrightarrow> (\<forall>ms\<in>set (map msgQ qs). \<forall>m\<in>set ms. msg_type m \<noteq> IPI_MSG_SCATTERGATHER_DMA)"

lemma no_sgdma_cong: "map msgQ qs' = map msgQ qs \<Longrightarrow> no_sgdma qs' = no_sgdma qs"
  by (simp add: no_sgdma_def del: set_map)

lemma map_msgQ_same: "msgQ q = msgQ (qs ! i) \<Longrightarrow> map msgQ (qs[i := q]) = map msgQ qs"
  by (cases "i < length qs") (simp_all add: map_update list_update_same_conv list_update_beyond)

lemma no_sgdma_put:
  assumes "no_sgdma (ipi_queues s)" "msg_type m \<noteq> IPI_MSG_SCATTERGATHER_DMA"
  shows "no_sgdma (ipi_queues (queue_put i j m s))"
proof (cases "i < length (ipi_queues s)")
  case True
  then have "msgQ (ipi_queues s ! i) \<in> set (map msgQ (ipi_queues s))" by simp
  then have "\<forall>x\<in>set ((msgQ (ipi_queues s ! i))[j := m]). msg_type x \<noteq> IPI_MSG_SCATTERGATHER_DMA"
    using assms set_update_subset_insert [of "msgQ (ipi_queues s ! i)" j m] unfolding no_sgdma_def by blast
  then show ?thesis
    using assms(1) set_update_subset_insert [of "map msgQ (ipi_queues s)" i "(msgQ (ipi_queues s ! i))[j := m]"]
    unfolding no_sgdma_def by (auto simp: map_update)
qed (use assms in \<open>simp add: list_update_beyond\<close>)

lemma no_sgdma_send:
  "IPI_Send me target t txid imm ext anc w = Some (b, w') \<Longrightarrow> t \<noteq> IPI_MSG_SCATTERGATHER_DMA \<Longrightarrow>
     no_sgdma (ipi_queues w) \<Longrightarrow> no_sgdma (ipi_queues w')"
  using no_sgdma_put [of w "\<lparr> msg_type = t, transaction_id = txid, immediate_arg = imm,
              p_extended_buffer_in_ddr = ext, p_ancilliary_buffer_in_ddr = anc \<rparr>"]
  by (auto simp: IPI_Send_def CLINT_Raise_MSIP_def clint_set_MSIP_def Let_def Option.bind_eq_Some_conv
      simp del: queue_put_simps split: option.splits if_splits)

lemma no_sgdma_consume:
  assumes reg: "registry_lookup reg t = Some (Some h)" and c: "IPI_ConsumeIntent reg me source t w = Some (b, w')"
    and h: "\<And>txid imm ext anc s r s'. h txid source imm ext anc s = Some (r, s') \<Longrightarrow> ipi_queues s' = ipi_queues s"
    and w: "no_sgdma (ipi_queues w)"
  shows "no_sgdma (ipi_queues w')"
proof -
  have dec: "no_sgdma (ipi_queues (queue_dec i s)) = no_sgdma (ipi_queues s)" for i and s :: "'a ipi_data_scheme"
    by (rule no_sgdma_cong) (simp add: queue_dec_def Let_def map_msgQ_same)
  have ack: "ack \<noteq> IPI_MSG_SCATTERGATHER_DMA" if "ack_for k r = Some (ack, st)" for k r ack st
    using that by (cases "(k, r)" rule: ack_for.cases) auto
  have none: "no_sgdma (ipi_queues (queue_put i j (m\<lparr>msg_type := IPI_MSG_NO_MESSAGE\<rparr>) s))"
    if "no_sgdma (ipi_queues s)" for i j m and s :: "'a ipi_data_scheme" using that by (rule no_sgdma_put) simp
  have sent: "no_sgdma (ipi_queues z')"
    if "IPI_Send me source ac x y 0 0 z = Some (b', z')" "ack_for k r = Some (ac, st)"
      "ipi_queues z = ipi_queues (queue_dec i (private_update me f w))" for ac x y z b' z' k r st i f
    using no_sgdma_send [OF that(1) ack [OF that(2)]] that(3) w dec [of i "private_update me f w"] by simp
  show ?thesis
    using c w by (auto simp: IPI_ConsumeIntent_def reg Let_def Option.bind_eq_Some_conv dec
        dest!: h intro!: none dest: sent split: option.splits prod.splits simp del: queue_put_simps find_index_None)
qed

lemma no_sgdma_poll: "no_sgdma (ipi_queues (snd (IPI_PollReceive me hm w))) = no_sgdma (ipi_queues w)"
proof -
  have "map msgQ (ipi_queues (snd (fold (poll_one me hm) is bw))) = map msgQ (ipi_queues (snd bw))" for "is" and bw :: "bool \<times> 'a ipi_data_scheme"
  proof (induction "is" arbitrary: bw)
    case (Cons i "is")
    have "map msgQ (ipi_queues (snd (poll_one me hm i bw))) = map msgQ (ipi_queues (snd bw))"
      by (cases bw) (simp add: poll_one_def Let_def map_msgQ_same)
    then show ?case using Cons.IH by simp
  qed simp
  then show ?thesis unfolding IPI_PollReceive_def by (intro no_sgdma_cong) simp
qed

lemma no_sgdma_acks:
  assumes "acks_registered reg"
  shows "IPI_ConsumeIntent reg me source IPI_MSG_ACK_COMPLETE w = Some (b, w') \<Longrightarrow> no_sgdma (ipi_queues w) \<Longrightarrow> no_sgdma (ipi_queues w')"
    "IPI_ConsumeIntent reg me source IPI_MSG_ACK_PENDING w = Some (b, w') \<Longrightarrow> no_sgdma (ipi_queues w) \<Longrightarrow> no_sgdma (ipi_queues w')"
  using assms no_sgdma_consume [where h = IPI_ACK_IPIHandler and reg = reg and me = me and source = source and w = w and b = b and w' = w']
  by (auto simp: acks_registered_def IPI_ACK_IPIHandler_def)

lemma no_sgdma_gobble:
  assumes "acks_registered reg"
  shows "gobble_acks reg me is w = Some w' \<Longrightarrow> no_sgdma (ipi_queues w) \<Longrightarrow> no_sgdma (ipi_queues w')"
proof (induction "is" arbitrary: w)
  case (Cons i "is")
  obtain w1 where w1: "gobble_one reg me i w = Some w1" "gobble_acks reg me is w1 = Some w'"
    using Cons.prems(1) by (auto simp: Option.bind_eq_Some_conv)
  have "no_sgdma (ipi_queues w1)"
    using w1(1) Cons.prems(2) by (auto simp: gobble_one_def Let_def Option.bind_eq_Some_conv dest: no_sgdma_acks [OF assms] split: if_splits)
  then show ?case by (rule Cons.IH [OF w1(2)])
qed simp

lemma no_sgdma_poll_and_gobble:
  assumes "acks_registered reg" "poll_and_gobble reg me hm w = Some w'" "no_sgdma (ipi_queues w)"
  shows "no_sgdma (ipi_queues w')"
  using assms(2,3) no_sgdma_poll [of me hm w] no_sgdma_gobble [OF assms(1)]
  by (cases "IPI_PollReceive me hm w") (auto simp: poll_and_gobble_def split: if_splits)

definition table_ok :: "StateMachine list \<Rightarrow> bool" where
  "table_ok ms \<longleftrightarrow> length ms = 15 \<and> (\<forall>k\<in>services. 0 \<le> sm_state (ms ! k) \<and> sm_state (ms ! k) < service_states k)"

text \<open>The tables of the services that watch the devices, and the next hart to look at for a copy.\<close>

definition device_data ::
    "'a tm_world_scheme \<Rightarrow> HealthMonitor_Status list \<times> BEU_regs list \<times> u64 list \<times> u64 list \<times> u64 list \<times> HSSTicks_t list \<times> nat \<times> ADCs_type list" where
  [simp]: "device_data w = (monitor_status w, beu_regs w, beu_counters w, shadow_value w, shadow_accrued w, wdogInitTime w, sgdma_i w, ADCs w)"

definition devices_ok :: "'a tm_world_scheme \<Rightarrow> bool" where
  "devices_ok w \<longleftrightarrow> length (monitor_status w) = 56 \<and> beu_ok w \<and> length (wdogInitTime w) = 5 \<and> sgdma_i w < 5 \<and> length (ADCs w) = 2"

lemma devices_cong: "device_data w' = device_data w \<Longrightarrow> devices_ok w' = devices_ok w"
  by (simp add: devices_ok_def beu_ok_def)

definition monitor_inv :: "'a top_world_scheme \<Rightarrow> bool" where
  "monitor_inv w \<longleftrightarrow> ipi_wf w \<and> no_sgdma (ipi_queues w) \<and> table_ok (machines w) \<and> scrub_inv w \<and> devices_ok w \<and> init_index w < 10"

lemma region_cong: "rams w' = rams w \<Longrightarrow> region i n w' = region i n w"
  by (simp add: region_def ram_base_def ram_end_def)

lemma scrub_inv_cong:
  "rams w' = rams w \<Longrightarrow> scrub_idx w' = scrub_idx w \<Longrightarrow> scrub_offset w' = scrub_offset w \<Longrightarrow> last_peer w' = last_peer w \<Longrightarrow>
     scrub_inv w' = scrub_inv w"
  using region_cong [of w' w] by (simp add: scrub_inv_def)

lemma monitor_cong:
  "monitor_inv w \<Longrightarrow> ipi_wf w' \<Longrightarrow> no_sgdma (ipi_queues w') \<Longrightarrow> table_ok (machines w') \<Longrightarrow> rams w' = rams w \<Longrightarrow> scrub_idx w' = scrub_idx w \<Longrightarrow>
     scrub_offset w' = scrub_offset w \<Longrightarrow> last_peer w' = last_peer w \<Longrightarrow> init_index w' = init_index w \<Longrightarrow> device_data w' = device_data w \<Longrightarrow> monitor_inv w'"
  using scrub_inv_cong [of w' w] devices_cong [of w' w] by (simp add: monitor_inv_def)

lemma top_more: "ipi_data.more w' = ipi_data.more w \<Longrightarrow> machines w' = machines w \<and> rams w' = rams w \<and> scrub_idx w' = scrub_idx w
    \<and> scrub_offset w' = scrub_offset w \<and> last_peer w' = last_peer w \<and> init_index w' = init_index (w :: 'a top_world_scheme)
    \<and> device_data w' = device_data w"
  by (cases w; cases w') simp

lemma monitor_bus: "monitor_inv w \<Longrightarrow> ipi_wf w' \<Longrightarrow> no_sgdma (ipi_queues w') \<Longrightarrow> ipi_data.more w' = ipi_data.more w \<Longrightarrow> monitor_inv w'"
  using top_more [of w' w] by (intro monitor_cong [of w w']) (auto simp: monitor_inv_def)

lemma monitor_clock: "monitor_inv w \<Longrightarrow> monitor_inv (w\<lparr>time_reads := n\<rparr>)"
  by (rule monitor_cong [of w]) (auto simp: monitor_inv_def ipi_wf_def)

lemma table_update:
  "table_ok ms \<Longrightarrow> sm_state x = sm_state (ms ! k) \<or> (0 \<le> sm_state x \<and> sm_state x < service_states k) \<Longrightarrow> table_ok (ms[k := x])"
  unfolding table_ok_def by (cases "k < length ms") (auto simp: nth_list_update list_update_beyond)

lemma monitor_machine:
  "monitor_inv w \<Longrightarrow> table_ok ((machines w)[k := f (machines w ! k)]) \<Longrightarrow> monitor_inv (sm_update k f w)"
  by (rule monitor_cong [of w]) (auto simp: monitor_inv_def sm_update_def ipi_wf_def)

lemma monitor_book: "monitor_inv w \<Longrightarrow> (\<And>sm. sm_state (f sm) = sm_state sm) \<Longrightarrow> monitor_inv (sm_update k f w)"
  by (rule monitor_machine) (auto simp: monitor_inv_def intro: table_update)

lemma monitor_set_state:
  "monitor_inv w \<Longrightarrow> 0 \<le> st \<Longrightarrow> st < service_states k \<Longrightarrow> monitor_inv (set_state k st w)"
  unfolding set_state_def by (rule monitor_machine) (simp_all add: monitor_inv_def table_update)

lemma monitor_machine_plain:
  fixes d :: "'a top_world_scheme MachineDesc"
  assumes "plain_machine d" "k \<in> services" "service_states k \<le> int (length (pStateDescs d))"
    and "\<And>i h w. i < length (pStateDescs d) \<Longrightarrow> state_handler (pStateDescs d ! i) = Some h \<Longrightarrow> monitor_inv w \<Longrightarrow>
      sm_state (machines w ! k) = int i \<Longrightarrow> \<exists>w'. h k w = Some w' \<and> monitor_inv w'"
  shows "state_machine d k monitor_inv"
proof (rule plain_state_machine [OF assms(1)])
  fix w :: "'a top_world_scheme" and f i h n
  show "monitor_inv w \<Longrightarrow> k < length (machines w) \<and> 0 \<le> sm_state (machines w ! k)
      \<and> sm_state (machines w ! k) < int (length (pStateDescs d))"
    using assms(2,3) by (auto simp: monitor_inv_def table_ok_def services_def)
qed (use assms(4) in \<open>auto intro: monitor_book monitor_clock\<close>)

lemma poll_monitored: "state_machine (ipi_poll_service (ipiRegistry nwc 0) 0) 0 monitor_inv"
proof (rule monitor_machine_plain)
  let ?d = "ipi_poll_service (ipiRegistry nwc 0) 0"
  show "plain_machine ?d" by (auto simp: plain_machine_def ipi_poll_service_def ipiPoll_state_descs_def less_Suc_eq)
  show "0 \<in> services" "service_states 0 \<le> int (length (pStateDescs ?d))"
    by (simp_all add: services_def service_states_def ipi_poll_service_def ipiPoll_state_descs_def)
  fix w :: "'a top_world_scheme" and i h
  assume i: "i < length (pStateDescs ?d)" "state_handler (pStateDescs ?d ! i) = Some h" and w: "monitor_inv w"
  have "monitor_inv (w\<lparr>poll_hartBitmask := x\<rparr>)" for x
    by (rule monitor_cong [OF w]) (use w in \<open>auto simp: monitor_inv_def ipi_wf_def\<close>)
  then have init: "monitor_inv (set_state 0 1 (w\<lparr>poll_hartBitmask := x\<rparr>))" for x by (rule monitor_set_state) (simp_all add: service_states_def)
  obtain v where v: "poll_and_gobble (ipiRegistry nwc 0) 0 (poll_hartBitmask w) w = Some v" "ipi_wf v" "ipi_data.more v = ipi_data.more w"
    using poll_and_gobble_safe [of w 0 "ipiRegistry nwc 0" "poll_hartBitmask w"] w registry_acks by (auto simp: monitor_inv_def)
  have "no_sgdma (ipi_queues v)" by (rule no_sgdma_poll_and_gobble [OF registry_acks v(1)]) (use w in \<open>simp add: monitor_inv_def\<close>)
  note kept = monitor_bus [OF w v(2) this v(3)]
  have "h = ipiPoll_init_handler \<or> h = ipiPoll_monitoring_handler (ipiRegistry nwc 0) 0"
    using i by (auto simp: ipi_poll_service_def ipiPoll_state_descs_def less_Suc_eq)
  then show "\<exists>w'. h 0 w = Some w' \<and> monitor_inv w'"
    using w init v kept by (auto simp: ipiPoll_init_handler_def ipiPoll_monitoring_handler_def)
qed


lemma monitor_send:
  "monitor_inv w \<Longrightarrow> IPI_Send me target t x imm ext anc w = Some (b, w') \<Longrightarrow> ipi_wf w' \<Longrightarrow> t \<noteq> IPI_MSG_SCATTERGATHER_DMA \<Longrightarrow> monitor_inv w'"
  using IPI_Send_more [of me target t x imm ext anc w b w'] no_sgdma_send [of me target t x imm ext anc w b w']
  by (auto simp: monitor_inv_def [of w] intro: monitor_bus [of w])

lemma send_total:
  assumes "ipi_wf w" "peers me target" "t \<noteq> IPI_MSG_NO_MESSAGE"
  shows "\<exists>b w'. IPI_Send me target t x imm ext anc w = Some (b, w') \<and> ipi_wf w'"
  using IPI_Send_spec [OF assms, of x imm ext anc] assms(1) by (auto split: if_splits)

lemma ddr_monitored: "state_machine ddr_service 7 (monitor_inv :: 'a top_world_scheme \<Rightarrow> bool)"
proof (rule monitor_machine_plain [OF ddr_plain])
  show "7 \<in> services" "service_states 7 \<le> int (length (pStateDescs (ddr_service :: 'a top_world_scheme MachineDesc)))"
    by (simp_all add: services_def service_states_def ddr_descs)
  fix w :: "'a top_world_scheme" and i and h :: "'a top_world_scheme sm_handler"
  assume i: "i < length (pStateDescs (ddr_service :: 'a top_world_scheme MachineDesc))"
    "state_handler (pStateDescs ddr_service ! i) = Some h" and w: "monitor_inv w"
  have p: "peers 0 1" "IPI_MSG_DDR_TRAIN \<noteq> IPI_MSG_NO_MESSAGE" by (simp_all add: peers_def)
  obtain b v where v: "IPI_Send 0 1 IPI_MSG_DDR_TRAIN 0 0 0 0 w = Some (b, v)" "ipi_wf v"
    using send_total [OF _ p, of w 0 0 0 0] w unfolding monitor_inv_def by blast
  have moved: "monitor_inv (set_state 7 st u)" if "monitor_inv u" "st \<in> {1, 2, 3}" for st and u :: "'a top_world_scheme"
    using that by (intro monitor_set_state) (auto simp: service_states_def)
  have init: "ddr_init_handler 7 w = Some (if ipi_initialized w then set_state 7 1 v else w)"
    unfolding ddr_init_handler_def HSS_DDR_Train_def v(1) by simp
  have skip: "monitor_inv (skip_reads n w)" for n using monitor_clock [OF w] by (simp add: skip_reads_def)
  consider "h = ddr_init_handler" | "h = ddr_train_handler" | "h = ddr_idle_handler" | "h = ddr_retrain_handler"
  proof -
    have "i = 0 \<or> i = Suc 0 \<or> i = 2 \<or> i = 3" using i(1) by (simp add: ddr_descs) linarith
    then show ?thesis using i(2) that by (auto simp: ddr_descs)
  qed
  then show "\<exists>w'. h 7 w = Some w' \<and> monitor_inv w'"
    using w monitor_send [OF w v, simplified] moved skip init
    by cases (simp_all add: ddr_train_handler_def ddr_idle_handler_def ddr_retrain_handler_def Timer_eq)
qed

text \<open>The scatter-gather service finds no request.\<close>

lemma no_sgdma_found:
  assumes "ipi_wf w" "no_sgdma (ipi_queues w)" "i < 5"
    and reg: "registry_lookup reg IPI_MSG_SCATTERGATHER_DMA = Some (Some h)"
  shows "IPI_ConsumeIntent reg 0 i IPI_MSG_SCATTERGATHER_DMA w = Some (False, w)"
proof -
  let ?k = "IPI_CalculateQueueIndex i 0"
  have k: "?k < length (ipi_queues w)" using assms(1,3) by (simp add: IPI_CalculateQueueIndex_def Let_def ipi_wf_def)
  then have "\<forall>m\<in>set (msgQ (ipi_queues w ! ?k)). msg_type m \<noteq> IPI_MSG_SCATTERGATHER_DMA"
    using assms(2) by (auto simp: no_sgdma_def)
  then have "find_index (\<lambda>m. msg_type m = IPI_MSG_SCATTERGATHER_DMA) (msgQ (ipi_queues w ! ?k)) = None" by simp
  then show ?thesis using k by (simp add: IPI_ConsumeIntent_def reg Let_def del: find_index_None)
qed

lemma sgdma_monitored: "state_machine (sgdma_service (ipiRegistry nwc 0) 0) 6 (monitor_inv :: 'a top_world_scheme \<Rightarrow> bool)"
proof (rule monitor_machine_plain)
  let ?d = "sgdma_service (ipiRegistry nwc 0) 0 :: 'a top_world_scheme MachineDesc"
  show "plain_machine ?d" by (auto simp: plain_machine_def sgdma_service_def less_Suc_eq)
  show "6 \<in> services" "service_states 6 \<le> int (length (pStateDescs ?d))"
    by (simp_all add: services_def service_states_def sgdma_service_def)
  fix w :: "'a top_world_scheme" and i and h :: "'a top_world_scheme sm_handler"
  assume i: "i < length (pStateDescs ?d)" "state_handler (pStateDescs ?d ! i) = Some h" and w: "monitor_inv w"
    and st: "sm_state (machines w ! 6) = int i"
  have "sm_state (machines w ! 6) < 2"
    using w by (simp add: monitor_inv_def table_ok_def services_def service_states_def)
  then have "i = 0 \<and> h = sgdma_init_handler \<or> i = 1 \<and> h = sgdma_idle_handler (ipiRegistry nwc 0) 0"
    using i st by (auto simp: sgdma_service_def less_Suc_eq)
  moreover have "monitor_inv (set_state 6 1 w)" by (rule monitor_set_state [OF w]) (simp_all add: service_states_def)
  moreover have "IPI_ConsumeIntent (ipiRegistry nwc 0) 0 (sgdma_i w) IPI_MSG_SCATTERGATHER_DMA w = Some (False, w)"
    by (rule no_sgdma_found [OF _ _ _ registry_entries(9)]) (use w in \<open>simp_all add: monitor_inv_def devices_ok_def\<close>)
  moreover have "monitor_inv (w\<lparr>sgdma_i := (sgdma_i w + 1) mod 5\<rparr>)"
    using w scrub_inv_cong [of "w\<lparr>sgdma_i := (sgdma_i w + 1) mod 5\<rparr>" w]
    by (simp add: monitor_inv_def devices_ok_def beu_ok_def ipi_wf_def)
  ultimately show "\<exists>w'. h 6 w = Some w' \<and> monitor_inv w'"
    using w st by (auto simp: sgdma_init_handler_def sgdma_idle_handler_def)
qed

lemma two_state_descs [simp]:
  "length (pStateDescs (two_state_machine h0 h1)) = 2"
  "state_handler (pStateDescs (two_state_machine h0 h1) ! 0) = Some h0"
  "state_handler (pStateDescs (two_state_machine h0 h1) ! Suc 0) = Some h1"
  "plain_machine (two_state_machine h0 h1)"
  by (auto simp: two_state_machine_def plain_machine_def less_Suc_eq)

lemma two_state_monitored:
  assumes "k \<in> services" "service_states k = 2"
    and "\<And>w :: 'a top_world_scheme. monitor_inv w \<Longrightarrow> sm_state (machines w ! k) = 0 \<Longrightarrow> \<exists>w'. h0 k w = Some w' \<and> monitor_inv w'"
    and "\<And>w :: 'a top_world_scheme. monitor_inv w \<Longrightarrow> \<exists>w'. h1 k w = Some w' \<and> monitor_inv w'"
  shows "state_machine (two_state_machine h0 h1) k monitor_inv"
proof (rule monitor_machine_plain)
  fix w :: "'a top_world_scheme" and i h
  assume i: "i < length (pStateDescs (two_state_machine h0 h1))" "state_handler (pStateDescs (two_state_machine h0 h1) ! i) = Some h"
    and w: "monitor_inv w" "sm_state (machines w ! k) = int i"
  have "i = 0 \<or> i = Suc 0" using i(1) by simp linarith
  then show "\<exists>w'. h k w = Some w' \<and> monitor_inv w'" using i(2) w assms(3) [OF w(1)] assms(4) [OF w(1)] by auto
qed (use assms in simp_all)

lemma opensbi_monitored: "state_machine opensbi_service 8 (monitor_inv :: 'a top_world_scheme \<Rightarrow> bool)"
  unfolding opensbi_service_def
proof (rule two_state_monitored)
  fix w :: "'a top_world_scheme"
  assume w: "monitor_inv w" "sm_state (machines w ! 8) = 0"
  have "monitor_inv (w\<lparr>sbi_impid := x\<rparr>)" for x
    by (rule monitor_cong [OF w(1)]) (use w in \<open>auto simp: monitor_inv_def ipi_wf_def\<close>)
  then have "monitor_inv (set_state 8 1 (w\<lparr>sbi_impid := x\<rparr>))" for x by (rule monitor_set_state) (simp_all add: service_states_def)
  then show "\<exists>w'. opensbi_init_handler 8 w = Some w' \<and> monitor_inv w'" using w(2) by (simp add: opensbi_init_handler_def)
qed (simp_all add: services_def service_states_def opensbi_idle_handler_def)

lemma scrub_chunk_frame:
  "scrub_chunk w = Some w1 \<Longrightarrow> \<exists>a b c. w1 = w\<lparr>scrub_idx := a, scrub_offset := b, scrub_reads := c\<rparr>"
  by (cases w) (auto simp: scrub_chunk_def Let_def Option.bind_eq_Some_conv split: if_splits)

lemma ram_bounds_next [simp]:
  "ram_base i (w\<lparr>scrub_idx := a, scrub_offset := b\<rparr>) = ram_base i w"
  "ram_end i (w\<lparr>scrub_idx := a, scrub_offset := b\<rparr>) = ram_end i w"
  by (simp_all add: ram_base_def ram_end_def)

text \<open>At the end of a region the scrubber goes on with the next one.\<close>

lemma scrub_chunk_next:
  assumes "ram_base (scrub_idx w) w + scrub_offset w \<ge> ram_end (scrub_idx w) w"
    and i: "(scrub_idx w + 1) mod length (rams w) = i" and w': "w' = w\<lparr>scrub_idx := i, scrub_offset := 0\<rparr>"
  shows "ram_base (scrub_idx w') w' = ram_end (scrub_idx w') w' \<Longrightarrow> scrub_chunk w = Some w'"
    and "ram_base (scrub_idx w') w' < ram_end (scrub_idx w') w' \<Longrightarrow> scrub_chunk w = scrub_chunk w'"
  using assms(1) unfolding w' scrub_chunk_def Let_def i by (simp_all add: not_le [symmetric])

lemma region_pos: "region i n w \<Longrightarrow> 0 < n \<Longrightarrow> ram_base i w < ram_end i w"
proof -
  assume r: "region i n w" "0 < n"
  then have "unat (ram_base i w + of_nat (8 * n)) = unat (ram_base i w) + 8 * n" by (intro unat_plus_nowrap) (simp add: region_def)
  then show ?thesis using r by (simp add: region_def word_less_nat_alt)
qed

lemma scrub_chunk_total:
  assumes s: "scrub_inv w"
  shows "\<exists>w1. scrub_chunk w = Some w1 \<and> scrub_inv w1"
proof -
  obtain n j where nj: "region (scrub_idx w) n w" "scrub_offset w = of_nat (8 * j)" "j \<le> n"
    using s by (auto simp: scrub_inv_def)
  have regions: "\<forall>i<length (rams w). \<exists>n. region i n w" and peer: "last_peer w \<in> {1..4}" using s by (auto simp: scrub_inv_def)
  have within: "\<exists>w1. scrub_chunk v = Some w1 \<and> scrub_inv w1"
    if v: "region (scrub_idx v) n v" "scrub_offset v = of_nat (8 * j)" "j < n" and f: "rams v = rams w" "last_peer v = last_peer w"
    for v :: "'a scrub_world_scheme" and n j
  proof -
    from scrub_chunk_within [OF v(1) refl v(2,3)] obtain w1 where w1: "scrub_chunk v = Some w1" "last_peer w1 = last_peer v"
      "rams w1 = rams v" "scrub_idx w1 = scrub_idx v" "scrub_offset w1 = of_nat (8 * min n (j + 512))"
      by (auto simp: scrub_pos_def)
    have "region i k w1 = region i k v" "region i k v = region i k w" for i k using region_cong w1(3) f(1) by blast+
    then have r: "region i k w1 = region i k w" for i k by blast
    have "region (scrub_idx v) n w1" using v(1) w1(3) region_cong by blast
    then have "\<exists>n j. region (scrub_idx w1) n w1 \<and> scrub_offset w1 = of_nat (8 * j) \<and> j \<le> n"
      using w1(4,5) by (intro exI [of _ n] exI [of _ "min n (j + 512)"]) simp
    moreover have "scrub_idx w1 < length (rams w1)" using v(1) w1(3,4) by (simp add: region_def)
    ultimately have "scrub_inv w1" unfolding scrub_inv_def using r regions peer f w1(2,3) by simp
    then show ?thesis using w1(1) by blast
  qed
  show ?thesis
  proof (cases "j < n")
    case True
    then show ?thesis using within [OF nj(1,2)] by blast
  next
    case False
    let ?w = "w\<lparr>scrub_idx := (scrub_idx w + 1) mod length (rams w), scrub_offset := 0\<rparr>"
    have end_reached: "ram_base (scrub_idx w) w + scrub_offset w \<ge> ram_end (scrub_idx w) w" using False nj by (simp add: region_def)
    have "0 < length (rams w)" using nj(1) by (auto simp: region_def)
    then have "scrub_idx ?w < length (rams w)" by simp
    then obtain k where k: "region (scrub_idx ?w) k w" using regions by blast
    then have r: "region (scrub_idx ?w) k ?w" by (simp add: region_def)
    show ?thesis
    proof (cases "k = 0")
      case True
      have "\<exists>n j. region (scrub_idx ?w) n ?w \<and> scrub_offset ?w = of_nat (8 * j) \<and> j \<le> n"
        using r by (intro exI [of _ k] exI [of _ 0]) simp
      then have "scrub_inv ?w" unfolding scrub_inv_def using r regions peer by (simp add: region_def)
      then show ?thesis using scrub_chunk_next(1) [OF end_reached refl refl] r True by (auto simp: region_def)
    next
      case False
      then show ?thesis
        using within [OF r, of 0] region_pos [OF r] scrub_chunk_next(2) [OF end_reached refl refl] by simp
    qed
  qed
qed

lemma monitor_scrub:
  assumes w: "monitor_inv w" and w': "w' = w\<lparr>scrub_idx := a, scrub_offset := b, scrub_reads := c\<rparr>" "scrub_inv w'"
  shows "monitor_inv w'"
  using assms devices_cong [of w' w] by (simp add: monitor_inv_def ipi_wf_def)

lemma scrub_caches_monitored:
  fixes w :: "'a top_world_scheme"
  assumes w: "monitor_inv w"
  shows "\<exists>w'. scrub_caches w = Some w' \<and> monitor_inv w'"
proof (cases "trigger_cache_flush w > SCRUB_CACHES_TRIGGER_SETPOINT")
  case True
  have peer: "last_peer w \<in> {1..4}" and wf: "ipi_wf w" using w by (auto simp: monitor_inv_def scrub_inv_def)
  have p: "peers 0 (last_peer w)" "IPI_MSG_SCRUB \<noteq> IPI_MSG_NO_MESSAGE" using peer by (auto simp: peers_def)
  obtain b w1 where w1: "IPI_Send 0 (last_peer w) IPI_MSG_SCRUB 0 0 0 0 w = Some (b, w1)" "ipi_wf w1"
    using send_total [OF wf p, of 0 0 0 0] by blast
  have i1: "monitor_inv w1" by (rule monitor_send [OF w w1]) simp
  have lp: "last_peer w1 = last_peer w" using top_more [OF IPI_Send_more [OF w1(1)]] by simp
  have peer1: "last_peer w1 \<in> {1..4}" using i1 by (auto simp: monitor_inv_def scrub_inv_def)
  have moved: "monitor_inv v" if "rams v = rams w1" "scrub_idx v = scrub_idx w1" "scrub_offset v = scrub_offset w1"
    "last_peer v \<in> {1..4}" "ipi_wf v" "ipi_queues v = ipi_queues w1" "machines v = machines w1" "init_index v = init_index w1" "device_data v = device_data w1" for v :: "'a top_world_scheme"
    using i1 that region_cong [of v w1] devices_cong [of v w1] by (simp add: monitor_inv_def scrub_inv_def)
  have wf1: "ipi_wf w1" by (rule w1(2))
  show ?thesis
  proof (cases "last_peer w1 + 1 \<ge> 5")
    case True
    have "monitor_inv ((flush_l2 (w1\<lparr>trigger_cache_flush := 0, last_peer := last_peer w1 + 1\<rparr>))\<lparr>last_peer := HSS_HART_U54_1\<rparr>)"
      by (rule moved) (use wf1 in \<open>simp_all add: flush_l2_def ipi_wf_def Let_def\<close>)
    then show ?thesis using True \<open>trigger_cache_flush w > _\<close> w1(1) by (simp add: scrub_caches_def Let_def)
  next
    case False
    have "monitor_inv (w1\<lparr>trigger_cache_flush := 0, last_peer := last_peer w1 + 1\<rparr>)"
      by (rule moved) (use wf1 peer1 False in \<open>simp_all add: ipi_wf_def\<close>)
    then show ?thesis using False \<open>trigger_cache_flush w > _\<close> w1(1) by (simp add: scrub_caches_def Let_def)
  qed
next
  case False
  have "monitor_inv (w\<lparr>trigger_cache_flush := trigger_cache_flush w + 1\<rparr>)"
    by (rule monitor_cong [OF w]) (use w in \<open>auto simp: monitor_inv_def ipi_wf_def\<close>)
  then show ?thesis using False by (simp add: scrub_caches_def)
qed

lemma scrub_monitored: "state_machine scrub_service 10 (monitor_inv :: 'a top_world_scheme \<Rightarrow> bool)"
  unfolding scrub_service_def
proof (rule two_state_monitored)
  fix w :: "'a top_world_scheme"
  assume w: "monitor_inv w"
  show "\<exists>w'. scrub_init_handler 10 w = Some w' \<and> monitor_inv w'" if "sm_state (machines w ! 10) = 0"
    using w that by (auto simp: scrub_init_handler_def service_states_def intro: monitor_set_state)
  have "\<exists>w1. (if length (rams w) \<noteq> 0 \<and> entryCount w = 0 then scrub_chunk w else Some w) = Some w1 \<and> monitor_inv w1"
  proof (cases "length (rams w) \<noteq> 0 \<and> entryCount w = 0")
    case True
    obtain w1 where w1: "scrub_chunk w = Some w1" "scrub_inv w1"
      using scrub_chunk_total [of w] w by (auto simp: monitor_inv_def)
    then have "monitor_inv w1" using scrub_chunk_frame [OF w1(1)] monitor_scrub [OF w] by blast
    then show ?thesis using True w1(1) by auto
  qed (use w in auto)
  then obtain w1 where w1: "(if length (rams w) \<noteq> 0 \<and> entryCount w = 0 then scrub_chunk w else Some w) = Some w1" "monitor_inv w1"
    by blast
  obtain w2 where w2: "scrub_caches w1 = Some w2" "monitor_inv w2" using scrub_caches_monitored [OF w1(2)] by blast
  have "monitor_inv (w2\<lparr>entryCount := n\<rparr>)" for n
    by (rule monitor_cong [OF w2(2)]) (use w2(2) in \<open>auto simp: monitor_inv_def ipi_wf_def\<close>)
  then show "\<exists>w'. scrub_scrubbing_handler 10 w = Some w' \<and> monitor_inv w'"
    using w1 w2 by (simp add: scrub_scrubbing_handler_def)
qed (simp_all add: services_def service_states_def)

lemma healthmon_monitored: "state_machine (healthmon_service monitors) 12 (monitor_inv :: 'a top_world_scheme \<Rightarrow> bool)"
  unfolding healthmon_service_def
proof (rule two_state_monitored)
  fix w :: "'a top_world_scheme"
  assume w: "monitor_inv w"
  have "monitor_inv (set_state 12 1 w)" by (rule monitor_set_state [OF w]) (simp_all add: service_states_def)
  then show "\<exists>w'. healthmon_init_handler 12 w = Some w' \<and> monitor_inv w'" using w by (simp add: healthmon_init_handler_def)
  have l: "length (monitor_status w) = length (monitors :: 'a top_world_scheme HealthMonitor list)"
    using w by (simp add: monitor_inv_def devices_ok_def length_monitors)
  obtain t sts r rs where h: "healthmon_monitoring_handler monitors 12 w = Some (health_moved t sts r (health_reports w @ rs) w)"
    "length sts = length (monitors :: 'a top_world_scheme HealthMonitor list)" by (rule health_pass [OF monitors_plain l, of 12])
  have "monitor_inv (health_moved t sts r (health_reports w @ rs) w)"
    using w h(2) scrub_inv_cong [of "health_moved t sts r (health_reports w @ rs) w" w]
    by (simp add: monitor_inv_def devices_ok_def beu_ok_def health_moved_def ipi_wf_def length_monitors)
  then show "\<exists>w'. healthmon_monitoring_handler monitors 12 w = Some w' \<and> monitor_inv w'" using h(1) by simp
qed (simp_all add: services_def service_states_def)

text \<open>What the bus error monitor moves.\<close>

lemma beu_frame:
  assumes "\<And>w. P w \<Longrightarrow> \<forall>h\<in>set hs. P (f h w)" "P w"
  shows "P (fold f hs w)"
  using assms by (induction hs arbitrary: w) auto

lemma monitor_devices:
  assumes "monitor_inv w" "devices_ok w'" "ipi_wf w'" "ipi_queues w' = ipi_queues w" "machines w' = machines w" "rams w' = rams w" "scrub_idx w' = scrub_idx w"
    "scrub_offset w' = scrub_offset w" "last_peer w' = last_peer w" "init_index w' = init_index w"
  shows "monitor_inv w'"
  using assms scrub_inv_cong [of w' w] by (simp add: monitor_inv_def)

lemma beu_update_monitored: "monitor_inv w \<Longrightarrow> monitor_inv (beu_update h f w)"
  by (rule monitor_devices [of w]) (auto simp: monitor_inv_def devices_ok_def beu_ok_def beu_update_def ipi_wf_def)

lemma beu_check_monitored:
  assumes "monitor_inv w" "h < 5"
  shows "monitor_inv (beu_check_hart h w)"
proof -
  have ok: "beu_ok w" "devices_ok w" "ipi_wf w" using assms(1) by (auto simp: monitor_inv_def devices_ok_def)
  show ?thesis unfolding check_hart [OF ok(1) assms(2)]
    using assms(1) ok(2,3) by (auto intro!: monitor_devices [of w] simp: devices_ok_def beu_ok_def ipi_wf_def)
qed

lemma beu_monitored: "state_machine beu_service 11 (monitor_inv :: 'a top_world_scheme \<Rightarrow> bool)"
  unfolding beu_service_def
proof (rule two_state_monitored)
  fix w :: "'a top_world_scheme"
  assume w: "monitor_inv w"
  let ?f = "\<lambda>h. beu_update h (\<lambda>r. r\<lparr>beu_ACCRUED := 0, beu_VALUE := 0, beu_ENABLE := BEU_ENABLE_MASK\<rparr>)"
  have kept: "monitor_inv (fold ?f hs u) \<and> machines (fold ?f hs u) = machines u" if "monitor_inv u" for hs and u :: "'a top_world_scheme"
    using that by (induction hs arbitrary: u) (auto simp: beu_update_monitored, simp add: beu_update_def)
  show "\<exists>w'. beu_init_handler 11 w = Some w' \<and> monitor_inv w'" if "sm_state (machines w ! 11) = 0"
    unfolding beu_init_handler_def that using kept [OF w] by (auto intro!: monitor_set_state simp: service_states_def)
  have "monitor_inv (fold beu_check_hart hs u)" if "monitor_inv u" "\<forall>h\<in>set hs. h < 5" for hs and u :: "'a top_world_scheme"
    using that by (induction hs arbitrary: u) (auto simp: beu_check_monitored)
  then show "\<exists>w'. beu_monitoring_handler 11 w = Some w' \<and> monitor_inv w'"
    using w by (simp add: beu_monitoring_handler_def)
qed (simp_all add: services_def service_states_def)

lemma wdog_init_monitored:
  fixes w :: "'a top_world_scheme"
  assumes "monitor_inv w" "\<forall>h\<in>set hs. h < 5"
  shows "\<exists>w'. wdog_init_times hs w = Some w' \<and> monitor_inv w'"
  using assms
proof (induction hs arbitrary: w)
  case Nil
  then show ?case by simp
next
  case (Cons h hs)
  let ?w = "if bit (wdog_hartBitmask w) h
    then w\<lparr>time_reads := time_reads w + 1, wdogInitTime := (wdogInitTime w)[h := mtime w (time_reads w)]\<rparr> else w"
  have l: "length (wdogInitTime w) = 5" using Cons.prems(1) by (simp add: monitor_inv_def devices_ok_def)
  have "monitor_inv (w\<lparr>time_reads := time_reads w + 1, wdogInitTime := (wdogInitTime w)[h := mtime w (time_reads w)]\<rparr>)"
    by (rule monitor_devices [OF Cons.prems(1)]; use Cons.prems(1) in \<open>simp add: monitor_inv_def devices_ok_def beu_ok_def ipi_wf_def\<close>)
  then have "monitor_inv ?w" using Cons.prems(1) by simp
  moreover have "(if bit (wdog_hartBitmask w) h then HSS_Wdog_Init_Time h w else Some w) = Some ?w"
    using l Cons.prems(2) by (simp add: HSS_Wdog_Init_Time_def HSS_GetTime_def)
  ultimately show ?case using Cons.IH [of ?w] Cons.prems(2) by simp
qed

lemma wdog_monitored: "state_machine wdog_service 5 (monitor_inv :: 'a top_world_scheme \<Rightarrow> bool)"
proof (rule monitor_machine_plain)
  let ?d = "wdog_service :: 'a top_world_scheme MachineDesc"
  show "plain_machine ?d" by (auto simp: plain_machine_def wdog_service_def less_Suc_eq)
  show "5 \<in> services" "service_states 5 \<le> int (length (pStateDescs ?d))"
    by (simp_all add: services_def service_states_def wdog_service_def)
  fix w :: "'a top_world_scheme" and i and h :: "'a top_world_scheme sm_handler"
  assume i: "i < length (pStateDescs ?d)" "state_handler (pStateDescs ?d ! i) = Some h" and w: "monitor_inv w"
  have moved: "monitor_inv (set_state 5 st u)" if "monitor_inv u" "st \<in> {1, 2}" for st and u :: "'a top_world_scheme"
    using that by (intro monitor_set_state) (auto simp: service_states_def)
  have l: "length (wdogInitTime w) = 5" using w by (simp add: monitor_inv_def devices_ok_def)
  have quiet: "monitor_inv (w\<lparr>time_reads := a, wdog_lastEntryTime := b, wdog_log := c, reg_reads := d\<rparr>)"
    "monitor_inv (w\<lparr>time_reads := a, wdog_log := c, reg_reads := d\<rparr>)"
    "monitor_inv (w\<lparr>wdog_log := c, reg_reads := d\<rparr>)"
    "monitor_inv (w\<lparr>time_reads := a, wdog_lastEntryTime := b, reg_reads := d, wdog_log := c\<rparr>)"
    "monitor_inv (w\<lparr>time_reads := a, reg_reads := d, wdog_log := c\<rparr>)"
    "monitor_inv (w\<lparr>reg_reads := d, wdog_log := c\<rparr>)"
    "monitor_inv (w\<lparr>time_reads := a, reg_reads := d\<rparr>)" "monitor_inv (w\<lparr>reg_reads := d\<rparr>)"
    "monitor_inv (w\<lparr>time_reads := a, wdog_lastEntryTime := b, reg_reads := d\<rparr>)" for a b c d
    by (rule monitor_devices [OF w]; use w in \<open>simp add: monitor_inv_def devices_ok_def beu_ok_def ipi_wf_def\<close>)+
  obtain v where v: "wdog_init_times [1, 2, 3, 4] w = Some v" "monitor_inv v"
    using wdog_init_monitored [OF w, of "[1, 2, 3, 4]"] by auto
  then have idle: "\<exists>w'. wdog_idle_handler 5 w = Some w' \<and> monitor_inv w'"
    using w moved [OF v(2)] by (simp add: wdog_idle_handler_def del: wdog_init_times.simps)
  have mon: "\<exists>w'. wdog_monitoring_handler 5 w = Some w' \<and> monitor_inv w'"
  proof (cases "wdog_hartBitmask w \<noteq> 0")
    case True
    then show ?thesis using quiet l
      by (simp add: wdog_monitoring_handler_def HSS_Timer_IsElapsed_def HSS_GetTime_def HSS_Wdog_DumpStats_def Let_def)
  next
    case False
    then show ?thesis using quiet by (simp add: wdog_monitoring_handler_def)
  qed
  have "h = wdog_init_handler \<or> h = wdog_idle_handler \<or> h = wdog_monitoring_handler"
    using i by (auto simp: wdog_service_def less_Suc_eq)
  then show "\<exists>w'. h 5 w = Some w' \<and> monitor_inv w'"
    using idle mon moved [OF w] by (auto simp: wdog_init_handler_def HSS_Wdog_E51_Tickle_def)
qed

text \<open>The telemetry service keeps to its own data.\<close>

lemma monitor_rest:
  assumes w: "monitor_inv w" and rest: "tm_rest w' = tm_rest w" and ready: "adcs_ready w'"
  shows "monitor_inv w'"
proof -
  define F where "F v = (ipi_wf v, ipi_queues v, machines v, (rams v, scrub_idx v, scrub_offset v, last_peer v), init_index v,
    monitor_status v, (beu_regs v, beu_counters v, shadow_value v, shadow_accrued v), wdogInitTime v, sgdma_i v)" for v :: "'a top_world_scheme"
  have "F (tm_rest v) = F v" for v by (simp add: F_def tm_rest_def ipi_wf_def)
  then have "F w' = F w" using rest by metis
  then show ?thesis
    using w ready scrub_inv_cong [of w' w] by (simp add: F_def monitor_inv_def devices_ok_def beu_ok_def adcs_ready_def)
qed

lemma tm_monitored:
  assumes "text_fits txt"
  shows "state_machine (tm_service txt) 13 (monitor_inv :: 'a top_world_scheme \<Rightarrow> bool)"
  unfolding tm_service_def
proof (rule two_state_monitored)
  fix w :: "'a top_world_scheme"
  assume w: "monitor_inv w"
  then have ready: "adcs_ready w" by (simp add: monitor_inv_def devices_ok_def adcs_ready_def)
  show "\<exists>w'. tm_init_handler 13 w = Some w' \<and> monitor_inv w'" if z: "sm_state (machines w ! 13) = 0"
  proof -
    obtain v where v: "tm_init_handler 13 w = Some (set_state 13 1 v)" "tm_rest v = tm_rest w" "adcs_ready v"
      using tm_init_total [OF ready, of 13] unfolding z by auto
    have "monitor_inv (set_state 13 1 v)"
      by (rule monitor_set_state [OF monitor_rest [OF w v(2,3)]]) (simp_all add: service_states_def)
    then show ?thesis using v(1) by blast
  qed
  show "\<exists>w'. tm_monitoring_handler txt 13 w = Some w' \<and> monitor_inv w'"
    using tm_monitoring_total [OF ready assms, of 13] monitor_rest [OF w] by blast
qed (simp_all add: services_def service_states_def)

text \<open>
  What the monitor relies on of the board's own initialisers: they keep its invariant and
  neither move the startup service nor its counter.
\<close>

definition board_safe :: "(string \<Rightarrow> 'a top_world_scheme \<Rightarrow> bool \<times> 'a top_world_scheme) \<Rightarrow> bool" where
  "board_safe board \<longleftrightarrow> (\<forall>f w. monitor_inv w \<longrightarrow> monitor_inv (snd (board f w))
     \<and> machines (snd (board f w)) = machines w \<and> init_index (snd (board f w)) = init_index w)"

lemma initialiser_safe:
  fixes w :: "'a top_world_scheme"
  assumes "board_safe board" "monitor_inv w" "i < 10"
  shows "\<exists>f h r w1. nth_opt (globalInitFunctions board) i = Some f \<and> if_handler f = Some h \<and> \<not> haltOnFailure f
    \<and> \<not> restartOnFailure f \<and> h w = Some (r, w1) \<and> monitor_inv w1 \<and> machines w1 = machines w \<and> init_index w1 = init_index w"
proof -
  have "ipi_wf (snd (IPI_QueuesInit w))" by (rule ipi_wf_QueuesInit) (use assms(2) in \<open>simp add: monitor_inv_def ipi_wf_def\<close>)
  then have q: "monitor_inv (snd (IPI_QueuesInit w))" "machines (snd (IPI_QueuesInit w)) = machines w"
    "init_index (snd (IPI_QueuesInit w)) = init_index w"
    using monitor_bus [OF assms(2)] top_more [of "snd (IPI_QueuesInit w)" w]
    by (simp_all add: IPI_QueuesInit_def no_sgdma_def zero_queue_def zero_msg_def)
  obtain qr qs where qi: "IPI_QueuesInit w = (qr, qs)" by (cases "IPI_QueuesInit w")
  define g where "g h = \<lparr> if_handler = Some h, haltOnFailure = False, restartOnFailure = False \<rparr>" for h :: "'a top_world_scheme \<Rightarrow> (bool \<times> 'a top_world_scheme) option"
  have b: "\<exists>r w1. Some (board f w) = Some (r, w1) \<and> monitor_inv w1 \<and> machines w1 = machines w \<and> init_index w1 = init_index w" for f
    using assms(1,2) by (cases "board f w") (auto simp: board_safe_def dest!: spec [of _ f] spec [of _ w])
  have "\<exists>h r w1. nth_opt (globalInitFunctions board) i = Some (g h) \<and> h w = Some (r, w1) \<and> monitor_inv w1
      \<and> machines w1 = machines w \<and> init_index w1 = init_index w"
  proof -
    let ?hs = "[\<lambda>w. Some (IPI_QueuesInit w), \<lambda>w. Some (HSS_PMP_Init w)] @ map (\<lambda>f w. Some (board f w))
      [''HSS_BoardInit'', ''HSS_E51_Banner'', ''Device_Serial_Number_Init'', ''HSS_DDRPrintSegConfig'',
       ''HSS_DDRPrintL2CacheWaysConfig'', ''HSS_ResetReasonInit'', ''Design_Version_Info_Init'', ''HSS_BoardLateInit'']"
    have "nth_opt (globalInitFunctions board) i = Some (g (?hs ! i))"
      using assms(3) by (simp add: globalInitFunctions_def g_def nth_opt_def nth_Cons split: nat.splits)
    moreover have "\<exists>r w1. h w = Some (r, w1) \<and> monitor_inv w1 \<and> machines w1 = machines w \<and> init_index w1 = init_index w"
      if "h \<in> set ?hs" for h
      using that b q assms(2) unfolding qi by (auto simp: HSS_PMP_Init_def qi)
    moreover have "?hs ! i \<in> set ?hs" using assms(3) by (intro nth_mem) simp
    ultimately show ?thesis by blast
  qed
  then show ?thesis by (auto simp: g_def)
qed

lemma monitor_started: "monitor_inv w \<Longrightarrow> monitor_inv (HSS_Trigger_Notify EVENT_STARTUP_COMPLETE w)"
  by (rule monitor_cong [of w]) (simp_all add: monitor_inv_def ipi_wf_def)

lemma startup_monitored:
  assumes "board_safe board"
  shows "state_machine (startup_service cli (globalInitFunctions board)) 14 (monitor_inv :: 'a top_world_scheme \<Rightarrow> bool)"
proof (rule monitor_machine_plain)
  let ?d = "startup_service cli (globalInitFunctions board)"
  show "plain_machine ?d" by (auto simp: plain_machine_def startup_service_def less_Suc_eq)
  show "14 \<in> services" "service_states 14 \<le> int (length (pStateDescs ?d))"
    by (simp_all add: services_def service_states_def startup_service_def)
  fix w :: "'a top_world_scheme" and i and h :: "'a top_world_scheme sm_handler"
  assume i: "i < length (pStateDescs ?d)" "state_handler (pStateDescs ?d ! i) = Some h" and w: "monitor_inv w"
    and st: "sm_state (machines w ! 14) = int i"
  have "i = 0 \<and> h = startup_init_handler cli (globalInitFunctions board) \<or> h = startup_boot_handler \<or> h = startup_idle_handler"
    using i by (auto simp: startup_service_def less_Suc_eq)
  moreover have "\<exists>w'. startup_init_handler cli (globalInitFunctions board) 14 w = Some w' \<and> monitor_inv w'" if "i = 0"
  proof -
    have "init_index w < 10" using w by (simp add: monitor_inv_def)
    from initialiser_safe [OF assms w this] obtain f k r w1 where
      f: "nth_opt (globalInitFunctions board) (init_index w) = Some f" "if_handler f = Some k" "\<not> haltOnFailure f"
        "\<not> restartOnFailure f" "k w = Some (r, w1)" and w1: "monitor_inv w1" "machines w1 = machines w" "init_index w1 = init_index w"
      by blast
    have l: "length (globalInitFunctions board) = 10" by (simp add: globalInitFunctions_def)
    have "monitor_inv (set_state 14 1 w1)" by (rule monitor_set_state [OF w1(1)]) (simp_all add: service_states_def)
    then have "monitor_inv (HSS_Trigger_Notify EVENT_STARTUP_COMPLETE (set_state 14 1 w1))" by (rule monitor_started)
    moreover have "monitor_inv (w1\<lparr>init_index := Suc (init_index w1)\<rparr>)" if "init_index w1 < 9"
      using w1(1) that scrub_inv_cong [of "w1\<lparr>init_index := Suc (init_index w1)\<rparr>" w1]
        devices_cong [of "w1\<lparr>init_index := Suc (init_index w1)\<rparr>" w1] by (simp add: monitor_inv_def ipi_wf_def)
    ultimately show ?thesis using f w1 st that by (simp add: startup_init_handler_def l)
  qed
  ultimately show "\<exists>w'. h 14 w = Some w' \<and> monitor_inv w'" using w by (auto simp: startup_boot_handler_def startup_idle_handler_def)
qed

lemma monitor_table:
  assumes "board_safe board" "text_fits txt"
  shows "\<forall>(k, d) \<in> set (filter (\<lambda>(k, d). k \<in> services)
      (pGlobalStateMachines tinycli txt (startup_service cli (globalInitFunctions board)) (ipiRegistry nwc HSS_HART_E51))).
    state_machine d k (monitor_inv :: 'a top_world_scheme \<Rightarrow> bool)"
proof -
  have "[0..<15] = [0, 1, 2, 3, 4, 5, 6, 7, 8, 9, 10, 11, 12, 13, 14]" by (simp add: upt_conv_Cons)
  then show ?thesis
    by (simp add: pGlobalStateMachines_def services_def poll_monitored sgdma_monitored ddr_monitored opensbi_monitored scrub_monitored
        healthmon_monitored beu_monitored wdog_monitored tm_monitored [OF assms(2)] startup_monitored [OF assms(1)])
qed

text \<open>The scheduler's own fields are outside the invariant.\<close>

lemma monitor_scheduler: "monitor_inv w \<Longrightarrow> monitor_inv (w\<lparr>loopCount := a\<rparr>)"
  "monitor_inv w \<Longrightarrow> monitor_inv (w\<lparr>maxLoopTime := b\<rparr>)" "monitor_inv w \<Longrightarrow> monitor_inv (w\<lparr>reportingFlag := c\<rparr>)"
  by (rule monitor_cong [of w]; simp add: monitor_inv_def ipi_wf_def)+

lemma super_loop_once:
  assumes ms: "\<forall>(k, d) \<in> set ms. state_machine d k (monitor_inv :: 'a top_world_scheme \<Rightarrow> bool)" and w: "monitor_inv w"
  shows "\<exists>w'. RunStateMachines True True reg me ms w = Some w' \<and> monitor_inv w'"
proof -
  obtain w3 where w3: "RunMachineList ms (snd (HSS_GetTickCount w)) = Some w3" "monitor_inv w3"
    using run_list_safe [OF ms, of "snd (HSS_GetTickCount w)"] w by (auto simp: HSS_GetTickCount_def intro: monitor_clock)
  then show ?thesis
    using w by (auto simp: RunStateMachines_def HSS_GetTickCount_def Let_def HSS_U54_DumpStatesIfChanged_def
        intro!: monitor_scheduler monitor_clock)
qed

text \<open>
  C4.  The super loop is safe over ten of the fifteen services of the reference configuration:
  message polling, watchdogs, scatter-gather, DDR training, OpenSBI, the scrubber, bus errors, health,
  telemetry and startup; the four boot machines and the command line are left out of the
  table that is run.  As long as no request for a scatter-gather copy is pending, any number of rounds runs to
  its end, without a failed assertion and without an access outside a table or a queue,
  and keeps the message bus well formed, every service in one of its states and the
  scrubber inside its regions, whatever the other messages, the clock and the registers are,
  provided that the board's initialisers keep this invariant and the text of a telemetry
  report fits its buffer.
\<close>

theorem monitor_loop_safe:
  assumes "board_safe board" "text_fits tm_text" "monitor_inv w"
    and "ms = filter (\<lambda>(k, d). k \<in> services)
      (pGlobalStateMachines tinycli tm_text (startup_service cli (globalInitFunctions board)) (ipiRegistry nwc HSS_HART_E51))"
  shows "\<exists>w'. hss_main_loop n reg ms w = Some w' \<and> monitor_inv w'"
  using assms(3)
proof (induction n arbitrary: w)
  case (Suc n)
  then show ?case
    using super_loop_once [OF monitor_table [OF assms(1,2), of tinycli cli nwc] Suc.prems, of reg HSS_HART_E51]
    unfolding assms(4) by auto
qed simp

definition monitor_demo :: "'a top_world_scheme \<Rightarrow> 'a top_world_scheme" where
  "monitor_demo w = (scrub_demo w)\<lparr>machines := replicate 15 (initial_machine 0), monitor_status := monitor_status_reset,
     beu_regs := replicate 5 \<lparr>beu_ENABLE = 0, beu_ACCRUED = 0, beu_VALUE = 0\<rparr>, beu_counters := replicate 5 0,
     shadow_accrued := replicate 5 0, shadow_value := replicate 5 0, wdogInitTime := replicate 5 0, sgdma_i := 1,
     ADCs := replicate 2 \<lparr>adc_address = 0, adc_ctrl = 0, adc_old_ctrl = 0, adc_tel = []\<rparr>, init_index := 0\<rparr>"

lemma monitor_demo_inv: "monitor_inv (monitor_demo w)"
proof -
  have "ipi_wf (scrub_demo w)"
    using ipi_wf_QueuesInit [of "w\<lparr>MSIP := replicate 5 0\<rparr>"] by (simp add: scrub_demo_def ipi_wf_def)
  moreover have "no_sgdma (ipi_queues (scrub_demo w))"
    by (simp add: no_sgdma_def scrub_demo_def IPI_QueuesInit_def zero_queue_def zero_msg_def)
  moreover have "table_ok (replicate 15 (initial_machine 0))"
    by (auto simp: table_ok_def services_def service_states_def initial_machine_def)
  moreover have "region 0 513 (monitor_demo w)"
    by (simp add: monitor_demo_def scrub_demo_def region_def ram_base_def ram_end_def)
  then have "scrub_inv (monitor_demo w)"
    using exI [of "\<lambda>n. region 0 n (monitor_demo w)" 513] exI [of "\<lambda>j. 0 = (of_nat (8 * j) :: u64) \<and> j \<le> 513" 0]
    by (auto simp: scrub_inv_def monitor_demo_def scrub_demo_def)
  moreover have "devices_ok (monitor_demo w)"
    by (simp add: devices_ok_def beu_ok_def monitor_demo_def monitor_status_reset_def length_monitors)
  ultimately show ?thesis by (simp add: monitor_inv_def monitor_demo_def ipi_wf_def)
qed

theorem monitor_loop_safe_witness:
  "\<forall>w :: top_world. \<exists>w'. hss_main_loop 1000 [] (filter (\<lambda>(k, d). k \<in> services)
      (pGlobalStateMachines scrub_service (\<lambda>_ _. []) (startup_service id (globalInitFunctions (\<lambda>_. Pair True)))
        (ipiRegistry (Pair 0) HSS_HART_E51))) (monitor_demo w) = Some w' \<and> monitor_inv w'"
proof
  fix w :: top_world
  have b: "board_safe (\<lambda>_. Pair True :: top_world \<Rightarrow> _)" by (simp add: board_safe_def)
  have t: "text_fits (\<lambda>_ _. [])" by (simp add: text_fits_def)
  from monitor_loop_safe [OF b t monitor_demo_inv refl, where reg = "[]" and n = 1000 and tinycli = scrub_service
      and cli = id and nwc = "Pair 0"]
  show "\<exists>w'. hss_main_loop 1000 [] (filter (\<lambda>(k, d). k \<in> services)
      (pGlobalStateMachines scrub_service (\<lambda>_ _. []) (startup_service id (globalInitFunctions (\<lambda>_. Pair True)))
        (ipiRegistry (Pair 0) HSS_HART_E51))) (monitor_demo w) = Some w' \<and> monitor_inv w'" .
qed

subsection \<open>The startup service\<close>

definition ignores_counter :: "'a top_world_scheme InitFunction \<Rightarrow> bool" where
  "ignores_counter f \<longleftrightarrow> (\<forall>h. if_handler f = Some h \<longrightarrow>
     (\<forall>w k. h (w\<lparr>init_index := k\<rparr>) = map_option (map_prod id (init_index_update (\<lambda>_. k))) (h w)))"

definition startup_done :: "nat \<Rightarrow> nat \<Rightarrow> 'a top_world_scheme \<Rightarrow> 'a top_world_scheme" where
  "startup_done m n w = HSS_Trigger_Notify EVENT_STARTUP_COMPLETE
     (set_state m (sm_state (machines w ! m) + 1) (w\<lparr>init_index := n\<rparr>))"

lemma startup_step:
  assumes "k < length fs" "\<not> haltOnFailure (fs ! k)" "\<not> restartOnFailure (fs ! k)" "ignores_counter (fs ! k)"
  shows "startup_init_handler cli fs m (w\<lparr>init_index := k\<rparr>) = do {
     h \<leftarrow> if_handler (fs ! k);
     (r, v) \<leftarrow> h w;
     Some (if k < length fs - 1 then v\<lparr>init_index := Suc k\<rparr> else startup_done m k v)
   }"
  using assms by (cases "if_handler (fs ! k)"; cases "the (if_handler (fs ! k)) w")
    (auto simp: startup_init_handler_def nth_opt_def ignores_counter_def startup_done_def)

lemma startup_from:
  assumes "\<forall>f\<in>set fs. \<not> haltOnFailure f \<and> \<not> restartOnFailure f \<and> ignores_counter f"
  shows "k < length fs \<Longrightarrow> gs = drop k fs \<Longrightarrow>
    handle_times (length gs) (startup_init_handler cli fs) m (w\<lparr>init_index := k\<rparr>) =
      (case RunInitFunctions_from k tinycli key cli gs w of
         Some (Inr v) \<Rightarrow> Some (startup_done m (length fs - 1) v) | _ \<Rightarrow> None)"
proof (induction gs arbitrary: k w)
  case (Cons g gs)
  have g: "fs ! k = g" "gs = drop (Suc k) fs" using Cons.prems by (metis Cons_nth_drop_Suc list.inject)+
  have ok: "\<not> haltOnFailure g" "\<not> restartOnFailure g" "ignores_counter g" using assms Cons.prems(1) g(1) nth_mem [of k fs] by auto
  have first: "handle_times (length (g # gs)) H m' v = Option.bind (H m' v) (handle_times (length gs) H m')" for H m' v
    using handle_times_add [of 1 "length gs" H m' v] by simp
  have step: "startup_init_handler cli fs m (w\<lparr>init_index := k\<rparr>) = do {
     h \<leftarrow> if_handler g;
     (r, v) \<leftarrow> h w;
     Some (if k < length fs - 1 then v\<lparr>init_index := Suc k\<rparr> else startup_done m k v)
   }" using startup_step [OF Cons.prems(1), of cli m w] ok by (simp add: g(1))
  show ?case
  proof (cases "k < length fs - 1")
    case True
    then have "Suc k < length fs" by simp
    from Cons.IH [OF this g(2)] show ?thesis
      unfolding first step using True ok by (auto split: option.splits)
  next
    case False
    then have "gs = []" "length fs - 1 = k" using g(2) Cons.prems(1) by simp_all
    then show ?thesis unfolding first step using ok by (auto split: option.splits)
  qed
qed simp

text \<open>
  C22.  The startup service, which takes one initialiser per run of its handler, does what
  \<^verbatim>\<open>RunInitFunctions\<close> does in one go: each initialiser runs once and in the order of the
  table, a failure stops none of the others, a missing handler fails the assertion, and
  only after the last is the start announced and the service moved to its next state.
\<close>

theorem startup_runs_initialisers:
  assumes "fs \<noteq> []" "\<forall>f\<in>set fs. \<not> haltOnFailure f \<and> \<not> restartOnFailure f \<and> ignores_counter f"
  shows "handle_times (length fs) (startup_init_handler cli fs) m (w\<lparr>init_index := 0\<rparr>) =
    (case RunInitFunctions tinycli key cli fs w of
       Some (Inr v) \<Rightarrow> Some (startup_done m (length fs - 1) v) | _ \<Rightarrow> None)"
  unfolding RunInitFunctions_def using assms by (intro startup_from) auto

theorem startup_runs_initialisers_witness:
  "\<forall>w :: top_world. \<exists>v. handle_times 10 (startup_init_handler id (globalInitFunctions (\<lambda>_. Pair False))) 14 (w\<lparr>init_index := 0\<rparr>)
      = Some (startup_done 14 9 v) \<and> ipi_initialized v"
proof
  fix w :: top_world
  let ?fs = "globalInitFunctions (\<lambda>_. Pair False) :: top_world InitFunction list"
  have fs: "length ?fs = 10" "?fs \<noteq> []" by (simp_all add: globalInitFunctions_def)
  have "\<forall>f\<in>set ?fs. \<not> haltOnFailure f \<and> \<not> restartOnFailure f \<and> ignores_counter f"
    by (simp add: globalInitFunctions_def ignores_counter_def IPI_QueuesInit_def HSS_PMP_Init_def)
  note ok = this
  have run: "RunInitFunctions True (\<lambda>_. False) id ?fs w = Some (Inr (snd (IPI_QueuesInit w)))"
    by (simp add: globalInitFunctions_def RunInitFunctions_def IPI_QueuesInit_def HSS_PMP_Init_def)
  have "handle_times 10 (startup_init_handler id ?fs) 14 (w\<lparr>init_index := 0\<rparr>) = Some (startup_done 14 9 (snd (IPI_QueuesInit w)))"
    using startup_runs_initialisers [OF fs(2) ok, of id 14 w True "\<lambda>_. False"] unfolding fs(1) run by simp
  moreover have "ipi_initialized (snd (IPI_QueuesInit w))" by (simp add: IPI_QueuesInit_def)
  ultimately show "\<exists>v. handle_times 10 (startup_init_handler id ?fs) 14 (w\<lparr>init_index := 0\<rparr>) = Some (startup_done 14 9 v) \<and> ipi_initialized v"
    by blast
qed

subsection \<open>The dispatcher of an application hart\<close>

definition pending_of :: "hart \<Rightarrow> IPIMessagesEnum \<Rightarrow> 'a ipi_data_scheme \<Rightarrow> nat" where
  "pending_of me t w = size (filter_mset (\<lambda>m. msg_type m = t) (mailbox_of HSS_HART_E51 me w))"

lemma none_pending: "pending_of me t w = 0 \<longleftrightarrow> (\<forall>m\<in>#mailbox_of HSS_HART_E51 me w. msg_type m \<noteq> t)"
  by (auto simp: pending_of_def filter_mset_eq_mempty_iff)

lemma bus_handler_conj:
  assumes "bus_handler h ok1" "\<And>s s'. ipi_data.more s' = ipi_data.more s \<Longrightarrow> ok2 s \<Longrightarrow> ok2 s'"
    and "\<And>txid src imm ext anc s r s'. ok1 s \<Longrightarrow> ok2 s \<Longrightarrow> h txid src imm ext anc s = Some (r, s') \<Longrightarrow> ok2 s'"
  shows "bus_handler h (\<lambda>s :: 'a ipi_data_scheme. ok1 s \<and> ok2 s)"
proof
  note h = bus_handler.ok_more [OF assms(1)] bus_handler.handler_returns [OF assms(1)] bus_handler.handler_ok [OF assms(1)]
    bus_handler.handler_queues [OF assms(1)] bus_handler.handler_wf [OF assms(1)]
  fix s s' :: "'a ipi_data_scheme" and txid src imm ext anc r
  show "ok1 s' \<and> ok2 s'" if "ipi_data.more s' = ipi_data.more s" "ok1 s \<and> ok2 s" using h(1) assms(2) that by blast
  show "\<exists>r s'. h txid src imm ext anc s = Some (r, s')" if "ok1 s \<and> ok2 s" using h(2) that by blast
  assume c: "h txid src imm ext anc s = Some (r, s')"
  show "ok1 s' \<and> ok2 s'" if "ok1 s \<and> ok2 s" using h(3) assms(3) c that by blast
  show "ipi_queues s' = ipi_queues s" if "ok1 s \<and> ok2 s" using h(4) c that by blast
  show "ipi_wf s'" if "ipi_wf s" "ok1 s \<and> ok2 s" using h(5) c that by blast
qed

text \<open>One call serves one message of its type.\<close>

lemma consume_counts:
  assumes h: "bus_handler h I" and w: "ipi_wf w" "I w" "peers HSS_HART_E51 me" and reg: "registry_lookup reg t = Some (Some h)"
    and t: "t \<noteq> IPI_MSG_NO_MESSAGE"
  shows "\<exists>w'. IPI_ConsumeIntent reg me HSS_HART_E51 t w = Some (pending_of me t w > 0, w') \<and> ipi_wf w' \<and> I w'
    \<and> (\<forall>u. pending_of me u w' = (if u = t then pending_of me u w - 1 else pending_of me u w))"
proof (cases "\<exists>m\<in>#mailbox_of HSS_HART_E51 me w. msg_type m = t")
  case True
  show ?thesis
  proof (rule bus_handler.consume_one [OF h w(1,3) reg t True w(2)])
    fix m :: IPI_Outbox_Msg and w'
    assume c: "IPI_ConsumeIntent reg me HSS_HART_E51 t w = Some (True, w')" "ipi_wf w'" "I w'" "msg_type m = t"
      "mailbox_of HSS_HART_E51 me w = add_mset m (mailbox_of HSS_HART_E51 me w')"
    then show ?thesis by (simp add: pending_of_def)
  qed
next
  case False
  then have "pending_of me t w = 0" by (auto simp: none_pending)
  moreover have "IPI_ConsumeIntent reg me HSS_HART_E51 t w = Some (False, w)"
    using IPI_ConsumeIntent_none [OF w(1,3) reg t] False by blast
  ultimately show ?thesis using w(1,2) by simp
qed

lemma handle_intents_serve:
  assumes "\<forall>t\<in>set ts. t \<noteq> IPI_MSG_NO_MESSAGE \<and> (\<exists>h. registry_lookup reg t = Some (Some h) \<and> (pending_of me t w = 0 \<or> bus_handler h I))"
    and "distinct ts" "ipi_wf w" "I w" "peers HSS_HART_E51 me"
  shows "\<exists>w'. handle_intents reg me ts found w = Some (found \<or> (\<exists>t\<in>set ts. pending_of me t w > 0), w') \<and> ipi_wf w' \<and> I w'
    \<and> (\<forall>u. pending_of me u w' = (if u \<in> set ts then pending_of me u w - 1 else pending_of me u w))"
  using assms
proof (induction ts arbitrary: found w)
  case (Cons t ts)
  obtain h where h: "t \<noteq> IPI_MSG_NO_MESSAGE" "registry_lookup reg t = Some (Some h)" "pending_of me t w = 0 \<or> bus_handler h I"
    using Cons.prems(1) by auto
  have "\<exists>w1. IPI_ConsumeIntent reg me HSS_HART_E51 t w = Some (pending_of me t w > 0, w1) \<and> ipi_wf w1 \<and> I w1
    \<and> (\<forall>u. pending_of me u w1 = (if u = t then pending_of me u w - 1 else pending_of me u w))"
  proof (cases "pending_of me t w = 0")
    case True
    then have "IPI_ConsumeIntent reg me HSS_HART_E51 t w = Some (False, w)"
      unfolding none_pending by (rule IPI_ConsumeIntent_none [OF Cons.prems(3,5) h(2,1)])
    then show ?thesis using True Cons.prems(3,4) by simp
  next
    case False
    with h(3) have "bus_handler h I" by simp
    then show ?thesis by (rule consume_counts [where I = I]) (fact Cons.prems h)+
  qed
  then obtain w1 where w1: "IPI_ConsumeIntent reg me HSS_HART_E51 t w = Some (pending_of me t w > 0, w1)" "ipi_wf w1" "I w1"
    "\<And>u. pending_of me u w1 = (if u = t then pending_of me u w - 1 else pending_of me u w)" by blast
  have same: "pending_of me u w1 = pending_of me u w" if "u \<in> set ts" for u using that Cons.prems(2) w1(4) by auto
  have "\<forall>u\<in>set ts. u \<noteq> IPI_MSG_NO_MESSAGE \<and> (\<exists>h. registry_lookup reg u = Some (Some h) \<and> (pending_of me u w1 = 0 \<or> bus_handler h I))"
    using Cons.prems(1) same by auto
  from Cons.IH [OF this _ w1(2,3) Cons.prems(5), of "pending_of me t w > 0 \<or> found"] Cons.prems(2)
  show ?case using w1(1,4) same by auto
qed simp

definition u54_ready :: "hart \<Rightarrow> 'a ddr_world_scheme \<Rightarrow> bool" where
  "u54_ready me w \<longleftrightarrow> pmp_ok me w \<and> ddr_ok w"

lemma u54_ready_more: "ipi_data.more w' = ipi_data.more w \<Longrightarrow> u54_ready me w' = u54_ready me w"
  using pmp_ok_more ddr_ok_more unfolding u54_ready_def by blast

lemma pmp_ready: "bus_handler (HSS_Boot_PMPSetupHandler me) (u54_ready me :: 'a ddr_world_scheme \<Rightarrow> bool)"
  unfolding u54_ready_def
proof (rule bus_handler_conj [OF pmp.bus_handler_axioms])
  show "ddr_ok s'" if "ipi_data.more s' = ipi_data.more s" "ddr_ok s" for s s' :: "'a ddr_world_scheme"
    using ddr_ok_more that by blast
  fix txid src imm ext anc r and s s' :: "'a ddr_world_scheme"
  assume "HSS_Boot_PMPSetupHandler me txid src imm ext anc s = Some (r, s')" and ok: "ddr_ok s"
  then have "\<exists>a b c d. s' = s\<lparr>hartStates := a, reportingFlag := b, pmpSetupFlag := c, pmp_configured := d\<rparr>
      \<or> s' = s\<lparr>hartStates := a, reportingFlag := b\<rparr>"
    by (auto simp: HSS_Boot_PMPSetupHandler_def HSS_U54_SetState_def HSS_U54_SetState_Ex_def Option.bind_eq_Some_conv split: if_splits)
  then show "ddr_ok s'" using ok by (auto simp: ddr_ok_def)
qed

lemma scrub_ready_handler: "bus_handler Scrub_IPIHandler (u54_ready me :: 'a ddr_world_scheme \<Rightarrow> bool)"
proof
  fix s s' :: "'a ddr_world_scheme"
  show "u54_ready me s'" if "ipi_data.more s' = ipi_data.more s" "u54_ready me s"
    using u54_ready_more [OF that(1)] that(2) by simp
qed (auto simp: Scrub_IPIHandler_def)

lemma ddr_ready:
  assumes "nwc_ok (nwc :: 'a ddr_world_scheme \<Rightarrow> _)"
  shows "bus_handler (HSS_DDR_Train_IPIHandler nwc) (u54_ready me)"
proof -
  have "pmp_ok me s'" if ok: "ddr_ok s" "pmp_ok me s" and h: "HSS_DDR_Train_IPIHandler nwc txid src imm ext anc s = Some (r, s')"
    for txid src imm ext anc r and s s' :: "'a ddr_world_scheme"
  proof -
    obtain w1 where "HSS_DDR_Train_IPIHandler nwc txid src imm ext anc s = Some (IPI_IDLE, w1\<lparr>ddr_trained := True\<rparr>)" "same_setup s w1"
      using Train_IPIHandler_spec [OF assms ok(1)] by blast
    then show ?thesis using h ok(2) by (auto simp: pmp_ok_def same_setup_def)
  qed
  then have "bus_handler (HSS_DDR_Train_IPIHandler nwc) (\<lambda>s. ddr_ok s \<and> pmp_ok me s)"
    by (intro bus_handler_conj [OF ddr_bus_handler [OF assms]]) (use pmp_ok_more in \<open>blast+\<close>)
  moreover have "(u54_ready me :: 'a ddr_world_scheme \<Rightarrow> bool) = (\<lambda>s. ddr_ok s \<and> pmp_ok me s)" by (auto simp: u54_ready_def)
  ultimately show ?thesis by simp
qed

text \<open>
  C21.  As long as no message that sends the hart away to its next boot stage (GOTO,
  OPENSBI_INIT) is pending, the dispatcher of an application hart takes exactly one message of
  each of the three kinds PMP set-up, scrub and DDR training that is pending from the monitor, whatever
  else is, leaves all of other kinds, and says whether there was one.
\<close>

theorem HSS_U54_HandleIPI_serves:
  fixes w :: "'a sgdma_world_scheme"
  assumes w: "ipi_wf w" "u54_ready me w" and nwc: "nwc_ok nwc"
    and stays: "pending_of me IPI_MSG_GOTO w = 0" "pending_of me IPI_MSG_OPENSBI_INIT w = 0"
  shows "\<exists>w'. HSS_U54_HandleIPI (ipiRegistry nwc me) me w
      = Some (\<exists>t\<in>{IPI_MSG_PMP_SETUP, IPI_MSG_SCRUB, IPI_MSG_DDR_TRAIN}. pending_of me t w > 0, w')
    \<and> (\<forall>t. pending_of me t w' = (if t \<in> {IPI_MSG_PMP_SETUP, IPI_MSG_SCRUB, IPI_MSG_DDR_TRAIN}
         then pending_of me t w - 1 else pending_of me t w)) \<and> ipi_wf w' \<and> u54_ready me w'"
proof -
  have p: "peers HSS_HART_E51 me" using w(2) by (auto simp: peers_def u54_ready_def pmp_ok_def)
  have t: "\<forall>t\<in>set intentsArray. t \<noteq> IPI_MSG_NO_MESSAGE \<and>
    (\<exists>h. registry_lookup (ipiRegistry nwc me) t = Some (Some h) \<and> (pending_of me t w = 0 \<or> bus_handler h (u54_ready me)))"
    by (simp add: intentsArray_def registry_entries pmp_ready scrub_ready_handler ddr_ready [OF nwc] stays)
  have "distinct intentsArray" by (simp add: intentsArray_def)
  from handle_intents_serve [OF t this w p, of False] stays show ?thesis
    unfolding HSS_U54_HandleIPI_def by (auto simp: intentsArray_def)
qed

theorem HSS_U54_HandleIPI_serves_witness:
  "\<forall>w :: sgdma_world. \<exists>v w'. IPI_Send HSS_HART_E51 2 IPI_MSG_SCRUB 0 0 0 0
      (bus_demo (w\<lparr>memtest_ctrs := [0, 0, 0, 0], ddrhi_bounds := 0\<rparr>)) = Some (True, v)
    \<and> HSS_U54_HandleIPI (ipiRegistry (Pair 0) 2) 2 v = Some (True, w') \<and> pending_of 2 IPI_MSG_SCRUB w' = 0"
proof
  fix w :: sgdma_world
  let ?d = "bus_demo (w\<lparr>memtest_ctrs := [0, 0, 0, 0], ddrhi_bounds := 0\<rparr>)"
  have p: "peers 0 2" "IPI_MSG_SCRUB \<noteq> IPI_MSG_NO_MESSAGE" by (simp_all add: peers_def)
  have empty: "mailbox_of 0 2 ?d = {#}" by (rule bus_demo(2) [OF p(1)])
  obtain v where v: "IPI_Send 0 2 IPI_MSG_SCRUB 0 0 0 0 ?d = Some (True, v)" "ipi_wf v"
    "mailbox_of 0 2 v = {# \<lparr> msg_type = IPI_MSG_SCRUB, transaction_id = 0, immediate_arg = 0, p_extended_buffer_in_ddr = 0, p_ancilliary_buffer_in_ddr = 0 \<rparr> #}"
    using IPI_Send_spec [OF bus_demo(1) p, of "w\<lparr>memtest_ctrs := [0, 0, 0, 0], ddrhi_bounds := 0\<rparr>" 0 0 0 0] empty
    by (auto simp: IPI_MAX_NUM_QUEUE_MESSAGES_def)
  have n: "pending_of 2 t v = (if t = IPI_MSG_SCRUB then 1 else 0)" for t by (simp add: pending_of_def v(3))
  have "u54_ready 2 ?d" using bus_demo(3) [of 2] by (simp add: u54_ready_def) (simp add: bus_demo_def ddr_ok_def IPI_QueuesInit_def)
  then have "u54_ready 2 v" using u54_ready_more [OF IPI_Send_more [OF v(1)]] by simp
  moreover have "nwc_ok (Pair 0 :: sgdma_world \<Rightarrow> _)" by (simp add: nwc_ok_def)
  ultimately have "\<exists>w'. HSS_U54_HandleIPI (ipiRegistry (Pair 0) 2) 2 v = Some (True, w') \<and> pending_of 2 IPI_MSG_SCRUB w' = 0"
    using HSS_U54_HandleIPI_serves [OF v(2), of 2 "Pair 0"] n by auto
  then show "\<exists>v w'. IPI_Send HSS_HART_E51 2 IPI_MSG_SCRUB 0 0 0 0 ?d = Some (True, v)
    \<and> HSS_U54_HandleIPI (ipiRegistry (Pair 0) 2) 2 v = Some (True, w') \<and> pending_of 2 IPI_MSG_SCRUB w' = 0" using v(1) by blast
qed

end
