(* ===== verification/HSS_Telemetry.thy ===== *)
theory HSS_Telemetry
  imports HSS_Crc
begin

text \<open>
  The telemetry link of the boot software (services/telemetry/telemetry_publish.c and
  services/telemetry/packet): a housekeeping report becomes a CCSDS packet with a PUS
  secondary header, the packet becomes a Hex20 frame, the frame goes to the UARTs.  Bit fields
  are words of their width.  A buffer is a list of bytes; a store or a copy outside it is
  \<open>None\<close>.  The packet buffer of \<^verbatim>\<open>do_tm_publish\<close> is a local array that nothing initialises: its
  content on entry is the argument \<open>raw\<close>, and \<open>report\<close> and \<open>hdr\<close>, the structures that are
  filled field by field, are arguments for the same reason.
\<close>

subsection \<open>Data\<close>

record CCSDS_PrimaryHeader =
  versionNumber :: "3 word"
  packetType :: "1 word"
  secondaryHeader :: "1 word"
  apid :: "11 word"
  sequenceFlag :: "2 word"
  sequenceCount :: "14 word"
  dataLength :: u16

record PUS_TmSecondaryHeader =
  versionTmPus :: "4 word"
  scTimeReferenceStatus :: "4 word"
  serviceType :: u8
  serviceSubType :: u8
  messageTypeCounter :: u16
  destinationId :: u16
  tm_time :: u32
  spare0 :: u8

record BOOT_HkBootSw =
  bootDevice :: u8
  bootStatus :: u8

record BOOT_HkReport =
  ccsdsPrimaryHeader :: CCSDS_PrimaryHeader
  pusTmSecondaryHeader :: PUS_TmSecondaryHeader
  structureId :: u16
  hkData :: BOOT_HkBootSw

text \<open>The statics: the two counters, the device, the time stamp of \<^verbatim>\<open>PusUtils.c\<close>.\<close>

record tm_statics =
  sequenceCounter :: u16
  sequenceCounterHighSeverity :: u16
  boot_device :: u8
  pusTmTimeStamp :: u32

definition tm_statics_reset :: tm_statics where
  "tm_statics_reset = \<lparr> sequenceCounter = 0, sequenceCounterHighSeverity = 0, boot_device = 255, pusTmTimeStamp = 0 \<rparr>"

abbreviation (input) M_FALSE :: u8 where "M_FALSE \<equiv> 0"
abbreviation (input) M_TRUE :: u8 where "M_TRUE \<equiv> 1"
abbreviation (input) PUS_DEFAULT_CRC_SEED :: u16 where "PUS_DEFAULT_CRC_SEED \<equiv> 0xFFFF"
abbreviation (input) PUS_DEFAULT_CRC_OFFSET :: u8 where "PUS_DEFAULT_CRC_OFFSET \<equiv> 0"
abbreviation (input) SBRO_PACKET_MAX_NB :: nat where "SBRO_PACKET_MAX_NB \<equiv> 200"
abbreviation (input) BOOT_HKID_BOOT_HK :: u16 where "BOOT_HKID_BOOT_HK \<equiv> 255"

subsection \<open>Filling the structures\<close>

definition CCSDS_FillPrimaryHeader :: "u8 \<Rightarrow> u8 \<Rightarrow> u16 \<Rightarrow> u16 \<Rightarrow> CCSDS_PrimaryHeader \<Rightarrow> CCSDS_PrimaryHeader" where
  "CCSDS_FillPrimaryHeader isTc hasSecondaryHeader app seqCount target =
     target\<lparr>versionNumber := 0, packetType := ucast isTc, secondaryHeader := ucast hasSecondaryHeader,
       apid := ucast app, sequenceFlag := 3, sequenceCount := ucast seqCount, dataLength := 0\<rparr>"

definition PUS_CreateTmHeader :: "tm_statics \<Rightarrow> u8 \<Rightarrow> u8 \<Rightarrow> u16 \<Rightarrow> u16 \<Rightarrow> PUS_TmSecondaryHeader" where
  "PUS_CreateTmHeader st stype ssub msgCounter dest =
     \<lparr> versionTmPus = 2, scTimeReferenceStatus = 0, serviceType = stype, serviceSubType = ssub,
       messageTypeCounter = msgCounter, destinationId = dest, tm_time = pusTmTimeStamp st, spare0 = 0 \<rparr>"

text \<open>A null \<^verbatim>\<open>hkData\<close> is \<open>None\<close>.\<close>

definition BOOTF_FillHkReport ::
    "CCSDS_PrimaryHeader \<Rightarrow> PUS_TmSecondaryHeader \<Rightarrow> u16 \<Rightarrow> BOOT_HkBootSw option \<Rightarrow> BOOT_HkReport \<Rightarrow> BOOT_HkReport" where
  "BOOTF_FillHkReport ccsds pus sid hk target =
     (let target1 = target\<lparr>ccsdsPrimaryHeader := ccsds, pusTmSecondaryHeader := pus, structureId := sid\<rparr> in
      case hk of None \<Rightarrow> target1 | Some d \<Rightarrow> target1\<lparr>hkData := d\<rparr>)"

subsection \<open>Serialising\<close>

text \<open>A buffer with the running size \<^verbatim>\<open>*totalDataSize\<close>; a store at it, then one more.\<close>

type_synonym packet_buf = "u8 list \<times> u16"

definition store :: "nat \<Rightarrow> u8 \<Rightarrow> u8 list \<Rightarrow> u8 list option" where
  "store i b target = (if i < length target then Some (target[i := b]) else None)"

definition emit :: "u8 \<Rightarrow> packet_buf \<Rightarrow> packet_buf option" where
  "emit b p = do { t \<leftarrow> store (unat (snd p)) b (fst p); Some (t, snd p + 1) }"

fun emit_all :: "u8 list \<Rightarrow> packet_buf \<Rightarrow> packet_buf option" where
  "emit_all [] p = Some p"
| "emit_all (b # bs) p = do { p1 \<leftarrow> emit b p; emit_all bs p1 }"

definition copy_to :: "nat \<Rightarrow> u8 list \<Rightarrow> u8 list \<Rightarrow> u8 list option" where
  "copy_to i bs target =
     (if i + length bs \<le> length target then Some (take i target @ bs @ drop (i + length bs) target) else None)"

text \<open>
  \<^verbatim>\<open>LEND_Swap\<close> refuses more than eight bytes; a 16-bit number lies in memory low byte first.
\<close>

definition LEND_Swap :: "u8 list \<Rightarrow> u8 list" where
  "LEND_Swap bytes = (if length bytes \<le> 8 then rev bytes else bytes)"

definition LEND_Host2Network :: "u8 list \<Rightarrow> u8 list" where
  "LEND_Host2Network bytes = LEND_Swap bytes"

definition le16 :: "u16 \<Rightarrow> u8 list" where
  "le16 x = [ucast x, ucast (drop_bit 8 x)]"

text \<open>
  The room test: the difference of two \<^verbatim>\<open>uint16_t\<close> is an \<^verbatim>\<open>int\<close> that is compared as a 64-bit
  unsigned number.
\<close>

definition has_room :: "u64 \<Rightarrow> u16 \<Rightarrow> u16 \<Rightarrow> bool" where
  "has_room need targetNb tot \<longleftrightarrow> need \<le> ucast targetNb - ucast tot"

definition BOOTSU_SerializeCCSDS_PrimaryHeader ::
    "u16 \<Rightarrow> CCSDS_PrimaryHeader \<Rightarrow> packet_buf \<Rightarrow> (bool \<times> packet_buf) option" where
  "BOOTSU_SerializeCCSDS_PrimaryHeader targetNb h p =
     (if has_room 6 targetNb (snd p) then do {
        t0 \<leftarrow> store 0 (push_bit 5 (ucast (versionNumber h) AND 0x03) OR push_bit 4 (ucast (packetType h) AND 0x01)
          OR push_bit 3 (ucast (secondaryHeader h) AND 0x01) OR ucast (drop_bit 8 ((ucast (apid h) :: u16) AND 0x300))) (fst p);
        t1 \<leftarrow> store 1 (ucast ((ucast (apid h) :: u16) AND 0xFF)) t0;
        t2 \<leftarrow> store 2 (push_bit 6 (ucast (sequenceFlag h) AND 0x03)
          OR ucast (drop_bit 8 ((ucast (sequenceCount h) :: u16) AND 0x3F00))) t1;
        t3 \<leftarrow> store 3 (ucast ((ucast (sequenceCount h) :: u16) AND 0xFF)) t2;
        t4 \<leftarrow> store 5 (ucast (drop_bit 8 (dataLength h AND 0xFF00))) t3;
        t5 \<leftarrow> store 5 (ucast (dataLength h AND 0xFF)) t4;
        Some (True, t5, snd p + 6)
      } else Some (False, p))"

definition BOOTSU_SerializePUS_TmSecondaryHeader ::
    "u16 \<Rightarrow> PUS_TmSecondaryHeader \<Rightarrow> packet_buf \<Rightarrow> (bool \<times> packet_buf) option" where
  "BOOTSU_SerializePUS_TmSecondaryHeader targetNb h p =
     (if has_room 12 targetNb (snd p) then do {
        p1 \<leftarrow> emit_all
          [push_bit 4 (ucast (versionTmPus h) AND 0x0F) OR (ucast (scTimeReferenceStatus h) AND 0x0F),
           serviceType h,
           serviceSubType h,
           ucast (drop_bit 8 (messageTypeCounter h AND 0xFF00)),
           ucast (messageTypeCounter h AND 0x00FF),
           ucast (drop_bit 8 (destinationId h AND 0xFF00)),
           ucast (destinationId h AND 0x00FF),
           ucast (drop_bit 24 (tm_time h AND 0xFF000000)),
           ucast (drop_bit 16 (tm_time h AND 0x00FF0000)),
           ucast (drop_bit 8 (tm_time h AND 0x0000FF00)),
           ucast (tm_time h AND 0x000000FF),
           spare0 h] p;
        Some (True, p1)
      } else Some (False, p))"

definition BOOTS_SerializeHkBootSw :: "BOOT_HkBootSw \<Rightarrow> packet_buf \<Rightarrow> packet_buf option" where
  "BOOTS_SerializeHkBootSw d p = emit_all [bootDevice d, bootStatus d] p"

text \<open>The results of the two header serialisers are not looked at.\<close>

definition BOOTS_SerializeHkReport :: "u16 \<Rightarrow> BOOT_HkReport \<Rightarrow> u8 list \<Rightarrow> (bool \<times> packet_buf) option" where
  "BOOTS_SerializeHkReport targetNb r target = do {
     (_, p1) \<leftarrow> BOOTSU_SerializeCCSDS_PrimaryHeader targetNb (ccsdsPrimaryHeader r) (target, 0);
     (_, p2) \<leftarrow> BOOTSU_SerializePUS_TmSecondaryHeader targetNb (pusTmSecondaryHeader r) p1;
     t3 \<leftarrow> copy_to (unat (snd p2)) (LEND_Host2Network (le16 (structureId r))) (fst p2);
     p4 \<leftarrow> (if structureId r = BOOT_HKID_BOOT_HK then BOOTS_SerializeHkBootSw (hkData r) (t3, snd p2 + 2)
           else Some (t3, snd p2 + 2));
     Some (True, p4)
   }"

text \<open>
  The end of the packet: its length, then the checksum over all that comes before it.
\<close>

definition PUS_FinalizePacket :: "packet_buf \<Rightarrow> packet_buf option" where
  "PUS_FinalizePacket p =
     (let tot = snd p + 2; dl = tot - 1 - 6 in do {
      t1 \<leftarrow> store 4 (ucast (drop_bit 8 (dl AND 0xFF00))) (fst p);
      t2 \<leftarrow> store 5 (ucast (dl AND 0xFF)) t1;
      assert_c (unat tot - 2 \<le> length t2);
      t3 \<leftarrow> copy_to (unat tot - 2)
        (LEND_Host2Network (le16 (CRC_CcsdsCrc16Get PUS_DEFAULT_CRC_SEED PUS_DEFAULT_CRC_OFFSET (take (unat tot - 2) t2)))) t2;
      Some (t3, tot)
    })"

text \<open>
  The Hex20 frame: both halves of the packet with a checksum of their own, between two
  synchronisation words.  The frame is built in a second local array of the same size.
\<close>

definition msb_first :: "u16 \<Rightarrow> u8 list" where
  "msb_first c = [ucast (drop_bit 8 (c AND 0xFF00)), ucast (c AND 0x00FF)]"

definition ConvertToHex20Format :: "packet_buf \<Rightarrow> packet_buf option" where
  "ConvertToHex20Format p =
     (let dataSize = unat (snd p - 18 - 2);
          headers = take 18 (fst p);
          hkbytes = take dataSize (drop 18 (fst p));
          frame = [0x1A, 0xCF, 0xFC, 0x1D]
            @ headers @ msb_first (CRC_CcsdsCrc16Get PUS_DEFAULT_CRC_SEED PUS_DEFAULT_CRC_OFFSET headers)
            @ hkbytes @ msb_first (CRC_CcsdsCrc16Get PUS_DEFAULT_CRC_SEED PUS_DEFAULT_CRC_OFFSET hkbytes)
            @ [0x1D, 0xFC, 0xCF, 0x1A]
      in do {
        assert_c (18 + dataSize \<le> length (fst p));
        assert_c (length frame \<le> SBRO_PACKET_MAX_NB);
        t \<leftarrow> copy_to 0 frame (fst p);
        Some (t, word_of_nat (length frame))
      })"

subsection \<open>Publishing\<close>

text \<open>
  \<^verbatim>\<open>update_boot_w25\<close>: the device follows the flash that was used and the slot that is
  configured (\<^verbatim>\<open>CONFIG_SERVICE_BOOT_DEVICE_NAME\<close>).
\<close>

definition update_boot_w25 :: "string \<Rightarrow> u8 \<Rightarrow> tm_statics \<Rightarrow> u8 \<times> tm_statics" where
  "update_boot_w25 slot boot_w25 st =
     (let st1 = (if slot = ''red'' \<and> boot_w25 \<noteq> 255 then st\<lparr>boot_device := 2 + boot_w25\<rparr>
                 else if slot = ''nom'' \<and> boot_w25 \<noteq> 255 then st\<lparr>boot_device := boot_w25\<rparr> else st)
      in (boot_device st1, st1))"

definition PUS_SetTmTimeStamp :: "u32 \<Rightarrow> tm_statics \<Rightarrow> tm_statics" where
  "PUS_SetTmTimeStamp timeStamp st = st\<lparr>pusTmTimeStamp := timeStamp\<rparr>"

text \<open>The bytes that are dumped and, on the boards with the link, transmitted.\<close>

definition do_tm_publish ::
    "u8 list \<Rightarrow> CCSDS_PrimaryHeader \<Rightarrow> BOOT_HkReport \<Rightarrow> u8 \<Rightarrow> tm_statics \<Rightarrow> (u8 list \<times> tm_statics) option" where
  "do_tm_publish raw hdr report boot_status st =
     (let ccsds = CCSDS_FillPrimaryHeader M_FALSE M_TRUE 34 (sequenceCounter st) hdr;
          st1 = st\<lparr>sequenceCounter := sequenceCounter st + 1\<rparr>;
          pus = PUS_CreateTmHeader st1 3 25 (sequenceCounterHighSeverity st1) 100;
          st2 = st1\<lparr>sequenceCounterHighSeverity := sequenceCounterHighSeverity st1 + 1\<rparr>;
          hkInfo = \<lparr> bootDevice = boot_device st2, bootStatus = boot_status \<rparr>;
          r = BOOTF_FillHkReport ccsds pus BOOT_HKID_BOOT_HK (Some hkInfo) report
      in do {
        (_, p1) \<leftarrow> BOOTS_SerializeHkReport (word_of_nat (length raw)) r raw;
        p2 \<leftarrow> PUS_FinalizePacket p1;
        p3 \<leftarrow> ConvertToHex20Format p2;
        Some (take (unat (snd p3)) (fst p3), st2)
      })"

subsection \<open>What a receiver on the ground does\<close>

text \<open>
  The specification of the link: a frame is accepted if it has the right length, both
  synchronisation words and both checksums; then its fields are read most significant byte
  first.
\<close>

record tm_message =
  msg_apid :: "11 word"
  msg_sequence :: "14 word"
  msg_service :: "u8 \<times> u8"
  msg_counter :: u16
  msg_destination :: u16
  msg_time :: u32
  msg_structure :: u16
  msg_device :: u8
  msg_status :: u8

definition be16 :: "u8 \<Rightarrow> u8 \<Rightarrow> u16" where
  "be16 hi lo = push_bit 8 (ucast hi) OR ucast lo"

definition be32 :: "u8 \<Rightarrow> u8 \<Rightarrow> u8 \<Rightarrow> u8 \<Rightarrow> u32" where
  "be32 a b c d = push_bit 16 (ucast (be16 a b)) OR ucast (be16 c d)"

definition tm_headers :: "u8 list \<Rightarrow> u8 list" where "tm_headers f = take 18 (drop 4 f)"
definition tm_hk :: "u8 list \<Rightarrow> u8 list" where "tm_hk f = take 4 (drop 24 f)"

definition tm_accepts :: "u8 list \<Rightarrow> bool" where
  "tm_accepts f \<longleftrightarrow> length f = 34 \<and> take 4 f = [0x1A, 0xCF, 0xFC, 0x1D] \<and> drop 30 f = [0x1D, 0xFC, 0xCF, 0x1A]
     \<and> be16 (f ! 22) (f ! 23) = crc16_loop 0xFFFF (tm_headers f) \<and> be16 (f ! 28) (f ! 29) = crc16_loop 0xFFFF (tm_hk f)"

definition tm_decode :: "u8 list \<Rightarrow> tm_message option" where
  "tm_decode f = (if tm_accepts f then Some
     \<lparr> msg_apid = ucast (be16 (f ! 4) (f ! 5)), msg_sequence = ucast (be16 (f ! 6) (f ! 7)), msg_service = (f ! 11, f ! 12),
       msg_counter = be16 (f ! 13) (f ! 14), msg_destination = be16 (f ! 15) (f ! 16),
       msg_time = be32 (f ! 17) (f ! 18) (f ! 19) (f ! 20), msg_structure = be16 (f ! 24) (f ! 25),
       msg_device = f ! 26, msg_status = f ! 27 \<rparr> else None)"

subsection \<open>Bytes\<close>

lemma low_byte [simp]: "ucast ((x :: 'a::len word) AND 0xFF) = (ucast x :: u8)"
proof -
  have ff: "(0xFF :: 'a word) = mask 8" by (simp add: mask_eq_exp_minus_1)
  show ?thesis
    unfolding ff take_bit_eq_mask [symmetric]
    by (rule bit_word_eqI) (auto simp: bit_simps dest: bit_imp_le_length)
qed

lemma byte_masks [simp]:
  "ucast (drop_bit 8 ((x :: u16) AND 0xFF00)) = (ucast (drop_bit 8 x) :: u8)"
  "ucast (drop_bit 24 ((y :: u32) AND 0xFF000000)) = (ucast (drop_bit 24 y) :: u8)"
  "ucast (drop_bit 16 (y AND 0xFF0000)) = (ucast (drop_bit 16 y) :: u8)"
  "ucast (drop_bit 8 (y AND 0xFF00)) = (ucast (drop_bit 8 y) :: u8)"
  by simp_all

lemma msb_first_alt: "msb_first c = [ucast (drop_bit 8 c), ucast c]"
  by (simp add: msb_first_def)

lemma be16_msb [simp]: "be16 (ucast (drop_bit 8 x)) (ucast x) = x"
  by (rule bit_word_eqI) (auto simp: be16_def bit_simps)

lemma be16_eq_iff: "be16 a b = be16 c d \<longleftrightarrow> a = c \<and> b = d"
proof
  assume eq: "be16 a b = be16 c d"
  have "ucast (drop_bit 8 (be16 x y)) = x" "ucast (be16 x y) = y" for x y
    by (rule bit_word_eqI, auto simp: be16_def bit_simps dest: bit_imp_le_length)+
  then show "a = c \<and> b = d" using eq by metis
qed simp

lemma be32_msb: "be32 (ucast (drop_bit 24 x)) (ucast (drop_bit 16 x)) (ucast (drop_bit 8 x)) (ucast x) = x"
proof -
  have "be16 (ucast (drop_bit 24 x)) (ucast (drop_bit 16 x)) = ucast (drop_bit 16 x)"
    "be16 (ucast (drop_bit 8 x)) (ucast x) = ucast x"
    by (rule bit_word_eqI, auto simp: be16_def bit_simps)+
  then show ?thesis
    by (simp add: be32_def) (rule bit_word_eqI, auto simp: bit_simps)
qed

subsection \<open>The frame in closed form\<close>

lemma emit_all_eq:
  "unat n + length bs \<le> length t \<Longrightarrow> length t < 2 ^ 16 \<Longrightarrow>
    emit_all bs (t, n) = Some (take (unat n) t @ bs @ drop (unat n + length bs) t, n + of_nat (length bs))"
proof (induction bs arbitrary: t n)
  case (Cons b bs)
  have n1: "unat (n + 1) = unat n + 1"
    using Cons.prems by (subst unat_add_lem [THEN iffD1]) auto
  have "emit b (t, n) = Some (t[unat n := b], n + 1)"
    using Cons.prems by (simp add: emit_def store_def)
  moreover have "take (unat n + 1) (t[unat n := b]) = take (unat n) t @ [b]"
    using Cons.prems by (simp add: take_Suc_conv_app_nth)
  ultimately show ?case
    using Cons.IH [of "n + 1" "t[unat n := b]"] Cons.prems by (simp add: n1)
qed simp

lemma copy_to_eq: "length xs = i \<Longrightarrow> copy_to i bs (xs @ ys) = (if length bs \<le> length ys then Some (xs @ bs @ drop (length bs) ys) else None)"
  by (simp add: copy_to_def)

definition tm_header_bytes :: "u16 \<Rightarrow> u16 \<Rightarrow> u32 \<Rightarrow> u8 list" where
  "tm_header_bytes seq counter time =
     [0x08, 34, 0xC0 OR ucast (drop_bit 8 ((ucast (ucast seq :: 14 word) :: u16) AND 0x3F00)), ucast (ucast (ucast seq :: 14 word) :: u16),
      0, 17, 0x20, 3, 25, ucast (drop_bit 8 counter), ucast counter, 0, 100,
      ucast (drop_bit 24 time), ucast (drop_bit 16 time), ucast (drop_bit 8 time), ucast time, 0]"

definition tm_frame :: "u8 list \<Rightarrow> u8 list \<Rightarrow> u8 list" where
  "tm_frame headers hk = [0x1A, 0xCF, 0xFC, 0x1D] @ headers @ msb_first (crc16_loop 0xFFFF headers)
     @ hk @ msb_first (crc16_loop 0xFFFF hk) @ [0x1D, 0xFC, 0xCF, 0x1A]"

lemma length_tm_header_bytes [simp]: "length (tm_header_bytes s c t) = 18"
  by (simp add: tm_header_bytes_def)

lemma length_msb_first [simp]: "length (msb_first c) = 2"
  by (simp add: msb_first_def)

lemma length_tm_frame: "length (tm_frame h d) = 12 + length h + length d"
  by (simp add: tm_frame_def)

text \<open>Serialising a report of the boot software: 22 bytes, of which the fifth is not written yet.\<close>

lemma network_le16: "LEND_Host2Network (le16 x) = msb_first x"
  by (simp add: LEND_Host2Network_def LEND_Swap_def le16_def msb_first_alt)

lemma six: "length xs = 6 \<Longrightarrow> \<exists>a b c d e f. xs = [a, b, c, d, e, f]"
  by (simp add: numeral_eq_Suc length_Suc_conv) blast

lemma take_drop_numeral: "length xs = m + n \<Longrightarrow> \<exists>ys zs. xs = ys @ zs \<and> length ys = m \<and> length zs = n"
  by (rule exI [of _ "take m xs"], rule exI [of _ "drop m xs"]) simp

lemma serialize_report:
  assumes raw: "length raw = 200" and sid: "structureId r = 255"
    and hd: "ccsdsPrimaryHeader r = CCSDS_FillPrimaryHeader 0 1 34 seq h" and pus: "pusTmSecondaryHeader r = PUS_CreateTmHeader st 3 25 cnt 100"
  shows "\<exists>x. BOOTS_SerializeHkReport 200 r raw = Some (True,
    (tm_header_bytes seq cnt (pusTmTimeStamp st))[4 := x, 5 := 0] @ [0, 255, bootDevice (hkData r), bootStatus (hkData r)] @ drop 22 raw, 22)"
proof -
  obtain front rest where r: "raw = front @ rest" "length front = 6" "length rest = 194"
    using take_drop_numeral [of raw 6 194] raw by auto
  obtain a b c d e f where f: "front = [a, b, c, d, e, f]" using six [OF r(2)] by blast
  have room: "has_room 6 200 0" "has_room 12 200 6" by (simp_all add: has_room_def)
  show ?thesis
    unfolding BOOTS_SerializeHkReport_def
    by (simp add: BOOTSU_SerializeCCSDS_PrimaryHeader_def BOOTSU_SerializePUS_TmSecondaryHeader_def room hd pus sid r f
      store_def emit_all_eq network_le16 copy_to_def BOOTS_SerializeHkBootSw_def CCSDS_FillPrimaryHeader_def PUS_CreateTmHeader_def
      tm_header_bytes_def msb_first_alt del: emit_all.simps)
qed

lemma finalize_report:
  assumes hk: "length hk = 4" and rest: "2 \<le> length rest"
  shows "\<exists>crc. PUS_FinalizePacket ((tm_header_bytes seq cnt time)[4 := x, 5 := y] @ hk @ rest, 22)
    = Some (tm_header_bytes seq cnt time @ hk @ msb_first crc @ drop 2 rest, 24)"
  using assms
  by (simp add: PUS_FinalizePacket_def store_def tm_header_bytes_def copy_to_def network_le16) (rule exI, rule refl)

lemma convert_report:
  assumes hk: "length hk = 4" and rest: "10 \<le> length rest" and crc: "length crc = 2" and h: "length headers = 18"
  shows "ConvertToHex20Format (headers @ hk @ crc @ rest, 24) = Some (tm_frame headers hk @ drop 10 rest, 34)"
proof -
  have c: "CRC_CcsdsCrc16Get 65535 0 xs = crc16_loop 0xFFFF xs" for xs
    by (simp add: CRC_CcsdsCrc16Get_bitserial)
  show ?thesis
    using assms
    by (simp add: ConvertToHex20Format_def Let_def c copy_to_def tm_frame_def)
qed

lemma do_tm_publish_eq:
  assumes raw: "length raw = 200"
  shows "do_tm_publish raw hdr report status st = Some
    (tm_frame (tm_header_bytes (sequenceCounter st) (sequenceCounterHighSeverity st) (pusTmTimeStamp st)) [0, 255, boot_device st, status],
     st\<lparr>sequenceCounter := sequenceCounter st + 1, sequenceCounterHighSeverity := sequenceCounterHighSeverity st + 1\<rparr>)"
proof -
  define r where "r = BOOTF_FillHkReport (CCSDS_FillPrimaryHeader 0 1 34 (sequenceCounter st) hdr)
    (PUS_CreateTmHeader (st\<lparr>sequenceCounter := sequenceCounter st + 1\<rparr>) 3 25 (sequenceCounterHighSeverity st) 100) 255
    (Some \<lparr> bootDevice = boot_device st, bootStatus = status \<rparr>) report"
  have r1: "structureId r = 255" "ccsdsPrimaryHeader r = CCSDS_FillPrimaryHeader 0 1 34 (sequenceCounter st) hdr"
    "pusTmSecondaryHeader r = PUS_CreateTmHeader st 3 25 (sequenceCounterHighSeverity st) 100"
    "hkData r = \<lparr> bootDevice = boot_device st, bootStatus = status \<rparr>"
    by (simp_all add: r_def BOOTF_FillHkReport_def PUS_CreateTmHeader_def)
  let ?h = "tm_header_bytes (sequenceCounter st) (sequenceCounterHighSeverity st) (pusTmTimeStamp st)"
  let ?d = "[0, 255, boot_device st, status]"
  obtain x where s: "BOOTS_SerializeHkReport 200 r raw = Some (True, ?h[4 := x, 5 := 0] @ ?d @ drop 22 raw, 22)"
    using serialize_report [OF raw r1(1-3)] r1(4) by auto
  obtain crc where f: "PUS_FinalizePacket (?h[4 := x, 5 := 0] @ ?d @ drop 22 raw, 22) = Some (?h @ ?d @ msb_first crc @ drop 24 raw, 24)"
    using finalize_report [of ?d "drop 22 raw" "sequenceCounter st" "sequenceCounterHighSeverity st" "pusTmTimeStamp st" x 0] raw by auto
  have c: "ConvertToHex20Format (?h @ ?d @ msb_first crc @ drop 24 raw, 24)
      = Some (tm_frame ?h ?d @ drop 34 raw, 34)"
    using convert_report [of ?d "drop 24 raw" "msb_first crc" ?h] raw by simp
  show ?thesis
    unfolding do_tm_publish_def Let_def r_def [symmetric]
    using r_def s f c raw by (simp add: length_tm_frame)
qed

subsection \<open>What the receiver sees\<close>

lemma frame_parts:
  assumes "length h = 18" "length d = 4" and f: "f = tm_frame h d"
  shows "length f = 34" "take 4 f = [0x1A, 0xCF, 0xFC, 0x1D]" "drop 30 f = [0x1D, 0xFC, 0xCF, 0x1A]"
    "tm_headers f = h" "tm_hk f = d" "take 2 (drop 22 f) = msb_first (crc16_loop 0xFFFF h)" "take 2 (drop 28 f) = msb_first (crc16_loop 0xFFFF d)"
  using assms by (simp_all add: tm_frame_def tm_headers_def tm_hk_def)

lemma tm_frame_accepted:
  assumes "length h = 18" "length d = 4"
  shows "tm_accepts (tm_frame h d)"
  using assms frame_parts [OF assms refl]
  by (simp add: tm_accepts_def) (simp add: tm_frame_def nth_append msb_first_alt)

lemma sequence_bytes:
  "ucast (be16 (0xC0 OR ucast (drop_bit 8 ((ucast s :: u16) AND 0x3F00))) (ucast (ucast s :: u16))) = (s :: 14 word)"
proof -
  have "(0xC0 :: u8) = push_bit 6 (mask 2)" by (simp add: mask_eq_exp_minus_1)
  then have c: "bit (0xC0 :: u8) k \<longleftrightarrow> 6 \<le> k \<and> k < 8" for k
    by (simp only: bit_push_bit_iff bit_mask_iff) auto
  have d: "bit (0x3F :: u16) k \<longleftrightarrow> k < 6" for k
    using bit_mask_iff [of 6 k, where 'a = u16] by (auto simp: mask_eq_exp_minus_1 dest: bit_imp_le_length)
  show ?thesis
  proof (rule bit_word_eqI)
    fix n assume "n < LENGTH(14)"
    then show "bit (ucast (be16 (0xC0 OR ucast (drop_bit 8 ((ucast s :: u16) AND 0x3F00))) (ucast (ucast s :: u16))) :: 14 word) n = bit s n"
      using c [of "n - 8"] d [of "n - 8"] by (auto simp: be16_def bit_simps)
  qed
qed

definition tm_report :: "u16 \<Rightarrow> u16 \<Rightarrow> u32 \<Rightarrow> u8 \<Rightarrow> u8 \<Rightarrow> tm_message" where
  "tm_report seq counter time device status =
     \<lparr> msg_apid = 34, msg_sequence = ucast seq, msg_service = (3, 25), msg_counter = counter, msg_destination = 100,
       msg_time = time, msg_structure = 255, msg_device = device, msg_status = status \<rparr>"

lemma decode_frame:
  "tm_decode (tm_frame (tm_header_bytes seq counter time) [0, 255, device, status]) = Some (tm_report seq counter time device status)"
proof -
  have acc: "tm_accepts (tm_frame (tm_header_bytes seq counter time) [0, 255, device, status])"
    by (rule tm_frame_accepted) simp_all
  have c: "ucast (be16 8 34) = (34 :: 11 word)" "be16 0 100 = 100" "be16 0 255 = 255"
    by (simp_all add: be16_def)
  show ?thesis
    using sequence_bytes [of "ucast seq"]
    by (simp add: tm_decode_def acc) (simp add: tm_frame_def tm_header_bytes_def tm_report_def c be32_msb msb_first_alt del: crc16_loop.simps)
qed

text \<open>A run of publications: the content of the buffers is arbitrary each time.\<close>

fun tm_publish_all :: "(u8 list \<times> CCSDS_PrimaryHeader \<times> BOOT_HkReport \<times> u8) list \<Rightarrow> tm_statics \<Rightarrow> (u8 list list \<times> tm_statics) option" where
  "tm_publish_all [] st = Some ([], st)"
| "tm_publish_all ((raw, hdr, report, status) # jobs) st = do {
     (f, st1) \<leftarrow> do_tm_publish raw hdr report status st;
     (fs, st2) \<leftarrow> tm_publish_all jobs st1;
     Some (f # fs, st2)
   }"

lemma tm_publish_all_eq:
  "(\<forall>j\<in>set jobs. length (fst j) = 200) \<Longrightarrow>
    \<exists>fs st'. tm_publish_all jobs st = Some (fs, st')
      \<and> map tm_decode fs = map (\<lambda>i. Some (tm_report (sequenceCounter st + of_nat i) (sequenceCounterHighSeverity st + of_nat i)
          (pusTmTimeStamp st) (boot_device st) (snd (snd (snd (jobs ! i)))))) [0..<length jobs]"
proof (induction jobs arbitrary: st)
  case (Cons j jobs)
  obtain raw hdr report status where j: "j = (raw, hdr, report, status)" by (cases j)
  let ?st = "st\<lparr>sequenceCounter := sequenceCounter st + 1, sequenceCounterHighSeverity := sequenceCounterHighSeverity st + 1\<rparr>"
  from Cons.IH [of ?st] Cons.prems obtain fs st' where IH: "tm_publish_all jobs ?st = Some (fs, st')"
      "map tm_decode fs = map (\<lambda>i. Some (tm_report (sequenceCounter ?st + of_nat i) (sequenceCounterHighSeverity ?st + of_nat i)
          (pusTmTimeStamp ?st) (boot_device ?st) (snd (snd (snd (jobs ! i)))))) [0..<length jobs]"
    by fastforce
  show ?case
    using IH(1) Cons.prems
    by (simp add: j do_tm_publish_eq decode_frame IH(2) upt_conv_Cons map_Suc_upt [symmetric] algebra_simps del: upt_Suc)
qed simp

text \<open>
  C27.  Whatever the uninitialised buffers hold, every boot message that is published arrives:
  any run of publications yields frames that the receiver decodes, in their order, to the
  statuses published with the current device and time stamp, numbered one after the other (the
  packet sequence modulo \<open>2 ^ 14\<close>, the message counter modulo \<open>2 ^ 16\<close>).
\<close>

theorem tm_stream_decodes:
  assumes "\<forall>j\<in>set jobs. length (fst j) = 200"
  shows "\<exists>fs st'. tm_publish_all jobs st = Some (fs, st')
    \<and> map tm_decode fs = map (\<lambda>i. Some (tm_report (sequenceCounter st + of_nat i) (sequenceCounterHighSeverity st + of_nat i)
        (pusTmTimeStamp st) (boot_device st) (snd (snd (snd (jobs ! i)))))) [0..<length jobs]"
  using assms by (rule tm_publish_all_eq)

subsection \<open>Damage on the way\<close>

lemma list_update_neq: "i < length xs \<Longrightarrow> b \<noteq> xs ! i \<Longrightarrow> xs[i := b] \<noteq> xs"
  by (metis nth_list_update_eq)

lemma crc16_update_neq:
  assumes i: "i < length xs" and b: "b \<noteq> xs ! i"
  shows "crc16_loop c (xs[i := b]) \<noteq> crc16_loop c xs"
proof -
  have "xs = take i xs @ xs ! i # drop (Suc i) xs" by (rule id_take_nth_drop [OF i])
  then have "crc16_loop c xs = crc16_loop c (take i xs @ xs ! i # drop (Suc i) xs)" by simp
  then show ?thesis
    using b by (simp add: upd_conv_take_nth_drop [OF i] crc16_loop_append crc16_loop_inject_seed crc16_updateByte_inject)
qed

lemma tm_damage_rejected:
  assumes acc: "tm_accepts f" and i: "i < 34" and b: "b \<noteq> f ! i"
  shows "\<not> tm_accepts (f[i := b])"
proof
  assume acc': "tm_accepts (f[i := b])"
  have len: "length f = 34" using acc by (simp add: tm_accepts_def)
  have h: "tm_headers (f[i := b]) = (if 4 \<le> i \<and> i < 22 then (tm_headers f)[i - 4 := b] else tm_headers f)"
    "tm_hk (f[i := b]) = (if 24 \<le> i \<and> i < 28 then (tm_hk f)[i - 24 := b] else tm_hk f)"
    using i len by (auto simp: tm_headers_def tm_hk_def drop_update_swap take_update_swap list_update_beyond)
  have e: "\<not> (4 \<le> i \<and> i < 22) \<Longrightarrow> be16 (f[i := b] ! 22) (f[i := b] ! 23) = be16 (f ! 22) (f ! 23)"
    "\<not> (24 \<le> i \<and> i < 28) \<Longrightarrow> be16 (f[i := b] ! 28) (f[i := b] ! 29) = be16 (f ! 28) (f ! 29)"
    using acc [unfolded tm_accepts_def] acc' [unfolded tm_accepts_def] h by (metis, metis)
  consider "i < 4" | "4 \<le> i" "i < 22" | "i = 22" | "i = 23" | "24 \<le> i" "i < 28" | "i = 28" | "i = 29" | "30 \<le> i"
    by linarith
  then show False
  proof cases
    case 1
    then have "(take 4 f)[i := b] = take 4 f"
      using acc acc' by (simp add: tm_accepts_def take_update_swap)
    then show False using list_update_neq [of i "take 4 f" b] 1 b len by simp
  next
    case 2
    then have "crc16_loop 0xFFFF ((tm_headers f)[i - 4 := b]) = crc16_loop 0xFFFF (tm_headers f)"
      using acc acc' h by (simp add: tm_accepts_def)
    then show False using crc16_update_neq [of "i - 4" "tm_headers f" b] 2 b len by (simp add: tm_headers_def)
  next
    case 5
    then have "crc16_loop 0xFFFF ((tm_hk f)[i - 24 := b]) = crc16_loop 0xFFFF (tm_hk f)"
      using acc acc' h by (simp add: tm_accepts_def)
    then show False using crc16_update_neq [of "i - 24" "tm_hk f" b] 5 b len by (simp add: tm_hk_def)
  next
    case 8
    then have "(drop 30 f)[i - 30 := b] = drop 30 f"
      using acc acc' by (simp add: tm_accepts_def drop_update_swap)
    then show False using list_update_neq [of "i - 30" "drop 30 f" b] 8 b i len by simp
  qed (use e b len in \<open>simp_all add: be16_eq_iff\<close>)
qed

text \<open>
  No damaged frame is taken for a report: if any one byte of a published frame changes on
  the way, in the synchronisation words, the fields or the checksums, the receiver rejects it.
\<close>

theorem tm_frame_damage_rejected:
  assumes raw: "length raw = 200" and pub: "do_tm_publish raw hdr report status st = Some (frame, st')"
    and i: "i < length frame" and b: "b \<noteq> frame ! i"
  shows "tm_decode (frame[i := b]) = None"
proof -
  let ?h = "tm_header_bytes (sequenceCounter st) (sequenceCounterHighSeverity st) (pusTmTimeStamp st)"
  have f: "frame = tm_frame ?h [0, 255, boot_device st, status]"
    using pub by (simp add: do_tm_publish_eq [OF raw])
  have "tm_accepts frame" unfolding f by (rule tm_frame_accepted) simp_all
  moreover have "i < 34" using i by (simp add: f length_tm_frame)
  ultimately show ?thesis using tm_damage_rejected b by (simp add: tm_decode_def)
qed

text \<open>The application identifier loses its highest bit.\<close>

lemma serializer_drops_apid_bit:
  "BOOTSU_SerializeCCSDS_PrimaryHeader n (h\<lparr>apid := a OR 0x400\<rparr>) p = BOOTSU_SerializeCCSDS_PrimaryHeader n (h\<lparr>apid := a\<rparr>) p"
proof -
  have "(ucast (a OR 0x400) :: u16) AND 0x300 = ucast a AND 0x300" "(ucast (a OR 0x400) :: u16) AND 0xFF = ucast a AND 0xFF"
    by (simp_all add: unsigned_or_eq bit.conj_disj_distrib2)
  then show ?thesis by (simp add: BOOTSU_SerializeCCSDS_PrimaryHeader_def)
qed

text \<open>The room test accepts a buffer that is already overfull.\<close>

lemma has_room_overfull: "has_room 6 22 23"
  by (simp add: has_room_def)

definition any_header :: CCSDS_PrimaryHeader where
  "any_header = \<lparr> versionNumber = 5, packetType = 1, secondaryHeader = 0, apid = 77, sequenceFlag = 1, sequenceCount = 9, dataLength = 4 \<rparr>"

definition any_report :: BOOT_HkReport where
  "any_report = \<lparr> ccsdsPrimaryHeader = any_header, pusTmSecondaryHeader = PUS_CreateTmHeader tm_statics_reset 1 2 3 4,
     structureId = 6, hkData = \<lparr> bootDevice = 7, bootStatus = 8 \<rparr> \<rparr>"

theorem tm_stream_decodes_witness:
  "\<exists>fs st'. tm_publish_all [(replicate 200 0xAA, any_header, any_report, 0), (replicate 200 0x55, any_header, any_report, 1)]
      (snd (update_boot_w25 ''red'' 1 tm_statics_reset)) = Some (fs, st')
    \<and> map tm_decode fs = [Some (tm_report 0 0 0 3 0), Some (tm_report 1 1 0 3 1)]"
  using tm_stream_decodes [of "[(replicate 200 0xAA, any_header, any_report, 0), (replicate 200 0x55, any_header, any_report, 1)]"
      "snd (update_boot_w25 ''red'' 1 tm_statics_reset)"]
  by (simp add: update_boot_w25_def tm_statics_reset_def)

theorem tm_frame_damage_rejected_witness:
  "\<exists>frame st'. do_tm_publish (replicate 200 0xAA) any_header any_report 7 tm_statics_reset = Some (frame, st')
    \<and> frame ! 27 = 7 \<and> tm_decode (frame[27 := 6]) = None"
proof -
  obtain frame st' where f: "do_tm_publish (replicate 200 0xAA) any_header any_report 7 tm_statics_reset = Some (frame, st')"
    and fr: "frame = tm_frame (tm_header_bytes 0 0 0) [0, 255, 255, 7]"
    by (simp add: do_tm_publish_eq tm_statics_reset_def)
  have "frame ! 27 = 7" "length frame = 34"
    by (simp_all add: fr length_tm_frame) (simp add: tm_frame_def tm_header_bytes_def msb_first_alt del: crc16_loop.simps)
  then show ?thesis
    using f tm_frame_damage_rejected [OF _ f, of 27 6] by simp
qed

end
