(* ===== verification/Spec2Isabelle.thy ===== *)
theory Spec2Isabelle
  imports HSS_Crc HSS_Gpt HSS_Ymodem HSS_Payload HSS_Registry HSS_Telemetry
begin

text \<open>
  Hart Software Services (HSS): verification library.

  \<^bold>\<open>The program.\<close>  The HSS is the first software that runs on the PolarFire SoC.  Hart 0 (the
  E51 monitor) runs a super loop over a table of state machines, the services; harts 1 to 4
  (the U54 application harts) sleep until a message arrives, serve it, and leave the HSS
  when they are told to boot.  The harts share one memory and talk through twenty bounded
  queues, one for each ordered pair of harts.  The library follows the C code of
  \<^verbatim>\<open>application\<close>, \<^verbatim>\<open>init\<close>, \<^verbatim>\<open>modules\<close> and \<^verbatim>\<open>services\<close>, in the configuration of
  \<^verbatim>\<open>boards/scai-dpu250/def_config\<close>.

  \<^bold>\<open>The state.\<close>  The globals and statics of the modules are one record that grows with the
  components, so that a component's operations run unchanged in the state of every later
  one: \<open>triggers\<close>, \<open>ipi_data\<close>, \<open>hss_clock\<close>, \<open>perf_world\<close>, \<open>u54_data\<close>, \<open>sm_world\<close>, \<open>pmp_world\<close>,
  \<open>dom_world\<close>, \<open>boot_world\<close>, \<open>uart_world\<close>, \<open>ddr_world\<close>, \<open>sbi_world\<close>, \<open>scrub_world\<close>,
  \<open>health_world\<close>, \<open>beu_world\<close>, \<open>wdog_world\<close>, \<open>sgdma_world\<close>,
  \<open>tm_world\<close>, \<open>top_world\<close>.
  Operations are functions on the record's scheme; the number of the hart that executes them
  (\<^verbatim>\<open>current_hartid\<close>) is the argument \<open>me\<close>.  A result \<open>None\<close> is a failed assertion, an access
  outside an array, or a loop that does not end, whichever the comment at the definition
  says.  Registers are words of their width.

  \<^bold>\<open>The theories\<close>, each with what it models and what its lemmas show.

  \<^item> \<^verbatim>\<open>HSS_Prelude\<close>: word synonyms, assertions, checked list access, \<open>find_index\<close>, the contract
    of a bounded slot array that the queues and the request table share.

  \<^item> \<^verbatim>\<open>HSS_Crc\<close>: the checksums of modules/misc/hss_crc32.c, hss_crc16.c and
    services/telemetry/packet/Crc.c.  The table-driven loops equal bit-serial division by the
    polynomial, compose over pieces, and detect any change of one byte.

  \<^item> \<^verbatim>\<open>HSS_Trigger\<close>: the event flags of modules/misc/hss_trigger.c.

  \<^item> \<^verbatim>\<open>HSS_Ipi\<close>: the message bus, modules/ssmb/ipi/ssmb_ipi.c.  The abstraction \<open>mailbox_of\<close>
    is the multiset of the messages in a queue.  Sending refines insertion into a bounded
    multiset; polling reports the sources with news; consuming removes one message, calls
    its handler and answers.  The locale \<open>bus_handler\<close> is the contract of a handler with the
    bus; under it a request makes the full circle from the sender's request table to the
    acknowledgement.  Two theorems show where transaction ids are not enough.

  \<^item> \<^verbatim>\<open>HSS_Clock\<close>: application/hart0/hss_clock.c and modules/debug/hss_perfctr.c.  The timer is
    an oracle, read by read; a spin delay ends exactly at the first read that is late enough.

  \<^item> \<^verbatim>\<open>HSS_U54\<close>: the states of the application harts (application/hart1-4/u54_state.c).

  \<^item> \<^verbatim>\<open>HSS_StateMachine\<close>: the scheduler (application/hart0/hss_state_machine.c) and the polling
    service.  The locale \<open>state_machine\<close> is what a service owes the scheduler; under it the
    scheduler never fails.  \<open>RunStateMachine_plain\<close> is the run of a machine without entry and
    exit handlers in closed form.

  \<^item> \<^verbatim>\<open>HSS_Pmp\<close>, \<^verbatim>\<open>HSS_Domains\<close>, \<^verbatim>\<open>HSS_Memory\<close>: the checks of services/boot/hss_boot_pmp.c, the
    domain ledger of services/opensbi/platform.c, and the byte memory with its copy.

  \<^item> \<^verbatim>\<open>HSS_Boot\<close>: the boot service (services/boot/hss_boot_service.c): four machines, one for
    each application hart, that walk from the image header to the running hart.  Header
    validation, the download of chunks, registration of the domains and restart requests are
    characterised; four theorems show requests that are lost or waits that never end.

  \<^item> \<^verbatim>\<open>HSS_MemTest\<close>: modules/misc/hss_memtest.c over an arbitrary memory device.  A result is the
    address of a word that fails and null if none does, as in the code.  On a region above address 0 the
    tests pass exactly when the words they look at lie in different cells; at address 0 a fault can pass.

  \<^item> \<^verbatim>\<open>HSS_Uart\<close>: console input (modules/misc/uart_helper.c), one list element per poll of the
    receiver.

  \<^item> \<^verbatim>\<open>HSS_Ddr\<close>: DDR training (services/ddr, init/hss_ddr_init.c): the service refines a small
    state machine, and a training completes across the service, the bus, the training hart
    and back.

  \<^item> \<^verbatim>\<open>HSS_Gpt\<close>: the GUID partition table (services/boot/gpt.c).  On a disk with a valid table the
    MMC boot path starts at the first block of the first partition of the boot type.

  \<^item> \<^verbatim>\<open>HSS_Ymodem\<close>: the YMODEM receiver (services/ymodem/ymodem_protocol.c) over the console
    input; its state \<open>loader_world\<close> extends \<open>ddr_world\<close>.  The receiver returns whatever arrives and
    stays in its buffer, and a file that is sent arrives.

  \<^item> \<^verbatim>\<open>HSS_Qspi\<close>: the QSPI flash: the page and block operations of
    baremetal/drivers/winbond_w25n01gv and the provider services/qspi/qspi_api.c with its table
    of bad blocks and its write-back cache.  The chip is the parameter \<open>nand\<close>.  Under the locale
    \<open>block_device\<close> any run of reads, writes and flushes is a run on an array of bytes; the cached
    provider meets it on a chip without bad blocks, and two theorems show what it does on others.

  \<^item> \<^verbatim>\<open>HSS_FpgaNand\<close>: the NAND flash behind the FPGA (baremetal/drivers/scai_fpgaqspi): the service
    functions, the MTD and NAND layers with the packed table of bad blocks, the SPI commands.
    Controller and chip are the parameter \<open>spi_controller\<close>; \<open>transfers_ok\<close>, \<open>array_ok\<close> and
    \<open>ident_ok\<close> say what the data sheet promises, for reads whose length is a multiple of four (the
    word loop of the controller driver does not end on others, which no theorem uses), and a chip that keeps the promises is at the
    end.  Data that is written to erased blocks is read back; three theorems show a read that
    never returns and what the table of bad blocks gets wrong.

  \<^item> \<^verbatim>\<open>HSS_BootInit\<close>: loading the boot image (init/hss_boot_init.c, hss_decompress.c): the media in
    their order, the copy to DDR, the decompression, the registration.  The state \<open>load_world\<close> adds
    the two flash drivers to \<open>loader_world\<close>; the parameter \<open>media\<close> holds the chips and the decompressor.
    The theorems show the load from each flash, the fallback, and two ways in which a damaged
    header defeats it.

  \<^item> \<^verbatim>\<open>HSS_Payload\<close>: the generator of boot images (tools/hss-payload-generator).  What it writes
    the monitor accepts, wherever the file lies, and finds in it the chunks and their data; put
    into the flash it boots.

  \<^item> \<^verbatim>\<open>HSS_OpenSbi\<close>: the two ways out of the HSS (services/goto, services/opensbi).

  \<^item> \<^verbatim>\<open>HSS_Scrub\<close>: the scrubber (services/scrub/scrub_service.c).

  \<^item> \<^verbatim>\<open>HSS_Health\<close>: the health monitor (services/healthmon/healthmon_service.c) with the table of
    the reference board.  Device registers are an oracle, like the clock.  The inductive
    relation \<open>health_run\<close> is any run of its passes with anything in between; a monitor is shown
    never to flood the console, and two theorems show what the checks of a single bit miss and what a check for changes invents.

  \<^item> \<^verbatim>\<open>HSS_Beu\<close>: the bus error monitor (services/beu/beu_service.c), over any history of errors
    that the hardware raises between its passes.

  \<^item> \<^verbatim>\<open>HSS_Wdog\<close>: the watchdog service and the reboot of harts (services/wdog, services/reboot):
    the operation \<open>HSS_reboot\<close> resets everything, in a build that always resets cold like the reference configuration, or
    restarts exactly the harts that share an owner with one whose watchdog has fired.  The service
    itself only reports that a reboot is required.

  \<^item> \<^verbatim>\<open>HSS_Sgdma\<close>: the scatter-gather copies (services/sgdma/sgdma_service.c): the three states of the
    service and the message handler that hands it a chain of blocks.

  \<^item> \<^verbatim>\<open>HSS_Tm\<close>: the telemetry service (services/telemetry/telemetry_service.c) with the converters of the
    board (boards/scai-dpu250/adcs.c), and the call by which a supervisor asks for a report
    (services/opensbi/opensbi_telemetry_ecall.c); every pass is shown to end without a failed
    assertion.  The text of a report is the parameter \<open>tm_text\<close>.

  \<^item> \<^verbatim>\<open>HSS_Telemetry\<close>: the boot messages on the telemetry link (services/telemetry/telemetry_publish.c and
    packet): header, serialiser, checksum, frame.  A receiver, specified on its own, decodes every
    published frame and rejects one with a damaged byte.

  \<^item> \<^verbatim>\<open>HSS_Registry\<close>: the tables that put the above together (application/hart0/hss_registry.c),
    the startup service, the dispatcher of the application harts and the super loop.  The table
    of machines has the fifteen entries of the reference configuration; the command line is the
    argument \<open>tinycli\<close>.  The super loop over ten of them, all but the four boot machines and
    the command line, is safe for any number of rounds as long as no scatter-gather request is pending; a
    scatter-gather request itself is followed from the queue to the end of its chain.

  \<^bold>\<open>Bounds and fuel.\<close>  Loops whose end depends on the environment (timer, console, addresses
  that wrap) are \<^theory_text>\<open>partial_function (option)\<close>, and the theorems state the result they return
  with.  The only fuel is in the decoder of PMP addresses (\<open>XLEN + 2\<close> steps; the loop shifts a
  64-bit mask) and in the number of rounds of the endless super loop, which is a parameter.

  \<^bold>\<open>Not modelled.\<close>  Everything that only prints, which is most of the command line.  Device
  drivers, the OpenSBI library, miniz, libelf and OpenSSL, which are third-party code: the
  training routine, the decompressor, the signature, the reader of ELF files and the
  initialisers and machines that only drive devices are arguments of the definitions that
  call them.  The services that the reference configuration leaves out (MMC, USB, crypto,
  GPIO menu, the publishing and sanity checks of the other boards).  Memory ordering: the harts'
  steps are interleaved as whole operations.  The build with the IHC inter-processor IP.
\<close>

end
